(* ===== verification/Prelude.thy ===== *)
theory Prelude
  imports Main "HOL-Library.Word" "HOL-Library.List_Lexorder" "HOL-Library.Char_ord"
    "HOL-Library.Multiset"
begin

text \<open>
  Shared vocabulary of the development: the machine-level types of the Rust crates, the result
  of a fallible operation, big-endian byte encodings, the record of third-party functions the
  code calls, and generic lemmas on lists that several components use.
\<close>

section \<open>Types and outcomes\<close>

type_synonym u8 = "8 word"
type_synonym bytes = "u8 list"

text \<open>
  A \<open>Uuid\<close> is sixteen bytes and a \<open>blake3::Hash\<close> thirty-two. As words their order is the order
  of the big-endian byte arrays, which is the order Rust and SQLite use for them. An \<open>i64\<close> is an
  integer in the range \<open>i64_ok\<close>, with every cast and overflow written out where it happens. A
  \<open>DateTime<Utc>\<close> is its \<open>timestamp_millis\<close>.
\<close>

type_synonym uuid = "128 word"
type_synonym hash = "256 word"
type_synonym datetime = int

definition i64_min :: int where "i64_min = - (2 ^ 63)"
definition i64_max :: int where "i64_max = 2 ^ 63 - 1"

definition i64_ok :: "int \<Rightarrow> bool" where
  "i64_ok v \<longleftrightarrow> i64_min \<le> v \<and> v \<le> i64_max"

text \<open>
  A call returns a value, returns an error value, or panics (an \<open>unwrap\<close> or \<open>expect\<close> that fails).
\<close>

datatype ('e, 'a) outcome = Ok 'a | Err 'e | Panic

fun bind_outcome :: "('e, 'a) outcome \<Rightarrow> ('a \<Rightarrow> ('e, 'b) outcome) \<Rightarrow> ('e, 'b) outcome" where
  "bind_outcome (Ok a) f = f a"
| "bind_outcome (Err e) f = Err e"
| "bind_outcome Panic f = Panic"

fun map_err :: "('e \<Rightarrow> 'f) \<Rightarrow> ('e, 'a) outcome \<Rightarrow> ('f, 'a) outcome" where
  "map_err g (Ok a) = Ok a"
| "map_err g (Err e) = Err (g e)"
| "map_err g Panic = Panic"

fun map_ok :: "('a \<Rightarrow> 'b) \<Rightarrow> ('e, 'a) outcome \<Rightarrow> ('e, 'b) outcome" where
  "map_ok g (Ok a) = Ok (g a)"
| "map_ok g (Err e) = Err e"
| "map_ok g Panic = Panic"

text \<open>\<open>iter.map(f).collect::<Result<Vec<_>, _>>()\<close>: stops at the first failure.\<close>

fun collect_results :: "('a \<Rightarrow> ('e, 'b) outcome) \<Rightarrow> 'a list \<Rightarrow> ('e, 'b list) outcome" where
  "collect_results f [] = Ok []"
| "collect_results f (x # xs) =
     bind_outcome (f x) (\<lambda>y. bind_outcome (collect_results f xs) (\<lambda>ys. Ok (y # ys)))"

named_theorems outcome_simps \<open>what a successful bind, map or collect says of its parts\<close>

lemma bind_outcome_Ok [outcome_simps]:
  "bind_outcome m f = Ok b \<longleftrightarrow> (\<exists>a. m = Ok a \<and> f a = Ok b)"
  by (cases m) auto

lemma bind_outcome_Err [outcome_simps]:
  "bind_outcome m f = Err e \<longleftrightarrow> m = Err e \<or> (\<exists>a. m = Ok a \<and> f a = Err e)"
  by (cases m) auto

lemma bind_outcome_Panic [outcome_simps]:
  "bind_outcome m f = Panic \<longleftrightarrow> m = Panic \<or> (\<exists>a. m = Ok a \<and> f a = Panic)"
  by (cases m) auto

lemma map_err_Ok [outcome_simps]: "map_err g m = Ok a \<longleftrightarrow> m = Ok a"
  by (cases m) auto

lemma map_ok_Ok [outcome_simps]: "map_ok g m = Ok b \<longleftrightarrow> (\<exists>a. m = Ok a \<and> b = g a)"
  by (cases m) auto

lemma collect_results_all_Ok:
  "(\<And>x. x \<in> set xs \<Longrightarrow> f x = Ok (g x)) \<Longrightarrow> collect_results f xs = Ok (map g xs)"
  by (induction xs) auto

lemma collect_results_Err:
  "x \<in> set xs \<Longrightarrow> (\<forall>y\<in>set xs. f y \<noteq> Panic) \<Longrightarrow> f x = Err e \<Longrightarrow> \<exists>e'. collect_results f xs = Err e'"
proof (induction xs)
  case (Cons y ys)
  then show ?case
    by (cases "f y"; cases "collect_results f ys") auto
qed simp

section \<open>Big-endian bytes\<close>

text \<open>
  \<open>to_be_bytes\<close> of an \<open>n\<close>-byte integer, unsigned or two's complement: the low byte is last.
\<close>

primrec be_bytes :: "nat \<Rightarrow> int \<Rightarrow> bytes" where
  "be_bytes 0 v = []"
| "be_bytes (Suc n) v = be_bytes n (v div 256) @ [word_of_int v]"

lemma length_be_bytes [simp]: "length (be_bytes n v) = n"
  by (induction n arbitrary: v) auto

lemma base256_digits:
  fixes r s u v :: int
  assumes "0 \<le> r" "r < 256" "0 \<le> s" "s < 256"
  shows "256 * u + r = 256 * v + s \<longleftrightarrow> u = v \<and> r = s"
proof
  assume eq: "256 * u + r = 256 * v + s"
  have "(256 * u + r) div 256 = u" "(256 * v + s) div 256 = v"
    using assms by (simp_all add: div_pos_pos_trivial)
  with eq have "u = v" by simp
  with eq show "u = v \<and> r = s" by simp
qed simp

lemma be_bytes_eq_iff: "be_bytes n a = be_bytes n b \<longleftrightarrow> a mod 256 ^ n = b mod 256 ^ n"
proof (induction n arbitrary: a b)
  case (Suc n)
  have low: "(word_of_int a :: u8) = word_of_int b \<longleftrightarrow> a mod 256 = b mod 256"
    by (simp add: word_of_int_eq_iff take_bit_eq_mod)
  have split: "x mod 256 ^ Suc n = 256 * ((x div 256) mod 256 ^ n) + x mod 256" for x :: int
    by (simp add: zmod_zmult2_eq)
  have pair: "256 * u + a mod 256 = 256 * v + b mod 256 \<longleftrightarrow> u = v \<and> a mod 256 = b mod 256"
    for u v :: int
    using base256_digits [of "a mod 256" "b mod 256" u v] by simp
  show ?case
    by (simp only: be_bytes.simps append1_eq_conv Suc.IH low split pair)
qed simp

lemma be_bytes_inj_uint:
  fixes a b :: "'a::len word"
  assumes "LENGTH('a) = 8 * n" and "be_bytes n (uint a) = be_bytes n (uint b)"
  shows "a = b"
proof -
  have "(256 :: int) ^ n = 2 ^ LENGTH('a)"
    by (simp add: assms(1) power_mult)
  then have "uint x mod 256 ^ n = uint x" for x :: "'a word"
    using uint_lt2p [of x] by simp
  then show ?thesis
    using assms(2) by (simp add: be_bytes_eq_iff word_uint_eq_iff)
qed

lemma be_bytes_inj_i64:
  assumes "i64_ok a" and "i64_ok b" and "be_bytes 8 a = be_bytes 8 b"
  shows "a = b"
proof -
  have "a mod 2 ^ 64 = b mod 2 ^ 64"
    using assms(3) by (simp add: be_bytes_eq_iff)
  then have "(a + 2 ^ 63) mod 2 ^ 64 = (b + 2 ^ 63) mod 2 ^ 64"
    by (rule mod_add_cong) simp
  moreover have "0 \<le> a + 2 ^ 63" "a + 2 ^ 63 < 2 ^ 64" "0 \<le> b + 2 ^ 63" "b + 2 ^ 63 < 2 ^ 64"
    using assms(1,2) by (auto simp: i64_ok_def i64_min_def i64_max_def)
  ultimately show ?thesis
    by (simp only: mod_pos_pos_trivial add_right_cancel)
qed

lemma be_bytes_inj_len:
  assumes "a < 2 ^ 64" and "b < 2 ^ 64" and "be_bytes 8 (int a) = be_bytes 8 (int b)"
  shows "a = b"
proof -
  have "int a mod 2 ^ 64 = int b mod 2 ^ 64"
    using assms(3) by (simp add: be_bytes_eq_iff)
  moreover have "int a < 2 ^ 64" "int b < 2 ^ 64"
    using assms(1,2) by simp_all
  ultimately show ?thesis by simp
qed

definition uuid_bytes :: "uuid \<Rightarrow> bytes" where
  "uuid_bytes u = be_bytes 16 (uint u)"

definition hash_bytes :: "hash \<Rightarrow> bytes" where
  "hash_bytes h = be_bytes 32 (uint h)"

definition str_bytes :: "string \<Rightarrow> bytes" where
  "str_bytes s = map (\<lambda>c. word_of_nat (of_char c)) s"

lemma length_uuid_bytes [simp]: "length (uuid_bytes u) = 16"
  by (simp add: uuid_bytes_def)

lemma length_hash_bytes [simp]: "length (hash_bytes h) = 32"
  by (simp add: hash_bytes_def)

lemma length_str_bytes [simp]: "length (str_bytes s) = length s"
  by (simp add: str_bytes_def)

lemma uuid_bytes_inject [simp]: "uuid_bytes a = uuid_bytes b \<longleftrightarrow> a = b"
  by (auto simp: uuid_bytes_def intro: be_bytes_inj_uint [of 16])

lemma hash_bytes_inject [simp]: "hash_bytes a = hash_bytes b \<longleftrightarrow> a = b"
  by (auto simp: hash_bytes_def intro: be_bytes_inj_uint [of 32])

lemma byte_of_char_inject:
  "(word_of_nat (of_char c) :: u8) = word_of_nat (of_char d) \<longleftrightarrow> c = d"
proof
  assume "(word_of_nat (of_char c) :: u8) = word_of_nat (of_char d)"
  then have "(of_char c :: nat) mod 256 = of_char d mod 256"
    by (simp add: word_of_nat_eq_iff take_bit_eq_mod del: of_char_mod_256)
  then show "c = d" by simp
qed simp

lemma str_bytes_inject [simp]: "str_bytes a = str_bytes b \<longleftrightarrow> a = b"
  unfolding str_bytes_def
  by (rule inj_map_eq_map) (simp add: inj_def byte_of_char_inject)

end
