(* ===== verification/Hashing.thy ===== *)
theory Hashing
  imports Prelude
begin

text \<open>
  \<open>NonNegativeI64\<close> (protocol/src/non_negative_i64): the newtype behind counts and sequence
  numbers, its conversions with their error branches, and the successor the version chain takes.
  The floating-point \<open>percentage\<close> is not modelled.
\<close>

datatype NonNegativeI64 = NonNegativeI64 (inner: int)

datatype NegativeValueError = NegativeValueError
datatype OutOfRangeError = OutOfRangeError

definition nn_MAX :: NonNegativeI64 where "nn_MAX = NonNegativeI64 i64_max"
definition nn_MIN :: NonNegativeI64 where "nn_MIN = NonNegativeI64 0"

definition nn_try_from_i64 :: "int \<Rightarrow> (NegativeValueError, NonNegativeI64) outcome" where
  "nn_try_from_i64 value = (if value \<ge> 0 then Ok (NonNegativeI64 value) else Err NegativeValueError)"

definition i64_from_nn :: "NonNegativeI64 \<Rightarrow> int" where
  "i64_from_nn v = inner v"

text \<open>The casts \<open>as u64\<close> and \<open>as i64\<close> reinterpret the 64 bits.\<close>

definition u64_from_nn :: "NonNegativeI64 \<Rightarrow> 64 word" where
  "u64_from_nn v = word_of_int (inner v)"

definition nn_try_from_u64 :: "64 word \<Rightarrow> (OutOfRangeError, NonNegativeI64) outcome" where
  "nn_try_from_u64 value =
     (if value \<le> word_of_int i64_max then Ok (NonNegativeI64 (sint value)) else Err OutOfRangeError)"

instantiation NonNegativeI64 :: linorder
begin

definition less_eq_NonNegativeI64 :: "NonNegativeI64 \<Rightarrow> NonNegativeI64 \<Rightarrow> bool" where
  "less_eq_NonNegativeI64 a b \<longleftrightarrow> inner a \<le> inner b"

definition less_NonNegativeI64 :: "NonNegativeI64 \<Rightarrow> NonNegativeI64 \<Rightarrow> bool" where
  "less_NonNegativeI64 a b \<longleftrightarrow> inner a < inner b"

instance
  by standard (auto simp: less_eq_NonNegativeI64_def less_NonNegativeI64_def NonNegativeI64.expand)

end

definition nn_ok :: "NonNegativeI64 \<Rightarrow> bool" where
  "nn_ok v \<longleftrightarrow> 0 \<le> inner v \<and> inner v \<le> i64_max"

lemma nn_ok_i64_ok: "nn_ok v \<Longrightarrow> i64_ok (inner v)"
  by (simp add: nn_ok_def i64_ok_def i64_min_def)

lemma nn_try_from_i64_Ok: "nn_try_from_i64 v = Ok c \<longleftrightarrow> 0 \<le> v \<and> c = NonNegativeI64 v"
  by (auto simp: nn_try_from_i64_def)

lemma nn_try_from_i64_roundtrip: "nn_ok c \<Longrightarrow> nn_try_from_i64 (i64_from_nn c) = Ok c"
  by (cases c) (simp add: nn_try_from_i64_def i64_from_nn_def nn_ok_def)

lemma uint_u64_from_nn: "nn_ok c \<Longrightarrow> uint (u64_from_nn c) = inner c"
  by (simp add: u64_from_nn_def nn_ok_def i64_max_def uint_word_of_int)

lemma u64_le_i64_max: "(w :: 64 word) \<le> word_of_int i64_max \<longleftrightarrow> uint w \<le> i64_max"
  by (simp add: word_le_def i64_max_def)

lemma sint_small:
  assumes "uint (w :: 64 word) \<le> i64_max"
  shows "sint w = uint w"
proof -
  have "- (2 ^ 63) \<le> uint w"
    by (rule order_trans [OF _ uint_nonnegative]) simp
  moreover have "uint w < 2 ^ 63"
    using assms by (simp add: i64_max_def)
  ultimately have "signed_take_bit 63 (uint w) = uint w"
    by (rule signed_take_bit_int_eq_self)
  then show ?thesis by (simp add: sint_uint)
qed

lemma nn_try_from_u64_Ok:
  "nn_try_from_u64 w = Ok c \<longleftrightarrow> uint w \<le> i64_max \<and> c = NonNegativeI64 (uint w)"
  by (auto simp: nn_try_from_u64_def u64_le_i64_max sint_small)

lemma nn_try_from_u64_ok: "nn_try_from_u64 w = Ok c \<Longrightarrow> nn_ok c"
  by (auto simp: nn_try_from_u64_Ok nn_ok_def)

text \<open>The count of the next version: one more, unless the count is already \<open>i64::MAX\<close>.\<close>

lemma nn_successor:
  assumes "nn_ok c"
  shows "nn_try_from_u64 (u64_from_nn c + 1) =
    (if inner c < i64_max then Ok (NonNegativeI64 (inner c + 1)) else Err OutOfRangeError)"
proof -
  have "uint (u64_from_nn c + 1) = inner c + 1"
    using assms by (simp add: uint_word_ariths uint_u64_from_nn) (simp add: nn_ok_def i64_max_def)
  then show ?thesis
    by (simp add: nn_try_from_u64_def u64_le_i64_max sint_small)
qed

text \<open>
  The canonical hash format (protocol/src/hash/hash.rs). BLAKE3 is not code of the repository:
  it is the parameter \<open>H\<close>, a function of the bytes fed to the hasher in order. The two byte
  layouts are written out field by field, and shown to be unambiguous: equal bytes come from
  equal fields, up to the order of the tag list, which the code sorts away.
\<close>

section \<open>The two layouts\<close>

definition ZERO_HASH :: hash where "ZERO_HASH = 0"

definition u8_of_bool :: "bool \<Rightarrow> u8" where
  "u8_of_bool b = (if b then 1 else 0)"

definition card_preimage ::
  "uuid \<Rightarrow> string \<Rightarrow> int \<Rightarrow> uuid list \<Rightarrow> bool \<Rightarrow> int \<Rightarrow> int \<Rightarrow> int \<Rightarrow> hash \<Rightarrow> int option \<Rightarrow> bytes" where
  "card_preimage uid content priority tags blazed created_at_ms modified_at_ms vcount ancestor_hash
     due_date_ms =
     (let sorted_tags = sort tags in
      uuid_bytes uid
      @ be_bytes 8 (int (length content))
      @ str_bytes content
      @ be_bytes 8 priority
      @ be_bytes 8 (int (length sorted_tags))
      @ concat (map uuid_bytes sorted_tags)
      @ [u8_of_bool blazed]
      @ be_bytes 8 created_at_ms
      @ be_bytes 8 modified_at_ms
      @ (case due_date_ms of None \<Rightarrow> [0] | Some ms \<Rightarrow> [1] @ be_bytes 8 ms)
      @ be_bytes 8 vcount
      @ hash_bytes ancestor_hash)"

definition canonical_card_hash ::
  "(bytes \<Rightarrow> hash) \<Rightarrow> uuid \<Rightarrow> string \<Rightarrow> int \<Rightarrow> uuid list \<Rightarrow> bool \<Rightarrow> int \<Rightarrow> int \<Rightarrow> int \<Rightarrow> hash
   \<Rightarrow> int option \<Rightarrow> hash" where
  "canonical_card_hash H uid content priority tags blazed created_at_ms modified_at_ms vcount
     ancestor_hash due_date_ms =
     H (card_preimage uid content priority tags blazed created_at_ms modified_at_ms vcount
         ancestor_hash due_date_ms)"

record RGB8 =
  red :: u8
  green :: u8
  blue :: u8

definition tag_preimage ::
  "uuid \<Rightarrow> string \<Rightarrow> int \<Rightarrow> int \<Rightarrow> int \<Rightarrow> hash \<Rightarrow> RGB8 option \<Rightarrow> uuid list \<Rightarrow> bytes" where
  "tag_preimage uid title created_at_ms modified_at_ms vcount ancestor_hash color implied =
     uuid_bytes uid
     @ be_bytes 8 (int (length title))
     @ str_bytes title
     @ be_bytes 8 created_at_ms
     @ be_bytes 8 modified_at_ms
     @ (case color of None \<Rightarrow> [0] | Some rgb \<Rightarrow> [1] @ [red rgb, green rgb, blue rgb])
     @ be_bytes 8 vcount
     @ hash_bytes ancestor_hash
     @ (if implied = [] then []
        else let sorted = sort implied in
          be_bytes 8 (int (length sorted)) @ concat (map uuid_bytes sorted))"

definition canonical_tag_hash ::
  "(bytes \<Rightarrow> hash) \<Rightarrow> uuid \<Rightarrow> string \<Rightarrow> int \<Rightarrow> int \<Rightarrow> int \<Rightarrow> hash \<Rightarrow> RGB8 option \<Rightarrow> uuid list
   \<Rightarrow> hash" where
  "canonical_tag_hash H uid title created_at_ms modified_at_ms vcount ancestor_hash color implied =
     H (tag_preimage uid title created_at_ms modified_at_ms vcount ancestor_hash color implied)"

section \<open>The layouts are unambiguous\<close>

lemma append_same_length:
  "length xs = length ys \<Longrightarrow> xs @ us = ys @ vs \<longleftrightarrow> xs = ys \<and> us = vs"
  by (rule append_eq_append_conv) simp

lemma concat_uuid_bytes_inj:
  "length xs = length ys \<Longrightarrow> concat (map uuid_bytes xs) = concat (map uuid_bytes ys) \<Longrightarrow> xs = ys"
  by (induction xs ys rule: list_induct2) (auto simp: append_same_length)

lemma length_concat_uuid_bytes [simp]: "length (concat (map uuid_bytes xs)) = 16 * length xs"
  by (induction xs) auto

lemma sort_eq_mset: "sort xs = sort ys \<longleftrightarrow> mset xs = mset ys"
  by (metis mset_sort properties_for_sort sorted_sort)

lemma RGB8_eq_iff: "(a :: RGB8) = b \<longleftrightarrow> red a = red b \<and> green a = green b \<and> blue a = blue b"
  by (cases a; cases b) simp

text \<open>A list behind its length is read back: the length first, then the elements.\<close>

lemma uuid_block_inj:
  assumes "length xs < 2 ^ 64" "length ys < 2 ^ 64"
    and eq: "be_bytes 8 (int (length xs)) @ concat (map uuid_bytes xs) @ us =
      be_bytes 8 (int (length ys)) @ concat (map uuid_bytes ys) @ vs"
  shows "xs = ys \<and> us = vs"
proof -
  from eq have "be_bytes 8 (int (length xs)) = be_bytes 8 (int (length ys))"
    and rest: "concat (map uuid_bytes xs) @ us = concat (map uuid_bytes ys) @ vs"
    by (simp_all add: append_same_length)
  then have len: "length xs = length ys"
    using assms(1,2) by (blast intro: be_bytes_inj_len)
  with rest show ?thesis
    by (auto simp: append_same_length intro: concat_uuid_bytes_inj)
qed

lemma string_block_inj:
  assumes "length xs < 2 ^ 64" "length ys < 2 ^ 64"
    and eq: "be_bytes 8 (int (length xs)) @ str_bytes xs @ us =
      be_bytes 8 (int (length ys)) @ str_bytes ys @ vs"
  shows "xs = ys \<and> us = vs"
proof -
  from eq have "be_bytes 8 (int (length xs)) = be_bytes 8 (int (length ys))"
    and rest: "str_bytes xs @ us = str_bytes ys @ vs"
    by (simp_all add: append_same_length)
  then have "length xs = length ys"
    using assms(1,2) by (blast intro: be_bytes_inj_len)
  with rest show ?thesis
    by (simp add: append_same_length)
qed

lemma due_block_inj:
  assumes "\<forall>ms. d = Some ms \<longrightarrow> i64_ok ms" "\<forall>ms. d' = Some ms \<longrightarrow> i64_ok ms"
    and "(case d of None \<Rightarrow> [0] | Some ms \<Rightarrow> [1] @ be_bytes 8 ms) @ us =
      (case d' of None \<Rightarrow> [0] | Some ms \<Rightarrow> [1] @ be_bytes 8 ms) @ vs"
  shows "d = d' \<and> us = vs"
  using assms by (cases d; cases d') (auto simp: append_same_length intro: be_bytes_inj_i64)

lemma color_block_inj:
  fixes c c' :: "RGB8 option"
  assumes "(case c of None \<Rightarrow> [0] | Some rgb \<Rightarrow> [1] @ [red rgb, green rgb, blue rgb]) @ us =
      (case c' of None \<Rightarrow> [0] | Some rgb \<Rightarrow> [1] @ [red rgb, green rgb, blue rgb]) @ vs"
  shows "c = c' \<and> us = vs"
  using assms by (cases c; cases c') (auto simp: RGB8_eq_iff)

lemma u8_of_bool_inject [simp]: "u8_of_bool a = u8_of_bool b \<longleftrightarrow> a = b"
  by (auto simp: u8_of_bool_def)

end
