(* ===== verification/Entities.thy ===== *)
theory Entities
  imports Hashing
begin

text \<open>
  The \<open>Entity\<close> trait (protocol/src/hash/hash.rs) and what a chain of versions gives. The locale
  \<open>entity\<close> holds the contract an implementor of the trait keeps: \<open>expected_hash\<close> is the hash of
  a byte layout that fixes the version's contents, and the constructors link a version to the one
  before it. The lemmas about chains are proved once here and interpreted for cards and for tags.
\<close>

section \<open>Verification and linking\<close>

definition entity_verify :: "('e \<Rightarrow> hash) \<Rightarrow> ('e \<Rightarrow> hash) \<Rightarrow> 'e \<Rightarrow> bool" where
  "entity_verify hash_of expected_hash e \<longleftrightarrow> hash_of e = expected_hash e"

text \<open>The loop over \<open>versions.windows(2)\<close> in the two push functions of the server.\<close>

definition windows_linked :: "('e \<Rightarrow> hash) \<Rightarrow> ('e \<Rightarrow> hash) \<Rightarrow> 'e list \<Rightarrow> bool" where
  "windows_linked ancestor_of hash_of versions \<longleftrightarrow>
     successively (\<lambda>w0 w1. ancestor_of w1 = hash_of w0) versions"

section \<open>The contract of an implementor\<close>

locale entity =
  fixes id_of :: "'e \<Rightarrow> uuid"
    and count_of :: "'e \<Rightarrow> NonNegativeI64"
    and ancestor_of :: "'e \<Rightarrow> hash"
    and hash_of :: "'e \<Rightarrow> hash"
    and preimage_of :: "'e \<Rightarrow> bytes"
    and H :: "bytes \<Rightarrow> hash"
    and valid :: "'e \<Rightarrow> bool"
    and same :: "'e \<Rightarrow> 'e \<Rightarrow> bool"
    and is_first :: "'e \<Rightarrow> bool"
    and is_next :: "'e \<Rightarrow> 'e \<Rightarrow> bool"
  assumes preimage_inj:
      "valid a \<Longrightarrow> valid b \<Longrightarrow> preimage_of a = preimage_of b \<Longrightarrow>
         same a b \<and> ancestor_of a = ancestor_of b"
    and first_ancestor: "is_first e \<Longrightarrow> ancestor_of e = ZERO_HASH"
    and first_count: "is_first e \<Longrightarrow> count_of e = NonNegativeI64 1"
    and first_hash: "is_first e \<Longrightarrow> hash_of e = H (preimage_of e)"
    and next_id: "is_next e e' \<Longrightarrow> id_of e' = id_of e"
    and next_count: "nn_ok (count_of e) \<Longrightarrow> is_next e e' \<Longrightarrow>
         count_of e' = NonNegativeI64 (inner (count_of e) + 1) \<and> nn_ok (count_of e')"
    and next_ancestor: "is_next e e' \<Longrightarrow> ancestor_of e' = hash_of e"
    and next_hash: "is_next e e' \<Longrightarrow> hash_of e' = H (preimage_of e')"
begin

abbreviation verified :: "'e \<Rightarrow> bool" where
  "verified e \<equiv> entity_verify hash_of (\<lambda>x. H (preimage_of x)) e"

text \<open>
  A chain as a client writes it: each version the \<open>next\<close> of the one before. Whatever its start,
  it passes the three checks of a push, keeps one id and counts up by one.
\<close>

lemma authored_verified:
  assumes "verified (hd xs)" and "successively is_next xs" and "x \<in> set xs"
  shows "verified x"
  using assms
  by (induction xs rule: induct_list012) (auto simp: entity_verify_def next_hash)

lemma authored_linked:
  "successively is_next xs \<Longrightarrow> windows_linked ancestor_of hash_of xs"
  unfolding windows_linked_def
  by (induction xs rule: induct_list012) (auto simp: next_ancestor)

lemma authored_id:
  "successively is_next xs \<Longrightarrow> x \<in> set xs \<Longrightarrow> id_of x = id_of (hd xs)"
  by (induction xs rule: induct_list012) (auto simp: next_id)

lemma authored_count:
  "successively is_next xs \<Longrightarrow> nn_ok (count_of (hd xs)) \<Longrightarrow> i < length xs \<Longrightarrow>
     count_of (xs ! i) = NonNegativeI64 (inner (count_of (hd xs)) + int i)"
proof (induction xs arbitrary: i rule: induct_list012)
  case (2 x)
  then show ?case by (cases "count_of x") simp
next
  case (3 x y zs)
  show ?case
  proof (cases i)
    case 0
    then show ?thesis by (cases "count_of x") simp
  next
    case (Suc j)
    have "count_of y = NonNegativeI64 (inner (count_of x) + 1)" "nn_ok (count_of y)"
      using next_count [of x y] 3 by auto
    then show ?thesis
      using 3 Suc by simp
  qed
qed simp

lemma first_verified: "is_first e \<Longrightarrow> verified e"
  by (simp add: entity_verify_def first_hash)

text \<open>
  Tamper evidence. Two verified, linked histories that start at the zero hash and end in the same
  hash have the same contents, version by version, provided the hash function does not collide on
  the versions themselves and does not hit the zero hash.
\<close>

lemma same_hash_same:
  assumes "valid a" "valid b" "verified a" "verified b" and "inj_on H (preimage_of ` {a, b})"
    and "hash_of a = hash_of b"
  shows "same a b \<and> ancestor_of a = ancestor_of b"
proof -
  have "H (preimage_of a) = H (preimage_of b)"
    using assms(3,4,6) unfolding entity_verify_def by metis
  then have "preimage_of a = preimage_of b"
    by (rule inj_onD [OF assms(5)]) simp_all
  then show ?thesis
    using preimage_inj [OF assms(1,2)] by blast
qed

lemma history_determined:
  assumes "xs \<noteq> []" "ys \<noteq> []"
    and "windows_linked ancestor_of hash_of xs" "windows_linked ancestor_of hash_of ys"
    and "\<forall>e \<in> set xs \<union> set ys. valid e \<and> verified e \<and> hash_of e \<noteq> ZERO_HASH"
    and "ancestor_of (hd xs) = ZERO_HASH" "ancestor_of (hd ys) = ZERO_HASH"
    and "inj_on H (preimage_of ` (set xs \<union> set ys))"
    and "hash_of (last xs) = hash_of (last ys)"
  shows "list_all2 same xs ys"
  using assms
proof (induction xs arbitrary: ys rule: rev_induct)
  case (snoc x xs)
  obtain y ys' where ys: "ys = ys' @ [y]"
    using snoc.prems(2) by (cases ys rule: rev_cases) auto
  have mem: "x \<in> set (xs @ [x]) \<union> set ys" "y \<in> set (xs @ [x]) \<union> set ys"
    by (auto simp: ys)
  have "inj_on H (preimage_of ` {x, y})"
    by (rule inj_on_subset [OF snoc.prems(8)]) (use mem in auto)
  then have same: "same x y" and anc: "ancestor_of x = ancestor_of y"
    using same_hash_same [of x y] snoc.prems(5,9) mem by (auto simp: ys)
  have link: "zs \<noteq> [] \<Longrightarrow> windows_linked ancestor_of hash_of (zs @ [z]) \<Longrightarrow>
      ancestor_of z = hash_of (last zs)" for zs z
    by (simp add: windows_linked_def successively_append_iff)
  show ?case
  proof (cases "xs = [] \<or> ys' = []")
    case True
    have "ys' = []" if "xs = []"
    proof (rule ccontr)
      assume ne: "ys' \<noteq> []"
      then have "hash_of (last ys') = ZERO_HASH"
        using link [of ys' y] snoc.prems(4,6) anc that by (simp add: ys)
      then show False
        using snoc.prems(5) ne by (auto simp: ys)
    qed
    moreover have "xs = []" if "ys' = []"
    proof (rule ccontr)
      assume ne: "xs \<noteq> []"
      then have "hash_of (last xs) = ZERO_HASH"
        using link [of xs x] snoc.prems(3,7) anc that by (simp add: ys)
      then show False
        using snoc.prems(5) ne by auto
    qed
    ultimately show ?thesis
      using True same by (auto simp: ys)
  next
    case False
    have "list_all2 same xs ys'"
    proof (rule snoc.IH)
      show "inj_on H (preimage_of ` (set xs \<union> set ys'))"
        by (rule inj_on_subset [OF snoc.prems(8)]) (auto simp: ys)
      show "hash_of (last xs) = hash_of (last ys')"
        using link [of xs x] link [of ys' y] snoc.prems(3,4) anc False by (simp add: ys)
    qed (use False snoc.prems in \<open>auto simp: ys windows_linked_def successively_append_iff\<close>)
    then show ?thesis
      using same by (simp add: ys list_all2_appendI)
  qed
qed simp

end

end
