(* ===== verification/Cards.thy ===== *)
theory Cards
  imports Entities
begin

text \<open>
  Cards (protocol/src/card/card.rs), deletion records (protocol/src/deleted_entity) and the root
  state (protocol/src/root). A card is the record of its eleven fields; its constructors and the
  \<open>Entity\<close> implementation follow the code, with the \<open>unwrap\<close> on the next count as a panic.
\<close>

section \<open>The record and its hash\<close>

record card =
  card_id :: uuid
  card_content :: string
  card_priority :: int
  card_tags :: "uuid list"
  card_blazed :: bool
  card_created_at :: datetime
  card_modified_at :: datetime
  card_due_date :: "datetime option"
  card_count :: NonNegativeI64
  card_ancestor_hash :: hash
  card_hash :: hash

datatype HashVerificationError = HashVerificationError

definition card_preimage_of :: "card \<Rightarrow> bytes" where
  "card_preimage_of c =
     card_preimage (card_id c) (card_content c) (card_priority c) (card_tags c) (card_blazed c)
       (card_created_at c) (card_modified_at c) (i64_from_nn (card_count c))
       (card_ancestor_hash c) (card_due_date c)"

definition card_expected_hash :: "(bytes \<Rightarrow> hash) \<Rightarrow> card \<Rightarrow> hash" where
  "card_expected_hash H c =
     canonical_card_hash H (card_id c) (card_content c) (card_priority c) (card_tags c)
       (card_blazed c) (card_created_at c) (card_modified_at c) (i64_from_nn (card_count c))
       (card_ancestor_hash c) (card_due_date c)"

definition card_verify :: "(bytes \<Rightarrow> hash) \<Rightarrow> card \<Rightarrow> bool" where
  "card_verify H c = entity_verify card_hash (card_expected_hash H) c"

section \<open>Constructors\<close>

definition card_from_parts ::
  "(bytes \<Rightarrow> hash) \<Rightarrow> uuid \<Rightarrow> string \<Rightarrow> int \<Rightarrow> uuid list \<Rightarrow> bool \<Rightarrow> datetime \<Rightarrow> datetime
   \<Rightarrow> NonNegativeI64 \<Rightarrow> hash \<Rightarrow> hash \<Rightarrow> datetime option \<Rightarrow> (HashVerificationError, card) outcome" where
  "card_from_parts H uid content priority tags blazed created_at modified_at vcount ancestor_hash
     hash due_date =
     (let card = \<lparr>card_id = uid, card_content = content, card_priority = priority,
          card_tags = tags, card_blazed = blazed, card_created_at = created_at,
          card_modified_at = modified_at, card_due_date = due_date, card_count = vcount,
          card_ancestor_hash = ancestor_hash, card_hash = hash\<rparr>
      in if card_verify H card then Ok card else Err HashVerificationError)"

definition card_first ::
  "(bytes \<Rightarrow> hash) \<Rightarrow> uuid \<Rightarrow> string \<Rightarrow> int \<Rightarrow> uuid list \<Rightarrow> bool \<Rightarrow> datetime \<Rightarrow> datetime option
   \<Rightarrow> card" where
  "card_first H uid content priority tags blazed created_at due_date =
     (let card = \<lparr>card_id = uid, card_content = content, card_priority = priority,
          card_tags = sort tags, card_blazed = blazed, card_created_at = created_at,
          card_modified_at = created_at, card_due_date = due_date,
          card_count = NonNegativeI64 1, card_ancestor_hash = ZERO_HASH,
          card_hash = ZERO_HASH\<rparr>
      in card\<lparr>card_hash := card_expected_hash H card\<rparr>)"

definition card_next ::
  "(bytes \<Rightarrow> hash) \<Rightarrow> card \<Rightarrow> string \<Rightarrow> int \<Rightarrow> uuid list \<Rightarrow> bool \<Rightarrow> datetime \<Rightarrow> datetime option
   \<Rightarrow> ('e, card) outcome" where
  "card_next H self content priority tags blazed modified_at due_date =
     (case nn_try_from_u64 (u64_from_nn (card_count self) + 1) of
        Ok vcount \<Rightarrow>
          (let card = \<lparr>card_id = card_id self, card_content = content,
               card_priority = priority, card_tags = sort tags, card_blazed = blazed,
               card_created_at = card_created_at self, card_modified_at = modified_at,
               card_due_date = due_date, card_count = vcount,
               card_ancestor_hash = card_hash self, card_hash = ZERO_HASH\<rparr>
           in Ok (card\<lparr>card_hash := card_expected_hash H card\<rparr>))
      | _ \<Rightarrow> Panic)"

section \<open>Cards are entities\<close>

text \<open>The ranges of the Rust types: an \<open>i64\<close>, a \<open>usize\<close> length, a non-negative count.\<close>

definition card_ok :: "card \<Rightarrow> bool" where
  "card_ok c \<longleftrightarrow>
     length (card_content c) < 2 ^ 64 \<and> i64_ok (card_priority c) \<and> length (card_tags c) < 2 ^ 64 \<and>
     i64_ok (card_created_at c) \<and> i64_ok (card_modified_at c) \<and> nn_ok (card_count c) \<and>
     (\<forall>ms. card_due_date c = Some ms \<longrightarrow> i64_ok ms)"

definition same_card :: "card \<Rightarrow> card \<Rightarrow> bool" where
  "same_card a b \<longleftrightarrow>
     card_id a = card_id b \<and> card_content a = card_content b \<and>
     card_priority a = card_priority b \<and> mset (card_tags a) = mset (card_tags b) \<and>
     card_blazed a = card_blazed b \<and> card_created_at a = card_created_at b \<and>
     card_modified_at a = card_modified_at b \<and> card_due_date a = card_due_date b \<and>
     card_count a = card_count b \<and> card_ancestor_hash a = card_ancestor_hash b"

definition is_card_first :: "(bytes \<Rightarrow> hash) \<Rightarrow> card \<Rightarrow> bool" where
  "is_card_first H c \<longleftrightarrow>
     (\<exists>uid content priority tags blazed created_at due_date.
        c = card_first H uid content priority tags blazed created_at due_date)"

definition is_card_next :: "(bytes \<Rightarrow> hash) \<Rightarrow> card \<Rightarrow> card \<Rightarrow> bool" where
  "is_card_next H c c' \<longleftrightarrow>
     (\<exists>content priority tags blazed modified_at due_date.
        (card_next H c content priority tags blazed modified_at due_date :: (unit, card) outcome)
          = Ok c')"

lemma card_expected_hash_preimage: "card_expected_hash H c = H (card_preimage_of c)"
  by (simp add: card_expected_hash_def canonical_card_hash_def card_preimage_of_def)

lemma card_expected_hash_update [simp]:
  "card_expected_hash H (c\<lparr>card_hash := h\<rparr>) = card_expected_hash H c"
  by (simp add: card_expected_hash_def)

lemma card_verify_iff: "card_verify H c \<longleftrightarrow> card_hash c = card_expected_hash H c"
  by (simp add: card_verify_def entity_verify_def)

lemma card_preimage_inj:
  assumes "card_ok a" "card_ok b" and eq: "card_preimage_of a = card_preimage_of b"
  shows "same_card a b \<and> card_ancestor_hash a = card_ancestor_hash b"
proof -
  note ok = assms(1,2) [unfolded card_ok_def]
  from eq have id: "card_id a = card_id b"
    and rest1: "be_bytes 8 (int (length (card_content a))) @ str_bytes (card_content a) @
      be_bytes 8 (card_priority a) @ be_bytes 8 (int (length (sort (card_tags a)))) @
      concat (map uuid_bytes (sort (card_tags a))) @ [u8_of_bool (card_blazed a)] @
      be_bytes 8 (card_created_at a) @ be_bytes 8 (card_modified_at a) @
      (case card_due_date a of None \<Rightarrow> [0] | Some ms \<Rightarrow> [1] @ be_bytes 8 ms) @
      be_bytes 8 (i64_from_nn (card_count a)) @ hash_bytes (card_ancestor_hash a) =
      be_bytes 8 (int (length (card_content b))) @ str_bytes (card_content b) @
      be_bytes 8 (card_priority b) @ be_bytes 8 (int (length (sort (card_tags b)))) @
      concat (map uuid_bytes (sort (card_tags b))) @ [u8_of_bool (card_blazed b)] @
      be_bytes 8 (card_created_at b) @ be_bytes 8 (card_modified_at b) @
      (case card_due_date b of None \<Rightarrow> [0] | Some ms \<Rightarrow> [1] @ be_bytes 8 ms) @
      be_bytes 8 (i64_from_nn (card_count b)) @ hash_bytes (card_ancestor_hash b)"
    by (simp_all only: card_preimage_of_def card_preimage_def Let_def append_same_length
        length_uuid_bytes uuid_bytes_inject)
  note rest2 = string_block_inj [OF _ _ rest1]
  from ok rest2 have content: "card_content a = card_content b" by blast
  from ok rest2 have rest3: "be_bytes 8 (card_priority a) = be_bytes 8 (card_priority b)"
    by (simp add: append_same_length)
  then have priority: "card_priority a = card_priority b"
    using ok by (blast intro: be_bytes_inj_i64)
  from ok rest2 have rest4: "be_bytes 8 (int (length (sort (card_tags a)))) @
      concat (map uuid_bytes (sort (card_tags a))) @ [u8_of_bool (card_blazed a)] @
      be_bytes 8 (card_created_at a) @ be_bytes 8 (card_modified_at a) @
      (case card_due_date a of None \<Rightarrow> [0] | Some ms \<Rightarrow> [1] @ be_bytes 8 ms) @
      be_bytes 8 (i64_from_nn (card_count a)) @ hash_bytes (card_ancestor_hash a) =
      be_bytes 8 (int (length (sort (card_tags b)))) @
      concat (map uuid_bytes (sort (card_tags b))) @ [u8_of_bool (card_blazed b)] @
      be_bytes 8 (card_created_at b) @ be_bytes 8 (card_modified_at b) @
      (case card_due_date b of None \<Rightarrow> [0] | Some ms \<Rightarrow> [1] @ be_bytes 8 ms) @
      be_bytes 8 (i64_from_nn (card_count b)) @ hash_bytes (card_ancestor_hash b)"
    by (simp only: append_same_length length_be_bytes)
  have lens: "length (sort (card_tags a)) < 2 ^ 64" "length (sort (card_tags b)) < 2 ^ 64"
    using ok by simp_all
  note rest5 = uuid_block_inj [OF lens rest4]
  from rest5 have tags: "mset (card_tags a) = mset (card_tags b)"
    by (simp only: sort_eq_mset)
  from rest5 have blazed: "card_blazed a = card_blazed b"
    and "be_bytes 8 (card_created_at a) = be_bytes 8 (card_created_at b)"
    and "be_bytes 8 (card_modified_at a) = be_bytes 8 (card_modified_at b)"
    and rest6: "(case card_due_date a of None \<Rightarrow> [0] | Some ms \<Rightarrow> [1] @ be_bytes 8 ms) @
      be_bytes 8 (i64_from_nn (card_count a)) @ hash_bytes (card_ancestor_hash a) =
      (case card_due_date b of None \<Rightarrow> [0] | Some ms \<Rightarrow> [1] @ be_bytes 8 ms) @
      be_bytes 8 (i64_from_nn (card_count b)) @ hash_bytes (card_ancestor_hash b)"
    by (simp_all only: append_same_length length_be_bytes append_Cons append_Nil list.inject
        u8_of_bool_inject)
  then have times: "card_created_at a = card_created_at b" "card_modified_at a = card_modified_at b"
    using ok by (blast intro: be_bytes_inj_i64)+
  have dues: "\<forall>ms. card_due_date a = Some ms \<longrightarrow> i64_ok ms"
      "\<forall>ms. card_due_date b = Some ms \<longrightarrow> i64_ok ms"
    using ok by blast+
  note rest7 = due_block_inj [OF dues rest6]
  then have "be_bytes 8 (i64_from_nn (card_count a)) = be_bytes 8 (i64_from_nn (card_count b))"
    and anc: "card_ancestor_hash a = card_ancestor_hash b"
    by (simp_all add: append_same_length)
  then have "i64_from_nn (card_count a) = i64_from_nn (card_count b)"
    using ok by (intro be_bytes_inj_i64) (simp_all add: i64_from_nn_def nn_ok_i64_ok)
  then have "card_count a = card_count b"
    by (simp add: i64_from_nn_def NonNegativeI64.expand)
  then show ?thesis
    using id content priority tags blazed times rest7 anc by (simp add: same_card_def)
qed

lemma card_next_Ok:
  assumes "card_next H c content priority tags blazed modified_at due_date = Ok c'"
  shows "card_id c' = card_id c" "card_ancestor_hash c' = card_hash c"
    "card_hash c' = H (card_preimage_of c')" "card_content c' = content"
    "card_priority c' = priority" "card_tags c' = sort tags" "card_blazed c' = blazed"
    "card_created_at c' = card_created_at c" "card_modified_at c' = modified_at"
    "card_due_date c' = due_date"
    "nn_try_from_u64 (u64_from_nn (card_count c) + 1) = Ok (card_count c')"
  using assms
  by (auto simp: card_next_def Let_def card_expected_hash_def canonical_card_hash_def
      card_preimage_of_def split: outcome.splits)

lemma nn_successor_Ok:
  "nn_ok c \<Longrightarrow> nn_try_from_u64 (u64_from_nn c + 1) = Ok c' \<Longrightarrow>
     c' = NonNegativeI64 (inner c + 1) \<and> nn_ok c'"
  by (auto simp: nn_successor nn_ok_def split: if_splits)

lemma card_first_simps [simp]:
  "card_id (card_first H uid content priority tags blazed created_at due_date) = uid"
  "card_content (card_first H uid content priority tags blazed created_at due_date) = content"
  "card_priority (card_first H uid content priority tags blazed created_at due_date) = priority"
  "card_tags (card_first H uid content priority tags blazed created_at due_date) = sort tags"
  "card_blazed (card_first H uid content priority tags blazed created_at due_date) = blazed"
  "card_created_at (card_first H uid content priority tags blazed created_at due_date) = created_at"
  "card_modified_at (card_first H uid content priority tags blazed created_at due_date) = created_at"
  "card_due_date (card_first H uid content priority tags blazed created_at due_date) = due_date"
  "card_count (card_first H uid content priority tags blazed created_at due_date) =
     NonNegativeI64 1"
  "card_ancestor_hash (card_first H uid content priority tags blazed created_at due_date) =
     ZERO_HASH"
  by (simp_all add: card_first_def Let_def)

lemma card_first_verify [simp]:
  "card_verify H (card_first H uid content priority tags blazed created_at due_date)"
  by (simp add: card_verify_iff card_first_def Let_def card_expected_hash_def)

lemma is_card_next_facts:
  assumes "is_card_next H c c'"
  shows "card_id c' = card_id c" "card_ancestor_hash c' = card_hash c"
    "card_hash c' = H (card_preimage_of c')"
    "nn_try_from_u64 (u64_from_nn (card_count c) + 1) = Ok (card_count c')"
  using assms unfolding is_card_next_def by (blast dest: card_next_Ok)+

lemma is_card_first_facts:
  assumes "is_card_first H c"
  shows "card_ancestor_hash c = ZERO_HASH" "card_count c = NonNegativeI64 1"
    "card_hash c = H (card_preimage_of c)"
proof -
  show "card_ancestor_hash c = ZERO_HASH" "card_count c = NonNegativeI64 1"
    using assms by (auto simp: is_card_first_def)
  have "card_verify H c"
    using assms by (auto simp: is_card_first_def)
  then show "card_hash c = H (card_preimage_of c)"
    by (simp add: card_verify_iff card_expected_hash_preimage)
qed

interpretation card: entity card_id card_count card_ancestor_hash card_hash card_preimage_of H
  card_ok same_card "is_card_first H" "is_card_next H" for H
proof unfold_locales
  fix a b :: card
  assume "card_ok a" "card_ok b" "card_preimage_of a = card_preimage_of b"
  then show "same_card a b \<and> card_ancestor_hash a = card_ancestor_hash b"
    by (rule card_preimage_inj)
next
  fix e e' :: card
  assume "nn_ok (card_count e)" "is_card_next H e e'"
  then show "card_count e' = NonNegativeI64 (inner (card_count e) + 1) \<and> nn_ok (card_count e')"
    by (blast dest: is_card_next_facts(4) nn_successor_Ok)
qed (fact is_card_first_facts is_card_next_facts)+

section \<open>Deletion records and the root state\<close>

record deleted_entity =
  deleted_id :: uuid
  deleted_hash :: hash

definition deleted_new :: "(bytes \<Rightarrow> hash) \<Rightarrow> uuid \<Rightarrow> deleted_entity" where
  "deleted_new H uid = \<lparr>deleted_id = uid, deleted_hash = H (uuid_bytes uid)\<rparr>"

definition deleted_from_parts :: "uuid \<Rightarrow> hash \<Rightarrow> deleted_entity" where
  "deleted_from_parts uid h = \<lparr>deleted_id = uid, deleted_hash = h\<rparr>"

definition deleted_verify :: "(bytes \<Rightarrow> hash) \<Rightarrow> deleted_entity \<Rightarrow> bool" where
  "deleted_verify H d \<longleftrightarrow> deleted_hash d = H (uuid_bytes (deleted_id d))"

record root_state =
  root_hash :: hash
  root_sequence :: NonNegativeI64

definition root_empty :: root_state where
  "root_empty = \<lparr>root_hash = ZERO_HASH, root_sequence = nn_MIN\<rparr>"

end
