(* ===== verification/Tags.thy ===== *)
theory Tags
  imports Cards
begin

text \<open>
  Tags (protocol/src/tag/tag.rs): the record, the normalisation of an implies list, and the
  constructors. Tags are the second implementor of the \<open>Entity\<close> trait.
\<close>

section \<open>The record and its hash\<close>

record tag =
  tag_id :: uuid
  tag_title :: string
  tag_color :: "RGB8 option"
  tag_created_at :: datetime
  tag_modified_at :: datetime
  tag_count :: NonNegativeI64
  tag_ancestor_hash :: hash
  tag_hash :: hash
  tag_implies :: "uuid list"

definition tag_preimage_of :: "tag \<Rightarrow> bytes" where
  "tag_preimage_of t =
     tag_preimage (tag_id t) (tag_title t) (tag_created_at t) (tag_modified_at t)
       (i64_from_nn (tag_count t)) (tag_ancestor_hash t) (tag_color t) (tag_implies t)"

definition tag_expected_hash :: "(bytes \<Rightarrow> hash) \<Rightarrow> tag \<Rightarrow> hash" where
  "tag_expected_hash H t =
     canonical_tag_hash H (tag_id t) (tag_title t) (tag_created_at t) (tag_modified_at t)
       (i64_from_nn (tag_count t)) (tag_ancestor_hash t) (tag_color t) (tag_implies t)"

definition tag_verify :: "(bytes \<Rightarrow> hash) \<Rightarrow> tag \<Rightarrow> bool" where
  "tag_verify H t = entity_verify tag_hash (tag_expected_hash H) t"

text \<open>\<open>Vec::dedup\<close> removes repeated neighbours; after the sort these are all the duplicates.\<close>

definition normalize_implies :: "uuid list \<Rightarrow> uuid list" where
  "normalize_implies implied = remdups_adj (sort implied)"

section \<open>Constructors\<close>

definition tag_from_parts ::
  "(bytes \<Rightarrow> hash) \<Rightarrow> uuid \<Rightarrow> string \<Rightarrow> RGB8 option \<Rightarrow> datetime \<Rightarrow> datetime \<Rightarrow> NonNegativeI64
   \<Rightarrow> hash \<Rightarrow> hash \<Rightarrow> uuid list \<Rightarrow> (HashVerificationError, tag) outcome" where
  "tag_from_parts H uid title color created_at modified_at vcount ancestor_hash hash implied =
     (let tag = \<lparr>tag_id = uid, tag_title = title, tag_color = color, tag_created_at = created_at,
          tag_modified_at = modified_at, tag_count = vcount, tag_ancestor_hash = ancestor_hash,
          tag_hash = hash, tag_implies = normalize_implies implied\<rparr>
      in if tag_verify H tag then Ok tag else Err HashVerificationError)"

definition tag_first_with_implies ::
  "(bytes \<Rightarrow> hash) \<Rightarrow> uuid \<Rightarrow> string \<Rightarrow> RGB8 option \<Rightarrow> uuid list \<Rightarrow> datetime \<Rightarrow> tag" where
  "tag_first_with_implies H uid title color implied created_at =
     (let tag = \<lparr>tag_id = uid, tag_title = title, tag_color = color, tag_created_at = created_at,
          tag_modified_at = created_at, tag_count = NonNegativeI64 1,
          tag_ancestor_hash = ZERO_HASH, tag_hash = ZERO_HASH,
          tag_implies = normalize_implies implied\<rparr>
      in tag\<lparr>tag_hash := tag_expected_hash H tag\<rparr>)"

definition tag_first ::
  "(bytes \<Rightarrow> hash) \<Rightarrow> uuid \<Rightarrow> string \<Rightarrow> RGB8 option \<Rightarrow> datetime \<Rightarrow> tag" where
  "tag_first H uid title color created_at = tag_first_with_implies H uid title color [] created_at"

definition tag_next_with_implies ::
  "(bytes \<Rightarrow> hash) \<Rightarrow> tag \<Rightarrow> string \<Rightarrow> RGB8 option \<Rightarrow> uuid list \<Rightarrow> datetime
   \<Rightarrow> ('e, tag) outcome" where
  "tag_next_with_implies H self title color implied modified_at =
     (case nn_try_from_u64 (u64_from_nn (tag_count self) + 1) of
        Ok vcount \<Rightarrow>
          (let tag = \<lparr>tag_id = tag_id self, tag_title = title, tag_color = color,
               tag_created_at = tag_created_at self, tag_modified_at = modified_at,
               tag_count = vcount, tag_ancestor_hash = tag_hash self, tag_hash = ZERO_HASH,
               tag_implies = normalize_implies implied\<rparr>
           in Ok (tag\<lparr>tag_hash := tag_expected_hash H tag\<rparr>))
      | _ \<Rightarrow> Panic)"

definition tag_next ::
  "(bytes \<Rightarrow> hash) \<Rightarrow> tag \<Rightarrow> string \<Rightarrow> RGB8 option \<Rightarrow> datetime \<Rightarrow> ('e, tag) outcome" where
  "tag_next H self title color modified_at =
     tag_next_with_implies H self title color (tag_implies self) modified_at"

section \<open>Tags are entities\<close>

definition tag_ok :: "tag \<Rightarrow> bool" where
  "tag_ok t \<longleftrightarrow>
     length (tag_title t) < 2 ^ 64 \<and> i64_ok (tag_created_at t) \<and> i64_ok (tag_modified_at t) \<and>
     nn_ok (tag_count t) \<and> length (tag_implies t) < 2 ^ 64"

definition same_tag :: "tag \<Rightarrow> tag \<Rightarrow> bool" where
  "same_tag a b \<longleftrightarrow>
     tag_id a = tag_id b \<and> tag_title a = tag_title b \<and> tag_color a = tag_color b \<and>
     tag_created_at a = tag_created_at b \<and> tag_modified_at a = tag_modified_at b \<and>
     tag_count a = tag_count b \<and> tag_ancestor_hash a = tag_ancestor_hash b \<and>
     mset (tag_implies a) = mset (tag_implies b)"

definition is_tag_first :: "(bytes \<Rightarrow> hash) \<Rightarrow> tag \<Rightarrow> bool" where
  "is_tag_first H t \<longleftrightarrow>
     (\<exists>uid title color implied created_at.
        t = tag_first_with_implies H uid title color implied created_at)"

definition is_tag_next :: "(bytes \<Rightarrow> hash) \<Rightarrow> tag \<Rightarrow> tag \<Rightarrow> bool" where
  "is_tag_next H t t' \<longleftrightarrow>
     (\<exists>title color implied modified_at.
        (tag_next_with_implies H t title color implied modified_at :: (unit, tag) outcome) = Ok t')"

lemma tag_expected_hash_preimage: "tag_expected_hash H t = H (tag_preimage_of t)"
  by (simp add: tag_expected_hash_def canonical_tag_hash_def tag_preimage_of_def)

lemma tag_verify_iff: "tag_verify H t \<longleftrightarrow> tag_hash t = tag_expected_hash H t"
  by (simp add: tag_verify_def entity_verify_def)

definition implies_block :: "uuid list \<Rightarrow> bytes" where
  "implies_block us = (if us = [] then [] else let sorted = sort us in
     be_bytes 8 (int (length sorted)) @ concat (map uuid_bytes sorted))"

lemma implies_block_Nil [simp]: "implies_block [] = []"
  by (simp add: implies_block_def)

lemma implies_block_nonempty:
  "us \<noteq> [] \<Longrightarrow>
     implies_block us = be_bytes 8 (int (length (sort us))) @ concat (map uuid_bytes (sort us)) @ []"
  by (simp only: implies_block_def Let_def if_False append_Nil2)

lemma length_implies_block: "us \<noteq> [] \<Longrightarrow> 8 \<le> length (implies_block us)"
  by (simp add: implies_block_def Let_def)

lemma implies_block_inj:
  assumes "length xs < 2 ^ 64" "length ys < 2 ^ 64" and eq: "implies_block xs = implies_block ys"
  shows "mset xs = mset ys"
proof (cases "xs = [] \<or> ys = []")
  case True
  then have "xs = [] \<and> ys = []"
    using eq length_implies_block [of xs] length_implies_block [of ys] by fastforce
  then show ?thesis by simp
next
  case False
  then have "be_bytes 8 (int (length (sort xs))) @ concat (map uuid_bytes (sort xs)) @ [] =
      be_bytes 8 (int (length (sort ys))) @ concat (map uuid_bytes (sort ys)) @ []"
    using eq by (metis implies_block_nonempty)
  then have "sort xs = sort ys"
    using uuid_block_inj [of "sort xs" "sort ys" "[]" "[]"] assms(1,2) by simp
  then show ?thesis by (simp only: sort_eq_mset)
qed

lemma tag_preimage_inj:
  assumes "tag_ok a" "tag_ok b" and eq: "tag_preimage_of a = tag_preimage_of b"
  shows "same_tag a b \<and> tag_ancestor_hash a = tag_ancestor_hash b"
proof -
  note ok = assms(1,2) [unfolded tag_ok_def]
  from eq have id: "tag_id a = tag_id b"
    and rest1: "be_bytes 8 (int (length (tag_title a))) @ str_bytes (tag_title a) @
      be_bytes 8 (tag_created_at a) @ be_bytes 8 (tag_modified_at a) @
      (case tag_color a of None \<Rightarrow> [0] | Some rgb \<Rightarrow> [1] @ [red rgb, green rgb, blue rgb]) @
      be_bytes 8 (i64_from_nn (tag_count a)) @ hash_bytes (tag_ancestor_hash a) @
      implies_block (tag_implies a) =
      be_bytes 8 (int (length (tag_title b))) @ str_bytes (tag_title b) @
      be_bytes 8 (tag_created_at b) @ be_bytes 8 (tag_modified_at b) @
      (case tag_color b of None \<Rightarrow> [0] | Some rgb \<Rightarrow> [1] @ [red rgb, green rgb, blue rgb]) @
      be_bytes 8 (i64_from_nn (tag_count b)) @ hash_bytes (tag_ancestor_hash b) @
      implies_block (tag_implies b)"
    by (simp_all only: tag_preimage_of_def tag_preimage_def implies_block_def append_same_length
        length_uuid_bytes uuid_bytes_inject)
  note rest2 = string_block_inj [OF _ _ rest1]
  from ok rest2 have title: "tag_title a = tag_title b" by blast
  from ok rest2 have bytes: "be_bytes 8 (tag_created_at a) = be_bytes 8 (tag_created_at b)"
    "be_bytes 8 (tag_modified_at a) = be_bytes 8 (tag_modified_at b)"
    and rest3: "(case tag_color a of None \<Rightarrow> [0] | Some rgb \<Rightarrow> [1] @ [red rgb, green rgb, blue rgb]) @
      be_bytes 8 (i64_from_nn (tag_count a)) @ hash_bytes (tag_ancestor_hash a) @
      implies_block (tag_implies a) =
      (case tag_color b of None \<Rightarrow> [0] | Some rgb \<Rightarrow> [1] @ [red rgb, green rgb, blue rgb]) @
      be_bytes 8 (i64_from_nn (tag_count b)) @ hash_bytes (tag_ancestor_hash b) @
      implies_block (tag_implies b)"
    by (simp_all only: append_same_length length_be_bytes)
  then have times: "tag_created_at a = tag_created_at b" "tag_modified_at a = tag_modified_at b"
    using ok by (blast intro: be_bytes_inj_i64)+
  note rest4 = color_block_inj [OF rest3]
  then have count: "be_bytes 8 (i64_from_nn (tag_count a)) = be_bytes 8 (i64_from_nn (tag_count b))"
    and anc: "tag_ancestor_hash a = tag_ancestor_hash b"
    and block: "implies_block (tag_implies a) = implies_block (tag_implies b)"
    by (simp_all only: append_same_length length_be_bytes length_hash_bytes hash_bytes_inject)
  from count have "i64_from_nn (tag_count a) = i64_from_nn (tag_count b)"
    using ok by (intro be_bytes_inj_i64) (simp_all add: i64_from_nn_def nn_ok_i64_ok)
  then have "tag_count a = tag_count b"
    by (simp add: i64_from_nn_def NonNegativeI64.expand)
  moreover have "mset (tag_implies a) = mset (tag_implies b)"
    using block ok by (intro implies_block_inj) auto
  ultimately show ?thesis
    using id title times rest4 anc by (simp add: same_tag_def)
qed

lemma set_normalize_implies [simp]: "set (normalize_implies us) = set us"
  by (simp add: normalize_implies_def)

lemma strict_sorted_remdups_adj: "sorted us \<Longrightarrow> sorted_wrt (<) (remdups_adj us)"
  by (induction us rule: remdups_adj.induct) (auto simp: less_le)

lemma sorted_normalize_implies [simp]: "sorted_wrt (<) (normalize_implies us)"
  by (simp add: normalize_implies_def strict_sorted_remdups_adj)

lemma normalize_implies_id: "sorted_wrt (<) us \<Longrightarrow> normalize_implies us = us"
  by (simp add: normalize_implies_def strict_sorted_iff sorted_sort_id remdups_adj_distinct)

lemma normalize_implies_idem [simp]:
  "normalize_implies (normalize_implies us) = normalize_implies us"
  by (simp add: normalize_implies_id)

lemma tag_next_Ok:
  assumes "tag_next_with_implies H t title color implied modified_at = Ok t'"
  shows "tag_id t' = tag_id t" "tag_ancestor_hash t' = tag_hash t"
    "tag_hash t' = H (tag_preimage_of t')" "tag_title t' = title" "tag_color t' = color"
    "tag_implies t' = normalize_implies implied" "tag_created_at t' = tag_created_at t"
    "tag_modified_at t' = modified_at"
    "nn_try_from_u64 (u64_from_nn (tag_count t) + 1) = Ok (tag_count t')"
  using assms
  by (auto simp: tag_next_with_implies_def Let_def tag_expected_hash_def canonical_tag_hash_def
      tag_preimage_of_def split: outcome.splits)

lemma tag_first_simps [simp]:
  "tag_id (tag_first_with_implies H uid title color implied created_at) = uid"
  "tag_implies (tag_first_with_implies H uid title color implied created_at) =
     normalize_implies implied"
  "tag_count (tag_first_with_implies H uid title color implied created_at) = NonNegativeI64 1"
  "tag_ancestor_hash (tag_first_with_implies H uid title color implied created_at) = ZERO_HASH"
  by (simp_all add: tag_first_with_implies_def Let_def)

lemma tag_first_verify [simp]:
  "tag_verify H (tag_first_with_implies H uid title color implied created_at)"
  by (simp add: tag_verify_iff tag_first_with_implies_def Let_def tag_expected_hash_def)

lemma is_tag_next_facts:
  assumes "is_tag_next H t t'"
  shows "tag_id t' = tag_id t" "tag_ancestor_hash t' = tag_hash t"
    "tag_hash t' = H (tag_preimage_of t')"
    "nn_try_from_u64 (u64_from_nn (tag_count t) + 1) = Ok (tag_count t')"
  using assms unfolding is_tag_next_def by (blast dest: tag_next_Ok)+

lemma is_tag_first_facts:
  assumes "is_tag_first H t"
  shows "tag_ancestor_hash t = ZERO_HASH" "tag_count t = NonNegativeI64 1"
    "tag_hash t = H (tag_preimage_of t)"
proof -
  show "tag_ancestor_hash t = ZERO_HASH" "tag_count t = NonNegativeI64 1"
    using assms by (auto simp: is_tag_first_def)
  have "tag_verify H t"
    using assms by (auto simp: is_tag_first_def)
  then show "tag_hash t = H (tag_preimage_of t)"
    by (simp add: tag_verify_iff tag_expected_hash_preimage)
qed

interpretation tag: entity tag_id tag_count tag_ancestor_hash tag_hash tag_preimage_of H
  tag_ok same_tag "is_tag_first H" "is_tag_next H" for H
proof unfold_locales
  fix a b :: tag
  assume "tag_ok a" "tag_ok b" "tag_preimage_of a = tag_preimage_of b"
  then show "same_tag a b \<and> tag_ancestor_hash a = tag_ancestor_hash b"
    by (rule tag_preimage_inj)
next
  fix e e' :: tag
  assume "nn_ok (tag_count e)" "is_tag_next H e e'"
  then show "tag_count e' = NonNegativeI64 (inner (tag_count e) + 1) \<and> nn_ok (tag_count e')"
    by (blast dest: is_tag_next_facts(4) nn_successor_Ok)
qed (fact is_tag_first_facts is_tag_next_facts)+

end
