(* ===== verification/Protocol_Types.thy ===== *)
theory Protocol_Types
  imports Tags
begin

text \<open>
  The request, response and error types of the protocol (protocol/src/types), with the predicates
  the transports branch on and the extraction functions of a client. Constructor names shared by
  several Rust enums are told apart by their type, as in \<open>push_error.AlreadyDeleted\<close>; the
  variants of \<open>Response\<close> carry the prefix \<open>Resp\<close>, those of \<open>PushItem\<close> the prefix \<open>Item\<close>.
\<close>

section \<open>Errors\<close>

datatype push_error =
    CardAncestorMismatch card
  | TagAncestorMismatch tag
  | AlreadyDeleted
  | OrphanedTagReference (orphaned_tag_id: uuid) (referencing_card_ids: "uuid list")
  | HashVerificationFailed
  | EmptyChain
  | DuplicatePriority (conflicting_id: uuid) (conflicting_priority: int)
  | TagImplicationViolation (violating_card_id: uuid) (missing_tags: "uuid list")
  | TagImplicationCycle (cycle_tags: "uuid list")
  | OrphanedTagImpliesReference uuid (referencing_tag_ids: "uuid list")
  | TagImpliesUnknown (implying_tag_id: uuid) (unknown_tags: "uuid list")

datatype batch_item_error =
    PushFailure push_error
  | NotFound
  | AlreadyDeleted
  | Internal

datatype protocol_error =
    NotFound
  | AlreadyDeleted
  | PushFailed push_error
  | BatchFailed (batch_index: "32 word") (batch_error: batch_item_error)
  | RootHashMismatch (mismatch_sequence: NonNegativeI64) (mismatch_expected: hash)
  | UnsupportedRequest
  | Internal

definition protocol_error_from_push :: "push_error \<Rightarrow> protocol_error" where
  "protocol_error_from_push e = PushFailed e"

section \<open>Requests\<close>

datatype card_filter = FilterAll | FilterBlazed | FilterExtinguished

datatype push_item =
    ItemCards "card list"
  | ItemTags "tag list"
  | ItemDeleteCard uuid
  | ItemDeleteTag uuid

datatype request =
    PushCardVersions "card list"
  | GetCard uuid
  | GetCardHistory uuid "nat option"
  | ListCards card_filter "nat option"
  | DeleteCard uuid
  | PushTagVersions "tag list"
  | GetTag uuid
  | ListTags
  | DeleteTag uuid
  | GetRoot
  | GetChangesSince NonNegativeI64 hash
  | PushBatch "push_item list"
  | Subscribe
  | GetTagHistory uuid "nat option"
  | GetSequenceHistory "NonNegativeI64 option" "nat option"
  | GetAllCardHistories "nat option" "uuid list option"
  | GetAllTagHistories "nat option" "uuid list option"

fun is_streaming :: "request \<Rightarrow> bool" where
  "is_streaming Subscribe = True"
| "is_streaming _ = False"

fun is_mutation :: "request \<Rightarrow> bool" where
  "is_mutation (PushCardVersions _) = True"
| "is_mutation (PushTagVersions _) = True"
| "is_mutation (PushBatch _) = True"
| "is_mutation (DeleteCard _) = True"
| "is_mutation (DeleteTag _) = True"
| "is_mutation _ = False"

section \<open>Responses\<close>

record change_set =
  cs_cards :: "card list"
  cs_tags :: "tag list"
  cs_deleted :: "deleted_entity list"
  cs_root :: root_state

datatype sequence_operation_kind =
  CardCreated | CardUpdated | TagCreated | TagUpdated | EntityDeleted

record sequence_operation =
  op_entity_id :: uuid
  op_kind :: sequence_operation_kind

record sequence_history_entry =
  entry_sequence :: NonNegativeI64
  entry_hash :: hash
  entry_operations :: "sequence_operation list"
  entry_created_at :: datetime

datatype response =
    RespOk
  | RespCard card
  | RespCards "card list"
  | RespTag tag
  | RespTags "tag list"
  | RespRoot root_state
  | RespDeleted deleted_entity
  | RespChanges change_set
  | RespNotification root_state
  | RespError protocol_error
  | RespCardHistory "card list"
  | RespTagHistory "tag list"
  | RespSequenceHistory "sequence_history_entry list"
  | RespAllCardHistories "uuid \<rightharpoonup> card list"
  | RespAllTagHistories "uuid \<rightharpoonup> tag list"

datatype response_extract_error = Protocol protocol_error | UnexpectedVariant

text \<open>
  The macro \<open>extract!\<close>: the payload of the wanted variant, the server's error, or the marker that
  the caller asked for the wrong variant.
\<close>

definition extract_variant ::
  "(response \<Rightarrow> 'a option) \<Rightarrow> response \<Rightarrow> (response_extract_error, 'a) outcome" where
  "extract_variant select r =
     (case select r of
        Some val \<Rightarrow> Ok val
      | None \<Rightarrow> (case r of RespError e \<Rightarrow> Err (Protocol e) | _ \<Rightarrow> Err UnexpectedVariant))"

definition into_ok :: "response \<Rightarrow> (response_extract_error, unit) outcome" where
  "into_ok r =
     (case r of RespOk \<Rightarrow> Ok () | RespError e \<Rightarrow> Err (Protocol e) | _ \<Rightarrow> Err UnexpectedVariant)"

definition into_card :: "response \<Rightarrow> (response_extract_error, card) outcome" where
  "into_card = extract_variant (\<lambda>r. case r of RespCard c \<Rightarrow> Some c | _ \<Rightarrow> None)"

definition into_cards :: "response \<Rightarrow> (response_extract_error, card list) outcome" where
  "into_cards = extract_variant (\<lambda>r. case r of RespCards cs \<Rightarrow> Some cs | _ \<Rightarrow> None)"

definition into_tag :: "response \<Rightarrow> (response_extract_error, tag) outcome" where
  "into_tag = extract_variant (\<lambda>r. case r of RespTag t \<Rightarrow> Some t | _ \<Rightarrow> None)"

definition into_tags :: "response \<Rightarrow> (response_extract_error, tag list) outcome" where
  "into_tags = extract_variant (\<lambda>r. case r of RespTags ts \<Rightarrow> Some ts | _ \<Rightarrow> None)"

definition into_root :: "response \<Rightarrow> (response_extract_error, root_state) outcome" where
  "into_root = extract_variant (\<lambda>r. case r of RespRoot s \<Rightarrow> Some s | _ \<Rightarrow> None)"

definition into_deleted :: "response \<Rightarrow> (response_extract_error, deleted_entity) outcome" where
  "into_deleted = extract_variant (\<lambda>r. case r of RespDeleted d \<Rightarrow> Some d | _ \<Rightarrow> None)"

definition into_changes :: "response \<Rightarrow> (response_extract_error, change_set) outcome" where
  "into_changes = extract_variant (\<lambda>r. case r of RespChanges cs \<Rightarrow> Some cs | _ \<Rightarrow> None)"

definition into_notification :: "response \<Rightarrow> (response_extract_error, root_state) outcome" where
  "into_notification = extract_variant (\<lambda>r. case r of RespNotification s \<Rightarrow> Some s | _ \<Rightarrow> None)"

definition into_card_history :: "response \<Rightarrow> (response_extract_error, card list) outcome" where
  "into_card_history = extract_variant (\<lambda>r. case r of RespCardHistory cs \<Rightarrow> Some cs | _ \<Rightarrow> None)"

definition into_tag_history :: "response \<Rightarrow> (response_extract_error, tag list) outcome" where
  "into_tag_history = extract_variant (\<lambda>r. case r of RespTagHistory ts \<Rightarrow> Some ts | _ \<Rightarrow> None)"

definition into_sequence_history ::
  "response \<Rightarrow> (response_extract_error, sequence_history_entry list) outcome" where
  "into_sequence_history = extract_variant (\<lambda>r. case r of RespSequenceHistory es \<Rightarrow> Some es | _ \<Rightarrow> None)"

definition into_all_card_histories ::
  "response \<Rightarrow> (response_extract_error, uuid \<rightharpoonup> card list) outcome" where
  "into_all_card_histories =
     extract_variant (\<lambda>r. case r of RespAllCardHistories m \<Rightarrow> Some m | _ \<Rightarrow> None)"

definition into_all_tag_histories ::
  "response \<Rightarrow> (response_extract_error, uuid \<rightharpoonup> tag list) outcome" where
  "into_all_tag_histories = extract_variant (\<lambda>r. case r of RespAllTagHistories m \<Rightarrow> Some m | _ \<Rightarrow> None)"

lemmas into_defs = into_ok_def into_card_def into_cards_def into_tag_def into_tags_def into_root_def
  into_deleted_def into_changes_def into_notification_def into_card_history_def
  into_tag_history_def into_sequence_history_def into_all_card_histories_def
  into_all_tag_histories_def

text \<open>An extraction yields the server's error exactly when the server sent one.\<close>

lemma extract_Err_Protocol:
  "(\<And>e. select (RespError e) = None) \<Longrightarrow> extract_variant select r = Err (Protocol e) \<longleftrightarrow> r = RespError e"
  by (cases r) (auto simp: extract_variant_def split: option.splits)

lemma mutation_not_streaming: "is_mutation r \<Longrightarrow> \<not> is_streaming r"
  by (cases r) simp_all

end
