(* ===== verification/Wire.thy ===== *)
theory Wire
  imports Prelude
begin

text \<open>
  Message framing and the version handshake (protocol/src/wire, protocol/src/handshake,
  protocol/src/version). A stream is the list of bytes not yet read; a writer is the list of
  bytes written. The postcard codec of a message type is a parameter: \<open>encode\<close> and \<open>decode\<close>
  give \<open>None\<close> where postcard returns an error.
\<close>

section \<open>Framing\<close>

definition MAX_MSG_SIZE :: nat where "MAX_MSG_SIZE = 16 * 1024 * 1024"

datatype WireError = StreamClosed | MessageTooLarge | Deserialize | Serialize | WriteFailed

text \<open>\<open>read_u32\<close>: four bytes, most significant first.\<close>

fun read_u32 :: "bytes \<Rightarrow> (nat \<times> bytes) option" where
  "read_u32 (a # b # c # d # rest) =
     Some (((unat a * 256 + unat b) * 256 + unat c) * 256 + unat d, rest)"
| "read_u32 _ = None"

definition read_exact :: "nat \<Rightarrow> bytes \<Rightarrow> (bytes \<times> bytes) option" where
  "read_exact n stream = (if length stream < n then None else Some (take n stream, drop n stream))"

definition read_message :: "(bytes \<Rightarrow> 'm option) \<Rightarrow> bytes \<Rightarrow> (WireError, 'm \<times> bytes) outcome" where
  "read_message decode recv =
     (case read_u32 recv of
        None \<Rightarrow> Err StreamClosed
      | Some (len, recv) \<Rightarrow>
          if MAX_MSG_SIZE < len then Err MessageTooLarge
          else
            (case read_exact len recv of
               None \<Rightarrow> Err StreamClosed
             | Some (buf, recv) \<Rightarrow>
                 (case decode buf of Some m \<Rightarrow> Ok (m, recv) | None \<Rightarrow> Err Deserialize)))"

text \<open>
  The writer appends; \<open>writable\<close> says whether the stream still accepts bytes. The length cast to
  \<open>u32\<close> is exact under the size limit.
\<close>

definition write_message ::
  "('m \<Rightarrow> bytes option) \<Rightarrow> bool \<Rightarrow> 'm \<Rightarrow> bytes \<Rightarrow> (WireError, bytes) outcome" where
  "write_message encode writable msg sent =
     (case encode msg of
        None \<Rightarrow> Err Serialize
      | Some bytes \<Rightarrow>
          if MAX_MSG_SIZE < length bytes then Err MessageTooLarge
          else if \<not> writable then Err WriteFailed
          else Ok (sent @ be_bytes 4 (int (length bytes)) @ bytes))"

text \<open>What a codec promises: a decoded encoding is the message.\<close>

definition codec_ok :: "('m \<Rightarrow> bytes option) \<Rightarrow> (bytes \<Rightarrow> 'm option) \<Rightarrow> bool" where
  "codec_ok encode decode \<longleftrightarrow> (\<forall>m bs. encode m = Some bs \<longrightarrow> decode bs = Some m)"

section \<open>Versions and the handshake\<close>

record version =
  major :: "64 word"
  minor :: "64 word"
  patch :: "64 word"

definition is_compatible :: "version \<Rightarrow> version \<Rightarrow> bool" where
  "is_compatible a b \<longleftrightarrow> major a = major b"

record version_check =
  check_version :: version

datatype version_result =
    VersionOk (server_version: version)
  | VersionMismatched (server_version: version)

datatype HandshakeError =
    VersionMismatch (local_version: version) (remote_version: version)
  | WireFailure WireError

text \<open>
  The two sides, cut at the message exchange: what the client sends, what the server answers and
  concludes on the check it read, what the client concludes on the answer it read.
\<close>

definition client_check :: "version \<Rightarrow> version_check" where
  "client_check client_version = \<lparr>check_version = client_version\<rparr>"

definition server_answer :: "version \<Rightarrow> version_check \<Rightarrow> version_result" where
  "server_answer own check =
     (if is_compatible (check_version check) own then VersionOk own else VersionMismatched own)"

definition server_conclude ::
  "version \<Rightarrow> version_check \<Rightarrow> version_result \<Rightarrow> (HandshakeError, unit) outcome" where
  "server_conclude own check result =
     (case result of
        VersionOk _ \<Rightarrow> Ok ()
      | _ \<Rightarrow> Err (VersionMismatch own (check_version check)))"

definition client_conclude :: "version \<Rightarrow> version_result \<Rightarrow> (HandshakeError, version) outcome" where
  "client_conclude client_version result =
     (case result of
        VersionOk v \<Rightarrow> Ok v
      | VersionMismatched v \<Rightarrow> Err (VersionMismatch client_version v))"

text \<open>The two functions over byte streams: each returns what it has written and its result.\<close>

definition server_handshake ::
  "(bytes \<Rightarrow> version_check option) \<Rightarrow> (version_result \<Rightarrow> bytes option) \<Rightarrow> bool \<Rightarrow> version
   \<Rightarrow> bytes \<Rightarrow> bytes \<times> (HandshakeError, unit) outcome" where
  "server_handshake decode encode writable own recv =
     (case read_message decode recv of
        Err e \<Rightarrow> ([], Err (WireFailure e))
      | Panic \<Rightarrow> ([], Panic)
      | Ok (check, _) \<Rightarrow>
          let result = server_answer own check in
          case write_message encode writable result [] of
            Err e \<Rightarrow> ([], Err (WireFailure e))
          | Panic \<Rightarrow> ([], Panic)
          | Ok sent \<Rightarrow> (sent, server_conclude own check result))"

definition client_handshake_send ::
  "(version_check \<Rightarrow> bytes option) \<Rightarrow> bool \<Rightarrow> version \<Rightarrow> (HandshakeError, bytes) outcome" where
  "client_handshake_send encode writable client_version =
     map_err WireFailure (write_message encode writable (client_check client_version) [])"

definition client_handshake_receive ::
  "(bytes \<Rightarrow> version_result option) \<Rightarrow> version \<Rightarrow> bytes \<Rightarrow> (HandshakeError, version) outcome" where
  "client_handshake_receive decode client_version recv =
     (case read_message decode recv of
        Err e \<Rightarrow> Err (WireFailure e)
      | Panic \<Rightarrow> Panic
      | Ok (result, _) \<Rightarrow> client_conclude client_version result)"

section \<open>Reading what was written\<close>

lemma be_bytes_4: "be_bytes 4 v =
    [word_of_int (v div 2 ^ 24), word_of_int (v div 2 ^ 16), word_of_int (v div 2 ^ 8), word_of_int v]"
  by (simp add: numeral_eq_Suc flip: zdiv_zmult2_eq)

lemma be_bytes_4_nat: "be_bytes 4 (int n) =
    [of_nat (n div 2 ^ 24), of_nat (n div 2 ^ 16), of_nat (n div 2 ^ 8), of_nat n]"
proof -
  have "word_of_int (int n div 2 ^ k) = (of_nat (n div 2 ^ k) :: u8)" for k
    by (metis of_int_of_nat_eq of_nat_numeral of_nat_power zdiv_int)
  from this [of 24] this [of 16] this [of 8] show ?thesis
    unfolding be_bytes_4 by simp
qed

lemma unat_byte: "unat (of_nat n :: u8) = n mod 256"
  by (simp add: unat_of_nat)

lemma base256_value:
  fixes n :: nat
  assumes "n < 2 ^ 32"
  shows "((n div 2 ^ 24 mod 256 * 256 + n div 2 ^ 16 mod 256) * 256 + n div 2 ^ 8 mod 256) * 256
    + n mod 256 = n"
proof -
  have "n div 2 ^ 24 < 256"
    using assms by (simp add: div_less_iff_less_mult)
  moreover have "n div 2 ^ 16 = n div 2 ^ 8 div 256" "n div 2 ^ 24 = n div 2 ^ 16 div 256"
    "n div 2 ^ 8 = n div 256"
    by (simp_all flip: div_mult2_eq)
  ultimately show ?thesis
    by (metis div_mult_mod_eq mod_less)
qed

lemma read_u32_frame: "n < 2 ^ 32 \<Longrightarrow> read_u32 (be_bytes 4 (int n) @ rest) = Some (n, rest)"
  unfolding be_bytes_4_nat append_Cons append_Nil read_u32.simps unat_byte
  by (simp only: base256_value)

lemma read_message_frame:
  assumes "length bs \<le> MAX_MSG_SIZE"
  shows "read_message decode (be_bytes 4 (int (length bs)) @ bs @ rest) =
    (case decode bs of Some m \<Rightarrow> Ok (m, rest) | None \<Rightarrow> Err Deserialize)"
proof -
  have "length bs < 2 ^ 32"
    using assms by (simp add: MAX_MSG_SIZE_def)
  then show ?thesis
    using assms by (simp add: read_message_def read_u32_frame read_exact_def)
qed

lemma write_message_Ok:
  "write_message encode writable m sent = Ok sent' \<longleftrightarrow>
     writable \<and> (\<exists>bs. encode m = Some bs \<and> length bs \<le> MAX_MSG_SIZE \<and>
       sent' = sent @ be_bytes 4 (int (length bs)) @ bs)"
  by (auto simp: write_message_def split: option.splits if_splits)

lemma read_after_write:
  assumes "codec_ok encode decode" and "write_message encode writable m sent = Ok sent'"
  shows "\<exists>frame. sent' = sent @ frame \<and> (\<forall>rest. read_message decode (frame @ rest) = Ok (m, rest))"
proof -
  from assms(2) obtain bs where bs: "encode m = Some bs" "length bs \<le> MAX_MSG_SIZE"
      "sent' = sent @ be_bytes 4 (int (length bs)) @ bs"
    by (auto simp: write_message_Ok)
  then have "read_message decode ((be_bytes 4 (int (length bs)) @ bs) @ rest) = Ok (m, rest)" for rest
    using assms(1) read_message_frame [OF bs(2), of decode rest] by (simp add: codec_ok_def)
  with bs(3) show ?thesis by blast
qed

text \<open>A reader never reads past the frame, and fails on every proper prefix of it.\<close>

lemma read_message_short:
  assumes "length recv < 4 + length bs" and "length bs \<le> MAX_MSG_SIZE"
    and "recv = take (length recv) (be_bytes 4 (int (length bs)) @ bs)"
  shows "read_message decode recv = Err StreamClosed"
proof (cases "length recv < 4")
  case True
  then show ?thesis
    by (auto simp: read_message_def less_Suc_eq numeral_eq_Suc length_Suc_conv)
next
  case False
  then have "recv = be_bytes 4 (int (length bs)) @ take (length recv - 4) bs"
    using assms(3) by simp
  moreover have "length bs < 2 ^ 32"
    using assms(2) by (simp add: MAX_MSG_SIZE_def)
  ultimately have "read_u32 recv = Some (length bs, take (length recv - 4) bs)"
    by (metis read_u32_frame)
  moreover have "length recv - 4 < length bs"
    using assms(1) False by linarith
  ultimately show ?thesis
    using assms(2) by (simp add: read_message_def read_exact_def)
qed

text \<open>A whole handshake over a reliable stream, from the client's check to both conclusions.\<close>

definition handshake_run ::
  "(version_check \<Rightarrow> bytes option) \<Rightarrow> (bytes \<Rightarrow> version_check option) \<Rightarrow> (version_result \<Rightarrow> bytes option)
   \<Rightarrow> (bytes \<Rightarrow> version_result option) \<Rightarrow> version \<Rightarrow> version
   \<Rightarrow> (HandshakeError, unit) outcome \<times> (HandshakeError, version) outcome" where
  "handshake_run enc_check dec_check enc_result dec_result client server =
     (case client_handshake_send enc_check True client of
        Err e \<Rightarrow> (Err (WireFailure StreamClosed), Err e)
      | Panic \<Rightarrow> (Panic, Panic)
      | Ok sent \<Rightarrow>
          let (reply, server_end) = server_handshake dec_check enc_result True server sent
          in (server_end, client_handshake_receive dec_result client reply))"

definition encodable :: "('m \<Rightarrow> bytes option) \<Rightarrow> 'm \<Rightarrow> bool" where
  "encodable encode m \<longleftrightarrow> (case encode m of Some bs \<Rightarrow> length bs \<le> MAX_MSG_SIZE | None \<Rightarrow> False)"

lemma write_encodable: "encodable encode m \<Longrightarrow> \<exists>frame. write_message encode True m [] = Ok frame"
  by (auto simp: encodable_def write_message_def split: option.splits)

lemma handshake_run_result:
  assumes codec: "codec_ok enc_check dec_check" "codec_ok enc_result dec_result"
    and enc: "encodable enc_check (client_check client)"
    "encodable enc_result (server_answer server (client_check client))"
  shows "handshake_run enc_check dec_check enc_result dec_result client server =
    (if major client = major server then (Ok (), Ok server)
     else (Err (VersionMismatch server client), Err (VersionMismatch client server)))"
proof -
  let ?answer = "server_answer server (client_check client)"
  obtain sent where sent: "write_message enc_check True (client_check client) [] = Ok sent"
    using write_encodable [OF enc(1)] by blast
  obtain reply where reply: "write_message enc_result True ?answer [] = Ok reply"
    using write_encodable [OF enc(2)] by blast
  have "read_message dec_check sent = Ok (client_check client, [])"
    using read_after_write [OF codec(1) sent] by (metis append_Nil append_Nil2)
  moreover have "read_message dec_result reply = Ok (?answer, [])"
    using read_after_write [OF codec(2) reply] by (metis append_Nil append_Nil2)
  ultimately show ?thesis
    using sent reply
    by (simp add: handshake_run_def client_handshake_send_def server_handshake_def
        client_handshake_receive_def server_answer_def server_conclude_def client_conclude_def
        client_check_def is_compatible_def)
qed

section \<open>Properties\<close>

text \<open>
  Codecs for the witnesses: raw bytes as they are, and a table of the messages that occur, each
  encoded as its index.
\<close>

definition demo_encode :: "bytes \<Rightarrow> bytes option" where "demo_encode m = Some m"
definition demo_decode :: "bytes \<Rightarrow> bytes option" where "demo_decode m = Some m"

definition table_encode :: "'m \<Rightarrow> 'm \<Rightarrow> bytes option" where
  "table_encode entry m = (if m = entry then Some [0] else None)"
definition table_decode :: "'m \<Rightarrow> bytes \<Rightarrow> 'm option" where
  "table_decode entry bs = (if bs = [0] then Some entry else None)"

text \<open>Framing round trip: whatever is already in the stream and whatever follows, a message that
  \<open>write_message\<close> accepts is read back by \<open>read_message\<close>, which consumes exactly its frame.\<close>

theorem wire_roundtrip:
  assumes "codec_ok encode decode" and "write_message encode writable m sent = Ok sent'"
  shows "\<exists>frame. sent' = sent @ frame \<and> (\<forall>rest. read_message decode (frame @ rest) = Ok (m, rest))"
  using assms by (rule read_after_write)

theorem wire_roundtrip_witness:
  "\<exists>frame. [7, 0, 0, 0, 1, 9 :: u8] = [7] @ frame \<and>
     (\<forall>rest. read_message demo_decode (frame @ rest) = Ok ([9], rest))"
proof (rule wire_roundtrip [of demo_encode demo_decode True "[9]" "[7]"])
  show "codec_ok demo_encode demo_decode"
    by (simp add: codec_ok_def demo_encode_def demo_decode_def)
  show "write_message demo_encode True [9] [7] = Ok [7, 0, 0, 0, 1, 9]"
    by (simp add: write_message_def demo_encode_def MAX_MSG_SIZE_def be_bytes_4)
qed

text \<open>The handshake over a reliable stream: both sides accept exactly when the major versions are
  equal; otherwise both fail with a mismatch that names each side's own and remote version.\<close>

theorem handshake_agrees:
  assumes "codec_ok enc_check dec_check" "codec_ok enc_result dec_result"
    and "encodable enc_check (client_check client)"
    and "encodable enc_result (server_answer server (client_check client))"
  shows "handshake_run enc_check dec_check enc_result dec_result client server =
    (if major client = major server then (Ok (), Ok server)
     else (Err (VersionMismatch server client), Err (VersionMismatch client server)))"
  using assms by (rule handshake_run_result)

theorem handshake_agrees_witness:
  "handshake_run (table_encode (client_check \<lparr>major = 3, minor = 1, patch = 0\<rparr>))
     (table_decode (client_check \<lparr>major = 3, minor = 1, patch = 0\<rparr>))
     (table_encode (VersionMismatched \<lparr>major = 2, minor = 0, patch = 5\<rparr>))
     (table_decode (VersionMismatched \<lparr>major = 2, minor = 0, patch = 5\<rparr>))
     \<lparr>major = 3, minor = 1, patch = 0\<rparr> \<lparr>major = 2, minor = 0, patch = 5\<rparr> =
   (Err (VersionMismatch \<lparr>major = 2, minor = 0, patch = 5\<rparr> \<lparr>major = 3, minor = 1, patch = 0\<rparr>),
    Err (VersionMismatch \<lparr>major = 3, minor = 1, patch = 0\<rparr> \<lparr>major = 2, minor = 0, patch = 5\<rparr>))"
  by (subst handshake_agrees)
    (simp_all add: codec_ok_def table_encode_def table_decode_def encodable_def MAX_MSG_SIZE_def
      server_answer_def client_check_def is_compatible_def)

end
