(* ===== verification/Ordered_Map.thy ===== *)
theory Ordered_Map
  imports Prelude
begin

text \<open>
  \<open>BTreeMap\<close> and \<open>BTreeSet\<close> of the Rust standard library as the code uses them: maps and sets
  whose iteration runs in key order. A map is the list of its entries in key order. The locale
  \<open>ordered_map\<close> states the contract the callers rely on and proves once what building a map
  from a sequence of pairs gives; it is interpreted on the list representation.
\<close>

section \<open>The representation\<close>

type_synonym ('k, 'v) btree_map = "('k \<times> 'v) list"

fun bt_insert :: "'k::linorder \<Rightarrow> 'v \<Rightarrow> ('k, 'v) btree_map \<Rightarrow> ('k, 'v) btree_map" where
  "bt_insert k v [] = [(k, v)]"
| "bt_insert k v ((k', v') # m) =
     (if k < k' then (k, v) # (k', v') # m
      else if k = k' then (k, v) # m
      else (k', v') # bt_insert k v m)"

definition bt_lookup :: "('k, 'v) btree_map \<Rightarrow> 'k \<Rightarrow> 'v option" where
  "bt_lookup m = map_of m"

definition bt_remove :: "'k \<Rightarrow> ('k, 'v) btree_map \<Rightarrow> ('k, 'v) btree_map" where
  "bt_remove k m = filter (\<lambda>p. fst p \<noteq> k) m"

definition bt_keys :: "('k, 'v) btree_map \<Rightarrow> 'k list" where
  "bt_keys m = map fst m"

definition bt_ordered :: "('k::linorder, 'v) btree_map \<Rightarrow> bool" where
  "bt_ordered m \<longleftrightarrow> sorted_wrt (<) (map fst m)"

definition bt_collect :: "('k::linorder \<times> 'v) list \<Rightarrow> ('k, 'v) btree_map" where
  "bt_collect ps = fold (\<lambda>(k, v) m. bt_insert k v m) ps []"

text \<open>A \<open>BTreeSet\<close> is the strictly increasing list of its elements.\<close>

fun bs_insert :: "'k::linorder \<Rightarrow> 'k list \<Rightarrow> 'k list" where
  "bs_insert x [] = [x]"
| "bs_insert x (y # ys) =
     (if x < y then x # y # ys else if x = y then y # ys else y # bs_insert x ys)"

definition bs_collect :: "'k::linorder list \<Rightarrow> 'k list" where
  "bs_collect xs = fold bs_insert xs []"

section \<open>The contract\<close>

locale ordered_map =
  fixes empty :: "'m"
    and insert :: "'k::linorder \<Rightarrow> 'v \<Rightarrow> 'm \<Rightarrow> 'm"
    and remove :: "'k \<Rightarrow> 'm \<Rightarrow> 'm"
    and lookup :: "'m \<Rightarrow> 'k \<Rightarrow> 'v option"
    and entries :: "'m \<Rightarrow> ('k \<times> 'v) list"
    and ordered :: "'m \<Rightarrow> bool"
  assumes lookup_empty: "lookup empty k = None"
    and lookup_insert: "lookup (insert k v m) = (lookup m)(k \<mapsto> v)"
    and lookup_remove: "lookup (remove k m) = (lookup m)(k := None)"
    and ordered_empty: "ordered empty"
    and ordered_insert: "ordered m \<Longrightarrow> ordered (insert k v m)"
    and ordered_remove: "ordered m \<Longrightarrow> ordered (remove k m)"
    and entries_sorted: "ordered m \<Longrightarrow> sorted_wrt (<) (map fst (entries m))"
    and entries_lookup: "ordered m \<Longrightarrow> (k, v) \<in> set (entries m) \<longleftrightarrow> lookup m k = Some v"
begin

lemma lookup_fold_insert:
  "lookup (fold (\<lambda>(k, v) m. insert k v m) ps m) = lookup m ++ map_of (rev ps)"
  by (induction ps arbitrary: m) (auto simp: lookup_insert map_add_def fun_eq_iff split: option.splits)

lemma ordered_fold_insert:
  "ordered m \<Longrightarrow> ordered (fold (\<lambda>(k, v) m. insert k v m) ps m)"
  by (induction ps arbitrary: m) (auto intro: ordered_insert)

lemma keys_dom: "ordered m \<Longrightarrow> fst ` set (entries m) = dom (lookup m)"
proof -
  assume o: "ordered m"
  have "k \<in> fst ` set (entries m) \<longleftrightarrow> k \<in> dom (lookup m)" for k
    using entries_lookup [OF o, of k] by force
  then show ?thesis by blast
qed

lemma keys_distinct: "ordered m \<Longrightarrow> distinct (map fst (entries m))"
  using entries_sorted [of m] by (simp add: strict_sorted_iff)

lemma entries_unique:
  assumes o: "ordered m" "ordered m'" and eq: "lookup m = lookup m'"
  shows "entries m = entries m'"
proof (rule map_sorted_distinct_set_unique [where f = fst])
  show "set (entries m) = set (entries m')"
    using o eq by (auto simp: entries_lookup)
  show "inj_on fst (set (entries m) \<union> set (entries m'))"
    using o eq by (auto simp: inj_on_def entries_lookup)
qed (use o entries_sorted in \<open>simp_all add: strict_sorted_iff\<close>)

end

section \<open>The representation keeps the contract\<close>

lemma bt_lookup_insert [simp]: "bt_lookup (bt_insert k v m) = (bt_lookup m)(k \<mapsto> v)"
  unfolding bt_lookup_def by (induction k v m rule: bt_insert.induct) (auto simp: fun_eq_iff)

lemma bt_lookup_remove [simp]: "bt_lookup (bt_remove k m) = (bt_lookup m)(k := None)"
  unfolding bt_lookup_def bt_remove_def by (induction m) (auto simp: fun_eq_iff)

lemma bt_lookup_Nil [simp]: "bt_lookup [] = Map.empty"
  by (simp add: bt_lookup_def)

lemma set_keys_insert: "set (map fst (bt_insert k v m)) = insert k (set (map fst m))"
  by (induction k v m rule: bt_insert.induct) auto

lemma bt_ordered_insert [simp]: "bt_ordered m \<Longrightarrow> bt_ordered (bt_insert k v m)"
  unfolding bt_ordered_def
proof (induction k v m rule: bt_insert.induct)
  case (2 k v k' v' m)
  then show ?case
    using set_keys_insert [of k v m] by (auto simp del: set_map)
qed simp

lemma bt_ordered_remove [simp]: "bt_ordered m \<Longrightarrow> bt_ordered (bt_remove k m)"
  unfolding bt_ordered_def bt_remove_def by (induction m) auto

lemma bt_ordered_Nil [simp]: "bt_ordered []"
  by (simp add: bt_ordered_def)

lemma bt_ordered_distinct: "bt_ordered m \<Longrightarrow> distinct (map fst m)"
  by (simp add: bt_ordered_def strict_sorted_iff)

lemma bt_entries_lookup: "bt_ordered m \<Longrightarrow> (k, v) \<in> set m \<longleftrightarrow> bt_lookup m k = Some v"
  by (simp add: bt_lookup_def map_of_eq_Some_iff bt_ordered_distinct)

interpretation btree: ordered_map "[]" bt_insert bt_remove bt_lookup "\<lambda>m. m" bt_ordered
  by unfold_locales (simp_all add: bt_entries_lookup, simp add: bt_ordered_def)

lemma bt_lookup_collect: "bt_lookup (bt_collect ps) = map_of (rev ps)"
  by (simp add: bt_collect_def btree.lookup_fold_insert)

lemma bt_ordered_collect [simp]: "bt_ordered (bt_collect ps)"
  by (simp add: bt_collect_def btree.ordered_fold_insert)

lemma map_of_rev_same:
  assumes "distinct (map fst ps)"
  shows "map_of (rev ps) = map_of ps"
proof (rule map_of_eqI)
  show "\<forall>x\<in>set (map fst (rev ps)). map_of (rev ps) x = map_of ps x"
    using assms by (auto simp: map_of_is_SomeI rev_map [symmetric])
qed simp

lemma bt_collect_ordered:
  assumes "bt_ordered m"
  shows "bt_collect m = m"
proof (rule btree.entries_unique)
  show "bt_lookup (bt_collect m) = bt_lookup m"
    using assms unfolding bt_lookup_collect
    by (simp add: bt_lookup_def map_of_rev_same bt_ordered_distinct)
qed (use assms in simp_all)

lemma bt_keys_dom: "bt_ordered m \<Longrightarrow> set (bt_keys m) = dom (bt_lookup m)"
  by (simp add: bt_keys_def bt_lookup_def dom_map_of_conv_image_fst)

section \<open>Ordered sets\<close>

lemma set_bs_insert [simp]: "set (bs_insert x ys) = insert x (set ys)"
  by (induction x ys rule: bs_insert.induct) auto

lemma sorted_bs_insert [simp]:
  "sorted_wrt (<) ys \<Longrightarrow> sorted_wrt (<) (bs_insert x ys)"
  by (induction x ys rule: bs_insert.induct) auto

lemma set_bs_collect [simp]: "set (bs_collect xs) = set xs"
proof -
  have "set (fold bs_insert xs ys) = set xs \<union> set ys" for ys
    by (induction xs arbitrary: ys) auto
  then show ?thesis by (simp add: bs_collect_def)
qed

lemma sorted_bs_collect [simp]: "sorted_wrt (<) (bs_collect xs)"
proof -
  have "sorted_wrt (<) ys \<Longrightarrow> sorted_wrt (<) (fold bs_insert xs ys)" for ys
    by (induction xs arbitrary: ys) auto
  then show ?thesis by (simp add: bs_collect_def)
qed

end
