(* ===== verification/Tag_Graph.thy ===== *)
theory Tag_Graph
  imports Tags Ordered_Map
begin

text \<open>
  The tag implication graph (protocol/src/tag/graph.rs): the map of direct parents, the transitive
  closure of a set of tags, the tags a card lacks, and the iterative search for a cycle. The
  closure is shown to be the set of reachable tags, and the search to be exact: what it returns
  is a cycle of the graph, and it returns nothing only on an acyclic graph.
\<close>

section \<open>The graph and its edits\<close>

record tag_graph =
  edges :: "(uuid, uuid list) btree_map"

definition graph_from_tags :: "tag list \<Rightarrow> tag_graph" where
  "graph_from_tags tags =
     \<lparr>edges = fold (\<lambda>t m. bt_insert (tag_id t) (tag_implies t) m) tags []\<rparr>"

definition graph_from_pairs :: "(uuid \<times> uuid list) list \<Rightarrow> tag_graph" where
  "graph_from_pairs pairs = \<lparr>edges = bt_collect pairs\<rparr>"

definition graph_upsert :: "uuid \<Rightarrow> uuid list \<Rightarrow> tag_graph \<Rightarrow> tag_graph" where
  "graph_upsert uid implied g = g\<lparr>edges := bt_insert uid implied (edges g)\<rparr>"

definition graph_remove :: "uuid \<Rightarrow> tag_graph \<Rightarrow> tag_graph" where
  "graph_remove uid g = g\<lparr>edges := bt_remove uid (edges g)\<rparr>"

definition implies_of :: "tag_graph \<Rightarrow> uuid \<Rightarrow> uuid list" where
  "implies_of g uid = (case bt_lookup (edges g) uid of Some v \<Rightarrow> v | None \<Rightarrow> [])"

definition sorted_implies :: "tag_graph \<Rightarrow> uuid \<Rightarrow> uuid list" where
  "sorted_implies g uid = sort (implies_of g uid)"

definition graph_contains :: "tag_graph \<Rightarrow> uuid \<Rightarrow> bool" where
  "graph_contains g uid \<longleftrightarrow> bt_lookup (edges g) uid \<noteq> None"

definition graph_len :: "tag_graph \<Rightarrow> nat" where
  "graph_len g = length (edges g)"

definition graph_is_empty :: "tag_graph \<Rightarrow> bool" where
  "graph_is_empty g \<longleftrightarrow> edges g = []"

section \<open>Closure\<close>

text \<open>The inner loop of \<open>closure_of\<close>: the parents not yet visited go on the stack, in order.\<close>

definition push_parents :: "uuid list \<Rightarrow> uuid list \<Rightarrow> uuid list \<Rightarrow> uuid list" where
  "push_parents visited parents stack =
     fold (\<lambda>parent stack. if parent \<in> set visited then stack else parent # stack) parents stack"

text \<open>
  The loop of \<open>closure_of\<close>. The stack is a \<open>Vec\<close> popped at its end: here the head is the top,
  so the roots enter reversed and the parents of a tag are pushed in order.
\<close>

function closure_loop :: "tag_graph \<Rightarrow> uuid list \<Rightarrow> uuid list \<Rightarrow> uuid list" where
  "closure_loop g visited [] = visited"
| "closure_loop g visited (uid # stack) =
     (if uid \<in> set visited then closure_loop g visited stack
      else
        let visited' = bs_insert uid visited in
        closure_loop g visited' (push_parents visited' (implies_of g uid) stack))"
  by pat_completeness auto

termination
proof (relation "measures [\<lambda>(g, visited, stack). card (UNIV - set visited),
    \<lambda>(g, visited, stack). length stack]", goal_cases)
  case (3 g visited uid stack visited')
  then have "UNIV - set visited' \<subset> UNIV - set visited"
    by auto
  then have "card (UNIV - set visited') < card (UNIV - set visited)"
    by (intro psubset_card_mono) (auto intro: finite_subset [OF subset_UNIV finite])
  then show ?case by simp
qed auto

definition closure_of :: "tag_graph \<Rightarrow> uuid list \<Rightarrow> uuid list" where
  "closure_of g roots = closure_loop g [] (rev roots)"

definition missing_for_card :: "tag_graph \<Rightarrow> uuid list \<Rightarrow> uuid list" where
  "missing_for_card g current_tags =
     (let closure = closure_of g current_tags; have = bs_collect current_tags
      in filter (\<lambda>uid. uid \<notin> set have) closure)"

section \<open>Cycle detection\<close>

datatype color = White | Gray | Black

type_synonym color_map = "(uuid, color) btree_map"
type_synonym dfs_entry = "uuid \<times> nat \<times> uuid list"

definition color_of :: "color_map \<Rightarrow> uuid \<Rightarrow> color" where
  "color_of color uid = (case bt_lookup color uid of Some c \<Rightarrow> c | None \<Rightarrow> White)"

text \<open>\<open>path.iter().position(|id| *id == next).unwrap_or(0)\<close>, and the slice it starts.\<close>

definition position_of :: "uuid \<Rightarrow> uuid list \<Rightarrow> nat" where
  "position_of next path =
     (case find (\<lambda>i. path ! i = next) [0..<length path] of Some i \<Rightarrow> i | None \<Rightarrow> 0)"

lemma color_of_insert [simp]:
  "color_of (bt_insert uid c color) = (color_of color)(uid := c)"
  by (auto simp: color_of_def)

definition whites :: "color_map \<Rightarrow> uuid set" where
  "whites color = {uid. color_of color uid = White}"

lemma whites_insert_Black: "whites (bt_insert uid Black color) = whites color - {uid}"
  by (auto simp: whites_def)

lemma whites_insert_Gray: "whites (bt_insert uid Gray color) = whites color - {uid}"
  by (auto simp: whites_def)

lemma card_whites_less:
  "color_of color uid = White \<Longrightarrow> card (whites color - {uid}) < card (whites color)"
  by (intro psubset_card_mono) (auto simp: whites_def intro: finite_subset [OF subset_UNIV finite])

lemma card_whites_le: "card (whites color - {uid}) \<le> card (whites color)"
  by (intro card_mono) (auto intro: finite_subset [OF subset_UNIV finite])

text \<open>
  The inner \<open>while\<close>: the head of \<open>stack\<close> is the last entry of the vector, \<open>path\<close> keeps the
  vector's order. It ends with the colours and the path when the stack is empty, or with the
  cycle a back edge closes.
\<close>

function dfs_loop ::
  "tag_graph \<Rightarrow> color_map \<Rightarrow> dfs_entry list \<Rightarrow> uuid list \<Rightarrow> uuid list + color_map \<times> uuid list"
where
  "dfs_loop g color [] path = Inr (color, path)"
| "dfs_loop g color ((node, idx, parents) # stack) path =
     (if length parents \<le> idx then
        dfs_loop g (bt_insert node Black color) stack (butlast path)
      else
        let next = parents ! idx; stack' = (node, Suc idx, parents) # stack in
        case color_of color next of
          White \<Rightarrow>
            dfs_loop g (bt_insert next Gray color) ((next, 0, sorted_implies g next) # stack')
              (path @ [next])
        | Gray \<Rightarrow> Inl (drop (position_of next path) path @ [next])
        | Black \<Rightarrow> dfs_loop g color stack' path)"
  by pat_completeness auto

termination
proof (relation "measures [\<lambda>(g, color, stack, path). card (whites color),
    \<lambda>(g, color, stack, path). \<Sum>(node, idx, parents)\<leftarrow>stack. Suc (length parents - idx)]",
    goal_cases)
  case (2 g color node idx parents stack path)
  then show ?case
    using card_whites_le [of color node] by (auto simp: whites_insert_Black le_less)
next
  case (3 g color node idx parents stack path nxt stack')
  then show ?case
    using card_whites_less [of color nxt] by (simp add: whites_insert_Gray)
next
  case (4 g color node idx parents stack path nxt stack')
  then show ?case by simp
qed simp

text \<open>The outer \<open>for\<close> over the keys; a start that is not white is skipped.\<close>

fun dfs_starts :: "tag_graph \<Rightarrow> uuid list \<Rightarrow> color_map \<Rightarrow> uuid list \<Rightarrow> uuid list option" where
  "dfs_starts g [] color path = None"
| "dfs_starts g (start # starts) color path =
     (if bt_lookup color start \<noteq> Some White then dfs_starts g starts color path
      else
        case dfs_loop g (bt_insert start Gray color) [(start, 0, sorted_implies g start)]
            (path @ [start]) of
          Inl cycle \<Rightarrow> Some cycle
        | Inr (color', path') \<Rightarrow> dfs_starts g starts color' path')"

definition detect_cycle :: "tag_graph \<Rightarrow> uuid list option" where
  "detect_cycle g =
     dfs_starts g (bt_keys (edges g)) (bt_collect (map (\<lambda>uid. (uid, White)) (bt_keys (edges g)))) []"

definition affected_cards_for_change :: "tag_graph \<Rightarrow> card list \<Rightarrow> (uuid \<times> uuid list) list" where
  "affected_cards_for_change next cards =
     fold (\<lambda>card affected.
         let missing = missing_for_card next (card_tags card) in
         if missing \<noteq> [] then affected @ [(card_id card, missing)] else affected)
       cards []"


section \<open>The edit operations\<close>

lemma implies_of_upsert [simp]:
  "implies_of (graph_upsert uid implied g) = (implies_of g)(uid := implied)"
  by (auto simp: implies_of_def graph_upsert_def)

lemma implies_of_remove [simp]: "implies_of (graph_remove uid g) = (implies_of g)(uid := [])"
  by (auto simp: implies_of_def graph_remove_def)

lemma implies_of_from_pairs:
  "distinct (map fst pairs) \<Longrightarrow>
     implies_of (graph_from_pairs pairs) uid = (case map_of pairs uid of Some v \<Rightarrow> v | None \<Rightarrow> [])"
  by (simp add: implies_of_def graph_from_pairs_def bt_lookup_collect map_of_rev_same)

lemma graph_contains_from_pairs:
  "graph_contains (graph_from_pairs pairs) uid \<longleftrightarrow> uid \<in> fst ` set pairs"
  using dom_map_of_conv_image_fst [of "rev pairs"]
  by (auto simp: graph_contains_def graph_from_pairs_def bt_lookup_collect)

lemma graph_contains_upsert [simp]:
  "graph_contains (graph_upsert uid implied g) uid' \<longleftrightarrow> uid' = uid \<or> graph_contains g uid'"
  by (simp add: graph_contains_def graph_upsert_def)

lemma graph_contains_remove [simp]:
  "graph_contains (graph_remove uid g) uid' \<longleftrightarrow> uid' \<noteq> uid \<and> graph_contains g uid'"
  by (simp add: graph_contains_def graph_remove_def)

lemma graph_from_tags_pairs:
  "graph_from_tags tags = graph_from_pairs (map (\<lambda>t. (tag_id t, tag_implies t)) tags)"
proof -
  have "fold (\<lambda>t m. bt_insert (tag_id t) (tag_implies t) m) tags m =
      fold (\<lambda>(k, v) m. bt_insert k v m) (map (\<lambda>t. (tag_id t, tag_implies t)) tags) m" for m
    by (induction tags arbitrary: m) auto
  then show ?thesis
    by (simp add: graph_from_tags_def graph_from_pairs_def bt_collect_def)
qed

section \<open>The closure is the set of reachable tags\<close>

definition implies_rel :: "tag_graph \<Rightarrow> (uuid \<times> uuid) set" where
  "implies_rel g = {(a, b). b \<in> set (implies_of g a)}"

definition closed_tags :: "tag_graph \<Rightarrow> uuid set \<Rightarrow> bool" where
  "closed_tags g S \<longleftrightarrow> (\<forall>a\<in>S. set (implies_of g a) \<subseteq> S)"

lemma set_push_parents [simp]:
  "set (push_parents visited ps st) = set st \<union> (set ps - set visited)"
  unfolding push_parents_def by (induction ps arbitrary: st) auto

lemma closure_loop_includes: "set visited \<union> set stack \<subseteq> set (closure_loop g visited stack)"
  by (induction g visited stack rule: closure_loop.induct) (auto simp: Let_def)

lemma closure_loop_reachable:
  "set (closure_loop g visited stack) \<subseteq> set visited \<union> (implies_rel g)\<^sup>* `` set stack"
proof (induction g visited stack rule: closure_loop.induct)
  case (2 g visited uid stack)
  show ?case
  proof (cases "uid \<in> set visited")
    case True
    with 2(1) show ?thesis by auto
  next
    case False
    have edge: "(uid, p) \<in> (implies_rel g)\<^sup>*" if "p \<in> set (implies_of g uid)" for p
      using that by (auto simp: implies_rel_def)
    have "(implies_rel g)\<^sup>* `` set (push_parents (bs_insert uid visited) (implies_of g uid) stack)
        \<subseteq> (implies_rel g)\<^sup>* `` insert uid (set stack)"
      by (auto dest: edge rtrancl_trans)
    with 2(2) [OF False refl] False show ?thesis
      by (simp add: Let_def) blast
  qed
qed simp

lemma closure_loop_closed:
  assumes "\<forall>a\<in>set visited. set (implies_of g a) \<subseteq> set visited \<union> set stack"
  shows "closed_tags g (set (closure_loop g visited stack))"
  using assms
proof (induction g visited stack rule: closure_loop.induct)
  case (2 g visited uid stack)
  show ?case
  proof (cases "uid \<in> set visited")
    case True
    with 2(1,3) show ?thesis by auto
  next
    case False
    with 2(2) [OF False refl] 2(3) show ?thesis
      by (simp add: Let_def) blast
  qed
qed (simp add: closed_tags_def)

lemma closure_loop_sorted:
  "sorted_wrt (<) visited \<Longrightarrow> sorted_wrt (<) (closure_loop g visited stack)"
  by (induction g visited stack rule: closure_loop.induct) (simp_all add: Let_def)

lemma closed_tags_reachable:
  "closed_tags g S \<Longrightarrow> R \<subseteq> S \<Longrightarrow> (implies_rel g)\<^sup>* `` R \<subseteq> S"
proof
  fix x assume S: "closed_tags g S" "R \<subseteq> S" and "x \<in> (implies_rel g)\<^sup>* `` R"
  then obtain r where "(r, x) \<in> (implies_rel g)\<^sup>*" "r \<in> S"
    by blast
  then show "x \<in> S"
    using S(1) by (induction rule: rtrancl_induct) (auto simp: closed_tags_def implies_rel_def)
qed

lemma set_closure_of: "set (closure_of g roots) = (implies_rel g)\<^sup>* `` set roots"
proof
  show "set (closure_of g roots) \<subseteq> (implies_rel g)\<^sup>* `` set roots"
    using closure_loop_reachable [of g "[]" "rev roots"] by (simp add: closure_of_def)
  have "closed_tags g (set (closure_of g roots))"
    unfolding closure_of_def by (rule closure_loop_closed) simp
  moreover have "set roots \<subseteq> set (closure_of g roots)"
    using closure_loop_includes [of "[]" "rev roots" g] by (simp add: closure_of_def)
  ultimately show "(implies_rel g)\<^sup>* `` set roots \<subseteq> set (closure_of g roots)"
    by (rule closed_tags_reachable)
qed

lemma sorted_closure_of: "sorted_wrt (<) (closure_of g roots)"
  by (simp add: closure_of_def closure_loop_sorted)

lemma set_missing_for_card:
  "set (missing_for_card g tags) = (implies_rel g)\<^sup>* `` set tags - set tags"
  by (auto simp: missing_for_card_def set_closure_of)

lemma sorted_missing_for_card: "sorted_wrt (<) (missing_for_card g tags)"
  by (simp add: missing_for_card_def sorted_closure_of sorted_wrt_filter)

lemma missing_for_card_empty_iff: "missing_for_card g tags = [] \<longleftrightarrow> closed_tags g (set tags)"
proof -
  have "missing_for_card g tags = [] \<longleftrightarrow> (implies_rel g)\<^sup>* `` set tags \<subseteq> set tags"
    by (metis set_missing_for_card set_empty Diff_eq_empty_iff)
  also have "\<dots> \<longleftrightarrow> closed_tags g (set tags)"
  proof
    assume sub: "(implies_rel g)\<^sup>* `` set tags \<subseteq> set tags"
    have "b \<in> set tags" if "a \<in> set tags" "b \<in> set (implies_of g a)" for a b
      using that sub by (auto simp: implies_rel_def intro!: subsetD [OF sub] r_into_rtrancl)
    then show "closed_tags g (set tags)"
      by (auto simp: closed_tags_def)
  qed (simp add: closed_tags_reachable)
  finally show ?thesis .
qed

text \<open>What the missing tags are for: with them the card is closed, and none of them is avoidable.\<close>

lemma closed_with_missing: "closed_tags g (set tags \<union> set (missing_for_card g tags))"
  by (auto simp: set_missing_for_card closed_tags_def implies_rel_def
      intro: rtrancl_into_rtrancl)

lemma missing_minimal:
  "closed_tags g S \<Longrightarrow> set tags \<subseteq> S \<Longrightarrow> set (missing_for_card g tags) \<subseteq> S"
  using closed_tags_reachable [of g S "set tags"] by (auto simp: set_missing_for_card)

lemma affected_cards_eq:
  "affected_cards_for_change g cards =
     map (\<lambda>c. (card_id c, missing_for_card g (card_tags c)))
       (filter (\<lambda>c. \<not> closed_tags g (set (card_tags c))) cards)"
proof -
  have "fold (\<lambda>card affected.
         let missing = missing_for_card g (card_tags card) in
         if missing \<noteq> [] then affected @ [(card_id card, missing)] else affected) cards acc =
      acc @ map (\<lambda>c. (card_id c, missing_for_card g (card_tags c)))
       (filter (\<lambda>c. \<not> closed_tags g (set (card_tags c))) cards)" for acc
    by (induction cards arbitrary: acc) (auto simp: Let_def missing_for_card_empty_iff)
  then show ?thesis by (simp add: affected_cards_for_change_def)
qed


section \<open>Cycle detection is exact\<close>

definition implies_cycle :: "tag_graph \<Rightarrow> uuid list \<Rightarrow> bool" where
  "implies_cycle g c \<longleftrightarrow>
     2 \<le> length c \<and> hd c = last c \<and> successively (\<lambda>a b. b \<in> set (implies_of g a)) c"

text \<open>
  The invariant of the search. Below the top of the stack every entry waits for the entry child
  it: its last taken parent is that entry's tag, and the parents before it are black. The grey
  tags are the path. A black tag has black parents only and lies on no cycle.
\<close>

fun below_ok :: "tag_graph \<Rightarrow> color_map \<Rightarrow> uuid \<Rightarrow> dfs_entry list \<Rightarrow> bool" where
  "below_ok g color child [] = True"
| "below_ok g color child ((node, idx, parents) # stack) \<longleftrightarrow>
     parents = sorted_implies g node \<and> 0 < idx \<and> idx \<le> length parents \<and>
     parents ! (idx - 1) = child \<and> (\<forall>j<idx - 1. color_of color (parents ! j) = Black) \<and>
     below_ok g color node stack"

fun stack_ok :: "tag_graph \<Rightarrow> color_map \<Rightarrow> dfs_entry list \<Rightarrow> bool" where
  "stack_ok g color [] = True"
| "stack_ok g color ((node, idx, parents) # stack) \<longleftrightarrow>
     parents = sorted_implies g node \<and> idx \<le> length parents \<and>
     (\<forall>j<idx. color_of color (parents ! j) = Black) \<and> below_ok g color node stack"

definition black_ok :: "tag_graph \<Rightarrow> color_map \<Rightarrow> bool" where
  "black_ok g color \<longleftrightarrow>
     (\<forall>b. color_of color b = Black \<longrightarrow>
        (\<forall>p\<in>set (implies_of g b). color_of color p = Black) \<and> (b, b) \<notin> (implies_rel g)\<^sup>+)"

definition dfs_inv :: "tag_graph \<Rightarrow> color_map \<Rightarrow> dfs_entry list \<Rightarrow> uuid list \<Rightarrow> bool" where
  "dfs_inv g color stack path \<longleftrightarrow>
     path = rev (map fst stack) \<and> distinct (map fst stack) \<and>
     {uid. color_of color uid = Gray} = fst ` set stack \<and>
     stack_ok g color stack \<and> black_ok g color"

lemma set_sorted_implies [simp]: "set (sorted_implies g uid) = set (implies_of g uid)"
  by (simp add: sorted_implies_def)

lemma below_ok_mono:
  "below_ok g color child stack \<Longrightarrow> (\<And>u. color_of color u = Black \<Longrightarrow> color_of color' u = Black) \<Longrightarrow>
     below_ok g color' child stack"
  by (induction g color child stack rule: below_ok.induct) auto

lemma all_less_pred: "0 < i \<Longrightarrow> P (i - 1) \<Longrightarrow> (\<forall>j<i - 1. P j) \<Longrightarrow> (\<forall>j<(i::nat). P j)"
  by (cases i) (auto simp: less_Suc_eq)

lemma below_ok_resume:
  "below_ok g color child stack \<Longrightarrow> color_of color child = Black \<Longrightarrow> stack_ok g color stack"
  by (cases "(g, color, child, stack)" rule: below_ok.cases)
    (auto intro: all_less_pred [rule_format, where P = "\<lambda>j. color_of color (_ ! j) = Black"])

lemma below_ok_path:
  "below_ok g color child stack \<Longrightarrow>
     successively (\<lambda>a b. a \<in> set (implies_of g b)) (child # map fst stack)"
proof (induction g color child stack rule: below_ok.induct)
  case (2 g color child node idx parents stack)
  then have "parents ! (idx - 1) \<in> set parents"
    by (intro nth_mem) auto
  with 2 show ?case
    by auto
qed simp

lemma stack_ok_path:
  "stack_ok g color stack \<Longrightarrow>
     successively (\<lambda>a b. b \<in> set (implies_of g a)) (rev (map fst stack))"
  unfolding successively_rev
  by (cases "(g, color, stack)" rule: stack_ok.cases) (simp_all, blast dest: below_ok_path)

lemma position_of_less: "next \<in> set path \<Longrightarrow> position_of next path < length path \<and>
    path ! position_of next path = next"
  by (fastforce simp: position_of_def in_set_conv_nth find_None_iff find_Some_iff
      split: option.splits)

lemma cycle_found:
  assumes "next \<in> set path" "successively (\<lambda>a b. b \<in> set (implies_of g a)) path"
    and "next \<in> set (implies_of g (last path))"
  shows "implies_cycle g (drop (position_of next path) path @ [next])"
proof -
  let ?i = "position_of next path"
  have i: "?i < length path" "path ! ?i = next"
    using position_of_less [OF assms(1)] by auto
  have "successively (\<lambda>a b. b \<in> set (implies_of g a)) (take ?i path @ drop ?i path)"
    using assms(2) by simp
  then have "successively (\<lambda>a b. b \<in> set (implies_of g a)) (drop ?i path)"
    unfolding successively_append_iff by blast
  then show ?thesis
    using i assms(3) by (auto simp: implies_cycle_def successively_append_iff hd_append hd_drop_conv_nth)
qed

lemma implies_relI: "b \<in> set (implies_of g a) \<Longrightarrow> (a, b) \<in> implies_rel g"
  by (simp add: implies_rel_def)

lemma black_reach:
  assumes "black_ok g color" "(a, b) \<in> (implies_rel g)\<^sup>*" "color_of color a = Black"
  shows "color_of color b = Black"
  using assms(2,3,1) by (induction rule: rtrancl_induct) (auto simp: black_ok_def implies_rel_def)

lemma black_ok_blacken:
  assumes ok: "black_ok g color" and par: "\<forall>p\<in>set (implies_of g node). color_of color p = Black"
    and "color_of color node \<noteq> Black"
  shows "black_ok g (bt_insert node Black color)"
proof -
  have "(node, node) \<notin> (implies_rel g)\<^sup>+"
  proof
    assume "(node, node) \<in> (implies_rel g)\<^sup>+"
    then obtain p where "(node, p) \<in> implies_rel g" "(p, node) \<in> (implies_rel g)\<^sup>*"
      by (blast dest: tranclD)
    with par have "color_of color node = Black"
      by (auto intro: black_reach [OF ok] simp: implies_rel_def)
    with assms(3) show False ..
  qed
  with ok par show ?thesis
    by (auto simp: black_ok_def)
qed

lemma black_ok_gray:
  "black_ok g color \<Longrightarrow> color_of color uid = White \<Longrightarrow> black_ok g (bt_insert uid Gray color)"
  unfolding black_ok_def by (auto split: if_splits)

text \<open>One search from a grey start ends with a cycle, or with every tag it met black.\<close>

definition dfs_done :: "tag_graph \<Rightarrow> color_map \<Rightarrow> uuid list + color_map \<times> uuid list \<Rightarrow> bool" where
  "dfs_done g color result \<longleftrightarrow>
     (case result of
        Inl cycle \<Rightarrow> implies_cycle g cycle
      | Inr (color', path') \<Rightarrow>
          dfs_inv g color' [] path' \<and>
          (\<forall>u. color_of color u \<noteq> White \<longrightarrow> color_of color' u = Black) \<and>
          dom (bt_lookup color) \<subseteq> dom (bt_lookup color'))"

lemma dfs_done_mono:
  "dfs_done g color' result \<Longrightarrow>
     (\<And>u. color_of color u \<noteq> White \<Longrightarrow> color_of color' u \<noteq> White) \<Longrightarrow>
     dom (bt_lookup color) \<subseteq> dom (bt_lookup color') \<Longrightarrow> dfs_done g color result"
  by (force simp: dfs_done_def split: sum.splits)

lemma dfs_inv_pop:
  assumes inv: "dfs_inv g color ((node, idx, parents) # stack) path" and "length parents \<le> idx"
  shows "dfs_inv g (bt_insert node Black color) stack (butlast path)"
proof -
  from inv have gray: "{u. color_of color u = Gray} = insert node (fst ` set stack)"
    and new: "node \<notin> fst ` set stack" and below: "below_ok g color node stack"
    and par: "parents = sorted_implies g node" "\<forall>j<length parents. color_of color (parents ! j) = Black"
    using assms(2) by (auto simp: dfs_inv_def)
  from par have "\<forall>p\<in>set (implies_of g node). color_of color p = Black"
    by (metis in_set_conv_nth set_sorted_implies)
  moreover have "node \<in> {u. color_of color u = Gray}"
    unfolding gray by simp
  then have "color_of color node \<noteq> Black"
    by simp
  ultimately have "black_ok g (bt_insert node Black color)"
    using inv by (intro black_ok_blacken) (auto simp: dfs_inv_def)
  moreover have "stack_ok g (bt_insert node Black color) stack"
    by (rule below_ok_resume [OF below_ok_mono [OF below]]) auto
  moreover have "{u. color_of (bt_insert node Black color) u = Gray} = fst ` set stack"
    using gray new by auto
  ultimately show ?thesis
    using inv by (simp add: dfs_inv_def)
qed

lemma dfs_inv_push:
  assumes inv: "dfs_inv g color ((node, idx, parents) # stack) path" and "idx < length parents"
    and white: "color_of color (parents ! idx) = White"
  shows "dfs_inv g (bt_insert (parents ! idx) Gray color)
    ((parents ! idx, 0, sorted_implies g (parents ! idx)) # (node, Suc idx, parents) # stack)
    (path @ [parents ! idx])"
proof -
  let ?n = "parents ! idx" and ?c = "bt_insert (parents ! idx) Gray color"
  from inv have gray: "{u. color_of color u = Gray} = insert node (fst ` set stack)"
    and below: "below_ok g color node stack" and par: "parents = sorted_implies g node"
    and black: "\<forall>j<idx. color_of color (parents ! j) = Black"
    by (auto simp: dfs_inv_def)
  have keep: "color_of ?c u = Black" if "color_of color u = Black" for u
    using that white by auto
  have "?n \<notin> insert node (fst ` set stack)"
    using gray white by (metis mem_Collect_eq color.distinct(1))
  moreover have "{u. color_of ?c u = Gray} = insert ?n (insert node (fst ` set stack))"
    using gray white by (auto split: if_splits)
  moreover have "below_ok g ?c ?n ((node, Suc idx, parents) # stack)"
    using below_ok_mono [OF below keep] par black assms(2) white by auto
  then have "stack_ok g ?c ((?n, 0, sorted_implies g ?n) # (node, Suc idx, parents) # stack)"
    unfolding stack_ok.simps by (simp del: below_ok.simps)
  moreover have "black_ok g ?c"
    using inv white unfolding dfs_inv_def by (blast intro: black_ok_gray)
  ultimately show ?thesis
    using inv by (simp add: dfs_inv_def del: stack_ok.simps)
qed

lemma dfs_inv_skip:
  "dfs_inv g color ((node, idx, parents) # stack) path \<Longrightarrow> idx < length parents \<Longrightarrow>
     color_of color (parents ! idx) = Black \<Longrightarrow>
     dfs_inv g color ((node, Suc idx, parents) # stack) path"
  by (auto simp: dfs_inv_def less_Suc_eq)

lemma dfs_inv_back_edge:
  assumes inv: "dfs_inv g color ((node, idx, parents) # stack) path" and "idx < length parents"
    and "color_of color (parents ! idx) = Gray"
  shows "implies_cycle g (drop (position_of (parents ! idx) path) path @ [parents ! idx])"
proof (rule cycle_found)
  from inv have path: "path = rev (map fst ((node, idx, parents) # stack))"
    and "{u. color_of color u = Gray} = fst ` set ((node, idx, parents) # stack)"
    and ok: "stack_ok g color ((node, idx, parents) # stack)"
    by (auto simp: dfs_inv_def)
  moreover have "parents ! idx \<in> {u. color_of color u = Gray}"
    using assms(3) by simp
  ultimately show "parents ! idx \<in> set path"
    by simp
  show "successively (\<lambda>a b. b \<in> set (implies_of g a)) path"
    unfolding path by (rule stack_ok_path [OF ok])
  have "parents = sorted_implies g node"
    using ok by simp
  then have "parents ! idx \<in> set (implies_of g node)"
    using nth_mem [OF assms(2)] by simp
  then show "parents ! idx \<in> set (implies_of g (last path))"
    by (simp add: path)
qed

lemma dom_insert_mono: "dom (bt_lookup color) \<subseteq> dom (bt_lookup (bt_insert uid c color))"
  by auto

lemma dfs_loop_done:
  "dfs_inv g color stack path \<Longrightarrow> dfs_done g color (dfs_loop g color stack path)"
proof (induction g color stack path rule: dfs_loop.induct)
  case (1 g color path)
  then have "{u. color_of color u = Gray} = {}"
    by (simp add: dfs_inv_def)
  then have "color_of color u = Black" if "color_of color u \<noteq> White" for u
    using that by (cases "color_of color u") auto
  with 1 show ?case
    by (simp add: dfs_done_def)
next
  case (2 g color node idx parents stack path)
  let ?run = "dfs_loop g color ((node, idx, parents) # stack) path"
  show ?case
  proof (cases "length parents \<le> idx")
    case True
    have "dfs_done g (bt_insert node Black color) ?run"
      using 2(1) [OF True dfs_inv_pop [OF 2(4) True]] True by simp
    then show ?thesis
      by (rule dfs_done_mono) (simp_all add: dom_insert_mono del: bt_lookup_insert)
  next
    case False
    then have idx: "idx < length parents" by simp
    show ?thesis
    proof (cases "color_of color (parents ! idx)")
      case White
      have "dfs_done g (bt_insert (parents ! idx) Gray color) ?run"
        using 2(2) [OF False refl refl White dfs_inv_push [OF 2(4) idx White]] False White
        by (simp add: Let_def)
      then show ?thesis
        by (rule dfs_done_mono) (simp_all add: dom_insert_mono del: bt_lookup_insert)
    next
      case Gray
      then show ?thesis
        using False dfs_inv_back_edge [OF 2(4) idx Gray] by (simp add: Let_def dfs_done_def)
    next
      case Black
      then show ?thesis
        using False 2(3) [OF False refl refl Black dfs_inv_skip [OF 2(4) idx Black]]
        by (simp add: Let_def)
    qed
  qed
qed

lemma dfs_starts_spec:
  assumes "dfs_inv g color [] path" and "set starts \<subseteq> dom (bt_lookup color)"
  shows "case dfs_starts g starts color path of
      Some cycle \<Rightarrow> implies_cycle g cycle
    | None \<Rightarrow> \<exists>color'. black_ok g color' \<and>
        (\<forall>u. u \<in> set starts \<or> color_of color u = Black \<longrightarrow> color_of color' u = Black)"
  using assms
proof (induction starts arbitrary: color path)
  case Nil
  then show ?case by (auto simp: dfs_inv_def)
next
  case (Cons start starts)
  show ?case
  proof (cases "bt_lookup color start = Some White")
    case False
    with Cons.prems(2) have "color_of color start \<noteq> White"
      by (auto simp: color_of_def)
    moreover have "color_of color start \<noteq> Gray"
      using Cons.prems(1) by (auto simp: dfs_inv_def)
    ultimately have "color_of color start = Black"
      by (cases "color_of color start") auto
    with Cons.IH [of color path] Cons.prems False show ?thesis
      by (auto split: option.splits)
  next
    case True
    let ?c = "bt_insert start Gray color"
    have white: "color_of color start = White"
      using True by (simp add: color_of_def)
    have "dfs_inv g ?c [(start, 0, sorted_implies g start)] (path @ [start])"
      using Cons.prems(1) white by (auto simp: dfs_inv_def black_ok_gray)
    note finished = dfs_loop_done [OF this]
    show ?thesis
    proof (cases "dfs_loop g ?c [(start, 0, sorted_implies g start)] (path @ [start])")
      case (Inl cycle)
      with finished True show ?thesis by (simp add: dfs_done_def)
    next
      case (Inr result)
      obtain color' path' where result: "result = (color', path')"
        by (cases result)
      from finished Inr result have inv: "dfs_inv g color' [] path'"
        and black: "\<forall>u. color_of ?c u \<noteq> White \<longrightarrow> color_of color' u = Black"
        and sub: "dom (bt_lookup ?c) \<subseteq> dom (bt_lookup color')"
        by (auto simp: dfs_done_def)
      have "set starts \<subseteq> dom (bt_lookup color')"
        using sub Cons.prems(2) dom_insert_mono [of color start Gray] by (meson insert_subset
            list.set(2)[THEN equalityD1] order_trans set_subset_Cons)
      note IH = Cons.IH [OF inv this]
      have "color_of color' start = Black" "\<And>u. color_of color u = Black \<Longrightarrow> color_of color' u = Black"
        using black by (auto simp: white split: if_splits)
      with IH True Inr result show ?thesis
        by (auto simp del: dfs_loop.simps split: option.splits)
    qed
  qed
qed

lemma start_colors:
  "bt_lookup (bt_collect (map (\<lambda>uid. (uid, White)) keys)) u =
     (if u \<in> set keys then Some White else None)"
  by (simp add: bt_lookup_collect rev_map map_of_map_restrict restrict_map_def)

lemma dfs_start_inv: "dfs_inv g (bt_collect (map (\<lambda>uid. (uid, White)) keys)) [] []"
proof -
  have "color_of (bt_collect (map (\<lambda>uid. (uid, White)) keys)) u = White" for u
    by (simp add: color_of_def start_colors)
  then show ?thesis
    by (simp add: dfs_inv_def black_ok_def)
qed

lemma detect_cycle_spec:
  "case detect_cycle g of Some cycle \<Rightarrow> implies_cycle g cycle
   | None \<Rightarrow> \<exists>color. black_ok g color \<and> (\<forall>u\<in>set (bt_keys (edges g)). color_of color u = Black)"
proof -
  have "set (bt_keys (edges g)) \<subseteq>
      dom (bt_lookup (bt_collect (map (\<lambda>uid. (uid, White)) (bt_keys (edges g)))))"
    by (auto simp: start_colors dom_def)
  from dfs_starts_spec [OF dfs_start_inv this, of g] show ?thesis
    unfolding detect_cycle_def by (auto split: option.splits)
qed

lemma detect_cycle_Some: "detect_cycle g = Some cycle \<Longrightarrow> implies_cycle g cycle"
  using detect_cycle_spec [of g] by simp

lemma implies_rel_key: "(a, b) \<in> implies_rel g \<Longrightarrow> a \<in> set (bt_keys (edges g))"
  by (cases "bt_lookup (edges g) a")
    (auto simp: implies_rel_def implies_of_def bt_keys_def bt_lookup_def
      dest!: map_of_SomeD intro: rev_image_eqI)

lemma detect_cycle_None:
  assumes "detect_cycle g = None"
  shows "acyclic (implies_rel g)"
proof (rule acyclicI, intro allI notI)
  fix a assume cycle: "(a, a) \<in> (implies_rel g)\<^sup>+"
  then have "a \<in> set (bt_keys (edges g))"
    by (auto dest: tranclD implies_rel_key)
  with cycle show False
    using detect_cycle_spec [of g] assms by (auto simp: black_ok_def)
qed

lemma implies_cycle_trancl:
  assumes "implies_cycle g c"
  shows "(hd c, hd c) \<in> (implies_rel g)\<^sup>+"
proof -
  have walk: "successively (\<lambda>a b. b \<in> set (implies_of g a)) (x # xs) \<Longrightarrow> xs \<noteq> [] \<Longrightarrow>
      (x, last xs) \<in> (implies_rel g)\<^sup>+" for x xs
  proof (induction xs arbitrary: x)
    case (Cons y ys)
    then have "(x, y) \<in> (implies_rel g)\<^sup>+"
      by (auto simp: implies_rel_def)
    with Cons show ?case
      by (cases "ys = []") (auto intro: trancl_trans)
  qed simp
  from assms obtain x xs where "c = x # xs" "xs \<noteq> []" "x = last xs"
    by (cases c) (auto simp: implies_cycle_def Suc_le_length_iff)
  with walk [of x xs] assms show ?thesis
    by (simp add: implies_cycle_def)
qed

lemma detect_cycle_None_iff: "detect_cycle g = None \<longleftrightarrow> acyclic (implies_rel g)"
proof
  assume acyclic: "acyclic (implies_rel g)"
  show "detect_cycle g = None"
  proof (cases "detect_cycle g")
    case (Some c)
    with acyclic show ?thesis
      by (auto dest!: detect_cycle_Some implies_cycle_trancl simp: acyclic_def)
  qed
qed (rule detect_cycle_None)

section \<open>Properties\<close>

text \<open>C12: \<open>closure_of\<close> returns exactly the tags reachable from the roots along implies edges (the
  roots included), as a strictly sorted list, whatever the graph: cycles and references to
  unknown tags included.\<close>

theorem closure_is_reachable_set:
  "set (closure_of g roots) = (implies_rel g)\<^sup>* `` set roots \<and>
   sorted_wrt (<) (closure_of g roots)"
  by (simp add: set_closure_of sorted_closure_of)

text \<open>C13: \<open>detect_cycle\<close> is exact: what it returns is a closed walk of the implies relation, first
  and last node equal, and it returns \<open>None\<close> only if the relation is acyclic.\<close>

theorem cycle_detection_exact:
  "case detect_cycle g of Some c \<Rightarrow> implies_cycle g c | None \<Rightarrow> acyclic (implies_rel g)"
  by (simp add: detect_cycle_Some detect_cycle_None split: option.split)

text \<open>\<open>missing_for_card\<close> is the least completion of a card: together with the card's tags it is
  the intersection of all closed tag sets that contain them, it lists no tag the card has, and it
  is strictly sorted.\<close>

theorem missing_tags_least:
  "set (missing_for_card g tags) = \<Inter> {S. closed_tags g S \<and> set tags \<subseteq> S} - set tags \<and>
   sorted_wrt (<) (missing_for_card g tags)"
proof -
  have "set tags \<union> set (missing_for_card g tags) = \<Inter> {S. closed_tags g S \<and> set tags \<subseteq> S}"
  proof
    show "set tags \<union> set (missing_for_card g tags) \<subseteq> \<Inter> {S. closed_tags g S \<and> set tags \<subseteq> S}"
      using missing_minimal by blast
    show "\<Inter> {S. closed_tags g S \<and> set tags \<subseteq> S} \<subseteq> set tags \<union> set (missing_for_card g tags)"
      using closed_with_missing [of g tags] by blast
  qed
  then show ?thesis
    using sorted_missing_for_card set_missing_for_card [of g tags] by blast
qed

end
