(* ===== verification/Storage_Db.thy ===== *)
theory Storage_Db
  imports Protocol_Types Wire Tag_Graph
begin

text \<open>
  The tables of the SQLite storage (server/src/storage/sqlite/schema.rs), the errors of
  server/src/storage/error.rs, and the row helpers of server/src/storage/sqlite/helpers.rs.

  A table is the list of its rows in insertion order. A statement is modelled by what its SQL says:
  an \<open>INSERT\<close> fails on a key that exists, an \<open>INSERT OR REPLACE\<close> drops the rows it conflicts with
  and appends, an \<open>UPDATE\<close> maps over the rows its \<open>WHERE\<close> selects. Identifiers and hashes, blobs
  of fixed size, are kept as the words they encode; the variable-size postcard blobs (tags, implies)
  and the colour stay byte strings, because reading them back can fail.
\<close>

section \<open>What the storage takes from other crates\<close>

text \<open>
  BLAKE3, the postcard codec of \<open>Vec<Uuid>\<close> (\<open>None\<close>: an error) and the range of timestamps that
  \<open>DateTime::from_timestamp_millis\<close> accepts.
\<close>

record ext =
  blake3 :: "bytes \<Rightarrow> hash"
  to_allocvec :: "uuid list \<Rightarrow> bytes"
  from_bytes :: "bytes \<Rightarrow> uuid list option"
  timestamp_ok :: "int \<Rightarrow> bool"

definition postcard_ok :: "ext \<Rightarrow> bool" where
  "postcard_ok E \<longleftrightarrow> (\<forall>us. from_bytes E (to_allocvec E us) = Some us)"

section \<open>Errors\<close>

datatype sql_error = ConstraintViolation | ConversionFailure | IntegerOverflow

text \<open>
  \<open>Internal(String)\<close> carries a message for the log. The model keeps what the message reports:
  an SQL error, a malformed identifier, or the display text of another storage error.
\<close>

datatype internal_message = SqlMessage sql_error | InvalidIdMessage | DisplayText string

datatype storage_error =
    NotFound
  | AlreadyDeleted
  | OrphanedTagReference uuid "uuid list"
  | OrphanedTagImpliesReference uuid "uuid list"
  | RootHashMismatch NonNegativeI64 hash
  | IncompatibleVersion version version
  | MigrationNotImplemented version version
  | Internal internal_message

datatype push_op_error = Domain push_error | Internal internal_message

record batch_failure =
  failed_index :: nat
  failed_error :: push_op_error

definition storage_error_from_sql :: "sql_error \<Rightarrow> storage_error" where
  "storage_error_from_sql e = storage_error.Internal (SqlMessage e)"

definition push_op_error_from_sql :: "sql_error \<Rightarrow> push_op_error" where
  "push_op_error_from_sql e = push_op_error.Internal (SqlMessage e)"

fun push_op_error_from_storage :: "storage_error \<Rightarrow> push_op_error" where
  "push_op_error_from_storage storage_error.AlreadyDeleted = Domain push_error.AlreadyDeleted"
| "push_op_error_from_storage (storage_error.OrphanedTagReference uid cards) =
     Domain (push_error.OrphanedTagReference uid cards)"
| "push_op_error_from_storage (storage_error.OrphanedTagImpliesReference uid tags) =
     Domain (push_error.OrphanedTagImpliesReference uid tags)"
| "push_op_error_from_storage storage_error.NotFound =
     push_op_error.Internal (DisplayText ''entity not found'')"
| "push_op_error_from_storage (storage_error.Internal msg) = push_op_error.Internal msg"
| "push_op_error_from_storage (storage_error.RootHashMismatch _ _) =
     push_op_error.Internal (DisplayText ''root hash mismatch'')"
| "push_op_error_from_storage (storage_error.IncompatibleVersion _ _) =
     push_op_error.Internal (DisplayText ''incompatible database'')"
| "push_op_error_from_storage (storage_error.MigrationNotImplemented _ _) =
     push_op_error.Internal (DisplayText ''automatic migration path is not available'')"

section \<open>Rows and tables\<close>

text \<open>The columns \<open>CARD_COLS\<close> and \<open>TAG_COLS\<close> read, in their order.\<close>

record card_cols =
  col_card_id :: uuid
  col_content :: string
  col_priority :: int
  col_tags :: bytes
  col_blazed :: bool
  col_created_at :: int
  col_modified_at :: int
  col_due_date :: "int option"
  col_count :: int
  col_ancestor_hash :: hash
  col_hash :: hash

record tag_cols =
  tcol_tag_id :: uuid
  tcol_title :: string
  tcol_color :: "bytes option"
  tcol_created_at :: int
  tcol_modified_at :: int
  tcol_count :: int
  tcol_ancestor_hash :: hash
  tcol_hash :: hash
  tcol_implies :: bytes

text \<open>
  The live tables (cards, tags, deleted entities) add \<open>root_sequence_at\<close> and \<open>bucket\<close>, the version
  tables \<open>root_sequence_at\<close> alone.
\<close>

record 'c entity_row =
  row_cols :: 'c
  row_seq :: int
  row_bucket :: u8

record 'c version_row =
  ver_cols :: 'c
  ver_seq :: int

record history_row =
  hist_sequence :: int
  hist_hash :: hash
  hist_created_at :: int

text \<open>
  \<open>root_state\<close> is a single row; \<open>root_buckets\<close> has one row for each of the 256 buckets from
  \<open>init_schema\<close> on, and no statement removes one.
\<close>

record db =
  cards_table :: "card_cols entity_row list"
  card_versions :: "card_cols version_row list"
  tags_table :: "tag_cols entity_row list"
  tag_versions :: "tag_cols version_row list"
  deleted_entities :: "deleted_entity entity_row list"
  db_root_hash :: hash
  db_sequence :: int
  root_history :: "history_row list"
  root_buckets :: "u8 \<Rightarrow> hash"

definition empty_db :: db where
  "empty_db =
     \<lparr>cards_table = [], card_versions = [], tags_table = [], tag_versions = [],
      deleted_entities = [], db_root_hash = ZERO_HASH, db_sequence = 0, root_history = [],
      root_buckets = (\<lambda>_. ZERO_HASH)\<rparr>"

text \<open>The row operations shared by the statements: \<open>idf\<close> reads the id column.\<close>

definition find_row :: "('c \<Rightarrow> uuid) \<Rightarrow> uuid \<Rightarrow> 'c entity_row list \<Rightarrow> 'c entity_row option" where
  "find_row idf uid rows = find (\<lambda>r. idf (row_cols r) = uid) rows"

definition delete_rows :: "('c \<Rightarrow> uuid) \<Rightarrow> uuid \<Rightarrow> 'c entity_row list \<Rightarrow> 'c entity_row list" where
  "delete_rows idf uid rows = filter (\<lambda>r. idf (row_cols r) \<noteq> uid) rows"

definition stamp_rows ::
  "('c \<Rightarrow> uuid) \<Rightarrow> uuid \<Rightarrow> int \<Rightarrow> 'c entity_row list \<Rightarrow> 'c entity_row list" where
  "stamp_rows idf uid seq rows =
     map (\<lambda>r. if idf (row_cols r) = uid then r\<lparr>row_seq := seq\<rparr> else r) rows"

definition stamp_versions ::
  "('c \<Rightarrow> uuid) \<Rightarrow> uuid \<Rightarrow> int \<Rightarrow> 'c version_row list \<Rightarrow> 'c version_row list" where
  "stamp_versions idf uid seq rows =
     map (\<lambda>r. if idf (ver_cols r) = uid \<and> ver_seq r = 0 then r\<lparr>ver_seq := seq\<rparr> else r) rows"

definition delete_versions :: "('c \<Rightarrow> uuid) \<Rightarrow> uuid \<Rightarrow> 'c version_row list \<Rightarrow> 'c version_row list"
  where "delete_versions idf uid rows = filter (\<lambda>r. idf (ver_cols r) \<noteq> uid) rows"

text \<open>A plain \<open>INSERT\<close> under the primary key (id, count), for each version in turn.\<close>

fun insert_versions ::
  "('c \<Rightarrow> uuid \<times> int) \<Rightarrow> 'c list \<Rightarrow> 'c version_row list \<Rightarrow> (sql_error, 'c version_row list) outcome"
where
  "insert_versions key [] rows = Ok rows"
| "insert_versions key (c # cs) rows =
     (if key c \<in> set (map (\<lambda>r. key (ver_cols r)) rows) then Err ConstraintViolation
      else insert_versions key cs (rows @ [\<lparr>ver_cols = c, ver_seq = 0\<rparr>]))"

section \<open>helpers.rs\<close>

definition bucket_of :: "uuid \<Rightarrow> u8" where
  "bucket_of uid = hd (uuid_bytes uid)"

definition serialize_tags :: "ext \<Rightarrow> uuid list \<Rightarrow> bytes" where
  "serialize_tags E tags = to_allocvec E tags"

definition deserialize_tags :: "ext \<Rightarrow> bytes \<Rightarrow> ('e, uuid list) outcome" where
  "deserialize_tags E bytes = (case from_bytes E bytes of Some us \<Rightarrow> Ok us | None \<Rightarrow> Panic)"

definition serialize_implies :: "ext \<Rightarrow> uuid list \<Rightarrow> bytes" where
  "serialize_implies E implied = to_allocvec E implied"

definition deserialize_implies :: "ext \<Rightarrow> bytes \<Rightarrow> ('e, uuid list) outcome" where
  "deserialize_implies E bytes = (case from_bytes E bytes of Some us \<Rightarrow> Ok us | None \<Rightarrow> Panic)"

definition from_timestamp_millis :: "ext \<Rightarrow> int \<Rightarrow> ('e, datetime) outcome" where
  "from_timestamp_millis E ms = (if timestamp_ok E ms then Ok ms else Panic)"

definition optional_timestamp :: "ext \<Rightarrow> int option \<Rightarrow> ('e, datetime option) outcome" where
  "optional_timestamp E ms =
     (case ms of None \<Rightarrow> Ok None | Some ms \<Rightarrow> map_ok Some (from_timestamp_millis E ms))"

definition read_count :: "int \<Rightarrow> (sql_error, NonNegativeI64) outcome" where
  "read_count raw = map_err (\<lambda>_. ConversionFailure) (nn_try_from_i64 raw)"

definition read_color :: "bytes option \<Rightarrow> ('e, RGB8 option) outcome" where
  "read_color col =
     (case col of
        None \<Rightarrow> Ok None
      | Some (r # g # b # _) \<Rightarrow> Ok (Some \<lparr>red = r, green = g, blue = b\<rparr>)
      | Some _ \<Rightarrow> Panic)"

definition card_from_row :: "ext \<Rightarrow> card_cols \<Rightarrow> (sql_error, card) outcome" where
  "card_from_row E r =
     bind_outcome (read_count (col_count r)) (\<lambda>count.
     bind_outcome (deserialize_tags E (col_tags r)) (\<lambda>tags.
     bind_outcome (from_timestamp_millis E (col_created_at r)) (\<lambda>created_at.
     bind_outcome (from_timestamp_millis E (col_modified_at r)) (\<lambda>modified_at.
     bind_outcome (optional_timestamp E (col_due_date r)) (\<lambda>due_date.
       map_err (\<lambda>_. ConversionFailure)
         (card_from_parts (blake3 E) (col_card_id r) (col_content r) (col_priority r) tags
            (col_blazed r) created_at modified_at count (col_ancestor_hash r) (col_hash r)
            due_date))))))"

definition tag_from_row :: "ext \<Rightarrow> tag_cols \<Rightarrow> (sql_error, tag) outcome" where
  "tag_from_row E r =
     bind_outcome (read_color (tcol_color r)) (\<lambda>color.
     bind_outcome (read_count (tcol_count r)) (\<lambda>count.
     bind_outcome (from_timestamp_millis E (tcol_created_at r)) (\<lambda>created_at.
     bind_outcome (from_timestamp_millis E (tcol_modified_at r)) (\<lambda>modified_at.
     bind_outcome (deserialize_implies E (tcol_implies r)) (\<lambda>implied.
       map_err (\<lambda>_. ConversionFailure)
         (tag_from_parts (blake3 E) (tcol_tag_id r) (tcol_title r) color created_at modified_at
            count (tcol_ancestor_hash r) (tcol_hash r) implied))))))"

definition is_deleted :: "db \<Rightarrow> uuid \<Rightarrow> bool" where
  "is_deleted db uid \<longleftrightarrow>
     0 < length (filter (\<lambda>r. deleted_id (row_cols r) = uid) (deleted_entities db))"

text \<open>The parameters bound by the \<open>INSERT\<close> statements of write.rs.\<close>

definition card_params :: "ext \<Rightarrow> card \<Rightarrow> card_cols" where
  "card_params E v =
     \<lparr>col_card_id = card_id v, col_content = card_content v, col_priority = card_priority v,
      col_tags = serialize_tags E (card_tags v), col_blazed = card_blazed v,
      col_created_at = card_created_at v, col_modified_at = card_modified_at v,
      col_due_date = card_due_date v, col_count = i64_from_nn (card_count v),
      col_ancestor_hash = card_ancestor_hash v, col_hash = card_hash v\<rparr>"

definition tag_params :: "ext \<Rightarrow> tag \<Rightarrow> tag_cols" where
  "tag_params E v =
     \<lparr>tcol_tag_id = tag_id v, tcol_title = tag_title v,
      tcol_color = map_option (\<lambda>c. [red c, green c, blue c]) (tag_color v),
      tcol_created_at = tag_created_at v, tcol_modified_at = tag_modified_at v,
      tcol_count = i64_from_nn (tag_count v), tcol_ancestor_hash = tag_ancestor_hash v,
      tcol_hash = tag_hash v, tcol_implies = serialize_implies E (tag_implies v)\<rparr>"

definition card_key :: "card_cols \<Rightarrow> uuid \<times> int" where
  "card_key c = (col_card_id c, col_count c)"

definition tag_key :: "tag_cols \<Rightarrow> uuid \<times> int" where
  "tag_key c = (tcol_tag_id c, tcol_count c)"

section \<open>A written row reads back\<close>

text \<open>
  What the Rust types guarantee of a value in memory: counts are not negative and timestamps lie
  in the range of \<open>DateTime\<close>.
\<close>

definition card_typed :: "ext \<Rightarrow> card \<Rightarrow> bool" where
  "card_typed E c \<longleftrightarrow>
     nn_ok (card_count c) \<and> timestamp_ok E (card_created_at c) \<and>
     timestamp_ok E (card_modified_at c) \<and>
     (case card_due_date c of None \<Rightarrow> True | Some ms \<Rightarrow> timestamp_ok E ms)"

definition tag_typed :: "ext \<Rightarrow> tag \<Rightarrow> bool" where
  "tag_typed E t \<longleftrightarrow>
     nn_ok (tag_count t) \<and> timestamp_ok E (tag_created_at t) \<and> timestamp_ok E (tag_modified_at t)"

lemma deserialize_tags_Ok [simp]:
  "postcard_ok E \<Longrightarrow> deserialize_tags E (serialize_tags E us) = Ok us"
  by (simp add: postcard_ok_def deserialize_tags_def serialize_tags_def)

lemma deserialize_implies_Ok [simp]:
  "postcard_ok E \<Longrightarrow> deserialize_implies E (serialize_implies E us) = Ok us"
  by (simp add: postcard_ok_def deserialize_implies_def serialize_implies_def)

lemma read_count_Ok [simp]: "nn_ok c \<Longrightarrow> read_count (i64_from_nn c) = Ok c"
  by (simp add: read_count_def nn_try_from_i64_roundtrip)

lemma read_color_Ok [simp]: "read_color (map_option (\<lambda>c. [red c, green c, blue c]) col) = Ok col"
  by (cases col) (simp_all add: read_color_def)

lemma card_from_row_params:
  assumes "postcard_ok E" "card_typed E c" "card_verify (blake3 E) c"
  shows "card_from_row E (card_params E c) = Ok c"
proof -
  have "optional_timestamp E (card_due_date c) = (Ok (card_due_date c) :: (sql_error, _) outcome)"
    using assms(2)
    by (cases "card_due_date c") (simp_all add: card_typed_def optional_timestamp_def from_timestamp_millis_def)
  then show ?thesis
    using assms
    by (cases c) (simp add: card_from_row_def card_params_def card_typed_def
        from_timestamp_millis_def card_from_parts_def Let_def)
qed

lemma tag_from_row_params:
  assumes "postcard_ok E" "tag_typed E t" "tag_verify (blake3 E) t"
    and "sorted_wrt (<) (tag_implies t)"
  shows "tag_from_row E (tag_params E t) = Ok t"
  using assms
  by (cases t) (simp add: tag_from_row_def tag_params_def tag_typed_def from_timestamp_millis_def
      tag_from_parts_def normalize_implies_id Let_def)

lemma card_params_simps [simp]:
  "col_card_id (card_params E c) = card_id c" "col_priority (card_params E c) = card_priority c"
  "col_hash (card_params E c) = card_hash c" "col_tags (card_params E c) = serialize_tags E (card_tags c)"
  "col_blazed (card_params E c) = card_blazed c" "col_count (card_params E c) = i64_from_nn (card_count c)"
  by (simp_all add: card_params_def)

lemma tag_params_simps [simp]:
  "tcol_tag_id (tag_params E t) = tag_id t" "tcol_hash (tag_params E t) = tag_hash t"
  "tcol_implies (tag_params E t) = serialize_implies E (tag_implies t)"
  "tcol_title (tag_params E t) = tag_title t" "tcol_count (tag_params E t) = i64_from_nn (tag_count t)"
  by (simp_all add: tag_params_def)

lemma is_deleted_iff: "is_deleted db uid \<longleftrightarrow> uid \<in> (deleted_id \<circ> row_cols) ` set (deleted_entities db)"
  by (auto simp: is_deleted_def filter_empty_conv)

end
