(* ===== verification/Storage_Root.thy ===== *)
theory Storage_Root
  imports Storage_Db
begin

text \<open>
  The root hash (server/src/storage/sqlite/root.rs): the hash of one bucket, the root derived from
  the 256 cached bucket hashes, and the update after a mutation, which recomputes the affected
  buckets only.
\<close>

section \<open>Bucket hashes\<close>

text \<open>\<open>SELECT hash FROM t WHERE bucket = ?1 ORDER BY id\<close>; ids are blobs of 16 bytes, compared bytewise.\<close>

definition select_bucket_hashes ::
  "('c \<Rightarrow> uuid) \<Rightarrow> ('c \<Rightarrow> hash) \<Rightarrow> 'c entity_row list \<Rightarrow> u8 \<Rightarrow> hash list" where
  "select_bucket_hashes idf hashf rows bucket =
     map (\<lambda>r. hashf (row_cols r))
       (sort_key (\<lambda>r. idf (row_cols r)) (filter (\<lambda>r. row_bucket r = bucket) rows))"

definition recompute_bucket_hash :: "ext \<Rightarrow> db \<Rightarrow> u8 \<Rightarrow> hash" where
  "recompute_bucket_hash E db bucket =
     (let card_hashes = select_bucket_hashes col_card_id col_hash (cards_table db) bucket;
          tag_hashes = select_bucket_hashes tcol_tag_id tcol_hash (tags_table db) bucket;
          deleted_hashes = select_bucket_hashes deleted_id deleted_hash (deleted_entities db) bucket
      in if card_hashes = [] \<and> tag_hashes = [] \<and> deleted_hashes = [] then ZERO_HASH
         else blake3 E (concat (map hash_bytes card_hashes) @ concat (map hash_bytes tag_hashes) @
           concat (map hash_bytes deleted_hashes)))"

section \<open>The root\<close>

definition bucket_list :: "u8 list" where
  "bucket_list = map of_nat [0..<256]"

definition root_hash_of :: "ext \<Rightarrow> (u8 \<Rightarrow> hash) \<Rightarrow> hash" where
  "root_hash_of E buckets =
     (let bucket_hashes = map buckets bucket_list in
      if list_all (\<lambda>h. h = ZERO_HASH) bucket_hashes then ZERO_HASH
      else blake3 E (concat (map hash_bytes bucket_hashes)))"

text \<open>
  The sequence is an \<open>i64\<close> column: past its maximum SQLite turns \<open>sequence + 1\<close> into a real, which
  the read of the new sequence rejects. The insert into \<open>root_history\<close> has the sequence as key.
  \<open>now\<close> is the clock reading of \<open>Utc::now()\<close>.
\<close>

definition recompute_root_from_buckets ::
  "ext \<Rightarrow> int \<Rightarrow> db \<Rightarrow> (sql_error, db \<times> int) outcome" where
  "recompute_root_from_buckets E now db =
     (let root_hash = root_hash_of E (root_buckets db); new_sequence = db_sequence db + 1 in
      if i64_max < new_sequence then Err IntegerOverflow
      else if new_sequence \<in> hist_sequence ` set (root_history db) then Err ConstraintViolation
      else Ok (db\<lparr>db_root_hash := root_hash, db_sequence := new_sequence,
             root_history := root_history db @
               [\<lparr>hist_sequence = new_sequence, hist_hash = root_hash, hist_created_at = now\<rparr>]\<rparr>,
           new_sequence))"

definition update_bucket :: "ext \<Rightarrow> u8 \<Rightarrow> db \<Rightarrow> db" where
  "update_bucket E bucket db =
     db\<lparr>root_buckets := (root_buckets db)(bucket := recompute_bucket_hash E db bucket)\<rparr>"

definition recompute_root_for_ids ::
  "ext \<Rightarrow> int \<Rightarrow> uuid list \<Rightarrow> db \<Rightarrow> (sql_error, db \<times> int) outcome" where
  "recompute_root_for_ids E now ids db =
     (let buckets = remdups_adj (sort (map bucket_of ids));
          db = fold (update_bucket E) buckets db
      in recompute_root_from_buckets E now db)"

section \<open>What an update of the buckets leaves\<close>

lemma recompute_bucket_hash_buckets [simp]:
  "recompute_bucket_hash E (db\<lparr>root_buckets := b\<rparr>) = recompute_bucket_hash E db"
  by (simp add: recompute_bucket_hash_def fun_eq_iff)

lemma recompute_bucket_hash_root [simp]:
  "recompute_bucket_hash E (db\<lparr>db_root_hash := h\<rparr>) = recompute_bucket_hash E db"
  "recompute_bucket_hash E (db\<lparr>db_sequence := s\<rparr>) = recompute_bucket_hash E db"
  "recompute_bucket_hash E (db\<lparr>root_history := hist\<rparr>) = recompute_bucket_hash E db"
  "recompute_bucket_hash E (db\<lparr>card_versions := cv\<rparr>) = recompute_bucket_hash E db"
  "recompute_bucket_hash E (db\<lparr>tag_versions := tv\<rparr>) = recompute_bucket_hash E db"
  by (simp_all add: recompute_bucket_hash_def fun_eq_iff)

lemma fold_update_bucket:
  "fold (update_bucket E) bs db =
     db\<lparr>root_buckets :=
       (\<lambda>b. if b \<in> set bs then recompute_bucket_hash E db b else root_buckets db b)\<rparr>"
proof (induction bs arbitrary: db)
  case Nil
  then show ?case by simp
next
  case (Cons b bs)
  then show ?case
    by (auto simp: update_bucket_def intro!: arg_cong [where f = "\<lambda>x. db\<lparr>root_buckets := x\<rparr>"])
qed

text \<open>
  One statement for the update after a mutation: the affected buckets, the new root, the new
  history entry. It fails only on a full sequence or an occupied one.
\<close>

definition refreshed_buckets :: "ext \<Rightarrow> uuid list \<Rightarrow> db \<Rightarrow> u8 \<Rightarrow> hash" where
  "refreshed_buckets E ids db b =
     (if b \<in> bucket_of ` set ids then recompute_bucket_hash E db b else root_buckets db b)"

lemma recompute_root_for_ids_eq:
  "recompute_root_for_ids E now ids db =
     recompute_root_from_buckets E now (db\<lparr>root_buckets := refreshed_buckets E ids db\<rparr>)"
proof -
  have "(\<lambda>b. if b \<in> set (remdups_adj (sort (map bucket_of ids))) then recompute_bucket_hash E db b
      else root_buckets db b) = refreshed_buckets E ids db"
    by (rule ext) (simp add: refreshed_buckets_def)
  then show ?thesis
    by (simp add: recompute_root_for_ids_def Let_def fold_update_bucket)
qed

lemma recompute_root_Ok:
  "recompute_root_for_ids E now ids db = Ok (db', seq) \<longleftrightarrow>
     seq = db_sequence db + 1 \<and> seq \<le> i64_max \<and> seq \<notin> hist_sequence ` set (root_history db) \<and>
     (let buckets = refreshed_buckets E ids db; h = root_hash_of E buckets in
      db' = db\<lparr>root_buckets := buckets, db_root_hash := h, db_sequence := seq,
        root_history := root_history db @
          [\<lparr>hist_sequence = seq, hist_hash = h, hist_created_at = now\<rparr>]\<rparr>)"
  by (auto simp: recompute_root_for_ids_eq recompute_root_from_buckets_def Let_def)

lemma recompute_root_not_Panic: "recompute_root_for_ids E now ids db \<noteq> Panic"
  by (simp add: recompute_root_for_ids_eq recompute_root_from_buckets_def Let_def)

lemma set_bucket_list: "set bucket_list = UNIV"
proof -
  have "b \<in> set bucket_list" for b :: u8
  proof -
    have "unat b < 256"
      using unsigned_less [of b, where ?'a = nat] by simp
    then have "of_nat (unat b) \<in> (of_nat :: nat \<Rightarrow> u8) ` {0..<256}"
      by (intro imageI) simp
    then show ?thesis
      by (simp add: bucket_list_def)
  qed
  then show ?thesis by auto
qed

lemma root_hash_of_zero: "(\<And>b. buckets b = ZERO_HASH) \<Longrightarrow> root_hash_of E buckets = ZERO_HASH"
  by (simp add: root_hash_of_def list_all_iff)

lemma concat_hash_bytes_inj:
  "length xs = length ys \<Longrightarrow> concat (map hash_bytes xs) = concat (map hash_bytes ys) \<longleftrightarrow> xs = ys"
  by (induction xs ys rule: list_induct2) (auto simp: append_same_length)

lemma length_concat_hash_bytes: "length (concat (map hash_bytes xs)) = 32 * length xs"
  by (induction xs) auto

lemma concat_hash_bytes_eq_iff:
  "concat (map hash_bytes xs) = concat (map hash_bytes ys) \<longleftrightarrow> xs = ys"
proof
  assume eq: "concat (map hash_bytes xs) = concat (map hash_bytes ys)"
  have "length xs = length ys"
    using arg_cong [OF eq, of length] by (simp add: length_concat_hash_bytes)
  with eq show "xs = ys" by (simp add: concat_hash_bytes_inj)
qed simp

end
