(* ===== verification/Storage_Write.thy ===== *)
theory Storage_Write
  imports Storage_Root
begin

text \<open>
  The inner write operations (server/src/storage/sqlite/write.rs) and the validator of the tag
  implication invariant (server/src/storage/sqlite/implications.rs). Each takes the state inside
  the transaction and returns the new one; an error leaves the rollback to the caller.
\<close>

section \<open>Pushing card versions\<close>

text \<open>\<open>INSERT OR REPLACE INTO cards\<close>: the conflicts are the primary key and the unique priority.\<close>

definition replace_card_row :: "card_cols entity_row \<Rightarrow> card_cols entity_row list \<Rightarrow> card_cols entity_row list"
  where "replace_card_row row rows =
     filter (\<lambda>r. col_card_id (row_cols r) \<noteq> col_card_id (row_cols row) \<and>
       col_priority (row_cols r) \<noteq> col_priority (row_cols row)) rows @ [row]"

definition find_duplicate_priority :: "int \<Rightarrow> uuid \<Rightarrow> card_cols entity_row list \<Rightarrow> card_cols entity_row option"
  where "find_duplicate_priority priority uid rows =
     find (\<lambda>r. col_priority (row_cols r) = priority \<and> col_card_id (row_cols r) \<noteq> uid) rows"

definition push_card_versions_inner :: "ext \<Rightarrow> db \<Rightarrow> card list \<Rightarrow> (push_op_error, db) outcome" where
  "push_card_versions_inner E db versions =
     (if versions = [] then Err (Domain EmptyChain)
      else
        let uid = card_id (hd versions) in
        if list_ex (\<lambda>v. \<not> card_verify (blake3 E) v) versions then Err (Domain HashVerificationFailed)
        else if is_deleted db uid then Err (Domain push_error.AlreadyDeleted)
        else
          let current = find_row col_card_id uid (cards_table db);
              expected_ancestor =
                (case current of Some r \<Rightarrow> col_hash (row_cols r) | None \<Rightarrow> ZERO_HASH) in
          if card_ancestor_hash (hd versions) \<noteq> expected_ancestor then
            (case current of
               Some r \<Rightarrow>
                 bind_outcome (map_err push_op_error_from_sql (card_from_row E (row_cols r)))
                   (\<lambda>latest. Err (Domain (CardAncestorMismatch latest)))
             | None \<Rightarrow> Err (Domain HashVerificationFailed))
          else if \<not> windows_linked card_ancestor_hash card_hash versions then
            Err (Domain HashVerificationFailed)
          else
            bind_outcome (map_err push_op_error_from_sql
                (insert_versions card_key (map (card_params E) versions) (card_versions db)))
              (\<lambda>card_versions'.
                 let latest = last versions in
                 case find_duplicate_priority (card_priority latest) (card_id latest)
                     (cards_table db) of
                   Some r \<Rightarrow> Err (Domain (DuplicatePriority (col_card_id (row_cols r))
                     (col_priority (row_cols r))))
                 | None \<Rightarrow>
                     Ok (db\<lparr>card_versions := card_versions',
                       cards_table := replace_card_row
                         \<lparr>row_cols = card_params E latest, row_seq = 0,
                          row_bucket = bucket_of (card_id latest)\<rparr> (cards_table db)\<rparr>)))"

section \<open>Pushing tag versions\<close>

definition replace_row :: "('c \<Rightarrow> uuid) \<Rightarrow> 'c entity_row \<Rightarrow> 'c entity_row list \<Rightarrow> 'c entity_row list"
  where "replace_row idf row rows = delete_rows idf (idf (row_cols row)) rows @ [row]"

definition push_tag_versions_inner :: "ext \<Rightarrow> db \<Rightarrow> tag list \<Rightarrow> (push_op_error, db) outcome" where
  "push_tag_versions_inner E db versions =
     (if versions = [] then Err (Domain EmptyChain)
      else
        let uid = tag_id (hd versions) in
        if list_ex (\<lambda>v. \<not> tag_verify (blake3 E) v) versions then Err (Domain HashVerificationFailed)
        else if is_deleted db uid then Err (Domain push_error.AlreadyDeleted)
        else
          let current = find_row tcol_tag_id uid (tags_table db);
              expected_ancestor =
                (case current of Some r \<Rightarrow> tcol_hash (row_cols r) | None \<Rightarrow> ZERO_HASH) in
          if tag_ancestor_hash (hd versions) \<noteq> expected_ancestor then
            (case current of
               Some r \<Rightarrow>
                 bind_outcome (map_err push_op_error_from_sql (tag_from_row E (row_cols r)))
                   (\<lambda>latest. Err (Domain (TagAncestorMismatch latest)))
             | None \<Rightarrow> Err (Domain HashVerificationFailed))
          else if \<not> windows_linked tag_ancestor_hash tag_hash versions then
            Err (Domain HashVerificationFailed)
          else
            bind_outcome (map_err push_op_error_from_sql
                (insert_versions tag_key (map (tag_params E) versions) (tag_versions db)))
              (\<lambda>tag_versions'.
                 let latest = last versions in
                 Ok (db\<lparr>tag_versions := tag_versions',
                   tags_table := replace_row tcol_tag_id
                     \<lparr>row_cols = tag_params E latest, row_seq = 0,
                      row_bucket = bucket_of (tag_id latest)\<rparr> (tags_table db)\<rparr>)))"

section \<open>Deletion\<close>

definition record_deletion :: "ext \<Rightarrow> uuid \<Rightarrow> db \<Rightarrow> db" where
  "record_deletion E uid db =
     db\<lparr>deleted_entities := replace_row deleted_id
       \<lparr>row_cols = deleted_new (blake3 E) uid, row_seq = 0, row_bucket = bucket_of uid\<rparr>
       (deleted_entities db)\<rparr>"

definition delete_card_inner ::
  "ext \<Rightarrow> db \<Rightarrow> uuid \<Rightarrow> (storage_error, db \<times> deleted_entity) outcome" where
  "delete_card_inner E db uid =
     (if is_deleted db uid then Err storage_error.AlreadyDeleted
      else if length (filter (\<lambda>r. col_card_id (row_cols r) = uid) (cards_table db)) = 0 then
        Err storage_error.NotFound
      else
        let db = db\<lparr>card_versions := delete_versions col_card_id uid (card_versions db)\<rparr>;
            db = db\<lparr>cards_table := delete_rows col_card_id uid (cards_table db)\<rparr>
        in Ok (record_deletion E uid db, deleted_new (blake3 E) uid))"

text \<open>The two scans of \<open>delete_tag_inner\<close>: the cards that hold the tag, the tags that imply it.\<close>

definition referencing_cards :: "ext \<Rightarrow> db \<Rightarrow> uuid \<Rightarrow> (storage_error, uuid list) outcome" where
  "referencing_cards E db uid =
     bind_outcome
       (collect_results
          (\<lambda>r. map_ok (\<lambda>tags. (col_card_id (row_cols r), tags))
             (deserialize_tags E (col_tags (row_cols r))))
          (cards_table db))
       (\<lambda>rows. Ok (map fst (filter (\<lambda>(card_id, tags). uid \<in> set tags) rows)))"

definition implying_tags :: "ext \<Rightarrow> db \<Rightarrow> uuid \<Rightarrow> (storage_error, uuid list) outcome" where
  "implying_tags E db uid =
     bind_outcome
       (collect_results
          (\<lambda>r. map_ok (\<lambda>implied. (tcol_tag_id (row_cols r), implied))
             (deserialize_implies E (tcol_implies (row_cols r))))
          (filter (\<lambda>r. tcol_tag_id (row_cols r) \<noteq> uid) (tags_table db)))
       (\<lambda>rows. Ok (map fst (filter (\<lambda>(tag_id, implied). uid \<in> set implied) rows)))"

definition delete_tag_inner ::
  "ext \<Rightarrow> db \<Rightarrow> uuid \<Rightarrow> (storage_error, db \<times> deleted_entity) outcome" where
  "delete_tag_inner E db uid =
     (if is_deleted db uid then Err storage_error.AlreadyDeleted
      else if length (filter (\<lambda>r. tcol_tag_id (row_cols r) = uid) (tags_table db)) = 0 then
        Err storage_error.NotFound
      else
        bind_outcome (referencing_cards E db uid) (\<lambda>referencing_card_ids.
        if referencing_card_ids \<noteq> [] then
          Err (storage_error.OrphanedTagReference uid referencing_card_ids)
        else
          bind_outcome (implying_tags E db uid) (\<lambda>referencing_tag_ids.
          if referencing_tag_ids \<noteq> [] then
            Err (storage_error.OrphanedTagImpliesReference uid referencing_tag_ids)
          else
            let db = db\<lparr>tag_versions := delete_versions tcol_tag_id uid (tag_versions db)\<rparr>;
                db = db\<lparr>tags_table := delete_rows tcol_tag_id uid (tags_table db)\<rparr>
            in Ok (record_deletion E uid db, deleted_new (blake3 E) uid))))"

section \<open>Stamping\<close>

definition stamp_card_sequence :: "uuid \<Rightarrow> int \<Rightarrow> db \<Rightarrow> db" where
  "stamp_card_sequence uid sequence db =
     db\<lparr>cards_table := stamp_rows col_card_id uid sequence (cards_table db),
       card_versions := stamp_versions col_card_id uid sequence (card_versions db)\<rparr>"

definition stamp_tag_sequence :: "uuid \<Rightarrow> int \<Rightarrow> db \<Rightarrow> db" where
  "stamp_tag_sequence uid sequence db =
     db\<lparr>tags_table := stamp_rows tcol_tag_id uid sequence (tags_table db),
       tag_versions := stamp_versions tcol_tag_id uid sequence (tag_versions db)\<rparr>"

definition stamp_delete_sequence :: "uuid \<Rightarrow> int \<Rightarrow> db \<Rightarrow> db" where
  "stamp_delete_sequence uid sequence db =
     db\<lparr>deleted_entities := stamp_rows deleted_id uid sequence (deleted_entities db)\<rparr>"

section \<open>The implication validator\<close>

definition snapshot_tag_implies ::
  "ext \<Rightarrow> db \<Rightarrow> (push_op_error, (uuid, uuid list) btree_map) outcome" where
  "snapshot_tag_implies E db =
     map_ok bt_collect
       (collect_results
          (\<lambda>r. map_ok (\<lambda>implied. (tcol_tag_id (row_cols r), implied))
             (deserialize_implies E (tcol_implies (row_cols r))))
          (tags_table db))"

definition snapshot_card_tags ::
  "ext \<Rightarrow> db \<Rightarrow> (push_op_error, (uuid, uuid list) btree_map) outcome" where
  "snapshot_card_tags E db =
     map_ok bt_collect
       (collect_results
          (\<lambda>r. map_ok (\<lambda>tags. (col_card_id (row_cols r), tags))
             (deserialize_tags E (col_tags (row_cols r))))
          (cards_table db))"

fun overlay_item ::
  "push_item \<Rightarrow> (uuid, uuid list) btree_map \<times> (uuid, uuid list) btree_map
   \<Rightarrow> (uuid, uuid list) btree_map \<times> (uuid, uuid list) btree_map" where
  "overlay_item (ItemTags versions) (tag_implies_map, card_tags_map) =
     (if versions = [] then (tag_implies_map, card_tags_map)
      else (bt_insert (tag_id (last versions)) (tag_implies (last versions)) tag_implies_map,
            card_tags_map))"
| "overlay_item (ItemCards versions) (tag_implies_map, card_tags_map) =
     (if versions = [] then (tag_implies_map, card_tags_map)
      else (tag_implies_map,
            bt_insert (card_id (last versions)) (card_tags (last versions)) card_tags_map))"
| "overlay_item (ItemDeleteTag uid) (tag_implies_map, card_tags_map) =
     (bt_remove uid tag_implies_map, card_tags_map)"
| "overlay_item (ItemDeleteCard uid) (tag_implies_map, card_tags_map) =
     (tag_implies_map, bt_remove uid card_tags_map)"

text \<open>The dangling-reference loop: the first tag with an unknown parent, in id order.\<close>

fun check_dangling :: "uuid list \<Rightarrow> (uuid \<times> uuid list) list \<Rightarrow> (push_op_error, unit) outcome" where
  "check_dangling live_tag_ids [] = Ok ()"
| "check_dangling live_tag_ids ((uid, implied) # rest) =
     (let missing = filter (\<lambda>parent. parent \<notin> set live_tag_ids) implied in
      if missing \<noteq> [] then Err (Domain (TagImpliesUnknown uid (remdups_adj (sort missing))))
      else check_dangling live_tag_ids rest)"

fun check_closed :: "tag_graph \<Rightarrow> (uuid \<times> uuid list) list \<Rightarrow> (push_op_error, unit) outcome" where
  "check_closed graph [] = Ok ()"
| "check_closed graph ((uid, tags) # rest) =
     (let missing = missing_for_card graph tags in
      if missing \<noteq> [] then Err (Domain (TagImplicationViolation uid missing))
      else check_closed graph rest)"

definition validate_maps ::
  "(uuid, uuid list) btree_map \<Rightarrow> (uuid, uuid list) btree_map \<Rightarrow> (push_op_error, unit) outcome" where
  "validate_maps tag_implies_map card_tags_map =
     (let live_tag_ids = bs_collect (bt_keys tag_implies_map) in
      bind_outcome (check_dangling live_tag_ids tag_implies_map) (\<lambda>_.
      let graph = graph_from_pairs tag_implies_map in
      case detect_cycle graph of
        Some cycle \<Rightarrow> Err (Domain (TagImplicationCycle cycle))
      | None \<Rightarrow> check_closed graph card_tags_map))"

definition validate_batch_implications ::
  "ext \<Rightarrow> db \<Rightarrow> push_item list \<Rightarrow> (push_op_error, unit) outcome" where
  "validate_batch_implications E db items =
     bind_outcome (snapshot_tag_implies E db) (\<lambda>tag_implies_map.
     bind_outcome (snapshot_card_tags E db) (\<lambda>card_tags_map.
       let (tag_implies_map, card_tags_map) =
         fold overlay_item items (tag_implies_map, card_tags_map)
       in validate_maps tag_implies_map card_tags_map))"

end
