(* ===== verification/Storage_Ops.thy ===== *)
theory Storage_Ops
  imports Storage_Write
begin

text \<open>
  The storage operations of the \<open>Storage\<close> trait on SQLite (server/src/storage/sqlite/mod.rs). A
  write runs in a transaction: its changes are kept when it returns \<open>Ok\<close> and dropped otherwise. A
  read takes the state of the moment it runs. \<open>now\<close> is the clock reading inside the operation.
\<close>

section \<open>Transactions\<close>

definition transaction :: "db \<Rightarrow> ('e, db \<times> 'a) outcome \<Rightarrow> ('e, 'a) outcome \<times> db" where
  "transaction db result =
     (case result of
        Ok (db', x) \<Rightarrow> (Ok x, db')
      | Err e \<Rightarrow> (Err e, db)
      | Panic \<Rightarrow> (Panic, db))"

section \<open>Single writes\<close>

definition storage_push_card_versions ::
  "ext \<Rightarrow> int \<Rightarrow> db \<Rightarrow> card list \<Rightarrow> (push_op_error, unit) outcome \<times> db" where
  "storage_push_card_versions E now db versions =
     (case versions of
        [] \<Rightarrow> (Err (Domain EmptyChain), db)
      | first # _ \<Rightarrow>
          transaction db
            (bind_outcome (push_card_versions_inner E db versions) (\<lambda>tx.
             bind_outcome (validate_batch_implications E tx [ItemCards versions]) (\<lambda>_.
             bind_outcome (map_err push_op_error_from_sql
                (recompute_root_for_ids E now [card_id first] tx)) (\<lambda>(tx, seq).
               Ok (stamp_card_sequence (card_id first) seq tx, ()))))))"

definition storage_push_tag_versions ::
  "ext \<Rightarrow> int \<Rightarrow> db \<Rightarrow> tag list \<Rightarrow> (push_op_error, unit) outcome \<times> db" where
  "storage_push_tag_versions E now db versions =
     (case versions of
        [] \<Rightarrow> (Err (Domain EmptyChain), db)
      | first # _ \<Rightarrow>
          transaction db
            (bind_outcome (push_tag_versions_inner E db versions) (\<lambda>tx.
             bind_outcome (validate_batch_implications E tx [ItemTags versions]) (\<lambda>_.
             bind_outcome (map_err push_op_error_from_sql
                (recompute_root_for_ids E now [tag_id first] tx)) (\<lambda>(tx, seq).
               Ok (stamp_tag_sequence (tag_id first) seq tx, ()))))))"

definition storage_delete_card ::
  "ext \<Rightarrow> int \<Rightarrow> db \<Rightarrow> uuid \<Rightarrow> (storage_error, deleted_entity) outcome \<times> db" where
  "storage_delete_card E now db uid =
     transaction db
       (bind_outcome (delete_card_inner E db uid) (\<lambda>(tx, deleted).
        bind_outcome (map_err storage_error_from_sql (recompute_root_for_ids E now [uid] tx))
          (\<lambda>(tx, seq). Ok (stamp_delete_sequence uid seq tx, deleted))))"

definition storage_delete_tag ::
  "ext \<Rightarrow> int \<Rightarrow> db \<Rightarrow> uuid \<Rightarrow> (storage_error, deleted_entity) outcome \<times> db" where
  "storage_delete_tag E now db uid =
     transaction db
       (bind_outcome (delete_tag_inner E db uid) (\<lambda>(tx, deleted).
        bind_outcome (map_err storage_error_from_sql (recompute_root_for_ids E now [uid] tx))
          (\<lambda>(tx, seq). Ok (stamp_delete_sequence uid seq tx, deleted))))"

section \<open>Batches\<close>

record affected =
  affected_cards :: "uuid list"
  affected_tags :: "uuid list"
  affected_deleted :: "uuid list"

definition apply_item ::
  "ext \<Rightarrow> push_item \<Rightarrow> db \<times> affected \<Rightarrow> (push_op_error, db \<times> affected) outcome" where
  "apply_item E item state =
     (case state of (db, aff) \<Rightarrow>
       (case item of
          ItemCards versions \<Rightarrow>
            let aff = (if versions = [] then aff
              else aff\<lparr>affected_cards := affected_cards aff @ [card_id (hd versions)]\<rparr>) in
            map_ok (\<lambda>db. (db, aff)) (push_card_versions_inner E db versions)
        | ItemTags versions \<Rightarrow>
            let aff = (if versions = [] then aff
              else aff\<lparr>affected_tags := affected_tags aff @ [tag_id (hd versions)]\<rparr>) in
            map_ok (\<lambda>db. (db, aff)) (push_tag_versions_inner E db versions)
        | ItemDeleteCard uid \<Rightarrow>
            map_ok (\<lambda>(db, _). (db, aff\<lparr>affected_deleted := affected_deleted aff @ [uid]\<rparr>))
              (map_err push_op_error_from_storage (delete_card_inner E db uid))
        | ItemDeleteTag uid \<Rightarrow>
            map_ok (\<lambda>(db, _). (db, aff\<lparr>affected_deleted := affected_deleted aff @ [uid]\<rparr>))
              (map_err push_op_error_from_storage (delete_tag_inner E db uid))))"

fun apply_items ::
  "ext \<Rightarrow> nat \<Rightarrow> push_item list \<Rightarrow> db \<times> affected \<Rightarrow> (batch_failure, db \<times> affected) outcome" where
  "apply_items E index [] state = Ok state"
| "apply_items E index (item # items) state =
     bind_outcome
       (map_err (\<lambda>e. \<lparr>failed_index = index, failed_error = e\<rparr>) (apply_item E item state))
       (apply_items E (Suc index) items)"

definition stamp_affected :: "affected \<Rightarrow> int \<Rightarrow> db \<Rightarrow> db" where
  "stamp_affected aff seq db =
     fold (\<lambda>uid. stamp_delete_sequence uid seq) (affected_deleted aff)
       (fold (\<lambda>uid. stamp_tag_sequence uid seq) (affected_tags aff)
         (fold (\<lambda>uid. stamp_card_sequence uid seq) (affected_cards aff) db))"

definition storage_push_batch ::
  "ext \<Rightarrow> int \<Rightarrow> db \<Rightarrow> push_item list \<Rightarrow> (batch_failure, unit) outcome \<times> db" where
  "storage_push_batch E now db items =
     (if items = [] then (Ok (), db)
      else
        transaction db
          (bind_outcome
             (apply_items E 0 items
                (db, \<lparr>affected_cards = [], affected_tags = [], affected_deleted = []\<rparr>))
             (\<lambda>(tx, aff).
           bind_outcome
             (map_err (\<lambda>e. \<lparr>failed_index = 0, failed_error = e\<rparr>)
                (validate_batch_implications E tx items)) (\<lambda>_.
           bind_outcome
             (map_err (\<lambda>e. \<lparr>failed_index = 0, failed_error = push_op_error_from_sql e\<rparr>)
                (recompute_root_for_ids E now
                   (affected_cards aff @ affected_tags aff @ affected_deleted aff) tx))
             (\<lambda>(tx, seq). Ok (stamp_affected aff seq tx, ()))))))"

section \<open>Reads\<close>

definition limit_rows :: "nat option \<Rightarrow> 'r list \<Rightarrow> 'r list" where
  "limit_rows limit rows = (case limit of None \<Rightarrow> rows | Some n \<Rightarrow> take n rows)"

definition sql_result :: "(sql_error, 'a) outcome \<Rightarrow> (storage_error, 'a) outcome" where
  "sql_result = map_err storage_error_from_sql"

definition storage_get_card :: "ext \<Rightarrow> db \<Rightarrow> uuid \<Rightarrow> (storage_error, card option) outcome" where
  "storage_get_card E db uid =
     (case find_row col_card_id uid (cards_table db) of
        None \<Rightarrow> Ok None
      | Some r \<Rightarrow> map_ok Some (sql_result (card_from_row E (row_cols r))))"

definition storage_get_tag :: "ext \<Rightarrow> db \<Rightarrow> uuid \<Rightarrow> (storage_error, tag option) outcome" where
  "storage_get_tag E db uid =
     (case find_row tcol_tag_id uid (tags_table db) of
        None \<Rightarrow> Ok None
      | Some r \<Rightarrow> map_ok Some (sql_result (tag_from_row E (row_cols r))))"

definition storage_get_card_history ::
  "ext \<Rightarrow> db \<Rightarrow> uuid \<Rightarrow> nat option \<Rightarrow> (storage_error, card list) outcome" where
  "storage_get_card_history E db uid limit =
     sql_result (collect_results (\<lambda>r. card_from_row E (ver_cols r))
       (limit_rows limit (sort_key (\<lambda>r. col_count (ver_cols r))
         (filter (\<lambda>r. col_card_id (ver_cols r) = uid) (card_versions db)))))"

definition storage_get_tag_history ::
  "ext \<Rightarrow> db \<Rightarrow> uuid \<Rightarrow> nat option \<Rightarrow> (storage_error, tag list) outcome" where
  "storage_get_tag_history E db uid limit =
     sql_result (collect_results (\<lambda>r. tag_from_row E (ver_cols r))
       (limit_rows limit (sort_key (\<lambda>r. tcol_count (ver_cols r))
         (filter (\<lambda>r. tcol_tag_id (ver_cols r) = uid) (tag_versions db)))))"

fun filter_matches :: "card_filter \<Rightarrow> bool \<Rightarrow> bool" where
  "filter_matches FilterAll blazed = True"
| "filter_matches FilterBlazed blazed = blazed"
| "filter_matches FilterExtinguished blazed = (\<not> blazed)"

definition storage_list_cards ::
  "ext \<Rightarrow> db \<Rightarrow> card_filter \<Rightarrow> nat option \<Rightarrow> (storage_error, card list) outcome" where
  "storage_list_cards E db flt limit =
     sql_result (collect_results (\<lambda>r. card_from_row E (row_cols r))
       (limit_rows limit (sort_key (\<lambda>r. - col_priority (row_cols r))
         (filter (\<lambda>r. filter_matches flt (col_blazed (row_cols r))) (cards_table db)))))"

definition storage_list_tags :: "ext \<Rightarrow> db \<Rightarrow> (storage_error, tag list) outcome" where
  "storage_list_tags E db =
     sql_result (collect_results (\<lambda>r. tag_from_row E (row_cols r))
       (sort_key (\<lambda>r. tcol_title (row_cols r)) (tags_table db)))"

definition read_root_state :: "db \<Rightarrow> (storage_error, root_state) outcome" where
  "read_root_state db =
     bind_outcome (sql_result (read_count (db_sequence db))) (\<lambda>sequence.
       Ok \<lparr>root_hash = db_root_hash db, root_sequence = sequence\<rparr>)"

definition storage_get_root :: "db \<Rightarrow> (storage_error, root_state) outcome" where
  "storage_get_root db = read_root_state db"

definition stored_root_hash :: "db \<Rightarrow> int \<Rightarrow> hash option" where
  "stored_root_hash db since =
     map_option hist_hash (find (\<lambda>r. hist_sequence r = since) (root_history db))"

definition storage_get_changes_since ::
  "ext \<Rightarrow> db \<Rightarrow> NonNegativeI64 \<Rightarrow> hash \<Rightarrow> (storage_error, change_set) outcome" where
  "storage_get_changes_since E db sequence expected_hash =
     (let since = i64_from_nn sequence;
          changes =
            bind_outcome (sql_result (collect_results (\<lambda>r. card_from_row E (row_cols r))
              (filter (\<lambda>r. since < row_seq r) (cards_table db)))) (\<lambda>cards.
            bind_outcome (sql_result (collect_results (\<lambda>r. tag_from_row E (row_cols r))
              (filter (\<lambda>r. since < row_seq r) (tags_table db)))) (\<lambda>tags.
            bind_outcome (read_root_state db) (\<lambda>root.
              Ok \<lparr>cs_cards = cards, cs_tags = tags,
                cs_deleted = map row_cols (filter (\<lambda>r. since < row_seq r) (deleted_entities db)),
                cs_root = root\<rparr>)))
      in case stored_root_hash db since of
           Some server_hash \<Rightarrow>
             if server_hash \<noteq> expected_hash then
               Err (storage_error.RootHashMismatch sequence server_hash)
             else changes
         | None \<Rightarrow> changes)"

section \<open>History reads\<close>

text \<open>
  \<open>get_sequence_history\<close>. The operations are grouped in a map by their sequence, cards before tags
  before deletions; building an entry removes its group from the map.
\<close>

definition version_op ::
  "sequence_operation_kind \<Rightarrow> sequence_operation_kind \<Rightarrow> ('c \<Rightarrow> uuid) \<Rightarrow> ('c \<Rightarrow> int)
   \<Rightarrow> 'c version_row \<Rightarrow> int \<times> sequence_operation" where
  "version_op created updated idf countf r =
     (ver_seq r, \<lparr>op_entity_id = idf (ver_cols r),
       op_kind = (if countf (ver_cols r) = 1 then created else updated)\<rparr>)"

definition stamped_ops :: "db \<Rightarrow> int set \<Rightarrow> (int \<times> sequence_operation) list" where
  "stamped_ops db seq_set =
     map (version_op CardCreated CardUpdated col_card_id col_count)
       (filter (\<lambda>r. 0 < ver_seq r \<and> ver_seq r \<in> seq_set) (card_versions db)) @
     map (version_op TagCreated TagUpdated tcol_tag_id tcol_count)
       (filter (\<lambda>r. 0 < ver_seq r \<and> ver_seq r \<in> seq_set) (tag_versions db)) @
     map (\<lambda>r. (row_seq r, \<lparr>op_entity_id = deleted_id (row_cols r), op_kind = EntityDeleted\<rparr>))
       (filter (\<lambda>r. 0 < row_seq r \<and> row_seq r \<in> seq_set) (deleted_entities db))"

definition push_op ::
  "int \<times> sequence_operation \<Rightarrow> (int \<rightharpoonup> sequence_operation list) \<Rightarrow> (int \<rightharpoonup> sequence_operation list)"
where
  "push_op entry m =
     (case entry of (seq, op) \<Rightarrow> m(seq \<mapsto> (case m seq of None \<Rightarrow> [op] | Some ops \<Rightarrow> ops @ [op])))"

fun history_entries ::
  "ext \<Rightarrow> history_row list \<Rightarrow> (int \<rightharpoonup> sequence_operation list)
   \<Rightarrow> (storage_error, sequence_history_entry list) outcome" where
  "history_entries E [] ops_by_seq = Ok []"
| "history_entries E (r # rows) ops_by_seq =
     (case nn_try_from_i64 (hist_sequence r) of
        Ok sequence \<Rightarrow>
          bind_outcome (history_entries E rows (ops_by_seq(hist_sequence r := None))) (\<lambda>entries.
            Ok (\<lparr>entry_sequence = sequence, entry_hash = hist_hash r,
                 entry_operations =
                   (case ops_by_seq (hist_sequence r) of Some ops \<Rightarrow> ops | None \<Rightarrow> []),
                 entry_created_at =
                   (if timestamp_ok E (hist_created_at r) then hist_created_at r else 0)\<rparr>
              # entries))
      | _ \<Rightarrow> Panic)"

definition storage_get_sequence_history ::
  "ext \<Rightarrow> db \<Rightarrow> NonNegativeI64 option \<Rightarrow> nat option
   \<Rightarrow> (storage_error, sequence_history_entry list) outcome" where
  "storage_get_sequence_history E db after_sequence limit =
     (let root_entries =
            limit_rows limit (sort_key (\<lambda>r. - hist_sequence r)
              (filter (\<lambda>r. case after_sequence of None \<Rightarrow> True
                 | Some after \<Rightarrow> hist_sequence r < i64_from_nn after) (root_history db)));
          seq_set = hist_sequence ` set root_entries;
          ops_by_seq = fold push_op (stamped_ops db seq_set) Map.empty
      in history_entries E root_entries ops_by_seq)"

text \<open>
  \<open>get_all_histories\<close>, shared by cards and tags: the version rows of the wanted ids, by id and
  count, grouped under their id and capped.
\<close>

definition push_history ::
  "nat option \<Rightarrow> ('t \<Rightarrow> uuid) \<Rightarrow> 't \<Rightarrow> (uuid \<rightharpoonup> 't list) \<Rightarrow> (uuid \<rightharpoonup> 't list)" where
  "push_history limit_per idf version result =
     (let entry = (case result (idf version) of Some es \<Rightarrow> es | None \<Rightarrow> []) in
      if (case limit_per of Some limit \<Rightarrow> limit \<le> length entry | None \<Rightarrow> False)
      then result(idf version \<mapsto> entry)
      else result(idf version \<mapsto> entry @ [version]))"

definition get_all_histories ::
  "('c \<Rightarrow> (sql_error, 't) outcome) \<Rightarrow> ('c \<Rightarrow> uuid \<times> int) \<Rightarrow> ('t \<Rightarrow> uuid) \<Rightarrow> 'c version_row list
   \<Rightarrow> nat option \<Rightarrow> uuid list option \<Rightarrow> (storage_error, uuid \<rightharpoonup> 't list) outcome" where
  "get_all_histories mapper key idf table limit_per ids =
     (if ids = Some [] then Ok Map.empty
      else
        let selected = (case ids of
              Some us \<Rightarrow> filter (\<lambda>r. fst (key (ver_cols r)) \<in> set us) table
            | None \<Rightarrow> table);
            ordered = sort_key (\<lambda>r. fst (key (ver_cols r)))
              (sort_key (\<lambda>r. snd (key (ver_cols r))) selected)
        in bind_outcome (sql_result (collect_results (\<lambda>r. mapper (ver_cols r)) ordered))
             (\<lambda>rows. Ok (fold (push_history limit_per idf) rows Map.empty)))"

definition storage_get_all_card_histories ::
  "ext \<Rightarrow> db \<Rightarrow> nat option \<Rightarrow> uuid list option \<Rightarrow> (storage_error, uuid \<rightharpoonup> card list) outcome" where
  "storage_get_all_card_histories E db limit_per_card card_ids =
     get_all_histories (card_from_row E) card_key card_id (card_versions db) limit_per_card card_ids"

definition storage_get_all_tag_histories ::
  "ext \<Rightarrow> db \<Rightarrow> nat option \<Rightarrow> uuid list option \<Rightarrow> (storage_error, uuid \<rightharpoonup> tag list) outcome" where
  "storage_get_all_tag_histories E db limit_per_tag tag_ids =
     get_all_histories (tag_from_row E) tag_key tag_id (tag_versions db) limit_per_tag tag_ids"

end
