(* ===== verification/Storage_Tables.thy ===== *)
theory Storage_Tables
  imports Storage_Ops
begin

text \<open>
  Facts about one table, whatever its rows: what the statements do to its keys and its contents,
  and that a bucket hash depends on the contents of the bucket alone. The three live tables (cards,
  tags, deleted entities) share these lemmas.
\<close>

definition ids_of :: "('c \<Rightarrow> uuid) \<Rightarrow> 'c entity_row list \<Rightarrow> uuid set" where
  "ids_of idf rows = (\<lambda>r. idf (row_cols r)) ` set rows"

definition keyed :: "('c \<Rightarrow> uuid) \<Rightarrow> 'c entity_row list \<Rightarrow> bool" where
  "keyed idf rows \<longleftrightarrow>
     distinct (map (\<lambda>r. idf (row_cols r)) rows) \<and>
     (\<forall>r\<in>set rows. row_bucket r = bucket_of (idf (row_cols r)))"

definition content :: "('c \<Rightarrow> uuid) \<Rightarrow> ('c \<Rightarrow> hash) \<Rightarrow> 'c entity_row list \<Rightarrow> (uuid \<times> hash) set" where
  "content idf hashf rows = (\<lambda>r. (idf (row_cols r), hashf (row_cols r))) ` set rows"

section \<open>Keys\<close>

lemma ids_of_Nil [simp]: "ids_of idf [] = {}"
  by (simp add: ids_of_def)

lemma ids_of_delete [simp]: "ids_of idf (delete_rows idf uid rows) = ids_of idf rows - {uid}"
  by (auto simp: ids_of_def delete_rows_def)

lemma ids_of_replace [simp]:
  "ids_of idf (replace_row idf row rows) = insert (idf (row_cols row)) (ids_of idf rows)"
  by (auto simp: replace_row_def ids_of_def delete_rows_def)

lemma map_stamp_rows:
  "(\<And>r. f (r\<lparr>row_seq := seq\<rparr>) = f r) \<Longrightarrow> map f (stamp_rows idf uid seq rows) = map f rows"
  by (simp add: stamp_rows_def)

lemma image_stamp_rows:
  "(\<And>r. f (r\<lparr>row_seq := seq\<rparr>) = f r) \<Longrightarrow> f ` set (stamp_rows idf uid seq rows) = f ` set rows"
  by (metis list.set_map map_stamp_rows)

lemma ids_of_stamp [simp]: "ids_of idf (stamp_rows idf uid seq rows) = ids_of idf rows"
  unfolding ids_of_def by (rule image_stamp_rows) simp

lemma set_delete_rows: "set (delete_rows idf uid rows) = {r \<in> set rows. idf (row_cols r) \<noteq> uid}"
  by (auto simp: delete_rows_def)

lemma set_replace_row:
  "set (replace_row idf row rows) =
     insert row {r \<in> set rows. idf (row_cols r) \<noteq> idf (row_cols row)}"
  by (auto simp: replace_row_def delete_rows_def)

lemma keyed_Nil [simp]: "keyed idf []"
  by (simp add: keyed_def)

lemma keyed_delete [simp]: "keyed idf rows \<Longrightarrow> keyed idf (delete_rows idf uid rows)"
  by (auto simp: keyed_def delete_rows_def distinct_map_filter)

lemma keyed_replace [simp]:
  "keyed idf rows \<Longrightarrow> row_bucket row = bucket_of (idf (row_cols row)) \<Longrightarrow>
     keyed idf (replace_row idf row rows)"
  by (auto simp: keyed_def replace_row_def delete_rows_def distinct_map_filter)

lemma keyed_stamp [simp]: "keyed idf (stamp_rows idf uid seq rows) \<longleftrightarrow> keyed idf rows"
proof -
  have "map (\<lambda>r. idf (row_cols r)) (stamp_rows idf uid seq rows) = map (\<lambda>r. idf (row_cols r)) rows"
    by (simp add: stamp_rows_def)
  moreover have "(\<lambda>r. row_bucket r = bucket_of (idf (row_cols r))) ` set (stamp_rows idf uid seq rows)
      = (\<lambda>r. row_bucket r = bucket_of (idf (row_cols r))) ` set rows"
    by (rule image_stamp_rows) simp
  then have "(\<forall>r\<in>set (stamp_rows idf uid seq rows). row_bucket r = bucket_of (idf (row_cols r)))
      \<longleftrightarrow> (\<forall>r\<in>set rows. row_bucket r = bucket_of (idf (row_cols r)))"
    by (smt (verit) imageE image_eqI)
  ultimately show ?thesis
    by (simp add: keyed_def)
qed

lemma keyed_inj: "keyed idf rows \<Longrightarrow> r \<in> set rows \<Longrightarrow> r' \<in> set rows \<Longrightarrow>
    idf (row_cols r) = idf (row_cols r') \<Longrightarrow> r = r'"
  unfolding keyed_def distinct_map by (blast dest: inj_onD)

lemma find_row_Some: "find_row idf uid rows = Some r \<Longrightarrow> r \<in> set rows \<and> idf (row_cols r) = uid"
  by (auto simp: find_row_def find_Some_iff)

lemma find_row_None_iff: "find_row idf uid rows = None \<longleftrightarrow> uid \<notin> ids_of idf rows"
  by (auto simp: find_row_def find_None_iff ids_of_def)

lemma find_row_keyed:
  "keyed idf rows \<Longrightarrow> r \<in> set rows \<Longrightarrow> find_row idf (idf (row_cols r)) rows = Some r"
  by (cases "find_row idf (idf (row_cols r)) rows")
    (auto simp: find_row_None_iff ids_of_def dest!: find_row_Some dest: keyed_inj)

lemma set_stamp_rows:
  "set (stamp_rows idf uid seq rows) =
     (\<lambda>r. if idf (row_cols r) = uid then r\<lparr>row_seq := seq\<rparr> else r) ` set rows"
  by (simp add: stamp_rows_def)

text \<open>Stamping a list of ids, one after the other, is one pass.\<close>

lemma fold_stamp_rows:
  "fold (\<lambda>uid. stamp_rows idf uid seq) uids rows =
     map (\<lambda>r. if idf (row_cols r) \<in> set uids then r\<lparr>row_seq := seq\<rparr> else r) rows"
proof (induction uids arbitrary: rows)
  case (Cons uid uids)
  then show ?case
    by (auto simp: stamp_rows_def)
qed simp

section \<open>Contents and bucket hashes\<close>

lemma content_stamp [simp]: "content idf hashf (stamp_rows idf uid seq rows) = content idf hashf rows"
  unfolding content_def by (rule image_stamp_rows) simp

lemma fst_content: "fst ` content idf hashf rows = ids_of idf rows"
  by (auto simp: content_def ids_of_def image_image)

lemma content_functional:
  "keyed idf rows \<Longrightarrow> (uid, h) \<in> content idf hashf rows \<Longrightarrow> (uid, h') \<in> content idf hashf rows \<Longrightarrow>
     h = h'"
  unfolding content_def by (auto dest: keyed_inj)

lemma select_bucket_content:
  assumes "keyed idf rows" "keyed idf rows'"
    and same: "\<And>uid h. bucket_of uid = b \<Longrightarrow>
      (uid, h) \<in> content idf hashf rows \<longleftrightarrow> (uid, h) \<in> content idf hashf rows'"
  shows "select_bucket_hashes idf hashf rows b = select_bucket_hashes idf hashf rows' b"
proof -
  let ?key = "\<lambda>r. (idf (row_cols r), hashf (row_cols r))"
  let ?sel = "\<lambda>rows. map ?key (sort_key (\<lambda>r. idf (row_cols r)) (filter (\<lambda>r. row_bucket r = b) rows))"
  have set: "set (?sel rows) = {p \<in> content idf hashf rows. bucket_of (fst p) = b}"
    if "keyed idf rows" for rows
    using that by (auto simp: keyed_def content_def)
  have sorted: "sorted (map fst (?sel rows))" for rows
    by (simp add: comp_def)
  have distinct: "distinct (map fst (?sel rows))" if "keyed idf rows" for rows
    using that by (simp add: keyed_def comp_def distinct_map_filter distinct_map distinct_sort inj_on_def)
  have "?sel rows = ?sel rows'"
  proof (rule map_sorted_distinct_set_unique [where f = fst])
    have eq: "set (?sel rows) = set (?sel rows')"
      unfolding set [OF assms(1)] set [OF assms(2)] using same by auto
    then show "set (?sel rows) = set (?sel rows')" .
    have "inj_on fst {p \<in> content idf hashf rows. bucket_of (fst p) = b}"
      using content_functional [OF assms(1)] by (auto simp: inj_on_def)
    then show "inj_on fst (set (?sel rows) \<union> set (?sel rows'))"
      using eq set [OF assms(1)] by simp
  qed (use sorted distinct assms in simp_all)
  then have "map snd (?sel rows) = map snd (?sel rows')"
    by simp
  then show ?thesis
    by (simp add: select_bucket_hashes_def comp_def)
qed

lemma select_bucket_stamp [simp]:
  assumes "keyed idf rows"
  shows "select_bucket_hashes idf hashf (stamp_rows idf uid seq rows) b =
    select_bucket_hashes idf hashf rows b"
  by (rule select_bucket_content) (simp_all add: assms)

lemma sort_key_Nil_iff: "sort_key f xs = [] \<longleftrightarrow> xs = []"
  by (metis length_0_conv length_sort)

lemma select_bucket_empty:
  "keyed idf rows \<Longrightarrow> select_bucket_hashes idf hashf rows b = [] \<longleftrightarrow>
     (\<forall>uid\<in>ids_of idf rows. bucket_of uid \<noteq> b)"
  unfolding select_bucket_hashes_def map_is_Nil_conv sort_key_Nil_iff
  by (auto simp: keyed_def ids_of_def filter_empty_conv)

end
