(* ===== verification/Storage_Inner.thy ===== *)
theory Storage_Inner
  imports Storage_Tables
begin

text \<open>
  The effect of the inner writes inside a transaction. \<open>tables_ok\<close> is the invariant of the live
  tables that every inner write keeps; \<open>txn_inv\<close> relates the state a transaction started from to
  its current state and to the ids it has recorded as affected.
\<close>

section \<open>The invariant of the live tables\<close>

definition storable_card :: "ext \<Rightarrow> card_cols \<Rightarrow> bool" where
  "storable_card E cols \<longleftrightarrow>
     (\<exists>c. cols = card_params E c \<and> card_typed E c \<and> card_verify (blake3 E) c)"

definition storable_tag :: "ext \<Rightarrow> tag_cols \<Rightarrow> bool" where
  "storable_tag E cols \<longleftrightarrow>
     (\<exists>t. cols = tag_params E t \<and> tag_typed E t \<and> tag_verify (blake3 E) t \<and>
        sorted_wrt (<) (tag_implies t))"

definition card_ids :: "db \<Rightarrow> uuid set" where "card_ids db = ids_of col_card_id (cards_table db)"
definition tag_ids :: "db \<Rightarrow> uuid set" where "tag_ids db = ids_of tcol_tag_id (tags_table db)"
definition deleted_ids :: "db \<Rightarrow> uuid set" where
  "deleted_ids db = ids_of deleted_id (deleted_entities db)"

definition cards_ok :: "ext \<Rightarrow> card_cols entity_row list \<Rightarrow> bool" where
  "cards_ok E rows \<longleftrightarrow>
     keyed col_card_id rows \<and> distinct (map (\<lambda>r. col_priority (row_cols r)) rows) \<and>
     (\<forall>r\<in>set rows. storable_card E (row_cols r))"

definition tags_ok :: "ext \<Rightarrow> tag_cols entity_row list \<Rightarrow> bool" where
  "tags_ok E rows \<longleftrightarrow> keyed tcol_tag_id rows \<and> (\<forall>r\<in>set rows. storable_tag E (row_cols r))"

definition deleted_ok :: "ext \<Rightarrow> deleted_entity entity_row list \<Rightarrow> bool" where
  "deleted_ok E rows \<longleftrightarrow>
     keyed deleted_id rows \<and>
     (\<forall>r\<in>set rows. row_cols r = deleted_new (blake3 E) (deleted_id (row_cols r)))"

definition tables_ok :: "ext \<Rightarrow> db \<Rightarrow> bool" where
  "tables_ok E db \<longleftrightarrow>
     cards_ok E (cards_table db) \<and> tags_ok E (tags_table db) \<and> deleted_ok E (deleted_entities db)"

text \<open>
  What the clients guarantee of a pushed item. \<open>K\<close> are the ids used for cards: clients draw every
  id at random and never use one for two entities, and a chain holds versions of one entity. Tags
  carry their implies list sorted without duplicates, as every constructor of \<open>Tag\<close> builds it.
\<close>

fun item_ok :: "ext \<Rightarrow> uuid set \<Rightarrow> push_item \<Rightarrow> bool" where
  "item_ok E K (ItemCards versions) \<longleftrightarrow>
     (\<forall>v\<in>set versions. card_typed E v \<and> card_id v = card_id (hd versions) \<and> card_id v \<in> K)"
| "item_ok E K (ItemTags versions) \<longleftrightarrow>
     (\<forall>v\<in>set versions. tag_typed E v \<and> tag_id v = tag_id (hd versions) \<and> tag_id v \<notin> K \<and>
        sorted_wrt (<) (tag_implies v))"
| "item_ok E K (ItemDeleteCard _) \<longleftrightarrow> True"
| "item_ok E K (ItemDeleteTag _) \<longleftrightarrow> True"

definition kinds_ok :: "uuid set \<Rightarrow> db \<Rightarrow> bool" where
  "kinds_ok K db \<longleftrightarrow>
     card_ids db \<subseteq> K \<and> tag_ids db \<inter> K = {} \<and> (card_ids db \<union> tag_ids db) \<inter> deleted_ids db = {}"

section \<open>When an inner write succeeds\<close>

definition ancestor_in_cards :: "db \<Rightarrow> uuid \<Rightarrow> hash" where
  "ancestor_in_cards db uid =
     (case find_row col_card_id uid (cards_table db) of
        Some r \<Rightarrow> col_hash (row_cols r) | None \<Rightarrow> ZERO_HASH)"

definition ancestor_in_tags :: "db \<Rightarrow> uuid \<Rightarrow> hash" where
  "ancestor_in_tags db uid =
     (case find_row tcol_tag_id uid (tags_table db) of
        Some r \<Rightarrow> tcol_hash (row_cols r) | None \<Rightarrow> ZERO_HASH)"

lemma replace_card_row_eq:
  assumes "find_duplicate_priority (col_priority (row_cols row)) (col_card_id (row_cols row)) rows = None"
  shows "replace_card_row row rows = replace_row col_card_id row rows"
proof -
  have "filter (\<lambda>r. col_card_id (row_cols r) \<noteq> col_card_id (row_cols row) \<and>
       col_priority (row_cols r) \<noteq> col_priority (row_cols row)) rows =
      filter (\<lambda>r. col_card_id (row_cols r) \<noteq> col_card_id (row_cols row)) rows"
    by (rule filter_cong) (use assms in \<open>auto simp: find_duplicate_priority_def find_None_iff\<close>)
  then show ?thesis
    by (simp add: replace_card_row_def replace_row_def delete_rows_def)
qed

definition new_card_row :: "ext \<Rightarrow> card \<Rightarrow> card_cols entity_row" where
  "new_card_row E c =
     \<lparr>row_cols = card_params E c, row_seq = 0, row_bucket = bucket_of (card_id c)\<rparr>"

definition new_tag_row :: "ext \<Rightarrow> tag \<Rightarrow> tag_cols entity_row" where
  "new_tag_row E t =
     \<lparr>row_cols = tag_params E t, row_seq = 0, row_bucket = bucket_of (tag_id t)\<rparr>"

definition new_deleted_row :: "ext \<Rightarrow> uuid \<Rightarrow> deleted_entity entity_row" where
  "new_deleted_row E uid =
     \<lparr>row_cols = deleted_new (blake3 E) uid, row_seq = 0, row_bucket = bucket_of uid\<rparr>"

lemma new_row_simps [simp]:
  "row_cols (new_card_row E c) = card_params E c" "row_seq (new_card_row E c) = 0"
  "row_bucket (new_card_row E c) = bucket_of (card_id c)"
  "row_cols (new_tag_row E t) = tag_params E t" "row_seq (new_tag_row E t) = 0"
  "row_bucket (new_tag_row E t) = bucket_of (tag_id t)"
  "row_cols (new_deleted_row E uid) = deleted_new (blake3 E) uid"
  "row_seq (new_deleted_row E uid) = 0" "row_bucket (new_deleted_row E uid) = bucket_of uid"
  by (simp_all add: new_card_row_def new_tag_row_def new_deleted_row_def)

lemma deleted_new_id [simp]: "deleted_id (deleted_new H uid) = uid"
  by (simp add: deleted_new_def)

lemma push_card_inner_Ok:
  assumes "push_card_versions_inner E db versions = Ok tx"
  obtains cv where "versions \<noteq> []" "\<forall>v\<in>set versions. card_verify (blake3 E) v"
    "\<not> is_deleted db (card_id (hd versions))"
    "card_ancestor_hash (hd versions) = ancestor_in_cards db (card_id (hd versions))"
    "windows_linked card_ancestor_hash card_hash versions"
    "insert_versions card_key (map (card_params E) versions) (card_versions db) = Ok cv"
    "find_duplicate_priority (card_priority (last versions)) (card_id (last versions))
       (cards_table db) = None"
    "tx = db\<lparr>card_versions := cv,
       cards_table := replace_row col_card_id (new_card_row E (last versions)) (cards_table db)\<rparr>"
proof -
  let ?row = "new_card_row E (last versions)"
  from assms have ne: "versions \<noteq> []"
    and ok: "\<forall>v\<in>set versions. card_verify (blake3 E) v"
    and nd: "\<not> is_deleted db (card_id (hd versions))"
    by (auto simp: push_card_versions_inner_def Let_def list_ex_iff split: if_splits)
  from assms ne ok nd have anc: "card_ancestor_hash (hd versions) =
      ancestor_in_cards db (card_id (hd versions))"
    by (auto simp: push_card_versions_inner_def Let_def ancestor_in_cards_def list_ex_iff
        outcome_simps split: if_splits option.splits)
  have rest: "push_card_versions_inner E db versions =
    (if \<not> windows_linked card_ancestor_hash card_hash versions then
       Err (Domain HashVerificationFailed)
     else
       bind_outcome (map_err push_op_error_from_sql
           (insert_versions card_key (map (card_params E) versions) (card_versions db)))
         (\<lambda>cv. case find_duplicate_priority (card_priority (last versions)) (card_id (last versions))
             (cards_table db) of
              Some r \<Rightarrow> Err (Domain (DuplicatePriority (col_card_id (row_cols r))
                (col_priority (row_cols r))))
            | None \<Rightarrow> Ok (db\<lparr>card_versions := cv,
                cards_table := replace_card_row ?row (cards_table db)\<rparr>)))"
    using ne ok nd anc unfolding new_card_row_def
    by (auto simp: push_card_versions_inner_def Let_def ancestor_in_cards_def list_ex_iff)
  have repl: "find_duplicate_priority (card_priority (last versions)) (card_id (last versions))
      (cards_table db) = None \<Longrightarrow>
      replace_card_row ?row (cards_table db) = replace_row col_card_id ?row (cards_table db)"
    by (rule replace_card_row_eq) simp
  show thesis
    using assms that [OF ne ok nd anc] unfolding rest
    by (auto simp: outcome_simps repl split: if_splits option.splits)
qed

lemma push_tag_inner_Ok:
  assumes "push_tag_versions_inner E db versions = Ok tx"
  obtains tv where "versions \<noteq> []" "\<forall>v\<in>set versions. tag_verify (blake3 E) v"
    "\<not> is_deleted db (tag_id (hd versions))"
    "tag_ancestor_hash (hd versions) = ancestor_in_tags db (tag_id (hd versions))"
    "windows_linked tag_ancestor_hash tag_hash versions"
    "insert_versions tag_key (map (tag_params E) versions) (tag_versions db) = Ok tv"
    "tx = db\<lparr>tag_versions := tv,
       tags_table := replace_row tcol_tag_id (new_tag_row E (last versions)) (tags_table db)\<rparr>"
proof -
  from assms have ne: "versions \<noteq> []"
    and ok: "\<forall>v\<in>set versions. tag_verify (blake3 E) v"
    and nd: "\<not> is_deleted db (tag_id (hd versions))"
    by (auto simp: push_tag_versions_inner_def Let_def list_ex_iff split: if_splits)
  from assms ne ok nd have anc: "tag_ancestor_hash (hd versions) =
      ancestor_in_tags db (tag_id (hd versions))"
    by (auto simp: push_tag_versions_inner_def Let_def ancestor_in_tags_def list_ex_iff
        outcome_simps split: if_splits option.splits)
  have rest: "push_tag_versions_inner E db versions =
    (if \<not> windows_linked tag_ancestor_hash tag_hash versions then
       Err (Domain HashVerificationFailed)
     else
       bind_outcome (map_err push_op_error_from_sql
           (insert_versions tag_key (map (tag_params E) versions) (tag_versions db)))
         (\<lambda>tv. Ok (db\<lparr>tag_versions := tv, tags_table :=
            replace_row tcol_tag_id (new_tag_row E (last versions)) (tags_table db)\<rparr>)))"
    using ne ok nd anc
    by (auto simp: push_tag_versions_inner_def Let_def ancestor_in_tags_def list_ex_iff
        new_tag_row_def)
  show thesis
    using assms that [OF ne ok nd anc] unfolding rest
    by (auto simp: outcome_simps split: if_splits)
qed

lemma record_deletion_eq:
  "record_deletion E uid db =
     db\<lparr>deleted_entities := replace_row deleted_id (new_deleted_row E uid) (deleted_entities db)\<rparr>"
  by (simp add: record_deletion_def new_deleted_row_def)

lemma row_exists_iff:
  "length (filter (\<lambda>r. idf (row_cols r) = uid) rows) = 0 \<longleftrightarrow> uid \<notin> ids_of idf rows"
  by (auto simp: ids_of_def filter_empty_conv)

lemma delete_card_inner_Ok:
  "delete_card_inner E db uid = Ok (tx, d) \<longleftrightarrow>
     \<not> is_deleted db uid \<and> uid \<in> card_ids db \<and> d = deleted_new (blake3 E) uid \<and>
     tx = db\<lparr>card_versions := delete_versions col_card_id uid (card_versions db),
       cards_table := delete_rows col_card_id uid (cards_table db),
       deleted_entities := replace_row deleted_id (new_deleted_row E uid) (deleted_entities db)\<rparr>"
  unfolding delete_card_inner_def row_exists_iff record_deletion_eq card_ids_def
  by (auto simp: Let_def)

lemma delete_tag_inner_Ok:
  "delete_tag_inner E db uid = Ok (tx, d) \<longleftrightarrow>
     \<not> is_deleted db uid \<and> uid \<in> tag_ids db \<and> d = deleted_new (blake3 E) uid \<and>
     referencing_cards E db uid = Ok [] \<and> implying_tags E db uid = Ok [] \<and>
     tx = db\<lparr>tag_versions := delete_versions tcol_tag_id uid (tag_versions db),
       tags_table := delete_rows tcol_tag_id uid (tags_table db),
       deleted_entities := replace_row deleted_id (new_deleted_row E uid) (deleted_entities db)\<rparr>"
  unfolding delete_tag_inner_def row_exists_iff record_deletion_eq tag_ids_def
  by (auto simp: Let_def outcome_simps)

lemma is_deleted_ids: "is_deleted db uid \<longleftrightarrow> uid \<in> deleted_ids db"
  by (auto simp: is_deleted_iff deleted_ids_def ids_of_def)

section \<open>The live tables under the writes\<close>

lemma distinct_priorities_replace:
  assumes "distinct (map (\<lambda>r. col_priority (row_cols r)) rows)"
    and "find_duplicate_priority (col_priority (row_cols row)) (col_card_id (row_cols row)) rows = None"
  shows "distinct (map (\<lambda>r. col_priority (row_cols r)) (replace_row col_card_id row rows))"
  using assms
  by (auto simp: replace_row_def delete_rows_def distinct_map_filter find_duplicate_priority_def
      find_None_iff)

lemma cards_ok_replace:
  assumes "cards_ok E rows" "card_typed E c" "card_verify (blake3 E) c"
    and "find_duplicate_priority (card_priority c) (card_id c) rows = None"
  shows "cards_ok E (replace_row col_card_id (new_card_row E c) rows)"
  using assms distinct_priorities_replace [of rows "new_card_row E c"]
  by (auto simp: cards_ok_def set_replace_row storable_card_def)

lemma cards_ok_delete: "cards_ok E rows \<Longrightarrow> cards_ok E (delete_rows col_card_id uid rows)"
  unfolding cards_ok_def by (simp add: set_delete_rows) (simp add: delete_rows_def distinct_map_filter)

lemma tags_ok_replace:
  "tags_ok E rows \<Longrightarrow> tag_typed E t \<Longrightarrow> tag_verify (blake3 E) t \<Longrightarrow> sorted_wrt (<) (tag_implies t) \<Longrightarrow>
     tags_ok E (replace_row tcol_tag_id (new_tag_row E t) rows)"
  by (auto simp: tags_ok_def set_replace_row storable_tag_def)

lemma tags_ok_delete: "tags_ok E rows \<Longrightarrow> tags_ok E (delete_rows tcol_tag_id uid rows)"
  by (simp add: tags_ok_def set_delete_rows)

lemma deleted_ok_record:
  "deleted_ok E rows \<Longrightarrow> deleted_ok E (replace_row deleted_id (new_deleted_row E uid) rows)"
  by (auto simp: deleted_ok_def set_replace_row)

text \<open>
  Transactions as a whole: the invariant of a running transaction, kept by every item of a batch,
  and what the commit (bucket and root update, stamping) makes of it. The single writes are
  transactions of one item, so everything is proved once.
\<close>

section \<open>The invariant of a running transaction\<close>

definition fresh_or_old ::
  "('c \<Rightarrow> uuid) \<Rightarrow> uuid list \<Rightarrow> 'c entity_row list \<Rightarrow> 'c entity_row list \<Rightarrow> bool" where
  "fresh_or_old idf written rows rows' \<longleftrightarrow>
     (\<forall>r\<in>set rows'. r \<in> set rows \<or> row_seq r = 0 \<and> idf (row_cols r) \<in> set written)"

text \<open>
  How a table of entities has moved: a row is new and written or was there before, a row of an id
  that was neither written nor deleted is still there, and no id is lost but by a deletion.
\<close>

definition table_step ::
  "('c \<Rightarrow> uuid) \<Rightarrow> uuid list \<Rightarrow> uuid list \<Rightarrow> 'c entity_row list \<Rightarrow> 'c entity_row list \<Rightarrow> bool" where
  "table_step idf written gone rows rows' \<longleftrightarrow>
     fresh_or_old idf written rows rows' \<and>
     (\<forall>r\<in>set rows. idf (row_cols r) \<notin> set written \<union> set gone \<longrightarrow> r \<in> set rows') \<and>
     ids_of idf rows \<subseteq> ids_of idf rows' \<union> set gone"

definition deleted_step ::
  "uuid list \<Rightarrow> deleted_entity entity_row list \<Rightarrow> deleted_entity entity_row list \<Rightarrow> bool" where
  "deleted_step gone rows rows' \<longleftrightarrow>
     fresh_or_old deleted_id gone rows rows' \<and> set rows \<subseteq> set rows' \<and>
     ids_of deleted_id rows' = ids_of deleted_id rows \<union> set gone \<and>
     ids_of deleted_id rows \<inter> set gone = {}"

definition same_root :: "db \<Rightarrow> db \<Rightarrow> bool" where
  "same_root db tx \<longleftrightarrow>
     db_root_hash tx = db_root_hash db \<and> db_sequence tx = db_sequence db \<and>
     root_history tx = root_history db \<and> root_buckets tx = root_buckets db"

definition txn_inv :: "ext \<Rightarrow> uuid set \<Rightarrow> db \<Rightarrow> db \<times> affected \<Rightarrow> bool" where
  "txn_inv E K db state \<longleftrightarrow>
     (case state of (tx, aff) \<Rightarrow>
        tables_ok E tx \<and> kinds_ok K tx \<and> same_root db tx \<and>
        table_step col_card_id (affected_cards aff) (affected_deleted aff)
          (cards_table db) (cards_table tx) \<and>
        table_step tcol_tag_id (affected_tags aff) (affected_deleted aff)
          (tags_table db) (tags_table tx) \<and>
        deleted_step (affected_deleted aff) (deleted_entities db) (deleted_entities tx))"

abbreviation no_affected :: affected where
  "no_affected \<equiv> \<lparr>affected_cards = [], affected_tags = [], affected_deleted = []\<rparr>"

lemma txn_inv_start: "tables_ok E db \<Longrightarrow> kinds_ok K db \<Longrightarrow> txn_inv E K db (db, no_affected)"
  by (simp add: txn_inv_def fresh_or_old_def table_step_def deleted_step_def same_root_def)

lemma table_step_replace:
  "table_step idf ws ds rows rows' \<Longrightarrow> row_seq row = 0 \<Longrightarrow>
     table_step idf (ws @ [idf (row_cols row)]) ds rows (replace_row idf row rows')"
  unfolding table_step_def fresh_or_old_def set_replace_row ids_of_replace by auto

lemma table_step_delete:
  "table_step idf ws ds rows rows' \<Longrightarrow>
     table_step idf ws (ds @ [uid]) rows (delete_rows idf uid rows')"
  unfolding table_step_def fresh_or_old_def set_delete_rows ids_of_delete by auto

lemma table_step_mono: "table_step idf ws ds rows rows' \<Longrightarrow> table_step idf ws (ds @ [uid]) rows rows'"
  unfolding table_step_def by auto

lemma deleted_step_record:
  assumes "deleted_step ds rows rows'" "uid \<notin> ids_of deleted_id rows'"
  shows "deleted_step (ds @ [uid]) rows (replace_row deleted_id (new_deleted_row E uid) rows')"
proof -
  have "set rows' \<subseteq> set (replace_row deleted_id (new_deleted_row E uid) rows')"
    using assms(2) by (auto simp: set_replace_row ids_of_def)
  then show ?thesis
    using assms unfolding deleted_step_def fresh_or_old_def set_replace_row ids_of_replace by auto
qed

section \<open>Every item keeps it\<close>

lemma push_cards_txn:
  assumes inv: "txn_inv E K db (tx, aff)" and ok: "item_ok E K (ItemCards versions)"
    and res: "push_card_versions_inner E tx versions = Ok tx'"
  shows "txn_inv E K db (tx', aff\<lparr>affected_cards := affected_cards aff @ [card_id (hd versions)]\<rparr>)"
proof -
  let ?row = "new_card_row E (last versions)"
  obtain cv where ne: "versions \<noteq> []" and ver: "\<forall>v\<in>set versions. card_verify (blake3 E) v"
    and nd: "\<not> is_deleted tx (card_id (hd versions))"
    and dup: "find_duplicate_priority (card_priority (last versions)) (card_id (last versions))
       (cards_table tx) = None"
    and tx': "tx' = tx\<lparr>card_versions := cv, cards_table := replace_row col_card_id ?row (cards_table tx)\<rparr>"
    using res by (rule push_card_inner_Ok)
  have id: "card_id (last versions) = card_id (hd versions)"
    and typed: "card_typed E (last versions)" and K: "card_id (hd versions) \<in> K"
    using ok last_in_set [OF ne] hd_in_set [OF ne] unfolding item_ok.simps by blast+
  have "cards_ok E (replace_row col_card_id ?row (cards_table tx))"
    using inv typed ver ne dup by (intro cards_ok_replace) (simp_all add: txn_inv_def tables_ok_def)
  moreover have "kinds_ok K tx'"
    using inv K nd
    by (auto simp: tx' txn_inv_def kinds_ok_def card_ids_def tag_ids_def is_deleted_ids deleted_ids_def id)
  moreover have "table_step col_card_id (affected_cards aff @ [card_id (hd versions)])
      (affected_deleted aff) (cards_table db) (replace_row col_card_id ?row (cards_table tx))"
    using table_step_replace [of col_card_id _ _ _ _ ?row] inv by (simp add: txn_inv_def id)
  ultimately show ?thesis
    using inv by (simp add: tx' txn_inv_def tables_ok_def same_root_def)
qed

lemma push_tags_txn:
  assumes inv: "txn_inv E K db (tx, aff)" and ok: "item_ok E K (ItemTags versions)"
    and res: "push_tag_versions_inner E tx versions = Ok tx'"
  shows "txn_inv E K db (tx', aff\<lparr>affected_tags := affected_tags aff @ [tag_id (hd versions)]\<rparr>)"
proof -
  let ?row = "new_tag_row E (last versions)"
  obtain tv where ne: "versions \<noteq> []" and ver: "\<forall>v\<in>set versions. tag_verify (blake3 E) v"
    and nd: "\<not> is_deleted tx (tag_id (hd versions))"
    and tx': "tx' = tx\<lparr>tag_versions := tv, tags_table := replace_row tcol_tag_id ?row (tags_table tx)\<rparr>"
    using res by (rule push_tag_inner_Ok)
  have id: "tag_id (last versions) = tag_id (hd versions)" and K: "tag_id (hd versions) \<notin> K"
    and typed: "tag_typed E (last versions)" "sorted_wrt (<) (tag_implies (last versions))"
    using ok last_in_set [OF ne] hd_in_set [OF ne] unfolding item_ok.simps by blast+
  have "tags_ok E (replace_row tcol_tag_id ?row (tags_table tx))"
    using inv typed ver ne by (intro tags_ok_replace) (simp_all add: txn_inv_def tables_ok_def)
  moreover have "kinds_ok K tx'"
    using inv K nd
    by (auto simp: tx' txn_inv_def kinds_ok_def card_ids_def tag_ids_def is_deleted_ids deleted_ids_def id)
  moreover have "table_step tcol_tag_id (affected_tags aff @ [tag_id (hd versions)])
      (affected_deleted aff) (tags_table db) (replace_row tcol_tag_id ?row (tags_table tx))"
    using table_step_replace [of tcol_tag_id _ _ _ _ ?row] inv by (simp add: txn_inv_def id)
  ultimately show ?thesis
    using inv by (simp add: tx' txn_inv_def tables_ok_def same_root_def)
qed

lemma delete_card_txn:
  assumes inv: "txn_inv E K db (tx, aff)" and res: "delete_card_inner E tx uid = Ok (tx', d)"
  shows "txn_inv E K db (tx', aff\<lparr>affected_deleted := affected_deleted aff @ [uid]\<rparr>)"
proof -
  from res have nd: "uid \<notin> ids_of deleted_id (deleted_entities tx)" and live: "uid \<in> card_ids tx"
    and tx': "tx' = tx\<lparr>card_versions := delete_versions col_card_id uid (card_versions tx),
       cards_table := delete_rows col_card_id uid (cards_table tx),
       deleted_entities := replace_row deleted_id (new_deleted_row E uid) (deleted_entities tx)\<rparr>"
    by (simp_all add: delete_card_inner_Ok is_deleted_ids deleted_ids_def)
  have "kinds_ok K tx'"
    using inv live by (auto simp: tx' txn_inv_def kinds_ok_def card_ids_def tag_ids_def deleted_ids_def)
  then show ?thesis
    using inv nd
    by (simp add: tx' txn_inv_def tables_ok_def same_root_def cards_ok_delete deleted_ok_record
        table_step_delete table_step_mono deleted_step_record)
qed

lemma delete_tag_txn:
  assumes inv: "txn_inv E K db (tx, aff)" and res: "delete_tag_inner E tx uid = Ok (tx', d)"
  shows "txn_inv E K db (tx', aff\<lparr>affected_deleted := affected_deleted aff @ [uid]\<rparr>)"
proof -
  from res have nd: "uid \<notin> ids_of deleted_id (deleted_entities tx)" and live: "uid \<in> tag_ids tx"
    and tx': "tx' = tx\<lparr>tag_versions := delete_versions tcol_tag_id uid (tag_versions tx),
       tags_table := delete_rows tcol_tag_id uid (tags_table tx),
       deleted_entities := replace_row deleted_id (new_deleted_row E uid) (deleted_entities tx)\<rparr>"
    by (simp_all add: delete_tag_inner_Ok is_deleted_ids deleted_ids_def)
  have "kinds_ok K tx'"
    using inv live by (auto simp: tx' txn_inv_def kinds_ok_def card_ids_def tag_ids_def deleted_ids_def)
  then show ?thesis
    using inv nd
    by (simp add: tx' txn_inv_def tables_ok_def same_root_def tags_ok_delete deleted_ok_record
        table_step_delete table_step_mono deleted_step_record)
qed

lemma apply_item_txn:
  assumes "txn_inv E K db state" "item_ok E K item" "apply_item E item state = Ok state'"
  shows "txn_inv E K db state'"
proof -
  obtain tx aff where state: "state = (tx, aff)" by (cases state)
  show ?thesis
  proof (cases item)
    case (ItemCards versions)
    with assms(3) state have "versions \<noteq> []"
      by (auto simp: apply_item_def push_card_versions_inner_def outcome_simps)
    then show ?thesis
      using assms ItemCards state push_cards_txn [of E K db tx aff versions]
      by (auto simp: apply_item_def outcome_simps simp del: item_ok.simps)
  next
    case (ItemTags versions)
    with assms(3) state have "versions \<noteq> []"
      by (auto simp: apply_item_def push_tag_versions_inner_def outcome_simps)
    then show ?thesis
      using assms ItemTags state push_tags_txn [of E K db tx aff versions]
      by (auto simp: apply_item_def outcome_simps simp del: item_ok.simps)
  next
    case (ItemDeleteCard uid)
    then show ?thesis
      using assms state delete_card_txn by (auto simp: apply_item_def outcome_simps)
  next
    case (ItemDeleteTag uid)
    then show ?thesis
      using assms state delete_tag_txn by (auto simp: apply_item_def outcome_simps)
  qed
qed

lemma apply_items_txn:
  "txn_inv E K db state \<Longrightarrow> \<forall>item\<in>set items. item_ok E K item \<Longrightarrow>
     apply_items E index items state = Ok state' \<Longrightarrow> txn_inv E K db state'"
  by (induction E index items state rule: apply_items.induct)
    (auto simp: outcome_simps intro: apply_item_txn)

end
