(* ===== verification/Storage_Invariant.thy ===== *)
theory Storage_Invariant
  imports Storage_Inner
begin

text \<open>
  The storage invariant and its preservation by every write of the \<open>Storage\<close> trait, with the step
  each successful write makes: one sequence number, new rows stamped with it, lost ids recorded as
  deleted under it.
\<close>

section \<open>The invariant\<close>

definition stamped :: "int \<Rightarrow> 'c entity_row list \<Rightarrow> bool" where
  "stamped seq rows \<longleftrightarrow> (\<forall>r\<in>set rows. 0 < row_seq r \<and> row_seq r \<le> seq)"

text \<open>
  The cached bucket hashes are those of the tables, the root hash is that of the buckets, and the
  history lists every sequence once, the last with the current root hash.
\<close>

definition root_ok :: "ext \<Rightarrow> db \<Rightarrow> bool" where
  "root_ok E db \<longleftrightarrow>
     root_buckets db = recompute_bucket_hash E db \<and>
     db_root_hash db = root_hash_of E (root_buckets db) \<and>
     map hist_sequence (root_history db) = [1..db_sequence db] \<and>
     0 \<le> db_sequence db \<and> db_sequence db \<le> i64_max \<and>
     (root_history db \<noteq> [] \<longrightarrow> hist_hash (last (root_history db)) = db_root_hash db)"

definition storage_inv :: "ext \<Rightarrow> uuid set \<Rightarrow> db \<Rightarrow> bool" where
  "storage_inv E K db \<longleftrightarrow>
     tables_ok E db \<and> kinds_ok K db \<and> root_ok E db \<and>
     stamped (db_sequence db) (cards_table db) \<and> stamped (db_sequence db) (tags_table db) \<and>
     stamped (db_sequence db) (deleted_entities db)"

definition live_step ::
  "('c \<Rightarrow> uuid) \<Rightarrow> int \<Rightarrow> 'c entity_row list \<Rightarrow> 'c entity_row list \<Rightarrow> deleted_entity entity_row list \<Rightarrow> bool"
where
  "live_step idf seq rows rows' deleted' \<longleftrightarrow>
     (\<forall>r\<in>set rows'. r \<in> set rows \<or> row_seq r = seq) \<and>
     (\<forall>uid\<in>ids_of idf rows - ids_of idf rows'.
        \<exists>d\<in>set deleted'. deleted_id (row_cols d) = uid \<and> row_seq d = seq)"

definition db_step :: "db \<Rightarrow> db \<Rightarrow> bool" where
  "db_step db db' \<longleftrightarrow>
     (let seq = db_sequence db + 1 in
        db_sequence db' = seq \<and>
        live_step col_card_id seq (cards_table db) (cards_table db') (deleted_entities db') \<and>
        live_step tcol_tag_id seq (tags_table db) (tags_table db') (deleted_entities db') \<and>
        set (deleted_entities db) \<subseteq> set (deleted_entities db') \<and>
        (\<forall>d\<in>set (deleted_entities db'). d \<in> set (deleted_entities db) \<or> row_seq d = seq) \<and>
        (\<exists>now. root_history db' = root_history db @
           [\<lparr>hist_sequence = seq, hist_hash = db_root_hash db', hist_created_at = now\<rparr>]))"

lemma bucket_list_zero: "recompute_bucket_hash E empty_db = (\<lambda>_. ZERO_HASH)"
  by (simp add: recompute_bucket_hash_def select_bucket_hashes_def empty_db_def fun_eq_iff)

lemma storage_inv_empty: "storage_inv E K empty_db"
proof -
  have "root_hash_of E (\<lambda>_. ZERO_HASH) = ZERO_HASH"
    by (rule root_hash_of_zero) simp
  moreover have "root_buckets empty_db = recompute_bucket_hash E empty_db"
    by (simp add: bucket_list_zero) (simp add: empty_db_def)
  ultimately show ?thesis
    unfolding storage_inv_def root_ok_def
    by (auto simp: tables_ok_def cards_ok_def tags_ok_def deleted_ok_def kinds_ok_def
        card_ids_def tag_ids_def stamped_def i64_max_def empty_db_def)
qed

section \<open>The commit\<close>

definition commit_txn :: "ext \<Rightarrow> int \<Rightarrow> db \<times> affected \<Rightarrow> (sql_error, db) outcome" where
  "commit_txn E now state =
     (case state of (tx, aff) \<Rightarrow>
        map_ok (\<lambda>(tx, seq). stamp_affected aff seq tx)
          (recompute_root_for_ids E now
             (affected_cards aff @ affected_tags aff @ affected_deleted aff) tx))"

definition stamp_all ::
  "('c \<Rightarrow> uuid) \<Rightarrow> uuid list \<Rightarrow> int \<Rightarrow> 'c entity_row list \<Rightarrow> 'c entity_row list" where
  "stamp_all idf uids seq = fold (\<lambda>uid. stamp_rows idf uid seq) uids"

lemma stamp_all_eq:
  "stamp_all idf uids seq rows =
     map (\<lambda>r. if idf (row_cols r) \<in> set uids then r\<lparr>row_seq := seq\<rparr> else r) rows"
  by (simp add: stamp_all_def fold_stamp_rows)

definition stamp_all_versions ::
  "('c \<Rightarrow> uuid) \<Rightarrow> uuid list \<Rightarrow> int \<Rightarrow> 'c version_row list \<Rightarrow> 'c version_row list" where
  "stamp_all_versions idf uids seq = fold (\<lambda>uid. stamp_versions idf uid seq) uids"

lemma fold_stamp_cards:
  "fold (\<lambda>uid. stamp_card_sequence uid seq) uids db =
     db\<lparr>cards_table := stamp_all col_card_id uids seq (cards_table db),
       card_versions := stamp_all_versions col_card_id uids seq (card_versions db)\<rparr>"
  unfolding stamp_all_def stamp_all_versions_def
  by (induction uids arbitrary: db) (simp_all add: stamp_card_sequence_def)

lemma fold_stamp_tags:
  "fold (\<lambda>uid. stamp_tag_sequence uid seq) uids db =
     db\<lparr>tags_table := stamp_all tcol_tag_id uids seq (tags_table db),
       tag_versions := stamp_all_versions tcol_tag_id uids seq (tag_versions db)\<rparr>"
  unfolding stamp_all_def stamp_all_versions_def
  by (induction uids arbitrary: db) (simp_all add: stamp_tag_sequence_def)

lemma fold_stamp_deleted:
  "fold (\<lambda>uid. stamp_delete_sequence uid seq) uids db =
     db\<lparr>deleted_entities := stamp_all deleted_id uids seq (deleted_entities db)\<rparr>"
  unfolding stamp_all_def
  by (induction uids arbitrary: db) (simp_all add: stamp_delete_sequence_def)

lemma stamp_affected_eq:
  "stamp_affected aff seq db =
     db\<lparr>cards_table := stamp_all col_card_id (affected_cards aff) seq (cards_table db),
       card_versions := stamp_all_versions col_card_id (affected_cards aff) seq (card_versions db),
       tags_table := stamp_all tcol_tag_id (affected_tags aff) seq (tags_table db),
       tag_versions := stamp_all_versions tcol_tag_id (affected_tags aff) seq (tag_versions db),
       deleted_entities := stamp_all deleted_id (affected_deleted aff) seq (deleted_entities db)\<rparr>"
  by (simp add: stamp_affected_def fold_stamp_cards fold_stamp_tags fold_stamp_deleted)

lemma map_stamp_all:
  "(\<And>r. f (r\<lparr>row_seq := seq\<rparr>) = f r) \<Longrightarrow> map f (stamp_all idf uids seq rows) = map f rows"
  by (simp add: stamp_all_eq)

lemma image_stamp_all:
  "(\<And>r. f (r\<lparr>row_seq := seq\<rparr>) = f r) \<Longrightarrow> f ` set (stamp_all idf uids seq rows) = f ` set rows"
  by (metis list.set_map map_stamp_all)

lemma ball_stamp_all:
  assumes "\<And>r. P (r\<lparr>row_seq := seq\<rparr>) = P r"
  shows "(\<forall>r\<in>set (stamp_all idf uids seq rows). P r) \<longleftrightarrow> (\<forall>r\<in>set rows. P r)"
proof -
  have ball: "(\<forall>r\<in>A. P r) \<longleftrightarrow> False \<notin> P ` A" for A
    by auto
  have img: "P ` set (stamp_all idf uids seq rows) = P ` set rows"
    by (rule image_stamp_all) (rule assms)
  show ?thesis
    unfolding ball img ..
qed

lemma keyed_stamp_all [simp]: "keyed idf (stamp_all idf uids seq rows) \<longleftrightarrow> keyed idf rows"
  unfolding stamp_all_def by (induction uids arbitrary: rows) simp_all

lemma content_stamp_all [simp]:
  "content idf hashf (stamp_all idf uids seq rows) = content idf hashf rows"
  unfolding content_def by (rule image_stamp_all) simp

lemma ids_of_stamp_all [simp]: "ids_of idf (stamp_all idf uids seq rows) = ids_of idf rows"
  unfolding ids_of_def by (rule image_stamp_all) simp

lemma cards_ok_stamp [simp]: "cards_ok E (stamp_all col_card_id uids seq rows) \<longleftrightarrow> cards_ok E rows"
  unfolding cards_ok_def by (simp add: ball_stamp_all map_stamp_all)

lemma tags_ok_stamp [simp]: "tags_ok E (stamp_all tcol_tag_id uids seq rows) \<longleftrightarrow> tags_ok E rows"
  unfolding tags_ok_def by (simp add: ball_stamp_all)

lemma deleted_ok_stamp [simp]:
  "deleted_ok E (stamp_all deleted_id uids seq rows) \<longleftrightarrow> deleted_ok E rows"
  unfolding deleted_ok_def by (simp add: ball_stamp_all)

lemma select_bucket_stamp_all [simp]:
  "keyed idf rows \<Longrightarrow>
     select_bucket_hashes idf hashf (stamp_all idf uids seq rows) b = select_bucket_hashes idf hashf rows b"
  by (rule select_bucket_content) simp_all

lemma stamped_stamp_all:
  assumes "stamped s rows" "fresh_or_old idf uids rows rows'" "0 \<le> s"
  shows "stamped (s + 1) (stamp_all idf uids (s + 1) rows')"
  using assms unfolding stamped_def fresh_or_old_def stamp_all_eq by fastforce

section \<open>What a commit makes of a transaction\<close>

lemma table_step_content:
  assumes "table_step idf ws ds rows rows'" and "uid \<notin> set ws" "uid \<notin> set ds"
  shows "(uid, h) \<in> content idf hashf rows \<longleftrightarrow> (uid, h) \<in> content idf hashf rows'"
  using assms unfolding table_step_def fresh_or_old_def content_def by auto

lemma deleted_step_content:
  assumes "deleted_step ds rows rows'" and "uid \<notin> set ds"
  shows "(uid, h) \<in> content deleted_id hashf rows \<longleftrightarrow> (uid, h) \<in> content deleted_id hashf rows'"
  using assms unfolding deleted_step_def fresh_or_old_def content_def by auto

lemma untouched_bucket:
  assumes db: "tables_ok E db" and txn: "txn_inv E K db (tx, aff)"
    and b: "b \<notin> bucket_of ` set (affected_cards aff @ affected_tags aff @ affected_deleted aff)"
  shows "recompute_bucket_hash E tx b = recompute_bucket_hash E db b"
proof -
  note ok = db txn
  have keyed: "keyed col_card_id (cards_table db)" "keyed col_card_id (cards_table tx)"
    "keyed tcol_tag_id (tags_table db)" "keyed tcol_tag_id (tags_table tx)"
    "keyed deleted_id (deleted_entities db)" "keyed deleted_id (deleted_entities tx)"
    using ok by (auto simp: txn_inv_def tables_ok_def cards_ok_def tags_ok_def deleted_ok_def)
  have out: "uid \<notin> set (affected_cards aff)" "uid \<notin> set (affected_tags aff)"
    "uid \<notin> set (affected_deleted aff)" if "bucket_of uid = b" for uid
    using b that by auto
  have "select_bucket_hashes col_card_id col_hash (cards_table tx) b =
      select_bucket_hashes col_card_id col_hash (cards_table db) b"
    using txn out
    by (intro select_bucket_content keyed) (auto simp: txn_inv_def table_step_content)
  moreover have "select_bucket_hashes tcol_tag_id tcol_hash (tags_table tx) b =
      select_bucket_hashes tcol_tag_id tcol_hash (tags_table db) b"
    using txn out
    by (intro select_bucket_content keyed) (auto simp: txn_inv_def table_step_content)
  moreover have "select_bucket_hashes deleted_id deleted_hash (deleted_entities tx) b =
      select_bucket_hashes deleted_id deleted_hash (deleted_entities db) b"
    using txn out
    by (intro select_bucket_content keyed) (auto simp: txn_inv_def deleted_step_content)
  ultimately show ?thesis
    by (simp add: recompute_bucket_hash_def)
qed

lemma live_step_commit:
  assumes "table_step idf ws ds rows rows'" "deleted_step ds dels dels'" "0 \<le> s"
  shows "live_step idf (s + 1) rows (stamp_all idf ws (s + 1) rows')
    (stamp_all deleted_id ds (s + 1) dels')"
  unfolding live_step_def
proof (intro conjI ballI)
  fix r assume "r \<in> set (stamp_all idf ws (s + 1) rows')"
  then show "r \<in> set rows \<or> row_seq r = s + 1"
    using assms(1) by (auto simp: table_step_def fresh_or_old_def stamp_all_eq split: if_splits)
next
  fix uid assume "uid \<in> ids_of idf rows - ids_of idf (stamp_all idf ws (s + 1) rows')"
  then have "uid \<in> set ds"
    using assms(1) by (auto simp: table_step_def)
  moreover from this have "uid \<in> ids_of deleted_id dels'"
    using assms(2) by (simp add: deleted_step_def)
  ultimately obtain d where "d \<in> set dels'" "deleted_id (row_cols d) = uid"
    by (auto simp: ids_of_def)
  then have "d\<lparr>row_seq := s + 1\<rparr> \<in> set (stamp_all deleted_id ds (s + 1) dels')"
    using \<open>uid \<in> set ds\<close> by (force simp: stamp_all_eq)
  then show "\<exists>d\<in>set (stamp_all deleted_id ds (s + 1) dels').
      deleted_id (row_cols d) = uid \<and> row_seq d = s + 1"
    using \<open>deleted_id (row_cols d) = uid\<close> by (intro bexI) auto
qed

lemma deleted_step_stamp:
  assumes "deleted_step ds dels dels'"
  shows "set dels \<subseteq> set (stamp_all deleted_id ds seq dels')"
    "\<forall>d\<in>set (stamp_all deleted_id ds seq dels'). d \<in> set dels \<or> row_seq d = seq"
proof -
  have "r \<in> set (stamp_all deleted_id ds seq dels')" if "r \<in> set dels" for r
  proof -
    have "deleted_id (row_cols r) \<notin> set ds"
      using assms that by (auto simp: deleted_step_def ids_of_def)
    moreover have "r \<in> set dels'"
      using assms that by (auto simp: deleted_step_def)
    ultimately show ?thesis
      by (force simp: stamp_all_eq)
  qed
  then show "set dels \<subseteq> set (stamp_all deleted_id ds seq dels')"
    by auto
  show "\<forall>d\<in>set (stamp_all deleted_id ds seq dels'). d \<in> set dels \<or> row_seq d = seq"
    using assms by (auto simp: deleted_step_def fresh_or_old_def stamp_all_eq split: if_splits)
qed

lemma recompute_bucket_hash_stamp:
  assumes "tables_ok E tx"
  shows "recompute_bucket_hash E (stamp_affected aff seq tx) = recompute_bucket_hash E tx"
  using assms
  by (simp add: recompute_bucket_hash_def stamp_affected_eq tables_ok_def cards_ok_def tags_ok_def
      deleted_ok_def fun_eq_iff)

lemma commit_txn_inv:
  assumes inv: "storage_inv E K db" and txn: "txn_inv E K db (tx, aff)"
    and res: "commit_txn E now (tx, aff) = Ok db'"
  shows "storage_inv E K db' \<and> db_step db db'"
proof -
  let ?seq = "db_sequence db + 1"
  let ?ids = "affected_cards aff @ affected_tags aff @ affected_deleted aff"
  let ?b = "refreshed_buckets E ?ids tx"
  have root: "db_sequence tx = db_sequence db" "root_history tx = root_history db"
    "root_buckets tx = root_buckets db"
    using txn by (auto simp: txn_inv_def same_root_def)
  from res root have bound: "?seq \<le> i64_max"
    and db': "db' = stamp_affected aff ?seq (tx\<lparr>root_buckets := ?b, db_root_hash := root_hash_of E ?b,
      db_sequence := ?seq, root_history := root_history db @
        [\<lparr>hist_sequence = ?seq, hist_hash = root_hash_of E ?b, hist_created_at = now\<rparr>]\<rparr>)"
    by (auto simp: commit_txn_def outcome_simps recompute_root_Ok Let_def)
  have tables: "tables_ok E tx" "tables_ok E db" and pos: "0 \<le> db_sequence db"
    and bdb: "root_buckets db = recompute_bucket_hash E db"
    using inv txn by (auto simp: storage_inv_def txn_inv_def root_ok_def)
  have tables': "tables_ok E db'"
    using tables(1) by (simp add: db' stamp_affected_eq tables_ok_def)
  have kinds': "kinds_ok K db'"
    using txn by (simp add: db' stamp_affected_eq txn_inv_def kinds_ok_def card_ids_def tag_ids_def
        deleted_ids_def)
  have "?b = recompute_bucket_hash E tx"
    using untouched_bucket [OF tables(2) txn] root(3) bdb
    by (simp add: refreshed_buckets_def fun_eq_iff del: set_append)
  also have "\<dots> = recompute_bucket_hash E db'"
    unfolding db' by (subst recompute_bucket_hash_stamp) (use tables(1) in \<open>simp_all add: tables_ok_def\<close>)
  finally have "?b = recompute_bucket_hash E db'" .
  moreover have "[1..?seq] = [1..db_sequence db] @ [?seq]"
    using pos by (simp add: upto_rec2)
  ultimately have root': "root_ok E db'"
    using inv bound by (simp add: root_ok_def storage_inv_def) (simp add: db' stamp_affected_eq)
  have steps: "table_step col_card_id (affected_cards aff) (affected_deleted aff) (cards_table db) (cards_table tx)"
    "table_step tcol_tag_id (affected_tags aff) (affected_deleted aff) (tags_table db) (tags_table tx)"
    "deleted_step (affected_deleted aff) (deleted_entities db) (deleted_entities tx)"
    using txn by (auto simp: txn_inv_def)
  have stamps: "stamped (db_sequence db) (cards_table db)" "stamped (db_sequence db) (tags_table db)"
    "stamped (db_sequence db) (deleted_entities db)"
    using inv by (simp_all add: storage_inv_def)
  have fresh: "fresh_or_old col_card_id (affected_cards aff) (cards_table db) (cards_table tx)"
    "fresh_or_old tcol_tag_id (affected_tags aff) (tags_table db) (tags_table tx)"
    "fresh_or_old deleted_id (affected_deleted aff) (deleted_entities db) (deleted_entities tx)"
    using steps by (simp_all add: table_step_def deleted_step_def)
  have "stamped ?seq (cards_table db')" "stamped ?seq (tags_table db')" "stamped ?seq (deleted_entities db')"
    using stamped_stamp_all [OF stamps(1) fresh(1) pos] stamped_stamp_all [OF stamps(2) fresh(2) pos]
      stamped_stamp_all [OF stamps(3) fresh(3) pos]
    by (simp_all add: db' stamp_affected_eq)
  moreover have "db_sequence db' = ?seq"
    by (simp add: db' stamp_affected_eq)
  ultimately have "storage_inv E K db'"
    using tables' kinds' root' by (simp add: storage_inv_def)
  moreover have "db_step db db'"
    using live_step_commit [OF steps(1,3) pos] live_step_commit [OF steps(2,3) pos]
      deleted_step_stamp [OF steps(3)]
    by (simp add: db_step_def Let_def) (simp add: db' stamp_affected_eq)
  ultimately show ?thesis ..
qed

end
