(* ===== verification/Storage_Steps.thy ===== *)
theory Storage_Steps
  imports Storage_Invariant
begin

text \<open>
  The five writes of the \<open>Storage\<close> trait as transactions: each either leaves the state as it was
  and reports why, or is the commit of its items. What the invariant theory shows of a commit thus
  holds of all of them.
\<close>

text \<open>
  \<open>committed\<close>: the items went through one after the other, the validator accepted their result
  (a single deletion is not validated), and the commit gave \<open>db'\<close>.
\<close>

definition committed :: "ext \<Rightarrow> int \<Rightarrow> db \<Rightarrow> push_item list \<Rightarrow> db \<Rightarrow> bool" where
  "committed E now db items db' \<longleftrightarrow>
     (\<exists>tx aff. apply_items E 0 items (db, no_affected) = Ok (tx, aff) \<and>
        (validate_batch_implications E tx items = Ok () \<or>
           (\<exists>uid. items = [ItemDeleteCard uid] \<or> items = [ItemDeleteTag uid])) \<and>
        commit_txn E now (tx, aff) = Ok db')"

lemma transaction_cases:
  assumes "transaction db result = (r, db')"
  obtains (kept) "db' = db" "\<forall>x. r \<noteq> Ok x" | (committed) x where "result = Ok (db', x)" "r = Ok x"
  using assms by (cases result) (auto simp: transaction_def)

lemma apply_items_single:
  "apply_items E 0 [item] state = Ok state' \<longleftrightarrow> apply_item E item state = Ok state'"
  by (cases state') (auto simp: outcome_simps)

lemma stamp_single_card: "stamp_affected \<lparr>affected_cards = [uid], affected_tags = [], affected_deleted = []\<rparr> seq
    = stamp_card_sequence uid seq"
  and stamp_single_tag: "stamp_affected \<lparr>affected_cards = [], affected_tags = [uid], affected_deleted = []\<rparr> seq
    = stamp_tag_sequence uid seq"
  and stamp_single_deleted: "stamp_affected \<lparr>affected_cards = [], affected_tags = [], affected_deleted = [uid]\<rparr> seq
    = stamp_delete_sequence uid seq"
  by (simp_all add: stamp_affected_def fun_eq_iff)

lemma storage_push_card_versions_cases:
  assumes "storage_push_card_versions E now db versions = (r, db')"
  obtains (kept) "db' = db" "r \<noteq> Ok ()"
  | (committed) "r = Ok ()" "committed E now db [ItemCards versions] db'"
proof (cases versions)
  case Nil
  with assms show thesis by (intro kept) (auto simp: storage_push_card_versions_def)
next
  case (Cons first rest)
  with assms have "transaction db
      (bind_outcome (push_card_versions_inner E db versions) (\<lambda>tx.
       bind_outcome (validate_batch_implications E tx [ItemCards versions]) (\<lambda>_.
       bind_outcome (map_err push_op_error_from_sql
          (recompute_root_for_ids E now [card_id first] tx)) (\<lambda>(tx, seq).
         Ok (stamp_card_sequence (card_id first) seq tx, ()))))) = (r, db')"
    by (simp add: storage_push_card_versions_def)
  then show thesis
  proof (cases rule: transaction_cases)
    case kept
    then show thesis using that(1) by blast
  next
    case (committed x)
    from committed(1) obtain tx tx' seq where
      "push_card_versions_inner E db versions = Ok tx"
      "validate_batch_implications E tx [ItemCards versions] = Ok ()"
      "recompute_root_for_ids E now [card_id first] tx = Ok (tx', seq)"
      "db' = stamp_card_sequence (card_id first) seq tx'"
      by (auto simp: outcome_simps)
    then have "committed E now db [ItemCards versions] db'"
      using Cons unfolding committed_def apply_items_single
      by (auto simp: apply_item_def commit_txn_def stamp_single_card)
    then show thesis
      using that(2) committed(2) by simp
  qed
qed

lemma storage_push_tag_versions_cases:
  assumes "storage_push_tag_versions E now db versions = (r, db')"
  obtains (kept) "db' = db" "r \<noteq> Ok ()"
  | (committed) "r = Ok ()" "committed E now db [ItemTags versions] db'"
proof (cases versions)
  case Nil
  with assms show thesis by (intro kept) (auto simp: storage_push_tag_versions_def)
next
  case (Cons first rest)
  with assms have "transaction db
      (bind_outcome (push_tag_versions_inner E db versions) (\<lambda>tx.
       bind_outcome (validate_batch_implications E tx [ItemTags versions]) (\<lambda>_.
       bind_outcome (map_err push_op_error_from_sql
          (recompute_root_for_ids E now [tag_id first] tx)) (\<lambda>(tx, seq).
         Ok (stamp_tag_sequence (tag_id first) seq tx, ()))))) = (r, db')"
    by (simp add: storage_push_tag_versions_def)
  then show thesis
  proof (cases rule: transaction_cases)
    case kept
    then show thesis using that(1) by blast
  next
    case (committed x)
    from committed(1) obtain tx tx' seq where
      "push_tag_versions_inner E db versions = Ok tx"
      "validate_batch_implications E tx [ItemTags versions] = Ok ()"
      "recompute_root_for_ids E now [tag_id first] tx = Ok (tx', seq)"
      "db' = stamp_tag_sequence (tag_id first) seq tx'"
      by (auto simp: outcome_simps)
    then have "committed E now db [ItemTags versions] db'"
      using Cons unfolding committed_def apply_items_single
      by (auto simp: apply_item_def commit_txn_def stamp_single_tag)
    then show thesis
      using that(2) committed(2) by simp
  qed
qed

lemma storage_delete_card_cases:
  assumes "storage_delete_card E now db uid = (r, db')"
  obtains (kept) "db' = db" "\<forall>d. r \<noteq> Ok d"
  | (committed) "r = Ok (deleted_new (blake3 E) uid)" "committed E now db [ItemDeleteCard uid] db'"
  using assms unfolding storage_delete_card_def
proof (cases rule: transaction_cases)
  case kept
  then show thesis using that(1) by blast
next
  case (committed d)
  then obtain tx tx' seq where "delete_card_inner E db uid = Ok (tx, d)"
    "recompute_root_for_ids E now [uid] tx = Ok (tx', seq)" "db' = stamp_delete_sequence uid seq tx'"
    by (auto simp: outcome_simps)
  moreover from this(1) have "d = deleted_new (blake3 E) uid"
    by (simp add: delete_card_inner_Ok)
  ultimately have "committed E now db [ItemDeleteCard uid] db'" "r = Ok (deleted_new (blake3 E) uid)"
    using committed(2) unfolding committed_def apply_items_single
    by (auto simp: apply_item_def commit_txn_def stamp_single_deleted)
  then show thesis using that(2) by blast
qed

lemma storage_delete_tag_cases:
  assumes "storage_delete_tag E now db uid = (r, db')"
  obtains (kept) "db' = db" "\<forall>d. r \<noteq> Ok d"
  | (committed) "r = Ok (deleted_new (blake3 E) uid)" "committed E now db [ItemDeleteTag uid] db'"
  using assms unfolding storage_delete_tag_def
proof (cases rule: transaction_cases)
  case kept
  then show thesis using that(1) by blast
next
  case (committed d)
  then obtain tx tx' seq where "delete_tag_inner E db uid = Ok (tx, d)"
    "recompute_root_for_ids E now [uid] tx = Ok (tx', seq)" "db' = stamp_delete_sequence uid seq tx'"
    by (auto simp: outcome_simps)
  moreover from this(1) have "d = deleted_new (blake3 E) uid"
    by (simp add: delete_tag_inner_Ok)
  ultimately have "committed E now db [ItemDeleteTag uid] db'" "r = Ok (deleted_new (blake3 E) uid)"
    using committed(2) unfolding committed_def apply_items_single
    by (auto simp: apply_item_def commit_txn_def stamp_single_deleted)
  then show thesis using that(2) by blast
qed

lemma storage_push_batch_cases:
  assumes "storage_push_batch E now db items = (r, db')"
  obtains (empty) "items = []" "db' = db" "r = Ok ()"
  | (kept) "db' = db" "r \<noteq> Ok ()"
  | (committed) "items \<noteq> []" "r = Ok ()" "committed E now db items db'"
proof (cases "items = []")
  case True
  with assms show thesis by (intro that(1)) (simp_all add: storage_push_batch_def)
next
  case False
  with assms have "transaction db
      (bind_outcome (apply_items E 0 items (db, no_affected))
         (\<lambda>(tx, aff).
       bind_outcome
         (map_err (\<lambda>e. \<lparr>failed_index = 0, failed_error = e\<rparr>)
            (validate_batch_implications E tx items)) (\<lambda>_.
       bind_outcome
         (map_err (\<lambda>e. \<lparr>failed_index = 0, failed_error = push_op_error_from_sql e\<rparr>)
            (recompute_root_for_ids E now
               (affected_cards aff @ affected_tags aff @ affected_deleted aff) tx))
         (\<lambda>(tx, seq). Ok (stamp_affected aff seq tx, ()))))) = (r, db')"
    by (simp add: storage_push_batch_def)
  then show thesis
  proof (cases rule: transaction_cases)
    case kept
    then show thesis using that(2) by blast
  next
    case (committed x)
    then have "committed E now db items db'"
      unfolding committed_def commit_txn_def by (auto simp: outcome_simps; blast)
    then show thesis
      using that(3) committed(2) False by simp
  qed
qed

section \<open>A commit keeps the invariant and makes one step\<close>

lemma committed_txn:
  assumes "committed E now db items db'" "storage_inv E K db" "\<forall>item\<in>set items. item_ok E K item"
  shows "storage_inv E K db' \<and> db_step db db'"
proof -
  from assms(1) obtain tx aff where run: "apply_items E 0 items (db, no_affected) = Ok (tx, aff)"
    and commit: "commit_txn E now (tx, aff) = Ok db'"
    by (auto simp: committed_def)
  have "txn_inv E K db (db, no_affected)"
    using assms(2) by (simp add: storage_inv_def txn_inv_start)
  then have "txn_inv E K db (tx, aff)"
    using apply_items_txn [OF _ assms(3) run] by blast
  then show ?thesis
    using commit_txn_inv [OF assms(2) _ commit] by blast
qed

end
