(* ===== verification/Handler.thy ===== *)
theory Handler
  imports Storage_Steps
begin

text \<open>
  The request dispatcher (server/src/handler.rs) over the SQLite storage, and the request loop that
  both transports share (server/src/quic/server.rs, server/src/webtransport/server.rs): what is
  answered, what is stored, what is broadcast to subscribers.
\<close>

section \<open>Error conversion\<close>

fun push_op_error_to_protocol :: "push_op_error \<Rightarrow> protocol_error" where
  "push_op_error_to_protocol (Domain e) = PushFailed e"
| "push_op_error_to_protocol (push_op_error.Internal _) = protocol_error.Internal"

fun storage_error_to_protocol :: "storage_error \<Rightarrow> protocol_error" where
  "storage_error_to_protocol storage_error.NotFound = protocol_error.NotFound"
| "storage_error_to_protocol storage_error.AlreadyDeleted = protocol_error.AlreadyDeleted"
| "storage_error_to_protocol (storage_error.OrphanedTagReference uid cards) =
     PushFailed (push_error.OrphanedTagReference uid cards)"
| "storage_error_to_protocol (storage_error.OrphanedTagImpliesReference uid tags) =
     PushFailed (push_error.OrphanedTagImpliesReference uid tags)"
| "storage_error_to_protocol (storage_error.RootHashMismatch sequence expected_hash) =
     protocol_error.RootHashMismatch sequence expected_hash"
| "storage_error_to_protocol (storage_error.Internal _) = protocol_error.Internal"
| "storage_error_to_protocol (storage_error.IncompatibleVersion _ _) = protocol_error.Internal"
| "storage_error_to_protocol (storage_error.MigrationNotImplemented _ _) = protocol_error.Internal"

fun batch_item_error_of :: "push_op_error \<Rightarrow> batch_item_error" where
  "batch_item_error_of (Domain e) = PushFailure e"
| "batch_item_error_of (push_op_error.Internal _) = batch_item_error.Internal"

section \<open>Dispatch\<close>

text \<open>A panic in the storage is a panic of the request task.\<close>

fun respond ::
  "('a \<Rightarrow> response) \<Rightarrow> ('e \<Rightarrow> protocol_error) \<Rightarrow> ('e, 'a) outcome \<Rightarrow> (unit, response) outcome" where
  "respond f g (Ok a) = Ok (f a)"
| "respond f g (Err e) = Ok (RespError (g e))"
| "respond f g Panic = Panic"

definition respond_root :: "db \<Rightarrow> (unit, response) outcome" where
  "respond_root db = respond RespRoot storage_error_to_protocol (storage_get_root db)"

definition respond_entity ::
  "('a \<Rightarrow> response) \<Rightarrow> (storage_error, 'a option) outcome \<Rightarrow> (unit, response) outcome" where
  "respond_entity f result =
     respond (\<lambda>x. case x of Some a \<Rightarrow> f a | None \<Rightarrow> RespError protocol_error.NotFound)
       storage_error_to_protocol result"

fun handle_request :: "ext \<Rightarrow> int \<Rightarrow> db \<Rightarrow> request \<Rightarrow> (unit, response) outcome \<times> db" where
  "handle_request E now db (PushCardVersions versions) =
     (case storage_push_card_versions E now db versions of
        (Ok _, db) \<Rightarrow> (respond_root db, db)
      | (Err e, db) \<Rightarrow> (Ok (RespError (push_op_error_to_protocol e)), db)
      | (Panic, db) \<Rightarrow> (Panic, db))"
| "handle_request E now db (GetCard uid) = (respond_entity RespCard (storage_get_card E db uid), db)"
| "handle_request E now db (GetCardHistory uid limit) =
     (respond RespCardHistory storage_error_to_protocol (storage_get_card_history E db uid limit), db)"
| "handle_request E now db (ListCards flt limit) =
     (respond RespCards storage_error_to_protocol (storage_list_cards E db flt limit), db)"
| "handle_request E now db (DeleteCard uid) =
     (case storage_delete_card E now db uid of
        (result, db) \<Rightarrow> (respond RespDeleted storage_error_to_protocol result, db))"
| "handle_request E now db (PushTagVersions versions) =
     (case storage_push_tag_versions E now db versions of
        (Ok _, db) \<Rightarrow> (respond_root db, db)
      | (Err e, db) \<Rightarrow> (Ok (RespError (push_op_error_to_protocol e)), db)
      | (Panic, db) \<Rightarrow> (Panic, db))"
| "handle_request E now db (GetTag uid) = (respond_entity RespTag (storage_get_tag E db uid), db)"
| "handle_request E now db ListTags =
     (respond RespTags storage_error_to_protocol (storage_list_tags E db), db)"
| "handle_request E now db (DeleteTag uid) =
     (case storage_delete_tag E now db uid of
        (result, db) \<Rightarrow> (respond RespDeleted storage_error_to_protocol result, db))"
| "handle_request E now db GetRoot = (respond_root db, db)"
| "handle_request E now db (GetChangesSince sequence claimed_hash) =
     (respond RespChanges storage_error_to_protocol
        (storage_get_changes_since E db sequence claimed_hash), db)"
| "handle_request E now db (PushBatch items) =
     (case storage_push_batch E now db items of
        (Ok _, db) \<Rightarrow> (respond_root db, db)
      | (Err e, db) \<Rightarrow>
          (Ok (RespError (BatchFailed (of_nat (failed_index e)) (batch_item_error_of (failed_error e)))), db)
      | (Panic, db) \<Rightarrow> (Panic, db))"
| "handle_request E now db Subscribe = (Ok (RespError UnsupportedRequest), db)"
| "handle_request E now db (GetTagHistory uid limit) =
     (respond RespTagHistory storage_error_to_protocol (storage_get_tag_history E db uid limit), db)"
| "handle_request E now db (GetSequenceHistory after_sequence limit) =
     (respond RespSequenceHistory storage_error_to_protocol
        (storage_get_sequence_history E db after_sequence limit), db)"
| "handle_request E now db (GetAllCardHistories limit_per_card wanted) =
     (respond RespAllCardHistories storage_error_to_protocol
        (storage_get_all_card_histories E db limit_per_card wanted), db)"
| "handle_request E now db (GetAllTagHistories limit_per_tag wanted) =
     (respond RespAllTagHistories storage_error_to_protocol
        (storage_get_all_tag_histories E db limit_per_tag wanted), db)"

section \<open>One stream of a connection\<close>

text \<open>
  What a request stream does after the handshake: read one request; a \<open>Subscribe\<close> is answered and
  kept open; any other request is handled, answered, and, if it is a mutation that succeeded,
  followed by a broadcast of the root read after it. \<open>reply\<close> lists the responses written,
  \<open>broadcast\<close> the notifications sent, \<open>subscribed\<close> says that the stream stays open.
\<close>

record stream_result =
  reply :: "response list"
  broadcast :: "root_state list"
  subscribed :: bool
  after :: db

definition stream_nothing :: "db \<Rightarrow> stream_result" where
  "stream_nothing db = \<lparr>reply = [], broadcast = [], subscribed = False, after = db\<rparr>"

fun is_error :: "response \<Rightarrow> bool" where
  "is_error (RespError _) = True"
| "is_error _ = False"

definition serve_request :: "ext \<Rightarrow> int \<Rightarrow> db \<Rightarrow> request \<Rightarrow> stream_result" where
  "serve_request E now db request =
     (if is_streaming request then
        \<lparr>reply = [RespOk], broadcast = [], subscribed = True, after = db\<rparr>
      else
        case handle_request E now db request of
          (Ok response, db') \<Rightarrow>
            \<lparr>reply = [response],
              broadcast =
                (if is_mutation request \<and> \<not> is_error response then
                   (case storage_get_root db' of Ok root \<Rightarrow> [root] | _ \<Rightarrow> [])
                 else []),
              subscribed = False, after = db'\<rparr>
        | (_, db') \<Rightarrow> stream_nothing db')"

text \<open>
  The two transports differ on what cannot be read: QUIC answers a frame that does not decode with
  \<open>UnsupportedRequest\<close>, WebTransport drops the stream.
\<close>

definition quic_stream ::
  "ext \<Rightarrow> int \<Rightarrow> db \<Rightarrow> (WireError, request) outcome \<Rightarrow> stream_result" where
  "quic_stream E now db received =
     (case received of
        Ok request \<Rightarrow> serve_request E now db request
      | Err Deserialize \<Rightarrow> (stream_nothing db)\<lparr>reply := [RespError UnsupportedRequest]\<rparr>
      | _ \<Rightarrow> stream_nothing db)"

definition webtransport_stream ::
  "ext \<Rightarrow> int \<Rightarrow> db \<Rightarrow> (WireError, request) outcome \<Rightarrow> stream_result" where
  "webtransport_stream E now db received =
     (case received of
        Ok request \<Rightarrow> serve_request E now db request
      | _ \<Rightarrow> stream_nothing db)"

section \<open>Requests of honest clients and reachable states\<close>

fun items_of :: "request \<Rightarrow> push_item list" where
  "items_of (PushCardVersions versions) = [ItemCards versions]"
| "items_of (PushTagVersions versions) = [ItemTags versions]"
| "items_of (DeleteCard uid) = [ItemDeleteCard uid]"
| "items_of (DeleteTag uid) = [ItemDeleteTag uid]"
| "items_of (PushBatch items) = items"
| "items_of _ = []"

definition request_ok :: "ext \<Rightarrow> uuid set \<Rightarrow> request \<Rightarrow> bool" where
  "request_ok E K req \<longleftrightarrow> (\<forall>item\<in>set (items_of req). item_ok E K item)"

text \<open>Every request leaves the state alone or commits its items.\<close>

lemma handle_request_cases:
  assumes "handle_request E now db req = (result, db')"
  obtains (kept) "db' = db" | (committed) "is_mutation req" "committed E now db (items_of req) db'"
    "\<exists>resp. result = Ok resp \<and> \<not> is_error resp \<or> result = respond_root db'"
proof (cases req)
  case (PushCardVersions versions)
  obtain r db1 where push: "storage_push_card_versions E now db versions = (r, db1)"
    by (cases "storage_push_card_versions E now db versions")
  with assms PushCardVersions have "db' = db1" and "r = Ok () \<Longrightarrow> result = respond_root db1"
    by (auto split: outcome.splits)
  with push show thesis
    using PushCardVersions that by (cases rule: storage_push_card_versions_cases) auto
next
  case (PushTagVersions versions)
  obtain r db1 where push: "storage_push_tag_versions E now db versions = (r, db1)"
    by (cases "storage_push_tag_versions E now db versions")
  with assms PushTagVersions have "db' = db1" and "r = Ok () \<Longrightarrow> result = respond_root db1"
    by (auto split: outcome.splits)
  with push show thesis
    using PushTagVersions that by (cases rule: storage_push_tag_versions_cases) auto
next
  case (DeleteCard uid)
  obtain r db1 where push: "storage_delete_card E now db uid = (r, db1)"
    by (cases "storage_delete_card E now db uid")
  with assms DeleteCard have "db' = db1" "result = respond RespDeleted storage_error_to_protocol r"
    by auto
  with push show thesis
    using DeleteCard that by (cases rule: storage_delete_card_cases) auto
next
  case (DeleteTag uid)
  obtain r db1 where push: "storage_delete_tag E now db uid = (r, db1)"
    by (cases "storage_delete_tag E now db uid")
  with assms DeleteTag have "db' = db1" "result = respond RespDeleted storage_error_to_protocol r"
    by auto
  with push show thesis
    using DeleteTag that by (cases rule: storage_delete_tag_cases) auto
next
  case (PushBatch items)
  obtain r db1 where push: "storage_push_batch E now db items = (r, db1)"
    by (cases "storage_push_batch E now db items")
  with assms PushBatch have "db' = db1" and "r = Ok () \<Longrightarrow> result = respond_root db1"
    by (auto split: outcome.splits)
  with push show thesis
    using PushBatch that by (cases rule: storage_push_batch_cases) auto
qed (use assms that in auto)

inductive reachable :: "ext \<Rightarrow> uuid set \<Rightarrow> db \<Rightarrow> bool" for E K where
  reachable_init: "reachable E K empty_db"
| reachable_request: "reachable E K db \<Longrightarrow> request_ok E K req \<Longrightarrow>
    handle_request E now db req = (result, db') \<Longrightarrow> reachable E K db'"

inductive_simps reachable_from_simps: "reachable E K db"

lemma handle_request_inv:
  assumes "storage_inv E K db" "request_ok E K req" "handle_request E now db req = (result, db')"
  shows "storage_inv E K db' \<and> (db' = db \<or> db_step db db')"
  using assms(3)
proof (cases rule: handle_request_cases)
  case kept
  with assms(1) show ?thesis by simp
next
  case committed
  then show ?thesis
    using committed_txn [OF committed(2) assms(1)] assms(2) by (simp add: request_ok_def)
qed

lemma reachable_inv: "reachable E K db \<Longrightarrow> storage_inv E K db"
  by (induction rule: reachable.induct) (auto simp: storage_inv_empty dest: handle_request_inv)

end
