(* ===== verification/Storage_Implications.thy ===== *)
theory Storage_Implications
  imports Handler
begin

text \<open>
  The tag implication invariant of the server: every implied tag is live, the implication relation
  is acyclic, and every card holds the closure of its tags. The validator is shown to check exactly
  the state that is about to be committed: its overlay of the batch on the snapshot changes
  nothing, because the snapshot is taken after the writes.
\<close>

section \<open>What the tables say\<close>

definition row_implies :: "ext \<Rightarrow> tag_cols \<Rightarrow> uuid list" where
  "row_implies E cols = (case from_bytes E (tcol_implies cols) of Some us \<Rightarrow> us | None \<Rightarrow> [])"

definition row_tags :: "ext \<Rightarrow> card_cols \<Rightarrow> uuid list" where
  "row_tags E cols = (case from_bytes E (col_tags cols) of Some us \<Rightarrow> us | None \<Rightarrow> [])"

definition implies_pairs :: "ext \<Rightarrow> db \<Rightarrow> (uuid \<times> uuid list) list" where
  "implies_pairs E db = map (\<lambda>r. (tcol_tag_id (row_cols r), row_implies E (row_cols r))) (tags_table db)"

definition tags_pairs :: "ext \<Rightarrow> db \<Rightarrow> (uuid \<times> uuid list) list" where
  "tags_pairs E db = map (\<lambda>r. (col_card_id (row_cols r), row_tags E (row_cols r))) (cards_table db)"

definition live_graph :: "ext \<Rightarrow> db \<Rightarrow> tag_graph" where
  "live_graph E db = graph_from_pairs (implies_pairs E db)"

definition implications_ok :: "ext \<Rightarrow> db \<Rightarrow> bool" where
  "implications_ok E db \<longleftrightarrow>
     (\<forall>r\<in>set (tags_table db). set (row_implies E (row_cols r)) \<subseteq> tag_ids db) \<and>
     acyclic (implies_rel (live_graph E db)) \<and>
     (\<forall>r\<in>set (cards_table db). closed_tags (live_graph E db) (set (row_tags E (row_cols r))))"

section \<open>The validator on its maps\<close>

lemma check_dangling_Ok:
  "check_dangling live ps = Ok () \<longleftrightarrow> (\<forall>(uid, implied)\<in>set ps. set implied \<subseteq> set live)"
  by (induction live ps rule: check_dangling.induct) (auto simp: Let_def filter_empty_conv)

lemma check_closed_Ok:
  "check_closed g ps = Ok () \<longleftrightarrow> (\<forall>(uid, tags)\<in>set ps. closed_tags g (set tags))"
  by (induction g ps rule: check_closed.induct) (auto simp: Let_def missing_for_card_empty_iff)

lemma validate_maps_Ok:
  "validate_maps im cm = Ok () \<longleftrightarrow>
     (\<forall>(uid, implied)\<in>set im. set implied \<subseteq> fst ` set im) \<and>
     acyclic (implies_rel (graph_from_pairs im)) \<and>
     (\<forall>(uid, tags)\<in>set cm. closed_tags (graph_from_pairs im) (set tags))"
  by (auto simp: validate_maps_def Let_def outcome_simps check_dangling_Ok check_closed_Ok bt_keys_def
      simp flip: detect_cycle_None_iff split: option.splits)

text \<open>Errors come in this order: dangling reference, cycle, card not closed.\<close>

lemma check_dangling_Err:
  "check_dangling live ps = Err e \<Longrightarrow>
     \<exists>uid implied. (uid, implied) \<in> set ps \<and>
       e = Domain (TagImpliesUnknown uid (remdups_adj (sort (filter (\<lambda>p. p \<notin> set live) implied))))"
  by (induction live ps rule: check_dangling.induct) (auto simp: Let_def split: if_splits)

lemma check_dangling_not_Panic: "check_dangling live ps \<noteq> Panic"
  by (induction live ps rule: check_dangling.induct) (auto simp: Let_def)

lemma check_closed_not_Panic: "check_closed g ps \<noteq> Panic"
  by (induction g ps rule: check_closed.induct) (auto simp: Let_def)

section \<open>The overlay changes nothing\<close>

text \<open>The effect of an item on the two maps, as functions of the id.\<close>

fun overlay_fun ::
  "push_item \<Rightarrow> (uuid \<rightharpoonup> uuid list) \<times> (uuid \<rightharpoonup> uuid list) \<Rightarrow> (uuid \<rightharpoonup> uuid list) \<times> (uuid \<rightharpoonup> uuid list)"
where
  "overlay_fun (ItemTags vs) (im, cm) =
     (if vs = [] then (im, cm) else (im(tag_id (last vs) \<mapsto> tag_implies (last vs)), cm))"
| "overlay_fun (ItemCards vs) (im, cm) =
     (if vs = [] then (im, cm) else (im, cm(card_id (last vs) \<mapsto> card_tags (last vs))))"
| "overlay_fun (ItemDeleteTag uid) (im, cm) = (im(uid := None), cm)"
| "overlay_fun (ItemDeleteCard uid) (im, cm) = (im, cm(uid := None))"

definition lookups :: "(uuid, uuid list) btree_map \<times> (uuid, uuid list) btree_map
    \<Rightarrow> (uuid \<rightharpoonup> uuid list) \<times> (uuid \<rightharpoonup> uuid list)" where
  "lookups p = (bt_lookup (fst p), bt_lookup (snd p))"

lemma lookups_overlay: "lookups (overlay_item item p) = overlay_fun item (lookups p)"
  by (cases p; cases item) (simp_all add: lookups_def)

lemma ordered_overlay:
  "bt_ordered (fst p) \<and> bt_ordered (snd p) \<Longrightarrow>
     bt_ordered (fst (overlay_item item p)) \<and> bt_ordered (snd (overlay_item item p))"
  by (cases p; cases item) simp_all

lemma lookups_fold: "lookups (fold overlay_item items p) = fold overlay_fun items (lookups p)"
  by (induction items arbitrary: p) (simp_all add: lookups_overlay)

lemma ordered_fold:
  "bt_ordered (fst p) \<and> bt_ordered (snd p) \<Longrightarrow>
     bt_ordered (fst (fold overlay_item items p)) \<and> bt_ordered (snd (fold overlay_item items p))"
  by (induction items arbitrary: p) (simp_all add: ordered_overlay)

text \<open>
  A point of either map is written by the last item that names it, whatever the map was: the map
  after a run differs from any other start only where no item writes.
\<close>

lemma fold_overlay_point_fst:
  "(\<forall>q. fst (fold overlay_fun items q) uid = fst q uid) \<or>
   (\<exists>v. \<forall>q. fst (fold overlay_fun items q) uid = v)"
proof (induction items)
  case (Cons item items)
  have item: "(\<forall>q. fst (overlay_fun item q) uid = fst q uid) \<or> (\<exists>v. \<forall>q. fst (overlay_fun item q) uid = v)"
    by (cases item) auto
  from Cons item show ?case
    unfolding fold_simps by metis
qed simp

lemma fold_overlay_point_snd:
  "(\<forall>q. snd (fold overlay_fun items q) uid = snd q uid) \<or>
   (\<exists>v. \<forall>q. snd (fold overlay_fun items q) uid = v)"
proof (induction items)
  case (Cons item items)
  have item: "(\<forall>q. snd (overlay_fun item q) uid = snd q uid) \<or> (\<exists>v. \<forall>q. snd (overlay_fun item q) uid = v)"
    by (cases item) auto
  from Cons item show ?case
    unfolding fold_simps by metis
qed simp

lemma fold_overlay_idem:
  "fold overlay_fun items (fold overlay_fun items p) = fold overlay_fun items p"
proof (rule prod_eqI)
  show "fst (fold overlay_fun items (fold overlay_fun items p)) = fst (fold overlay_fun items p)"
    using fold_overlay_point_fst [of items] by (metis ext)
  show "snd (fold overlay_fun items (fold overlay_fun items p)) = snd (fold overlay_fun items p)"
    using fold_overlay_point_snd [of items] by (metis ext)
qed

text \<open>The two maps of a state.\<close>

definition tag_map :: "ext \<Rightarrow> db \<Rightarrow> uuid \<rightharpoonup> uuid list" where
  "tag_map E db = map_of (implies_pairs E db)"

definition card_map :: "ext \<Rightarrow> db \<Rightarrow> uuid \<rightharpoonup> uuid list" where
  "card_map E db = map_of (tags_pairs E db)"

lemma map_of_replace_row:
  "map_of (map (\<lambda>r. (idf (row_cols r), f (row_cols r))) (replace_row idf row rows)) =
     (map_of (map (\<lambda>r. (idf (row_cols r), f (row_cols r))) rows))(idf (row_cols row) \<mapsto> f (row_cols row))"
proof -
  have "map_of (map (\<lambda>r. (idf (row_cols r), f (row_cols r))) (delete_rows idf uid rows)) =
      (map_of (map (\<lambda>r. (idf (row_cols r), f (row_cols r))) rows))(uid := None)" for uid
    by (induction rows) (auto simp: delete_rows_def)
  then show ?thesis
    by (auto simp: replace_row_def map_add_def fun_eq_iff split: option.splits)
qed

lemma map_of_delete_rows:
  "map_of (map (\<lambda>r. (idf (row_cols r), f (row_cols r))) (delete_rows idf uid rows)) =
     (map_of (map (\<lambda>r. (idf (row_cols r), f (row_cols r))) rows))(uid := None)"
  by (induction rows) (auto simp: delete_rows_def)

lemma row_implies_params [simp]: "postcard_ok E \<Longrightarrow> row_implies E (tag_params E t) = tag_implies t"
  by (simp add: row_implies_def postcard_ok_def serialize_implies_def)

lemma row_tags_params [simp]: "postcard_ok E \<Longrightarrow> row_tags E (card_params E c) = card_tags c"
  by (simp add: row_tags_def postcard_ok_def serialize_tags_def)

lemma apply_item_maps:
  assumes "postcard_ok E" "apply_item E item (tx, aff) = Ok (tx', aff')"
  shows "(tag_map E tx', card_map E tx') = overlay_fun item (tag_map E tx, card_map E tx)"
proof (cases item)
  case (ItemCards versions)
  with assms(2) have "push_card_versions_inner E tx versions = Ok tx'"
    by (auto simp: apply_item_def outcome_simps)
  then show ?thesis
    by (rule push_card_inner_Ok)
      (simp add: ItemCards assms(1) tag_map_def card_map_def implies_pairs_def tags_pairs_def
        map_of_replace_row)
next
  case (ItemTags versions)
  with assms(2) have "push_tag_versions_inner E tx versions = Ok tx'"
    by (auto simp: apply_item_def outcome_simps)
  then show ?thesis
    by (rule push_tag_inner_Ok)
      (simp add: ItemTags assms(1) tag_map_def card_map_def implies_pairs_def tags_pairs_def
        map_of_replace_row)
next
  case (ItemDeleteCard uid)
  with assms(2) obtain d where "delete_card_inner E tx uid = Ok (tx', d)"
    by (auto simp: apply_item_def outcome_simps)
  then show ?thesis
    by (simp add: ItemDeleteCard delete_card_inner_Ok tag_map_def card_map_def implies_pairs_def
        tags_pairs_def map_of_delete_rows)
next
  case (ItemDeleteTag uid)
  with assms(2) obtain d where "delete_tag_inner E tx uid = Ok (tx', d)"
    by (auto simp: apply_item_def outcome_simps)
  then show ?thesis
    by (simp add: ItemDeleteTag delete_tag_inner_Ok tag_map_def card_map_def implies_pairs_def
        tags_pairs_def map_of_delete_rows)
qed

lemma apply_items_maps:
  assumes "postcard_ok E"
  shows "apply_items E index items (tx, aff) = Ok (tx', aff') \<Longrightarrow>
    (tag_map E tx', card_map E tx') = fold overlay_fun items (tag_map E tx, card_map E tx)"
proof (induction items arbitrary: index tx aff)
  case (Cons item items)
  then obtain tx1 aff1 where "apply_item E item (tx, aff) = Ok (tx1, aff1)"
    "apply_items E (Suc index) items (tx1, aff1) = Ok (tx', aff')"
    by (auto simp: outcome_simps)
  with Cons.IH [of "Suc index" tx1 aff1] apply_item_maps [OF assms] show ?case
    by simp
qed simp

lemma keyed_pairs_distinct:
  "keyed idf rows \<Longrightarrow> distinct (map fst (map (\<lambda>r. (idf (row_cols r), f (row_cols r))) rows))"
  by (simp add: keyed_def comp_def)

lemma distinct_implies_pairs: "tags_ok E (tags_table db) \<Longrightarrow> distinct (map fst (implies_pairs E db))"
  unfolding implies_pairs_def by (rule keyed_pairs_distinct) (simp add: tags_ok_def)

lemma distinct_tags_pairs: "cards_ok E (cards_table db) \<Longrightarrow> distinct (map fst (tags_pairs E db))"
  unfolding tags_pairs_def by (rule keyed_pairs_distinct) (simp add: cards_ok_def)

lemma snapshot_tag_implies_eq:
  assumes "postcard_ok E" "tags_ok E (tags_table tx)"
  shows "snapshot_tag_implies E tx = Ok (bt_collect (implies_pairs E tx))"
proof -
  have "map_ok (\<lambda>implied. (tcol_tag_id (row_cols r), implied))
      (deserialize_implies E (tcol_implies (row_cols r))) =
      (Ok (tcol_tag_id (row_cols r), row_implies E (row_cols r)) :: (push_op_error, _) outcome)"
    if "r \<in> set (tags_table tx)" for r
  proof -
    from assms(2) that obtain t where "row_cols r = tag_params E t"
      by (auto simp: tags_ok_def storable_tag_def)
    with assms(1) show ?thesis by simp
  qed
  then have "collect_results (\<lambda>r. map_ok (\<lambda>implied. (tcol_tag_id (row_cols r), implied))
      (deserialize_implies E (tcol_implies (row_cols r)))) (tags_table tx) =
      (Ok (implies_pairs E tx) :: (push_op_error, _) outcome)"
    unfolding implies_pairs_def by (rule collect_results_all_Ok)
  then show ?thesis
    by (simp add: snapshot_tag_implies_def)
qed

lemma snapshot_card_tags_eq:
  assumes "postcard_ok E" "cards_ok E (cards_table tx)"
  shows "snapshot_card_tags E tx = Ok (bt_collect (tags_pairs E tx))"
proof -
  have "map_ok (\<lambda>tags. (col_card_id (row_cols r), tags))
      (deserialize_tags E (col_tags (row_cols r))) =
      (Ok (col_card_id (row_cols r), row_tags E (row_cols r)) :: (push_op_error, _) outcome)"
    if "r \<in> set (cards_table tx)" for r
  proof -
    from assms(2) that obtain c where "row_cols r = card_params E c"
      by (auto simp: cards_ok_def storable_card_def)
    with assms(1) show ?thesis by simp
  qed
  then have "collect_results (\<lambda>r. map_ok (\<lambda>tags. (col_card_id (row_cols r), tags))
      (deserialize_tags E (col_tags (row_cols r)))) (cards_table tx) =
      (Ok (tags_pairs E tx) :: (push_op_error, _) outcome)"
    unfolding tags_pairs_def by (rule collect_results_all_Ok)
  then show ?thesis
    by (simp add: snapshot_card_tags_def)
qed

text \<open>The maps of a well-formed state as the validator sees them.\<close>

definition state_maps :: "ext \<Rightarrow> db \<Rightarrow> (uuid, uuid list) btree_map \<times> (uuid, uuid list) btree_map" where
  "state_maps E db = (bt_collect (implies_pairs E db), bt_collect (tags_pairs E db))"

lemma lookups_state_maps:
  assumes "tables_ok E db"
  shows "lookups (state_maps E db) = (tag_map E db, card_map E db)"
proof -
  have "keyed tcol_tag_id (tags_table db)" "keyed col_card_id (cards_table db)"
    using assms by (auto simp: tables_ok_def tags_ok_def cards_ok_def)
  then show ?thesis
    by (simp add: lookups_def state_maps_def bt_lookup_collect tag_map_def card_map_def
        implies_pairs_def tags_pairs_def map_of_rev_same keyed_def comp_def)
qed

lemma btree_maps_eq:
  assumes "lookups p = lookups q" "bt_ordered (fst p) \<and> bt_ordered (snd p)"
    "bt_ordered (fst q) \<and> bt_ordered (snd q)"
  shows "p = q"
  using assms btree.entries_unique by (intro prod_eqI) (auto simp: lookups_def)

text \<open>
  After the items of a batch have been written, the overlay is the identity: the validator judges
  the state itself.
\<close>

lemma validate_after_writes:
  assumes "postcard_ok E" "tables_ok E tx"
    and "apply_items E 0 items (db, aff) = Ok (tx, aff')"
  shows "validate_batch_implications E tx items = case_prod validate_maps (state_maps E tx)"
proof -
  have maps: "(tag_map E tx, card_map E tx) = fold overlay_fun items (tag_map E db, card_map E db)"
    by (rule apply_items_maps [OF assms(1,3)])
  have "lookups (fold overlay_item items (state_maps E tx)) =
      fold overlay_fun items (tag_map E tx, card_map E tx)"
    by (simp add: lookups_fold lookups_state_maps [OF assms(2)])
  also have "\<dots> = lookups (state_maps E tx)"
    unfolding lookups_state_maps [OF assms(2)] maps by (rule fold_overlay_idem)
  finally have "fold overlay_item items (state_maps E tx) = state_maps E tx"
    by (rule btree_maps_eq) (simp_all add: ordered_fold state_maps_def)
  then show ?thesis
    using assms(1,2)
    by (simp add: validate_batch_implications_def snapshot_tag_implies_eq snapshot_card_tags_eq
        tables_ok_def state_maps_def)
qed

section \<open>The invariant is kept\<close>

lemma set_collect_distinct: "distinct (map fst ps) \<Longrightarrow> set (bt_collect ps) = set ps"
proof -
  assume d: "distinct (map fst ps)"
  have "(k, v) \<in> set (bt_collect ps) \<longleftrightarrow> (k, v) \<in> set ps" for k v
    using d by (simp add: bt_entries_lookup bt_lookup_collect map_of_rev_same map_of_eq_Some_iff)
  then show ?thesis by auto
qed

lemma graph_from_collected [simp]: "graph_from_pairs (bt_collect ps) = graph_from_pairs ps"
  by (simp add: graph_from_pairs_def bt_collect_ordered)

lemma validate_state_Ok:
  assumes "tables_ok E db"
  shows "case_prod validate_maps (state_maps E db) = Ok () \<longleftrightarrow> implications_ok E db"
proof -
  have "distinct (map fst (implies_pairs E db))" "distinct (map fst (tags_pairs E db))"
    using assms by (simp_all add: tables_ok_def distinct_implies_pairs distinct_tags_pairs)
  then show ?thesis
    by (simp add: state_maps_def validate_maps_Ok set_collect_distinct implications_ok_def
        live_graph_def)
      (simp add: implies_pairs_def tags_pairs_def tag_ids_def ids_of_def image_image)
qed

lemma implications_ok_cong:
  assumes "implies_pairs E db' = implies_pairs E db" "tags_pairs E db' = tags_pairs E db"
  shows "implications_ok E db' \<longleftrightarrow> implications_ok E db"
proof -
  have rewrite: "implications_ok E x \<longleftrightarrow>
      (\<forall>(uid, implied)\<in>set (implies_pairs E x). set implied \<subseteq> fst ` set (implies_pairs E x)) \<and>
      acyclic (implies_rel (graph_from_pairs (implies_pairs E x))) \<and>
      (\<forall>(uid, tags)\<in>set (tags_pairs E x). closed_tags (graph_from_pairs (implies_pairs E x)) (set tags))"
    for x
    by (simp add: implications_ok_def live_graph_def)
      (simp add: implies_pairs_def tags_pairs_def tag_ids_def ids_of_def image_image)
  show ?thesis
    unfolding rewrite assms ..
qed

lemma commit_implications:
  assumes "commit_txn E now (tx, aff) = Ok db'"
  shows "implications_ok E db' \<longleftrightarrow> implications_ok E tx"
proof -
  obtain tx' seq where tx': "recompute_root_for_ids E now
      (affected_cards aff @ affected_tags aff @ affected_deleted aff) tx = Ok (tx', seq)"
    and db': "db' = stamp_affected aff seq tx'"
    using assms by (auto simp: commit_txn_def outcome_simps)
  from tx' have "tags_table tx' = tags_table tx" "cards_table tx' = cards_table tx"
    by (simp_all add: recompute_root_Ok Let_def)
  then show ?thesis
    by (intro implications_ok_cong)
      (simp_all add: implies_pairs_def tags_pairs_def db' stamp_affected_eq map_stamp_all)
qed

text \<open>Removing pairs from the implies map shrinks the relation.\<close>

lemma implies_of_live:
  assumes "tags_ok E (tags_table db)"
  shows "implies_of (live_graph E db) uid = (case tag_map E db uid of Some us \<Rightarrow> us | None \<Rightarrow> [])"
  using assms unfolding live_graph_def tag_map_def
  by (intro implies_of_from_pairs distinct_implies_pairs)

lemma implications_ok_delete_card:
  assumes "implications_ok E tx"
  shows "implications_ok E (tx\<lparr>card_versions := cv,
    cards_table := delete_rows col_card_id uid (cards_table tx), deleted_entities := dels\<rparr>)"
  using assms
  by (simp add: implications_ok_def live_graph_def implies_pairs_def tag_ids_def set_delete_rows)

lemma referencing_cards_eq:
  assumes "postcard_ok E" "cards_ok E (cards_table tx)"
  shows "referencing_cards E tx uid = Ok (map fst (filter (\<lambda>(_, tags). uid \<in> set tags) (tags_pairs E tx)))"
proof -
  have "map_ok (\<lambda>tags. (col_card_id (row_cols r), tags))
      (deserialize_tags E (col_tags (row_cols r))) =
      (Ok (col_card_id (row_cols r), row_tags E (row_cols r)) :: (storage_error, _) outcome)"
    if "r \<in> set (cards_table tx)" for r
  proof -
    from assms(2) that obtain c where "row_cols r = card_params E c"
      by (auto simp: cards_ok_def storable_card_def)
    with assms(1) show ?thesis by simp
  qed
  then have "collect_results (\<lambda>r. map_ok (\<lambda>tags. (col_card_id (row_cols r), tags))
      (deserialize_tags E (col_tags (row_cols r)))) (cards_table tx) =
      (Ok (tags_pairs E tx) :: (storage_error, _) outcome)"
    unfolding tags_pairs_def by (rule collect_results_all_Ok)
  then show ?thesis by (simp add: referencing_cards_def)
qed

lemma referencing_cards_none:
  assumes "postcard_ok E" "cards_ok E (cards_table tx)"
  shows "referencing_cards E tx uid = Ok [] \<longleftrightarrow>
    (\<forall>r\<in>set (cards_table tx). uid \<notin> set (row_tags E (row_cols r)))"
  unfolding referencing_cards_eq[OF assms] by (auto simp: filter_empty_conv tags_pairs_def)

lemma implying_tags_none:
  assumes "postcard_ok E" "tags_ok E (tags_table tx)"
  shows "implying_tags E tx uid = Ok [] \<longleftrightarrow>
    (\<forall>r\<in>set (tags_table tx). tcol_tag_id (row_cols r) \<noteq> uid \<longrightarrow> uid \<notin> set (row_implies E (row_cols r)))"
proof -
  let ?rows = "filter (\<lambda>r. tcol_tag_id (row_cols r) \<noteq> uid) (tags_table tx)"
  have "map_ok (\<lambda>implied. (tcol_tag_id (row_cols r), implied))
      (deserialize_implies E (tcol_implies (row_cols r))) =
      (Ok (tcol_tag_id (row_cols r), row_implies E (row_cols r)) :: (storage_error, _) outcome)"
    if "r \<in> set ?rows" for r
  proof -
    from assms(2) that obtain t where "row_cols r = tag_params E t"
      by (auto simp: tags_ok_def storable_tag_def)
    with assms(1) show ?thesis by simp
  qed
  then have "collect_results (\<lambda>r. map_ok (\<lambda>implied. (tcol_tag_id (row_cols r), implied))
      (deserialize_implies E (tcol_implies (row_cols r)))) ?rows =
      (Ok (map (\<lambda>r. (tcol_tag_id (row_cols r), row_implies E (row_cols r))) ?rows) :: (storage_error, _) outcome)"
    by (rule collect_results_all_Ok)
  then show ?thesis
    by (auto simp: implying_tags_def filter_empty_conv)
qed

lemma implications_ok_delete_tag:
  assumes pc: "postcard_ok E" and ok: "tables_ok E tx" and imp: "implications_ok E tx"
    and refs: "referencing_cards E tx uid = Ok []" "implying_tags E tx uid = Ok []"
    and tx': "tx' = tx\<lparr>tag_versions := tv, tags_table := delete_rows tcol_tag_id uid (tags_table tx),
      deleted_entities := dels\<rparr>"
  shows "implications_ok E tx'"
proof -
  have tags: "tags_ok E (tags_table tx)" "tags_ok E (tags_table tx')"
    using ok by (simp_all add: tables_ok_def tx' tags_ok_delete)
  have map': "tag_map E tx' = (tag_map E tx)(uid := None)"
    by (simp add: tx' tag_map_def implies_pairs_def map_of_delete_rows)
  have sub: "set (implies_of (live_graph E tx') a) \<subseteq> set (implies_of (live_graph E tx) a)" for a
    by (simp add: implies_of_live tags map')
  then have "implies_rel (live_graph E tx') \<subseteq> implies_rel (live_graph E tx)"
    by (auto simp: implies_rel_def)
  then have "acyclic (implies_rel (live_graph E tx'))"
    using imp by (auto simp: implications_ok_def intro: acyclic_subset)
  moreover have "closed_tags (live_graph E tx') S" if "closed_tags (live_graph E tx) S" for S
    using that sub by (fastforce simp: closed_tags_def)
  then have "\<forall>r\<in>set (cards_table tx'). closed_tags (live_graph E tx') (set (row_tags E (row_cols r)))"
    using imp by (simp add: implications_ok_def tx')
  moreover have "\<forall>r\<in>set (tags_table tx'). set (row_implies E (row_cols r)) \<subseteq> tag_ids tx'"
    using imp refs(2)[unfolded implying_tags_none[OF pc tags(1)]]
    by (auto simp: implications_ok_def tx' set_delete_rows tag_ids_def)
  ultimately show ?thesis
    by (simp add: implications_ok_def)
qed

lemma committed_implications:
  assumes pc: "postcard_ok E" and inv: "storage_inv E K db" and imp: "implications_ok E db"
    and ok: "\<forall>item\<in>set items. item_ok E K item" and com: "committed E now db items db'"
  shows "implications_ok E db'"
proof -
  from com obtain tx aff where run: "apply_items E 0 items (db, no_affected) = Ok (tx, aff)"
    and val: "validate_batch_implications E tx items = Ok () \<or>
      (\<exists>uid. items = [ItemDeleteCard uid] \<or> items = [ItemDeleteTag uid])"
    and commit: "commit_txn E now (tx, aff) = Ok db'"
    by (auto simp: committed_def)
  have db: "tables_ok E db"
    using inv by (simp add: storage_inv_def)
  have "txn_inv E K db (tx, aff)"
    using apply_items_txn [OF txn_inv_start ok run] inv by (simp add: storage_inv_def)
  then have tx: "tables_ok E tx"
    by (simp add: txn_inv_def)
  from val have "implications_ok E tx"
  proof (elim disjE exE)
    assume "validate_batch_implications E tx items = Ok ()"
    then show ?thesis
      by (simp add: validate_after_writes [OF pc tx run] validate_state_Ok [OF tx])
  next
    fix uid assume "items = [ItemDeleteCard uid]"
    with run show ?thesis
      by (auto simp: apply_item_def outcome_simps delete_card_inner_Ok implications_ok_delete_card imp)
  next
    fix uid assume "items = [ItemDeleteTag uid]"
    with run show ?thesis
      by (auto simp: apply_item_def outcome_simps delete_tag_inner_Ok
          intro: implications_ok_delete_tag [OF pc db imp])
  qed
  then show ?thesis
    by (simp add: commit_implications [OF commit])
qed

lemma implications_ok_empty: "implications_ok E empty_db"
  by (simp add: implications_ok_def empty_db_def live_graph_def implies_pairs_def acyclic_def
      implies_rel_def implies_of_def graph_from_pairs_def bt_collect_def)

lemma handle_request_implications:
  assumes "postcard_ok E" "storage_inv E K db" "implications_ok E db" "request_ok E K req"
    and "handle_request E now db req = (result, db')"
  shows "implications_ok E db'"
  using assms(5)
proof (cases rule: handle_request_cases)
  case committed
  then show ?thesis
    using committed_implications [OF assms(1-3) _ committed(2)] assms(4) by (simp add: request_ok_def)
qed (use assms in simp)

lemma reachable_implications:
  "postcard_ok E \<Longrightarrow> reachable E K db \<Longrightarrow> implications_ok E db"
  by (rotate_tac, induction rule: reachable.induct)
    (auto simp: implications_ok_empty dest: reachable_inv handle_request_implications)

end
