(* ===== verification/Storage_Reads.thy ===== *)
theory Storage_Reads
  imports Storage_Implications
begin

text \<open>
  Incremental synchronisation on the server side. The locale \<open>change_log\<close> states what a table with
  sequence stamps and a table of deletions owe to a reader that holds an old state: the rows stamped
  since then and the ids deleted since then are all it needs. It is interpreted on the cards and on
  the tags of the storage.
\<close>

section \<open>The contract of a change log\<close>

locale change_log =
  fixes idf :: "'c \<Rightarrow> uuid"
    and live :: "'s \<Rightarrow> 'c entity_row list"
    and dels :: "'s \<Rightarrow> deleted_entity entity_row list"
    and seq :: "'s \<Rightarrow> int"
    and inv :: "'s \<Rightarrow> bool"
    and step :: "'s \<Rightarrow> 's \<Rightarrow> bool"
  assumes inv_keyed: "inv d \<Longrightarrow> keyed idf (live d)"
    and inv_stamped: "inv d \<Longrightarrow> stamped (seq d) (live d)"
    and inv_stamped_dels: "inv d \<Longrightarrow> stamped (seq d) (dels d)"
    and inv_disjoint: "inv d \<Longrightarrow> ids_of idf (live d) \<inter> ids_of deleted_id (dels d) = {}"
    and step_inv: "inv d \<Longrightarrow> step d d' \<Longrightarrow> inv d'"
    and step_seq: "step d d' \<Longrightarrow> seq d' = seq d + 1"
    and step_live: "step d d' \<Longrightarrow> live_step idf (seq d + 1) (live d) (live d') (dels d')"
    and step_dels: "step d d' \<Longrightarrow> set (dels d) \<subseteq> set (dels d')"
begin

definition entry :: "'s \<Rightarrow> uuid \<Rightarrow> 'c option" where
  "entry d uid = map_option row_cols (find_row idf uid (live d))"

definition changed_since :: "int \<Rightarrow> 's \<Rightarrow> 'c list" where
  "changed_since s d = map row_cols (filter (\<lambda>r. s < row_seq r) (live d))"

definition deleted_since :: "int \<Rightarrow> 's \<Rightarrow> uuid set" where
  "deleted_since s d = ids_of deleted_id (filter (\<lambda>r. s < row_seq r) (dels d))"

lemma entry_Some: "inv d \<Longrightarrow> entry d uid = Some c \<longleftrightarrow>
    (\<exists>r\<in>set (live d). row_cols r = c \<and> idf c = uid)"
  unfolding entry_def by (auto dest: find_row_Some simp: find_row_keyed inv_keyed)

lemma entry_None: "entry d uid = None \<longleftrightarrow> uid \<notin> ids_of idf (live d)"
  by (simp add: entry_def find_row_None_iff)

lemma deleted_since_mono:
  "set (dels d) \<subseteq> set (dels d') \<Longrightarrow> deleted_since s d \<subseteq> deleted_since s d'"
  by (auto simp: deleted_since_def ids_of_def)

text \<open>Between two states of a run: an old row is unchanged, a lost id is recorded.\<close>

lemma run_facts:
  assumes "step\<^sup>*\<^sup>* d d'" "inv d"
  shows "inv d' \<and> seq d \<le> seq d' \<and>
    (\<forall>r\<in>set (live d'). row_seq r \<le> seq d \<longrightarrow> r \<in> set (live d)) \<and>
    (\<forall>uid\<in>ids_of idf (live d) - ids_of idf (live d'). uid \<in> deleted_since (seq d) d')"
  using assms
proof (induction rule: rtranclp_induct)
  case base
  then show ?case by simp
next
  case (step e e')
  have e: "inv e" "seq d \<le> seq e"
    and old: "\<forall>r\<in>set (live e). row_seq r \<le> seq d \<longrightarrow> r \<in> set (live d)"
    and lost: "\<forall>uid\<in>ids_of idf (live d) - ids_of idf (live e). uid \<in> deleted_since (seq d) e"
    using step.IH [OF step.prems] by blast+
  have e': "inv e'" "seq d \<le> seq e'"
    using step_inv [OF e(1) step.hyps(2)] step_seq [OF step.hyps(2)] e(2) by simp_all
  note live = step_live [OF step.hyps(2), unfolded live_step_def]
  have "uid \<in> deleted_since (seq d) e'" if "uid \<in> ids_of idf (live d) - ids_of idf (live e')" for uid
  proof (cases "uid \<in> ids_of idf (live e)")
    case True
    with that have "uid \<in> ids_of idf (live e) - ids_of idf (live e')" by simp
    then obtain r where "r \<in> set (dels e')" "deleted_id (row_cols r) = uid" "row_seq r = seq e + 1"
      using bspec [OF conjunct2 [OF live]] by meson
    then have "r \<in> set (filter (\<lambda>r. seq d < row_seq r) (dels e'))"
      using e(2) by simp
    then show ?thesis
      unfolding deleted_since_def ids_of_def using \<open>deleted_id (row_cols r) = uid\<close> by blast
  next
    case False
    with that have "uid \<in> deleted_since (seq d) e"
      using lost by simp
    then show ?thesis
      by (rule deleted_since_mono [OF step_dels [OF step.hyps(2)], THEN subsetD])
  qed
  moreover have "r \<in> set (live d)" if "r \<in> set (live e')" "row_seq r \<le> seq d" for r
  proof -
    have "row_seq r \<noteq> seq e + 1"
      using that(2) e(2) by simp
    then have "r \<in> set (live e)"
      using bspec [OF conjunct1 [OF live] that(1)] by simp
    then show ?thesis
      using old that(2) by simp
  qed
  ultimately show ?case
    using e' by blast
qed

text \<open>
  The reader's merge: drop the ids deleted since, then put in the rows changed since. It gives the
  new state from the old one.
\<close>

definition merged :: "'s \<Rightarrow> 's \<Rightarrow> uuid \<Rightarrow> 'c option" where
  "merged d d' uid =
     (if \<exists>c\<in>set (changed_since (seq d) d'). idf c = uid
      then Some (THE c. c \<in> set (changed_since (seq d) d') \<and> idf c = uid)
      else if uid \<in> deleted_since (seq d) d' then None else entry d uid)"

lemma changed_since_unique:
  assumes "inv d'" "c \<in> set (changed_since s d')"
  shows "entry d' (idf c) = Some c"
  using assms by (auto simp: entry_Some changed_since_def)

lemma deleted_since_not_live:
  assumes "inv d'" "uid \<in> deleted_since s d'"
  shows "entry d' uid = None"
proof -
  have "uid \<in> ids_of deleted_id (dels d')"
    using assms(2) by (auto simp: deleted_since_def ids_of_def)
  then show ?thesis
    using inv_disjoint [OF assms(1)] by (auto simp: entry_None)
qed

lemma unchanged_entry:
  assumes run: "step\<^sup>*\<^sup>* d d'" and inv: "inv d"
    and new: "\<forall>c\<in>set (changed_since (seq d) d'). idf c \<noteq> uid" and "uid \<notin> deleted_since (seq d) d'"
  shows "entry d' uid = entry d uid"
proof -
  note facts = run_facts [OF run inv]
  show ?thesis
  proof (cases "entry d' uid")
    case None
    then show ?thesis
      using facts assms(4) by (metis Diff_iff entry_None)
  next
    case (Some c)
    then obtain r where r: "r \<in> set (live d')" "row_cols r = c" "idf c = uid"
      using facts by (auto simp: entry_Some)
    then have "row_seq r \<le> seq d"
      using new by (force simp: changed_since_def)
    then have "r \<in> set (live d)"
      using facts r by blast
    with r have "entry d uid = Some c"
      using entry_Some [OF inv] by blast
    with Some show ?thesis by simp
  qed
qed

lemma merged_is_current:
  assumes run: "step\<^sup>*\<^sup>* d d'" and inv: "inv d"
  shows "merged d d' uid = entry d' uid"
proof (cases "\<exists>c\<in>set (changed_since (seq d) d'). idf c = uid")
  case True
  have inv': "inv d'"
    using run_facts [OF run inv] by blast
  from True obtain c where c: "c \<in> set (changed_since (seq d) d')" "idf c = uid" by blast
  then have "entry d' uid = Some c"
    using changed_since_unique [OF inv'] by blast
  moreover have "(THE c. c \<in> set (changed_since (seq d) d') \<and> idf c = uid) = c"
    using c changed_since_unique [OF inv'] by (intro the_equality) (auto, metis option.inject)
  ultimately show ?thesis
    using True by (simp add: merged_def)
next
  case False
  then show ?thesis
    using unchanged_entry [OF run inv, of uid] deleted_since_not_live [of d' uid]
      run_facts [OF run inv]
    by (auto simp: merged_def)
qed

end

section \<open>The storage as a change log\<close>

definition inv_step :: "ext \<Rightarrow> uuid set \<Rightarrow> db \<Rightarrow> db \<Rightarrow> bool" where
  "inv_step E K d d' \<longleftrightarrow> storage_inv E K d' \<and> db_step d d'"

interpretation card_log: change_log col_card_id cards_table deleted_entities db_sequence
  "storage_inv E K" "inv_step E K" for E K
  by unfold_locales
    (auto simp: storage_inv_def tables_ok_def cards_ok_def kinds_ok_def card_ids_def deleted_ids_def
      inv_step_def db_step_def Let_def)

interpretation tag_log: change_log tcol_tag_id tags_table deleted_entities db_sequence
  "storage_inv E K" "inv_step E K" for E K
  by unfold_locales
    (auto simp: storage_inv_def tables_ok_def tags_ok_def kinds_ok_def tag_ids_def deleted_ids_def
      inv_step_def db_step_def Let_def)

text \<open>A run of requests is a run of the log.\<close>

inductive run :: "ext \<Rightarrow> uuid set \<Rightarrow> db \<Rightarrow> db \<Rightarrow> bool" for E K where
  run_refl: "run E K db db"
| run_request: "run E K db db1 \<Longrightarrow> request_ok E K req \<Longrightarrow>
    handle_request E now db1 req = (result, db2) \<Longrightarrow> run E K db db2"

lemma run_steps: "run E K d d' \<Longrightarrow> storage_inv E K d \<Longrightarrow> (inv_step E K)\<^sup>*\<^sup>* d d' \<and> storage_inv E K d'"
proof (induction rule: run.induct)
  case (run_request db db1 req now result db2)
  then have steps: "(inv_step E K)\<^sup>*\<^sup>* db db1" "storage_inv E K db1"
    by auto
  from handle_request_inv [OF steps(2) run_request.hyps(2,3)]
  have "storage_inv E K db2" "db2 = db1 \<or> inv_step E K db1 db2"
    by (auto simp: inv_step_def)
  with steps show ?case
    by (auto intro: rtranclp.rtrancl_into_rtrancl)
qed simp

lemma reachable_run: "reachable E K db \<Longrightarrow> run E K db db' \<Longrightarrow> reachable E K db'"
  by (rotate_tac, induction rule: run.induct) (auto intro: reachable_request)

text \<open>
  The reads on a state that satisfies the invariant: every stored row decodes and verifies, so no
  read fails or panics, and each returns what the tables hold.
\<close>

section \<open>Decoding rows\<close>

definition card_of :: "ext \<Rightarrow> card_cols \<Rightarrow> card" where
  "card_of E cols = (case card_from_row E cols of Ok c \<Rightarrow> c)"

definition tag_of :: "ext \<Rightarrow> tag_cols \<Rightarrow> tag" where
  "tag_of E cols = (case tag_from_row E cols of Ok t \<Rightarrow> t)"

lemma storable_card_decodes:
  assumes "postcard_ok E" "storable_card E cols"
  shows "card_from_row E cols = Ok (card_of E cols)" "card_params E (card_of E cols) = cols"
    "card_typed E (card_of E cols)" "card_verify (blake3 E) (card_of E cols)"
  using assms by (auto simp: storable_card_def card_of_def card_from_row_params)

lemma storable_tag_decodes:
  assumes "postcard_ok E" "storable_tag E cols"
  shows "tag_from_row E cols = Ok (tag_of E cols)" "tag_params E (tag_of E cols) = cols"
    "tag_typed E (tag_of E cols)" "tag_verify (blake3 E) (tag_of E cols)"
    "sorted_wrt (<) (tag_implies (tag_of E cols))"
  using assms by (auto simp: storable_tag_def tag_of_def tag_from_row_params)

lemma card_of_fields:
  assumes "postcard_ok E" "storable_card E cols"
  shows "card_id (card_of E cols) = col_card_id cols" "card_priority (card_of E cols) = col_priority cols"
    "card_hash (card_of E cols) = col_hash cols" "card_blazed (card_of E cols) = col_blazed cols"
    "card_tags (card_of E cols) = row_tags E cols" "i64_from_nn (card_count (card_of E cols)) = col_count cols"
  using storable_card_decodes(2) [OF assms] card_params_simps [of E "card_of E cols"]
    row_tags_params [OF assms(1), of "card_of E cols"]
  by simp_all

lemma tag_of_fields:
  assumes "postcard_ok E" "storable_tag E cols"
  shows "tag_id (tag_of E cols) = tcol_tag_id cols" "tag_hash (tag_of E cols) = tcol_hash cols"
    "tag_implies (tag_of E cols) = row_implies E cols" "tag_title (tag_of E cols) = tcol_title cols"
    "i64_from_nn (tag_count (tag_of E cols)) = tcol_count cols"
  using storable_tag_decodes(2) [OF assms] tag_params_simps [of E "tag_of E cols"]
    row_implies_params [OF assms(1), of "tag_of E cols"]
  by simp_all

lemma collect_cards:
  assumes "postcard_ok E" "\<forall>r\<in>set rows. storable_card E (f r)"
  shows "collect_results (\<lambda>r. card_from_row E (f r)) rows = Ok (map (\<lambda>r. card_of E (f r)) rows)"
  using assms by (intro collect_results_all_Ok) (simp add: storable_card_decodes)

lemma collect_tags:
  assumes "postcard_ok E" "\<forall>r\<in>set rows. storable_tag E (f r)"
  shows "collect_results (\<lambda>r. tag_from_row E (f r)) rows = Ok (map (\<lambda>r. tag_of E (f r)) rows)"
  using assms by (intro collect_results_all_Ok) (simp add: storable_tag_decodes)

lemma storage_inv_rows:
  assumes "storage_inv E K db"
  shows "r \<in> set (cards_table db) \<Longrightarrow> storable_card E (row_cols r)"
    "t \<in> set (tags_table db) \<Longrightarrow> storable_tag E (row_cols t)"
  using assms by (auto simp: storage_inv_def tables_ok_def cards_ok_def tags_ok_def)

lemma set_limit_rows: "set (limit_rows limit rows) \<subseteq> set rows"
  by (auto simp: limit_rows_def dest: in_set_takeD split: option.splits)

lemma sql_result_Ok [simp]: "sql_result (Ok x) = Ok x"
  by (simp add: sql_result_def)

section \<open>What the reads return\<close>

lemma list_cards_result:
  assumes "postcard_ok E" "storage_inv E K db"
  shows "storage_list_cards E db flt limit =
    Ok (map (\<lambda>r. card_of E (row_cols r)) (limit_rows limit (sort_key (\<lambda>r. - col_priority (row_cols r))
      (filter (\<lambda>r. filter_matches flt (col_blazed (row_cols r))) (cards_table db)))))"
  unfolding storage_list_cards_def
  by (subst collect_cards [OF assms(1)])
    (use set_limit_rows storage_inv_rows(1) [OF assms(2)] in \<open>fastforce+\<close>)

lemma list_tags_result:
  assumes "postcard_ok E" "storage_inv E K db"
  shows "storage_list_tags E db =
    Ok (map (\<lambda>r. tag_of E (row_cols r)) (sort_key (\<lambda>r. tcol_title (row_cols r)) (tags_table db)))"
  unfolding storage_list_tags_def
  by (subst collect_tags [OF assms(1)]) (use storage_inv_rows(2) [OF assms(2)] in auto)

lemma get_card_result:
  assumes "postcard_ok E" "storage_inv E K db"
  shows "storage_get_card E db uid = Ok (map_option (card_of E) (card_log.entry db uid))"
proof (cases "find_row col_card_id uid (cards_table db)")
  case (Some r)
  then have "storable_card E (row_cols r)"
    using find_row_Some storage_inv_rows(1) [OF assms(2)] by blast
  with Some show ?thesis
    by (simp add: storage_get_card_def card_log.entry_def storable_card_decodes [OF assms(1)])
qed (simp add: storage_get_card_def card_log.entry_def)

lemma get_tag_result:
  assumes "postcard_ok E" "storage_inv E K db"
  shows "storage_get_tag E db uid = Ok (map_option (tag_of E) (tag_log.entry db uid))"
proof (cases "find_row tcol_tag_id uid (tags_table db)")
  case (Some r)
  then have "storable_tag E (row_cols r)"
    using find_row_Some storage_inv_rows(2) [OF assms(2)] by blast
  with Some show ?thesis
    by (simp add: storage_get_tag_def tag_log.entry_def storable_tag_decodes [OF assms(1)])
qed (simp add: storage_get_tag_def tag_log.entry_def)

definition current_root :: "db \<Rightarrow> root_state" where
  "current_root db = \<lparr>root_hash = db_root_hash db, root_sequence = NonNegativeI64 (db_sequence db)\<rparr>"

lemma get_root_result: "storage_inv E K db \<Longrightarrow> storage_get_root db = Ok (current_root db)"
  by (simp add: storage_get_root_def read_root_state_def current_root_def read_count_def
      nn_try_from_i64_def storage_inv_def root_ok_def)

lemma read_root_result: "storage_inv E K db \<Longrightarrow> read_root_state db = Ok (current_root db)"
  using get_root_result by (simp add: storage_get_root_def)

text \<open>Incremental changes, when the claimed hash is the one recorded at the claimed sequence.\<close>

definition changes_of :: "ext \<Rightarrow> int \<Rightarrow> db \<Rightarrow> change_set" where
  "changes_of E since db =
     \<lparr>cs_cards = map (card_of E) (card_log.changed_since since db),
      cs_tags = map (tag_of E) (tag_log.changed_since since db),
      cs_deleted = map row_cols (filter (\<lambda>r. since < row_seq r) (deleted_entities db)),
      cs_root = current_root db\<rparr>"

lemma changes_since_result:
  assumes "postcard_ok E" "storage_inv E K db"
  shows "storage_get_changes_since E db sequence expected_hash =
    (case stored_root_hash db (i64_from_nn sequence) of
       Some h \<Rightarrow>
         if h \<noteq> expected_hash then Err (storage_error.RootHashMismatch sequence h)
         else Ok (changes_of E (i64_from_nn sequence) db)
     | None \<Rightarrow> Ok (changes_of E (i64_from_nn sequence) db))"
proof -
  have "collect_results (\<lambda>r. card_from_row E (row_cols r)) (filter (\<lambda>r. s < row_seq r) (cards_table db)) =
      Ok (map (card_of E) (card_log.changed_since s db))" for s
    by (subst collect_cards [OF assms(1)])
      (use storage_inv_rows(1) [OF assms(2)] in \<open>auto simp: card_log.changed_since_def\<close>)
  moreover have "collect_results (\<lambda>r. tag_from_row E (row_cols r)) (filter (\<lambda>r. s < row_seq r) (tags_table db)) =
      Ok (map (tag_of E) (tag_log.changed_since s db))" for s
    by (subst collect_tags [OF assms(1)])
      (use storage_inv_rows(2) [OF assms(2)] in \<open>auto simp: tag_log.changed_since_def\<close>)
  ultimately show ?thesis
    by (simp add: storage_get_changes_since_def Let_def changes_of_def read_root_result [OF assms(2)]
        split: option.split)
qed

section \<open>The root history of a run\<close>

text \<open>The hash recorded for a sequence never changes.\<close>

lemma find_append:
  "find P (xs @ ys) = (case find P xs of Some x \<Rightarrow> Some x | None \<Rightarrow> find P ys)"
  by (induction xs) auto

lemma stored_hash_step:
  assumes "db_step d d'" "storage_inv E K d" "s \<le> db_sequence d"
  shows "stored_root_hash d' s = stored_root_hash d s"
proof -
  obtain now where hist: "root_history d' = root_history d @
      [\<lparr>hist_sequence = db_sequence d + 1, hist_hash = db_root_hash d', hist_created_at = now\<rparr>]"
    using assms(1) by (auto simp: db_step_def Let_def)
  have "find (\<lambda>r. hist_sequence r = s) (root_history d') = find (\<lambda>r. hist_sequence r = s) (root_history d)"
    using assms(3) by (cases "find (\<lambda>r. hist_sequence r = s) (root_history d)")
      (auto simp: hist find_append split: option.splits)
  then show ?thesis
    by (simp add: stored_root_hash_def)
qed

lemma stored_hash_run:
  assumes "(inv_step E K)\<^sup>*\<^sup>* d d'" "storage_inv E K d" "s \<le> db_sequence d"
  shows "stored_root_hash d' s = stored_root_hash d s \<and> storage_inv E K d' \<and> db_sequence d \<le> db_sequence d'"
  using assms
proof (induction rule: rtranclp_induct)
  case (step e e')
  then show ?case
    using stored_hash_step [of e e' E K s] by (auto simp: inv_step_def db_step_def Let_def)
qed simp

lemma stored_hash_current:
  assumes "storage_inv E K d" "0 < db_sequence d"
  shows "stored_root_hash d (db_sequence d) = Some (db_root_hash d)"
proof -
  from assms have seqs: "map hist_sequence (root_history d) = [1..db_sequence d]"
    and last_hash: "root_history d \<noteq> [] \<Longrightarrow> hist_hash (last (root_history d)) = db_root_hash d"
    by (auto simp: storage_inv_def root_ok_def)
  have "[1..db_sequence d] = [1..db_sequence d - 1] @ [db_sequence d]"
    using assms(2) by (simp add: upto_rec2)
  then obtain hs h where hist: "root_history d = hs @ [h]"
    using seqs by (cases "root_history d" rule: rev_cases) auto
  with seqs have hs: "map hist_sequence hs = [1..db_sequence d - 1]"
    and h: "hist_sequence h = db_sequence d"
    using \<open>[1..db_sequence d] = [1..db_sequence d - 1] @ [db_sequence d]\<close> by simp_all
  have "db_sequence d \<notin> set (map hist_sequence hs)"
    unfolding hs by simp
  then have "find (\<lambda>r. hist_sequence r = db_sequence d) hs = None"
    by (force simp: find_None_iff)
  then have "find (\<lambda>r. hist_sequence r = db_sequence d) (root_history d) = Some h"
    using h by (simp add: hist find_append)
  then show ?thesis
    using last_hash by (simp add: stored_root_hash_def hist)
qed

lemma stored_hash_zero: "storage_inv E K d \<Longrightarrow> stored_root_hash d 0 = None"
proof -
  assume "storage_inv E K d"
  then have "set (map hist_sequence (root_history d)) = {1..db_sequence d}"
    unfolding storage_inv_def root_ok_def by (metis set_upto)
  then have "0 \<notin> hist_sequence ` set (root_history d)"
    by simp
  then show ?thesis
    by (force simp: stored_root_hash_def find_None_iff)
qed

text \<open>A client that presents the root it read at \<open>d\<close> is served the changes since then.\<close>

lemma changes_since_root:
  assumes "postcard_ok E" "storage_inv E K d" "(inv_step E K)\<^sup>*\<^sup>* d d'"
  shows "storage_get_changes_since E d' (root_sequence (current_root d)) (root_hash (current_root d)) =
    Ok (changes_of E (db_sequence d) d')"
proof -
  have inv': "storage_inv E K d'" and hash: "stored_root_hash d' (db_sequence d) = stored_root_hash d (db_sequence d)"
    using stored_hash_run [OF assms(3,2) order_refl] by auto
  have "0 \<le> db_sequence d"
    using assms(2) by (simp add: storage_inv_def root_ok_def)
  then have "stored_root_hash d (db_sequence d) = None \<or>
      stored_root_hash d (db_sequence d) = Some (db_root_hash d)"
    using stored_hash_current [OF assms(2)] stored_hash_zero [OF assms(2)] by (cases "db_sequence d = 0") auto
  then show ?thesis
    using hash by (auto simp: changes_since_result [OF assms(1) inv'] current_root_def i64_from_nn_def)
qed

end
