(* ===== verification/Client_Sync.thy ===== *)
theory Client_Sync
  imports Storage_Reads
begin

text \<open>
  The client's side of incremental synchronisation (clients/lib/src/sync.rs): merging a change set
  into the local cards and tags, and filtering the offline queue. The merges run on an \<open>IndexMap\<close>
  of the crate indexmap, which is a parameter: a record of the operations used, with the documented
  laws of the crate as the hypothesis \<open>index_map_ok\<close>.
\<close>

section \<open>The insertion-ordered map\<close>

record ('v, 'm) index_map =
  im_collect :: "(uuid \<times> 'v) list \<Rightarrow> 'm"
  im_get :: "'m \<Rightarrow> uuid \<Rightarrow> 'v option"
  im_swap_remove :: "uuid \<Rightarrow> 'm \<Rightarrow> 'm"
  im_insert :: "uuid \<Rightarrow> 'v \<Rightarrow> 'm \<Rightarrow> 'm"
  im_sort_by :: "('v \<Rightarrow> 'v \<Rightarrow> bool) \<Rightarrow> 'm \<Rightarrow> 'm"
  im_into_values :: "'m \<Rightarrow> 'v list"

text \<open>
  Collecting keeps the last value of a key; the values are those of the keys, each once; sorting
  permutes the entries into the order of the comparison, which is given as its \<open>\<le>\<close>.
\<close>

definition index_map_ok :: "('v, 'm) index_map \<Rightarrow> bool" where
  "index_map_ok IM \<longleftrightarrow>
     (\<forall>ps. im_get IM (im_collect IM ps) = map_of (rev ps)) \<and>
     (\<forall>k m. im_get IM (im_swap_remove IM k m) = (im_get IM m)(k := None)) \<and>
     (\<forall>k v m. im_get IM (im_insert IM k v m) = (im_get IM m)(k \<mapsto> v)) \<and>
     (\<forall>le m. im_get IM (im_sort_by IM le m) = im_get IM m) \<and>
     (\<forall>m. \<exists>ks. distinct ks \<and> set ks = dom (im_get IM m) \<and>
        im_into_values IM m = map (\<lambda>k. the (im_get IM m k)) ks) \<and>
     (\<forall>le m. (\<forall>a b. le a b \<or> le b a) \<longrightarrow> (\<forall>a b c. le a b \<longrightarrow> le b c \<longrightarrow> le a c) \<longrightarrow>
        sorted_wrt le (im_into_values IM (im_sort_by IM le m)))"

section \<open>sync.rs\<close>

definition apply_card_changeset ::
  "(card, 'm) index_map \<Rightarrow> card list \<Rightarrow> change_set \<Rightarrow> card list" where
  "apply_card_changeset IM current_cards changes =
     (let cards = im_collect IM (map (\<lambda>c. (card_id c, c)) current_cards);
          cards = fold (\<lambda>deleted. im_swap_remove IM (deleted_id deleted)) (cs_deleted changes) cards;
          cards = fold (\<lambda>card. im_insert IM (card_id card) card) (cs_cards changes) cards;
          cards = im_sort_by IM (\<lambda>a b. card_priority b \<le> card_priority a) cards
      in im_into_values IM cards)"

definition apply_tag_changeset :: "(tag, 'm) index_map \<Rightarrow> tag list \<Rightarrow> change_set \<Rightarrow> tag list" where
  "apply_tag_changeset IM current_tags changes =
     (let tags = im_collect IM (map (\<lambda>t. (tag_id t, t)) current_tags);
          tags = fold (\<lambda>deleted. im_swap_remove IM (deleted_id deleted)) (cs_deleted changes) tags;
          tags = fold (\<lambda>tag. im_insert IM (tag_id tag) tag) (cs_tags changes) tags
      in im_into_values IM tags)"

definition reconcile_offline_queue :: "card list \<Rightarrow> card list \<Rightarrow> card list" where
  "reconcile_offline_queue queue local_cards =
     filter (\<lambda>queued.
         if card_ancestor_hash queued = ZERO_HASH then True
         else \<not> list_ex (\<lambda>lc. card_id lc = card_id queued \<and> card_count queued < card_count lc)
           local_cards)
       queue"

section \<open>The merge, whatever the entities\<close>

lemma index_map_laws:
  assumes "index_map_ok IM"
  shows "im_get IM (im_collect IM ps) = map_of (rev ps)"
    "im_get IM (im_swap_remove IM k m) = (im_get IM m)(k := None)"
    "im_get IM (im_insert IM k v m) = (im_get IM m)(k \<mapsto> v)"
    "im_get IM (im_sort_by IM le m) = im_get IM m"
    "\<exists>ks. distinct ks \<and> set ks = dom (im_get IM m) \<and>
       im_into_values IM m = map (\<lambda>k. the (im_get IM m k)) ks"
    "(\<forall>a b. le a b \<or> le b a) \<Longrightarrow> (\<forall>a b c. le a b \<longrightarrow> le b c \<longrightarrow> le a c) \<Longrightarrow>
       sorted_wrt le (im_into_values IM (im_sort_by IM le m))"
proof -
  note laws = assms [unfolded index_map_ok_def]
  show "im_get IM (im_collect IM ps) = map_of (rev ps)"
    by (rule laws [THEN conjunct1, THEN spec])
  show "im_get IM (im_swap_remove IM k m) = (im_get IM m)(k := None)"
    by (rule laws [THEN conjunct2, THEN conjunct1, THEN spec, THEN spec])
  note laws = laws [THEN conjunct2, THEN conjunct2]
  show "im_get IM (im_insert IM k v m) = (im_get IM m)(k \<mapsto> v)"
    by (rule laws [THEN conjunct1, THEN spec, THEN spec, THEN spec])
  show "im_get IM (im_sort_by IM le m) = im_get IM m"
    by (rule laws [THEN conjunct2, THEN conjunct1, THEN spec, THEN spec])
  note laws = laws [THEN conjunct2, THEN conjunct2]
  show "\<exists>ks. distinct ks \<and> set ks = dom (im_get IM m) \<and>
      im_into_values IM m = map (\<lambda>k. the (im_get IM m k)) ks"
    by (rule laws [THEN conjunct1, THEN spec])
  show "(\<forall>a b. le a b \<or> le b a) \<Longrightarrow> (\<forall>a b c. le a b \<longrightarrow> le b c \<longrightarrow> le a c) \<Longrightarrow>
      sorted_wrt le (im_into_values IM (im_sort_by IM le m))"
    using laws [THEN conjunct2, THEN spec, THEN spec, of le m] by iprover
qed

lemma im_get_deletes:
  assumes "index_map_ok IM"
  shows "im_get IM (fold (\<lambda>d. im_swap_remove IM (f d)) ds m) =
    (\<lambda>k. if k \<in> f ` set ds then None else im_get IM m k)"
  by (induction ds arbitrary: m) (auto simp: index_map_laws(2) [OF assms] fun_eq_iff)

lemma im_get_inserts:
  assumes "index_map_ok IM" and "\<forall>x\<in>set xs. g (f x) = Some x"
  shows "im_get IM (fold (\<lambda>x. im_insert IM (f x) x) xs m) =
    (\<lambda>k. if k \<in> f ` set xs then g k else im_get IM m k)"
  using assms(2)
proof (induction xs arbitrary: m)
  case (Cons x xs)
  note law = index_map_laws(3) [OF assms(1)]
  from Cons show ?case
    by (simp add: law Cons.IH) (rule ext, simp add: law)
qed simp

lemma im_values:
  assumes "index_map_ok IM" and "im_get IM m = g" and "\<And>k v. g k = Some v \<Longrightarrow> f v = k"
  shows "set (im_into_values IM m) = ran g" "distinct (map f (im_into_values IM m))"
proof -
  obtain ks where ks: "distinct ks" "set ks = dom g" "im_into_values IM m = map (\<lambda>k. the (g k)) ks"
    using index_map_laws(5) [OF assms(1), of m] unfolding assms(2) by blast
  show "set (im_into_values IM m) = ran g"
    unfolding ks(3) by (force simp: ran_def ks(2))
  have "map f (im_into_values IM m) = ks"
    unfolding ks(3) map_map by (rule map_idI) (use ks(2) assms(3) in auto)
  then show "distinct (map f (im_into_values IM m))"
    using ks(1) by simp
qed

text \<open>
  The merge of a snapshot of the entries \<open>g\<close> with the rows changed and the ids deleted since then
  gives the current entries \<open>g'\<close>, when the two sets say so.
\<close>

lemma merge_entries:
  assumes im: "index_map_ok IM" and base: "im_get IM m = g"
    and changed: "\<forall>x\<in>set xs. g' (f x) = Some x"
    and gone: "\<And>k. k \<in> dels \<Longrightarrow> g' k = None" "dels = df ` set ds"
    and kept: "\<And>k. k \<notin> f ` set xs \<Longrightarrow> k \<notin> dels \<Longrightarrow> g' k = g k"
  shows "im_get IM (fold (\<lambda>x. im_insert IM (f x) x) xs (fold (\<lambda>d. im_swap_remove IM (df d)) ds m)) = g'"
  unfolding im_get_inserts [where g = g' and f = f, OF im changed] im_get_deletes [where f = df, OF im] base gone(2) [symmetric]
proof
  fix k
  show "(if k \<in> f ` set xs then g' k else if k \<in> dels then None else g k) = g' k"
    using gone(1) [of k] kept [of k] by presburger
qed

lemma option_eqI: "(\<And>x. a = Some x \<longleftrightarrow> b = Some x) \<Longrightarrow> a = b"
  by (cases a; cases b) auto

lemma im_collect_entries:
  assumes im: "index_map_ok IM" and keys: "distinct (map f xs)" and vals: "set xs = ran g"
    and ids: "\<And>k x. g k = Some x \<Longrightarrow> f x = k"
  shows "im_get IM (im_collect IM (map (\<lambda>x. (f x, x)) xs)) = g"
proof
  fix k
  have fst: "distinct (map fst (map (\<lambda>x. (f x, x)) xs))"
    using keys by (simp add: comp_def)
  have entry: "map_of (map (\<lambda>x. (f x, x)) xs) k = Some x \<longleftrightarrow> g k = Some x" for x
  proof -
    have "map_of (map (\<lambda>x. (f x, x)) xs) k = Some x \<longleftrightarrow> (k, x) \<in> set (map (\<lambda>x. (f x, x)) xs)"
      by (rule map_of_eq_Some_iff [OF fst])
    also have "\<dots> \<longleftrightarrow> x \<in> ran g \<and> f x = k"
      unfolding vals [symmetric] set_map image_iff by blast
    also have "\<dots> \<longleftrightarrow> g k = Some x"
      unfolding ran_def using ids by blast
    finally show ?thesis .
  qed
  have "im_get IM (im_collect IM (map (\<lambda>x. (f x, x)) xs)) k = map_of (map (\<lambda>x. (f x, x)) xs) k"
    unfolding index_map_laws(1) [OF im] map_of_rev_same [OF fst] by (rule refl)
  also have "\<dots> = g k"
    by (rule option_eqI) (rule entry)
  finally show "im_get IM (im_collect IM (map (\<lambda>x. (f x, x)) xs)) k = g k" .
qed

section \<open>Cards\<close>

definition card_entries :: "ext \<Rightarrow> db \<Rightarrow> uuid \<Rightarrow> card option" where
  "card_entries E db uid = map_option (card_of E) (card_log.entry db uid)"

definition tag_entries :: "ext \<Rightarrow> db \<Rightarrow> uuid \<Rightarrow> tag option" where
  "tag_entries E db uid = map_option (tag_of E) (tag_log.entry db uid)"

lemma card_entries_id:
  assumes "postcard_ok E" "storage_inv E K db" "card_entries E db uid = Some c"
  shows "card_id c = uid"
  using assms storage_inv_rows(1) [OF assms(2)]
  by (auto simp: card_entries_def card_log.entry_Some card_of_fields)

lemma tag_entries_id:
  assumes "postcard_ok E" "storage_inv E K db" "tag_entries E db uid = Some t"
  shows "tag_id t = uid"
  using assms storage_inv_rows(2) [OF assms(2)]
  by (auto simp: tag_entries_def tag_log.entry_Some tag_of_fields)

lemma ran_card_entries:
  assumes "postcard_ok E" "storage_inv E K db"
  shows "ran (card_entries E db) = card_of E ` row_cols ` set (cards_table db)"
  using card_log.entry_Some [OF assms(2)]
  by (auto simp: ran_def card_entries_def)

lemma ran_tag_entries:
  assumes "postcard_ok E" "storage_inv E K db"
  shows "ran (tag_entries E db) = tag_of E ` row_cols ` set (tags_table db)"
  using tag_log.entry_Some [OF assms(2)]
  by (auto simp: ran_def tag_entries_def)

text \<open>The list a client shows: every live card, by falling priority.\<close>

definition sorted_cards :: "ext \<Rightarrow> db \<Rightarrow> card list" where
  "sorted_cards E db =
     map (\<lambda>r. card_of E (row_cols r)) (sort_key (\<lambda>r. - col_priority (row_cols r)) (cards_table db))"

lemma list_all_cards:
  "postcard_ok E \<Longrightarrow> storage_inv E K db \<Longrightarrow> storage_list_cards E db FilterAll None = Ok (sorted_cards E db)"
  by (simp add: list_cards_result limit_rows_def sorted_cards_def)

lemma sorted_cards_facts:
  assumes "postcard_ok E" "storage_inv E K db"
  shows "set (sorted_cards E db) = ran (card_entries E db)"
    "map card_id (sorted_cards E db) = map (\<lambda>r. col_card_id (row_cols r))
       (sort_key (\<lambda>r. - col_priority (row_cols r)) (cards_table db))"
    "sorted (map (\<lambda>c. - card_priority c) (sorted_cards E db))"
    "distinct (map (\<lambda>c. - card_priority c) (sorted_cards E db))"
proof -
  have stor: "storable_card E (row_cols r)" if "r \<in> set (cards_table db)" for r
    using that storage_inv_rows(1) [OF assms(2)] by blast
  show "set (sorted_cards E db) = ran (card_entries E db)"
    by (auto simp: sorted_cards_def ran_card_entries [OF assms])
  show "map card_id (sorted_cards E db) = map (\<lambda>r. col_card_id (row_cols r))
       (sort_key (\<lambda>r. - col_priority (row_cols r)) (cards_table db))"
    by (simp add: sorted_cards_def card_of_fields [OF assms(1) stor])
  have prio: "map (\<lambda>c. - card_priority c) (sorted_cards E db) = map (\<lambda>r. - col_priority (row_cols r))
       (sort_key (\<lambda>r. - col_priority (row_cols r)) (cards_table db))"
    by (simp add: sorted_cards_def card_of_fields [OF assms(1) stor])
  show "sorted (map (\<lambda>c. - card_priority c) (sorted_cards E db))"
    unfolding prio by simp
  have "distinct (map (\<lambda>r. col_priority (row_cols r)) (cards_table db))"
    using assms(2) by (simp add: storage_inv_def tables_ok_def cards_ok_def)
  then show "distinct (map (\<lambda>c. - card_priority c) (sorted_cards E db))"
    unfolding prio distinct_map by (auto simp: inj_on_def)
qed

lemma sorted_cards_unique:
  assumes "set xs = set ys" and "sorted (map (\<lambda>c. - card_priority c) xs)" "sorted (map (\<lambda>c. - card_priority c) ys)"
    and "distinct (map (\<lambda>c. - card_priority c) xs)" "distinct (map (\<lambda>c. - card_priority c) ys)"
  shows "xs = ys"
  using assms
  by (intro map_sorted_distinct_set_unique [where f = "\<lambda>c. - card_priority c"]) (auto simp: distinct_map)

text \<open>What a change set since \<open>d\<close> says about \<open>d'\<close>.\<close>

lemma changed_cards_entries:
  assumes "postcard_ok E" "storage_inv E K d'"
  shows "\<forall>c\<in>set (cs_cards (changes_of E s d')). card_entries E d' (card_id c) = Some c"
  using card_log.changed_since_unique [OF assms(2)] storage_inv_rows(1) [OF assms(2)]
  by (auto simp: changes_of_def card_entries_def card_log.changed_since_def card_of_fields [OF assms(1)])

lemma changed_card_ids:
  assumes "postcard_ok E" "storage_inv E K d'"
  shows "card_id ` set (cs_cards (changes_of E s d')) = col_card_id ` set (card_log.changed_since s d')"
  using storage_inv_rows(1) [OF assms(2)]
  by (force simp: changes_of_def card_log.changed_since_def card_of_fields [OF assms(1)])

lemma changed_tags_entries:
  assumes "postcard_ok E" "storage_inv E K d'"
  shows "\<forall>t\<in>set (cs_tags (changes_of E s d')). tag_entries E d' (tag_id t) = Some t"
  using tag_log.changed_since_unique [OF assms(2)] storage_inv_rows(2) [OF assms(2)]
  by (auto simp: changes_of_def tag_entries_def tag_log.changed_since_def tag_of_fields [OF assms(1)])

lemma changed_tag_ids:
  assumes "postcard_ok E" "storage_inv E K d'"
  shows "tag_id ` set (cs_tags (changes_of E s d')) = tcol_tag_id ` set (tag_log.changed_since s d')"
  using storage_inv_rows(2) [OF assms(2)]
  by (force simp: changes_of_def tag_log.changed_since_def tag_of_fields [OF assms(1)])

lemma deleted_changes:
  "deleted_id ` set (cs_deleted (changes_of E s d')) = card_log.deleted_since s d'"
  "deleted_id ` set (cs_deleted (changes_of E s d')) = tag_log.deleted_since s d'"
  by (auto simp: changes_of_def card_log.deleted_since_def tag_log.deleted_since_def ids_of_def)

text \<open>
  What a client's list says of an id, and the ids that a change set from \<open>d\<close> to \<open>d'\<close> speaks of. The
  merge gives the current cards, in the order the server lists them, from any list that agrees with
  the server's at \<open>d\<close> on all the other ids.
\<close>

definition entry_in :: "('a \<Rightarrow> uuid) \<Rightarrow> 'a list \<Rightarrow> uuid \<Rightarrow> 'a option" where
  "entry_in f xs = map_of (rev (map (\<lambda>x. (f x, x)) xs))"

definition touched_cards :: "db \<Rightarrow> db \<Rightarrow> uuid set" where
  "touched_cards d d' =
     col_card_id ` set (card_log.changed_since (db_sequence d) d') \<union>
     card_log.deleted_since (db_sequence d) d'"

definition touched_tags :: "db \<Rightarrow> db \<Rightarrow> uuid set" where
  "touched_tags d d' =
     tcol_tag_id ` set (tag_log.changed_since (db_sequence d) d') \<union>
     tag_log.deleted_since (db_sequence d) d'"

lemma entry_in_entries:
  assumes "index_map_ok (IM :: ('a, 'm) index_map)" "distinct (map f (xs :: 'a list))" "set xs = ran g"
    "\<And>k x. g k = Some x \<Longrightarrow> f x = k"
  shows "entry_in f xs = g"
  using im_collect_entries [OF assms] by (simp add: entry_in_def index_map_laws(1) [OF assms(1)])

lemma apply_card_changeset_merge:
  assumes im: "index_map_ok IM" and pc: "postcard_ok E" and inv: "storage_inv E K d"
    and run: "(inv_step E K)\<^sup>*\<^sup>* d d'"
    and local: "\<And>k. k \<notin> touched_cards d d' \<Longrightarrow> entry_in card_id xs k = card_entries E d k"
  shows "apply_card_changeset IM xs (changes_of E (db_sequence d) d') = sorted_cards E d'"
proof -
  let ?cs = "changes_of E (db_sequence d) d'"
  let ?start = "im_collect IM (map (\<lambda>c. (card_id c, c)) xs)"
  let ?m = "fold (\<lambda>c. im_insert IM (card_id c) c) (cs_cards ?cs)
    (fold (\<lambda>x. im_swap_remove IM (deleted_id x)) (cs_deleted ?cs) ?start)"
  let ?le = "\<lambda>a b. card_priority b \<le> card_priority a"
  have inv': "storage_inv E K d'"
    using card_log.run_facts [OF run inv] by blast
  have start: "im_get IM ?start = entry_in card_id xs"
    by (simp add: entry_in_def index_map_laws(1) [OF im])
  have entries: "im_get IM ?m = card_entries E d'"
  proof (rule merge_entries [OF im start, where dels = "card_log.deleted_since (db_sequence d) d'"])
    show "\<forall>x\<in>set (cs_cards ?cs). card_entries E d' (card_id x) = Some x"
      by (rule changed_cards_entries [OF pc inv'])
    show "card_log.deleted_since (db_sequence d) d' = deleted_id ` set (cs_deleted ?cs)"
      by (simp add: deleted_changes)
  next
    fix k assume "k \<in> card_log.deleted_since (db_sequence d) d'"
    then show "card_entries E d' k = None"
      by (simp add: card_entries_def card_log.deleted_since_not_live [OF inv'])
  next
    fix k assume k: "k \<notin> card_id ` set (cs_cards ?cs)" "k \<notin> card_log.deleted_since (db_sequence d) d'"
    then have "card_log.entry d' k = card_log.entry d k"
      unfolding changed_card_ids [OF pc inv'] by (intro card_log.unchanged_entry [OF run inv]) blast+
    then show "card_entries E d' k = entry_in card_id xs k"
      using k local [of k] by (simp add: card_entries_def touched_cards_def changed_card_ids [OF pc inv'])
  qed
  have sorted: "im_get IM (im_sort_by IM ?le ?m) = card_entries E d'"
    using entries by (simp add: index_map_laws(4) [OF im])
  let ?vs = "im_into_values IM (im_sort_by IM ?le ?m)"
  have set: "set ?vs = ran (card_entries E d')" and ids: "distinct (map card_id ?vs)"
    using im_values [OF im sorted, of card_id] card_entries_id [OF pc inv'] by auto
  have "sorted_wrt ?le ?vs"
    by (rule index_map_laws(6) [OF im]) auto
  then have order: "sorted (map (\<lambda>c. - card_priority c) ?vs)"
    by (simp add: sorted_map)
  have "inj_on (\<lambda>c. - card_priority c) (set ?vs)"
    using sorted_cards_facts(1,4) [OF pc inv'] set by (simp add: distinct_map)
  moreover have "distinct ?vs"
    using ids by (simp add: distinct_map)
  ultimately have "?vs = sorted_cards E d'"
    using sorted_cards_facts [OF pc inv'] set order
    by (intro sorted_cards_unique) (simp_all add: distinct_map)
  then show ?thesis
    by (simp add: apply_card_changeset_def Let_def)
qed

lemma sorted_cards_keyed:
  assumes "postcard_ok E" "storage_inv E K d"
  shows "distinct (map card_id (sorted_cards E d))"
  using assms(2) by (simp add: sorted_cards_facts(2) [OF assms] distinct_map storage_inv_def
      tables_ok_def cards_ok_def keyed_def)

lemma apply_card_changeset_current:
  assumes "index_map_ok IM" "postcard_ok E" "storage_inv E K d" "(inv_step E K)\<^sup>*\<^sup>* d d'"
  shows "apply_card_changeset IM (sorted_cards E d) (changes_of E (db_sequence d) d') = sorted_cards E d'"
proof -
  have "entry_in card_id (sorted_cards E d) = card_entries E d"
    using sorted_cards_keyed sorted_cards_facts(1) card_entries_id assms(2,3)
    by (intro entry_in_entries [OF assms(1)]) blast+
  then show ?thesis
    by (intro apply_card_changeset_merge [OF assms]) simp
qed

section \<open>Tags\<close>

lemma apply_tag_changeset_merge:
  assumes im: "index_map_ok IM" and pc: "postcard_ok E" and inv: "storage_inv E K d"
    and run: "(inv_step E K)\<^sup>*\<^sup>* d d'"
    and local: "\<And>k. k \<notin> touched_tags d d' \<Longrightarrow> entry_in tag_id ts k = tag_entries E d k"
  shows "set (apply_tag_changeset IM ts (changes_of E (db_sequence d) d')) = ran (tag_entries E d')"
    and "distinct (map tag_id (apply_tag_changeset IM ts (changes_of E (db_sequence d) d')))"
proof -
  let ?cs = "changes_of E (db_sequence d) d'"
  let ?start = "im_collect IM (map (\<lambda>t. (tag_id t, t)) ts)"
  let ?m = "fold (\<lambda>t. im_insert IM (tag_id t) t) (cs_tags ?cs)
    (fold (\<lambda>x. im_swap_remove IM (deleted_id x)) (cs_deleted ?cs) ?start)"
  have inv': "storage_inv E K d'"
    using tag_log.run_facts [OF run inv] by blast
  have start: "im_get IM ?start = entry_in tag_id ts"
    by (simp add: entry_in_def index_map_laws(1) [OF im])
  have entries: "im_get IM ?m = tag_entries E d'"
  proof (rule merge_entries [OF im start, where dels = "tag_log.deleted_since (db_sequence d) d'"])
    show "\<forall>x\<in>set (cs_tags ?cs). tag_entries E d' (tag_id x) = Some x"
      by (rule changed_tags_entries [OF pc inv'])
    show "tag_log.deleted_since (db_sequence d) d' = deleted_id ` set (cs_deleted ?cs)"
      by (simp add: deleted_changes)
  next
    fix k assume "k \<in> tag_log.deleted_since (db_sequence d) d'"
    then show "tag_entries E d' k = None"
      by (simp add: tag_entries_def tag_log.deleted_since_not_live [OF inv'])
  next
    fix k assume k: "k \<notin> tag_id ` set (cs_tags ?cs)" "k \<notin> tag_log.deleted_since (db_sequence d) d'"
    then have "tag_log.entry d' k = tag_log.entry d k"
      unfolding changed_tag_ids [OF pc inv'] by (intro tag_log.unchanged_entry [OF run inv]) blast+
    then show "tag_entries E d' k = entry_in tag_id ts k"
      using k local [of k] by (simp add: tag_entries_def touched_tags_def changed_tag_ids [OF pc inv'])
  qed
  have "set (im_into_values IM ?m) = ran (tag_entries E d')" "distinct (map tag_id (im_into_values IM ?m))"
    using im_values [OF im entries, of tag_id] tag_entries_id [OF pc inv'] by auto
  then show "set (apply_tag_changeset IM ts ?cs) = ran (tag_entries E d')"
    "distinct (map tag_id (apply_tag_changeset IM ts ?cs))"
    by (simp_all add: apply_tag_changeset_def Let_def)
qed

lemma listed_tags:
  assumes pc: "postcard_ok E" and inv: "storage_inv E K e" and list: "storage_list_tags E e = Ok us"
  shows "set us = ran (tag_entries E e)" "distinct (map tag_id us)"
proof -
  have us: "us = map (\<lambda>r. tag_of E (row_cols r)) (sort_key (\<lambda>r. tcol_title (row_cols r)) (tags_table e))"
    using list list_tags_result [OF pc inv] by simp
  then show "set us = ran (tag_entries E e)"
    by (auto simp: us ran_tag_entries [OF pc inv])
  have "map tag_id us = map (\<lambda>r. tcol_tag_id (row_cols r)) (sort_key (\<lambda>r. tcol_title (row_cols r)) (tags_table e))"
    using storage_inv_rows(2) [OF inv] by (simp add: us tag_of_fields [OF pc])
  moreover have "keyed tcol_tag_id (tags_table e)"
    using inv by (simp add: storage_inv_def tables_ok_def tags_ok_def)
  ultimately show "distinct (map tag_id us)"
    by (simp add: keyed_def distinct_map)
qed

lemma apply_tag_changeset_current:
  assumes im: "index_map_ok IM" and pc: "postcard_ok E" and inv: "storage_inv E K d"
    and run: "(inv_step E K)\<^sup>*\<^sup>* d d'"
    and list: "storage_list_tags E d = Ok ts" "storage_list_tags E d' = Ok ts'"
  shows "mset (apply_tag_changeset IM ts (changes_of E (db_sequence d) d')) = mset ts'"
proof -
  have inv': "storage_inv E K d'"
    using tag_log.run_facts [OF run inv] by blast
  have "entry_in tag_id ts = tag_entries E d"
    using listed_tags [OF pc inv list(1)] tag_entries_id [OF pc inv]
    by (intro entry_in_entries [OF im]) simp_all
  then have "set (apply_tag_changeset IM ts (changes_of E (db_sequence d) d')) = ran (tag_entries E d')"
    "distinct (map tag_id (apply_tag_changeset IM ts (changes_of E (db_sequence d) d')))"
    by (auto intro!: apply_tag_changeset_merge [OF im pc inv run])
  then show ?thesis
    using listed_tags [OF pc inv' list(2)]
    by (simp add: set_eq_iff_mset_eq_distinct [symmetric] distinct_map)
qed

end
