(* ===== verification/Storage_Accept.thy ===== *)
theory Storage_Accept
  imports Client_Sync
begin

text \<open>
  When a push is accepted and what it leaves: the exact condition of success of a card push and of
  a tag push on a reachable state, the state after it, and the answer to a push that lost a race.
\<close>

lemma request_ok_simps:
  "request_ok E K (PushCardVersions versions) \<longleftrightarrow> item_ok E K (ItemCards versions)"
  "request_ok E K (PushTagVersions tag_chain) \<longleftrightarrow> item_ok E K (ItemTags tag_chain)"
  "request_ok E K (PushBatch items) \<longleftrightarrow> (\<forall>item\<in>set items. item_ok E K item)"
  by (simp_all add: request_ok_def del: item_ok.simps)

lemma item_ok_last:
  "item_ok E K (ItemCards versions) \<Longrightarrow> versions \<noteq> [] \<Longrightarrow>
     card_typed E (last versions) \<and> card_id (last versions) = card_id (hd versions)"
  "item_ok E K (ItemTags tag_chain) \<Longrightarrow> tag_chain \<noteq> [] \<Longrightarrow>
     tag_typed E (last tag_chain) \<and> sorted_wrt (<) (tag_implies (last tag_chain)) \<and>
     tag_id (last tag_chain) = tag_id (hd tag_chain)"
  unfolding item_ok.simps using last_in_set by blast+

section \<open>The inner writes succeed\<close>

definition insertable :: "('c \<Rightarrow> uuid \<times> int) \<Rightarrow> 'c list \<Rightarrow> 'c version_row list \<Rightarrow> bool" where
  "insertable key cs rows \<longleftrightarrow>
     distinct (map key cs) \<and> key ` set cs \<inter> (\<lambda>r. key (ver_cols r)) ` set rows = {}"

lemma insert_versions_Ok:
  "insert_versions key cs rows = Ok rows' \<longleftrightarrow>
     insertable key cs rows \<and> rows' = rows @ map (\<lambda>c. \<lparr>ver_cols = c, ver_seq = 0\<rparr>) cs"
  by (induction key cs rows rule: insert_versions.induct) (auto simp: insertable_def)

definition priority_free :: "db \<Rightarrow> int \<Rightarrow> uuid \<Rightarrow> bool" where
  "priority_free db priority uid \<longleftrightarrow>
     (\<forall>r\<in>set (cards_table db). col_priority (row_cols r) = priority \<longrightarrow> col_card_id (row_cols r) = uid)"

lemma find_duplicate_priority_None:
  "find_duplicate_priority priority uid (cards_table db) = None \<longleftrightarrow> priority_free db priority uid"
  by (auto simp: find_duplicate_priority_def find_None_iff priority_free_def)

lemma push_card_inner_accepts:
  assumes "versions \<noteq> []" "\<forall>v\<in>set versions. card_verify (blake3 E) v"
    and "\<not> is_deleted db (card_id (hd versions))"
    and "card_ancestor_hash (hd versions) = ancestor_in_cards db (card_id (hd versions))"
    and "windows_linked card_ancestor_hash card_hash versions"
    and "insertable card_key (map (card_params E) versions) (card_versions db)"
    and "priority_free db (card_priority (last versions)) (card_id (last versions))"
  shows "push_card_versions_inner E db versions =
    Ok (db\<lparr>card_versions := card_versions db @
        map (\<lambda>v. \<lparr>ver_cols = card_params E v, ver_seq = 0\<rparr>) versions,
      cards_table := replace_row col_card_id (new_card_row E (last versions)) (cards_table db)\<rparr>)"
proof -
  have ins: "insert_versions card_key (map (card_params E) versions) (card_versions db) =
      Ok (card_versions db @ map (\<lambda>v. \<lparr>ver_cols = card_params E v, ver_seq = 0\<rparr>) versions)"
    by (simp add: insert_versions_Ok assms(6) comp_def)
  have dup: "find_duplicate_priority (card_priority (last versions)) (card_id (last versions))
      (cards_table db) = None"
    using assms(7) by (simp add: find_duplicate_priority_None)
  have "replace_card_row (new_card_row E (last versions)) (cards_table db) =
      replace_row col_card_id (new_card_row E (last versions)) (cards_table db)"
    by (rule replace_card_row_eq) (simp add: dup)
  then show ?thesis
    using assms(1-5) ins dup unfolding new_card_row_def
    by (simp add: push_card_versions_inner_def Let_def list_ex_iff ancestor_in_cards_def
        split: option.splits)
qed

lemma push_tag_inner_accepts:
  assumes "versions \<noteq> []" "\<forall>v\<in>set versions. tag_verify (blake3 E) v"
    and "\<not> is_deleted db (tag_id (hd versions))"
    and "tag_ancestor_hash (hd versions) = ancestor_in_tags db (tag_id (hd versions))"
    and "windows_linked tag_ancestor_hash tag_hash versions"
    and "insertable tag_key (map (tag_params E) versions) (tag_versions db)"
  shows "push_tag_versions_inner E db versions =
    Ok (db\<lparr>tag_versions := tag_versions db @
        map (\<lambda>v. \<lparr>ver_cols = tag_params E v, ver_seq = 0\<rparr>) versions,
      tags_table := replace_row tcol_tag_id (new_tag_row E (last versions)) (tags_table db)\<rparr>)"
proof -
  have ins: "insert_versions tag_key (map (tag_params E) versions) (tag_versions db) =
      Ok (tag_versions db @ map (\<lambda>v. \<lparr>ver_cols = tag_params E v, ver_seq = 0\<rparr>) versions)"
    by (simp add: insert_versions_Ok assms(6) comp_def)
  then show ?thesis
    using assms(1-5) unfolding new_tag_row_def
    by (simp add: push_tag_versions_inner_def Let_def list_ex_iff ancestor_in_tags_def
        split: option.splits)
qed

section \<open>The commit succeeds\<close>

lemma commit_succeeds:
  assumes "root_ok E db" "same_root db tx"
  shows "(\<exists>db'. commit_txn E now (tx, aff) = Ok db') \<longleftrightarrow> db_sequence db < i64_max"
proof -
  have "hist_sequence ` set (root_history tx) = {1..db_sequence tx}"
    using assms unfolding root_ok_def same_root_def by (metis list.set_map set_upto)
  then show ?thesis
    using assms(2) by (auto simp: commit_txn_def outcome_simps recompute_root_Ok Let_def same_root_def)
qed

section \<open>Pushes of cards\<close>

definition card_push_ok :: "ext \<Rightarrow> db \<Rightarrow> card list \<Rightarrow> bool" where
  "card_push_ok E db versions \<longleftrightarrow>
     versions \<noteq> [] \<and> (\<forall>v\<in>set versions. card_verify (blake3 E) v) \<and>
     card_id (hd versions) \<notin> deleted_ids db \<and>
     card_ancestor_hash (hd versions) = ancestor_in_cards db (card_id (hd versions)) \<and>
     windows_linked card_ancestor_hash card_hash versions \<and>
     insertable card_key (map (card_params E) versions) (card_versions db) \<and>
     priority_free db (card_priority (last versions)) (card_id (last versions)) \<and>
     closed_tags (live_graph E db) (set (card_tags (last versions))) \<and>
     db_sequence db < i64_max"

definition after_card_push :: "ext \<Rightarrow> db \<Rightarrow> card list \<Rightarrow> db" where
  "after_card_push E db versions =
     db\<lparr>card_versions := card_versions db @ map (\<lambda>v. \<lparr>ver_cols = card_params E v, ver_seq = 0\<rparr>) versions,
       cards_table := replace_row col_card_id (new_card_row E (last versions)) (cards_table db)\<rparr>"

lemma push_card_inner_iff:
  "push_card_versions_inner E db versions = Ok tx \<longleftrightarrow>
     tx = after_card_push E db versions \<and>
     versions \<noteq> [] \<and> (\<forall>v\<in>set versions. card_verify (blake3 E) v) \<and>
     card_id (hd versions) \<notin> deleted_ids db \<and>
     card_ancestor_hash (hd versions) = ancestor_in_cards db (card_id (hd versions)) \<and>
     windows_linked card_ancestor_hash card_hash versions \<and>
     insertable card_key (map (card_params E) versions) (card_versions db) \<and>
     priority_free db (card_priority (last versions)) (card_id (last versions))"
  (is "?lhs \<longleftrightarrow> ?rhs")
proof
  assume ?lhs
  then show ?rhs
    by (rule push_card_inner_Ok)
      (simp add: insert_versions_Ok find_duplicate_priority_None is_deleted_ids after_card_push_def comp_def)
next
  assume ?rhs
  then show ?lhs
    using push_card_inner_accepts [of versions E db] by (simp add: is_deleted_ids after_card_push_def)
qed

lemma after_card_push_implications:
  assumes "postcard_ok E" "implications_ok E db" "versions \<noteq> []"
  shows "implications_ok E (after_card_push E db versions) \<longleftrightarrow>
    closed_tags (live_graph E db) (set (card_tags (last versions)))"
proof -
  have "live_graph E (after_card_push E db versions) = live_graph E db"
    "tag_ids (after_card_push E db versions) = tag_ids db"
    "tags_table (after_card_push E db versions) = tags_table db"
    by (simp_all add: live_graph_def implies_pairs_def tag_ids_def after_card_push_def)
  then show ?thesis
    using assms by (auto simp: implications_ok_def after_card_push_def set_replace_row)
qed

lemma push_card_versions_Ok:
  assumes pc: "postcard_ok E" and inv: "storage_inv E K db" and imp: "implications_ok E db"
    and ok: "item_ok E K (ItemCards versions)"
  shows "(\<exists>db'. storage_push_card_versions E now db versions = (Ok (), db')) \<longleftrightarrow>
    card_push_ok E db versions"
proof (cases "versions = []")
  case True
  then show ?thesis by (simp add: storage_push_card_versions_def card_push_ok_def)
next
  case False
  let ?tx = "after_card_push E db versions"
  let ?aff = "\<lparr>affected_cards = [card_id (hd versions)], affected_tags = [], affected_deleted = []\<rparr>"
  have step: "(\<exists>db'. storage_push_card_versions E now db versions = (Ok (), db')) \<longleftrightarrow>
      (\<exists>tx db'. push_card_versions_inner E db versions = Ok tx \<and>
         validate_batch_implications E tx [ItemCards versions] = Ok () \<and>
         commit_txn E now (tx, ?aff) = Ok db')"
    using False
    by (cases versions) (auto simp: storage_push_card_versions_def transaction_def commit_txn_def
        stamp_single_card outcome_simps split: outcome.splits)
  have after: "validate_batch_implications E ?tx [ItemCards versions] = Ok () \<longleftrightarrow>
        closed_tags (live_graph E db) (set (card_tags (last versions)))"
      "(\<exists>db'. commit_txn E now (?tx, ?aff) = Ok db') \<longleftrightarrow> db_sequence db < i64_max"
    if inner: "push_card_versions_inner E db versions = Ok ?tx"
  proof -
    have run: "apply_items E 0 [ItemCards versions] (db, no_affected) = Ok (?tx, ?aff)"
      using False inner unfolding apply_items_single by (simp add: apply_item_def)
    have txn: "txn_inv E K db (?tx, ?aff)"
      by (rule apply_items_txn [OF txn_inv_start _ run])
        (use inv ok in \<open>simp_all add: storage_inv_def del: item_ok.simps\<close>)
    then show "validate_batch_implications E ?tx [ItemCards versions] = Ok () \<longleftrightarrow>
        closed_tags (live_graph E db) (set (card_tags (last versions)))"
      using validate_after_writes [OF pc _ run] validate_state_Ok
        after_card_push_implications [OF pc imp False]
      by (simp add: txn_inv_def)
    show "(\<exists>db'. commit_txn E now (?tx, ?aff) = Ok db') \<longleftrightarrow> db_sequence db < i64_max"
      using txn inv by (intro commit_succeeds [of E db]) (simp_all add: txn_inv_def storage_inv_def)
  qed
  show ?thesis
    unfolding step using after unfolding push_card_inner_iff card_push_ok_def by blast
qed

section \<open>What an accepted push leaves\<close>

lemma find_row_stamp_all:
  "map_option row_cols (find_row idf uid (stamp_all idf uids seq rows)) =
     map_option row_cols (find_row idf uid rows)"
  unfolding stamp_all_eq find_row_def by (induction rows) auto

lemma find_row_replace:
  "map_option row_cols (find_row idf uid (replace_row idf row rows)) =
     (if uid = idf (row_cols row) then Some (row_cols row)
      else map_option row_cols (find_row idf uid rows))"
proof -
  have "find_row idf uid (delete_rows idf k rows) =
      (if uid = k then None else find_row idf uid rows)" for k
    unfolding find_row_def delete_rows_def by (induction rows) auto
  then show ?thesis
    by (simp add: replace_row_def find_row_def find_append split: option.splits)
qed

lemma find_row_delete:
  "find_row idf uid (delete_rows idf k rows) = (if uid = k then None else find_row idf uid rows)"
  unfolding find_row_def delete_rows_def by (induction rows) auto

lemma commit_entries:
  assumes "commit_txn E now (tx, aff) = Ok db'"
  shows "card_log.entry db' uid = card_log.entry tx uid"
    "tag_log.entry db' uid = tag_log.entry tx uid"
    "deleted_ids db' = deleted_ids tx" "db_sequence db' = db_sequence tx + 1"
    "map ver_cols (card_versions db') = map ver_cols (card_versions tx)"
    "map ver_cols (tag_versions db') = map ver_cols (tag_versions tx)"
proof -
  obtain tx' seq where tx': "recompute_root_for_ids E now
      (affected_cards aff @ affected_tags aff @ affected_deleted aff) tx = Ok (tx', seq)"
    and db': "db' = stamp_affected aff seq tx'"
    using assms by (auto simp: commit_txn_def outcome_simps)
  from tx' have same: "tags_table tx' = tags_table tx" "cards_table tx' = cards_table tx"
    "deleted_entities tx' = deleted_entities tx" "db_sequence tx' = db_sequence tx + 1"
    "card_versions tx' = card_versions tx" "tag_versions tx' = tag_versions tx"
    by (simp_all add: recompute_root_Ok Let_def)
  have versions: "map ver_cols (stamp_all_versions idf uids seq rows) = map ver_cols rows"
    for idf :: "'c \<Rightarrow> uuid" and uids and rows :: "'c version_row list"
    unfolding stamp_all_versions_def
    by (induction uids arbitrary: rows) (simp_all add: stamp_versions_def comp_def if_distrib cong: if_cong)
  show "card_log.entry db' uid = card_log.entry tx uid" "tag_log.entry db' uid = tag_log.entry tx uid"
    "deleted_ids db' = deleted_ids tx" "db_sequence db' = db_sequence tx + 1"
    "map ver_cols (card_versions db') = map ver_cols (card_versions tx)"
    "map ver_cols (tag_versions db') = map ver_cols (tag_versions tx)"
    by (simp_all add: db' stamp_affected_eq card_log.entry_def tag_log.entry_def find_row_stamp_all same
        deleted_ids_def versions)
qed

lemma push_card_versions_effect:
  assumes "storage_push_card_versions E now db versions = (Ok (), db')"
  shows "card_log.entry db' =
      (card_log.entry db)(card_id (last versions) \<mapsto> card_params E (last versions))"
    "tag_log.entry db' = tag_log.entry db" "deleted_ids db' = deleted_ids db"
    "db_sequence db' = db_sequence db + 1"
    "map ver_cols (card_versions db') = map ver_cols (card_versions db) @ map (card_params E) versions"
    "map ver_cols (tag_versions db') = map ver_cols (tag_versions db)"
proof -
  from assms have "committed E now db [ItemCards versions] db'"
    by (cases rule: storage_push_card_versions_cases) auto
  then obtain aff where commit: "commit_txn E now (after_card_push E db versions, aff) = Ok db'"
    unfolding committed_def apply_items_single
    by (auto simp: apply_item_def outcome_simps push_card_inner_iff)
  show "card_log.entry db' =
      (card_log.entry db)(card_id (last versions) \<mapsto> card_params E (last versions))"
    by (rule ext) (simp add: commit_entries [OF commit], simp add: card_log.entry_def
        after_card_push_def find_row_replace)
  show "tag_log.entry db' = tag_log.entry db"
    by (rule ext) (simp add: commit_entries [OF commit], simp add: tag_log.entry_def after_card_push_def)
  show "deleted_ids db' = deleted_ids db" "db_sequence db' = db_sequence db + 1"
    "map ver_cols (card_versions db') = map ver_cols (card_versions db) @ map (card_params E) versions"
    "map ver_cols (tag_versions db') = map ver_cols (tag_versions db)"
    unfolding commit_entries [OF commit] by (simp_all add: deleted_ids_def after_card_push_def comp_def)
qed

lemma push_card_versions_verified:
  assumes "storage_push_card_versions E now db versions = (Ok (), db')"
  shows "versions \<noteq> []" "\<forall>v\<in>set versions. card_verify (blake3 E) v"
proof -
  from assms have "committed E now db [ItemCards versions] db'"
    by (cases rule: storage_push_card_versions_cases) auto
  then obtain tx where "push_card_versions_inner E db versions = Ok tx"
    unfolding committed_def apply_items_single by (auto simp: apply_item_def outcome_simps)
  then show "versions \<noteq> []" "\<forall>v\<in>set versions. card_verify (blake3 E) v"
    by (simp_all add: push_card_inner_iff)
qed

lemma card_of_params:
  "postcard_ok E \<Longrightarrow> card_typed E c \<Longrightarrow> card_verify (blake3 E) c \<Longrightarrow> card_of E (card_params E c) = c"
  by (simp add: card_of_def card_from_row_params)

lemma tag_of_params:
  "postcard_ok E \<Longrightarrow> tag_typed E t \<Longrightarrow> tag_verify (blake3 E) t \<Longrightarrow> sorted_wrt (<) (tag_implies t) \<Longrightarrow>
     tag_of E (tag_params E t) = t"
  by (simp add: tag_of_def tag_from_row_params)

section \<open>Pushes of tags\<close>

definition after_tag_push :: "ext \<Rightarrow> db \<Rightarrow> tag list \<Rightarrow> db" where
  "after_tag_push E db versions =
     db\<lparr>tag_versions := tag_versions db @ map (\<lambda>v. \<lparr>ver_cols = tag_params E v, ver_seq = 0\<rparr>) versions,
       tags_table := replace_row tcol_tag_id (new_tag_row E (last versions)) (tags_table db)\<rparr>"

lemma push_tag_inner_iff:
  "push_tag_versions_inner E db versions = Ok tx \<longleftrightarrow>
     tx = after_tag_push E db versions \<and>
     versions \<noteq> [] \<and> (\<forall>v\<in>set versions. tag_verify (blake3 E) v) \<and>
     tag_id (hd versions) \<notin> deleted_ids db \<and>
     tag_ancestor_hash (hd versions) = ancestor_in_tags db (tag_id (hd versions)) \<and>
     windows_linked tag_ancestor_hash tag_hash versions \<and>
     insertable tag_key (map (tag_params E) versions) (tag_versions db)"
  (is "?lhs \<longleftrightarrow> ?rhs")
proof
  assume ?lhs
  then show ?rhs
    by (rule push_tag_inner_Ok)
      (simp add: insert_versions_Ok is_deleted_ids after_tag_push_def comp_def)
next
  assume ?rhs
  then show ?lhs
    using push_tag_inner_accepts [of versions E db] by (simp add: is_deleted_ids after_tag_push_def)
qed

lemma push_tag_versions_Ok:
  assumes pc: "postcard_ok E" and inv: "storage_inv E K db" and ok: "item_ok E K (ItemTags versions)"
  shows "(\<exists>db'. storage_push_tag_versions E now db versions = (Ok (), db')) \<longleftrightarrow>
    versions \<noteq> [] \<and> (\<forall>v\<in>set versions. tag_verify (blake3 E) v) \<and>
    tag_id (hd versions) \<notin> deleted_ids db \<and>
    tag_ancestor_hash (hd versions) = ancestor_in_tags db (tag_id (hd versions)) \<and>
    windows_linked tag_ancestor_hash tag_hash versions \<and>
    insertable tag_key (map (tag_params E) versions) (tag_versions db) \<and>
    implications_ok E (after_tag_push E db versions) \<and> db_sequence db < i64_max"
proof (cases "versions = []")
  case True
  then show ?thesis by (simp add: storage_push_tag_versions_def)
next
  case False
  let ?tx = "after_tag_push E db versions"
  let ?aff = "\<lparr>affected_cards = [], affected_tags = [tag_id (hd versions)], affected_deleted = []\<rparr>"
  have step: "(\<exists>db'. storage_push_tag_versions E now db versions = (Ok (), db')) \<longleftrightarrow>
      (\<exists>tx db'. push_tag_versions_inner E db versions = Ok tx \<and>
         validate_batch_implications E tx [ItemTags versions] = Ok () \<and>
         commit_txn E now (tx, ?aff) = Ok db')"
    using False
    by (cases versions) (auto simp: storage_push_tag_versions_def transaction_def commit_txn_def
        stamp_single_tag outcome_simps split: outcome.splits)
  have after: "validate_batch_implications E ?tx [ItemTags versions] = Ok () \<longleftrightarrow> implications_ok E ?tx"
      "(\<exists>db'. commit_txn E now (?tx, ?aff) = Ok db') \<longleftrightarrow> db_sequence db < i64_max"
    if inner: "push_tag_versions_inner E db versions = Ok ?tx"
  proof -
    have run: "apply_items E 0 [ItemTags versions] (db, no_affected) = Ok (?tx, ?aff)"
      using False inner unfolding apply_items_single by (simp add: apply_item_def)
    have txn: "txn_inv E K db (?tx, ?aff)"
      by (rule apply_items_txn [OF txn_inv_start _ run])
        (use inv ok in \<open>simp_all add: storage_inv_def del: item_ok.simps\<close>)
    then show "validate_batch_implications E ?tx [ItemTags versions] = Ok () \<longleftrightarrow> implications_ok E ?tx"
      using validate_after_writes [OF pc _ run] validate_state_Ok by (simp add: txn_inv_def)
    show "(\<exists>db'. commit_txn E now (?tx, ?aff) = Ok db') \<longleftrightarrow> db_sequence db < i64_max"
      using txn inv by (intro commit_succeeds [of E db]) (simp_all add: txn_inv_def storage_inv_def)
  qed
  show ?thesis
    unfolding step using after unfolding push_tag_inner_iff by blast
qed

lemma push_tag_versions_effect:
  assumes "storage_push_tag_versions E now db versions = (Ok (), db')"
  shows "tag_log.entry db' =
      (tag_log.entry db)(tag_id (last versions) \<mapsto> tag_params E (last versions))"
    "card_log.entry db' = card_log.entry db" "deleted_ids db' = deleted_ids db"
    "db_sequence db' = db_sequence db + 1"
    "map ver_cols (tag_versions db') = map ver_cols (tag_versions db) @ map (tag_params E) versions"
    "map ver_cols (card_versions db') = map ver_cols (card_versions db)"
    "versions \<noteq> []" "\<forall>v\<in>set versions. tag_verify (blake3 E) v"
proof -
  from assms have "committed E now db [ItemTags versions] db'"
    by (cases rule: storage_push_tag_versions_cases) auto
  then obtain aff where commit: "commit_txn E now (after_tag_push E db versions, aff) = Ok db'"
    and facts: "versions \<noteq> []" "\<forall>v\<in>set versions. tag_verify (blake3 E) v"
    unfolding committed_def apply_items_single
    by (auto simp: apply_item_def outcome_simps push_tag_inner_iff)
  show "tag_log.entry db' =
      (tag_log.entry db)(tag_id (last versions) \<mapsto> tag_params E (last versions))"
    by (rule ext) (simp add: commit_entries [OF commit], simp add: tag_log.entry_def
        after_tag_push_def find_row_replace)
  show "card_log.entry db' = card_log.entry db"
    by (rule ext) (simp add: commit_entries [OF commit], simp add: card_log.entry_def after_tag_push_def)
  show "deleted_ids db' = deleted_ids db" "db_sequence db' = db_sequence db + 1"
    "map ver_cols (tag_versions db') = map ver_cols (tag_versions db) @ map (tag_params E) versions"
    "map ver_cols (card_versions db') = map ver_cols (card_versions db)"
    unfolding commit_entries [OF commit] by (simp_all add: deleted_ids_def after_tag_push_def comp_def)
  show "versions \<noteq> []" "\<forall>v\<in>set versions. tag_verify (blake3 E) v"
    using facts by simp_all
qed

section \<open>Deletions\<close>

lemma delete_card_Ok:
  assumes "storage_inv E K db"
  shows "(\<exists>db'. storage_delete_card E now db uid = (Ok (deleted_new (blake3 E) uid), db')) \<longleftrightarrow>
    uid \<in> card_ids db \<and> db_sequence db < i64_max"
proof -
  let ?tx = "db\<lparr>card_versions := delete_versions col_card_id uid (card_versions db),
     cards_table := delete_rows col_card_id uid (cards_table db),
     deleted_entities := replace_row deleted_id (new_deleted_row E uid) (deleted_entities db)\<rparr>"
  let ?aff = "\<lparr>affected_cards = [], affected_tags = [], affected_deleted = [uid]\<rparr>"
  have live: "uid \<in> card_ids db \<Longrightarrow> \<not> is_deleted db uid"
    using assms by (auto simp: storage_inv_def kinds_ok_def is_deleted_ids)
  have "(\<exists>db'. storage_delete_card E now db uid = (Ok (deleted_new (blake3 E) uid), db')) \<longleftrightarrow>
      (\<exists>tx db'. delete_card_inner E db uid = Ok (tx, deleted_new (blake3 E) uid) \<and>
         commit_txn E now (tx, ?aff) = Ok db')"
  proof (cases "delete_card_inner E db uid")
    case (Ok p)
    then obtain tx where "delete_card_inner E db uid = Ok (tx, deleted_new (blake3 E) uid)"
      by (cases p) (simp add: delete_card_inner_Ok)
    then show ?thesis
      by (auto simp: storage_delete_card_def transaction_def commit_txn_def stamp_single_deleted
          outcome_simps split: outcome.splits)
  qed (simp_all add: storage_delete_card_def transaction_def)
  moreover have "(\<exists>db'. commit_txn E now (?tx, ?aff) = Ok db') \<longleftrightarrow> db_sequence db < i64_max"
    using assms by (intro commit_succeeds [of E db]) (simp_all add: storage_inv_def same_root_def)
  ultimately show ?thesis
    unfolding delete_card_inner_Ok using live by blast
qed

lemma delete_card_effect:
  assumes "storage_delete_card E now db uid = (Ok d, db')"
  shows "card_log.entry db' = (card_log.entry db)(uid := None)" "tag_log.entry db' = tag_log.entry db"
    "deleted_ids db' = insert uid (deleted_ids db)" "db_sequence db' = db_sequence db + 1"
    "d = deleted_new (blake3 E) uid" "uid \<in> card_ids db"
proof -
  from assms have d: "d = deleted_new (blake3 E) uid" and "committed E now db [ItemDeleteCard uid] db'"
    by (cases rule: storage_delete_card_cases; simp)+
  then obtain tx aff where inner: "delete_card_inner E db uid = Ok (tx, d)"
    and commit: "commit_txn E now (tx, aff) = Ok db'"
    unfolding committed_def apply_items_single
    by (auto simp: apply_item_def outcome_simps delete_card_inner_Ok)
  from inner have tx: "tx = db\<lparr>card_versions := delete_versions col_card_id uid (card_versions db),
       cards_table := delete_rows col_card_id uid (cards_table db),
       deleted_entities := replace_row deleted_id (new_deleted_row E uid) (deleted_entities db)\<rparr>"
    and live: "uid \<in> card_ids db"
    by (simp_all add: delete_card_inner_Ok)
  show "card_log.entry db' = (card_log.entry db)(uid := None)" "tag_log.entry db' = tag_log.entry db"
    by (rule ext, simp add: commit_entries [OF commit],
        simp add: card_log.entry_def tag_log.entry_def tx find_row_delete)+
  show "deleted_ids db' = insert uid (deleted_ids db)" "db_sequence db' = db_sequence db + 1"
    unfolding commit_entries [OF commit] by (simp_all add: tx deleted_ids_def)
  show "d = deleted_new (blake3 E) uid" "uid \<in> card_ids db"
    by (fact d live)+
qed

section \<open>Rejections\<close>

lemma stale_card_push:
  assumes "postcard_ok E" "storage_inv E K db" "versions \<noteq> []" "\<forall>v\<in>set versions. card_verify (blake3 E) v"
    and "card_log.entry db (card_id (hd versions)) = Some cols"
    and "card_ancestor_hash (hd versions) \<noteq> col_hash cols"
  shows "storage_push_card_versions E now db versions =
    (Err (Domain (CardAncestorMismatch (card_of E cols))), db)"
proof -
  obtain r where r: "find_row col_card_id (card_id (hd versions)) (cards_table db) = Some r" "row_cols r = cols"
    using assms(5) by (auto simp: card_log.entry_def)
  then have "storable_card E cols"
    using find_row_Some storage_inv_rows(1) [OF assms(2)] by blast
  then have decode: "card_from_row E cols = Ok (card_of E cols)"
    by (rule storable_card_decodes(1) [OF assms(1)])
  have "card_id (hd versions) \<in> card_ids db"
    using assms(5) card_log.entry_None [of db "card_id (hd versions)"] by (auto simp: card_ids_def)
  then have "\<not> is_deleted db (card_id (hd versions))"
    using assms(2) by (auto simp: storage_inv_def kinds_ok_def is_deleted_ids)
  then have "push_card_versions_inner E db versions = Err (Domain (CardAncestorMismatch (card_of E cols)))"
    using assms(3,4,6) r decode by (simp add: push_card_versions_inner_def Let_def list_ex_iff)
  then show ?thesis
    using assms(3) by (cases versions) (simp_all add: storage_push_card_versions_def transaction_def)
qed

lemma stale_tag_push:
  assumes "postcard_ok E" "storage_inv E K db" "versions \<noteq> []" "\<forall>v\<in>set versions. tag_verify (blake3 E) v"
    and "tag_log.entry db (tag_id (hd versions)) = Some cols"
    and "tag_ancestor_hash (hd versions) \<noteq> tcol_hash cols"
  shows "storage_push_tag_versions E now db versions =
    (Err (Domain (TagAncestorMismatch (tag_of E cols))), db)"
proof -
  obtain r where r: "find_row tcol_tag_id (tag_id (hd versions)) (tags_table db) = Some r" "row_cols r = cols"
    using assms(5) by (auto simp: tag_log.entry_def)
  then have "storable_tag E cols"
    using find_row_Some storage_inv_rows(2) [OF assms(2)] by blast
  then have decode: "tag_from_row E cols = Ok (tag_of E cols)"
    by (rule storable_tag_decodes(1) [OF assms(1)])
  have "tag_id (hd versions) \<in> tag_ids db"
    using assms(5) tag_log.entry_None [of db "tag_id (hd versions)"] by (auto simp: tag_ids_def)
  then have "\<not> is_deleted db (tag_id (hd versions))"
    using assms(2) by (auto simp: storage_inv_def kinds_ok_def is_deleted_ids)
  then have "push_tag_versions_inner E db versions = Err (Domain (TagAncestorMismatch (tag_of E cols)))"
    using assms(3,4,6) r decode by (simp add: push_tag_versions_inner_def Let_def list_ex_iff)
  then show ?thesis
    using assms(3) by (cases versions) (simp_all add: storage_push_tag_versions_def transaction_def)
qed

lemma deleted_card_push:
  assumes "versions \<noteq> []" "\<forall>v\<in>set versions. card_verify (blake3 E) v"
    and "card_id (hd versions) \<in> deleted_ids db"
  shows "storage_push_card_versions E now db versions = (Err (Domain push_error.AlreadyDeleted), db)"
  using assms
  by (cases versions) (auto simp: storage_push_card_versions_def transaction_def
      push_card_versions_inner_def list_ex_iff is_deleted_ids)

lemma deleted_tag_push:
  assumes "versions \<noteq> []" "\<forall>v\<in>set versions. tag_verify (blake3 E) v"
    and "tag_id (hd versions) \<in> deleted_ids db"
  shows "storage_push_tag_versions E now db versions = (Err (Domain push_error.AlreadyDeleted), db)"
  using assms
  by (cases versions) (auto simp: storage_push_tag_versions_def transaction_def
      push_tag_versions_inner_def list_ex_iff is_deleted_ids)

lemma run_deleted_ids: "run E K d d' \<Longrightarrow> storage_inv E K d \<Longrightarrow> deleted_ids d \<subseteq> deleted_ids d'"
proof (induction rule: run.induct)
  case (run_request db db1 req now result db2)
  have "storage_inv E K db1"
    using run_steps [OF run_request.hyps(1) run_request.prems] by simp
  then have "db2 = db1 \<or> db_step db1 db2"
    using handle_request_inv [OF _ run_request.hyps(2,3)] by blast
  then have "set (deleted_entities db1) \<subseteq> set (deleted_entities db2)"
    by (auto simp: db_step_def Let_def)
  then have "deleted_ids db1 \<subseteq> deleted_ids db2"
    unfolding deleted_ids_def ids_of_def by (rule image_mono)
  then show ?case
    using run_request.IH [OF run_request.prems] by (rule subset_trans [rotated])
qed simp

lemma deleted_not_live:
  assumes "storage_inv E K db" "uid \<in> deleted_ids db"
  shows "card_log.entry db uid = None" "tag_log.entry db uid = None"
  using assms
  by (auto simp: storage_inv_def kinds_ok_def card_log.entry_None tag_log.entry_None card_ids_def tag_ids_def)

lemma delete_card_rejected:
  "uid \<in> deleted_ids db \<Longrightarrow> storage_delete_card E now db uid = (Err storage_error.AlreadyDeleted, db)"
  "uid \<notin> deleted_ids db \<Longrightarrow> uid \<notin> card_ids db \<Longrightarrow>
     storage_delete_card E now db uid = (Err storage_error.NotFound, db)"
  unfolding storage_delete_card_def delete_card_inner_def row_exists_iff
  by (simp_all add: is_deleted_ids transaction_def card_ids_def)

end
