(* ===== verification/Storage_History.thy ===== *)
theory Storage_History
  imports Storage_Accept
begin

text \<open>
  The version tables. For every live entity its rows, in the order they were written, form one
  chain: the first names no ancestor, each names the hash of the one before, and the last is the
  live row. No rows are kept of an id that is not live.
\<close>

section \<open>Chains of rows\<close>

definition versions_of :: "('c \<Rightarrow> uuid) \<Rightarrow> uuid \<Rightarrow> 'c version_row list \<Rightarrow> 'c list" where
  "versions_of idf uid rows = filter (\<lambda>c. idf c = uid) (map ver_cols rows)"

definition chain_ends :: "('c \<Rightarrow> hash) \<Rightarrow> ('c \<Rightarrow> hash) \<Rightarrow> 'c list \<Rightarrow> 'c option \<Rightarrow> bool" where
  "chain_ends ancf hashf cs live \<longleftrightarrow>
     (case live of
        None \<Rightarrow> cs = []
      | Some c \<Rightarrow> cs \<noteq> [] \<and> ancf (hd cs) = ZERO_HASH \<and> windows_linked ancf hashf cs \<and> last cs = c)"

definition chains_ok ::
  "('c \<Rightarrow> uuid) \<Rightarrow> ('c \<Rightarrow> hash) \<Rightarrow> ('c \<Rightarrow> hash) \<Rightarrow> 'c version_row list \<Rightarrow> 'c entity_row list \<Rightarrow> bool"
where
  "chains_ok idf ancf hashf versions rows \<longleftrightarrow>
     (\<forall>uid. chain_ends ancf hashf (versions_of idf uid versions)
        (map_option row_cols (find_row idf uid rows)))"

lemma chains_ok_Nil: "chains_ok idf ancf hashf [] []"
  by (simp add: chains_ok_def chain_ends_def versions_of_def find_row_def)

lemma windows_linked_append:
  "xs \<noteq> [] \<Longrightarrow> ys \<noteq> [] \<Longrightarrow> windows_linked ancf hashf (xs @ ys) \<longleftrightarrow>
     windows_linked ancf hashf xs \<and> windows_linked ancf hashf ys \<and> ancf (hd ys) = hashf (last xs)"
  by (auto simp: windows_linked_def successively_append_iff)

text \<open>The writes: a linked chain appended to the live version, and the loss of all versions.\<close>

lemma chains_ok_push:
  assumes ok: "chains_ok idf ancf hashf versions rows"
    and cs: "cs \<noteq> []" "\<forall>c\<in>set cs. idf c = uid" "windows_linked ancf hashf cs"
    and anc: "ancf (hd cs) =
      (case find_row idf uid rows of Some r \<Rightarrow> hashf (row_cols r) | None \<Rightarrow> ZERO_HASH)"
    and versions': "map ver_cols versions' = map ver_cols versions @ cs"
    and row: "row_cols row = last cs"
  shows "chains_ok idf ancf hashf versions' (replace_row idf row rows)"
proof -
  have last: "idf (last cs) = uid"
    using cs(1,2) last_in_set by blast
  have new: "versions_of idf k versions' = versions_of idf k versions @ (if k = uid then cs else [])" for k
    using cs(2) by (auto simp: versions_of_def versions' filter_id_conv filter_empty_conv)
  have "chain_ends ancf hashf (versions_of idf uid versions @ cs) (Some (last cs))"
  proof (cases "find_row idf uid rows")
    case None
    with ok have "versions_of idf uid versions = []"
      by (auto simp: chains_ok_def chain_ends_def dest!: spec [of _ uid])
    with None anc cs show ?thesis
      by (simp add: chain_ends_def)
  next
    case (Some r)
    with ok have "chain_ends ancf hashf (versions_of idf uid versions) (Some (row_cols r))"
      by (auto simp: chains_ok_def dest!: spec [of _ uid])
    with Some anc cs show ?thesis
      by (simp add: chain_ends_def windows_linked_append)
  qed
  then show ?thesis
    using ok unfolding chains_ok_def find_row_replace row last new by simp
qed

lemma chains_ok_delete:
  assumes "chains_ok idf ancf hashf versions rows"
  shows "chains_ok idf ancf hashf (delete_versions idf uid versions) (delete_rows idf uid rows)"
proof -
  have "versions_of idf k (delete_versions idf uid versions) =
      (if k = uid then [] else versions_of idf k versions)" for k
    unfolding versions_of_def delete_versions_def by (induction versions) auto
  then show ?thesis
    using assms by (simp add: chains_ok_def find_row_delete chain_ends_def)
qed

lemma chains_ok_stamp:
  assumes "map ver_cols versions' = map ver_cols versions"
    and "\<And>uid. map_option row_cols (find_row idf uid rows') = map_option row_cols (find_row idf uid rows)"
  shows "chains_ok idf ancf hashf versions' rows' \<longleftrightarrow> chains_ok idf ancf hashf versions rows"
  by (simp add: chains_ok_def versions_of_def assms)

section \<open>The storage keeps the chains\<close>

definition history_ok :: "db \<Rightarrow> bool" where
  "history_ok db \<longleftrightarrow>
     chains_ok col_card_id col_ancestor_hash col_hash (card_versions db) (cards_table db) \<and>
     chains_ok tcol_tag_id tcol_ancestor_hash tcol_hash (tag_versions db) (tags_table db)"

text \<open>Every stored version decodes and verifies, as every live row does.\<close>

definition versions_ok :: "ext \<Rightarrow> db \<Rightarrow> bool" where
  "versions_ok E db \<longleftrightarrow>
     (\<forall>r\<in>set (card_versions db). storable_card E (ver_cols r)) \<and>
     (\<forall>r\<in>set (tag_versions db). storable_tag E (ver_cols r)) \<and>
     distinct (map (\<lambda>r. card_key (ver_cols r)) (card_versions db)) \<and>
     distinct (map (\<lambda>r. tag_key (ver_cols r)) (tag_versions db))"

lemma windows_linked_map:
  "windows_linked (\<lambda>c. ancf (f c)) (\<lambda>c. hashf (f c)) xs \<Longrightarrow> windows_linked ancf hashf (map f xs)"
  unfolding windows_linked_def by (simp add: successively_map)

lemma card_params_ancestor [simp]: "col_ancestor_hash (card_params E c) = card_ancestor_hash c"
  by (simp add: card_params_def)

lemma tag_params_ancestor [simp]: "tcol_ancestor_hash (tag_params E t) = tag_ancestor_hash t"
  by (simp add: tag_params_def)

lemma insertable_distinct:
  assumes "insertable key cs rows" "distinct (map (\<lambda>r. key (ver_cols r)) rows)"
  shows "distinct (map (\<lambda>r. key (ver_cols r)) (rows @ map (\<lambda>c. \<lparr>ver_cols = c, ver_seq = 0\<rparr>) cs))"
  using assms unfolding insertable_def by (simp add: comp_def Int_commute image_image)

lemma push_cards_history:
  assumes hist: "history_ok tx" "versions_ok E tx" and ok: "item_ok E K (ItemCards versions)"
    and res: "push_card_versions_inner E tx versions = Ok tx'"
  shows "history_ok tx' \<and> versions_ok E tx'"
proof -
  have facts: "tx' = after_card_push E tx versions" "versions \<noteq> []"
    "\<forall>v\<in>set versions. card_verify (blake3 E) v"
    "card_ancestor_hash (hd versions) = ancestor_in_cards tx (card_id (hd versions))"
    "windows_linked card_ancestor_hash card_hash versions"
    "insertable card_key (map (card_params E) versions) (card_versions tx)"
    using res by (simp_all add: push_card_inner_iff)
  have ids: "\<forall>v\<in>set versions. card_id v = card_id (hd versions)" "\<forall>v\<in>set versions. card_typed E v"
    using ok unfolding item_ok.simps by blast+
  have "chains_ok col_card_id col_ancestor_hash col_hash (card_versions tx') (cards_table tx')"
    unfolding facts(1) after_card_push_def
  proof (simp, rule chains_ok_push [where cs = "map (card_params E) versions" and uid = "card_id (hd versions)"])
    show "chains_ok col_card_id col_ancestor_hash col_hash (card_versions tx) (cards_table tx)"
      using hist(1) by (simp add: history_ok_def)
    show "\<forall>c\<in>set (map (card_params E) versions). col_card_id c = card_id (hd versions)"
      using ids(1) by auto
    show "windows_linked col_ancestor_hash col_hash (map (card_params E) versions)"
      using facts(5) by (intro windows_linked_map) simp
    show "col_ancestor_hash (hd (map (card_params E) versions)) =
        (case find_row col_card_id (card_id (hd versions)) (cards_table tx) of
           Some r \<Rightarrow> col_hash (row_cols r) | None \<Rightarrow> ZERO_HASH)"
      using facts(2,4) by (simp add: hd_map ancestor_in_cards_def)
  qed (use facts(2) in \<open>simp_all add: comp_def last_map\<close>)
  moreover have "versions_ok E tx'"
    using insertable_distinct [OF facts(6)] hist(2) facts(3) ids(2)
    by (simp add: versions_ok_def facts(1) after_card_push_def comp_def ball_Un)
      (auto simp: storable_card_def)
  ultimately show ?thesis
    using hist(1) by (simp add: history_ok_def facts(1) after_card_push_def)
qed

lemma push_tags_history:
  assumes hist: "history_ok tx" "versions_ok E tx" and ok: "item_ok E K (ItemTags versions)"
    and res: "push_tag_versions_inner E tx versions = Ok tx'"
  shows "history_ok tx' \<and> versions_ok E tx'"
proof -
  obtain tv where facts: "versions \<noteq> []" "\<forall>v\<in>set versions. tag_verify (blake3 E) v"
    "tag_ancestor_hash (hd versions) = ancestor_in_tags tx (tag_id (hd versions))"
    "windows_linked tag_ancestor_hash tag_hash versions"
    and tv: "insert_versions tag_key (map (tag_params E) versions) (tag_versions tx) = Ok tv"
    and tx': "tx' = tx\<lparr>tag_versions := tv,
       tags_table := replace_row tcol_tag_id (new_tag_row E (last versions)) (tags_table tx)\<rparr>"
    using res by (rule push_tag_inner_Ok)
  have ins: "insertable tag_key (map (tag_params E) versions) (tag_versions tx)"
    and tv_eq: "tv = tag_versions tx @ map (\<lambda>v. \<lparr>ver_cols = tag_params E v, ver_seq = 0\<rparr>) versions"
    using tv by (simp_all add: insert_versions_Ok comp_def)
  have ids: "\<forall>v\<in>set versions. tag_id v = tag_id (hd versions)"
    "\<forall>v\<in>set versions. tag_typed E v \<and> sorted_wrt (<) (tag_implies v)"
    using ok unfolding item_ok.simps by blast+
  have "chains_ok tcol_tag_id tcol_ancestor_hash tcol_hash (tag_versions tx') (tags_table tx')"
    unfolding tx' tv_eq
  proof (simp, rule chains_ok_push [where cs = "map (tag_params E) versions" and uid = "tag_id (hd versions)"])
    show "chains_ok tcol_tag_id tcol_ancestor_hash tcol_hash (tag_versions tx) (tags_table tx)"
      using hist(1) by (simp add: history_ok_def)
    show "\<forall>c\<in>set (map (tag_params E) versions). tcol_tag_id c = tag_id (hd versions)"
      using ids(1) by auto
    show "windows_linked tcol_ancestor_hash tcol_hash (map (tag_params E) versions)"
      using facts(4) by (intro windows_linked_map) simp
    show "tcol_ancestor_hash (hd (map (tag_params E) versions)) =
        (case find_row tcol_tag_id (tag_id (hd versions)) (tags_table tx) of
           Some r \<Rightarrow> tcol_hash (row_cols r) | None \<Rightarrow> ZERO_HASH)"
      using facts(1,3) by (simp add: hd_map ancestor_in_tags_def)
  qed (use facts(1) in \<open>simp_all add: comp_def last_map\<close>)
  moreover have "versions_ok E tx'"
    using insertable_distinct [OF ins] hist(2) facts(2) ids(2)
    by (simp add: versions_ok_def tx' tv_eq comp_def ball_Un) (auto simp: storable_tag_def)
  ultimately show ?thesis
    using hist(1) by (simp add: history_ok_def tx')
qed

lemma distinct_delete_versions:
  "distinct (map f rows) \<Longrightarrow> distinct (map f (delete_versions idf uid rows))"
  by (simp add: delete_versions_def distinct_map_filter)

lemma set_delete_versions: "set (delete_versions idf uid rows) \<subseteq> set rows"
  by (auto simp: delete_versions_def)

lemma apply_item_history:
  assumes "history_ok tx \<and> versions_ok E tx" "item_ok E K item"
    and "apply_item E item (tx, aff) = Ok (tx', aff')"
  shows "history_ok tx' \<and> versions_ok E tx'"
proof (cases item)
  case (ItemCards versions)
  then show ?thesis
    using assms push_cards_history [of tx E K versions tx']
    by (auto simp: apply_item_def outcome_simps simp del: item_ok.simps)
next
  case (ItemTags versions)
  then show ?thesis
    using assms push_tags_history [of tx E K versions tx']
    by (auto simp: apply_item_def outcome_simps simp del: item_ok.simps)
next
  case (ItemDeleteCard uid)
  with assms(1,3) show ?thesis
    using set_delete_versions [of col_card_id uid "card_versions tx"]
    by (auto simp: apply_item_def outcome_simps delete_card_inner_Ok history_ok_def chains_ok_delete
        versions_ok_def distinct_delete_versions)
next
  case (ItemDeleteTag uid)
  with assms(1,3) show ?thesis
    using set_delete_versions [of tcol_tag_id uid "tag_versions tx"]
    by (auto simp: apply_item_def outcome_simps delete_tag_inner_Ok history_ok_def chains_ok_delete
        versions_ok_def distinct_delete_versions)
qed

lemma apply_items_history:
  "history_ok tx \<and> versions_ok E tx \<Longrightarrow> \<forall>item\<in>set items. item_ok E K item \<Longrightarrow>
     apply_items E index items (tx, aff) = Ok (tx', aff') \<Longrightarrow> history_ok tx' \<and> versions_ok E tx'"
proof (induction items arbitrary: index tx aff)
  case (Cons item items)
  from Cons.prems(3) obtain tx1 aff1 where first: "apply_item E item (tx, aff) = Ok (tx1, aff1)"
    and rest: "apply_items E (Suc index) items (tx1, aff1) = Ok (tx', aff')"
    by (auto simp: outcome_simps)
  have "history_ok tx1 \<and> versions_ok E tx1"
    using apply_item_history [where K = K, OF Cons.prems(1) _ first] Cons.prems(2) by simp
  then show ?case
    using Cons.IH [OF _ _ rest] Cons.prems(2) by simp
qed simp

lemma map_ver_cols_all: "map ver_cols vs = map ver_cols vs' \<Longrightarrow>
    ((\<forall>r\<in>set vs. P (ver_cols r)) \<longleftrightarrow> (\<forall>r\<in>set vs'. P (ver_cols r))) \<and>
    (distinct (map (\<lambda>r. key (ver_cols r)) vs) \<longleftrightarrow> distinct (map (\<lambda>r. key (ver_cols r)) vs'))"
proof -
  assume eq: "map ver_cols vs = map ver_cols vs'"
  have eqs: "(\<forall>r\<in>set us. P (ver_cols r)) \<longleftrightarrow> list_all P (map ver_cols us)"
    "map (\<lambda>r. key (ver_cols r)) us = map key (map ver_cols us)" for us
    by (simp_all add: list_all_iff comp_def)
  show ?thesis by (simp only: eqs eq)
qed

lemma commit_history:
  assumes "commit_txn E now (tx, aff) = Ok db'"
  shows "history_ok db' \<and> versions_ok E db' \<longleftrightarrow> history_ok tx \<and> versions_ok E tx"
proof -
  note same = commit_entries [OF assms]
  have entries: "map_option row_cols (find_row col_card_id uid (cards_table db')) =
      map_option row_cols (find_row col_card_id uid (cards_table tx))"
    "map_option row_cols (find_row tcol_tag_id uid (tags_table db')) =
      map_option row_cols (find_row tcol_tag_id uid (tags_table tx))" for uid
    using same(1,2) [of uid] by (simp_all add: card_log.entry_def tag_log.entry_def)
  have "history_ok db' \<longleftrightarrow> history_ok tx"
    unfolding history_ok_def chains_ok_stamp [OF same(5) entries(1)]
      chains_ok_stamp [OF same(6) entries(2)] by (rule refl)
  then show ?thesis
    using map_ver_cols_all [OF same(5), of "storable_card E" card_key]
      map_ver_cols_all [OF same(6), of "storable_tag E" tag_key]
    unfolding versions_ok_def by simp
qed

lemma handle_request_history:
  assumes "history_ok db \<and> versions_ok E db" "request_ok E K req"
    and "handle_request E now db req = (result, db')"
  shows "history_ok db' \<and> versions_ok E db'"
  using assms(3)
proof (cases rule: handle_request_cases)
  case committed
  then obtain tx aff where "apply_items E 0 (items_of req) (db, no_affected) = Ok (tx, aff)"
    "commit_txn E now (tx, aff) = Ok db'"
    by (auto simp: committed_def)
  then show ?thesis
    using apply_items_history [OF assms(1)] assms(2) by (simp add: commit_history request_ok_def)
qed (use assms in simp)

lemma reachable_history: "reachable E K db \<Longrightarrow> history_ok db \<and> versions_ok E db"
proof (induction rule: reachable.induct)
  case reachable_init
  then show ?case
    by (simp add: history_ok_def versions_ok_def empty_db_def chains_ok_Nil)
next
  case (reachable_request db req now result db')
  then show ?case
    using handle_request_history [where K = K] by blast
qed

section \<open>The history reads\<close>

lemma map_insort_key:
  assumes "\<forall>y\<in>set (x # ys). k (f y) = g y"
  shows "map f (insort_key g x ys) = insort_key k (f x) (map f ys)"
  using assms by (induction ys) auto

lemma map_sort_key:
  assumes "\<forall>x\<in>set xs. k (f x) = g x"
  shows "map f (sort_key g xs) = sort_key k (map f xs)"
  using assms
proof (induction xs)
  case (Cons x xs)
  then have "map f (insort_key g x (sort_key g xs)) = insort_key k (f x) (map f (sort_key g xs))"
    by (intro map_insort_key) simp
  with Cons show ?case by simp
qed simp

lemma card_history_result:
  assumes "postcard_ok E" "versions_ok E db"
  shows "storage_get_card_history E db uid limit =
    Ok (limit_rows limit (sort_key (\<lambda>v. i64_from_nn (card_count v))
      (map (card_of E) (versions_of col_card_id uid (card_versions db)))))"
proof -
  let ?rows = "filter (\<lambda>r. col_card_id (ver_cols r) = uid) (card_versions db)"
  have stor: "\<forall>r\<in>set ?rows. storable_card E (ver_cols r)"
    using assms(2) by (simp add: versions_ok_def)
  have sub: "set (limit_rows limit (sort_key (\<lambda>r. col_count (ver_cols r)) ?rows)) \<subseteq> set ?rows"
    using set_limit_rows by (metis set_sort)
  have "map (\<lambda>r. card_of E (ver_cols r)) (sort_key (\<lambda>r. col_count (ver_cols r)) ?rows) =
      sort_key (\<lambda>v. i64_from_nn (card_count v)) (map (\<lambda>r. card_of E (ver_cols r)) ?rows)"
    by (rule map_sort_key) (use stor card_of_fields(6) [OF assms(1)] in blast)
  moreover have "map (\<lambda>r. card_of E (ver_cols r)) ?rows =
      map (card_of E) (versions_of col_card_id uid (card_versions db))"
    by (simp add: versions_of_def filter_map comp_def)
  moreover have "map f (limit_rows limit xs) = limit_rows limit (map f xs)"
    for f :: "card_cols version_row \<Rightarrow> card" and xs
    by (simp add: limit_rows_def take_map split: option.split)
  moreover have "collect_results (\<lambda>r. card_from_row E (ver_cols r))
      (limit_rows limit (sort_key (\<lambda>r. col_count (ver_cols r)) ?rows)) =
      Ok (map (\<lambda>r. card_of E (ver_cols r)) (limit_rows limit (sort_key (\<lambda>r. col_count (ver_cols r)) ?rows)))"
    by (rule collect_cards [OF assms(1)]) (use stor sub in blast)
  ultimately show ?thesis
    by (simp add: storage_get_card_history_def)
qed

lemma tag_history_result:
  assumes "postcard_ok E" "versions_ok E db"
  shows "storage_get_tag_history E db uid limit =
    Ok (limit_rows limit (sort_key (\<lambda>v. i64_from_nn (tag_count v))
      (map (tag_of E) (versions_of tcol_tag_id uid (tag_versions db)))))"
proof -
  let ?rows = "filter (\<lambda>r. tcol_tag_id (ver_cols r) = uid) (tag_versions db)"
  have stor: "\<forall>r\<in>set ?rows. storable_tag E (ver_cols r)"
    using assms(2) by (simp add: versions_ok_def)
  have sub: "set (limit_rows limit (sort_key (\<lambda>r. tcol_count (ver_cols r)) ?rows)) \<subseteq> set ?rows"
    using set_limit_rows by (metis set_sort)
  have "map (\<lambda>r. tag_of E (ver_cols r)) (sort_key (\<lambda>r. tcol_count (ver_cols r)) ?rows) =
      sort_key (\<lambda>v. i64_from_nn (tag_count v)) (map (\<lambda>r. tag_of E (ver_cols r)) ?rows)"
    by (rule map_sort_key) (use stor tag_of_fields(5) [OF assms(1)] in blast)
  moreover have "map (\<lambda>r. tag_of E (ver_cols r)) ?rows =
      map (tag_of E) (versions_of tcol_tag_id uid (tag_versions db))"
    by (simp add: versions_of_def filter_map comp_def)
  moreover have "map f (limit_rows limit xs) = limit_rows limit (map f xs)"
    for f :: "tag_cols version_row \<Rightarrow> tag" and xs
    by (simp add: limit_rows_def take_map split: option.split)
  moreover have "collect_results (\<lambda>r. tag_from_row E (ver_cols r))
      (limit_rows limit (sort_key (\<lambda>r. tcol_count (ver_cols r)) ?rows)) =
      Ok (map (\<lambda>r. tag_of E (ver_cols r)) (limit_rows limit (sort_key (\<lambda>r. tcol_count (ver_cols r)) ?rows)))"
    by (rule collect_tags [OF assms(1)]) (use stor sub in blast)
  ultimately show ?thesis
    by (simp add: storage_get_tag_history_def)
qed

text \<open>The chain of a live entity, decoded.\<close>

lemma live_card_chain:
  assumes pc: "postcard_ok E" and reach: "reachable E K db" and live: "card_log.entry db uid = Some cols"
  defines "chain \<equiv> map (card_of E) (versions_of col_card_id uid (card_versions db))"
  shows "chain \<noteq> []" "last chain = card_of E cols" "card_ancestor_hash (hd chain) = ZERO_HASH"
    "windows_linked card_ancestor_hash card_hash chain"
    "\<forall>v\<in>set chain. card_id v = uid \<and> card_verify (blake3 E) v"
proof -
  let ?cs = "versions_of col_card_id uid (card_versions db)"
  note hist = reachable_history [OF reach]
  have "chain_ends col_ancestor_hash col_hash ?cs (Some cols)"
    using hist live by (auto simp: history_ok_def chains_ok_def card_log.entry_def dest!: spec [of _ uid])
  then have c: "?cs \<noteq> []" "col_ancestor_hash (hd ?cs) = ZERO_HASH"
    "windows_linked col_ancestor_hash col_hash ?cs" "last ?cs = cols"
    by (simp_all add: chain_ends_def)
  have stor: "\<forall>c\<in>set ?cs. storable_card E c \<and> col_card_id c = uid"
    using hist by (auto simp: versions_ok_def versions_of_def)
  have stored: "card_params E (card_of E c) = c" if "c \<in> set ?cs" for c
    using storable_card_decodes(2) [OF pc] stor that by blast
  show "chain \<noteq> []" "last chain = card_of E cols"
    using c by (simp_all add: chain_def last_map)
  have fields: "card_ancestor_hash (card_of E c) = col_ancestor_hash c \<and> card_hash (card_of E c) = col_hash c"
    if "c \<in> set ?cs" for c
    using stored [OF that] card_params_ancestor [of E "card_of E c"] card_params_simps(3) [of E "card_of E c"]
    by simp
  show "card_ancestor_hash (hd chain) = ZERO_HASH"
    using c(1,2) fields [of "hd ?cs"] by (simp add: chain_def hd_map)
  show "windows_linked card_ancestor_hash card_hash chain"
    using c(3) unfolding windows_linked_def chain_def successively_map
    by (rule successively_mono) (simp add: fields)
  show "\<forall>v\<in>set chain. card_id v = uid \<and> card_verify (blake3 E) v"
    using stor storable_card_decodes(4) [OF pc] card_of_fields(1) [OF pc] by (auto simp: chain_def)
qed

lemma live_tag_chain:
  assumes pc: "postcard_ok E" and reach: "reachable E K db" and live: "tag_log.entry db uid = Some cols"
  defines "chain \<equiv> map (tag_of E) (versions_of tcol_tag_id uid (tag_versions db))"
  shows "chain \<noteq> []" "last chain = tag_of E cols" "tag_ancestor_hash (hd chain) = ZERO_HASH"
    "windows_linked tag_ancestor_hash tag_hash chain"
    "\<forall>v\<in>set chain. tag_id v = uid \<and> tag_verify (blake3 E) v"
proof -
  let ?cs = "versions_of tcol_tag_id uid (tag_versions db)"
  note hist = reachable_history [OF reach]
  have "chain_ends tcol_ancestor_hash tcol_hash ?cs (Some cols)"
    using hist live by (auto simp: history_ok_def chains_ok_def tag_log.entry_def dest!: spec [of _ uid])
  then have c: "?cs \<noteq> []" "tcol_ancestor_hash (hd ?cs) = ZERO_HASH"
    "windows_linked tcol_ancestor_hash tcol_hash ?cs" "last ?cs = cols"
    by (simp_all add: chain_ends_def)
  have stor: "\<forall>c\<in>set ?cs. storable_tag E c \<and> tcol_tag_id c = uid"
    using hist by (auto simp: versions_ok_def versions_of_def)
  have stored: "tag_params E (tag_of E c) = c" if "c \<in> set ?cs" for c
    using storable_tag_decodes(2) [OF pc] stor that by blast
  show "chain \<noteq> []" "last chain = tag_of E cols"
    using c by (simp_all add: chain_def last_map)
  have fields: "tag_ancestor_hash (tag_of E c) = tcol_ancestor_hash c \<and> tag_hash (tag_of E c) = tcol_hash c"
    if "c \<in> set ?cs" for c
    using stored [OF that] tag_params_ancestor [of E "tag_of E c"] tag_params_simps(2) [of E "tag_of E c"]
    by simp
  show "tag_ancestor_hash (hd chain) = ZERO_HASH"
    using c(1,2) fields [of "hd ?cs"] by (simp add: chain_def hd_map)
  show "windows_linked tag_ancestor_hash tag_hash chain"
    using c(3) unfolding windows_linked_def chain_def successively_map
    by (rule successively_mono) (simp add: fields)
  show "\<forall>v\<in>set chain. tag_id v = uid \<and> tag_verify (blake3 E) v"
    using stor storable_tag_decodes(4) [OF pc] tag_of_fields(1) [OF pc] by (auto simp: chain_def)
qed

lemma dead_no_versions:
  assumes "reachable E K db"
  shows "card_log.entry db uid = None \<Longrightarrow> versions_of col_card_id uid (card_versions db) = []"
    "tag_log.entry db uid = None \<Longrightarrow> versions_of tcol_tag_id uid (tag_versions db) = []"
  using reachable_history [OF assms]
  by (auto simp: history_ok_def chains_ok_def chain_ends_def card_log.entry_def tag_log.entry_def
      dest!: spec [of _ uid])

end
