(* ===== verification/Demo.thy ===== *)
theory Demo
  imports Storage_History
begin

text \<open>
  Concrete instances for the witnesses: functions in place of the third-party crates that satisfy
  the documented laws, a few entities, and the states reached by pushing them.
\<close>

section \<open>A codec and a hash\<close>

definition uuid_of_bytes :: "bytes \<Rightarrow> uuid" where
  "uuid_of_bytes bs = word_of_int (foldl (\<lambda>a b. a * 256 + uint b) 0 bs)"

primrec uuids_of_bytes :: "nat \<Rightarrow> bytes \<Rightarrow> uuid list" where
  "uuids_of_bytes 0 bs = []"
| "uuids_of_bytes (Suc n) bs = uuid_of_bytes (take 16 bs) # uuids_of_bytes n (drop 16 bs)"

definition demo_hash :: "bytes \<Rightarrow> hash" where
  "demo_hash bs = 2 * fold (\<lambda>b h. h * 31 + ucast b) bs 7 + 1"

lemma demo_hash_nonzero [simp]: "demo_hash bs \<noteq> 0"
proof
  assume "demo_hash bs = 0"
  then have "even (demo_hash bs)" by simp
  then show False by (simp add: demo_hash_def)
qed

definition demo_ext :: ext where
  "demo_ext =
     \<lparr>blake3 = demo_hash, to_allocvec = (\<lambda>us. concat (map uuid_bytes us)),
      from_bytes = (\<lambda>bs. Some (uuids_of_bytes (length bs div 16) bs)),
      timestamp_ok = (\<lambda>ms. abs ms < 2 ^ 53)\<rparr>"

lemma foldl_be_bytes: "foldl (\<lambda>a b. a * 256 + uint b) 0 (be_bytes n v) = v mod 256 ^ n"
proof (induction n arbitrary: v)
  case (Suc n)
  have "v mod 256 ^ Suc n = 256 * ((v div 256) mod 256 ^ n) + v mod 256"
    by (simp add: zmod_zmult2_eq)
  then show ?case
    by (simp add: Suc.IH uint_word_of_int)
qed simp

lemma uuid_of_uuid_bytes [simp]: "uuid_of_bytes (uuid_bytes u) = u"
proof -
  have "uint u mod 256 ^ 16 = uint u"
    using uint_lt2p [of u] by simp
  then show ?thesis
    by (simp add: uuid_of_bytes_def uuid_bytes_def foldl_be_bytes)
qed

lemma uuids_of_uuid_bytes: "uuids_of_bytes (length us) (concat (map uuid_bytes us)) = us"
  by (induction us) simp_all

lemma demo_ext_simps [simp]:
  "blake3 demo_ext = demo_hash" "timestamp_ok demo_ext ms \<longleftrightarrow> abs ms < 2 ^ 53"
  by (simp_all add: demo_ext_def)

lemma demo_postcard [simp]: "postcard_ok demo_ext"
  by (simp add: postcard_ok_def demo_ext_def uuids_of_uuid_bytes)

section \<open>An insertion-ordered map on association lists\<close>

definition assoc_keys :: "(uuid \<times> 'v) list \<Rightarrow> uuid list" where
  "assoc_keys m = remdups (map fst m)"

fun insert_by :: "('v \<Rightarrow> 'v \<Rightarrow> bool) \<Rightarrow> uuid \<times> 'v \<Rightarrow> (uuid \<times> 'v) list \<Rightarrow> (uuid \<times> 'v) list" where
  "insert_by le p [] = [p]"
| "insert_by le p (q # qs) = (if le (snd p) (snd q) then p # q # qs else q # insert_by le p qs)"

definition assoc_sort :: "('v \<Rightarrow> 'v \<Rightarrow> bool) \<Rightarrow> (uuid \<times> 'v) list \<Rightarrow> (uuid \<times> 'v) list" where
  "assoc_sort le m = foldr (insert_by le) (map (\<lambda>k. (k, the (map_of m k))) (assoc_keys m)) []"

definition assoc_map :: "('v, (uuid \<times> 'v) list) index_map" where
  "assoc_map =
     \<lparr>im_collect = rev, im_get = map_of, im_swap_remove = (\<lambda>k. filter (\<lambda>p. fst p \<noteq> k)),
      im_insert = (\<lambda>k v m. (k, v) # m), im_sort_by = assoc_sort,
      im_into_values = (\<lambda>m. map (\<lambda>k. the (map_of m k)) (assoc_keys m))\<rparr>"

lemma mset_insert_by [simp]: "mset (insert_by le p qs) = add_mset p (mset qs)"
  by (induction qs) auto

lemma mset_insort [simp]: "mset (foldr (insert_by le) ps []) = mset ps"
  by (induction ps) auto

lemma set_insert_by [simp]: "set (insert_by le p qs) = insert p (set qs)"
  by (induction qs) auto

lemma insort_by_sorted:
  assumes "\<forall>a b. le a b \<or> le b a" "\<forall>a b c. le a b \<longrightarrow> le b c \<longrightarrow> le a c"
  shows "sorted_wrt (\<lambda>p q. le (snd p) (snd q)) (foldr (insert_by le) ps [])"
proof (induction ps)
  case (Cons p ps)
  have "sorted_wrt (\<lambda>p q. le (snd p) (snd q)) (insert_by le p qs)"
    if "sorted_wrt (\<lambda>p q. le (snd p) (snd q)) qs" for qs
    using that
  proof (induction qs)
    case (Cons q qs)
    have "le (snd p) (snd r)" if "le (snd p) (snd q)" "r \<in> set qs" for r
      using Cons.prems that assms(2) by (meson sorted_wrt.simps(2))
    with Cons assms(1) show ?case by auto
  qed simp
  with Cons show ?case by simp
qed simp

lemma map_of_assoc_pairs: "map_of (map (\<lambda>k. (k, the (map_of m k))) (assoc_keys m)) = map_of m"
proof
  fix k
  have "k \<in> set (assoc_keys m) \<longleftrightarrow> (\<exists>v. map_of m k = Some v)"
    unfolding assoc_keys_def set_remdups using map_of_eq_None_iff [of m k] by auto
  then show "map_of (map (\<lambda>k. (k, the (map_of m k))) (assoc_keys m)) k = map_of m k"
    by (cases "map_of m k") (simp_all add: map_of_map_restrict restrict_map_def)
qed

lemma assoc_sort_facts:
  "map_of (assoc_sort le m) = map_of m" "distinct (map fst (assoc_sort le m))"
proof -
  let ?ps = "map (\<lambda>k. (k, the (map_of m k))) (assoc_keys m)"
  have ms: "mset (assoc_sort le m) = mset ?ps"
    by (simp add: assoc_sort_def del: mset_map)
  have d: "distinct (map fst ?ps)"
    by (simp add: comp_def assoc_keys_def)
  have "mset (map fst (assoc_sort le m)) = mset (map fst ?ps)"
    unfolding mset_map ms ..
  with d show d': "distinct (map fst (assoc_sort le m))"
    using mset_eq_imp_distinct_iff by blast
  have "set (assoc_sort le m) = set ?ps"
    using arg_cong [OF ms, of set_mset] by (simp only: set_mset_mset)
  then have "map_of (assoc_sort le m) = map_of ?ps"
    using map_of_inject_set [OF d' d] by blast
  then show "map_of (assoc_sort le m) = map_of m"
    by (simp only: map_of_assoc_pairs)
qed

lemma assoc_values_distinct:
  assumes "distinct (map fst m)"
  shows "map (\<lambda>k. the (map_of m k)) (assoc_keys m) = map snd m"
  using assms by (auto simp: assoc_keys_def distinct_remdups_id)

lemma assoc_map_ok: "index_map_ok assoc_map"
  unfolding index_map_ok_def
proof (intro conjI allI impI)
  show "im_get assoc_map (im_collect assoc_map ps) = map_of (rev ps)" for ps :: "(uuid \<times> 'a) list"
    by (simp add: assoc_map_def)
  show "im_get assoc_map (im_swap_remove assoc_map k m) = (im_get assoc_map m)(k := None)"
    for k and m :: "(uuid \<times> 'a) list"
    by (induction m) (auto simp: assoc_map_def fun_eq_iff)
  show "im_get assoc_map (im_insert assoc_map k v m) = (im_get assoc_map m)(k \<mapsto> v)"
    for k and v :: 'a and m
    by (simp add: assoc_map_def)
  show "im_get assoc_map (im_sort_by assoc_map le m) = im_get assoc_map m"
    for le and m :: "(uuid \<times> 'a) list"
    by (simp add: assoc_map_def assoc_sort_facts)
  show "\<exists>ks. distinct ks \<and> set ks = dom (im_get assoc_map m) \<and>
      im_into_values assoc_map m = map (\<lambda>k. the (im_get assoc_map m k)) ks"
    for m :: "(uuid \<times> 'a) list"
    by (rule exI [of _ "assoc_keys m"]) (auto simp: assoc_map_def assoc_keys_def dom_map_of_conv_image_fst)
  fix le :: "'a \<Rightarrow> 'a \<Rightarrow> bool" and m
  assume le: "\<forall>a b. le a b \<or> le b a" "\<forall>a b c. le a b \<longrightarrow> le b c \<longrightarrow> le a c"
  have "im_into_values assoc_map (im_sort_by assoc_map le m) = map snd (assoc_sort le m)"
    by (simp add: assoc_map_def assoc_values_distinct [OF assoc_sort_facts(2)])
  then show "sorted_wrt le (im_into_values assoc_map (im_sort_by assoc_map le m))"
    using insort_by_sorted [OF le] by (simp add: assoc_sort_def sorted_wrt_map)
qed

section \<open>Entities and states\<close>

definition demo_card :: card where
  "demo_card = card_first demo_hash 1 ''buy milk'' 5 [] False 1000 None"

definition demo_edit :: card where
  "demo_edit =
     (case card_next demo_hash demo_card ''buy oat milk'' 5 [] True 2000 None :: (unit, card) outcome of
        Ok c \<Rightarrow> c)"

definition demo_tag :: tag where
  "demo_tag = tag_first demo_hash 2 ''errands'' None 1000"

definition demo_db :: db where
  "demo_db = snd (handle_request demo_ext 0 empty_db (PushCardVersions [demo_card]))"

lemma demo_card_simps [simp]:
  "card_id demo_card = 1" "card_ancestor_hash demo_card = ZERO_HASH" "card_tags demo_card = []"
  "card_count demo_card = NonNegativeI64 1" "card_priority demo_card = 5"
  "card_created_at demo_card = 1000" "card_modified_at demo_card = 1000"
  "card_due_date demo_card = None" "card_verify demo_hash demo_card" "card_blazed demo_card = False"
  "card_content demo_card = ''buy milk''"
  by (simp_all add: demo_card_def card_first_def Let_def card_verify_iff card_expected_hash_def)

lemma demo_edit_next:
  "(card_next demo_hash demo_card ''buy oat milk'' 5 [] True 2000 None :: (unit, card) outcome) =
     Ok demo_edit"
  unfolding demo_edit_def card_next_def
  by (simp add: nn_successor nn_ok_def i64_max_def Let_def)

lemma demo_tag_simps [simp]:
  "tag_id demo_tag = 2" "tag_ancestor_hash demo_tag = ZERO_HASH" "tag_implies demo_tag = []"
  "tag_count demo_tag = NonNegativeI64 1" "tag_created_at demo_tag = 1000"
  "tag_modified_at demo_tag = 1000" "tag_verify demo_hash demo_tag"
  by (simp_all add: demo_tag_def tag_first_def tag_first_with_implies_def Let_def normalize_implies_def
      tag_verify_iff tag_expected_hash_def)

lemma demo_push_ok: "request_ok demo_ext {1} (PushCardVersions [demo_card])"
  by (simp add: request_ok_def card_typed_def nn_ok_def i64_max_def)

lemma demo_tag_push_ok: "request_ok demo_ext {1} (PushTagVersions [demo_tag])"
  by (simp add: request_ok_def tag_typed_def nn_ok_def i64_max_def)

lemma demo_run: "run demo_ext {1} empty_db demo_db"
  unfolding demo_db_def
  by (rule run_request [OF run_refl demo_push_ok]) (rule prod.collapse [symmetric])

lemma demo_reachable: "reachable demo_ext {1} demo_db"
  using demo_run reachable_init reachable_run by blast

lemma demo_pushed: "storage_push_card_versions demo_ext 0 empty_db [demo_card] = (Ok (), demo_db)"
proof -
  have "card_push_ok demo_ext empty_db [demo_card]"
    by (simp add: card_push_ok_def deleted_ids_def empty_db_def ancestor_in_cards_def find_row_def
        windows_linked_def insertable_def priority_free_def closed_tags_def i64_max_def)
  then obtain db' where db': "storage_push_card_versions demo_ext 0 empty_db [demo_card] = (Ok (), db')"
    using push_card_versions_Ok [of demo_ext "{1}" empty_db "[demo_card]" 0] demo_push_ok
    by (auto simp: storage_inv_empty implications_ok_empty request_ok_def simp del: item_ok.simps)
  then show ?thesis
    by (simp add: demo_db_def)
qed

lemma demo_entry:
  "card_log.entry demo_db = [1 \<mapsto> card_params demo_ext demo_card]"
  "db_sequence demo_db = 1" "deleted_ids demo_db = {}"
  using push_card_versions_effect [OF demo_pushed]
  by (simp_all add: card_log.entry_def empty_db_def find_row_def deleted_ids_def fun_eq_iff)

definition demo_tag_db :: db where
  "demo_tag_db = snd (handle_request demo_ext 0 empty_db (PushTagVersions [demo_tag]))"

lemma demo_tag_run: "run demo_ext {1} empty_db demo_tag_db"
  unfolding demo_tag_db_def
  by (rule run_request [OF run_refl demo_tag_push_ok]) (rule prod.collapse [symmetric])

lemma demo_tag_reachable: "reachable demo_ext {1} demo_tag_db"
  using demo_tag_run reachable_init reachable_run by blast

lemma demo_tag_pushed: "storage_push_tag_versions demo_ext 0 empty_db [demo_tag] = (Ok (), demo_tag_db)"
proof -
  have maps: "implies_pairs demo_ext (after_tag_push demo_ext empty_db [demo_tag]) = [(2, [])]"
    by (simp add: implies_pairs_def after_tag_push_def empty_db_def replace_row_def delete_rows_def)
  have "implies_of (graph_from_pairs [(2, [])]) uid = []" for uid
    by (simp add: implies_of_from_pairs)
  then have "implies_rel (graph_from_pairs [(2, [])]) = {}"
    by (simp add: implies_rel_def)
  then have "implications_ok demo_ext (after_tag_push demo_ext empty_db [demo_tag])"
    unfolding implications_ok_def live_graph_def maps
    by (simp add: after_tag_push_def empty_db_def replace_row_def delete_rows_def acyclic_def)
  moreover have "tag_id demo_tag \<notin> deleted_ids empty_db"
    "ancestor_in_tags empty_db (tag_id demo_tag) = ZERO_HASH"
    "insertable tag_key [tag_params demo_ext demo_tag] (tag_versions empty_db)"
    "db_sequence empty_db < i64_max"
    by (simp_all add: deleted_ids_def empty_db_def ancestor_in_tags_def find_row_def insertable_def i64_max_def)
  ultimately have "\<exists>db'. storage_push_tag_versions demo_ext 0 empty_db [demo_tag] = (Ok (), db')"
    unfolding push_tag_versions_Ok [OF demo_postcard storage_inv_empty demo_tag_push_ok [unfolded request_ok_simps]]
    by (simp add: windows_linked_def)
  then show ?thesis
    by (auto simp: demo_tag_db_def)
qed

lemma demo_tag_entry: "tag_log.entry demo_tag_db = [2 \<mapsto> tag_params demo_ext demo_tag]"
  using push_tag_versions_effect(1) [OF demo_tag_pushed]
  by (simp add: tag_log.entry_def empty_db_def find_row_def fun_eq_iff)

lemma demo_card_hash: "card_hash demo_card \<noteq> 0"
proof -
  have "card_hash demo_card = demo_hash (card_preimage_of demo_card)"
    using demo_card_simps(9) by (simp add: card_verify_iff card_expected_hash_preimage)
  then show ?thesis by simp
qed

definition demo_deleted_db :: db where
  "demo_deleted_db = snd (handle_request demo_ext 0 demo_db (DeleteCard 1))"

lemma demo_deleted_run: "run demo_ext {1} demo_db demo_deleted_db"
  unfolding demo_deleted_db_def
  by (rule run_request [OF run_refl _ prod.collapse [symmetric]]) (simp add: request_ok_def)

lemma demo_deleted_reachable: "reachable demo_ext {1} demo_deleted_db"
  by (rule reachable_run [OF demo_reachable demo_deleted_run])

lemma demo_deleted: "1 \<in> deleted_ids demo_deleted_db"
proof -
  have "(1 :: uuid) \<in> card_ids demo_db"
    using card_log.entry_None [of demo_db 1] by (simp add: card_ids_def demo_entry)
  then obtain db' where db': "storage_delete_card demo_ext 0 demo_db 1 = (Ok (deleted_new demo_hash 1), db')"
    using delete_card_Ok [OF reachable_inv [OF demo_reachable], where now = 0 and uid = 1]
    by (auto simp: demo_entry i64_max_def)
  then show ?thesis
    using delete_card_effect(3) [OF db'] by (simp add: demo_deleted_db_def)
qed

end
