(* ===== verification/Sync_Properties.thy ===== *)
theory Sync_Properties
  imports Demo
begin

text \<open>
  The properties of incremental synchronisation: what a client computes from a change set is what a
  full fetch would give it, and a client with a foreign history is told so.
\<close>

section \<open>Incremental synchronisation is a full fetch\<close>

text \<open>C1: a client that lists the cards and reads the root of a reachable state, and later presents
  that root to ask for the changes, is served; merging the change set into its list gives exactly
  the list, in the same order, that the server would return for all cards at that moment.\<close>

theorem incremental_sync_cards:
  assumes "index_map_ok IM" and "postcard_ok E" and "reachable E K d" and "run E K d d'"
  shows "\<exists>cards root changes.
    storage_list_cards E d FilterAll None = Ok cards \<and> storage_get_root d = Ok root \<and>
    storage_get_changes_since E d' (root_sequence root) (root_hash root) = Ok changes \<and>
    storage_list_cards E d' FilterAll None = Ok (apply_card_changeset IM cards changes)"
proof -
  note inv = reachable_inv [OF assms(3)]
  note steps = run_steps [OF assms(4) inv]
  show ?thesis
    using list_all_cards [OF assms(2) inv] get_root_result [OF inv]
      changes_since_root [OF assms(2) inv conjunct1 [OF steps]]
      apply_card_changeset_current [OF assms(1,2) inv conjunct1 [OF steps]]
      list_all_cards [OF assms(2) conjunct2 [OF steps]]
    by auto
qed

lemma incremental_sync_cards_witness:
  "\<exists>cards root changes.
    storage_list_cards demo_ext empty_db FilterAll None = Ok cards \<and>
    storage_get_root empty_db = Ok root \<and>
    storage_get_changes_since demo_ext demo_db (root_sequence root) (root_hash root) = Ok changes \<and>
    storage_list_cards demo_ext demo_db FilterAll None = Ok (apply_card_changeset assoc_map cards changes)"
  by (rule incremental_sync_cards [OF assoc_map_ok demo_postcard reachable_init demo_run])

text \<open>the same for tags. The merged list holds exactly the tags the server lists, each once;
  its order is left to the map, as the client sorts tags where it shows them.\<close>

theorem incremental_sync_tags:
  assumes "index_map_ok IM" and "postcard_ok E" and "reachable E K d" and "run E K d d'"
  shows "\<exists>tags root changes tags'.
    storage_list_tags E d = Ok tags \<and> storage_get_root d = Ok root \<and>
    storage_get_changes_since E d' (root_sequence root) (root_hash root) = Ok changes \<and>
    storage_list_tags E d' = Ok tags' \<and>
    mset (apply_tag_changeset IM tags changes) = mset tags'"
proof -
  note inv = reachable_inv [OF assms(3)]
  note steps = run_steps [OF assms(4) inv]
  obtain ts ts' where "storage_list_tags E d = Ok ts" "storage_list_tags E d' = Ok ts'"
    using list_tags_result [OF assms(2) inv] list_tags_result [OF assms(2) conjunct2 [OF steps]] by blast
  then show ?thesis
    using get_root_result [OF inv] changes_since_root [OF assms(2) inv conjunct1 [OF steps]]
      apply_tag_changeset_current [OF assms(1,2) inv conjunct1 [OF steps]]
    by auto
qed

lemma incremental_sync_tags_witness:
  "\<exists>tags root changes tags'.
    storage_list_tags demo_ext empty_db = Ok tags \<and> storage_get_root empty_db = Ok root \<and>
    storage_get_changes_since demo_ext demo_db (root_sequence root) (root_hash root) = Ok changes \<and>
    storage_list_tags demo_ext demo_db = Ok tags' \<and>
    mset (apply_tag_changeset assoc_map tags changes) = mset tags'"
  by (rule incremental_sync_tags [OF assoc_map_ok demo_postcard reachable_init demo_run])

section \<open>A foreign history is detected\<close>

text \<open>the changes since a sequence are served exactly when the hash presented is the root hash
  the server had after that very mutation; otherwise the client is told the server's hash, so that
  it fetches everything. The sequences in question are those the server has reached.\<close>

theorem changes_need_matching_root:
  assumes "postcard_ok E" and "reachable E K d" and "run E K d d'" and "0 < db_sequence d"
  shows "storage_get_changes_since E d' (NonNegativeI64 (db_sequence d)) claimed =
    (if claimed = db_root_hash d then Ok (changes_of E (db_sequence d) d')
     else Err (storage_error.RootHashMismatch (NonNegativeI64 (db_sequence d)) (db_root_hash d)))"
proof -
  note inv = reachable_inv [OF assms(2)]
  note steps = run_steps [OF assms(3) inv]
  have "stored_root_hash d' (db_sequence d) = Some (db_root_hash d)"
    using stored_hash_run [OF conjunct1 [OF steps] inv order_refl] stored_hash_current [OF inv assms(4)]
    by simp
  then show ?thesis
    by (simp add: changes_since_result [OF assms(1) conjunct2 [OF steps]] i64_from_nn_def)
qed

lemma changes_need_matching_root_witness:
  "storage_get_changes_since demo_ext demo_db (NonNegativeI64 1) (db_root_hash demo_db) =
     Ok (changes_of demo_ext 1 demo_db) \<and>
   storage_get_changes_since demo_ext demo_db (NonNegativeI64 1) (db_root_hash demo_db + 1) =
     Err (storage_error.RootHashMismatch (NonNegativeI64 1) (db_root_hash demo_db))"
  using changes_need_matching_root [OF demo_postcard demo_reachable run_refl, of "db_root_hash demo_db"]
    changes_need_matching_root [OF demo_postcard demo_reachable run_refl, of "db_root_hash demo_db + 1"]
  by (simp add: demo_entry)

end
