(* ===== verification/Storage_Total.thy ===== *)
theory Storage_Total
  imports Storage_History
begin

text \<open>
  No request makes the server panic: on a state that satisfies the invariants every row decodes, so
  each \<open>unwrap\<close> and \<open>expect\<close> on the way succeeds. The bulk history reads agree with the single ones.
\<close>

section \<open>Grouping the bulk histories\<close>

definition groups :: "nat option \<Rightarrow> ('t \<Rightarrow> uuid) \<Rightarrow> 't list \<Rightarrow> uuid \<rightharpoonup> 't list" where
  "groups limit idf rows uid =
     (let mine = filter (\<lambda>v. idf v = uid) rows in
      if mine = [] then None else Some (limit_rows limit mine))"

lemma limit_rows_snoc:
  "limit_rows limit (xs @ [x]) =
     (if (case limit of Some n \<Rightarrow> n \<le> length (limit_rows limit xs) | None \<Rightarrow> False)
      then limit_rows limit xs else limit_rows limit xs @ [x])"
  by (auto simp: limit_rows_def min_def split: option.split)

lemma limit_rows_Nil [simp]: "limit_rows limit [] = []"
  by (simp add: limit_rows_def split: option.split)

lemma push_history_groups:
  "push_history limit idf v (groups limit idf rows) = groups limit idf (rows @ [v])"
proof
  fix uid
  let ?mine = "filter (\<lambda>w. idf w = idf v) rows"
  have entry: "(case groups limit idf rows (idf v) of Some es \<Rightarrow> es | None \<Rightarrow> []) = limit_rows limit ?mine"
    by (simp add: groups_def Let_def)
  show "push_history limit idf v (groups limit idf rows) uid = groups limit idf (rows @ [v]) uid"
  proof (cases "uid = idf v")
    case True
    then show ?thesis
      unfolding push_history_def entry Let_def
      using limit_rows_snoc [of limit ?mine v] by (simp add: groups_def Let_def)
  next
    case False
    then show ?thesis
      by (simp add: push_history_def Let_def groups_def)
  qed
qed

lemma fold_push_history: "fold (push_history limit idf) rows Map.empty = groups limit idf rows"
proof (induction rows rule: rev_induct)
  case Nil
  show ?case by (simp add: groups_def fun_eq_iff)
next
  case (snoc v rows)
  then show ?case by (simp add: push_history_groups)
qed

text \<open>The rows of one id among those sorted by id and count are its rows sorted by count.\<close>

lemma filter_two_sorts:
  "filter (\<lambda>r. idf r = uid) (sort_key idf (sort_key countf rows)) =
     sort_key countf (filter (\<lambda>r. idf r = uid) rows)"
proof -
  have "sort_key idf (filter (\<lambda>r. idf r = uid) xs) = filter (\<lambda>r. idf r = uid) xs" for xs
    by (rule sort_key_id_if_sorted) (induction xs, auto)
  then have "filter (\<lambda>r. idf r = uid) (sort_key idf ys) = filter (\<lambda>r. idf r = uid) ys" for ys
    by (simp add: filter_sort)
  from this [of "sort_key countf rows"] show ?thesis
    by (simp only: filter_sort)
qed

lemma get_all_histories_result:
  assumes decode: "\<forall>r\<in>set table. mapper (ver_cols r) = Ok (f (ver_cols r)) \<and>
      idf (f (ver_cols r)) = fst (key (ver_cols r))"
  shows "\<exists>m. get_all_histories mapper key idf table limit ids = Ok m \<and>
    (\<forall>uid. m uid =
       (let mine = filter (\<lambda>r. fst (key (ver_cols r)) = uid) table in
        if mine = [] \<or> (\<exists>us. ids = Some us \<and> uid \<notin> set us) then None
        else Some (map (\<lambda>r. f (ver_cols r)) (limit_rows limit (sort_key (\<lambda>r. snd (key (ver_cols r))) mine)))))"
proof (cases "ids = Some []")
  case True
  then show ?thesis by (simp add: get_all_histories_def Let_def)
next
  case False
  let ?selected = "case ids of Some us \<Rightarrow> filter (\<lambda>r. fst (key (ver_cols r)) \<in> set us) table | None \<Rightarrow> table"
  let ?ordered = "sort_key (\<lambda>r. fst (key (ver_cols r))) (sort_key (\<lambda>r. snd (key (ver_cols r))) ?selected)"
  let ?f = "\<lambda>r. f (ver_cols r)"
  have sub: "set ?selected \<subseteq> set table"
    by (auto split: option.splits)
  have rows: "collect_results (\<lambda>r. mapper (ver_cols r)) ?ordered = Ok (map ?f ?ordered)"
    by (rule collect_results_all_Ok) (use decode sub in auto)
  have result: "get_all_histories mapper key idf table limit ids = Ok (groups limit idf (map ?f ?ordered))"
    using False rows by (simp add: get_all_histories_def Let_def fold_push_history)
  have mine: "filter (\<lambda>v. idf v = uid) (map ?f ?ordered) =
      map ?f (sort_key (\<lambda>r. snd (key (ver_cols r))) (filter (\<lambda>r. fst (key (ver_cols r)) = uid) ?selected))"
    for uid
  proof -
    have "filter (\<lambda>v. idf v = uid) (map ?f ?ordered) =
        map ?f (filter (\<lambda>r. fst (key (ver_cols r)) = uid) ?ordered)"
      unfolding filter_map using decode sub by (intro arg_cong [where f = "map ?f"] filter_cong) auto
    then show ?thesis
      by (simp only: filter_two_sorts)
  qed
  have sel: "filter (\<lambda>r. fst (key (ver_cols r)) = uid) ?selected =
      (if \<exists>us. ids = Some us \<and> uid \<notin> set us then [] else filter (\<lambda>r. fst (key (ver_cols r)) = uid) table)"
    for uid
    by (auto simp: filter_empty_conv intro!: filter_cong split: option.split)
  have limit: "limit_rows limit (map ?f xs) = map ?f (limit_rows limit xs)" for xs
    by (simp add: limit_rows_def take_map split: option.split)
  show ?thesis
    unfolding result groups_def mine sel
    by (rule exI, rule conjI, rule refl) (simp add: Let_def limit sort_key_Nil_iff)
qed

text \<open>The bulk reads of the storage, in terms of the single ones.\<close>

lemma filter_versions:
  "map ver_cols (filter (\<lambda>r. idf (ver_cols r) = uid) rows) = versions_of idf uid rows"
  by (simp add: versions_of_def filter_map comp_def)

lemma all_card_histories_result:
  assumes "postcard_ok E" "versions_ok E db"
  shows "\<exists>m. storage_get_all_card_histories E db limit wanted = Ok m \<and>
    (\<forall>uid. case m uid of
        Some vs \<Rightarrow> storage_get_card_history E db uid limit = Ok vs
      | None \<Rightarrow> versions_of col_card_id uid (card_versions db) = [] \<or>
          (\<exists>us. wanted = Some us \<and> uid \<notin> set us))"
proof -
  have stor: "\<forall>r\<in>set (card_versions db). storable_card E (ver_cols r)"
    using assms(2) by (simp add: versions_ok_def)
  have decode: "\<forall>r\<in>set (card_versions db). card_from_row E (ver_cols r) = Ok (card_of E (ver_cols r)) \<and>
      card_id (card_of E (ver_cols r)) = fst (card_key (ver_cols r))"
    using stor by (simp add: storable_card_decodes [OF assms(1)] card_of_fields [OF assms(1)] card_key_def)
  let ?mine = "\<lambda>uid. filter (\<lambda>r. col_card_id (ver_cols r) = uid) (card_versions db)"
  have single: "storage_get_card_history E db uid limit =
      Ok (map (\<lambda>r. card_of E (ver_cols r)) (limit_rows limit (sort_key (\<lambda>r. col_count (ver_cols r)) (?mine uid))))"
    for uid
    unfolding storage_get_card_history_def
    by (subst collect_cards [OF assms(1)]) (use stor set_limit_rows in \<open>fastforce+\<close>)
  have none: "?mine uid = [] \<longleftrightarrow> versions_of col_card_id uid (card_versions db) = []" for uid
    unfolding filter_versions [symmetric] by simp
  obtain m where m: "storage_get_all_card_histories E db limit wanted = Ok m"
    "\<forall>uid. m uid = (let mine = filter (\<lambda>r. fst (card_key (ver_cols r)) = uid) (card_versions db) in
        if mine = [] \<or> (\<exists>us. wanted = Some us \<and> uid \<notin> set us) then None
        else Some (map (\<lambda>r. card_of E (ver_cols r))
          (limit_rows limit (sort_key (\<lambda>r. snd (card_key (ver_cols r))) mine))))"
    using get_all_histories_result [OF decode] unfolding storage_get_all_card_histories_def by blast
  have "m uid = (if ?mine uid = [] \<or> (\<exists>us. wanted = Some us \<and> uid \<notin> set us) then None
        else Some (map (\<lambda>r. card_of E (ver_cols r))
          (limit_rows limit (sort_key (\<lambda>r. col_count (ver_cols r)) (?mine uid)))))" for uid
    using m(2) by (simp add: card_key_def Let_def)
  then show ?thesis
    using m(1) by (simp add: single none)
qed

lemma all_tag_histories_result:
  assumes "postcard_ok E" "versions_ok E db"
  shows "\<exists>m. storage_get_all_tag_histories E db limit wanted = Ok m \<and>
    (\<forall>uid. case m uid of
        Some vs \<Rightarrow> storage_get_tag_history E db uid limit = Ok vs
      | None \<Rightarrow> versions_of tcol_tag_id uid (tag_versions db) = [] \<or>
          (\<exists>us. wanted = Some us \<and> uid \<notin> set us))"
proof -
  have stor: "\<forall>r\<in>set (tag_versions db). storable_tag E (ver_cols r)"
    using assms(2) by (simp add: versions_ok_def)
  have decode: "\<forall>r\<in>set (tag_versions db). tag_from_row E (ver_cols r) = Ok (tag_of E (ver_cols r)) \<and>
      tag_id (tag_of E (ver_cols r)) = fst (tag_key (ver_cols r))"
    using stor by (simp add: storable_tag_decodes [OF assms(1)] tag_of_fields [OF assms(1)] tag_key_def)
  let ?mine = "\<lambda>uid. filter (\<lambda>r. tcol_tag_id (ver_cols r) = uid) (tag_versions db)"
  have single: "storage_get_tag_history E db uid limit =
      Ok (map (\<lambda>r. tag_of E (ver_cols r)) (limit_rows limit (sort_key (\<lambda>r. tcol_count (ver_cols r)) (?mine uid))))"
    for uid
    unfolding storage_get_tag_history_def
    by (subst collect_tags [OF assms(1)]) (use stor set_limit_rows in \<open>fastforce+\<close>)
  have none: "?mine uid = [] \<longleftrightarrow> versions_of tcol_tag_id uid (tag_versions db) = []" for uid
    unfolding filter_versions [symmetric] by simp
  obtain m where m: "storage_get_all_tag_histories E db limit wanted = Ok m"
    "\<forall>uid. m uid = (let mine = filter (\<lambda>r. fst (tag_key (ver_cols r)) = uid) (tag_versions db) in
        if mine = [] \<or> (\<exists>us. wanted = Some us \<and> uid \<notin> set us) then None
        else Some (map (\<lambda>r. tag_of E (ver_cols r))
          (limit_rows limit (sort_key (\<lambda>r. snd (tag_key (ver_cols r))) mine))))"
    using get_all_histories_result [OF decode] unfolding storage_get_all_tag_histories_def by blast
  have "m uid = (if ?mine uid = [] \<or> (\<exists>us. wanted = Some us \<and> uid \<notin> set us) then None
        else Some (map (\<lambda>r. tag_of E (ver_cols r))
          (limit_rows limit (sort_key (\<lambda>r. tcol_count (ver_cols r)) (?mine uid)))))" for uid
    using m(2) by (simp add: tag_key_def Let_def)
  then show ?thesis
    using m(1) by (simp add: single none)
qed

section \<open>The sequence history\<close>

lemma history_entries_Ok:
  "\<forall>r\<in>set rows. 0 \<le> hist_sequence r \<Longrightarrow>
     \<exists>entries. history_entries E rows ops = Ok entries \<and>
       map (\<lambda>e. i64_from_nn (entry_sequence e)) entries = map hist_sequence rows \<and>
       map entry_hash entries = map hist_hash rows"
proof (induction E rows ops rule: history_entries.induct)
  case (2 E r rows ops)
  then have "nn_try_from_i64 (hist_sequence r) = Ok (NonNegativeI64 (hist_sequence r))"
    by (simp add: nn_try_from_i64_Ok)
  with 2 show ?case
    by (fastforce simp: i64_from_nn_def)
qed simp

section \<open>The writes\<close>

definition no_panic :: "('e, 'a) outcome \<Rightarrow> bool" where
  "no_panic m \<longleftrightarrow> m \<noteq> Panic"

lemma no_panic_simps [simp]:
  "no_panic (Ok x)" "no_panic (Err e)" "no_panic (map_err f m) \<longleftrightarrow> no_panic m"
  "no_panic (map_ok g m) \<longleftrightarrow> no_panic m"
  by (auto simp: no_panic_def) (cases m; simp)+

lemma no_panic_bind: "no_panic m \<Longrightarrow> (\<And>a. m = Ok a \<Longrightarrow> no_panic (f a)) \<Longrightarrow> no_panic (bind_outcome m f)"
  by (cases m) (simp_all add: no_panic_def)

lemma no_panic_insert_versions: "no_panic (insert_versions key cs rows)"
  by (induction key cs rows rule: insert_versions.induct) simp_all

lemma no_panic_recompute: "no_panic (recompute_root_for_ids E now ids db)"
  using recompute_root_not_Panic by (simp add: no_panic_def)

lemma no_panic_push_cards:
  assumes "postcard_ok E" "tables_ok E db"
  shows "no_panic (push_card_versions_inner E db versions)"
proof -
  have "no_panic (card_from_row E (row_cols r))"
    if "find_row col_card_id uid (cards_table db) = Some r" for r uid
    using find_row_Some [OF that] assms
    by (auto simp: tables_ok_def cards_ok_def storable_card_decodes)
  then show ?thesis
    by (auto simp: push_card_versions_inner_def Let_def no_panic_insert_versions
        intro!: no_panic_bind split: option.splits)
qed

lemma no_panic_push_tags:
  assumes "postcard_ok E" "tables_ok E db"
  shows "no_panic (push_tag_versions_inner E db versions)"
proof -
  have "no_panic (tag_from_row E (row_cols r))"
    if "find_row tcol_tag_id uid (tags_table db) = Some r" for r uid
    using find_row_Some [OF that] assms
    by (auto simp: tables_ok_def tags_ok_def storable_tag_decodes)
  then show ?thesis
    by (auto simp: push_tag_versions_inner_def Let_def no_panic_insert_versions
        intro!: no_panic_bind split: option.splits)
qed

lemma no_panic_delete_card: "no_panic (delete_card_inner E db uid)"
  by (simp add: delete_card_inner_def Let_def)

lemma no_panic_collect: "\<forall>x\<in>set xs. no_panic (f x) \<Longrightarrow> no_panic (collect_results f xs)"
  by (induction xs) (auto intro!: no_panic_bind)

lemma no_panic_deserialize:
  assumes "postcard_ok E" "tables_ok E db"
  shows "r \<in> set (cards_table db) \<Longrightarrow> no_panic (deserialize_tags E (col_tags (row_cols r)))"
    "t \<in> set (tags_table db) \<Longrightarrow> no_panic (deserialize_implies E (tcol_implies (row_cols t)))"
  using assms by (auto simp: tables_ok_def cards_ok_def tags_ok_def storable_card_def storable_tag_def)

lemma no_panic_delete_tag:
  assumes "postcard_ok E" "tables_ok E db"
  shows "no_panic (delete_tag_inner E db uid)"
  using no_panic_deserialize [OF assms]
  by (auto simp: delete_tag_inner_def Let_def referencing_cards_def implying_tags_def
      intro!: no_panic_bind no_panic_collect)

lemma no_panic_validate:
  assumes "postcard_ok E" "tables_ok E tx"
  shows "no_panic (validate_batch_implications E tx items)"
proof -
  have "no_panic (validate_maps im cm)" for im cm
    using check_dangling_not_Panic check_closed_not_Panic
    by (auto simp: validate_maps_def Let_def no_panic_def outcome_simps split: option.splits)
  then show ?thesis
    using assms by (auto simp: validate_batch_implications_def snapshot_tag_implies_eq
        snapshot_card_tags_eq tables_ok_def split: prod.split)
qed

lemma no_panic_apply_item:
  assumes "postcard_ok E" "tables_ok E tx"
  shows "no_panic (apply_item E item (tx, aff))"
  by (cases item) (simp_all add: apply_item_def Let_def no_panic_push_cards [OF assms]
      no_panic_push_tags [OF assms] no_panic_delete_card no_panic_delete_tag [OF assms])

lemma no_panic_apply_items:
  assumes "postcard_ok E"
  shows "txn_inv E K db state \<Longrightarrow> \<forall>item\<in>set items. item_ok E K item \<Longrightarrow>
    no_panic (apply_items E index items state)"
proof (induction items arbitrary: index state)
  case (Cons item items)
  obtain tx aff where state: "state = (tx, aff)" by (cases state)
  have "tables_ok E tx"
    using Cons.prems(1) by (simp add: state txn_inv_def)
  then have first: "no_panic (apply_item E item state)"
    unfolding state by (rule no_panic_apply_item [OF assms])
  show ?case
    unfolding apply_items.simps
  proof (rule no_panic_bind)
    show "no_panic (map_err (\<lambda>e. \<lparr>failed_index = index, failed_error = e\<rparr>) (apply_item E item state))"
      using first by simp
    fix state' assume "map_err (\<lambda>e. \<lparr>failed_index = index, failed_error = e\<rparr>) (apply_item E item state) = Ok state'"
    then have step: "apply_item E item state = Ok state'"
      by (simp add: map_err_Ok)
    have "txn_inv E K db state'"
      using apply_item_txn [OF Cons.prems(1) _ step] Cons.prems(2) by simp
    then show "no_panic (apply_items E (Suc index) items state')"
      using Cons.IH Cons.prems(2) by simp
  qed
qed simp

lemma no_panic_transaction: "no_panic result \<Longrightarrow> no_panic (fst (transaction db result))"
  by (cases result) (auto simp: transaction_def no_panic_def)

text \<open>A single write runs its item, the validator and the commit.\<close>

lemma no_panic_writes:
  assumes pc: "postcard_ok E" and inv: "storage_inv E K db"
  shows "request_ok E K (PushCardVersions cs) \<Longrightarrow> no_panic (fst (storage_push_card_versions E now db cs))"
    "request_ok E K (PushTagVersions ts) \<Longrightarrow> no_panic (fst (storage_push_tag_versions E now db ts))"
    "no_panic (fst (storage_delete_card E now db uid))" "no_panic (fst (storage_delete_tag E now db uid))"
    "request_ok E K (PushBatch items) \<Longrightarrow> no_panic (fst (storage_push_batch E now db items))"
proof -
  have tables: "tables_ok E db" and start: "txn_inv E K db (db, no_affected)"
    using inv by (simp_all add: storage_inv_def txn_inv_start)
  show "no_panic (fst (storage_push_card_versions E now db cs))" if ok: "request_ok E K (PushCardVersions cs)"
  proof -
    have "tables_ok E tx" if "push_card_versions_inner E db cs = Ok tx" for tx
      using push_cards_txn [OF start ok [unfolded request_ok_simps] that] by (simp add: txn_inv_def)
    then show ?thesis
      by (auto simp: storage_push_card_versions_def no_panic_push_cards [OF pc tables]
          no_panic_validate [OF pc] no_panic_recompute
          intro!: no_panic_transaction no_panic_bind split: list.split prod.split)
  qed
  show "no_panic (fst (storage_push_tag_versions E now db ts))" if ok: "request_ok E K (PushTagVersions ts)"
  proof -
    have "tables_ok E tx" if "push_tag_versions_inner E db ts = Ok tx" for tx
      using push_tags_txn [OF start ok [unfolded request_ok_simps] that] by (simp add: txn_inv_def)
    then show ?thesis
      by (auto simp: storage_push_tag_versions_def no_panic_push_tags [OF pc tables]
          no_panic_validate [OF pc] no_panic_recompute
          intro!: no_panic_transaction no_panic_bind split: list.split prod.split)
  qed
  show "no_panic (fst (storage_delete_card E now db uid))"
    by (auto simp: storage_delete_card_def no_panic_delete_card no_panic_recompute
        intro!: no_panic_transaction no_panic_bind split: prod.split)
  show "no_panic (fst (storage_delete_tag E now db uid))"
    by (auto simp: storage_delete_tag_def no_panic_delete_tag [OF pc tables] no_panic_recompute
        intro!: no_panic_transaction no_panic_bind split: prod.split)
  show "no_panic (fst (storage_push_batch E now db items))" if ok: "request_ok E K (PushBatch items)"
  proof -
    note items = ok [unfolded request_ok_simps]
    have "tables_ok E tx" if "apply_items E 0 items (db, no_affected) = Ok (tx, aff)" for tx aff
      using apply_items_txn [OF start items that] by (simp add: txn_inv_def)
    then show ?thesis
      by (auto simp: storage_push_batch_def no_panic_apply_items [OF pc start items]
          no_panic_validate [OF pc] no_panic_recompute
          intro!: no_panic_transaction no_panic_bind split: prod.split)
  qed
qed

section \<open>Every request\<close>

lemma no_panic_respond [simp]: "no_panic (respond f g m) \<longleftrightarrow> no_panic m"
  by (cases m) (simp_all add: no_panic_def)

lemma no_panic_root: "storage_inv E K db \<Longrightarrow> no_panic (respond_root db)"
  by (simp add: respond_root_def get_root_result)

lemma respond_not_Err [simp]: "respond f g m \<noteq> Err e"
  by (cases m) simp_all

lemma handle_request_not_Err: "fst (handle_request E now db req) \<noteq> Err e"
  by (cases req) (auto simp: respond_root_def respond_entity_def split: prod.split outcome.split)

lemma handle_request_no_panic:
  assumes pc: "postcard_ok E" and inv: "storage_inv E K db" and vers: "versions_ok E db"
    and ok: "request_ok E K req" and run: "handle_request E now db req = (result, db')"
  shows "\<exists>response. result = Ok response"
proof -
  have inv': "storage_inv E K db'"
    using handle_request_inv [OF inv ok run] by simp
  have "no_panic result"
  proof (cases req)
    case (PushCardVersions versions)
    then show ?thesis
      using run ok no_panic_writes(1) [OF pc inv, of versions now] no_panic_root [OF inv']
      by (auto simp: no_panic_def split: prod.splits outcome.splits)
  next
    case (PushTagVersions versions)
    then show ?thesis
      using run ok no_panic_writes(2) [OF pc inv, of versions now] no_panic_root [OF inv']
      by (auto simp: no_panic_def split: prod.splits outcome.splits)
  next
    case (PushBatch items)
    then show ?thesis
      using run ok no_panic_writes(5) [OF pc inv, of items now] no_panic_root [OF inv']
      by (auto simp: no_panic_def split: prod.splits outcome.splits)
  next
    case (DeleteCard uid)
    then show ?thesis
      using run no_panic_writes(3) [OF pc inv, of now uid] by (auto split: prod.splits)
  next
    case (DeleteTag uid)
    then show ?thesis
      using run no_panic_writes(4) [OF pc inv, of now uid] by (auto split: prod.splits)
  next
    case (GetSequenceHistory after_sequence limit)
    have "\<forall>r\<in>set (root_history db). 0 \<le> hist_sequence r"
    proof -
      have "hist_sequence ` set (root_history db) = {1..db_sequence db}"
        using inv unfolding storage_inv_def root_ok_def by (metis list.set_map set_upto)
      then show ?thesis by force
    qed
    then have "\<exists>entries. storage_get_sequence_history E db after_sequence limit = Ok entries"
      unfolding storage_get_sequence_history_def Let_def
      using history_entries_Ok set_limit_rows by (smt (verit) filter_is_subset set_sort subset_iff)
    then show ?thesis
      using run GetSequenceHistory by auto
  next
    case GetRoot
    then show ?thesis
      using run no_panic_root [OF inv] by auto
  next
    case (GetChangesSince sequence claimed_hash)
    then show ?thesis
      using run by (auto simp: changes_since_result [OF pc inv] split: option.splits if_splits)
  next
    case (GetAllCardHistories limit wanted)
    then show ?thesis
      using run all_card_histories_result [OF pc vers, of limit wanted] by auto
  next
    case (GetAllTagHistories limit wanted)
    then show ?thesis
      using run all_tag_histories_result [OF pc vers, of limit wanted] by auto
  qed (use run in \<open>auto simp: respond_entity_def get_card_result [OF pc inv] get_tag_result [OF pc inv]
      card_history_result [OF pc vers] tag_history_result [OF pc vers] list_cards_result [OF pc inv]
      list_tags_result [OF pc inv] no_panic_root [OF inv]\<close>)
  then show ?thesis
    using handle_request_not_Err [of E now db req] run by (cases result) (auto simp: no_panic_def)
qed

end
