(* ===== verification/Server_Properties.thy ===== *)
theory Server_Properties
  imports Demo Storage_Total
begin

text \<open>
  The properties of the server: the invariants of every state it can reach, the exact conditions
  and the effect of a push, conflicts, deletions, and what the request loop answers and broadcasts.
\<close>

section \<open>Invariants of reachable states\<close>

text \<open>C2: in every state the server can reach through requests of honest clients, each table has one
  row per id in the bucket of that id, no two cards share a priority, every stored row decodes and
  passes verification, no id is both live and deleted or both a card and a tag, the cached bucket
  hashes and the root are those of the tables, the history has every sequence from 1 on once, and
  every row is stamped with a sequence the server has reached.\<close>

theorem reachable_storage_inv:
  assumes "reachable E K db"
  shows "storage_inv E K db"
  by (rule reachable_inv [OF assms])

lemma reachable_storage_inv_witness: "storage_inv demo_ext {1} demo_db"
  by (rule reachable_storage_inv [OF demo_reachable])

text \<open>C3: in every reachable state the tag implications hold: a tag implies live tags only, the
  implications have no cycle, and every card that has a tag has all the tags it implies.\<close>

theorem reachable_implications_hold:
  assumes "postcard_ok E" and "reachable E K db"
  shows "(\<forall>r\<in>set (tags_table db). set (row_implies E (row_cols r)) \<subseteq> tag_ids db) \<and>
    acyclic (implies_rel (live_graph E db)) \<and>
    (\<forall>r\<in>set (cards_table db). closed_tags (live_graph E db) (set (row_tags E (row_cols r))))"
  using reachable_implications [OF assms] unfolding implications_ok_def .

lemma reachable_implications_hold_witness: "implications_ok demo_ext demo_db"
  using reachable_implications_hold [OF demo_postcard demo_reachable] unfolding implications_ok_def .

text \<open>C6: in every reachable state the versions stored of a live card form one chain from a version
  without ancestor to the live one, each naming the hash of the one before, and all of them verify;
  the history a client reads is that chain sorted by the version counts. Of an id that is not live
  there is no history.\<close>

theorem card_history_is_chain:
  assumes "postcard_ok E" and "reachable E K db"
  shows "case storage_get_card E db uid of
      Ok (Some current) \<Rightarrow>
        (\<exists>chain. chain \<noteq> [] \<and> last chain = current \<and> card_ancestor_hash (hd chain) = ZERO_HASH \<and>
           windows_linked card_ancestor_hash card_hash chain \<and>
           (\<forall>v\<in>set chain. card_id v = uid \<and> card_verify (blake3 E) v) \<and>
           storage_get_card_history E db uid None =
             Ok (sort_key (\<lambda>v. i64_from_nn (card_count v)) chain))
    | Ok None \<Rightarrow> storage_get_card_history E db uid None = Ok []
    | _ \<Rightarrow> False"
proof (cases "card_log.entry db uid")
  case None
  then show ?thesis
    using dead_no_versions [OF assms(2)] reachable_history [OF assms(2)]
    by (simp add: get_card_result [OF assms(1) reachable_inv [OF assms(2)]]
        card_history_result [OF assms(1)] limit_rows_def)
next
  case (Some cols)
  have history: "versions_ok E db"
    using reachable_history [OF assms(2)] by simp
  show ?thesis
    unfolding get_card_result [OF assms(1) reachable_inv [OF assms(2)]] Some
      card_history_result [OF assms(1) history] limit_rows_def option.map option.case outcome.case
    using live_card_chain [OF assms Some] by blast
qed

lemma card_history_is_chain_witness:
  "\<exists>current chain. storage_get_card demo_ext demo_db 1 = Ok (Some current) \<and> chain \<noteq> [] \<and>
     last chain = current \<and> card_ancestor_hash (hd chain) = ZERO_HASH \<and>
     storage_get_card_history demo_ext demo_db 1 None =
       Ok (sort_key (\<lambda>v. i64_from_nn (card_count v)) chain)"
  using card_history_is_chain [OF demo_postcard demo_reachable, of 1]
  by (auto simp: get_card_result [OF demo_postcard reachable_inv [OF demo_reachable]] demo_entry)

text \<open>the same for tags.\<close>

theorem tag_history_is_chain:
  assumes "postcard_ok E" and "reachable E K db"
  shows "case storage_get_tag E db uid of
      Ok (Some current) \<Rightarrow>
        (\<exists>chain. chain \<noteq> [] \<and> last chain = current \<and> tag_ancestor_hash (hd chain) = ZERO_HASH \<and>
           windows_linked tag_ancestor_hash tag_hash chain \<and>
           (\<forall>v\<in>set chain. tag_id v = uid \<and> tag_verify (blake3 E) v) \<and>
           storage_get_tag_history E db uid None =
             Ok (sort_key (\<lambda>v. i64_from_nn (tag_count v)) chain))
    | Ok None \<Rightarrow> storage_get_tag_history E db uid None = Ok []
    | _ \<Rightarrow> False"
proof (cases "tag_log.entry db uid")
  case None
  then show ?thesis
    using dead_no_versions [OF assms(2)] reachable_history [OF assms(2)]
    by (simp add: get_tag_result [OF assms(1) reachable_inv [OF assms(2)]]
        tag_history_result [OF assms(1)] limit_rows_def)
next
  case (Some cols)
  have history: "versions_ok E db"
    using reachable_history [OF assms(2)] by simp
  show ?thesis
    unfolding get_tag_result [OF assms(1) reachable_inv [OF assms(2)]] Some
      tag_history_result [OF assms(1) history] limit_rows_def option.map option.case outcome.case
    using live_tag_chain [OF assms Some] by blast
qed

lemma tag_history_is_chain_witness:
  "\<exists>current chain. storage_get_tag demo_ext demo_tag_db 2 = Ok (Some current) \<and> chain \<noteq> [] \<and>
     last chain = current \<and> tag_ancestor_hash (hd chain) = ZERO_HASH \<and>
     storage_get_tag_history demo_ext demo_tag_db 2 None =
       Ok (sort_key (\<lambda>v. i64_from_nn (tag_count v)) chain)"
  using tag_history_is_chain [OF demo_postcard demo_tag_reachable, of 2]
  by (auto simp: get_tag_result [OF demo_postcard reachable_inv [OF demo_tag_reachable]] demo_tag_entry)

section \<open>Pushes\<close>

text \<open>C4: on a reachable state a card push succeeds exactly when the chain is not empty, every
  version verifies, the id is not deleted, the first version names the hash of the live version (or
  no ancestor when there is none), each version names the one before, no version count is taken,
  the priority of the last version belongs to no other card, its tags contain all they imply, and
  the sequence counter has room.\<close>

theorem card_push_accepted_iff:
  assumes "postcard_ok E" and "reachable E K db" and "request_ok E K (PushCardVersions versions)"
  shows "fst (storage_push_card_versions E now db versions) = Ok () \<longleftrightarrow>
    versions \<noteq> [] \<and> (\<forall>v\<in>set versions. card_verify (blake3 E) v) \<and>
    card_id (hd versions) \<notin> deleted_ids db \<and>
    card_ancestor_hash (hd versions) = ancestor_in_cards db (card_id (hd versions)) \<and>
    windows_linked card_ancestor_hash card_hash versions \<and>
    insertable card_key (map (card_params E) versions) (card_versions db) \<and>
    priority_free db (card_priority (last versions)) (card_id (last versions)) \<and>
    closed_tags (live_graph E db) (set (card_tags (last versions))) \<and>
    db_sequence db < i64_max"
proof -
  have "item_ok E K (ItemCards versions)"
    using assms(3) by (simp only: request_ok_simps)
  then show ?thesis
    using push_card_versions_Ok [OF assms(1) reachable_inv [OF assms(2)]
        reachable_implications [OF assms(1,2)], of versions now]
    unfolding card_push_ok_def by (metis fst_conv prod.collapse)
qed

lemma card_push_accepted_iff_witness:
  "fst (storage_push_card_versions demo_ext 0 empty_db [demo_card]) = Ok ()"
  unfolding card_push_accepted_iff [OF demo_postcard reachable_init demo_push_ok]
  by (simp add: deleted_ids_def empty_db_def ancestor_in_cards_def find_row_def
      windows_linked_def insertable_def priority_free_def closed_tags_def i64_max_def)

text \<open>after a card push that succeeded the card reads as the last version pushed, every other card
  and every tag reads as before, nothing is newly deleted, the sequence is one higher, and the
  pushed versions are the ones added to the history.\<close>

theorem card_push_effect:
  assumes "postcard_ok E" and "reachable E K db" and "request_ok E K (PushCardVersions versions)"
    and "storage_push_card_versions E now db versions = (Ok (), db')"
  shows "storage_get_card E db' (card_id (last versions)) = Ok (Some (last versions)) \<and>
    (\<forall>uid. uid \<noteq> card_id (last versions) \<longrightarrow> storage_get_card E db' uid = storage_get_card E db uid) \<and>
    (\<forall>uid. storage_get_tag E db' uid = storage_get_tag E db uid) \<and>
    deleted_ids db' = deleted_ids db \<and> db_sequence db' = db_sequence db + 1 \<and>
    map ver_cols (card_versions db') = map ver_cols (card_versions db) @ map (card_params E) versions"
proof -
  note effect = push_card_versions_effect [OF assms(4)]
  note ok = assms(3) [unfolded request_ok_simps]
  note inv = reachable_inv [OF assms(2)]
  from assms(4) have "committed E now db [ItemCards versions] db'"
    by (cases rule: storage_push_card_versions_cases) auto
  then have inv': "storage_inv E K db'"
    using committed_txn [OF _ inv] ok by (simp del: item_ok.simps)
  note verified = push_card_versions_verified [OF assms(4)]
  have "card_of E (card_params E (last versions)) = last versions"
    using item_ok_last(1) [OF ok verified(1)] verified by (intro card_of_params [OF assms(1)]) simp_all
  then show ?thesis
    unfolding get_card_result [OF assms(1) inv'] get_card_result [OF assms(1) inv]
      get_tag_result [OF assms(1) inv'] get_tag_result [OF assms(1) inv]
    by (simp add: effect)
qed

lemma card_push_effect_witness:
  "storage_get_card demo_ext demo_db 1 = Ok (Some demo_card) \<and> db_sequence demo_db = 1"
  using card_push_effect [OF demo_postcard reachable_init demo_push_ok demo_pushed]
  by (simp add: empty_db_def)

text \<open>optimistic concurrency. On a reachable state a push whose first version does not name the
  hash of the live card is rejected with that live card, as the client needs it to merge, and
  changes nothing.\<close>

theorem stale_card_push_rejected:
  assumes "postcard_ok E" and "reachable E K db"
    and "versions \<noteq> []" and "\<forall>v\<in>set versions. card_verify (blake3 E) v"
    and "storage_get_card E db (card_id (hd versions)) = Ok (Some current)"
    and "card_ancestor_hash (hd versions) \<noteq> card_hash current"
  shows "storage_push_card_versions E now db versions =
    (Err (Domain (CardAncestorMismatch current)), db)"
proof -
  note inv = reachable_inv [OF assms(2)]
  obtain cols where cols: "card_log.entry db (card_id (hd versions)) = Some cols" "current = card_of E cols"
    using assms(5) by (auto simp: get_card_result [OF assms(1) inv])
  then have "storable_card E cols"
    using storage_inv_rows(1) [OF inv] by (auto simp: card_log.entry_Some [OF inv])
  then show ?thesis
    using stale_card_push [OF assms(1) inv assms(3,4) cols(1)] assms(6)
    by (simp add: cols(2) card_of_fields [OF assms(1)])
qed

lemma stale_card_push_rejected_witness:
  "storage_push_card_versions demo_ext 0 demo_db [demo_card] =
     (Err (Domain (CardAncestorMismatch demo_card)), demo_db)"
proof -
  have "card_of demo_ext (card_params demo_ext demo_card) = demo_card"
    by (rule card_of_params) (simp_all add: card_typed_def nn_ok_def i64_max_def)
  then show ?thesis
    using demo_card_hash
    by (intro stale_card_push_rejected [OF demo_postcard demo_reachable])
      (simp_all add: get_card_result [OF demo_postcard reachable_inv [OF demo_reachable]] demo_entry
        ZERO_HASH_def)
qed

text \<open>C5: no update is lost. Of two edits of the same version of a card the first one is stored and
  the second one is answered with it, so the second writer cannot overwrite it unseen.\<close>

theorem no_lost_card_update:
  assumes "postcard_ok E" and "reachable E K db" and "request_ok E K (PushCardVersions mine)"
    and "storage_push_card_versions E now db mine = (Ok (), db')"
    and "theirs \<noteq> []" and "\<forall>v\<in>set theirs. card_verify (blake3 E) v"
    and "card_id (hd theirs) = card_id (hd mine)"
    and "card_ancestor_hash (hd theirs) = card_ancestor_hash (hd mine)"
    and "card_hash (last mine) \<noteq> card_ancestor_hash (hd mine)"
  shows "storage_push_card_versions E now' db' theirs =
    (Err (Domain (CardAncestorMismatch (last mine))), db')"
proof -
  note ok = assms(3) [unfolded request_ok_simps]
  note verified = push_card_versions_verified [OF assms(4)]
  from assms(4) have "committed E now db [ItemCards mine] db'"
    by (cases rule: storage_push_card_versions_cases) auto
  then have inv': "storage_inv E K db'"
    using committed_txn [OF _ reachable_inv [OF assms(2)]] ok by (simp del: item_ok.simps)
  have last: "card_typed E (last mine)" "card_id (last mine) = card_id (hd mine)"
    using item_ok_last(1) [OF ok verified(1)] by simp_all
  have "card_of E (card_params E (last mine)) = last mine"
    using verified by (intro card_of_params [OF assms(1) last(1)]) simp
  then show ?thesis
    using stale_card_push [OF assms(1) inv' assms(5,6), of "card_params E (last mine)"]
      push_card_versions_effect(1) [OF assms(4)] assms(7,8,9) last(2)
    by simp
qed

lemma no_lost_card_update_witness:
  "storage_push_card_versions demo_ext 7 demo_db [demo_card] =
     (Err (Domain (CardAncestorMismatch demo_card)), demo_db)"
  using no_lost_card_update [OF demo_postcard reachable_init demo_push_ok demo_pushed, of "[demo_card]" 7]
    demo_card_hash
  by (simp add: ZERO_HASH_def)

section \<open>Deletions\<close>

text \<open>deleting a card on a reachable state with room in the sequence counter: a live card is gone
  afterwards, recorded as deleted and answered with its deletion record, everything else reads as
  before and the sequence is one higher; a deleted id and an unknown id are each refused with their
  own error and nothing changes.\<close>

theorem card_delete_cases:
  assumes "postcard_ok E" and "reachable E K db" and "db_sequence db < i64_max"
  shows "case storage_delete_card E now db uid of (result, db') \<Rightarrow>
    if uid \<in> card_ids db then
      result = Ok (deleted_new (blake3 E) uid) \<and> storage_get_card E db' uid = Ok None \<and>
      (\<forall>k. k \<noteq> uid \<longrightarrow> storage_get_card E db' k = storage_get_card E db k) \<and>
      (\<forall>k. storage_get_tag E db' k = storage_get_tag E db k) \<and>
      deleted_ids db' = insert uid (deleted_ids db) \<and> db_sequence db' = db_sequence db + 1
    else if uid \<in> deleted_ids db then result = Err storage_error.AlreadyDeleted \<and> db' = db
    else result = Err storage_error.NotFound \<and> db' = db"
proof (cases "uid \<in> card_ids db")
  case True
  note inv = reachable_inv [OF assms(2)]
  obtain db' where db': "storage_delete_card E now db uid = (Ok (deleted_new (blake3 E) uid), db')"
    using delete_card_Ok [OF inv, where now = now and uid = uid] True assms(3) by blast
  then have "committed E now db [ItemDeleteCard uid] db'"
    by (cases rule: storage_delete_card_cases) auto
  then have inv': "storage_inv E K db'"
    using committed_txn [OF _ inv] by simp
  then show ?thesis
    using delete_card_effect [OF db'] True
    by (simp add: db' get_card_result [OF assms(1) inv] get_tag_result [OF assms(1) inv]
        get_card_result [OF assms(1) inv'] get_tag_result [OF assms(1) inv'])
next
  case False
  then show ?thesis
    by (cases "uid \<in> deleted_ids db") (simp_all add: delete_card_rejected)
qed

lemma card_delete_cases_witness:
  "case storage_delete_card demo_ext 0 demo_db 1 of (result, db') \<Rightarrow>
     result = Ok (deleted_new demo_hash 1) \<and> storage_get_card demo_ext db' 1 = Ok None"
proof -
  have "(1 :: uuid) \<in> card_ids demo_db"
    using card_log.entry_None [of demo_db 1] by (simp add: card_ids_def demo_entry)
  then show ?thesis
    using card_delete_cases [OF demo_postcard demo_reachable, where now = 0 and uid = 1]
    by (auto simp: demo_entry i64_max_def)
qed

text \<open>C16: a deletion is for ever. Whatever requests come after it, the id stays deleted, reads of it
  find nothing, and a push of a verified chain for it is refused as already deleted.\<close>

theorem deletion_is_permanent:
  assumes "postcard_ok E" and "reachable E K d" and "uid \<in> deleted_ids d" and "run E K d d'"
  shows "uid \<in> deleted_ids d' \<and> storage_get_card E d' uid = Ok None \<and> storage_get_tag E d' uid = Ok None \<and>
    (\<forall>versions. versions \<noteq> [] \<longrightarrow> card_id (hd versions) = uid \<longrightarrow>
       (\<forall>v\<in>set versions. card_verify (blake3 E) v) \<longrightarrow>
       storage_push_card_versions E now d' versions = (Err (Domain push_error.AlreadyDeleted), d'))"
proof -
  note inv = reachable_inv [OF assms(2)]
  have inv': "storage_inv E K d'"
    using run_steps [OF assms(4) inv] by simp
  have del: "uid \<in> deleted_ids d'"
    using run_deleted_ids [OF assms(4) inv] assms(3) by blast
  then show ?thesis
    using deleted_not_live [OF inv'] deleted_card_push
    by (auto simp: get_card_result [OF assms(1) inv'] get_tag_result [OF assms(1) inv'])
qed

lemma deletion_is_permanent_witness:
  "1 \<in> deleted_ids demo_deleted_db \<and> storage_get_card demo_ext demo_deleted_db 1 = Ok None"
  using deletion_is_permanent [OF demo_postcard demo_deleted_reachable demo_deleted run_refl] by simp

section \<open>Requests\<close>

text \<open>C14: whatever an honest client asks of a reachable state, the server answers: no \<open>unwrap\<close> or
  \<open>expect\<close> on the way of any request can fail.\<close>

theorem server_never_panics:
  assumes "postcard_ok E" and "reachable E K db" and "request_ok E K req"
  shows "\<exists>response. fst (handle_request E now db req) = Ok response"
proof -
  obtain result db' where "handle_request E now db req = (result, db')"
    by (cases "handle_request E now db req")
  then show ?thesis
    using handle_request_no_panic [OF assms(1) reachable_inv [OF assms(2)] _ assms(3)]
      reachable_history [OF assms(2)] by fastforce
qed

lemma server_never_panics_witness:
  "\<exists>response. fst (handle_request demo_ext 0 demo_db (PushCardVersions [demo_card])) = Ok response"
  by (rule server_never_panics [OF demo_postcard demo_reachable demo_push_ok])

section \<open>What a request means\<close>

text \<open>The contents of the database without buckets, sequences and stamps, and what an item of a batch does to them.\<close>

record contents =
  live_cards :: "uuid \<Rightarrow> card_cols option"
  live_tags :: "uuid \<Rightarrow> tag_cols option"
  past_cards :: "card_cols list"
  past_tags :: "tag_cols list"
  gone :: "uuid set"

definition contents_of :: "db \<Rightarrow> contents" where
  "contents_of db =
     \<lparr>live_cards = card_log.entry db, live_tags = tag_log.entry db,
      past_cards = map ver_cols (card_versions db), past_tags = map ver_cols (tag_versions db),
      gone = deleted_ids db\<rparr>"

fun item_effect :: "ext \<Rightarrow> push_item \<Rightarrow> contents \<Rightarrow> contents" where
  "item_effect E (ItemCards vs) m =
     m\<lparr>live_cards := (live_cards m)(card_id (last vs) \<mapsto> card_params E (last vs)),
       past_cards := past_cards m @ map (card_params E) vs\<rparr>"
| "item_effect E (ItemTags vs) m =
     m\<lparr>live_tags := (live_tags m)(tag_id (last vs) \<mapsto> tag_params E (last vs)),
       past_tags := past_tags m @ map (tag_params E) vs\<rparr>"
| "item_effect E (ItemDeleteCard uid) m =
     m\<lparr>live_cards := (live_cards m)(uid := None),
       past_cards := filter (\<lambda>c. col_card_id c \<noteq> uid) (past_cards m), gone := insert uid (gone m)\<rparr>"
| "item_effect E (ItemDeleteTag uid) m =
     m\<lparr>live_tags := (live_tags m)(uid := None),
       past_tags := filter (\<lambda>c. tcol_tag_id c \<noteq> uid) (past_tags m), gone := insert uid (gone m)\<rparr>"

lemma map_ver_cols_delete:
  "map ver_cols (delete_versions idf uid rows) = filter (\<lambda>c. idf c \<noteq> uid) (map ver_cols rows)"
  unfolding delete_versions_def by (induction rows) auto

lemma deleted_ids_replace:
  "ids_of deleted_id (replace_row deleted_id (new_deleted_row E uid) rows) = insert uid (ids_of deleted_id rows)"
  by (auto simp: ids_of_def replace_row_def delete_rows_def new_deleted_row_def deleted_new_def)

lemma apply_item_effect:
  assumes "apply_item E item (tx, aff) = Ok (tx', aff')"
  shows "contents_of tx' = item_effect E item (contents_of tx)"
proof (cases item)
  case (ItemCards vs)
  then have "tx' = after_card_push E tx vs"
    using assms by (auto simp: apply_item_def outcome_simps push_card_inner_iff)
  then show ?thesis
    by (simp add: ItemCards contents_of_def after_card_push_def card_log.entry_def tag_log.entry_def deleted_ids_def
        find_row_replace fun_eq_iff comp_def)
next
  case (ItemTags vs)
  then have "tx' = after_tag_push E tx vs"
    using assms by (auto simp: apply_item_def outcome_simps push_tag_inner_iff)
  then show ?thesis
    by (simp add: ItemTags contents_of_def after_tag_push_def card_log.entry_def tag_log.entry_def deleted_ids_def
        find_row_replace fun_eq_iff comp_def)
next
  case (ItemDeleteCard uid)
  then show ?thesis
    using assms
    by (auto simp: apply_item_def outcome_simps delete_card_inner_Ok contents_of_def card_log.entry_def
        tag_log.entry_def deleted_ids_def find_row_delete fun_eq_iff map_ver_cols_delete deleted_ids_replace)
next
  case (ItemDeleteTag uid)
  then show ?thesis
    using assms
    by (auto simp: apply_item_def outcome_simps delete_tag_inner_Ok contents_of_def card_log.entry_def
        tag_log.entry_def deleted_ids_def find_row_delete fun_eq_iff map_ver_cols_delete deleted_ids_replace)
qed

lemma apply_items_effect:
  "apply_items E i items (tx, aff) = Ok (tx', aff') \<Longrightarrow> contents_of tx' = fold (item_effect E) items (contents_of tx)"
proof (induction items arbitrary: i tx aff)
  case (Cons item items)
  then obtain tx1 aff1 where "apply_item E item (tx, aff) = Ok (tx1, aff1)"
    "apply_items E (Suc i) items (tx1, aff1) = Ok (tx', aff')"
    by (auto simp: bind_outcome_Ok map_err_Ok)
  then show ?case using Cons.IH apply_item_effect by fastforce
qed simp

lemma committed_effect:
  assumes "committed E now db items db'"
  shows "contents_of db' = fold (item_effect E) items (contents_of db)"
proof -
  obtain tx aff where "apply_items E 0 items (db, no_affected) = Ok (tx, aff)" and commit: "commit_txn E now (tx, aff) = Ok db'"
    using assms by (auto simp: committed_def)
  moreover have "contents_of db' = contents_of tx"
    by (simp add: contents_of_def commit_entries[OF commit] fun_eq_iff)
  ultimately show ?thesis using apply_items_effect by simp
qed

text \<open>A mutation that is answered without an error was committed, the empty batch apart.\<close>

lemma answered_mutation_committed:
  assumes "handle_request E now db req = (Ok resp, db')" "is_mutation req" "\<not> is_error resp" "req \<noteq> PushBatch []"
  shows "committed E now db (items_of req) db'"
proof (cases req)
  case (PushCardVersions versions)
  then show ?thesis
    using assms by (cases "storage_push_card_versions E now db versions" rule: prod.exhaust)
      (auto split: outcome.splits elim: storage_push_card_versions_cases)
next
  case (PushTagVersions versions)
  then show ?thesis
    using assms by (cases "storage_push_tag_versions E now db versions" rule: prod.exhaust)
      (auto split: outcome.splits elim: storage_push_tag_versions_cases)
next
  case (DeleteCard uid)
  obtain r db1 where push: "storage_delete_card E now db uid = (r, db1)" by fastforce
  then show ?thesis
    using DeleteCard assms by (cases r) (auto elim: storage_delete_card_cases)
next
  case (DeleteTag uid)
  obtain r db1 where push: "storage_delete_tag E now db uid = (r, db1)" by fastforce
  then show ?thesis
    using DeleteTag assms by (cases r) (auto elim: storage_delete_tag_cases)
next
  case (PushBatch items)
  obtain r db1 where push: "storage_push_batch E now db items = (r, db1)" by fastforce
  then show ?thesis
    using PushBatch assms by (cases r) (auto elim: storage_push_batch_cases)
qed (use assms in auto)

lemma answered_empty_batch: "handle_request E now db (PushBatch []) = (result, db') \<Longrightarrow> db' = db"
  by (auto simp: storage_push_batch_def)

text \<open>C15: a request is all or nothing. A mutation answered without an error has had the effect of all its items, in
  their order, on the live rows, the versions and the deletions, and has had no other; unless it is the empty
  batch, the sequence went up by exactly one and the new root hash was appended to the history under it. Every
  other request, and every one answered with an error, leaves the state as it was.\<close>

theorem request_all_or_nothing:
  assumes "reachable E K db" and "request_ok E K req"
    and "handle_request E now db req = (result, db')"
  shows "if is_mutation req \<and> (\<exists>resp. result = Ok resp \<and> \<not> is_error resp)
    then contents_of db' = fold (item_effect E) (items_of req) (contents_of db) \<and>
      (if req = PushBatch [] then db' = db
       else db_sequence db' = db_sequence db + 1 \<and>
         (\<exists>at. root_history db' = root_history db @
            [\<lparr>hist_sequence = db_sequence db + 1, hist_hash = db_root_hash db', hist_created_at = at\<rparr>]))
    else db' = db"
proof (cases "is_mutation req \<and> (\<exists>resp. result = Ok resp \<and> \<not> is_error resp)")
  case answered: True
  then obtain resp where resp: "is_mutation req" "result = Ok resp" "\<not> is_error resp" by blast
  show ?thesis
  proof (cases "req = PushBatch []")
    case True
    then have "db' = db" using answered_empty_batch assms(3) by blast
    then show ?thesis using answered True by simp
  next
    case False
    note com = answered_mutation_committed [OF assms(3) [unfolded resp(2)] resp(1,3) False]
    have "db_step db db'"
      using committed_txn [OF com reachable_inv [OF assms(1)]] assms(2) by (simp add: request_ok_def)
    then show ?thesis
      using answered False committed_effect [OF com] by (simp add: db_step_def Let_def)
  qed
next
  case False
  have "db' = db"
    using assms(3)
  proof (cases rule: handle_request_cases)
    case committed
    then show ?thesis
      using False handle_request_inv [OF reachable_inv [OF assms(1)] assms(2,3)]
      by (auto simp: respond_root_def get_root_result)
  qed
  then show ?thesis using False by simp
qed

lemma request_all_or_nothing_witness:
  "\<exists>at. handle_request demo_ext 0 empty_db (PushCardVersions [demo_card]) = (Ok (RespRoot (current_root demo_db)), demo_db) \<and>
    contents_of demo_db = item_effect demo_ext (ItemCards [demo_card]) (contents_of empty_db) \<and>
    db_sequence demo_db = 1 \<and>
    root_history demo_db = [\<lparr>hist_sequence = 1, hist_hash = db_root_hash demo_db, hist_created_at = at\<rparr>]"
proof -
  have run: "handle_request demo_ext 0 empty_db (PushCardVersions [demo_card]) =
      (Ok (RespRoot (current_root demo_db)), demo_db)"
    using get_root_result [OF reachable_inv [OF demo_reachable]] by (simp add: demo_pushed respond_root_def)
  have "db_sequence empty_db = 0" "root_history empty_db = []" by (simp_all add: empty_db_def)
  with request_all_or_nothing [OF reachable_init demo_push_ok run] run show ?thesis by simp
qed

text \<open>what is answered and broadcast to the subscribers. A request other than a subscription is
  answered once, on a reachable state, and a root is broadcast exactly when the request is a
  mutation that did not fail; then it is the root of the state after it. Subscribing changes
  nothing and broadcasts nothing.\<close>

theorem broadcast_after_mutation:
  assumes "postcard_ok E" and "reachable E K db" and "request_ok E K req"
  shows "if is_streaming req
    then serve_request E now db req = \<lparr>reply = [RespOk], broadcast = [], subscribed = True, after = db\<rparr>
    else \<exists>response db'. handle_request E now db req = (Ok response, db') \<and>
      serve_request E now db req =
        \<lparr>reply = [response],
         broadcast = (if is_mutation req \<and> \<not> is_error response then [current_root db'] else []),
         subscribed = False, after = db'\<rparr>"
proof -
  obtain result db' where run: "handle_request E now db req = (result, db')"
    by (cases "handle_request E now db req")
  then obtain response where "result = Ok response"
    using handle_request_no_panic [OF assms(1) reachable_inv [OF assms(2)] _ assms(3)]
      reachable_history [OF assms(2)] by blast
  moreover have "storage_inv E K db'"
    using handle_request_inv [OF reachable_inv [OF assms(2)] assms(3) run] by simp
  ultimately show ?thesis
    using run by (simp add: serve_request_def get_root_result)
qed

lemma broadcast_after_mutation_witness:
  "\<exists>response db'. handle_request demo_ext 0 demo_db (PushCardVersions [demo_card]) = (Ok response, db') \<and>
     serve_request demo_ext 0 demo_db (PushCardVersions [demo_card]) =
       \<lparr>reply = [response], broadcast = (if \<not> is_error response then [current_root db'] else []),
        subscribed = False, after = db'\<rparr>"
  using broadcast_after_mutation [OF demo_postcard demo_reachable demo_push_ok, of 0] by simp

end
