(* ===== verification/Client_Priority.thy ===== *)
theory Client_Priority
  imports Cards
begin

text \<open>
  Priority placement (clients/lib/src/priority.rs): where a card goes in a list that is ordered
  by descending priority, the priority it gets there, and the redistribution of a packed range
  when no integer is left between its two neighbours. The random draw of \<open>rand\<close> is the argument
  \<open>random_range\<close>, which maps the size \<open>n\<close> of the range \<open>0..n\<close> to a value; the final clamp makes
  every result below hold whatever it returns. The floating-point \<open>priority_percentage\<close> is not
  modelled.
\<close>

section \<open>Midpoint and jitter\<close>

definition JITTER_DIVISOR :: int where "JITTER_DIVISOR = 16"

definition clamp :: "int \<Rightarrow> int \<Rightarrow> int \<Rightarrow> int" where
  "clamp v lo hi = (if v < lo then lo else if v > hi then hi else v)"

definition compute_priority :: "(int \<Rightarrow> int) \<Rightarrow> int \<Rightarrow> int \<Rightarrow> int" where
  "compute_priority random_range upper lower =
     (let gap = upper - lower;
          midpoint = lower + gap div 2
      in if gap \<le> 2 then midpoint
         else let jitter_range = max (gap div JITTER_DIVISOR) 1;
                  jitter_val = random_range (jitter_range * 2 + 1) - jitter_range
              in clamp (midpoint + jitter_val) (lower + 1) (upper - 1))"

section \<open>Positions and their bounds\<close>

datatype InsertPosition = Top | Bottom | At nat

datatype Placement =
    Simple int
  | Rebalanced (placed_priority: int) (placed_shifted: "(uuid \<times> int) list")

definition MAX_EDGE_GAP :: int where "MAX_EDGE_GAP = 65536"

definition cap_edge_bounds :: "int \<Rightarrow> int \<Rightarrow> int \<times> int" where
  "cap_edge_bounds upper lower =
     (if upper - lower \<le> MAX_EDGE_GAP then (upper, lower)
      else
        (if upper = i64_max \<and> lower \<noteq> i64_min then min (lower + MAX_EDGE_GAP) i64_max else upper,
         if lower = i64_min \<and> upper \<noteq> i64_max then max (upper - MAX_EDGE_GAP) i64_min else lower))"

definition bounds_for_position :: "card list \<Rightarrow> InsertPosition \<Rightarrow> int \<times> int \<times> nat" where
  "bounds_for_position cards position =
     (case position of
        Top \<Rightarrow> (i64_max, (if cards = [] then i64_min else card_priority (hd cards)), 0)
      | Bottom \<Rightarrow>
          ((if cards = [] then i64_max else card_priority (last cards)), i64_min, length cards)
      | At i \<Rightarrow>
          (let idx = min i (length cards);
               upper = (if idx = 0 then i64_max else card_priority (cards ! (idx - 1)));
               lower = (if idx < length cards then card_priority (cards ! idx) else i64_min)
           in (upper, lower, idx)))"

section \<open>Rebalancing a packed range\<close>

fun expand_left :: "card list \<Rightarrow> nat \<Rightarrow> nat" where
  "expand_left cards 0 = 0"
| "expand_left cards (Suc l) =
     (if card_priority (cards ! l) - card_priority (cards ! Suc l) > 1 then Suc l
      else expand_left cards l)"

function expand_right :: "card list \<Rightarrow> nat \<Rightarrow> nat" where
  "expand_right cards right =
     (if right + 1 < length cards then
        if card_priority (cards ! right) - card_priority (cards ! (right + 1)) > 1 then right
        else expand_right cards (right + 1)
      else right)"
  by pat_completeness auto
termination
  by (relation "measure (\<lambda>(cards, right). length cards - right)") auto

declare expand_right.simps [simp del]

definition slot_priority :: "int \<Rightarrow> int \<Rightarrow> nat \<Rightarrow> int" where
  "slot_priority range_upper step slot =
     clamp (range_upper - step * (int slot + 1)) i64_min i64_max"

text \<open>
  The loop over the range: the slot of the new card is left out when it comes up, and a card is
  reported as shifted when its slot's priority is not the one it has.
\<close>

primrec assign_slots ::
  "int \<Rightarrow> int \<Rightarrow> nat \<Rightarrow> card list \<Rightarrow> nat \<Rightarrow> int option
   \<Rightarrow> (uuid \<times> int) list \<times> nat \<times> int option" where
  "assign_slots range_upper step new_slot [] slot new_priority = ([], slot, new_priority)"
| "assign_slots range_upper step new_slot (c # cards) slot new_priority =
     (let (slot, new_priority) =
            (if slot = new_slot \<and> new_priority = None
             then (slot + 1, Some (slot_priority range_upper step slot))
             else (slot, new_priority));
          new_p = slot_priority range_upper step slot;
          (shifted, slot', new_priority') =
            assign_slots range_upper step new_slot cards (slot + 1) new_priority
      in ((if new_p \<noteq> card_priority c then (card_id c, new_p) # shifted else shifted),
          slot', new_priority'))"

definition rebalance :: "(int \<Rightarrow> int) \<Rightarrow> card list \<Rightarrow> nat \<Rightarrow> Placement" where
  "rebalance random_range cards insert_idx =
     (if cards = [] then Simple (compute_priority random_range i64_max i64_min)
      else
        let left = expand_left cards (if insert_idx > 0 then insert_idx - 1 else 0);
            right = expand_right cards
              (if insert_idx < length cards then insert_idx else length cards - 1);
            range_upper = (if left = 0 then i64_max else card_priority (cards ! (left - 1)));
            range_lower = (if right \<ge> length cards - 1 then i64_min
                           else card_priority (cards ! (right + 1)));
            range_count = right - left + 1;
            total_slots = range_count + 1;
            space = range_upper - range_lower;
            step = max (space div (int total_slots + 1)) 1;
            new_slot = insert_idx - left;
            (shifted, slot, new_priority) =
              assign_slots range_upper step new_slot (take range_count (drop left cards)) 0 None;
            priority = (case new_priority of
                Some p \<Rightarrow> p
              | None \<Rightarrow> slot_priority range_upper step slot)
        in if shifted = [] then Simple priority else Rebalanced priority shifted)"

definition try_place :: "(int \<Rightarrow> int) \<Rightarrow> card list \<Rightarrow> int \<Rightarrow> int \<Rightarrow> nat \<Rightarrow> Placement" where
  "try_place random_range cards upper lower insert_idx =
     (if upper - lower > 1 then Simple (compute_priority random_range upper lower)
      else rebalance random_range cards insert_idx)"

section \<open>The entry points\<close>

definition place_card :: "(int \<Rightarrow> int) \<Rightarrow> card list \<Rightarrow> InsertPosition \<Rightarrow> Placement" where
  "place_card random_range cards position =
     (let (upper, lower, insert_idx) = bounds_for_position cards position;
          (upper, lower) = cap_edge_bounds upper lower
      in try_place random_range cards upper lower insert_idx)"

definition move_card :: "(int \<Rightarrow> int) \<Rightarrow> card list \<Rightarrow> uuid \<Rightarrow> InsertPosition \<Rightarrow> Placement" where
  "move_card random_range cards uid target =
     (let others = filter (\<lambda>c. card_id c \<noteq> uid) cards;
          (upper, lower, insert_idx) = bounds_for_position others target;
          (upper, lower) = cap_edge_bounds upper lower
      in try_place random_range others upper lower insert_idx)"

text \<open>\<open>iter().position(p)\<close>: the index of the first element that satisfies the predicate.\<close>

fun iter_position :: "('a \<Rightarrow> bool) \<Rightarrow> 'a list \<Rightarrow> nat option" where
  "iter_position p [] = None"
| "iter_position p (x # xs) = (if p x then Some 0 else map_option Suc (iter_position p xs))"

definition resolve_collision :: "(int \<Rightarrow> int) \<Rightarrow> card list \<Rightarrow> int \<Rightarrow> Placement" where
  "resolve_collision random_range cards desired_priority =
     (let idx = (case iter_position (\<lambda>c. card_priority c \<le> desired_priority) cards of
           Some i \<Rightarrow> i | None \<Rightarrow> length cards)
      in place_card random_range cards (At idx))"

text \<open>
  A shifted card's next version keeps everything but the priority; ids that are not in the list
  are skipped, and \<open>next\<close> panics when a count is exhausted.
\<close>

primrec build_shifted_versions ::
  "(bytes \<Rightarrow> hash) \<Rightarrow> datetime \<Rightarrow> (uuid \<times> int) list \<Rightarrow> card list \<Rightarrow> ('e, card list) outcome" where
  "build_shifted_versions H now [] all_cards = Ok []"
| "build_shifted_versions H now (entry # shifted) all_cards =
     (case find (\<lambda>c. card_id c = fst entry) all_cards of
        None \<Rightarrow> build_shifted_versions H now shifted all_cards
      | Some c \<Rightarrow>
          bind_outcome
            (card_next H c (card_content c) (snd entry) (card_tags c) (card_blazed c) now
               (card_due_date c))
            (\<lambda>c'. bind_outcome (build_shifted_versions H now shifted all_cards)
                    (\<lambda>cs. Ok (c' # cs))))"

end
