(* ===== verification/Client_Placement.thy ===== *)
theory Client_Placement
  imports Client_Priority
begin

text \<open>
  What a placement does to the list it is computed for. \<open>placed_priorities\<close> carries it out; the
  invariant \<open>ordered_priorities\<close> says that the list is strictly descending and strictly inside
  the \<open>i64\<close> range, so that both virtual bounds stay free. \<open>place_card_keeps_order\<close> shows that
  every placement keeps it, the simple ones by the midpoint lemma and the rebalanced ones by
  \<open>rebalance_shape\<close>, which computes the redistributed range as one run of evenly spaced slots.
\<close>

section \<open>Applying a placement\<close>

definition inside_range :: "int \<Rightarrow> bool" where
  "inside_range p \<longleftrightarrow> i64_min < p \<and> p < i64_max"

definition ordered_priorities :: "int list \<Rightarrow> bool" where
  "ordered_priorities ps \<longleftrightarrow> sorted_wrt (>) ps \<and> (\<forall>p\<in>set ps. inside_range p)"

definition ordered_cards :: "card list \<Rightarrow> bool" where
  "ordered_cards cards \<longleftrightarrow>
     ordered_priorities (map card_priority cards) \<and> distinct (map card_id cards) \<and>
     length cards < 2 ^ 63"

fun new_priority_of :: "Placement \<Rightarrow> int" where
  "new_priority_of (Simple p) = p"
| "new_priority_of (Rebalanced p shifted) = p"

fun shifts_of :: "Placement \<Rightarrow> (uuid \<times> int) list" where
  "shifts_of (Simple p) = []"
| "shifts_of (Rebalanced p shifted) = shifted"

definition shifted_priority :: "(uuid \<times> int) list \<Rightarrow> card \<Rightarrow> int" where
  "shifted_priority shifted c =
     (case map_of shifted (card_id c) of Some p \<Rightarrow> p | None \<Rightarrow> card_priority c)"

definition insert_index :: "card list \<Rightarrow> InsertPosition \<Rightarrow> nat" where
  "insert_index cards position = snd (snd (bounds_for_position cards position))"

text \<open>The priorities of the list, top to bottom, once the placement has been carried out.\<close>

definition placed_priorities :: "Placement \<Rightarrow> card list \<Rightarrow> nat \<Rightarrow> int list" where
  "placed_priorities pl cards idx =
     map (shifted_priority (shifts_of pl)) (take idx cards) @ [new_priority_of pl] @
     map (shifted_priority (shifts_of pl)) (drop idx cards)"

lemma clamp_bounds: "lo \<le> hi \<Longrightarrow> lo \<le> clamp v lo hi \<and> clamp v lo hi \<le> hi"
  by (simp add: clamp_def)

lemma clamp_inside: "lo \<le> v \<Longrightarrow> v \<le> hi \<Longrightarrow> clamp v lo hi = v"
  by (simp add: clamp_def)

lemma compute_priority_between:
  assumes "upper - lower > 1"
  shows "lower < compute_priority random_range upper lower \<and>
    compute_priority random_range upper lower < upper"
proof (cases "upper - lower \<le> 2")
  case True
  then have "upper - lower = 2" using assms by simp
  then show ?thesis by (simp add: compute_priority_def Let_def)
next
  case False
  then obtain v where "compute_priority random_range upper lower = clamp v (lower + 1) (upper - 1)"
    by (simp add: compute_priority_def Let_def)
  moreover have "lower + 1 \<le> upper - 1" using False by simp
  ultimately show ?thesis
    using clamp_bounds [of "lower + 1" "upper - 1" v] by linarith
qed

lemma cap_edge_bounds_within:
  assumes "cap_edge_bounds upper lower = (u, l)" "i64_min \<le> lower" "upper \<le> i64_max"
  shows "u \<le> upper" "lower \<le> l" "upper - lower > 1 \<Longrightarrow> u - l > 1"
    "upper - lower \<le> 1 \<Longrightarrow> u = upper \<and> l = lower"
  using assms
  by (auto simp: cap_edge_bounds_def MAX_EDGE_GAP_def split: if_splits)

lemma sorted_wrt_greater_between:
  assumes "sorted_wrt (>) (pre @ mid @ post)" "sorted_wrt (>) new"
    and "\<And>p. p \<in> set new \<Longrightarrow> (pre \<noteq> [] \<longrightarrow> p < last pre) \<and> (post \<noteq> [] \<longrightarrow> hd post < (p::int))"
  shows "sorted_wrt (>) (pre @ new @ post)"
proof -
  have "p < x" if "x \<in> set pre" "p \<in> set new" for x p
  proof -
    have "x = last pre \<or> x > last pre"
      using assms(1) that(1)
      by (cases pre rule: rev_cases) (auto simp: sorted_wrt_append)
    then show ?thesis using assms(3) that by force
  qed
  moreover have "z < p" if "z \<in> set post" "p \<in> set new" for z p
  proof -
    have "z = hd post \<or> z < hd post"
      using assms(1) that(1) by (cases post) (auto simp: sorted_wrt_append)
    then show ?thesis using assms(3) that by force
  qed
  ultimately show ?thesis
    using assms(1,2) by (auto simp: sorted_wrt_append)
qed

lemma shifted_priority_Nil [simp]: "shifted_priority [] = card_priority"
  by (simp add: fun_eq_iff shifted_priority_def)

lemma take_drop_map: "map f (take n xs) @ map f (drop n xs) = map f xs"
  by (metis append_take_drop_id map_append)

lemma last_take_nth: "0 < n \<Longrightarrow> n \<le> length xs \<Longrightarrow> last (take n xs) = xs ! (n - 1)"
  by (subst last_conv_nth) (auto simp: min_absorb2)

lemma placed_simple:
  assumes "ordered_priorities (map card_priority cards)" "idx \<le> length cards"
    and "idx > 0 \<Longrightarrow> p < card_priority (cards ! (idx - 1))"
    and "idx < length cards \<Longrightarrow> card_priority (cards ! idx) < p"
    and "i64_min < p" "p < i64_max"
  shows "ordered_priorities (placed_priorities (Simple p) cards idx)"
proof -
  have "sorted_wrt (>) (map card_priority (take idx cards) @ [p] @ map card_priority (drop idx cards))"
  proof (rule sorted_wrt_greater_between [where mid = "[]"])
    show "sorted_wrt (>) (map card_priority (take idx cards) @ [] @ map card_priority (drop idx cards))"
      using assms(1) by (simp add: take_drop_map ordered_priorities_def)
    show "(map card_priority (take idx cards) \<noteq> [] \<longrightarrow> q < last (map card_priority (take idx cards))) \<and>
        (map card_priority (drop idx cards) \<noteq> [] \<longrightarrow> hd (map card_priority (drop idx cards)) < q)"
      if "q \<in> set [p]" for q
      using that assms(2-4) by (simp add: last_map last_take_nth hd_map hd_drop_conv_nth)
  qed simp
  moreover have "inside_range q"
    if "q \<in> set (map card_priority (take idx cards) @ [p] @ map card_priority (drop idx cards))" for q
    using that assms(1,5,6)
    by (auto simp: ordered_priorities_def inside_range_def dest: in_set_takeD in_set_dropD)
  ultimately show ?thesis
    by (simp add: ordered_priorities_def placed_priorities_def)
qed

section \<open>The packed range\<close>

lemma expand_left_le: "expand_left cards l \<le> l"
  by (induction cards l rule: expand_left.induct) (auto simp: le_SucI)

lemma expand_left_stops:
  "expand_left cards l = Suc m \<Longrightarrow> card_priority (cards ! m) - card_priority (cards ! Suc m) > 1"
  by (induction cards l rule: expand_left.induct) (auto split: if_splits)

lemma expand_right_bounds:
  "r < length cards \<Longrightarrow> r \<le> expand_right cards r \<and> expand_right cards r < length cards"
proof (induction cards r rule: expand_right.induct)
  case (1 cards right)
  then show ?case by (subst (1 2) expand_right.simps) fastforce
qed

lemma expand_right_stops:
  "Suc (expand_right cards r) < length cards \<Longrightarrow>
   card_priority (cards ! expand_right cards r) - card_priority (cards ! Suc (expand_right cards r)) > 1"
proof (induction cards r rule: expand_right.induct)
  case (1 cards right)
  show ?case
  proof (cases "right + 1 < length cards \<and>
      \<not> card_priority (cards ! right) - card_priority (cards ! (right + 1)) > 1")
    case True
    then have "expand_right cards right = expand_right cards (right + 1)"
      by (simp add: expand_right.simps [of cards right])
    then show ?thesis using 1 True by simp
  next
    case False
    then have "expand_right cards right = right"
      by (auto simp: expand_right.simps [of cards right])
    then show ?thesis using 1(2) False by auto
  qed
qed

lemma ordered_distance:
  assumes "sorted_wrt (>) (map card_priority cards)" "i \<le> j" "j < length cards"
  shows "card_priority (cards ! i) - card_priority (cards ! j) \<ge> int (j - i)"
  using assms(2,3)
proof (induction j)
  case (Suc j)
  show ?case
  proof (cases "i = Suc j")
    case False
    then have "i \<le> j" using Suc by simp
    then have "card_priority (cards ! i) - card_priority (cards ! j) \<ge> int (j - i)"
      using Suc by simp
    moreover have "card_priority (cards ! j) > card_priority (cards ! Suc j)"
      using sorted_wrt_nth_less [OF assms(1), of j "Suc j"] Suc.prems by simp
    ultimately show ?thesis using \<open>i \<le> j\<close> by simp
  qed simp
qed simp


section \<open>The slots\<close>

text \<open>The shifts of cards that take the slots from \<open>s\<close> on.\<close>

primrec shifts_from :: "(nat \<Rightarrow> int) \<Rightarrow> nat \<Rightarrow> card list \<Rightarrow> (uuid \<times> int) list" where
  "shifts_from sp s [] = []"
| "shifts_from sp s (c # cs) =
     (if sp s \<noteq> card_priority c then [(card_id c, sp s)] else []) @ shifts_from sp (Suc s) cs"

lemma assign_slots_Some:
  "assign_slots u st ns cs s (Some q) = (shifts_from (slot_priority u st) s cs, s + length cs, Some q)"
  by (induction cs arbitrary: s) (simp_all add: Let_def)

lemma assign_slots_None:
  assumes "s + k = ns" "k \<le> length cs"
  shows "\<exists>s' np. assign_slots u st ns cs s None =
      (shifts_from (slot_priority u st) s (take k cs) @
       shifts_from (slot_priority u st) (Suc ns) (drop k cs), s', np) \<and>
    (case np of Some p \<Rightarrow> p | None \<Rightarrow> slot_priority u st s') = slot_priority u st ns"
  using assms
proof (induction cs arbitrary: s k)
  case (Cons c cs)
  show ?case
  proof (cases k)
    case 0
    then show ?thesis using Cons.prems by (simp add: Let_def assign_slots_Some)
  next
    case (Suc j)
    then have "Suc s + j = ns" "j \<le> length cs" using Cons.prems by simp_all
    from Cons.IH [OF this] Suc Cons.prems show ?thesis by (auto simp: Let_def)
  qed
qed auto

lemma shifts_from_ids: "set (map fst (shifts_from sp s cs)) \<subseteq> card_id ` set cs"
  by (induction cs arbitrary: s) auto

lemma map_of_shifts_None:
  "uid \<notin> card_id ` set cs \<Longrightarrow> map_of (shifts_from sp s cs) uid = None"
  using shifts_from_ids [of sp s cs] by (auto simp: map_of_eq_None_iff)

lemma shifted_priority_cong:
  "map_of a (card_id c) = map_of b (card_id c) \<Longrightarrow> shifted_priority a c = shifted_priority b c"
  by (simp add: shifted_priority_def)

lemma shifts_from_apply:
  assumes "distinct (map card_id cs)"
  shows "map (shifted_priority (shifts_from sp s cs)) cs = map sp [s..<s + length cs]"
  using assms
proof (induction cs arbitrary: s)
  case (Cons c cs)
  have fresh: "map_of (shifts_from sp (Suc s) cs) (card_id c) = None"
    using Cons.prems by (intro map_of_shifts_None) auto
  have "map (shifted_priority (shifts_from sp s (c # cs))) cs =
      map (shifted_priority (shifts_from sp (Suc s) cs)) cs"
  proof (rule map_cong [OF refl])
    fix d assume "d \<in> set cs"
    then have "card_id d \<in> set (map card_id cs)" by simp
    then have "card_id d \<noteq> card_id c" using Cons.prems by auto
    then show "shifted_priority (shifts_from sp s (c # cs)) d =
        shifted_priority (shifts_from sp (Suc s) cs) d"
      by (intro shifted_priority_cong) simp
  qed
  moreover have "shifted_priority (shifts_from sp s (c # cs)) c = sp s"
    using fresh by (simp add: shifted_priority_def)
  moreover have "[s..<s + length (c # cs)] = s # [Suc s..<Suc s + length cs]"
    by (simp add: upt_conv_Cons del: upt_Suc)
  moreover have "map (shifted_priority (shifts_from sp (Suc s) cs)) cs = map sp [Suc s..<Suc s + length cs]"
    using Cons.prems by (intro Cons.IH) simp
  ultimately show ?case by (simp only: list.map)
qed simp

lemma shifted_priority_append:
  "map (shifted_priority (a @ b)) cs = map (shifted_priority b) cs"
  if "\<And>c. c \<in> set cs \<Longrightarrow> map_of a (card_id c) = None"
  using that by (intro map_cong [OF refl] shifted_priority_cong) (simp add: map_add_def split: option.split)

lemma shifted_priority_append_left:
  "map (shifted_priority (a @ b)) cs = map (shifted_priority a) cs"
  if "\<And>c. c \<in> set cs \<Longrightarrow> map_of b (card_id c) = None"
  using that by (intro map_cong [OF refl] shifted_priority_cong) (simp add: map_add_def split: option.split)

lemma shifts_apply:
  fixes sp
  assumes dist: "distinct (map card_id (pre @ xs @ ys @ post))"
  defines "sh \<equiv> shifts_from sp 0 xs @ shifts_from sp (Suc (length xs)) ys"
  shows "map (shifted_priority sh) (pre @ xs) = map card_priority pre @ map sp [0..<length xs]"
    and "map (shifted_priority sh) (ys @ post) =
      map sp [Suc (length xs)..<Suc (length xs + length ys)] @ map card_priority post"
proof -
  have dx: "distinct (map card_id xs)" and dy: "distinct (map card_id ys)" using dist by simp_all
  have out: "map (shifted_priority sh) cs = map card_priority cs"
    if "card_id ` set cs \<inter> card_id ` set (xs @ ys) = {}" for cs
  proof (rule map_cong [OF refl])
    fix c assume "c \<in> set cs"
    then have "card_id c \<notin> card_id ` set xs" "card_id c \<notin> card_id ` set ys"
      using that by auto
    then show "shifted_priority sh c = card_priority c"
      by (simp add: sh_def shifted_priority_def map_add_def map_of_shifts_None)
  qed
  have "map (shifted_priority sh) xs = map (shifted_priority (shifts_from sp 0 xs)) xs"
    unfolding sh_def
    by (intro shifted_priority_append_left map_of_shifts_None) (use dist in \<open>auto simp: disjoint_iff\<close>)
  moreover have "map (shifted_priority sh) ys =
      map (shifted_priority (shifts_from sp (Suc (length xs)) ys)) ys"
    unfolding sh_def
    by (intro shifted_priority_append map_of_shifts_None) (use dist in \<open>auto simp: disjoint_iff\<close>)
  moreover have "map (shifted_priority sh) pre = map card_priority pre"
    "map (shifted_priority sh) post = map card_priority post"
    by (intro out; use dist in \<open>auto simp: disjoint_iff\<close>)+
  ultimately show
    "map (shifted_priority sh) (pre @ xs) = map card_priority pre @ map sp [0..<length xs]"
    "map (shifted_priority sh) (ys @ post) =
      map sp [Suc (length xs)..<Suc (length xs + length ys)] @ map card_priority post"
    using shifts_from_apply [OF dx, of sp 0] shifts_from_apply [OF dy, of sp "Suc (length xs)"]
    by simp_all
qed


lemma slots_inside:
  fixes ru rl :: int
  assumes space: "int n + 2 \<le> ru - rl" and range: "i64_min \<le> rl" "ru \<le> i64_max"
    and step: "step = max ((ru - rl) div (int (n + 1) + 1)) 1"
  shows "1 \<le> step" and "j \<le> n \<Longrightarrow> slot_priority ru step j = ru - step * (int j + 1)"
    and "j \<le> n \<Longrightarrow> rl < slot_priority ru step j"
proof -
  have "1 \<le> (ru - rl) div (int n + 2)"
    using space zdiv_mono1 [of "int n + 2" "ru - rl" "int n + 2"] by simp
  then have step': "step = (ru - rl) div (int n + 2)" using step by (simp add: algebra_simps)
  show pos: "1 \<le> step" using step by simp
  have "step * (int n + 2) \<le> ru - rl"
    unfolding step' by (simp add: minus_mod_eq_div_mult [symmetric])
  then have top: "step * (int n + 1) < ru - rl" using pos by (simp add: algebra_simps)
  fix j assume "j \<le> n"
  then have "step * (int j + 1) \<le> step * (int n + 1)" using pos by (intro mult_left_mono) auto
  then have above: "rl < ru - step * (int j + 1)" using top by linarith
  have "0 \<le> step * (int j + 1)" using pos by simp
  then have "clamp (ru - step * (int j + 1)) i64_min i64_max = ru - step * (int j + 1)"
    using above range by (intro clamp_inside) linarith+
  then show "slot_priority ru step j = ru - step * (int j + 1)"
    by (simp add: slot_priority_def)
  with above show "rl < slot_priority ru step j" by simp
qed

lemma slots_sorted:
  fixes ru rl :: int
  assumes "int n + 2 \<le> ru - rl" "i64_min \<le> rl" "ru \<le> i64_max"
    and "step = max ((ru - rl) div (int (n + 1) + 1)) 1"
  shows "sorted_wrt (>) (map (slot_priority ru step) [0..<Suc n])"
    and "p \<in> set (map (slot_priority ru step) [0..<Suc n]) \<Longrightarrow> rl < p \<and> p < ru"
proof -
  note slots = slots_inside [OF assms]
  have less: "slot_priority ru step j < slot_priority ru step i" if "i < j" "j \<le> n" for i j
  proof -
    have "step * (int i + 1) < step * (int j + 1)"
      using that slots(1) by (intro mult_strict_left_mono) auto
    then show ?thesis using slots(2) [of i] slots(2) [of j] that by simp
  qed
  show "sorted_wrt (>) (map (slot_priority ru step) [0..<Suc n])"
    unfolding sorted_wrt_iff_nth_less
    by (auto simp del: upt_Suc simp: less)
  assume "p \<in> set (map (slot_priority ru step) [0..<Suc n])"
  then obtain j where "j < Suc n" and p: "p = slot_priority ru step j" by (auto simp del: upt_Suc)
  then have j: "j \<le> n" by simp
  have "0 < step * (int j + 1)" using slots(1) by simp
  then show "rl < p \<and> p < ru" using slots(2,3) [OF j] p by simp
qed


section \<open>Placements keep the list in order\<close>

lemma take_drop_middle:
  assumes "k \<le> n" "left + n \<le> length xs"
  shows "take left xs @ take k (take n (drop left xs)) = take (left + k) xs"
    and "drop k (take n (drop left xs)) @ drop (left + n) xs = drop (left + k) xs"
    and "take left xs @ take k (take n (drop left xs)) @ drop k (take n (drop left xs)) @
      drop (left + n) xs = xs"
proof -
  show one: "take left xs @ take k (take n (drop left xs)) = take (left + k) xs"
    using assms by (simp add: take_add min_absorb1)
  show two: "drop k (take n (drop left xs)) @ drop (left + n) xs = drop (left + k) xs"
  proof -
    define ys where "ys = drop left xs"
    have "drop k (take n ys) @ drop n ys = drop k (take n ys @ drop n ys)"
      using assms by (simp add: ys_def)
    also have "\<dots> = drop k ys" by (simp only: append_take_drop_id)
    finally show ?thesis by (simp add: ys_def add.commute)
  qed
  show "take left xs @ take k (take n (drop left xs)) @ drop k (take n (drop left xs)) @
      drop (left + n) xs = xs"
    using one two by (metis append.assoc append_take_drop_id)
qed

lemma rebalance_space:
  assumes ord: "ordered_cards cards" and ne: "cards \<noteq> []"
    and l: "left = expand_left cards l0" and r: "right = expand_right cards r0"
    and bounds: "l0 \<le> r0" "r0 < length cards"
    and ru: "ru = (if left = 0 then i64_max else card_priority (cards ! (left - 1)))"
    and rl: "rl = (if right \<ge> length cards - 1 then i64_min else card_priority (cards ! (right + 1)))"
  shows "int (right - left + 1) + 2 \<le> ru - rl" and "i64_min \<le> rl" and "ru \<le> i64_max"
proof -
  have sorted: "sorted_wrt (>) (map card_priority cards)"
    and inside: "\<And>i. i < length cards \<Longrightarrow> inside_range (card_priority (cards ! i))"
    and len: "length cards < 2 ^ 63"
    using ord by (auto simp: ordered_cards_def ordered_priorities_def)
  have lr: "left \<le> right" "right < length cards"
    using expand_left_le [of cards l0] expand_right_bounds [OF bounds(2)] bounds l r by auto
  note d = ordered_distance [OF sorted lr]
  have ends: "inside_range (card_priority (cards ! left))" "inside_range (card_priority (cards ! right))"
    using inside lr by simp_all
  have upper: "ru - card_priority (cards ! left) \<ge> (if left = 0 then 1 else 2)"
  proof (cases left)
    case 0
    then show ?thesis using ends ru by (simp add: inside_range_def)
  next
    case (Suc m)
    then show ?thesis using expand_left_stops [of cards l0 m] l ru by simp
  qed
  have lower: "card_priority (cards ! right) - rl \<ge> (if right \<ge> length cards - 1 then 1 else 2)"
  proof (cases "right \<ge> length cards - 1")
    case True
    then show ?thesis using ends rl by (simp add: inside_range_def)
  next
    case False
    then have "Suc right < length cards" by simp
    then show ?thesis using expand_right_stops [of cards r0] r rl False by simp
  qed
  show "i64_min \<le> rl"
    using inside [of "right + 1"] lr rl
    by (cases "right + 1 < length cards") (auto simp: inside_range_def)
  show "ru \<le> i64_max"
    using inside [of "left - 1"] lr ru
    by (cases "left - 1 < length cards") (auto simp: inside_range_def)
  show "int (right - left + 1) + 2 \<le> ru - rl"
  proof (cases "left = 0 \<and> right \<ge> length cards - 1")
    case True
    moreover have "int (right - left + 1) < 2 ^ 63"
    proof -
      have "right - left + 1 \<le> length cards" using lr by simp
      then have "right - left + 1 < 2 ^ 63" using len by linarith
      then show ?thesis by (metis of_nat_less_iff of_nat_numeral of_nat_power)
    qed
    ultimately show ?thesis using ru rl by (simp add: i64_max_def i64_min_def)
  next
    case False
    then show ?thesis using d upper lower by (auto split: if_splits)
  qed
qed


lemma shifts_from_entry:
  "(uid, p) \<in> set (shifts_from sp s cs) \<Longrightarrow> \<exists>c\<in>set cs. uid = card_id c \<and> p \<noteq> card_priority c"
proof (induction cs arbitrary: s)
  case (Cons c cs)
  then consider "uid = card_id c \<and> p \<noteq> card_priority c" | "(uid, p) \<in> set (shifts_from sp (Suc s) cs)"
    by (auto split: if_splits)
  then show ?case using Cons.IH by cases auto
qed simp

lemma rebalance_shape:
  assumes ord: "ordered_cards cards" and ne: "cards \<noteq> []" and idx: "idx \<le> length cards"
  obtains left n ru rl step where
    "left \<le> idx" "idx \<le> left + n" "left + n \<le> length cards"
    "int n + 2 \<le> ru - rl" "i64_min \<le> rl" "ru \<le> i64_max"
    "step = max ((ru - rl) div (int (n + 1) + 1)) 1"
    "left > 0 \<longrightarrow> ru = card_priority (cards ! (left - 1))"
    "left + n < length cards \<longrightarrow> rl = card_priority (cards ! (left + n))"
    "left = 0 \<longrightarrow> ru = i64_max" "left + n = length cards \<longrightarrow> rl = i64_min"
    "placed_priorities (rebalance random_range cards idx) cards idx =
       map card_priority (take left cards) @ map (slot_priority ru step) [0..<Suc n] @
       map card_priority (drop (left + n) cards)"
    "set (shifts_of (rebalance random_range cards idx)) \<subseteq>
       {(card_id c, p) | c p. c \<in> set (take n (drop left cards)) \<and> p \<noteq> card_priority c}"
proof -
  define left where "left = expand_left cards (if idx > 0 then idx - 1 else 0)"
  define right where "right = expand_right cards (if idx < length cards then idx else length cards - 1)"
  define n where "n = right - left + 1"
  define k where "k = idx - left"
  define ru where "ru = (if left = 0 then i64_max else card_priority (cards ! (left - 1)))"
  define rl where "rl = (if right \<ge> length cards - 1 then i64_min else card_priority (cards ! (right + 1)))"
  define step where "step = max ((ru - rl) div (int (n + 1) + 1)) 1"
  have l0: "left \<le> (if idx > 0 then idx - 1 else 0)"
    unfolding left_def by (rule expand_left_le)
  have "right \<ge> (if idx < length cards then idx else length cards - 1) \<and> right < length cards"
    unfolding right_def using ne by (intro expand_right_bounds) auto
  then have lr: "left \<le> idx" "left \<le> right" "right < length cards" "idx \<le> right + 1"
    using l0 idx by (auto split: if_splits)
  then have k: "k \<le> n" "left + n \<le> length cards" "left + k = idx" "left + n = right + 1"
    by (auto simp: n_def k_def)
  note space = rebalance_space [OF ord ne left_def right_def _ _ ru_def rl_def]
  have "(if idx > 0 then idx - 1 else 0) \<le> (if idx < length cards then idx else length cards - 1)"
    "(if idx < length cards then idx else length cards - 1) < length cards"
    using idx ne by auto
  note space = space [OF this, folded n_def]
  define xs where "xs = take k (take n (drop left cards))"
  define ys where "ys = drop k (take n (drop left cards))"
  have lens: "length xs = k" "length ys = n - k" using k by (auto simp: xs_def ys_def)
  define sh where "sh = shifts_from (slot_priority ru step) 0 xs @
    shifts_from (slot_priority ru step) (Suc (length xs)) ys"
  obtain s' np where slots: "assign_slots ru step k (take n (drop left cards)) 0 None = (sh, s', np)"
    and np: "(case np of Some p \<Rightarrow> p | None \<Rightarrow> slot_priority ru step s') = slot_priority ru step k"
    using assign_slots_None [of 0 k k "take n (drop left cards)" ru step] k lens
    by (auto simp: sh_def xs_def ys_def)
  have reb: "rebalance random_range cards idx =
      (if sh = [] then Simple (slot_priority ru step k) else Rebalanced (slot_priority ru step k) sh)"
    unfolding rebalance_def Let_def left_def [symmetric] right_def [symmetric] ru_def [symmetric]
      rl_def [symmetric] n_def [symmetric] step_def [symmetric] k_def [symmetric]
    using ne slots np by simp
  have new: "new_priority_of (rebalance random_range cards idx) = slot_priority ru step k"
    and shs: "shifts_of (rebalance random_range cards idx) = sh"
    by (simp_all add: reb)
  note split = take_drop_middle [OF k(1,2)]
  have dist: "distinct (map card_id (take left cards @ xs @ ys @ drop (left + n) cards))"
    unfolding xs_def ys_def split(3) using ord by (simp add: ordered_cards_def)
  note applied = shifts_apply [OF dist, of "slot_priority ru step", folded sh_def]
  have "take left cards @ xs = take idx cards" "ys @ drop (left + n) cards = drop idx cards"
    using split(1,2) k(3) by (simp_all add: xs_def ys_def)
  then have placed: "placed_priorities (rebalance random_range cards idx) cards idx =
      map card_priority (take left cards) @ map (slot_priority ru step) [0..<length xs] @
      [slot_priority ru step k] @
      map (slot_priority ru step) [Suc (length xs)..<Suc (length xs + length ys)] @
      map card_priority (drop (left + n) cards)"
    using applied by (simp add: placed_priorities_def new shs del: upt_Suc map_append)
  have "[0..<Suc n] = [0..<k] @ [k] @ [Suc k..<Suc n]"
    using k(1) by (metis append_Cons append_Nil le_add_diff_inverse le_imp_less_Suc plus_nat.add_0
        upt_add_eq_append upt_conv_Cons zero_le less_imp_le_nat)
  then have placed': "placed_priorities (rebalance random_range cards idx) cards idx =
      map card_priority (take left cards) @ map (slot_priority ru step) [0..<Suc n] @
      map card_priority (drop (left + n) cards)"
    using placed lens k(1) by (simp del: upt_Suc)
  have "set xs \<union> set ys = set (take n (drop left cards))"
    unfolding xs_def ys_def by (metis append_take_drop_id set_append)
  then have shsub: "set (shifts_of (rebalance random_range cards idx)) \<subseteq>
       {(card_id c, p) | c p. c \<in> set (take n (drop left cards)) \<and> p \<noteq> card_priority c}"
    unfolding shs sh_def by (auto dest!: shifts_from_entry)
  show thesis
    by (rule that [of left n ru rl step])
      (use lr k space placed' shsub in \<open>auto simp: ru_def rl_def step_def\<close>)
qed

lemma rebalance_keeps_order:
  assumes ord: "ordered_cards cards" and ne: "cards \<noteq> []" and idx: "idx \<le> length cards"
  shows "ordered_priorities (placed_priorities (rebalance random_range cards idx) cards idx)"
proof -
  obtain left n ru rl step where
    "left \<le> idx" "idx \<le> left + n" and b: "left + n \<le> length cards"
    and space: "int n + 2 \<le> ru - rl" "i64_min \<le> rl" "ru \<le> i64_max"
      "step = max ((ru - rl) div (int (n + 1) + 1)) 1"
    and ru: "left > 0 \<longrightarrow> ru = card_priority (cards ! (left - 1))"
    and rl: "left + n < length cards \<longrightarrow> rl = card_priority (cards ! (left + n))"
    and "left = 0 \<longrightarrow> ru = i64_max" "left + n = length cards \<longrightarrow> rl = i64_min"
    and placed: "placed_priorities (rebalance random_range cards idx) cards idx =
       map card_priority (take left cards) @ map (slot_priority ru step) [0..<Suc n] @
       map card_priority (drop (left + n) cards)"
    and "set (shifts_of (rebalance random_range cards idx)) \<subseteq>
       {(card_id c, p) | c p. c \<in> set (take n (drop left cards)) \<and> p \<noteq> card_priority c}"
    by (rule rebalance_shape [OF assms, where random_range = random_range])
  note slots = slots_sorted [OF space]
  have whole: "map card_priority (take left cards) @ map card_priority (take n (drop left cards)) @
      map card_priority (drop (left + n) cards) = map card_priority cards"
    using take_drop_middle(3) [of 0 n left cards] b by (metis le0 append_Nil drop_0 map_append take_0)
  have ps: "ordered_priorities (map card_priority cards)"
    using ord by (simp add: ordered_cards_def)
  have "sorted_wrt (>) (map card_priority (take left cards) @
      map (slot_priority ru step) [0..<Suc n] @ map card_priority (drop (left + n) cards))"
  proof (rule sorted_wrt_greater_between)
    show "sorted_wrt (>) (map card_priority (take left cards) @
        map card_priority (take n (drop left cards)) @ map card_priority (drop (left + n) cards))"
      unfolding whole using ps by (simp add: ordered_priorities_def)
    fix p assume "p \<in> set (map (slot_priority ru step) [0..<Suc n])"
    then have "rl < p" "p < ru" using slots(2) by blast+
    then show "(map card_priority (take left cards) \<noteq> [] \<longrightarrow>
          p < last (map card_priority (take left cards))) \<and>
        (map card_priority (drop (left + n) cards) \<noteq> [] \<longrightarrow>
          hd (map card_priority (drop (left + n) cards)) < p)"
      using ru rl b
      by (cases "left + n = length cards"; cases "left = 0")
        (simp_all add: last_map last_take_nth hd_map hd_drop_conv_nth)
  qed (rule slots(1))
  moreover have "inside_range p"
    if "p \<in> set (map card_priority (take left cards) @
      map (slot_priority ru step) [0..<Suc n] @ map card_priority (drop (left + n) cards))" for p
  proof -
    from that consider "p \<in> set (map card_priority cards)" | "rl < p" "p < ru"
      using slots(2) by (auto simp del: upt_Suc dest: in_set_takeD in_set_dropD)
    then show ?thesis
      using ps space by cases (auto simp: ordered_priorities_def inside_range_def)
  qed
  ultimately show ?thesis unfolding placed ordered_priorities_def by blast
qed


lemma bounds_for_position_enclose:
  assumes ord: "ordered_priorities (map card_priority cards)"
    and b: "bounds_for_position cards pos = (upper, lower, idx)"
  shows "idx \<le> length cards" "lower < upper" "i64_min \<le> lower" "upper \<le> i64_max"
    and "idx > 0 \<Longrightarrow> upper = card_priority (cards ! (idx - 1))"
    and "idx < length cards \<Longrightarrow> lower = card_priority (cards ! idx)"
    and "cards = [] \<Longrightarrow> upper = i64_max \<and> lower = i64_min"
proof -
  have inside: "i64_min < card_priority (cards ! i) \<and> card_priority (cards ! i) < i64_max"
    if "i < length cards" for i
    using ord that by (auto simp: ordered_priorities_def inside_range_def)
  have desc: "card_priority (cards ! j) < card_priority (cards ! i)" if "i < j" "j < length cards" for i j
    using ord that sorted_wrt_nth_less [of "(>)" "map card_priority cards" i j]
    by (auto simp: ordered_priorities_def)
  have m: "i64_min < i64_max" by (simp add: i64_min_def i64_max_def)
  show i: "idx \<le> length cards"
    using b by (auto simp: bounds_for_position_def Let_def split: InsertPosition.splits)
  show u: "idx > 0 \<Longrightarrow> upper = card_priority (cards ! (idx - 1))"
    using b by (auto simp: bounds_for_position_def Let_def last_conv_nth split: InsertPosition.splits if_splits)
  show l: "idx < length cards \<Longrightarrow> lower = card_priority (cards ! idx)"
    using b by (auto simp: bounds_for_position_def Let_def hd_conv_nth split: InsertPosition.splits if_splits)
  have u0: "idx = 0 \<Longrightarrow> upper = i64_max"
    using b by (auto simp: bounds_for_position_def Let_def split: InsertPosition.splits if_splits)
  have l0: "idx = length cards \<Longrightarrow> lower = i64_min"
    using b by (auto simp: bounds_for_position_def Let_def split: InsertPosition.splits if_splits)
  show "cards = [] \<Longrightarrow> upper = i64_max \<and> lower = i64_min"
    using i u0 l0 by simp
  show "i64_min \<le> lower"
    using i l l0 inside [of idx] by (cases "idx = length cards") simp_all
  show "upper \<le> i64_max"
    using i u u0 inside [of "idx - 1"] by (cases idx) simp_all
  show "lower < upper"
    using i u u0 l l0 m inside [of "idx - 1"] inside [of idx] desc [of "idx - 1" idx]
    by (cases "idx = 0"; cases "idx = length cards") simp_all
qed

lemma place_card_keeps_order:
  assumes ord: "ordered_cards cards"
  shows "ordered_priorities
    (placed_priorities (place_card random_range cards pos) cards (insert_index cards pos))"
proof -
  obtain upper lower idx where b: "bounds_for_position cards pos = (upper, lower, idx)"
    by (metis prod_cases3)
  obtain u l where c: "cap_edge_bounds upper lower = (u, l)" by fastforce
  have ps: "ordered_priorities (map card_priority cards)" using ord by (simp add: ordered_cards_def)
  note enc = bounds_for_position_enclose [OF ps b]
  note cap = cap_edge_bounds_within [OF c enc(3,4)]
  have pl: "place_card random_range cards pos =
      (if u - l > 1 then Simple (compute_priority random_range u l) else rebalance random_range cards idx)"
    by (simp add: place_card_def b c try_place_def)
  have ix: "insert_index cards pos = idx" by (simp add: insert_index_def b)
  show ?thesis
  proof (cases "u - l > 1")
    case True
    note between = compute_priority_between [OF True, of random_range]
    have "ordered_priorities (placed_priorities (Simple (compute_priority random_range u l)) cards idx)"
      using between cap(1,2) enc by (intro placed_simple [OF ps]) auto
    then show ?thesis using True by (simp add: pl ix)
  next
    case False
    then have "cards \<noteq> []"
      using cap(3) enc(7) by (auto simp: i64_min_def i64_max_def)
    from rebalance_keeps_order [OF ord this enc(1)] show ?thesis
      using False by (simp add: pl ix)
  qed
qed

end
