(* ===== verification/Client_Moves.thy ===== *)
theory Client_Moves
  imports Client_Placement
begin

text \<open>
  Moving a card: the position of a drop (clients/wasm/src/state/drag.rs) and the burst that
  collects priority moves before they are pushed (clients/wasm/src/state/pending_priority.rs).
  A \<open>HashMap\<close> of the burst is a finite map; the order in which Rust iterates over it is not
  fixed, so \<open>build_versions\<close> takes the key sequence of the iteration as an argument. Nothing here
  returns an error: the one failure is the panic of \<open>next\<close> on an exhausted count.
\<close>

section \<open>Drag and drop\<close>

datatype DropEdge = Above | Below

datatype DragMode = Anywhere | Handle

definition drag_mode_from_str_or_default :: "string \<Rightarrow> DragMode" where
  "drag_mode_from_str_or_default s = (if s = ''handle'' then Handle else Anywhere)"

definition drop_position ::
  "card list \<Rightarrow> uuid \<Rightarrow> uuid \<Rightarrow> DropEdge \<Rightarrow> InsertPosition option" where
  "drop_position filtered source_id target_id edge =
     (if source_id = target_id then None
      else case iter_position (\<lambda>c. card_id c = source_id) filtered of
        None \<Rightarrow> None
      | Some src_idx \<Rightarrow>
          (case iter_position (\<lambda>c. card_id c = target_id) filtered of
             None \<Rightarrow> None
           | Some tgt_idx \<Rightarrow>
               (let base = (if tgt_idx > src_idx then tgt_idx - 1 else tgt_idx);
                    pos = (case edge of Above \<Rightarrow> base | Below \<Rightarrow> base + 1)
                in if pos = src_idx then None else Some (At pos))))"

section \<open>The burst of priority moves\<close>

record priority_burst =
  burst_card_id :: uuid
  burst_base :: card
  burst_priority :: int
  sibling_bases :: "uuid \<rightharpoonup> card"
  sibling_priorities :: "uuid \<rightharpoonup> int"

definition burst_new :: "card \<Rightarrow> int \<Rightarrow> priority_burst" where
  "burst_new base priority =
     \<lparr>burst_card_id = card_id base, burst_base = base, burst_priority = priority,
      sibling_bases = Map.empty, sibling_priorities = Map.empty\<rparr>"

definition apply_sibling :: "card \<times> int \<Rightarrow> priority_burst \<Rightarrow> priority_burst" where
  "apply_sibling entry burst =
     (let prev_sibling = fst entry; uid = card_id prev_sibling
      in burst\<lparr>sibling_bases :=
                (case sibling_bases burst uid of
                   None \<Rightarrow> (sibling_bases burst)(uid \<mapsto> prev_sibling)
                 | Some _ \<Rightarrow> sibling_bases burst),
               sibling_priorities := (sibling_priorities burst)(uid \<mapsto> snd entry)\<rparr>)"

definition apply_move :: "int \<Rightarrow> (card \<times> int) list \<Rightarrow> priority_burst \<Rightarrow> priority_burst" where
  "apply_move new_priority siblings_with_prev burst =
     fold apply_sibling siblings_with_prev (burst\<lparr>burst_priority := new_priority\<rparr>)"

definition reprioritised ::
  "(bytes \<Rightarrow> hash) \<Rightarrow> datetime \<Rightarrow> card \<Rightarrow> int \<Rightarrow> (unit, card) outcome" where
  "reprioritised H now base priority =
     card_next H base (card_content base) priority (card_tags base) (card_blazed base) now
       (card_due_date base)"

primrec sibling_versions ::
  "(bytes \<Rightarrow> hash) \<Rightarrow> datetime \<Rightarrow> priority_burst \<Rightarrow> uuid list \<Rightarrow> (unit, card list) outcome" where
  "sibling_versions H now burst [] = Ok []"
| "sibling_versions H now burst (uid # uids) =
     (case sibling_bases burst uid of
        None \<Rightarrow> sibling_versions H now burst uids
      | Some base \<Rightarrow>
          (let target = (case sibling_priorities burst uid of
                           Some p \<Rightarrow> p | None \<Rightarrow> card_priority base)
           in bind_outcome (reprioritised H now base target)
                (\<lambda>v. map_ok (\<lambda>vs. v # vs) (sibling_versions H now burst uids))))"

definition build_versions ::
  "(bytes \<Rightarrow> hash) \<Rightarrow> datetime \<Rightarrow> uuid list \<Rightarrow> priority_burst \<Rightarrow> (unit, card \<times> card list) outcome" where
  "build_versions H now keys burst =
     bind_outcome (reprioritised H now (burst_base burst) (burst_priority burst))
       (\<lambda>primary. map_ok (\<lambda>siblings. (primary, siblings)) (sibling_versions H now burst keys))"

section \<open>Enqueueing and flushing\<close>

text \<open>
  The part of the app state the moves touch: the local cards, the pending burst, the timer with
  its countdown and the two debounce settings. \<open>ms_pushed\<close> logs the bursts handed to
  \<open>push_burst\<close>, in order. \<open>setTimeout\<close> is the browser's: the handle it returns is an argument.
\<close>

record move_state =
  ms_cards :: "card list"
  ms_pending :: "priority_burst option"
  ms_timer_handle :: int
  ms_countdown_ms :: nat
  ms_debounce_enabled :: bool
  ms_debounce_delay_ms :: nat
  ms_pushed :: "(card \<times> card list) list"

definition upsert_card :: "card \<Rightarrow> card list \<Rightarrow> card list" where
  "upsert_card c cards = filter (\<lambda>d. card_id d \<noteq> card_id c) cards @ [c]"

definition cancel_priority_timer :: "move_state \<Rightarrow> move_state" where
  "cancel_priority_timer st =
     (if ms_timer_handle st \<noteq> 0 then st\<lparr>ms_timer_handle := 0\<rparr> else st)\<lparr>ms_countdown_ms := 0\<rparr>"

definition flush_sync_take ::
  "(bytes \<Rightarrow> hash) \<Rightarrow> datetime \<Rightarrow> (priority_burst \<Rightarrow> uuid list) \<Rightarrow> move_state
   \<Rightarrow> (unit, (card \<times> card list) option \<times> move_state) outcome" where
  "flush_sync_take H now keys_of st =
     (let burst = ms_pending st;
          st = st\<lparr>ms_pending := None\<rparr>
      in case burst of
           None \<Rightarrow> Ok (None, st)
         | Some b \<Rightarrow> map_ok (\<lambda>v. (Some v, st)) (build_versions H now (keys_of b) b))"

definition flush_burst ::
  "(bytes \<Rightarrow> hash) \<Rightarrow> datetime \<Rightarrow> (priority_burst \<Rightarrow> uuid list) \<Rightarrow> move_state
   \<Rightarrow> (unit, move_state) outcome" where
  "flush_burst H now keys_of st =
     map_ok (\<lambda>(taken, st). case taken of
          None \<Rightarrow> st
        | Some v \<Rightarrow> st\<lparr>ms_pushed := ms_pushed st @ [v]\<rparr>)
       (flush_sync_take H now keys_of (cancel_priority_timer st))"

definition arm_timer ::
  "(bytes \<Rightarrow> hash) \<Rightarrow> datetime \<Rightarrow> (priority_burst \<Rightarrow> uuid list) \<Rightarrow> int \<Rightarrow> move_state
   \<Rightarrow> (unit, move_state) outcome" where
  "arm_timer H now keys_of handle st =
     (let st = cancel_priority_timer st
      in if \<not> ms_debounce_enabled st then flush_burst H now keys_of st
         else Ok (st\<lparr>ms_countdown_ms := ms_debounce_delay_ms st, ms_timer_handle := handle\<rparr>))"

definition merge_move ::
  "priority_burst option \<Rightarrow> card \<Rightarrow> int \<Rightarrow> (card \<times> int) list \<Rightarrow> priority_burst" where
  "merge_move pending prev_card new_priority siblings_with_prev =
     (let fresh = apply_move new_priority siblings_with_prev (burst_new prev_card new_priority)
      in case pending of
           Some b \<Rightarrow> if burst_card_id b = card_id prev_card
                     then apply_move new_priority siblings_with_prev b else fresh
         | None \<Rightarrow> fresh)"

definition enqueue_move ::
  "(bytes \<Rightarrow> hash) \<Rightarrow> datetime \<Rightarrow> (priority_burst \<Rightarrow> uuid list) \<Rightarrow> int
   \<Rightarrow> card \<Rightarrow> int \<Rightarrow> (card \<times> int) list \<Rightarrow> move_state \<Rightarrow> (unit, move_state) outcome" where
  "enqueue_move H now keys_of handle prev_card new_priority siblings_with_prev st =
     bind_outcome
       (case ms_pending st of
          Some b \<Rightarrow> if burst_card_id b \<noteq> card_id prev_card
                    then flush_burst H now keys_of st else Ok st
        | None \<Rightarrow> Ok st)
       (\<lambda>st. let b = merge_move (ms_pending st) prev_card new_priority siblings_with_prev
             in bind_outcome (build_versions H now (keys_of b) b)
                  (\<lambda>(primary, siblings).
                     arm_timer H now keys_of handle
                       (st\<lparr>ms_pending := Some b,
                          ms_cards := fold upsert_card siblings
                            (upsert_card primary (ms_cards st))\<rparr>)))"

definition discard_for :: "uuid \<Rightarrow> move_state \<Rightarrow> move_state" where
  "discard_for uid st =
     (if (case ms_pending st of None \<Rightarrow> False | Some b \<Rightarrow> burst_card_id b = uid)
      then cancel_priority_timer (st\<lparr>ms_pending := None\<rparr>) else st)"

text \<open>The one batch a burst with siblings is pushed as: the moved card, then each sibling.\<close>

definition burst_items :: "card \<Rightarrow> card list \<Rightarrow> card list list" where
  "burst_items primary siblings = [primary] # map (\<lambda>sc. [sc]) siblings"

text \<open>
  Carrying a placement into the pipeline (clients/wasm/src/components/card_detail.rs): the
  shifted cards are looked up in the list as it was before the burst.
\<close>

fun siblings_with_prev :: "card list \<Rightarrow> (uuid \<times> int) list \<Rightarrow> (card \<times> int) list" where
  "siblings_with_prev all_cards [] = []"
| "siblings_with_prev all_cards ((sibling_id, new_priority) # shifted) =
     (case find (\<lambda>c. card_id c = sibling_id) all_cards of
        None \<Rightarrow> siblings_with_prev all_cards shifted
      | Some prev \<Rightarrow> (prev, new_priority) # siblings_with_prev all_cards shifted)"

fun apply_move_placement ::
  "(bytes \<Rightarrow> hash) \<Rightarrow> datetime \<Rightarrow> (priority_burst \<Rightarrow> uuid list) \<Rightarrow> int
   \<Rightarrow> Placement \<Rightarrow> card \<Rightarrow> card list \<Rightarrow> move_state \<Rightarrow> (unit, move_state) outcome" where
  "apply_move_placement H now keys_of handle (Simple new_priority) current all_cards st =
     enqueue_move H now keys_of handle current new_priority [] st"
| "apply_move_placement H now keys_of handle (Rebalanced priority shifted) current all_cards st =
     enqueue_move H now keys_of handle current priority (siblings_with_prev all_cards shifted) st"

section \<open>What a burst contains\<close>

lemma apply_sibling_fields [simp]:
  "burst_base (apply_sibling e b) = burst_base b" "burst_priority (apply_sibling e b) = burst_priority b"
  "burst_card_id (apply_sibling e b) = burst_card_id b"
  by (simp_all add: apply_sibling_def Let_def)

lemma fold_apply_sibling_fields [simp]:
  "burst_base (fold apply_sibling es b) = burst_base b"
  "burst_priority (fold apply_sibling es b) = burst_priority b"
  "burst_card_id (fold apply_sibling es b) = burst_card_id b"
  by (induction es arbitrary: b) simp_all

lemma apply_move_fields [simp]:
  "burst_base (apply_move p es b) = burst_base b" "burst_priority (apply_move p es b) = p"
  "burst_card_id (apply_move p es b) = burst_card_id b"
  by (simp_all add: apply_move_def)

lemma sibling_bases_fold:
  "sibling_bases (fold apply_sibling es b) uid =
     (case sibling_bases b uid of
        Some c \<Rightarrow> Some c | None \<Rightarrow> map_of (map (\<lambda>e. (card_id (fst e), fst e)) es) uid)"
  by (induction es arbitrary: b) (auto simp: apply_sibling_def Let_def split: option.splits)

lemma sibling_priorities_fold:
  "sibling_priorities (fold apply_sibling es b) =
     sibling_priorities b ++ map_of (rev (map (\<lambda>e. (card_id (fst e), snd e)) es))"
  by (induction es arbitrary: b) (simp_all add: apply_sibling_def Let_def)

text \<open>The burst that a first move and the later moves of the same card leave.\<close>

definition merged_burst :: "card \<Rightarrow> (int \<times> (card \<times> int) list) list \<Rightarrow> priority_burst" where
  "merged_burst base moves =
     fold (\<lambda>m. apply_move (fst m) (snd m)) moves (burst_new base (card_priority base))"

lemma merged_burst_snoc:
  "merged_burst base (moves @ [m]) = apply_move (fst m) (snd m) (merged_burst base moves)"
  by (simp add: merged_burst_def)

lemma merged_burst_fields:
  "burst_base (merged_burst base moves) = base"
  "burst_card_id (merged_burst base moves) = card_id base"
  "moves \<noteq> [] \<Longrightarrow> burst_priority (merged_burst base moves) = fst (last moves)"
proof (induction moves rule: rev_induct)
  case Nil
  { case 1 show ?case by (simp add: merged_burst_def burst_new_def) }
  { case 2 show ?case by (simp add: merged_burst_def burst_new_def) }
  { case 3 then show ?case by simp }
qed (simp_all add: merged_burst_snoc)

lemma merged_burst_bases:
  "sibling_bases (merged_burst base moves) =
     map_of (map (\<lambda>e. (card_id (fst e), fst e)) (concat (map snd moves)))"
proof (induction moves rule: rev_induct)
  case Nil
  show ?case by (simp add: merged_burst_def burst_new_def)
next
  case (snoc m moves)
  show ?case
  proof
    fix uid
    have "sibling_bases (merged_burst base (moves @ [m])) uid =
        (case sibling_bases (merged_burst base moves) uid of
           Some c \<Rightarrow> Some c | None \<Rightarrow> map_of (map (\<lambda>e. (card_id (fst e), fst e)) (snd m)) uid)"
      by (simp add: merged_burst_snoc apply_move_def sibling_bases_fold)
    then show "sibling_bases (merged_burst base (moves @ [m])) uid =
        map_of (map (\<lambda>e. (card_id (fst e), fst e)) (concat (map snd (moves @ [m])))) uid"
      by (simp add: snoc.IH map_add_def split: option.split)
  qed
qed

lemma merged_burst_priorities:
  "sibling_priorities (merged_burst base moves) =
     map_of (rev (map (\<lambda>e. (card_id (fst e), snd e)) (concat (map snd moves))))"
proof (induction moves rule: rev_induct)
  case (snoc m moves)
  then show ?case
    by (simp add: merged_burst_snoc apply_move_def sibling_priorities_fold)
qed (simp add: merged_burst_def burst_new_def)

lemma sibling_versions_Ok:
  assumes "(sibling_versions H now b uids :: (unit, card list) outcome) = Ok vs"
    "\<forall>uid\<in>set uids. sibling_bases b uid \<noteq> None"
  shows "list_all2 (\<lambda>uid v. \<exists>base. sibling_bases b uid = Some base \<and>
    (reprioritised H now base (case sibling_priorities b uid of Some p \<Rightarrow> p | None \<Rightarrow> card_priority base)
       :: (unit, card) outcome) = Ok v) uids vs"
  using assms
proof (induction uids arbitrary: vs)
  case (Cons uid uids)
  then obtain base where b: "sibling_bases b uid = Some base" by auto
  with Cons.prems obtain v ws where
    "(reprioritised H now base (case sibling_priorities b uid of Some p \<Rightarrow> p | None \<Rightarrow> card_priority base)
       :: (unit, card) outcome) = Ok v" "(sibling_versions H now b uids :: (unit, card list) outcome) = Ok ws"
    "vs = v # ws"
    by (auto simp: Let_def outcome_simps)
  with b Cons.IH [of ws] Cons.prems show ?case by auto
qed simp

lemma reprioritised_Ok:
  assumes "reprioritised H now base p = Ok v"
  shows "card_id v = card_id base" "card_priority v = p" "card_content v = card_content base"
    "card_ancestor_hash v = card_hash base" "card_due_date v = card_due_date base"
    "card_blazed v = card_blazed base" "mset (card_tags v) = mset (card_tags base)"
    "is_card_next H base v"
proof -
  note facts = card_next_Ok [OF assms [unfolded reprioritised_def]]
  show "card_id v = card_id base" "card_priority v = p" "card_content v = card_content base"
    "card_ancestor_hash v = card_hash base" "card_due_date v = card_due_date base"
    "card_blazed v = card_blazed base" "mset (card_tags v) = mset (card_tags base)"
    using facts by simp_all
  show "is_card_next H base v"
    using assms unfolding reprioritised_def is_card_next_def card_next_def
    by (fastforce split: outcome.splits)
qed


lemma build_versions_Ok:
  assumes "(build_versions H now keys b :: (unit, card \<times> card list) outcome) = Ok (primary, siblings)"
    and "set keys = dom (sibling_bases b)"
  shows "(reprioritised H now (burst_base b) (burst_priority b) :: (unit, card) outcome) = Ok primary"
    and "list_all2 (\<lambda>uid v. \<exists>base. sibling_bases b uid = Some base \<and>
      (reprioritised H now base (case sibling_priorities b uid of Some p \<Rightarrow> p | None \<Rightarrow> card_priority base)
         :: (unit, card) outcome) = Ok v) keys siblings"
proof -
  from assms(1) have r: "(reprioritised H now (burst_base b) (burst_priority b) :: (unit, card) outcome) =
      Ok primary"
    and s: "(sibling_versions H now b keys :: (unit, card list) outcome) = Ok siblings"
    by (auto simp: build_versions_def outcome_simps)
  show "(reprioritised H now (burst_base b) (burst_priority b) :: (unit, card) outcome) = Ok primary"
    by (rule r)
  have "\<forall>uid\<in>set keys. sibling_bases b uid \<noteq> None" using assms(2) by auto
  from sibling_versions_Ok [OF s this]
  show "list_all2 (\<lambda>uid v. \<exists>base. sibling_bases b uid = Some base \<and>
      (reprioritised H now base (case sibling_priorities b uid of Some p \<Rightarrow> p | None \<Rightarrow> card_priority base)
         :: (unit, card) outcome) = Ok v) keys siblings" .
qed

lemma apply_move_new: "apply_move p es (burst_new c q) = apply_move p es (burst_new c r)"
  by (simp add: apply_move_def burst_new_def)

lemma merge_move_merged:
  assumes "card_id prev = card_id base"
  shows "merge_move (Some (merged_burst base moves)) prev p es = merged_burst base (moves @ [(p, es)])"
  using assms by (simp add: merge_move_def merged_burst_fields merged_burst_snoc)

lemma merge_move_fresh: "merge_move None base p es = merged_burst base [(p, es)]"
  by (simp add: merge_move_def merged_burst_def apply_move_new [of p es base p "card_priority base"])

section \<open>A run of moves of one card\<close>

record move =
  move_now :: datetime
  move_handle :: int
  move_prev :: card
  move_priority :: int
  move_siblings :: "(card \<times> int) list"

primrec enqueue_moves ::
  "(bytes \<Rightarrow> hash) \<Rightarrow> (priority_burst \<Rightarrow> uuid list) \<Rightarrow> move list \<Rightarrow> move_state
   \<Rightarrow> (unit, move_state) outcome" where
  "enqueue_moves H keys_of [] st = Ok st"
| "enqueue_moves H keys_of (m # ms) st =
     bind_outcome
       (enqueue_move H (move_now m) keys_of (move_handle m) (move_prev m) (move_priority m)
          (move_siblings m) st)
       (enqueue_moves H keys_of ms)"

lemma cancel_priority_timer_fields [simp]:
  "ms_pending (cancel_priority_timer st) = ms_pending st"
  "ms_pushed (cancel_priority_timer st) = ms_pushed st"
  "ms_debounce_enabled (cancel_priority_timer st) = ms_debounce_enabled st"
  "ms_cards (cancel_priority_timer st) = ms_cards st"
  by (simp_all add: cancel_priority_timer_def)

lemma enqueue_move_debounced:
  assumes "enqueue_move H now keys_of handle prev p es st = Ok st'" "ms_debounce_enabled st"
    and "\<forall>b. ms_pending st = Some b \<longrightarrow> burst_card_id b = card_id prev"
  shows "ms_pending st' = Some (merge_move (ms_pending st) prev p es)"
    "ms_pushed st' = ms_pushed st" "ms_debounce_enabled st'"
  using assms
  by (auto simp: enqueue_move_def arm_timer_def Let_def outcome_simps split: option.splits)

lemma enqueue_moves_merged:
  assumes "enqueue_moves H keys_of ms st = Ok st'" "ms_debounce_enabled st"
    and "ms_pending st = Some (merged_burst base done_moves)"
    and "\<forall>m\<in>set ms. card_id (move_prev m) = card_id base"
  shows "ms_pending st' =
      Some (merged_burst base (done_moves @ map (\<lambda>m. (move_priority m, move_siblings m)) ms))"
    and "ms_pushed st' = ms_pushed st"
proof -
  have "ms_pending st' =
      Some (merged_burst base (done_moves @ map (\<lambda>m. (move_priority m, move_siblings m)) ms)) \<and>
    ms_pushed st' = ms_pushed st"
    using assms
  proof (induction ms arbitrary: st done_moves)
    case (Cons m ms)
    then obtain st1 where
      one: "enqueue_move H (move_now m) keys_of (move_handle m) (move_prev m) (move_priority m)
        (move_siblings m) st = Ok st1"
      and rest: "enqueue_moves H keys_of ms st1 = Ok st'"
      by (auto simp: outcome_simps)
    have prev: "card_id (move_prev m) = card_id base" using Cons.prems(4) by simp
    have same: "\<forall>b. ms_pending st = Some b \<longrightarrow> burst_card_id b = card_id (move_prev m)"
      using Cons.prems(3) prev by (simp add: merged_burst_fields)
    note step = enqueue_move_debounced [OF one Cons.prems(2) same]
    have p1: "ms_pending st1 =
        Some (merged_burst base (done_moves @ [(move_priority m, move_siblings m)]))"
      using step(1) Cons.prems(3) by (simp add: merge_move_merged [OF prev])
    have tl: "\<forall>m\<in>set ms. card_id (move_prev m) = card_id base" using Cons.prems(4) by simp
    from Cons.IH [OF rest step(3) p1 tl] step(2) show ?case by simp
  qed simp
  then show "ms_pending st' =
      Some (merged_burst base (done_moves @ map (\<lambda>m. (move_priority m, move_siblings m)) ms))"
    and "ms_pushed st' = ms_pushed st" by blast+
qed

lemma enqueue_moves_pending:
  assumes "enqueue_moves H keys_of ms st = Ok st'" "ms_debounce_enabled st" "ms_pending st = None"
    and "ms \<noteq> []" "\<forall>m\<in>set ms. card_id (move_prev m) = card_id (move_prev (hd ms))"
  shows "ms_pending st' = Some (merged_burst (move_prev (hd ms))
      (map (\<lambda>m. (move_priority m, move_siblings m)) ms))"
    and "ms_pushed st' = ms_pushed st"
proof -
  from assms(4) obtain m rest where ms: "ms = m # rest" by (cases ms) auto
  with assms(1) obtain st1 where
    one: "enqueue_move H (move_now m) keys_of (move_handle m) (move_prev m) (move_priority m)
      (move_siblings m) st = Ok st1"
    and more: "enqueue_moves H keys_of rest st1 = Ok st'"
    by (auto simp: outcome_simps)
  have none: "\<forall>b. ms_pending st = Some b \<longrightarrow> burst_card_id b = card_id (move_prev m)"
    using assms(3) by simp
  note step = enqueue_move_debounced [OF one assms(2) none]
  have p1: "ms_pending st1 =
      Some (merged_burst (move_prev m) [(move_priority m, move_siblings m)])"
    using step(1) assms(3) by (simp add: merge_move_fresh)
  have tl: "\<forall>m'\<in>set rest. card_id (move_prev m') = card_id (move_prev m)"
    using assms(5) ms by simp
  from enqueue_moves_merged [OF more step(3) p1 tl] step(2) ms
  show "ms_pending st' = Some (merged_burst (move_prev (hd ms))
      (map (\<lambda>m. (move_priority m, move_siblings m)) ms))"
    and "ms_pushed st' = ms_pushed st" by simp_all
qed

lemma flush_burst_Some:
  assumes "flush_burst H now keys_of st = Ok st'" "ms_pending st = Some b"
  obtains v where "(build_versions H now (keys_of b) b :: (unit, card \<times> card list) outcome) = Ok v"
    "ms_pushed st' = ms_pushed st @ [v]" "ms_pending st' = None"
  using assms
  by (cases "build_versions H now (keys_of b) b :: (unit, card \<times> card list) outcome")
    (auto simp: flush_burst_def flush_sync_take_def Let_def outcome_simps)

section \<open>Where a dropped card lands\<close>

lemma iter_position_Some:
  "iter_position p xs = Some i \<Longrightarrow> i < length xs \<and> p (xs ! i) \<and> (\<forall>j<i. \<not> p (xs ! j))"
proof (induction xs arbitrary: i)
  case (Cons x xs)
  show ?case
  proof (cases "p x")
    case False
    with Cons.prems obtain j where "iter_position p xs = Some j" "i = Suc j" by auto
    with Cons.IH [of j] False show ?thesis by (auto simp: nth_Cons split: nat.splits)
  qed (use Cons.prems in auto)
qed simp

lemma iter_position_None: "iter_position p xs = None \<longleftrightarrow> (\<forall>x\<in>set xs. \<not> p x)"
  by (induction xs) auto

lemma iter_position_split:
  assumes "iter_position p xs = Some i"
  shows "xs = take i xs @ xs ! i # drop (Suc i) xs"
  using iter_position_Some [OF assms] by (simp add: id_take_nth_drop [symmetric])

definition moved_ids :: "uuid list \<Rightarrow> uuid \<Rightarrow> nat \<Rightarrow> uuid list" where
  "moved_ids ids uid idx =
     (let others = filter (\<lambda>i. i \<noteq> uid) ids in take idx others @ [uid] @ drop idx others)"


lemma iter_position_at:
  "map f cs = A @ x # B \<Longrightarrow> x \<notin> set A \<Longrightarrow> iter_position (\<lambda>c. f c = x) cs = Some (length A)"
proof (induction A arbitrary: cs)
  case Nil
  then show ?case by (cases cs) auto
next
  case (Cons a A)
  then obtain c cs' where "cs = c # cs'" "f c = a" "map f cs' = A @ x # B" by (cases cs) auto
  with Cons show ?case by auto
qed

lemma iter_position_absent: "x \<notin> set (map f cs) \<Longrightarrow> iter_position (\<lambda>c. f c = x) cs = None"
  by (auto simp: iter_position_None)

lemma drop_position_None_absent:
  "source \<notin> card_id ` set cards \<or> target \<notin> card_id ` set cards \<Longrightarrow>
   drop_position cards source target edge = None"
  using iter_position_absent [of source card_id cards] iter_position_absent [of target card_id cards]
  by (auto simp: drop_position_def split: option.splits)

text \<open>The target stands above the source, or below it.\<close>

lemma filter_neq_self: "x \<notin> set xs \<Longrightarrow> filter (\<lambda>i. i \<noteq> x) xs = xs"
  by (induction xs) auto

lemma drop_position_target_above:
  assumes ids: "map card_id cards = A @ target # B @ source # C"
    and dist: "distinct (map card_id cards)"
  shows "drop_position cards source target edge =
    (case edge of Above \<Rightarrow> Some (At (length A))
     | Below \<Rightarrow> if B = [] then None else Some (At (length A + 1)))"
    and "filter (\<lambda>i. i \<noteq> source) (map card_id cards) = A @ target # B @ C"
proof -
  have "iter_position (\<lambda>c. card_id c = target) cards = Some (length A)"
    using ids dist by (intro iter_position_at [of card_id cards A target "B @ source # C"]) auto
  moreover have "iter_position (\<lambda>c. card_id c = source) cards = Some (length (A @ target # B))"
    using ids dist by (intro iter_position_at [of card_id cards "A @ target # B" source C]) auto
  moreover have "source \<noteq> target" using ids dist by auto
  ultimately show "drop_position cards source target edge =
    (case edge of Above \<Rightarrow> Some (At (length A))
     | Below \<Rightarrow> if B = [] then None else Some (At (length A + 1)))"
    by (auto simp: drop_position_def Let_def split: DropEdge.splits)
  show "filter (\<lambda>i. i \<noteq> source) (map card_id cards) = A @ target # B @ C"
    using dist unfolding ids by (auto simp: filter_neq_self)
qed

lemma drop_position_target_below:
  assumes ids: "map card_id cards = A @ source # B @ target # C"
    and dist: "distinct (map card_id cards)"
  shows "drop_position cards source target edge =
    (case edge of Above \<Rightarrow> if B = [] then None else Some (At (length A + length B))
     | Below \<Rightarrow> Some (At (length A + length B + 1)))"
    and "filter (\<lambda>i. i \<noteq> source) (map card_id cards) = A @ B @ target # C"
proof -
  have "iter_position (\<lambda>c. card_id c = source) cards = Some (length A)"
    using ids dist by (intro iter_position_at [of card_id cards A source "B @ target # C"]) auto
  moreover have "iter_position (\<lambda>c. card_id c = target) cards = Some (length (A @ source # B))"
    using ids dist by (intro iter_position_at [of card_id cards "A @ source # B" target C]) auto
  moreover have "source \<noteq> target" using ids dist by auto
  ultimately show "drop_position cards source target edge =
    (case edge of Above \<Rightarrow> if B = [] then None else Some (At (length A + length B))
     | Below \<Rightarrow> Some (At (length A + length B + 1)))"
    by (auto simp: drop_position_def Let_def split: DropEdge.splits)
  show "filter (\<lambda>i. i \<noteq> source) (map card_id cards) = A @ B @ target # C"
    using dist unfolding ids by (auto simp: filter_neq_self)
qed

text \<open>The order a drop aims at: the source directly above or directly below the target.\<close>

fun drop_order :: "DropEdge \<Rightarrow> uuid \<Rightarrow> uuid \<Rightarrow> uuid list" where
  "drop_order Above source target = [source, target]"
| "drop_order Below source target = [target, source]"

lemma two_split:
  assumes "x \<in> set xs" "y \<in> set xs" "x \<noteq> y"
  obtains A B C where "xs = A @ x # B @ y # C" | A B C where "xs = A @ y # B @ x # C"
proof -
  from assms(1) obtain A D where d: "xs = A @ x # D" by (meson split_list)
  with assms(2,3) consider "y \<in> set A" | "y \<in> set D" by auto
  then show thesis
  proof cases
    case 1
    then obtain P Q where "A = P @ y # Q" by (meson split_list)
    with d that(2) show thesis by simp
  next
    case 2
    then obtain P Q where "D = P @ y # Q" by (meson split_list)
    with d that(1) show thesis by simp
  qed
qed

lemma drop_lands:
  assumes dist: "distinct (map card_id cards)"
    and drop: "drop_position cards source target edge = Some pos"
  shows "\<exists>idx xs ys. pos = At idx \<and> idx < length cards \<and>
    moved_ids (map card_id cards) source idx = xs @ drop_order edge source target @ ys"
proof -
  have landing: ?thesis
    if "pos = At i" "i < length cards"
      "moved_ids (map card_id cards) source i = P @ drop_order edge source target @ Q" for i P Q
    using that by blast
  have inn: "source \<in> set (map card_id cards)" "target \<in> set (map card_id cards)" "source \<noteq> target"
    using drop drop_position_None_absent [of source cards target edge]
    by (auto simp: drop_position_def)
  from two_split [OF this] show ?thesis
  proof cases
    case (1 A B C)
    have len: "length cards = length A + length B + length C + 2"
      using arg_cong [OF 1, of length] by simp
    note below = drop_position_target_below [OF 1 dist]
    show ?thesis
    proof (cases edge)
      case Above
      then have "pos = At (length A + length B)" using drop below(1) by (auto split: if_splits)
      then show ?thesis
      proof (rule landing)
        show "moved_ids (map card_id cards) source (length A + length B) =
            (A @ B) @ drop_order edge source target @ C"
          using Above by (simp add: moved_ids_def Let_def below(2))
      qed (use len in simp)
    next
      case Below
      then have "pos = At (length A + length B + 1)" using drop below(1) by simp
      then show ?thesis
      proof (rule landing)
        show "moved_ids (map card_id cards) source (length A + length B + 1) =
            (A @ B) @ drop_order edge source target @ C"
          using Below by (simp add: moved_ids_def Let_def below(2))
      qed (use len in simp)
    qed
  next
    case (2 A B C)
    have len: "length cards = length A + length B + length C + 2"
      using arg_cong [OF 2, of length] by simp
    note above = drop_position_target_above [OF 2 dist]
    show ?thesis
    proof (cases edge)
      case Above
      then have "pos = At (length A)" using drop above(1) by simp
      then show ?thesis
      proof (rule landing)
        show "moved_ids (map card_id cards) source (length A) =
            A @ drop_order edge source target @ (B @ C)"
          using Above by (simp add: moved_ids_def Let_def above(2))
      qed (use len in simp)
    next
      case Below
      then have "pos = At (length A + 1)" using drop above(1) by (auto split: if_splits)
      then show ?thesis
      proof (rule landing)
        show "moved_ids (map card_id cards) source (length A + 1) =
            A @ drop_order edge source target @ (B @ C)"
          using Below by (simp add: moved_ids_def Let_def above(2))
      qed (use len in simp)
    qed
  qed
qed

lemma drop_refused:
  assumes dist: "distinct (map card_id cards)"
    and inn: "source \<in> set (map card_id cards)" "target \<in> set (map card_id cards)" "source \<noteq> target"
    and drop: "drop_position cards source target edge = None"
  shows "\<exists>xs ys. map card_id cards = xs @ drop_order edge source target @ ys"
  using inn
proof (rule two_split)
  fix A B C assume ids: "map card_id cards = A @ source # B @ target # C"
  then have "edge = Above" "B = []"
    using drop drop_position_target_below(1) [OF ids dist]
    by (auto split: DropEdge.splits if_splits)
  with ids show ?thesis by (intro exI [of _ A] exI [of _ C]) simp
next
  fix A B C assume ids: "map card_id cards = A @ target # B @ source # C"
  then have "edge = Below" "B = []"
    using drop drop_position_target_above(1) [OF ids dist]
    by (auto split: DropEdge.splits if_splits)
  with ids show ?thesis by (intro exI [of _ A] exI [of _ C]) simp
qed

end
