(* ===== verification/Client_Properties.thy ===== *)
theory Client_Properties
  imports Client_Moves Demo
begin

text \<open>
  What the client library promises about the order of the list: placements and moves keep it, a
  drop lands where the indicator showed it, a burst of moves is one version per card, and the one
  way a rebalanced burst collides with the server's uniqueness check.
\<close>

section \<open>Cards for the witnesses\<close>

definition listed_card :: "uuid \<Rightarrow> int \<Rightarrow> card" where
  "listed_card uid priority = card_first demo_hash uid [] priority [] False 0 None"

lemma listed_card_simps [simp]:
  "card_id (listed_card uid priority) = uid" "card_priority (listed_card uid priority) = priority"
  "card_hash (listed_card uid priority) \<noteq> 0"
  by (simp_all add: listed_card_def card_first_def Let_def card_expected_hash_preimage)

section \<open>Placements\<close>

text \<open>C19: A placement computed for a list of cards in strictly descending priority order, strictly
  inside the i64 range, keeps that order when it is carried out: the new card's priority lies
  strictly between its neighbours, every shifted card keeps its place, and nothing reaches the
  extreme values that stand for the open ends, whatever the random draw returns.\<close>

theorem place_card_in_order:
  assumes "ordered_cards cards"
  shows "ordered_priorities
    (placed_priorities (place_card random_range cards pos) cards (insert_index cards pos))"
  using assms by (rule place_card_keeps_order)

definition packed_cards :: "card list" where
  "packed_cards = [listed_card 1 100, listed_card 2 50, listed_card 3 49, listed_card 4 0]"

lemma packed_cards_ordered: "ordered_cards packed_cards"
  by (simp add: ordered_cards_def ordered_priorities_def packed_cards_def inside_range_def
      i64_min_def i64_max_def)

lemma packed_range:
  "expand_left packed_cards (Suc 0) = Suc 0" "expand_right packed_cards (Suc (Suc 0)) = Suc (Suc 0)"
  by (simp_all add: packed_cards_def expand_right.simps)

lemma packed_placement:
  "place_card random_range packed_cards (At (Suc (Suc 0))) = Rebalanced 50 [(2, 75), (3, 25)]"
proof -
  have "rebalance random_range packed_cards (Suc (Suc 0)) = Rebalanced 50 [(2, 75), (3, 25)]"
    using packed_range unfolding packed_cards_def
    by (simp add: rebalance_def slot_priority_def clamp_def i64_min_def i64_max_def)
  then show ?thesis
    by (simp add: place_card_def packed_cards_def bounds_for_position_def cap_edge_bounds_def
      MAX_EDGE_GAP_def try_place_def)
qed

theorem place_card_in_order_witness:
  "ordered_priorities (placed_priorities (place_card (\<lambda>n. 0) packed_cards (At (Suc (Suc 0)))) packed_cards
     (insert_index packed_cards (At (Suc (Suc 0)))))"
  by (rule place_card_in_order [OF packed_cards_ordered])


section \<open>Drag and drop\<close>

lemma move_card_place:
  "move_card random_range cards uid target =
     place_card random_range (filter (\<lambda>c. card_id c \<noteq> uid) cards) target"
  by (simp add: move_card_def place_card_def Let_def)

lemma ordered_cards_filter:
  assumes "ordered_cards cards"
  shows "ordered_cards (filter P cards)"
proof -
  have "sorted_wrt (\<lambda>c d. card_priority d < card_priority c) cards" "length cards < 2 ^ 63"
    using assms by (simp_all add: ordered_cards_def ordered_priorities_def sorted_wrt_map)
  moreover have "length (filter P cards) \<le> length cards" by simp
  ultimately show ?thesis
    using assms unfolding ordered_cards_def ordered_priorities_def
    by (auto simp: sorted_wrt_map sorted_wrt_filter distinct_map_filter simp del: length_filter_le)
qed

lemma insert_index_At: "insert_index cards (At i) = min i (length cards)"
  by (simp add: insert_index_def bounds_for_position_def Let_def)

text \<open>A drag and drop puts the card where the indicator showed it. When the drop position is
  computed, carrying out the move of the source leaves the list of the other cards and the source
  in strictly descending priority order, and in that order the source stands directly above (or
  directly below) the target.\<close>

theorem drag_and_drop_lands:
  assumes "ordered_cards cards" "drop_position cards source target edge = Some pos"
  shows "\<exists>idx xs ys. pos = At idx \<and>
    moved_ids (map card_id cards) source idx = xs @ drop_order edge source target @ ys \<and>
    ordered_priorities (placed_priorities (move_card random_range cards source pos)
      (filter (\<lambda>c. card_id c \<noteq> source) cards) idx)"
proof -
  have dist: "distinct (map card_id cards)" using assms(1) by (simp add: ordered_cards_def)
  from drop_lands [OF dist assms(2)] obtain idx xs ys where
    pos: "pos = At idx" "idx < length cards"
    and ids: "moved_ids (map card_id cards) source idx = xs @ drop_order edge source target @ ys"
    by blast
  have mem: "source \<in> set (map card_id cards)"
    using assms(2) drop_position_None_absent [of source cards target edge] by auto
  have "idx \<le> length (filter (\<lambda>c. card_id c \<noteq> source) cards)"
  proof -
    obtain A B where split: "map card_id cards = A @ source # B" using mem by (meson split_list)
    have "length cards = length A + length B + 1" using arg_cong [OF split, of length] by simp
    moreover have "source \<notin> set A" "source \<notin> set B" using split dist by auto
    moreover have "filter (\<lambda>i. i \<noteq> source) (map card_id cards) = A @ B"
      using split calculation by (auto simp: filter_neq_self)
    moreover have "length (filter (\<lambda>i. i \<noteq> source) (map card_id cards)) =
        length (filter (\<lambda>c. card_id c \<noteq> source) cards)"
      by (simp add: filter_map comp_def)
    ultimately show ?thesis using pos(2) by simp
  qed
  then have "insert_index (filter (\<lambda>c. card_id c \<noteq> source) cards) pos = idx"
    using pos by (simp add: insert_index_At)
  with place_card_keeps_order [OF ordered_cards_filter [OF assms(1)],
      of random_range "\<lambda>c. card_id c \<noteq> source" pos] pos ids
  show ?thesis by (auto simp: move_card_place)
qed

theorem drag_and_drop_lands_witness:
  "\<exists>idx xs ys. At 1 = At idx \<and>
    moved_ids (map card_id packed_cards) 3 idx = xs @ drop_order Above 3 2 @ ys \<and>
    ordered_priorities (placed_priorities (move_card (\<lambda>n. 0) packed_cards 3 (At 1))
      (filter (\<lambda>c. card_id c \<noteq> 3) packed_cards) idx)"
  by (rule drag_and_drop_lands [OF packed_cards_ordered])
    (simp add: packed_cards_def drop_position_def Let_def)

text \<open>A drop is refused only where it would change nothing: between two different cards of the
  list, when the source already stands directly above (or below) the target.\<close>

theorem drop_refused_is_noop:
  assumes "distinct (map card_id cards)" "source \<in> card_id ` set cards" "target \<in> card_id ` set cards"
    "source \<noteq> target" "drop_position cards source target edge = None"
  shows "\<exists>xs ys. map card_id cards = xs @ drop_order edge source target @ ys"
  by (rule drop_refused [OF assms(1) _ _ assms(4,5)]) (use assms(2,3) in simp_all)

theorem drop_refused_is_noop_witness:
  "\<exists>xs ys. map card_id packed_cards = xs @ drop_order Above 2 3 @ ys"
  by (rule drop_refused_is_noop) (simp_all add: packed_cards_def drop_position_def Let_def)

section \<open>Collisions\<close>

lemma resolve_position:
  assumes "sorted_wrt (>) (map card_priority cards)"
    and "idx = (case iter_position (\<lambda>c. card_priority c \<le> desired) cards of
        Some i \<Rightarrow> i | None \<Rightarrow> length cards)"
  shows "idx \<le> length cards" "\<forall>c\<in>set (take idx cards). desired < card_priority c"
    "\<forall>c\<in>set (drop idx cards). card_priority c \<le> desired"
proof -
  have "idx \<le> length cards \<and> (\<forall>c\<in>set (take idx cards). desired < card_priority c) \<and>
    (\<forall>c\<in>set (drop idx cards). card_priority c \<le> desired)"
  proof (cases "iter_position (\<lambda>c. card_priority c \<le> desired) cards")
    case None
    then have "idx = length cards" by (simp add: assms(2))
    then show ?thesis using None by (simp add: iter_position_None not_le)
  next
    case (Some i)
    note at = iter_position_Some [OF Some]
    have "desired < card_priority c" if "c \<in> set (take i cards)" for c
      using that at by (auto simp: in_set_conv_nth not_le)
    moreover have "card_priority c \<le> desired" if "c \<in> set (drop i cards)" for c
    proof -
      from that obtain j where "j < length cards - i" "c = cards ! (i + j)"
        by (auto simp: in_set_conv_nth)
      moreover have "card_priority (cards ! (i + j)) \<le> card_priority (cards ! i)"
        using ordered_distance [OF assms(1), of i "i + j"] \<open>j < length cards - i\<close> by linarith
      ultimately show ?thesis using at by simp
    qed
    ultimately show ?thesis using Some at assms(2) by auto
  qed
  then show "idx \<le> length cards" "\<forall>c\<in>set (take idx cards). desired < card_priority c"
    "\<forall>c\<in>set (drop idx cards). card_priority c \<le> desired" by blast+
qed

text \<open>Resolving a collision gives the card a free place that respects what it asked for: it goes
  below every card with a higher priority than the desired one and above every other, and carrying
  the placement out keeps the list strictly descending, so no two cards share a priority.\<close>

theorem collision_resolved:
  assumes "ordered_cards cards"
  shows "\<exists>idx\<le>length cards.
    (\<forall>c\<in>set (take idx cards). desired < card_priority c) \<and>
    (\<forall>c\<in>set (drop idx cards). card_priority c \<le> desired) \<and>
    ordered_priorities (placed_priorities (resolve_collision random_range cards desired) cards idx)"
proof -
  define idx where "idx = (case iter_position (\<lambda>c. card_priority c \<le> desired) cards of
      Some i \<Rightarrow> i | None \<Rightarrow> length cards)"
  have "sorted_wrt (>) (map card_priority cards)"
    using assms by (simp add: ordered_cards_def ordered_priorities_def)
  note pos = resolve_position [OF this idx_def]
  have "insert_index cards (At idx) = idx" using pos(1) by (simp add: insert_index_At)
  with place_card_keeps_order [OF assms, of random_range "At idx"] pos show ?thesis
    unfolding resolve_collision_def Let_def idx_def [symmetric] by (intro exI [of _ idx]) simp
qed

theorem collision_resolved_witness:
  "\<exists>idx. idx \<le> length packed_cards \<and>
    ordered_priorities (placed_priorities (resolve_collision (\<lambda>n. 0) packed_cards 50) packed_cards idx)"
  using collision_resolved [OF packed_cards_ordered, of 50 "\<lambda>n. 0"] by blast


section \<open>Bursts\<close>

text \<open>The first snapshot and the last target recorded for a sibling over a run of moves.\<close>

definition recorded_base :: "move list \<Rightarrow> uuid \<Rightarrow> card option" where
  "recorded_base ms = map_of (map (\<lambda>e. (card_id (fst e), fst e)) (concat (map move_siblings ms)))"

definition recorded_target :: "move list \<Rightarrow> uuid \<Rightarrow> int option" where
  "recorded_target ms =
     map_of (rev (map (\<lambda>e. (card_id (fst e), snd e)) (concat (map move_siblings ms))))"

lemma recorded_base_id: "recorded_base ms uid = Some c \<Longrightarrow> card_id c = uid"
  by (auto simp: recorded_base_def dest!: map_of_SomeD)

lemma recorded_dom: "dom (recorded_target ms) = dom (recorded_base ms)"
  by (auto simp: recorded_base_def recorded_target_def dom_map_of_conv_image_fst image_image)

definition enumerates :: "(priority_burst \<Rightarrow> uuid list) \<Rightarrow> bool" where
  "enumerates keys_of \<longleftrightarrow>
     (\<forall>b. finite (dom (sibling_bases b)) \<longrightarrow>
        distinct (keys_of b) \<and> set (keys_of b) = dom (sibling_bases b))"

text \<open>However many moves of one card a burst collects, flushing it pushes exactly one new
  version of the card, on top of the snapshot before the first move and with the priority of the
  last one, and exactly one new version of every sibling that a rebalance shifted, each on top of
  the first snapshot recorded for it and with the last priority recorded for it.\<close>

theorem burst_is_one_version_per_card:
  assumes "enqueue_moves H keys_of ms st = Ok st1" "flush_burst H now keys_of st1 = Ok st2"
    and "ms_debounce_enabled st" "ms_pending st = None" "enumerates keys_of"
    and "ms \<noteq> []" "\<forall>m\<in>set ms. card_id (move_prev m) = card_id (move_prev (hd ms))"
  shows "\<exists>primary siblings.
    ms_pushed st2 = ms_pushed st @ [(primary, siblings)] \<and> ms_pending st2 = None \<and>
    is_card_next H (move_prev (hd ms)) primary \<and>
    card_priority primary = move_priority (last ms) \<and>
    distinct (map card_id siblings) \<and> card_id ` set siblings = dom (recorded_base ms) \<and>
    (\<forall>v\<in>set siblings. \<exists>base. recorded_base ms (card_id v) = Some base \<and> is_card_next H base v \<and>
       recorded_target ms (card_id v) = Some (card_priority v))"
proof -
  let ?moves = "map (\<lambda>m. (move_priority m, move_siblings m)) ms"
  let ?b = "merged_burst (move_prev (hd ms)) ?moves"
  note pending = enqueue_moves_pending [OF assms(1,3,4,6,7)]
  obtain v where "build_versions H now (keys_of ?b) ?b = Ok v"
    and pushed: "ms_pushed st2 = ms_pushed st1 @ [v]" "ms_pending st2 = None"
    by (rule flush_burst_Some [OF assms(2) pending(1)])
  then obtain primary siblings where v: "v = (primary, siblings)"
    and built: "build_versions H now (keys_of ?b) ?b = Ok (primary, siblings)"
    by (cases v) auto
  have "map snd ?moves = map move_siblings ms" by simp
  then have bases: "sibling_bases ?b = recorded_base ms"
    and targets: "sibling_priorities ?b = recorded_target ms"
    by (simp_all add: merged_burst_bases merged_burst_priorities recorded_base_def
        recorded_target_def comp_def)
  have "finite (dom (sibling_bases ?b))"
    unfolding bases recorded_base_def by (rule finite_dom_map_of)
  then have keys: "distinct (keys_of ?b)" "set (keys_of ?b) = dom (recorded_base ms)"
    using assms(5) bases by (auto simp: enumerates_def)
  note parts = build_versions_Ok [OF built keys(2) [folded bases]]
  have prim: "reprioritised H now (move_prev (hd ms)) (move_priority (last ms)) = Ok primary"
    using parts(1) merged_burst_fields(1) [of "move_prev (hd ms)" ?moves]
      merged_burst_fields(3) [of ?moves "move_prev (hd ms)"] assms(6)
    by (simp add: last_map)
  have sib: "list_all2 (\<lambda>uid v. card_id v = uid \<and> (\<exists>base. recorded_base ms uid = Some base \<and>
      is_card_next H base v \<and> recorded_target ms uid = Some (card_priority v))) (keys_of ?b) siblings"
    using parts(2)
  proof (rule list_all2_mono)
    fix uid v
    assume "\<exists>base. sibling_bases ?b uid = Some base \<and> reprioritised H now base
      (case sibling_priorities ?b uid of Some p \<Rightarrow> p | None \<Rightarrow> card_priority base) = Ok v"
    then obtain base where base: "recorded_base ms uid = Some base"
      and r: "reprioritised H now base
        (case recorded_target ms uid of Some p \<Rightarrow> p | None \<Rightarrow> card_priority base) = Ok v"
      unfolding bases targets by blast
    from base obtain p where "recorded_target ms uid = Some p"
      using recorded_dom [of ms] by blast
    then show "card_id v = uid \<and> (\<exists>base. recorded_base ms uid = Some base \<and>
        is_card_next H base v \<and> recorded_target ms uid = Some (card_priority v))"
      using base reprioritised_Ok [OF r] recorded_base_id [OF base] by simp
  qed
  then have ids: "map card_id siblings = keys_of ?b"
    by (auto simp: list_all2_conv_all_nth intro!: nth_equalityI)
  have "\<exists>base. recorded_base ms (card_id v) = Some base \<and> is_card_next H base v \<and>
      recorded_target ms (card_id v) = Some (card_priority v)" if "v \<in> set siblings" for v
    using sib that by (fastforce simp: list_all2_conv_all_nth in_set_conv_nth)
  moreover have "distinct (map card_id siblings)" "card_id ` set siblings = dom (recorded_base ms)"
    using ids keys by (simp_all flip: set_map)
  ultimately show ?thesis
    using reprioritised_Ok(2,8) [OF prim] pushed pending(2) v by auto
qed


lemma reprioritised_runs:
  assumes "nn_ok (card_count c)" "inner (card_count c) < i64_max"
  obtains v where "reprioritised H now c p = Ok v"
  using assms by (auto simp: reprioritised_def card_next_def nn_successor Let_def)

definition demo_keys :: "priority_burst \<Rightarrow> uuid list" where
  "demo_keys b = sorted_list_of_set (dom (sibling_bases b))"

definition demo_moves :: "move list" where
  "demo_moves =
     [\<lparr>move_now = 0, move_handle = 1, move_prev = listed_card 4 0, move_priority = 70,
       move_siblings = []\<rparr>,
      \<lparr>move_now = 1, move_handle = 2, move_prev = listed_card 4 70, move_priority = 50,
       move_siblings = [(listed_card 2 50, 75)]\<rparr>]"

definition demo_move_state :: move_state where
  "demo_move_state =
     \<lparr>ms_cards = packed_cards, ms_pending = None, ms_timer_handle = 0, ms_countdown_ms = 0,
      ms_debounce_enabled = True, ms_debounce_delay_ms = 500, ms_pushed = []\<rparr>"

lemma demo_moves_run:
  obtains st1 st2 where "enqueue_moves demo_hash demo_keys demo_moves demo_move_state = Ok st1"
    "flush_burst demo_hash 2 demo_keys st1 = Ok st2"
proof -
  have ok: "nn_ok (card_count (listed_card u p)) \<and> inner (card_count (listed_card u p)) < i64_max" for u p
    by (simp add: listed_card_def nn_ok_def i64_max_def)
  obtain v1 where v1: "reprioritised demo_hash 0 (listed_card 4 0) 70 = Ok v1"
    using ok reprioritised_runs by blast
  obtain v2 where v2: "reprioritised demo_hash 1 (listed_card 4 0) 50 = Ok v2"
    using ok reprioritised_runs by blast
  obtain w2 where w2: "reprioritised demo_hash 1 (listed_card 2 50) 75 = Ok w2"
    using ok reprioritised_runs by blast
  obtain v3 where v3: "reprioritised demo_hash 2 (listed_card 4 0) 50 = Ok v3"
    using ok reprioritised_runs by blast
  obtain w3 where w3: "reprioritised demo_hash 2 (listed_card 2 50) 75 = Ok w3"
    using ok reprioritised_runs by blast
  note defs = enqueue_move_def merge_move_def apply_move_def apply_sibling_def burst_new_def
    build_versions_def arm_timer_def cancel_priority_timer_def demo_keys_def Let_def
  obtain st1 where st1: "enqueue_moves demo_hash demo_keys demo_moves demo_move_state = Ok st1"
    by (simp add: demo_moves_def demo_move_state_def defs v1 v2 w2)
  have pending: "ms_pending st1 = Some (merged_burst (listed_card 4 0)
      [(70, []), (50, [(listed_card 2 50, 75)])])"
    using enqueue_moves_pending(1) [OF st1]
    by (simp add: demo_move_state_def demo_moves_def)
  have "\<exists>st2. flush_burst demo_hash 2 demo_keys st1 = Ok st2"
    by (simp add: flush_burst_def flush_sync_take_def pending merged_burst_def defs v3 w3)
  then show thesis using st1 that by blast
qed

theorem burst_is_one_version_per_card_witness:
  "\<exists>st1 st2 primary siblings.
    enqueue_moves demo_hash demo_keys demo_moves demo_move_state = Ok st1 \<and>
    flush_burst demo_hash 2 demo_keys st1 = Ok st2 \<and>
    ms_pushed st2 = [(primary, siblings)] \<and> card_priority primary = 50 \<and>
    card_id ` set siblings = {2}"
proof -
  obtain st1 st2 where run: "enqueue_moves demo_hash demo_keys demo_moves demo_move_state = Ok st1"
    "flush_burst demo_hash 2 demo_keys st1 = Ok st2"
    by (rule demo_moves_run)
  have keys: "enumerates demo_keys" by (simp add: enumerates_def demo_keys_def)
  have "dom (recorded_base demo_moves) = {2}" by (simp add: recorded_base_def demo_moves_def)
  with burst_is_one_version_per_card [OF run _ _ keys] run show ?thesis
    by (auto simp: demo_move_state_def demo_moves_def)
qed

section \<open>Where a rebalance collides\<close>

text \<open>A burst that gives the moved card a priority that another live card still has is refused
  by the server as a whole: the batch pushes the moved card first, the server checks uniqueness
  after every item, and nothing is applied, although the batch goes on to shift that other card
  away. The witness is a move whose rebalance assigns the moved card the present priority of the
  sibling above it.\<close>

theorem rebalanced_burst_rejected:
  assumes "r \<in> set (cards_table db)" "row_cols r = card_params E c"
    and "card_id c \<noteq> card_id primary" "card_priority c = card_priority primary"
  shows "fst (storage_push_batch E now db (map ItemCards (burst_items primary siblings))) \<noteq> Ok () \<and>
    snd (storage_push_batch E now db (map ItemCards (burst_items primary siblings))) = db"
proof -
  have "\<not> priority_free db (card_priority primary) (card_id primary)"
    unfolding priority_free_def
    using assms(1,3,4) by (intro notI, elim ballE [of _ _ r]) (simp_all add: assms(2) card_params_def)
  then have no: "push_card_versions_inner E db [primary] \<noteq> Ok tx" for tx
    by (simp add: push_card_inner_iff)
  then have "apply_items E 0 (map ItemCards (burst_items primary siblings)) (db, aff) \<noteq> Ok res"
    for aff res
    by (cases "push_card_versions_inner E db [primary]")
      (auto simp: burst_items_def apply_item_def Let_def)
  then show ?thesis
    by (cases "apply_items E 0 (map ItemCards (burst_items primary siblings))
        (db, \<lparr>affected_cards = [], affected_tags = [], affected_deleted = []\<rparr>)")
      (simp_all add: storage_push_batch_def transaction_def burst_items_def)
qed

definition crowded_cards :: "card list" where
  "crowded_cards = packed_cards @ [listed_card 5 (- 10)]"

definition crowded_db :: db where
  "crowded_db = empty_db\<lparr>cards_table := map (new_card_row demo_ext) crowded_cards\<rparr>"

lemma crowded_move:
  "move_card random_range crowded_cards 5 (At (Suc (Suc 0))) = Rebalanced 50 [(2, 75), (3, 25)]"
proof -
  have "filter (\<lambda>c. card_id c \<noteq> 5) crowded_cards = packed_cards"
    by (simp add: crowded_cards_def packed_cards_def)
  then show ?thesis by (simp add: move_card_place packed_placement)
qed

theorem rebalanced_burst_rejected_witness:
  "move_card (\<lambda>n. 0) crowded_cards 5 (At (Suc (Suc 0))) = Rebalanced 50 [(2, 75), (3, 25)] \<and>
   fst (storage_push_batch demo_ext 0 crowded_db
     (map ItemCards (burst_items (listed_card 5 50) [listed_card 2 75, listed_card 3 25]))) \<noteq> Ok ()"
  using crowded_move
    rebalanced_burst_rejected [of "new_card_row demo_ext (listed_card 2 50)" crowded_db demo_ext
      "listed_card 2 50" "listed_card 5 50" 0 "[listed_card 2 75, listed_card 3 25]"]
  by (simp add: crowded_db_def crowded_cards_def packed_cards_def)

text \<open>
  The extreme value \<open>i64::MAX\<close> is outside \<open>ordered_priorities\<close> for a reason: the server accepts a
  card with it, and inserting above such a card makes the rebalance shift it onto its neighbour.
\<close>

definition extreme_cards :: "card list" where
  "extreme_cards = [listed_card 1 i64_max, listed_card 2 (i64_max - 2)]"

lemma rebalance_duplicates_at_extreme:
  "place_card random_range extreme_cards Top = Rebalanced (i64_max - 1) [(1, i64_max - 2)]"
proof -
  have "expand_right extreme_cards 0 = 0"
    by (simp add: extreme_cards_def expand_right.simps)
  then have "rebalance random_range extreme_cards 0 = Rebalanced (i64_max - 1) [(1, i64_max - 2)]"
    unfolding extreme_cards_def
    by (simp add: rebalance_def slot_priority_def clamp_def i64_min_def i64_max_def)
  then show ?thesis
    by (simp add: place_card_def bounds_for_position_def cap_edge_bounds_def MAX_EDGE_GAP_def
        try_place_def extreme_cards_def)
qed

end
