(* ===== verification/Client_Filter.thy ===== *)
theory Client_Filter
  imports Tags Protocol_Types
begin

text \<open>
  Filtering and sorting of the local card list (clients/lib/src/filter.rs): the filter enums with
  their URL values, the four filters of the pipeline, the due-date windows and the sort orders.
  A \<open>NaiveDate\<close> is its day number. Rust's \<open>to_lowercase\<close> is the argument \<open>to_lower\<close>: its Unicode
  tables are not part of the repository, and nothing below depends on what it returns.
\<close>

section \<open>The due-date filter\<close>

datatype DueDateFilter =
    DueAll | DueOverdue | DueToday | DueTodayAndUpcoming | DueUpcomingTomorrow
  | DueTodayAndTomorrow | DueUpcomingWeek | DueUpcomingTwoWeeks

fun due_label :: "DueDateFilter \<Rightarrow> string" where
  "due_label DueAll = ''All''"
| "due_label DueOverdue = ''Overdue''"
| "due_label DueToday = ''Today''"
| "due_label DueTodayAndUpcoming = ''Today & upcoming''"
| "due_label DueUpcomingTomorrow = ''Tomorrow''"
| "due_label DueTodayAndTomorrow = ''Today & tomorrow''"
| "due_label DueUpcomingWeek = ''Next 7 days''"
| "due_label DueUpcomingTwoWeeks = ''Next 14 days''"

definition is_upcoming :: "DueDateFilter \<Rightarrow> bool" where
  "is_upcoming f \<longleftrightarrow>
     f \<in> {DueTodayAndUpcoming, DueUpcomingTomorrow, DueTodayAndTomorrow, DueUpcomingWeek,
        DueUpcomingTwoWeeks}"

fun due_url_value :: "DueDateFilter \<Rightarrow> string option" where
  "due_url_value DueAll = None"
| "due_url_value DueOverdue = Some ''overdue''"
| "due_url_value DueToday = Some ''today''"
| "due_url_value DueTodayAndUpcoming = Some ''today-upcoming''"
| "due_url_value DueUpcomingTomorrow = Some ''upcoming-tomorrow''"
| "due_url_value DueTodayAndTomorrow = Some ''today-tomorrow''"
| "due_url_value DueUpcomingWeek = Some ''upcoming-week''"
| "due_url_value DueUpcomingTwoWeeks = Some ''upcoming-2weeks''"

definition due_from_url_value :: "string \<Rightarrow> DueDateFilter" where
  "due_from_url_value s =
     (if s = ''overdue'' then DueOverdue
      else if s = ''today'' then DueToday
      else if s = ''today-upcoming'' \<or> s = ''upcoming'' then DueTodayAndUpcoming
      else if s = ''upcoming-tomorrow'' then DueUpcomingTomorrow
      else if s = ''today-tomorrow'' then DueTodayAndTomorrow
      else if s = ''upcoming-week'' then DueUpcomingWeek
      else if s = ''upcoming-2weeks'' then DueUpcomingTwoWeeks
      else DueAll)"

section \<open>The tag filter mode\<close>

datatype TagFilterMode = ModeOr | ModeAnd | ModeNor | ModeNand

fun mode_label :: "TagFilterMode \<Rightarrow> string" where
  "mode_label ModeOr = ''OR''"
| "mode_label ModeAnd = ''AND''"
| "mode_label ModeNor = ''NOR''"
| "mode_label ModeNand = ''NAND''"

fun mode_description :: "TagFilterMode \<Rightarrow> string" where
  "mode_description ModeOr = ''Any selected tag''"
| "mode_description ModeAnd = ''All selected tags''"
| "mode_description ModeNor = ''Exclude any selected tag''"
| "mode_description ModeNand = ''Exclude all selected tags''"

definition mode_ALL :: "TagFilterMode list" where
  "mode_ALL = [ModeOr, ModeAnd, ModeNor, ModeNand]"

fun mode_url_value :: "TagFilterMode \<Rightarrow> string option" where
  "mode_url_value ModeOr = None"
| "mode_url_value ModeAnd = Some ''and''"
| "mode_url_value ModeNor = Some ''nor''"
| "mode_url_value ModeNand = Some ''nand''"

definition mode_from_url_value :: "string \<Rightarrow> TagFilterMode" where
  "mode_from_url_value s =
     (if s = ''and'' then ModeAnd
      else if s = ''nor'' then ModeNor
      else if s = ''nand'' then ModeNand
      else ModeOr)"

definition allows_no_tags :: "TagFilterMode \<Rightarrow> bool" where
  "allows_no_tags mode \<longleftrightarrow> mode = ModeOr"

fun mode_next :: "TagFilterMode \<Rightarrow> TagFilterMode" where
  "mode_next ModeOr = ModeAnd"
| "mode_next ModeAnd = ModeNor"
| "mode_next ModeNor = ModeNand"
| "mode_next ModeNand = ModeOr"

section \<open>The filters\<close>

definition apply_linked_card_filter :: "uuid list \<Rightarrow> card list \<Rightarrow> card list" where
  "apply_linked_card_filter linked_ids cards =
     (if linked_ids = [] then cards else filter (\<lambda>c. card_id c \<in> set linked_ids) cards)"

fun apply_blaze_filter :: "card_filter \<Rightarrow> card list \<Rightarrow> card list" where
  "apply_blaze_filter FilterAll cards = cards"
| "apply_blaze_filter FilterBlazed cards = filter card_blazed cards"
| "apply_blaze_filter FilterExtinguished cards = filter (\<lambda>c. \<not> card_blazed c) cards"

text \<open>\<open>str::contains\<close>: the pattern occurs at some position.\<close>

fun str_contains :: "string \<Rightarrow> string \<Rightarrow> bool" where
  "str_contains [] pat \<longleftrightarrow> pat = []"
| "str_contains (c # s) pat \<longleftrightarrow> take (length pat) (c # s) = pat \<or> str_contains s pat"

definition search_matches ::
  "(string \<Rightarrow> string) \<Rightarrow> string \<Rightarrow> bool \<Rightarrow> tag list \<Rightarrow> card \<Rightarrow> bool" where
  "search_matches to_lower q search_tags all_tags c \<longleftrightarrow>
     str_contains (to_lower (card_content c)) q \<or>
     search_tags \<and>
       list_ex (\<lambda>uid. case find (\<lambda>t. tag_id t = uid) all_tags of
           Some tag \<Rightarrow> str_contains (to_lower (tag_title tag)) q
         | None \<Rightarrow> False) (card_tags c)"

definition apply_search_filter ::
  "(string \<Rightarrow> string) \<Rightarrow> string \<Rightarrow> bool \<Rightarrow> tag list \<Rightarrow> card list \<Rightarrow> card list" where
  "apply_search_filter to_lower query search_tags all_tags cards =
     (if query = [] then cards
      else filter (search_matches to_lower (to_lower query) search_tags all_tags) cards)"

fun mode_keeps :: "TagFilterMode \<Rightarrow> uuid list \<Rightarrow> card \<Rightarrow> bool" where
  "mode_keeps ModeOr selected c \<longleftrightarrow> list_ex (\<lambda>t. t \<in> set selected) (card_tags c)"
| "mode_keeps ModeAnd selected c \<longleftrightarrow> list_all (\<lambda>t. t \<in> set (card_tags c)) selected"
| "mode_keeps ModeNor selected c \<longleftrightarrow> \<not> list_ex (\<lambda>t. t \<in> set selected) (card_tags c)"
| "mode_keeps ModeNand selected c \<longleftrightarrow> \<not> list_all (\<lambda>t. t \<in> set (card_tags c)) selected"

definition tag_filter_keeps :: "uuid list \<Rightarrow> TagFilterMode \<Rightarrow> bool \<Rightarrow> card \<Rightarrow> bool" where
  "tag_filter_keeps selected_tags mode no_tags c =
     (if no_tags \<and> card_tags c = [] then True
      else if selected_tags = [] then False
      else mode_keeps mode selected_tags c)"

definition apply_tag_filter ::
  "uuid list \<Rightarrow> TagFilterMode \<Rightarrow> bool \<Rightarrow> card list \<Rightarrow> card list" where
  "apply_tag_filter selected_tags mode no_tags cards =
     (if selected_tags = [] \<and> \<not> no_tags then cards
      else filter (tag_filter_keeps selected_tags mode no_tags) cards)"

definition date_naive :: "datetime \<Rightarrow> int" where
  "date_naive ms = ms div 86400000"

fun due_keep :: "DueDateFilter \<Rightarrow> int \<Rightarrow> bool \<Rightarrow> int \<Rightarrow> bool" where
  "due_keep DueAll today inc d \<longleftrightarrow> True"
| "due_keep DueOverdue today inc d \<longleftrightarrow> d < today"
| "due_keep DueToday today inc d \<longleftrightarrow> d = today \<or> inc \<and> d < today"
| "due_keep DueTodayAndUpcoming today inc d \<longleftrightarrow> d \<ge> today \<or> inc \<and> d < today"
| "due_keep DueUpcomingTomorrow today inc d \<longleftrightarrow> d = today + 1 \<or> inc \<and> d < today"
| "due_keep DueTodayAndTomorrow today inc d \<longleftrightarrow> (d \<ge> today \<and> d < today + 2) \<or> inc \<and> d < today"
| "due_keep DueUpcomingWeek today inc d \<longleftrightarrow> (d \<ge> today \<and> d < today + 7) \<or> inc \<and> d < today"
| "due_keep DueUpcomingTwoWeeks today inc d \<longleftrightarrow> (d \<ge> today \<and> d < today + 14) \<or> inc \<and> d < today"

definition apply_due_date_filter_with_today ::
  "DueDateFilter \<Rightarrow> int \<Rightarrow> bool \<Rightarrow> card list \<Rightarrow> card list" where
  "apply_due_date_filter_with_today flt today include_overdue cards =
     (if flt = DueAll then cards
      else filter (\<lambda>c. case card_due_date c of
             Some d \<Rightarrow> due_keep flt today include_overdue (date_naive d)
           | None \<Rightarrow> False) cards)"

definition apply_due_date_filter ::
  "datetime \<Rightarrow> DueDateFilter \<Rightarrow> bool \<Rightarrow> card list \<Rightarrow> card list" where
  "apply_due_date_filter now flt include_overdue cards =
     apply_due_date_filter_with_today flt (date_naive now) include_overdue cards"

definition apply_all_filters ::
  "(string \<Rightarrow> string) \<Rightarrow> uuid list \<Rightarrow> card_filter \<Rightarrow> string \<Rightarrow> uuid list \<Rightarrow> TagFilterMode \<Rightarrow> bool
   \<Rightarrow> bool \<Rightarrow> tag list \<Rightarrow> card list \<Rightarrow> card list" where
  "apply_all_filters to_lower linked_ids blaze_filter search_query selected_tags tag_mode no_tags
     search_tags all_tags cards =
     (let cards = apply_linked_card_filter linked_ids cards;
          cards = apply_blaze_filter blaze_filter cards;
          cards = apply_search_filter to_lower search_query search_tags all_tags cards
      in apply_tag_filter selected_tags tag_mode no_tags cards)"

section \<open>Sort orders\<close>

datatype SortOrder =
    SortPriority | SortPriorityReverse | SortModifiedAt | SortModifiedAtReverse | SortCreatedAt
  | SortCreatedAtReverse | SortTitle | SortTitleReverse | SortDueDate | SortDueDateReverse

definition sort_default :: SortOrder where "sort_default = SortPriority"

definition sort_is_default :: "SortOrder \<Rightarrow> bool" where
  "sort_is_default order \<longleftrightarrow> order = sort_default"

fun sort_label :: "SortOrder \<Rightarrow> string" where
  "sort_label SortPriority = ''Priority''"
| "sort_label SortPriorityReverse = ''Priority (reverse)''"
| "sort_label SortModifiedAt = ''Last modified''"
| "sort_label SortModifiedAtReverse = ''Last modified (reverse)''"
| "sort_label SortCreatedAt = ''Created''"
| "sort_label SortCreatedAtReverse = ''Created (reverse)''"
| "sort_label SortTitle = ''Title (A-Z)''"
| "sort_label SortTitleReverse = ''Title (Z-A)''"
| "sort_label SortDueDate = ''Due date''"
| "sort_label SortDueDateReverse = ''Due date (reverse)''"

fun sort_url_value :: "SortOrder \<Rightarrow> string option" where
  "sort_url_value SortPriority = None"
| "sort_url_value SortPriorityReverse = Some ''priority-reverse''"
| "sort_url_value SortModifiedAt = Some ''modified''"
| "sort_url_value SortModifiedAtReverse = Some ''modified-reverse''"
| "sort_url_value SortCreatedAt = Some ''created''"
| "sort_url_value SortCreatedAtReverse = Some ''created-reverse''"
| "sort_url_value SortTitle = Some ''title''"
| "sort_url_value SortTitleReverse = Some ''title-reverse''"
| "sort_url_value SortDueDate = Some ''due''"
| "sort_url_value SortDueDateReverse = Some ''due-reverse''"

definition sort_from_url_value :: "string \<Rightarrow> SortOrder" where
  "sort_from_url_value s =
     (if s = ''priority-reverse'' then SortPriorityReverse
      else if s = ''modified'' then SortModifiedAt
      else if s = ''modified-reverse'' then SortModifiedAtReverse
      else if s = ''created'' then SortCreatedAt
      else if s = ''created-reverse'' then SortCreatedAtReverse
      else if s = ''title'' then SortTitle
      else if s = ''title-reverse'' then SortTitleReverse
      else if s = ''due'' then SortDueDate
      else if s = ''due-reverse'' then SortDueDateReverse
      else sort_default)"

definition sort_ALL :: "SortOrder list" where
  "sort_ALL = [SortPriority, SortPriorityReverse, SortModifiedAt, SortModifiedAtReverse,
     SortCreatedAt, SortCreatedAtReverse, SortTitle, SortTitleReverse, SortDueDate,
     SortDueDateReverse]"

text \<open>
  \<open>sort_by\<close> and \<open>sort_unstable_by_key\<close> of the standard library: insertion by a total preorder,
  which keeps equal elements in order. The unstable sorts promise no order among equal elements:
  their input is first rearranged by the argument \<open>shuffle\<close>, any permutation.
\<close>

fun insert_by_le :: "('a \<Rightarrow> 'a \<Rightarrow> bool) \<Rightarrow> 'a \<Rightarrow> 'a list \<Rightarrow> 'a list" where
  "insert_by_le le x [] = [x]"
| "insert_by_le le x (y # ys) = (if le x y then x # y # ys else y # insert_by_le le x ys)"

definition sort_by_le :: "('a \<Rightarrow> 'a \<Rightarrow> bool) \<Rightarrow> 'a list \<Rightarrow> 'a list" where
  "sort_by_le le xs = foldr (insert_by_le le) xs []"

datatype ordering = Less | Equal | Greater

definition compare :: "'a::linorder \<Rightarrow> 'a \<Rightarrow> ordering" where
  "compare a b = (if a < b then Less else if a = b then Equal else Greater)"

fun then_with :: "ordering \<Rightarrow> ordering \<Rightarrow> ordering" where
  "then_with Equal other = other"
| "then_with Less other = Less"
| "then_with Greater other = Greater"

definition due_compare :: "bool \<Rightarrow> card \<Rightarrow> card \<Rightarrow> ordering" where
  "due_compare reverse a b =
     then_with
       (case (card_due_date a, card_due_date b) of
          (Some a_d, Some b_d) \<Rightarrow> (if reverse then compare b_d a_d else compare a_d b_d)
        | (Some _, None) \<Rightarrow> Less
        | (None, Some _) \<Rightarrow> Greater
        | (None, None) \<Rightarrow> Equal)
       (compare (card_priority b) (card_priority a))"

fun order_le :: "(string \<Rightarrow> string) \<Rightarrow> SortOrder \<Rightarrow> card \<Rightarrow> card \<Rightarrow> bool" where
  "order_le to_lower SortPriority a b \<longleftrightarrow> card_priority b \<le> card_priority a"
| "order_le to_lower SortPriorityReverse a b \<longleftrightarrow> card_priority a \<le> card_priority b"
| "order_le to_lower SortModifiedAt a b \<longleftrightarrow> card_modified_at b \<le> card_modified_at a"
| "order_le to_lower SortModifiedAtReverse a b \<longleftrightarrow> card_modified_at a \<le> card_modified_at b"
| "order_le to_lower SortCreatedAt a b \<longleftrightarrow> card_created_at b \<le> card_created_at a"
| "order_le to_lower SortCreatedAtReverse a b \<longleftrightarrow> card_created_at a \<le> card_created_at b"
| "order_le to_lower SortTitle a b \<longleftrightarrow> to_lower (card_content a) \<le> to_lower (card_content b)"
| "order_le to_lower SortTitleReverse a b \<longleftrightarrow> to_lower (card_content b) \<le> to_lower (card_content a)"
| "order_le to_lower SortDueDate a b \<longleftrightarrow> due_compare False a b \<noteq> Greater"
| "order_le to_lower SortDueDateReverse a b \<longleftrightarrow> due_compare True a b \<noteq> Greater"

definition sort_cards ::
  "(string \<Rightarrow> string) \<Rightarrow> (card list \<Rightarrow> card list) \<Rightarrow> SortOrder \<Rightarrow> card list \<Rightarrow> card list" where
  "sort_cards to_lower shuffle order cards =
     (if order = SortDueDate \<or> order = SortDueDateReverse
      then sort_by_le (order_le to_lower order) cards
      else sort_by_le (order_le to_lower order) (shuffle cards))"

definition sort_by_priority ::
  "(string \<Rightarrow> string) \<Rightarrow> (card list \<Rightarrow> card list) \<Rightarrow> card list \<Rightarrow> card list" where
  "sort_by_priority to_lower shuffle cards = sort_cards to_lower shuffle SortPriority cards"

definition filtered_cards ::
  "(string \<Rightarrow> string) \<Rightarrow> (card list \<Rightarrow> card list) \<Rightarrow> datetime \<Rightarrow> uuid list \<Rightarrow> card_filter \<Rightarrow> string
   \<Rightarrow> uuid list \<Rightarrow> TagFilterMode \<Rightarrow> bool \<Rightarrow> bool \<Rightarrow> DueDateFilter \<Rightarrow> bool \<Rightarrow> SortOrder
   \<Rightarrow> tag list \<Rightarrow> card list \<Rightarrow> card list" where
  "filtered_cards to_lower shuffle now linked_ids blaze_filter search_query selected_tags tag_mode
     no_tags search_tags due_filter include_overdue order all_tags cards =
     sort_cards to_lower shuffle order
       (apply_due_date_filter now due_filter include_overdue
         (apply_all_filters to_lower linked_ids blaze_filter search_query selected_tags tag_mode
            no_tags search_tags all_tags cards))"

section \<open>One predicate\<close>

definition linked_keeps :: "uuid list \<Rightarrow> card \<Rightarrow> bool" where
  "linked_keeps linked_ids c \<longleftrightarrow> linked_ids = [] \<or> card_id c \<in> set linked_ids"

fun blaze_keeps :: "card_filter \<Rightarrow> card \<Rightarrow> bool" where
  "blaze_keeps FilterAll c \<longleftrightarrow> True"
| "blaze_keeps FilterBlazed c \<longleftrightarrow> card_blazed c"
| "blaze_keeps FilterExtinguished c \<longleftrightarrow> \<not> card_blazed c"

definition search_keeps :: "(string \<Rightarrow> string) \<Rightarrow> string \<Rightarrow> bool \<Rightarrow> tag list \<Rightarrow> card \<Rightarrow> bool" where
  "search_keeps to_lower query search_tags all_tags c \<longleftrightarrow>
     query = [] \<or> search_matches to_lower (to_lower query) search_tags all_tags c"

definition tags_keep :: "uuid list \<Rightarrow> TagFilterMode \<Rightarrow> bool \<Rightarrow> card \<Rightarrow> bool" where
  "tags_keep selected_tags mode no_tags c \<longleftrightarrow>
     selected_tags = [] \<and> \<not> no_tags \<or> tag_filter_keeps selected_tags mode no_tags c"

definition due_keeps :: "DueDateFilter \<Rightarrow> int \<Rightarrow> bool \<Rightarrow> card \<Rightarrow> bool" where
  "due_keeps flt today include_overdue c \<longleftrightarrow>
     flt = DueAll \<or>
     (case card_due_date c of
        Some d \<Rightarrow> due_keep flt today include_overdue (date_naive d) | None \<Rightarrow> False)"

named_theorems filter_as_predicate \<open>each filter of the pipeline is one \<open>filter\<close>\<close>

lemma linked_filter [filter_as_predicate]:
  "apply_linked_card_filter ids cards = filter (linked_keeps ids) cards"
  by (cases "ids = []") (auto simp: apply_linked_card_filter_def linked_keeps_def intro!: filter_cong)

lemma blaze_filter [filter_as_predicate]: "apply_blaze_filter f cards = filter (blaze_keeps f) cards"
  by (cases f) (auto intro!: filter_cong)

lemma search_filter [filter_as_predicate]:
  "apply_search_filter to_lower q st ts cards = filter (search_keeps to_lower q st ts) cards"
  by (cases "q = []") (auto simp: apply_search_filter_def search_keeps_def intro!: filter_cong)

lemma tag_filter [filter_as_predicate]:
  "apply_tag_filter sel mode nt cards = filter (tags_keep sel mode nt) cards"
  by (cases "sel = [] \<and> \<not> nt") (auto simp: apply_tag_filter_def tags_keep_def intro!: filter_cong)

lemma due_filter [filter_as_predicate]:
  "apply_due_date_filter now flt inc cards = filter (due_keeps flt (date_naive now) inc) cards"
  by (cases "flt = DueAll")
    (auto simp: apply_due_date_filter_def apply_due_date_filter_with_today_def due_keeps_def
      intro!: filter_cong)

section \<open>Sorting\<close>

lemma mset_insert_by_le [simp]: "mset (insert_by_le le x xs) = add_mset x (mset xs)"
  by (induction xs) auto

lemma mset_sort_by_le [simp]: "mset (sort_by_le le xs) = mset xs"
  by (induction xs) (simp_all add: sort_by_le_def)

lemma set_insert_by_le [simp]: "set (insert_by_le le x xs) = insert x (set xs)"
  by (induction xs) auto

lemma sorted_insert_by_le:
  assumes "\<And>a b. le a b \<or> le b a" "\<And>a b c. le a b \<Longrightarrow> le b c \<Longrightarrow> le a c" "sorted_wrt le xs"
  shows "sorted_wrt le (insert_by_le le x xs)"
  using assms(3)
proof (induction xs)
  case (Cons y ys)
  then show ?case using assms(1,2) by (auto split: if_splits)
qed simp

lemma sorted_sort_by_le:
  assumes "\<And>a b. le a b \<or> le b a" "\<And>a b c. le a b \<Longrightarrow> le b c \<Longrightarrow> le a c"
  shows "sorted_wrt le (sort_by_le le xs)"
  using assms by (induction xs) (auto simp: sort_by_le_def intro!: sorted_insert_by_le)

lemma sorted_permutation_unique:
  assumes "mset xs = mset ys" "sorted_wrt le xs" "sorted_wrt le ys"
    and "\<And>a b. a \<in> set xs \<Longrightarrow> b \<in> set xs \<Longrightarrow> le a b \<Longrightarrow> le b a \<Longrightarrow> a = b"
  shows "xs = ys"
  using assms
proof (induction xs arbitrary: ys)
  case (Cons x xs)
  then obtain y ys' where ys: "ys = y # ys'" by (cases ys) auto
  have sets: "set (x # xs) = set (y # ys')" using Cons.prems(1) ys by (metis set_mset_mset)
  have "x = y"
  proof (rule ccontr)
    assume "x \<noteq> y"
    then have "y \<in> set xs" "x \<in> set ys'" using sets by auto
    then have "le x y" "le y x" using Cons.prems(2,3) ys by auto
    then show False using Cons.prems(4) sets \<open>x \<noteq> y\<close> by auto
  qed
  moreover have "xs = ys'"
    by (rule Cons.IH) (use Cons.prems ys \<open>x = y\<close> in auto)
  ultimately show ?case using ys by simp
qed simp

lemma due_compare_le:
  "due_compare reverse a b \<noteq> Greater \<longleftrightarrow>
     (case (card_due_date a, card_due_date b) of
        (Some x, Some y) \<Rightarrow>
          (if reverse then y < x else x < y) \<or> x = y \<and> card_priority b \<le> card_priority a
      | (Some _, None) \<Rightarrow> True
      | (None, Some _) \<Rightarrow> False
      | (None, None) \<Rightarrow> card_priority b \<le> card_priority a)"
  by (auto simp: due_compare_def compare_def split: option.splits)

lemma order_le_total: "order_le to_lower order a b \<or> order_le to_lower order b a"
  by (cases order) (auto simp: due_compare_le split: option.splits)

lemma order_le_trans:
  "order_le to_lower order a b \<Longrightarrow> order_le to_lower order b c \<Longrightarrow> order_le to_lower order a c"
  by (cases order) (auto simp: due_compare_le split: option.splits if_splits)

end
