(* ===== verification/Due_Date.thy ===== *)
theory Due_Date
  imports Client_Filter
begin

text \<open>
  Due dates (clients/lib/src/due_date.rs): the status of a date relative to today, its badge, and
  the quick-pick presets, which are midnights of days computed from today and its weekday. A date
  is its day number from 1970-01-01, a Thursday, and \<open>now\<close> the clock reading. The \<open>strftime\<close> format of
  \<open>format_due_date_display\<close> is the argument \<open>format_date\<close>.
\<close>

section \<open>Status and badge\<close>

datatype DueDateStatus = Overdue int | DueIsToday | Upcoming int

definition due_date_status :: "datetime \<Rightarrow> datetime \<Rightarrow> DueDateStatus" where
  "due_date_status now due_date =
     (let today = date_naive now;
          due = date_naive due_date;
          diff = due - today
      in if diff < 0 then Overdue (- diff)
         else if diff = 0 then DueIsToday
         else Upcoming diff)"

text \<open>\<open>Display\<close> of an \<open>i64\<close>.\<close>

fun nat_digits :: "nat \<Rightarrow> string" where
  "nat_digits n =
     (if n < 10 then [char_of (48 + n)] else nat_digits (n div 10) @ [char_of (48 + n mod 10)])"

declare nat_digits.simps [simp del]

definition int_display :: "int \<Rightarrow> string" where
  "int_display v = (if v < 0 then ''-'' @ nat_digits (nat (- v)) else nat_digits (nat v))"

definition format_due_date_badge :: "datetime \<Rightarrow> datetime \<Rightarrow> string \<times> string" where
  "format_due_date_badge now due_date =
     (case due_date_status now due_date of
        Overdue days \<Rightarrow>
          if days = 1 then (''1d overdue'', ''due-overdue'')
          else (int_display days @ ''d overdue'', ''due-overdue'')
      | DueIsToday \<Rightarrow> (''due today'', ''due-today'')
      | Upcoming days \<Rightarrow>
          if days = 1 then (''tomorrow'', ''due-upcoming'')
          else (''in '' @ int_display days @ ''d'', ''due-upcoming''))"

definition format_due_date_display :: "(datetime \<Rightarrow> string) \<Rightarrow> datetime \<Rightarrow> datetime \<Rightarrow> string" where
  "format_due_date_display format_date now due_date =
     (let date_str = format_date due_date;
          badge = fst (format_due_date_badge now due_date)
      in date_str @ '' ('' @ badge @ '')'')"

section \<open>Presets\<close>

datatype weekday = Mon | Tue | Wed | Thu | Fri | Sat | Sun

fun num_days_from_monday :: "weekday \<Rightarrow> int" where
  "num_days_from_monday Mon = 0"
| "num_days_from_monday Tue = 1"
| "num_days_from_monday Wed = 2"
| "num_days_from_monday Thu = 3"
| "num_days_from_monday Fri = 4"
| "num_days_from_monday Sat = 5"
| "num_days_from_monday Sun = 6"

text \<open>Day 0 is a Thursday; \<open>date.weekday().num_days_from_monday()\<close> is then \<open>(date + 3) mod 7\<close>.\<close>

definition weekday_number :: "int \<Rightarrow> int" where
  "weekday_number date = (date + 3) mod 7"

datatype DueDatePreset =
    PresetToday | PresetTomorrow | PresetInTwoDays | NextMon | NextTue | NextWed | NextThu
  | NextFri | NextSat | NextSun

definition preset_ALL :: "DueDatePreset list" where
  "preset_ALL = [PresetToday, PresetTomorrow, PresetInTwoDays, NextMon, NextTue, NextWed, NextThu,
     NextFri, NextSat, NextSun]"

fun preset_label :: "DueDatePreset \<Rightarrow> string" where
  "preset_label PresetToday = ''Today''"
| "preset_label PresetTomorrow = ''Tomorrow''"
| "preset_label PresetInTwoDays = ''In 2 days''"
| "preset_label NextMon = ''Next monday''"
| "preset_label NextTue = ''Next tuesday''"
| "preset_label NextWed = ''Next wednesday''"
| "preset_label NextThu = ''Next thursday''"
| "preset_label NextFri = ''Next friday''"
| "preset_label NextSat = ''Next saturday''"
| "preset_label NextSun = ''Next sunday''"

definition midnight_utc :: "int \<Rightarrow> datetime" where
  "midnight_utc date = date * 86400000"

definition today_midnight :: "datetime \<Rightarrow> datetime" where
  "today_midnight now = midnight_utc (date_naive now)"

definition tomorrow_midnight :: "datetime \<Rightarrow> datetime" where
  "tomorrow_midnight now = midnight_utc (date_naive now + 1)"

definition in_two_days_midnight :: "datetime \<Rightarrow> datetime" where
  "in_two_days_midnight now = midnight_utc (date_naive now + 2)"

text \<open>Rust's \<open>%\<close> truncates; its left operand here is never negative.\<close>

definition next_weekday :: "datetime \<Rightarrow> weekday \<Rightarrow> datetime" where
  "next_weekday now weekday =
     (let today = date_naive now;
          today_wd = weekday_number today;
          target_wd = num_days_from_monday weekday;
          days_ahead = ((target_wd - today_wd) + 7) mod 7;
          days_ahead = (if days_ahead = 0 then 7 else days_ahead);
          date = today + days_ahead
      in midnight_utc date)"

fun preset_resolve :: "datetime \<Rightarrow> DueDatePreset \<Rightarrow> datetime" where
  "preset_resolve now PresetToday = today_midnight now"
| "preset_resolve now PresetTomorrow = tomorrow_midnight now"
| "preset_resolve now PresetInTwoDays = in_two_days_midnight now"
| "preset_resolve now NextMon = next_weekday now Mon"
| "preset_resolve now NextTue = next_weekday now Tue"
| "preset_resolve now NextWed = next_weekday now Wed"
| "preset_resolve now NextThu = next_weekday now Thu"
| "preset_resolve now NextFri = next_weekday now Fri"
| "preset_resolve now NextSat = next_weekday now Sat"
| "preset_resolve now NextSun = next_weekday now Sun"

section \<open>Facts\<close>

lemma date_naive_midnight [simp]: "date_naive (midnight_utc d) = d"
  by (simp add: date_naive_def midnight_utc_def)

lemma weekday_range: "0 \<le> num_days_from_monday w \<and> num_days_from_monday w < 7"
  by (cases w) simp_all

lemma next_weekday_days:
  "\<exists>k\<in>{1..7}. next_weekday now w = midnight_utc (date_naive now + k) \<and>
     weekday_number (date_naive now + k) = num_days_from_monday w"
proof -
  define t where "t = date_naive now"
  define k0 where "k0 = ((num_days_from_monday w - weekday_number t) + 7) mod 7"
  define k where "k = (if k0 = 0 then 7 else k0)"
  have "0 \<le> k0" "k0 < 7" by (simp_all add: k0_def)
  then have range: "k \<in> {1..7}" by (auto simp: k_def)
  have "k mod 7 = k0" using \<open>0 \<le> k0\<close> \<open>k0 < 7\<close> by (simp add: k_def)
  then have "(t + 3 + k) mod 7 = (t + 3 + k0) mod 7" by (metis mod_add_right_eq)
  also have "\<dots> = num_days_from_monday w mod 7"
    unfolding k0_def weekday_number_def
    by (simp add: mod_simps)
  finally have "weekday_number (t + k) = num_days_from_monday w"
    using weekday_range [of w] by (simp add: weekday_number_def algebra_simps)
  moreover have "next_weekday now w = midnight_utc (t + k)"
    by (simp add: next_weekday_def Let_def t_def k_def k0_def)
  ultimately show ?thesis using range unfolding t_def by blast
qed


lemma midnight_utc_inject [simp]: "midnight_utc a = midnight_utc b \<longleftrightarrow> a = b"
  by (simp add: midnight_utc_def)

lemma same_weekday_same_offset:
  assumes "1 \<le> j" "j \<le> 7" "1 \<le> k" "k \<le> (7::int)" "weekday_number (t + j) = weekday_number (t + k)"
  shows "j = k"
proof -
  have "(t + 3 + j) mod 7 = (t + 3 + k) mod 7"
    using assms(5) by (simp add: weekday_number_def algebra_simps)
  then have "7 dvd j - k" by (simp add: mod_eq_dvd_iff)
  moreover have "\<bar>j - k\<bar> < 7" using assms(1-4) by linarith
  ultimately show ?thesis using zdvd_imp_le [of 7 "\<bar>j - k\<bar>"] by fastforce
qed

end
