(* ===== verification/Filter_Properties.thy ===== *)
theory Filter_Properties
  imports Due_Date Demo
begin

text \<open>
  What the filters and sorts promise: the pipeline is one predicate, the tag modes come in
  complementary pairs, the due-date filters are day windows, the URL values are read back, and a
  sort is an ordered permutation that agrees with the server's listing order.
\<close>

definition view_hash :: "bytes \<Rightarrow> hash" where "view_hash bs = 1"

section \<open>What a view shows, in the user's terms\<close>

text \<open>Search text occurs in a string.\<close>

definition occurs_in :: "string \<Rightarrow> string \<Rightarrow> bool" where
  "occurs_in pat s \<longleftrightarrow> (\<exists>pre post. s = pre @ pat @ post)"

text \<open>The first tag of an id in the local list.\<close>

definition tag_named :: "tag list \<Rightarrow> uuid \<Rightarrow> tag \<Rightarrow> bool" where
  "tag_named all_tags uid t \<longleftrightarrow>
     (\<exists>pre post. all_tags = pre @ t # post \<and> tag_id t = uid \<and> uid \<notin> tag_id ` set pre)"

definition found_by ::
  "(string \<Rightarrow> string) \<Rightarrow> string \<Rightarrow> bool \<Rightarrow> tag list \<Rightarrow> card \<Rightarrow> bool" where
  "found_by to_lower query search_tags all_tags c \<longleftrightarrow>
     query = [] \<or> occurs_in (to_lower query) (to_lower (card_content c)) \<or>
     search_tags \<and> (\<exists>uid\<in>set (card_tags c). \<exists>t. tag_named all_tags uid t \<and>
       occurs_in (to_lower query) (to_lower (tag_title t)))"

text \<open>The tag modes as relations of the card's tags \<open>T\<close> and the selected tags \<open>S\<close>.\<close>

fun selected_by :: "TagFilterMode \<Rightarrow> uuid set \<Rightarrow> uuid set \<Rightarrow> bool" where
  "selected_by ModeOr S T \<longleftrightarrow> S \<inter> T \<noteq> {}"
| "selected_by ModeAnd S T \<longleftrightarrow> S \<subseteq> T"
| "selected_by ModeNor S T \<longleftrightarrow> S \<inter> T = {}"
| "selected_by ModeNand S T \<longleftrightarrow> \<not> S \<subseteq> T"

definition tags_wanted :: "TagFilterMode \<Rightarrow> bool \<Rightarrow> uuid set \<Rightarrow> uuid set \<Rightarrow> bool" where
  "tags_wanted mode no_tags S T \<longleftrightarrow>
     (if S = {} then no_tags \<longrightarrow> T = {} else no_tags \<and> T = {} \<or> selected_by mode S T)"

text \<open>The due-date filters as windows of time, in milliseconds: \<open>t\<close> is the number of the day.\<close>

definition day_start :: "int \<Rightarrow> int" where "day_start t = 24 * 60 * 60 * 1000 * t"

fun due_window :: "DueDateFilter \<Rightarrow> int \<Rightarrow> int set" where
  "due_window DueAll t = UNIV"
| "due_window DueOverdue t = {..<day_start t}"
| "due_window DueToday t = {day_start t..<day_start (t + 1)}"
| "due_window DueTodayAndUpcoming t = {day_start t..}"
| "due_window DueUpcomingTomorrow t = {day_start (t + 1)..<day_start (t + 2)}"
| "due_window DueTodayAndTomorrow t = {day_start t..<day_start (t + 2)}"
| "due_window DueUpcomingWeek t = {day_start t..<day_start (t + 7)}"
| "due_window DueUpcomingTwoWeeks t = {day_start t..<day_start (t + 14)}"

definition due_wanted :: "DueDateFilter \<Rightarrow> bool \<Rightarrow> int \<Rightarrow> card \<Rightarrow> bool" where
  "due_wanted flt include_overdue t c \<longleftrightarrow>
     flt = DueAll \<or>
     (\<exists>d. card_due_date c = Some d \<and> (d \<in> due_window flt t \<or> include_overdue \<and> d \<in> due_window DueOverdue t))"

definition blaze_wanted :: "card_filter \<Rightarrow> bool \<Rightarrow> bool" where
  "blaze_wanted flt blazed \<longleftrightarrow> (flt = FilterBlazed \<longrightarrow> blazed) \<and> (flt = FilterExtinguished \<longrightarrow> \<not> blazed)"

text \<open>The sort orders by the keys they sort by, ascending or descending. By due date, the cards with
  a due date come first, by date and on one date by descending priority, then those without, by
  descending priority.\<close>

definition descending :: "('a \<Rightarrow> 'b::linorder) \<Rightarrow> 'a list \<Rightarrow> bool" where
  "descending key xs \<longleftrightarrow> sorted (map key (rev xs))"

definition ascending :: "('a \<Rightarrow> 'b::linorder) \<Rightarrow> 'a list \<Rightarrow> bool" where
  "ascending key xs \<longleftrightarrow> sorted (map key xs)"

definition by_due_date :: "(datetime \<Rightarrow> datetime \<Rightarrow> bool) \<Rightarrow> card list \<Rightarrow> bool" where
  "by_due_date earlier xs \<longleftrightarrow>
     (\<exists>dated undated. xs = dated @ undated \<and>
        list_all (\<lambda>c. card_due_date c \<noteq> None) dated \<and> list_all (\<lambda>c. card_due_date c = None) undated \<and>
        sorted_wrt (\<lambda>a b. earlier (the (card_due_date a)) (the (card_due_date b)) \<or>
          card_due_date a = card_due_date b \<and> card_priority b \<le> card_priority a) dated \<and>
        descending card_priority undated)"

fun in_order :: "(string \<Rightarrow> string) \<Rightarrow> SortOrder \<Rightarrow> card list \<Rightarrow> bool" where
  "in_order to_lower SortPriority xs \<longleftrightarrow> descending card_priority xs"
| "in_order to_lower SortPriorityReverse xs \<longleftrightarrow> ascending card_priority xs"
| "in_order to_lower SortModifiedAt xs \<longleftrightarrow> descending card_modified_at xs"
| "in_order to_lower SortModifiedAtReverse xs \<longleftrightarrow> ascending card_modified_at xs"
| "in_order to_lower SortCreatedAt xs \<longleftrightarrow> descending card_created_at xs"
| "in_order to_lower SortCreatedAtReverse xs \<longleftrightarrow> ascending card_created_at xs"
| "in_order to_lower SortTitle xs \<longleftrightarrow> ascending (\<lambda>c. to_lower (card_content c)) xs"
| "in_order to_lower SortTitleReverse xs \<longleftrightarrow> descending (\<lambda>c. to_lower (card_content c)) xs"
| "in_order to_lower SortDueDate xs \<longleftrightarrow> by_due_date (\<lambda>a b. a < b) xs"
| "in_order to_lower SortDueDateReverse xs \<longleftrightarrow> by_due_date (\<lambda>a b. b < a) xs"

subsection \<open>The code's predicates mean that\<close>

lemma str_contains_occurs: "str_contains s pat \<longleftrightarrow> occurs_in pat s"
proof (induction s)
  case (Cons c s)
  have "occurs_in pat (c # s) \<longleftrightarrow> (\<exists>post. c # s = pat @ post) \<or> occurs_in pat s"
    unfolding occurs_in_def by (metis append_Cons append_Nil list.exhaust list.inject)
  moreover have "(\<exists>post. c # s = pat @ post) \<longleftrightarrow> take (length pat) (c # s) = pat"
    by (metis append_eq_conv_conj)
  ultimately show ?case using Cons by simp
qed (simp add: occurs_in_def)

lemma find_tag_named: "find (\<lambda>t. tag_id t = uid) all_tags = Some t \<longleftrightarrow> tag_named all_tags uid t"
proof (induction all_tags)
  case (Cons u us)
  have "tag_named (u # us) uid t \<longleftrightarrow> (if tag_id u = uid then t = u else tag_named us uid t)"
    unfolding tag_named_def Cons_eq_append_conv by (auto 0 3)
  then show ?case using Cons by auto
qed (simp add: tag_named_def)

lemma search_keeps_found: "search_keeps to_lower q st ts c \<longleftrightarrow> found_by to_lower q st ts c"
proof -
  have "(case find (\<lambda>t. tag_id t = uid) ts of Some t \<Rightarrow> P t | None \<Rightarrow> False) \<longleftrightarrow> (\<exists>t. tag_named ts uid t \<and> P t)"
    for uid P
    by (auto simp: find_tag_named[symmetric] split: option.split)
  then show ?thesis
    by (simp add: search_keeps_def search_matches_def found_by_def str_contains_occurs list_ex_iff)
qed

lemma mode_keeps_selected: "mode_keeps mode selected c \<longleftrightarrow> selected_by mode (set selected) (set (card_tags c))"
  by (cases mode) (auto simp: list_ex_iff list_all_iff)

lemma tags_keep_wanted: "tags_keep selected mode nt c \<longleftrightarrow> tags_wanted mode nt (set selected) (set (card_tags c))"
  by (auto simp: tags_keep_def tag_filter_keeps_def tags_wanted_def mode_keeps_selected)

lemma day_of: "date_naive d = t \<longleftrightarrow> d \<in> {day_start t..<day_start (t + 1)}"
  unfolding date_naive_def day_start_def by auto

lemma before_day: "date_naive d < t \<longleftrightarrow> d < day_start t" "t \<le> date_naive d \<longleftrightarrow> day_start t \<le> d"
  unfolding date_naive_def day_start_def by auto

lemma due_keep_window:
  "due_keep flt t inc (date_naive d) \<longleftrightarrow> flt = DueAll \<or> d \<in> due_window flt t \<or> inc \<and> flt \<noteq> DueOverdue \<and> d \<in> due_window DueOverdue t"
  by (cases flt) (auto simp: before_day day_of add.commute)

lemma due_keeps_wanted: "due_keeps flt t inc c \<longleftrightarrow> due_wanted flt inc t c"
  unfolding due_keeps_def due_wanted_def due_keep_window by (cases "card_due_date c") auto

lemma blaze_keeps_wanted: "blaze_keeps flt c \<longleftrightarrow> blaze_wanted flt (card_blazed c)"
  by (cases flt) (simp_all add: blaze_wanted_def)

lemma descending_wrt: "descending key xs \<longleftrightarrow> sorted_wrt (\<lambda>a b. key b \<le> key a) xs"
  by (simp add: descending_def sorted_wrt_map sorted_wrt_rev)

lemma ascending_wrt: "ascending key xs \<longleftrightarrow> sorted_wrt (\<lambda>a b. key a \<le> key b) xs"
  by (simp add: ascending_def sorted_wrt_map)

lemma due_sorted:
  assumes "sorted_wrt (\<lambda>a b. due_compare rv a b \<noteq> Greater) xs"
  shows "by_due_date (\<lambda>a b. if rv then b < a else a < b) xs"
  using assms
proof (induction xs)
  case Nil
  show ?case by (rule by_due_date_def[THEN iffD2]) (simp add: descending_def)
next
  case (Cons c xs)
  then obtain dated undated where xs: "xs = dated @ undated" and dated: "list_all (\<lambda>c. card_due_date c \<noteq> None) dated"
    and undated: "list_all (\<lambda>c. card_due_date c = None) undated"
    and sorted: "sorted_wrt (\<lambda>a b. (if rv then the (card_due_date b) < the (card_due_date a)
          else the (card_due_date a) < the (card_due_date b)) \<or>
        card_due_date a = card_due_date b \<and> card_priority b \<le> card_priority a) dated"
      "descending card_priority undated"
    by (auto simp: by_due_date_def)
  have le: "due_compare rv c x \<noteq> Greater" if "x \<in> set xs" for x using Cons.prems that by simp
  show ?case
  proof (cases "card_due_date c")
    case None
    then have "dated = []"
      using le[of "hd dated"] dated xs by (cases dated) (auto simp: due_compare_le split: option.splits)
    then have "descending card_priority (c # xs)"
      using sorted(2) le undated xs None by (auto simp: descending_wrt due_compare_le list_all_iff)
    then show ?thesis
      using undated xs None \<open>dated = []\<close> unfolding by_due_date_def
      by (intro exI[of _ "[]"] exI[of _ "c # xs"]) simp
  next
    case (Some d)
    then have "sorted_wrt (\<lambda>a b. (if rv then the (card_due_date b) < the (card_due_date a)
          else the (card_due_date a) < the (card_due_date b)) \<or>
        card_due_date a = card_due_date b \<and> card_priority b \<le> card_priority a) (c # dated)"
      using sorted(1) dated le xs by (fastforce simp: due_compare_le list_all_iff)
    then show ?thesis
      using dated undated sorted(2) xs Some unfolding by_due_date_def
      by (intro exI[of _ "c # dated"] exI[of _ undated]) simp
  qed
qed

lemma sorted_in_order:
  assumes "sorted_wrt (order_le to_lower order) xs"
  shows "in_order to_lower order xs"
proof -
  have le: "sorted_wrt R xs" if "\<And>a b. order_le to_lower order a b \<Longrightarrow> R a b" for R
    using assms that by (rule sorted_wrt_mono_rel[rotated])
  show ?thesis
    by (cases order)
      (auto simp: descending_wrt ascending_wrt intro!: le due_sorted[of False xs, simplified] due_sorted[of True xs, simplified])
qed

subsection \<open>The view\<close>

text \<open>C20: The filtered view is what its settings say, whatever the order of the pipeline. A card is shown exactly
  when it is in the list and: it is one of the linked cards, if there are any; it is blazed, or is not, as
  the blaze filter asks; the search text occurs in its content or, if tags are searched, in the title of
  one of its tags; its tags meet, include, avoid or do not include the selected ones, by the mode, the
  switch for untagged cards adding those or, with none selected, keeping only those; and it is due
  in the window of the filter, or is overdue when those are included. \<open>t\<close> is today's number. The cards shown
  are a permutation of these, ordered by the key of the sort order.\<close>

theorem filtered_view_exact:
  fixes order :: SortOrder
  assumes "day_start t \<le> now" "now < day_start (t + 1)" "\<forall>xs. mset (shuffle xs) = mset xs"
    and "view = filtered_cards to_lower shuffle now linked_ids blaze_filter search_query
      selected_tags tag_mode no_tags search_tags due_filter include_overdue order all_tags cards"
  shows "mset view = {#c \<in># mset cards.
        (linked_ids = [] \<or> card_id c \<in> set linked_ids) \<and> blaze_wanted blaze_filter (card_blazed c) \<and>
        found_by to_lower search_query search_tags all_tags c \<and>
        tags_wanted tag_mode no_tags (set selected_tags) (set (card_tags c)) \<and>
        due_wanted due_filter include_overdue t c#} \<and>
    in_order to_lower order view"
proof -
  have today: "date_naive now = t" using assms(1,2) by (simp add: day_of)
  have "mset view = filter_mset (\<lambda>c. linked_keeps linked_ids c \<and> blaze_keeps blaze_filter c \<and>
      search_keeps to_lower search_query search_tags all_tags c \<and>
      tags_keep selected_tags tag_mode no_tags c \<and> due_keeps due_filter t include_overdue c) (mset cards)"
    unfolding assms(4) filtered_cards_def apply_all_filters_def Let_def filter_as_predicate today
    using assms(3) by (simp add: sort_cards_def conj_commute conj_left_commute)
  moreover have "sorted_wrt (order_le to_lower order) view"
    unfolding assms(4) filtered_cards_def sort_cards_def
    by (auto intro!: sorted_sort_by_le order_le_total intro: order_le_trans)
  ultimately show ?thesis
    by (simp add: sorted_in_order linked_keeps_def blaze_keeps_wanted search_keeps_found tags_keep_wanted due_keeps_wanted)
qed

definition shown_cards :: "card list" where
  "shown_cards =
     [card_first view_hash 1 ''a'' 10 [] True 0 None, card_first view_hash 2 ''b'' 30 [7] False 0 (Some 86400000),
      card_first view_hash 3 ''c'' 20 [] False 0 (Some 691200000)]"

theorem filtered_view_exact_witness:
  "mset (filtered_cards id rev 90000000 [] FilterExtinguished [] [] ModeOr False False DueUpcomingWeek False
      SortDueDate [] shown_cards) =
    {#card_first view_hash 2 ''b'' 30 [7] False 0 (Some 86400000)#}"
  using filtered_view_exact [OF _ _ _ refl, of 1 90000000 rev id "[]" FilterExtinguished "[]" "[]" ModeOr False False
      DueUpcomingWeek False SortDueDate "[]" shown_cards]
  by (simp add: shown_cards_def found_by_def blaze_wanted_def tags_wanted_def due_wanted_def day_start_def)

section \<open>Modes\<close>

text \<open>With tags selected and the no-tags switch off, the modes are complementary: NOR keeps
  exactly the cards OR drops and NAND exactly those AND drops, so each pair splits the list; and
  AND keeps only cards that OR keeps.\<close>

theorem tag_modes_complement:
  assumes "selected \<noteq> []"
  shows "mset (apply_tag_filter selected ModeOr False cards) +
      mset (apply_tag_filter selected ModeNor False cards) = mset cards \<and>
    mset (apply_tag_filter selected ModeAnd False cards) +
      mset (apply_tag_filter selected ModeNand False cards) = mset cards \<and>
    set (apply_tag_filter selected ModeAnd False cards) \<subseteq>
      set (apply_tag_filter selected ModeOr False cards)"
  using assms
  by (induction cards)
    (auto simp: apply_tag_filter_def tag_filter_keeps_def list_all_iff list_ex_iff neq_Nil_conv)

theorem tag_modes_complement_witness:
  "mset (apply_tag_filter [7] ModeOr False shown_cards) +
     mset (apply_tag_filter [7] ModeNor False shown_cards) = mset shown_cards"
  using tag_modes_complement [of "[7]" shown_cards] by simp

section \<open>URL values\<close>

text \<open>A filter that is written to the URL is read back, and one that is left out because it is
  the default is what the reader assumes: for the due-date filters, the tag modes and the sort
  orders; and the button that cycles through the tag modes visits each of the four and returns.\<close>

theorem filter_url_roundtrip:
  "(case due_url_value due of Some s \<Rightarrow> due_from_url_value s | None \<Rightarrow> due_from_url_value []) = due \<and>
   (case mode_url_value mode of Some s \<Rightarrow> mode_from_url_value s | None \<Rightarrow> ModeOr) = mode \<and>
   (case sort_url_value order of Some s \<Rightarrow> sort_from_url_value s | None \<Rightarrow> sort_default) = order \<and>
   {mode, mode_next mode, mode_next (mode_next mode), mode_next (mode_next (mode_next mode))} =
     set mode_ALL \<and>
   mode_next (mode_next (mode_next (mode_next mode))) = mode"
  by (cases due; cases mode; cases order)
    (simp_all add: due_from_url_value_def mode_from_url_value_def sort_from_url_value_def
      sort_default_def mode_ALL_def insert_commute)

section \<open>Agreement with the server\<close>

lemma sort_by_priority_unique:
  assumes "distinct (map card_priority cards)" "mset (shuffle cards) = mset cards"
    and "mset ys = mset cards" "sorted_wrt (\<lambda>a b. card_priority b \<le> card_priority a) ys"
  shows "sort_by_priority to_lower shuffle cards = ys"
proof (rule sorted_permutation_unique [where le = "order_le to_lower SortPriority"])
  show "mset (sort_by_priority to_lower shuffle cards) = mset ys"
    using assms by (simp add: sort_by_priority_def sort_cards_def)
  show "sorted_wrt (order_le to_lower SortPriority) (sort_by_priority to_lower shuffle cards)"
    by (auto simp: sort_by_priority_def sort_cards_def
        intro!: sorted_sort_by_le order_le_total intro: order_le_trans)
  show "sorted_wrt (order_le to_lower SortPriority) ys"
    using assms(4) by (auto elim: sorted_wrt_mono_rel [rotated])
  fix a b
  assume "a \<in> set (sort_by_priority to_lower shuffle cards)"
    "b \<in> set (sort_by_priority to_lower shuffle cards)"
    and le: "order_le to_lower SortPriority a b" "order_le to_lower SortPriority b a"
  moreover have "set (sort_by_priority to_lower shuffle cards) = set cards"
    using assms(2) by (metis mset_sort_by_le set_mset_mset sort_by_priority_def sort_cards_def
        SortOrder.distinct(15) SortOrder.distinct(17))
  moreover have "inj_on card_priority (set cards)" using assms(1) by (simp add: distinct_map)
  ultimately show "a = b" by (auto dest: inj_onD)
qed


lemma live_priorities_distinct:
  assumes "postcard_ok E" "storage_inv E K db"
  shows "distinct (map (\<lambda>r. card_priority (card_of E (row_cols r))) (cards_table db))"
proof -
  have dist: "distinct (map (\<lambda>r. col_priority (row_cols r)) (cards_table db))"
    using assms(2) by (simp add: storage_inv_def tables_ok_def cards_ok_def)
  have eq: "map (\<lambda>r. card_priority (card_of E (row_cols r))) (cards_table db) =
      map (\<lambda>r. col_priority (row_cols r)) (cards_table db)"
    using storage_inv_rows(1) [OF assms(2)] by (simp add: card_of_fields [OF assms(1)])
  show ?thesis unfolding eq by (rule dist)
qed

lemma filter_matches_blaze: "filter_matches flt (card_blazed c) = blaze_keeps flt c"
  by (cases flt) simp_all

text \<open>A client whose local cards are the server's live cards, in whatever order it holds them,
  computes with its blaze filter and its priority sort exactly the list the server returns for the
  same filter.\<close>

theorem server_order_is_client_order:
  assumes "postcard_ok E" "storage_inv E K db" "storage_list_cards E db FilterAll None = Ok all_cards"
    and "mset local_cards = mset all_cards"
    and "mset (shuffle (apply_blaze_filter flt local_cards)) = mset (apply_blaze_filter flt local_cards)"
  shows "storage_list_cards E db flt None =
    Ok (sort_by_priority to_lower shuffle (apply_blaze_filter flt local_cards))"
proof -
  let ?c = "\<lambda>r. card_of E (row_cols r)"
  let ?rows = "\<lambda>f. sort_key (\<lambda>r. - col_priority (row_cols r))
      (filter (\<lambda>r. filter_matches f (col_blazed (row_cols r))) (cards_table db))"
  note list = list_cards_result [OF assms(1,2), of _ None]
  note rows = storage_inv_rows(1) [OF assms(2)]
  have all: "mset local_cards = mset (map ?c (cards_table db))"
  proof -
    have "all_cards = map ?c (sort_key (\<lambda>r. - col_priority (row_cols r)) (cards_table db))"
      using assms(3) by (simp add: list limit_rows_def)
    then show ?thesis by (simp add: assms(4))
  qed
  have keep: "filter_matches flt (col_blazed (row_cols r)) = blaze_keeps flt (?c r)"
    if "r \<in> set (cards_table db)" for r
    using card_of_fields(4) [OF assms(1) rows [OF that]] by (simp add: filter_matches_blaze [symmetric])
  have "mset (map ?c (?rows flt)) = mset (apply_blaze_filter flt local_cards)"
  proof -
    have "filter (\<lambda>r. filter_matches flt (col_blazed (row_cols r))) (cards_table db) =
        filter (\<lambda>r. blaze_keeps flt (?c r)) (cards_table db)"
      by (rule filter_cong) (simp_all add: keep)
    then show ?thesis by (simp add: blaze_filter all filter_mset_image_mset)
  qed
  moreover have "sorted_wrt (\<lambda>a b. card_priority b \<le> card_priority a) (map ?c (?rows flt))"
  proof -
    have "sorted (map (\<lambda>r. - col_priority (row_cols r)) (?rows flt))" by (rule sorted_sort_key)
    then have "sorted_wrt (\<lambda>r q. col_priority (row_cols q) \<le> col_priority (row_cols r)) (?rows flt)"
      by (simp add: sorted_wrt_map)
    moreover have "card_priority (?c q) \<le> card_priority (?c r)"
      if "r \<in> set (?rows flt)" "q \<in> set (?rows flt)" "col_priority (row_cols q) \<le> col_priority (row_cols r)"
      for r q
    proof -
      have "storable_card E (row_cols r)" "storable_card E (row_cols q)"
        using that(1,2) by (simp_all add: rows)
      then show ?thesis using that(3) by (simp add: card_of_fields(2) [OF assms(1)])
    qed
    ultimately show ?thesis
      unfolding sorted_wrt_map by (rule sorted_wrt_mono_rel [rotated])
  qed
  moreover have "distinct (map card_priority (apply_blaze_filter flt local_cards))"
  proof -
    have "mset (map card_priority local_cards) = mset (map (\<lambda>r. card_priority (?c r)) (cards_table db))"
      using arg_cong [OF all, of "image_mset card_priority"] by (simp add: image_mset.compositionality comp_def)
    then have "distinct (map card_priority local_cards)"
      using live_priorities_distinct [OF assms(1,2)] by (metis mset_eq_imp_distinct_iff)
    then show ?thesis by (simp add: blaze_filter distinct_map_filter)
  qed
  ultimately have "sort_by_priority to_lower shuffle (apply_blaze_filter flt local_cards) = map ?c (?rows flt)"
    by (intro sort_by_priority_unique assms(5))
  then show ?thesis by (simp add: list limit_rows_def)
qed


theorem server_order_is_client_order_witness:
  "\<exists>cs. storage_list_cards demo_ext demo_db FilterAll None = Ok cs \<and>
    storage_list_cards demo_ext demo_db FilterBlazed None =
      Ok (sort_by_priority id rev (apply_blaze_filter FilterBlazed (rev cs)))"
proof -
  note inv = reachable_inv [OF demo_reachable]
  obtain cs where cs: "storage_list_cards demo_ext demo_db FilterAll None = Ok cs"
    using list_cards_result [OF demo_postcard inv] by blast
  then show ?thesis
    using server_order_is_client_order [OF demo_postcard inv cs, of "rev cs" rev FilterBlazed id] by simp
qed


section \<open>Due dates\<close>

text \<open>A weekday preset resolves to midnight of the one day among the seven after today that is
  that weekday: never today itself, never more than a week ahead.\<close>

theorem weekday_preset_is_next:
  "1 \<le> k \<and> k \<le> 7 \<and> next_weekday now w = midnight_utc (date_naive now + k) \<longleftrightarrow>
   1 \<le> k \<and> k \<le> 7 \<and> weekday_number (date_naive now + k) = num_days_from_monday w"
proof -
  obtain j where "1 \<le> j" "j \<le> 7" "next_weekday now w = midnight_utc (date_naive now + j)"
    "weekday_number (date_naive now + j) = num_days_from_monday w"
    using next_weekday_days [of now w] by auto
  then show ?thesis using same_weekday_same_offset [of j k "date_naive now"] by auto
qed

text \<open>The badge and the filters agree on what a due date is: overdue exactly when the overdue
  filter keeps it, due today exactly when the today filter does, upcoming exactly when it is in the
  today-and-upcoming window and not today; and the quick picks for today and tomorrow give dates
  that the filters of that name keep.\<close>

theorem due_status_agrees_with_filters:
  "((\<exists>n. due_date_status now d = Overdue n) \<longleftrightarrow> due_keep DueOverdue (date_naive now) False (date_naive d)) \<and>
   (due_date_status now d = DueIsToday \<longleftrightarrow> due_keep DueToday (date_naive now) False (date_naive d)) \<and>
   ((\<exists>n. due_date_status now d = Upcoming n) \<longleftrightarrow>
      due_keep DueTodayAndUpcoming (date_naive now) False (date_naive d) \<and>
      \<not> due_keep DueToday (date_naive now) False (date_naive d)) \<and>
   due_keep DueToday (date_naive now) inc (date_naive (preset_resolve now PresetToday)) \<and>
   due_keep DueUpcomingTomorrow (date_naive now) inc (date_naive (preset_resolve now PresetTomorrow)) \<and>
   due_keep DueUpcomingWeek (date_naive now) inc (date_naive (preset_resolve now PresetInTwoDays))"
  by (auto simp: due_date_status_def Let_def today_midnight_def tomorrow_midnight_def
      in_two_days_midnight_def)

end
