(* ===== verification/Client_Api.thy ===== *)
theory Client_Api
  imports Handler
begin

text \<open>
  The client trait (clients/lib/src/client.rs) and its error type (clients/lib/src/error.rs). The
  trait's one required method, \<open>request\<close>, is the argument \<open>req\<close>: it takes a request and the state
  \<open>'w\<close> of whatever is at the other end and returns the answer or a client error with the new
  state. \<open>online_request\<close> is the transport over the modelled server, \<open>offline_request\<close> the one with
  no connection. The locale \<open>transport\<close> is what the convenience methods need of it.
\<close>

section \<open>Errors\<close>

datatype client_error =
    Protocol protocol_error
  | UnexpectedResponse
  | VersionMismatch version
  | ConnectionLost

definition client_error_from_protocol :: "protocol_error \<Rightarrow> client_error" where
  "client_error_from_protocol e = Protocol e"

fun client_error_from_extract :: "response_extract_error \<Rightarrow> client_error" where
  "client_error_from_extract (response_extract_error.Protocol p) = Protocol p"
| "client_error_from_extract UnexpectedVariant = UnexpectedResponse"

type_synonym ('w, 'a) call = "'w \<Rightarrow> (client_error, 'a) outcome \<times> 'w"
type_synonym 'w transport = "request \<Rightarrow> ('w, response) call"

text \<open>\<open>self.request(&req).await?\<close>, then \<open>Ok(resp.into_x()?)\<close>.\<close>

definition requested ::
  "'w transport \<Rightarrow> request \<Rightarrow> (response \<Rightarrow> (response_extract_error, 'a) outcome) \<Rightarrow> ('w, 'a) call" where
  "requested req r into w =
     (case req r w of
        (answer, w') \<Rightarrow>
          (bind_outcome answer (\<lambda>resp. map_err client_error_from_extract (into resp)), w'))"

section \<open>The convenience methods\<close>

definition list_cards :: "'w transport \<Rightarrow> card_filter \<Rightarrow> ('w, card list) call" where
  "list_cards req flt = requested req (ListCards flt None) into_cards"

definition push_card :: "'w transport \<Rightarrow> card \<Rightarrow> ('w, root_state) call" where
  "push_card req c = requested req (PushCardVersions [c]) into_root"

definition push_card_versions :: "'w transport \<Rightarrow> card list \<Rightarrow> ('w, root_state) call" where
  "push_card_versions req versions = requested req (PushCardVersions versions) into_root"

definition delete_card :: "'w transport \<Rightarrow> uuid \<Rightarrow> ('w, unit) call" where
  "delete_card req uid = requested req (DeleteCard uid) (\<lambda>r. map_ok (\<lambda>_. ()) (into_deleted r))"

definition get_card_history :: "'w transport \<Rightarrow> uuid \<Rightarrow> ('w, card list) call" where
  "get_card_history req uid = requested req (GetCardHistory uid None) into_card_history"

definition get_card :: "'w transport \<Rightarrow> uuid \<Rightarrow> ('w, card) call" where
  "get_card req uid = requested req (GetCard uid) into_card"

definition get_root :: "'w transport \<Rightarrow> ('w, root_state) call" where
  "get_root req = requested req GetRoot into_root"

definition get_changes_since :: "'w transport \<Rightarrow> NonNegativeI64 \<Rightarrow> hash \<Rightarrow> ('w, change_set) call" where
  "get_changes_since req sequence claimed = requested req (GetChangesSince sequence claimed) into_changes"

definition get_tag_history :: "'w transport \<Rightarrow> uuid \<Rightarrow> ('w, tag list) call" where
  "get_tag_history req uid = requested req (GetTagHistory uid None) into_tag_history"

definition list_tags :: "'w transport \<Rightarrow> ('w, tag list) call" where
  "list_tags req = requested req ListTags into_tags"

definition push_tag :: "'w transport \<Rightarrow> tag \<Rightarrow> ('w, root_state) call" where
  "push_tag req t = requested req (PushTagVersions [t]) into_root"

definition delete_tag :: "'w transport \<Rightarrow> uuid \<Rightarrow> ('w, unit) call" where
  "delete_tag req uid = requested req (DeleteTag uid) (\<lambda>r. map_ok (\<lambda>_. ()) (into_deleted r))"

definition get_sequence_history :: "'w transport \<Rightarrow> ('w, sequence_history_entry list) call" where
  "get_sequence_history req = requested req (GetSequenceHistory None None) into_sequence_history"

definition push_batch :: "'w transport \<Rightarrow> push_item list \<Rightarrow> ('w, root_state) call" where
  "push_batch req items = requested req (PushBatch items) into_root"

definition get_all_card_histories ::
  "'w transport \<Rightarrow> nat option \<Rightarrow> uuid list option \<Rightarrow> ('w, uuid \<rightharpoonup> card list) call" where
  "get_all_card_histories req limit_per_card wanted =
     requested req (GetAllCardHistories limit_per_card wanted) into_all_card_histories"

definition get_all_tag_histories ::
  "'w transport \<Rightarrow> nat option \<Rightarrow> uuid list option \<Rightarrow> ('w, uuid \<rightharpoonup> tag list) call" where
  "get_all_tag_histories req limit_per_tag wanted =
     requested req (GetAllTagHistories limit_per_tag wanted) into_all_tag_histories"

lemmas api_defs = list_cards_def push_card_def push_card_versions_def delete_card_def
  get_card_history_def get_card_def get_root_def get_changes_since_def get_tag_history_def
  list_tags_def push_tag_def delete_tag_def get_sequence_history_def push_batch_def
  get_all_card_histories_def get_all_tag_histories_def

section \<open>Transports\<close>

text \<open>
  A request whose task dies on the server leaves a stream without an answer, which the client sees
  as a lost connection.
\<close>

definition online_request :: "ext \<Rightarrow> int \<Rightarrow> db transport" where
  "online_request E now r db =
     (case handle_request E now db r of
        (Ok resp, db') \<Rightarrow> (Ok resp, db')
      | (_, db') \<Rightarrow> (Err ConnectionLost, db'))"

definition offline_request :: "'w transport" where
  "offline_request r w = (Err ConnectionLost, w)"

lemma extract_no_panic [simp]: "extract_variant select r \<noteq> Panic"
  by (auto simp: extract_variant_def split: option.splits response.splits)

lemma into_root_simps [simp]:
  "into_root r = Ok root \<longleftrightarrow> r = RespRoot root"
  "into_root r = Err (response_extract_error.Protocol e) \<longleftrightarrow> r = RespError e"
  by (cases r; simp add: into_root_def extract_variant_def)+

lemma into_changes_simps [simp]:
  "into_changes r = Ok changes \<longleftrightarrow> r = RespChanges changes"
  "into_changes r = Err (response_extract_error.Protocol e) \<longleftrightarrow> r = RespError e"
  by (cases r; simp add: into_changes_def extract_variant_def)+

lemma into_card_simps [simp]:
  "into_card r = Ok c \<longleftrightarrow> r = RespCard c"
  "into_card r = Err (response_extract_error.Protocol e) \<longleftrightarrow> r = RespError e"
  by (cases r; simp add: into_card_def extract_variant_def)+

lemma from_extract_Protocol [simp]:
  "client_error_from_extract x = Protocol e \<longleftrightarrow> x = response_extract_error.Protocol e"
  "Protocol e = client_error_from_extract x \<longleftrightarrow> x = response_extract_error.Protocol e"
  by (cases x; auto)+

lemma map_err_Err: "map_err g m = Err e \<longleftrightarrow> (\<exists>e'. m = Err e' \<and> e = g e')"
  by (cases m) auto

lemma map_err_Panic [simp]: "map_err g m = Panic \<longleftrightarrow> m = Panic"
  by (cases m) simp_all

locale transport =
  fixes req :: "'w transport"
  assumes answers: "fst (req r w) \<noteq> Panic"
begin

lemma requested_answers:
  "(\<And>r. into r \<noteq> Panic) \<Longrightarrow> fst (requested req r into w) \<noteq> Panic"
  using answers [of r w]
  by (auto simp: requested_def bind_outcome_Panic split: prod.splits)

lemma push_card_answers: "fst (push_card req c w) \<noteq> Panic"
  unfolding push_card_def by (rule requested_answers) (simp add: into_root_def)

lemma push_batch_answers: "fst (push_batch req items w) \<noteq> Panic"
  unfolding push_batch_def by (rule requested_answers) (simp add: into_root_def)

lemma get_card_answers: "fst (get_card req uid w) \<noteq> Panic"
  unfolding get_card_def by (rule requested_answers) (simp add: into_card_def)

lemma get_changes_since_answers: "fst (get_changes_since req s h w) \<noteq> Panic"
  unfolding get_changes_since_def by (rule requested_answers) (simp add: into_changes_def)

text \<open>A successful push was answered with the new root.\<close>

lemma push_card_Ok: "push_card req c w = (Ok root, w') \<longleftrightarrow> req (PushCardVersions [c]) w = (Ok (RespRoot root), w')"
  by (cases "req (PushCardVersions [c]) w")
    (auto simp: push_card_def requested_def outcome_simps)

lemma push_card_Err:
  "push_card req c w = (Err (Protocol e), w') \<longleftrightarrow>
     req (PushCardVersions [c]) w = (Ok (RespError e), w') \<or>
     req (PushCardVersions [c]) w = (Err (Protocol e), w')"
  by (cases "req (PushCardVersions [c]) w")
    (auto simp: push_card_def requested_def outcome_simps map_err_Err)

end

interpretation online: transport "online_request E now"
  by unfold_locales (auto simp: online_request_def split: prod.splits outcome.splits)

interpretation offline: transport offline_request
  by unfold_locales (simp add: offline_request_def)

end
