(* ===== verification/Client_Storage.thy ===== *)
theory Client_Storage
  imports Client_Api Wire
begin

text \<open>
  The browser's local storage (clients/wasm/src/storage.rs): four files of the origin-private file
  system, the in-memory history cache, and the functions that load, save and clear them. A file
  system is a map from names to bytes that may refuse writes (no quota, storage evicted). The
  postcard codec of each type is an argument: \<open>encode\<close> gives the bytes or fails, \<open>decode\<close> reads them.
\<close>

section \<open>The file system\<close>

record opfs =
  files :: "string \<rightharpoonup> bytes"
  writable :: bool

definition opfs_read :: "opfs \<Rightarrow> string \<Rightarrow> bytes option" where
  "opfs_read fs filename = files fs filename"

definition opfs_write :: "string \<Rightarrow> bytes \<Rightarrow> opfs \<Rightarrow> opfs" where
  "opfs_write filename bytes fs =
     (if writable fs then fs\<lparr>files := (files fs)(filename \<mapsto> bytes)\<rparr> else fs)"

definition opfs_delete :: "string \<Rightarrow> opfs \<Rightarrow> opfs" where
  "opfs_delete filename fs =
     (if writable fs then fs\<lparr>files := (files fs)(filename := None)\<rparr> else fs)"

definition DB_FILENAME :: string where "DB_FILENAME = ''blazelist.db''"
definition HISTORY_FILENAME :: string where "HISTORY_FILENAME = ''blazelist-history.db''"
definition QUEUE_FILENAME :: string where "QUEUE_FILENAME = ''blazelist-queue.db''"
definition LINK_CACHE_FILENAME :: string where "LINK_CACHE_FILENAME = ''blazelist-link-cache.db''"

definition opfs_read_bytes :: "opfs \<Rightarrow> string \<Rightarrow> bytes option" where
  "opfs_read_bytes fs filename =
     (case opfs_read fs filename of
        None \<Rightarrow> None
      | Some bs \<Rightarrow> if bs = [] then None else Some bs)"

section \<open>The local database\<close>

record local_state =
  local_cards :: "card list"
  local_tags :: "tag list"
  local_deleted :: "deleted_entity list"
  local_root :: root_state

definition local_default :: local_state where
  "local_default = \<lparr>local_cards = [], local_tags = [], local_deleted = [], local_root = root_empty\<rparr>"

definition load_local :: "(bytes \<Rightarrow> local_state option) \<Rightarrow> opfs \<Rightarrow> local_state" where
  "load_local decode fs =
     (case opfs_read fs DB_FILENAME of
        None \<Rightarrow> local_default
      | Some bs \<Rightarrow>
          if bs = [] then local_default
          else case decode bs of Some st \<Rightarrow> st | None \<Rightarrow> local_default)"

definition save_local :: "(local_state \<Rightarrow> bytes option) \<Rightarrow> local_state \<Rightarrow> opfs \<Rightarrow> opfs" where
  "save_local encode st fs =
     (case encode st of Some bs \<Rightarrow> opfs_write DB_FILENAME bs fs | None \<Rightarrow> fs)"

definition clear_local :: "opfs \<Rightarrow> opfs" where
  "clear_local fs = opfs_delete DB_FILENAME fs"

section \<open>The offline queue\<close>

definition load_offline_queue :: "(bytes \<Rightarrow> card list option) \<Rightarrow> opfs \<Rightarrow> card list" where
  "load_offline_queue decode fs =
     (case opfs_read_bytes fs QUEUE_FILENAME of
        None \<Rightarrow> []
      | Some bs \<Rightarrow> (case decode bs of Some q \<Rightarrow> q | None \<Rightarrow> []))"

definition save_offline_queue :: "(card list \<Rightarrow> bytes option) \<Rightarrow> card list \<Rightarrow> opfs \<Rightarrow> opfs" where
  "save_offline_queue encode queue fs =
     (if queue = [] then opfs_delete QUEUE_FILENAME fs
      else case encode queue of Some bs \<Rightarrow> opfs_write QUEUE_FILENAME bs fs | None \<Rightarrow> fs)"

section \<open>The history cache\<close>

record history_cache =
  card_histories :: "uuid \<rightharpoonup> card list"
  tag_histories :: "uuid \<rightharpoonup> tag list"
  sequence_history :: "sequence_history_entry list"

definition history_default :: history_cache where
  "history_default =
     \<lparr>card_histories = Map.empty, tag_histories = Map.empty, sequence_history = []\<rparr>"

definition load_history_cache ::
  "(bytes \<Rightarrow> history_cache option) \<Rightarrow> opfs \<Rightarrow> history_cache \<Rightarrow> history_cache" where
  "load_history_cache decode fs history =
     (case opfs_read fs HISTORY_FILENAME of
        None \<Rightarrow> history
      | Some bs \<Rightarrow>
          if bs = [] then history
          else case decode bs of Some cache \<Rightarrow> cache | None \<Rightarrow> history)"

definition save_history_cache ::
  "(history_cache \<Rightarrow> bytes option) \<Rightarrow> history_cache \<Rightarrow> opfs \<Rightarrow> opfs" where
  "save_history_cache encode history fs =
     (case encode history of Some bs \<Rightarrow> opfs_write HISTORY_FILENAME bs fs | None \<Rightarrow> fs)"

definition clear_history_cache :: "history_cache \<times> opfs \<Rightarrow> history_cache \<times> opfs" where
  "clear_history_cache st = (history_default, opfs_delete HISTORY_FILENAME (snd st))"

definition get_cached_card_history :: "history_cache \<Rightarrow> uuid \<Rightarrow> card list" where
  "get_cached_card_history history uid =
     (case card_histories history uid of Some h \<Rightarrow> h | None \<Rightarrow> [])"

definition update_cached_card_history :: "uuid \<Rightarrow> card list \<Rightarrow> history_cache \<Rightarrow> history_cache" where
  "update_cached_card_history uid h history =
     history\<lparr>card_histories := (card_histories history)(uid \<mapsto> h)\<rparr>"

definition get_cached_tag_history :: "history_cache \<Rightarrow> uuid \<Rightarrow> tag list" where
  "get_cached_tag_history history uid =
     (case tag_histories history uid of Some h \<Rightarrow> h | None \<Rightarrow> [])"

definition update_cached_tag_history :: "uuid \<Rightarrow> tag list \<Rightarrow> history_cache \<Rightarrow> history_cache" where
  "update_cached_tag_history uid h history =
     history\<lparr>tag_histories := (tag_histories history)(uid \<mapsto> h)\<rparr>"

definition get_cached_sequence_history :: "history_cache \<Rightarrow> sequence_history_entry list" where
  "get_cached_sequence_history history = sequence_history history"

definition update_cached_sequence_history ::
  "sequence_history_entry list \<Rightarrow> history_cache \<Rightarrow> history_cache" where
  "update_cached_sequence_history h history = history\<lparr>sequence_history := h\<rparr>"

section \<open>The link cache\<close>

text \<open>The map from a card to the hash of its content and the cards it reaches, as its entries.\<close>

type_synonym link_graph_cache = "(uuid \<times> hash \<times> uuid list) list"

definition load_link_cache :: "(bytes \<Rightarrow> link_graph_cache option) \<Rightarrow> opfs \<Rightarrow> link_graph_cache" where
  "load_link_cache decode fs =
     (case opfs_read_bytes fs LINK_CACHE_FILENAME of
        None \<Rightarrow> []
      | Some bs \<Rightarrow> (case decode bs of Some c \<Rightarrow> c | None \<Rightarrow> []))"

definition save_link_cache ::
  "(link_graph_cache \<Rightarrow> bytes option) \<Rightarrow> link_graph_cache \<Rightarrow> opfs \<Rightarrow> opfs" where
  "save_link_cache encode cache fs =
     (if cache = [] then opfs_delete LINK_CACHE_FILENAME fs
      else case encode cache of Some bs \<Rightarrow> opfs_write LINK_CACHE_FILENAME bs fs | None \<Rightarrow> fs)"

definition clear_link_cache :: "opfs \<Rightarrow> opfs" where
  "clear_link_cache fs = opfs_delete LINK_CACHE_FILENAME fs"

definition clear_all_caches :: "history_cache \<times> opfs \<Rightarrow> history_cache \<times> opfs" where
  "clear_all_caches st =
     (case clear_history_cache (fst st, clear_local (snd st)) of
        (history, fs) \<Rightarrow> (history, clear_link_cache fs))"

section \<open>What is written is read back\<close>

lemma filenames_distinct [simp]:
  "DB_FILENAME \<noteq> QUEUE_FILENAME" "DB_FILENAME \<noteq> HISTORY_FILENAME" "DB_FILENAME \<noteq> LINK_CACHE_FILENAME"
  "QUEUE_FILENAME \<noteq> HISTORY_FILENAME" "QUEUE_FILENAME \<noteq> LINK_CACHE_FILENAME"
  "QUEUE_FILENAME \<noteq> DB_FILENAME"
  by (simp_all add: DB_FILENAME_def QUEUE_FILENAME_def HISTORY_FILENAME_def LINK_CACHE_FILENAME_def)

lemma load_save_local:
  assumes "codec_ok encode decode" "writable fs" "encode st = Some bs" "bs \<noteq> []"
  shows "load_local decode (save_local encode st fs) = st"
  using assms
  by (auto simp: load_local_def save_local_def opfs_read_def opfs_write_def codec_ok_def
      split: option.splits)

lemma queue_survives_save_local [simp]:
  "load_offline_queue decode (save_local encode st fs) = load_offline_queue decode fs"
  by (auto simp: load_offline_queue_def opfs_read_bytes_def opfs_read_def save_local_def
      opfs_write_def split: option.splits)

lemma queue_survives_clear_all_caches:
  "load_offline_queue decode (snd (clear_all_caches (history, fs))) = load_offline_queue decode fs"
  by (simp add: load_offline_queue_def opfs_read_bytes_def opfs_read_def clear_all_caches_def
      clear_local_def clear_history_cache_def clear_link_cache_def opfs_delete_def)

end
