(* ===== verification/Client_Offline.thy ===== *)
theory Client_Offline
  imports Client_Storage Client_Sync Client_Moves Client_Filter
begin

text \<open>
  The web client's synchronisation (clients/wasm/src/state/sync.rs): the first fetch and the
  incremental one, pushes with a fallback to the offline queue, and the flush of that queue with
  its rebases, re-creations and priority collisions. \<open>client_env\<close> holds what the code takes from
  outside: the transport, the hash, the clock, the random draw and the library maps; \<open>app_state\<close>
  holds the signals and thread-locals these functions touch, together with the disk. A stored error
  is the error itself, of which the code keeps the text.
\<close>

section \<open>State\<close>

record ('w, 'm, 'n) client_env =
  ce_request :: "'w transport"
  ce_hash :: "bytes \<Rightarrow> hash"
  ce_now :: datetime
  ce_elapsed_ms :: nat
  ce_random_range :: "int \<Rightarrow> int"
  ce_shuffle :: "card list \<Rightarrow> card list"
  ce_to_lower :: "string \<Rightarrow> string"
  ce_card_map :: "(card, 'm) index_map"
  ce_tag_map :: "(tag, 'n) index_map"
  ce_encode_local :: "local_state \<Rightarrow> bytes option"
  ce_decode_local :: "bytes \<Rightarrow> local_state option"
  ce_encode_queue :: "card list \<Rightarrow> bytes option"
  ce_wasm_version :: string
  ce_protocol_version :: string

datatype connection_status = Disconnected | Connecting | Connected | Syncing

record app_state =
  app_connected :: bool
  app_status :: connection_status
  app_cards :: "card list"
  app_tags :: "tag list"
  app_root :: "root_state option"
  app_deleted :: "deleted_entity list"
  app_deleted_count :: nat
  app_last_synced :: "datetime option"
  app_last_sync_ops :: nat
  app_last_sync_duration_ms :: "nat option"
  app_last_sync_error :: "client_error option"
  app_auto_sync_interval_ms :: nat
  app_auto_sync_countdown_ms :: nat
  app_offline_queue :: "card list"
  app_error_toast :: "string option"
  app_history :: history_cache
  app_disk :: opfs
  app_cache_schema :: "string option"
  app_prefetches :: "(uuid list option \<times> uuid list option) list"

type_synonym 'w session = "app_state \<times> 'w"

section \<open>Local persistence\<close>

definition load_local_state :: "('w, 'm, 'n) client_env \<Rightarrow> app_state \<Rightarrow> bool \<times> app_state" where
  "load_local_state env app =
     (let loc = load_local (ce_decode_local env) (app_disk app);
          has_data = (root_sequence (local_root loc) \<noteq> nn_MIN)
      in (has_data,
          if has_data then
            app\<lparr>app_cards := local_cards loc, app_tags := local_tags loc,
              app_deleted_count := length (local_deleted loc), app_root := Some (local_root loc),
              app_deleted := local_deleted loc\<rparr>
          else app))"

definition build_schema_stamp :: "('w, 'm, 'n) client_env \<Rightarrow> string" where
  "build_schema_stamp env = ce_wasm_version env @ ''+'' @ ce_protocol_version env"

definition cache_schema_matches :: "('w, 'm, 'n) client_env \<Rightarrow> app_state \<Rightarrow> bool" where
  "cache_schema_matches env app \<longleftrightarrow> app_cache_schema app = Some (build_schema_stamp env)"

definition save_local_state :: "('w, 'm, 'n) client_env \<Rightarrow> app_state \<Rightarrow> app_state" where
  "save_local_state env app =
     (case app_root app of
        None \<Rightarrow> app
      | Some root \<Rightarrow>
          let loc = \<lparr>local_cards = app_cards app, local_tags = app_tags app,
                local_deleted = app_deleted app, local_root = root\<rparr>
          in app\<lparr>app_disk := save_local (ce_encode_local env) loc (app_disk app),
               app_cache_schema := Some (build_schema_stamp env)\<rparr>)"

definition save_queue :: "('w, 'm, 'n) client_env \<Rightarrow> app_state \<Rightarrow> app_state" where
  "save_queue env app =
     app\<lparr>app_disk := save_offline_queue (ce_encode_queue env) (app_offline_queue app) (app_disk app)\<rparr>"

text \<open>\<open>state.offline_queue.update(|q| { q.retain(|c| c.id() != card_id); q.push(card) })\<close>.\<close>

definition enqueue_card :: "uuid \<Rightarrow> card \<Rightarrow> app_state \<Rightarrow> app_state" where
  "enqueue_card uid c app =
     app\<lparr>app_offline_queue := filter (\<lambda>q. card_id q \<noteq> uid) (app_offline_queue app) @ [c]\<rparr>"

definition clear_queued_card :: "('w, 'm, 'n) client_env \<Rightarrow> uuid \<Rightarrow> app_state \<Rightarrow> app_state" where
  "clear_queued_card env uid app =
     (if list_ex (\<lambda>c. card_id c = uid) (app_offline_queue app) then
        save_queue env
          (app\<lparr>app_offline_queue := filter (\<lambda>c. card_id c \<noteq> uid) (app_offline_queue app)\<rparr>)
      else app)"

definition app_upsert :: "card \<Rightarrow> app_state \<Rightarrow> app_state" where
  "app_upsert c app = app\<lparr>app_cards := upsert_card c (app_cards app)\<rparr>"

section \<open>Rebuilding a card\<close>

definition rebuild_card ::
  "('w, 'm, 'n) client_env \<Rightarrow> card \<Rightarrow> int \<Rightarrow> card option \<Rightarrow> (unit, card) outcome" where
  "rebuild_card env c priority ancestor =
     (case ancestor of
        Some a \<Rightarrow>
          card_next (ce_hash env) a (card_content c) priority (card_tags c) (card_blazed c)
            (ce_now env) (card_due_date c)
      | None \<Rightarrow>
          Ok (card_first (ce_hash env) (card_id c) (card_content c) priority (card_tags c)
            (card_blazed c) (card_created_at c) (card_due_date c)))"

text \<open>The answers to a push that the code tells apart, in the order of its match arms.\<close>

datatype push_answer = Accepted | Lost | Duplicate | Stale card | Unverified | Gone | Refused

fun push_answer_of :: "client_error \<Rightarrow> push_answer" where
  "push_answer_of ConnectionLost = Lost"
| "push_answer_of (Protocol (PushFailed e)) =
     (case e of
        DuplicatePriority _ _ \<Rightarrow> Duplicate
      | CardAncestorMismatch server_card \<Rightarrow> Stale server_card
      | HashVerificationFailed \<Rightarrow> Unverified
      | push_error.AlreadyDeleted \<Rightarrow> Gone
      | _ \<Rightarrow> Refused)"
| "push_answer_of _ = Refused"

definition try_push ::
  "('w, 'm, 'n) client_env \<Rightarrow> card \<Rightarrow> 'w \<Rightarrow> (unit, push_answer \<times> 'w) outcome" where
  "try_push env c w =
     (case push_card (ce_request env) c w of
        (Ok _, w) \<Rightarrow> Ok (Accepted, w)
      | (Err e, w) \<Rightarrow> Ok (push_answer_of e, w)
      | (Panic, _) \<Rightarrow> Panic)"

definition try_push_batch ::
  "('w, 'm, 'n) client_env \<Rightarrow> push_item list \<Rightarrow> 'w \<Rightarrow> (unit, push_answer \<times> 'w) outcome" where
  "try_push_batch env items w =
     (case push_batch (ce_request env) items w of
        (Ok _, w) \<Rightarrow> Ok (Accepted, w)
      | (Err e, w) \<Rightarrow> Ok (push_answer_of e, w)
      | (Panic, _) \<Rightarrow> Panic)"

section \<open>Pushing one card\<close>

definition queue_and_save :: "('w, 'm, 'n) client_env \<Rightarrow> uuid \<Rightarrow> card \<Rightarrow> app_state \<Rightarrow> app_state" where
  "queue_and_save env uid c app = save_local_state env (save_queue env (enqueue_card uid c app))"

definition push_card_or_queue ::
  "('w, 'm, 'n) client_env \<Rightarrow> card \<Rightarrow> 'w session \<Rightarrow> (unit, 'w session) outcome" where
  "push_card_or_queue env c st =
     (case st of (app, w) \<Rightarrow>
       let uid = card_id c in
       if \<not> app_connected app then Ok (queue_and_save env uid c app, w)
       else
         bind_outcome (try_push env c w) (\<lambda>(answer, w).
           case answer of
             Accepted \<Rightarrow> Ok (clear_queued_card env uid app, w)
           | Stale server_card \<Rightarrow>
               bind_outcome (rebuild_card env c (card_priority c) (Some server_card)) (\<lambda>rebased.
               bind_outcome (try_push env rebased w) (\<lambda>(answer, w).
                 case answer of
                   Accepted \<Rightarrow> Ok (clear_queued_card env uid (app_upsert rebased app), w)
                 | _ \<Rightarrow> Ok (queue_and_save env uid c app, w)))
           | Unverified \<Rightarrow>
               bind_outcome (rebuild_card env c (card_priority c) None) (\<lambda>recreated.
               bind_outcome (try_push env recreated w) (\<lambda>(answer, w).
                 case answer of
                   Accepted \<Rightarrow> Ok (clear_queued_card env uid (app_upsert recreated app), w)
                 | _ \<Rightarrow> Ok (queue_and_save env uid recreated app, w)))
           | _ \<Rightarrow> Ok (queue_and_save env uid c app, w)))"

section \<open>Flushing the queue\<close>

text \<open>
  What becomes of one queued card: the version to keep for the next flush, if any, and whether the
  rest of the queue is left alone because the connection is gone or the answer is not understood.
\<close>

type_synonym 'w flushed = "(card option \<times> bool) \<times> 'w session"

definition rejected_toast :: string where
  "rejected_toast = ''An offline edit was dropped: server rejected the rebased version''"

text \<open>
  A priority collision: for a card the server knows, its current version is fetched to build on;
  then the edit is placed where its priority belongs among the other local cards, with the cards
  that a rebalance shifts pushed in the same batch.
\<close>

definition fetch_ancestor ::
  "('w, 'm, 'n) client_env \<Rightarrow> card \<Rightarrow> 'w \<Rightarrow> (unit, (card option \<times> bool + card option) \<times> 'w) outcome" where
  "fetch_ancestor env c w =
     (let is_existing = (card_ancestor_hash c \<noteq> ZERO_HASH)
      in if is_existing then
           (case get_card (ce_request env) (card_id c) w of
              (Ok sc, w) \<Rightarrow> Ok (Inr (Some sc), w)
            | (Err ConnectionLost, w) \<Rightarrow> Ok (Inl (Some c, True), w)
            | (Err _, w) \<Rightarrow> Ok (Inl (Some c, False), w)
            | (Panic, _) \<Rightarrow> Panic)
         else Ok (Inr None, w))"

definition push_resolved ::
  "('w, 'm, 'n) client_env \<Rightarrow> card \<Rightarrow> card list \<Rightarrow> card option \<Rightarrow> 'w session
   \<Rightarrow> (unit, 'w flushed) outcome" where
  "push_resolved env c cards server_ancestor st =
     (case st of (app, w) \<Rightarrow>
       case resolve_collision (ce_random_range env) cards (card_priority c) of
         Simple new_priority \<Rightarrow>
           bind_outcome (rebuild_card env c new_priority server_ancestor) (\<lambda>retry.
           bind_outcome (try_push env retry w) (\<lambda>(answer, w).
             case answer of
               Accepted \<Rightarrow> Ok ((None, False), app_upsert retry app, w)
             | Lost \<Rightarrow> Ok ((Some c, True), app, w)
             | _ \<Rightarrow> Ok ((Some c, False), app, w)))
       | Rebalanced priority shifted \<Rightarrow>
           bind_outcome (rebuild_card env c priority server_ancestor) (\<lambda>retry.
           bind_outcome (build_shifted_versions (ce_hash env) (ce_now env) shifted cards)
             (\<lambda>shifted_cards.
           bind_outcome
             (try_push_batch env
                (map (\<lambda>sc. ItemCards [sc]) shifted_cards @ [ItemCards [retry]]) w)
             (\<lambda>(answer, w).
             case answer of
               Accepted \<Rightarrow>
                 Ok ((None, False), app_upsert retry (fold app_upsert shifted_cards app), w)
             | Lost \<Rightarrow> Ok ((Some c, True), app, w)
             | _ \<Rightarrow> Ok ((Some c, False), app, w)))))"

definition flush_collision ::
  "('w, 'm, 'n) client_env \<Rightarrow> card \<Rightarrow> 'w session \<Rightarrow> (unit, 'w flushed) outcome" where
  "flush_collision env c st =
     (case st of (app, w) \<Rightarrow>
       let cards = sort_by_priority (ce_to_lower env) (ce_shuffle env)
             (filter (\<lambda>d. card_id d \<noteq> card_id c) (app_cards app))
       in bind_outcome (fetch_ancestor env c w) (\<lambda>(fetched, w).
            case fetched of
              Inl kept \<Rightarrow> Ok (kept, app, w)
            | Inr server_ancestor \<Rightarrow> push_resolved env c cards server_ancestor (app, w)))"

definition flush_one ::
  "('w, 'm, 'n) client_env \<Rightarrow> card \<Rightarrow> 'w session \<Rightarrow> (unit, 'w flushed) outcome" where
  "flush_one env c st =
     (case st of (app, w) \<Rightarrow>
       bind_outcome (try_push env c w) (\<lambda>(answer, w).
         case answer of
           Accepted \<Rightarrow> Ok ((None, False), app_upsert c app, w)
         | Lost \<Rightarrow> Ok ((Some c, True), app, w)
         | Duplicate \<Rightarrow> flush_collision env c (app, w)
         | Stale server_card \<Rightarrow>
             bind_outcome (rebuild_card env c (card_priority c) (Some server_card)) (\<lambda>rebased.
             bind_outcome (try_push env rebased w) (\<lambda>(answer, w).
               case answer of
                 Accepted \<Rightarrow> Ok ((None, False), app_upsert rebased app, w)
               | Lost \<Rightarrow> Ok ((Some c, True), app, w)
               | _ \<Rightarrow> Ok ((None, False), app\<lparr>app_error_toast := Some rejected_toast\<rparr>, w)))
         | Unverified \<Rightarrow>
             bind_outcome (rebuild_card env c (card_priority c) None) (\<lambda>recreated.
             bind_outcome (try_push env recreated w) (\<lambda>(answer, w).
               case answer of
                 Accepted \<Rightarrow> Ok ((None, False), app_upsert recreated app, w)
               | Lost \<Rightarrow> Ok ((Some recreated, True), app, w)
               | _ \<Rightarrow> Ok ((Some recreated, False), app, w)))
         | Gone \<Rightarrow> Ok ((None, False), app, w)
         | Refused \<Rightarrow> Ok ((Some c, True), app, w)))"

fun keep_card :: "card option \<Rightarrow> card list" where
  "keep_card None = []"
| "keep_card (Some c) = [c]"

primrec flush_cards ::
  "('w, 'm, 'n) client_env \<Rightarrow> card list \<Rightarrow> bool \<Rightarrow> card list \<Rightarrow> 'w session
   \<Rightarrow> (unit, card list \<times> 'w session) outcome" where
  "flush_cards env [] hit_connection_error remaining st = Ok (remaining, st)"
| "flush_cards env (c # queue) hit_connection_error remaining st =
     (if hit_connection_error then flush_cards env queue hit_connection_error (remaining @ [c]) st
      else bind_outcome (flush_one env c st) (\<lambda>((kept, hit), st).
             flush_cards env queue hit (remaining @ keep_card kept) st))"

definition flush_offline_queue ::
  "('w, 'm, 'n) client_env \<Rightarrow> 'w session \<Rightarrow> (unit, 'w session) outcome" where
  "flush_offline_queue env st =
     (case st of (app, w) \<Rightarrow>
       let queue = app_offline_queue app in
       if queue = [] then Ok (app, w)
       else
         let queue = reconcile_offline_queue queue (app_cards app) in
         if queue = [] then Ok (save_queue env (app\<lparr>app_offline_queue := []\<rparr>), w)
         else
           let total = length queue in
           bind_outcome (flush_cards env queue False [] (app, w)) (\<lambda>(remaining, app, w).
             let flushed = (length remaining < total);
                 app = save_queue env (app\<lparr>app_offline_queue := remaining\<rparr>)
             in Ok (if flushed then save_local_state env app else app, w)))"

section \<open>Synchronisation\<close>

definition spawn_prefetch_histories ::
  "uuid list option \<Rightarrow> uuid list option \<Rightarrow> app_state \<Rightarrow> app_state" where
  "spawn_prefetch_histories wanted_cards wanted_tags app =
     app\<lparr>app_prefetches := app_prefetches app @ [(wanted_cards, wanted_tags)]\<rparr>"

text \<open>
  The background task of a prefetch, run when the executor gets to it: the histories asked for are
  merged into the cache, whatever else fails, and the cache is written once.
\<close>

definition merge_card_histories ::
  "(client_error, uuid \<rightharpoonup> card list) outcome \<Rightarrow> history_cache \<Rightarrow> (unit, history_cache) outcome" where
  "merge_card_histories answer history =
     (case answer of
        Ok histories \<Rightarrow> Ok (history\<lparr>card_histories := card_histories history ++ histories\<rparr>)
      | Err _ \<Rightarrow> Ok history
      | Panic \<Rightarrow> Panic)"

definition merge_tag_histories ::
  "(client_error, uuid \<rightharpoonup> tag list) outcome \<Rightarrow> history_cache \<Rightarrow> (unit, history_cache) outcome" where
  "merge_tag_histories answer history =
     (case answer of
        Ok histories \<Rightarrow> Ok (history\<lparr>tag_histories := tag_histories history ++ histories\<rparr>)
      | Err _ \<Rightarrow> Ok history
      | Panic \<Rightarrow> Panic)"

definition merge_sequence_history ::
  "(client_error, sequence_history_entry list) outcome \<Rightarrow> history_cache \<Rightarrow> (unit, history_cache) outcome" where
  "merge_sequence_history answer history =
     (case answer of
        Ok h \<Rightarrow> Ok (update_cached_sequence_history h history)
      | Err _ \<Rightarrow> Ok history
      | Panic \<Rightarrow> Panic)"

definition prefetch_histories ::
  "('w, 'm, 'n) client_env \<Rightarrow> (history_cache \<Rightarrow> bytes option) \<Rightarrow> uuid list option \<times> uuid list option
   \<Rightarrow> 'w session \<Rightarrow> (unit, 'w session) outcome" where
  "prefetch_histories env encode wanted st =
     (case st of (app, w) \<Rightarrow>
       if \<not> app_connected app then Ok (app, w)
       else
         (case get_all_card_histories (ce_request env) None (fst wanted) w of (cards, w) \<Rightarrow>
          bind_outcome (merge_card_histories cards (app_history app)) (\<lambda>history.
          case get_all_tag_histories (ce_request env) None (snd wanted) w of (tags, w) \<Rightarrow>
          bind_outcome (merge_tag_histories tags history) (\<lambda>history.
          case get_sequence_history (ce_request env) w of (sequence, w) \<Rightarrow>
          bind_outcome (merge_sequence_history sequence history) (\<lambda>history.
            Ok (app\<lparr>app_history := history,
                  app_disk := save_history_cache encode history (app_disk app)\<rparr>, w))))))"

definition initial_sync ::
  "('w, 'm, 'n) client_env \<Rightarrow> 'w session \<Rightarrow> (client_error, unit) outcome \<times> 'w session" where
  "initial_sync env st =
     (case st of (app, w) \<Rightarrow>
       let app = app\<lparr>app_status := Syncing\<rparr> in
       case get_changes_since (ce_request env) nn_MIN ZERO_HASH w of
         (Ok changes, w) \<Rightarrow>
           let ops = length (cs_cards changes) + length (cs_tags changes) + length (cs_deleted changes);
               app = app\<lparr>app_deleted := cs_deleted changes, app_cards := cs_cards changes,
                   app_tags := cs_tags changes, app_deleted_count := length (cs_deleted changes),
                   app_root := Some (cs_root changes), app_last_synced := Some (ce_now env),
                   app_last_sync_ops := ops,
                   app_last_sync_duration_ms := Some (ce_elapsed_ms env),
                   app_auto_sync_countdown_ms := app_auto_sync_interval_ms app,
                   app_last_sync_error := None\<rparr>
           in (Ok (), spawn_prefetch_histories None None (save_local_state env app), w)
       | (Err e, w) \<Rightarrow> (Err e, app, w)
       | (Panic, w) \<Rightarrow> (Panic, app, w))"

definition non_empty_ids :: "uuid list \<Rightarrow> uuid list option" where
  "non_empty_ids uids = (if uids = [] then None else Some uids)"

definition apply_changes ::
  "('w, 'm, 'n) client_env \<Rightarrow> change_set \<Rightarrow> app_state \<Rightarrow> app_state" where
  "apply_changes env changes app =
     (let deleted_in_changeset = length (cs_deleted changes);
          changed_card_ids = map card_id (cs_cards changes);
          changed_tag_ids = map tag_id (cs_tags changes);
          ops = length (cs_cards changes) + length (cs_tags changes) + deleted_in_changeset;
          app = app\<lparr>app_deleted := app_deleted app @ cs_deleted changes,
              app_cards := apply_card_changeset (ce_card_map env) (app_cards app) changes,
              app_tags := apply_tag_changeset (ce_tag_map env) (app_tags app) changes,
              app_root := Some (cs_root changes), app_last_synced := Some (ce_now env),
              app_last_sync_ops := ops,
              app_deleted_count := app_deleted_count app + deleted_in_changeset,
              app_last_sync_duration_ms := Some (ce_elapsed_ms env),
              app_auto_sync_countdown_ms := app_auto_sync_interval_ms app,
              app_last_sync_error := None\<rparr>;
          app = save_local_state env app
      in if changed_card_ids \<noteq> [] \<or> changed_tag_ids \<noteq> [] then
           spawn_prefetch_histories (non_empty_ids changed_card_ids) (non_empty_ids changed_tag_ids) app
         else app)"

text \<open>A panic while the queue is flushed is the outer \<open>Panic\<close>; the inner outcome is the result.\<close>

definition incremental_sync ::
  "('w, 'm, 'n) client_env \<Rightarrow> 'w session
   \<Rightarrow> (unit, (client_error, unit) outcome \<times> 'w session) outcome" where
  "incremental_sync env st =
     (case st of (app, w) \<Rightarrow>
       case app_root app of
         None \<Rightarrow> Ok (initial_sync env (app, w))
       | Some root \<Rightarrow>
           let app = app\<lparr>app_status := Syncing\<rparr> in
           (case get_changes_since (ce_request env) (root_sequence root) (root_hash root) w of
              (Ok changes, w) \<Rightarrow>
                map_ok (\<lambda>st. (Ok (), st)) (flush_offline_queue env (apply_changes env changes app, w))
            | (Err (Protocol (protocol_error.RootHashMismatch _ _)), w) \<Rightarrow>
                let cleared = clear_history_cache (app_history app, app_disk app);
                    app = app\<lparr>app_history := fst cleared, app_disk := snd cleared,
                        app_deleted := [], app_root := None\<rparr>
                in (case initial_sync env (app, w) of
                      (Ok _, st) \<Rightarrow> map_ok (\<lambda>st. (Ok (), st)) (flush_offline_queue env st)
                    | (result, st) \<Rightarrow> Ok (result, st))
            | (Err e, w) \<Rightarrow> Ok (Err e, app\<lparr>app_last_sync_error := Some e\<rparr>, w)
            | (Panic, _) \<Rightarrow> Panic))"

text \<open>
  The subscription loop over the notifications that arrive before the stream breaks: a root the
  client already has is skipped, any other triggers an incremental sync, whose failure ends it.
\<close>

fun run_subscription ::
  "('w, 'm, 'n) client_env \<Rightarrow> (client_error, root_state) outcome list \<Rightarrow> 'w session
   \<Rightarrow> (unit, client_error option \<times> 'w session) outcome" where
  "run_subscription env [] st = Ok (None, st)"
| "run_subscription env (Ok server_root # rest) st =
     (if app_root (fst st) = Some server_root then run_subscription env rest st
      else bind_outcome (incremental_sync env st) (\<lambda>(result, app, w).
             case result of
               Ok _ \<Rightarrow> run_subscription env rest (app\<lparr>app_status := Connected\<rparr>, w)
             | Err e \<Rightarrow> Ok (Some e, app, w)
             | Panic \<Rightarrow> Panic))"
| "run_subscription env (Err e # rest) st = Ok (Some e, st)"
| "run_subscription env (Panic # rest) st = Panic"

end
