(* ===== verification/Offline_Facts.thy ===== *)
theory Offline_Facts
  imports Client_Offline
begin

text \<open>
  What the offline machinery does to a user's edit. \<open>same_edit\<close> compares what the user entered;
  \<open>fate\<close> sums up the branches of the flush of one card. The locale \<open>honest_transport\<close> states what the client needs of the server's
  answers, and the modelled server is shown to provide it.
\<close>

section \<open>Honest answers\<close>

locale honest_transport = transport +
  assumes stale_id: "push_card req c w = (Err (Protocol (PushFailed (CardAncestorMismatch sc))), w') \<Longrightarrow>
      card_id sc = card_id c"
    and got_id: "get_card req uid w = (Ok sc, w') \<Longrightarrow> card_id sc = uid"
begin

lemma try_push_stale:
  assumes "try_push env c w = Ok (Stale sc, w')" "ce_request env = req"
  shows "card_id sc = card_id c"
proof -
  from assms obtain e where e: "push_card req c w = (Err e, w')" "push_answer_of e = Stale sc"
    by (auto simp: try_push_def split: prod.splits outcome.splits)
  from e(2) have "e = Protocol (PushFailed (CardAncestorMismatch sc))"
    by (cases e rule: push_answer_of.cases) (auto split: push_error.splits)
  with e(1) show ?thesis by (simp add: stale_id)
qed

end

lemma card_from_row_id: "card_from_row E cols = Ok c \<Longrightarrow> card_id c = col_card_id cols"
  by (auto simp: card_from_row_def card_from_parts_def Let_def outcome_simps
      split: if_splits outcome.splits)

lemma find_row_key: "find_row key uid rows = Some r \<Longrightarrow> key (row_cols r) = uid"
  by (auto simp: find_row_def find_Some_iff)

lemma sql_never_domain [simp]: "map_err push_op_error_from_sql m \<noteq> Err (Domain e)"
  by (cases m) (simp_all add: push_op_error_from_sql_def)

lemma check_closed_error: "check_closed g m = Err (Domain (CardAncestorMismatch sc)) \<Longrightarrow> False"
  by (induction g m rule: check_closed.induct) (auto simp: Let_def split: if_splits)

lemma check_dangling_error: "check_dangling l m = Err (Domain (CardAncestorMismatch sc)) \<Longrightarrow> False"
  by (induction l m rule: check_dangling.induct) (auto simp: Let_def split: if_splits)

lemma map_ok_Err [simp]: "map_ok f m = Err e \<longleftrightarrow> m = Err e"
  by (cases m) simp_all

lemma collect_results_Err_from: "collect_results f xs = Err e \<Longrightarrow> \<exists>x\<in>set xs. f x = Err e"
  by (induction xs) (auto simp: outcome_simps)

lemma deserialize_no_Err [simp]:
  "deserialize_tags E bs \<noteq> Err e" "deserialize_implies E bs \<noteq> Err e"
  by (auto simp: deserialize_tags_def deserialize_implies_def split: option.splits)

lemma validate_never_stale:
  "validate_batch_implications E db items \<noteq> Err (Domain (CardAncestorMismatch sc))"
  by (auto simp: validate_batch_implications_def validate_maps_def Let_def outcome_simps
      snapshot_tag_implies_def snapshot_card_tags_def
      dest!: check_closed_error check_dangling_error collect_results_Err_from
      split: option.splits prod.splits)

lemma push_stale_row:
  assumes "storage_push_card_versions E now db [c] = (Err (Domain (CardAncestorMismatch sc)), db')"
  shows "\<exists>r. find_row col_card_id (card_id c) (cards_table db) = Some r \<and> card_from_row E (row_cols r) = Ok sc"
proof -
  have "push_card_versions_inner E db [c] = Err (Domain (CardAncestorMismatch sc))"
    using assms
    by (auto simp: storage_push_card_versions_def transaction_def outcome_simps validate_never_stale
        split: outcome.splits prod.splits)
  then show ?thesis
    by (auto simp: push_card_versions_inner_def Let_def outcome_simps split: if_splits option.splits)
qed

lemma push_stale_id:
  "storage_push_card_versions E now db [c] = (Err (Domain (CardAncestorMismatch sc)), db') \<Longrightarrow>
     card_id sc = card_id c"
  using push_stale_row [of E now db c sc db'] by (auto simp: card_from_row_id find_row_key)

lemma storage_error_never_stale [simp]:
  "storage_error_to_protocol e \<noteq> PushFailed (CardAncestorMismatch sc)"
  by (cases e) simp_all

lemma respond_root_never_stale [simp]:
  "respond_root db \<noteq> Ok (RespError (PushFailed (CardAncestorMismatch sc)))"
  by (cases "storage_get_root db") (simp_all add: respond_root_def)

interpretation online_honest: honest_transport "online_request E now"
proof unfold_locales
  fix c sc :: card and w w'
  assume "push_card (online_request E now) c w = (Err (Protocol (PushFailed (CardAncestorMismatch sc))), w')"
  then have "storage_push_card_versions E now w [c] = (Err (Domain (CardAncestorMismatch sc)), w')"
    by (auto simp: online.push_card_Err online_request_def
        split: prod.splits outcome.splits elim: respond.elims push_op_error_to_protocol.elims)
  then show "card_id sc = card_id c" by (rule push_stale_id)
next
  fix uid :: uuid and sc :: card and w w'
  assume "get_card (online_request E now) uid w = (Ok sc, w')"
  then have "storage_get_card E w uid = Ok (Some sc)"
    by (auto simp: get_card_def requested_def outcome_simps online_request_def respond_entity_def
        split: prod.splits outcome.splits option.splits elim!: respond.elims)
  then show "card_id sc = uid"
    by (auto simp: storage_get_card_def outcome_simps sql_result_def split: option.splits
        dest: card_from_row_id find_row_key)
qed

interpretation offline_honest: honest_transport offline_request
  by unfold_locales (auto simp: push_card_def get_card_def requested_def offline_request_def)


section \<open>Edits\<close>

definition same_edit :: "card \<Rightarrow> card \<Rightarrow> bool" where
  "same_edit a b \<longleftrightarrow>
     card_id a = card_id b \<and> card_content a = card_content b \<and>
     mset (card_tags a) = mset (card_tags b) \<and> card_blazed a = card_blazed b \<and>
     card_due_date a = card_due_date b"

lemma same_edit_refl [simp]: "same_edit c c"
  by (simp add: same_edit_def)

lemma same_edit_trans: "same_edit a b \<Longrightarrow> same_edit b c \<Longrightarrow> same_edit a c"
  by (simp add: same_edit_def)

lemma rebuild_same_edit:
  assumes "rebuild_card env c p ancestor = Ok v" "\<forall>a. ancestor = Some a \<longrightarrow> card_id a = card_id c"
  shows "same_edit v c" "card_priority v = p"
  using assms by (auto simp: rebuild_card_def same_edit_def dest: card_next_Ok split: option.splits)

lemma build_shifted_same_edit:
  assumes "(build_shifted_versions H now shifted cards :: ('e, card list) outcome) = Ok vs" "v \<in> set vs"
  shows "\<exists>d\<in>set cards. same_edit v d"
  using assms
proof (induction shifted arbitrary: vs)
  case (Cons e shifted)
  show ?case
  proof (cases "find (\<lambda>c. card_id c = fst e) cards")
    case None
    then show ?thesis using Cons by simp
  next
    case (Some d)
    then have d: "d \<in> set cards" by (auto simp: find_Some_iff)
    from Some Cons.prems(1) obtain v' ws where
      nxt: "(card_next H d (card_content d) (snd e) (card_tags d) (card_blazed d) now (card_due_date d)
        :: ('e, card) outcome) = Ok v'"
      and ws: "(build_shifted_versions H now shifted cards :: ('e, card list) outcome) = Ok ws" "vs = v' # ws"
      by (auto simp: outcome_simps)
    have "same_edit v' d" using card_next_Ok [OF nxt] by (simp add: same_edit_def)
    then show ?thesis using Cons.IH [OF ws(1)] Cons.prems(2) ws(2) d by auto
  qed
qed simp

text \<open>A local copy: the list has a card of that id, and every such card carries the edit.\<close>

definition has_edit :: "card list \<Rightarrow> card \<Rightarrow> bool" where
  "has_edit cards c \<longleftrightarrow>
     (\<exists>d\<in>set cards. card_id d = card_id c) \<and>
     (\<forall>d\<in>set cards. card_id d = card_id c \<longrightarrow> same_edit d c)"

lemma has_edit_upsert_same: "same_edit v c \<Longrightarrow> has_edit (upsert_card v cards) c"
  by (auto simp: has_edit_def upsert_card_def same_edit_def)

lemma has_edit_upsert_other:
  assumes "has_edit cards c" "card_id v \<noteq> card_id c \<or> same_edit v c"
  shows "has_edit (upsert_card v cards) c"
  using assms by (cases "card_id v = card_id c") (auto simp: has_edit_def upsert_card_def)

lemma has_edit_fold_upsert:
  "has_edit cards c \<Longrightarrow> (\<forall>v\<in>set vs. card_id v \<noteq> card_id c \<or> same_edit v c) \<Longrightarrow>
     has_edit (fold upsert_card vs cards) c"
  by (induction vs arbitrary: cards) (auto intro: has_edit_upsert_other)

lemma app_upsert_cards [simp]: "app_cards (app_upsert v app) = upsert_card v (app_cards app)"
  by (simp add: app_upsert_def)

lemma fold_app_upsert_cards [simp]:
  "app_cards (fold app_upsert vs app) = fold upsert_card vs (app_cards app)"
  by (induction vs arbitrary: app) simp_all

lemma app_upsert_fields [simp]:
  "app_disk (app_upsert c app) = app_disk app"
  "app_offline_queue (app_upsert c app) = app_offline_queue app"
  by (simp_all add: app_upsert_def)

lemma fold_app_upsert_disk [simp]: "app_disk (fold app_upsert cs app) = app_disk app"
  by (induction cs arbitrary: app) simp_all

section \<open>One queued card\<close>

text \<open>
  The two ways an edit is given up: the server, as it stands in world \<open>w\<close>, says the card is deleted,
  or it reports a newer version and then refuses the edit rebased on that version.
\<close>

definition given_up :: "('w, 'm, 'n) client_env \<Rightarrow> card \<Rightarrow> 'w \<Rightarrow> bool" where
  "given_up env c w \<longleftrightarrow>
     (\<exists>w'. try_push env c w = Ok (Gone, w')) \<or>
     (\<exists>w1 w2 sc rebased answer.
        try_push env c w = Ok (Stale sc, w1) \<and>
        rebuild_card env c (card_priority c) (Some sc) = Ok rebased \<and>
        try_push env rebased w1 = Ok (answer, w2) \<and> answer \<noteq> Accepted \<and> answer \<noteq> Lost)"

definition shuffles :: "('w, 'm, 'n) client_env \<Rightarrow> bool" where
  "shuffles env \<longleftrightarrow> (\<forall>cards. mset (ce_shuffle env cards) = mset cards)"

lemma set_sort_by_priority:
  "shuffles env \<Longrightarrow> set (sort_by_priority (ce_to_lower env) (ce_shuffle env) cards) = set cards"
proof -
  assume "shuffles env"
  then have "mset (sort_by_priority (ce_to_lower env) (ce_shuffle env) cards) = mset cards"
    by (simp add: shuffles_def sort_by_priority_def sort_cards_def)
  then show ?thesis by (metis set_mset_mset)
qed

datatype fate = Kept card | Pushed card "card list" | Dropped

text \<open>What the flush of one card leaves, as a relation between the states around it.\<close>

fun fate_ok :: "('w, 'm, 'n) client_env \<Rightarrow> card \<Rightarrow> 'w \<Rightarrow> app_state \<Rightarrow> fate \<Rightarrow> card option \<Rightarrow> app_state \<Rightarrow> bool" where
  "fate_ok env c w app (Kept k) kept app' \<longleftrightarrow>
     kept = Some k \<and> same_edit k c \<and> app_cards app' = app_cards app \<and>
     app_disk app' = app_disk app"
| "fate_ok env c w app (Pushed v vs) kept app' \<longleftrightarrow>
     kept = None \<and> same_edit v c \<and> app_disk app' = app_disk app \<and>
     app_cards app' = upsert_card v (fold upsert_card vs (app_cards app)) \<and>
     (\<forall>s\<in>set vs. card_id s \<noteq> card_id c \<and> (\<exists>d\<in>set (app_cards app). same_edit s d))"
| "fate_ok env c w app Dropped kept app' \<longleftrightarrow>
     kept = None \<and> app_cards app' = app_cards app \<and> app_disk app' = app_disk app \<and> given_up env c w"

lemma fate_keep: "same_edit k c \<Longrightarrow> \<exists>f. fate_ok env c w app f (Some k) app"
  by (rule exI [of _ "Kept k"]) simp

lemma fate_push:
  "same_edit v c \<Longrightarrow> (\<forall>s\<in>set vs. card_id s \<noteq> card_id c \<and> (\<exists>d\<in>set (app_cards app). same_edit s d)) \<Longrightarrow>
     \<exists>f. fate_ok env c w app f None (app_upsert v (fold app_upsert vs app))"
  by (rule exI [of _ "Pushed v vs"]) simp

lemma fate_push1: "same_edit v c \<Longrightarrow> \<exists>f. fate_ok env c w app f None (app_upsert v app)"
  using fate_push [of v c "[]"] by simp

lemma push_resolved_fate:
  assumes ok: "push_resolved env c cards anc (app, w) = Ok ((kept, hit), app', w')"
    and anc: "\<forall>a. anc = Some a \<longrightarrow> card_id a = card_id c"
    and cards: "\<forall>d\<in>set cards. d \<in> set (app_cards app) \<and> card_id d \<noteq> card_id c"
  shows "\<exists>f. fate_ok env c w0 app f kept app'"
proof (cases "resolve_collision (ce_random_range env) cards (card_priority c)")
  case (Simple p)
  with ok obtain retry answer w2 where
    retry: "rebuild_card env c p anc = Ok retry" and push: "try_push env retry w = Ok (answer, w2)"
    by (auto simp: push_resolved_def bind_outcome_Ok)
  show ?thesis
    using ok Simple retry push fate_keep [of c c env w0 app]
      fate_push1 [OF rebuild_same_edit(1) [OF retry anc], of env w0 app]
    by (cases answer) (auto simp: push_resolved_def)
next
  case (Rebalanced p shifted)
  with ok obtain retry vs answer w2 where
    retry: "rebuild_card env c p anc = Ok retry"
    and vs: "(build_shifted_versions (ce_hash env) (ce_now env) shifted cards :: (unit, card list) outcome) = Ok vs"
    and push: "try_push_batch env (map (\<lambda>sc. ItemCards [sc]) vs @ [ItemCards [retry]]) w = Ok (answer, w2)"
    by (auto simp: push_resolved_def bind_outcome_Ok)
  have "card_id s \<noteq> card_id c \<and> (\<exists>d\<in>set (app_cards app). same_edit s d)" if "s \<in> set vs" for s
    using build_shifted_same_edit [OF vs that] cards by (auto simp: same_edit_def)
  then show ?thesis
    using ok Rebalanced retry vs push fate_keep [of c c env w0 app]
      fate_push [OF rebuild_same_edit(1) [OF retry anc], of vs app env w0]
    by (cases answer) (auto simp: push_resolved_def)
qed

lemma fetch_ancestor_kept: "fetch_ancestor env c w = Ok (Inl k, w') \<Longrightarrow> fst k = Some c"
  by (auto simp: fetch_ancestor_def Let_def
      split: if_splits prod.splits outcome.splits client_error.splits)

lemma fetch_ancestor_found:
  assumes "fetch_ancestor env c w = Ok (Inr anc, w')" "honest_transport (ce_request env)"
  shows "\<forall>a. anc = Some a \<longrightarrow> card_id a = card_id c"
proof -
  have "\<exists>u. get_card (ce_request env) (card_id c) w = (Ok a, u)" if "anc = Some a" for a
    using assms(1) that by (auto simp: fetch_ancestor_def Let_def
        split: if_splits prod.splits outcome.splits client_error.splits)
  then show ?thesis using honest_transport.got_id [OF assms(2)] by blast
qed

lemma flush_collision_fate:
  assumes ok: "flush_collision env c (app, w) = Ok ((kept, hit), app', w')"
    and honest: "honest_transport (ce_request env)" and sh: "shuffles env"
  shows "\<exists>f. fate_ok env c w0 app f kept app'"
proof -
  define cards where "cards = sort_by_priority (ce_to_lower env) (ce_shuffle env)
    (filter (\<lambda>d. card_id d \<noteq> card_id c) (app_cards app))"
  have cards: "\<forall>d\<in>set cards. d \<in> set (app_cards app) \<and> card_id d \<noteq> card_id c"
    unfolding cards_def by (simp add: set_sort_by_priority [OF sh])
  have body: "flush_collision env c (app, w) =
      bind_outcome (fetch_ancestor env c w) (\<lambda>(fetched, w).
        case fetched of
          Inl kept \<Rightarrow> Ok (kept, app, w)
        | Inr server_ancestor \<Rightarrow> push_resolved env c cards server_ancestor (app, w))"
    unfolding flush_collision_def cards_def by (simp add: Let_def)
  obtain fetched w1 where fetch: "fetch_ancestor env c w = Ok (fetched, w1)"
    using ok unfolding body by (auto simp: bind_outcome_Ok)
  note rest = ok [unfolded body fetch bind_outcome.simps prod.case]
  show ?thesis
  proof (cases fetched)
    case (Inl k)
    have "fst k = Some c" by (rule fetch_ancestor_kept [OF fetch [unfolded Inl]])
    then show ?thesis using rest Inl fate_keep [of c c env w0 app] by (cases k) auto
  next
    case (Inr anc)
    have anc: "\<forall>a. anc = Some a \<longrightarrow> card_id a = card_id c"
      by (rule fetch_ancestor_found [OF fetch [unfolded Inr] honest])
    have "push_resolved env c cards anc (app, w1) = Ok ((kept, hit), app', w')"
      using rest Inr by simp
    then show ?thesis by (rule push_resolved_fate [OF _ anc cards])
  qed
qed

lemma flush_one_fate:
  assumes ok: "flush_one env c (app, w) = Ok ((kept, hit), app', w')"
    and honest: "honest_transport (ce_request env)" and sh: "shuffles env"
  shows "\<exists>f. fate_ok env c w app f kept app'"
proof -
  obtain answer w1 where first: "try_push env c w = Ok (answer, w1)"
    using ok by (auto simp: flush_one_def bind_outcome_Ok)
  note keep = fate_keep [where env = env and app = app and c = c and w = w]
  note push = fate_push1 [where env = env and app = app and c = c and w = w]
  have drop: "\<exists>f. fate_ok env c w app f None app1" if "given_up env c w" "app_cards app1 = app_cards app" "app_disk app1 = app_disk app" for app1
    using that by (intro exI [of _ Dropped]) simp
  note def = ok [unfolded flush_one_def prod.case first bind_outcome.simps]
  show ?thesis
  proof (cases answer)
    case Accepted
    then show ?thesis using def push [of c] by auto
  next
    case Lost
    then show ?thesis using def keep [of c] by auto
  next
    case Duplicate
    then have "flush_collision env c (app, w1) = Ok ((kept, hit), app', w')" using def by simp
    then show ?thesis by (rule flush_collision_fate [OF _ honest sh])
  next
    case (Stale sc)
    have "card_id sc = card_id c"
      by (rule honest_transport.try_push_stale [OF honest first [unfolded Stale] refl])
    with Stale def obtain rebased a w2 where
      r: "rebuild_card env c (card_priority c) (Some sc) = Ok rebased"
      and p: "try_push env rebased w1 = Ok (a, w2)"
      by (auto simp: bind_outcome_Ok)
    have same: "same_edit rebased c"
      using rebuild_same_edit(1) [OF r] \<open>card_id sc = card_id c\<close> by simp
    have "given_up env c w" if "a \<noteq> Accepted" "a \<noteq> Lost"
      using first Stale r p that unfolding given_up_def by blast
    then show ?thesis
      using def Stale r p push [OF same] keep [of c] drop [of "app\<lparr>app_error_toast := Some rejected_toast\<rparr>"]
      by (cases a) auto
  next
    case Unverified
    with def obtain recreated a w2 where
      r: "rebuild_card env c (card_priority c) None = Ok recreated"
      and p: "try_push env recreated w1 = Ok (a, w2)"
      by (auto simp: bind_outcome_Ok)
    have same: "same_edit recreated c"
      using rebuild_same_edit(1) [OF r] by simp
    then show ?thesis
      using def Unverified r p push [OF same] keep [OF same] keep [of c] by (cases a) auto
  next
    case Gone
    then have "given_up env c w" using first unfolding given_up_def by blast
    then show ?thesis using def Gone drop [of app] by auto
  next
    case Refused
    then show ?thesis using def keep [of c] by auto
  qed
qed


section \<open>The whole queue\<close>

lemma fate_keeps_others:
  assumes "fate_ok env c w app f kept app'" "has_edit (app_cards app) x" "card_id x \<noteq> card_id c"
  shows "has_edit (app_cards app') x"
proof (cases f)
  case (Pushed v vs)
  have "\<forall>s\<in>set vs. card_id s \<noteq> card_id x \<or> same_edit s x"
  proof
    fix s assume "s \<in> set vs"
    then obtain d where "d \<in> set (app_cards app)" "same_edit s d" using assms(1) Pushed by auto
    then show "card_id s \<noteq> card_id x \<or> same_edit s x"
      using assms(2) by (auto simp: has_edit_def same_edit_def)
  qed
  then have "has_edit (fold upsert_card vs (app_cards app)) x"
    using assms(2) by (intro has_edit_fold_upsert)
  moreover have "card_id v \<noteq> card_id x" using assms(1,3) Pushed by (auto simp: same_edit_def)
  ultimately show ?thesis
    using assms(1) Pushed by (simp add: has_edit_upsert_other)
qed (use assms in simp_all)

lemma fate_settles:
  assumes "fate_ok env c w app f kept app'"
  shows "(\<exists>k\<in>set (keep_card kept). same_edit k c) \<or> has_edit (app_cards app') c \<or> given_up env c w"
  using assms by (cases f) (auto intro: has_edit_upsert_same)

text \<open>The flush reaches \<open>c\<close> with the cards before it handled, and there the server refuses it for good.\<close>

definition refused_in_flush ::
  "('w, 'm, 'n) client_env \<Rightarrow> card list \<Rightarrow> bool \<Rightarrow> card list \<Rightarrow> 'w session \<Rightarrow> card \<Rightarrow> bool" where
  "refused_in_flush env queue hit remaining st c \<longleftrightarrow>
     (\<exists>before after rem1 app1 w1. queue = before @ c # after \<and>
        flush_cards env before hit remaining st = Ok (rem1, app1, w1) \<and> given_up env c w1)"

lemma refused_first: "given_up env c w \<Longrightarrow> refused_in_flush env (c # queue) hit remaining (app, w) c"
  unfolding refused_in_flush_def
  by (rule exI [of _ "[]"], rule exI [of _ queue], rule exI [of _ remaining]) simp

lemma refused_later:
  assumes "refused_in_flush env queue hit1 (remaining @ keep_card kept) st1 c"
    and "flush_one env q st = Ok ((kept, hit1), st1)"
  shows "refused_in_flush env (q # queue) False remaining st c"
proof -
  from assms(1) obtain before after rem1 app1 w1 where
    "queue = before @ c # after" "given_up env c w1"
    "flush_cards env before hit1 (remaining @ keep_card kept) st1 = Ok (rem1, app1, w1)"
    by (auto simp: refused_in_flush_def)
  then have "q # queue = (q # before) @ c # after \<and>
      flush_cards env (q # before) False remaining st = Ok (rem1, app1, w1) \<and> given_up env c w1"
    using assms(2) by simp
  then show ?thesis unfolding refused_in_flush_def by blast
qed

lemma refused_skip:
  assumes "refused_in_flush env queue True (remaining @ [q]) st c"
  shows "refused_in_flush env (q # queue) True remaining st c"
proof -
  from assms obtain before after rem1 app1 w1 where
    "queue = before @ c # after" "given_up env c w1"
    "flush_cards env before True (remaining @ [q]) st = Ok (rem1, app1, w1)"
    by (auto simp: refused_in_flush_def)
  then have "q # queue = (q # before) @ c # after \<and>
      flush_cards env (q # before) True remaining st = Ok (rem1, app1, w1) \<and> given_up env c w1"
    by simp
  then show ?thesis unfolding refused_in_flush_def by blast
qed

lemma save_queue_fields [simp]:
  "app_cards (save_queue env app) = app_cards app"
  "app_offline_queue (save_queue env app) = app_offline_queue app"
  "app_root (save_queue env app) = app_root app" "app_tags (save_queue env app) = app_tags app"
  by (simp_all add: save_queue_def)

lemma save_local_state_fields [simp]:
  "app_cards (save_local_state env app) = app_cards app"
  "app_offline_queue (save_local_state env app) = app_offline_queue app"
  "app_root (save_local_state env app) = app_root app" "app_tags (save_local_state env app) = app_tags app"
  by (simp_all add: save_local_state_def Let_def split: option.split)

lemma flush_offline_queue_cases:
  assumes "flush_offline_queue env (app, w) = Ok (app', w')"
  obtains (empty) "app_offline_queue app = []" "app' = app" "w' = w"
  | (reconciled) "reconcile_offline_queue (app_offline_queue app) (app_cards app) = []"
      "app' = save_queue env (app\<lparr>app_offline_queue := []\<rparr>)" "w' = w"
  | (flushed) remaining app1 where
      "flush_cards env (reconcile_offline_queue (app_offline_queue app) (app_cards app)) False []
         (app, w) = Ok (remaining, app1, w')"
      "app' = save_queue env (app1\<lparr>app_offline_queue := remaining\<rparr>) \<or>
       app' = save_local_state env (save_queue env (app1\<lparr>app_offline_queue := remaining\<rparr>))"
  using assms
  by (auto simp: flush_offline_queue_def Let_def bind_outcome_Ok split: if_splits)

section \<open>The queue on disk\<close>

text \<open>Everything queued is on disk: what a restart would load is what the memory holds.\<close>

definition queue_on_disk ::
  "('w, 'm, 'n) client_env \<Rightarrow> (bytes \<Rightarrow> card list option) \<Rightarrow> app_state \<Rightarrow> bool" where
  "queue_on_disk env decode app \<longleftrightarrow>
     load_offline_queue decode (app_disk app) = app_offline_queue app"

text \<open>What postcard promises of a queue: it is serialised, to some bytes, and they read back.\<close>

definition storable ::
  "('w, 'm, 'n) client_env \<Rightarrow> (bytes \<Rightarrow> card list option) \<Rightarrow> card list \<Rightarrow> bool" where
  "storable env decode q \<longleftrightarrow>
     q = [] \<or> (\<exists>bs. ce_encode_queue env q = Some bs \<and> bs \<noteq> [] \<and> decode bs = Some q)"

lemma save_queue_on_disk:
  assumes "storable env decode (app_offline_queue app)" "writable (app_disk app)"
  shows "queue_on_disk env decode (save_queue env app)"
  using assms
  by (auto simp: queue_on_disk_def save_queue_def storable_def load_offline_queue_def
      save_offline_queue_def opfs_read_bytes_def opfs_read_def opfs_write_def opfs_delete_def)

lemma save_local_state_on_disk [simp]:
  "queue_on_disk env decode (save_local_state env app) = queue_on_disk env decode app"
  by (simp add: queue_on_disk_def save_local_state_def Let_def split: option.split)

lemma writable_save [simp]:
  "writable (app_disk (save_queue env app)) = writable (app_disk app)"
  "writable (app_disk (save_local_state env app)) = writable (app_disk app)"
  by (auto simp: save_queue_def save_local_state_def save_offline_queue_def save_local_def
      opfs_write_def opfs_delete_def Let_def split: option.split)

lemma flush_one_disk:
  assumes "flush_one env c (app, w) = Ok ((kept, hit), app', w')"
    and "honest_transport (ce_request env)" "shuffles env"
  shows "app_disk app' = app_disk app"
proof -
  obtain f where "fate_ok env c w app f kept app'" using flush_one_fate [OF assms] by blast
  then show ?thesis by (cases f) simp_all
qed

lemma flush_cards_disk:
  assumes "flush_cards env queue hit remaining (app, w) = Ok (rem', app', w')"
    and "honest_transport (ce_request env)" "shuffles env"
  shows "app_disk app' = app_disk app"
  using assms(1)
proof (induction queue arbitrary: hit remaining app w)
  case (Cons q queue)
  show ?case
  proof (cases hit)
    case True
    then show ?thesis using Cons by simp
  next
    case False
    with Cons.prems obtain kept hit1 app1 w1 where
      one: "flush_one env q (app, w) = Ok ((kept, hit1), app1, w1)"
      and rest: "flush_cards env queue hit1 (remaining @ keep_card kept) (app1, w1) = Ok (rem', app', w')"
      by (auto simp: bind_outcome_Ok)
    show ?thesis using Cons.IH [OF rest] flush_one_disk [OF one assms(2,3)] by simp
  qed
qed simp

end
