(* ===== verification/Offline_Sync.thy ===== *)
theory Offline_Sync
  imports Offline_Facts Storage_Accept
begin

text \<open>
  The web client against the modelled server: what its local lists hold of the server's state
  (\<open>in_sync\<close> before a sync, \<open>converged\<close> after it), the first fetch, the incremental one and the
  fallback for a foreign history. The client's own accepted pushes may already be in its lists: the
  ids they touch are those the next change set speaks of.
\<close>

section \<open>Local and remote state\<close>

definition in_sync :: "ext \<Rightarrow> db \<Rightarrow> db \<Rightarrow> app_state \<Rightarrow> bool" where
  "in_sync E d w app \<longleftrightarrow>
     app_root app = Some (current_root d) \<and>
     (\<forall>k. k \<notin> touched_cards d w \<longrightarrow> entry_in card_id (app_cards app) k = card_entries E d k) \<and>
     (\<forall>k. k \<notin> touched_tags d w \<longrightarrow> entry_in tag_id (app_tags app) k = tag_entries E d k)"

definition converged :: "ext \<Rightarrow> db \<Rightarrow> app_state \<Rightarrow> bool" where
  "converged E w app \<longleftrightarrow>
     app_root app = Some (current_root w) \<and>
     set (app_cards app) = ran (card_entries E w) \<and> distinct (map card_id (app_cards app)) \<and>
     set (app_tags app) = ran (tag_entries E w) \<and> distinct (map tag_id (app_tags app))"

text \<open>The root of a history that the server does not share.\<close>

definition foreign_root :: "db \<Rightarrow> root_state \<Rightarrow> bool" where
  "foreign_root w root \<longleftrightarrow>
     (\<exists>h. stored_root_hash w (i64_from_nn (root_sequence root)) = Some h \<and> h \<noteq> root_hash root)"

lemma entry_in_distinct:
  "distinct (map f xs) \<Longrightarrow> entry_in f xs k = Some x \<longleftrightarrow> x \<in> set xs \<and> f x = k"
proof -
  assume dist: "distinct (map f xs)"
  then have fst: "distinct (map fst (map (\<lambda>x. (f x, x)) xs))"
    by (simp add: comp_def)
  show ?thesis
    unfolding entry_in_def map_of_rev_same [OF fst] map_of_eq_Some_iff [OF fst] by auto
qed

lemma entry_in_ran:
  assumes "distinct (map f xs)" "set xs = ran g" "\<And>k x. g k = Some x \<Longrightarrow> f x = k"
  shows "entry_in f xs = g"
proof
  fix k
  show "entry_in f xs k = g k"
  proof (rule option_eqI)
    fix x
    show "entry_in f xs k = Some x \<longleftrightarrow> g k = Some x"
      unfolding entry_in_distinct [OF assms(1)] assms(2) using assms(3) by (auto simp: ran_def)
  qed
qed

lemma converged_in_sync:
  assumes "postcard_ok E" "storage_inv E K w" "converged E w app"
  shows "in_sync E w w app"
proof -
  have "entry_in card_id (app_cards app) = card_entries E w"
    by (rule entry_in_ran) (use assms(3) card_entries_id [OF assms(1,2)] in \<open>simp_all add: converged_def\<close>)
  moreover have "entry_in tag_id (app_tags app) = tag_entries E w"
    by (rule entry_in_ran) (use assms(3) tag_entries_id [OF assms(1,2)] in \<open>simp_all add: converged_def\<close>)
  ultimately show ?thesis
    using assms(3) by (simp add: in_sync_def converged_def)
qed

section \<open>Asking for changes\<close>

lemma get_changes_online:
  assumes "postcard_ok E" "storage_inv E K w"
  shows "get_changes_since (online_request E now) s h w =
    ((case stored_root_hash w (i64_from_nn s) of
        Some h' \<Rightarrow>
          if h' \<noteq> h then Err (Protocol (protocol_error.RootHashMismatch s h'))
          else Ok (changes_of E (i64_from_nn s) w)
      | None \<Rightarrow> Ok (changes_of E (i64_from_nn s) w)), w)"
  by (simp add: get_changes_since_def requested_def online_request_def into_changes_def
      changes_since_result [OF assms] extract_variant_def split: option.split)

lemma changes_from_start:
  assumes "postcard_ok E" "storage_inv E K w"
  shows "set (cs_cards (changes_of E 0 w)) = ran (card_entries E w)"
    "distinct (map card_id (cs_cards (changes_of E 0 w)))"
    "set (cs_tags (changes_of E 0 w)) = ran (tag_entries E w)"
    "distinct (map tag_id (cs_tags (changes_of E 0 w)))"
    "cs_root (changes_of E 0 w) = current_root w"
proof -
  have stamped: "stamped (db_sequence w) (cards_table w)" "stamped (db_sequence w) (tags_table w)"
    using assms(2) by (simp_all add: storage_inv_def)
  have cards: "filter (\<lambda>r. 0 < row_seq r) (cards_table w) = cards_table w"
    and tags: "filter (\<lambda>r. 0 < row_seq r) (tags_table w) = tags_table w"
    using stamped by (auto simp: stamped_def intro: filter_True)
  show "set (cs_cards (changes_of E 0 w)) = ran (card_entries E w)"
    by (auto simp: changes_of_def card_log.changed_since_def cards ran_card_entries [OF assms])
  show "set (cs_tags (changes_of E 0 w)) = ran (tag_entries E w)"
    by (auto simp: changes_of_def tag_log.changed_since_def tags ran_tag_entries [OF assms])
  have "map card_id (cs_cards (changes_of E 0 w)) = map (\<lambda>r. col_card_id (row_cols r)) (cards_table w)"
    using storage_inv_rows(1) [OF assms(2)]
    by (simp add: changes_of_def card_log.changed_since_def cards card_of_fields [OF assms(1)])
  then show "distinct (map card_id (cs_cards (changes_of E 0 w)))"
    using assms(2) by (simp add: storage_inv_def tables_ok_def cards_ok_def keyed_def)
  have "map tag_id (cs_tags (changes_of E 0 w)) = map (\<lambda>r. tcol_tag_id (row_cols r)) (tags_table w)"
    using storage_inv_rows(2) [OF assms(2)]
    by (simp add: changes_of_def tag_log.changed_since_def tags tag_of_fields [OF assms(1)])
  then show "distinct (map tag_id (cs_tags (changes_of E 0 w)))"
    using assms(2) by (simp add: storage_inv_def tables_ok_def tags_ok_def keyed_def)
  show "cs_root (changes_of E 0 w) = current_root w"
    by (simp add: changes_of_def)
qed

section \<open>The first fetch\<close>

lemma initial_sync_online:
  assumes "postcard_ok E" "storage_inv E K w" "ce_request env = online_request E now"
  shows "\<exists>app'. initial_sync env (app, w) = (Ok (), app', w) \<and> converged E w app' \<and>
    app_offline_queue app' = app_offline_queue app"
proof -
  have "stored_root_hash w 0 = None"
    by (rule stored_hash_zero [OF assms(2)])
  then have "get_changes_since (ce_request env) nn_MIN ZERO_HASH w = (Ok (changes_of E 0 w), w)"
    unfolding assms(3) get_changes_online [OF assms(1,2)] by (simp add: i64_from_nn_def nn_MIN_def)
  then show ?thesis
    using changes_from_start [OF assms(1,2)]
    by (simp add: initial_sync_def Let_def converged_def spawn_prefetch_histories_def)
qed

section \<open>The incremental one\<close>

lemma incremental_sync_current:
  assumes im: "index_map_ok (ce_card_map env)" "index_map_ok (ce_tag_map env)"
    and pc: "postcard_ok E" and inv: "storage_inv E K d" and run: "(inv_step E K)\<^sup>*\<^sup>* d w"
    and req: "ce_request env = online_request E now" and sync: "in_sync E d w app"
  shows "\<exists>app1. incremental_sync env (app, w) = map_ok (\<lambda>st. (Ok (), st)) (flush_offline_queue env (app1, w)) \<and>
    converged E w app1 \<and> app_cards app1 = sorted_cards E w \<and> app_offline_queue app1 = app_offline_queue app"
proof -
  have invw: "storage_inv E K w"
    using card_log.run_facts [OF run inv] by blast
  note root = conjunct1 [OF sync [unfolded in_sync_def]]
  let ?cs = "changes_of E (db_sequence d) w"
  have "get_changes_since (ce_request env) (root_sequence (current_root d)) (root_hash (current_root d)) w =
      (Ok ?cs, w)"
    using changes_since_root [OF pc inv run]
    by (simp add: req get_changes_since_def requested_def online_request_def into_changes_def extract_variant_def)
  then have step: "incremental_sync env (app, w) = map_ok (\<lambda>st. (Ok (), st))
      (flush_offline_queue env (apply_changes env ?cs (app\<lparr>app_status := Syncing\<rparr>), w))"
    by (simp add: incremental_sync_def root Let_def)
  let ?app1 = "apply_changes env ?cs (app\<lparr>app_status := Syncing\<rparr>)"
  have cards: "app_cards ?app1 = apply_card_changeset (ce_card_map env) (app_cards app) ?cs"
    and tags: "app_tags ?app1 = apply_tag_changeset (ce_tag_map env) (app_tags app) ?cs"
    and rest: "app_root ?app1 = Some (current_root w)" "app_offline_queue ?app1 = app_offline_queue app"
    by (simp_all add: apply_changes_def Let_def spawn_prefetch_histories_def changes_of_def)
  have "app_cards ?app1 = sorted_cards E w"
    unfolding cards using sync by (intro apply_card_changeset_merge [OF im(1) pc inv run]) (simp add: in_sync_def)
  moreover have "set (app_tags ?app1) = ran (tag_entries E w)" "distinct (map tag_id (app_tags ?app1))"
    unfolding tags using sync by (auto intro!: apply_tag_changeset_merge [OF im(2) pc inv run] simp: in_sync_def)
  moreover have "set (sorted_cards E w) = ran (card_entries E w)"
    by (rule sorted_cards_facts(1) [OF pc invw])
  ultimately show ?thesis
    using step rest sorted_cards_keyed [OF pc invw] by (auto simp: converged_def)
qed

lemma incremental_sync_foreign:
  assumes pc: "postcard_ok E" and inv: "storage_inv E K w" and req: "ce_request env = online_request E now"
    and root: "app_root app = Some root" "foreign_root w root"
  shows "\<exists>app1. incremental_sync env (app, w) = map_ok (\<lambda>st. (Ok (), st)) (flush_offline_queue env (app1, w)) \<and>
    converged E w app1 \<and> app_offline_queue app1 = app_offline_queue app"
proof -
  obtain h where h: "stored_root_hash w (i64_from_nn (root_sequence root)) = Some h" "h \<noteq> root_hash root"
    using root(2) by (auto simp: foreign_root_def)
  have miss: "get_changes_since (ce_request env) (root_sequence root) (root_hash root) w =
      (Err (Protocol (protocol_error.RootHashMismatch (root_sequence root) h)), w)"
    unfolding req get_changes_online [OF pc inv] using h by simp
  let ?cleared = "clear_history_cache (app_history app, app_disk app)"
  let ?app0 = "app\<lparr>app_status := Syncing, app_history := fst ?cleared, app_disk := snd ?cleared,
    app_deleted := [], app_root := None\<rparr>"
  obtain app1 where "initial_sync env (?app0, w) = (Ok (), app1, w)" "converged E w app1"
    "app_offline_queue app1 = app_offline_queue ?app0"
    using initial_sync_online [OF pc inv req] by blast
  then show ?thesis
    using miss root(1) by (intro exI [of _ app1]) (simp add: incremental_sync_def Let_def)
qed

lemma incremental_sync_first:
  assumes "postcard_ok E" "storage_inv E K w" "ce_request env = online_request E now" "app_root app = None"
  shows "\<exists>app1. incremental_sync env (app, w) = Ok (Ok (), app1, w) \<and> converged E w app1"
  using initial_sync_online [OF assms(1-3), of app] assms(4) by (auto simp: incremental_sync_def)

lemma flush_empty: "app_offline_queue app = [] \<Longrightarrow> flush_offline_queue env (app, w) = Ok (app, w)"
  by (simp add: flush_offline_queue_def)


section \<open>The client's own pushes\<close>

context change_log begin

lemma touched_step:
  assumes "inv w" "step w w'" "s \<le> seq w"
    and "k \<in> idf ` set (changed_since s w) \<union> deleted_since s w"
  shows "k \<in> idf ` set (changed_since s w') \<union> deleted_since s w'"
proof (cases "k \<in> deleted_since s w")
  case True
  then show ?thesis
    using deleted_since_mono [OF step_dels [OF assms(2)]] by blast
next
  case False
  then obtain r where r: "r \<in> set (live w)" "idf (row_cols r) = k" "s < row_seq r"
    using assms(4) by (auto simp: changed_since_def)
  note live = step_live [OF assms(2), unfolded live_step_def]
  show ?thesis
  proof (cases "k \<in> ids_of idf (live w')")
    case True
    then obtain r' where r': "r' \<in> set (live w')" "idf (row_cols r') = k"
      by (auto simp: ids_of_def)
    have "s < row_seq r'"
    proof (cases "r' \<in> set (live w)")
      case True
      then have "r' = r"
        using r r' inv_keyed [OF assms(1)] by (auto simp: keyed_def distinct_map dest: inj_onD)
      then show ?thesis using r by simp
    next
      case False
      then show ?thesis using live r'(1) assms(3) by force
    qed
    then show ?thesis using r' by (force simp: changed_since_def)
  next
    case False
    then have "k \<in> ids_of idf (live w) - ids_of idf (live w')"
      using r by (auto simp: ids_of_def)
    then obtain x where "x \<in> set (dels w')" "deleted_id (row_cols x) = k" "row_seq x = seq w + 1"
      using live by blast
    then have "k \<in> deleted_since s w'"
      using assms(3) by (force simp: deleted_since_def ids_of_def)
    then show ?thesis by blast
  qed
qed

end

lemma touched_cards_step:
  assumes "storage_inv E K w" "inv_step E K w w'" "db_sequence d \<le> db_sequence w"
  shows "touched_cards d w \<subseteq> touched_cards d w'" "touched_tags d w \<subseteq> touched_tags d w'"
  unfolding touched_cards_def touched_tags_def
  using card_log.touched_step [OF assms] tag_log.touched_step [OF assms] by blast+

lemma untouched_entries:
  assumes "(inv_step E K)\<^sup>*\<^sup>* d w" "storage_inv E K d"
  shows "k \<notin> touched_cards d w \<Longrightarrow> card_entries E w k = card_entries E d k"
    and "k \<notin> touched_tags d w \<Longrightarrow> tag_entries E w k = tag_entries E d k"
proof -
  show "card_entries E w k = card_entries E d k" if "k \<notin> touched_cards d w"
  proof -
    have "card_log.entry w k = card_log.entry d k"
      using that by (intro card_log.unchanged_entry [OF assms]) (auto simp: touched_cards_def)
    then show ?thesis by (simp add: card_entries_def)
  qed
  show "tag_entries E w k = tag_entries E d k" if "k \<notin> touched_tags d w"
  proof -
    have "tag_log.entry w k = tag_log.entry d k"
      using that by (intro tag_log.unchanged_entry [OF assms]) (auto simp: touched_tags_def)
    then show ?thesis by (simp add: tag_entries_def)
  qed
qed

lemma push_card_online:
  assumes "push_card (online_request E now) c w = (Ok root, w')"
  shows "storage_push_card_versions E now w [c] = (Ok (), w')"
    "handle_request E now w (PushCardVersions [c]) = (Ok (RespRoot root), w')"
proof -
  have "online_request E now (PushCardVersions [c]) w = (Ok (RespRoot root), w')"
    using assms by (simp add: online.push_card_Ok)
  then show req: "handle_request E now w (PushCardVersions [c]) = (Ok (RespRoot root), w')"
    by (auto simp: online_request_def split: prod.splits outcome.splits)
  then show "storage_push_card_versions E now w [c] = (Ok (), w')"
    by (auto split: prod.splits outcome.splits)
qed

text \<open>A pushed card is the server's card; everything else it had stays.\<close>

lemma accepted_push:
  assumes pc: "postcard_ok E" and inv: "storage_inv E K w" and c: "card_typed E c" "card_id c \<in> K"
    and push: "push_card (online_request E now) c w = (Ok root, w')"
  shows "storage_inv E K w'" "inv_step E K w w'" "run E K w w'"
    "card_entries E w' = (card_entries E w)(card_id c \<mapsto> c)" "tag_entries E w' = tag_entries E w"
proof -
  note push = push_card_online [OF push]
  have ok: "request_ok E K (PushCardVersions [c])"
    using c by (simp add: request_ok_def)
  note eff = push_card_versions_effect [OF push(1)]
  have "w' \<noteq> w" using eff(4) by auto
  then show "storage_inv E K w'" "inv_step E K w w'"
    using handle_request_inv [OF inv ok push(2)] by (auto simp: inv_step_def)
  show "run E K w w'"
    by (rule run_request [OF run_refl ok push(2)])
  have "card_of E (card_params E c) = c"
    using card_of_params [OF pc c(1)] push_card_versions_verified [OF push(1)] by simp
  then show "card_entries E w' = (card_entries E w)(card_id c \<mapsto> c)" "tag_entries E w' = tag_entries E w"
    using eff(1,2) by (auto simp: card_entries_def tag_entries_def fun_eq_iff)
qed

lemma entry_in_upsert:
  "entry_in card_id (upsert_card v xs) k = (if k = card_id v then Some v else entry_in card_id xs k)"
proof -
  have "map_of (rev (map (\<lambda>c. (card_id c, c)) (filter (\<lambda>d. card_id d \<noteq> u) xs))) k =
      (if k = u then None else map_of (rev (map (\<lambda>c. (card_id c, c)) xs)) k)" for u
    by (induction xs rule: rev_induct) auto
  then show ?thesis by (simp add: entry_in_def upsert_card_def)
qed

lemma accepted_push_in_sync:
  assumes pc: "postcard_ok E" and inv: "storage_inv E K d" and run: "(inv_step E K)\<^sup>*\<^sup>* d w"
    and c: "card_typed E c" "card_id c \<in> K"
    and push: "push_card (online_request E now) c w = (Ok root, w')"
    and root: "app_root app = Some (current_root d)"
    and cards: "\<forall>k. k \<notin> touched_cards d w \<longrightarrow> k \<noteq> card_id c \<longrightarrow>
      entry_in card_id (app_cards app) k = card_entries E d k"
    and tags: "\<forall>k. k \<notin> touched_tags d w \<longrightarrow> entry_in tag_id (app_tags app) k = tag_entries E d k"
    and mine: "entry_in card_id (app_cards app) (card_id c) = Some c"
  shows "in_sync E d w' app"
proof -
  have invw: "storage_inv E K w" and seq: "db_sequence d \<le> db_sequence w"
    using card_log.run_facts [OF run inv] by blast+
  note acc = accepted_push [OF pc invw c push]
  have run': "(inv_step E K)\<^sup>*\<^sup>* d w'"
    using run acc(2) by (rule rtranclp.rtrancl_into_rtrancl)
  note mono = touched_cards_step [OF invw acc(2) seq]
  have "entry_in card_id (app_cards app) k = card_entries E d k" if k: "k \<notin> touched_cards d w'" for k
  proof (cases "k = card_id c")
    case True
    then show ?thesis
      using untouched_entries(1) [OF run' inv k] mine by (simp add: acc(4))
  next
    case False
    then show ?thesis using cards k mono by blast
  qed
  then show ?thesis
    using root tags mono by (auto simp: in_sync_def)
qed

section \<open>A push that is not queued\<close>

lemma answer_not_Accepted [simp]: "push_answer_of e \<noteq> Accepted"
  by (cases e rule: push_answer_of.cases) (auto split: push_error.splits)

lemma try_push_Accepted:
  "try_push env c w = Ok (Accepted, w') \<longleftrightarrow> (\<exists>root. push_card (ce_request env) c w = (Ok root, w'))"
  by (cases "push_card (ce_request env) c w"; cases "fst (push_card (ce_request env) c w)")
    (auto simp: try_push_def)

lemma queued_after: "c \<in> set (app_offline_queue (queue_and_save env uid c app))"
  by (simp add: queue_and_save_def enqueue_card_def)

lemma clear_queued_fields [simp]:
  "app_cards (clear_queued_card env uid app) = app_cards app"
  "app_tags (clear_queued_card env uid app) = app_tags app"
  "app_root (clear_queued_card env uid app) = app_root app"
  by (simp_all add: clear_queued_card_def)

lemma push_card_or_queue_cases:
  assumes "push_card_or_queue env c (app, w) = Ok (app', w')"
  obtains (queued) q where "app' = queue_and_save env (card_id c) q app" "same_edit q c"
  | (direct) root where "push_card (ce_request env) c w = (Ok root, w')"
      "app' = clear_queued_card env (card_id c) app"
  | (rebuilt) a w1 ancestor v root where "try_push env c w = Ok (a, w1)" "a \<noteq> Accepted"
      "\<forall>s. ancestor = Some s \<longrightarrow> a = Stale s"
      "rebuild_card env c (card_priority c) ancestor = Ok v"
      "push_card (ce_request env) v w1 = (Ok root, w')"
      "app' = clear_queued_card env (card_id c) (app_upsert v app)"
proof (cases "app_connected app")
  case False
  then have "app' = queue_and_save env (card_id c) c app"
    using assms by (simp add: push_card_or_queue_def Let_def)
  then show thesis using queued [of c] by simp
next
  case True
  then obtain answer w1 where first: "try_push env c w = Ok (answer, w1)"
    using assms by (auto simp: push_card_or_queue_def Let_def bind_outcome_Ok)
  have body: "(case answer of
             Accepted \<Rightarrow> Ok (clear_queued_card env (card_id c) app, w1)
           | Stale server_card \<Rightarrow>
               bind_outcome (rebuild_card env c (card_priority c) (Some server_card)) (\<lambda>rebased.
               bind_outcome (try_push env rebased w1) (\<lambda>(answer, w).
                 case answer of
                   Accepted \<Rightarrow> Ok (clear_queued_card env (card_id c) (app_upsert rebased app), w)
                 | _ \<Rightarrow> Ok (queue_and_save env (card_id c) c app, w)))
           | Unverified \<Rightarrow>
               bind_outcome (rebuild_card env c (card_priority c) None) (\<lambda>recreated.
               bind_outcome (try_push env recreated w1) (\<lambda>(answer, w).
                 case answer of
                   Accepted \<Rightarrow> Ok (clear_queued_card env (card_id c) (app_upsert recreated app), w)
                 | _ \<Rightarrow> Ok (queue_and_save env (card_id c) recreated app, w)))
           | _ \<Rightarrow> Ok (queue_and_save env (card_id c) c app, w1)) = Ok (app', w')"
    using assms True first by (simp add: push_card_or_queue_def Let_def)
  have retry: thesis
    if "rebuild_card env c (card_priority c) ancestor = Ok v" "try_push env v w1 = Ok (Accepted, w')"
      "answer \<noteq> Accepted" "\<forall>s. ancestor = Some s \<longrightarrow> answer = Stale s"
      "app' = clear_queued_card env (card_id c) (app_upsert v app)" for ancestor v
    using that rebuilt [OF first that(3,4,1) _ that(5)] by (auto simp: try_push_Accepted)
  have kept: thesis if "app' = queue_and_save env (card_id c) c app"
    using that queued [of c] by simp
  show thesis
  proof (cases answer)
    case Accepted
    then show thesis using body first direct by (auto simp: try_push_Accepted)
  next
    case (Stale sc)
    with body obtain v a w2 where v: "rebuild_card env c (card_priority c) (Some sc) = Ok v"
      "try_push env v w1 = Ok (a, w2)"
      by (auto simp: bind_outcome_Ok)
    show thesis
    proof (cases "a = Accepted")
      case True
      then show thesis using body v Stale by (intro retry [of "Some sc" v]) simp_all
    next
      case False
      then show thesis using body v Stale by (intro kept) (cases a; simp)
    qed
  next
    case Unverified
    with body obtain v a w2 where v: "rebuild_card env c (card_priority c) None = Ok v"
      "try_push env v w1 = Ok (a, w2)"
      by (auto simp: bind_outcome_Ok)
    show thesis
    proof (cases "a = Accepted")
      case True
      then show thesis using body v Unverified by (intro retry [of None v]) simp_all
    next
      case False
      then have "app' = queue_and_save env (card_id c) v app"
        using body v Unverified by (cases a; simp)
      then show thesis
        using queued [of v] rebuild_same_edit(1) [OF v(1)] by simp
    qed
  qed (use body in \<open>auto intro: kept\<close>)
qed

lemma nn_successor_ok: "nn_ok c \<Longrightarrow> nn_try_from_u64 (u64_from_nn c + 1) = Ok c' \<Longrightarrow> nn_ok c'"
  by (blast dest: nn_successor_Ok)

lemma rebuilt_typed:
  assumes "rebuild_card env c p ancestor = Ok v" "card_typed E c" "timestamp_ok E (ce_now env)"
    and "\<forall>a. ancestor = Some a \<longrightarrow> card_typed E a"
  shows "card_typed E v"
proof (cases ancestor)
  case None
  then show ?thesis
    using assms(1,2)
    by (auto simp: rebuild_card_def card_typed_def card_first_def Let_def nn_ok_def i64_max_def split: option.splits)
next
  case (Some a)
  then have "(card_next (ce_hash env) a (card_content c) p (card_tags c) (card_blazed c) (ce_now env)
      (card_due_date c) :: (unit, card) outcome) = Ok v"
    using assms(1) by (simp add: rebuild_card_def)
  then show ?thesis
    using assms(2-4) Some nn_successor_ok card_next_Ok [of "ce_hash env" a "card_content c" p "card_tags c" "card_blazed c" "ce_now env" "card_due_date c" v]
    by (auto simp: card_typed_def split: option.splits)
qed

text \<open>A push the server refuses changes nothing there, and the card it reports is its own.\<close>

lemma refused_push:
  assumes inv: "storage_inv E K w" and c: "card_typed E c" "card_id c \<in> K"
    and env: "ce_request env = online_request E now"
    and push: "try_push env c w = Ok (a, w')" "a \<noteq> Accepted"
  shows "w' = w"
proof -
  obtain r db1 where push1: "storage_push_card_versions E now w [c] = (r, db1)"
    by (cases "storage_push_card_versions E now w [c]")
  have "db1 = w"
  proof (cases "r = Ok ()")
    case True
    have ok: "request_ok E K (PushCardVersions [c])"
      using c by (simp add: request_ok_def)
    have req: "handle_request E now w (PushCardVersions [c]) = (respond_root db1, db1)"
      using push1 True by simp
    have "storage_inv E K db1"
      using handle_request_inv [OF inv ok req] by simp
    then have "push_card (online_request E now) c w = (Ok (current_root db1), db1)"
      using req by (simp add: online.push_card_Ok online_request_def respond_root_def get_root_result)
    then show ?thesis using push env by (simp add: try_push_def)
  next
    case False
    from push1 False show ?thesis by (cases rule: storage_push_card_versions_cases) auto
  qed
  moreover have "w' = db1"
    using push(1) push1
    by (auto simp: try_push_def env push_card_def requested_def online_request_def
        split: prod.splits outcome.splits)
  ultimately show ?thesis by simp
qed

lemma stale_card_typed:
  assumes pc: "postcard_ok E" and inv: "storage_inv E K w"
    and env: "ce_request env = online_request E now" and push: "try_push env c w = Ok (Stale sc, w')"
  shows "card_typed E sc"
proof -
  obtain e where e: "push_card (online_request E now) c w = (Err e, w')" "push_answer_of e = Stale sc"
    using push by (auto simp: try_push_def env split: prod.splits outcome.splits)
  from e(2) have "e = Protocol (PushFailed (CardAncestorMismatch sc))"
    by (cases e rule: push_answer_of.cases) (auto split: push_error.splits)
  then have "storage_push_card_versions E now w [c] = (Err (Domain (CardAncestorMismatch sc)), w')"
    using e(1) by (auto simp: online.push_card_Err online_request_def
        split: prod.splits outcome.splits elim: respond.elims push_op_error_to_protocol.elims)
  then obtain r where "find_row col_card_id (card_id c) (cards_table w) = Some r"
    and r: "card_from_row E (row_cols r) = Ok sc"
    by (blast dest: push_stale_row)
  then have "storable_card E (row_cols r)"
    using find_row_Some storage_inv_rows(1) [OF inv] by blast
  then show ?thesis
    using storable_card_decodes(1,3) [OF pc] r by (metis outcome.inject(1))
qed

lemma in_sync_run:
  assumes "storage_inv E K d" "(inv_step E K)\<^sup>*\<^sup>* d w" "(inv_step E K)\<^sup>*\<^sup>* w w'" "in_sync E d w app"
  shows "in_sync E d w' app"
  using assms(3)
proof (induction rule: rtranclp_induct)
  case base
  show ?case by (fact assms(4))
next
  case (step x y)
  have "(inv_step E K)\<^sup>*\<^sup>* d x"
    using assms(2) step.hyps(1) by (rule rtranclp_trans)
  then have "storage_inv E K x" "db_sequence d \<le> db_sequence x"
    using card_log.run_facts [OF _ assms(1)] by blast+
  from touched_cards_step [OF this(1) step.hyps(2) this(2)] step.IH show ?case
    unfolding in_sync_def by blast
qed

lemma push_keeps_in_sync:
  assumes pc: "postcard_ok E" and inv: "storage_inv E K d" and run: "(inv_step E K)\<^sup>*\<^sup>* d w"
    and env: "ce_request env = online_request E now" "timestamp_ok E (ce_now env)"
    and c: "card_typed E c" "card_id c \<in> K" and sync: "in_sync E d w app"
    and push: "push_card_or_queue env c (app_upsert c app, w) = Ok (app', w')"
    and sent: "card_id c \<notin> card_id ` set (app_offline_queue app')"
  shows "in_sync E d w' app'" "(inv_step E K)\<^sup>*\<^sup>* d w'"
proof -
  have invw: "storage_inv E K w"
    using card_log.run_facts [OF run inv] by blast
  have local: "app_root app = Some (current_root d)"
    "\<forall>k. k \<notin> touched_tags d w \<longrightarrow> entry_in tag_id (app_tags app) k = tag_entries E d k"
    "\<forall>k. k \<notin> touched_cards d w \<longrightarrow> entry_in card_id (app_cards app) k = card_entries E d k"
    using sync by (simp_all add: in_sync_def)
  have "in_sync E d w' app' \<and> inv_step E K w w'"
    using push
  proof (cases rule: push_card_or_queue_cases)
    case (queued q)
    then have "card_id c \<in> card_id ` set (app_offline_queue app')"
      using queued_after [of q] by (intro image_eqI [of _ _ q]) (simp_all add: same_edit_def)
    then show ?thesis using sent by simp
  next
    case (direct root)
    show ?thesis
      using accepted_push(2) [OF pc invw c direct(1) [unfolded env]]
      by (auto intro!: accepted_push_in_sync [OF pc inv run c direct(1) [unfolded env]]
          simp: direct(2) local entry_in_upsert app_upsert_def)
  next
    case (rebuilt a w1 ancestor v root)
    have w1: "w1 = w"
      by (rule refused_push [OF invw c env(1) rebuilt(1,2)])
    have anc: "\<forall>s. ancestor = Some s \<longrightarrow> card_typed E s \<and> card_id s = card_id c"
      using stale_card_typed [OF pc invw env(1)] honest_transport.try_push_stale [OF online_honest.honest_transport_axioms]
        rebuilt(1,3) env(1) by metis
    have same: "same_edit v c"
      by (rule rebuild_same_edit(1) [OF rebuilt(4)]) (use anc in blast)
    then have id: "card_id v = card_id c"
      by (simp add: same_edit_def)
    have v: "card_typed E v" "card_id v \<in> K"
      using rebuilt_typed [OF rebuilt(4) c(1) env(2)] anc c(2) id by auto
    have pushv: "push_card (online_request E now) v w = (Ok root, w')"
      using rebuilt(5) by (simp add: env w1)
    show ?thesis
      using accepted_push(2) [OF pc invw v pushv]
      by (auto intro!: accepted_push_in_sync [OF pc inv run v pushv]
          simp: rebuilt(6) local entry_in_upsert id app_upsert_def)
  qed
  then show "in_sync E d w' app'" "(inv_step E K)\<^sup>*\<^sup>* d w'"
    using run by (auto intro: rtranclp.rtrancl_into_rtrancl)
qed

text \<open>What the server then holds.\<close>

lemma push_reaches_server:
  assumes "push_card_or_queue env c (app, w) = Ok (app', w')" "ce_request env = online_request E now"
  shows "(\<exists>k\<in>set (app_offline_queue app'). same_edit k c) \<or>
    (\<exists>v. same_edit v c \<and> card_log.entry w' (card_id c) = Some (card_params E v))"
  using assms(1)
proof (cases rule: push_card_or_queue_cases)
  case (queued q)
  then show ?thesis using queued_after [of q env "card_id c" app] by blast
next
  case (direct root)
  have "card_log.entry w' (card_id c) = Some (card_params E c)"
    using push_card_versions_effect(1) [OF push_card_online(1) [OF direct(1) [unfolded assms(2)]]] by simp
  then show ?thesis using same_edit_refl by blast
next
  case (rebuilt a w1 ancestor v root)
  have "\<forall>s. ancestor = Some s \<longrightarrow> card_id s = card_id c"
    using honest_transport.try_push_stale [OF online_honest.honest_transport_axioms]
      rebuilt(1,3) assms(2) by metis
  then have same: "same_edit v c"
    by (rule rebuild_same_edit(1) [OF rebuilt(4)])
  have "card_log.entry w' (card_id v) = Some (card_params E v)"
    using push_card_versions_effect(1) [OF push_card_online(1) [OF rebuilt(5) [unfolded assms(2)]]] by simp
  moreover have "card_id v = card_id c"
    using same by (simp add: same_edit_def)
  ultimately show ?thesis using same by force
qed

section \<open>A state no mutation has left\<close>

lemma no_changes:
  assumes "storage_inv E K w" "db_sequence w \<le> s"
  shows "changes_of E s w = \<lparr>cs_cards = [], cs_tags = [], cs_deleted = [], cs_root = current_root w\<rparr>"
proof -
  have "stamped (db_sequence w) (cards_table w)" "stamped (db_sequence w) (tags_table w)"
    "stamped (db_sequence w) (deleted_entities w)"
    using assms(1) by (simp_all add: storage_inv_def)
  then have "filter (\<lambda>r. s < row_seq r) (cards_table w) = []"
    "filter (\<lambda>r. s < row_seq r) (tags_table w) = []"
    "filter (\<lambda>r. s < row_seq r) (deleted_entities w) = []"
    using assms(2) by (auto simp: stamped_def filter_empty_conv)
  then show ?thesis
    by (simp add: changes_of_def card_log.changed_since_def tag_log.changed_since_def)
qed

lemma no_hash_ahead:
  assumes "storage_inv E K w" "db_sequence w < s"
  shows "stored_root_hash w s = None"
proof -
  have "set (map hist_sequence (root_history w)) = {1..db_sequence w}"
    using assms(1) unfolding storage_inv_def root_ok_def by (metis set_upto)
  then have "s \<notin> hist_sequence ` set (root_history w)"
    using assms(2) by simp
  then show ?thesis
    by (force simp: stored_root_hash_def find_None_iff)
qed

lemma merge_keeps_untouched:
  assumes im: "index_map_ok IM" and dist: "distinct (map card_id xs)" and c: "c \<in> set xs"
  shows "c \<in> set (apply_card_changeset IM xs \<lparr>cs_cards = [], cs_tags = [], cs_deleted = [], cs_root = r\<rparr>)"
proof -
  let ?m = "im_sort_by IM (\<lambda>a b. card_priority b \<le> card_priority a)
    (im_collect IM (map (\<lambda>c. (card_id c, c)) xs))"
  have m: "im_get IM ?m = entry_in card_id xs"
    by (simp add: entry_in_def index_map_laws(1,4) [OF im])
  have "set (im_into_values IM ?m) = ran (entry_in card_id xs)"
    by (rule im_values(1) [OF im m, of card_id]) (simp add: entry_in_distinct [OF dist])
  moreover have "entry_in card_id xs (card_id c) = Some c"
    using c by (simp add: entry_in_distinct [OF dist])
  ultimately show ?thesis
    by (auto simp: apply_card_changeset_def Let_def intro: ranI)
qed

lemma push_deleted_answer:
  assumes "ce_request env = online_request E now" "card_verify (blake3 E) c" "card_id c \<in> deleted_ids w"
  shows "try_push env c w = Ok (Gone, w)"
proof -
  have "storage_push_card_versions E now w [c] = (Err (Domain push_error.AlreadyDeleted), w)"
    by (rule deleted_card_push) (use assms in simp_all)
  then have "push_card (ce_request env) c w = (Err (Protocol (PushFailed push_error.AlreadyDeleted)), w)"
    by (simp add: assms(1) push_card_def requested_def online_request_def into_root_def extract_variant_def)
  then show ?thesis by (simp add: try_push_def)
qed

end
