(* ===== verification/Offline_Queue.thy ===== *)
theory Offline_Queue
  imports Offline_Sync
begin

text \<open>
  The offline queue as a state machine: pushes, flushes and syncs of a session, and the invariant
  they keep, that the queue on disk is the queue in memory and holds a card at most once.
\<close>

section \<open>One card at most once\<close>

lemma kept_id:
  assumes "flush_one env c (app, w) = Ok ((Some k, hit), app', w')"
    and "honest_transport (ce_request env)" "shuffles env"
  shows "card_id k = card_id c"
proof -
  obtain f where "fate_ok env c w app f (Some k) app'"
    using flush_one_fate [OF assms] by blast
  then show ?thesis by (cases f) (auto simp: same_edit_def)
qed

lemma flush_cards_distinct:
  assumes "flush_cards env queue hit remaining (app, w) = Ok (rem', app', w')"
    and "honest_transport (ce_request env)" "shuffles env"
    and "distinct (map card_id (remaining @ queue))"
  shows "distinct (map card_id rem')"
  using assms(1,4)
proof (induction queue arbitrary: hit remaining app w)
  case (Cons q queue)
  show ?case
  proof (cases hit)
    case True
    then show ?thesis using Cons.prems Cons.IH [of True "remaining @ [q]" app w] by simp
  next
    case False
    with Cons.prems obtain kept hit1 app1 w1 where
      one: "flush_one env q (app, w) = Ok ((kept, hit1), app1, w1)"
      and rest: "flush_cards env queue hit1 (remaining @ keep_card kept) (app1, w1) = Ok (rem', app', w')"
      by (auto simp: bind_outcome_Ok)
    have "distinct (map card_id ((remaining @ keep_card kept) @ queue))"
      using Cons.prems(2) kept_id [OF _ assms(2,3)] one by (cases kept) auto
    then show ?thesis by (rule Cons.IH [OF rest])
  qed
qed simp

section \<open>The invariant\<close>

definition queue_ok ::
  "('w, 'm, 'n) client_env \<Rightarrow> (bytes \<Rightarrow> card list option) \<Rightarrow> app_state \<Rightarrow> bool" where
  "queue_ok env decode app \<longleftrightarrow>
     queue_on_disk env decode app \<and> writable (app_disk app) \<and>
     distinct (map card_id (app_offline_queue app))"

lemma queue_ok_app:
  "app_disk app' = app_disk app \<Longrightarrow> app_offline_queue app' = app_offline_queue app \<Longrightarrow>
     queue_ok env decode app' = queue_ok env decode app"
  by (simp add: queue_ok_def queue_on_disk_def)

lemma queue_ok_saved:
  assumes "storable env decode (app_offline_queue app)" "writable (app_disk app)"
    "distinct (map card_id (app_offline_queue app))"
  shows "queue_ok env decode (save_queue env app)"
  using assms by (simp add: queue_ok_def save_queue_on_disk)

lemma queue_ok_save_local [simp]: "queue_ok env decode (save_local_state env app) = queue_ok env decode app"
  by (simp add: queue_ok_def)

lemma queue_and_save_ok:
  assumes "queue_ok env decode app" "storable env decode (app_offline_queue (queue_and_save env (card_id q) q app))"
  shows "queue_ok env decode (queue_and_save env (card_id q) q app)"
proof -
  have "distinct (map card_id (app_offline_queue (enqueue_card (card_id q) q app)))"
    using assms(1) by (auto simp: enqueue_card_def queue_ok_def distinct_map_filter)
  then show ?thesis
    using assms unfolding queue_and_save_def queue_ok_save_local
    by (intro queue_ok_saved) (simp_all add: queue_ok_def enqueue_card_def)
qed

lemma clear_queued_ok:
  assumes "queue_ok env decode app" "storable env decode (app_offline_queue (clear_queued_card env uid app))"
  shows "queue_ok env decode (clear_queued_card env uid app)"
proof (cases "list_ex (\<lambda>c. card_id c = uid) (app_offline_queue app)")
  case True
  then have cleared: "clear_queued_card env uid app =
      save_queue env (app\<lparr>app_offline_queue := filter (\<lambda>c. card_id c \<noteq> uid) (app_offline_queue app)\<rparr>)"
    by (simp add: clear_queued_card_def)
  show ?thesis
    using assms unfolding cleared
    by (intro queue_ok_saved) (simp_all add: queue_ok_def distinct_map_filter)
qed (use assms(1) in \<open>simp add: clear_queued_card_def\<close>)

lemma push_queue_ok:
  assumes "push_card_or_queue env c (app, w) = Ok (app', w')" "queue_ok env decode app"
    and "storable env decode (app_offline_queue app')"
  shows "queue_ok env decode app'"
  using assms(1)
proof (cases rule: push_card_or_queue_cases)
  case (queued q)
  then have "card_id c = card_id q" by (simp add: same_edit_def)
  then show ?thesis using assms(2,3) queued(1) queue_and_save_ok by simp
next
  case (direct root)
  then show ?thesis using assms(2,3) clear_queued_ok by simp
next
  case (rebuilt a w1 ancestor v root)
  have "queue_ok env decode (app_upsert v app)"
    using assms(2) by (subst queue_ok_app) simp_all
  then show ?thesis using assms(3) rebuilt(6) clear_queued_ok by simp
qed

lemma flush_queue_ok:
  assumes "flush_offline_queue env (app, w) = Ok (app', w')" "queue_ok env decode app"
    and "storable env decode (app_offline_queue app')"
    and env: "honest_transport (ce_request env)" "shuffles env"
  shows "queue_ok env decode app'"
  using assms(1)
proof (cases rule: flush_offline_queue_cases)
  case reconciled
  show ?thesis
    using assms(2,3) unfolding reconciled(2) by (intro queue_ok_saved) (simp_all add: queue_ok_def)
next
  case (flushed remaining app1)
  have "distinct (map card_id (reconcile_offline_queue (app_offline_queue app) (app_cards app)))"
    using assms(2) by (simp add: reconcile_offline_queue_def distinct_map_filter queue_ok_def)
  then have "distinct (map card_id remaining)"
    using flush_cards_distinct [OF flushed(1) env] by simp
  moreover have "app_disk app1 = app_disk app"
    by (rule flush_cards_disk [OF flushed(1) env])
  moreover have "app_offline_queue app' = remaining"
    using flushed(2) by auto
  ultimately have "queue_ok env decode (save_queue env (app1\<lparr>app_offline_queue := remaining\<rparr>))"
    using assms(2,3) by (intro queue_ok_saved) (simp_all add: queue_ok_def)
  then show ?thesis using flushed(2) by auto
qed (use assms(2) in simp)

lemma load_queue_clear_history [simp]:
  "load_offline_queue decode (snd (clear_history_cache (h, fs))) = load_offline_queue decode fs"
  "writable (snd (clear_history_cache (h, fs))) = writable fs"
  by (simp_all add: load_offline_queue_def opfs_read_bytes_def opfs_read_def
      clear_history_cache_def opfs_delete_def)

lemma load_queue_save_local_state [simp]:
  "load_offline_queue decode (app_disk (save_local_state env app)) = load_offline_queue decode (app_disk app)"
  by (simp add: save_local_state_def Let_def split: option.split)

lemma apply_changes_queue_ok:
  "queue_ok env decode (apply_changes env changes app) = queue_ok env decode app"
  by (simp add: apply_changes_def Let_def spawn_prefetch_histories_def queue_ok_def queue_on_disk_def)

lemma initial_sync_queue_ok:
  assumes "initial_sync env (app, w) = (result, app', w')"
  shows "queue_ok env decode app' = queue_ok env decode app"
  using assms
  by (auto simp: initial_sync_def Let_def spawn_prefetch_histories_def queue_ok_def queue_on_disk_def
      split: prod.splits outcome.splits)

lemma incremental_sync_queue_ok:
  assumes "incremental_sync env (app, w) = Ok (result, app', w')" "queue_ok env decode app"
    and "storable env decode (app_offline_queue app')"
    and env: "honest_transport (ce_request env)" "shuffles env"
  shows "queue_ok env decode app'"
proof (cases "app_root app")
  case None
  then have "initial_sync env (app, w) = (result, app', w')"
    using assms(1) by (simp add: incremental_sync_def)
  then show ?thesis using initial_sync_queue_ok [of env app w result app' w' decode] assms(2) by simp
next
  case (Some root)
  let ?app = "app\<lparr>app_status := Syncing\<rparr>"
  have ok: "queue_ok env decode ?app" using assms(2) by (subst queue_ok_app) simp_all
  have flushed: ?thesis
    if "map_ok (\<lambda>st. (Ok () :: (client_error, unit) outcome, st)) (flush_offline_queue env (app1, w1)) = Ok (result, app', w')"
      "queue_ok env decode app1" for app1 w1
  proof -
    have "flush_offline_queue env (app1, w1) = Ok (app', w')"
      using that(1) by (cases "flush_offline_queue env (app1, w1)") auto
    then show ?thesis by (rule flush_queue_ok [OF _ that(2) assms(3) env])
  qed
  obtain r w1 where get: "get_changes_since (ce_request env) (root_sequence root) (root_hash root) w = (r, w1)"
    by (cases "get_changes_since (ce_request env) (root_sequence root) (root_hash root) w")
  note body = assms(1) [unfolded incremental_sync_def prod.case Some option.case Let_def get]
  show ?thesis
  proof (cases r)
    case (Ok changes)
    then show ?thesis
      using flushed [of "apply_changes env changes ?app" w1] body ok by (simp add: apply_changes_queue_ok)
  next
    case (Err e)
    show ?thesis
    proof (cases "\<exists>s h. e = Protocol (protocol_error.RootHashMismatch s h)")
      case False
      then have "app' = app\<lparr>app_status := Syncing, app_last_sync_error := Some e\<rparr>"
        using body Err by (auto split: client_error.splits protocol_error.splits)
      then show ?thesis using assms(2) by (subst queue_ok_app [of _ app]) simp_all
    next
      case True
      let ?cleared = "clear_history_cache (app_history ?app, app_disk ?app)"
      let ?app0 = "?app\<lparr>app_history := fst ?cleared, app_disk := snd ?cleared,
        app_deleted := [], app_root := None\<rparr>"
      obtain r2 app2 w2 where init: "initial_sync env (?app0, w1) = (r2, app2, w2)"
        by (cases "initial_sync env (?app0, w1)")
      have "queue_ok env decode ?app0"
        using ok by (simp add: queue_ok_def queue_on_disk_def)
      then have ok2: "queue_ok env decode app2"
        using initial_sync_queue_ok [OF init, of decode] by simp
      from body True Err init show ?thesis
        using flushed [of app2 w2] ok2 by (cases r2) auto
    qed
  qed (use body in simp)
qed

section \<open>A session\<close>

inductive offline_step ::
  "('w, 'm, 'n) client_env \<Rightarrow> (bytes \<Rightarrow> card list option) \<Rightarrow> app_state \<Rightarrow> app_state \<Rightarrow> bool"
  for env decode where
  push_step: "push_card_or_queue env c (app, w) = Ok (app', w') \<Longrightarrow>
     storable env decode (app_offline_queue app') \<Longrightarrow> offline_step env decode app app'"
| flush_step: "flush_offline_queue env (app, w) = Ok (app', w') \<Longrightarrow>
     storable env decode (app_offline_queue app') \<Longrightarrow> offline_step env decode app app'"
| sync_step: "incremental_sync env (app, w) = Ok (result, app', w') \<Longrightarrow>
     storable env decode (app_offline_queue app') \<Longrightarrow> offline_step env decode app app'"

lemma offline_step_ok:
  assumes "offline_step env decode app app'" "honest_transport (ce_request env)" "shuffles env"
    and "queue_ok env decode app"
  shows "queue_ok env decode app'"
  using assms by (induction rule: offline_step.induct) (blast intro: push_queue_ok flush_queue_ok incremental_sync_queue_ok)+

lemma offline_steps_ok:
  assumes "(offline_step env decode)\<^sup>*\<^sup>* app app'" "honest_transport (ce_request env)" "shuffles env"
    and "queue_ok env decode app"
  shows "queue_ok env decode app'"
  using assms(1) by (induction rule: rtranclp_induct) (blast intro: assms offline_step_ok)+

end
