(* ===== verification/Client_Burst.thy ===== *)
theory Client_Burst
  imports Offline_Queue
begin

text \<open>
  Pushing a burst of moves (clients/wasm/src/state/pending_priority.rs): one batch when siblings
  were shifted, one push otherwise, and the offline queue for what the server does not take. The
  functions work on the app state and the move state together.
\<close>

section \<open>The push\<close>

primrec push_each ::
  "('w, 'm, 'n) client_env \<Rightarrow> card list \<Rightarrow> 'w session \<Rightarrow> (unit, 'w session) outcome" where
  "push_each env [] st = Ok st"
| "push_each env (c # cs) st = bind_outcome (push_card_or_queue env c st) (push_each env cs)"

definition drop_queued :: "uuid list \<Rightarrow> app_state \<Rightarrow> app_state" where
  "drop_queued uids app =
     app\<lparr>app_offline_queue := filter (\<lambda>c. card_id c \<notin> set uids) (app_offline_queue app)\<rparr>"

definition push_burst ::
  "('w, 'm, 'n) client_env \<Rightarrow> card \<Rightarrow> card list \<Rightarrow> 'w session \<Rightarrow> (unit, 'w session) outcome" where
  "push_burst env primary siblings st =
     (if siblings = [] then push_card_or_queue env primary st
      else case st of (app, w) \<Rightarrow>
        if \<not> app_connected app then push_each env (primary # siblings) (app, w)
        else
          bind_outcome
            (try_push_batch env (map ItemCards (burst_items primary siblings)) w)
            (\<lambda>(answer, w).
              case answer of
                Accepted \<Rightarrow>
                  Ok (save_queue env (drop_queued (card_id primary # map card_id siblings) app), w)
              | _ \<Rightarrow> push_each env (primary # siblings) (app, w)))"

definition flush_now ::
  "('w, 'm, 'n) client_env \<Rightarrow> (priority_burst \<Rightarrow> uuid list) \<Rightarrow> move_state \<times> 'w session
   \<Rightarrow> (unit, move_state \<times> 'w session) outcome" where
  "flush_now env keys_of st =
     (case st of (moves, st) \<Rightarrow>
       bind_outcome (flush_sync_take (ce_hash env) (ce_now env) keys_of (cancel_priority_timer moves))
         (\<lambda>(taken, moves).
           case taken of
             None \<Rightarrow> Ok (moves, st)
           | Some (primary, siblings) \<Rightarrow> map_ok (Pair moves) (push_burst env primary siblings st)))"

text \<open>The unload-time flush: the burst is in the queue in memory before anything is awaited.\<close>

definition stash_burst :: "card \<Rightarrow> card list \<Rightarrow> app_state \<Rightarrow> app_state" where
  "stash_burst primary siblings app =
     fold (\<lambda>sc. enqueue_card (card_id sc) sc) siblings (enqueue_card (card_id primary) primary app)"

definition flush_blocking ::
  "('w, 'm, 'n) client_env \<Rightarrow> (priority_burst \<Rightarrow> uuid list) \<Rightarrow> move_state \<times> 'w session
   \<Rightarrow> (unit, move_state \<times> 'w session) outcome" where
  "flush_blocking env keys_of st =
     (case st of (moves, app, w) \<Rightarrow>
       bind_outcome (flush_sync_take (ce_hash env) (ce_now env) keys_of (cancel_priority_timer moves))
         (\<lambda>(taken, moves).
           case taken of
             None \<Rightarrow> Ok (moves, app, w)
           | Some (primary, siblings) \<Rightarrow>
               map_ok (Pair moves)
                 (push_burst env primary siblings
                    (save_queue env (stash_burst primary siblings app), w))))"

section \<open>Where an edit ends\<close>

text \<open>The edit is queued, or the server holds a version of it.\<close>

definition settled_edit :: "ext \<Rightarrow> card \<Rightarrow> app_state \<times> db \<Rightarrow> bool" where
  "settled_edit E c st \<longleftrightarrow>
     (\<exists>k\<in>set (app_offline_queue (fst st)). same_edit k c) \<or>
     (\<exists>v. same_edit v c \<and> card_log.entry (snd st) (card_id c) = Some (card_params E v))"

lemma push_settles:
  assumes "push_card_or_queue env c st = Ok st'" "ce_request env = online_request E now"
  shows "settled_edit E c st'"
  using push_reaches_server [of env c "fst st" "snd st" "fst st'" "snd st'"] assms
  by (simp add: settled_edit_def)

lemma push_other_entry:
  assumes "try_push env c w = Ok (a, w')" "ce_request env = online_request E now" "k \<noteq> card_id c"
  shows "card_log.entry w' k = card_log.entry w k"
proof -
  obtain r db1 where push: "storage_push_card_versions E now w [c] = (r, db1)"
    by (cases "storage_push_card_versions E now w [c]")
  have "w' = db1"
    using assms(1) push
    by (auto simp: try_push_def assms(2) push_card_def requested_def online_request_def
        split: prod.splits outcome.splits)
  moreover have "card_log.entry db1 k = card_log.entry w k"
  proof (cases "r = Ok ()")
    case True
    then show ?thesis using push_card_versions_effect(1) [of E now w "[c]" db1] push assms(3) by simp
  next
    case False
    from push False have "db1 = w" by (cases rule: storage_push_card_versions_cases) auto
    then show ?thesis by simp
  qed
  ultimately show ?thesis by simp
qed

text \<open>What holds across every push of a card with this id holds across the whole attempt.\<close>

lemma push_card_or_queue_world:
  assumes ok: "push_card_or_queue env c (app, w) = Ok (app', w')"
    and honest: "honest_transport (ce_request env)"
    and step: "\<And>v a x y. card_id v = card_id c \<Longrightarrow> try_push env v x = Ok (a, y) \<Longrightarrow> R x y"
    and self: "R w w" and trans: "\<And>x y z. R x y \<Longrightarrow> R y z \<Longrightarrow> R x z"
  shows "R w w'"
proof (cases "app_connected app")
  case False
  then show ?thesis using ok self by (simp add: push_card_or_queue_def Let_def)
next
  case True
  then obtain answer w1 where first: "try_push env c w = Ok (answer, w1)"
    using ok by (auto simp: push_card_or_queue_def Let_def bind_outcome_Ok)
  have R1: "R w w1" by (rule step [OF _ first]) simp
  have retried: "R w w'" if "rebuild_card env c (card_priority c) ancestor = Ok v"
    "try_push env v w1 = Ok (b, w')" "\<forall>s. ancestor = Some s \<longrightarrow> card_id s = card_id c" for ancestor v b
    using trans [OF R1 step [OF _ that(2)]] rebuild_same_edit(1) [OF that(1,3)] by (simp add: same_edit_def)
  note body = ok [unfolded push_card_or_queue_def prod.case Let_def first bind_outcome.simps]
  show ?thesis
  proof (cases answer)
    case (Stale sc)
    have "card_id sc = card_id c"
      by (rule honest_transport.try_push_stale [OF honest first [unfolded Stale] refl])
    moreover obtain v b w2 where v: "rebuild_card env c (card_priority c) (Some sc) = Ok v"
      "try_push env v w1 = Ok (b, w2)"
      using body True Stale by (auto simp: bind_outcome_Ok)
    moreover have "w2 = w'"
      using body True Stale v by (cases b) simp_all
    ultimately show ?thesis using retried by simp
  next
    case Unverified
    with body True obtain v b w2 where v: "rebuild_card env c (card_priority c) None = Ok v"
      "try_push env v w1 = Ok (b, w2)"
      by (auto simp: bind_outcome_Ok)
    moreover have "w2 = w'"
      using body True Unverified v by (cases b) simp_all
    ultimately show ?thesis using retried by simp
  qed (use body True R1 in simp_all)
qed

lemma queue_other:
  "card_id k \<noteq> uid \<Longrightarrow> k \<in> set (app_offline_queue (queue_and_save env uid q app)) \<longleftrightarrow>
     k \<in> set (app_offline_queue app) \<or> k = q"
  "card_id k \<noteq> uid \<Longrightarrow> k \<in> set (app_offline_queue (clear_queued_card env uid app)) \<longleftrightarrow>
     k \<in> set (app_offline_queue app)"
  by (auto simp: queue_and_save_def enqueue_card_def clear_queued_card_def)

text \<open>A push of another card leaves a settled edit settled.\<close>

lemma push_other_settled:
  assumes "push_card_or_queue env c (app, w) = Ok (app', w')" "ce_request env = online_request E now"
    and "settled_edit E x (app, w)" "card_id x \<noteq> card_id c"
  shows "settled_edit E x (app', w')"
proof -
  have queue: "k \<in> set (app_offline_queue app')"
    if "k \<in> set (app_offline_queue app)" "card_id k = card_id x" for k
    using assms(1)
  proof (cases rule: push_card_or_queue_cases)
    case (queued q)
    then show ?thesis using that assms(4) queue_other(1) [of k "card_id c" env q app] by simp
  next
    case (direct root)
    then show ?thesis using that assms(4) queue_other(2) [of k "card_id c" env app] by simp
  next
    case (rebuilt a w1 ancestor v root)
    then show ?thesis
      using that assms(4) queue_other(2) [of k "card_id c" env "app_upsert v app"] by simp
  qed
  have entry: "card_log.entry w' (card_id x) = card_log.entry w (card_id x)"
  proof (rule push_card_or_queue_world [OF assms(1), where R = "\<lambda>x1 x2. card_log.entry x2 (card_id x) = card_log.entry x1 (card_id x)"])
    show "honest_transport (ce_request env)"
      unfolding assms(2) by (rule online_honest.honest_transport_axioms)
    fix v a x1 x2 assume "card_id v = card_id c" "try_push env v x1 = Ok (a, x2)"
    then show "card_log.entry x2 (card_id x) = card_log.entry x1 (card_id x)"
      using push_other_entry [OF _ assms(2)] assms(4) by simp
  qed simp_all
  show ?thesis
    using assms(3) queue entry by (auto simp: settled_edit_def same_edit_def)
qed

lemma push_each_settles:
  assumes "push_each env cs (app, w) = Ok st'" "ce_request env = online_request E now"
    and "distinct (map card_id cs)"
  shows "c \<in> set cs \<Longrightarrow> settled_edit E c st'"
    and "settled_edit E x (app, w) \<Longrightarrow> card_id x \<notin> card_id ` set cs \<Longrightarrow> settled_edit E x st'"
proof -
  have "(\<forall>c\<in>set cs. settled_edit E c st') \<and>
    (\<forall>x. settled_edit E x (app, w) \<longrightarrow> card_id x \<notin> card_id ` set cs \<longrightarrow> settled_edit E x st')"
    using assms(1,3)
  proof (induction cs arbitrary: app w)
    case (Cons d cs)
    then obtain app1 w1 where one: "push_card_or_queue env d (app, w) = Ok (app1, w1)"
      and rest: "push_each env cs (app1, w1) = Ok st'"
      by (auto simp: bind_outcome_Ok)
    note IH = Cons.IH [OF rest]
    have "settled_edit E d (app1, w1)"
      by (rule push_settles [OF one assms(2)])
    moreover have "settled_edit E x (app1, w1)"
      if "settled_edit E x (app, w)" "card_id x \<noteq> card_id d" for x
      by (rule push_other_settled [OF one assms(2) that])
    ultimately show ?case using IH Cons.prems(2) by simp
  qed simp
  then show "c \<in> set cs \<Longrightarrow> settled_edit E c st'"
    and "settled_edit E x (app, w) \<Longrightarrow> card_id x \<notin> card_id ` set cs \<Longrightarrow> settled_edit E x st'"
    by blast+
qed

section \<open>A batch that the server takes\<close>

lemma apply_cards_entries:
  assumes "apply_items E i (map (\<lambda>v. ItemCards [v]) vs) (tx, aff) = Ok (tx', aff')"
    and "distinct (map card_id vs)"
  shows "v \<in> set vs \<Longrightarrow> card_log.entry tx' (card_id v) = Some (card_params E v)"
    and "k \<notin> card_id ` set vs \<Longrightarrow> card_log.entry tx' k = card_log.entry tx k"
proof -
  have "(\<forall>v\<in>set vs. card_log.entry tx' (card_id v) = Some (card_params E v)) \<and>
    (\<forall>k. k \<notin> card_id ` set vs \<longrightarrow> card_log.entry tx' k = card_log.entry tx k)"
    using assms
  proof (induction vs arbitrary: i tx aff)
    case (Cons v vs)
    then obtain tx1 aff1 where one: "apply_item E (ItemCards [v]) (tx, aff) = Ok (tx1, aff1)"
      and rest: "apply_items E (Suc i) (map (\<lambda>v. ItemCards [v]) vs) (tx1, aff1) = Ok (tx', aff')"
      by (auto simp: bind_outcome_Ok map_err_Ok)
    have "tx1 = after_card_push E tx [v]"
      using one by (auto simp: apply_item_def outcome_simps push_card_inner_iff)
    then have "card_log.entry tx1 k = (if k = card_id v then Some (card_params E v) else card_log.entry tx k)" for k
      by (simp add: card_log.entry_def after_card_push_def find_row_replace)
    then show ?case
      using Cons.IH [OF rest] Cons.prems(2) by simp
  qed simp
  then show "v \<in> set vs \<Longrightarrow> card_log.entry tx' (card_id v) = Some (card_params E v)"
    and "k \<notin> card_id ` set vs \<Longrightarrow> card_log.entry tx' k = card_log.entry tx k"
    by blast+
qed

lemma accepted_batch:
  assumes "try_push_batch env (map (\<lambda>v. ItemCards [v]) vs) w = Ok (Accepted, w')"
    and "ce_request env = online_request E now" "distinct (map card_id vs)" "v \<in> set vs"
  shows "card_log.entry w' (card_id v) = Some (card_params E v)"
proof -
  let ?items = "map (\<lambda>v. ItemCards [v]) vs"
  obtain root where "push_batch (online_request E now) ?items w = (Ok root, w')"
    using assms(1) by (auto simp: try_push_batch_def assms(2) split: prod.splits outcome.splits)
  then have "handle_request E now w (PushBatch ?items) = (Ok (RespRoot root), w')"
    by (auto simp: push_batch_def requested_def online_request_def outcome_simps
        split: prod.splits outcome.splits)
  then have "storage_push_batch E now w ?items = (Ok (), w')"
    by (auto split: prod.splits outcome.splits)
  then have "committed E now w ?items w'"
    using assms(4) by (cases rule: storage_push_batch_cases) auto
  then obtain tx aff where "apply_items E 0 ?items (w, no_affected) = Ok (tx, aff)"
    and commit: "commit_txn E now (tx, aff) = Ok w'"
    by (auto simp: committed_def)
  then show ?thesis
    using apply_cards_entries(1) [OF _ assms(3,4)] by (simp add: commit_entries [OF commit])
qed

lemma push_burst_settles:
  assumes "push_burst env primary siblings (app, w) = Ok st'" "ce_request env = online_request E now"
    and "distinct (map card_id (primary # siblings))" "v \<in> set (primary # siblings)"
  shows "settled_edit E v st'"
proof (cases "siblings = []")
  case True
  then show ?thesis using assms(1,4) push_settles [OF _ assms(2)] by (simp add: push_burst_def)
next
  case False
  have each: ?thesis if "push_each env (primary # siblings) (app, w1) = Ok st'" for w1
    using push_each_settles(1) [OF that assms(2,3,4)] .
  show ?thesis
  proof (cases "app_connected app")
    case unconnected: False
    then show ?thesis using False assms(1) each [of w] by (simp add: push_burst_def)
  next
    case True
    have items: "map ItemCards (burst_items primary siblings) = map (\<lambda>v. ItemCards [v]) (primary # siblings)"
      by (simp add: burst_items_def)
    obtain answer w1 where batch: "try_push_batch env (map (\<lambda>v. ItemCards [v]) (primary # siblings)) w = Ok (answer, w1)"
      using assms(1) False True unfolding push_burst_def items by (auto simp: bind_outcome_Ok)
    note body = assms(1) [unfolded push_burst_def items prod.case batch bind_outcome.simps]
    show ?thesis
    proof (cases "answer = Accepted")
      case accepted: True
      then have "snd st' = w1" using body False True by auto
      then have "card_log.entry (snd st') (card_id v) = Some (card_params E v)"
        using accepted_batch [OF batch [unfolded accepted] assms(2-4)] by simp
      then show ?thesis using same_edit_refl [of v] unfolding settled_edit_def by blast
    next
      case refused: False
      then show ?thesis using body False True each [of w1] by (cases answer) simp_all
    qed
  qed
qed

end
