(* ===== verification/Offline_Properties.thy ===== *)
theory Offline_Properties
  imports Offline_Queue Demo Client_Burst
begin

text \<open>
  What the web client promises about edits made offline or in conflict: none is lost silently, the
  queue survives a restart, and a synchronised client holds what the server holds. The first part
  follows the requests of a flush on the server's side: which live cards each may replace, and what
  an accepted one leaves there.
\<close>

section \<open>A client for the witnesses\<close>

definition demo_env :: "(db, (uuid \<times> card) list, (uuid \<times> tag) list) client_env" where
  "demo_env =
     \<lparr>ce_request = online_request demo_ext 0, ce_hash = demo_hash, ce_now = 0, ce_elapsed_ms = 5,
      ce_random_range = (\<lambda>n. 0), ce_shuffle = rev, ce_to_lower = (\<lambda>s. s),
      ce_card_map = assoc_map, ce_tag_map = assoc_map,
      ce_encode_local = (\<lambda>st. None), ce_decode_local = (\<lambda>bs. None),
      ce_encode_queue = (\<lambda>q. if q = [demo_card] then Some [1] else None),
      ce_wasm_version = ''1'', ce_protocol_version = ''1''\<rparr>"

definition demo_app :: app_state where
  "demo_app =
     \<lparr>app_connected = True, app_status = Connected, app_cards = [demo_card], app_tags = [],
      app_root = None, app_deleted = [], app_deleted_count = 0, app_last_synced = None,
      app_last_sync_ops = 0, app_last_sync_duration_ms = None, app_last_sync_error = None,
      app_auto_sync_interval_ms = 60000, app_auto_sync_countdown_ms = 0,
      app_offline_queue = [demo_card], app_error_toast = None, app_history = history_default,
      app_disk = \<lparr>files = Map.empty, writable = True\<rparr>, app_cache_schema = None,
      app_prefetches = []\<rparr>"

lemma demo_env_ok: "honest_transport (ce_request demo_env)" "shuffles demo_env"
  by (simp_all add: demo_env_def shuffles_def online_honest.honest_transport_axioms)

lemma demo_push: "try_push demo_env demo_card empty_db = Ok (Accepted, demo_db)"
proof -
  obtain root where "respond_root demo_db = Ok (RespRoot root)"
    using get_root_result [OF reachable_inv [OF demo_reachable]] by (simp add: respond_root_def)
  then have "push_card (online_request demo_ext 0) demo_card empty_db = (Ok root, demo_db)"
    by (simp add: online.push_card_Ok online_request_def demo_pushed)
  then show ?thesis by (simp add: try_push_def demo_env_def)
qed

section \<open>A server behind an unreliable connection\<close>

text \<open>
  A request reaches the server \<open>server w\<close> and is answered as the server answers it, or the connection
  is lost: before the server handled the request, or after it did and before its answer arrived.
\<close>

definition unreliable :: "ext \<Rightarrow> int \<Rightarrow> ('w \<Rightarrow> db) \<Rightarrow> 'w transport \<Rightarrow> bool" where
  "unreliable E now server req \<longleftrightarrow>
     (\<forall>r w. (fst (req r w), server (snd (req r w))) = online_request E now r (server w) \<or>
        fst (req r w) = Err ConnectionLost \<and>
        (server (snd (req r w)) = server w \<or> server (snd (req r w)) = snd (online_request E now r (server w))))"

lemma unreliable_requested:
  assumes "unreliable E now server req" "requested req r into w = (x, w')"
  shows "requested (online_request E now) r into (server w) = (x, server w') \<or>
    x = Err ConnectionLost \<and> (server w' = server w \<or> server w' = snd (online_request E now r (server w)))"
proof -
  obtain a where a: "req r w = (a, w')" using assms(2) by (auto simp: requested_def split: prod.splits)
  have "(a, server w') = online_request E now r (server w) \<or>
      a = Err ConnectionLost \<and> (server w' = server w \<or> server w' = snd (online_request E now r (server w)))"
    using assms(1) a unfolding unreliable_def by (metis fst_conv snd_conv)
  then show ?thesis
    using assms(2) a by (auto simp: requested_def split: prod.splits)
qed

lemma unreliable_honest:
  assumes "unreliable E now server req"
  shows "honest_transport req"
proof unfold_locales
  fix r w
  show "fst (req r w) \<noteq> Panic"
    using assms online.answers [of E now r "server w"] unfolding unreliable_def
    by (metis fst_conv outcome.distinct(5))
next
  fix c sc :: card and w w'
  assume "push_card req c w = (Err (Protocol (PushFailed (CardAncestorMismatch sc))), w')"
  then have "push_card (online_request E now) c (server w) =
      (Err (Protocol (PushFailed (CardAncestorMismatch sc))), server w')"
    using unreliable_requested [OF assms] unfolding push_card_def by fastforce
  then show "card_id sc = card_id c" by (rule online_honest.stale_id)
next
  fix uid :: uuid and sc :: card and w w'
  assume "get_card req uid w = (Ok sc, w')"
  then have "get_card (online_request E now) uid (server w) = (Ok sc, server w')"
    using unreliable_requested [OF assms] unfolding get_card_def by fastforce
  then show "card_id sc = uid" by (rule online_honest.got_id)
qed

section \<open>What the requests of a flush do to the live cards\<close>

text \<open>The server's card of an id is as before, or a version out of \<open>V\<close>.\<close>

definition only_pushed :: "ext \<Rightarrow> card set \<Rightarrow> db \<Rightarrow> db \<Rightarrow> bool" where
  "only_pushed E V db db' \<longleftrightarrow>
     (\<forall>k. card_log.entry db' k = card_log.entry db k \<or>
        (\<exists>v\<in>V. card_id v = k \<and> card_log.entry db' k = Some (card_params E v)))"

lemma only_pushed_refl [simp]: "only_pushed E V db db"
  by (simp add: only_pushed_def)

lemma only_pushed_mono: "only_pushed E V db db' \<Longrightarrow> V \<subseteq> W \<Longrightarrow> only_pushed E W db db'"
  unfolding only_pushed_def by blast

lemma only_pushed_trans:
  "only_pushed E V db db1 \<Longrightarrow> only_pushed E V db1 db2 \<Longrightarrow> only_pushed E V db db2"
  unfolding only_pushed_def by metis

text \<open>The server's card carries the edit.\<close>

definition server_holds :: "ext \<Rightarrow> db \<Rightarrow> card \<Rightarrow> bool" where
  "server_holds E db c \<longleftrightarrow> (\<exists>v. same_edit v c \<and> card_log.entry db (card_id c) = Some (card_params E v))"

lemma server_holds_pushed:
  "card_log.entry db (card_id v) = Some (card_params E v) \<Longrightarrow> same_edit v c \<Longrightarrow> server_holds E db c"
  unfolding server_holds_def by (metis same_edit_def)

lemma online_push_server:
  assumes "online_request E now (PushCardVersions [v]) db = (a, db')"
  shows "only_pushed E {v} db db'"
    and "a = Ok (RespRoot root) \<Longrightarrow> card_log.entry db' (card_id v) = Some (card_params E v)"
proof -
  obtain r where push: "storage_push_card_versions E now db [v] = (r, db')"
    using assms by (auto simp: online_request_def split: prod.splits outcome.splits)
  show "only_pushed E {v} db db'"
    using push
  proof (cases rule: storage_push_card_versions_cases)
    case committed
    then show ?thesis using push_card_versions_effect(1) [OF push [unfolded committed(1)]] by (simp add: only_pushed_def)
  qed simp
  assume "a = Ok (RespRoot root)"
  then have "r = Ok ()"
    using assms push by (cases r) (auto simp: online_request_def)
  then show "card_log.entry db' (card_id v) = Some (card_params E v)"
    using push_card_versions_effect(1) push by simp
qed

lemma apply_cards_only_pushed:
  "apply_items E i (map (\<lambda>v. ItemCards [v]) vs) (tx, aff) = Ok (tx', aff') \<Longrightarrow>
     only_pushed E (set vs) tx tx' \<and>
     (vs \<noteq> [] \<longrightarrow> card_log.entry tx' (card_id (last vs)) = Some (card_params E (last vs)))"
proof (induction vs arbitrary: i tx aff)
  case (Cons v vs)
  then obtain tx1 aff1 where one: "apply_item E (ItemCards [v]) (tx, aff) = Ok (tx1, aff1)"
    and rest: "apply_items E (Suc i) (map (\<lambda>v. ItemCards [v]) vs) (tx1, aff1) = Ok (tx', aff')"
    by (auto simp: bind_outcome_Ok map_err_Ok)
  have "tx1 = after_card_push E tx [v]"
    using one by (auto simp: apply_item_def outcome_simps push_card_inner_iff)
  then have first: "card_log.entry tx1 k = (if k = card_id v then Some (card_params E v) else card_log.entry tx k)" for k
    by (simp add: card_log.entry_def after_card_push_def find_row_replace)
  then have "only_pushed E (set (v # vs)) tx tx1" by (simp add: only_pushed_def)
  moreover have "only_pushed E (set (v # vs)) tx1 tx'"
    by (rule only_pushed_mono [OF conjunct1 [OF Cons.IH [OF rest]]]) auto
  ultimately have "only_pushed E (set (v # vs)) tx tx'" by (rule only_pushed_trans)
  moreover have "card_log.entry tx' (card_id (last (v # vs))) = Some (card_params E (last (v # vs)))"
  proof (cases "vs = []")
    case True
    then show ?thesis using rest first by simp
  next
    case False
    then show ?thesis using Cons.IH [OF rest] by (simp only: last.simps if_False simp_thms)
  qed
  ultimately show ?case by blast
qed simp

lemma online_batch_server:
  assumes "online_request E now (PushBatch (map (\<lambda>v. ItemCards [v]) vs)) db = (a, db')"
  shows "only_pushed E (set vs) db db'"
    and "a = Ok (RespRoot root) \<Longrightarrow> vs \<noteq> [] \<Longrightarrow>
      card_log.entry db' (card_id (last vs)) = Some (card_params E (last vs))"
proof -
  let ?items = "map (\<lambda>v. ItemCards [v]) vs"
  obtain r where push: "storage_push_batch E now db ?items = (r, db')"
    using assms by (auto simp: online_request_def split: prod.splits outcome.splits)
  have com: "only_pushed E (set vs) db db' \<and>
      (vs \<noteq> [] \<longrightarrow> card_log.entry db' (card_id (last vs)) = Some (card_params E (last vs)))"
    if committed: "committed E now db ?items db'"
  proof -
    obtain tx aff where run: "apply_items E 0 ?items (db, no_affected) = Ok (tx, aff)"
      and commit: "commit_txn E now (tx, aff) = Ok db'"
      using committed unfolding committed_def by blast
    show ?thesis
      using apply_cards_only_pushed [OF run] by (simp add: only_pushed_def commit_entries [OF commit])
  qed
  show "only_pushed E (set vs) db db'"
    using push by (cases rule: storage_push_batch_cases) (use com in simp_all)
  assume root: "a = Ok (RespRoot root)" and some: "vs \<noteq> []"
  have "r = Ok ()"
    using assms push root by (cases r) (auto simp: online_request_def)
  with push have "committed E now db ?items db'"
    using some by (cases rule: storage_push_batch_cases) auto
  then show "card_log.entry db' (card_id (last vs)) = Some (card_params E (last vs))"
    using com some by simp
qed


section \<open>The flush of one card, seen from the server\<close>

lemma push_answer_never_accepted: "push_answer_of e \<noteq> Accepted"
  by (cases e rule: push_answer_of.cases) (auto split: push_error.splits)

lemma try_push_server:
  assumes "try_push env v w = Ok (answer, w')" "unreliable E now server (ce_request env)"
  shows "only_pushed E {v} (server w) (server w')"
    and "answer = Accepted \<Longrightarrow> card_log.entry (server w') (card_id v) = Some (card_params E v)"
proof -
  obtain x where x: "push_card (ce_request env) v w = (x, w')" "answer = Accepted \<Longrightarrow> \<exists>root. x = Ok root"
    using assms(1) by (auto simp: try_push_def push_answer_never_accepted split: prod.splits outcome.splits)
  note cases = unreliable_requested [OF assms(2) x(1) [unfolded push_card_def]]
  obtain a db' where step: "online_request E now (PushCardVersions [v]) (server w) = (a, db')" by fastforce
  have a: "server w' = db'" "x = Ok root \<Longrightarrow> a = Ok (RespRoot root)"
    if "requested (online_request E now) (PushCardVersions [v]) into_root (server w) = (x, server w')" for root
    using that step by (auto simp: requested_def outcome_simps)
  show "only_pushed E {v} (server w) (server w')"
    using cases a(1) step online_push_server(1) [OF step] by auto
  assume "answer = Accepted"
  then obtain root where "x = Ok root" using x(2) by blast
  then show "card_log.entry (server w') (card_id v) = Some (card_params E v)"
    using cases a online_push_server(2) [OF step] by auto
qed

lemma try_push_batch_server:
  assumes "try_push_batch env (map (\<lambda>v. ItemCards [v]) vs) w = Ok (answer, w')"
    and "unreliable E now server (ce_request env)"
  shows "only_pushed E (set vs) (server w) (server w')"
    and "answer = Accepted \<Longrightarrow> vs \<noteq> [] \<Longrightarrow>
      card_log.entry (server w') (card_id (last vs)) = Some (card_params E (last vs))"
proof -
  let ?items = "map (\<lambda>v. ItemCards [v]) vs"
  obtain x where x: "push_batch (ce_request env) ?items w = (x, w')" "answer = Accepted \<Longrightarrow> \<exists>root. x = Ok root"
    using assms(1) by (auto simp: try_push_batch_def push_answer_never_accepted split: prod.splits outcome.splits)
  note cases = unreliable_requested [OF assms(2) x(1) [unfolded push_batch_def]]
  obtain a db' where step: "online_request E now (PushBatch ?items) (server w) = (a, db')" by fastforce
  have a: "server w' = db'" "x = Ok root \<Longrightarrow> a = Ok (RespRoot root)"
    if "requested (online_request E now) (PushBatch ?items) into_root (server w) = (x, server w')" for root
    using that step by (auto simp: requested_def outcome_simps)
  show "only_pushed E (set vs) (server w) (server w')"
    using cases a(1) step online_batch_server(1) [OF step] by auto
  assume "answer = Accepted" and some: "vs \<noteq> []"
  then obtain root where "x = Ok root" using x(2) by blast
  then show "card_log.entry (server w') (card_id (last vs)) = Some (card_params E (last vs))"
    using cases a online_batch_server(2) [OF step _ some] by auto
qed

lemma fetch_ancestor_server:
  assumes "fetch_ancestor env c w = Ok (fetched, w')" "unreliable E now server (ce_request env)"
  shows "server w' = server w"
proof (cases "card_ancestor_hash c = ZERO_HASH")
  case True
  then show ?thesis using assms(1) by (simp add: fetch_ancestor_def)
next
  case False
  obtain x where x: "get_card (ce_request env) (card_id c) w = (x, w')"
    using assms(1) False
    by (auto simp: fetch_ancestor_def split: prod.splits outcome.splits client_error.splits)
  have "snd (online_request E now (GetCard (card_id c)) (server w)) = server w"
    by (simp add: online_request_def split: outcome.split)
  then show ?thesis
    using unreliable_requested [OF assms(2) x [unfolded get_card_def]]
    by (auto simp: requested_def split: prod.splits)
qed

text \<open>The versions the flush of \<open>c\<close> may push: of the card itself, and of local cards with the edit they carry.\<close>

definition pushed_for :: "card \<Rightarrow> card list \<Rightarrow> card set" where
  "pushed_for c cards = {v. card_id v = card_id c \<or> (\<exists>d\<in>set cards. same_edit v d)}"

lemma only_pushed_self: "only_pushed E {v} db db' \<Longrightarrow> same_edit v c \<Longrightarrow> only_pushed E (pushed_for c cards) db db'"
  by (erule only_pushed_mono) (simp add: pushed_for_def same_edit_def)

lemma push_resolved_server:
  assumes ok: "push_resolved env c cards anc (app, w) = Ok ((kept, hit), app', w')"
    and anc: "\<forall>a. anc = Some a \<longrightarrow> card_id a = card_id c" and cards: "set cards \<subseteq> set (app_cards app)"
    and req: "unreliable E now server (ce_request env)"
  shows "only_pushed E (pushed_for c (app_cards app)) (server w) (server w')"
    and "kept = None \<Longrightarrow> server_holds E (server w') c"
proof -
  have "only_pushed E (pushed_for c (app_cards app)) (server w) (server w') \<and>
    (kept = None \<longrightarrow> server_holds E (server w') c)"
  proof (cases "resolve_collision (ce_random_range env) cards (card_priority c)")
    case (Simple p)
    with ok obtain retry answer w2 where
      retry: "rebuild_card env c p anc = Ok retry" and push2: "try_push env retry w = Ok (answer, w2)"
      by (auto simp: push_resolved_def bind_outcome_Ok)
    have kept: "w2 = w'" "kept = None \<longrightarrow> answer = Accepted"
      using ok Simple retry push2 by (cases answer; auto simp: push_resolved_def)+
    note push = push2 [unfolded kept(1)]
    note same = rebuild_same_edit(1) [OF retry anc]
    show ?thesis
      using only_pushed_self [OF try_push_server(1) [OF push req] same]
        server_holds_pushed [OF try_push_server(2) [OF push req] same] kept(2) by blast
  next
    case (Rebalanced p shifted)
    with ok obtain retry vs answer w2 where
      retry: "rebuild_card env c p anc = Ok retry"
      and vs: "(build_shifted_versions (ce_hash env) (ce_now env) shifted cards :: (unit, card list) outcome) = Ok vs"
      and push2: "try_push_batch env (map (\<lambda>sc. ItemCards [sc]) (vs @ [retry])) w = Ok (answer, w2)"
      by (auto simp: push_resolved_def bind_outcome_Ok)
    have kept: "w2 = w'" "kept = None \<longrightarrow> answer = Accepted"
      using ok Rebalanced retry vs push2 by (cases answer; auto simp: push_resolved_def)+
    note push = push2 [unfolded kept(1)]
    note same = rebuild_same_edit(1) [OF retry anc]
    have "set (vs @ [retry]) \<subseteq> pushed_for c (app_cards app)"
      using build_shifted_same_edit [OF vs] cards same by (auto simp: pushed_for_def same_edit_def)
    then show ?thesis
      using only_pushed_mono [OF try_push_batch_server(1) [OF push req]]
        server_holds_pushed [OF _ same] try_push_batch_server(2) [OF push req] kept(2) by simp
  qed
  then show "only_pushed E (pushed_for c (app_cards app)) (server w) (server w')"
    "kept = None \<Longrightarrow> server_holds E (server w') c" by blast+
qed

lemma flush_collision_server:
  assumes ok: "flush_collision env c (app, w) = Ok ((kept, hit), app', w')"
    and req: "unreliable E now server (ce_request env)" and sh: "shuffles env"
  shows "only_pushed E (pushed_for c (app_cards app)) (server w) (server w')"
    and "kept = None \<Longrightarrow> server_holds E (server w') c"
proof -
  define cards where "cards = sort_by_priority (ce_to_lower env) (ce_shuffle env)
    (filter (\<lambda>d. card_id d \<noteq> card_id c) (app_cards app))"
  have cards: "set cards \<subseteq> set (app_cards app)"
    unfolding cards_def by (auto simp: set_sort_by_priority [OF sh])
  obtain fetched w1 where fetch: "fetch_ancestor env c w = Ok (fetched, w1)"
    using ok unfolding flush_collision_def by (auto simp: Let_def bind_outcome_Ok)
  note rest = ok [unfolded flush_collision_def Let_def prod.case fetch bind_outcome.simps, folded cards_def]
  note same = fetch_ancestor_server [OF fetch req]
  have "only_pushed E (pushed_for c (app_cards app)) (server w) (server w') \<and>
    (kept = None \<longrightarrow> server_holds E (server w') c)"
  proof (cases fetched)
    case (Inl k)
    then show ?thesis
      using rest same fetch_ancestor_kept [OF fetch [unfolded Inl]] by auto
  next
    case (Inr anc)
    note anc = fetch_ancestor_found [OF fetch [unfolded Inr] unreliable_honest [OF req]]
    have resolved: "push_resolved env c cards anc (app, w1) = Ok ((kept, hit), app', w')"
      using rest Inr by simp
    show ?thesis
      using push_resolved_server [OF resolved anc cards req] unfolding same by blast
  qed
  then show "only_pushed E (pushed_for c (app_cards app)) (server w) (server w')"
    "kept = None \<Longrightarrow> server_holds E (server w') c" by blast+
qed


lemma flush_one_server:
  assumes ok: "flush_one env c (app, w) = Ok ((kept, hit), app', w')"
    and req: "unreliable E now server (ce_request env)" and sh: "shuffles env"
  shows "only_pushed E (pushed_for c (app_cards app)) (server w) (server w')"
    and "kept = None \<Longrightarrow> server_holds E (server w') c \<or> given_up env c w"
proof -
  let ?V = "pushed_for c (app_cards app)"
  obtain answer w1 where first: "try_push env c w = Ok (answer, w1)"
    using ok by (auto simp: flush_one_def bind_outcome_Ok)
  note def = ok [unfolded flush_one_def prod.case first bind_outcome.simps]
  note one = only_pushed_self [OF try_push_server(1) [OF first req] same_edit_refl, of "app_cards app"]
  have rebuilt: "only_pushed E ?V (server w) (server w2) \<and> (a = Accepted \<longrightarrow> server_holds E (server w2) c)"
    if "try_push env v w1 = Ok (a, w2)" "same_edit v c" for v a w2
    using only_pushed_trans [OF one only_pushed_self [OF try_push_server(1) [OF that(1) req] that(2)]]
      server_holds_pushed [OF try_push_server(2) [OF that(1) req] that(2)] by blast
  have "only_pushed E ?V (server w) (server w') \<and>
    (kept = None \<longrightarrow> server_holds E (server w') c \<or> given_up env c w)"
  proof (cases answer)
    case Accepted
    then show ?thesis
      using def one server_holds_pushed [OF try_push_server(2) [OF first req] same_edit_refl] by simp
  next
    case Duplicate
    then have coll: "flush_collision env c (app, w1) = Ok ((kept, hit), app', w')" using def by simp
    show ?thesis
      using only_pushed_trans [OF one flush_collision_server(1) [OF coll req sh]]
        flush_collision_server(2) [OF coll req sh] by blast
  next
    case (Stale sc)
    have sc: "\<forall>a. Some sc = Some a \<longrightarrow> card_id a = card_id c"
      using honest_transport.try_push_stale [OF unreliable_honest [OF req] first [unfolded Stale] refl] by simp
    with Stale def obtain rebased a w2 where
      r: "rebuild_card env c (card_priority c) (Some sc) = Ok rebased"
      and p: "try_push env rebased w1 = Ok (a, w2)"
      by (auto simp: bind_outcome_Ok)
    have "given_up env c w" if "a \<noteq> Accepted" "a \<noteq> Lost"
      using first Stale r p that unfolding given_up_def by blast
    moreover have "w2 = w'" "kept = None \<longrightarrow> a \<noteq> Lost"
      using def [unfolded Stale push_answer.simps r bind_outcome.simps p prod.case]
      by (cases a; clarsimp)+
    moreover note rebuilt [OF p rebuild_same_edit(1) [OF r sc]]
    ultimately show ?thesis by blast
  next
    case Unverified
    with def obtain recreated a w2 where
      r: "rebuild_card env c (card_priority c) None = Ok recreated"
      and p: "try_push env recreated w1 = Ok (a, w2)"
      by (auto simp: bind_outcome_Ok)
    have "w2 = w'" "kept = None \<longrightarrow> a = Accepted"
      using def [unfolded Unverified push_answer.simps r bind_outcome.simps p prod.case]
      by (cases a; clarsimp)+
    moreover have "same_edit recreated c" using rebuild_same_edit(1) [OF r] by simp
    moreover note rebuilt [OF p this]
    ultimately show ?thesis by blast
  next
    case Gone
    then have "given_up env c w" using first unfolding given_up_def by blast
    then show ?thesis using def Gone one by simp
  qed (use def one in auto)
  then show "only_pushed E ?V (server w) (server w')"
    "kept = None \<Longrightarrow> server_holds E (server w') c \<or> given_up env c w" by blast+
qed

section \<open>The flush of the queue, seen from the server\<close>

text \<open>The edit has arrived: the local list has it, and the server's card carries it.\<close>

definition arrived :: "ext \<Rightarrow> db \<Rightarrow> card list \<Rightarrow> card \<Rightarrow> bool" where
  "arrived E db cards c \<longleftrightarrow> has_edit cards c \<and> server_holds E db c"

lemma arrived_stays:
  assumes "only_pushed E (pushed_for q cards) db db'" "has_edit cards' c" "card_id c \<noteq> card_id q"
    and "arrived E db cards c"
  shows "arrived E db' cards' c"
proof -
  have "server_holds E db' c"
  proof (cases "card_log.entry db' (card_id c) = card_log.entry db (card_id c)")
    case True
    then show ?thesis using assms(4) by (simp add: arrived_def server_holds_def)
  next
    case False
    then obtain v where v: "v \<in> pushed_for q cards" "card_id v = card_id c"
      "card_log.entry db' (card_id c) = Some (card_params E v)"
      using assms(1) unfolding only_pushed_def by blast
    then obtain d where d: "d \<in> set cards" "same_edit v d"
      using assms(3) by (auto simp: pushed_for_def)
    then have "same_edit d c"
      using assms(4) v(2) by (auto simp: arrived_def has_edit_def same_edit_def)
    then show ?thesis using v(3) d(2) same_edit_trans unfolding server_holds_def by blast
  qed
  with assms(2) show ?thesis by (simp add: arrived_def)
qed

lemma flush_one_arrived:
  assumes ok: "flush_one env c (app, w) = Ok ((kept, hit), app', w')"
    and req: "unreliable E now server (ce_request env)" and sh: "shuffles env"
  shows "arrived E (server w) (app_cards app) x \<Longrightarrow> card_id x \<noteq> card_id c \<Longrightarrow> arrived E (server w') (app_cards app') x"
    and "(\<exists>k\<in>set (keep_card kept). same_edit k c) \<or> arrived E (server w') (app_cards app') c \<or> given_up env c w"
proof -
  obtain f where f: "fate_ok env c w app f kept app'"
    using flush_one_fate [OF ok unreliable_honest [OF req] sh] by blast
  show "arrived E (server w) (app_cards app) x \<Longrightarrow> card_id x \<noteq> card_id c \<Longrightarrow> arrived E (server w') (app_cards app') x"
    using arrived_stays [OF flush_one_server(1) [OF ok req sh]] fate_keeps_others [OF f]
    by (auto simp: arrived_def)
  show "(\<exists>k\<in>set (keep_card kept). same_edit k c) \<or> arrived E (server w') (app_cards app') c \<or> given_up env c w"
    using f flush_one_server(2) [OF ok req sh] fate_settles [OF f]
    by (cases f) (auto simp: arrived_def)
qed

definition flushed_ok ::
  "ext \<Rightarrow> ('w \<Rightarrow> db) \<Rightarrow> ('w, 'm, 'n) client_env \<Rightarrow> card list \<Rightarrow> bool \<Rightarrow> card list \<Rightarrow> 'w session \<Rightarrow> card list \<Rightarrow> 'w session \<Rightarrow> card \<Rightarrow> bool"
where
  "flushed_ok E server env queue hit remaining st rem' st' c \<longleftrightarrow>
     (\<exists>k\<in>set rem'. same_edit k c) \<or> arrived E (server (snd st')) (app_cards (fst st')) c \<or>
     refused_in_flush env queue hit remaining st c"

lemma flush_cards_arrived:
  assumes "flush_cards env queue hit remaining (app, w) = Ok (rem', app', w')"
    and "unreliable E now server (ce_request env)" "shuffles env" "distinct (map card_id queue)"
  shows "set remaining \<subseteq> set rem'"
    and "arrived E (server w) (app_cards app) x \<Longrightarrow> card_id x \<notin> card_id ` set queue \<Longrightarrow>
      arrived E (server w') (app_cards app') x"
    and "c \<in> set queue \<Longrightarrow> flushed_ok E server env queue hit remaining (app, w) rem' (app', w') c"
proof -
  have "set remaining \<subseteq> set rem' \<and>
    (\<forall>x. arrived E (server w) (app_cards app) x \<longrightarrow> card_id x \<notin> card_id ` set queue \<longrightarrow>
       arrived E (server w') (app_cards app') x) \<and>
    (\<forall>c\<in>set queue. flushed_ok E server env queue hit remaining (app, w) rem' (app', w') c)"
    using assms(1,4)
  proof (induction queue arbitrary: hit remaining app w)
    case (Cons q queue)
    have dist: "distinct (map card_id queue)" "card_id q \<notin> card_id ` set queue"
      using Cons.prems(2) by auto
    show ?case
    proof (cases hit)
      case True
      then have "flush_cards env queue True (remaining @ [q]) (app, w) = Ok (rem', app', w')"
        using Cons.prems(1) by simp
      note IH = Cons.IH [OF this dist(1)]
      have "flushed_ok E server env (q # queue) True remaining (app, w) rem' (app', w') q"
        using IH by (auto simp: flushed_ok_def intro: bexI [of _ q])
      moreover have "flushed_ok E server env (q # queue) True remaining (app, w) rem' (app', w') c"
        if "c \<in> set queue" for c
        using IH that refused_skip unfolding flushed_ok_def by blast
      ultimately show ?thesis using IH True by simp
    next
      case False
      with Cons.prems(1) obtain kept hit1 app1 w1 where
        one: "flush_one env q (app, w) = Ok ((kept, hit1), app1, w1)"
        and rest: "flush_cards env queue hit1 (remaining @ keep_card kept) (app1, w1) = Ok (rem', app', w')"
        by (auto simp: bind_outcome_Ok)
      note first = flush_one_arrived [OF one assms(2,3)]
      note IH = Cons.IH [OF rest dist(1)]
      have "flushed_ok E server env (q # queue) False remaining (app, w) rem' (app', w') q"
        using first(2) IH dist(2) refused_first unfolding flushed_ok_def by fastforce
      moreover have "flushed_ok E server env (q # queue) False remaining (app, w) rem' (app', w') c"
        if "c \<in> set queue" for c
        using IH that refused_later [OF _ one] unfolding flushed_ok_def by blast
      ultimately show ?thesis using IH first(1) False by simp
    qed
  qed simp
  then show "set remaining \<subseteq> set rem'"
    "arrived E (server w) (app_cards app) x \<Longrightarrow> card_id x \<notin> card_id ` set queue \<Longrightarrow>
      arrived E (server w') (app_cards app') x"
    "c \<in> set queue \<Longrightarrow> flushed_ok E server env queue hit remaining (app, w) rem' (app', w') c"
    by blast+
qed

section \<open>No edit is lost\<close>

text \<open>C7: Flushing the offline queue loses no edit silently, over a connection that may break at any request,
  before or after the server handled it. Of every queued card, afterwards: its edit (content, tags,
  blaze state, due date) is still queued; or it has arrived, the local list has it and the card the
  server then holds carries it, whatever else the flush pushed; or the server declared the card
  deleted or refused it after a rebase; or a newer version of the card had already arrived and made
  it obsolete.\<close>

theorem flush_loses_no_edit:
  assumes "flush_offline_queue env (app, w) = Ok (app', w')"
    and "unreliable E now server (ce_request env)" "shuffles env"
    and "distinct (map card_id (app_offline_queue app))" "c \<in> set (app_offline_queue app)"
  shows "(\<exists>k\<in>set (app_offline_queue app'). same_edit k c) \<or>
    has_edit (app_cards app') c \<and>
      (\<exists>v. same_edit v c \<and> card_log.entry (server w') (card_id c) = Some (card_params E v)) \<or>
    refused_in_flush env (reconcile_offline_queue (app_offline_queue app) (app_cards app))
      False [] (app, w) c \<or>
    card_ancestor_hash c \<noteq> ZERO_HASH \<and>
      (\<exists>d\<in>set (app_cards app). card_id d = card_id c \<and> card_count c < card_count d)"
  using assms(1)
proof (cases rule: flush_offline_queue_cases)
  case reconciled
  then have "c \<notin> set (reconcile_offline_queue (app_offline_queue app) (app_cards app))" by simp
  then show ?thesis
    using assms(5) by (auto simp: reconcile_offline_queue_def list_ex_iff split: if_splits)
next
  case (flushed remaining app1)
  let ?q = "reconcile_offline_queue (app_offline_queue app) (app_cards app)"
  have app': "app_cards app' = app_cards app1" "app_offline_queue app' = remaining"
    using flushed(2) by auto
  show ?thesis
  proof (cases "c \<in> set ?q")
    case True
    have "distinct (map card_id ?q)"
      using assms(4) by (simp add: reconcile_offline_queue_def distinct_map_filter)
    from flush_cards_arrived(3) [OF flushed(1) assms(2,3) this True] show ?thesis
      unfolding app' flushed_ok_def arrived_def server_holds_def fst_conv snd_conv by blast
  next
    case False
    then show ?thesis
      using assms(5) by (auto simp: reconcile_offline_queue_def list_ex_iff split: if_splits)
  qed
qed (use assms(5) in simp)

lemma demo_flush:
  "flush_offline_queue demo_env (demo_app, empty_db) =
     Ok (save_local_state demo_env
       (save_queue demo_env (app_upsert demo_card demo_app\<lparr>app_offline_queue := []\<rparr>)), demo_db)"
proof -
  have "reconcile_offline_queue [demo_card] [demo_card] = [demo_card]"
    by (simp add: reconcile_offline_queue_def)
  then show ?thesis
    by (simp add: flush_offline_queue_def demo_app_def Let_def flush_one_def demo_push)
qed

lemma demo_app_queue: "app_offline_queue demo_app = [demo_card]" "app_cards demo_app = [demo_card]"
  by (simp_all add: demo_app_def)

lemma demo_unreliable: "unreliable demo_ext 0 (\<lambda>db. db) (ce_request demo_env)"
  by (simp add: unreliable_def demo_env_def)

theorem flush_loses_no_edit_witness:
  "\<exists>app'. flush_offline_queue demo_env (demo_app, empty_db) = Ok (app', demo_db) \<and>
    ((\<exists>k. k \<in> set (app_offline_queue app') \<and> same_edit k demo_card) \<or>
     has_edit (app_cards app') demo_card \<and>
       (\<exists>v. same_edit v demo_card \<and>
          card_log.entry demo_db (card_id demo_card) = Some (card_params demo_ext v)) \<or>
     refused_in_flush demo_env [demo_card] False [] (demo_app, empty_db) demo_card)"
proof -
  have queued: "distinct (map card_id (app_offline_queue demo_app))"
    "demo_card \<in> set (app_offline_queue demo_app)"
    by (simp_all add: demo_app_queue)
  note flush_loses_no_edit [OF demo_flush demo_unreliable demo_env_ok(2) queued, unfolded demo_app_queue]
  moreover have "reconcile_offline_queue [demo_card] [demo_card] = [demo_card]"
    by (simp add: reconcile_offline_queue_def)
  ultimately show ?thesis using demo_flush by auto
qed

text \<open>C8: An edit handed to the push is never lost: afterwards it is either in the offline queue, or it
  is the server's current version of the card, as given, rebased on the server's, or recreated.\<close>

theorem push_loses_no_edit:
  assumes "push_card_or_queue env c (app, w) = Ok (app', w')"
    and "ce_request env = online_request E now"
  shows "(\<exists>k\<in>set (app_offline_queue app'). same_edit k c) \<or>
    (\<exists>v. same_edit v c \<and> card_log.entry w' (card_id c) = Some (card_params E v))"
  by (rule push_reaches_server [OF assms])

lemma demo_push_or_queue:
  "push_card_or_queue demo_env demo_card (demo_app, empty_db) =
     Ok (clear_queued_card demo_env (card_id demo_card) demo_app, demo_db)"
proof -
  have "app_connected demo_app" by (simp add: demo_app_def)
  then show ?thesis by (simp add: push_card_or_queue_def Let_def demo_push)
qed

lemma demo_env_request: "ce_request demo_env = online_request demo_ext 0"
  by (simp add: demo_env_def)

theorem push_loses_no_edit_witness:
  "\<exists>app'. push_card_or_queue demo_env demo_card (demo_app, empty_db) = Ok (app', demo_db) \<and>
    ((\<exists>k. k \<in> set (app_offline_queue app') \<and> same_edit k demo_card) \<or>
     (\<exists>v. same_edit v demo_card \<and>
        card_log.entry demo_db (card_id demo_card) = Some (card_params demo_ext v)))"
  using push_loses_no_edit [OF demo_push_or_queue demo_env_request] demo_push_or_queue by auto

section \<open>The queue survives a restart\<close>

text \<open>C9: Whatever sequence of pushes, flushes and syncs a session runs, as long as the disk takes
  writes and every queue it holds can be encoded, a restart loads exactly the queue in memory, and
  the queue never holds two versions of one card.\<close>

theorem queue_survives_restart:
  assumes "(offline_step env decode)\<^sup>*\<^sup>* app app'" "honest_transport (ce_request env)" "shuffles env"
    and "queue_ok env decode app"
  shows "load_offline_queue decode (app_disk app') = app_offline_queue app' \<and>
    distinct (map card_id (app_offline_queue app'))"
  using offline_steps_ok [OF assms] by (simp add: queue_ok_def queue_on_disk_def)

definition demo_offline :: app_state where
  "demo_offline = demo_app\<lparr>app_connected := False, app_offline_queue := []\<rparr>"

lemma demo_offline_push:
  "push_card_or_queue demo_env demo_card (demo_offline, empty_db) =
     Ok (queue_and_save demo_env (card_id demo_card) demo_card demo_offline, empty_db)"
  by (simp add: push_card_or_queue_def Let_def demo_offline_def)

lemma demo_offline_queue:
  "app_offline_queue (queue_and_save demo_env (card_id demo_card) demo_card demo_offline) = [demo_card]"
  by (simp add: queue_and_save_def enqueue_card_def demo_offline_def)

theorem queue_survives_restart_witness:
  "load_offline_queue (\<lambda>bs. Some [demo_card])
     (app_disk (queue_and_save demo_env (card_id demo_card) demo_card demo_offline)) = [demo_card]"
proof -
  let ?decode = "\<lambda>bs :: bytes. Some [demo_card]"
  have "storable demo_env ?decode [demo_card]"
    by (simp add: storable_def demo_env_def)
  then have "offline_step demo_env ?decode demo_offline
      (queue_and_save demo_env (card_id demo_card) demo_card demo_offline)"
    using push_step [OF demo_offline_push, of ?decode] unfolding demo_offline_queue by blast
  then have run: "(offline_step demo_env ?decode)\<^sup>*\<^sup>* demo_offline
      (queue_and_save demo_env (card_id demo_card) demo_card demo_offline)"
    by blast
  have "queue_ok demo_env ?decode demo_offline"
    by (simp add: queue_ok_def queue_on_disk_def demo_offline_def demo_app_def load_offline_queue_def
        opfs_read_bytes_def opfs_read_def)
  then show ?thesis
    using queue_survives_restart [OF run demo_env_ok] unfolding demo_offline_queue by blast
qed

section \<open>Convergence\<close>

text \<open>C10: A sync with nothing queued ends with the client holding exactly the server's state: every
  live card and tag once, and the current root. It does so for a client without a root, for one
  whose lists were in step with an earlier state up to its own accepted pushes, and for one that
  presents the root of another history.\<close>

theorem sync_converges:
  assumes "index_map_ok (ce_card_map env)" "index_map_ok (ce_tag_map env)" "postcard_ok E"
    and "reachable E K w" "ce_request env = online_request E now" "app_offline_queue app = []"
    and "app_root app = None \<or>
      (\<exists>d. reachable E K d \<and> run E K d w \<and> in_sync E d w app) \<or>
      (\<exists>root. app_root app = Some root \<and> foreign_root w root)"
  shows "\<exists>app'. incremental_sync env (app, w) = Ok (Ok (), app', w) \<and> converged E w app'"
proof -
  note inv = reachable_inv [OF assms(4)]
  have flushed: ?thesis
    if "incremental_sync env (app, w) = map_ok (\<lambda>st. (Ok (), st)) (flush_offline_queue env (app1, w))"
      "converged E w app1" "app_offline_queue app1 = app_offline_queue app" for app1
    using that assms(6) by (simp add: flush_empty)
  from assms(7) show ?thesis
  proof (elim disjE exE conjE)
    assume "app_root app = None"
    then show ?thesis using incremental_sync_first [OF assms(3) inv assms(5)] by blast
  next
    fix d assume d: "reachable E K d" "run E K d w" "in_sync E d w app"
    note steps = conjunct1 [OF run_steps [OF d(2) reachable_inv [OF d(1)]]]
    show ?thesis
      using incremental_sync_current [OF assms(1-3) reachable_inv [OF d(1)] steps assms(5) d(3)] flushed
      by blast
  next
    fix root assume "app_root app = Some root" "foreign_root w root"
    then show ?thesis using incremental_sync_foreign [OF assms(3) inv assms(5)] flushed by blast
  qed
qed

definition demo_fresh :: app_state where
  "demo_fresh = demo_app\<lparr>app_cards := [], app_offline_queue := []\<rparr>"

lemma demo_maps: "index_map_ok (ce_card_map demo_env)" "index_map_ok (ce_tag_map demo_env)"
  by (simp_all add: demo_env_def assoc_map_ok)

lemma demo_fresh_fields: "app_root demo_fresh = None" "app_offline_queue demo_fresh = []"
  by (simp_all add: demo_fresh_def demo_app_def)

theorem sync_converges_witness:
  "\<exists>app'. incremental_sync demo_env (demo_fresh, demo_db) = Ok (Ok (), app', demo_db) \<and>
    converged demo_ext demo_db app'"
  by (rule sync_converges [OF demo_maps demo_postcard demo_reachable demo_env_request])
    (simp_all add: demo_fresh_fields)

text \<open>C11: An edit that is made locally, pushed and acknowledged, then followed by any requests of
  other clients and a sync, leaves the client with the server's list, in the server's order: its own
  push neither confuses the merge nor hides what the others did.\<close>

theorem acknowledged_edit_then_sync:
  assumes "index_map_ok (ce_card_map env)" "index_map_ok (ce_tag_map env)" "postcard_ok E"
    and "reachable E K d" "run E K d w" "in_sync E d w app"
    and "ce_request env = online_request E now" "timestamp_ok E (ce_now env)"
    and "card_typed E c" "card_id c \<in> K"
    and "push_card_or_queue env c (app_upsert c app, w) = Ok (app1, w1)" "app_offline_queue app1 = []"
    and "run E K w1 w2"
  shows "\<exists>app'. incremental_sync env (app1, w2) = Ok (Ok (), app', w2) \<and> converged E w2 app' \<and>
    storage_list_cards E w2 FilterAll None = Ok (app_cards app')"
proof -
  note inv = reachable_inv [OF assms(4)]
  note steps = conjunct1 [OF run_steps [OF assms(5) inv]]
  note pushed = push_keeps_in_sync [OF assms(3) inv steps assms(7,8,9,10,6,11)]
  have sync1: "in_sync E d w1 app1" and steps1: "(inv_step E K)\<^sup>*\<^sup>* d w1"
    using pushed assms(12) by simp_all
  have inv1: "storage_inv E K w1"
    using card_log.run_facts [OF steps1 inv] by blast
  note steps12 = conjunct1 [OF run_steps [OF assms(13) inv1]]
  have steps2: "(inv_step E K)\<^sup>*\<^sup>* d w2"
    using steps1 steps12 by (rule rtranclp_trans)
  have inv2: "storage_inv E K w2"
    using card_log.run_facts [OF steps2 inv] by blast
  have "in_sync E d w2 app1"
    by (rule in_sync_run [OF inv steps1 steps12 sync1])
  from incremental_sync_current [OF assms(1-3) inv steps2 assms(7) this] show ?thesis
    using assms(12) list_all_cards [OF assms(3) inv2] by (auto simp: flush_empty)
qed

definition demo_synced :: app_state where
  "demo_synced = demo_app\<lparr>app_cards := [], app_offline_queue := [],
     app_root := Some (current_root empty_db)\<rparr>"

lemma demo_synced_in_sync: "in_sync demo_ext empty_db empty_db demo_synced"
  by (simp add: in_sync_def demo_synced_def demo_app_def entry_in_def card_entries_def tag_entries_def
      card_log.entry_def tag_log.entry_def empty_db_def find_row_def)

lemma demo_synced_push:
  "push_card_or_queue demo_env demo_card (app_upsert demo_card demo_synced, empty_db) =
     Ok (app_upsert demo_card demo_synced, demo_db)"
proof -
  have "app_connected (app_upsert demo_card demo_synced)"
    "app_offline_queue (app_upsert demo_card demo_synced) = []"
    by (simp_all add: demo_synced_def demo_app_def app_upsert_def)
  then show ?thesis by (simp add: push_card_or_queue_def Let_def demo_push clear_queued_card_def)
qed

theorem acknowledged_edit_then_sync_witness:
  "\<exists>app'. incremental_sync demo_env (app_upsert demo_card demo_synced, demo_db) =
      Ok (Ok (), app', demo_db) \<and> converged demo_ext demo_db app' \<and>
    storage_list_cards demo_ext demo_db FilterAll None = Ok (app_cards app')"
proof -
  have "timestamp_ok demo_ext (ce_now demo_env)" by (simp add: demo_env_def)
  moreover have "card_typed demo_ext demo_card" "card_id demo_card \<in> {1}"
    by (simp_all add: card_typed_def nn_ok_def i64_max_def)
  moreover have "app_offline_queue (app_upsert demo_card demo_synced) = []"
    by (simp add: demo_synced_def)
  ultimately show ?thesis
    using acknowledged_edit_then_sync [OF demo_maps demo_postcard reachable_init run_refl
        demo_synced_in_sync demo_env_request _ _ _ demo_synced_push _ run_refl] by blast
qed

section \<open>Where the client and the server part\<close>

text \<open>A client whose root is ahead of the server's (a server restored from an older backup) is
  not told of the mismatch: any hash is accepted for a sequence the server has not reached, the
  change set is empty, and the client keeps every local card while it takes over the older root.\<close>

theorem client_ahead_keeps_its_cards:
  assumes "index_map_ok (ce_card_map env)" "postcard_ok E" "reachable E K w"
    and "ce_request env = online_request E now" "app_offline_queue app = []"
    and "app_root app = Some root" "db_sequence w < i64_from_nn (root_sequence root)"
    and "distinct (map card_id (app_cards app))"
  shows "\<exists>app'. incremental_sync env (app, w) = Ok (Ok (), app', w) \<and>
    app_root app' = Some (current_root w) \<and> set (app_cards app) \<subseteq> set (app_cards app')"
proof -
  note inv = reachable_inv [OF assms(3)]
  let ?changes = "\<lparr>cs_cards = [], cs_tags = [], cs_deleted = [], cs_root = current_root w\<rparr>"
  let ?app = "apply_changes env ?changes (app\<lparr>app_status := Syncing\<rparr>)"
  have "get_changes_since (ce_request env) (root_sequence root) (root_hash root) w = (Ok ?changes, w)"
    using no_changes [OF inv] no_hash_ahead [OF inv] assms(7)
    by (simp add: assms(4) get_changes_online [OF assms(2) inv])
  moreover have "app_offline_queue ?app = []" "app_root ?app = Some (current_root w)"
    using assms(5) by (simp_all add: apply_changes_def Let_def)
  moreover have "set (app_cards app) \<subseteq> set (app_cards ?app)"
    using merge_keeps_untouched [OF assms(1,8)] by (auto simp: apply_changes_def Let_def)
  ultimately show ?thesis
    using assms(6) by (intro exI [of _ ?app]) (simp add: incremental_sync_def Let_def flush_empty)
qed

lemma demo_seen: "app_root (demo_app\<lparr>app_root := Some (current_root demo_db), app_offline_queue := []\<rparr>) =
    Some (current_root demo_db)"
  by simp

theorem client_ahead_keeps_its_cards_witness:
  "\<exists>app'. incremental_sync demo_env
      (demo_app\<lparr>app_root := Some (current_root demo_db), app_offline_queue := []\<rparr>, empty_db) =
      Ok (Ok (), app', empty_db) \<and>
    app_root app' = Some (current_root empty_db) \<and> demo_card \<in> set (app_cards app')"
proof -
  let ?app = "demo_app\<lparr>app_root := Some (current_root demo_db), app_offline_queue := []\<rparr>"
  have app: "app_cards ?app = [demo_card]" "app_offline_queue ?app = []"
    by (simp_all add: demo_app_def)
  have "db_sequence empty_db < i64_from_nn (root_sequence (current_root demo_db))"
    "distinct (map card_id (app_cards ?app))"
    by (simp_all add: empty_db_def current_root_def i64_from_nn_def demo_entry demo_app_queue)
  from client_ahead_keeps_its_cards [OF demo_maps(1) demo_postcard reachable_init demo_env_request
      app(2) demo_seen this]
  show ?thesis unfolding app(1) by auto
qed

text \<open>A queued edit of a card that the server deleted before the client's root is dropped from
  the queue, but its local copy is not: the list goes on showing a card the server does not have, and
  no later change set speaks of it.\<close>

theorem deleted_card_stays_listed:
  assumes "index_map_ok (ce_card_map env)" "postcard_ok E" "reachable E K w"
    and "ce_request env = online_request E now" "app_root app = Some (current_root w)"
    and "app_offline_queue app = [c]" "c \<in> set (app_cards app)" "distinct (map card_id (app_cards app))"
    and "card_id c \<in> deleted_ids w" "card_verify (blake3 E) c"
  shows "\<exists>app'. incremental_sync env (app, w) = Ok (Ok (), app', w) \<and> app_offline_queue app' = [] \<and>
    c \<in> set (app_cards app') \<and> storage_get_card E w (card_id c) = Ok None"
proof -
  note inv = reachable_inv [OF assms(3)]
  let ?changes = "\<lparr>cs_cards = [], cs_tags = [], cs_deleted = [], cs_root = current_root w\<rparr>"
  let ?app = "apply_changes env ?changes (app\<lparr>app_status := Syncing\<rparr>)"
  have "i64_from_nn (NonNegativeI64 (db_sequence w)) = db_sequence w"
    by (simp add: i64_from_nn_def)
  then have changes: "get_changes_since (ce_request env) (root_sequence (current_root w))
      (root_hash (current_root w)) w = (Ok ?changes, w)"
    using changes_since_root [OF assms(2) inv rtranclp.rtrancl_refl] no_changes [OF inv order_refl]
    by (simp add: assms(4) get_changes_since_def requested_def online_request_def into_changes_def
        extract_variant_def)
  have queue: "app_offline_queue ?app = [c]"
    using assms(6) by (simp add: apply_changes_def Let_def)
  have c: "c \<in> set (app_cards ?app)"
    using merge_keeps_untouched [OF assms(1,8,7)] by (simp add: apply_changes_def Let_def)
  obtain app' where flush: "flush_offline_queue env (?app, w) = Ok (app', w)"
    and app': "app_offline_queue app' = []" "app_cards app' = app_cards ?app"
  proof (cases "reconcile_offline_queue [c] (app_cards ?app) = []")
    case True
    then show thesis using that queue by (simp add: flush_offline_queue_def Let_def)
  next
    case False
    then have "reconcile_offline_queue [c] (app_cards ?app) = [c]"
      by (simp add: reconcile_offline_queue_def split: if_splits)
    then show thesis
      using that queue push_deleted_answer [OF assms(4,10,9)]
      by (simp add: flush_offline_queue_def Let_def flush_one_def)
  qed
  have "storage_get_card E w (card_id c) = Ok None"
    using get_card_result [OF assms(2) inv] deleted_not_live [OF inv assms(9)] by simp
  then show ?thesis
    using changes flush app' c assms(5) by (intro exI [of _ app']) (simp add: incremental_sync_def Let_def)
qed

definition demo_ghost :: app_state where
  "demo_ghost = demo_app\<lparr>app_root := Some (current_root demo_deleted_db)\<rparr>"

theorem deleted_card_stays_listed_witness:
  "\<exists>app'. incremental_sync demo_env (demo_ghost, demo_deleted_db) = Ok (Ok (), app', demo_deleted_db) \<and>
    app_offline_queue app' = [] \<and> demo_card \<in> set (app_cards app') \<and>
    storage_get_card demo_ext demo_deleted_db 1 = Ok None"
proof -
  have "app_root demo_ghost = Some (current_root demo_deleted_db)"
    "app_offline_queue demo_ghost = [demo_card]" "demo_card \<in> set (app_cards demo_ghost)"
    "distinct (map card_id (app_cards demo_ghost))" "card_id demo_card \<in> deleted_ids demo_deleted_db"
    "card_verify (blake3 demo_ext) demo_card"
    using demo_deleted by (simp_all add: demo_ghost_def demo_app_def)
  from deleted_card_stays_listed [OF demo_maps(1) demo_postcard demo_deleted_reachable demo_env_request this]
  show ?thesis by simp
qed

text \<open>The end of a burst of moves: every version of it is queued or on the server.\<close>

text \<open>A pushed burst loses no version: whether it goes out as one batch, falls back to one push
  per card, or finds no connection, each of its versions is in the end in the offline queue or the
  server's current version of its card.\<close>

theorem burst_ends_settled:
  assumes "push_burst env primary siblings (app, w) = Ok (app', w')"
    and "ce_request env = online_request E now"
    and "distinct (map card_id (primary # siblings))" "v \<in> set (primary # siblings)"
  shows "(\<exists>k\<in>set (app_offline_queue app'). same_edit k v) \<or>
    (\<exists>u. same_edit u v \<and> card_log.entry w' (card_id v) = Some (card_params E u))"
  using push_burst_settles [OF assms] by (simp add: settled_edit_def)

definition demo_sibling :: card where
  "demo_sibling = card_first demo_hash 2 ''call home'' 9 [] False 1000 None"

lemma demo_sibling_id: "card_id demo_sibling = 2"
  by (simp add: demo_sibling_def)

definition demo_burst_app :: app_state where
  "demo_burst_app = queue_and_save demo_env (card_id demo_sibling) demo_sibling
     (queue_and_save demo_env (card_id demo_card) demo_card demo_offline)"

lemma queue_and_save_connected [simp]: "app_connected (queue_and_save env uid q app) = app_connected app"
  by (simp add: queue_and_save_def save_local_state_def save_queue_def enqueue_card_def Let_def
      split: option.split)

lemma demo_burst:
  "push_burst demo_env demo_card [demo_sibling] (demo_offline, empty_db) = Ok (demo_burst_app, empty_db)"
proof -
  have "\<not> app_connected demo_offline" by (simp add: demo_offline_def)
  then show ?thesis
    by (simp add: push_burst_def push_card_or_queue_def Let_def demo_burst_app_def)
qed

theorem burst_ends_settled_witness:
  "(\<exists>k. k \<in> set (app_offline_queue demo_burst_app) \<and> same_edit k demo_sibling) \<or>
   (\<exists>u. same_edit u demo_sibling \<and> card_log.entry empty_db 2 = Some (card_params demo_ext u))"
proof -
  have "distinct (map card_id [demo_card, demo_sibling])" "demo_sibling \<in> set [demo_card, demo_sibling]"
    by (simp_all add: demo_sibling_id)
  from burst_ends_settled [OF demo_burst demo_env_request this] show ?thesis
    by (auto simp: demo_sibling_id)
qed

end
