(* ===== verification/Rust_Text.thy ===== *)
theory Rust_Text
  imports Due_Date
begin

text \<open>
  The decimal texts of unsigned integers, as Rust's standard library prints and parses them, and
  that parsing a printed number gives it back. The settings, the server's configuration and the
  server address all go through these two functions.
\<close>

text \<open>\<open>str::parse\<close> for an unsigned type: an optional plus sign, then decimal digits whose value is
  below the bound of the type.\<close>

definition digit_value :: "char \<Rightarrow> nat option" where
  "digit_value c = (let n = of_char c :: nat in if 48 \<le> n \<and> n \<le> 57 then Some (n - 48) else None)"

fun parse_digits :: "nat \<Rightarrow> string \<Rightarrow> nat option" where
  "parse_digits acc [] = Some acc"
| "parse_digits acc (c # cs) =
     (case digit_value c of None \<Rightarrow> None | Some d \<Rightarrow> parse_digits (acc * 10 + d) cs)"

definition parse_unsigned :: "nat \<Rightarrow> string \<Rightarrow> nat option" where
  "parse_unsigned bound s =
     (let digits = (case s of CHR ''+'' # cs \<Rightarrow> cs | _ \<Rightarrow> s)
      in if digits = [] then None
         else case parse_digits 0 digits of
           Some n \<Rightarrow> if n < bound then Some n else None
         | None \<Rightarrow> None)"

definition parse_u16 :: "string \<Rightarrow> 16 word option" where
  "parse_u16 s = map_option of_nat (parse_unsigned (2 ^ 16) s)"

definition parse_u32 :: "string \<Rightarrow> 32 word option" where
  "parse_u32 s = map_option of_nat (parse_unsigned (2 ^ 32) s)"

definition u32_display :: "32 word \<Rightarrow> string" where
  "u32_display n = nat_digits (unat n)"

section \<open>Printed numbers read back\<close>

lemma digit_value_digit [simp]: "d < 10 \<Longrightarrow> digit_value (char_of (48 + d :: nat)) = Some d"
  by (simp add: digit_value_def)

lemma parse_digits_append:
  "parse_digits acc (s @ t) = (case parse_digits acc s of None \<Rightarrow> None | Some n \<Rightarrow> parse_digits n t)"
  by (induction acc s rule: parse_digits.induct) (auto split: option.splits)

lemma parse_nat_digits: "parse_digits 0 (nat_digits n) = Some n"
proof (induction n rule: nat_digits.induct)
  case (1 n)
  show ?case
  proof (cases "n < 10")
    case True
    then show ?thesis by (simp add: nat_digits.simps[of n])
  next
    case False
    then have "parse_digits 0 (nat_digits (n div 10)) = Some (n div 10)" using 1 by blast
    moreover have "digit_value (char_of (48 + n mod 10)) = Some (n mod 10)" by simp
    ultimately show ?thesis
      using False by (simp add: nat_digits.simps[of n] parse_digits_append div_mult_mod_eq)
  qed
qed

lemma nat_digits_nonempty [simp]: "nat_digits n \<noteq> []"
  by (simp add: nat_digits.simps[of n])

lemma nat_digits_digits: "c \<in> set (nat_digits n) \<Longrightarrow> 48 \<le> (of_char c :: nat) \<and> (of_char c :: nat) \<le> 57"
proof (induction n rule: nat_digits.induct)
  case (1 n)
  have "n mod 10 < 10" by simp
  then show ?case
    using 1 by (cases "n < 10") (auto simp: nat_digits.simps[of n])
qed

lemma nat_digits_no_sign: "nat_digits n \<noteq> CHR ''+'' # cs"
proof
  assume "nat_digits n = CHR ''+'' # cs"
  then have "CHR ''+'' \<in> set (nat_digits n)" by simp
  from nat_digits_digits[OF this] show False by simp
qed

lemma sign_stripped [simp]:
  "(case nat_digits n of CHR ''+'' # cs \<Rightarrow> cs | _ \<Rightarrow> nat_digits n) = nat_digits n"
proof -
  have "\<And>s :: string. (\<And>cs. s \<noteq> CHR ''+'' # cs) \<Longrightarrow> (case s of CHR ''+'' # cs \<Rightarrow> cs | _ \<Rightarrow> s) = s"
    by (auto split: list.splits char.splits bool.splits)
  then show ?thesis using nat_digits_no_sign by blast
qed

lemma parse_unsigned_digits: "n < bound \<Longrightarrow> parse_unsigned bound (nat_digits n) = Some n"
  by (simp add: parse_unsigned_def parse_nat_digits)

lemma parse_u32_display [simp]: "parse_u32 (u32_display n) = Some n"
proof -
  have "unat n < 2 ^ 32" using unsigned_less[of n, where 'a = nat] by simp
  then show ?thesis by (simp add: parse_u32_def u32_display_def parse_unsigned_digits)
qed

text \<open>
  What the sources use of Rust's texts, over the bytes of their UTF-8 encoding: white space, lines,
  tokens, characters and hexadecimal digits.
\<close>

section \<open>White space and tokens\<close>

definition CR :: char where "CR = CHR 0x0D"
definition LF :: char where "LF = CHR 0x0A"

text \<open>The length in bytes of the Unicode white-space character a text starts with, or 0.\<close>

definition white_len :: "string \<Rightarrow> nat" where
  "white_len s =
     (if s = [] then 0
      else if hd s \<in> set [CHR 0x09, LF, CHR 0x0B, CHR 0x0C, CR, CHR '' ''] then 1
      else if take 2 s \<in> set [[CHR 0xC2, CHR 0x85], [CHR 0xC2, CHR 0xA0]] then 2
      else if take 3 s \<in> set [[CHR 0xE1, CHR 0x9A, CHR 0x80], [CHR 0xE2, CHR 0x80, CHR 0xA8],
                 [CHR 0xE2, CHR 0x80, CHR 0xA9], [CHR 0xE2, CHR 0x80, CHR 0xAF],
                 [CHR 0xE2, CHR 0x81, CHR 0x9F], [CHR 0xE3, CHR 0x80, CHR 0x80]] then 3
      else if take 2 s = [CHR 0xE2, CHR 0x80] \<and> 2 < length s
              \<and> 128 \<le> (of_char (s ! 2) :: nat) \<and> (of_char (s ! 2) :: nat) \<le> 138 then 3
      else 0)"

lemma white_len_empty [simp]: "white_len [] = 0"
  by (simp add: white_len_def)

function skip_white :: "string \<Rightarrow> string" where
  "skip_white s = (if white_len s = 0 then s else skip_white (drop (white_len s) s))"
  by pat_completeness auto
termination by (relation "measure length") (auto intro: Nat.diff_less simp: length_greater_0_conv[symmetric] simp del: length_greater_0_conv)

declare skip_white.simps [simp del]

fun take_token :: "string \<Rightarrow> string" where
  "take_token [] = []"
| "take_token (c # cs) = (if 0 < white_len (c # cs) then [] else c # take_token cs)"

definition next_token :: "string \<Rightarrow> (string \<times> string) option" where
  "next_token s =
     (let t = skip_white s
      in if t = [] then None else Some (take_token t, drop (length (take_token t)) t))"

section \<open>Lines and characters\<close>

text \<open>\<open>str::lines\<close>: the texts between line feeds, a carriage return before a line feed left out, and no
  empty last line after a final line feed.\<close>

fun split_lf :: "string \<Rightarrow> string list" where
  "split_lf [] = [[]]"
| "split_lf (c # cs) =
     (if c = LF then [] # split_lf cs else (c # hd (split_lf cs)) # tl (split_lf cs))"

definition strip_cr :: "string \<Rightarrow> string" where
  "strip_cr l = (if l \<noteq> [] \<and> last l = CR then butlast l else l)"

definition rust_lines :: "string \<Rightarrow> string list" where
  "rust_lines s =
     (let ls = split_lf s; final = last ls
      in map strip_cr (butlast ls) @ (if final = [] then [] else [final]))"

definition utf8_continuation :: "char \<Rightarrow> bool" where
  "utf8_continuation c \<longleftrightarrow> 128 \<le> (of_char c :: nat) \<and> (of_char c :: nat) < 192"

definition char_count :: "string \<Rightarrow> nat" where
  "char_count s = length (filter (\<lambda>c. \<not> utf8_continuation c) s)"

text \<open>\<open>chars().take(n)\<close>: the bytes before the character after the first \<open>n\<close>.\<close>

fun take_chars :: "nat \<Rightarrow> string \<Rightarrow> string" where
  "take_chars n [] = []"
| "take_chars n (c # cs) =
     (if utf8_continuation c then c # take_chars n cs
      else case n of 0 \<Rightarrow> [] | Suc m \<Rightarrow> c # take_chars m cs)"

section \<open>Hexadecimal digits\<close>

definition hex_digit :: "nat \<Rightarrow> char" where
  "hex_digit n = char_of (if n < 10 then 48 + n else 87 + n)"

definition hex_value :: "char \<Rightarrow> nat option" where
  "hex_value c =
     (let n = of_char c :: nat
      in if 48 \<le> n \<and> n \<le> 57 then Some (n - 48)
         else if 97 \<le> n \<and> n \<le> 102 then Some (n - 87)
         else if 65 \<le> n \<and> n \<le> 70 then Some (n - 55)
         else None)"

lemma hex_value_digit: "n < 16 \<Longrightarrow> hex_value (hex_digit n) = Some n"
  by (simp add: hex_value_def hex_digit_def)

lemma hex_digit_plain: "n < 16 \<Longrightarrow> \<not> utf8_continuation (hex_digit n)"
  by (auto simp: utf8_continuation_def hex_digit_def)

lemma hex_digit_no_plus: "n < 16 \<Longrightarrow> hex_digit n \<noteq> CHR ''+''"
proof
  assume n: "n < 16" and "hex_digit n = CHR ''+''"
  then have "hex_value (hex_digit n) = hex_value (CHR ''+'')" by simp
  then show False using n by (simp add: hex_value_digit) (simp add: hex_value_def)
qed

lemma split_lf_nonempty [simp]: "split_lf s \<noteq> []"
  by (induction s) auto

lemma char_count_take_chars: "char_count (take_chars n s) \<le> n"
  by (induction n s rule: take_chars.induct) (auto simp: char_count_def split: nat.split)

lemma char_count_append [simp]: "char_count (s @ t) = char_count s + char_count t"
  by (simp add: char_count_def)

end
