(* ===== verification/Client_View.thy ===== *)
theory Client_View
  imports Client_Moves Rust_Text
begin

text \<open>
  The view state of the web client and its URL (clients/wasm/src/state/store.rs and
  query_params.rs): the filters, the selection and the panes, the functions that change them, and
  the query string that the browser's history keeps. A \<open>UrlSearchParams\<close> is the list of its pairs;
  its serialisation and the texts of UUIDs are arguments. The page is a record of the location and
  the entries pushed onto the history; \<open>confirm\<close> is the user's answer to the discard prompt.
\<close>

section \<open>Search parameters\<close>

type_synonym params = "(string \<times> string) list"

definition params_get :: "params \<Rightarrow> string \<Rightarrow> string option" where
  "params_get ps key = map_of ps key"

definition params_get_all :: "params \<Rightarrow> string \<Rightarrow> string list" where
  "params_get_all ps key = map snd (filter (\<lambda>p. fst p = key) ps)"

fun params_set :: "string \<Rightarrow> string \<Rightarrow> params \<Rightarrow> params" where
  "params_set key v [] = [(key, v)]"
| "params_set key v (p # ps) =
     (if fst p = key then (key, v) # filter (\<lambda>q. fst q \<noteq> key) ps else p # params_set key v ps)"

definition params_append :: "string \<Rightarrow> string \<Rightarrow> params \<Rightarrow> params" where
  "params_append key v ps = ps @ [(key, v)]"

section \<open>State\<close>

datatype NewCardPosition = NewTop | NewBottom | NewAbove uuid | NewBelow uuid

record NewCardPrefill =
  prefill_content :: string
  prefill_tags :: "uuid list"
  prefill_due_date :: "datetime option"

record view =
  v_filter :: card_filter
  v_due_date_filter :: DueDateFilter
  v_include_overdue :: bool
  v_sort_order :: SortOrder
  v_tag_filter :: "uuid list"
  v_tag_filter_mode :: TagFilterMode
  v_no_tags_filter :: bool
  v_search_query :: string
  v_linked_card_filter :: "uuid list"
  v_selected_card :: "uuid option"
  v_creating_new :: bool
  v_creating_new_tag :: bool
  v_new_card_prefill :: "NewCardPrefill option"
  v_new_card_position :: NewCardPosition
  v_editing :: bool
  v_has_unsaved_changes :: bool
  v_settings_open :: bool
  v_shortcuts_open :: bool

record page =
  pathname :: string
  search :: string
  pushed_urls :: "string list"

record view_env =
  ve_confirm :: bool
  ve_params_string :: "params \<Rightarrow> string"
  ve_parse_search :: "string \<Rightarrow> params"
  ve_uuid_string :: "uuid \<Rightarrow> string"
  ve_parse_uuid :: "string \<Rightarrow> uuid option"
  ve_hash :: "bytes \<Rightarrow> hash"
  ve_now :: datetime
  ve_keys_of :: "priority_burst \<Rightarrow> uuid list"

record ui =
  ui_view :: view
  ui_page :: page
  ui_moves :: move_state

section \<open>Reading the URL\<close>

definition get_query_params :: "view_env \<Rightarrow> page \<Rightarrow> params" where
  "get_query_params env pg = ve_parse_search env (search pg)"

definition parse_filter_from_params :: "params \<Rightarrow> card_filter" where
  "parse_filter_from_params ps =
     (case params_get ps ''f.status'' of
        Some s \<Rightarrow>
          if s = ''all'' then FilterAll
          else if s = ''blazed'' then FilterBlazed
          else if s = ''extinguished'' then FilterExtinguished
          else FilterExtinguished
      | None \<Rightarrow> FilterExtinguished)"

definition parse_due_date_filter_from_params :: "params \<Rightarrow> DueDateFilter" where
  "parse_due_date_filter_from_params ps =
     due_from_url_value (case params_get ps ''f.due'' of Some s \<Rightarrow> s | None \<Rightarrow> [])"

definition parse_tag_mode_from_params :: "params \<Rightarrow> TagFilterMode" where
  "parse_tag_mode_from_params ps =
     (case params_get ps ''f.tag_mode'' of Some s \<Rightarrow> mode_from_url_value s | None \<Rightarrow> ModeOr)"

definition parse_uuid_list :: "view_env \<Rightarrow> params \<Rightarrow> string \<Rightarrow> uuid list" where
  "parse_uuid_list env ps key = List.map_filter (ve_parse_uuid env) (params_get_all ps key)"

definition parse_tags_from_params :: "view_env \<Rightarrow> params \<Rightarrow> uuid list" where
  "parse_tags_from_params env ps = parse_uuid_list env ps ''f.tag''"

definition parse_no_tags_from_params :: "params \<Rightarrow> bool" where
  "parse_no_tags_from_params ps \<longleftrightarrow> params_get ps ''f.no_tags'' = Some ''1''"

definition parse_selected_card_from_params :: "view_env \<Rightarrow> params \<Rightarrow> uuid option" where
  "parse_selected_card_from_params env ps =
     (case params_get ps ''entity'' of Some s \<Rightarrow> ve_parse_uuid env s | None \<Rightarrow> None)"

definition parse_linked_cards_from_params :: "view_env \<Rightarrow> params \<Rightarrow> uuid list" where
  "parse_linked_cards_from_params env ps = parse_uuid_list env ps ''f.linked''"

definition parse_sort_from_params :: "params \<Rightarrow> SortOrder" where
  "parse_sort_from_params ps =
     (case params_get ps ''f.sort'' of Some s \<Rightarrow> sort_from_url_value s | None \<Rightarrow> sort_default)"

section \<open>Writing the URL\<close>

fun filter_to_str :: "card_filter \<Rightarrow> string" where
  "filter_to_str FilterAll = ''all''"
| "filter_to_str FilterBlazed = ''blazed''"
| "filter_to_str FilterExtinguished = ''extinguished''"

text \<open>\<open>if let Some(val) = \<dots> { params.set(key, val) }\<close>.\<close>

definition set_some :: "string \<Rightarrow> string option \<Rightarrow> params \<Rightarrow> params" where
  "set_some key v ps = (case v of Some s \<Rightarrow> params_set key s ps | None \<Rightarrow> ps)"

definition build_query_params :: "view_env \<Rightarrow> view \<Rightarrow> params" where
  "build_query_params env v =
     (let ps = [];
          ps = (if v_filter v \<noteq> FilterExtinguished
                then params_set ''f.status'' (filter_to_str (v_filter v)) ps else ps);
          ps = set_some ''f.due'' (due_url_value (v_due_date_filter v)) ps;
          ps = (if v_include_overdue v then params_set ''f.inc_overdue'' ''1'' ps else ps);
          ps = set_some ''f.sort'' (sort_url_value (v_sort_order v)) ps;
          ps = set_some ''f.tag_mode'' (mode_url_value (v_tag_filter_mode v)) ps;
          ps = (if v_no_tags_filter v then params_set ''f.no_tags'' ''1'' ps else ps);
          ps = fold (\<lambda>t. params_append ''f.tag'' (ve_uuid_string env t)) (v_tag_filter v) ps;
          ps = set_some ''entity'' (map_option (ve_uuid_string env) (v_selected_card v)) ps
      in fold (\<lambda>l. params_append ''f.linked'' (ve_uuid_string env l)) (v_linked_card_filter v) ps)"

definition build_query_string :: "view_env \<Rightarrow> view \<Rightarrow> string" where
  "build_query_string env v = ve_params_string env (build_query_params env v)"

definition sync_query_params :: "view_env \<Rightarrow> ui \<Rightarrow> ui" where
  "sync_query_params env ui =
     (let pg = ui_page ui;
          qs = build_query_string env (ui_view ui);
          new_url = (if qs = [] then pathname pg else pathname pg @ ''?'' @ qs);
          current_url = (if search pg = [] then pathname pg else pathname pg @ search pg)
      in if new_url = current_url then ui
         else ui\<lparr>ui_page := pg\<lparr>search := (if qs = [] then [] else ''?'' @ qs),
                pushed_urls := pushed_urls pg @ [new_url]\<rparr>\<rparr>)"

section \<open>Guards\<close>

definition confirm_discard_changes :: "view_env \<Rightarrow> ui \<Rightarrow> bool" where
  "confirm_discard_changes env ui \<longleftrightarrow> (if v_has_unsaved_changes (ui_view ui) then ve_confirm env else True)"

definition flush_pending_priority :: "view_env \<Rightarrow> ui \<Rightarrow> (unit, bool \<times> ui) outcome" where
  "flush_pending_priority env ui =
     (let had_burst = (ms_pending (ui_moves ui) \<noteq> None)
      in map_ok (\<lambda>m. (had_burst, ui\<lparr>ui_moves := m\<rparr>))
           (flush_burst (ve_hash env) (ve_now env) (ve_keys_of env) (ui_moves ui)))"

definition set_view :: "(view \<Rightarrow> view) \<Rightarrow> ui \<Rightarrow> ui" where
  "set_view f ui = ui\<lparr>ui_view := f (ui_view ui)\<rparr>"

text \<open>The start of the functions that replace what the user looks at: the prompt, then the flush.\<close>

definition guarded :: "view_env \<Rightarrow> (ui \<Rightarrow> ui) \<Rightarrow> ui \<Rightarrow> (unit, bool \<times> ui) outcome" where
  "guarded env rest ui =
     (if \<not> confirm_discard_changes env ui then Ok (False, ui)
      else bind_outcome (flush_pending_priority env ui) (\<lambda>(_, ui). Ok (True, rest ui)))"

section \<open>Selection and editors\<close>

definition set_selection :: "view_env \<Rightarrow> uuid option \<Rightarrow> ui \<Rightarrow> (unit, bool \<times> ui) outcome" where
  "set_selection env target ui =
     guarded env (\<lambda>ui. sync_query_params env (set_view (\<lambda>v. v\<lparr>v_selected_card := target, v_editing := False,
          v_creating_new := False, v_creating_new_tag := False, v_settings_open := False,
          v_shortcuts_open := False\<rparr>) ui)) ui"

definition set_selection_without_flush :: "uuid option \<Rightarrow> ui \<Rightarrow> ui" where
  "set_selection_without_flush target = set_view (\<lambda>v. v\<lparr>v_selected_card := target\<rparr>)"

definition start_new_card :: "view_env \<Rightarrow> NewCardPosition \<Rightarrow> ui \<Rightarrow> (unit, bool \<times> ui) outcome" where
  "start_new_card env position ui =
     guarded env (\<lambda>ui. sync_query_params env (set_view (\<lambda>v. v\<lparr>v_new_card_position := position,
          v_creating_new := True, v_selected_card := None, v_editing := False,
          v_creating_new_tag := False, v_settings_open := False, v_shortcuts_open := False\<rparr>) ui)) ui"

definition start_new_tag :: "view_env \<Rightarrow> ui \<Rightarrow> (unit, bool \<times> ui) outcome" where
  "start_new_tag env ui =
     guarded env (\<lambda>ui. sync_query_params env (set_view (\<lambda>v. v\<lparr>v_creating_new_tag := True,
          v_selected_card := None, v_creating_new := False, v_editing := False,
          v_settings_open := False, v_shortcuts_open := False\<rparr>) ui)) ui"

definition open_editor :: "view_env \<Rightarrow> ui \<Rightarrow> (unit, ui) outcome" where
  "open_editor env ui =
     (if v_selected_card (ui_view ui) = None then Ok ui
      else map_ok (\<lambda>(_, ui). set_view (\<lambda>v. v\<lparr>v_editing := True\<rparr>) ui) (flush_pending_priority env ui))"

definition close_editor :: "view_env \<Rightarrow> ui \<Rightarrow> (unit, bool \<times> ui) outcome" where
  "close_editor env ui =
     guarded env (\<lambda>ui. set_view (\<lambda>v. v\<lparr>v_editing := False, v_has_unsaved_changes := False\<rparr>) ui) ui"

definition finish_creation_flow :: "ui \<Rightarrow> ui" where
  "finish_creation_flow =
     set_view (\<lambda>v. v\<lparr>v_creating_new := False, v_creating_new_tag := False, v_new_card_prefill := None\<rparr>)"

section \<open>Filters as a whole\<close>

definition clear_all_state :: "view_env \<Rightarrow> ui \<Rightarrow> (unit, bool \<times> ui) outcome" where
  "clear_all_state env ui =
     guarded env (\<lambda>ui. sync_query_params env (set_view (\<lambda>v. v\<lparr>v_filter := FilterExtinguished,
          v_due_date_filter := DueAll, v_include_overdue := False, v_sort_order := sort_default,
          v_tag_filter := [], v_tag_filter_mode := ModeOr, v_no_tags_filter := False,
          v_search_query := [], v_selected_card := None, v_creating_new := False,
          v_creating_new_tag := False, v_editing := False, v_has_unsaved_changes := False,
          v_linked_card_filter := [], v_settings_open := False, v_shortcuts_open := False\<rparr>) ui)) ui"

definition apply_today_quick_filter :: "view_env \<Rightarrow> ui \<Rightarrow> ui" where
  "apply_today_quick_filter env ui =
     sync_query_params env (set_view (\<lambda>v. v\<lparr>v_filter := FilterExtinguished,
       v_due_date_filter := DueToday, v_include_overdue := True, v_tag_filter := [],
       v_tag_filter_mode := ModeOr, v_no_tags_filter := False, v_linked_card_filter := [],
       v_search_query := []\<rparr>) ui)"

definition show_linked_cards :: "view_env \<Rightarrow> uuid list \<Rightarrow> ui \<Rightarrow> ui" where
  "show_linked_cards env ids ui =
     sync_query_params env (set_view (\<lambda>v. v\<lparr>v_linked_card_filter := ids, v_filter := FilterAll,
       v_search_query := [], v_tag_filter := [], v_no_tags_filter := False\<rparr>) ui)"

section \<open>Restoring from the URL\<close>

definition restore_from_query_params :: "view_env \<Rightarrow> ui \<Rightarrow> ui" where
  "restore_from_query_params env ui =
     (let ps = get_query_params env (ui_page ui)
      in set_view (\<lambda>v. v\<lparr>v_filter := parse_filter_from_params ps,
           v_due_date_filter := parse_due_date_filter_from_params ps,
           v_include_overdue := (params_get ps ''f.inc_overdue'' = Some ''1''),
           v_sort_order := parse_sort_from_params ps,
           v_tag_filter_mode := parse_tag_mode_from_params ps,
           v_no_tags_filter := parse_no_tags_from_params ps,
           v_tag_filter := parse_tags_from_params env ps,
           v_selected_card := parse_selected_card_from_params env ps,
           v_linked_card_filter := parse_linked_cards_from_params env ps,
           v_creating_new := False, v_creating_new_tag := False, v_editing := False,
           v_settings_open := False\<rparr>) ui)"

text \<open>The view of a freshly loaded page.\<close>

definition new_view :: "view_env \<Rightarrow> page \<Rightarrow> view" where
  "new_view env pg =
     (let ps = get_query_params env pg;
          mode = parse_tag_mode_from_params ps;
          odd = (parse_no_tags_from_params ps \<and> \<not> allows_no_tags mode)
      in \<lparr>v_filter = parse_filter_from_params ps,
          v_due_date_filter = parse_due_date_filter_from_params ps,
          v_include_overdue = (params_get ps ''f.inc_overdue'' = Some ''1''),
          v_sort_order = parse_sort_from_params ps,
          v_tag_filter = (if odd then [] else parse_tags_from_params env ps),
          v_tag_filter_mode = (if odd then ModeOr else mode),
          v_no_tags_filter = parse_no_tags_from_params ps,
          v_search_query = [],
          v_linked_card_filter = parse_linked_cards_from_params env ps,
          v_selected_card = parse_selected_card_from_params env ps,
          v_creating_new = False, v_creating_new_tag = False, v_new_card_prefill = None,
          v_new_card_position = NewBottom, v_editing = False, v_has_unsaved_changes = False,
          v_settings_open = False, v_shortcuts_open = False\<rparr>)"

section \<open>Blaze state and due date\<close>

definition blazed_after_due_change :: "bool \<Rightarrow> bool \<Rightarrow> bool \<Rightarrow> datetime option \<Rightarrow> bool" where
  "blazed_after_due_change extinguish_on_due_set extinguish_on_due_clear current_blazed new_due =
     (if \<not> current_blazed then False
      else
        let on_set = extinguish_on_due_set;
            extinguish = (if new_due \<noteq> None then on_set else on_set \<and> extinguish_on_due_clear)
        in \<not> extinguish)"

definition due_after_blaze_change ::
  "bool \<Rightarrow> datetime option \<Rightarrow> bool \<Rightarrow> bool \<Rightarrow> datetime option" where
  "due_after_blaze_change clear_due_on_blaze current_due was_blazed new_blazed =
     (if \<not> was_blazed \<and> new_blazed \<and> clear_due_on_blaze then None else current_due)"

definition reorder_allowed :: "view \<Rightarrow> bool" where
  "reorder_allowed v = sort_is_default (v_sort_order v)"

section \<open>The server URL\<close>

definition DEFAULT_WT_PORT :: "16 word" where "DEFAULT_WT_PORT = 47400"
definition TRUNK_TO_WT_DELTA :: "16 word" where "TRUNK_TO_WT_DELTA = 400"

definition derive_wt_url :: "string option \<Rightarrow> string option \<Rightarrow> string" where
  "derive_wt_url hostname port =
     (let host = (case hostname of Some h \<Rightarrow> h | None \<Rightarrow> ''127.0.0.1'');
          wt_port = (case (case port of Some p \<Rightarrow> parse_u16 p | None \<Rightarrow> None) of
                       Some trunk_port \<Rightarrow> trunk_port - TRUNK_TO_WT_DELTA
                     | None \<Rightarrow> DEFAULT_WT_PORT)
      in ''https://'' @ host @ '':'' @ int_display (uint wt_port))"

end
