(* ===== verification/View_Facts.thy ===== *)
theory View_Facts
  imports Client_View
begin

text \<open>
  Facts about the view state: the query string as a list of optional segments, what is read back
  from it, and the invariant of the panes.
\<close>

section \<open>The built parameters\<close>

definition segment :: "string \<Rightarrow> string option \<Rightarrow> params" where
  "segment key v = (case v of Some s \<Rightarrow> [(key, s)] | None \<Rightarrow> [])"

definition segments :: "string \<Rightarrow> string list \<Rightarrow> params" where
  "segments key vs = map (Pair key) vs"

lemma params_set_fresh: "key \<notin> fst ` set ps \<Longrightarrow> params_set key v ps = ps @ [(key, v)]"
  by (induction ps) auto

lemma set_some_fresh: "key \<notin> fst ` set ps \<Longrightarrow> set_some key v ps = ps @ segment key v"
  by (cases v) (simp_all add: set_some_def segment_def params_set_fresh)

lemma params_set_if_fresh:
  "key \<notin> fst ` set ps \<Longrightarrow> (if b then params_set key v ps else ps) = ps @ segment key (if b then Some v else None)"
  by (simp add: segment_def params_set_fresh)

lemma fold_append: "fold (\<lambda>x. params_append key (f x)) xs ps = ps @ segments key (map f xs)"
  by (induction xs arbitrary: ps) (simp_all add: params_append_def segments_def)

lemma segment_keys [simp]:
  "k \<in> fst ` set (segment key v) \<longleftrightarrow> k = key \<and> v \<noteq> None"
  "k \<in> fst ` set (segments key vs) \<longleftrightarrow> k = key \<and> vs \<noteq> []"
  by (cases v; auto simp: segment_def) (cases vs; auto simp: segments_def)

lemma params_get_append:
  "params_get (xs @ ys) k = (case params_get xs k of Some s \<Rightarrow> Some s | None \<Rightarrow> params_get ys k)"
  by (simp add: params_get_def map_add_def split: option.split)

lemma params_get_segment [simp]:
  "params_get (segment key v) k = (if k = key then v else None)"
  "k \<noteq> key \<Longrightarrow> params_get (segments key vs) k = None"
  "params_get [] k = None"
  by (cases v; simp add: params_get_def segment_def)
    (simp_all add: params_get_def segments_def map_of_eq_None_iff image_iff)

lemma params_get_all_segments [simp]:
  "params_get_all (xs @ ys) k = params_get_all xs k @ params_get_all ys k"
  "k \<noteq> key \<Longrightarrow> params_get_all (segment key v) k = []"
  "params_get_all (segments key vs) k = (if k = key then vs else [])"
  "params_get_all [] k = []"
  by (simp_all add: params_get_all_def segment_def segments_def filter_map comp_def split: option.split)

lemma params_keys_append: "k \<in> fst ` set (xs @ ys) \<longleftrightarrow> k \<in> fst ` set xs \<or> k \<in> fst ` set ys"
  by auto

text \<open>The keys are written once each, so that every write appends.\<close>

lemma built_params:
  "build_query_params env v =
     segment ''f.status'' (if v_filter v \<noteq> FilterExtinguished then Some (filter_to_str (v_filter v)) else None) @
     segment ''f.due'' (due_url_value (v_due_date_filter v)) @
     segment ''f.inc_overdue'' (if v_include_overdue v then Some ''1'' else None) @
     segment ''f.sort'' (sort_url_value (v_sort_order v)) @
     segment ''f.tag_mode'' (mode_url_value (v_tag_filter_mode v)) @
     segment ''f.no_tags'' (if v_no_tags_filter v then Some ''1'' else None) @
     segments ''f.tag'' (map (ve_uuid_string env) (v_tag_filter v)) @
     segment ''entity'' (map_option (ve_uuid_string env) (v_selected_card v)) @
     segments ''f.linked'' (map (ve_uuid_string env) (v_linked_card_filter v))"
proof -
  let ?s1 = "segment ''f.status'' (if v_filter v \<noteq> FilterExtinguished then Some (filter_to_str (v_filter v)) else None)"
  let ?s2 = "segment ''f.due'' (due_url_value (v_due_date_filter v))"
  let ?s3 = "segment ''f.inc_overdue'' (if v_include_overdue v then Some ''1'' else None)"
  let ?s4 = "segment ''f.sort'' (sort_url_value (v_sort_order v))"
  let ?s5 = "segment ''f.tag_mode'' (mode_url_value (v_tag_filter_mode v))"
  let ?s6 = "segment ''f.no_tags'' (if v_no_tags_filter v then Some ''1'' else None)"
  let ?s7 = "segments ''f.tag'' (map (ve_uuid_string env) (v_tag_filter v))"
  have 1: "(if v_filter v \<noteq> FilterExtinguished then params_set ''f.status'' (filter_to_str (v_filter v)) [] else []) = ?s1"
    by (simp add: segment_def)
  have 2: "set_some ''f.due'' (due_url_value (v_due_date_filter v)) ?s1 = ?s1 @ ?s2"
    by (rule set_some_fresh) (simp only: params_keys_append segment_keys, simp)
  have 3: "(if v_include_overdue v then params_set ''f.inc_overdue'' ''1'' (?s1 @ ?s2) else (?s1 @ ?s2)) =
      (?s1 @ ?s2) @ ?s3"
    by (rule params_set_if_fresh) (simp only: params_keys_append segment_keys, simp)
  have 4: "set_some ''f.sort'' (sort_url_value (v_sort_order v)) ((?s1 @ ?s2) @ ?s3) = ((?s1 @ ?s2) @ ?s3) @ ?s4"
    by (rule set_some_fresh) (simp only: params_keys_append segment_keys, simp)
  have 5: "set_some ''f.tag_mode'' (mode_url_value (v_tag_filter_mode v)) (((?s1 @ ?s2) @ ?s3) @ ?s4) =
      (((?s1 @ ?s2) @ ?s3) @ ?s4) @ ?s5"
    by (rule set_some_fresh) (simp only: params_keys_append segment_keys, simp)
  have 6: "(if v_no_tags_filter v then params_set ''f.no_tags'' ''1'' ((((?s1 @ ?s2) @ ?s3) @ ?s4) @ ?s5)
      else ((((?s1 @ ?s2) @ ?s3) @ ?s4) @ ?s5)) = ((((?s1 @ ?s2) @ ?s3) @ ?s4) @ ?s5) @ ?s6"
    by (rule params_set_if_fresh) (simp only: params_keys_append segment_keys, simp)
  have 8: "set_some ''entity'' (map_option (ve_uuid_string env) (v_selected_card v))
      ((((((?s1 @ ?s2) @ ?s3) @ ?s4) @ ?s5) @ ?s6) @ ?s7) =
      ((((((?s1 @ ?s2) @ ?s3) @ ?s4) @ ?s5) @ ?s6) @ ?s7) @
      segment ''entity'' (map_option (ve_uuid_string env) (v_selected_card v))"
    by (rule set_some_fresh) (simp only: params_keys_append segment_keys, simp)
  show ?thesis
    unfolding build_query_params_def Let_def 1 2 3 4 5 6 fold_append 8 by (simp only: append_assoc)
qed

lemma params_get_built:
  "params_get (build_query_params env v) ''f.status'' =
     (if v_filter v \<noteq> FilterExtinguished then Some (filter_to_str (v_filter v)) else None)"
  "params_get (build_query_params env v) ''f.due'' = due_url_value (v_due_date_filter v)"
  "params_get (build_query_params env v) ''f.inc_overdue'' = (if v_include_overdue v then Some ''1'' else None)"
  "params_get (build_query_params env v) ''f.sort'' = sort_url_value (v_sort_order v)"
  "params_get (build_query_params env v) ''f.tag_mode'' = mode_url_value (v_tag_filter_mode v)"
  "params_get (build_query_params env v) ''f.no_tags'' = (if v_no_tags_filter v then Some ''1'' else None)"
  "params_get (build_query_params env v) ''entity'' = map_option (ve_uuid_string env) (v_selected_card v)"
  unfolding built_params params_get_append
  by (simp_all split: option.split del: if_split)

lemma params_get_all_built:
  "params_get_all (build_query_params env v) ''f.tag'' = map (ve_uuid_string env) (v_tag_filter v)"
  "params_get_all (build_query_params env v) ''f.linked'' = map (ve_uuid_string env) (v_linked_card_filter v)"
  unfolding built_params by simp_all

section \<open>Reading back\<close>

definition url_ok :: "view_env \<Rightarrow> bool" where
  "url_ok env \<longleftrightarrow>
     ve_parse_search env [] = [] \<and>
     (\<forall>ps. ve_params_string env ps = [] \<longleftrightarrow> ps = []) \<and>
     (\<forall>ps. ps \<noteq> [] \<longrightarrow> ve_parse_search env (''?'' @ ve_params_string env ps) = ps) \<and>
     (\<forall>u. ve_parse_uuid env (ve_uuid_string env u) = Some u)"

text \<open>The part of a view that its URL holds.\<close>

definition url_part :: "view \<Rightarrow> card_filter \<times> DueDateFilter \<times> bool \<times> SortOrder \<times> TagFilterMode \<times> bool \<times>
    uuid list \<times> uuid option \<times> uuid list" where
  "url_part v = (v_filter v, v_due_date_filter v, v_include_overdue v, v_sort_order v,
     v_tag_filter_mode v, v_no_tags_filter v, v_tag_filter v, v_selected_card v, v_linked_card_filter v)"

lemma due_value_back: "due_from_url_value (case due_url_value d of Some s \<Rightarrow> s | None \<Rightarrow> []) = d"
  by (cases d) (simp_all add: due_from_url_value_def)

lemma mode_value_back: "(case mode_url_value m of Some s \<Rightarrow> mode_from_url_value s | None \<Rightarrow> ModeOr) = m"
  by (cases m) (simp_all add: mode_from_url_value_def)

lemma sort_value_back: "(case sort_url_value r of Some s \<Rightarrow> sort_from_url_value s | None \<Rightarrow> sort_default) = r"
  by (cases r) (simp_all add: sort_from_url_value_def sort_default_def)

lemma filter_value_back:
  "(case (if f \<noteq> FilterExtinguished then Some (filter_to_str f) else None) of
     Some s \<Rightarrow>
       if s = ''all'' then FilterAll else if s = ''blazed'' then FilterBlazed
       else if s = ''extinguished'' then FilterExtinguished else FilterExtinguished
   | None \<Rightarrow> FilterExtinguished) = f"
  by (cases f) simp_all

lemma uuids_back:
  assumes "url_ok env"
  shows "List.map_filter (ve_parse_uuid env) (map (ve_uuid_string env) us) = us"
  using assms by (induction us) (simp_all add: url_ok_def List.map_filter_def)

lemma parse_built:
  assumes "url_ok env"
  shows "parse_filter_from_params (build_query_params env v) = v_filter v"
    "parse_due_date_filter_from_params (build_query_params env v) = v_due_date_filter v"
    "(params_get (build_query_params env v) ''f.inc_overdue'' = Some ''1'') = v_include_overdue v"
    "parse_sort_from_params (build_query_params env v) = v_sort_order v"
    "parse_tag_mode_from_params (build_query_params env v) = v_tag_filter_mode v"
    "parse_no_tags_from_params (build_query_params env v) = v_no_tags_filter v"
    "parse_tags_from_params env (build_query_params env v) = v_tag_filter v"
    "parse_selected_card_from_params env (build_query_params env v) = v_selected_card v"
    "parse_linked_cards_from_params env (build_query_params env v) = v_linked_card_filter v"
proof -
  show "parse_filter_from_params (build_query_params env v) = v_filter v"
    unfolding parse_filter_from_params_def params_get_built by (rule filter_value_back)
  show "parse_due_date_filter_from_params (build_query_params env v) = v_due_date_filter v"
    unfolding parse_due_date_filter_from_params_def params_get_built by (rule due_value_back)
  show "(params_get (build_query_params env v) ''f.inc_overdue'' = Some ''1'') = v_include_overdue v"
    "parse_no_tags_from_params (build_query_params env v) = v_no_tags_filter v"
    unfolding parse_no_tags_from_params_def params_get_built by simp_all
  show "parse_sort_from_params (build_query_params env v) = v_sort_order v"
    unfolding parse_sort_from_params_def params_get_built by (rule sort_value_back)
  show "parse_tag_mode_from_params (build_query_params env v) = v_tag_filter_mode v"
    unfolding parse_tag_mode_from_params_def params_get_built by (rule mode_value_back)
  show "parse_tags_from_params env (build_query_params env v) = v_tag_filter v"
    "parse_linked_cards_from_params env (build_query_params env v) = v_linked_card_filter v"
    unfolding parse_tags_from_params_def parse_linked_cards_from_params_def parse_uuid_list_def
      params_get_all_built by (rule uuids_back [OF assms])+
  show "parse_selected_card_from_params env (build_query_params env v) = v_selected_card v"
    unfolding parse_selected_card_from_params_def params_get_built
    using assms by (simp add: url_ok_def split: option.split)
qed

lemma synced_search:
  "search (ui_page (sync_query_params env ui)) =
     (let qs = build_query_string env (ui_view ui) in if qs = [] then [] else ''?'' @ qs)"
  by (auto simp: sync_query_params_def Let_def)

lemma sync_query_params_fields [simp]:
  "ui_view (sync_query_params env ui) = ui_view ui" "ui_moves (sync_query_params env ui) = ui_moves ui"
  by (simp_all add: sync_query_params_def Let_def)

lemma params_after_sync:
  assumes "url_ok env"
  shows "get_query_params env (ui_page (sync_query_params env ui)) = build_query_params env (ui_view ui)"
  using assms by (simp add: get_query_params_def synced_search Let_def build_query_string_def url_ok_def)

lemma restored_view:
  "ui_view (restore_from_query_params env ui) =
     (let ps = get_query_params env (ui_page ui)
      in (ui_view ui)\<lparr>v_filter := parse_filter_from_params ps,
           v_due_date_filter := parse_due_date_filter_from_params ps,
           v_include_overdue := (params_get ps ''f.inc_overdue'' = Some ''1''),
           v_sort_order := parse_sort_from_params ps,
           v_tag_filter_mode := parse_tag_mode_from_params ps,
           v_no_tags_filter := parse_no_tags_from_params ps,
           v_tag_filter := parse_tags_from_params env ps,
           v_selected_card := parse_selected_card_from_params env ps,
           v_linked_card_filter := parse_linked_cards_from_params env ps,
           v_creating_new := False, v_creating_new_tag := False, v_editing := False,
           v_settings_open := False\<rparr>)"
  by (simp add: restore_from_query_params_def set_view_def Let_def)

section \<open>The panes\<close>

text \<open>
  At most one of the editors is open: an open editor has a card, a new card or tag excludes a
  selection and an open editor, and a new card excludes a new tag.
\<close>

definition panes_ok :: "view \<Rightarrow> bool" where
  "panes_ok v \<longleftrightarrow>
     (v_editing v \<longrightarrow> v_selected_card v \<noteq> None) \<and>
     (v_creating_new v \<or> v_creating_new_tag v \<longrightarrow> v_selected_card v = None \<and> \<not> v_editing v) \<and>
     \<not> (v_creating_new v \<and> v_creating_new_tag v)"

inductive ui_step :: "view_env \<Rightarrow> ui \<Rightarrow> ui \<Rightarrow> bool" for env where
  select: "set_selection env target ui = Ok (done', ui') \<Longrightarrow> ui_step env ui ui'"
| new_card: "start_new_card env position ui = Ok (done', ui') \<Longrightarrow> ui_step env ui ui'"
| new_tag: "start_new_tag env ui = Ok (done', ui') \<Longrightarrow> ui_step env ui ui'"
| open_edit: "open_editor env ui = Ok ui' \<Longrightarrow> ui_step env ui ui'"
| close_edit: "close_editor env ui = Ok (done', ui') \<Longrightarrow> ui_step env ui ui'"
| finish: "ui_step env ui (finish_creation_flow ui)"
| clear: "clear_all_state env ui = Ok (done', ui') \<Longrightarrow> ui_step env ui ui'"
| today: "ui_step env ui (apply_today_quick_filter env ui)"
| linked: "ui_step env ui (show_linked_cards env ids ui)"
| popstate: "ui_step env ui (restore_from_query_params env (ui\<lparr>ui_page := pg\<rparr>))"
| unsaved: "ui_step env ui (set_view (\<lambda>v. v\<lparr>v_has_unsaved_changes := b\<rparr>) ui)"

lemma flush_pending_Ok:
  "flush_pending_priority env ui = Ok (b, ui') \<longleftrightarrow>
     (\<exists>m. flush_burst (ve_hash env) (ve_now env) (ve_keys_of env) (ui_moves ui) = Ok m \<and>
        ui' = ui\<lparr>ui_moves := m\<rparr> \<and> b = (ms_pending (ui_moves ui) \<noteq> None))"
  unfolding flush_pending_priority_def Let_def map_ok_Ok prod.inject by blast

lemma flush_pending_view:
  "flush_pending_priority env ui = Ok (b, ui') \<Longrightarrow> ui_view ui' = ui_view ui \<and> ui_page ui' = ui_page ui"
  unfolding flush_pending_Ok by (elim exE conjE) simp

lemma flush_burst_taken:
  assumes "flush_burst H now keys_of st = Ok st'"
  shows "ms_pending st' = None"
    "ms_pending st \<noteq> None \<Longrightarrow> \<exists>v. ms_pushed st' = ms_pushed st @ [v]"
proof -
  have same: "ms_pending (cancel_priority_timer st) = ms_pending st"
    "ms_pushed (cancel_priority_timer st) = ms_pushed st"
    by (simp_all add: cancel_priority_timer_def)
  obtain taken st1 where take: "flush_sync_take H now keys_of (cancel_priority_timer st) = Ok (taken, st1)"
    and st': "st' = (case taken of None \<Rightarrow> st1 | Some v \<Rightarrow> st1\<lparr>ms_pushed := ms_pushed st1 @ [v]\<rparr>)"
    using assms by (auto simp: flush_burst_def map_ok_Ok)
  from take have "ms_pending st1 = None" "ms_pushed st1 = ms_pushed st"
    "ms_pending st \<noteq> None \<Longrightarrow> taken \<noteq> None"
    by (auto simp: flush_sync_take_def Let_def map_ok_Ok same split: option.splits)
  then show "ms_pending st' = None"
    "ms_pending st \<noteq> None \<Longrightarrow> \<exists>v. ms_pushed st' = ms_pushed st @ [v]"
    using st' by (auto split: option.splits)
qed

lemma flush_pending_taken:
  assumes "flush_pending_priority env ui = Ok (b, ui')"
  shows "ms_pending (ui_moves ui') = None"
    "ms_pending (ui_moves ui) \<noteq> None \<Longrightarrow> \<exists>v. ms_pushed (ui_moves ui') = ms_pushed (ui_moves ui) @ [v]"
  using assms flush_burst_taken unfolding flush_pending_Ok by (elim exE conjE, simp)+

lemma set_view_fields [simp]:
  "ui_view (set_view f ui) = f (ui_view ui)" "ui_page (set_view f ui) = ui_page ui"
  "ui_moves (set_view f ui) = ui_moves ui"
  by (simp_all add: set_view_def)

lemma guarded_cases:
  assumes "guarded env rest ui = Ok (b, ui')"
  obtains (declined) "\<not> b" "ui' = ui" "v_has_unsaved_changes (ui_view ui)" "\<not> ve_confirm env"
  | (went_on) had ui1 where "b" "flush_pending_priority env ui = Ok (had, ui1)" "ui' = rest ui1"
      "ui_view ui1 = ui_view ui" "v_has_unsaved_changes (ui_view ui) \<Longrightarrow> ve_confirm env"
proof (cases "confirm_discard_changes env ui")
  case False
  then show thesis
    using assms declined by (simp add: guarded_def confirm_discard_changes_def split: if_splits)
next
  case True
  then obtain had ui1 where "flush_pending_priority env ui = Ok (had, ui1)" "b" "ui' = rest ui1"
    using assms unfolding guarded_def by (auto simp: bind_outcome_Ok)
  then show thesis
    using went_on flush_pending_view True by (simp add: confirm_discard_changes_def split: if_splits)
qed

lemma guarded_panes:
  assumes "guarded env rest ui = Ok (b, ui')" "panes_ok (ui_view ui)"
    and "\<And>ui1. ui_view ui1 = ui_view ui \<Longrightarrow> panes_ok (ui_view (rest ui1))"
  shows "panes_ok (ui_view ui')"
  using assms(1) by (cases rule: guarded_cases) (use assms(2,3) in simp_all)

lemma ui_step_panes:
  assumes "ui_step env ui ui'" "panes_ok (ui_view ui)"
  shows "panes_ok (ui_view ui')"
  using assms
proof (induction rule: ui_step.induct)
  case (select target ui b ui')
  then show ?case
    unfolding set_selection_def by (elim guarded_panes) (simp_all add: panes_ok_def)
next
  case (new_card position ui b ui')
  then show ?case
    unfolding start_new_card_def by (elim guarded_panes) (simp_all add: panes_ok_def)
next
  case (new_tag ui b ui')
  then show ?case
    unfolding start_new_tag_def by (elim guarded_panes) (simp_all add: panes_ok_def)
next
  case (open_edit ui ui')
  show ?case
  proof (cases "v_selected_card (ui_view ui)")
    case None
    then show ?thesis using open_edit by (simp add: open_editor_def)
  next
    case (Some uid)
    with open_edit obtain had ui1 where "flush_pending_priority env ui = Ok (had, ui1)"
      "ui' = set_view (\<lambda>v. v\<lparr>v_editing := True\<rparr>) ui1"
      by (auto simp: open_editor_def map_ok_Ok)
    then show ?thesis
      using open_edit(2) Some flush_pending_view by (simp add: panes_ok_def)
  qed
next
  case (close_edit ui b ui')
  then show ?case
    unfolding close_editor_def by (elim guarded_panes) (simp_all add: panes_ok_def)
next
  case (finish ui)
  then show ?case by (simp add: finish_creation_flow_def panes_ok_def)
next
  case (clear ui b ui')
  then show ?case
    unfolding clear_all_state_def by (elim guarded_panes) (simp_all add: panes_ok_def)
next
  case (today ui)
  then show ?case by (simp add: apply_today_quick_filter_def panes_ok_def)
next
  case (linked ui ids)
  then show ?case by (simp add: show_linked_cards_def panes_ok_def)
next
  case (popstate ui pg)
  then show ?case by (simp add: restored_view Let_def panes_ok_def)
next
  case (unsaved ui b)
  then show ?case by (simp add: panes_ok_def)
qed

end
