(* ===== verification/View_Properties.thy ===== *)
theory View_Properties
  imports View_Facts Demo
begin

text \<open>
  The web client's view: the URL holds the filters and the selection faithfully, at most one editor
  is open, and nothing the user has not agreed to lose is lost when the selection changes.
\<close>

section \<open>A query-string codec\<close>

text \<open>Every character is marked; a key ends in \<open>=\<close>, a value in \<open>&\<close>.\<close>

definition mark :: "string \<Rightarrow> string" where
  "mark s = concat (map (\<lambda>c. [CHR ''-'', c]) s)"

fun unmark :: "string \<Rightarrow> string \<times> string" where
  "unmark (a # c # cs) =
     (if a = CHR ''-'' then (case unmark cs of (s, rest) \<Rightarrow> (c # s, rest)) else ([], c # cs))"
| "unmark _ = ([], [])"

definition demo_params_string :: "params \<Rightarrow> string" where
  "demo_params_string ps = concat (map (\<lambda>p. mark (fst p) @ ''='' @ mark (snd p) @ ''&'') ps)"

primrec demo_parse :: "nat \<Rightarrow> string \<Rightarrow> params" where
  "demo_parse 0 s = []"
| "demo_parse (Suc n) s =
     (if s = [] then []
      else case unmark s of (k, r) \<Rightarrow> (case unmark r of (v, r') \<Rightarrow> (k, v) # demo_parse n r'))"

lemma unmark_mark: "a \<noteq> CHR ''-'' \<Longrightarrow> unmark (mark s @ a # t) = (s, t)"
proof (induction s)
  case Nil
  then show ?case by (cases t) (simp_all add: mark_def)
qed (simp add: mark_def)

lemma demo_params_string_simps:
  "demo_params_string [] = []"
  "demo_params_string (p # ps) = mark (fst p) @ CHR ''='' # mark (snd p) @ CHR ''&'' # demo_params_string ps"
  by (simp_all add: demo_params_string_def)

lemma demo_parse_string: "length ps \<le> n \<Longrightarrow> demo_parse n (demo_params_string ps) = ps"
proof (induction ps arbitrary: n)
  case Nil
  then show ?case by (cases n) (simp_all add: demo_params_string_simps)
next
  case (Cons p ps)
  then obtain m where "n = Suc m" "length ps \<le> m" by (cases n) auto
  then show ?case
    using Cons.IH [of m] by (simp add: demo_params_string_simps unmark_mark)
qed

lemma length_params_string: "length ps \<le> length (demo_params_string ps)"
  by (induction ps) (simp_all add: demo_params_string_simps)

definition demo_view_env :: view_env where
  "demo_view_env =
     \<lparr>ve_confirm = False, ve_params_string = demo_params_string,
      ve_parse_search = (\<lambda>s. demo_parse (length s) (drop 1 s)),
      ve_uuid_string = (\<lambda>u. replicate (unat u) CHR ''u''),
      ve_parse_uuid = (\<lambda>s. Some (of_nat (length s))),
      ve_hash = demo_hash, ve_now = 0, ve_keys_of = (\<lambda>b. [])\<rparr>"

lemma demo_url_ok: "url_ok demo_view_env"
proof -
  have "demo_params_string ps = [] \<longleftrightarrow> ps = []" for ps
    by (cases ps) (simp_all add: demo_params_string_simps)
  moreover have "demo_parse (Suc (length (demo_params_string ps))) (demo_params_string ps) = ps" for ps
    using length_params_string [of ps] by (intro demo_parse_string) simp
  ultimately show ?thesis
    by (simp add: url_ok_def demo_view_env_def del: demo_parse.simps(2))
qed

definition demo_ui :: ui where
  "demo_ui =
     \<lparr>ui_view =
        \<lparr>v_filter = FilterAll, v_due_date_filter = DueToday, v_include_overdue = True,
         v_sort_order = SortTitle, v_tag_filter = [3], v_tag_filter_mode = ModeNor,
         v_no_tags_filter = False, v_search_query = [], v_linked_card_filter = [4, 5],
         v_selected_card = Some 4, v_creating_new = False, v_creating_new_tag = False,
         v_new_card_prefill = None, v_new_card_position = NewBottom, v_editing = True,
         v_has_unsaved_changes = True, v_settings_open = False, v_shortcuts_open = False\<rparr>,
      ui_page = \<lparr>pathname = ''/'', search = [], pushed_urls = []\<rparr>,
      ui_moves =
        \<lparr>ms_cards = [demo_card], ms_pending = None, ms_timer_handle = 0, ms_countdown_ms = 0,
         ms_debounce_enabled = True, ms_debounce_delay_ms = 5000, ms_pushed = []\<rparr>\<rparr>"

section \<open>The URL\<close>

text \<open>C21: Whatever view was written to the URL, going back to that history entry from any other
  view restores exactly its filters, sort order, tag mode, linked cards and selection; and loading
  the page afresh gives the same, unless the switch for cards without tags is combined with a mode
  that excludes them, where the loader resets the tags and the mode but going back does not.\<close>

theorem url_restores_view:
  assumes "url_ok env" "ui_page later = ui_page (sync_query_params env ui)"
  shows "url_part (ui_view (restore_from_query_params env later)) = url_part (ui_view ui) \<and>
    url_part (new_view env (ui_page later)) =
      (if v_no_tags_filter (ui_view ui) \<and> \<not> allows_no_tags (v_tag_filter_mode (ui_view ui))
       then url_part ((ui_view ui)\<lparr>v_tag_filter := [], v_tag_filter_mode := ModeOr\<rparr>)
       else url_part (ui_view ui))"
  unfolding restored_view new_view_def assms(2) params_after_sync [OF assms(1)] Let_def
    parse_built [OF assms(1)]
  by (simp add: url_part_def)

theorem url_restores_view_witness:
  "url_part (ui_view (restore_from_query_params demo_view_env (sync_query_params demo_view_env demo_ui))) =
     (FilterAll, DueToday, True, SortTitle, ModeNor, False, [3], Some 4, [4, 5])"
  using url_restores_view [OF demo_url_ok, of "sync_query_params demo_view_env demo_ui" demo_ui]
  by (simp add: url_part_def demo_ui_def)

section \<open>The panes\<close>

text \<open>Through any sequence of selections, editor openings and closings, resets and history
  navigation, at most one editor is open: an open editor has a selected card, and creating a card or
  a tag excludes a selection, an open editor and each other.\<close>

theorem one_editor_at_most:
  assumes "(ui_step env)\<^sup>*\<^sup>* ui ui'" "panes_ok (ui_view ui)"
  shows "panes_ok (ui_view ui')"
  using assms by (induction rule: rtranclp_induct) (simp_all add: ui_step_panes)

theorem one_editor_at_most_witness:
  "panes_ok (ui_view (apply_today_quick_filter demo_view_env demo_ui))"
  by (rule one_editor_at_most [OF r_into_rtranclp [of "ui_step demo_view_env"], OF today])
    (simp add: panes_ok_def demo_ui_def)

text \<open>Changing the selection asks before it discards: declined, nothing at all changes; agreed or
  with nothing unsaved, the target is selected, every pane is closed, the URL shows it, and a pending
  burst of moves has been handed to the push rather than dropped.\<close>

theorem selection_asks_then_flushes:
  assumes "set_selection env target ui = Ok (changed, ui')" "url_ok env"
  shows "if changed
    then v_selected_card (ui_view ui') = target \<and> \<not> v_editing (ui_view ui') \<and>
      \<not> v_creating_new (ui_view ui') \<and> \<not> v_settings_open (ui_view ui') \<and>
      parse_selected_card_from_params env (get_query_params env (ui_page ui')) = target \<and>
      ms_pending (ui_moves ui') = None \<and>
      (ms_pending (ui_moves ui) = None \<or>
       (\<exists>v. ms_pushed (ui_moves ui') = ms_pushed (ui_moves ui) @ [v]))
    else ui' = ui \<and> v_has_unsaved_changes (ui_view ui) \<and> \<not> ve_confirm env"
  using assms(1) unfolding set_selection_def
proof (cases rule: guarded_cases)
  case (went_on had ui1)
  have "ms_pending (ui_moves ui) = None \<or>
      (\<exists>v. ms_pushed (ui_moves ui1) = ms_pushed (ui_moves ui) @ [v])"
    using flush_pending_taken(2) [OF went_on(2)] by blast
  then show ?thesis
    using went_on(1,3) flush_pending_taken(1) [OF went_on(2)]
    by (simp add: params_after_sync [OF assms(2)] parse_built [OF assms(2)])
qed simp

definition demo_saved :: ui where
  "demo_saved = set_view (\<lambda>v. v\<lparr>v_has_unsaved_changes := False\<rparr>) demo_ui"

lemma demo_selected:
  "set_selection demo_view_env (Some 9) demo_saved =
     Ok (True, sync_query_params demo_view_env (set_view (\<lambda>v. v\<lparr>v_selected_card := Some 9,
       v_editing := False, v_creating_new := False, v_creating_new_tag := False,
       v_settings_open := False, v_shortcuts_open := False\<rparr>) demo_saved))"
  by (simp add: set_selection_def guarded_def confirm_discard_changes_def demo_saved_def set_view_def
      demo_ui_def flush_pending_priority_def flush_burst_def flush_sync_take_def cancel_priority_timer_def)

theorem selection_asks_then_flushes_witness:
  "\<exists>ui'. set_selection demo_view_env (Some 9) demo_saved = Ok (True, ui') \<and>
    v_selected_card (ui_view ui') = Some 9 \<and>
    parse_selected_card_from_params demo_view_env (get_query_params demo_view_env (ui_page ui')) = Some 9 \<and>
    set_selection demo_view_env (Some 9) demo_ui = Ok (False, demo_ui)"
proof -
  have "set_selection demo_view_env (Some 9) demo_ui = Ok (False, demo_ui)"
    by (simp add: set_selection_def guarded_def confirm_discard_changes_def demo_view_env_def demo_ui_def)
  then show ?thesis
    using selection_asks_then_flushes [OF demo_selected demo_url_ok] demo_selected by simp
qed

end
