(* ===== verification/Settings.thy ===== *)
theory Settings
  imports Rust_Text "HOL-Library.AList"
begin

text \<open>
  The settings of one device (clients/wasm/src/state/settings.rs): 33 values kept as texts in the
  browser's local storage. The source has one key constant, one default and one \<open>load\<close>, \<open>save\<close> and
  \<open>has\<close> function for each setting, all of three shapes; here a setting is a constructor, and the
  tables \<open>setting_key\<close> and \<open>default_value\<close> hold what differs between them. The storage may be absent
  (no window, access denied) and may refuse a write (over quota). The last sections hold the
  contract of a stored value, its three instances, and what the loaders promise.
\<close>

section \<open>Settings, keys and defaults\<close>

datatype setting =
    ShowPreview | AutoSync | AutoSyncIntervalMs | PriorityDebounceEnabled |
    PriorityDebounceDelayMs | KeyboardShortcuts | SearchTags | UiScale | UiDensity |
    TouchSwipe | SwipeThresholdRightCycle | SwipeThresholdRightLevels |
    SwipeThresholdLeftCycle | SwipeThresholdLeftLevels | SwipeUndoTimeoutMs | SwipeLeftMode |
    SwipeLevelsZoneTodayWidth | SwipeLevelsZoneTomorrowWidth | SwipeLevelsZoneSoonWidth |
    ClearTagSearch | DefaultSidebarWidth | DefaultDetailWidth | OverrideSidebarWidth |
    OverrideDetailWidth | ShowDueTodayButton | RecursiveLinks | ShowListLinkCounts |
    ShowCardTime | ExtinguishOnDueSet | ExtinguishOnDueClear | ClearDueOnBlaze |
    DragAndDropEnabled | DragAndDropMode

datatype setting_value = BoolV bool | U32V "32 word" | TextV string

fun setting_key :: "setting \<Rightarrow> string" where
  "setting_key ShowPreview = ''blazelist_show_preview''"
| "setting_key AutoSync = ''blazelist_auto_sync''"
| "setting_key AutoSyncIntervalMs = ''blazelist_auto_sync_interval_ms''"
| "setting_key PriorityDebounceEnabled = ''blazelist_priority_debounce_enabled''"
| "setting_key PriorityDebounceDelayMs = ''blazelist_priority_debounce_delay_ms''"
| "setting_key KeyboardShortcuts = ''blazelist_keyboard_shortcuts''"
| "setting_key SearchTags = ''blazelist_search_tags''"
| "setting_key UiScale = ''blazelist_ui_scale''"
| "setting_key UiDensity = ''blazelist_ui_density''"
| "setting_key TouchSwipe = ''blazelist_touch_swipe''"
| "setting_key SwipeThresholdRightCycle = ''blazelist_swipe_threshold_right_cycle''"
| "setting_key SwipeThresholdRightLevels = ''blazelist_swipe_threshold_right_levels''"
| "setting_key SwipeThresholdLeftCycle = ''blazelist_swipe_threshold_left_cycle''"
| "setting_key SwipeThresholdLeftLevels = ''blazelist_swipe_threshold_left_levels''"
| "setting_key SwipeUndoTimeoutMs = ''blazelist_swipe_undo_timeout_ms''"
| "setting_key SwipeLeftMode = ''blazelist_swipe_left_mode''"
| "setting_key SwipeLevelsZoneTodayWidth = ''blazelist_swipe_levels_zone_today_width''"
| "setting_key SwipeLevelsZoneTomorrowWidth = ''blazelist_swipe_levels_zone_tomorrow_width''"
| "setting_key SwipeLevelsZoneSoonWidth = ''blazelist_swipe_levels_zone_soon_width''"
| "setting_key ClearTagSearch = ''blazelist_clear_tag_search''"
| "setting_key DefaultSidebarWidth = ''blazelist_default_sidebar_width''"
| "setting_key DefaultDetailWidth = ''blazelist_default_detail_width''"
| "setting_key OverrideSidebarWidth = ''blazelist_override_sidebar_width''"
| "setting_key OverrideDetailWidth = ''blazelist_override_detail_width''"
| "setting_key ShowDueTodayButton = ''blazelist_show_due_today_button''"
| "setting_key RecursiveLinks = ''blazelist_recursive_links''"
| "setting_key ShowListLinkCounts = ''blazelist_show_list_link_counts''"
| "setting_key ShowCardTime = ''blazelist_show_card_time''"
| "setting_key ExtinguishOnDueSet = ''blazelist_extinguish_on_due_set''"
| "setting_key ExtinguishOnDueClear = ''blazelist_extinguish_on_due_clear''"
| "setting_key ClearDueOnBlaze = ''blazelist_clear_due_on_blaze''"
| "setting_key DragAndDropEnabled = ''blazelist_drag_and_drop_enabled''"
| "setting_key DragAndDropMode = ''blazelist_drag_and_drop_mode''"

definition STORAGE_KEY_CACHE_SCHEMA :: string where
  "STORAGE_KEY_CACHE_SCHEMA = ''blazelist_cache_schema''"

definition BLAZELIST_KEY_PREFIX :: string where "BLAZELIST_KEY_PREFIX = ''blazelist_''"

definition all_settings :: "setting list" where
  "all_settings =
    [ShowPreview, AutoSync, AutoSyncIntervalMs, PriorityDebounceEnabled,
     PriorityDebounceDelayMs, KeyboardShortcuts, SearchTags, UiScale, UiDensity, TouchSwipe,
     SwipeThresholdRightCycle, SwipeThresholdRightLevels, SwipeThresholdLeftCycle,
     SwipeThresholdLeftLevels, SwipeUndoTimeoutMs, SwipeLeftMode, SwipeLevelsZoneTodayWidth,
     SwipeLevelsZoneTomorrowWidth, SwipeLevelsZoneSoonWidth, ClearTagSearch,
     DefaultSidebarWidth, DefaultDetailWidth, OverrideSidebarWidth, OverrideDetailWidth,
     ShowDueTodayButton, RecursiveLinks, ShowListLinkCounts, ShowCardTime, ExtinguishOnDueSet,
     ExtinguishOnDueClear, ClearDueOnBlaze, DragAndDropEnabled, DragAndDropMode]"

definition ALL_SETTING_KEYS :: "string list" where
  "ALL_SETTING_KEYS = map setting_key all_settings"

definition NON_SETTING_KEYS :: "string list" where
  "NON_SETTING_KEYS = [STORAGE_KEY_CACHE_SCHEMA]"

fun default_value :: "setting \<Rightarrow> setting_value" where
  "default_value ShowPreview = BoolV False"
| "default_value AutoSync = BoolV True"
| "default_value AutoSyncIntervalMs = U32V 10000"
| "default_value PriorityDebounceEnabled = BoolV True"
| "default_value PriorityDebounceDelayMs = U32V 3000"
| "default_value KeyboardShortcuts = BoolV True"
| "default_value SearchTags = BoolV True"
| "default_value UiScale = U32V 100"
| "default_value UiDensity = TextV ''compact''"
| "default_value TouchSwipe = BoolV False"
| "default_value SwipeThresholdRightCycle = U32V 135"
| "default_value SwipeThresholdRightLevels = U32V 135"
| "default_value SwipeThresholdLeftCycle = U32V 115"
| "default_value SwipeThresholdLeftLevels = U32V 95"
| "default_value SwipeUndoTimeoutMs = U32V 4000"
| "default_value SwipeLeftMode = TextV ''levels''"
| "default_value SwipeLevelsZoneTodayWidth = U32V 75"
| "default_value SwipeLevelsZoneTomorrowWidth = U32V 60"
| "default_value SwipeLevelsZoneSoonWidth = U32V 55"
| "default_value ClearTagSearch = BoolV True"
| "default_value DefaultSidebarWidth = U32V 180"
| "default_value DefaultDetailWidth = U32V 0"
| "default_value OverrideSidebarWidth = BoolV False"
| "default_value OverrideDetailWidth = BoolV False"
| "default_value ShowDueTodayButton = BoolV True"
| "default_value RecursiveLinks = BoolV True"
| "default_value ShowListLinkCounts = BoolV True"
| "default_value ShowCardTime = BoolV False"
| "default_value ExtinguishOnDueSet = BoolV True"
| "default_value ExtinguishOnDueClear = BoolV True"
| "default_value ClearDueOnBlaze = BoolV True"
| "default_value DragAndDropEnabled = BoolV False"
| "default_value DragAndDropMode = TextV ''anywhere''"

section \<open>The storage\<close>

record web_storage =
  ws_available :: bool
  ws_accepts :: bool
  ws_items :: "(string \<times> string) list"

definition get_item :: "string \<Rightarrow> web_storage \<Rightarrow> string option" where
  "get_item key ws = (if ws_available ws then map_of (ws_items ws) key else None)"

definition set_item :: "string \<Rightarrow> string \<Rightarrow> web_storage \<Rightarrow> web_storage" where
  "set_item key v ws =
     (if ws_available ws \<and> ws_accepts ws then ws\<lparr>ws_items := AList.update key v (ws_items ws)\<rparr>
      else ws)"

definition remove_key :: "string \<Rightarrow> web_storage \<Rightarrow> web_storage" where
  "remove_key key ws =
     (if ws_available ws then ws\<lparr>ws_items := AList.delete key (ws_items ws)\<rparr> else ws)"

definition load_bool :: "string \<Rightarrow> web_storage \<Rightarrow> bool option" where
  "load_bool key ws = map_option (\<lambda>v. v = ''true'') (get_item key ws)"

definition save_bool :: "string \<Rightarrow> bool \<Rightarrow> web_storage \<Rightarrow> web_storage" where
  "save_bool key v = set_item key (if v then ''true'' else ''false'')"

definition load_u32 :: "string \<Rightarrow> web_storage \<Rightarrow> 32 word option" where
  "load_u32 key ws = Option.bind (get_item key ws) parse_u32"

definition save_u32 :: "string \<Rightarrow> 32 word \<Rightarrow> web_storage \<Rightarrow> web_storage" where
  "save_u32 key v = set_item key (u32_display v)"

definition load_string :: "string \<Rightarrow> web_storage \<Rightarrow> string option" where
  "load_string key ws = get_item key ws"

definition save_string :: "string \<Rightarrow> string \<Rightarrow> web_storage \<Rightarrow> web_storage" where
  "save_string key v = set_item key v"

text \<open>A stored text that no variant of the enumeration has is removed from the storage.\<close>

definition load_enum_string ::
  "string \<Rightarrow> (string \<Rightarrow> bool) \<Rightarrow> string \<Rightarrow> web_storage \<Rightarrow> string \<times> web_storage" where
  "load_enum_string key is_valid dflt ws =
     (case load_string key ws of
        Some v \<Rightarrow> if is_valid v then (v, ws) else (dflt, remove_key key ws)
      | None \<Rightarrow> (dflt, ws))"

definition has_valid_enum_string :: "string \<Rightarrow> (string \<Rightarrow> bool) \<Rightarrow> web_storage \<Rightarrow> bool" where
  "has_valid_enum_string key is_valid ws \<longleftrightarrow>
     (case load_string key ws of Some v \<Rightarrow> is_valid v | None \<Rightarrow> False)"

definition is_valid_swipe_left_mode :: "string \<Rightarrow> bool" where
  "is_valid_swipe_left_mode s \<longleftrightarrow> s = ''levels'' \<or> s = ''cycle''"

definition is_valid_drag_and_drop_mode :: "string \<Rightarrow> bool" where
  "is_valid_drag_and_drop_mode s \<longleftrightarrow> s = ''anywhere'' \<or> s = ''handle''"

definition is_valid_ui_density :: "string \<Rightarrow> bool" where
  "is_valid_ui_density s \<longleftrightarrow> s = ''compact'' \<or> s = ''cozy''"

section \<open>The startup sweep\<close>

definition is_known_key :: "string \<Rightarrow> bool" where
  "is_known_key key \<longleftrightarrow> key \<in> set ALL_SETTING_KEYS \<or> key \<in> set NON_SETTING_KEYS"

definition keys_to_prune :: "string list \<Rightarrow> string list" where
  "keys_to_prune present =
     filter (\<lambda>k. take (length BLAZELIST_KEY_PREFIX) k = BLAZELIST_KEY_PREFIX \<and> \<not> is_known_key k) present"

definition run_startup_migrations :: "web_storage \<Rightarrow> web_storage" where
  "run_startup_migrations ws =
     (if ws_available ws then fold remove_key (keys_to_prune (map fst (ws_items ws))) ws else ws)"

section \<open>One setting\<close>

text \<open>The validator each enumerated setting is loaded with; the other settings have none.\<close>

fun setting_validator :: "setting \<Rightarrow> string \<Rightarrow> bool" where
  "setting_validator UiDensity = is_valid_ui_density"
| "setting_validator SwipeLeftMode = is_valid_swipe_left_mode"
| "setting_validator DragAndDropMode = is_valid_drag_and_drop_mode"
| "setting_validator _ = (\<lambda>_. True)"

definition has_setting :: "setting \<Rightarrow> web_storage \<Rightarrow> bool" where
  "has_setting s ws =
     (case default_value s of
        BoolV _ \<Rightarrow> load_bool (setting_key s) ws \<noteq> None
      | U32V _ \<Rightarrow> load_u32 (setting_key s) ws \<noteq> None
      | TextV _ \<Rightarrow> has_valid_enum_string (setting_key s) (setting_validator s) ws)"

definition load_setting :: "setting \<Rightarrow> web_storage \<Rightarrow> setting_value \<times> web_storage" where
  "load_setting s ws =
     (case default_value s of
        BoolV d \<Rightarrow> (BoolV (case load_bool (setting_key s) ws of Some b \<Rightarrow> b | None \<Rightarrow> d), ws)
      | U32V d \<Rightarrow> (U32V (case load_u32 (setting_key s) ws of Some n \<Rightarrow> n | None \<Rightarrow> d), ws)
      | TextV d \<Rightarrow>
          (case load_enum_string (setting_key s) (setting_validator s) d ws of
             (v, ws') \<Rightarrow> (TextV v, ws')))"

text \<open>A save function takes the type of its setting, so a value of another kind does not occur.\<close>

definition save_setting :: "setting \<Rightarrow> setting_value \<Rightarrow> web_storage \<Rightarrow> web_storage" where
  "save_setting s v =
     (case v of
        BoolV b \<Rightarrow> save_bool (setting_key s) b
      | U32V n \<Rightarrow> save_u32 (setting_key s) n
      | TextV t \<Rightarrow> save_string (setting_key s) t)"

definition load_cache_schema :: "web_storage \<Rightarrow> string option" where
  "load_cache_schema ws = load_string STORAGE_KEY_CACHE_SCHEMA ws"

definition save_cache_schema :: "string \<Rightarrow> web_storage \<Rightarrow> web_storage" where
  "save_cache_schema stamp = save_string STORAGE_KEY_CACHE_SCHEMA stamp"

definition clear_all_settings :: "web_storage \<Rightarrow> web_storage" where
  "clear_all_settings ws =
     (if ws_available ws then fold remove_key ALL_SETTING_KEYS ws else ws)"

section \<open>The keys are told apart\<close>

lemma all_settings_complete [simp]: "s \<in> set all_settings"
  by (cases s) (simp_all add: all_settings_def)

lemma all_setting_keys_distinct: "distinct ALL_SETTING_KEYS"
  by code_simp

lemma setting_key_inj [simp]: "setting_key s = setting_key t \<longleftrightarrow> s = t"
  using all_setting_keys_distinct unfolding ALL_SETTING_KEYS_def distinct_map
  by (meson all_settings_complete inj_onD)

lemma setting_key_known [simp]: "setting_key s \<in> set ALL_SETTING_KEYS"
  by (simp add: ALL_SETTING_KEYS_def)

lemma setting_key_not_schema [simp]:
  "setting_key s \<noteq> STORAGE_KEY_CACHE_SCHEMA" "STORAGE_KEY_CACHE_SCHEMA \<noteq> setting_key s"
  by (cases s; simp add: STORAGE_KEY_CACHE_SCHEMA_def)+

lemma all_setting_keys_iff: "k \<in> set ALL_SETTING_KEYS \<longleftrightarrow> (\<exists>s. k = setting_key s)"
  by (auto simp: ALL_SETTING_KEYS_def)

section \<open>Reading after writing\<close>

named_theorems storage_rules

lemma get_after_set [storage_rules]:
  "get_item k (set_item k' v ws) =
     (if k = k' \<and> ws_available ws \<and> ws_accepts ws then Some v else get_item k ws)"
  by (auto simp: get_item_def set_item_def AList.update_conv')

lemma get_after_remove [storage_rules]:
  "get_item k (remove_key k' ws) = (if k = k' then None else get_item k ws)"
  by (auto simp: get_item_def remove_key_def AList.delete_conv' map_of_delete)

lemma get_item_absent: "k \<notin> fst ` set (ws_items ws) \<Longrightarrow> get_item k ws = None"
  by (simp add: get_item_def map_of_eq_None_iff)

lemma get_item_unavailable: "\<not> ws_available ws \<Longrightarrow> get_item k ws = None"
  by (simp add: get_item_def)

lemma remove_keeps_flags [simp]:
  "ws_available (remove_key k ws) = ws_available ws" "ws_accepts (remove_key k ws) = ws_accepts ws"
  by (simp_all add: remove_key_def)

lemma set_keeps_flags [simp]:
  "ws_available (set_item k v ws) = ws_available ws" "ws_accepts (set_item k v ws) = ws_accepts ws"
  by (simp_all add: set_item_def)

lemma get_after_removes:
  "get_item k (fold remove_key ks ws) = (if k \<in> set ks then None else get_item k ws)"
  by (induction ks arbitrary: ws) (auto simp: storage_rules)

lemma removes_keep_flags [simp]:
  "ws_available (fold remove_key ks ws) = ws_available ws"
  "ws_accepts (fold remove_key ks ws) = ws_accepts ws"
  by (induction ks arbitrary: ws) simp_all

section \<open>The contract of a stored value\<close>

text \<open>What the callers of a load and save pair rely on: an admissible value that is written is the
  value read. The booleans, the numbers and the enumerations are its instances.\<close>

locale stored_value =
  fixes encode :: "'a \<Rightarrow> string" and decode :: "string \<Rightarrow> 'a option" and ok :: "'a \<Rightarrow> bool"
  assumes decode_encode: "ok v \<Longrightarrow> decode (encode v) = Some v"
begin

lemma stored_after_write:
  "ws_available ws \<Longrightarrow> ws_accepts ws \<Longrightarrow> ok v \<Longrightarrow>
     Option.bind (get_item k (set_item k (encode v) ws)) decode = Some v"
  by (simp add: storage_rules decode_encode)

lemma stored_other:
  "k \<noteq> k' \<Longrightarrow> Option.bind (get_item k (set_item k' (encode v) ws)) decode = Option.bind (get_item k ws) decode"
  by (simp add: storage_rules)

lemma stored_after_refusal:
  "\<not> ws_accepts ws \<Longrightarrow>
     Option.bind (get_item k (set_item k' (encode v) ws)) decode = Option.bind (get_item k ws) decode"
  by (simp add: storage_rules)

end

interpretation bool_value: stored_value "\<lambda>b. if b then ''true'' else ''false''" "\<lambda>v. Some (v = ''true'')" "\<lambda>_. True"
  by unfold_locales simp

interpretation u32_value: stored_value u32_display parse_u32 "\<lambda>_. True"
  by unfold_locales simp

interpretation enum_value: stored_value "\<lambda>v. v" "\<lambda>v. if setting_validator s v then Some v else None" "setting_validator s"
  for s
  by unfold_locales simp

lemma load_bool_bind: "load_bool k ws = Option.bind (get_item k ws) (\<lambda>v. Some (v = ''true''))"
  by (cases "get_item k ws") (simp_all add: load_bool_def)

section \<open>What the user has chosen\<close>

text \<open>The value of a setting that the storage holds, when it holds one that this build accepts; the
  kinds of values a setting can have.\<close>

definition user_value :: "setting \<Rightarrow> web_storage \<Rightarrow> setting_value option" where
  "user_value s ws =
     (case default_value s of
        BoolV _ \<Rightarrow> map_option BoolV (load_bool (setting_key s) ws)
      | U32V _ \<Rightarrow> map_option U32V (load_u32 (setting_key s) ws)
      | TextV _ \<Rightarrow>
          map_option TextV (Option.bind (get_item (setting_key s) ws)
            (\<lambda>v. if setting_validator s v then Some v else None)))"

fun value_ok :: "setting \<Rightarrow> setting_value \<Rightarrow> bool" where
  "value_ok s (BoolV _) = (case default_value s of BoolV _ \<Rightarrow> True | _ \<Rightarrow> False)"
| "value_ok s (U32V _) = (case default_value s of U32V _ \<Rightarrow> True | _ \<Rightarrow> False)"
| "value_ok s (TextV t) = (case default_value s of TextV _ \<Rightarrow> setting_validator s t | _ \<Rightarrow> False)"

lemma default_value_ok: "value_ok s (default_value s)"
  by (cases s) (simp_all add: is_valid_ui_density_def is_valid_swipe_left_mode_def is_valid_drag_and_drop_mode_def)

lemma user_value_cong:
  "get_item (setting_key s) ws = get_item (setting_key s) ws' \<Longrightarrow> user_value s ws = user_value s ws'"
  by (simp add: user_value_def load_bool_def load_u32_def split: setting_value.split)

lemma user_value_ok: "user_value s ws = Some v \<Longrightarrow> value_ok s v"
  by (cases "default_value s") (auto simp: user_value_def split: if_splits bind_splits)

lemma has_setting_user_value: "has_setting s ws \<longleftrightarrow> user_value s ws \<noteq> None"
  by (auto simp: has_setting_def user_value_def has_valid_enum_string_def load_string_def
    split: setting_value.split option.split)

lemma load_setting_fst:
  "fst (load_setting s ws) = (case user_value s ws of Some v \<Rightarrow> v | None \<Rightarrow> default_value s)"
  by (auto simp: load_setting_def user_value_def load_enum_string_def load_string_def
    split: setting_value.split option.split)

lemma load_setting_heals:
  "snd (load_setting s ws) = ws \<or> snd (load_setting s ws) = remove_key (setting_key s) ws \<and> user_value s ws = None"
  by (auto simp: load_setting_def user_value_def load_enum_string_def load_string_def
    split: setting_value.split option.split)

lemma user_value_removed: "get_item (setting_key s) ws = None \<Longrightarrow> user_value s ws = None"
  by (simp add: user_value_def load_bool_def load_u32_def split: setting_value.split)

lemma load_setting_keeps_users [simp]: "user_value t (snd (load_setting s ws)) = user_value t ws"
proof (cases "snd (load_setting s ws) = ws")
  case False
  then have healed: "snd (load_setting s ws) = remove_key (setting_key s) ws" "user_value s ws = None"
    using load_setting_heals[of s ws] by auto
  show ?thesis
  proof (cases "t = s")
    case True
    then show ?thesis by (simp add: healed user_value_removed storage_rules)
  next
    case False
    then show ?thesis by (intro user_value_cong) (simp add: healed storage_rules)
  qed
qed simp

lemma load_setting_keeps_flags [simp]:
  "ws_available (snd (load_setting s ws)) = ws_available ws"
  "ws_accepts (snd (load_setting s ws)) = ws_accepts ws"
  using load_setting_heals[of s ws] by auto

lemma user_value_saved:
  assumes "ws_available ws" "ws_accepts ws" "value_ok s v"
  shows "user_value s (save_setting s v ws) = Some v"
  using assms
  by (cases v; cases "default_value s")
    (simp_all add: user_value_def save_setting_def save_bool_def save_u32_def save_string_def load_bool_bind
      load_u32_def bool_value.stored_after_write u32_value.stored_after_write enum_value.stored_after_write
      del: bind.simps)

lemma user_value_saved_other:
  "t \<noteq> s \<Longrightarrow> user_value t (save_setting s v ws) = user_value t ws"
  by (intro user_value_cong)
    (simp add: save_setting_def save_bool_def save_u32_def save_string_def storage_rules split: setting_value.split)

lemma user_value_save_refused:
  "\<not> ws_available ws \<or> \<not> ws_accepts ws \<Longrightarrow> user_value t (save_setting s v ws) = user_value t ws"
  by (intro user_value_cong)
    (auto simp: save_setting_def save_bool_def save_u32_def save_string_def storage_rules split: setting_value.split)

lemma save_setting_keeps_flags [simp]:
  "ws_available (save_setting s v ws) = ws_available ws" "ws_accepts (save_setting s v ws) = ws_accepts ws"
  by (simp_all add: save_setting_def save_bool_def save_u32_def save_string_def split: setting_value.split)

section \<open>The sweep and the reset\<close>

lemma swept_keys:
  "get_item k (run_startup_migrations ws) =
     (if take (length BLAZELIST_KEY_PREFIX) k = BLAZELIST_KEY_PREFIX \<and> \<not> is_known_key k then None
      else get_item k ws)"
proof (cases "ws_available ws")
  case True
  then show ?thesis
    by (auto simp: run_startup_migrations_def get_after_removes keys_to_prune_def get_item_absent)
qed (simp add: run_startup_migrations_def get_item_unavailable)

lemma swept_user_value [simp]: "user_value s (run_startup_migrations ws) = user_value s ws"
  by (intro user_value_cong) (simp add: swept_keys is_known_key_def)

lemma swept_flags [simp]:
  "ws_available (run_startup_migrations ws) = ws_available ws"
  "ws_accepts (run_startup_migrations ws) = ws_accepts ws"
  by (simp_all add: run_startup_migrations_def)

lemma cleared_keys:
  "get_item k (clear_all_settings ws) = (if k \<in> set ALL_SETTING_KEYS then None else get_item k ws)"
  by (simp add: clear_all_settings_def get_after_removes get_item_unavailable)

lemma cleared_user_value [simp]: "user_value s (clear_all_settings ws) = None"
  by (intro user_value_removed) (simp add: cleared_keys)

lemma cleared_keeps_schema: "load_cache_schema (clear_all_settings ws) = load_cache_schema ws"
  by (auto simp: load_cache_schema_def load_string_def cleared_keys all_setting_keys_iff)

end
