(* ===== verification/Settings_Panel.thy ===== *)
theory Settings_Panel
  imports Complex_Main Settings Client_Storage
begin

text \<open>
  The settings in the running web client: the signals a page starts with (clients/wasm/src/state/store.rs),
  the server's defaults laid under the user's choices (clients/wasm/src/app.rs) and the handlers of the
  settings panel (clients/wasm/src/components/settings_panel.rs). The signals of the 33 settings are a
  function from settings to values; the classes and the font size of the root element stand for the
  document. Widths are \<open>f64\<close> values, kept as rationals: every operation on them here is exact.
\<close>

section \<open>The state\<close>

record device =
  dv_storage :: web_storage
  dv_signals :: "setting \<Rightarrow> setting_value"
  dv_server_config :: "(string \<times> string) list"
  dv_sidebar_width :: rat
  dv_detail_width :: rat
  dv_sync_countdown :: "32 word"
  dv_link_cache :: link_graph_cache
  dv_link_progress :: "nat \<times> nat"
  dv_drag_session :: bool
  dv_files :: opfs
  dv_classes :: "string set"
  dv_font_size :: string

section \<open>The document\<close>

text \<open>\<open>classList.add\<close> refuses an empty token and one with white space.\<close>

definition add_class :: "string \<Rightarrow> string set \<Rightarrow> string set" where
  "add_class c cs =
     (if c = [] \<or> list_ex (\<lambda>x. x \<in> set [CHR 0x09, CHR 0x0A, CHR 0x0C, CHR 0x0D, CHR '' '']) c then cs
      else insert c cs)"

definition apply_ui_scale :: "32 word \<Rightarrow> device \<Rightarrow> device" where
  "apply_ui_scale pct dv = dv\<lparr>dv_font_size := u32_display pct @ ''%''\<rparr>"

definition apply_ui_density :: "string \<Rightarrow> device \<Rightarrow> device" where
  "apply_ui_density density dv =
     dv\<lparr>dv_classes := add_class (''density-'' @ density)
          (dv_classes dv - {''density-compact''} - {''density-cozy''})\<rparr>"

definition apply_show_card_time :: "bool \<Rightarrow> device \<Rightarrow> device" where
  "apply_show_card_time enabled dv =
     dv\<lparr>dv_classes := (if enabled then add_class ''show-card-time'' (dv_classes dv)
                       else dv_classes dv - {''show-card-time''})\<rparr>"

definition apply_drag_and_drop_classes :: "bool \<Rightarrow> string \<Rightarrow> device \<Rightarrow> device" where
  "apply_drag_and_drop_classes enabled mode dv =
     (let cl = (if enabled then add_class ''dnd-on'' (dv_classes dv) else dv_classes dv - {''dnd-on''})
      in dv\<lparr>dv_classes :=
             (if enabled \<and> mode = ''handle'' then add_class ''dnd-mode-handle'' cl
              else cl - {''dnd-mode-handle''})\<rparr>)"

section \<open>Reading and writing a signal\<close>

definition signal_bool :: "setting \<Rightarrow> device \<Rightarrow> bool" where
  "signal_bool s dv = (case dv_signals dv s of BoolV b \<Rightarrow> b | _ \<Rightarrow> False)"

definition signal_u32 :: "setting \<Rightarrow> device \<Rightarrow> 32 word" where
  "signal_u32 s dv = (case dv_signals dv s of U32V n \<Rightarrow> n | _ \<Rightarrow> 0)"

definition signal_text :: "setting \<Rightarrow> device \<Rightarrow> string" where
  "signal_text s dv = (case dv_signals dv s of TextV t \<Rightarrow> t | _ \<Rightarrow> [])"

definition set_signal :: "setting \<Rightarrow> setting_value \<Rightarrow> device \<Rightarrow> device" where
  "set_signal s v dv = dv\<lparr>dv_signals := (dv_signals dv)(s := v)\<rparr>"

definition set_and_save :: "setting \<Rightarrow> setting_value \<Rightarrow> device \<Rightarrow> device" where
  "set_and_save s v dv =
     (let dv' = set_signal s v dv in dv'\<lparr>dv_storage := save_setting s v (dv_storage dv')\<rparr>)"

section \<open>Start of the page\<close>

definition clamp_rat :: "rat \<Rightarrow> rat \<Rightarrow> rat \<Rightarrow> rat" where
  "clamp_rat lo hi x = (if x < lo then lo else if hi < x then hi else x)"

text \<open>The order in which the signals are created.\<close>

definition state_order :: "setting list" where
  "state_order =
    [ShowPreview, PriorityDebounceEnabled, PriorityDebounceDelayMs, AutoSync,
     AutoSyncIntervalMs, KeyboardShortcuts, SearchTags, UiScale, UiDensity, TouchSwipe,
     SwipeThresholdRightCycle, SwipeThresholdRightLevels, SwipeThresholdLeftCycle,
     SwipeThresholdLeftLevels, SwipeUndoTimeoutMs, SwipeLeftMode, SwipeLevelsZoneTodayWidth,
     SwipeLevelsZoneTomorrowWidth, SwipeLevelsZoneSoonWidth, ClearTagSearch,
     DefaultSidebarWidth, DefaultDetailWidth, OverrideSidebarWidth, OverrideDetailWidth,
     ShowDueTodayButton, RecursiveLinks, ShowListLinkCounts, ShowCardTime, ExtinguishOnDueSet,
     ExtinguishOnDueClear, ClearDueOnBlaze, DragAndDropEnabled, DragAndDropMode]"

definition load_signal :: "setting \<Rightarrow> device \<Rightarrow> device" where
  "load_signal s dv =
     (case load_setting s (dv_storage dv) of
        (v, ws) \<Rightarrow> set_signal s v (dv\<lparr>dv_storage := ws\<rparr>))"

definition u32_of_value :: "setting_value \<Rightarrow> 32 word" where
  "u32_of_value v = (case v of U32V n \<Rightarrow> n | _ \<Rightarrow> 0)"

definition initial_sidebar_width :: "web_storage \<Rightarrow> rat" where
  "initial_sidebar_width ws =
     (let override_sidebar = (fst (load_setting OverrideSidebarWidth ws) = BoolV True)
      in of_nat (unat (u32_of_value
           (if override_sidebar then fst (load_setting DefaultSidebarWidth ws)
            else default_value DefaultSidebarWidth))))"

definition initial_detail_width :: "rat \<Rightarrow> web_storage \<Rightarrow> rat" where
  "initial_detail_width viewport_width ws =
     (let override_detail = (fst (load_setting OverrideDetailWidth ws) = BoolV True);
          w = u32_of_value (fst (load_setting DefaultDetailWidth ws))
      in if override_detail \<and> 0 < w then clamp_rat 280 1200 (of_nat (unat w))
         else clamp_rat 280 800 (viewport_width / 2))"

definition new_device :: "rat \<Rightarrow> web_storage \<Rightarrow> opfs \<Rightarrow> device" where
  "new_device viewport_width ws fs =
     fold load_signal state_order
       \<lparr>dv_storage = ws, dv_signals = default_value, dv_server_config = [],
        dv_sidebar_width = initial_sidebar_width ws,
        dv_detail_width = initial_detail_width viewport_width ws, dv_sync_countdown = 0,
        dv_link_cache = [], dv_link_progress = (0, 0), dv_drag_session = False, dv_files = fs,
        dv_classes = {}, dv_font_size = []\<rparr>"

text \<open>\<open>App\<close>: the sweep, the state, and the settings that change the document.\<close>

definition app_start :: "rat \<Rightarrow> web_storage \<Rightarrow> opfs \<Rightarrow> device" where
  "app_start viewport_width ws fs =
     (let dv = new_device viewport_width (run_startup_migrations ws) fs;
          dv = apply_ui_scale (signal_u32 UiScale dv) dv;
          dv = apply_ui_density (signal_text UiDensity dv) dv;
          dv = apply_show_card_time (signal_bool ShowCardTime dv) dv
      in apply_drag_and_drop_classes (signal_bool DragAndDropEnabled dv) (signal_text DragAndDropMode dv) dv)"

section \<open>The server's defaults\<close>

datatype js_value = JsBool bool | JsNum rat | JsStr string | JsOther

text \<open>\<open>n as u32\<close> truncates and saturates.\<close>

definition as_u32 :: "rat \<Rightarrow> 32 word" where
  "as_u32 n = word_of_int (max 0 (min (2 ^ 32 - 1) \<lfloor>n\<rfloor>))"

text \<open>The key of each setting in the configuration object.\<close>

fun config_key :: "setting \<Rightarrow> string" where
  "config_key ShowPreview = ''show_preview''"
| "config_key AutoSync = ''auto_sync''"
| "config_key AutoSyncIntervalMs = ''auto_sync_interval_ms''"
| "config_key PriorityDebounceEnabled = ''priority_debounce_enabled''"
| "config_key PriorityDebounceDelayMs = ''priority_debounce_delay_ms''"
| "config_key KeyboardShortcuts = ''keyboard_shortcuts''"
| "config_key SearchTags = ''search_tags''"
| "config_key UiScale = ''ui_scale''"
| "config_key UiDensity = ''ui_density''"
| "config_key TouchSwipe = ''touch_swipe''"
| "config_key SwipeThresholdRightCycle = ''swipe_threshold_right_cycle''"
| "config_key SwipeThresholdRightLevels = ''swipe_threshold_right_levels''"
| "config_key SwipeThresholdLeftCycle = ''swipe_threshold_left_cycle''"
| "config_key SwipeThresholdLeftLevels = ''swipe_threshold_left_levels''"
| "config_key SwipeUndoTimeoutMs = ''swipe_undo_timeout_ms''"
| "config_key SwipeLeftMode = ''swipe_left_mode''"
| "config_key SwipeLevelsZoneTodayWidth = ''swipe_levels_zone_today_width''"
| "config_key SwipeLevelsZoneTomorrowWidth = ''swipe_levels_zone_tomorrow_width''"
| "config_key SwipeLevelsZoneSoonWidth = ''swipe_levels_zone_soon_width''"
| "config_key ClearTagSearch = ''clear_tag_search''"
| "config_key DefaultSidebarWidth = ''default_sidebar_width''"
| "config_key DefaultDetailWidth = ''default_detail_width''"
| "config_key OverrideSidebarWidth = ''override_sidebar_width''"
| "config_key OverrideDetailWidth = ''override_detail_width''"
| "config_key ShowDueTodayButton = ''show_due_today_button''"
| "config_key RecursiveLinks = ''recursive_links''"
| "config_key ShowListLinkCounts = ''show_list_link_counts''"
| "config_key ShowCardTime = ''show_card_time''"
| "config_key ExtinguishOnDueSet = ''extinguish_on_due_set''"
| "config_key ExtinguishOnDueClear = ''extinguish_on_due_clear''"
| "config_key ClearDueOnBlaze = ''clear_due_on_blaze''"
| "config_key DragAndDropEnabled = ''drag_and_drop_enabled''"
| "config_key DragAndDropMode = ''drag_and_drop_mode''"

text \<open>\<open>get_bool\<close>, \<open>get_u32\<close> and \<open>get_string\<close>: a value of another type counts as absent.\<close>

definition get_bool :: "(string \<times> js_value) list \<Rightarrow> string \<Rightarrow> bool option" where
  "get_bool obj key = (case map_of obj key of Some (JsBool b) \<Rightarrow> Some b | _ \<Rightarrow> None)"

definition get_u32 :: "(string \<times> js_value) list \<Rightarrow> string \<Rightarrow> 32 word option" where
  "get_u32 obj key = (case map_of obj key of Some (JsNum n) \<Rightarrow> Some (as_u32 n) | _ \<Rightarrow> None)"

definition get_string :: "(string \<times> js_value) list \<Rightarrow> string \<Rightarrow> string option" where
  "get_string obj key = (case map_of obj key of Some (JsStr t) \<Rightarrow> Some t | _ \<Rightarrow> None)"

definition raw_config_text :: "js_value \<Rightarrow> string option" where
  "raw_config_text v =
     (case v of
        JsBool b \<Rightarrow> Some (if b then ''true'' else ''false'')
      | JsNum n \<Rightarrow> Some (u32_display (as_u32 n))
      | JsStr t \<Rightarrow> Some t
      | JsOther \<Rightarrow> None)"

definition config_order :: "setting list" where
  "config_order =
    [ShowPreview, AutoSync, AutoSyncIntervalMs, PriorityDebounceEnabled,
     PriorityDebounceDelayMs, KeyboardShortcuts, SearchTags, UiScale, UiDensity, TouchSwipe,
     SwipeThresholdRightCycle, SwipeThresholdRightLevels, SwipeThresholdLeftCycle,
     SwipeThresholdLeftLevels, SwipeUndoTimeoutMs, SwipeLeftMode, SwipeLevelsZoneTodayWidth,
     SwipeLevelsZoneTomorrowWidth, SwipeLevelsZoneSoonWidth, ClearTagSearch,
     DefaultSidebarWidth, DefaultDetailWidth, OverrideSidebarWidth, OverrideDetailWidth,
     RecursiveLinks, ShowListLinkCounts, ShowDueTodayButton, ShowCardTime, ExtinguishOnDueSet,
     ExtinguishOnDueClear, ClearDueOnBlaze, DragAndDropEnabled, DragAndDropMode]"

text \<open>What the configuration says of a setting; only the drag-and-drop mode is validated.\<close>

definition config_value :: "(string \<times> js_value) list \<Rightarrow> setting \<Rightarrow> setting_value option" where
  "config_value config s =
     (case default_value s of
        BoolV _ \<Rightarrow> map_option BoolV (get_bool config (config_key s))
      | U32V _ \<Rightarrow> map_option U32V (get_u32 config (config_key s))
      | TextV _ \<Rightarrow>
          (case get_string config (config_key s) of
             None \<Rightarrow> None
           | Some t \<Rightarrow>
               if s = DragAndDropMode \<and> \<not> is_valid_drag_and_drop_mode t then None else Some (TextV t)))"

text \<open>The document follows the three settings that show in it at once.\<close>

definition apply_to_document :: "setting \<Rightarrow> device \<Rightarrow> device" where
  "apply_to_document s dv =
     (case s of
        UiScale \<Rightarrow> apply_ui_scale (signal_u32 UiScale dv) dv
      | UiDensity \<Rightarrow> apply_ui_density (signal_text UiDensity dv) dv
      | ShowCardTime \<Rightarrow> apply_show_card_time (signal_bool ShowCardTime dv) dv
      | _ \<Rightarrow> dv)"

definition apply_config_entry :: "(string \<times> js_value) list \<Rightarrow> setting \<Rightarrow> device \<Rightarrow> device" where
  "apply_config_entry config s dv =
     (if has_setting s (dv_storage dv) then dv
      else case config_value config s of
        None \<Rightarrow> dv
      | Some v \<Rightarrow> apply_to_document s (set_signal s v dv))"

definition apply_server_config :: "(string \<times> js_value) list option \<Rightarrow> device \<Rightarrow> device" where
  "apply_server_config answer dv =
     (case answer of
        None \<Rightarrow> dv
      | Some config \<Rightarrow>
          (let raw = concat (map (\<lambda>(k, v). case raw_config_text v of Some t \<Rightarrow> [(k, t)] | None \<Rightarrow> []) config);
               dv = fold (apply_config_entry config) config_order (dv\<lparr>dv_server_config := raw\<rparr>)
           in apply_drag_and_drop_classes (signal_bool DragAndDropEnabled dv)
                (signal_text DragAndDropMode dv) dv))"

section \<open>The panel\<close>

definition clear_links :: "device \<Rightarrow> device" where
  "clear_links dv =
     dv\<lparr>dv_link_cache := [], dv_link_progress := (0, 0), dv_files := clear_link_cache (dv_files dv)\<rparr>"

definition toggle_setting :: "setting \<Rightarrow> device \<Rightarrow> device" where
  "toggle_setting s dv =
     (let v = \<not> signal_bool s dv;
          dv = set_and_save s (BoolV v) dv
      in case s of
        AutoSync \<Rightarrow> if v then dv else dv\<lparr>dv_sync_countdown := 0\<rparr>
      | RecursiveLinks \<Rightarrow> if v then dv else clear_links dv
      | ShowListLinkCounts \<Rightarrow> if v then dv else clear_links dv
      | DragAndDropEnabled \<Rightarrow>
          (let dv = apply_drag_and_drop_classes v (signal_text DragAndDropMode dv) dv
           in if v then dv else dv\<lparr>dv_drag_session := False\<rparr>)
      | ShowCardTime \<Rightarrow> apply_show_card_time v dv
      | OverrideSidebarWidth \<Rightarrow>
          if v \<and> \<not> has_setting DefaultSidebarWidth (dv_storage dv)
          then set_and_save DefaultSidebarWidth (U32V (as_u32 (dv_sidebar_width dv))) dv else dv
      | OverrideDetailWidth \<Rightarrow>
          if v \<and> \<not> has_setting DefaultDetailWidth (dv_storage dv)
          then set_and_save DefaultDetailWidth (U32V (as_u32 (dv_detail_width dv))) dv else dv
      | _ \<Rightarrow> dv)"

definition clamp_u32 :: "32 word \<Rightarrow> 32 word \<Rightarrow> 32 word \<Rightarrow> 32 word" where
  "clamp_u32 lo hi n = (if n < lo then lo else if hi < n then hi else n)"

text \<open>The range each numeric field is clamped to; a detail width of 0 means half of the viewport.\<close>

definition clamp_setting :: "setting \<Rightarrow> 32 word \<Rightarrow> 32 word" where
  "clamp_setting s n =
     (case s of
        AutoSyncIntervalMs \<Rightarrow> clamp_u32 5000 300000 n
      | PriorityDebounceDelayMs \<Rightarrow> clamp_u32 100 30000 n
      | SwipeThresholdRightCycle \<Rightarrow> clamp_u32 40 150 n
      | SwipeThresholdRightLevels \<Rightarrow> clamp_u32 40 150 n
      | SwipeThresholdLeftCycle \<Rightarrow> clamp_u32 40 150 n
      | SwipeThresholdLeftLevels \<Rightarrow> clamp_u32 40 150 n
      | SwipeUndoTimeoutMs \<Rightarrow> clamp_u32 500 30000 n
      | SwipeLevelsZoneTodayWidth \<Rightarrow> clamp_u32 20 400 n
      | SwipeLevelsZoneTomorrowWidth \<Rightarrow> clamp_u32 20 400 n
      | SwipeLevelsZoneSoonWidth \<Rightarrow> clamp_u32 20 400 n
      | UiScale \<Rightarrow> clamp_u32 50 300 n
      | DefaultSidebarWidth \<Rightarrow> clamp_u32 80 400 n
      | DefaultDetailWidth \<Rightarrow> if n = 0 then 0 else clamp_u32 280 1200 n
      | _ \<Rightarrow> n)"

definition change_number :: "setting \<Rightarrow> string \<Rightarrow> device \<Rightarrow> device" where
  "change_number s val dv =
     (case parse_u32 val of
        None \<Rightarrow> dv
      | Some n \<Rightarrow>
          (let n = clamp_setting s n; dv = set_and_save s (U32V n) dv
           in if s = UiScale then apply_ui_scale n dv else dv))"

definition change_text :: "setting \<Rightarrow> string \<Rightarrow> device \<Rightarrow> device" where
  "change_text s val dv =
     (case s of
        DragAndDropMode \<Rightarrow>
          if is_valid_drag_and_drop_mode val
          then apply_drag_and_drop_classes (signal_bool DragAndDropEnabled dv) val
                 (set_and_save DragAndDropMode (TextV val) dv)
          else dv
      | UiDensity \<Rightarrow> apply_ui_density val (set_and_save UiDensity (TextV val) dv)
      | _ \<Rightarrow> set_and_save s (TextV val) dv)"

text \<open>What a user does in the panel: an event goes to the handler of its setting, which there is
  only for a setting of that kind.\<close>

datatype panel_event = Toggle setting | ChangeNumber setting string | ChangeText setting string
  | ResizeSidebar rat | ResizeDetail rat

fun panel_step :: "panel_event \<Rightarrow> device \<Rightarrow> device" where
  "panel_step (Toggle s) dv =
     (case default_value s of BoolV _ \<Rightarrow> toggle_setting s dv | _ \<Rightarrow> dv)"
| "panel_step (ChangeNumber s val) dv =
     (case default_value s of U32V _ \<Rightarrow> change_number s val dv | _ \<Rightarrow> dv)"
| "panel_step (ChangeText s val) dv =
     (case default_value s of TextV _ \<Rightarrow> change_text s val dv | _ \<Rightarrow> dv)"
| "panel_step (ResizeSidebar w) dv = dv\<lparr>dv_sidebar_width := w\<rparr>"
| "panel_step (ResizeDetail w) dv = dv\<lparr>dv_detail_width := w\<rparr>"

text \<open>The reset button, up to the reload it ends with.\<close>

definition reset_settings :: "device \<Rightarrow> device" where
  "reset_settings dv = dv\<lparr>dv_storage := clear_all_settings (dv_storage dv)\<rparr>"

section \<open>The line below a setting\<close>

definition ascii_lower :: "char \<Rightarrow> char" where
  "ascii_lower c =
     (let n = of_char c :: nat in if 65 \<le> n \<and> n \<le> 90 then char_of (n + 32) else c)"

definition ENV_PREFIX :: string where "ENV_PREFIX = ''BLAZELIST_DEFAULT_''"

text \<open>The server's and the user's value as they are shown: each only where it differs from the
  default.\<close>

definition env_info ::
  "(string \<times> string) list \<Rightarrow> string \<Rightarrow> string \<Rightarrow> string \<Rightarrow> string option \<times> string option" where
  "env_info server_config env_var default_val current =
     (let name = (if take (length ENV_PREFIX) env_var = ENV_PREFIX then drop (length ENV_PREFIX) env_var
                  else env_var);
          key = map ascii_lower name;
          server = (case map_of (rev server_config) key of
                      Some v \<Rightarrow> if v \<noteq> default_val then Some v else None
                    | None \<Rightarrow> None);
          user = (if current \<noteq> default_val then Some current else None)
      in (server, user))"

end
