(* ===== verification/Settings_Facts.thy ===== *)
theory Settings_Facts
  imports Settings_Panel
begin

text \<open>
  What the settings of a running page are: the user's stored choice, or the server's default, or the
  built-in one, in this order. The first section follows the start of the page, the second shows
  that the handlers of the panel keep it so, the third that a signal always has a value of its
  setting's type.
\<close>

section \<open>The layers\<close>

definition server_value :: "(string \<times> js_value) list option \<Rightarrow> setting \<Rightarrow> setting_value option" where
  "server_value answer s = (case answer of None \<Rightarrow> None | Some config \<Rightarrow> config_value config s)"

definition effective :: "(string \<times> js_value) list option \<Rightarrow> web_storage \<Rightarrow> setting \<Rightarrow> setting_value" where
  "effective answer ws s =
     (case user_value s ws of
        Some v \<Rightarrow> v
      | None \<Rightarrow> (case server_value answer s of Some v \<Rightarrow> v | None \<Rightarrow> default_value s))"

definition layered :: "(string \<times> js_value) list option \<Rightarrow> device \<Rightarrow> bool" where
  "layered answer dv \<longleftrightarrow> (\<forall>s. dv_signals dv s = effective answer (dv_storage dv) s)"

lemma orders_complete [simp]: "s \<in> set state_order" "s \<in> set config_order"
  by (cases s; simp add: state_order_def config_order_def)+

lemma set_signal_simps [simp]:
  "dv_signals (set_signal s v dv) = (dv_signals dv)(s := v)"
  "dv_storage (set_signal s v dv) = dv_storage dv"
  by (simp_all add: set_signal_def)

lemma document_simps [simp]:
  "dv_signals (apply_ui_scale n dv) = dv_signals dv" "dv_storage (apply_ui_scale n dv) = dv_storage dv"
  "dv_signals (apply_ui_density t dv) = dv_signals dv" "dv_storage (apply_ui_density t dv) = dv_storage dv"
  "dv_signals (apply_show_card_time b dv) = dv_signals dv" "dv_storage (apply_show_card_time b dv) = dv_storage dv"
  "dv_signals (apply_drag_and_drop_classes b t dv) = dv_signals dv"
  "dv_storage (apply_drag_and_drop_classes b t dv) = dv_storage dv"
  by (simp_all add: apply_ui_scale_def apply_ui_density_def apply_show_card_time_def
    apply_drag_and_drop_classes_def Let_def)

lemma apply_to_document_simps [simp]:
  "dv_signals (apply_to_document s dv) = dv_signals dv" "dv_storage (apply_to_document s dv) = dv_storage dv"
  by (simp_all add: apply_to_document_def split: setting.split)

section \<open>The start of the page\<close>

lemma load_signal_simps:
  "dv_signals (load_signal s dv) =
     (dv_signals dv)(s := (case user_value s (dv_storage dv) of Some v \<Rightarrow> v | None \<Rightarrow> default_value s))"
  "user_value t (dv_storage (load_signal s dv)) = user_value t (dv_storage dv)"
  "ws_available (dv_storage (load_signal s dv)) = ws_available (dv_storage dv)"
  "ws_accepts (dv_storage (load_signal s dv)) = ws_accepts (dv_storage dv)"
proof -
  have *: "load_signal s dv =
      set_signal s (fst (load_setting s (dv_storage dv))) (dv\<lparr>dv_storage := snd (load_setting s (dv_storage dv))\<rparr>)"
    by (simp add: load_signal_def split_beta)
  show "dv_signals (load_signal s dv) =
     (dv_signals dv)(s := (case user_value s (dv_storage dv) of Some v \<Rightarrow> v | None \<Rightarrow> default_value s))"
    by (simp add: * load_setting_fst)
  show "user_value t (dv_storage (load_signal s dv)) = user_value t (dv_storage dv)"
    "ws_available (dv_storage (load_signal s dv)) = ws_available (dv_storage dv)"
    "ws_accepts (dv_storage (load_signal s dv)) = ws_accepts (dv_storage dv)"
    by (simp_all add: *)
qed

lemma load_signals_simps:
  "dv_signals (fold load_signal ss dv) t =
     (if t \<in> set ss then (case user_value t (dv_storage dv) of Some v \<Rightarrow> v | None \<Rightarrow> default_value t)
      else dv_signals dv t)"
  "user_value t (dv_storage (fold load_signal ss dv)) = user_value t (dv_storage dv)"
  "ws_available (dv_storage (fold load_signal ss dv)) = ws_available (dv_storage dv)"
  "ws_accepts (dv_storage (fold load_signal ss dv)) = ws_accepts (dv_storage dv)"
  by (induction ss arbitrary: dv) (auto simp: load_signal_simps)

lemma app_start_simps:
  "dv_signals (app_start vp ws fs) t =
     (case user_value t ws of Some v \<Rightarrow> v | None \<Rightarrow> default_value t)"
  "user_value t (dv_storage (app_start vp ws fs)) = user_value t ws"
  "ws_available (dv_storage (app_start vp ws fs)) = ws_available ws"
  "ws_accepts (dv_storage (app_start vp ws fs)) = ws_accepts ws"
  by (simp_all add: app_start_def Let_def new_device_def load_signals_simps)

lemma apply_config_entry_simps:
  "dv_storage (apply_config_entry config s dv) = dv_storage dv"
  "dv_signals (apply_config_entry config s dv) =
     (if user_value s (dv_storage dv) = None \<and> config_value config s \<noteq> None
      then (dv_signals dv)(s := the (config_value config s)) else dv_signals dv)"
  by (auto simp: apply_config_entry_def has_setting_user_value split: option.split)

lemma apply_config_entries_simps:
  "dv_storage (fold (apply_config_entry config) ss dv) = dv_storage dv"
  "dv_signals (fold (apply_config_entry config) ss dv) t =
     (if t \<in> set ss \<and> user_value t (dv_storage dv) = None \<and> config_value config t \<noteq> None
      then the (config_value config t) else dv_signals dv t)"
  by (induction ss arbitrary: dv) (auto simp: apply_config_entry_simps)

lemma apply_server_config_simps:
  "dv_storage (apply_server_config answer dv) = dv_storage dv"
  "dv_signals (apply_server_config answer dv) t =
     (if user_value t (dv_storage dv) = None \<and> server_value answer t \<noteq> None
      then the (server_value answer t) else dv_signals dv t)"
  by (simp_all add: apply_server_config_def server_value_def apply_config_entries_simps Let_def split: option.split)

lemma start_layered: "layered answer (apply_server_config answer (app_start vp ws fs))"
  by (auto simp: layered_def effective_def apply_server_config_simps app_start_simps split: option.split)

lemma effective_cong:
  "(\<And>s. user_value s ws = user_value s ws') \<Longrightarrow> effective answer ws = effective answer ws'"
  by (simp add: effective_def fun_eq_iff)

section \<open>The panel keeps the layers\<close>

definition saving :: "device \<Rightarrow> bool" where
  "saving dv \<longleftrightarrow> ws_available (dv_storage dv) \<and> ws_accepts (dv_storage dv)"

lemma set_and_save_simps [simp]:
  "dv_signals (set_and_save s v dv) = (dv_signals dv)(s := v)"
  "dv_storage (set_and_save s v dv) = save_setting s v (dv_storage dv)"
  by (simp_all add: set_and_save_def Let_def)

lemma saving_set_and_save [simp]: "saving (set_and_save s v dv) = saving dv"
  by (simp add: saving_def)

lemma layered_set_and_save [intro]:
  assumes "layered answer dv" "saving dv" "value_ok s v"
  shows "layered answer (set_and_save s v dv)"
  using assms by (auto simp: layered_def effective_def saving_def user_value_saved user_value_saved_other)

lemma layered_saving_cong:
  assumes "dv_signals dv' = dv_signals dv" "dv_storage dv' = dv_storage dv"
  shows "layered answer dv' = layered answer dv" "saving dv' = saving dv"
  using assms by (simp_all add: layered_def saving_def)

lemma layered_document [simp]:
  "layered answer (apply_ui_scale n dv) = layered answer dv" "saving (apply_ui_scale n dv) = saving dv"
  "layered answer (apply_ui_density t dv) = layered answer dv" "saving (apply_ui_density t dv) = saving dv"
  "layered answer (apply_show_card_time b dv) = layered answer dv" "saving (apply_show_card_time b dv) = saving dv"
  "layered answer (apply_drag_and_drop_classes b t dv) = layered answer dv"
  "saving (apply_drag_and_drop_classes b t dv) = saving dv"
  "layered answer (clear_links dv) = layered answer dv" "saving (clear_links dv) = saving dv"
  "layered answer (dv\<lparr>dv_sync_countdown := c\<rparr>) = layered answer dv" "saving (dv\<lparr>dv_sync_countdown := c\<rparr>) = saving dv"
  "layered answer (dv\<lparr>dv_drag_session := d\<rparr>) = layered answer dv" "saving (dv\<lparr>dv_drag_session := d\<rparr>) = saving dv"
  "layered answer (dv\<lparr>dv_sidebar_width := w\<rparr>) = layered answer dv" "saving (dv\<lparr>dv_sidebar_width := w\<rparr>) = saving dv"
  "layered answer (dv\<lparr>dv_detail_width := w\<rparr>) = layered answer dv" "saving (dv\<lparr>dv_detail_width := w\<rparr>) = saving dv"
  by (rule layered_saving_cong; simp add: clear_links_def)+

text \<open>The options of the selection lists are the valid texts.\<close>

fun offered :: "panel_event \<Rightarrow> bool" where
  "offered (ChangeText s val) = setting_validator s val"
| "offered _ = True"

definition kept :: "(string \<times> js_value) list option \<Rightarrow> device \<Rightarrow> bool" where
  "kept answer dv \<longleftrightarrow> layered answer dv \<and> saving dv"

lemma kept_set_and_save: "kept answer dv \<Longrightarrow> value_ok s v \<Longrightarrow> kept answer (set_and_save s v dv)"
  by (simp add: kept_def layered_set_and_save)

lemma kept_toggle:
  assumes "kept answer dv" "default_value s = BoolV d"
  shows "kept answer (toggle_setting s dv)"
proof -
  have "kept answer (set_and_save s (BoolV v) dv)" for v
    using assms by (intro kept_set_and_save) simp_all
  then show ?thesis
    using kept_set_and_save[of answer _ DefaultSidebarWidth "U32V n" for n]
      kept_set_and_save[of answer _ DefaultDetailWidth "U32V n" for n]
    by (cases s) (simp_all add: toggle_setting_def kept_def Let_def layered_set_and_save)
qed

lemma kept_change_number:
  "kept answer dv \<Longrightarrow> default_value s = U32V d \<Longrightarrow> kept answer (change_number s val dv)"
  using kept_set_and_save[of answer dv s "U32V n" for n]
  by (auto simp: change_number_def kept_def Let_def split: option.split)

lemma kept_change_text:
  "kept answer dv \<Longrightarrow> default_value s = TextV d \<Longrightarrow> setting_validator s val \<Longrightarrow> kept answer (change_text s val dv)"
  using kept_set_and_save[of answer dv s "TextV val"]
  by (cases s) (simp_all add: change_text_def kept_def)

lemma kept_step: "kept answer dv \<Longrightarrow> offered ev \<Longrightarrow> kept answer (panel_step ev dv)"
  by (cases ev)
    (auto simp: kept_toggle kept_change_number kept_change_text split: setting_value.split, simp_all add: kept_def)

lemma kept_steps: "kept answer dv \<Longrightarrow> list_all offered evs \<Longrightarrow> kept answer (fold panel_step evs dv)"
  by (induction evs arbitrary: dv) (simp_all add: kept_step)

section \<open>Types\<close>

fun same_kind :: "setting_value \<Rightarrow> setting_value \<Rightarrow> bool" where
  "same_kind (BoolV _) (BoolV _) = True"
| "same_kind (U32V _) (U32V _) = True"
| "same_kind (TextV _) (TextV _) = True"
| "same_kind _ _ = False"

definition typed :: "device \<Rightarrow> bool" where
  "typed dv \<longleftrightarrow> (\<forall>s. same_kind (dv_signals dv s) (default_value s))
     \<and> is_valid_drag_and_drop_mode (signal_text DragAndDropMode dv)"

lemma value_ok_kind: "value_ok s v \<Longrightarrow> same_kind v (default_value s)"
  by (cases v; cases "default_value s") simp_all

lemma config_value_kind: "config_value config s = Some v \<Longrightarrow> same_kind v (default_value s)"
  by (cases "default_value s") (auto simp: config_value_def split: option.splits if_splits)

lemma typed_cong: "dv_signals dv' = dv_signals dv \<Longrightarrow> typed dv' = typed dv"
  by (simp add: typed_def signal_text_def)

lemma effective_kind: "same_kind (effective answer ws s) (default_value s)"
  using user_value_ok[of s ws] config_value_kind[of _ s] value_ok_kind[OF default_value_ok[of s]]
  by (auto simp: effective_def server_value_def intro: value_ok_kind split: option.split)

lemma effective_mode: "\<exists>m. effective answer ws DragAndDropMode = TextV m \<and> is_valid_drag_and_drop_mode m"
proof (cases "user_value DragAndDropMode ws")
  case None
  then show ?thesis
    by (auto simp: effective_def server_value_def config_value_def is_valid_drag_and_drop_mode_def
      split: option.split)
next
  case (Some v)
  then show ?thesis using user_value_ok[OF Some] by (cases v) (auto simp: effective_def)
qed

lemma layered_typed: "layered answer dv \<Longrightarrow> typed dv"
  using effective_mode[of answer "dv_storage dv"] effective_kind
  by (auto simp: layered_def typed_def signal_text_def)

lemma typed_signal:
  "typed dv \<Longrightarrow> same_kind v (default_value s) \<Longrightarrow> (\<And>t. s = DragAndDropMode \<Longrightarrow> v = TextV t \<Longrightarrow> is_valid_drag_and_drop_mode t)
     \<Longrightarrow> typed (set_and_save s v dv)"
  by (cases v) (auto simp: typed_def signal_text_def)

lemma typed_step:
  assumes "typed dv"
  shows "typed (panel_step ev dv)"
proof (cases ev)
  case (Toggle s)
  have saved: "typed (set_and_save s (BoolV b) dv)" if "default_value s = BoolV d" for b d
    using assms that by (intro typed_signal) (auto simp: that)
  have twice: "typed (set_and_save t (U32V n) (set_and_save s (BoolV b) dv))"
    if "default_value s = BoolV d" "default_value t = U32V e" for b d e t n
    by (rule typed_signal[OF saved[OF that(1)]]) (auto simp: that)
  show ?thesis
  proof (cases "default_value s")
    case (BoolV d)
    have "\<exists>t n b. (dv_signals (toggle_setting s dv) = dv_signals (set_and_save s (BoolV b) dv)) \<or>
        (t \<in> {DefaultSidebarWidth, DefaultDetailWidth} \<and>
         dv_signals (toggle_setting s dv) = dv_signals (set_and_save t (U32V n) (set_and_save s (BoolV b) dv)))"
      by (cases s) (auto simp: toggle_setting_def clear_links_def Let_def)
    then show ?thesis
      using saved[OF BoolV] twice[OF BoolV] typed_cong Toggle BoolV
      by (metis (no_types, lifting) default_value.simps(21,22) insertE panel_step.simps(1) setting_value.simps(10) singletonD)
  qed (use assms Toggle in simp_all)
next
  case (ChangeNumber s val)
  then show ?thesis
    using assms typed_signal[of dv "U32V n" s for n]
    by (auto simp: change_number_def Let_def typed_cong[of "apply_ui_scale n d" d for n d]
      split: setting_value.split option.split)
next
  case (ChangeText s val)
  then show ?thesis
    using assms typed_signal[of dv "TextV val" s]
    by (cases s) (auto simp: change_text_def typed_cong[of "apply_ui_density n d" d for n d]
      typed_cong[of "apply_drag_and_drop_classes b t d" d for b t d])
next
  case (ResizeSidebar w)
  then show ?thesis using assms typed_cong[of "dv\<lparr>dv_sidebar_width := w\<rparr>" dv] by simp
next
  case (ResizeDetail w)
  then show ?thesis using assms typed_cong[of "dv\<lparr>dv_detail_width := w\<rparr>" dv] by simp
qed

lemma typed_steps: "typed dv \<Longrightarrow> typed (fold panel_step evs dv)"
  by (induction evs arbitrary: dv) (simp_all add: typed_step)

end
