(* ===== verification/Server_Https.thy ===== *)
theory Server_Https
  imports Rust_Text
begin

text \<open>
  The server's two small HTTP endpoints (server/src/https.rs): the client defaults taken from the
  environment, the request line, the static files with the guard against path traversal, and the
  responses; with the hexadecimal text of the certificate hash that the client reads back
  (clients/wasm/src/app.rs, components/hooks.rs, clients/lib/src/color.rs). Texts are the bytes of
  their UTF-8 encoding. The environment is a function from names to values; the file system is the
  record \<open>web_files\<close>, what the operating system answers about paths.
\<close>

section \<open>Client defaults from the environment\<close>

datatype env_kind = EnvBool | EnvU32 | EnvText

text \<open>The environment variable, the key in the JSON object and the type of each entry, in the order
  the pairs are pushed.\<close>

definition client_config_table :: "(string \<times> string \<times> env_kind) list" where
  "client_config_table =
    [(''BLAZELIST_DEFAULT_SHOW_PREVIEW'', ''show_preview'', EnvBool),
     (''BLAZELIST_DEFAULT_AUTO_SYNC'', ''auto_sync'', EnvBool),
     (''BLAZELIST_DEFAULT_AUTO_SYNC_INTERVAL_MS'', ''auto_sync_interval_ms'', EnvU32),
     (''BLAZELIST_DEFAULT_PRIORITY_DEBOUNCE_ENABLED'', ''priority_debounce_enabled'', EnvBool),
     (''BLAZELIST_DEFAULT_PRIORITY_DEBOUNCE_DELAY_MS'', ''priority_debounce_delay_ms'', EnvU32),
     (''BLAZELIST_DEFAULT_KEYBOARD_SHORTCUTS'', ''keyboard_shortcuts'', EnvBool),
     (''BLAZELIST_DEFAULT_SEARCH_TAGS'', ''search_tags'', EnvBool),
     (''BLAZELIST_DEFAULT_UI_SCALE'', ''ui_scale'', EnvU32),
     (''BLAZELIST_DEFAULT_UI_DENSITY'', ''ui_density'', EnvText),
     (''BLAZELIST_DEFAULT_TOUCH_SWIPE'', ''touch_swipe'', EnvBool),
     (''BLAZELIST_DEFAULT_SWIPE_THRESHOLD_RIGHT_CYCLE'', ''swipe_threshold_right_cycle'', EnvU32),
     (''BLAZELIST_DEFAULT_SWIPE_THRESHOLD_RIGHT_LEVELS'', ''swipe_threshold_right_levels'', EnvU32),
     (''BLAZELIST_DEFAULT_SWIPE_THRESHOLD_LEFT_CYCLE'', ''swipe_threshold_left_cycle'', EnvU32),
     (''BLAZELIST_DEFAULT_SWIPE_THRESHOLD_LEFT_LEVELS'', ''swipe_threshold_left_levels'', EnvU32),
     (''BLAZELIST_DEFAULT_SWIPE_UNDO_TIMEOUT_MS'', ''swipe_undo_timeout_ms'', EnvU32),
     (''BLAZELIST_DEFAULT_SWIPE_LEFT_MODE'', ''swipe_left_mode'', EnvText),
     (''BLAZELIST_DEFAULT_SWIPE_LEVELS_ZONE_TODAY_WIDTH'', ''swipe_levels_zone_today_width'', EnvU32),
     (''BLAZELIST_DEFAULT_SWIPE_LEVELS_ZONE_TOMORROW_WIDTH'', ''swipe_levels_zone_tomorrow_width'', EnvU32),
     (''BLAZELIST_DEFAULT_SWIPE_LEVELS_ZONE_SOON_WIDTH'', ''swipe_levels_zone_soon_width'', EnvU32),
     (''BLAZELIST_DEFAULT_CLEAR_TAG_SEARCH'', ''clear_tag_search'', EnvBool),
     (''BLAZELIST_DEFAULT_SIDEBAR_WIDTH'', ''default_sidebar_width'', EnvU32),
     (''BLAZELIST_DEFAULT_DETAIL_WIDTH'', ''default_detail_width'', EnvU32),
     (''BLAZELIST_DEFAULT_OVERRIDE_SIDEBAR_WIDTH'', ''override_sidebar_width'', EnvBool),
     (''BLAZELIST_DEFAULT_OVERRIDE_DETAIL_WIDTH'', ''override_detail_width'', EnvBool),
     (''BLAZELIST_DEFAULT_RECURSIVE_LINKS'', ''recursive_links'', EnvBool),
     (''BLAZELIST_DEFAULT_SHOW_LIST_LINK_COUNTS'', ''show_list_link_counts'', EnvBool),
     (''BLAZELIST_DEFAULT_SHOW_DUE_TODAY_BUTTON'', ''show_due_today_button'', EnvBool),
     (''BLAZELIST_DEFAULT_SHOW_CARD_TIME'', ''show_card_time'', EnvBool),
     (''BLAZELIST_DEFAULT_EXTINGUISH_ON_DUE_SET'', ''extinguish_on_due_set'', EnvBool),
     (''BLAZELIST_DEFAULT_EXTINGUISH_ON_DUE_CLEAR'', ''extinguish_on_due_clear'', EnvBool),
     (''BLAZELIST_DEFAULT_CLEAR_DUE_ON_BLAZE'', ''clear_due_on_blaze'', EnvBool),
     (''BLAZELIST_DEFAULT_DRAG_AND_DROP_ENABLED'', ''drag_and_drop_enabled'', EnvBool),
     (''BLAZELIST_DEFAULT_DRAG_AND_DROP_MODE'', ''drag_and_drop_mode'', EnvText)]"

text \<open>\<open>v.replace('"', "")\<close> and the format strings.\<close>

definition DQ :: char where "DQ = CHR 0x22"

definition quoted :: "string \<Rightarrow> string" where
  "quoted s = [DQ] @ s @ [DQ]"

definition strip_quotes :: "string \<Rightarrow> string" where
  "strip_quotes s = filter (\<lambda>c. c \<noteq> DQ) s"

fun config_pair :: "(string \<Rightarrow> string option) \<Rightarrow> string \<times> string \<times> env_kind \<Rightarrow> string list" where
  "config_pair env (var, key, kind) =
     (case env var of
        None \<Rightarrow> []
      | Some v \<Rightarrow>
          (case kind of
             EnvBool \<Rightarrow> [quoted key @ '':'' @ (if v = ''true'' then ''true'' else ''false'')]
           | EnvU32 \<Rightarrow>
               (case parse_u32 v of
                  Some n \<Rightarrow> [quoted key @ '':'' @ u32_display n]
                | None \<Rightarrow> [])
           | EnvText \<Rightarrow> [quoted key @ '':'' @ quoted (strip_quotes v)]))"

fun comma_join :: "string list \<Rightarrow> string" where
  "comma_join [] = []"
| "comma_join [p] = p"
| "comma_join (p # q # ps) = p @ '','' @ comma_join (q # ps)"

definition build_client_config_json :: "(string \<Rightarrow> string option) \<Rightarrow> string" where
  "build_client_config_json env =
     ''{'' @ comma_join (concat (map (config_pair env) client_config_table)) @ ''}''"

section \<open>Bytes to text\<close>

text \<open>\<open>String::from_utf8_lossy\<close>: a maximal prefix of a sequence that is not completed becomes the
  replacement character. \<open>utf8_tail\<close> gives the ranges the bytes after a lead byte must lie in.\<close>

definition REPLACEMENT :: string where "REPLACEMENT = [CHR 0xEF, CHR 0xBF, CHR 0xBD]"

definition utf8_tail :: "nat \<Rightarrow> (nat \<times> nat) list option" where
  "utf8_tail b =
     (let c = (128, 191)
      in if b < 128 then Some []
         else if 194 \<le> b \<and> b \<le> 223 then Some [c]
         else if b = 224 then Some [(160, 191), c]
         else if b = 237 then Some [(128, 159), c]
         else if 225 \<le> b \<and> b \<le> 239 then Some [c, c]
         else if b = 240 then Some [(144, 191), c, c]
         else if 241 \<le> b \<and> b \<le> 243 then Some [c, c, c]
         else if b = 244 then Some [(128, 143), c, c]
         else None)"

fun match_ranges :: "(nat \<times> nat) list \<Rightarrow> string \<Rightarrow> nat" where
  "match_ranges ((lo, hi) # rs) (c # cs) =
     (if lo \<le> of_char c \<and> of_char c \<le> hi then Suc (match_ranges rs cs) else 0)"
| "match_ranges _ _ = 0"

function from_utf8_lossy :: "string \<Rightarrow> string" where
  "from_utf8_lossy [] = []"
| "from_utf8_lossy (c # cs) =
     (case utf8_tail (of_char c) of
        None \<Rightarrow> REPLACEMENT @ from_utf8_lossy cs
      | Some rs \<Rightarrow>
          (let n = match_ranges rs cs
           in (if n = length rs then c # take n cs else REPLACEMENT) @ from_utf8_lossy (drop n cs)))"
  by pat_completeness auto
termination by (relation "measure length") auto

text \<open>\<open>lines().next().unwrap_or("")\<close>: a carriage return goes with the line feed that follows it.\<close>

definition first_line :: "string \<Rightarrow> string" where
  "first_line s =
     (let line = takeWhile (\<lambda>c. c \<noteq> LF) s
      in if LF \<in> set s \<and> line \<noteq> [] \<and> last line = CR then butlast line else line)"

definition parse_request_path :: "string \<Rightarrow> string option" where
  "parse_request_path request_line =
     (case next_token request_line of
        None \<Rightarrow> None
      | Some (http_method, rest) \<Rightarrow>
          (case next_token rest of
             None \<Rightarrow> None
           | Some (raw_path, _) \<Rightarrow>
               if http_method \<noteq> ''GET'' then None
               else Some (takeWhile (\<lambda>c. c \<noteq> CHR ''?'') raw_path)))"

section \<open>Paths and responses\<close>

fun split_slash :: "string \<Rightarrow> string list" where
  "split_slash [] = [[]]"
| "split_slash (c # cs) =
     (if c = CHR ''/'' then [] # split_slash cs
      else (c # hd (split_slash cs)) # tl (split_slash cs))"

text \<open>\<open>Path::join\<close> on Unix.\<close>

definition path_join :: "string \<Rightarrow> string \<Rightarrow> string" where
  "path_join dir p =
     (if p \<noteq> [] \<and> hd p = CHR ''/'' then p
      else if dir = [] \<or> last dir = CHR ''/'' then dir @ p
      else dir @ ''/'' @ p)"

text \<open>\<open>Path::components\<close> without the root, and \<open>Path::extension\<close>: the text after the last dot of the
  last component, where something stands before the dot.\<close>

definition path_components :: "string \<Rightarrow> string list" where
  "path_components p = filter (\<lambda>seg. seg \<noteq> [] \<and> seg \<noteq> ''.'') (split_slash p)"

definition path_extension :: "string \<Rightarrow> string option" where
  "path_extension p =
     (let cs = path_components p
      in if cs = [] \<or> last cs = ''..'' then None
         else let name = last cs;
                  ext = rev (takeWhile (\<lambda>c. c \<noteq> CHR ''.'') (rev name))
              in if CHR ''.'' \<in> set name \<and> length ext + 1 < length name then Some ext else None)"

definition content_type_for :: "string \<Rightarrow> string" where
  "content_type_for path =
     (let e = path_extension path
      in if e = Some ''html'' then ''text/html; charset=utf-8''
         else if e = Some ''js'' then ''application/javascript''
         else if e = Some ''wasm'' then ''application/wasm''
         else if e = Some ''css'' then ''text/css; charset=utf-8''
         else if e = Some ''json'' then ''application/json''
         else if e = Some ''ico'' then ''image/x-icon''
         else if e = Some ''png'' then ''image/png''
         else if e = Some ''svg'' then ''image/svg+xml''
         else if e = Some ''webmanifest'' then ''application/manifest+json''
         else ''application/octet-stream'')"

definition CRLF :: string where "CRLF = [CR, LF]"

definition build_file_response :: "string \<Rightarrow> string \<Rightarrow> string" where
  "build_file_response path body =
     ''HTTP/1.1 200 OK'' @ CRLF @
     ''Content-Type: '' @ content_type_for path @ CRLF @
     ''Content-Length: '' @ nat_digits (length body) @ CRLF @
     ''Connection: close'' @ CRLF @ CRLF @ body"

definition build_cors_response :: "string \<Rightarrow> string \<Rightarrow> string" where
  "build_cors_response content_type body =
     ''HTTP/1.1 200 OK'' @ CRLF @
     ''Content-Type: '' @ content_type @ CRLF @
     ''Content-Length: '' @ nat_digits (length body) @ CRLF @
     ''Access-Control-Allow-Origin: *'' @ CRLF @
     ''Access-Control-Allow-Methods: GET, OPTIONS'' @ CRLF @
     ''Access-Control-Allow-Headers: *'' @ CRLF @
     ''Cache-Control: no-store'' @ CRLF @
     ''Connection: close'' @ CRLF @ CRLF @ body"

definition build_error_response :: "nat \<Rightarrow> string \<Rightarrow> string" where
  "build_error_response status reason =
     (let body = nat_digits status @ '' '' @ reason
      in ''HTTP/1.1 '' @ body @ CRLF @
         ''Content-Type: text/plain'' @ CRLF @
         ''Content-Length: '' @ nat_digits (length body) @ CRLF @
         ''Connection: close'' @ CRLF @ CRLF @ body)"

section \<open>Static files\<close>

record web_files =
  wf_canonicalize :: "string \<Rightarrow> string option"
  wf_is_file :: "string \<Rightarrow> bool"
  wf_read :: "string \<Rightarrow> string option"

definition static_file_path :: "web_files \<Rightarrow> string \<Rightarrow> string \<Rightarrow> string" where
  "static_file_path fs canonical_dir request_path =
     (let clean_path = dropWhile (\<lambda>c. c = CHR ''/'') request_path;
          traversal = (''..'' \<in> set (split_slash clean_path));
          candidate = path_join canonical_dir clean_path
      in if \<not> traversal \<and> wf_is_file fs candidate then candidate
         else path_join canonical_dir ''index.html'')"

definition serve_static_file :: "web_files \<Rightarrow> string \<Rightarrow> string \<Rightarrow> string" where
  "serve_static_file fs static_dir request_path =
     (case wf_canonicalize fs static_dir of
        None \<Rightarrow> build_error_response 500 ''Internal Server Error''
      | Some canonical_dir \<Rightarrow>
          (let file_path = static_file_path fs canonical_dir request_path
           in case wf_read fs file_path of
                Some contents \<Rightarrow> build_file_response file_path contents
              | None \<Rightarrow> build_error_response 404 ''Not Found''))"

text \<open>One connection: the bytes of one read, at most the size of the buffer, and the response, if any.\<close>

definition handle_connection ::
  "web_files \<Rightarrow> string \<Rightarrow> string \<Rightarrow> string \<Rightarrow> string option \<Rightarrow> string option" where
  "handle_connection fs static_dir cert_hash_hex config_json received =
     (case received of
        None \<Rightarrow> None
      | Some bs \<Rightarrow>
          if bs = [] then None
          else Some
            (case parse_request_path (first_line (from_utf8_lossy (take 8192 bs))) of
               None \<Rightarrow> build_error_response 400 ''Bad Request''
             | Some p \<Rightarrow>
                 if p = ''/cert-hash'' then build_cors_response ''text/plain'' cert_hash_hex
                 else if p = ''/config'' then build_cors_response ''application/json'' config_json
                 else serve_static_file fs static_dir p))"

definition cert_hash_connection :: "string \<Rightarrow> string \<Rightarrow> string option \<Rightarrow> string option" where
  "cert_hash_connection cert_hash_hex config_json received =
     (case received of
        None \<Rightarrow> None
      | Some bs \<Rightarrow>
          if bs = [] then None
          else Some
            (if parse_request_path (first_line (from_utf8_lossy (take 1024 bs))) = Some ''/config''
             then build_cors_response ''application/json'' config_json
             else build_cors_response ''text/plain'' cert_hash_hex))"

section \<open>Hexadecimal texts\<close>

definition hex_byte :: "u8 \<Rightarrow> string" where
  "hex_byte b = [hex_digit (unat b div 16), hex_digit (unat b mod 16)]"

definition hex_encode :: "bytes \<Rightarrow> string" where
  "hex_encode bs = concat (map hex_byte bs)"

text \<open>\<open>u8::from_str_radix(s, 16)\<close> on a text of two bytes: a leading plus sign is allowed.\<close>

definition u8_from_hex :: "char \<Rightarrow> char \<Rightarrow> u8 option" where
  "u8_from_hex a b =
     (if a = CHR ''+'' then map_option of_nat (hex_value b)
      else case (hex_value a, hex_value b) of
        (Some x, Some y) \<Rightarrow> Some (of_nat (16 * x + y))
      | _ \<Rightarrow> None)"

text \<open>The slices \<open>&hex[i..i + 2]\<close> panic inside a character; the collection stops at the first pair
  that is not a number.\<close>

fun hex_pairs :: "string \<Rightarrow> (unit, bytes option) outcome" where
  "hex_pairs (a # b # cs) =
     (if utf8_continuation a \<or> (cs \<noteq> [] \<and> utf8_continuation (hd cs)) then Panic
      else case u8_from_hex a b of
        None \<Rightarrow> Ok None
      | Some n \<Rightarrow> map_ok (map_option (\<lambda>ns. n # ns)) (hex_pairs cs))"
| "hex_pairs _ = Ok (Some [])"

definition hex_to_bytes :: "string \<Rightarrow> (unit, bytes option) outcome" where
  "hex_to_bytes hex = (if odd (length hex) then Ok None else hex_pairs hex)"

definition format_tag_hex :: "RGB8 \<Rightarrow> string" where
  "format_tag_hex c = ''#'' @ hex_byte (red c) @ hex_byte (green c) @ hex_byte (blue c)"

text \<open>All three slices are taken before any is tested.\<close>

definition parse_hex_color :: "string \<Rightarrow> (unit, RGB8 option) outcome" where
  "parse_hex_color s =
     (let hex = dropWhile (\<lambda>c. c = CHR ''#'') s
      in if length hex \<noteq> 6 then Ok None
         else if utf8_continuation (hex ! 2) \<or> utf8_continuation (hex ! 4) then Panic
         else case (u8_from_hex (hex ! 0) (hex ! 1), u8_from_hex (hex ! 2) (hex ! 3),
                    u8_from_hex (hex ! 4) (hex ! 5)) of
           (Some r, Some g, Some b) \<Rightarrow> Ok (Some \<lparr>red = r, green = g, blue = b\<rparr>)
         | _ \<Rightarrow> Ok None)"

section \<open>Plain requests\<close>

lemma from_utf8_lossy_ascii: "\<forall>c\<in>set s. (of_char c :: nat) < 128 \<Longrightarrow> from_utf8_lossy s = s"
proof (induction s)
  case (Cons c s)
  then have "utf8_tail (of_char c) = Some []" by (simp add: utf8_tail_def)
  then show ?case using Cons by simp
qed simp

section \<open>Hexadecimal texts read back\<close>

lemma nibble_bounds: "unat (b :: u8) div 16 < 16" "unat (b :: u8) mod 16 < 16"
  using unsigned_less[of b, where 'a = nat] by simp_all

lemma u8_from_hex_byte: "u8_from_hex (hex_digit (unat b div 16)) (hex_digit (unat b mod 16)) = Some b"
  by (simp add: u8_from_hex_def hex_digit_no_plus hex_value_digit nibble_bounds flip: of_nat_mult of_nat_add)

lemma hex_encode_plain: "cs = hex_encode bs \<Longrightarrow> cs = [] \<or> \<not> utf8_continuation (hd cs)"
  by (cases bs) (simp_all add: hex_encode_def hex_byte_def hex_digit_plain nibble_bounds)

lemma hex_pairs_encode: "hex_pairs (hex_encode bs) = Ok (Some bs)"
proof (induction bs)
  case Nil
  then show ?case by (simp add: hex_encode_def)
next
  case (Cons b bs)
  have split: "hex_encode (b # bs) = hex_digit (unat b div 16) # hex_digit (unat b mod 16) # hex_encode bs"
    by (simp add: hex_encode_def hex_byte_def)
  show ?case
    using Cons.IH hex_encode_plain[of "hex_encode bs" bs]
    by (auto simp: split hex_digit_plain nibble_bounds u8_from_hex_byte)
qed

lemma length_hex_encode: "length (hex_encode bs) = 2 * length bs"
  by (induction bs) (simp_all add: hex_encode_def hex_byte_def)

lemma hex_to_bytes_encode: "hex_to_bytes (hex_encode bs) = Ok (Some bs)"
  by (simp add: hex_to_bytes_def length_hex_encode hex_pairs_encode)

lemma parse_hex_color_format: "parse_hex_color (format_tag_hex c) = Ok (Some c)"
proof -
  have "hex_digit (unat b div 16) \<noteq> CHR ''#''" for b :: u8
  proof
    assume "hex_digit (unat b div 16) = CHR ''#''"
    then have "hex_value (hex_digit (unat b div 16)) = hex_value (CHR ''#'')" by simp
    then show False by (simp add: hex_value_digit nibble_bounds) (simp add: hex_value_def)
  qed
  then show ?thesis
    by (simp add: parse_hex_color_def format_tag_hex_def hex_byte_def hex_digit_plain nibble_bounds
      u8_from_hex_byte)
qed

section \<open>Static files stay inside the directory\<close>

lemma split_slash_nonempty [simp]: "split_slash s \<noteq> []"
  by (induction s) auto

lemma split_slash_append:
  "split_slash (s @ CHR ''/'' # t) = split_slash s @ split_slash t"
  by (induction s) auto

lemma path_components_empty [simp]: "path_components [] = []"
  by (simp add: path_components_def)

lemma path_components_join_slash:
  "path_components (s @ CHR ''/'' # t) = path_components s @ path_components t"
  by (simp add: path_components_def split_slash_append)

lemma path_components_snoc_slash: "path_components (s @ ''/'') = path_components s"
  by (simp add: path_components_join_slash)

lemma path_join_components:
  assumes "dir \<noteq> []" "p = [] \<or> hd p \<noteq> CHR ''/''"
  shows "path_components (path_join dir p) = path_components dir @ path_components p"
proof (cases "last dir = CHR ''/''")
  case True
  then obtain d where d: "dir = d @ ''/''" using assms(1) by (metis append_butlast_last_id)
  then show ?thesis
    using assms(2) by (auto simp: path_join_def path_components_join_slash path_components_snoc_slash)
next
  case False
  then show ?thesis
    using assms by (auto simp: path_join_def path_components_join_slash)
qed

lemma clean_path_relative: "dropWhile (\<lambda>c. c = x) p = [] \<or> hd (dropWhile (\<lambda>c. c = x) p) \<noteq> x"
  by (metis (mono_tags, lifting) hd_dropWhile)

lemma path_components_segments: "set (path_components p) \<subseteq> set (split_slash p)"
  by (auto simp: path_components_def)

lemma static_file_path_inside:
  assumes "dir \<noteq> []"
  shows "\<exists>rest. path_components (static_file_path fs dir p) = path_components dir @ rest \<and> ''..'' \<notin> set rest"
proof -
  define clean where "clean = dropWhile (\<lambda>c. c = CHR ''/'') p"
  show ?thesis
  proof (cases "''..'' \<notin> set (split_slash clean) \<and> wf_is_file fs (path_join dir clean)")
    case True
    then have "''..'' \<notin> set (path_components clean)" using path_components_segments by blast
    then show ?thesis
      using True assms clean_path_relative[of "CHR ''/''" p]
      by (auto simp: static_file_path_def Let_def path_join_components simp flip: clean_def)
  next
    case False
    have "path_components ''index.html'' = [''index.html'']" by (simp add: path_components_def)
    then show ?thesis
      using False assms by (auto simp: static_file_path_def Let_def path_join_components simp flip: clean_def)
  qed
qed

end
