(* ===== verification/Settings_Config.thy ===== *)
theory Settings_Config
  imports Settings_Facts Server_Https
begin

text \<open>
  The configuration on its way from the server's environment to the client's signals: the JSON text
  that \<open>build_client_config_json\<close> writes, what \<open>JSON.parse\<close> is documented to read from such a text (the
  law \<open>json_ok\<close> of the parser, a parameter), and the values that arrive. The last section has a small
  reader of flat objects, an instance of the parameter.
\<close>

section \<open>Environment variables of the settings\<close>

text \<open>The variable that the settings panel names below each setting.\<close>

fun env_var :: "setting \<Rightarrow> string" where
  "env_var ShowPreview = ''BLAZELIST_DEFAULT_SHOW_PREVIEW''"
| "env_var AutoSync = ''BLAZELIST_DEFAULT_AUTO_SYNC''"
| "env_var AutoSyncIntervalMs = ''BLAZELIST_DEFAULT_AUTO_SYNC_INTERVAL_MS''"
| "env_var PriorityDebounceEnabled = ''BLAZELIST_DEFAULT_PRIORITY_DEBOUNCE_ENABLED''"
| "env_var PriorityDebounceDelayMs = ''BLAZELIST_DEFAULT_PRIORITY_DEBOUNCE_DELAY_MS''"
| "env_var KeyboardShortcuts = ''BLAZELIST_DEFAULT_KEYBOARD_SHORTCUTS''"
| "env_var SearchTags = ''BLAZELIST_DEFAULT_SEARCH_TAGS''"
| "env_var UiScale = ''BLAZELIST_DEFAULT_UI_SCALE''"
| "env_var UiDensity = ''BLAZELIST_DEFAULT_UI_DENSITY''"
| "env_var TouchSwipe = ''BLAZELIST_DEFAULT_TOUCH_SWIPE''"
| "env_var SwipeThresholdRightCycle = ''BLAZELIST_DEFAULT_SWIPE_THRESHOLD_RIGHT_CYCLE''"
| "env_var SwipeThresholdRightLevels = ''BLAZELIST_DEFAULT_SWIPE_THRESHOLD_RIGHT_LEVELS''"
| "env_var SwipeThresholdLeftCycle = ''BLAZELIST_DEFAULT_SWIPE_THRESHOLD_LEFT_CYCLE''"
| "env_var SwipeThresholdLeftLevels = ''BLAZELIST_DEFAULT_SWIPE_THRESHOLD_LEFT_LEVELS''"
| "env_var SwipeUndoTimeoutMs = ''BLAZELIST_DEFAULT_SWIPE_UNDO_TIMEOUT_MS''"
| "env_var SwipeLeftMode = ''BLAZELIST_DEFAULT_SWIPE_LEFT_MODE''"
| "env_var SwipeLevelsZoneTodayWidth = ''BLAZELIST_DEFAULT_SWIPE_LEVELS_ZONE_TODAY_WIDTH''"
| "env_var SwipeLevelsZoneTomorrowWidth = ''BLAZELIST_DEFAULT_SWIPE_LEVELS_ZONE_TOMORROW_WIDTH''"
| "env_var SwipeLevelsZoneSoonWidth = ''BLAZELIST_DEFAULT_SWIPE_LEVELS_ZONE_SOON_WIDTH''"
| "env_var ClearTagSearch = ''BLAZELIST_DEFAULT_CLEAR_TAG_SEARCH''"
| "env_var DefaultSidebarWidth = ''BLAZELIST_DEFAULT_SIDEBAR_WIDTH''"
| "env_var DefaultDetailWidth = ''BLAZELIST_DEFAULT_DETAIL_WIDTH''"
| "env_var OverrideSidebarWidth = ''BLAZELIST_DEFAULT_OVERRIDE_SIDEBAR_WIDTH''"
| "env_var OverrideDetailWidth = ''BLAZELIST_DEFAULT_OVERRIDE_DETAIL_WIDTH''"
| "env_var ShowDueTodayButton = ''BLAZELIST_DEFAULT_SHOW_DUE_TODAY_BUTTON''"
| "env_var RecursiveLinks = ''BLAZELIST_DEFAULT_RECURSIVE_LINKS''"
| "env_var ShowListLinkCounts = ''BLAZELIST_DEFAULT_SHOW_LIST_LINK_COUNTS''"
| "env_var ShowCardTime = ''BLAZELIST_DEFAULT_SHOW_CARD_TIME''"
| "env_var ExtinguishOnDueSet = ''BLAZELIST_DEFAULT_EXTINGUISH_ON_DUE_SET''"
| "env_var ExtinguishOnDueClear = ''BLAZELIST_DEFAULT_EXTINGUISH_ON_DUE_CLEAR''"
| "env_var ClearDueOnBlaze = ''BLAZELIST_DEFAULT_CLEAR_DUE_ON_BLAZE''"
| "env_var DragAndDropEnabled = ''BLAZELIST_DEFAULT_DRAG_AND_DROP_ENABLED''"
| "env_var DragAndDropMode = ''BLAZELIST_DEFAULT_DRAG_AND_DROP_MODE''"

text \<open>What an administrator's environment asks for a setting.\<close>

definition env_choice :: "(string \<Rightarrow> string option) \<Rightarrow> setting \<Rightarrow> setting_value option" where
  "env_choice env s =
     (case env (env_var s) of
        None \<Rightarrow> None
      | Some t \<Rightarrow>
          (case default_value s of
             BoolV _ \<Rightarrow> Some (BoolV (t = ''true''))
           | U32V _ \<Rightarrow> map_option U32V (parse_u32 t)
           | TextV _ \<Rightarrow>
               if s = DragAndDropMode \<and> \<not> is_valid_drag_and_drop_mode (strip_quotes t) then None
               else Some (TextV (strip_quotes t))))"

definition setting_kind :: "setting \<Rightarrow> env_kind" where
  "setting_kind s = (case default_value s of BoolV _ \<Rightarrow> EnvBool | U32V _ \<Rightarrow> EnvU32 | TextV _ \<Rightarrow> EnvText)"

lemma client_config_table_settings:
  "client_config_table = map (\<lambda>s. (env_var s, config_key s, setting_kind s)) config_order"
  by (simp add: client_config_table_def config_order_def setting_kind_def)

lemma setting_key_config_key: "setting_key s = BLAZELIST_KEY_PREFIX @ config_key s"
  by (cases s) (simp_all add: BLAZELIST_KEY_PREFIX_def)

lemma config_key_inj [simp]: "config_key s = config_key t \<longleftrightarrow> s = t"
  by (metis same_append_eq setting_key_config_key setting_key_inj)

section \<open>The JSON text\<close>

text \<open>Texts that stand for themselves between quotes: no quote, no backslash, no control character.\<close>

definition plain_char :: "char \<Rightarrow> bool" where
  "plain_char c \<longleftrightarrow> c \<noteq> DQ \<and> c \<noteq> CHR 0x5C \<and> 32 \<le> (of_char c :: nat)"

fun json_literal :: "js_value \<Rightarrow> string option" where
  "json_literal (JsBool b) = Some (if b then ''true'' else ''false'')"
| "json_literal (JsNum r) =
     (if 0 \<le> r \<and> of_int \<lfloor>r\<rfloor> = r then Some (nat_digits (nat \<lfloor>r\<rfloor>)) else None)"
| "json_literal (JsStr t) = (if list_all plain_char t then Some (quoted t) else None)"
| "json_literal JsOther = None"

definition json_member :: "string \<times> js_value \<Rightarrow> string option" where
  "json_member m =
     (if list_all plain_char (fst m)
      then map_option (\<lambda>l. quoted (fst m) @ '':'' @ l) (json_literal (snd m)) else None)"

text \<open>\<open>JSON.parse\<close> on a flat object of literals with distinct keys.\<close>

definition json_ok :: "(string \<Rightarrow> (string \<times> js_value) list option) \<Rightarrow> bool" where
  "json_ok parse \<longleftrightarrow>
     (\<forall>ms texts. those (map json_member ms) = Some texts \<and> distinct (map fst ms)
        \<longrightarrow> parse (''{'' @ comma_join texts @ ''}'') = Some ms)"

text \<open>A \<open>u32\<close> as a JavaScript number.\<close>

definition u32_number :: "32 word \<Rightarrow> rat" where
  "u32_number n = rat_of_nat (unat n)"

lemma u32_number_simps [simp]: "0 \<le> u32_number n" "\<lfloor>u32_number n\<rfloor> = int (unat n)"
  unfolding u32_number_def by (simp_all only: of_nat_0_le_iff floor_of_nat)

lemma u32_number_unsigned [simp]: "(unsigned n :: rat) = u32_number n"
  by (simp add: u32_number_def)

definition env_entry :: "(string \<Rightarrow> string option) \<Rightarrow> setting \<Rightarrow> js_value option" where
  "env_entry env s =
     (case env (env_var s) of
        None \<Rightarrow> None
      | Some t \<Rightarrow>
          (case default_value s of
             BoolV _ \<Rightarrow> Some (JsBool (t = ''true''))
           | U32V _ \<Rightarrow> map_option (\<lambda>n. JsNum (u32_number n)) (parse_u32 t)
           | TextV _ \<Rightarrow> Some (JsStr (strip_quotes t))))"

definition env_members :: "(string \<Rightarrow> string option) \<Rightarrow> (string \<times> js_value) list" where
  "env_members env =
     concat (map (\<lambda>s. case env_entry env s of None \<Rightarrow> [] | Some v \<Rightarrow> [(config_key s, v)]) config_order)"

text \<open>An administrator's texts that need no escape; the other values are unrestricted.\<close>

definition env_plain :: "(string \<Rightarrow> string option) \<Rightarrow> bool" where
  "env_plain env \<longleftrightarrow>
     (\<forall>s d t. default_value s = TextV d \<and> env (env_var s) = Some t \<longrightarrow> list_all plain_char (strip_quotes t))"

lemma config_key_plain [simp]: "list_all plain_char (config_key s)"
  by (cases s) (simp_all add: plain_char_def DQ_def)

lemma those_Cons_iff:
  "those (x # xs) = Some ts \<longleftrightarrow> (\<exists>t ts'. x = Some t \<and> those xs = Some ts' \<and> ts = t # ts')"
  by (cases x; cases "those xs") auto

lemma json_member_iff:
  "json_member (k, v) = Some t \<longleftrightarrow>
     list_all plain_char k \<and> (\<exists>l. json_literal v = Some l \<and> t = quoted k @ '':'' @ l)"
  by (auto simp: json_member_def)

lemma those_append:
  "those (xs @ ys) = (case those xs of None \<Rightarrow> None | Some as \<Rightarrow> map_option (\<lambda>bs. as @ bs) (those ys))"
proof (induction xs)
  case Nil
  then show ?case by (cases "those ys") simp_all
next
  case (Cons x xs)
  then show ?case by (cases x; cases "those xs"; cases "those ys") simp_all
qed

lemma env_row_text:
  assumes "env_plain env"
  shows "those (map json_member (case env_entry env s of None \<Rightarrow> [] | Some v \<Rightarrow> [(config_key s, v)]))
    = Some (config_pair env (env_var s, config_key s, setting_kind s))"
proof (cases "env (env_var s)")
  case (Some t)
  have "list_all plain_char (strip_quotes t)" if "default_value s = TextV d" for d
    using assms Some that by (auto simp: env_plain_def)
  then show ?thesis
    using Some
    by (cases "default_value s"; cases "parse_u32 t")
      (simp_all add: env_entry_def setting_kind_def json_member_def u32_display_def)
qed (simp add: env_entry_def)

lemma those_concat:
  assumes "\<And>x. x \<in> set xs \<Longrightarrow> those (map g (f x)) = Some (h x)"
  shows "those (map g (concat (map f xs))) = Some (concat (map h xs))"
  using assms by (induction xs) (auto simp: those_append)

lemma env_text:
  "env_plain env \<Longrightarrow>
     those (map json_member (env_members env)) = Some (concat (map (config_pair env) client_config_table))"
  by (simp add: env_members_def client_config_table_settings comp_def env_row_text those_concat)

lemma map_of_entries:
  assumes "inj k"
  shows "map_of (concat (map (\<lambda>s. case g s of None \<Rightarrow> [] | Some v \<Rightarrow> [(k s, v)]) ss)) (k t) =
    (if t \<in> set ss then g t else None)"
  using assms by (induction ss) (auto simp: inj_eq split: option.split)

lemma env_members_map: "map_of (env_members env) (config_key s) = env_entry env s"
  by (simp add: env_members_def map_of_entries inj_def)

lemma config_order_distinct: "distinct config_order"
  by (simp add: config_order_def)

lemma env_members_distinct: "distinct (map fst (env_members env))"
proof -
  have "distinct ss \<Longrightarrow> distinct (map fst (concat (map (\<lambda>s. case g s of None \<Rightarrow> [] | Some v \<Rightarrow> [(config_key s, v :: js_value)]) ss)))"
    for g :: "setting \<Rightarrow> js_value option" and ss
    by (induction ss) (auto split: option.splits)
  then show ?thesis unfolding env_members_def using config_order_distinct by blast
qed

lemma config_arrives:
  assumes "json_ok parse" "env_plain env"
  shows "parse (build_client_config_json env) = Some (env_members env)"
  using assms env_text env_members_distinct unfolding json_ok_def build_client_config_json_def by blast

lemma as_u32_number [simp]: "as_u32 (u32_number n) = n"
proof -
  have "uint n < 2 ^ 32" using uint_lt2p[of n] by simp
  then have "max 0 (min (2 ^ 32 - 1) (int (unat n))) = uint n" by simp
  then show ?thesis by (simp only: as_u32_def u32_number_simps word_of_int_uint)
qed

lemma config_value_env: "config_value (env_members env) s = env_choice env s"
  by (auto simp: config_value_def env_choice_def get_bool_def get_u32_def get_string_def env_members_map env_entry_def
    split: setting_value.split option.split)

section \<open>A reader of flat objects\<close>

definition read_quoted :: "string \<Rightarrow> (string \<times> string) option" where
  "read_quoted s =
     (case s of
        [] \<Rightarrow> None
      | c # cs \<Rightarrow>
          if c = DQ then (let t = takeWhile (\<lambda>x. x \<noteq> DQ) cs in Some (t, drop (length t + 1) cs)) else None)"

definition read_literal :: "string \<Rightarrow> (js_value \<times> string) option" where
  "read_literal s =
     (case read_quoted s of
        Some (t, rest) \<Rightarrow> Some (JsStr t, rest)
      | None \<Rightarrow>
          (let tok = takeWhile (\<lambda>c. c \<noteq> CHR '','' \<and> c \<noteq> CHR ''}'') s; rest = drop (length tok) s
           in if tok = ''true'' then Some (JsBool True, rest)
              else if tok = ''false'' then Some (JsBool False, rest)
              else map_option (\<lambda>n. (JsNum (of_nat n), rest)) (parse_digits 0 tok)))"

fun read_members :: "nat \<Rightarrow> string \<Rightarrow> (string \<times> js_value) list option" where
  "read_members 0 s = None"
| "read_members (Suc n) s =
     (case read_quoted s of
        Some (k, rest) \<Rightarrow>
          if take 1 rest = '':'' then
            (case read_literal (drop 1 rest) of
               Some (v, rest) \<Rightarrow>
                 if rest = ''}'' then Some [(k, v)]
                 else if take 1 rest = '','' then map_option (\<lambda>ms. (k, v) # ms) (read_members n (drop 1 rest))
                 else None
             | None \<Rightarrow> None)
          else None
      | None \<Rightarrow> None)"

definition read_flat :: "string \<Rightarrow> (string \<times> js_value) list option" where
  "read_flat s =
     (if s = ''{}'' then Some []
      else if take 1 s = ''{'' then read_members (length s) (drop 1 s) else None)"

lemma read_quoted_quoted:
  assumes "list_all plain_char t"
  shows "read_quoted (quoted t @ rest) = Some (t, rest)"
proof -
  have "takeWhile (\<lambda>x. x \<noteq> DQ) (t @ DQ # rest) = t"
    using assms by (subst takeWhile_append2) (auto simp: list_all_iff plain_char_def)
  then show ?thesis by (simp add: read_quoted_def quoted_def)
qed

lemma read_token:
  assumes "\<forall>c\<in>set tok. c \<noteq> CHR '','' \<and> c \<noteq> CHR ''}''" "d = CHR '','' \<or> d = CHR ''}''"
  shows "takeWhile (\<lambda>c. c \<noteq> CHR '','' \<and> c \<noteq> CHR ''}'') (tok @ d # rest) = tok"
  using assms by (subst takeWhile_append2) auto

lemma not_quoted: "hd s \<noteq> DQ \<Longrightarrow> s \<noteq> [] \<Longrightarrow> read_quoted (s @ rest) = None"
  by (cases s) (simp_all add: read_quoted_def)

lemma digits_token:
  "\<forall>c\<in>set (nat_digits n). c \<noteq> CHR '','' \<and> c \<noteq> CHR ''}''" "hd (nat_digits n) \<noteq> DQ"
  "nat_digits n \<noteq> ''true''" "nat_digits n \<noteq> ''false''"
proof -
  show "\<forall>c\<in>set (nat_digits n). c \<noteq> CHR '','' \<and> c \<noteq> CHR ''}''"
    using nat_digits_digits by fastforce
  have "hd (nat_digits n) \<in> set (nat_digits n)" by simp
  from nat_digits_digits[OF this] show "hd (nat_digits n) \<noteq> DQ" by (auto simp: DQ_def)
  show "nat_digits n \<noteq> ''true''" "nat_digits n \<noteq> ''false''"
    using nat_digits_digits[of "CHR ''e''" n] by auto
qed

lemma read_literal_literal:
  assumes "json_literal v = Some l" "d = CHR '','' \<or> d = CHR ''}''"
  shows "read_literal (l @ d # rest) = Some (v, d # rest)"
proof (cases v)
  case (JsStr t)
  then show ?thesis
    using assms(1) read_quoted_quoted[of t "d # rest"] by (simp add: read_literal_def split: if_splits)
next
  case (JsBool b)
  then have l: "l = (if b then ''true'' else ''false'')" using assms(1) by simp
  have "read_quoted (l @ d # rest) = None" by (intro not_quoted) (simp_all add: l DQ_def)
  moreover have "takeWhile (\<lambda>c. c \<noteq> CHR '','' \<and> c \<noteq> CHR ''}'') (l @ d # rest) = l"
    by (rule read_token) (simp_all add: l assms(2))
  ultimately show ?thesis using JsBool by (simp add: read_literal_def l)
next
  case (JsNum r)
  then have r: "0 \<le> r" "of_int \<lfloor>r\<rfloor> = r" and l: "l = nat_digits (nat \<lfloor>r\<rfloor>)"
    using assms(1) by (simp_all split: if_splits)
  have "of_nat (nat \<lfloor>r\<rfloor>) = r" using r by simp
  moreover have "read_quoted (l @ d # rest) = None" by (intro not_quoted) (simp_all add: l digits_token)
  moreover have "takeWhile (\<lambda>c. c \<noteq> CHR '','' \<and> c \<noteq> CHR ''}'') (l @ d # rest) = l"
    by (rule read_token) (simp_all add: l digits_token(1) assms(2))
  ultimately show ?thesis
    using JsNum digits_token(3,4) by (simp add: read_literal_def l parse_nat_digits)
qed (use assms in simp)

lemma read_members_members:
  assumes "those (map json_member (m # ms)) = Some texts" "length ms < n"
  shows "read_members n (comma_join texts @ ''}'') = Some (m # ms)"
  using assms
proof (induction ms arbitrary: m texts n)
  case Nil
  obtain k v where m: "m = (k, v)" by (cases m)
  obtain l where l: "list_all plain_char k" "json_literal v = Some l" "texts = [quoted k @ '':'' @ l]"
    using Nil by (auto simp: m json_member_def split: option.splits if_splits)
  obtain n' where n: "n = Suc n'" using Nil by (cases n) auto
  show ?case
    using read_literal_literal[OF l(2), of "CHR ''}''" "[]"]
    by (simp add: n m l(3) read_quoted_quoted[OF l(1)])
next
  case (Cons m' ms)
  obtain k v where m: "m = (k, v)" by (cases m)
  have "those (json_member m # map json_member (m' # ms)) = Some texts" using Cons.prems(1) by simp
  then obtain t texts' where t: "json_member m = Some t" "texts = t # texts'"
      and ms: "those (map json_member (m' # ms)) = Some texts'"
    unfolding those_Cons_iff by blast
  obtain l where l: "list_all plain_char k" "json_literal v = Some l" "t = quoted k @ '':'' @ l"
    using t(1) unfolding m json_member_iff by blast
  obtain n' where n: "n = Suc n'" "length ms < n'" using Cons.prems by (cases n) auto
  obtain t' ts where t': "texts' = t' # ts" using ms by (auto split: option.splits)
  have "read_members n' (comma_join texts' @ ''}'') = Some (m' # ms)"
    using Cons.IH[OF ms n(2)] .
  then show ?case
    using read_literal_literal[OF l(2), of "CHR '',''" "comma_join texts' @ ''}''"]
    by (simp add: n(1) m t(2) l(3) t' read_quoted_quoted[OF l(1)])
qed

lemma members_length:
  "those (map json_member ms) = Some texts \<Longrightarrow> length ms \<le> length (comma_join texts)"
proof (induction ms arbitrary: texts)
  case (Cons m ms)
  obtain t texts' where t: "json_member m = Some t" "those (map json_member ms) = Some texts'" "texts = t # texts'"
    using Cons.prems by (auto split: option.splits)
  have "1 \<le> length t" using t(1) by (auto simp: json_member_def quoted_def split: if_splits)
  then show ?case using Cons.IH[OF t(2)] t(3) by (cases texts') auto
qed simp

lemma read_flat_ok: "json_ok read_flat"
proof -
  have "read_flat (''{'' @ comma_join texts @ ''}'') = Some ms" if *: "those (map json_member ms) = Some texts" for ms texts
  proof (cases ms)
    case Nil
    then show ?thesis using * by (simp add: read_flat_def)
  next
    case (Cons m ms')
    have len: "length ms \<le> length (comma_join texts)" using members_length[OF *] .
    then have "comma_join texts \<noteq> []" using Cons by auto
    then show ?thesis
      using read_members_members[of m ms' texts "Suc (Suc (length (comma_join texts)))"] * len Cons
      by (simp add: read_flat_def del: read_members.simps)
  qed
  then show ?thesis by (simp add: json_ok_def)
qed

end
