(* ===== verification/Settings_Properties.thy ===== *)
theory Settings_Properties
  imports Settings_Config
begin

text \<open>
  The properties of the settings and of the server's HTTP endpoints, with their witnesses on a
  concrete device, environment and directory.
\<close>

section \<open>A concrete device, server and directory\<close>

definition demo_ws :: web_storage where
  "demo_ws = \<lparr>ws_available = True, ws_accepts = True,
     ws_items = [(''blazelist_auto_sync'', ''false''), (''blazelist_ui_scale'', ''+125''),
                 (''blazelist_swipe_left_mode'', ''toggle''), (''blazelist_swipe_threshold_left'', ''90''),
                 (''other_app'', ''1'')]\<rparr>"

definition demo_env :: "string \<Rightarrow> string option" where
  "demo_env = [''BLAZELIST_DEFAULT_UI_SCALE'' \<mapsto> ''110'', ''BLAZELIST_DEFAULT_SWIPE_LEFT_MODE'' \<mapsto> ''cycle'',
     ''BLAZELIST_DEFAULT_SWIPE_UNDO_TIMEOUT_MS'' \<mapsto> ''2500'', ''BLAZELIST_DEFAULT_DRAG_AND_DROP_MODE'' \<mapsto> ''mouse'']"

definition demo_fs :: opfs where "demo_fs = \<lparr>files = (\<lambda>_. None), writable = True\<rparr>"

definition demo_events :: "panel_event list" where
  "demo_events = [Toggle AutoSync, ChangeNumber UiScale ''7'', ChangeText UiDensity ''cozy'', ResizeSidebar (512 / 3),
     Toggle OverrideSidebarWidth]"

definition demo_files :: web_files where
  "demo_files = \<lparr>wf_canonicalize = (\<lambda>d. if d = ''dist'' then Some ''/srv/dist'' else None),
     wf_is_file = (\<lambda>p. p = ''/srv/dist/app.js'' \<or> p = ''/srv/dist/../secret.txt''),
     wf_read = (\<lambda>p. if p = ''/srv/dist/app.js'' then Some ''run()''
                     else if p = ''/srv/dist/index.html'' then Some ''<html>'' else Some ''TOP-SECRET'')\<rparr>"

lemma demo_env_plain: "env_plain demo_env"
proof -
  have "list_all plain_char (strip_quotes t)" if "default_value s = TextV d" "demo_env (env_var s) = Some t" for s d t
    using that by (cases s) (auto simp: demo_env_def strip_quotes_def plain_char_def DQ_def)
  then show ?thesis by (auto simp: env_plain_def)
qed

section \<open>Settings\<close>

text \<open>C22: A signal of the client is what the user has stored, if this build accepts it, else what the
  server's environment sets, else the built-in default, whatever else the storage holds; an
  environment value counts when it is a number of 32 bits or, for the drag-and-drop mode, a known
  mode. The JSON text the server writes is read by the browser's parser, of which only its documented
  behaviour on flat objects is used, and the texts of the environment need no escape.\<close>

theorem client_settings_layered:
  assumes "json_ok parse" "env_plain env"
  shows "dv_signals (apply_server_config (parse (build_client_config_json env)) (app_start viewport ws fs)) s =
    (case user_value s ws of
       Some v \<Rightarrow> v
     | None \<Rightarrow> (case env_choice env s of Some v \<Rightarrow> v | None \<Rightarrow> default_value s))"
  by (simp add: config_arrives[OF assms] apply_server_config_simps app_start_simps server_value_def config_value_env
    split: option.split)

lemma demo_choices:
  "user_value UiScale demo_ws = Some (U32V 125)" "user_value SwipeLeftMode demo_ws = None"
  "user_value SwipeUndoTimeoutMs demo_ws = None" "user_value DragAndDropMode demo_ws = None"
  "env_choice demo_env SwipeLeftMode = Some (TextV ''cycle'')"
  "env_choice demo_env SwipeUndoTimeoutMs = Some (U32V 2500)" "env_choice demo_env DragAndDropMode = None"
  by (simp_all add: user_value_def demo_ws_def demo_env_def env_choice_def get_item_def load_u32_def parse_u32_def
    parse_unsigned_def digit_value_def is_valid_swipe_left_mode_def is_valid_drag_and_drop_mode_def strip_quotes_def
    DQ_def)

theorem client_settings_layered_witness:
  "map (dv_signals (apply_server_config (read_flat (build_client_config_json demo_env)) (app_start 1000 demo_ws demo_fs)))
     [UiScale, SwipeLeftMode, SwipeUndoTimeoutMs, DragAndDropMode] =
   [U32V 125, TextV ''cycle'', U32V 2500, TextV ''anywhere'']"
  by (simp add: client_settings_layered[OF read_flat_ok demo_env_plain] demo_choices)

text \<open>Whatever a user does in the panel is still there after a reload: with a storage that takes
  writes and the options the lists offer, every signal after the reload, under the same server
  defaults, is what it was before.\<close>

theorem settings_survive_reload:
  assumes "ws_available ws" "ws_accepts ws" "list_all offered evs"
  shows "dv_signals (apply_server_config answer (app_start viewport'
      (dv_storage (fold panel_step evs (apply_server_config answer (app_start viewport ws fs)))) fs')) =
    dv_signals (fold panel_step evs (apply_server_config answer (app_start viewport ws fs)))"
proof -
  let ?dv = "fold panel_step evs (apply_server_config answer (app_start viewport ws fs))"
  have "kept answer (apply_server_config answer (app_start viewport ws fs))"
    using assms start_layered by (simp add: kept_def saving_def apply_server_config_simps app_start_simps)
  then have "layered answer ?dv" using kept_steps[OF _ assms(3)] by (simp add: kept_def)
  moreover have "layered answer (apply_server_config answer (app_start viewport' (dv_storage ?dv) fs'))"
    by (rule start_layered)
  moreover have "effective answer (dv_storage (apply_server_config answer (app_start viewport' (dv_storage ?dv) fs'))) =
      effective answer (dv_storage ?dv)"
    by (intro effective_cong) (simp add: apply_server_config_simps app_start_simps)
  ultimately show ?thesis by (simp add: layered_def fun_eq_iff)
qed

theorem settings_survive_reload_witness:
  "dv_signals (apply_server_config None (app_start 600
      (dv_storage (fold panel_step demo_events (apply_server_config None (app_start 1000 demo_ws demo_fs)))) demo_fs)) =
    dv_signals (fold panel_step demo_events (apply_server_config None (app_start 1000 demo_ws demo_fs)))"
  by (rule settings_survive_reload)
    (simp_all add: demo_ws_def demo_events_def is_valid_ui_density_def)

text \<open>A signal never has a value of another type than its setting, and the drag-and-drop mode is
  always one of the two modes, whatever the storage and the server's answer hold and whatever text is
  entered.\<close>

theorem settings_well_typed:
  "same_kind (dv_signals (fold panel_step evs (apply_server_config answer (app_start viewport ws fs))) s)
     (default_value s) \<and>
   is_valid_drag_and_drop_mode
     (signal_text DragAndDropMode (fold panel_step evs (apply_server_config answer (app_start viewport ws fs))))"
  using typed_steps[OF layered_typed[OF start_layered], of evs answer viewport ws fs] by (simp add: typed_def)

text \<open>The sweep at startup removes exactly the entries under the application's prefix that this
  build does not know: the settings, the schema stamp and the entries of other applications read as
  before, and a second sweep finds nothing.\<close>

theorem startup_sweep_exact:
  "get_item k (run_startup_migrations ws) =
     (if take (length BLAZELIST_KEY_PREFIX) k = BLAZELIST_KEY_PREFIX \<and> \<not> is_known_key k then None
      else get_item k ws) \<and>
   run_startup_migrations (run_startup_migrations ws) = run_startup_migrations ws"
proof -
  have "keys_to_prune (map fst (ws_items (run_startup_migrations ws))) = []" if "ws_available ws"
  proof -
    have "get_item k' (run_startup_migrations ws) \<noteq> None" if "k' \<in> fst ` set (ws_items (run_startup_migrations ws))" for k'
      using that \<open>ws_available ws\<close> by (simp add: get_item_def map_of_eq_None_iff)
    then show ?thesis by (fastforce simp: keys_to_prune_def filter_empty_conv swept_keys split: if_splits)
  qed
  then have "run_startup_migrations (run_startup_migrations ws) = run_startup_migrations ws"
    unfolding run_startup_migrations_def[of "run_startup_migrations ws"] by simp
  then show ?thesis by (simp add: swept_keys)
qed

section \<open>The HTTP endpoints\<close>

text \<open>A request for a static file is answered with a file below the served directory: its path is
  the directory's followed by segments none of which is the parent segment, whatever bytes the client
  sent; anything else the path could name is answered by the index page or a 404.\<close>

theorem static_files_stay_inside:
  assumes "received \<noteq> []" "wf_canonicalize fs static_dir = Some dir" "dir \<noteq> []"
    "parse_request_path (first_line (from_utf8_lossy (take 8192 received))) = Some p"
    "p \<noteq> ''/cert-hash''" "p \<noteq> ''/config''"
  shows "\<exists>path rest. path_components path = path_components dir @ rest \<and> ''..'' \<notin> set rest \<and>
    handle_connection fs static_dir cert_hash config (Some received) =
      Some (case wf_read fs path of
              Some contents \<Rightarrow> build_file_response path contents
            | None \<Rightarrow> build_error_response 404 ''Not Found'')"
proof -
  obtain rest where "path_components (static_file_path fs dir p) = path_components dir @ rest" "''..'' \<notin> set rest"
    using static_file_path_inside[OF assms(3)] by blast
  then show ?thesis using assms by (auto simp: handle_connection_def serve_static_file_def Let_def)
qed

definition demo_request :: string where
  "demo_request = ''GET /../secret.txt?x HTTP/1.1'' @ CRLF @ CRLF"

lemma demo_request_path:
  "parse_request_path (first_line (from_utf8_lossy (take 8192 demo_request))) = Some ''/../secret.txt''"
proof -
  have "take 8192 demo_request = demo_request" by (simp add: demo_request_def CRLF_def)
  moreover have "from_utf8_lossy demo_request = demo_request"
    by (rule from_utf8_lossy_ascii) (simp add: demo_request_def CRLF_def CR_def LF_def)
  moreover have "first_line demo_request = ''GET /../secret.txt?x HTTP/1.1''"
    by (simp add: first_line_def demo_request_def CRLF_def CR_def LF_def)
  moreover have "parse_request_path ''GET /../secret.txt?x HTTP/1.1'' = Some ''/../secret.txt''"
    by (simp add: parse_request_path_def next_token_def skip_white.simps white_len_def CR_def LF_def)
  ultimately show ?thesis by simp
qed

theorem static_files_stay_inside_witness:
  "\<exists>path rest. path_components path = path_components ''/srv/dist'' @ rest \<and> ''..'' \<notin> set rest \<and>
    handle_connection demo_files ''dist'' [] [] (Some demo_request) =
      Some (case wf_read demo_files path of
              Some contents \<Rightarrow> build_file_response path contents
            | None \<Rightarrow> build_error_response 404 ''Not Found'')"
  by (rule static_files_stay_inside[OF _ _ _ demo_request_path])
    (simp_all add: demo_files_def demo_request_def)

end
