(* ===== verification/Client_Wire.thy ===== *)
theory Client_Wire
  imports Client_Api
begin

text \<open>
  The web client's end of a stream (clients/wasm/src/transport/wire.rs, transport/client.rs): a
  buffered reader over chunks of any size, the framing on top of it, and the client's requests,
  handshake and subscription. A readable stream is the list of what its successive reads return; the
  end of the list is the end of the stream. \<open>peer\<close> is what the other end does with the bytes written
  on a stream: it gives the stream of its answer and its new state. The last sections show that the
  chunks do not matter and that a request over the wire is the request itself.
\<close>

section \<open>The buffered reader\<close>

datatype stream_read = Chunk bytes | StreamDone | NoValue | ReadFailed

text \<open>\<open>WireError\<close> of this module is the protocol's with one more variant for exceptions.\<close>

datatype wt_wire_error = WtWire WireError | JsError

record buf_reader =
  br_source :: "stream_read list"
  br_buffer :: bytes

fun fill :: "nat \<Rightarrow> bytes \<Rightarrow> stream_read list \<Rightarrow> (wt_wire_error, unit) outcome \<times> buf_reader" where
  "fill len buffer [] =
     (if len \<le> length buffer then Ok () else Err (WtWire StreamClosed), \<lparr>br_source = [], br_buffer = buffer\<rparr>)"
| "fill len buffer (r # source) =
     (if len \<le> length buffer then (Ok (), \<lparr>br_source = r # source, br_buffer = buffer\<rparr>)
      else case r of
        ReadFailed \<Rightarrow> (Err JsError, \<lparr>br_source = source, br_buffer = buffer\<rparr>)
      | StreamDone \<Rightarrow> (Err (WtWire StreamClosed), \<lparr>br_source = source, br_buffer = buffer\<rparr>)
      | NoValue \<Rightarrow> (Err (WtWire StreamClosed), \<lparr>br_source = source, br_buffer = buffer\<rparr>)
      | Chunk bs \<Rightarrow>
          if bs = [] then (Err (WtWire StreamClosed), \<lparr>br_source = source, br_buffer = buffer\<rparr>)
          else fill len (buffer @ bs) source)"

definition wt_read_exact :: "nat \<Rightarrow> buf_reader \<Rightarrow> (wt_wire_error, bytes) outcome \<times> buf_reader" where
  "wt_read_exact len r =
     (case fill len (br_buffer r) (br_source r) of
        (Ok _, r) \<Rightarrow> (Ok (take len (br_buffer r)), r\<lparr>br_buffer := drop len (br_buffer r)\<rparr>)
      | (Err e, r) \<Rightarrow> (Err e, r)
      | (Panic, r) \<Rightarrow> (Panic, r))"

text \<open>\<open>u32::from_be_bytes\<close> of the four bytes read.\<close>

fun be_value :: "bytes \<Rightarrow> nat" where
  "be_value [a, b, c, d] = ((unat a * 256 + unat b) * 256 + unat c) * 256 + unat d"
| "be_value _ = 0"

definition wt_read_message ::
  "(bytes \<Rightarrow> 'm option) \<Rightarrow> buf_reader \<Rightarrow> (wt_wire_error, 'm) outcome \<times> buf_reader" where
  "wt_read_message decode r =
     (case wt_read_exact 4 r of
        (Ok len_bytes, r) \<Rightarrow>
          (let len = be_value len_bytes
           in if MAX_MSG_SIZE < len then (Err (WtWire MessageTooLarge), r)
              else case wt_read_exact len r of
                (Ok payload, r) \<Rightarrow>
                  ((case decode payload of Some m \<Rightarrow> Ok m | None \<Rightarrow> Err (WtWire Deserialize)), r)
              | (Err e, r) \<Rightarrow> (Err e, r)
              | (Panic, r) \<Rightarrow> (Panic, r))
      | (Err e, r) \<Rightarrow> (Err e, r)
      | (Panic, r) \<Rightarrow> (Panic, r))"

text \<open>One buffer with prefix and payload is written in one chunk. There is no size check on this side;
  \<open>be_bytes 4\<close> takes the length modulo \<open>2 ^ 32\<close>, as the cast does.\<close>

definition wt_write_message ::
  "('m \<Rightarrow> bytes option) \<Rightarrow> bool \<Rightarrow> 'm \<Rightarrow> (wt_wire_error, bytes) outcome" where
  "wt_write_message encode writable msg =
     (case encode msg of
        None \<Rightarrow> Err (WtWire Serialize)
      | Some payload \<Rightarrow>
          if writable then Ok (be_bytes 4 (int (length payload)) @ payload) else Err (WtWire WriteFailed))"

section \<open>The client\<close>

type_synonym 'w peer = "bytes \<Rightarrow> 'w \<Rightarrow> stream_read list \<times> 'w"

definition lost :: "(wt_wire_error, 'a) outcome \<Rightarrow> (client_error, 'a) outcome" where
  "lost m = map_err (\<lambda>_. ConnectionLost) m"

text \<open>\<open>open_bi\<close>, a message out and a message back on a fresh stream.\<close>

definition exchange ::
  "('q \<Rightarrow> bytes option) \<Rightarrow> (bytes \<Rightarrow> 'a option) \<Rightarrow> bool \<Rightarrow> bool \<Rightarrow> 'w peer \<Rightarrow> 'q \<Rightarrow> 'w
   \<Rightarrow> (client_error, 'a \<times> buf_reader) outcome \<times> 'w" where
  "exchange encode decode opens writable peer msg w =
     (if \<not> opens then (Err ConnectionLost, w)
      else case wt_write_message encode writable msg of
        Ok sent \<Rightarrow>
          (case peer sent w of
             (source, w) \<Rightarrow>
               (case wt_read_message decode \<lparr>br_source = source, br_buffer = []\<rparr> of
                  (answer, r) \<Rightarrow> (map_ok (\<lambda>m. (m, r)) (lost answer), w)))
      | Err _ \<Rightarrow> (Err ConnectionLost, w)
      | Panic \<Rightarrow> (Panic, w))"

definition wt_request ::
  "(request \<Rightarrow> bytes option) \<Rightarrow> (bytes \<Rightarrow> response option) \<Rightarrow> bool \<Rightarrow> bool \<Rightarrow> 'w peer \<Rightarrow> 'w transport" where
  "wt_request encode decode opens writable peer req w =
     (case exchange encode decode opens writable peer req w of (answer, w) \<Rightarrow> (map_ok fst answer, w))"

text \<open>\<open>Client::connect\<close>; \<open>connects\<close> is whether the connection comes up.\<close>

definition wt_connect ::
  "(version_check \<Rightarrow> bytes option) \<Rightarrow> (bytes \<Rightarrow> version_result option) \<Rightarrow> bool \<Rightarrow> bool \<Rightarrow> bool
   \<Rightarrow> 'w peer \<Rightarrow> version \<Rightarrow> 'w \<Rightarrow> (client_error, unit) outcome \<times> 'w" where
  "wt_connect encode decode connects opens writable peer client_version w =
     (if \<not> connects then (Err ConnectionLost, w)
      else case exchange encode decode opens writable peer (client_check client_version) w of
        (answer, w) \<Rightarrow>
          (bind_outcome answer (\<lambda>(result, _).
             case result of
               VersionOk _ \<Rightarrow> Ok ()
             | VersionMismatched v \<Rightarrow> Err (client_error.VersionMismatch v)), w))"

definition subscribe ::
  "(request \<Rightarrow> bytes option) \<Rightarrow> (bytes \<Rightarrow> response option) \<Rightarrow> bool \<Rightarrow> bool \<Rightarrow> 'w peer
   \<Rightarrow> 'w \<Rightarrow> (client_error, buf_reader) outcome \<times> 'w" where
  "subscribe encode decode opens writable peer w =
     (case exchange encode decode opens writable peer Subscribe w of
        (answer, w) \<Rightarrow>
          (bind_outcome answer (\<lambda>(resp, r).
             case resp of
               RespOk \<Rightarrow> Ok r
             | RespError e \<Rightarrow> Err (Protocol e)
             | _ \<Rightarrow> Err UnexpectedResponse), w))"

definition next_notification ::
  "(bytes \<Rightarrow> response option) \<Rightarrow> buf_reader \<Rightarrow> (client_error, root_state) outcome \<times> buf_reader" where
  "next_notification decode r =
     (case wt_read_message decode r of
        (answer, r) \<Rightarrow>
          (bind_outcome (lost answer) (\<lambda>resp.
             case resp of
               RespNotification root \<Rightarrow> Ok root
             | RespError e \<Rightarrow> Err (Protocol e)
             | _ \<Rightarrow> Err UnexpectedResponse), r))"

text \<open>The roots a subscriber sees, up to the first error.\<close>

fun notifications :: "(bytes \<Rightarrow> response option) \<Rightarrow> nat \<Rightarrow> buf_reader \<Rightarrow> root_state list" where
  "notifications decode 0 r = []"
| "notifications decode (Suc n) r =
     (case next_notification decode r of
        (Ok root, r) \<Rightarrow> root # notifications decode n r
      | _ \<Rightarrow> [])"

section \<open>Chunks do not matter\<close>

fun chunk_bytes :: "stream_read \<Rightarrow> bytes" where
  "chunk_bytes (Chunk bs) = bs"
| "chunk_bytes _ = []"

text \<open>A stream that delivers its bytes: every read gives some. What a reader has still to give.\<close>

definition delivers :: "buf_reader \<Rightarrow> bool" where
  "delivers r \<longleftrightarrow> (\<forall>x\<in>set (br_source r). chunk_bytes x \<noteq> [])"

definition pending :: "buf_reader \<Rightarrow> bytes" where
  "pending r = br_buffer r @ concat (map chunk_bytes (br_source r))"

lemma delivering_chunk: "chunk_bytes x \<noteq> [] \<Longrightarrow> \<exists>bs. x = Chunk bs \<and> bs \<noteq> []"
  by (cases x) simp_all

lemma fill_enough:
  assumes "\<forall>x\<in>set source. chunk_bytes x \<noteq> []" "len \<le> length (buffer @ concat (map chunk_bytes source))"
  shows "\<exists>r. fill len buffer source = (Ok (), r) \<and> delivers r \<and> len \<le> length (br_buffer r)
    \<and> pending r = buffer @ concat (map chunk_bytes source)"
  using assms
proof (induction source arbitrary: buffer)
  case Nil
  then show ?case by (simp add: delivers_def pending_def)
next
  case (Cons x source)
  obtain bs where x: "x = Chunk bs" "bs \<noteq> []" using Cons.prems(1) delivering_chunk by force
  show ?case
  proof (cases "len \<le> length buffer")
    case True
    then show ?thesis using Cons.prems(1) by (simp add: delivers_def pending_def)
  next
    case False
    then show ?thesis using Cons.IH[of "buffer @ bs"] Cons.prems x by simp
  qed
qed

lemma fill_short:
  assumes "\<forall>x\<in>set source. chunk_bytes x \<noteq> []" "length (buffer @ concat (map chunk_bytes source)) < len"
  shows "fst (fill len buffer source) = Err (WtWire StreamClosed)"
  using assms
proof (induction source arbitrary: buffer)
  case Nil
  then show ?case by simp
next
  case (Cons x source)
  obtain bs where x: "x = Chunk bs" "bs \<noteq> []" using Cons.prems(1) delivering_chunk by force
  then show ?case using Cons by simp
qed

lemma wt_read_exact_enough:
  assumes "delivers r" "read_exact len (pending r) = Some (bs, rest)"
  shows "\<exists>r'. wt_read_exact len r = (Ok bs, r') \<and> delivers r' \<and> pending r' = rest"
proof -
  have "len \<le> length (pending r)" and bs: "bs = take len (pending r)" "rest = drop len (pending r)"
    using assms(2) by (auto simp: read_exact_def split: if_splits)
  then obtain r1 where "fill len (br_buffer r) (br_source r) = (Ok (), r1)" "delivers r1"
      "len \<le> length (br_buffer r1)" "pending r1 = pending r"
    using fill_enough[of "br_source r" len "br_buffer r"] assms(1) by (auto simp: delivers_def pending_def)
  moreover from this have "take len (br_buffer r1) = bs" "drop len (br_buffer r1) @ concat (map chunk_bytes (br_source r1)) = rest"
    by (simp_all add: bs flip: \<open>pending r1 = pending r\<close>) (simp_all add: pending_def)
  ultimately show ?thesis by (simp add: wt_read_exact_def delivers_def) (simp add: pending_def)
qed

lemma wt_read_exact_short:
  assumes "delivers r" "read_exact len (pending r) = None"
  shows "\<exists>r'. wt_read_exact len r = (Err (WtWire StreamClosed), r')"
proof -
  have "fst (fill len (br_buffer r) (br_source r)) = Err (WtWire StreamClosed)"
    using assms by (intro fill_short) (auto simp: delivers_def pending_def read_exact_def split: if_splits)
  then show ?thesis
    by (cases "fill len (br_buffer r) (br_source r)") (auto simp: wt_read_exact_def)
qed

lemma read_u32_exact:
  "read_u32 bs = (case read_exact 4 bs of None \<Rightarrow> None | Some (len_bytes, rest) \<Rightarrow> Some (be_value len_bytes, rest))"
  by (cases bs rule: read_u32.cases) (simp_all add: read_exact_def)

lemma wt_read_message_Ok:
  assumes "delivers r" "read_message decode (pending r) = Ok (m, rest)"
  shows "\<exists>r'. wt_read_message decode r = (Ok m, r') \<and> delivers r' \<and> pending r' = rest"
proof -
  obtain len_bytes rest1 payload where
      head: "read_exact 4 (pending r) = Some (len_bytes, rest1)" "\<not> MAX_MSG_SIZE < be_value len_bytes"
      and body: "read_exact (be_value len_bytes) rest1 = Some (payload, rest)" "decode payload = Some m"
    using assms(2) by (auto simp: read_message_def read_u32_exact split: option.splits if_splits)
  obtain r1 where r1: "wt_read_exact 4 r = (Ok len_bytes, r1)" "delivers r1" "pending r1 = rest1"
    using wt_read_exact_enough[OF assms(1) head(1)] by blast
  obtain r2 where "wt_read_exact (be_value len_bytes) r1 = (Ok payload, r2)" "delivers r2" "pending r2 = rest"
    using wt_read_exact_enough[OF r1(2)] body(1) r1(3) by blast
  then show ?thesis using r1 head(2) body(2) by (simp add: wt_read_message_def)
qed

lemma wt_read_message_Err:
  assumes "delivers r" "read_message decode (pending r) = Err e"
  shows "fst (wt_read_message decode r) = Err (WtWire e)"
proof (cases "read_exact 4 (pending r)")
  case None
  then show ?thesis
    using wt_read_exact_short[OF assms(1) None] assms(2) by (auto simp: wt_read_message_def read_message_def read_u32_exact)
next
  case (Some p)
  then obtain len_bytes rest1 where head: "read_exact 4 (pending r) = Some (len_bytes, rest1)" by (cases p) auto
  obtain r1 where r1: "wt_read_exact 4 r = (Ok len_bytes, r1)" "delivers r1" "pending r1 = rest1"
    using wt_read_exact_enough[OF assms(1) head] by blast
  show ?thesis
  proof (cases "read_exact (be_value len_bytes) rest1")
    case None
    then obtain r2 where "wt_read_exact (be_value len_bytes) r1 = (Err (WtWire StreamClosed), r2)"
      using wt_read_exact_short[OF r1(2)] r1(3) by blast
    then show ?thesis
      using assms(2) head r1(1) None
      by (auto simp: wt_read_message_def read_message_def read_u32_exact split: if_splits)
  next
    case (Some q)
    then obtain payload rest where body: "read_exact (be_value len_bytes) rest1 = Some (payload, rest)" by (cases q) auto
    obtain r2 where "wt_read_exact (be_value len_bytes) r1 = (Ok payload, r2)"
      using wt_read_exact_enough[OF r1(2)] body r1(3) by blast
    then show ?thesis
      using assms(2) head r1(1) body
      by (auto simp: wt_read_message_def read_message_def read_u32_exact split: if_splits option.splits)
  qed
qed

lemma read_message_no_panic [simp]: "read_message decode bs \<noteq> Panic"
  by (auto simp: read_message_def split: option.split prod.split)

section \<open>The server behind the wire\<close>

definition chunking :: "(bytes \<Rightarrow> bytes list) \<Rightarrow> bool" where
  "chunking split \<longleftrightarrow> (\<forall>bs. concat (split bs) = bs \<and> [] \<notin> set (split bs))"

definition frame_of :: "('m \<Rightarrow> bytes option) \<Rightarrow> 'm \<Rightarrow> bytes" where
  "frame_of encode m = (case write_message encode True m [] of Ok bs \<Rightarrow> bs | _ \<Rightarrow> [])"

text \<open>The modelled WebTransport server as the other end of a stream: its answer comes in the chunks
  that \<open>split\<close> cuts; \<open>later\<close> are the frames it adds to a subscription as time goes by.\<close>

definition server_peer ::
  "(bytes \<Rightarrow> request option) \<Rightarrow> (response \<Rightarrow> bytes option) \<Rightarrow> (bytes \<Rightarrow> bytes list) \<Rightarrow> ext \<Rightarrow> int
   \<Rightarrow> root_state list \<Rightarrow> db peer" where
  "server_peer decode encode split E now later sent db =
     (let res = webtransport_stream E now db (map_ok fst (read_message decode sent));
          replies = reply res @ (if subscribed res then map RespNotification later else [])
      in (map Chunk (split (concat (map (frame_of encode) replies))), after res))"

lemma delivers_split:
  assumes "chunking split"
  shows "delivers \<lparr>br_source = map Chunk (split bs), br_buffer = []\<rparr>"
    "pending \<lparr>br_source = map Chunk (split bs), br_buffer = []\<rparr> = bs"
proof -
  have "concat (split bs) = bs" "[] \<notin> set (split bs)" using assms unfolding chunking_def by blast+
  then show "delivers \<lparr>br_source = map Chunk (split bs), br_buffer = []\<rparr>"
    "pending \<lparr>br_source = map Chunk (split bs), br_buffer = []\<rparr> = bs"
    by (auto simp: delivers_def pending_def comp_def)
qed

lemma frame_of_encodable:
  assumes "codec_ok encode decode" "encodable encode m"
  shows "read_message decode (frame_of encode m @ rest) = Ok (m, rest)"
proof -
  obtain bs where bs: "write_message encode True m [] = Ok bs" using write_encodable[OF assms(2)] by blast
  then show ?thesis using read_after_write[OF assms(1) bs] by (auto simp: frame_of_def)
qed

lemma frame_of_too_large: "\<not> encodable encode m \<Longrightarrow> frame_of encode m = []"
  by (auto simp: frame_of_def encodable_def write_message_def split: option.splits)

lemma wt_write_encodable: "encodable encode m \<Longrightarrow> wt_write_message encode True m = Ok (frame_of encode m)"
  by (auto simp: wt_write_message_def encodable_def frame_of_def write_message_def split: option.splits)

lemma read_message_empty [simp]: "read_message decode [] = Err StreamClosed"
  by (simp add: read_message_def)

text \<open>What an exchange gives when the peer answers with a frame and further bytes.\<close>

lemma exchange_frame:
  assumes "encodable encode q" "codec_ok enc dec" "encodable enc a" "chunking split"
    and "peer (frame_of encode q) w = (map Chunk (split (frame_of enc a @ rest)), w')"
  shows "\<exists>r. exchange encode dec True True peer q w = (Ok (a, r), w') \<and> delivers r \<and> pending r = rest"
proof -
  let ?r = "\<lparr>br_source = map Chunk (split (frame_of enc a @ rest)), br_buffer = []\<rparr>"
  have "read_message dec (pending ?r) = Ok (a, rest)"
    by (simp only: delivers_split(2)[OF assms(4)] frame_of_encodable[OF assms(2,3)])
  from wt_read_message_Ok[OF delivers_split(1)[OF assms(4)] this]
  obtain r where "wt_read_message dec ?r = (Ok a, r)" "delivers r" "pending r = rest"
    by (elim exE conjE)
  moreover have "exchange encode dec True True peer q w =
      (case wt_read_message dec ?r of (answer, r) \<Rightarrow> (map_ok (\<lambda>m. (m, r)) (lost answer), w'))"
    by (simp add: exchange_def wt_write_encodable[OF assms(1)] assms(5))
  ultimately show ?thesis by (simp add: lost_def)
qed

lemma exchange_closed:
  assumes "encodable encode q" "chunking split" "peer (frame_of encode q) w = (map Chunk (split []), w')"
  shows "exchange encode dec True True peer q w = (Err ConnectionLost, w')"
proof -
  let ?r = "\<lparr>br_source = map Chunk (split []), br_buffer = []\<rparr>"
  have "read_message dec (pending ?r) = Err StreamClosed"
    by (simp only: delivers_split(2)[OF assms(2)] read_message_empty)
  then have "fst (wt_read_message dec ?r) = Err (WtWire StreamClosed)"
    by (rule wt_read_message_Err[OF delivers_split(1)[OF assms(2)]])
  then obtain r where "wt_read_message dec ?r = (Err (WtWire StreamClosed), r)" by (metis prod.collapse)
  moreover have "exchange encode dec True True peer q w =
      (case wt_read_message dec ?r of (answer, r) \<Rightarrow> (map_ok (\<lambda>m. (m, r)) (lost answer), w'))"
    by (simp add: exchange_def wt_write_encodable[OF assms(1)] assms(3))
  ultimately show ?thesis by (simp add: lost_def)
qed

lemma notifications_in_order:
  assumes "codec_ok encode decode" "\<forall>root\<in>set roots. encodable encode (RespNotification root)"
    and "delivers r" "pending r = concat (map (\<lambda>root. frame_of encode (RespNotification root)) roots)"
  shows "notifications decode (length roots) r = roots"
  using assms(2-)
proof (induction roots arbitrary: r)
  case Nil
  then show ?case by simp
next
  case (Cons root roots)
  have "read_message decode (pending r) = Ok (RespNotification root, concat (map (\<lambda>root. frame_of encode (RespNotification root)) roots))"
    using Cons.prems frame_of_encodable[OF assms(1)] by simp
  from wt_read_message_Ok[OF Cons.prems(2) this]
  obtain r' where r': "wt_read_message decode r = (Ok (RespNotification root), r')" "delivers r'"
      "pending r' = concat (map (\<lambda>root. frame_of encode (RespNotification root)) roots)"
    by (elim exE conjE)
  have "notifications decode (length roots) r' = roots"
    using Cons.prems(1) r'(2,3) by (intro Cons.IH) simp_all
  then show ?case using r'(1) by (simp add: next_notification_def lost_def)
qed

end
