(* ===== verification/Wire_Properties.thy ===== *)
theory Wire_Properties
  imports Client_Wire Demo
begin

text \<open>
  The properties of the web client's transport: chunks do not matter, a request over the wire is the
  server's answer to the request, and a subscription gives the server's notifications in order.
\<close>

section \<open>Codecs and chunks for the witnesses\<close>

definition byte_by_byte :: "bytes \<Rightarrow> bytes list" where
  "byte_by_byte bs = map (\<lambda>b. [b]) bs"

definition pair_encode :: "'m \<Rightarrow> 'm \<Rightarrow> 'm \<Rightarrow> bytes option" where
  "pair_encode a b m = (if m = a then Some [0] else if m = b then Some [1, 7] else None)"

definition pair_decode :: "'m \<Rightarrow> 'm \<Rightarrow> bytes \<Rightarrow> 'm option" where
  "pair_decode a b bs = (if bs = [0] then Some a else if bs = [1, 7] then Some b else None)"

lemma pair_codec_ok: "codec_ok (pair_encode a b) (pair_decode a b)"
  by (simp add: codec_ok_def pair_encode_def pair_decode_def)

lemma pair_encodable: "encodable (pair_encode a b) a" "encodable (pair_encode a b) b"
  by (simp_all add: encodable_def pair_encode_def MAX_MSG_SIZE_def)

lemma table_codec_ok: "codec_ok (table_encode a) (table_decode a)"
  by (simp add: codec_ok_def table_encode_def table_decode_def)

lemma table_encodable: "encodable (table_encode a) a"
  by (simp add: encodable_def table_encode_def MAX_MSG_SIZE_def)

lemma byte_by_byte_chunking: "chunking byte_by_byte"
proof -
  have "concat (map (\<lambda>b. [b]) bs) = bs" for bs :: bytes by (induction bs) simp_all
  then show ?thesis by (auto simp: chunking_def byte_by_byte_def)
qed

section \<open>Properties\<close>

text \<open>The client's reader gives what the protocol's reader gives on the same bytes, however the
  stream cuts them into chunks: the same message, with the same bytes left over, or the same error.\<close>

theorem chunks_do_not_matter:
  assumes "\<forall>x\<in>set source. chunk_bytes x \<noteq> []"
  shows "fst (wt_read_message decode \<lparr>br_source = source, br_buffer = buffer\<rparr>) =
      map_err WtWire (map_ok fst (read_message decode (buffer @ concat (map chunk_bytes source)))) \<and>
    (case read_message decode (buffer @ concat (map chunk_bytes source)) of
       Ok (m, rest) \<Rightarrow> pending (snd (wt_read_message decode \<lparr>br_source = source, br_buffer = buffer\<rparr>)) = rest
     | _ \<Rightarrow> True)"
proof -
  let ?r = "\<lparr>br_source = source, br_buffer = buffer\<rparr>"
  have r: "delivers ?r" "pending ?r = buffer @ concat (map chunk_bytes source)"
    using assms by (simp_all add: delivers_def pending_def)
  show ?thesis
  proof (cases "read_message decode (pending ?r)")
    case (Ok p)
    obtain m rest where p: "p = (m, rest)" by (cases p)
    from wt_read_message_Ok[OF r(1) Ok[unfolded p]]
    obtain r' where "wt_read_message decode ?r = (Ok m, r')" "pending r' = rest" by (elim exE conjE)
    then show ?thesis using Ok p r(2) by simp
  next
    case (Err e)
    then show ?thesis using wt_read_message_Err[OF r(1) Err] r(2) by simp
  qed simp
qed

theorem chunks_do_not_matter_witness:
  "fst (wt_read_message demo_decode \<lparr>br_source = [Chunk [0], Chunk [2, 9], Chunk [8, 0]], br_buffer = [0, 0 :: u8]\<rparr>) = Ok [9, 8]"
  using chunks_do_not_matter[of "[Chunk [0], Chunk [2, 9], Chunk [8, 0]]" demo_decode "[0, 0]"]
  by (simp add: read_message_def read_exact_def demo_decode_def MAX_MSG_SIZE_def)

text \<open>C24: A request of the web client over the wire, whatever the chunks, is the server's handling of the
  request: the same answer and the same new state. An answer too large to frame is lost, and the
  client sees a lost connection although the server has carried the request out.\<close>

theorem request_over_the_wire:
  assumes "codec_ok enc_req dec_req" "codec_ok enc_resp dec_resp" "chunking split"
    "encodable enc_req req" "\<not> is_streaming req"
  shows "wt_request enc_req dec_resp True True (server_peer dec_req enc_resp split E now []) req db =
    (case handle_request E now db req of
       (Ok resp, db') \<Rightarrow> (if encodable enc_resp resp then Ok resp else Err ConnectionLost, db')
     | (_, db') \<Rightarrow> (Err ConnectionLost, db'))"
proof -
  let ?peer = "server_peer dec_req enc_resp split E now []"
  have arrived: "read_message dec_req (frame_of enc_req req) = Ok (req, [])"
    using frame_of_encodable[OF assms(1,4), of "[]"] by simp
  obtain result db' where h: "handle_request E now db req = (result, db')"
    by (cases "handle_request E now db req")
  show ?thesis
  proof (cases "\<exists>resp. result = Ok resp \<and> encodable enc_resp resp")
    case True
    then obtain resp where resp: "result = Ok resp" "encodable enc_resp resp" by blast
    have "?peer (frame_of enc_req req) db = (map Chunk (split (frame_of enc_resp resp @ [])), db')"
      using arrived h resp(1) assms(5) by (simp add: server_peer_def webtransport_stream_def serve_request_def)
    from exchange_frame[where peer = ?peer, OF assms(4,2) resp(2) assms(3) this]
    show ?thesis using h resp by (auto simp: wt_request_def)
  next
    case False
    have "?peer (frame_of enc_req req) db = (map Chunk (split []), db')"
      using arrived h False assms(5)
      by (cases result)
        (simp_all add: server_peer_def webtransport_stream_def serve_request_def stream_nothing_def frame_of_too_large)
    then have "exchange enc_req dec_resp True True ?peer req db = (Err ConnectionLost, db')"
      by (rule exchange_closed[OF assms(4,3)])
    then show ?thesis using h False by (cases result) (simp_all add: wt_request_def)
  qed
qed

theorem request_over_the_wire_witness:
  "wt_request (table_encode GetRoot) (pair_decode (RespRoot root_empty) RespOk) True True
     (server_peer (table_decode GetRoot) (pair_encode (RespRoot root_empty) RespOk) byte_by_byte demo_ext 5 []) GetRoot empty_db
   = (Ok (RespRoot root_empty), empty_db)"
proof -
  have "handle_request demo_ext 5 empty_db GetRoot = (Ok (RespRoot root_empty), empty_db)"
    by (simp add: respond_root_def storage_get_root_def read_root_state_def empty_db_def root_empty_def read_count_def nn_try_from_i64_def
      nn_MIN_def)
  then show ?thesis
    by (simp add: request_over_the_wire table_codec_ok table_encodable pair_codec_ok pair_encodable byte_by_byte_chunking)
qed

text \<open>A subscription succeeds and then gives the client exactly the roots the server broadcasts, each
  once and in their order.\<close>

theorem subscription_in_order:
  assumes "codec_ok enc_req dec_req" "codec_ok enc_resp dec_resp" "chunking split"
    "encodable enc_req Subscribe" "encodable enc_resp RespOk"
    "\<forall>root\<in>set roots. encodable enc_resp (RespNotification root)"
  shows "\<exists>r. subscribe enc_req dec_resp True True (server_peer dec_req enc_resp split E now roots) db = (Ok r, db)
    \<and> notifications dec_resp (length roots) r = roots"
proof -
  let ?rest = "concat (map (\<lambda>root. frame_of enc_resp (RespNotification root)) roots)"
  have "read_message dec_req (frame_of enc_req Subscribe) = Ok (Subscribe, [])"
    using frame_of_encodable[OF assms(1,4), of "[]"] by simp
  then have "server_peer dec_req enc_resp split E now roots (frame_of enc_req Subscribe) db =
      (map Chunk (split (frame_of enc_resp RespOk @ ?rest)), db)"
    by (simp add: server_peer_def webtransport_stream_def serve_request_def comp_def)
  from exchange_frame[where peer = "server_peer dec_req enc_resp split E now roots", OF assms(4,2,5,3) this]
  obtain r where r: "exchange enc_req dec_resp True True (server_peer dec_req enc_resp split E now roots) Subscribe db
      = (Ok (RespOk, r), db)" "delivers r" "pending r = ?rest" by (elim exE conjE)
  then have "notifications dec_resp (length roots) r = roots"
    by (intro notifications_in_order[OF assms(2,6)])
  then show ?thesis using r(1) by (simp add: subscribe_def)
qed

theorem subscription_in_order_witness:
  "\<exists>r. subscribe (table_encode Subscribe) (pair_decode RespOk (RespNotification root_empty)) True True
      (server_peer (table_decode Subscribe) (pair_encode RespOk (RespNotification root_empty)) byte_by_byte demo_ext 5
        [root_empty, root_empty]) empty_db = (Ok r, empty_db)
    \<and> notifications (pair_decode RespOk (RespNotification root_empty)) (length [root_empty, root_empty]) r = [root_empty, root_empty]"
  by (rule subscription_in_order)
    (simp_all add: table_codec_ok table_encodable pair_codec_ok pair_encodable byte_by_byte_chunking)

end
