(* ===== verification/Display_Links.thy ===== *)
theory Display_Links
  imports Rust_Text Client_Filter
begin

text \<open>
  Links between cards (clients/lib/src/display.rs): the UUIDs in a card's content, the cards that
  refer to a card, the breadth-first closure of both, and the counts shown beside a card. The
  regular expression \<open>UUID_RE\<close> is written out as a scanner over the bytes of the content. Hash sets
  and maps are lists and functions; the order in which the counting loop meets the pairs of linked
  cards is an argument.
\<close>

section \<open>UUID texts\<close>

text \<open>\<open>Uuid::to_string\<close>: 32 lower-case hexadecimal digits in groups of 8, 4, 4, 4 and 12.\<close>

definition uuid_digits :: "uuid \<Rightarrow> string" where
  "uuid_digits u = map (\<lambda>i. hex_digit (nat (uint u div 16 ^ (31 - i) mod 16))) [0..<32]"

definition uuid_to_string :: "uuid \<Rightarrow> string" where
  "uuid_to_string u =
     (let d = uuid_digits u
      in take 8 d @ ''-'' @ take 4 (drop 8 d) @ ''-'' @ take 4 (drop 12 d) @ ''-'' @
         take 4 (drop 16 d) @ ''-'' @ drop 20 d)"

definition is_hex :: "char \<Rightarrow> bool" where "is_hex c \<longleftrightarrow> hex_value c \<noteq> None"

text \<open>Does a UUID text start here?\<close>

definition uuid_here :: "string \<Rightarrow> bool" where
  "uuid_here s \<longleftrightarrow>
     36 \<le> length s \<and>
     list_all (\<lambda>i. if i \<in> set [8, 13, 18, 23] then s ! i = CHR ''-'' else is_hex (s ! i)) [0..<36]"

text \<open>\<open>parse::<Uuid>\<close> of a text the scanner has matched, which never fails.\<close>

definition parse_uuid_text :: "string \<Rightarrow> uuid" where
  "parse_uuid_text s =
     word_of_int (foldl (\<lambda>n c. case hex_value c of Some d \<Rightarrow> 16 * n + int d | None \<Rightarrow> n) 0 s)"

definition skip_bracket :: "string \<Rightarrow> string" where
  "skip_bracket s = (if s \<noteq> [] \<and> hd s \<in> set [CHR ''('', CHR ''['', CHR ''{''] then tl s else s)"

text \<open>A match that begins at this position: where its UUID starts. The alternative \<open>^\<close> comes first and
  matches at the start of the text only.\<close>

definition link_match :: "bool \<Rightarrow> string \<Rightarrow> nat option" where
  "link_match at_start s =
     (if at_start \<and> uuid_here (skip_bracket s) then Some (length s - length (skip_bracket s))
      else
        let w = white_len s; t = skip_bracket (drop w s)
        in if 0 < w \<and> uuid_here t then Some (length s - length t) else None)"

lemma link_match_nonempty:
  assumes "link_match at_start s = Some off" shows "0 < length s"
proof (rule ccontr)
  assume "\<not> 0 < length s"
  then have "s = []" by simp
  then show False using assms by (simp add: link_match_def skip_bracket_def uuid_here_def split: if_splits)
qed

text \<open>The UUID texts of \<open>captures_iter\<close>.\<close>

function uuid_matches :: "bool \<Rightarrow> string \<Rightarrow> string list" where
  "uuid_matches at_start s =
     (case link_match at_start s of
        Some off \<Rightarrow> take 36 (drop off s) # uuid_matches False (drop (off + 36) s)
      | None \<Rightarrow> if s = [] then [] else uuid_matches False (tl s))"
  by pat_completeness auto

termination
proof (relation "measure (\<lambda>(_, s). length s)")
  show "link_match at_start s = Some off \<Longrightarrow> ((False, drop (off + 36) s), at_start, s) \<in> measure (\<lambda>(_, s). length s)"
    for at_start s off
    using link_match_nonempty[of at_start s off] by (simp only: in_measure case_prod_conv length_drop) arith
  show "s \<noteq> [] \<Longrightarrow> ((False, tl s), at_start, s) \<in> measure (\<lambda>(_, s). length s)" for at_start :: bool and s :: string
    by (simp only: in_measure case_prod_conv length_tl) (cases s; simp)
qed simp

declare uuid_matches.simps [simp del]

section \<open>Links of a card\<close>

definition extract_card_links :: "string \<Rightarrow> uuid \<Rightarrow> uuid list" where
  "extract_card_links content own_id =
     foldl (\<lambda>links u. if u \<noteq> own_id \<and> u \<notin> set links then links @ [u] else links) []
       (map parse_uuid_text (uuid_matches True content))"

definition extract_back_links :: "uuid \<Rightarrow> card list \<Rightarrow> uuid list" where
  "extract_back_links uid all_cards =
     (let needle = uuid_to_string uid
      in map card_id (filter (\<lambda>c. card_id c \<noteq> uid \<and> str_contains (card_content c) needle \<and>
            uid \<in> set (extract_card_links (card_content c) (card_id c))) all_cards))"

text \<open>The map from ids to cards; a later card with the same id replaces an earlier one.\<close>

definition card_map :: "card list \<Rightarrow> uuid \<Rightarrow> card option" where
  "card_map all_cards = map_of (rev (map (\<lambda>c. (card_id c, c)) all_cards))"

fun enqueue_new :: "uuid list \<Rightarrow> uuid list \<times> uuid list \<Rightarrow> uuid list \<times> uuid list" where
  "enqueue_new [] (visited, queue) = (visited, queue)"
| "enqueue_new (u # us) (visited, queue) =
     enqueue_new us (if u \<in> set visited then (visited, queue) else (u # visited, queue @ [u]))"

definition neighbours :: "card list \<Rightarrow> uuid \<Rightarrow> uuid list" where
  "neighbours all_cards node =
     (case card_map all_cards node of
        Some c \<Rightarrow> extract_card_links (card_content c) node | None \<Rightarrow> []) @
     extract_back_links node all_cards"

definition enqueue_neighbors ::
  "card list \<Rightarrow> uuid \<Rightarrow> uuid list \<times> uuid list \<Rightarrow> uuid list \<times> uuid list" where
  "enqueue_neighbors all_cards node st = enqueue_new (neighbours all_cards node) st"

section \<open>The breadth-first search\<close>

text \<open>Every id a neighbour can have: the search stops because it visits each at most once.\<close>

definition link_universe :: "card list \<Rightarrow> uuid set" where
  "link_universe all_cards = (\<Union>node. set (neighbours all_cards node))"

lemma back_links_ids: "set (extract_back_links uid all_cards) \<subseteq> card_id ` set all_cards"
  by (auto simp: extract_back_links_def Let_def)

lemma card_map_Some: "card_map all_cards uid = Some c \<Longrightarrow> c \<in> set all_cards \<and> card_id c = uid"
  by (auto simp: card_map_def dest!: map_of_SomeD)

lemma neighbours_subset:
  "set (neighbours all_cards node) \<subseteq>
     (\<Union>c\<in>set all_cards. set (extract_card_links (card_content c) (card_id c))) \<union> card_id ` set all_cards"
proof (cases "card_map all_cards node")
  case None
  then show ?thesis using back_links_ids by (simp add: neighbours_def) blast
next
  case (Some c)
  then have "c \<in> set all_cards" "card_id c = node" using card_map_Some by blast+
  then show ?thesis using back_links_ids[of node all_cards] Some by (auto simp: neighbours_def)
qed

lemma finite_link_universe: "finite (link_universe all_cards)"
  unfolding link_universe_def by (rule finite_subset[OF UN_least[OF neighbours_subset]]) simp

lemma enqueue_new_simps:
  "set (fst (enqueue_new us st)) = set us \<union> set (fst st)"
  "\<exists>added. snd (enqueue_new us st) = snd st @ added \<and> distinct added \<and> set added = set us - set (fst st)"
proof (induction us st rule: enqueue_new.induct)
  case (2 u us visited queue)
  { case 1 then show ?case using 2 by auto }
  { case 2
    show ?case
    proof (cases "u \<in> set visited")
      case True
      then show ?thesis using "2.IH"(2) by auto
    next
      case False
      then obtain added where added: "snd (enqueue_new us (u # visited, queue @ [u])) = (queue @ [u]) @ added"
          "distinct added" "set added = set us - set (u # visited)"
        using "2.IH"(2) by auto
      have "distinct (u # added)" "set (u # added) = set (u # us) - set visited" using added(2,3) False by auto
      then show ?thesis using added(1) False by (intro exI[of _ "u # added"]) simp
    qed }
qed auto

lemma enqueue_measure:
  assumes "enqueue_neighbors all_cards current (visited, queue) = (visited', queue')"
  shows "2 * card (link_universe all_cards - set visited') + length queue'
    \<le> 2 * card (link_universe all_cards - set visited) + length queue"
proof -
  let ?U = "link_universe all_cards" and ?us = "neighbours all_cards current"
  have v: "set visited' = set ?us \<union> set visited"
    using enqueue_new_simps(1)[of ?us "(visited, queue)"] assms by (simp add: enqueue_neighbors_def)
  obtain added where added: "queue' = queue @ added" "distinct added" "set added = set ?us - set visited"
    using enqueue_new_simps(2)[of ?us "(visited, queue)"] assms by (auto simp: enqueue_neighbors_def)
  have sub: "set added \<subseteq> ?U - set visited" using added(3) by (auto simp: link_universe_def)
  have "?U - set visited' = (?U - set visited) - set added" using v added(3) by auto
  then have "card (?U - set visited') = card (?U - set visited) - length added"
    using sub added(2) by (simp add: card_Diff_subset distinct_card)
  moreover have "length added \<le> card (?U - set visited)"
    using card_mono[OF _ sub] finite_link_universe added(2) by (simp add: distinct_card)
  ultimately show ?thesis using added(1) by simp
qed

function expand_loop :: "card list \<Rightarrow> uuid list \<Rightarrow> uuid list \<Rightarrow> uuid list \<Rightarrow> uuid list" where
  "expand_loop all_cards visited [] result = result"
| "expand_loop all_cards visited (current # queue) result =
     (case enqueue_neighbors all_cards current (visited, queue) of
        (visited, queue) \<Rightarrow> expand_loop all_cards visited queue (result @ [current]))"
  by pat_completeness auto

termination
  by (relation "measure (\<lambda>(all_cards, visited, queue, result).
      2 * card (link_universe all_cards - set visited) + length queue)")
    (use enqueue_measure in \<open>fastforce simp: less_Suc_eq_le\<close>)+

definition expand_linked_cards :: "uuid \<Rightarrow> card list \<Rightarrow> uuid list" where
  "expand_linked_cards uid all_cards =
     (case enqueue_neighbors all_cards uid ([uid], []) of
        (visited, queue) \<Rightarrow> expand_loop all_cards visited queue [])"


section \<open>What the search finds\<close>

definition link_edges :: "card list \<Rightarrow> (uuid \<times> uuid) set" where
  "link_edges all_cards = {(u, v). v \<in> set (neighbours all_cards u)}"

text \<open>What the loop keeps: the visited ids are the start, the results and the queue, each once, all of
  them reachable, and the neighbours of everything taken from the queue are visited.\<close>

definition search_inv :: "card list \<Rightarrow> uuid \<Rightarrow> uuid list \<Rightarrow> uuid list \<Rightarrow> uuid list \<Rightarrow> bool" where
  "search_inv all_cards start visited queue result \<longleftrightarrow>
     set visited = insert start (set result \<union> set queue) \<and> distinct (start # result @ queue) \<and>
     set visited \<subseteq> (link_edges all_cards)\<^sup>* `` {start} \<and>
     link_edges all_cards `` insert start (set result) \<subseteq> set visited"

lemma enqueue_search_inv:
  assumes inv: "set visited = insert start (set result \<union> set queue)" "distinct (start # result @ queue)"
      "set visited \<subseteq> (link_edges all_cards)\<^sup>* `` {start}" "node \<in> insert start (set result)"
      "link_edges all_cards `` (insert start (set result) - {node}) \<subseteq> set visited"
    and step: "enqueue_neighbors all_cards node (visited, queue) = (visited', queue')"
  shows "search_inv all_cards start visited' queue' result"
proof -
  let ?us = "neighbours all_cards node"
  have v: "set visited' = set ?us \<union> set visited"
    using enqueue_new_simps(1)[of ?us "(visited, queue)"] step by (simp add: enqueue_neighbors_def)
  obtain added where added: "queue' = queue @ added" "distinct added" "set added = set ?us - set visited"
    using enqueue_new_simps(2)[of ?us "(visited, queue)"] step by (auto simp: enqueue_neighbors_def)
  have us: "set ?us = link_edges all_cards `` {node}" by (auto simp: link_edges_def)
  have "(start, node) \<in> (link_edges all_cards)\<^sup>*" using inv(1,3,4) by auto
  then have "set visited' \<subseteq> (link_edges all_cards)\<^sup>* `` {start}"
    using us v inv(3) by (auto intro: rtrancl.rtrancl_into_rtrancl)
  moreover have "set visited' = insert start (set result \<union> set queue')" using v added inv(1) by auto
  moreover have "distinct (start # result @ queue')" using added inv(1,2) by auto
  moreover have "link_edges all_cards `` insert start (set result) \<subseteq> set visited'" using inv(5) us v by blast
  ultimately show ?thesis unfolding search_inv_def by (intro conjI)
qed

lemma expand_loop_finds:
  "search_inv all_cards start visited queue result \<Longrightarrow>
   distinct (expand_loop all_cards visited queue result) \<and>
   set (expand_loop all_cards visited queue result) = (link_edges all_cards)\<^sup>* `` {start} - {start}"
proof (induction all_cards visited queue result rule: expand_loop.induct)
  case (1 all_cards visited result)
  have closed: "link_edges all_cards `` insert start (set result) \<subseteq> insert start (set result)"
    using 1 unfolding search_inv_def by (metis Un_empty_right list.set(1))
  have "v \<in> insert start (set result)" if "(start, v) \<in> (link_edges all_cards)\<^sup>*" for v
    using that closed by (induction) auto
  then show ?case using 1 by (auto simp: search_inv_def)
next
  case (2 all_cards visited current queue result)
  obtain visited' queue' where step: "enqueue_neighbors all_cards current (visited, queue) = (visited', queue')"
    by fastforce
  have inv: "search_inv all_cards start visited' queue' (result @ [current])"
    by (rule enqueue_search_inv[OF _ _ _ _ _ step]) (use "2.prems" in \<open>auto simp: search_inv_def\<close>)
  then show ?case using "2.IH"[OF step[symmetric] inv] step by simp
qed

lemma expand_linked_cards_finds:
  "distinct (expand_linked_cards uid all_cards) \<and>
   set (expand_linked_cards uid all_cards) = (link_edges all_cards)\<^sup>* `` {uid} - {uid}"
proof -
  obtain visited queue where step: "enqueue_neighbors all_cards uid ([uid], []) = (visited, queue)" by fastforce
  have "search_inv all_cards uid visited queue []"
    by (rule enqueue_search_inv[OF _ _ _ _ _ step]) simp_all
  then show ?thesis using expand_loop_finds step by (simp add: expand_linked_cards_def)
qed

text \<open>
  The link counts shown beside a card (clients/lib/src/display.rs): \<open>LinkCounts\<close>,
  \<open>compute_all_link_counts\<close> and its recursive variant. The counting loop iterates over a hash map of
  hash sets: the order in which it meets the linked pairs is an argument, and the counts are proved
  not to depend on it.
\<close>

section \<open>Counting\<close>

record link_counts =
  forward :: nat
  backward :: nat
  mutual :: nat
  transitive :: nat

definition no_links :: link_counts where
  "no_links = \<lparr> forward = 0, backward = 0, mutual = 0, transitive = 0 \<rparr>"

definition outgoing :: "card list \<Rightarrow> uuid \<Rightarrow> uuid list option" where
  "outgoing cards =
     (let card_ids = map card_id cards
      in map_of (rev (map (\<lambda>c. (card_id c,
           filter (\<lambda>u. u \<in> set card_ids) (extract_card_links (card_content c) (card_id c)))) cards)))"

text \<open>\<open>counts.entry(id).or_default()\<close> and an update of it.\<close>

definition bump ::
  "uuid \<Rightarrow> (link_counts \<Rightarrow> link_counts) \<Rightarrow> (uuid \<rightharpoonup> link_counts) \<Rightarrow> (uuid \<rightharpoonup> link_counts)" where
  "bump uid f counts = counts(uid \<mapsto> f (case counts uid of Some lc \<Rightarrow> lc | None \<Rightarrow> no_links))"

fun count_pair ::
  "(uuid \<Rightarrow> uuid list option) \<Rightarrow> uuid \<times> uuid \<Rightarrow> (uuid \<rightharpoonup> link_counts) \<Rightarrow> (uuid \<rightharpoonup> link_counts)" where
  "count_pair out (own, target) counts =
     (let target_links_back = (case out target of Some s \<Rightarrow> own \<in> set s | None \<Rightarrow> False)
      in if target_links_back then bump own (\<lambda>lc. lc\<lparr>mutual := mutual lc + 1\<rparr>) counts
         else bump target (\<lambda>lc. lc\<lparr>backward := backward lc + 1\<rparr>)
                (bump own (\<lambda>lc. lc\<lparr>forward := forward lc + 1\<rparr>) counts))"

definition compute_all_link_counts :: "(uuid \<times> uuid) list \<Rightarrow> card list \<Rightarrow> (uuid \<rightharpoonup> link_counts)" where
  "compute_all_link_counts order cards = fold (count_pair (outgoing cards)) order Map.empty"

definition counts_at :: "(uuid \<rightharpoonup> link_counts) \<Rightarrow> uuid \<Rightarrow> link_counts" where
  "counts_at counts uid = (case counts uid of Some lc \<Rightarrow> lc | None \<Rightarrow> no_links)"

definition set_transitive :: "card list \<Rightarrow> card \<Rightarrow> (uuid \<rightharpoonup> link_counts) \<Rightarrow> (uuid \<rightharpoonup> link_counts)" where
  "set_transitive cards c counts =
     (let uid = card_id c;
          expanded = expand_linked_cards uid cards;
          lc = counts_at counts uid;
          direct = forward lc + backward lc + mutual lc
      in bump uid (\<lambda>lc. lc\<lparr>transitive := length expanded - direct\<rparr>) counts)"

definition compute_all_link_counts_recursive ::
  "(uuid \<times> uuid) list \<Rightarrow> card list \<Rightarrow> (uuid \<rightharpoonup> link_counts)" where
  "compute_all_link_counts_recursive order cards =
     fold (set_transitive cards) cards (compute_all_link_counts order cards)"

section \<open>What is counted\<close>

text \<open>The pairs of linked cards, and the orders in which the loop can meet them.\<close>

definition linked :: "card list \<Rightarrow> uuid \<Rightarrow> uuid \<Rightarrow> bool" where
  "linked cards u v \<longleftrightarrow> (case outgoing cards u of Some s \<Rightarrow> v \<in> set s | None \<Rightarrow> False)"

definition link_pairs :: "card list \<Rightarrow> (uuid \<times> uuid) list" where
  "link_pairs cards =
     remdups (concat (map (\<lambda>c. case outgoing cards (card_id c) of
        Some s \<Rightarrow> map (Pair (card_id c)) s | None \<Rightarrow> []) cards))"

definition pair_order :: "(uuid \<times> uuid) list \<Rightarrow> card list \<Rightarrow> bool" where
  "pair_order order cards \<longleftrightarrow> distinct order \<and> set order = set (link_pairs cards)"

lemma outgoing_Some: "outgoing cards u = Some s \<Longrightarrow> u \<in> card_id ` set cards"
  by (auto simp: outgoing_def Let_def dest!: map_of_SomeD)

lemma link_pairs_iff: "(u, v) \<in> set (link_pairs cards) \<longleftrightarrow> linked cards u v"
proof (cases "outgoing cards u")
  case None
  then show ?thesis by (auto simp: link_pairs_def linked_def split: option.splits)
next
  case (Some s)
  then obtain c where "c \<in> set cards" "card_id c = u" using outgoing_Some by blast
  then have "(u, v) \<in> set (link_pairs cards)" if "v \<in> set s"
    unfolding link_pairs_def using Some that by (auto intro!: bexI[of _ c])
  moreover have "v \<in> set s" if "(u, v) \<in> set (link_pairs cards)"
    using that Some by (auto simp: link_pairs_def split: option.splits)
  ultimately show ?thesis using Some by (auto simp: linked_def)
qed

lemma counts_at_bump [simp]:
  "counts_at (bump uid f counts) u = (if u = uid then f (counts_at counts uid) else counts_at counts u)"
  by (simp add: counts_at_def bump_def)

lemma count_pair_at:
  "forward (counts_at (count_pair (outgoing cards) (own, target) counts) u) =
     forward (counts_at counts u) + (if own = u \<and> \<not> linked cards target own then 1 else 0)"
  "backward (counts_at (count_pair (outgoing cards) (own, target) counts) u) =
     backward (counts_at counts u) + (if target = u \<and> \<not> linked cards target own then 1 else 0)"
  "mutual (counts_at (count_pair (outgoing cards) (own, target) counts) u) =
     mutual (counts_at counts u) + (if own = u \<and> linked cards target own then 1 else 0)"
  "transitive (counts_at (count_pair (outgoing cards) (own, target) counts) u) = transitive (counts_at counts u)"
  by (auto simp: linked_def[symmetric] Let_def count_pair.simps)

declare count_pair.simps [simp del]

lemma fold_count_pair:
  defines "pairs P order \<equiv> length (filter P order)"
  shows "forward (counts_at (fold (count_pair (outgoing cards)) order counts) u) =
      forward (counts_at counts u) + pairs (\<lambda>(a, b). a = u \<and> \<not> linked cards b a) order"
    and "backward (counts_at (fold (count_pair (outgoing cards)) order counts) u) =
      backward (counts_at counts u) + pairs (\<lambda>(a, b). b = u \<and> \<not> linked cards b a) order"
    and "mutual (counts_at (fold (count_pair (outgoing cards)) order counts) u) =
      mutual (counts_at counts u) + pairs (\<lambda>(a, b). a = u \<and> linked cards b a) order"
    and "transitive (counts_at (fold (count_pair (outgoing cards)) order counts) u) = transitive (counts_at counts u)"
  unfolding pairs_def
  by (induction order arbitrary: counts) (auto simp: count_pair_at split: if_splits)

lemma pairs_card:
  assumes "distinct order" "inj_on f {p \<in> set order. P p}"
  shows "length (filter P order) = card (f ` {p \<in> set order. P p})"
proof -
  have "length (filter P order) = card {p \<in> set order. P p}"
    using assms(1) distinct_card[of "filter P order"] by simp
  then show ?thesis using assms(2) by (simp add: card_image)
qed

lemma link_counts_at:
  assumes "pair_order order cards"
  shows "counts_at (compute_all_link_counts order cards) u =
    \<lparr> forward = card {v. linked cards u v \<and> \<not> linked cards v u},
      backward = card {v. linked cards v u \<and> \<not> linked cards u v},
      mutual = card {v. linked cards u v \<and> linked cards v u}, transitive = 0 \<rparr>"
proof -
  have mem: "(a, b) \<in> set order \<longleftrightarrow> linked cards a b" for a b
    using assms link_pairs_iff by (simp add: pair_order_def)
  have d: "distinct order" using assms by (simp add: pair_order_def)
  have f: "snd ` {p \<in> set order. (case p of (a, b) \<Rightarrow> a = u \<and> \<not> linked cards b a)} =
      {v. linked cards u v \<and> \<not> linked cards v u}"
    and b: "fst ` {p \<in> set order. (case p of (a, b) \<Rightarrow> b = u \<and> \<not> linked cards b a)} =
      {v. linked cards v u \<and> \<not> linked cards u v}"
    and m: "snd ` {p \<in> set order. (case p of (a, b) \<Rightarrow> a = u \<and> linked cards b a)} =
      {v. linked cards u v \<and> linked cards v u}"
    by (force simp: image_def mem)+
  have "length (filter (\<lambda>(a, b). a = u \<and> \<not> linked cards b a) order) = card {v. linked cards u v \<and> \<not> linked cards v u}"
    unfolding f[symmetric] by (rule pairs_card[OF d]) (auto simp: inj_on_def)
  moreover have "length (filter (\<lambda>(a, b). b = u \<and> \<not> linked cards b a) order) = card {v. linked cards v u \<and> \<not> linked cards u v}"
    unfolding b[symmetric] by (rule pairs_card[OF d]) (auto simp: inj_on_def)
  moreover have "length (filter (\<lambda>(a, b). a = u \<and> linked cards b a) order) = card {v. linked cards u v \<and> linked cards v u}"
    unfolding m[symmetric] by (rule pairs_card[OF d]) (auto simp: inj_on_def)
  ultimately show ?thesis
    by (intro link_counts.equality)
      (simp_all add: compute_all_link_counts_def fold_count_pair counts_at_def[of Map.empty] no_links_def)
qed

lemma set_transitive_at:
  "counts_at (set_transitive cards c counts) u =
     (if u = card_id c
      then (counts_at counts u)\<lparr>transitive := length (expand_linked_cards u cards) -
        (forward (counts_at counts u) + backward (counts_at counts u) + mutual (counts_at counts u))\<rparr>
      else counts_at counts u)"
  by (simp add: set_transitive_def Let_def)

lemma fold_set_transitive:
  "counts_at (fold (set_transitive cards) cs counts) u =
     (if u \<in> card_id ` set cs
      then (counts_at counts u)\<lparr>transitive := length (expand_linked_cards u cards) -
        (forward (counts_at counts u) + backward (counts_at counts u) + mutual (counts_at counts u))\<rparr>
      else counts_at counts u)"
  by (induction cs arbitrary: counts) (auto simp: set_transitive_at)

lemma recursive_counts_at:
  assumes "pair_order order cards" "c \<in> set cards"
  shows "counts_at (compute_all_link_counts_recursive order cards) (card_id c) =
    (let lc = counts_at (compute_all_link_counts order cards) (card_id c)
     in lc\<lparr>transitive := card ((link_edges cards)\<^sup>* `` {card_id c} - {card_id c}) - (forward lc + backward lc + mutual lc)\<rparr>)"
proof -
  have "length (expand_linked_cards (card_id c) cards) = card ((link_edges cards)\<^sup>* `` {card_id c} - {card_id c})"
    using expand_linked_cards_finds by (metis distinct_card)
  then show ?thesis using assms(2) by (simp add: compute_all_link_counts_recursive_def fold_set_transitive Let_def)
qed

end
