(* ===== verification/Display_Text.thy ===== *)
theory Display_Text
  imports Display_Links
begin

text \<open>
  Texts of the clients (clients/lib/src/display.rs and tag_display.rs): the one-line preview of a card,
  the task items of its content, HTML escaping and card links in rendered HTML, copy buttons, relative
  times and the order of tags. The Markdown renderer (the crate comrak) and Unicode lower-casing are
  parameters; a text is the bytes of its UTF-8 encoding.
\<close>

section \<open>Previews\<close>

definition ELLIPSIS :: string where "ELLIPSIS = [CHR 0xE2, CHR 0x80, CHR 0xA6]"

definition card_preview :: "(string \<Rightarrow> string) \<Rightarrow> string \<Rightarrow> nat \<Rightarrow> string option" where
  "card_preview render_plain_text content max_width =
     (if max_width = 0 then None
      else case rust_lines content of
        [] \<Rightarrow> None
      | first_line # _ \<Rightarrow>
          if skip_white first_line = [] then None
          else
            let plain = render_plain_text first_line
            in if plain = [] then None
               else if char_count plain > max_width then Some (take_chars (max_width - 1) plain @ ELLIPSIS)
               else Some plain)"

definition resolve_linked_cards ::
  "(string \<Rightarrow> string) \<Rightarrow> uuid list \<Rightarrow> card list \<Rightarrow> nat \<Rightarrow> (uuid \<times> string) list" where
  "resolve_linked_cards render_plain_text linked_ids all_cards max_width =
     List.map_filter (\<lambda>lid. map_option (\<lambda>c. (lid,
        case card_preview render_plain_text (card_content c) max_width of
          Some preview \<Rightarrow> preview | None \<Rightarrow> ''(empty)'')) (card_map all_cards lid)) linked_ids"

lemma char_count_ellipsis: "char_count ELLIPSIS = 1"
  by (simp add: char_count_def ELLIPSIS_def utf8_continuation_def)

lemma ellipsis_nonempty [simp]: "ELLIPSIS \<noteq> []"
  by (simp add: ELLIPSIS_def)

lemma card_preview_width: "card_preview render content max_width = Some p \<Longrightarrow> char_count p \<le> max_width \<and> p \<noteq> []"
  using char_count_take_chars[of "max_width - 1" "render (hd (rust_lines content))"]
  by (auto simp: card_preview_def Let_def char_count_ellipsis split: if_splits list.splits)

section \<open>Task items\<close>

definition is_bullet :: "char \<Rightarrow> bool" where
  "is_bullet c \<longleftrightarrow> c = CHR ''-'' \<or> c = CHR ''*'' \<or> c = CHR ''+''"

definition is_check :: "char \<Rightarrow> bool" where
  "is_check c \<longleftrightarrow> c = CHR '' '' \<or> c = CHR ''x'' \<or> c = CHR ''X''"

text \<open>The brackets of a task item, expected at the offset \<open>i\<close>.\<close>

fun parse_check :: "nat \<Rightarrow> string \<Rightarrow> (nat \<times> char) option" where
  "parse_check i (bracket # check # closing # rest) =
     (if bracket \<noteq> CHR ''['' then None
      else if \<not> is_check check then None
      else if closing \<noteq> CHR '']'' then None
      else Some (i, check))"
| "parse_check i _ = None"

text \<open>A line after its leading spaces, its bullet and the spaces that follow.\<close>

definition parse_task_item :: "string \<Rightarrow> (nat \<times> char) option" where
  "parse_task_item line =
     (case dropWhile ((=) CHR '' '') line of
        [] \<Rightarrow> None
      | bullet # r \<Rightarrow>
          if \<not> is_bullet bullet then None
          else if r = [] \<or> hd r \<noteq> CHR '' '' then None
          else let s = dropWhile ((=) CHR '' '') r in parse_check (length line - length s) s)"

fun toggle_lines :: "string list \<Rightarrow> nat \<Rightarrow> nat \<Rightarrow> string list \<times> bool" where
  "toggle_lines [] current index = ([], False)"
| "toggle_lines (line # ls) current index =
     (case parse_task_item line of
        Some (prefix_len, check) \<Rightarrow>
          let toggled = (if check = CHR '' '' then ''x'' else '' '');
              line' = (if current = index
                       then take prefix_len line @ ''['' @ toggled @ '']'' @ drop (prefix_len + 3) line else line);
              (rest, found) = toggle_lines ls (current + 1) index
          in (line' # rest, current = index \<or> found)
      | None \<Rightarrow> (let (rest, found) = toggle_lines ls current index in (line # rest, found)))"

fun join_lf :: "string list \<Rightarrow> string" where
  "join_lf [] = []"
| "join_lf [l] = l"
| "join_lf (l # ls) = l @ LF # join_lf ls"

definition toggle_task_item :: "string \<Rightarrow> nat \<Rightarrow> string option" where
  "toggle_task_item content index =
     (let (ls, found) = toggle_lines (rust_lines content) 0 index;
          result = join_lf ls @ (if content \<noteq> [] \<and> last content = LF then [LF] else [])
      in if found then Some result else None)"

text \<open>The check marks of the task items in order, which the progress counts.\<close>

definition task_checks :: "string list \<Rightarrow> bool list" where
  "task_checks ls = List.map_filter (\<lambda>l. map_option (\<lambda>(_, check). check \<noteq> CHR '' '') (parse_task_item l)) ls"

definition task_progress :: "string \<Rightarrow> (nat \<times> nat) option" where
  "task_progress content =
     (let (finished, total) = foldl (\<lambda>(finished, total) l.
            case parse_task_item l of
              Some (_, check) \<Rightarrow> (if check \<noteq> CHR '' '' then finished + 1 else finished, total + 1)
            | None \<Rightarrow> (finished, total)) (0, 0) (rust_lines content)
      in if total > 0 then Some (finished, total) else None)"

section \<open>Rendered HTML\<close>

definition escape_char :: "char \<Rightarrow> string" where
  "escape_char ch =
     (if ch = CHR ''&'' then ''&amp;'' else if ch = CHR ''<'' then ''&lt;'' else if ch = CHR ''>'' then ''&gt;''
      else if ch = CHR 0x22 then ''&quot;'' else if ch = CHR 0x27 then ''&#39;'' else [ch])"

definition escape_html_text :: "string \<Rightarrow> string" where
  "escape_html_text text_bytes = concat (map escape_char text_bytes)"

text \<open>What is written for the text of a UUID.\<close>

definition render_uuid_link ::
  "uuid set \<Rightarrow> (uuid \<rightharpoonup> string) \<Rightarrow> uuid set \<Rightarrow> string \<Rightarrow> string" where
  "render_uuid_link card_ids card_previews blazed_ids uuid_text =
     (let u = parse_uuid_text uuid_text; full_id = uuid_to_string u in
      if u \<in> card_ids then
        (if u \<in> blazed_ids then ''<span class=\"card-uuid-link blazed\" data-card-id=\"''
         else ''<span class=\"card-uuid-link\" data-card-id=\"'') @
        full_id @ ''\">'' @ ''<span class=\"card-uuid-link-id\">'' @ take 8 full_id @
        (if card_previews u \<noteq> None then ELLIPSIS else []) @ ''</span>'' @
        (case card_previews u of
           Some preview \<Rightarrow> '' <span class=\"card-uuid-link-preview\">'' @ escape_html_text preview @ ''</span>''
         | None \<Rightarrow> []) @ ''</span>''
      else uuid_text)"

text \<open>A text segment: the UUIDs that \<open>UUID_RE\<close> finds are rendered, the rest is copied.\<close>

function linkify_segment :: "(string \<Rightarrow> string) \<Rightarrow> bool \<Rightarrow> string \<Rightarrow> string" where
  "linkify_segment render at_start s =
     (case link_match at_start s of
        Some off \<Rightarrow> take off s @ render (take 36 (drop off s)) @ linkify_segment render False (drop (off + 36) s)
      | None \<Rightarrow> if s = [] then [] else hd s # linkify_segment render False (tl s))"
  by pat_completeness auto

termination
proof (relation "measure (\<lambda>(_, _, s). length s)")
  show "link_match at_start s = Some off \<Longrightarrow>
      ((render, False, drop (off + 36) s), render, at_start, s) \<in> measure (\<lambda>(_, _, s). length s)" for render at_start s off
    using link_match_nonempty[of at_start s off] by (simp only: in_measure case_prod_conv length_drop) arith
  show "s \<noteq> [] \<Longrightarrow> ((render, False, tl s), render, at_start, s) \<in> measure (\<lambda>(_, _, s). length s)"
    for render :: "string \<Rightarrow> string" and at_start :: bool and s :: string
    by (simp only: in_measure case_prod_conv length_tl) (cases s; simp)
qed simp

declare linkify_segment.simps [simp del]

text \<open>The first tag of an HTML text: what is before it, the tag, and what follows.\<close>

definition next_html_tag :: "string \<Rightarrow> (string \<times> string \<times> string) option" where
  "next_html_tag s =
     (let before = takeWhile (\<lambda>c. c \<noteq> CHR ''<'') s; r = drop (length before) s;
          body = takeWhile (\<lambda>c. c \<noteq> CHR ''>'') (tl r); after = drop (length body) (tl r)
      in if r = [] \<or> after = [] then None
         else Some (before, CHR ''<'' # body @ ''>'', tl after))"

lemma next_html_tag_Some:
  assumes "next_html_tag s = Some (before, tag, after)"
  shows "s = before @ tag @ after" "length after < length s" "CHR ''<'' \<notin> set before"
    "\<exists>body. tag = CHR ''<'' # body @ ''>'' \<and> CHR ''>'' \<notin> set body"
proof -
  define r where "r = dropWhile (\<lambda>c. c \<noteq> CHR ''<'') s"
  define body where "body = takeWhile (\<lambda>c. c \<noteq> CHR ''>'') (tl r)"
  define t where "t = dropWhile (\<lambda>c. c \<noteq> CHR ''>'') (tl r)"
  have a: "r \<noteq> []" "t \<noteq> []" "before = takeWhile (\<lambda>c. c \<noteq> CHR ''<'') s" "tag = CHR ''<'' # body @ ''>''" "after = tl t"
    using assms unfolding next_html_tag_def Let_def dropWhile_eq_drop[symmetric] r_def[symmetric] body_def[symmetric]
      t_def[symmetric] by (auto split: if_splits)
  have "hd r = CHR ''<''" using hd_dropWhile[of "\<lambda>c. c \<noteq> CHR ''<''" s] a(1) by (simp add: r_def)
  moreover have "hd t = CHR ''>''" using hd_dropWhile[of "\<lambda>c. c \<noteq> CHR ''>''" "tl r"] a(2) by (simp add: t_def)
  moreover have "s = before @ r" "tl r = body @ t" by (simp_all add: a(3) r_def body_def t_def)
  ultimately show s: "s = before @ tag @ after" using a by (metis append_Cons append_Nil append.assoc list.collapse)
  show "length after < length s" using s a(4) by simp
  show "CHR ''<'' \<notin> set before" using a(3) by (auto dest: set_takeWhileD)
  show "\<exists>body. tag = CHR ''<'' # body @ ''>'' \<and> CHR ''>'' \<notin> set body"
    using a(4) by (auto simp: body_def dest: set_takeWhileD)
qed

function linkify_tags :: "(string \<Rightarrow> string) \<Rightarrow> string \<Rightarrow> string" where
  "linkify_tags render html =
     (case next_html_tag html of
        Some (before, tag, after) \<Rightarrow> linkify_segment render True before @ tag @ linkify_tags render after
      | None \<Rightarrow> linkify_segment render True html)"
  by pat_completeness auto
termination by (relation "measure (\<lambda>(_, html). length html)") (auto dest: next_html_tag_Some(2))

declare linkify_tags.simps [simp del]

definition linkify_card_uuids_with_previews ::
  "string \<Rightarrow> uuid set \<Rightarrow> (uuid \<rightharpoonup> string) \<Rightarrow> uuid set \<Rightarrow> string" where
  "linkify_card_uuids_with_previews html card_ids card_previews blazed_ids =
     (if card_ids = {} then html
      else linkify_tags (render_uuid_link card_ids card_previews blazed_ids) html)"

definition linkify_card_uuids :: "string \<Rightarrow> uuid set \<Rightarrow> string" where
  "linkify_card_uuids html card_ids = linkify_card_uuids_with_previews html card_ids Map.empty {}"


section \<open>Copy buttons\<close>

text \<open>The text up to and with the first occurrence of a pattern, and what follows it.\<close>

fun split_after :: "string \<Rightarrow> string \<Rightarrow> (string \<times> string) option" where
  "split_after pat [] = (if pat = [] then Some ([], []) else None)"
| "split_after pat (c # cs) =
     (if take (length pat) (c # cs) = pat then Some (pat, drop (length pat) (c # cs))
      else map_option (\<lambda>(before, after). (c # before, after)) (split_after pat cs))"

text \<open>A match of \<open>PRE_RE\<close> that begins here: the element, and what follows it.\<close>

definition pre_match :: "string \<Rightarrow> (string \<times> string) option" where
  "pre_match s =
     (if take 4 s \<noteq> ''<pre'' then None
      else
        let r = drop 4 s;
            opening = (if r \<noteq> [] \<and> hd r = CHR ''>'' then Some (''<pre>'', tl r)
              else if 0 < white_len r
              then map_option (\<lambda>(attrs, after). (''<pre'' @ attrs, after)) (split_after ''>'' r)
              else None)
        in case opening of
             Some (open_tag, body) \<Rightarrow>
               map_option (\<lambda>(inner, after). (open_tag @ inner, after)) (split_after ''</pre>'' body)
           | None \<Rightarrow> None)"

definition COPY_ICON_SVG :: string where
  "COPY_ICON_SVG =
     ''<svg class=\"icon\" viewBox=\"0 0 24 24\" width=\"1em\" height=\"1em\" fill=\"none\" stroke=\"currentColor\" aria-hidden=\"true\">'' @
     ''<rect x=\"4\" y=\"4\" width=\"13\" height=\"13\" rx=\"1.5\"/>'' @
     ''<rect x=\"7\" y=\"7\" width=\"13\" height=\"13\" rx=\"1.5\"/>'' @
     ''</svg>''"

definition wrap_pre :: "string \<Rightarrow> string" where
  "wrap_pre m =
     ''<div class=\"code-block-wrapper\"><button class=\"code-copy-btn\" title=\"Copy to clipboard\">'' @
     COPY_ICON_SVG @ ''</button>'' @ m @ ''</div>''"

lemma split_after_Some:
  "split_after pat s = Some (before, after) \<Longrightarrow> s = before @ after \<and> (\<exists>u. before = u @ pat)"
proof (induction pat s arbitrary: before rule: split_after.induct)
  case (2 pat c cs)
  show ?case
  proof (cases "take (length pat) (c # cs) = pat")
    case True
    then show ?thesis using "2.prems" by (auto) (metis append_take_drop_id)
  next
    case False
    then obtain b where "split_after pat cs = Some (b, after)" "before = c # b" using "2.prems" by auto
    then show ?thesis using "2.IH"[OF False] by auto
  qed
qed (simp split: if_splits)

lemma pre_match_Some: "pre_match s = Some (m, after) \<Longrightarrow> s = m @ after \<and> length after < length s"
  using append_take_drop_id[of 4 s]
  by (cases "drop 4 s") (auto simp: pre_match_def Let_def split: if_splits option.splits dest!: split_after_Some)

function wrap_code_blocks_with_copy_button :: "string \<Rightarrow> string" where
  "wrap_code_blocks_with_copy_button html =
     (case pre_match html of
        Some (m, after) \<Rightarrow> wrap_pre m @ wrap_code_blocks_with_copy_button after
      | None \<Rightarrow> if html = [] then [] else hd html # wrap_code_blocks_with_copy_button (tl html))"
  by pat_completeness auto
termination by (relation "measure length") (auto dest: pre_match_Some)

declare wrap_code_blocks_with_copy_button.simps [simp del]

section \<open>Times and tags\<close>

definition show_int :: "int \<Rightarrow> string" where
  "show_int i = (if i < 0 then ''-'' @ nat_digits (nat (- i)) else nat_digits (nat i))"

text \<open>\<open>format_relative_time\<close> of the milliseconds since the timestamp; the divisions are of
  non-negative numbers.\<close>

definition format_relative_time :: "int \<Rightarrow> string" where
  "format_relative_time ms =
     (if ms < 1000 then show_int ms @ ''ms ago''
      else if ms < 60000 then show_int (ms div 1000) @ ''s ago''
      else if ms < 3600000 then show_int (ms div 60000) @ ''m ago''
      else if ms < 86400000 then show_int (ms div 3600000) @ ''h ago''
      else show_int (ms div 86400000) @ ''d ago'')"

record tag_display =
  td_id :: uuid
  td_title :: string
  td_color :: "RGB8 option"

definition title_le :: "(string \<Rightarrow> string) \<Rightarrow> string \<Rightarrow> string \<Rightarrow> bool" where
  "title_le to_lower a b \<longleftrightarrow> to_lower a \<le> to_lower b"

definition sort_tags :: "(string \<Rightarrow> string) \<Rightarrow> tag list \<Rightarrow> tag list" where
  "sort_tags to_lower ts = sort_by_le (\<lambda>a b. title_le to_lower (tag_title a) (tag_title b)) ts"

definition resolve_tags :: "(string \<Rightarrow> string) \<Rightarrow> uuid list \<Rightarrow> tag list \<Rightarrow> tag_display list" where
  "resolve_tags to_lower ids all_tags =
     sort_by_le (\<lambda>a b. title_le to_lower (td_title a) (td_title b))
       (List.map_filter (\<lambda>uid. map_option (\<lambda>t.
          \<lparr> td_id = uid, td_title = tag_title t, td_color = tag_color t \<rparr>)
          (find (\<lambda>t. tag_id t = uid) all_tags)) ids)"

end
