(* ===== verification/Task_Facts.thy ===== *)
theory Task_Facts
  imports Display_Text
begin

text \<open>
  A printed UUID is read back, and is a link wherever the scanner may find one.
\<close>

lemma hex_digits_value:
  fixes x :: int
  assumes "m \<le> k"
  shows "foldl (\<lambda>n i. 16 * n + x div 16 ^ (k - 1 - i) mod 16) 0 [0..<m] = x div 16 ^ (k - m) mod 16 ^ m"
  using assms
proof (induction m)
  case (Suc m)
  have k: "k - m = Suc (k - Suc m)" using Suc.prems by simp
  have "x div 16 ^ (k - m) = x div 16 ^ (k - Suc m) div 16" unfolding k by (simp add: zdiv_zmult2_eq[symmetric] mult.commute)
  then have "16 * (x div 16 ^ (k - m) mod 16 ^ m) + x div 16 ^ (k - Suc m) mod 16 =
      x div 16 ^ (k - Suc m) mod 16 ^ Suc m"
    using zmod_zmult2_eq[of "16 ^ m" "x div 16 ^ (k - Suc m)" 16] by (simp add: mult.commute)
  then show ?case using Suc by simp
qed simp

lemma length_uuid_digits [simp]: "length (uuid_digits u) = 32"
  by (simp add: uuid_digits_def)

lemma uuid_digit:
  assumes "i < 32"
  shows "hex_value (uuid_digits u ! i) = Some (nat (uint u div 16 ^ (31 - i) mod 16))"
proof -
  have "nat (uint u div 16 ^ (31 - i) mod 16) < 16" by (simp add: nat_less_iff)
  then show ?thesis using assms by (simp add: uuid_digits_def hex_value_digit)
qed

abbreviation hex_step :: "int \<Rightarrow> char \<Rightarrow> int" where
  "hex_step n c \<equiv> (case hex_value c of Some d \<Rightarrow> 16 * n + int d | None \<Rightarrow> n)"

lemma foldl_uuid_digits:
  "i \<le> 32 \<Longrightarrow> foldl hex_step 0 (take i (uuid_digits u)) = uint u div 16 ^ (32 - i) mod 16 ^ i"
proof (induction i)
  case (Suc i)
  have "foldl hex_step 0 (take (Suc i) (uuid_digits u)) =
      16 * foldl hex_step 0 (take i (uuid_digits u)) + uint u div 16 ^ (31 - i) mod 16"
    using Suc.prems uuid_digit[of i u] by (simp add: take_Suc_conv_app_nth)
  also have "\<dots> = uint u div 16 ^ (32 - Suc i) mod 16 ^ Suc i"
    using hex_digits_value[of "Suc i" 32 "uint u"] hex_digits_value[of i 32 "uint u"] Suc by simp
  finally show ?case .
qed simp

lemma uuid_to_string_pieces:
  obtains a b c d e where "uuid_digits u = a @ b @ c @ d @ e"
    "uuid_to_string u = a @ ''-'' @ b @ ''-'' @ c @ ''-'' @ d @ ''-'' @ e"
    "length a = 8" "length b = 4" "length c = 4" "length d = 4" "length e = 12"
proof
  let ?d = "uuid_digits u"
  show "uuid_to_string u = take 8 ?d @ ''-'' @ take 4 (drop 8 ?d) @ ''-'' @ take 4 (drop 12 ?d) @ ''-'' @
      take 4 (drop 16 ?d) @ ''-'' @ drop 20 ?d"
    by (simp add: uuid_to_string_def Let_def)
  have "drop 16 ?d = take 4 (drop 16 ?d) @ drop 20 ?d" using append_take_drop_id[of 4 "drop 16 ?d"] by (simp add: add.commute)
  moreover have "drop 12 ?d = take 4 (drop 12 ?d) @ drop 16 ?d" using append_take_drop_id[of 4 "drop 12 ?d"] by (simp add: add.commute)
  moreover have "drop 8 ?d = take 4 (drop 8 ?d) @ drop 12 ?d" using append_take_drop_id[of 4 "drop 8 ?d"] by (simp add: add.commute)
  ultimately show "?d = take 8 ?d @ take 4 (drop 8 ?d) @ take 4 (drop 12 ?d) @ take 4 (drop 16 ?d) @ drop 20 ?d"
    by (metis append_take_drop_id)
qed simp_all

lemma hex_step_dash: "hex_step n CHR ''-'' = n"
  by (simp add: hex_value_def)

lemma parse_uuid_to_string: "parse_uuid_text (uuid_to_string u) = u"
proof -
  obtain a b c d e where p: "uuid_digits u = a @ b @ c @ d @ e"
      "uuid_to_string u = a @ ''-'' @ b @ ''-'' @ c @ ''-'' @ d @ ''-'' @ e"
    by (rule uuid_to_string_pieces)
  have "foldl hex_step 0 (uuid_to_string u) = foldl hex_step 0 (uuid_digits u)"
    unfolding p by (simp add: hex_step_dash)
  also have "\<dots> = uint u mod 16 ^ 32" using foldl_uuid_digits[of 32 u] by simp
  also have "\<dots> = uint u" using uint_lt2p[of u] by simp
  finally show ?thesis by (simp add: parse_uuid_text_def)
qed

lemma uuid_digit_hex: "c \<in> set (uuid_digits u) \<Longrightarrow> is_hex c"
  using uuid_digit by (auto simp: is_hex_def in_set_conv_nth)

lemma uuid_here_to_string: "uuid_here (uuid_to_string u @ rest)"
proof -
  obtain a b c d e where p: "uuid_digits u = a @ b @ c @ d @ e"
      "uuid_to_string u = a @ ''-'' @ b @ ''-'' @ c @ ''-'' @ d @ ''-'' @ e"
      "length a = 8" "length b = 4" "length c = 4" "length d = 4" "length e = 12"
    by (rule uuid_to_string_pieces)
  have hex: "list_all is_hex (a @ b @ c @ d @ e)" using uuid_digit_hex[of _ u] unfolding p(1) by (auto simp: list_all_iff)
  have nth: "is_hex (x ! i)" if "x \<in> set [a, b, c, d, e]" "i < length x" for x i
    using that hex by (auto simp: list_all_iff)
  let ?s = "a @ ''-'' @ b @ ''-'' @ c @ ''-'' @ d @ ''-'' @ e @ rest"
  have s: "uuid_to_string u @ rest = ?s" unfolding p(2) by simp
  have dash: "?s ! 8 = CHR ''-''" "?s ! 13 = CHR ''-''" "?s ! 18 = CHR ''-''" "?s ! 23 = CHR ''-''"
    by (simp_all add: nth_append p(3-))
  have piece: "j < 8 \<Longrightarrow> ?s ! j = a ! j" "j < 4 \<Longrightarrow> ?s ! (9 + j) = b ! j" "j < 4 \<Longrightarrow> ?s ! (14 + j) = c ! j"
    "j < 4 \<Longrightarrow> ?s ! (19 + j) = d ! j" "j < 12 \<Longrightarrow> ?s ! (24 + j) = e ! j" for j
    by (simp_all add: nth_append p(3-))
  show ?thesis unfolding uuid_here_def
  proof (intro conjI)
    show "36 \<le> length (uuid_to_string u @ rest)" unfolding s by (simp add: p(3-))
    have "if i \<in> set [8, 13, 18, 23] then (uuid_to_string u @ rest) ! i = CHR ''-'' else is_hex ((uuid_to_string u @ rest) ! i)"
      if i: "i < 36" for i
    proof -
      consider "i < 8" | "i \<in> set [8, 13, 18, 23]" | j where "i = 9 + j" "j < 4" | j where "i = 14 + j" "j < 4"
        | j where "i = 19 + j" "j < 4" | j where "i = 24 + j" "j < 12"
      proof -
        have "i < 8 \<or> i = 8 \<or> i = 9 + (i - 9) \<and> i - 9 < 4 \<or> i = 13 \<or> i = 14 + (i - 14) \<and> i - 14 < 4 \<or> i = 18
            \<or> i = 19 + (i - 19) \<and> i - 19 < 4 \<or> i = 23 \<or> i = 24 + (i - 24) \<and> i - 24 < 12"
          using i by arith
        then show thesis using that by fastforce
      qed
      then show ?thesis unfolding s using dash piece nth p(3-) by cases auto
    qed
    then show "list_all (\<lambda>i. if i \<in> set [8, 13, 18, 23] then (uuid_to_string u @ rest) ! i = CHR ''-''
        else is_hex ((uuid_to_string u @ rest) ! i)) [0..<36]"
      by (simp only: list_all_iff set_upt) simp
  qed
qed


lemma length_uuid_to_string [simp]: "length (uuid_to_string u) = 36"
  by (simp add: uuid_to_string_def Let_def)

lemma hd_uuid_to_string: "is_hex (hd (uuid_to_string u))" "uuid_to_string u \<noteq> []"
proof -
  have "uuid_to_string u ! 0 = uuid_digits u ! 0" by (simp add: uuid_to_string_def Let_def nth_append)
  then show "is_hex (hd (uuid_to_string u))" "uuid_to_string u \<noteq> []"
    using uuid_digit_hex[of "uuid_digits u ! 0" u] hd_conv_nth[of "uuid_to_string u"] length_uuid_to_string[of u]
    by (metis length_uuid_digits list.size(3) nth_mem zero_less_numeral zero_neq_numeral, metis list.size(3) zero_neq_numeral)
qed

lemma skip_bracket_uuid: "skip_bracket (uuid_to_string u @ rest) = uuid_to_string u @ rest"
  using hd_uuid_to_string[of u] by (auto simp: skip_bracket_def is_hex_def hex_value_def)

text \<open>A content that begins with a UUID, or has one after white space and perhaps a bracket.\<close>

lemma matches_at_start: "uuid_matches True (uuid_to_string u @ rest) = uuid_to_string u # uuid_matches False rest"
  by (subst uuid_matches.simps) (simp add: link_match_def skip_bracket_uuid uuid_here_to_string)

lemma matches_empty [simp]: "uuid_matches False [] = []"
  by (subst uuid_matches.simps) (simp add: link_match_def)

lemma links_of_uuid: "u \<noteq> own \<Longrightarrow> extract_card_links (uuid_to_string u) own = [u]"
  using matches_at_start[of u "[]"] by (simp add: extract_card_links_def parse_uuid_to_string)

lemma contains_refl [simp]: "str_contains s s"
  by (cases s) auto

text \<open>
  Lemmas on texts and their lines: what lines a text is made of, which line a toggled task item is on,
  and that toggling it changes one byte; linking and escaping of rendered HTML.
\<close>

section \<open>Task items of a line\<close>

lemma dropWhile_spaces: "\<exists>n. s = replicate n a @ dropWhile ((=) a) s"
proof (induction s)
  case (Cons c s)
  then obtain n where "s = replicate n a @ dropWhile ((=) a) s" by blast
  then show ?case by (cases "a = c") (auto intro: exI[of _ "Suc n"] exI[of _ 0])
qed simp

lemma dropWhile_replicate: "x \<noteq> a \<Longrightarrow> dropWhile ((=) a) (replicate n a @ x # xs) = x # xs"
  by (induction n) auto

definition task_line :: "nat \<Rightarrow> char \<Rightarrow> nat \<Rightarrow> char \<Rightarrow> string \<Rightarrow> string" where
  "task_line a bullet b check rest =
     replicate a CHR '' '' @ bullet # CHR '' '' # replicate b CHR '' '' @ ''['' @ check # CHR '']'' # rest"

lemma parse_task_line:
  assumes "is_bullet bullet" "is_check check"
  shows "parse_task_item (task_line a bullet b check rest) = Some (a + b + 2, check)"
proof -
  have "dropWhile ((=) CHR '' '') (task_line a bullet b check rest) =
      bullet # CHR '' '' # replicate b CHR '' '' @ CHR ''['' # check # CHR '']'' # rest"
    using assms(1) dropWhile_replicate[of bullet "CHR '' ''" a] by (auto simp: task_line_def is_bullet_def)
  then show ?thesis
    using assms dropWhile_replicate[of "CHR ''[''" "CHR '' ''" b]
    by (simp add: parse_task_item_def task_line_def)
qed

lemma parse_check_Some:
  assumes "parse_check i s = Some (p, check)"
  shows "\<exists>rest. s = CHR ''['' # check # CHR '']'' # rest" "is_check check" "p = i"
  using assms by (cases "(i, s)" rule: parse_check.cases; simp split: if_splits)+

lemma parse_task_item_Some:
  assumes "parse_task_item l = Some (p, check)"
  obtains a bullet b rest where "l = task_line a bullet b check rest" "p = a + b + 2"
    "is_bullet bullet" "is_check check"
proof -
  obtain bullet r where r: "dropWhile ((=) CHR '' '') l = bullet # r"
    using assms by (auto simp: parse_task_item_def split: list.splits)
  obtain a where a: "l = replicate a CHR '' '' @ bullet # r" using dropWhile_spaces[of l "CHR '' ''"] unfolding r by blast
  define s where "s = dropWhile ((=) CHR '' '') r"
  have p: "(if \<not> is_bullet bullet then None else if r = [] \<or> hd r \<noteq> CHR '' '' then None
      else parse_check (length l - length s) s) = Some (p, check)"
    using assms unfolding parse_task_item_def r list.case Let_def s_def .
  have bullet: "is_bullet bullet" "r \<noteq> []" "hd r = CHR '' ''" using p by (simp_all split: if_splits)
  have sp: "s = dropWhile ((=) CHR '' '') (tl r)" using bullet by (cases r) (simp_all add: s_def)
  have pc: "parse_check (length l - length s) s = Some (p, check)" using p by (simp split: if_splits)
  obtain rest where rest: "dropWhile ((=) CHR '' '') (tl r) = CHR ''['' # check # CHR '']'' # rest" "is_check check"
    using parse_check_Some[OF pc] sp by auto
  obtain b where b: "tl r = replicate b CHR '' '' @ CHR ''['' # check # CHR '']'' # rest"
    using dropWhile_spaces[of "tl r" "CHR '' ''"] unfolding rest(1) by blast
  have "r = CHR '' '' # tl r" using bullet(2,3) by (cases r) simp_all
  then have l: "l = task_line a bullet b check rest" using a b by (simp add: task_line_def)
  moreover have "p = a + b + 2" using parse_task_line[OF bullet(1) rest(2)] assms l by simp
  ultimately show thesis using that bullet(1) rest(2) by blast
qed

section \<open>Lines\<close>

lemma join_lf_Cons: "ls \<noteq> [] \<Longrightarrow> join_lf (l # ls) = l @ LF # join_lf ls"
  by (cases ls) auto

lemma join_lf_append: "ls \<noteq> [] \<Longrightarrow> join_lf (ls @ [l]) = join_lf ls @ LF # l"
proof (induction ls)
  case (Cons a ls)
  then show ?case by (cases "ls = []") (simp_all add: join_lf_Cons)
qed simp

lemma join_split: "join_lf (split_lf s) = s"
proof (induction s)
  case (Cons c s)
  then show ?case by (cases "split_lf s") (auto simp: join_lf_Cons[of "split_lf s"], (cases "tl (split_lf s)"; auto)+)
qed simp

lemma split_no_lf: "l \<in> set (split_lf s) \<Longrightarrow> LF \<notin> set l"
proof (induction s arbitrary: l)
  case (Cons c s)
  obtain x xs where "split_lf s = x # xs" by (cases "split_lf s") simp_all
  then show ?case using Cons by (auto split: if_splits)
qed simp

lemma split_join: "ls \<noteq> [] \<Longrightarrow> \<forall>l\<in>set ls. LF \<notin> set l \<Longrightarrow> split_lf (join_lf ls) = ls"
proof (induction ls)
  case (Cons l ls)
  have one: "LF \<notin> set l \<Longrightarrow> split_lf l = [l]" by (induction l) auto
  have cons: "LF \<notin> set l \<Longrightarrow> split_lf (l @ LF # s) = l # split_lf s" for s by (induction l) auto
  show ?case using Cons one cons by (cases "ls = []") (auto simp: join_lf_Cons)
qed simp

text \<open>The line feed a text ends with, which toggling puts back.\<close>

definition final_lf :: "string \<Rightarrow> string" where
  "final_lf s = (if s \<noteq> [] \<and> last s = LF then [LF] else [])"

text \<open>Lines that no text but the one they come from has.\<close>

definition plain_lines :: "string list \<Rightarrow> bool" where
  "plain_lines ls \<longleftrightarrow> (\<forall>l\<in>set ls. LF \<notin> set l \<and> CR \<notin> set l)"

lemma strip_cr_plain [simp]: "CR \<notin> set l \<Longrightarrow> strip_cr l = l"
  by (metis last_in_set strip_cr_def)

lemma split_join_lf: "ls \<noteq> [] \<Longrightarrow> \<forall>l\<in>set ls. LF \<notin> set l \<Longrightarrow> split_lf (join_lf ls @ [LF]) = ls @ [[]]"
  using split_join[of "ls @ [[]]"] by (simp add: join_lf_append)


lemma split_lf_chars: "l \<in> set (split_lf s) \<Longrightarrow> set l \<subseteq> set s"
proof (induction s arbitrary: l)
  case (Cons c s)
  obtain x xs where "split_lf s = x # xs" by (cases "split_lf s") simp_all
  then show ?case using Cons by (fastforce split: if_splits)
qed simp

lemma rust_lines_plain:
  assumes "CR \<notin> set s"
  shows "plain_lines (rust_lines s)" "join_lf (rust_lines s) @ final_lf s = s"
    "final_lf s = [] \<Longrightarrow> rust_lines s \<noteq> [] \<Longrightarrow> last (rust_lines s) \<noteq> []"
proof -
  let ?ls = "split_lf s"
  have plain: "LF \<notin> set l" "CR \<notin> set l" if "l \<in> set ?ls" for l
    using that assms split_no_lf split_lf_chars by blast+
  have map: "map strip_cr (butlast ?ls) = butlast ?ls"
    by (rule map_idI) (use plain in_set_butlastD in \<open>metis strip_cr_plain\<close>)
  have rl: "rust_lines s = butlast ?ls @ (if last ?ls = [] then [] else [last ?ls])"
    by (simp add: rust_lines_def Let_def map)
  show "plain_lines (rust_lines s)" using plain in_set_butlastD[of _ ?ls] last_in_set[of ?ls] by (auto simp: rl plain_lines_def)
  show "final_lf s = [] \<Longrightarrow> rust_lines s \<noteq> [] \<Longrightarrow> last (rust_lines s) \<noteq> []"
    and "join_lf (rust_lines s) @ final_lf s = s"
  proof -
    have s0: "join_lf (butlast ?ls @ [last ?ls]) = s" using join_split[of s] by simp
    have one: "butlast ?ls = [] \<Longrightarrow> last ?ls = s" using s0 by (metis append_Nil join_lf.simps(2))
    have many: "butlast ?ls \<noteq> [] \<Longrightarrow> join_lf (butlast ?ls) @ LF # last ?ls = s" using s0 join_lf_append by metis
    have ended: "final_lf s = [LF]" if "butlast ?ls \<noteq> []" "last ?ls = []"
      using many[OF that(1)] that(2) by (metis final_lf_def append_is_Nil_conv last_snoc list.distinct(1))
    show "join_lf (rust_lines s) @ final_lf s = s"
    proof (cases "last ?ls = []")
      case True
      show ?thesis
      proof (cases "butlast ?ls = []")
        case True
        then have "s = []" using one \<open>last ?ls = []\<close> by simp
        then show ?thesis by (simp add: rust_lines_def final_lf_def)
      next
        case False
        then show ?thesis using rl True many ended by simp
      qed
    next
      case False
      then have "last s = last (last ?ls)" "s \<noteq> []"
        using one many by (metis last_ConsR last_appendR list.distinct(1), metis append_is_Nil_conv list.distinct(1))
      then have "final_lf s = []" using plain(1)[OF last_in_set[OF split_lf_nonempty]] False by (metis final_lf_def last_in_set)
      then show ?thesis using s0 rl False by simp
    qed
    show "last (rust_lines s) \<noteq> []" if "final_lf s = []" "rust_lines s \<noteq> []"
      using that ended rl by (cases "last ?ls = []") auto
  qed
qed

lemma rust_lines_join:
  assumes "plain_lines ls" "ls \<noteq> []" "tail = [LF] \<or> tail = [] \<and> last ls \<noteq> []"
  shows "rust_lines (join_lf ls @ tail) = ls"
proof -
  have strip: "map strip_cr xs = xs" if "set xs \<subseteq> set ls" for xs
    by (rule map_idI) (use that assms(1) strip_cr_plain in \<open>auto simp: plain_lines_def\<close>)
  show ?thesis using assms(3)
  proof
    assume "tail = [LF]"
    then show ?thesis using split_join_lf[of ls] assms(1,2) strip by (simp add: rust_lines_def Let_def plain_lines_def)
  next
    assume t: "tail = [] \<and> last ls \<noteq> []"
    have "map strip_cr (butlast ls) = butlast ls" by (rule strip) (auto dest: in_set_butlastD)
    then show ?thesis using t split_join[of ls] assms(1,2) by (simp add: rust_lines_def Let_def plain_lines_def)
  qed
qed


section \<open>Toggling\<close>

definition flip :: "char \<Rightarrow> char" where
  "flip c = (if c = CHR '' '' then CHR ''x'' else CHR '' '')"

lemma toggled_line:
  assumes "parse_task_item l = Some (p, check)"
  shows "take p l @ ''['' @ [c] @ '']'' @ drop (p + 3) l = l[p + 1 := c]" "p + 1 < length l" "l ! (p + 1) = check"
    "is_check check" "is_check c \<Longrightarrow> parse_task_item (l[p + 1 := c]) = Some (p, c)"
proof -
  obtain a bullet b rest where l: "l = task_line a bullet b check rest" "p = a + b + 2" "is_bullet bullet" "is_check check"
    using assms by (rule parse_task_item_Some)
  define pre where "pre = replicate a CHR '' '' @ bullet # CHR '' '' # replicate b CHR '' ''"
  have pre: "l = pre @ CHR ''['' # check # CHR '']'' # rest" "length pre = p" using l by (simp_all add: task_line_def pre_def)
  show "take p l @ ''['' @ [c] @ '']'' @ drop (p + 3) l = l[p + 1 := c]" "p + 1 < length l" "l ! (p + 1) = check"
    unfolding pre(1) pre(2)[symmetric] by (simp_all add: list_update_append nth_append)
  have "l[p + 1 := c] = task_line a bullet b c rest"
    unfolding pre(1) pre(2)[symmetric] by (simp add: list_update_append task_line_def pre_def)
  then show "is_check c \<Longrightarrow> parse_task_item (l[p + 1 := c]) = Some (p, c)" using parse_task_line l(2,3) by simp
qed (use assms in \<open>auto elim: parse_task_item_Some\<close>)

lemma task_checks_Cons [simp]:
  "task_checks [] = []"
  "task_checks (l # ls) =
     (case parse_task_item l of Some (_, check) \<Rightarrow> (check \<noteq> CHR '' '') # task_checks ls | None \<Rightarrow> task_checks ls)"
  by (auto simp: task_checks_def List.map_filter_def split: option.splits)

lemma toggle_lines_past: "index < current \<Longrightarrow> toggle_lines ls current index = (ls, False)"
  by (induction ls current index rule: toggle_lines.induct) (auto simp: Let_def split: option.splits)

lemma toggle_lines_none:
  "current \<le> index \<Longrightarrow> length (task_checks ls) \<le> index - current \<Longrightarrow> toggle_lines ls current index = (ls, False)"
  by (induction ls current index rule: toggle_lines.induct) (auto simp: Let_def split: option.splits)

text \<open>The line and the byte that the item at an index has its mark in.\<close>

lemma toggle_lines_some:
  "current \<le> index \<Longrightarrow> index - current < length (task_checks ls) \<Longrightarrow>
   \<exists>k p. k < length ls \<and> p < length (ls ! k) \<and> is_check (ls ! k ! p) \<and>
     toggle_lines ls current index = (ls[k := (ls ! k)[p := flip (ls ! k ! p)]], True) \<and>
     task_checks (ls[k := (ls ! k)[p := flip (ls ! k ! p)]]) =
       (task_checks ls)[index - current := \<not> task_checks ls ! (index - current)]"
proof (induction ls arbitrary: current)
  case (Cons l ls)
  show ?case
  proof (cases "parse_task_item l")
    case None
    then have c: "current \<le> index" "index - current < length (task_checks ls)" using Cons.prems by simp_all
    then obtain k p where "k < length ls" "p < length (ls ! k)" "is_check (ls ! k ! p)"
        "toggle_lines ls current index = (ls[k := (ls ! k)[p := flip (ls ! k ! p)]], True)"
        "task_checks (ls[k := (ls ! k)[p := flip (ls ! k ! p)]]) =
          (task_checks ls)[index - current := \<not> task_checks ls ! (index - current)]"
      using Cons.IH[OF c] by (elim exE conjE)
    then show ?thesis using None by (intro exI[of _ "Suc k"] exI[of _ p]) simp
  next
    case (Some r)
    obtain p check where r: "r = (p, check)" by (cases r)
    note item = toggled_line[OF Some[unfolded r]]
    show ?thesis
    proof (cases "current = index")
      case True
      have f: "is_check (flip check)" by (simp add: flip_def is_check_def)
      have t: "(if check = CHR '' '' then ''x'' else '' '') = [flip check]" by (simp add: flip_def)
      have "toggle_lines (l # ls) current index = ((l # ls)[0 := l[p + 1 := flip check]], True)"
        using Some r True item(1)[of "flip check"] t by (simp add: toggle_lines_past Let_def)
      moreover have "task_checks ((l # ls)[0 := l[p + 1 := flip check]]) = (\<not> (check \<noteq> CHR '' '')) # task_checks ls"
        using item(5)[OF f] by (simp add: flip_def)
      ultimately show ?thesis using Some r True item(2,3,4) by (intro exI[of _ 0] exI[of _ "p + 1"]) simp
    next
      case False
      then have c: "Suc current \<le> index" "index - Suc current < length (task_checks ls)" using Cons.prems Some r by auto
      obtain k q where k: "k < length ls" "q < length (ls ! k)" "is_check (ls ! k ! q)"
        "toggle_lines ls (Suc current) index = (ls[k := (ls ! k)[q := flip (ls ! k ! q)]], True)"
        "task_checks (ls[k := (ls ! k)[q := flip (ls ! k ! q)]]) =
          (task_checks ls)[index - Suc current := \<not> task_checks ls ! (index - Suc current)]"
        using Cons.IH[OF c] by blast
      have "index - current = Suc (index - Suc current)" using c by simp
      then show ?thesis using Some r False k by (intro exI[of _ "Suc k"] exI[of _ q]) (simp add: Let_def)
    qed
  qed
qed simp

lemma join_lf_update:
  "k < length ls \<Longrightarrow> p < length (ls ! k) \<Longrightarrow>
   \<exists>q < length (join_lf ls). join_lf ls ! q = ls ! k ! p \<and> (\<forall>c. join_lf (ls[k := (ls ! k)[p := c]]) = (join_lf ls)[q := c])"
proof (induction ls arbitrary: k)
  case (Cons l ls)
  show ?case
  proof (cases k)
    case 0
    then show ?thesis using Cons.prems
      by (cases "ls = []") (auto simp: join_lf_Cons list_update_append nth_append intro!: exI[of _ p])
  next
    case (Suc j)
    then have ne: "ls \<noteq> []" using Cons.prems by auto
    obtain q where q: "q < length (join_lf ls)" "join_lf ls ! q = ls ! j ! p"
        "\<forall>c. join_lf (ls[j := (ls ! j)[p := c]]) = (join_lf ls)[q := c]"
      using Cons.IH[of j] Cons.prems Suc by auto
    then show ?thesis using ne Suc
      by (intro exI[of _ "length l + Suc q"]) (simp add: join_lf_Cons list_update_append nth_append)
  qed
qed simp

lemma toggle_task_item_byte:
  assumes cr: "CR \<notin> set content"
  shows "case toggle_task_item content index of
      None \<Rightarrow> length (task_checks (rust_lines content)) \<le> index
    | Some new \<Rightarrow> index < length (task_checks (rust_lines content)) \<and>
        (\<exists>q < length content. is_check (content ! q) \<and> new = content[q := flip (content ! q)]) \<and>
        task_checks (rust_lines new) =
          (task_checks (rust_lines content))[index := \<not> task_checks (rust_lines content) ! index]"
proof (cases "index < length (task_checks (rust_lines content))")
  case False
  then show ?thesis using toggle_lines_none[of 0 index] by (simp add: toggle_task_item_def Let_def)
next
  case True
  let ?ls = "rust_lines content"
  obtain k p where k: "k < length ?ls" "p < length (?ls ! k)" "is_check (?ls ! k ! p)"
      "toggle_lines ?ls 0 index = (?ls[k := (?ls ! k)[p := flip (?ls ! k ! p)]], True)"
      "task_checks (?ls[k := (?ls ! k)[p := flip (?ls ! k ! p)]]) = (task_checks ?ls)[index := \<not> task_checks ?ls ! index]"
    using toggle_lines_some[of 0 index ?ls] True by auto
  let ?new = "?ls[k := (?ls ! k)[p := flip (?ls ! k ! p)]]"
  obtain q where q: "q < length (join_lf ?ls)" "join_lf ?ls ! q = ?ls ! k ! p" "join_lf ?new = (join_lf ?ls)[q := flip (?ls ! k ! p)]"
    using join_lf_update[OF k(1,2)] by blast
  have content: "content = join_lf ?ls @ final_lf content" using rust_lines_plain(2)[OF cr] by simp
  have qc: "q < length content" "content ! q = ?ls ! k ! p" using q(1,2) content by (metis length_append trans_less_add1, metis nth_append)
  have result: "toggle_task_item content index = Some (join_lf ?new @ final_lf content)"
    using k(4) by (simp add: toggle_task_item_def final_lf_def)
  have "join_lf ?new @ final_lf content = content[q := flip (content ! q)]"
    using q content qc(2) by (metis list_update_append1)
  moreover have "rust_lines (join_lf ?new @ final_lf content) = ?new"
  proof (rule rust_lines_join)
    have "flip c \<noteq> LF" "flip c \<noteq> CR" "LF \<noteq> flip c" "CR \<noteq> flip c" for c by (simp_all add: flip_def LF_def CR_def)
    then show "plain_lines ?new" using rust_lines_plain(1)[OF cr] k(1)
      by (auto simp: plain_lines_def dest!: set_update_subset_insert[THEN subsetD] intro: nth_mem)
    show "?new \<noteq> []" using k(1) by auto
    have "last ?new \<noteq> []" if "final_lf content = []"
      using rust_lines_plain(3)[OF cr that] k(1,2) last_list_update[of ?ls k]
      by (cases "?ls = []") (auto simp: last_conv_nth)
    then show "final_lf content = [LF] \<or> final_lf content = [] \<and> last ?new \<noteq> []" by (auto simp: final_lf_def)
  qed
  ultimately show ?thesis using result True qc k(3,5) by auto
qed

end
