(* ===== verification/Display_Properties.thy ===== *)
theory Display_Properties
  imports Task_Facts
begin

text \<open>
  The properties of the display helpers: the linked cards of a card, the counts beside it, and the
  task items of a content.
\<close>

section \<open>Two cards that name each other\<close>

definition linking_card :: "uuid \<Rightarrow> uuid \<Rightarrow> card" where
  "linking_card uid target = card_first (\<lambda>_. 0) uid (uuid_to_string target) 5 [] False 1000 None"

definition linking_cards :: "card list" where
  "linking_cards = [linking_card 1 2, linking_card 2 1]"

lemma linking_card_fields [simp]:
  "card_id (linking_card u v) = u" "card_content (linking_card u v) = uuid_to_string v"
  by (simp_all add: linking_card_def card_first_def Let_def)

lemma linking_outgoing:
  "outgoing linking_cards u = (if u = 1 then Some [2] else if u = 2 then Some [1] else None)"
  by (simp add: outgoing_def linking_cards_def links_of_uuid Let_def)

lemma linking_pairs: "pair_order [(1, 2), (2, 1)] linking_cards"
proof -
  have "link_pairs linking_cards = [(1, 2), (2, 1)]"
    unfolding link_pairs_def linking_outgoing by (simp add: linking_cards_def)
  then show ?thesis by (simp add: pair_order_def)
qed

section \<open>Properties\<close>

text \<open>C25: The search for linked cards stops for every card list and gives each id once: exactly the ids
  other than the card's own that can be reached from it by following, in any number of steps, a
  reference in a card's content or a reference to a card from another card.\<close>

theorem expand_is_reachable:
  "distinct (expand_linked_cards uid all_cards) \<and>
   set (expand_linked_cards uid all_cards) =
     {(u, v). (\<exists>c. card_map all_cards u = Some c \<and> v \<in> set (extract_card_links (card_content c) u)) \<or>
              v \<in> set (extract_back_links u all_cards)}\<^sup>* `` {uid} - {uid}"
proof -
  have "v \<in> set (neighbours all_cards u) \<longleftrightarrow>
      (\<exists>c. card_map all_cards u = Some c \<and> v \<in> set (extract_card_links (card_content c) u)) \<or>
      v \<in> set (extract_back_links u all_cards)" for u v
    by (cases "card_map all_cards u") (auto simp: neighbours_def)
  then show ?thesis using expand_linked_cards_finds[of uid all_cards] by (simp add: link_edges_def)
qed

text \<open>In whatever order the counting meets the linked pairs, the counts of a card are the numbers of
  cards it alone refers to, of cards that alone refer to it, and of cards they refer to each other; in
  the recursive variant the last count is the number of reachable ids beyond those.\<close>

theorem link_counts_exact:
  assumes "pair_order order cards" "c \<in> set cards"
  shows "counts_at (compute_all_link_counts_recursive order cards) (card_id c) =
    (let u = card_id c;
         f = card {v. linked cards u v \<and> \<not> linked cards v u};
         b = card {v. linked cards v u \<and> \<not> linked cards u v};
         m = card {v. linked cards u v \<and> linked cards v u}
     in \<lparr> forward = f, backward = b, mutual = m,
          transitive = length (expand_linked_cards u cards) - (f + b + m) \<rparr>)"
proof -
  have "card ((link_edges cards)\<^sup>* `` {card_id c} - {card_id c}) = length (expand_linked_cards (card_id c) cards)"
    using expand_linked_cards_finds[of "card_id c" cards] by (metis distinct_card)
  then show ?thesis unfolding recursive_counts_at[OF assms] link_counts_at[OF assms(1)] Let_def by simp
qed

theorem link_counts_exact_witness:
  "mutual (counts_at (compute_all_link_counts_recursive [(1, 2), (2, 1)] linking_cards) 1) = 1 \<and>
   forward (counts_at (compute_all_link_counts_recursive [(1, 2), (2, 1)] linking_cards) 1) = 0"
proof -
  have "{v. linked linking_cards 1 v \<and> linked linking_cards v 1} = {2}"
    "{v. linked linking_cards 1 v \<and> \<not> linked linking_cards v 1} = {}"
    by (auto simp: linked_def linking_outgoing)
  then show ?thesis
    using link_counts_exact[OF linking_pairs, of "linking_card 1 2"] by (simp add: linking_cards_def Let_def)
qed

text \<open>In a content without carriage returns, toggling a task item changes one byte, the mark of that
  item: its check is inverted, all the others stay as they are. It fails exactly when there is no
  such item.\<close>

theorem toggle_changes_one_mark:
  assumes "CR \<notin> set content"
  shows "case toggle_task_item content index of
      None \<Rightarrow> length (task_checks (rust_lines content)) \<le> index
    | Some new \<Rightarrow> index < length (task_checks (rust_lines content)) \<and>
        (\<exists>q < length content. is_check (content ! q) \<and> new = content[q := flip (content ! q)]) \<and>
        task_checks (rust_lines new) =
          (task_checks (rust_lines content))[index := \<not> task_checks (rust_lines content) ! index]"
  by (rule toggle_task_item_byte[OF assms])

theorem toggle_changes_one_mark_witness:
  "toggle_task_item (''- [ ] tofu'' @ [LF] @ ''* [x] dog'') 1 = Some (''- [ ] tofu'' @ [LF] @ ''* [ ] dog'') \<and>
   task_checks (rust_lines (''- [ ] tofu'' @ [LF] @ ''* [ ] dog'')) = [False, False]"
proof -
  let ?c = "''- [ ] tofu'' @ [LF] @ ''* [x] dog''"
  have items: "parse_task_item ''- [ ] tofu'' = Some (2, CHR '' '')" "parse_task_item ''* [x] dog'' = Some (2, CHR ''x'')"
    using parse_task_line[of "CHR ''-''" "CHR '' ''" 0 0 "'' tofu''"] parse_task_line[of "CHR ''*''" "CHR ''x''" 0 0 "'' dog''"]
    by (simp_all add: task_line_def is_bullet_def is_check_def)
  have ls: "rust_lines ?c = [''- [ ] tofu'', ''* [x] dog'']"
    using rust_lines_join[of "[''- [ ] tofu'', ''* [x] dog'']" "[]"] by (simp add: plain_lines_def LF_def CR_def)
  have checks: "task_checks (rust_lines ?c) = [False, True]" unfolding ls by (simp add: items)
  have t: "toggle_task_item ?c 1 = Some (''- [ ] tofu'' @ [LF] @ ''* [ ] dog'')"
    unfolding toggle_task_item_def ls by (simp add: items Let_def LF_def)
  have "CR \<notin> set ?c" by (simp add: LF_def CR_def)
  then show ?thesis using toggle_changes_one_mark[of ?c 1] unfolding t checks option.case by simp
qed

end
