(* ===== verification/Keyboard.thy ===== *)
theory Keyboard
  imports Client_View Client_Burst Display_Text
begin

text \<open>
  The keyboard shortcuts of the web client (clients/wasm/src/components/keyboard.rs): \<open>handle_keydown\<close>
  with its sub-menus, over the view, the page and the moves of \<open>Client_View\<close>. The state adds what the
  handler reads and sets of the document and the app state. Tasks that the handler spawns run later:
  \<open>k_spawned\<close> lists the edits in the order their tasks were spawned, and \<open>run_edit_task\<close> is such a task.
\<close>

section \<open>Events and state\<close>

datatype SubMenu = SubDueDateFilter | SubSort | SubLinkedCards | SubTagFilterMode

text \<open>What has the focus, as far as the handler asks.\<close>

datatype focus = NoField | SearchField | TagSearchField | OtherField

record key_event =
  ev_key :: string
  ev_ctrl :: bool
  ev_alt :: bool
  ev_meta :: bool

record kb =
  k_ui :: ui
  k_focus :: focus
  k_sub_menu :: "SubMenu option"
  k_save_requested :: bool
  k_sidebar_visible :: bool
  k_detail_expanded :: bool
  k_clipboard :: string
  k_copy_toast :: "string option"
  k_history_backs :: nat
  k_spawned :: "card list"

text \<open>What the handler only reads: settings, tags, the cache of linked cards, whether a drag is armed,
  and the library functions that are arguments.\<close>

record key_env =
  ke_view :: view_env
  ke_to_lower :: "string \<Rightarrow> string"
  ke_shuffle :: "card list \<Rightarrow> card list"
  ke_render :: "string \<Rightarrow> string"
  ke_random :: "int \<Rightarrow> int"
  ke_timer :: int
  ke_tags :: "tag list"
  ke_link_cache :: "uuid \<Rightarrow> uuid list option"
  ke_drag_in_flight :: bool
  ke_shortcuts_enabled :: bool
  ke_show_due_today_button :: bool
  ke_recursive_links :: bool
  ke_search_tags :: bool
  ke_extinguish_on_due_set :: bool
  ke_extinguish_on_due_clear :: bool
  ke_clear_due_on_blaze :: bool

definition is_typing :: "kb \<Rightarrow> bool" where
  "is_typing k \<longleftrightarrow> k_focus k \<noteq> NoField"

definition is_search_focused :: "kb \<Rightarrow> bool" where
  "is_search_focused k \<longleftrightarrow> k_focus k = SearchField"

definition is_tag_search_focused :: "kb \<Rightarrow> bool" where
  "is_tag_search_focused k \<longleftrightarrow> k_focus k = TagSearchField"

definition blur_active_element :: "kb \<Rightarrow> kb" where
  "blur_active_element k = k\<lparr>k_focus := NoField\<rparr>"

definition kv :: "kb \<Rightarrow> view" where "kv k = ui_view (k_ui k)"
definition k_cards :: "kb \<Rightarrow> card list" where "k_cards k = ms_cards (ui_moves (k_ui k))"

definition set_kv :: "(view \<Rightarrow> view) \<Rightarrow> kb \<Rightarrow> kb" where
  "set_kv f k = k\<lparr>k_ui := set_view f (k_ui k)\<rparr>"

definition sync_k :: "key_env \<Rightarrow> kb \<Rightarrow> kb" where
  "sync_k env k = k\<lparr>k_ui := sync_query_params (ke_view env) (k_ui k)\<rparr>"

text \<open>A function of the store that can panic, on the state of the handler.\<close>

definition on_ui :: "(ui \<Rightarrow> (unit, 'a \<times> ui) outcome) \<Rightarrow> kb \<Rightarrow> (unit, kb) outcome" where
  "on_ui f k = map_ok (\<lambda>(_, ui). k\<lparr>k_ui := ui\<rparr>) (f (k_ui k))"

definition k_filtered :: "key_env \<Rightarrow> kb \<Rightarrow> card list" where
  "k_filtered env k =
     filtered_cards (ke_to_lower env) (ke_shuffle env) (ve_now (ke_view env)) (v_linked_card_filter (kv k))
       (v_filter (kv k)) (v_search_query (kv k)) (v_tag_filter (kv k)) (v_tag_filter_mode (kv k))
       (v_no_tags_filter (kv k)) (ke_search_tags env) (v_due_date_filter (kv k)) (v_include_overdue (kv k))
       (v_sort_order (kv k)) (ke_tags env) (k_cards k)"

section \<open>Helpers\<close>

definition reset_filters_and_sort :: "kb \<Rightarrow> kb" where
  "reset_filters_and_sort = set_kv (\<lambda>v. v\<lparr>v_filter := FilterExtinguished, v_due_date_filter := DueAll,
     v_include_overdue := False, v_tag_filter := [], v_tag_filter_mode := ModeOr, v_no_tags_filter := False,
     v_linked_card_filter := [], v_sort_order := sort_default\<rparr>)"

definition switch_to_pane :: "view_env \<Rightarrow> bool \<Rightarrow> bool \<Rightarrow> ui \<Rightarrow> (unit, bool \<times> ui) outcome" where
  "switch_to_pane env open_settings open_shortcuts ui =
     bind_outcome (set_selection env None ui) (\<lambda>(changed, ui).
       if \<not> changed then Ok (False, ui)
       else Ok (True, set_view (\<lambda>v. v\<lparr>v_has_unsaved_changes := False, v_settings_open := open_settings,
                v_shortcuts_open := open_shortcuts\<rparr>) ui))"

definition handle_escape :: "key_env \<Rightarrow> kb \<Rightarrow> (unit, kb) outcome" where
  "handle_escape env k =
     (let v = kv k in
      if v_editing v then map_ok (sync_k env) (on_ui (close_editor (ke_view env)) k)
      else if v_creating_new v then
        (if \<not> confirm_discard_changes (ke_view env) (k_ui k) then Ok k
         else Ok (sync_k env (set_kv (\<lambda>v. v\<lparr>v_has_unsaved_changes := False\<rparr>)
                (k\<lparr>k_ui := finish_creation_flow (k_ui k)\<rparr>))))
      else if v_settings_open v then Ok (set_kv (\<lambda>v. v\<lparr>v_settings_open := False\<rparr>) k)
      else if v_shortcuts_open v then Ok (set_kv (\<lambda>v. v\<lparr>v_shortcuts_open := False\<rparr>) k)
      else if v_selected_card v \<noteq> None then on_ui (set_selection (ke_view env) None) k
      else if v_search_query v \<noteq> [] then
        Ok (sync_k env (blur_active_element (set_kv (\<lambda>v. v\<lparr>v_search_query := []\<rparr>) k)))
      else if v_filter v \<noteq> FilterExtinguished \<or> v_due_date_filter v \<noteq> DueAll \<or> v_include_overdue v
              \<or> v_tag_filter v \<noteq> [] \<or> v_no_tags_filter v \<or> v_linked_card_filter v \<noteq> []
              \<or> \<not> sort_is_default (v_sort_order v) then
        Ok (sync_k env (reset_filters_and_sort k))
      else Ok k)"

definition select :: "key_env \<Rightarrow> uuid option \<Rightarrow> kb \<Rightarrow> (unit, kb) outcome" where
  "select env target k =
     (case target of Some uid \<Rightarrow> on_ui (set_selection (ke_view env) (Some uid)) k | None \<Rightarrow> Ok k)"

definition first_id :: "card list \<Rightarrow> uuid option" where
  "first_id cs = (case cs of [] \<Rightarrow> None | c # _ \<Rightarrow> Some (card_id c))"

definition last_id :: "card list \<Rightarrow> uuid option" where
  "last_id cs = (if cs = [] then None else Some (card_id (last cs)))"

definition next_id :: "card list \<Rightarrow> uuid option \<Rightarrow> uuid option" where
  "next_id filtered current =
     (case current of
        None \<Rightarrow> first_id filtered
      | Some uid \<Rightarrow>
          (case iter_position (\<lambda>c. card_id c = uid) filtered of
             Some i \<Rightarrow> if i + 1 < length filtered then Some (card_id (filtered ! (i + 1))) else Some uid
           | None \<Rightarrow> first_id filtered))"

definition prev_id :: "card list \<Rightarrow> uuid option \<Rightarrow> uuid option" where
  "prev_id filtered current =
     (case current of
        None \<Rightarrow> last_id filtered
      | Some uid \<Rightarrow>
          (case iter_position (\<lambda>c. card_id c = uid) filtered of
             Some i \<Rightarrow> if i = 0 then Some uid else Some (card_id (filtered ! (i - 1)))
           | None \<Rightarrow> last_id filtered))"

definition select_next_card :: "key_env \<Rightarrow> kb \<Rightarrow> (unit, kb) outcome" where
  "select_next_card env k =
     (let filtered = k_filtered env k
      in if filtered = [] then Ok k else select env (next_id filtered (v_selected_card (kv k))) k)"

definition select_prev_card :: "key_env \<Rightarrow> kb \<Rightarrow> (unit, kb) outcome" where
  "select_prev_card env k =
     (let filtered = k_filtered env k
      in if filtered = [] then Ok k else select env (prev_id filtered (v_selected_card (kv k))) k)"

definition selected_card :: "kb \<Rightarrow> card option" where
  "selected_card k =
     (case v_selected_card (kv k) of
        Some uid \<Rightarrow> find (\<lambda>c. card_id c = uid) (k_cards k) | None \<Rightarrow> None)"

section \<open>Edits\<close>

text \<open>A new version in the local list, and a task that flushes the pending moves and then pushes it.\<close>

definition spawn_edit :: "card \<Rightarrow> kb \<Rightarrow> kb" where
  "spawn_edit v k =
     k\<lparr>k_ui := (k_ui k)\<lparr>ui_moves := (ui_moves (k_ui k))\<lparr>ms_cards := upsert_card v (k_cards k)\<rparr>\<rparr>,
       k_spawned := k_spawned k @ [v]\<rparr>"

definition run_edit_task ::
  "('w, 'm, 'n) client_env \<Rightarrow> (priority_burst \<Rightarrow> uuid list) \<Rightarrow> card \<Rightarrow> move_state \<times> 'w session
   \<Rightarrow> (unit, move_state \<times> 'w session) outcome" where
  "run_edit_task env keys_of v st =
     bind_outcome (flush_now env keys_of st) (\<lambda>(moves, st). map_ok (Pair moves) (push_card_or_queue env v st))"

definition toggle_blaze :: "key_env \<Rightarrow> kb \<Rightarrow> (unit, kb) outcome" where
  "toggle_blaze env k =
     (case selected_card k of
        None \<Rightarrow> Ok k
      | Some c \<Rightarrow>
          let new_blazed = (\<not> card_blazed c);
              new_due = due_after_blaze_change (ke_clear_due_on_blaze env) (card_due_date c) (card_blazed c) new_blazed
          in map_ok (\<lambda>v. spawn_edit v k)
               (card_next (ve_hash (ke_view env)) c (card_content c) (card_priority c) (card_tags c) new_blazed
                  (ve_now (ke_view env)) new_due))"

datatype DueDateShortcut = DueToday_key | DueTomorrow_key | DueClear_key

definition noon_utc :: "int \<Rightarrow> datetime" where
  "noon_utc date = midnight_utc date + 43200000"

fun shortcut_due :: "datetime \<Rightarrow> DueDateShortcut \<Rightarrow> datetime option" where
  "shortcut_due now DueToday_key = Some (noon_utc (date_naive now))"
| "shortcut_due now DueTomorrow_key = Some (noon_utc (date_naive now + 1))"
| "shortcut_due now DueClear_key = None"

definition set_due_date_shortcut :: "key_env \<Rightarrow> DueDateShortcut \<Rightarrow> kb \<Rightarrow> (unit, kb) outcome" where
  "set_due_date_shortcut env shortcut k =
     (case selected_card k of
        None \<Rightarrow> Ok k
      | Some c \<Rightarrow>
          let new_due = shortcut_due (ve_now (ke_view env)) shortcut;
              new_blazed = blazed_after_due_change (ke_extinguish_on_due_set env) (ke_extinguish_on_due_clear env)
                (card_blazed c) new_due
          in map_ok (\<lambda>v. spawn_edit v k)
               (card_next (ve_hash (ke_view env)) c (card_content c) (card_priority c) (card_tags c) new_blazed
                  (ve_now (ke_view env)) new_due))"

text \<open>\<open>step\<close> gives the new index of the card at an index of the filtered list, if it can move there.\<close>

definition move_selected :: "key_env \<Rightarrow> (nat \<Rightarrow> nat \<Rightarrow> nat option) \<Rightarrow> kb \<Rightarrow> (unit, kb) outcome" where
  "move_selected env step k =
     (if ke_drag_in_flight env then Ok k
      else case selected_card k of
        None \<Rightarrow> Ok k
      | Some c \<Rightarrow>
          let filtered = k_filtered env k
          in case iter_position (\<lambda>d. card_id d = card_id c) filtered of
               None \<Rightarrow> Ok k
             | Some idx \<Rightarrow>
                 (case step (length filtered) idx of
                    None \<Rightarrow> Ok k
                  | Some i \<Rightarrow>
                      map_ok (\<lambda>m. k\<lparr>k_ui := (k_ui k)\<lparr>ui_moves := m\<rparr>\<rparr>)
                        (apply_move_placement (ve_hash (ke_view env)) (ve_now (ke_view env)) (ve_keys_of (ke_view env))
                           (ke_timer env) (move_card (ke_random env) filtered (card_id c) (At i)) c filtered
                           (ui_moves (k_ui k)))))"

definition up_step :: "nat \<Rightarrow> nat \<Rightarrow> nat option" where
  "up_step len idx = (if idx = 0 then None else Some (idx - 1))"

definition down_step :: "nat \<Rightarrow> nat \<Rightarrow> nat option" where
  "down_step len idx = (if idx \<ge> len - 1 then None else Some (idx + 1))"

definition move_card_up :: "key_env \<Rightarrow> kb \<Rightarrow> (unit, kb) outcome" where
  "move_card_up env = move_selected env up_step"

definition move_card_down :: "key_env \<Rightarrow> kb \<Rightarrow> (unit, kb) outcome" where
  "move_card_down env = move_selected env down_step"

section \<open>Sub-menus\<close>

definition handle_due_date_filter_submenu :: "string \<Rightarrow> key_env \<Rightarrow> kb \<Rightarrow> bool \<times> kb" where
  "handle_due_date_filter_submenu key env k =
     (let set = (\<lambda>f. (True, sync_k env (set_kv (\<lambda>v. v\<lparr>v_due_date_filter := f\<rparr>) k))) in
      if key = ''a'' then set DueAll
      else if key = ''o'' then set DueOverdue
      else if key = ''t'' then set DueToday
      else if key = ''u'' then set DueTodayAndUpcoming
      else if key = ''m'' then set DueUpcomingTomorrow
      else if key = ''T'' then set DueTodayAndTomorrow
      else if key = ''w'' then set DueUpcomingWeek
      else if key = ''2'' then set DueUpcomingTwoWeeks
      else if key = ''i'' then
        (True, sync_k env (set_kv (\<lambda>v. v\<lparr>v_include_overdue := \<not> v_include_overdue v\<rparr>) k))
      else if key = ''n'' then
        (if \<not> ke_show_due_today_button env then (False, k)
         else (True, k\<lparr>k_ui := apply_today_quick_filter (ke_view env) (k_ui k)\<rparr>))
      else (False, k))"

definition handle_tag_filter_mode_submenu :: "string \<Rightarrow> key_env \<Rightarrow> kb \<Rightarrow> bool \<times> kb" where
  "handle_tag_filter_mode_submenu key env k =
     (let set = (\<lambda>mode. (True, sync_k env (set_kv (\<lambda>v. v\<lparr>v_tag_filter_mode := mode,
            v_no_tags_filter := (if \<not> allows_no_tags mode then False else v_no_tags_filter v)\<rparr>) k))) in
      if key = ''o'' then set ModeOr
      else if key = ''a'' then set ModeAnd
      else if key = ''n'' then set ModeNor
      else if key = ''N'' then set ModeNand
      else (False, k))"

definition handle_sort_submenu :: "string \<Rightarrow> key_env \<Rightarrow> kb \<Rightarrow> bool \<times> kb" where
  "handle_sort_submenu key env k =
     (let set = (\<lambda>order. (True, sync_k env (set_kv (\<lambda>v. v\<lparr>v_sort_order := order\<rparr>) k))) in
      if key = ''p'' then set SortPriority
      else if key = ''P'' then set SortPriorityReverse
      else if key = ''m'' then set SortModifiedAt
      else if key = ''M'' then set SortModifiedAtReverse
      else if key = ''c'' then set SortCreatedAt
      else if key = ''C'' then set SortCreatedAtReverse
      else if key = ''t'' then set SortTitle
      else if key = ''T'' then set SortTitleReverse
      else if key = ''d'' then set SortDueDate
      else if key = ''D'' then set SortDueDateReverse
      else (False, k))"

text \<open>The ids of the linked-cards filter for a key, if it is one of the filters.\<close>

definition linked_ids :: "string \<Rightarrow> key_env \<Rightarrow> card list \<Rightarrow> card \<Rightarrow> uuid list option" where
  "linked_ids key env all_cards c =
     (let uid = card_id c;
          forward_ids = extract_card_links (card_content c) uid;
          back_ids = extract_back_links uid all_cards;
          direct = forward_ids @ filter (\<lambda>u. u \<notin> set forward_ids) back_ids in
      if key = ''a'' then
        (let expanded = (case ke_link_cache env uid of
               Some ids \<Rightarrow> ids | None \<Rightarrow> expand_linked_cards uid all_cards)
         in Some (uid # direct @
              (if ke_recursive_links env then filter (\<lambda>u. u \<notin> set direct) expanded else [])))
      else if key = ''f'' then Some (uid # forward_ids)
      else if key = ''b'' then Some (uid # back_ids)
      else if key = ''d'' then
        Some (uid # foldl (\<lambda>ids u. if u \<in> set ids then ids else ids @ [u]) forward_ids back_ids)
      else None)"

definition handle_linked_cards_submenu :: "string \<Rightarrow> key_env \<Rightarrow> kb \<Rightarrow> bool \<times> kb" where
  "handle_linked_cards_submenu key env k =
     (case selected_card k of
        None \<Rightarrow> (False, k)
      | Some c \<Rightarrow>
          (case linked_ids key env (k_cards k) c of
             Some ids \<Rightarrow> (True, k\<lparr>k_ui := show_linked_cards (ke_view env) ids (k_ui k)\<rparr>)
           | None \<Rightarrow>
               if key = ''c'' then (True, sync_k env (set_kv (\<lambda>v. v\<lparr>v_linked_card_filter := []\<rparr>) k))
               else (False, k)))"

fun handle_submenu :: "SubMenu \<Rightarrow> string \<Rightarrow> key_env \<Rightarrow> kb \<Rightarrow> bool \<times> kb" where
  "handle_submenu SubDueDateFilter key env k = handle_due_date_filter_submenu key env k"
| "handle_submenu SubSort key env k = handle_sort_submenu key env k"
| "handle_submenu SubLinkedCards key env k = handle_linked_cards_submenu key env k"
| "handle_submenu SubTagFilterMode key env k = handle_tag_filter_mode_submenu key env k"

section \<open>The pop-up\<close>

text \<open>The title of a sub-menu and its rows of keys and labels; a dash in a label is the three bytes of
  the long dash.\<close>

definition DASH :: string where "DASH = '' '' @ [CHR 0xE2, CHR 0x80, CHR 0x94] @ '' ''"

fun sub_menu_items :: "SubMenu \<Rightarrow> key_env \<Rightarrow> string \<times> (string \<times> string) list" where
  "sub_menu_items SubDueDateFilter env =
     (''Due date filter'',
      [(''a'', ''All''), (''o'', ''Overdue''), (''t'', ''Today''), (''u'', ''Today & upcoming''),
       (''m'', ''Tomorrow''), (''T'', ''Today & tomorrow''), (''w'', ''Next 7 days''), (''2'', ''Next 14 days''),
       (''i'', ''Toggle include overdue'')] @
      (if ke_show_due_today_button env then [(''n'', ''Today (clear & overdue)'')] else []))"
| "sub_menu_items SubLinkedCards env =
     (''Linked card filter'',
      [(''a'', ''All linked''), (''f'', ''Forward links only''), (''b'', ''Back links only''),
       (''d'', ''Direct (forward + back)''), (''c'', ''Clear filter'')])"
| "sub_menu_items SubTagFilterMode env =
     (''Tag filter mode'',
      [(''o'', ''OR'' @ DASH @ ''any selected tag''), (''a'', ''AND'' @ DASH @ ''all selected tags''),
       (''n'', ''NOR'' @ DASH @ ''exclude any selected tag''),
       (''N'', ''NAND'' @ DASH @ ''exclude all selected tags'')])"
| "sub_menu_items SubSort env =
     (''Sort order'',
      [(''p'', ''Priority''), (''P'', ''Priority (reverse)''), (''m'', ''Last modified''),
       (''M'', ''Last modified (reverse)''), (''c'', ''Created''), (''C'', ''Created (reverse)''),
       (''t'', ''Title (A-Z)''), (''T'', ''Title (Z-A)''), (''d'', ''Due date''), (''D'', ''Due date (reverse)'')])"

section \<open>The handler\<close>

definition copy_selected :: "key_env \<Rightarrow> kb \<Rightarrow> kb" where
  "copy_selected env k =
     (case v_selected_card (kv k) of
        None \<Rightarrow> k
      | Some uid \<Rightarrow>
          let id_str = uuid_to_string uid;
              id_preview = take 8 id_str;
              preview = (case find (\<lambda>c. card_id c = uid) (k_cards k) of
                 Some c \<Rightarrow> card_preview (ke_render env) (card_content c) 30 | None \<Rightarrow> None);
              msg = (case preview of
                 Some p \<Rightarrow> ''Copied '' @ id_preview @ ELLIPSIS @ '' '' @ [CHR 0xE2, CHR 0x80, CHR 0x94] @ '' '' @ p
               | None \<Rightarrow> ''Copied '' @ id_preview @ ELLIPSIS)
          in k\<lparr>k_clipboard := id_str, k_copy_toast := Some msg\<rparr>)"

definition new_card_beside :: "key_env \<Rightarrow> (uuid \<Rightarrow> NewCardPosition) \<Rightarrow> kb \<Rightarrow> (unit, kb) outcome" where
  "new_card_beside env position k =
     (case v_selected_card (kv k) of
        Some uid \<Rightarrow> on_ui (start_new_card (ke_view env) (position uid)) k | None \<Rightarrow> Ok k)"

definition toggle_no_tags :: "kb \<Rightarrow> kb" where
  "toggle_no_tags = set_kv (\<lambda>v.
     if \<not> v_no_tags_filter v then v\<lparr>v_no_tags_filter := True, v_tag_filter := [], v_tag_filter_mode := ModeOr\<rparr>
     else v\<lparr>v_no_tags_filter := False\<rparr>)"

text \<open>The shortcuts proper, a key per row: \<open>None\<close> is a key that is left to the browser.\<close>

definition shortcut :: "string \<Rightarrow> key_env \<Rightarrow> kb \<Rightarrow> (unit, kb) outcome option" where
  "shortcut key env k =
     (if key = ''j'' then Some (select_next_card env k)
      else if key = ''k'' then Some (select_prev_card env k)
      else if key = ''g'' then Some (select env (first_id (k_filtered env k)) k)
      else if key = ''G'' then Some (select env (last_id (k_filtered env k)) k)
      else if key = ''n'' then Some (on_ui (start_new_card (ke_view env) NewBottom) k)
      else if key = ''N'' then Some (on_ui (start_new_card (ke_view env) NewTop) k)
      else if key = ''o'' then Some (new_card_beside env NewBelow k)
      else if key = ''O'' then Some (new_card_beside env NewAbove k)
      else if key = ''Y'' then Some (on_ui (start_new_tag (ke_view env)) k)
      else if key = ''e'' then
        (if v_selected_card (kv k) \<noteq> None
         then Some (map_ok (\<lambda>ui. k\<lparr>k_ui := ui\<rparr>) (open_editor (ke_view env) (k_ui k))) else None)
      else if key = ''B'' then Some (toggle_blaze env k)
      else if key = ''y'' then Some (Ok (copy_selected env k))
      else if key = ''a'' then Some (Ok (sync_k env (set_kv (\<lambda>v. v\<lparr>v_filter := FilterExtinguished\<rparr>) k)))
      else if key = ''A'' then Some (Ok (sync_k env (set_kv (\<lambda>v. v\<lparr>v_filter := FilterAll\<rparr>) k)))
      else if key = ''b'' then Some (Ok (sync_k env (set_kv (\<lambda>v. v\<lparr>v_filter := FilterBlazed\<rparr>) k)))
      else if key = ''d'' then Some (Ok (k\<lparr>k_sub_menu := Some SubDueDateFilter\<rparr>))
      else if key = ''s'' then Some (Ok (k\<lparr>k_sub_menu := Some SubSort\<rparr>))
      else if key = ''/'' \<or> key = ''f'' then Some (Ok (k\<lparr>k_focus := SearchField\<rparr>))
      else if key = ''F'' then Some (Ok (k\<lparr>k_focus := TagSearchField\<rparr>))
      else if key = ''K'' then Some (move_card_up env k)
      else if key = ''J'' then Some (move_card_down env k)
      else if key = ''t'' then Some (set_due_date_shortcut env DueToday_key k)
      else if key = ''T'' then Some (set_due_date_shortcut env DueTomorrow_key k)
      else if key = ''C'' then Some (set_due_date_shortcut env DueClear_key k)
      else if key = ''m'' then Some (Ok (k\<lparr>k_detail_expanded := False\<rparr>))
      else if key = ''M'' then Some (Ok (k\<lparr>k_detail_expanded := True\<rparr>))
      else if key = ''v'' then Some (Ok (k\<lparr>k_sub_menu := Some SubTagFilterMode\<rparr>))
      else if key = ''V'' then Some (Ok (sync_k env (toggle_no_tags k)))
      else if key = ''i'' then
        Some (Ok (sync_k env (set_kv (\<lambda>v. v\<lparr>v_include_overdue := \<not> v_include_overdue v\<rparr>) k)))
      else if key = ''l'' then
        Some (Ok (if v_selected_card (kv k) \<noteq> None then k\<lparr>k_sub_menu := Some SubLinkedCards\<rparr> else k))
      else if key = ''h'' then Some (Ok (k\<lparr>k_history_backs := k_history_backs k + 1\<rparr>))
      else if key = ''x'' then Some (Ok (k\<lparr>k_sidebar_visible := \<not> k_sidebar_visible k\<rparr>))
      else if key = ''r'' then
        Some (Ok (sync_k env (set_kv (\<lambda>v. v\<lparr>v_search_query := []\<rparr>) (reset_filters_and_sort k))))
      else None)"

text \<open>\<open>?\<close> and \<open>,\<close>.\<close>

definition toggle_pane :: "key_env \<Rightarrow> bool \<Rightarrow> kb \<Rightarrow> (unit, kb) outcome" where
  "toggle_pane env settings k =
     (if settings then
        if v_settings_open (kv k) then Ok (set_kv (\<lambda>v. v\<lparr>v_settings_open := False\<rparr>) k)
        else on_ui (switch_to_pane (ke_view env) True False) k
      else
        if v_shortcuts_open (kv k) then Ok (set_kv (\<lambda>v. v\<lparr>v_shortcuts_open := False\<rparr>) k)
        else on_ui (switch_to_pane (ke_view env) False True) k)"

definition modifier_key :: "string \<Rightarrow> bool" where
  "modifier_key key \<longleftrightarrow> key \<in> set [''Shift'', ''Control'', ''Alt'', ''Meta'', ''CapsLock'']"

text \<open>The result tells whether the browser's own action is prevented.\<close>

definition prevented :: "(unit, kb) outcome \<Rightarrow> (unit, bool \<times> kb) outcome" where
  "prevented m = map_ok (Pair True) m"

definition handle_keydown :: "key_env \<Rightarrow> key_event \<Rightarrow> kb \<Rightarrow> (unit, bool \<times> kb) outcome" where
  "handle_keydown env ev k =
     (let key = ev_key ev; editor_open = (v_editing (kv k) \<or> v_creating_new (kv k)) in
      if key = ''Escape'' then
        (if is_search_focused k \<or> is_tag_search_focused k then Ok (True, blur_active_element k)
         else if k_sub_menu k \<noteq> None then Ok (True, k\<lparr>k_sub_menu := None\<rparr>)
         else prevented (handle_escape env k))
      else if (ev_ctrl ev \<or> ev_meta ev) \<and> (key = ''s'' \<or> key = ''S'') then
        (if ke_shortcuts_enabled env \<and> editor_open then Ok (True, k\<lparr>k_save_requested := True\<rparr>) else Ok (False, k))
      else case k_sub_menu k of
        Some menu \<Rightarrow>
          if key = ''q'' then Ok (True, k\<lparr>k_sub_menu := None\<rparr>)
          else if modifier_key key then Ok (False, k)
          else (case handle_submenu menu key env k of
                  (True, k) \<Rightarrow> Ok (True, k\<lparr>k_sub_menu := None\<rparr>)
                | (False, k) \<Rightarrow> Ok (False, k))
      | None \<Rightarrow>
          if key = ''Enter'' \<and> is_search_focused k then
            prevented (let k = blur_active_element k in select env (first_id (k_filtered env k)) k)
          else if key = ''Enter'' \<and> is_tag_search_focused k then Ok (True, blur_active_element k)
          else if is_typing k then Ok (False, k)
          else if ev_ctrl ev \<or> ev_alt ev \<or> ev_meta ev then Ok (False, k)
          else if key = ''?'' then prevented (toggle_pane env False k)
          else if key = '','' then prevented (toggle_pane env True k)
          else if \<not> ke_shortcuts_enabled env then Ok (False, k)
          else if editor_open then Ok (False, k)
          else case shortcut key env k of
            Some m \<Rightarrow> prevented m
          | None \<Rightarrow> Ok (False, k))"

end
