(* ===== verification/Keyboard_Facts.thy ===== *)
theory Keyboard_Facts
  imports Keyboard View_Facts
begin

text \<open>
  What a key can do: to the panes and editors, to unsaved changes, and to the cards.
\<close>

section \<open>Open editors\<close>

text \<open>What is selected and open, and whether it has unsaved changes.\<close>

definition same_open :: "view \<Rightarrow> view \<Rightarrow> bool" where
  "same_open v v' \<longleftrightarrow>
     v_selected_card v' = v_selected_card v \<and> v_editing v' = v_editing v \<and>
     v_creating_new v' = v_creating_new v \<and> v_creating_new_tag v' = v_creating_new_tag v \<and>
     v_has_unsaved_changes v' = v_has_unsaved_changes v"

text \<open>A key leaves all that, or changes it with nothing to lose or the user's consent, or opens the
  editor of the selected entity.\<close>

definition key_change :: "bool \<Rightarrow> view \<Rightarrow> view \<Rightarrow> bool" where
  "key_change consent v v' \<longleftrightarrow>
     same_open v v' \<or>
     (v_has_unsaved_changes v \<longrightarrow> consent) \<and> (panes_ok v \<longrightarrow> panes_ok v') \<or>
     v_selected_card v \<noteq> None \<and> \<not> v_editing v \<and> \<not> v_creating_new v \<and> v' = v\<lparr>v_editing := True\<rparr>"

lemma same_open_panes: "same_open v v' \<Longrightarrow> panes_ok v \<Longrightarrow> panes_ok v'"
  by (simp add: same_open_def panes_ok_def)

lemma key_change_panes: "key_change consent v v' \<Longrightarrow> panes_ok v \<Longrightarrow> panes_ok v'"
  using same_open_panes by (auto simp: key_change_def panes_ok_def)

lemma key_change_same [intro]: "same_open v v' \<Longrightarrow> key_change consent v v'"
  by (simp add: key_change_def)

lemma same_open_self [simp]: "same_open v v"
  by (simp add: same_open_def)

lemma guarded_change:
  assumes "guarded env rest ui = Ok (b, ui')"
    and "\<And>ui1. ui_view ui1 = ui_view ui \<Longrightarrow> panes_ok (ui_view ui) \<Longrightarrow> panes_ok (ui_view (rest ui1))"
  shows "key_change (ve_confirm env) (ui_view ui) (ui_view ui')"
  using assms(1) by (cases rule: guarded_cases) (use assms(2) in \<open>auto simp: key_change_def\<close>)

lemma set_selection_change:
  "set_selection env target ui = Ok (b, ui') \<Longrightarrow> key_change (ve_confirm env) (ui_view ui) (ui_view ui')"
  unfolding set_selection_def by (erule guarded_change) (simp add: panes_ok_def)

lemma start_new_card_change:
  "start_new_card env position ui = Ok (b, ui') \<Longrightarrow> key_change (ve_confirm env) (ui_view ui) (ui_view ui')"
  unfolding start_new_card_def by (erule guarded_change) (simp add: panes_ok_def)

lemma start_new_tag_change:
  "start_new_tag env ui = Ok (b, ui') \<Longrightarrow> key_change (ve_confirm env) (ui_view ui) (ui_view ui')"
  unfolding start_new_tag_def by (erule guarded_change) (simp add: panes_ok_def)

lemma close_editor_change:
  "close_editor env ui = Ok (b, ui') \<Longrightarrow> key_change (ve_confirm env) (ui_view ui) (ui_view ui')"
  unfolding close_editor_def by (erule guarded_change) (simp add: panes_ok_def)

lemma switch_to_pane_change:
  assumes "switch_to_pane env a b ui = Ok (c, ui')"
  shows "key_change (ve_confirm env) (ui_view ui) (ui_view ui')"
proof -
  obtain changed ui1 where sel: "set_selection env None ui = Ok (changed, ui1)"
    and rest: "if \<not> changed then ui' = ui1 else ui' = set_view (\<lambda>v. v\<lparr>v_has_unsaved_changes := False,
        v_settings_open := a, v_shortcuts_open := b\<rparr>) ui1"
    using assms by (auto simp: switch_to_pane_def bind_outcome_Ok split: if_splits)
  show ?thesis
  proof (cases changed)
    case False
    then show ?thesis using rest set_selection_change[OF sel] by simp
  next
    case True
    from sel[unfolded set_selection_def] show ?thesis
    proof (cases rule: guarded_cases)
      case (went_on had ui2)
      then show ?thesis using rest True by (simp add: key_change_def panes_ok_def)
    qed (use True in simp)
  qed
qed

lemma open_editor_change:
  assumes "open_editor env ui = Ok ui'" "\<not> v_editing (ui_view ui)" "\<not> v_creating_new (ui_view ui)"
  shows "key_change consent (ui_view ui) (ui_view ui')"
proof (cases "v_selected_card (ui_view ui)")
  case None
  then show ?thesis using assms(1) by (auto simp: open_editor_def)
next
  case (Some uid)
  with assms(1) obtain had ui1 where "flush_pending_priority env ui = Ok (had, ui1)"
    "ui' = set_view (\<lambda>v. v\<lparr>v_editing := True\<rparr>) ui1"
    by (auto simp: open_editor_def map_ok_Ok)
  then show ?thesis using Some assms(2,3) flush_pending_view by (simp add: key_change_def)
qed

section \<open>The state of the handler\<close>

lemma kv_simps [simp]:
  "kv (set_kv f k) = f (kv k)" "kv (sync_k env k) = kv k" "kv (blur_active_element k) = kv k"
  "kv (k\<lparr>k_sub_menu := m\<rparr>) = kv k" "kv (k\<lparr>k_save_requested := b\<rparr>) = kv k"
  "kv (k\<lparr>k_focus := f'\<rparr>) = kv k" "kv (k\<lparr>k_detail_expanded := b\<rparr>) = kv k"
  "kv (k\<lparr>k_sidebar_visible := b\<rparr>) = kv k" "kv (k\<lparr>k_history_backs := n\<rparr>) = kv k"
  "kv (k\<lparr>k_clipboard := s, k_copy_toast := t\<rparr>) = kv k" "kv (k\<lparr>k_ui := ui\<rparr>) = ui_view ui"
  by (simp_all add: kv_def set_kv_def sync_k_def blur_active_element_def)

lemma kv_fold [simp]: "ui_view (k_ui k) = kv k"
  by (simp add: kv_def)

lemma on_ui_Ok: "on_ui f k = Ok k' \<longleftrightarrow> (\<exists>b ui. f (k_ui k) = Ok (b, ui) \<and> k' = k\<lparr>k_ui := ui\<rparr>)"
  by (auto simp: on_ui_def map_ok_Ok)

lemma on_ui_change:
  assumes "on_ui f k = Ok k'"
    and "\<And>b ui. f (k_ui k) = Ok (b, ui) \<Longrightarrow> key_change consent (ui_view (k_ui k)) (ui_view ui)"
  shows "key_change consent (kv k) (kv k')"
  using assms by (auto simp: on_ui_Ok)

abbreviation consents :: "key_env \<Rightarrow> bool" where "consents env \<equiv> ve_confirm (ke_view env)"

lemma select_change: "select env target k = Ok k' \<Longrightarrow> key_change (consents env) (kv k) (kv k')"
  by (auto simp: select_def intro: on_ui_change set_selection_change split: option.splits)

lemma spawn_edit_kv [simp]: "kv (spawn_edit v k) = kv k"
  by (simp add: spawn_edit_def kv_def del: kv_fold)

lemma toggle_blaze_kv: "toggle_blaze env k = Ok k' \<Longrightarrow> kv k' = kv k"
  by (auto simp: toggle_blaze_def Let_def map_ok_Ok split: option.splits)

lemma set_due_date_kv: "set_due_date_shortcut env s k = Ok k' \<Longrightarrow> kv k' = kv k"
  by (auto simp: set_due_date_shortcut_def Let_def map_ok_Ok split: option.splits)

lemma move_selected_kv: "move_selected env step k = Ok k' \<Longrightarrow> kv k' = kv k"
  by (auto simp: move_selected_def Let_def map_ok_Ok kv_def simp del: kv_fold split: option.splits if_splits)

lemma finish_change:
  "(v_has_unsaved_changes (ui_view ui) \<longrightarrow> consent) \<Longrightarrow>
   key_change consent (ui_view ui) ((ui_view (finish_creation_flow ui))\<lparr>v_has_unsaved_changes := False\<rparr>)"
  by (simp add: key_change_def panes_ok_def finish_creation_flow_def)

lemma handle_escape_change:
  "handle_escape env k = Ok k' \<Longrightarrow> key_change (consents env) (kv k) (kv k')"
  unfolding handle_escape_def Let_def
  by (auto simp: map_ok_Ok reset_filters_and_sort_def same_open_def confirm_discard_changes_def
      split: if_splits intro: on_ui_change[OF _ close_editor_change] on_ui_change[OF _ set_selection_change]
      intro!: finish_change[of "k_ui k", unfolded kv_fold])

lemma handle_submenu_change:
  "handle_submenu menu key env k = (b, k') \<Longrightarrow> same_open (kv k) (kv k')"
proof (induction menu key env k rule: handle_submenu.induct)
  case (1 key env k)
  then show ?case
    by (auto simp: handle_due_date_filter_submenu_def Let_def same_open_def apply_today_quick_filter_def
        split: if_splits)
next
  case (2 key env k)
  then show ?case by (auto simp: handle_sort_submenu_def Let_def same_open_def split: if_splits)
next
  case (3 key env k)
  then show ?case
    by (auto simp: handle_linked_cards_submenu_def same_open_def show_linked_cards_def
        split: option.splits if_splits)
next
  case (4 key env k)
  then show ?case by (auto simp: handle_tag_filter_mode_submenu_def Let_def same_open_def split: if_splits)
qed

lemma toggle_pane_change:
  "toggle_pane env settings k = Ok k' \<Longrightarrow> key_change (consents env) (kv k) (kv k')"
  by (auto simp: toggle_pane_def same_open_def split: if_splits intro: on_ui_change[OF _ switch_to_pane_change])

lemma if_Some_elim:
  assumes "(if b then Some x else y) = Some z" "b \<Longrightarrow> x = z \<Longrightarrow> P" "y = Some z \<Longrightarrow> P"
  shows P
  using assms by (cases b) simp_all

lemma if_elim:
  assumes "(if b then (if c then Some x else None) else y) = Some z"
    "b \<Longrightarrow> (if c then Some x else None) = Some z \<Longrightarrow> P" "y = Some z \<Longrightarrow> P"
  shows P
  using assms by (cases b) simp_all

lemma same_open_view: "v' = v \<Longrightarrow> same_open v v'"
  by simp

lemma shortcut_change:
  assumes "shortcut key env k = Some (Ok k')" "\<not> v_editing (kv k)" "\<not> v_creating_new (kv k)"
  shows "key_change (consents env) (kv k) (kv k')"
proof -
  have e: "(if v_selected_card (kv k) \<noteq> None
       then Some (map_ok (\<lambda>ui. k\<lparr>k_ui := ui\<rparr>) (open_editor (ke_view env) (k_ui k))) else None) = Some (Ok k')
     \<Longrightarrow> key_change (consents env) (kv k) (kv k')"
    using open_editor_change[of "ke_view env" "k_ui k" _ "consents env"] assms(2,3) by (auto simp: map_ok_Ok split: if_splits)
  have same: "Ok k1 = Ok k' \<Longrightarrow> same_open (kv k) (kv k1) \<Longrightarrow> key_change (consents env) (kv k) (kv k')" for k1
    by auto
  note changes = select_change on_ui_change[OF _ start_new_card_change] on_ui_change[OF _ start_new_tag_change] e
    key_change_same[OF same_open_view[OF toggle_blaze_kv]] key_change_same[OF same_open_view[OF set_due_date_kv]]
    key_change_same[OF same_open_view[OF move_selected_kv]]
  show ?thesis
    using assms(1) unfolding shortcut_def
    by (elim if_Some_elim if_elim)
      (auto simp: select_next_card_def select_prev_card_def Let_def new_card_beside_def move_card_up_def move_card_down_def
        copy_selected_def toggle_no_tags_def reset_filters_and_sort_def same_open_def
        split: if_splits option.splits intro: changes)
qed

text \<open>The keys that reach the shortcuts: no field has the focus, no sub-menu and no editor is open.\<close>

definition shortcut_live :: "key_env \<Rightarrow> key_event \<Rightarrow> kb \<Rightarrow> bool" where
  "shortcut_live env ev k \<longleftrightarrow>
     k_sub_menu k = None \<and> \<not> is_typing k \<and> \<not> (ev_ctrl ev \<or> ev_alt ev \<or> ev_meta ev) \<and>
     ke_shortcuts_enabled env \<and> \<not> v_editing (kv k) \<and> \<not> v_creating_new (kv k)"

text \<open>The branches of the handler.\<close>

lemma keydown_cases:
  assumes "handle_keydown env ev k = Ok (p, k')"
  obtains (quiet) "same_open (kv k) (kv k')" "k_spawned k' = k_spawned k" "k_cards k' = k_cards k"
  | (escape) "handle_escape env k = Ok k'"
  | (menu) menu key b k1 where "handle_submenu menu key env k = (b, k1)" "k' = k1 \<or> k' = k1\<lparr>k_sub_menu := None\<rparr>"
  | (enter) target where "select env target (blur_active_element k) = Ok k'"
  | (pane) settings where "toggle_pane env settings k = Ok k'"
  | (key) "shortcut (ev_key ev) env k = Some (Ok k')" "shortcut_live env ev k"
proof -
  have cards: "k_cards (blur_active_element k) = k_cards k" "k_cards (k\<lparr>k_sub_menu := m\<rparr>) = k_cards k"
    "k_cards (k\<lparr>k_save_requested := b\<rparr>) = k_cards k" "k_spawned (blur_active_element k) = k_spawned k" for m b
    by (simp_all add: k_cards_def blur_active_element_def)
  have same: "same_open (kv k) (kv k)" by simp
  show thesis
  proof (cases "k_sub_menu k")
    case None
    then show thesis using assms unfolding handle_keydown_def Let_def
      by (auto simp: prevented_def map_ok_Ok cards shortcut_live_def split: if_splits option.splits
          intro: quiet escape enter pane key)
  next
    case (Some menu)
    obtain b k1 where m: "handle_submenu menu (ev_key ev) env k = (b, k1)" by fastforce
    then show thesis using assms Some unfolding handle_keydown_def Let_def
      by (auto simp: prevented_def map_ok_Ok cards split: if_splits bool.splits intro: quiet escape menu)
  qed
qed

lemma keydown_change:
  assumes "handle_keydown env ev k = Ok (p, k')"
  shows "key_change (consents env) (kv k) (kv k')"
  using assms
proof (cases rule: keydown_cases)
  case (menu menu key b k1)
  then show ?thesis using handle_submenu_change[OF menu(1)] by auto
next
  case (enter target)
  then show ?thesis using select_change[OF enter] by simp
next
  case key
  then show ?thesis using shortcut_change by (simp add: shortcut_live_def)
qed (auto intro: handle_escape_change toggle_pane_change)

section \<open>Edits\<close>

text \<open>The edit a key makes, if any: the next version of the selected card, differing in whether it
  blazes and when it is due only.\<close>

definition key_edit :: "key_env \<Rightarrow> kb \<Rightarrow> kb \<Rightarrow> card \<Rightarrow> bool" where
  "key_edit env k k' v \<longleftrightarrow>
     (\<exists>c blazed due. selected_card k = Some c \<and>
        (card_next (ve_hash (ke_view env)) c (card_content c) (card_priority c) (card_tags c) blazed
           (ve_now (ke_view env)) due :: (unit, card) outcome) = Ok v) \<and>
     k_spawned k' = k_spawned k @ [v] \<and> k_cards k' = upsert_card v (k_cards k)"

lemma spawned_simps [simp]:
  "k_spawned (set_kv f k) = k_spawned k" "k_spawned (sync_k env k) = k_spawned k"
  "k_spawned (blur_active_element k) = k_spawned k" "k_spawned (copy_selected env k) = k_spawned k"
  "k_spawned (reset_filters_and_sort k) = k_spawned k" "k_spawned (toggle_no_tags k) = k_spawned k"
  by (simp_all add: set_kv_def sync_k_def blur_active_element_def copy_selected_def reset_filters_and_sort_def
      toggle_no_tags_def Let_def split: option.split)

lemma on_ui_spawned: "on_ui f k = Ok k' \<Longrightarrow> k_spawned k' = k_spawned k"
  by (auto simp: on_ui_Ok)

lemma select_spawned: "select env target k = Ok k' \<Longrightarrow> k_spawned k' = k_spawned k"
  by (auto simp: select_def intro: on_ui_spawned split: option.splits)

lemma spawn_edit_fields: "k_spawned (spawn_edit v k) = k_spawned k @ [v]" "k_cards (spawn_edit v k) = upsert_card v (k_cards k)"
  by (simp_all add: spawn_edit_def k_cards_def)

lemma toggle_blaze_edit:
  "toggle_blaze env k = Ok k' \<Longrightarrow> k_spawned k' = k_spawned k \<or> (\<exists>v. key_edit env k k' v)"
  by (auto simp: toggle_blaze_def key_edit_def Let_def map_ok_Ok spawn_edit_fields split: option.splits)

lemma set_due_date_edit:
  "set_due_date_shortcut env s k = Ok k' \<Longrightarrow> k_spawned k' = k_spawned k \<or> (\<exists>v. key_edit env k k' v)"
  by (auto simp: set_due_date_shortcut_def key_edit_def Let_def map_ok_Ok spawn_edit_fields split: option.splits)

lemma move_selected_spawned: "move_selected env step k = Ok k' \<Longrightarrow> k_spawned k' = k_spawned k"
  by (auto simp: move_selected_def Let_def map_ok_Ok split: option.splits if_splits)

lemma handle_escape_spawned: "handle_escape env k = Ok k' \<Longrightarrow> k_spawned k' = k_spawned k"
  unfolding handle_escape_def Let_def
  by (auto simp: map_ok_Ok split: if_splits dest: on_ui_spawned)

lemma handle_submenu_spawned: "handle_submenu menu key env k = (b, k') \<Longrightarrow> k_spawned k' = k_spawned k"
  by (induction menu key env k rule: handle_submenu.induct)
    (auto simp: handle_due_date_filter_submenu_def handle_sort_submenu_def handle_linked_cards_submenu_def
      handle_tag_filter_mode_submenu_def Let_def split: if_splits option.splits)

lemma toggle_pane_spawned: "toggle_pane env settings k = Ok k' \<Longrightarrow> k_spawned k' = k_spawned k"
  by (auto simp: toggle_pane_def split: if_splits dest: on_ui_spawned)

lemma shortcut_edit:
  assumes "shortcut key env k = Some (Ok k')"
  shows "k_spawned k' = k_spawned k \<or> (\<exists>v. key_edit env k k' v)"
  using assms unfolding shortcut_def
  by (elim if_Some_elim if_elim)
    (auto simp: select_next_card_def select_prev_card_def Let_def new_card_beside_def move_card_up_def move_card_down_def
      map_ok_Ok split: if_splits option.splits
      dest: select_spawned on_ui_spawned toggle_blaze_edit set_due_date_edit move_selected_spawned)

lemma keydown_edit:
  assumes "handle_keydown env ev k = Ok (p, k')"
  shows "k_spawned k' = k_spawned k \<or> (\<exists>v. key_edit env k k' v) \<and> shortcut_live env ev k"
  using assms
proof (cases rule: keydown_cases)
  case (menu menu key b k1)
  then show ?thesis using handle_submenu_spawned[OF menu(1)] by auto
next
  case (enter target)
  then show ?thesis using select_spawned[OF enter] by simp
next
  case key
  then show ?thesis using shortcut_edit by blast
qed (auto dest: handle_escape_spawned toggle_pane_spawned)

lemma flush_now_taken:
  assumes "flush_now env keys_of (moves, st) = Ok (moves', st')"
  shows "ms_pending moves' = None"
  using assms
  by (auto simp: flush_now_def flush_sync_take_def Let_def bind_outcome_Ok map_ok_Ok split: option.splits)

end
