(* ===== verification/Keyboard_Properties.thy ===== *)
theory Keyboard_Properties
  imports Keyboard_Facts View_Properties Offline_Properties
begin

text \<open>
  The properties of the keyboard: what keys do to the editors that are open, to unsaved changes, and
  where the edits they make end.
\<close>

section \<open>A keyboard for the witnesses\<close>

definition demo_key_env :: key_env where
  "demo_key_env =
     \<lparr>ke_view = demo_view_env, ke_to_lower = id, ke_shuffle = id, ke_render = id, ke_random = (\<lambda>_. 0),
      ke_timer = 7, ke_tags = [], ke_link_cache = (\<lambda>_. None), ke_drag_in_flight = False,
      ke_shortcuts_enabled = True, ke_show_due_today_button = True, ke_recursive_links = False,
      ke_search_tags = False, ke_extinguish_on_due_set = True, ke_extinguish_on_due_clear = False,
      ke_clear_due_on_blaze = False\<rparr>"

definition demo_kb :: "bool \<Rightarrow> kb" where
  "demo_kb editing =
     \<lparr>k_ui = demo_ui\<lparr>ui_view := (ui_view demo_ui)\<lparr>v_selected_card := Some 1, v_editing := editing\<rparr>\<rparr>,
      k_focus = NoField, k_sub_menu = None, k_save_requested = False, k_sidebar_visible = True,
      k_detail_expanded = False, k_clipboard = [], k_copy_toast = None, k_history_backs = 0, k_spawned = []\<rparr>"

lemma demo_kb_view [simp]:
  "v_editing (kv (demo_kb e)) = e" "v_creating_new (kv (demo_kb e)) = False" "v_creating_new_tag (kv (demo_kb e)) = False"
  "v_has_unsaved_changes (kv (demo_kb e))" "panes_ok (kv (demo_kb e))" "k_focus (demo_kb e) = NoField"
  "k_sub_menu (demo_kb e) = None" "k_spawned (demo_kb e) = []" "k_cards (demo_kb e) = [demo_card]"
  "v_selected_card (kv (demo_kb e)) = Some 1"
  by (simp_all add: demo_kb_def kv_def k_cards_def demo_ui_def panes_ok_def del: kv_fold)

lemma demo_key_env_fields [simp]:
  "ke_view demo_key_env = demo_view_env" "ke_shortcuts_enabled demo_key_env" "\<not> ke_clear_due_on_blaze demo_key_env"
  "\<not> ve_confirm demo_view_env" "ve_hash demo_view_env = demo_hash" "ve_now demo_view_env = 0"
  by (simp_all add: demo_key_env_def demo_view_env_def)

definition press :: "string \<Rightarrow> key_event" where
  "press key = \<lparr>ev_key = key, ev_ctrl = False, ev_alt = False, ev_meta = False\<rparr>"

section \<open>Panes and unsaved changes\<close>

text \<open>Keys, with any settings and answers of the user, and the steps of the mouse.\<close>

inductive kb_step :: "kb \<Rightarrow> kb \<Rightarrow> bool" where
  key: "handle_keydown env ev k = Ok (p, k') \<Longrightarrow> kb_step k k'"
| mouse: "ui_step env (k_ui k) ui' \<Longrightarrow> kb_step k (k\<lparr>k_ui := ui'\<rparr>)"
| focused: "kb_step k (k\<lparr>k_focus := f\<rparr>)"

text \<open>Through any sequence of keys, whatever the settings, the focus and the user's answers, and of
  steps of the mouse, at most one editor is open: an open editor has a selected entity, and creating a
  card or a tag excludes a selection, an open editor and each other.\<close>

theorem one_editor_at_most_with_keys:
  assumes "kb_step\<^sup>*\<^sup>* k k'" "panes_ok (kv k)"
  shows "panes_ok (kv k')"
  using assms
proof (induction rule: rtranclp_induct)
  case (step k1 k2)
  from step(2) show ?case
  proof cases
    case (key env ev p)
    then show ?thesis using step key_change_panes keydown_change by blast
  next
    case (mouse env ui')
    then show ?thesis using step ui_step_panes by simp
  qed (use step in simp)
qed

lemma demo_escape: "handle_keydown demo_key_env (press ''Escape'') (demo_kb True) =
    Ok (True, sync_k demo_key_env (demo_kb True))"
  by (simp add: handle_keydown_def press_def is_search_focused_def is_tag_search_focused_def
      prevented_def handle_escape_def on_ui_def close_editor_def guarded_def confirm_discard_changes_def Let_def)

theorem one_editor_at_most_with_keys_witness: "panes_ok (kv (sync_k demo_key_env (demo_kb True)))"
  by (rule one_editor_at_most_with_keys[OF r_into_rtranclp[of kb_step], OF kb_step.key[OF demo_escape]])
    simp

text \<open>No key loses unsaved changes without the user's consent: while an editor or a creation form
  with unsaved changes is open and the user does not confirm, every key leaves it open, on the same
  entity, and its changes marked as unsaved.\<close>

theorem keys_keep_unsaved_changes:
  assumes "handle_keydown env ev k = Ok (p, k')" "panes_ok (kv k)"
    and "v_has_unsaved_changes (kv k)" "\<not> ve_confirm (ke_view env)"
    and "v_editing (kv k) \<or> v_creating_new (kv k) \<or> v_creating_new_tag (kv k)"
  shows "v_selected_card (kv k') = v_selected_card (kv k) \<and> v_editing (kv k') = v_editing (kv k) \<and>
    v_creating_new (kv k') = v_creating_new (kv k) \<and> v_creating_new_tag (kv k') = v_creating_new_tag (kv k) \<and>
    v_has_unsaved_changes (kv k')"
  using keydown_change[OF assms(1)] assms(2-5) by (auto simp: key_change_def same_open_def panes_ok_def)

theorem keys_keep_unsaved_changes_witness:
  "v_editing (kv (sync_k demo_key_env (demo_kb True))) = v_editing (kv (demo_kb True)) \<and>
   v_has_unsaved_changes (kv (sync_k demo_key_env (demo_kb True)))"
  using keys_keep_unsaved_changes[OF demo_escape]
  by simp

section \<open>Sub-menus\<close>

text \<open>A sub-menu acts on exactly the keys its pop-up lists; the one for linked cards only while the
  selected entity is a card of the local list.\<close>

theorem menus_offer_what_they_handle:
  "fst (handle_submenu menu key env k) =
     (if menu = SubLinkedCards
      then selected_card k \<noteq> None \<and> key \<in> set (map fst (snd (sub_menu_items menu env)))
      else key \<in> set (map fst (snd (sub_menu_items menu env))))"
proof (cases menu)
  case SubDueDateFilter
  then show ?thesis by (simp add: handle_due_date_filter_submenu_def Let_def)
next
  case SubSort
  then show ?thesis by (simp add: handle_sort_submenu_def Let_def)
next
  case SubLinkedCards
  then show ?thesis by (simp add: handle_linked_cards_submenu_def linked_ids_def Let_def split: option.split)
next
  case SubTagFilterMode
  then show ?thesis by (simp add: handle_tag_filter_mode_submenu_def Let_def)
qed

section \<open>Edits\<close>

text \<open>A key edits at most the selected card, and only when no field has the focus, no sub-menu and
  no editor is open and the shortcuts are enabled. The edit is the card's next version with the same
  content, priority and tags, and once its task has run against the server, with or without a
  connection, the pending moves have been flushed and the edit is queued or on the server.\<close>

theorem key_edit_ends_settled:
  assumes "handle_keydown env ev k = Ok (p, k')" "k_spawned k' \<noteq> k_spawned k"
    and "run_edit_task cenv keys_of (last (k_spawned k')) (moves, app, w) = Ok (moves', app', w')"
    and "ce_request cenv = online_request E now"
  shows "\<exists>c v blazed due. selected_card k = Some c \<and> shortcut_live env ev k \<and>
    (card_next (ve_hash (ke_view env)) c (card_content c) (card_priority c) (card_tags c) blazed
       (ve_now (ke_view env)) due :: (unit, card) outcome) = Ok v \<and>
    k_spawned k' = k_spawned k @ [v] \<and> ms_pending moves' = None \<and>
    ((\<exists>q\<in>set (app_offline_queue app'). same_edit q v) \<or>
     (\<exists>u. same_edit u v \<and> card_log.entry w' (card_id v) = Some (card_params E u)))"
proof -
  obtain v where v: "key_edit env k k' v" "shortcut_live env ev k"
    using keydown_edit[OF assms(1)] assms(2) by blast
  have spawned: "k_spawned k' = k_spawned k @ [v]" using v by (simp add: key_edit_def)
  obtain moves1 st1 where flush: "flush_now cenv keys_of (moves, app, w) = Ok (moves1, st1)"
    and push: "push_card_or_queue cenv v st1 = Ok (app', w')" "moves' = moves1"
    using assms(3) spawned by (auto simp: run_edit_task_def bind_outcome_Ok map_ok_Ok)
  have "ms_pending moves1 = None" by (rule flush_now_taken[OF flush])
  moreover have "settled_edit E v (app', w')" by (rule push_settles[OF push(1) assms(4)])
  ultimately show ?thesis using v spawned push(2) unfolding key_edit_def settled_edit_def by auto
qed

definition blazed_demo :: card where
  "blazed_demo =
     (case card_next demo_hash demo_card ''buy milk'' 5 [] True 0 None :: (unit, card) outcome of Ok c \<Rightarrow> c)"

lemma blazed_demo_next:
  "(card_next demo_hash demo_card ''buy milk'' 5 [] True 0 None :: (unit, card) outcome) = Ok blazed_demo"
  unfolding blazed_demo_def card_next_def by (simp add: nn_successor nn_ok_def i64_max_def Let_def)

lemma demo_blaze: "handle_keydown demo_key_env (press ''B'') (demo_kb False) = Ok (True, spawn_edit blazed_demo (demo_kb False))"
proof -
  have sel: "selected_card (demo_kb False) = Some demo_card"
    by (simp add: selected_card_def)
  have "toggle_blaze demo_key_env (demo_kb False) = Ok (spawn_edit blazed_demo (demo_kb False))"
    by (simp add: toggle_blaze_def sel due_after_blaze_change_def blazed_demo_next)
  then show ?thesis
    by (simp add: handle_keydown_def press_def is_typing_def shortcut_def prevented_def Let_def)
qed

lemma demo_task:
  "run_edit_task demo_env (\<lambda>_. []) blazed_demo (ui_moves demo_ui, demo_offline, empty_db) =
     Ok (cancel_priority_timer (ui_moves demo_ui), queue_and_save demo_env 1 blazed_demo demo_offline, empty_db)"
proof -
  have "card_id blazed_demo = 1" using card_next_Ok(1)[OF blazed_demo_next] by simp
  then show ?thesis
    by (simp add: run_edit_task_def flush_now_def flush_sync_take_def push_card_or_queue_def demo_offline_def
        demo_ui_def cancel_priority_timer_def Let_def)
qed

theorem key_edit_ends_settled_witness:
  "(\<exists>q. q \<in> set (app_offline_queue (queue_and_save demo_env 1 blazed_demo demo_offline)) \<and> same_edit q blazed_demo) \<or>
   (\<exists>u. same_edit u blazed_demo \<and> card_log.entry empty_db (card_id blazed_demo) = Some (card_params demo_ext u))"
proof -
  have edited: "k_spawned (spawn_edit blazed_demo (demo_kb False)) \<noteq> k_spawned (demo_kb False)"
    "last (k_spawned (spawn_edit blazed_demo (demo_kb False))) = blazed_demo"
    by (simp_all add: spawn_edit_fields)
  from key_edit_ends_settled[OF demo_blaze edited(1), unfolded edited(2), OF demo_task demo_env_request]
  show ?thesis by (auto simp: spawn_edit_fields)
qed

end
