(* ===== verification/Card_Editor.thy ===== *)
theory Card_Editor
  imports Keyboard
begin

text \<open>
  The card editor (clients/wasm/src/components/card_editor.rs): its signals, the selection of tags with
  their implications, and \<open>do_save\<close>. Saving works on the editor, the view with its pending moves, the
  app state and the transport together; the callback \<open>on_save\<close>, the fresh UUID, the clock and the
  random draw are arguments. The part of \<open>do_save\<close> that is spawned runs to its end.
\<close>

section \<open>State\<close>

record editor =
  ed_content :: string
  ed_selected_tags :: "uuid list"
  ed_due_date :: "datetime option"
  ed_tag_search :: string
  ed_stored :: "card option"
  ed_orig_content :: string
  ed_orig_tags :: "uuid list"
  ed_orig_due_date :: "datetime option"
  ed_is_editing :: bool

definition or_else :: "'a option \<Rightarrow> 'a option \<Rightarrow> 'a option" where
  "or_else a b = (case a of Some x \<Rightarrow> Some x | None \<Rightarrow> b)"

definition or_default :: "'a \<Rightarrow> 'a option \<Rightarrow> 'a" where
  "or_default d a = (case a of Some x \<Rightarrow> x | None \<Rightarrow> d)"

text \<open>The component when it mounts; a prefill is read for a new card only.\<close>

definition new_editor :: "card option \<Rightarrow> NewCardPrefill option \<Rightarrow> editor" where
  "new_editor editing_card stored_prefill =
     (let is_editing = (editing_card \<noteq> None);
          prefill = (if is_editing then None else stored_prefill);
          is_prefill = (prefill \<noteq> None);
          initial_content = or_default [] (or_else (map_option card_content editing_card) (map_option prefill_content prefill));
          initial_tags = or_default [] (or_else (map_option card_tags editing_card) (map_option prefill_tags prefill));
          initial_due_date = or_else (Option.bind editing_card card_due_date) (Option.bind prefill prefill_due_date)
      in \<lparr>ed_content = initial_content, ed_selected_tags = initial_tags, ed_due_date = initial_due_date,
          ed_tag_search = [], ed_stored = editing_card,
          ed_orig_content = (if is_prefill then [] else initial_content),
          ed_orig_tags = (if is_prefill then [] else sort initial_tags),
          ed_orig_due_date = (if is_prefill then None else initial_due_date),
          ed_is_editing = is_editing\<rparr>)"

definition editor_dirty :: "editor \<Rightarrow> bool" where
  "editor_dirty ed \<longleftrightarrow>
     ed_content ed \<noteq> ed_orig_content ed \<or> sort (ed_selected_tags ed) \<noteq> ed_orig_tags ed \<or>
     ed_due_date ed \<noteq> ed_orig_due_date ed"

section \<open>Tags\<close>

definition push_missing :: "uuid list \<Rightarrow> uuid list \<Rightarrow> uuid list" where
  "push_missing to_add tags = foldl (\<lambda>ts u. if u \<in> set ts then ts else ts @ [u]) tags to_add"

definition remove_editor_tag_cascade :: "tag_graph \<Rightarrow> uuid list \<Rightarrow> uuid \<Rightarrow> uuid list" where
  "remove_editor_tag_cascade graph tags uid =
     (let tags = filter (\<lambda>t. t \<noteq> uid) tags;
          tags = filter (\<lambda>t. uid \<notin> set (closure_of graph [t])) tags
      in push_missing (closure_of graph tags) tags)"

definition toggle_editor_tag :: "bool \<Rightarrow> tag list \<Rightarrow> uuid \<Rightarrow> editor \<Rightarrow> editor" where
  "toggle_editor_tag clear_tag_search all_tags uid ed =
     (let graph = graph_from_tags all_tags;
          tags = ed_selected_tags ed;
          tags = (if uid \<in> set tags then remove_editor_tag_cascade graph tags uid
                  else push_missing (closure_of graph [uid]) tags)
      in ed\<lparr>ed_selected_tags := tags,
            ed_tag_search := (if clear_tag_search then [] else ed_tag_search ed)\<rparr>)"

text \<open>The tags the editor offers for a search text.\<close>

definition filtered_editor_tags :: "(string \<Rightarrow> string) \<Rightarrow> string \<Rightarrow> tag list \<Rightarrow> tag list" where
  "filtered_editor_tags to_lower tag_search all_tags =
     (let q = to_lower tag_search; tags = sort_tags to_lower all_tags
      in if q \<noteq> [] then filter (\<lambda>t. str_contains (to_lower (tag_title t)) q) tags else tags)"

section \<open>Saving\<close>

record 'w save_state =
  ss_editor :: editor
  ss_ui :: ui
  ss_app :: app_state
  ss_world :: 'w

record ('w, 'm, 'n) save_env =
  se_client :: "('w, 'm, 'n) client_env"
  se_view :: view_env
  se_new_uuid :: uuid
  se_on_save :: "ui \<Rightarrow> (unit, ui) outcome"
  se_extinguish_on_due_set :: bool
  se_extinguish_on_due_clear :: bool

text \<open>\<open>state.upsert_card\<close>: the app state and the moves share the list of cards.\<close>

definition save_upsert :: "card \<Rightarrow> 'w save_state \<Rightarrow> 'w save_state" where
  "save_upsert c st =
     st\<lparr>ss_app := app_upsert c (ss_app st),
        ss_ui := (ss_ui st)\<lparr>ui_moves := (ui_moves (ss_ui st))\<lparr>ms_cards := upsert_card c (app_cards (ss_app st))\<rparr>\<rparr>\<rparr>"

definition on_save_ui :: "(ui \<Rightarrow> (unit, ui) outcome) \<Rightarrow> 'w save_state \<Rightarrow> (unit, 'w save_state) outcome" where
  "on_save_ui f st = map_ok (\<lambda>ui. st\<lparr>ss_ui := ui\<rparr>) (f (ss_ui st))"

definition select_saved :: "('w, 'm, 'n) save_env \<Rightarrow> uuid \<Rightarrow> 'w save_state \<Rightarrow> (unit, 'w save_state) outcome" where
  "select_saved env uid = on_save_ui (\<lambda>ui. map_ok snd (set_selection (se_view env) (Some uid) ui))"

text \<open>The saved card becomes the baseline, and the flag is cleared before anything asks for it.\<close>

definition set_baseline :: "card \<Rightarrow> 'w save_state \<Rightarrow> 'w save_state" where
  "set_baseline c st =
     st\<lparr>ss_editor := (ss_editor st)\<lparr>ed_stored := Some c, ed_orig_content := card_content c,
          ed_orig_tags := card_tags c, ed_orig_due_date := card_due_date c\<rparr>,
        ss_ui := set_view (\<lambda>v. v\<lparr>v_has_unsaved_changes := False\<rparr>) (ss_ui st)\<rparr>"

definition stay_or_close :: "('w, 'm, 'n) save_env \<Rightarrow> bool \<Rightarrow> 'w save_state \<Rightarrow> (unit, 'w save_state) outcome" where
  "stay_or_close env stay st =
     (if stay then
        if ed_is_editing (ss_editor st) then Ok st else on_save_ui (open_editor (se_view env)) st
      else on_save_ui (se_on_save env) st)"

definition save_push :: "('w, 'm, 'n) save_env \<Rightarrow> card \<Rightarrow> 'w save_state \<Rightarrow> (unit, 'w save_state) outcome" where
  "save_push env c st =
     map_ok (\<lambda>(app, w). st\<lparr>ss_app := app, ss_world := w\<rparr>)
       (push_card_or_queue (se_client env) c (ss_app st, ss_world st))"

fun editor_position :: "NewCardPosition \<Rightarrow> card list \<Rightarrow> InsertPosition" where
  "editor_position NewTop cards = Top"
| "editor_position NewBottom cards = Bottom"
| "editor_position (NewAbove ref_id) cards =
     (case iter_position (\<lambda>c. card_id c = ref_id) cards of Some idx \<Rightarrow> At idx | None \<Rightarrow> Bottom)"
| "editor_position (NewBelow ref_id) cards =
     (case iter_position (\<lambda>c. card_id c = ref_id) cards of Some idx \<Rightarrow> At (idx + 1) | None \<Rightarrow> Bottom)"

text \<open>The tail of a save of one card.\<close>

definition finish_save ::
  "('w, 'm, 'n) save_env \<Rightarrow> bool \<Rightarrow> card \<Rightarrow> 'w save_state \<Rightarrow> (unit, 'w save_state) outcome" where
  "finish_save env stay c st =
     (let st = set_baseline c (save_upsert c st)
      in bind_outcome (if ed_is_editing (ss_editor st) then Ok st else select_saved env (card_id c) st) (\<lambda>st.
         bind_outcome (stay_or_close env stay st) (save_push env c)))"

text \<open>A new card whose placement shifted others.\<close>

definition finish_rebalanced ::
  "('w, 'm, 'n) save_env \<Rightarrow> bool \<Rightarrow> card \<Rightarrow> card list \<Rightarrow> 'w save_state \<Rightarrow> (unit, 'w save_state) outcome" where
  "finish_rebalanced env stay c shifted_cards st =
     (let st = set_baseline c (save_upsert c (fold save_upsert shifted_cards st))
      in bind_outcome (select_saved env (card_id c) st) (\<lambda>st.
         bind_outcome
           (if app_connected (ss_app st) then
              bind_outcome
                (try_push_batch (se_client env) (map (\<lambda>v. ItemCards [v]) (shifted_cards @ [c])) (ss_world st))
                (\<lambda>(answer, w).
                   if answer = Accepted then Ok (st\<lparr>ss_world := w\<rparr>)
                   else save_push env c (st\<lparr>ss_world := w\<rparr>))
            else save_push env c st)
           (stay_or_close env stay)))"

definition saved_tags :: "tag list \<Rightarrow> uuid list \<Rightarrow> uuid list" where
  "saved_tags all_tags selected = sort (closure_of (graph_from_tags all_tags) selected)"

definition save_existing ::
  "('w, 'm, 'n) save_env \<Rightarrow> bool \<Rightarrow> card \<Rightarrow> uuid list \<Rightarrow> 'w save_state \<Rightarrow> (unit, 'w save_state) outcome" where
  "save_existing env stay existing sorted_tags st =
     (let ed = ss_editor st;
          new_blazed =
            (if ed_due_date ed \<noteq> card_due_date existing
             then blazed_after_due_change (se_extinguish_on_due_set env) (se_extinguish_on_due_clear env)
                    (card_blazed existing) (ed_due_date ed)
             else card_blazed existing)
      in bind_outcome
           (card_next (ce_hash (se_client env)) existing (ed_content ed) (card_priority existing) sorted_tags
              new_blazed (ce_now (se_client env)) (ed_due_date ed))
           (\<lambda>c. finish_save env stay c st))"

definition save_new ::
  "('w, 'm, 'n) save_env \<Rightarrow> bool \<Rightarrow> uuid list \<Rightarrow> 'w save_state \<Rightarrow> (unit, 'w save_state) outcome" where
  "save_new env stay sorted_tags st =
     (let ce = se_client env; ed = ss_editor st;
          cards = sort_by_priority (ce_to_lower ce) (ce_shuffle ce) (app_cards (ss_app st));
          insert_pos = editor_position (v_new_card_position (ui_view (ss_ui st))) cards;
          first = (\<lambda>priority. card_first (ce_hash ce) (se_new_uuid env) (ed_content ed) priority sorted_tags False
                     (ce_now ce) (ed_due_date ed))
      in case place_card (ce_random_range ce) cards insert_pos of
           Simple priority \<Rightarrow> finish_save env stay (first priority) st
         | Rebalanced priority shifted \<Rightarrow>
             bind_outcome (build_shifted_versions (ce_hash ce) (ce_now ce) shifted cards)
               (\<lambda>shifted_cards. finish_rebalanced env stay (first priority) shifted_cards st))"

definition do_save :: "('w, 'm, 'n) save_env \<Rightarrow> bool \<Rightarrow> 'w save_state \<Rightarrow> (unit, 'w save_state) outcome" where
  "do_save env stay st =
     (let ed = ss_editor st in
      if skip_white (ed_content ed) = [] then Ok st
      else
        let sorted_tags = saved_tags (app_tags (ss_app st)) (ed_selected_tags ed)
        in case ed_stored ed of
             Some existing \<Rightarrow>
               if ed_content ed = card_content existing \<and> sorted_tags = card_tags existing \<and>
                  ed_due_date ed = card_due_date existing
               then (if stay then Ok st else on_save_ui (se_on_save env) st)
               else save_existing env stay existing sorted_tags st
           | None \<Rightarrow> save_new env stay sorted_tags st)"

end
