(* ===== verification/Editor_Facts.thy ===== *)
theory Editor_Facts
  imports Card_Editor Keyboard_Facts
begin

text \<open>
  What toggling a tag does to the selected tags, and where a saved card ends.
\<close>

section \<open>Tags\<close>

lemma set_push_missing [simp]: "set (push_missing to_add tags) = set tags \<union> set to_add"
  unfolding push_missing_def by (induction to_add arbitrary: tags) auto

lemma closed_union_reachable:
  "closed_tags g S \<Longrightarrow> closed_tags g (S \<union> (implies_rel g)\<^sup>* `` R)"
  by (auto simp: closed_tags_def implies_rel_def intro: rtrancl_into_rtrancl)

lemma closed_without:
  assumes "closed_tags g S"
  shows "closed_tags g {t \<in> S. (t, uid) \<notin> (implies_rel g)\<^sup>*}"
  using assms by (auto simp: closed_tags_def implies_rel_def intro: converse_rtrancl_into_rtrancl)

lemma toggled_tags:
  assumes "closed_tags (graph_from_tags all_tags) (set (ed_selected_tags ed))"
  shows "set (ed_selected_tags (toggle_editor_tag clear all_tags uid ed)) =
    (if uid \<in> set (ed_selected_tags ed)
     then {t \<in> set (ed_selected_tags ed). (t, uid) \<notin> (implies_rel (graph_from_tags all_tags))\<^sup>*}
     else set (ed_selected_tags ed) \<union> (implies_rel (graph_from_tags all_tags))\<^sup>* `` {uid})"
proof -
  let ?g = "graph_from_tags all_tags" and ?S = "set (ed_selected_tags ed)"
  let ?R = "{t \<in> ?S. (t, uid) \<notin> (implies_rel ?g)\<^sup>*}"
  have "set (remove_editor_tag_cascade ?g (ed_selected_tags ed) uid) = ?R \<union> (implies_rel ?g)\<^sup>* `` ?R"
    by (auto simp: remove_editor_tag_cascade_def Let_def set_closure_of)
  moreover have "(implies_rel ?g)\<^sup>* `` ?R \<subseteq> ?R"
    by (rule closed_tags_reachable[OF closed_without[OF assms] order.refl])
  ultimately have "set (remove_editor_tag_cascade ?g (ed_selected_tags ed) uid) = ?R" by blast
  then show ?thesis by (simp add: toggle_editor_tag_def Let_def set_closure_of)
qed

lemma saved_tags_closed:
  "set (saved_tags all_tags selected) = (implies_rel (graph_from_tags all_tags))\<^sup>* `` set selected"
  "closed_tags (graph_from_tags all_tags) (set (saved_tags all_tags selected))"
proof -
  show eq: "set (saved_tags all_tags selected) = (implies_rel (graph_from_tags all_tags))\<^sup>* `` set selected"
    by (simp add: saved_tags_def set_closure_of)
  show "closed_tags (graph_from_tags all_tags) (set (saved_tags all_tags selected))"
    unfolding eq using closed_union_reachable[of _ "{}" "set selected"] by (simp add: closed_tags_def)
qed

section \<open>Fields that the view keeps\<close>

lemma on_save_ui_Ok: "on_save_ui f st = Ok st' \<longleftrightarrow> (\<exists>ui. f (ss_ui st) = Ok ui \<and> st' = st\<lparr>ss_ui := ui\<rparr>)"
  by (auto simp: on_save_ui_def map_ok_Ok)

lemma stay_or_close_keeps:
  "stay_or_close env stay st = Ok st' \<Longrightarrow>
     ss_editor st' = ss_editor st \<and> ss_app st' = ss_app st \<and> ss_world st' = ss_world st"
  by (auto simp: stay_or_close_def on_save_ui_Ok split: if_splits)

lemma select_saved_keeps:
  "select_saved env uid st = Ok st' \<Longrightarrow>
     ss_editor st' = ss_editor st \<and> ss_app st' = ss_app st \<and> ss_world st' = ss_world st"
  by (auto simp: select_saved_def on_save_ui_Ok)

lemma baseline_fields [simp]:
  "ss_app (set_baseline c st) = ss_app st" "ss_world (set_baseline c st) = ss_world st"
  "ed_stored (ss_editor (set_baseline c st)) = Some c" "ss_world (save_upsert c st) = ss_world st"
  "ed_is_editing (ss_editor (set_baseline c st)) = ed_is_editing (ss_editor st)"
  "ss_editor (save_upsert c st) = ss_editor st" "ss_app (save_upsert c st) = app_upsert c (ss_app st)"
  by (simp_all add: set_baseline_def save_upsert_def)

section \<open>The end of a saved card\<close>

text \<open>The last card of an accepted batch is the server's, whatever came before it.\<close>

lemma apply_last_entry:
  "apply_items E i (map (\<lambda>v. ItemCards [v]) (vs @ [c])) (tx, aff) = Ok (tx', aff') \<Longrightarrow>
     card_log.entry tx' (card_id c) = Some (card_params E c)"
proof (induction vs arbitrary: i tx aff)
  case Nil
  then have "apply_items E i (map (\<lambda>v. ItemCards [v]) [c]) (tx, aff) = Ok (tx', aff')" by simp
  from apply_cards_entries(1)[OF this] show ?case by simp
next
  case (Cons v vs)
  then obtain tx1 aff1 where "apply_items E (Suc i) (map (\<lambda>v. ItemCards [v]) (vs @ [c])) (tx1, aff1) = Ok (tx', aff')"
    by (auto simp: bind_outcome_Ok map_err_Ok)
  then show ?case by (rule Cons.IH)
qed

lemma accepted_batch_last:
  assumes "try_push_batch env (map (\<lambda>v. ItemCards [v]) (vs @ [c])) w = Ok (Accepted, w')"
    and "ce_request env = online_request E now"
  shows "card_log.entry w' (card_id c) = Some (card_params E c)"
proof -
  let ?items = "map (\<lambda>v. ItemCards [v]) (vs @ [c])"
  obtain root where "push_batch (online_request E now) ?items w = (Ok root, w')"
    using assms(1) by (auto simp: try_push_batch_def assms(2) split: prod.splits outcome.splits)
  then have "handle_request E now w (PushBatch ?items) = (Ok (RespRoot root), w')"
    by (auto simp: push_batch_def requested_def online_request_def outcome_simps
        split: prod.splits outcome.splits)
  then have "storage_push_batch E now w ?items = (Ok (), w')"
    by (auto split: prod.splits outcome.splits)
  then have "committed E now w ?items w'"
    by (cases rule: storage_push_batch_cases) auto
  then obtain tx aff where "apply_items E 0 ?items (w, no_affected) = Ok (tx, aff)"
    and commit: "commit_txn E now (tx, aff) = Ok w'"
    by (auto simp: committed_def)
  then show ?thesis using apply_last_entry by (simp add: commit_entries [OF commit])
qed

text \<open>The card is the editor's baseline, and settled.\<close>

definition card_saved :: "ext \<Rightarrow> card \<Rightarrow> 'w save_state \<Rightarrow> db \<Rightarrow> bool" where
  "card_saved E c st w \<longleftrightarrow> ed_stored (ss_editor st) = Some c \<and> settled_edit E c (ss_app st, w)"

lemma save_push_saved:
  assumes "save_push env c st = Ok st'" "ce_request (se_client env) = online_request E now"
    and "ed_stored (ss_editor st) = Some c"
  shows "card_saved E c st' (ss_world st')"
proof -
  obtain app w where push: "push_card_or_queue (se_client env) c (ss_app st, ss_world st) = Ok (app, w)"
    and st': "st' = st\<lparr>ss_app := app, ss_world := w\<rparr>"
    using assms(1) by (auto simp: save_push_def map_ok_Ok)
  from push_settles[OF push assms(2)] show ?thesis using st' assms(3) by (simp add: card_saved_def)
qed

lemma finish_save_saved:
  assumes "finish_save env stay c st = Ok st'" "ce_request (se_client env) = online_request E now"
  shows "card_saved E c st' (ss_world st')"
proof -
  let ?st = "set_baseline c (save_upsert c st)"
  obtain st1 st2 where one: "(if ed_is_editing (ss_editor ?st) then Ok ?st else select_saved env (card_id c) ?st) = Ok st1"
    and two: "stay_or_close env stay st1 = Ok st2" and three: "save_push env c st2 = Ok st'"
    using assms(1) by (auto simp: finish_save_def Let_def bind_outcome_Ok)
  have "ss_editor st1 = ss_editor ?st" using one select_saved_keeps by (auto split: if_splits)
  then have "ed_stored (ss_editor st2) = Some c" using stay_or_close_keeps[OF two] by simp
  then show ?thesis by (rule save_push_saved[OF three assms(2)])
qed

lemma finish_rebalanced_saved:
  assumes "finish_rebalanced env stay c shifted st = Ok st'" "ce_request (se_client env) = online_request E now"
  shows "card_saved E c st' (ss_world st')"
proof -
  let ?st = "set_baseline c (save_upsert c (fold save_upsert shifted st))"
  obtain st1 where one: "select_saved env (card_id c) ?st = Ok st1" and rest:
    "bind_outcome
       (if app_connected (ss_app st1) then
          bind_outcome (try_push_batch (se_client env) (map (\<lambda>v. ItemCards [v]) (shifted @ [c])) (ss_world st1))
            (\<lambda>(answer, w). if answer = Accepted then Ok (st1\<lparr>ss_world := w\<rparr>) else save_push env c (st1\<lparr>ss_world := w\<rparr>))
        else save_push env c st1) (stay_or_close env stay) = Ok st'"
    using assms(1) unfolding finish_rebalanced_def Let_def by (auto simp: bind_outcome_Ok)
  have stored: "ed_stored (ss_editor st1) = Some c" using select_saved_keeps[OF one] by simp
  obtain st2 where two:
    "(if app_connected (ss_app st1) then
          bind_outcome (try_push_batch (se_client env) (map (\<lambda>v. ItemCards [v]) (shifted @ [c])) (ss_world st1))
            (\<lambda>(answer, w). if answer = Accepted then Ok (st1\<lparr>ss_world := w\<rparr>) else save_push env c (st1\<lparr>ss_world := w\<rparr>))
        else save_push env c st1) = Ok st2" and three: "stay_or_close env stay st2 = Ok st'"
    using rest by (auto simp: bind_outcome_Ok)
  have "card_saved E c st2 (ss_world st2)"
  proof (cases "app_connected (ss_app st1)")
    case False
    then show ?thesis using two save_push_saved[OF _ assms(2) stored] by simp
  next
    case True
    then obtain answer w where batch:
        "try_push_batch (se_client env) (map (\<lambda>v. ItemCards [v]) (shifted @ [c])) (ss_world st1) = Ok (answer, w)"
      and st2: "(if answer = Accepted then Ok (st1\<lparr>ss_world := w\<rparr>) else save_push env c (st1\<lparr>ss_world := w\<rparr>)) = Ok st2"
      using two by (auto simp: bind_outcome_Ok)
    show ?thesis
    proof (cases "answer = Accepted")
      case True
      have "settled_edit E c (ss_app st1, w)"
        using accepted_batch_last[OF batch[unfolded True] assms(2)] same_edit_refl[of c] unfolding settled_edit_def snd_conv by blast
      then show ?thesis using True st2 stored by (auto simp: card_saved_def)
    next
      case False
      then show ?thesis using st2 save_push_saved[of env c "st1\<lparr>ss_world := w\<rparr>"] assms(2) stored by simp
    qed
  qed
  then show ?thesis using stay_or_close_keeps[OF three] by (simp add: card_saved_def)
qed

text \<open>There is something to save: a content that is not blank, of a new card or one that differs.\<close>

definition save_needed :: "'w save_state \<Rightarrow> bool" where
  "save_needed st \<longleftrightarrow>
     (let ed = ss_editor st in
      skip_white (ed_content ed) \<noteq> [] \<and>
      (case ed_stored ed of
         Some e \<Rightarrow> \<not> (ed_content ed = card_content e \<and>
            saved_tags (app_tags (ss_app st)) (ed_selected_tags ed) = card_tags e \<and> ed_due_date ed = card_due_date e)
       | None \<Rightarrow> True))"

lemma do_save_saved:
  assumes "do_save env stay st = Ok st'" "ce_request (se_client env) = online_request E now"
  shows "if save_needed st then
    (\<exists>c. card_saved E c st' (ss_world st') \<and> card_content c = ed_content (ss_editor st) \<and>
       card_tags c = saved_tags (app_tags (ss_app st)) (ed_selected_tags (ss_editor st)) \<and>
       card_due_date c = ed_due_date (ss_editor st) \<and>
       card_id c = (case ed_stored (ss_editor st) of Some e \<Rightarrow> card_id e | None \<Rightarrow> se_new_uuid env))
    else ss_editor st' = ss_editor st \<and> ss_app st' = ss_app st \<and> ss_world st' = ss_world st"
proof -
  let ?ed = "ss_editor st" and ?tags = "saved_tags (app_tags (ss_app st)) (ed_selected_tags (ss_editor st))"
  have sorted: "sort ?tags = ?tags" by (simp add: saved_tags_def sorted_sort_id)
  let ?saved = "\<exists>c. card_saved E c st' (ss_world st') \<and> card_content c = ed_content ?ed \<and> card_tags c = ?tags \<and>
       card_due_date c = ed_due_date ?ed \<and>
       card_id c = (case ed_stored ?ed of Some e \<Rightarrow> card_id e | None \<Rightarrow> se_new_uuid env)"
  have existing: ?saved if save: "save_existing env stay e ?tags st = Ok st'" and e: "ed_stored ?ed = Some e" for e
  proof -
    obtain blazed c where next_c: "card_next (ce_hash (se_client env)) e (ed_content ?ed) (card_priority e) ?tags
          blazed (ce_now (se_client env)) (ed_due_date ?ed) = (Ok c :: (unit, card) outcome)"
        and finish: "finish_save env stay c st = Ok st'"
      using save by (auto simp: save_existing_def Let_def bind_outcome_Ok)
    have "card_id c = card_id e" "card_content c = ed_content ?ed" "card_tags c = sort ?tags" "card_due_date c = ed_due_date ?ed"
      using card_next_Ok[OF next_c] by blast+
    then show ?saved using finish_save_saved[OF finish assms(2)] sorted e by auto
  qed
  have new: ?saved if save: "save_new env stay ?tags st = Ok st'" and e: "ed_stored ?ed = None"
  proof -
    have fields: "card_id (card_first H u t p ?tags b n d) = u" "card_content (card_first H u t p ?tags b n d) = t"
      "card_tags (card_first H u t p ?tags b n d) = ?tags" "card_due_date (card_first H u t p ?tags b n d) = d" for H u t p b n d
      using sorted by (simp_all add: card_first_def Let_def)
    let ?first = "\<lambda>p. card_first (ce_hash (se_client env)) (se_new_uuid env) (ed_content ?ed) p ?tags False
      (ce_now (se_client env)) (ed_due_date ?ed)"
    have "\<exists>p. finish_save env stay (?first p) st = Ok st' \<or> (\<exists>sh. finish_rebalanced env stay (?first p) sh st = Ok st')"
      using save unfolding save_new_def Let_def by (auto simp: bind_outcome_Ok split: Placement.splits)
    then obtain p where "card_saved E (?first p) st' (ss_world st')"
      using finish_save_saved[OF _ assms(2)] finish_rebalanced_saved[OF _ assms(2)] by blast
    then show ?saved using e by (intro exI[of _ "?first p"] conjI) (simp_all only: fields option.case)
  qed
  show ?thesis
  proof (cases "save_needed st")
    case True
    then have ?saved
      using assms(1) existing new unfolding do_save_def save_needed_def Let_def
      by (cases "ed_stored ?ed") (simp_all split: if_splits)
    then show ?thesis using True by simp
  next
    case False
    then have "ss_editor st' = ss_editor st \<and> ss_app st' = ss_app st \<and> ss_world st' = ss_world st"
      using assms(1) unfolding do_save_def save_needed_def Let_def
      by (cases "ed_stored ?ed") (auto simp: on_save_ui_Ok split: if_splits)
    then show ?thesis using False by simp
  qed
qed

section \<open>An offline save that shifts others\<close>

lemma folded_app_upserts:
  "app_connected (fold app_upsert vs a) = app_connected a"
  "app_offline_queue (fold app_upsert vs a) = app_offline_queue a"
  by (induction vs arbitrary: a) (simp_all add: app_upsert_def)

lemma folded_upserts:
  "ss_world (fold save_upsert vs s) = ss_world s"
  "app_connected (ss_app (fold save_upsert vs s)) = app_connected (ss_app s)"
  "app_offline_queue (ss_app (fold save_upsert vs s)) = app_offline_queue (ss_app s)"
  "ss_app (fold save_upsert vs s) = fold app_upsert vs (ss_app s)"
proof -
  have "ss_world (fold save_upsert vs s) = ss_world s \<and> ss_app (fold save_upsert vs s) = fold app_upsert vs (ss_app s)"
    by (induction vs arbitrary: s) simp_all
  then show "ss_world (fold save_upsert vs s) = ss_world s"
    "app_connected (ss_app (fold save_upsert vs s)) = app_connected (ss_app s)"
    "app_offline_queue (ss_app (fold save_upsert vs s)) = app_offline_queue (ss_app s)"
    "ss_app (fold save_upsert vs s) = fold app_upsert vs (ss_app s)"
    by (simp_all add: folded_app_upserts)
qed

lemma upserted_member: "v \<in> set vs \<Longrightarrow> distinct (map card_id vs) \<Longrightarrow> v \<in> set (app_cards (fold app_upsert vs a))"
  by (induction vs arbitrary: a rule: rev_induct)
    (auto simp: app_upsert_def upsert_card_def dest: sym[of "card_id v"] image_eqI)

lemma finish_rebalanced_offline:
  assumes "finish_rebalanced env stay c shifted st = Ok st'" "\<not> app_connected (ss_app st)"
    and "v \<in> set shifted" "distinct (map card_id (shifted @ [c]))"
  shows "v \<in> set (app_cards (ss_app st')) \<and> ss_world st' = ss_world st \<and>
    app_offline_queue (ss_app st') = filter (\<lambda>q. card_id q \<noteq> card_id c) (app_offline_queue (ss_app st)) @ [c]"
proof -
  let ?st = "set_baseline c (save_upsert c (fold save_upsert shifted st))"
  obtain st1 where one: "select_saved env (card_id c) ?st = Ok st1" and rest:
    "bind_outcome
       (if app_connected (ss_app st1) then
          bind_outcome (try_push_batch (se_client env) (map (\<lambda>v. ItemCards [v]) (shifted @ [c])) (ss_world st1))
            (\<lambda>(answer, w). if answer = Accepted then Ok (st1\<lparr>ss_world := w\<rparr>) else save_push env c (st1\<lparr>ss_world := w\<rparr>))
        else save_push env c st1) (stay_or_close env stay) = Ok st'"
    using assms(1) unfolding finish_rebalanced_def Let_def by (auto simp: bind_outcome_Ok)
  have st1: "ss_app st1 = app_upsert c (fold app_upsert shifted (ss_app st))" "ss_world st1 = ss_world st"
    using select_saved_keeps[OF one] by (simp_all add: folded_upserts)
  have conn: "\<not> app_connected (ss_app st1)" "app_offline_queue (ss_app st1) = app_offline_queue (ss_app st)"
    using assms(2) folded_upserts(2,3)[of shifted st] unfolding st1 folded_upserts(4) by (simp_all add: app_upsert_def)
  obtain st2 where push: "save_push env c st1 = Ok st2" and close: "stay_or_close env stay st2 = Ok st'"
    using rest conn(1) by (auto simp: bind_outcome_Ok)
  have st2: "ss_app st2 = queue_and_save (se_client env) (card_id c) c (ss_app st1)" "ss_world st2 = ss_world st1"
    using push conn(1) by (auto simp: save_push_def push_card_or_queue_def Let_def)
  have "v \<in> set (app_cards (ss_app st1))"
    using upserted_member[of v shifted "ss_app st"] assms(3,4) unfolding st1
    by (auto simp: app_upsert_def upsert_card_def dest: image_eqI)
  then show ?thesis
    using stay_or_close_keeps[OF close] st2 conn(2) st1(2)
    by (simp add: queue_and_save_def save_local_state_def save_queue_def enqueue_card_def Let_def split: option.split)
qed

end
