(* ===== verification/Editor_Properties.thy ===== *)
theory Editor_Properties
  imports Editor_Facts View_Properties Offline_Properties
begin

text \<open>
  The properties of the card editor: its tags stay closed under their implications, a save that
  succeeds is not lost, and what an offline save forgets.
\<close>

section \<open>Tags\<close>

text \<open>C26: Toggling a tag in the editor keeps the selected tags closed under the implications: selecting
  one adds it and everything it implies, deselecting one removes it and exactly the tags that imply
  it, directly or through others.\<close>

theorem editor_tags_stay_closed:
  assumes "closed_tags (graph_from_tags all_tags) (set (ed_selected_tags ed))"
  shows "closed_tags (graph_from_tags all_tags) (set (ed_selected_tags (toggle_editor_tag clear all_tags uid ed))) \<and>
    set (ed_selected_tags (toggle_editor_tag clear all_tags uid ed)) =
      (if uid \<in> set (ed_selected_tags ed)
       then {t \<in> set (ed_selected_tags ed). (t, uid) \<notin> (implies_rel (graph_from_tags all_tags))\<^sup>*}
       else set (ed_selected_tags ed) \<union> (implies_rel (graph_from_tags all_tags))\<^sup>* `` {uid})"
  unfolding toggled_tags[OF assms] using closed_without[OF assms] closed_union_reachable[OF assms] by simp

definition chain_tags :: "tag list" where
  "chain_tags = [tag_first_with_implies demo_hash 1 ''sub'' None [2] 0, tag_first demo_hash 2 ''top'' None 0]"

definition chain_editor :: editor where
  "chain_editor = (new_editor None None)\<lparr>ed_selected_tags := [1, 2, 3]\<rparr>"

lemma chain_implies: "implies_of (graph_from_tags chain_tags) a = (if a = 1 then [2] else [])"
  by (simp add: graph_from_tags_pairs chain_tags_def implies_of_from_pairs tag_first_with_implies_def tag_first_def
      normalize_implies_def Let_def)

theorem editor_tags_stay_closed_witness:
  "set (ed_selected_tags (toggle_editor_tag True chain_tags 2 chain_editor)) = {3}"
proof -
  have closed: "closed_tags (graph_from_tags chain_tags) (set (ed_selected_tags chain_editor))"
    by (simp add: closed_tags_def chain_implies chain_editor_def)
  have one: "(1, 2) \<in> (implies_rel (graph_from_tags chain_tags))\<^sup>*"
    by (rule r_into_rtrancl) (simp add: implies_rel_def chain_implies)
  have "(3, 2) \<notin> (implies_rel (graph_from_tags chain_tags))\<^sup>*"
    by (auto simp: implies_rel_def chain_implies elim: converse_rtranclE)
  then show ?thesis
    using editor_tags_stay_closed[OF closed, of True 2] one by (auto simp: chain_editor_def)
qed

section \<open>Saving\<close>

text \<open>C27: Saving with something to save gives one version with exactly the editor's content and due date
  and the closure of its tags, of the edited card or of a new one; it is the editor's new baseline and
  ends in the offline queue or as the server's version, with or without a connection, whatever the
  placement and the server's answers. With nothing to save, nothing happens to any of that.\<close>

theorem saved_card_is_settled:
  assumes "do_save env stay st = Ok st'" "ce_request (se_client env) = online_request E now"
  shows "if save_needed st then
    (\<exists>c. ed_stored (ss_editor st') = Some c \<and> card_content c = ed_content (ss_editor st) \<and>
       card_due_date c = ed_due_date (ss_editor st) \<and>
       set (card_tags c) = (implies_rel (graph_from_tags (app_tags (ss_app st))))\<^sup>* `` set (ed_selected_tags (ss_editor st)) \<and>
       card_id c = (case ed_stored (ss_editor st) of Some e \<Rightarrow> card_id e | None \<Rightarrow> se_new_uuid env) \<and>
       ((\<exists>q\<in>set (app_offline_queue (ss_app st')). same_edit q c) \<or>
        (\<exists>u. same_edit u c \<and> card_log.entry (ss_world st') (card_id c) = Some (card_params E u))))
    else ss_editor st' = ss_editor st \<and> ss_app st' = ss_app st \<and> ss_world st' = ss_world st"
proof (cases "save_needed st")
  case True
  then obtain c where "card_saved E c st' (ss_world st')" "card_content c = ed_content (ss_editor st)"
      "card_tags c = saved_tags (app_tags (ss_app st)) (ed_selected_tags (ss_editor st))"
      "card_due_date c = ed_due_date (ss_editor st)"
      "card_id c = (case ed_stored (ss_editor st) of Some e \<Rightarrow> card_id e | None \<Rightarrow> se_new_uuid env)"
    using do_save_saved[OF assms] by auto
  then show ?thesis using True unfolding card_saved_def settled_edit_def by (auto simp: saved_tags_closed(1))
qed (use do_save_saved[OF assms] in simp)

definition demo_save_env :: "(db, (uuid \<times> card) list, (uuid \<times> tag) list) save_env" where
  "demo_save_env =
     \<lparr>se_client = demo_env, se_view = demo_view_env, se_new_uuid = 77, se_on_save = Ok,
      se_extinguish_on_due_set = True, se_extinguish_on_due_clear = False\<rparr>"

definition demo_save :: "db save_state" where
  "demo_save =
     \<lparr>ss_editor = (new_editor (Some demo_card) None)\<lparr>ed_content := ''buy oat milk''\<rparr>, ss_ui = demo_ui,
      ss_app = demo_offline, ss_world = empty_db\<rparr>"

lemma demo_save_fields [simp]:
  "ed_content (ss_editor demo_save) = ''buy oat milk''" "ed_stored (ss_editor demo_save) = Some demo_card"
  "ed_selected_tags (ss_editor demo_save) = []" "ed_due_date (ss_editor demo_save) = None"
  "ed_is_editing (ss_editor demo_save)" "app_tags (ss_app demo_save) = []" "\<not> app_connected (ss_app demo_save)"
  by (simp_all add: demo_save_def new_editor_def or_default_def or_else_def Let_def demo_offline_def demo_app_def)

lemma demo_save_needed: "save_needed demo_save"
  by (simp add: save_needed_def skip_white.simps[of "''buy oat milk''"] white_len_def LF_def CR_def Let_def)

lemma demo_save_ok: "\<exists>st'. do_save demo_save_env False demo_save = Ok st'"
proof -
  obtain c :: card where c: "(card_next demo_hash demo_card ''buy oat milk'' 5 [] False 0 None :: (unit, card) outcome) = Ok c"
    unfolding card_next_def by (simp add: nn_successor nn_ok_def i64_max_def Let_def)
  have needed: "skip_white ''buy oat milk'' \<noteq> []"
    by (simp add: skip_white.simps[of "''buy oat milk''"] white_len_def LF_def CR_def)
  have tags: "saved_tags [] [] = []" by (simp add: saved_tags_def closure_of_def)
  have env: "se_client demo_save_env = demo_env" "ce_hash demo_env = demo_hash" "ce_now demo_env = 0" "se_on_save demo_save_env = Ok"
    by (simp_all add: demo_save_env_def demo_env_def)
  have "do_save demo_save_env False demo_save = finish_save demo_save_env False c demo_save"
    using c needed by (simp add: do_save_def save_existing_def tags env Let_def)
  then show ?thesis
    by (simp add: finish_save_def stay_or_close_def on_save_ui_def save_push_def push_card_or_queue_def env Let_def app_upsert_def)
qed

theorem saved_card_is_settled_witness:
  "\<exists>st' c. do_save demo_save_env False demo_save = Ok st' \<and> ed_stored (ss_editor st') = Some c \<and>
     card_content c = ''buy oat milk''"
proof -
  obtain st' where save: "do_save demo_save_env False demo_save = Ok st'" using demo_save_ok by blast
  have "ce_request (se_client demo_save_env) = online_request demo_ext 0" by (simp add: demo_save_env_def demo_env_def)
  from saved_card_is_settled[OF save this] demo_save_needed save show ?thesis by auto
qed

text \<open>C28: A new card whose placement shifts others, saved without a connection: the shifted versions are
  in the local list, but of the whole save only the new card enters the queue and nothing reaches the
  server, so the shifts are never pushed.\<close>

theorem offline_rebalance_forgets_shifts:
  assumes "finish_rebalanced env stay c shifted st = Ok st'" "\<not> app_connected (ss_app st)"
    and "v \<in> set shifted" "distinct (map card_id (shifted @ [c]))"
  shows "v \<in> set (app_cards (ss_app st')) \<and> ss_world st' = ss_world st \<and>
    app_offline_queue (ss_app st') = filter (\<lambda>q. card_id q \<noteq> card_id c) (app_offline_queue (ss_app st)) @ [c]"
  by (rule finish_rebalanced_offline[OF assms])

theorem offline_rebalance_forgets_shifts_witness:
  "\<exists>st'. finish_rebalanced demo_save_env True demo_card [demo_sibling] demo_save = Ok st' \<and>
     demo_sibling \<in> set (app_cards (ss_app st')) \<and> app_offline_queue (ss_app st') = [demo_card]"
proof -
  let ?st = "set_baseline demo_card (save_upsert demo_card (save_upsert demo_sibling demo_save))"
  have quiet: "\<not> v_has_unsaved_changes (ui_view (ss_ui ?st))" "ms_pending (ui_moves (ss_ui ?st)) = None"
    by (simp_all add: set_baseline_def save_upsert_def demo_save_def demo_ui_def)
  have "\<exists>st1. select_saved demo_save_env 1 ?st = Ok st1 \<and> ss_app st1 = ss_app ?st \<and> ed_is_editing (ss_editor st1)"
    using quiet by (simp add: select_saved_def on_save_ui_def set_selection_def guarded_def confirm_discard_changes_def
        flush_pending_priority_def flush_burst_def flush_sync_take_def cancel_priority_timer_def)
  then obtain st1 where st1: "select_saved demo_save_env 1 ?st = Ok st1" "ss_app st1 = ss_app ?st" "ed_is_editing (ss_editor st1)"
    by (elim exE conjE)
  have "\<not> app_connected (ss_app st1)" unfolding st1(2) by (simp add: app_upsert_def)
  then have "\<exists>st'. finish_rebalanced demo_save_env True demo_card [demo_sibling] demo_save = Ok st'"
    using st1(1,3) by (simp add: finish_rebalanced_def save_push_def push_card_or_queue_def stay_or_close_def Let_def)
  then obtain st' where st': "finish_rebalanced demo_save_env True demo_card [demo_sibling] demo_save = Ok st'" ..
  have "demo_sibling \<in> set [demo_sibling]" "distinct (map card_id ([demo_sibling] @ [demo_card]))"
    by (simp_all add: demo_sibling_id)
  from offline_rebalance_forgets_shifts[OF st' demo_save_fields(7) this] st'
  show ?thesis by (simp add: demo_save_def demo_offline_def)
qed

end
