(* ===== verification/Connection.thy ===== *)
theory Connection
  imports Client_Offline Rust_Text
begin

text \<open>
  The start and the connection of the web client (clients/wasm/src/app.rs): which caches are loaded,
  the countdown tick, and \<open>connection_loop\<close> with the attempts it spawns, the page's events and the
  synchronisations that run beside it. These are tasks that interleave at their awaits: the loop, each
  attempt and each synchronisation takes a step at a time in any order. An attempt that the loop has
  given up is not cancelled and keeps taking steps.
\<close>

section \<open>Caches at the start\<close>

record startup =
  su_app :: app_state
  su_link_cache :: link_graph_cache

text \<open>The derived caches are loaded before the main file and kept only with it; a stale schema clears
  all of them. The queue is loaded in any case. The link cache of a new state is empty.\<close>

definition load_caches ::
  "('w, 'm, 'n) client_env \<Rightarrow> (bytes \<Rightarrow> history_cache option) \<Rightarrow> (bytes \<Rightarrow> link_graph_cache option)
   \<Rightarrow> (bytes \<Rightarrow> card list option) \<Rightarrow> app_state \<Rightarrow> startup" where
  "load_caches env decode_history decode_links decode_queue app =
     (let su =
            (if cache_schema_matches env app then
               let app = app\<lparr>app_history := load_history_cache decode_history (app_disk app) (app_history app)\<rparr>;
                   links = load_link_cache decode_links (app_disk app);
                   (loaded_main, app) = load_local_state env app
               in if loaded_main then \<lparr>su_app = app, su_link_cache = links\<rparr>
                  else case clear_history_cache (app_history app, app_disk app) of
                    (history, disk) \<Rightarrow>
                      \<lparr>su_app = app\<lparr>app_history := history, app_disk := clear_link_cache disk\<rparr>, su_link_cache = []\<rparr>
             else case clear_all_caches (app_history app, app_disk app) of
               (history, disk) \<Rightarrow>
                 \<lparr>su_app = app\<lparr>app_history := history, app_disk := disk\<rparr>, su_link_cache = []\<rparr>);
          app = su_app su
      in su\<lparr>su_app := app\<lparr>app_offline_queue := load_offline_queue decode_queue (app_disk app)\<rparr>\<rparr>)"

section \<open>Addresses\<close>

text \<open>The page's location, as far as it is asked for; the parts of the WebTransport URL, \<open>None\<close> if it is
  no URL. Adding to a port panics on overflow.\<close>

record location =
  loc_protocol :: string
  loc_origin :: string
  loc_hostname :: "string option"
  loc_port :: string

definition cert_hash_url :: "location \<Rightarrow> (string \<times> string) option \<Rightarrow> (string, string) outcome" where
  "cert_hash_url loc wt_url =
     (if loc_protocol loc = ''https:'' then Ok (loc_origin loc @ ''/cert-hash'')
      else case wt_url of
        None \<Rightarrow> Err ''invalid server URL''
      | Some (host, port) \<Rightarrow>
          let wt_port = (case parse_u16 port of Some p \<Rightarrow> uint p | None \<Rightarrow> 443)
          in if wt_port + 200 \<ge> 65536 then Panic
             else Ok (''http://'' @ host @ '':'' @ nat_digits (nat (wt_port + 200)) @ ''/cert-hash''))"

definition config_url :: "location \<Rightarrow> string" where
  "config_url loc =
     (if loc_protocol loc = ''https:'' then loc_origin loc @ ''/config''
      else
        let host = (case loc_hostname loc of Some h \<Rightarrow> h | None \<Rightarrow> ''127.0.0.1'');
            page_port = (case parse_u16 (loc_port loc) of Some p \<Rightarrow> p | None \<Rightarrow> 47800);
            http_port = page_port - 200
        in ''http://'' @ host @ '':'' @ nat_digits (unat http_port) @ ''/config'')"

section \<open>State\<close>

text \<open>Where an attempt awaits: the certificate hash, the handshake, its first synchronisation, the flush of
  the offline queue, the subscription, a notification, and the synchronisation after one.\<close>

datatype stage =
  Spawned | FetchingHash | Handshaking | FirstSync | Flushing | Subscribing | Serving | Resyncing | Ended

text \<open>Where the loop waits: after so many checks of an attempt, for a running connection, or in the
  countdown with so many seconds to go.\<close>

datatype phase = Waiting nat | Running | Counting nat

record conn =
  cn_status :: connection_status
  cn_client :: "nat option"
  cn_request :: bool
  cn_reconnect_countdown :: nat
  cn_phase :: phase
  cn_attempt :: nat
  cn_stages :: "nat \<Rightarrow> stage"
  cn_side_syncs :: nat
  cn_burst_countdown_ms :: nat
  cn_auto_sync_enabled :: bool
  cn_auto_sync_interval_ms :: nat
  cn_auto_sync_countdown_ms :: nat

definition CONNECT_TIMEOUT_SECS :: nat where "CONNECT_TIMEOUT_SECS = 15"
definition RETRY_SECS :: nat where "RETRY_SECS = 5"

definition finished :: "conn \<Rightarrow> bool" where
  "finished c \<longleftrightarrow> cn_stages c (cn_attempt c) = Ended"

section \<open>The loop\<close>

text \<open>The start of a round; the attempt is a new task.\<close>

definition start_attempt :: "conn \<Rightarrow> conn" where
  "start_attempt c =
     c\<lparr>cn_status := Connecting, cn_reconnect_countdown := 0, cn_request := False,
       cn_attempt := cn_attempt c + 1, cn_stages := (cn_stages c)(cn_attempt c + 1 := Spawned),
       cn_phase := Waiting 0\<rparr>"

definition end_round :: "conn \<Rightarrow> conn" where
  "end_round c = c\<lparr>cn_status := Disconnected, cn_reconnect_countdown := RETRY_SECS, cn_phase := Counting RETRY_SECS\<rparr>"

text \<open>What the loop does when its sleep ends; the sleep of each phase in milliseconds.\<close>

definition loop_wakes :: "conn \<Rightarrow> conn" where
  "loop_wakes c =
     (case cn_phase c of
        Waiting checks \<Rightarrow>
          if finished c then end_round c
          else if cn_request c then end_round (c\<lparr>cn_request := False\<rparr>)
          else if cn_status c = Connected \<or> cn_status c = Syncing then c\<lparr>cn_phase := Running\<rparr>
          else if checks + 1 \<ge> CONNECT_TIMEOUT_SECS * 10 then end_round c
          else c\<lparr>cn_phase := Waiting (checks + 1)\<rparr>
      | Running \<Rightarrow>
          if cn_request c then end_round (c\<lparr>cn_request := False\<rparr>)
          else if finished c then end_round c
          else c
      | Counting remaining \<Rightarrow>
          if cn_request c then start_attempt (c\<lparr>cn_request := False\<rparr>)
          else if remaining > 1 then c\<lparr>cn_reconnect_countdown := remaining - 1, cn_phase := Counting (remaining - 1)\<rparr>
          else start_attempt c)"

fun sleep_of :: "phase \<Rightarrow> nat" where
  "sleep_of (Waiting _) = 100"
| "sleep_of Running = 200"
| "sleep_of (Counting _) = 1000"

section \<open>Attempts\<close>

text \<open>The next await of \<open>connect_and_run\<close> returns, with a success or a failure. While it serves, a
  success is a notification of a new root.\<close>

definition attempt_step :: "nat \<Rightarrow> bool \<Rightarrow> conn \<Rightarrow> conn" where
  "attempt_step k ok c =
     (let goto = (\<lambda>s c. c\<lparr>cn_stages := (cn_stages c)(k := s)\<rparr>) in
      case cn_stages c k of
        Spawned \<Rightarrow> goto FetchingHash (c\<lparr>cn_client := None\<rparr>)
      | FetchingHash \<Rightarrow> if ok then goto Handshaking c else goto Ended c
      | Handshaking \<Rightarrow> if ok then goto FirstSync (c\<lparr>cn_status := Syncing\<rparr>) else goto Ended c
      | FirstSync \<Rightarrow> if ok then goto Flushing (c\<lparr>cn_client := Some k, cn_status := Connected\<rparr>) else goto Ended c
      | Flushing \<Rightarrow> goto Subscribing c
      | Subscribing \<Rightarrow> if ok then goto Serving c else goto Ended c
      | Serving \<Rightarrow> if ok then goto Resyncing (c\<lparr>cn_status := Syncing\<rparr>) else goto Ended c
      | Resyncing \<Rightarrow> if ok then goto Serving (c\<lparr>cn_status := Connected\<rparr>) else goto Ended c
      | Ended \<Rightarrow> c)"

text \<open>What a synchronisation does before its end, in attempt \<open>k\<close> or beside the loop: a mismatch of the
  root hashes starts it over, in full, and the changes it got restart the countdown to the next.\<close>

definition sync_runs :: "nat \<Rightarrow> conn \<Rightarrow> bool" where
  "sync_runs k c \<longleftrightarrow> cn_stages c k = FirstSync \<or> cn_stages c k = Resyncing \<or> cn_side_syncs c > 0"

definition sync_starts_over :: "nat \<Rightarrow> conn \<Rightarrow> conn" where
  "sync_starts_over k c = (if sync_runs k c then c\<lparr>cn_status := Syncing\<rparr> else c)"

definition sync_applies :: "nat \<Rightarrow> conn \<Rightarrow> conn" where
  "sync_applies k c =
     (if sync_runs k c then c\<lparr>cn_auto_sync_countdown_ms := cn_auto_sync_interval_ms c\<rparr> else c)"

section \<open>Events and other synchronisations\<close>

definition request_reconnect :: "conn \<Rightarrow> conn" where
  "request_reconnect c = c\<lparr>cn_request := True\<rparr>"

text \<open>\<open>online\<close>, and \<open>visibilitychange\<close> to a visible page.\<close>

definition page_returns :: "conn \<Rightarrow> conn" where
  "page_returns c =
     (if cn_status c = Disconnected \<or> cn_status c = Connecting then request_reconnect c else c)"

text \<open>A synchronisation beside the loop begins and ends; whatever its result, it ends in \<open>Connected\<close>.\<close>

definition side_sync_starts :: "conn \<Rightarrow> conn" where
  "side_sync_starts c =
     (if cn_client c = None then c else c\<lparr>cn_status := Syncing, cn_side_syncs := cn_side_syncs c + 1\<rparr>)"

definition side_sync_ends :: "conn \<Rightarrow> conn" where
  "side_sync_ends c =
     (if cn_side_syncs c = 0 then c else c\<lparr>cn_status := Connected, cn_side_syncs := cn_side_syncs c - 1\<rparr>)"

text \<open>A click on the indicator.\<close>

definition indicator_click :: "conn \<Rightarrow> conn" where
  "indicator_click c =
     (case cn_status c of
        Connected \<Rightarrow> side_sync_starts c
      | Disconnected \<Rightarrow> request_reconnect c
      | _ \<Rightarrow> c)"

text \<open>The tick of every 100 milliseconds.\<close>

definition countdown_tick :: "conn \<Rightarrow> conn" where
  "countdown_tick c =
     (let ms = cn_burst_countdown_ms c;
          c = (if ms > 0 then c\<lparr>cn_burst_countdown_ms := ms - 100\<rparr> else c);
          enabled = cn_auto_sync_enabled c;
          connected = (cn_status c = Connected)
      in if \<not> enabled \<or> \<not> connected then c\<lparr>cn_auto_sync_countdown_ms := 0\<rparr>
         else
           let current_ms = cn_auto_sync_countdown_ms c
           in if current_ms = 0 then c\<lparr>cn_auto_sync_countdown_ms := cn_auto_sync_interval_ms c\<rparr>
              else if current_ms \<le> 100 then side_sync_starts (c\<lparr>cn_auto_sync_countdown_ms := 0\<rparr>)
              else c\<lparr>cn_auto_sync_countdown_ms := current_ms - 100\<rparr>)"

text \<open>The state in which the loop is entered, with the settings of the automatic synchronisation.\<close>

definition conn_init :: "bool \<Rightarrow> nat \<Rightarrow> conn" where
  "conn_init enabled interval_ms =
     start_attempt
       \<lparr>cn_status = Disconnected, cn_client = None, cn_request = False, cn_reconnect_countdown = 0,
        cn_phase = Counting 1, cn_attempt = 0, cn_stages = (\<lambda>_. Ended), cn_side_syncs = 0,
        cn_burst_countdown_ms = 0, cn_auto_sync_enabled = enabled, cn_auto_sync_interval_ms = interval_ms,
        cn_auto_sync_countdown_ms = 0\<rparr>"

section \<open>Interleaving\<close>

text \<open>A step of a task other than the loop; \<open>hung k\<close> holds of the attempts that take none.\<close>

inductive other_step :: "(nat \<Rightarrow> bool) \<Rightarrow> conn \<Rightarrow> conn \<Rightarrow> bool" for hung where
  attempt: "\<not> hung k \<Longrightarrow> other_step hung c (attempt_step k ok c)"
| starts_over: "other_step hung c (sync_starts_over k c)"
| applies: "other_step hung c (sync_applies k c)"
| returns: "other_step hung c (page_returns c)"
| click: "other_step hung c (indicator_click c)"
| tick: "other_step hung c (countdown_tick c)"
| sync_ends: "other_step hung c (side_sync_ends c)"

inductive conn_run :: "(nat \<Rightarrow> bool) \<Rightarrow> conn \<Rightarrow> conn \<Rightarrow> bool" for hung c where
  begins: "conn_run hung c c"
| wakes: "conn_run hung c c1 \<Longrightarrow> conn_run hung c (loop_wakes c1)"
| others: "conn_run hung c c1 \<Longrightarrow> other_step hung c1 c2 \<Longrightarrow> conn_run hung c c2"

inductive_simps other_step_iff: "other_step hung c c'"

lemma other_step_effects:
  "other_step hung c c' \<Longrightarrow> cn_phase c' = cn_phase c \<and> cn_attempt c' = cn_attempt c"
  by (induction rule: other_step.induct)
    (auto simp: attempt_step_def sync_starts_over_def sync_applies_def page_returns_def request_reconnect_def
      indicator_click_def side_sync_starts_def countdown_tick_def side_sync_ends_def Let_def
      split: stage.split connection_status.split)

end
