(* ===== verification/Connection_Properties.thy ===== *)
theory Connection_Properties
  imports Connection
begin

text \<open>
  The properties of the start and of the connection loop: what survives a start, how soon the loop
  tries again, which client requests may use, and the two ways in which an attempt escapes the loop.
\<close>

section \<open>The start\<close>

lemma local_disk: "fst (load_local_state env ((app :: app_state)\<lparr>app_history := h\<rparr>)) = fst (load_local_state env app)"
  "app_disk (snd (load_local_state env app)) = app_disk app"
  "app_history (snd (load_local_state env app)) = app_history app"
  by (simp_all add: load_local_state_def Let_def)

lemma queue_after_deletes [simp]:
  "load_offline_queue decode (opfs_delete HISTORY_FILENAME fs) = load_offline_queue decode fs"
  "load_offline_queue decode (opfs_delete LINK_CACHE_FILENAME fs) = load_offline_queue decode fs"
  by (simp_all add: load_offline_queue_def opfs_read_bytes_def opfs_read_def opfs_delete_def)

text \<open>Whatever is on the disk, the start loads the offline queue that is there; and the derived caches
  are empty unless the schema stamp is this build's and the main file was loaded, so that no history or
  links are shown beside an empty list.\<close>

theorem start_keeps_the_queue:
  fixes app :: app_state
  shows "app_offline_queue (su_app (load_caches env dh dl dq app)) = load_offline_queue dq (app_disk app) \<and>
   (if cache_schema_matches env app \<and> fst (load_local_state env app)
    then su_link_cache (load_caches env dh dl dq app) = load_link_cache dl (app_disk app)
    else su_link_cache (load_caches env dh dl dq app) = [] \<and>
      app_history (su_app (load_caches env dh dl dq app)) = history_default)"
proof -
  let ?h = "load_history_cache dh (app_disk app) (app_history app)"
  obtain loaded app1 where l: "load_local_state env (app\<lparr>app_history := ?h\<rparr>) = (loaded, app1)" by fastforce
  have f: "loaded = fst (load_local_state env app)" "app_disk app1 = app_disk app" "app_history app1 = ?h"
    using local_disk(1)[of env ?h app] local_disk(2,3)[of env "app\<lparr>app_history := ?h\<rparr>"] l by simp_all
  show ?thesis
  proof (cases "cache_schema_matches env app")
    case True
    then show ?thesis using l f by (simp add: load_caches_def Let_def clear_history_cache_def clear_link_cache_def)
  next
    case False
    then show ?thesis
      using queue_survives_clear_all_caches[of dq "app_history app" "app_disk app"]
      by (simp add: load_caches_def Let_def clear_all_caches_def clear_history_cache_def)
  qed
qed

lemmas conn_defs = conn_init_def start_attempt_def end_round_def loop_wakes_def finished_def attempt_step_def
  page_returns_def request_reconnect_def CONNECT_TIMEOUT_SECS_def RETRY_SECS_def Let_def

lemmas side_defs = sync_starts_over_def sync_runs_def sync_applies_def indicator_click_def side_sync_starts_def
  countdown_tick_def side_sync_ends_def

section \<open>Histories\<close>

text \<open>What happens, one step of one task each: the loop wakes, an await of an attempt returns, a synchronisation
  starts over, applies what it got or, beside the loop, ends; the page returns, the indicator is clicked,
  the countdown ticks. A history is a list of events; every run is the run of one.\<close>

datatype event =
  Wake | Answer nat bool | StartsOver nat | Applies nat | Return | Click | Tick | SyncEnds

fun happens :: "event \<Rightarrow> conn \<Rightarrow> conn" where
  "happens Wake c = loop_wakes c"
| "happens (Answer k ok) c = attempt_step k ok c"
| "happens (StartsOver k) c = sync_starts_over k c"
| "happens (Applies k) c = sync_applies k c"
| "happens Return c = page_returns c"
| "happens Click c = indicator_click c"
| "happens Tick c = countdown_tick c"
| "happens SyncEnds c = side_sync_ends c"

lemma conn_run_history:
  "conn_run hung c c' \<longleftrightarrow> (\<exists>es. (\<forall>k ok. Answer k ok \<in> set es \<longrightarrow> \<not> hung k) \<and> c' = fold happens es c)"
proof
  assume "conn_run hung c c'"
  then show "\<exists>es. (\<forall>k ok. Answer k ok \<in> set es \<longrightarrow> \<not> hung k) \<and> c' = fold happens es c"
  proof (induction rule: conn_run.induct)
    case begins
    show ?case by (rule exI[of _ "[]"]) simp
  next
    case (wakes c1)
    then obtain es where "\<forall>k ok. Answer k ok \<in> set es \<longrightarrow> \<not> hung k" "c1 = fold happens es c" by blast
    then show ?case by (intro exI[of _ "es @ [Wake]"]) simp
  next
    case (others c1 c2)
    then obtain es where es: "\<forall>k ok. Answer k ok \<in> set es \<longrightarrow> \<not> hung k" "c1 = fold happens es c" by blast
    from others(2) obtain e where "c2 = happens e c1" "\<forall>k ok. e = Answer k ok \<longrightarrow> \<not> hung k"
      by (cases rule: other_step.cases) (metis happens.simps event.distinct event.inject)+
    then show ?case using es by (intro exI[of _ "es @ [e]"]) auto
  qed
next
  have "conn_run hung c (fold happens es c1)"
    if "conn_run hung c c1" "\<forall>k ok. Answer k ok \<in> set es \<longrightarrow> \<not> hung k" for es c1
    using that
  proof (induction es arbitrary: c1)
    case (Cons e es)
    have "conn_run hung c (happens e c1)"
      using Cons.prems by (cases e) (auto intro: conn_run.intros other_step.intros)
    then have "conn_run hung c (fold happens es (happens e c1))" by (rule Cons.IH) (use Cons.prems(2) in auto)
    then show ?case by simp
  qed simp
  then show "conn_run hung c c'" if "\<exists>es. (\<forall>k ok. Answer k ok \<in> set es \<longrightarrow> \<not> hung k) \<and> c' = fold happens es c"
    using that conn_run.begins by blast
qed

lemma happens_run:
  "(\<And>k ok. Answer k ok \<in> set es \<Longrightarrow> \<not> hung k) \<Longrightarrow> conn_run hung c (fold happens es c)"
  using conn_run_history by blast

definition connects :: "nat \<Rightarrow> event list" where
  "connects k = [Answer k True, Answer k True, Answer k True, Answer k True]"

section \<open>How soon the loop tries again\<close>

text \<open>Nothing is connected: no attempt has come through its handshake and not ended since, and no synchronisation
  that was started beside the loop is still under way.\<close>

definition unconnected :: "conn \<Rightarrow> bool" where
  "unconnected c \<longleftrightarrow>
     cn_side_syncs c = 0 \<and> (\<forall>k. cn_stages c k \<in> {Spawned, FetchingHash, Connection.Handshaking, Ended})"

text \<open>The time that passes in the loop's sleeps until it starts another attempt, with nothing connected;
  everything else happens in between.\<close>

inductive waiting_run :: "conn \<Rightarrow> nat \<Rightarrow> conn \<Rightarrow> bool" for c where
  begins: "unconnected c \<Longrightarrow> waiting_run c 0 c"
| wakes: "waiting_run c t c1 \<Longrightarrow> cn_attempt c1 = cn_attempt c \<Longrightarrow>
     waiting_run c (t + sleep_of (cn_phase c1)) (loop_wakes c1)"
| others: "waiting_run c t c1 \<Longrightarrow> e \<noteq> Wake \<Longrightarrow> c2 = happens e c1 \<Longrightarrow> unconnected c2 \<Longrightarrow> waiting_run c t c2"

fun time_left :: "phase \<Rightarrow> nat" where
  "time_left (Waiting checks) = (150 - checks) * 100 + 5000"
| "time_left Running = 0"
| "time_left (Counting remaining) = remaining * 1000"

fun phase_ok :: "phase \<Rightarrow> bool" where
  "phase_ok (Waiting checks) \<longleftrightarrow> checks < 150"
| "phase_ok Running \<longleftrightarrow> False"
| "phase_ok (Counting remaining) \<longleftrightarrow> 0 < remaining"

definition trying :: "conn \<Rightarrow> bool" where
  "trying c \<longleftrightarrow> unconnected c \<and> phase_ok (cn_phase c) \<and> cn_status c \<noteq> Connected \<and> cn_status c \<noteq> Syncing"

lemma loop_wakes_time:
  assumes "trying c"
  shows "trying (loop_wakes c) \<and>
    (cn_attempt (loop_wakes c) \<noteq> cn_attempt c \<or>
     sleep_of (cn_phase c) + time_left (cn_phase (loop_wakes c)) \<le> time_left (cn_phase c)) \<and>
    sleep_of (cn_phase c) \<le> time_left (cn_phase c)"
  using assms by (cases "cn_phase c") (auto simp: trying_def unconnected_def conn_defs)

lemma other_keeps_trying:
  assumes "trying c" "unconnected (happens e c)" "e \<noteq> Wake"
  shows "trying (happens e c) \<and> cn_phase (happens e c) = cn_phase c \<and> cn_attempt (happens e c) = cn_attempt c"
proof (cases e)
  case (Answer k ok)
  have "cn_stages c k \<in> {Spawned, FetchingHash, Connection.Handshaking, Ended}" using assms(1) by (simp add: trying_def unconnected_def)
  moreover have "cn_stages (attempt_step k ok c) k \<in> {Spawned, FetchingHash, Connection.Handshaking, Ended}"
    using assms(2) Answer by (simp add: unconnected_def)
  ultimately show ?thesis using assms(1,2) Answer by (auto simp: trying_def attempt_step_def Let_def split: if_splits)
next
  case (StartsOver k)
  have "cn_stages c k \<in> {Spawned, FetchingHash, Connection.Handshaking, Ended}" "cn_side_syncs c = 0"
    using assms(1) by (simp_all add: trying_def unconnected_def)
  then have "\<not> sync_runs k c" by (auto simp: sync_runs_def)
  then show ?thesis using assms(1) StartsOver by (simp add: sync_starts_over_def)
qed (use assms in \<open>auto simp: trying_def unconnected_def side_defs page_returns_def request_reconnect_def Let_def
    split: connection_status.splits\<close>)

lemma waiting_run_time:
  "waiting_run c t c' \<Longrightarrow> phase_ok (cn_phase c) \<Longrightarrow> cn_status c \<noteq> Connected \<Longrightarrow> cn_status c \<noteq> Syncing \<Longrightarrow>
   t \<le> time_left (cn_phase c) \<and> trying c' \<and>
   (cn_attempt c' = cn_attempt c \<longrightarrow> t + time_left (cn_phase c') \<le> time_left (cn_phase c))"
proof (induction rule: waiting_run.induct)
  case begins
  then show ?case by (simp add: trying_def)
next
  case (wakes t c1)
  then show ?case using loop_wakes_time[of c1] by auto
next
  case (others t c1 e c2)
  then show ?case using other_keeps_trying[of c1 e] by simp
qed

text \<open>C39: From the start of an attempt the loop starts another within 20 seconds, the wake that starts it
  included, unless something gets connected meanwhile: an attempt comes through its handshake, or a
  synchronisation is under way that was started beside the loop on an earlier connection. What
  else the attempts, the page and the user do makes no difference.\<close>

theorem retries_within_20_seconds:
  assumes "waiting_run (start_attempt c) t c'"
  shows "t \<le> 20000"
  using waiting_run_time[OF assms] by (simp add: start_attempt_def)

text \<open>An attempt whose hash fetch hangs: 150 checks, five seconds of countdown, and the next attempt.\<close>

lemma demo_waits:
  "n \<le> 149 \<Longrightarrow> waiting_run (conn_init True 60000) (n * 100) (conn_init True 60000\<lparr>cn_phase := Waiting n\<rparr>)"
proof (induction n)
  case 0
  have "waiting_run (conn_init True 60000) 0 (conn_init True 60000)"
    by (rule waiting_run.begins) (auto simp: unconnected_def conn_defs)
  then show ?case by (simp add: conn_init_def start_attempt_def)
next
  case (Suc n)
  let ?c = "conn_init True 60000\<lparr>cn_phase := Waiting n\<rparr>"
  have "waiting_run (conn_init True 60000) (n * 100 + sleep_of (cn_phase ?c)) (loop_wakes ?c)"
    using Suc by (intro waiting_run.wakes) simp_all
  moreover have "loop_wakes ?c = conn_init True 60000\<lparr>cn_phase := Waiting (Suc n)\<rparr>"
    using Suc.prems by (simp add: conn_defs)
  ultimately show ?case by (simp add: add.commute)
qed

theorem retries_within_20_seconds_witness:
  "\<exists>c'. waiting_run (conn_init True 60000) (149 * 100 + 100 + 5 * 1000) c' \<and> cn_attempt c' = 2 \<and>
    149 * 100 + 100 + 5 * 1000 \<le> (20000::nat)"
proof -
  let ?init = "conn_init True 60000"
  let ?c = "\<lambda>n. ?init\<lparr>cn_status := Disconnected, cn_reconnect_countdown := n, cn_phase := Counting n\<rparr>"
  have w: "waiting_run ?init (149 * 100) (?init\<lparr>cn_phase := Waiting 149\<rparr>)" by (rule demo_waits) simp
  have "waiting_run ?init (149 * 100 + 100) (?c 5)"
    using waiting_run.wakes[OF w] by (simp add: conn_defs)
  from waiting_run.wakes[OF this] have "waiting_run ?init (149 * 100 + 100 + 1000) (?c 4)" by (simp add: conn_defs)
  from waiting_run.wakes[OF this] have "waiting_run ?init (149 * 100 + 100 + 2 * 1000) (?c 3)" by (simp add: conn_defs)
  from waiting_run.wakes[OF this] have "waiting_run ?init (149 * 100 + 100 + 3 * 1000) (?c 2)" by (simp add: conn_defs)
  from waiting_run.wakes[OF this] have "waiting_run ?init (149 * 100 + 100 + 4 * 1000) (?c 1)" by (simp add: conn_defs)
  from waiting_run.wakes[OF this]
  have run: "waiting_run ?init (149 * 100 + 100 + 5 * 1000) (loop_wakes (?c 1))" by (simp add: conn_defs)
  moreover have "cn_attempt (loop_wakes (?c 1)) = 2" by (simp add: conn_defs)
  moreover have "149 * 100 + 100 + 5 * 1000 \<le> (20000::nat)"
    by (rule retries_within_20_seconds[OF run[unfolded conn_init_def]])
  ultimately show ?thesis by blast
qed

section \<open>The client that requests use\<close>

lemma client_changes:
  assumes "cn_client (happens e c) = Some k"
  shows "e = Answer k True \<and> cn_stages c k = FirstSync \<or>
    cn_client c = Some k \<and> (\<forall>j ok. e = Answer j ok \<longrightarrow> cn_stages c j \<noteq> Spawned)"
proof (cases e)
  case (Answer j ok)
  then show ?thesis using assms by (cases "cn_stages c j") (auto simp: attempt_step_def Let_def split: if_splits)
qed (use assms in \<open>auto simp: side_defs page_returns_def request_reconnect_def loop_wakes_def end_round_def
    start_attempt_def Let_def split: connection_status.splits phase.splits if_splits\<close>)

text \<open>C40: The client that the rest of the program uses is one whose first synchronisation has succeeded, and
  since then no attempt has begun to connect: in every history that leaves such a client there is the
  moment when its attempt awaited its first synchronisation and that returned with success, and after it
  no attempt took its first step.\<close>

theorem client_has_synchronised:
  assumes "cn_client (fold happens es (conn_init enabled interval_ms)) = Some k"
  shows "\<exists>pre post. es = pre @ Answer k True # post \<and>
    cn_stages (fold happens pre (conn_init enabled interval_ms)) k = FirstSync \<and>
    (\<forall>mid j ok rest. post = mid @ Answer j ok # rest \<longrightarrow>
       cn_stages (fold happens (pre @ Answer k True # mid) (conn_init enabled interval_ms)) j \<noteq> Spawned)"
  using assms
proof (induction es rule: rev_induct)
  case Nil
  then show ?case by (simp add: conn_init_def start_attempt_def)
next
  case (snoc e es)
  let ?c = "fold happens es (conn_init enabled interval_ms)"
  have "cn_client (happens e ?c) = Some k" using snoc.prems by simp
  from client_changes[OF this] show ?case
  proof (elim disjE conjE)
    assume "e = Answer k True" "cn_stages ?c k = FirstSync"
    then show ?thesis by (intro exI[of _ es] exI[of _ "[]"]) simp
  next
    assume client: "cn_client ?c = Some k" and first: "\<forall>j ok. e = Answer j ok \<longrightarrow> cn_stages ?c j \<noteq> Spawned"
    from snoc.IH[OF client] obtain pre post where split: "es = pre @ Answer k True # post"
      and sync: "cn_stages (fold happens pre (conn_init enabled interval_ms)) k = FirstSync"
      and later: "\<And>mid j ok rest. post = mid @ Answer j ok # rest \<Longrightarrow>
        cn_stages (fold happens (pre @ Answer k True # mid) (conn_init enabled interval_ms)) j \<noteq> Spawned" by blast
    have "cn_stages (fold happens (pre @ Answer k True # mid) (conn_init enabled interval_ms)) j \<noteq> Spawned"
      if "post @ [e] = mid @ Answer j ok # rest" for mid j ok rest
    proof (cases rest rule: rev_cases)
      case Nil
      then show ?thesis using that first split by auto
    next
      case (snoc rest' x)
      then have "post = mid @ Answer j ok # rest'" using that by simp
      then show ?thesis by (rule later)
    qed
    then show ?thesis using split sync by (intro exI[of _ pre] exI[of _ "post @ [e]"]) simp
  qed
qed

theorem client_has_synchronised_witness:
  "cn_client (fold happens (connects 1 @ [Answer 1 True, Answer 1 True]) (conn_init True 60000)) = Some 1 \<and>
   (\<exists>pre post. connects 1 @ [Answer 1 True, Answer 1 True] = pre @ Answer 1 True # post \<and>
     cn_stages (fold happens pre (conn_init True 60000)) 1 = FirstSync)"
proof -
  have "cn_client (fold happens (connects 1 @ [Answer 1 True, Answer 1 True]) (conn_init True 60000)) = Some 1"
    by (simp add: connects_def conn_defs)
  with client_has_synchronised[OF this] show ?thesis by blast
qed

section \<open>Attempts that escape the loop\<close>

text \<open>A run that can still do anything but let attempt 2 take a step.\<close>

definition stale_sync :: "event list" where
  "stale_sync = connects 1 @ [Answer 1 True, Answer 1 True, Wake, Click, Answer 1 False] @ replicate 6 Wake @
     [Answer 2 True, SyncEnds, Wake]"

lemma stale_sync_state:
  "fold happens stale_sync (conn_init enabled interval_ms) =
     conn_init enabled interval_ms\<lparr>cn_status := Connected, cn_client := None, cn_phase := Running, cn_attempt := 2,
       cn_stages := (\<lambda>_. Ended)(1 := Ended, 2 := FetchingHash)\<rparr>"
  by (simp add: stale_sync_def connects_def conn_defs side_defs numeral_eq_Suc fun_eq_iff)

text \<open>C23: A synchronisation that was started on a connection which is then lost stops the retries: it ends in
  \<open>Connected\<close> whatever became of it, the loop takes that for the next attempt and goes to its running
  phase, without the time limit. While that attempt waits for the certificate hash there is no client, and
  no return of the page, click, tick or synchronisation makes the loop try again.\<close>

theorem stale_sync_stops_retries:
  assumes "conn_run (\<lambda>j. j = 2) (fold happens stale_sync (conn_init enabled interval_ms)) c"
  shows "cn_phase c = Running \<and> cn_attempt c = 2 \<and> cn_stages c 2 = FetchingHash \<and> cn_client c = None \<and>
    cn_status c = Connected \<and> unconnected c"
proof -
  have "cn_phase c = Running \<and> cn_attempt c = 2 \<and> cn_stages c 2 = FetchingHash \<and> cn_client c = None \<and>
    cn_status c = Connected \<and> cn_side_syncs c = 0 \<and> (\<forall>k. k \<noteq> 2 \<longrightarrow> cn_stages c k = Ended) \<and> \<not> cn_request c"
    using assms
  proof (induction rule: conn_run.induct)
    case begins
    show ?case unfolding stale_sync_state by (simp add: conn_defs)
  next
    case (wakes c1)
    then show ?case by (auto simp: loop_wakes_def finished_def)
  next
    case (others c1 c2)
    have "\<not> sync_runs k c1" for k using others(3) by (cases "k = 2") (auto simp: sync_runs_def)
    with others(2,3) show ?case
      by (cases rule: other_step.cases)
        (auto simp: sync_starts_over_def sync_applies_def indicator_click_def side_sync_starts_def countdown_tick_def
          side_sync_ends_def attempt_step_def page_returns_def Let_def split: stage.splits if_splits)
  qed
  then show ?thesis unfolding unconnected_def by (metis insertCI)
qed

theorem stale_sync_stops_retries_witness:
  "cn_phase (fold happens [Wake, Return, Click, Tick, Wake] (fold happens stale_sync (conn_init True 60000))) = Running"
proof -
  have "conn_run (\<lambda>j. j = 2) (fold happens stale_sync (conn_init True 60000))
      (fold happens [Wake, Return, Click, Tick, Wake] (fold happens stale_sync (conn_init True 60000)))"
    by (rule happens_run) auto
  from stale_sync_stops_retries[OF this] show ?thesis by blast
qed

text \<open>The time limit ends with the handshake: when the first synchronisation never returns, the loop
  waits for it for good. No return of the page, click, tick or other synchronisation makes it try again.\<close>

theorem hung_first_sync_is_never_retried:
  assumes "conn_run (\<lambda>j. j = cn_attempt c) c c'" "cn_phase c = Running" "\<not> cn_request c"
    "cn_stages c (cn_attempt c) = FirstSync" "cn_status c = Syncing"
  shows "cn_phase c' = Running \<and> cn_attempt c' = cn_attempt c \<and> cn_stages c' (cn_attempt c) = FirstSync"
proof -
  have "cn_phase c' = Running \<and> cn_attempt c' = cn_attempt c \<and> \<not> cn_request c' \<and>
      cn_stages c' (cn_attempt c) = FirstSync \<and> (cn_status c' = Syncing \<or> cn_status c' = Connected)"
    using assms(1)
  proof (induction rule: conn_run.induct)
    case begins
    then show ?case using assms by simp
  next
    case (wakes c1)
    then show ?case by (auto simp: conn_defs)
  next
    case (others c1 c2)
    from others(2,3) show ?case
      by (cases rule: other_step.cases)
        (auto simp: conn_defs sync_starts_over_def sync_applies_def
          indicator_click_def side_sync_starts_def countdown_tick_def side_sync_ends_def
          split: stage.splits if_splits)
  qed
  then show ?thesis by simp
qed

text \<open>The handshake is answered, the loop wakes, and then wakes again after any number of returns.\<close>

theorem hung_first_sync_is_never_retried_witness:
  "cn_phase (fold happens [Return, Wake, Return, Wake] (fold happens [Answer 1 True, Answer 1 True, Answer 1 True, Wake]
     (conn_init True 60000))) = Running"
proof -
  let ?c = "fold happens [Answer 1 True, Answer 1 True, Answer 1 True, Wake] (conn_init True 60000)"
  have c: "cn_phase ?c = Running" "\<not> cn_request ?c" "cn_stages ?c (cn_attempt ?c) = FirstSync" "cn_status ?c = Syncing"
    by (simp_all add: conn_defs)
  have "conn_run (\<lambda>j. j = cn_attempt ?c) ?c (fold happens [Return, Wake, Return, Wake] ?c)"
    by (rule happens_run) auto
  from hung_first_sync_is_never_retried[OF this c] show ?thesis by simp
qed

text \<open>An attempt that the loop gives up is not cancelled: a page that returns while the first attempt
  shakes hands makes the loop start a second, and both may come to serve, each with its subscription,
  while requests use the client of the first.\<close>

theorem abandoned_attempt_takes_over:
  "\<exists>c. conn_run (\<lambda>_. False) (conn_init enabled interval_ms) c \<and> cn_attempt c = 2 \<and>
     cn_stages c 1 = Serving \<and> cn_stages c 2 = Serving \<and> cn_client c = Some 1"
proof -
  let ?es = "[Answer 1 True, Answer 1 True, Return, Wake, Return, Wake] @ connects 2 @
    [Answer 2 True, Answer 2 True, Answer 1 True, Answer 1 True, Answer 1 True, Answer 1 True]"
  let ?c = "fold happens ?es (conn_init enabled interval_ms)"
  have "conn_run (\<lambda>_. False) (conn_init enabled interval_ms) ?c" by (rule happens_run) simp
  moreover have "cn_attempt ?c = 2 \<and> cn_stages ?c 1 = Serving \<and> cn_stages ?c 2 = Serving \<and> cn_client ?c = Some 1"
    by (simp add: connects_def conn_defs)
  ultimately show ?thesis by blast
qed

end
