(* ===== verification/Tag_Editor.thy ===== *)
theory Tag_Editor
  imports Card_Editor Server_Https
begin

text \<open>
  The tag panel: the form for a new tag (\<open>NewTagForm\<close> in clients/wasm/src/components/card_detail.rs) and
  the detail view of a tag (clients/wasm/src/components/tag_detail.rs) with its inputs, the tags it
  offers, the save that takes the affected cards along, and the deletion. What is spawned runs to its
  end. The texts of errors in toasts are an argument.
\<close>

section \<open>State\<close>

record tag_inputs =
  ti_title :: string
  ti_color :: string
  ti_use_color :: bool
  ti_implies :: "uuid list"

record tag_editor =
  te_prev_tag :: "uuid option"
  te_editing :: bool
  te_inputs :: tag_inputs
  te_orig :: tag_inputs
  te_confirm_delete :: nat
  te_deleting :: bool

record 'w tag_state =
  ts_editor :: tag_editor
  ts_ui :: ui
  ts_app :: app_state
  ts_world :: 'w

record ('w, 'm, 'n) tag_env =
  tn_client :: "('w, 'm, 'n) client_env"
  tn_view :: view_env
  tn_new_uuid :: uuid
  tn_show_error :: "client_error \<Rightarrow> string"

definition gray_hex :: string where "gray_hex = ''#808080''"

definition no_inputs :: tag_inputs where
  "no_inputs = \<lparr>ti_title = [], ti_color = gray_hex, ti_use_color = False, ti_implies = []\<rparr>"

definition new_tag_editor :: tag_editor where
  "new_tag_editor =
     \<lparr>te_prev_tag = None, te_editing = False, te_inputs = no_inputs, te_orig = no_inputs,
      te_confirm_delete = 0, te_deleting = False\<rparr>"

definition set_editor :: "(tag_editor \<Rightarrow> tag_editor) \<Rightarrow> 'w tag_state \<Rightarrow> 'w tag_state" where
  "set_editor f st = st\<lparr>ts_editor := f (ts_editor st)\<rparr>"

definition set_unsaved :: "bool \<Rightarrow> 'w tag_state \<Rightarrow> 'w tag_state" where
  "set_unsaved b st = st\<lparr>ts_ui := set_view (\<lambda>v. v\<lparr>v_has_unsaved_changes := b\<rparr>) (ts_ui st)\<rparr>"

definition tag_toast :: "string \<Rightarrow> 'w tag_state \<Rightarrow> 'w tag_state" where
  "tag_toast msg st = st\<lparr>ts_app := (ts_app st)\<lparr>app_error_toast := Some msg\<rparr>\<rparr>"

definition tag_select ::
  "('w, 'm, 'n) tag_env \<Rightarrow> uuid option \<Rightarrow> 'w tag_state \<Rightarrow> (unit, bool \<times> 'w tag_state) outcome" where
  "tag_select env target st =
     map_ok (\<lambda>(selected, ui). (selected, st\<lparr>ts_ui := ui\<rparr>)) (set_selection (tn_view env) target (ts_ui st))"

text \<open>\<open>state.upsert_card\<close>: the moves see the same list.\<close>

definition tag_upsert :: "card \<Rightarrow> 'w tag_state \<Rightarrow> 'w tag_state" where
  "tag_upsert c st =
     st\<lparr>ts_app := app_upsert c (ts_app st),
        ts_ui := (ts_ui st)\<lparr>ui_moves := (ui_moves (ts_ui st))\<lparr>ms_cards := upsert_card c (app_cards (ts_app st))\<rparr>\<rparr>\<rparr>"

abbreviation ts_selected :: "'w tag_state \<Rightarrow> uuid option" where
  "ts_selected st \<equiv> v_selected_card (ui_view (ts_ui st))"

definition find_tag :: "uuid \<Rightarrow> tag list \<Rightarrow> tag option" where
  "find_tag uid tags = find (\<lambda>t. tag_id t = uid) tags"

section \<open>The inputs\<close>

definition tag_inputs_of :: "tag \<Rightarrow> tag_inputs" where
  "tag_inputs_of t =
     \<lparr>ti_title = tag_title t,
      ti_color = (case tag_color t of Some c \<Rightarrow> format_tag_hex c | None \<Rightarrow> gray_hex),
      ti_use_color = (tag_color t \<noteq> None), ti_implies = tag_implies t\<rparr>"

definition init_inputs :: "tag \<Rightarrow> tag_editor \<Rightarrow> tag_editor" where
  "init_inputs t ed = ed\<lparr>te_inputs := tag_inputs_of t, te_orig := tag_inputs_of t\<rparr>"

text \<open>The effect on the inputs, and the effect on the selection.\<close>

definition inputs_dirty :: "tag_inputs \<Rightarrow> tag_inputs \<Rightarrow> bool" where
  "inputs_dirty cur orig \<longleftrightarrow>
     ti_title cur \<noteq> ti_title orig \<or> ti_use_color cur \<noteq> ti_use_color orig \<or>
     (ti_use_color cur \<and> ti_color cur \<noteq> ti_color orig) \<or> sort (ti_implies cur) \<noteq> sort (ti_implies orig)"

definition track_dirty :: "'w tag_state \<Rightarrow> 'w tag_state" where
  "track_dirty st =
     (let ed = ts_editor st in
      if te_editing ed then set_unsaved (inputs_dirty (te_inputs ed) (te_orig ed)) st else st)"

definition selection_effect :: "'w tag_state \<Rightarrow> 'w tag_state" where
  "selection_effect st =
     (case ts_selected st of
        None \<Rightarrow> st
      | Some uid \<Rightarrow>
          (case find_tag uid (app_tags (ts_app st)) of
             None \<Rightarrow> st
           | Some t \<Rightarrow>
               if te_prev_tag (ts_editor st) \<noteq> Some uid then
                 set_editor (\<lambda>ed. init_inputs t
                     (ed\<lparr>te_editing := False, te_confirm_delete := 0, te_prev_tag := Some uid\<rparr>))
                   (set_unsaved False st)
               else st))"

definition close_tag :: "('w, 'm, 'n) tag_env \<Rightarrow> 'w tag_state \<Rightarrow> (unit, 'w tag_state) outcome" where
  "close_tag env st =
     map_ok (\<lambda>(closed, st). if closed then set_unsaved False (set_editor (\<lambda>ed. ed\<lparr>te_editing := False\<rparr>) st) else st)
       (tag_select env None st)"

definition start_editing :: "'w tag_state \<Rightarrow> 'w tag_state" where
  "start_editing st =
     (case ts_selected st of
        None \<Rightarrow> st
      | Some uid \<Rightarrow>
          (case find_tag uid (app_tags (ts_app st)) of
             None \<Rightarrow> st
           | Some t \<Rightarrow> set_editor (\<lambda>ed. (init_inputs t ed)\<lparr>te_confirm_delete := 0, te_editing := True\<rparr>) st))"

definition cancel_editing :: "('w, 'm, 'n) tag_env \<Rightarrow> 'w tag_state \<Rightarrow> 'w tag_state" where
  "cancel_editing env st =
     (if \<not> confirm_discard_changes (tn_view env) (ts_ui st) then st
      else set_unsaved False (set_editor (\<lambda>ed. ed\<lparr>te_editing := False\<rparr>) st))"

section \<open>The tags it offers and shows\<close>

text \<open>The candidates of the select element.\<close>

definition implies_candidates :: "uuid \<Rightarrow> uuid list \<Rightarrow> tag list \<Rightarrow> uuid list" where
  "implies_candidates uid current all_tags =
     (let prev_graph = graph_from_tags all_tags
      in map tag_id
           (filter (\<lambda>t. uid \<notin> set (closure_of prev_graph [tag_id t]))
             (filter (\<lambda>t. tag_id t \<noteq> uid \<and> tag_id t \<notin> set current) all_tags)))"

definition add_implied :: "uuid \<Rightarrow> tag_inputs \<Rightarrow> tag_inputs" where
  "add_implied new_id ti =
     (if new_id \<in> set (ti_implies ti) then ti else ti\<lparr>ti_implies := ti_implies ti @ [new_id]\<rparr>)"

definition remove_implied :: "uuid \<Rightarrow> tag_inputs \<Rightarrow> tag_inputs" where
  "remove_implied imp_id ti = ti\<lparr>ti_implies := filter (\<lambda>x. x \<noteq> imp_id) (ti_implies ti)\<rparr>"

definition transitive_ids :: "tag \<Rightarrow> tag list \<Rightarrow> uuid list" where
  "transitive_ids t all_tags =
     filter (\<lambda>uid. uid \<noteq> tag_id t \<and> uid \<notin> set (tag_implies t))
       (closure_of (graph_from_tags all_tags) [tag_id t])"

definition implied_by_ids :: "uuid \<Rightarrow> tag list \<Rightarrow> uuid list" where
  "implied_by_ids uid all_tags =
     (let graph = graph_from_tags all_tags
      in map tag_id (filter (\<lambda>t. tag_id t \<noteq> uid \<and> uid \<in> set (closure_of graph [tag_id t])) all_tags))"

section \<open>Saving a tag\<close>

definition sort_dedup :: "uuid list \<Rightarrow> uuid list" where
  "sort_dedup us = remdups_adj (sort us)"

definition next_graph :: "uuid \<Rightarrow> uuid list \<Rightarrow> tag list \<Rightarrow> tag_graph" where
  "next_graph uid new_implies tags = graph_upsert uid new_implies (graph_from_tags tags)"

definition affected_preview :: "'w tag_state \<Rightarrow> (uuid \<times> uuid list) list" where
  "affected_preview st =
     (if \<not> te_editing (ts_editor st) then []
      else case ts_selected st of
        None \<Rightarrow> []
      | Some uid \<Rightarrow>
          let graph = next_graph uid (sort_dedup (ti_implies (te_inputs (ts_editor st)))) (app_tags (ts_app st))
          in if detect_cycle graph \<noteq> None then []
             else affected_cards_for_change graph (app_cards (ts_app st)))"

text \<open>The next version of a card with other tags, and those of the affected cards that still exist.\<close>

definition retagged :: "('w, 'm, 'n) client_env \<Rightarrow> card \<Rightarrow> uuid list \<Rightarrow> (unit, card) outcome" where
  "retagged env c new_tags =
     card_next (ce_hash env) c (card_content c) (card_priority c) new_tags (card_blazed c) (ce_now env)
       (card_due_date c)"

fun affected_updates ::
  "('w, 'm, 'n) client_env \<Rightarrow> card list \<Rightarrow> (uuid \<times> uuid list) list \<Rightarrow> (unit, card list) outcome" where
  "affected_updates env current_cards [] = Ok []"
| "affected_updates env current_cards ((uid, missing) # rest) =
     (case find (\<lambda>c. card_id c = uid) current_cards of
        None \<Rightarrow> affected_updates env current_cards rest
      | Some c \<Rightarrow>
          bind_outcome (retagged env c (push_missing missing (card_tags c))) (\<lambda>v.
          map_ok (\<lambda>vs. v # vs) (affected_updates env current_cards rest)))"

fun replace_tag :: "tag \<Rightarrow> tag list \<Rightarrow> tag list" where
  "replace_tag new_tag [] = []"
| "replace_tag new_tag (t # ts) = (if tag_id t = tag_id new_tag then new_tag # ts else t # replace_tag new_tag ts)"

definition edit_offline_toast :: string where "edit_offline_toast = ''Can't edit tags while offline''"

definition back_to_editing :: "string \<Rightarrow> 'w tag_state \<Rightarrow> 'w tag_state" where
  "back_to_editing msg st = set_editor (\<lambda>ed. ed\<lparr>te_editing := True\<rparr>) (tag_toast msg st)"

definition tag_edit_succeeds :: "tag \<Rightarrow> card list \<Rightarrow> 'w tag_state \<Rightarrow> 'w tag_state" where
  "tag_edit_succeeds new_tag updated_cards st =
     (let st = set_unsaved False (set_editor (\<lambda>ed. ed\<lparr>te_editing := False\<rparr>) st);
          st = fold tag_upsert updated_cards st
      in st\<lparr>ts_app := (ts_app st)\<lparr>app_tags := replace_tag new_tag (app_tags (ts_app st))\<rparr>\<rparr>)"

definition commit_tag_update ::
  "('w, 'm, 'n) tag_env \<Rightarrow> string \<Rightarrow> RGB8 option \<Rightarrow> uuid list \<Rightarrow> (uuid \<times> uuid list) list \<Rightarrow> 'w tag_state
   \<Rightarrow> (unit, 'w tag_state) outcome" where
  "commit_tag_update env title color implied affected st =
     (let ce = tn_client env in
      if \<not> app_connected (ts_app st) then Ok (back_to_editing edit_offline_toast st)
      else case ts_selected st of
        None \<Rightarrow> Ok st
      | Some uid \<Rightarrow>
          (case find_tag uid (app_tags (ts_app st)) of
             None \<Rightarrow> Ok st
           | Some t \<Rightarrow>
               bind_outcome (tag_next_with_implies (ce_hash ce) t title color implied (ce_now ce)) (\<lambda>new_tag.
               bind_outcome (affected_updates ce (app_cards (ts_app st)) affected) (\<lambda>updated_cards.
               case push_batch (ce_request ce) (map (\<lambda>c. ItemCards [c]) updated_cards @ [ItemTags [new_tag]])
                      (ts_world st) of
                 (Ok _, w) \<Rightarrow> Ok (tag_edit_succeeds new_tag updated_cards (st\<lparr>ts_world := w\<rparr>))
               | (Err ConnectionLost, w) \<Rightarrow> Ok (back_to_editing edit_offline_toast (st\<lparr>ts_world := w\<rparr>))
               | (Err e, w) \<Rightarrow>
                   Ok (back_to_editing (''Failed to save tag: '' @ tn_show_error env e) (st\<lparr>ts_world := w\<rparr>))
               | (Panic, _) \<Rightarrow> Panic))))"

definition cycle_toast :: string where
  "cycle_toast = ''Tag implication cycle detected '' @ [CHR 0xE2, CHR 0x80, CHR 0x94] @ '' please fix before saving''"

definition chosen_color :: "tag_inputs \<Rightarrow> (unit, RGB8 option) outcome" where
  "chosen_color ti = (if ti_use_color ti then parse_hex_color (ti_color ti) else Ok None)"

definition save_changes :: "('w, 'm, 'n) tag_env \<Rightarrow> 'w tag_state \<Rightarrow> (unit, 'w tag_state) outcome" where
  "save_changes env st =
     (case ts_selected st of
        None \<Rightarrow> Ok st
      | Some uid \<Rightarrow>
          let ti = te_inputs (ts_editor st) in
          if skip_white (ti_title ti) = [] then Ok st
          else
            bind_outcome (chosen_color ti) (\<lambda>new_color.
            let new_implies = sort_dedup (ti_implies ti);
                graph = next_graph uid new_implies (app_tags (ts_app st))
            in if detect_cycle graph \<noteq> None then Ok (tag_toast cycle_toast st)
               else commit_tag_update env (ti_title ti) new_color new_implies
                      (affected_cards_for_change graph (app_cards (ts_app st))) st))"

section \<open>Deleting a tag\<close>

fun untagged_updates :: "('w, 'm, 'n) client_env \<Rightarrow> uuid \<Rightarrow> card list \<Rightarrow> (unit, card list) outcome" where
  "untagged_updates env uid [] = Ok []"
| "untagged_updates env uid (c # cs) =
     (if uid \<in> set (card_tags c) then
        bind_outcome (retagged env c (filter (\<lambda>t. t \<noteq> uid) (card_tags c))) (\<lambda>v.
        map_ok (\<lambda>vs. v # vs) (untagged_updates env uid cs))
      else untagged_updates env uid cs)"

definition delete_offline_toast :: string where "delete_offline_toast = ''Can't delete tags while offline''"

definition deletion_failed :: "string \<Rightarrow> 'w tag_state \<Rightarrow> 'w tag_state" where
  "deletion_failed msg st = set_editor (\<lambda>ed. ed\<lparr>te_confirm_delete := 0, te_deleting := False\<rparr>) (tag_toast msg st)"

definition tag_deletion_succeeds ::
  "('w, 'm, 'n) tag_env \<Rightarrow> uuid \<Rightarrow> card list \<Rightarrow> 'w tag_state \<Rightarrow> (unit, 'w tag_state) outcome" where
  "tag_deletion_succeeds env uid updated_cards st =
     (let st = fold tag_upsert updated_cards st;
          st = st\<lparr>ts_app := (ts_app st)\<lparr>app_tags := filter (\<lambda>t. tag_id t \<noteq> uid) (app_tags (ts_app st))\<rparr>,
                  ts_ui := set_view (\<lambda>v. v\<lparr>v_tag_filter := filter (\<lambda>t. t \<noteq> uid) (v_tag_filter v)\<rparr>) (ts_ui st)\<rparr>
      in map_ok (\<lambda>(_, st). set_editor (\<lambda>ed. ed\<lparr>te_deleting := False\<rparr>) st) (tag_select env None st))"

definition delete_selected_tag :: "('w, 'm, 'n) tag_env \<Rightarrow> 'w tag_state \<Rightarrow> (unit, 'w tag_state) outcome" where
  "delete_selected_tag env st =
     (let ce = tn_client env in
      case ts_selected st of
        None \<Rightarrow> Ok st
      | Some uid \<Rightarrow>
          let st = set_editor (\<lambda>ed. ed\<lparr>te_deleting := True\<rparr>) st in
          if \<not> app_connected (ts_app st)
          then Ok (set_editor (\<lambda>ed. ed\<lparr>te_deleting := False\<rparr>) (tag_toast delete_offline_toast st))
          else
            bind_outcome (untagged_updates ce uid (app_cards (ts_app st))) (\<lambda>updated_cards.
            case push_batch (ce_request ce) (map (\<lambda>c. ItemCards [c]) updated_cards @ [ItemDeleteTag uid])
                   (ts_world st) of
              (Ok _, w) \<Rightarrow> tag_deletion_succeeds env uid updated_cards (st\<lparr>ts_world := w\<rparr>)
            | (Err ConnectionLost, w) \<Rightarrow> Ok (deletion_failed delete_offline_toast (st\<lparr>ts_world := w\<rparr>))
            | (Err e, w) \<Rightarrow>
                Ok (deletion_failed (''Failed to delete tag: '' @ tn_show_error env e) (st\<lparr>ts_world := w\<rparr>))
            | (Panic, _) \<Rightarrow> Panic))"

section \<open>A new tag\<close>

definition new_tag_dirty :: "tag_inputs \<Rightarrow> bool" where
  "new_tag_dirty ti \<longleftrightarrow> skip_white (ti_title ti) \<noteq> [] \<or> ti_use_color ti"

definition create_offline_toast :: string where "create_offline_toast = ''Can't create tags while offline''"

definition create_tag ::
  "('w, 'm, 'n) tag_env \<Rightarrow> tag_inputs \<Rightarrow> 'w tag_state \<Rightarrow> (unit, 'w tag_state) outcome" where
  "create_tag env ti st =
     (let ce = tn_client env in
      if skip_white (ti_title ti) = [] then Ok st
      else
        bind_outcome (chosen_color ti) (\<lambda>color.
          if \<not> app_connected (ts_app st) then Ok (tag_toast create_offline_toast st)
          else
            let t = tag_first (ce_hash ce) (tn_new_uuid env) (ti_title ti) color (ce_now ce)
            in case push_tag (ce_request ce) t (ts_world st) of
                 (Ok _, w) \<Rightarrow>
                   map_ok snd (tag_select env (Some (tag_id t)) (set_unsaved False
                     (st\<lparr>ts_app := (ts_app st)\<lparr>app_tags := app_tags (ts_app st) @ [t]\<rparr>, ts_world := w\<rparr>)))
               | (Err ConnectionLost, w) \<Rightarrow> Ok (tag_toast create_offline_toast (st\<lparr>ts_world := w\<rparr>))
               | (Err e, w) \<Rightarrow>
                   Ok (tag_toast (''Failed to create tag: '' @ tn_show_error env e) (st\<lparr>ts_world := w\<rparr>))
               | (Panic, _) \<Rightarrow> Panic))"

definition cancel_new_tag :: "('w, 'm, 'n) tag_env \<Rightarrow> 'w tag_state \<Rightarrow> (unit, 'w tag_state) outcome" where
  "cancel_new_tag env st =
     (if \<not> confirm_discard_changes (tn_view env) (ts_ui st) then Ok st
      else Ok (st\<lparr>ts_ui := sync_query_params (tn_view env) (finish_creation_flow (ts_ui st))\<rparr>))"

end
