(* ===== verification/Batch_Accept.thy ===== *)
theory Batch_Accept
  imports Storage_Accept Client_Api
begin

text \<open>
  When a batch is accepted: any number of next versions of different cards that keep their priorities,
  then one more item. Written one after another they do not disturb each other, the validator judges the
  state they leave, and the commit needs room for one more sequence.
\<close>

section \<open>Next versions of different cards\<close>

definition pushable :: "ext \<Rightarrow> db \<Rightarrow> card \<Rightarrow> bool" where
  "pushable E db c \<longleftrightarrow>
     card_verify (blake3 E) c \<and> card_id c \<notin> deleted_ids db \<and>
     card_ancestor_hash c = ancestor_in_cards db (card_id c) \<and>
     insertable card_key [card_params E c] (card_versions db) \<and>
     priority_free db (card_priority c) (card_id c) \<and>
     (\<exists>r\<in>set (cards_table db). col_card_id (row_cols r) = card_id c \<and> col_priority (row_cols r) = card_priority c)"

lemma new_card_row_cols [simp]: "row_cols (new_card_row E c) = card_params E c"
  by (simp add: new_card_row_def)

lemma new_tag_row_cols [simp]: "row_cols (new_tag_row E t) = tag_params E t"
  by (simp add: new_tag_row_def)

lemma pushed_card_params [simp]:
  "col_priority (card_params E c) = card_priority c" "card_key (card_params E c) = (card_id c, i64_from_nn (card_count c))"
  by (simp_all add: card_params_def card_key_def)

lemma ancestor_in_cards_find:
  "ancestor_in_cards db uid =
     (case map_option row_cols (find_row col_card_id uid (cards_table db)) of Some c \<Rightarrow> col_hash c | None \<Rightarrow> ZERO_HASH)"
  by (simp add: ancestor_in_cards_def split: option.split)

lemma pushable_other:
  assumes "pushable E db c" "pushable E db d" "card_id c \<noteq> card_id d"
  shows "pushable E (after_card_push E db [d]) c"
proof -
  let ?db = "after_card_push E db [d]"
  have "ancestor_in_cards ?db (card_id c) = ancestor_in_cards db (card_id c)"
    using assms(3) by (simp add: ancestor_in_cards_find find_row_replace after_card_push_def)
  moreover have "insertable card_key [card_params E c] (card_versions ?db)"
    using assms(1,3) by (auto simp: pushable_def insertable_def after_card_push_def)
  moreover have "priority_free ?db (card_priority c) (card_id c)"
    using assms by (auto simp: pushable_def priority_free_def after_card_push_def set_replace_row)
  moreover have "\<exists>r\<in>set (cards_table ?db). col_card_id (row_cols r) = card_id c \<and> col_priority (row_cols r) = card_priority c"
    using assms by (auto simp: pushable_def after_card_push_def set_replace_row)
  ultimately show ?thesis
    using assms(1) by (simp add: pushable_def after_card_push_def deleted_ids_def)
qed

definition after_pushes :: "ext \<Rightarrow> card list \<Rightarrow> db \<Rightarrow> db" where
  "after_pushes E cs db = fold (\<lambda>c db. after_card_push E db [c]) cs db"

abbreviation card_items :: "card list \<Rightarrow> push_item list" where
  "card_items cs \<equiv> map (\<lambda>c. ItemCards [c]) cs"

lemma apply_pushes:
  "distinct (map card_id cs) \<Longrightarrow> \<forall>c\<in>set cs. pushable E db c \<Longrightarrow>
   apply_items E i (card_items cs @ items) (db, aff) =
     apply_items E (i + length cs) items
       (after_pushes E cs db, aff\<lparr>affected_cards := affected_cards aff @ map card_id cs\<rparr>)"
proof (induction cs arbitrary: i db aff)
  case Nil
  then show ?case by (simp add: after_pushes_def)
next
  case (Cons c cs)
  have "pushable E db c" using Cons.prems(2) by simp
  then have "push_card_versions_inner E db [c] = Ok (after_card_push E db [c])"
    by (simp add: push_card_inner_iff pushable_def windows_linked_def)
  then have item: "apply_item E (ItemCards [c]) (db, aff) =
      Ok (after_card_push E db [c], aff\<lparr>affected_cards := affected_cards aff @ [card_id c]\<rparr>)"
    by (simp add: apply_item_def)
  have "\<forall>d\<in>set cs. pushable E (after_card_push E db [c]) d"
  proof
    fix d assume "d \<in> set cs"
    then have "pushable E db d" "card_id d \<noteq> card_id c" using Cons.prems by (auto simp: image_iff)
    then show "pushable E (after_card_push E db [c]) d" using \<open>pushable E db c\<close> by (intro pushable_other)
  qed
  with Cons.IH[of "after_card_push E db [c]" "Suc i"] Cons.prems(1) item show ?case
    by (simp add: after_pushes_def)
qed

lemma after_pushes_same [simp]:
  "tags_table (after_pushes E cs db) = tags_table db" "tag_versions (after_pushes E cs db) = tag_versions db"
  "deleted_entities (after_pushes E cs db) = deleted_entities db"
  "deleted_ids (after_pushes E cs db) = deleted_ids db"
  "tag_log.entry (after_pushes E cs db) = tag_log.entry db"
  unfolding after_pushes_def
  by (induction cs arbitrary: db)
    (simp_all add: after_card_push_def deleted_ids_def tag_log.entry_def[abs_def])

lemma after_pushes_live [simp]:
  "live_graph E (after_pushes E cs db) = live_graph E db" "tag_ids (after_pushes E cs db) = tag_ids db"
  "ancestor_in_tags (after_pushes E cs db) = ancestor_in_tags db"
  by (simp_all add: live_graph_def implies_pairs_def tag_ids_def ancestor_in_tags_def[abs_def])

lemma after_pushes_rows:
  "distinct (map card_id cs) \<Longrightarrow>
   set (cards_table (after_pushes E cs db)) =
     new_card_row E ` set cs \<union> {r \<in> set (cards_table db). col_card_id (row_cols r) \<notin> card_id ` set cs}"
proof (induction cs arbitrary: db)
  case Nil
  then show ?case by (simp add: after_pushes_def)
next
  case (Cons c cs)
  have "after_pushes E (c # cs) db = after_pushes E cs (after_card_push E db [c])"
    by (simp add: after_pushes_def)
  then show ?case
    using Cons by (auto simp: after_card_push_def set_replace_row)
qed

lemma after_pushes_entry:
  "card_log.entry (after_pushes E cs db) k =
     fold (\<lambda>c m. m(card_id c \<mapsto> card_params E c)) cs (card_log.entry db) k"
proof (induction cs arbitrary: db)
  case (Cons c cs)
  have "card_log.entry (after_card_push E db [c]) = (card_log.entry db)(card_id c \<mapsto> card_params E c)"
    by (rule ext) (simp add: card_log.entry_def after_card_push_def find_row_replace)
  then show ?case using Cons[of "after_card_push E db [c]"] by (simp add: after_pushes_def)
qed (simp add: after_pushes_def)

section \<open>The commit of a batch\<close>

lemma push_batch_Ok:
  assumes pc: "postcard_ok E" and inv: "storage_inv E K db" and ok: "\<forall>item\<in>set items. item_ok E K item"
    and run: "apply_items E 0 items (db, no_affected) = Ok (tx, aff)" and ne: "items \<noteq> []"
    and imp: "implications_ok E tx" and room: "db_sequence db < i64_max"
  shows "\<exists>db'. storage_push_batch E now db items = (Ok (), db') \<and> commit_txn E now (tx, aff) = Ok db'"
proof -
  have txn: "txn_inv E K db (tx, aff)"
    by (rule apply_items_txn[OF txn_inv_start ok run]) (use inv in \<open>simp_all add: storage_inv_def\<close>)
  have "validate_batch_implications E tx items = Ok ()"
    using validate_after_writes[OF pc _ run] validate_state_Ok imp txn by (simp add: txn_inv_def)
  moreover obtain db' where "commit_txn E now (tx, aff) = Ok db'"
    using txn inv room commit_succeeds[of E db tx now aff] by (auto simp: txn_inv_def storage_inv_def)
  ultimately show ?thesis
    using run ne by (auto simp: storage_push_batch_def transaction_def commit_txn_def outcome_simps)
qed

text \<open>The same batch through the client: it is answered with the new root.\<close>

lemma push_batch_online:
  assumes push: "storage_push_batch E now db items = (Ok (), db')" and inv: "storage_inv E K db'"
  shows "push_batch (online_request E now) items db = (Ok (current_root db'), db')"
proof -
  have "online_request E now (PushBatch items) db = (Ok (RespRoot (current_root db')), db')"
    using push inv by (simp add: online_request_def respond_root_def get_root_result)
  then show ?thesis by (simp add: push_batch_def requested_def into_root_def extract_variant_def)
qed

lemma push_batch_inv:
  assumes push: "storage_push_batch E now db items = (Ok (), db')"
    and inv: "storage_inv E K db" and ok: "\<forall>item\<in>set items. item_ok E K item"
  shows "storage_inv E K db'"
proof -
  have "request_ok E K (PushBatch items)" using ok by (simp add: request_ok_def)
  moreover have "handle_request E now db (PushBatch items) = (respond_root db', db')" using push by simp
  ultimately show ?thesis using handle_request_inv[OF inv] by blast
qed

section \<open>A batch that ends with a tag\<close>

definition tag_pushable :: "ext \<Rightarrow> db \<Rightarrow> tag \<Rightarrow> bool" where
  "tag_pushable E db t \<longleftrightarrow>
     tag_verify (blake3 E) t \<and> tag_id t \<notin> deleted_ids db \<and>
     tag_ancestor_hash t = ancestor_in_tags db (tag_id t) \<and> insertable tag_key [tag_params E t] (tag_versions db)"

lemma apply_pushes_tag:
  assumes "distinct (map card_id cs)" "\<forall>c\<in>set cs. pushable E db c" "tag_pushable E db t"
  shows "apply_items E 0 (card_items cs @ [ItemTags [t]]) (db, no_affected) =
    Ok (after_tag_push E (after_pushes E cs db) [t],
      no_affected\<lparr>affected_cards := map card_id cs, affected_tags := [tag_id t]\<rparr>)"
proof -
  have "push_tag_versions_inner E (after_pushes E cs db) [t] = Ok (after_tag_push E (after_pushes E cs db) [t])"
    using assms(3) by (simp add: push_tag_inner_iff tag_pushable_def windows_linked_def)
  then show ?thesis
    unfolding apply_pushes[OF assms(1,2)] by (simp add: apply_item_def)
qed

lemma tag_params_id [simp]: "tcol_tag_id (tag_params E t) = tag_id t"
  by (simp add: tag_params_def)

lemma tag_map_after_push:
  assumes "postcard_ok E"
  shows "tag_map E (after_tag_push E db [t]) = (tag_map E db)(tag_id t \<mapsto> tag_implies t)"
  using assms by (simp add: tag_map_def implies_pairs_def after_tag_push_def map_of_replace_row)

lemma implies_of_after_tag_push:
  assumes pc: "postcard_ok E" and tags: "tags_ok E (tags_table db)" "tags_ok E (tags_table (after_tag_push E db [t]))"
  shows "implies_of (live_graph E (after_tag_push E db [t])) = (implies_of (live_graph E db))(tag_id t := tag_implies t)"
  by (rule ext) (simp add: implies_of_live tags tag_map_after_push[OF pc])

lemma closed_tags_cong: "implies_of g = implies_of h \<Longrightarrow> closed_tags g S = closed_tags h S"
  by (simp add: closed_tags_def)

lemma implies_rel_cong: "implies_of g = implies_of h \<Longrightarrow> implies_rel g = implies_rel h"
  by (simp add: implies_rel_def)

text \<open>The validator's verdict on a batch of cards and a tag, for a graph that agrees with the new one.\<close>

lemma tag_batch_implications:
  assumes pc: "postcard_ok E" and imp: "implications_ok E db" and dist: "distinct (map card_id cs)"
    and tx: "tx = after_tag_push E (after_pushes E cs db) [t]" and ok: "tables_ok E db" "tables_ok E tx"
    and g: "implies_of g = (implies_of (live_graph E db))(tag_id t := tag_implies t)"
    and live: "set (tag_implies t) \<subseteq> insert (tag_id t) (tag_ids db)" and acyclic: "acyclic (implies_rel g)"
    and new: "\<forall>c\<in>set cs. closed_tags g (set (card_tags c))"
    and old: "\<forall>r\<in>set (cards_table db). col_card_id (row_cols r) \<notin> card_id ` set cs \<longrightarrow>
      closed_tags g (set (row_tags E (row_cols r)))"
  shows "implications_ok E tx"
proof -
  have graph: "implies_of (live_graph E tx) = implies_of g"
    unfolding g tx by (subst implies_of_after_tag_push[OF pc]) (use ok in \<open>simp_all add: tables_ok_def tx\<close>)
  have ids: "tag_ids tx = insert (tag_id t) (tag_ids db)"
    by (auto simp: tx tag_ids_def ids_of_def after_tag_push_def set_replace_row)
  have "\<forall>r\<in>set (tags_table tx). set (row_implies E (row_cols r)) \<subseteq> tag_ids tx"
    using imp live unfolding ids by (auto simp: implications_ok_def tx after_tag_push_def set_replace_row pc)
  moreover have "\<forall>r\<in>set (cards_table tx). closed_tags g (set (row_tags E (row_cols r)))"
    using new old by (auto simp: tx after_tag_push_def after_pushes_rows[OF dist] pc)
  ultimately show ?thesis
    using acyclic closed_tags_cong[OF graph] implies_rel_cong[OF graph] by (simp add: implications_ok_def)
qed

section \<open>A batch that ends with the deletion of a tag\<close>

lemma pushes_implications:
  assumes "postcard_ok E" "implications_ok E db" "distinct (map card_id cs)"
    and "\<forall>c\<in>set cs. closed_tags (live_graph E db) (set (card_tags c))"
  shows "implications_ok E (after_pushes E cs db)"
  using assms by (auto simp: implications_ok_def after_pushes_rows)

lemma delete_batch_applies:
  assumes pc: "postcard_ok E" and inv: "storage_inv E K db" and imp: "implications_ok E db"
    and dist: "distinct (map card_id cs)" and push: "\<forall>c\<in>set cs. pushable E db c"
    and typed: "\<forall>c\<in>set cs. card_typed E c \<and> card_id c \<in> K"
    and closed: "\<forall>c\<in>set cs. closed_tags (live_graph E db) (set (card_tags c))"
    and new: "\<forall>c\<in>set cs. uid \<notin> set (card_tags c)"
    and old: "\<forall>r\<in>set (cards_table db). uid \<in> set (row_tags E (row_cols r)) \<longrightarrow> col_card_id (row_cols r) \<in> card_id ` set cs"
    and live: "uid \<in> tag_ids db" and none: "\<forall>r\<in>set (tags_table db). uid \<notin> set (row_implies E (row_cols r))"
  shows "\<exists>tx aff. apply_items E 0 (card_items cs @ [ItemDeleteTag uid]) (db, no_affected) = Ok (tx, aff) \<and>
    implications_ok E tx \<and> card_log.entry tx = card_log.entry (after_pushes E cs db) \<and>
    tag_log.entry tx = (tag_log.entry db)(uid := None)"
proof -
  let ?mid = "after_pushes E cs db"
  let ?aff = "no_affected\<lparr>affected_cards := map card_id cs\<rparr>"
  have items: "\<forall>item\<in>set (card_items cs). item_ok E K item" using typed by auto
  have mid: "apply_items E 0 (card_items cs) (db, no_affected) = Ok (?mid, ?aff)"
    using apply_pushes[OF dist push, of 0 "[]" no_affected] by simp
  have "txn_inv E K db (?mid, ?aff)"
    by (rule apply_items_txn[OF txn_inv_start items mid]) (use inv in \<open>simp_all add: storage_inv_def\<close>)
  then have ok: "tables_ok E ?mid" by (simp add: txn_inv_def)
  have "uid \<notin> deleted_ids db" using inv live by (auto simp: storage_inv_def kinds_ok_def)
  moreover have refs: "referencing_cards E ?mid uid = Ok []" "implying_tags E ?mid uid = Ok []"
    using ok new old none
    by (auto simp: referencing_cards_none[OF pc] implying_tags_none[OF pc] tables_ok_def after_pushes_rows[OF dist] pc)
  ultimately obtain tx where tx: "delete_tag_inner E ?mid uid = Ok (tx, deleted_new (blake3 E) uid)"
    "tx = ?mid\<lparr>tag_versions := delete_versions tcol_tag_id uid (tag_versions ?mid),
       tags_table := delete_rows tcol_tag_id uid (tags_table ?mid),
       deleted_entities := replace_row deleted_id (new_deleted_row E uid) (deleted_entities ?mid)\<rparr>"
    using live by (simp add: delete_tag_inner_Ok is_deleted_ids)
  have "implications_ok E tx"
    by (rule implications_ok_delete_tag[OF pc ok pushes_implications[OF pc imp dist closed] refs tx(2)])
  moreover have "card_log.entry tx = card_log.entry ?mid" by (simp add: tx(2) card_log.entry_def[abs_def])
  moreover have "tag_log.entry tx = (tag_log.entry db)(uid := None)"
    by (rule ext) (simp add: tx(2) tag_log.entry_def find_row_delete)
  moreover have "apply_items E 0 (card_items cs @ [ItemDeleteTag uid]) (db, no_affected) =
      Ok (tx, ?aff\<lparr>affected_deleted := [uid]\<rparr>)"
    unfolding apply_pushes[OF dist push] by (simp add: apply_item_def tx(1))
  ultimately show ?thesis by blast
qed

end
