(* ===== verification/Tag_Editor_Facts.thy ===== *)
theory Tag_Editor_Facts
  imports Tag_Editor Editor_Facts Batch_Accept Offline_Sync Storage_Total
begin

text \<open>
  The tag panel against the modelled server. When the local lists are the server's, the batch a tag edit
  or a tag deletion sends is built from what the server has, so it is accepted, and the local lists are
  the server's again.
\<close>

section \<open>Local lists that are the server's\<close>

definition lists_current :: "ext \<Rightarrow> db \<Rightarrow> app_state \<Rightarrow> bool" where
  "lists_current E w app \<longleftrightarrow>
     set (app_cards app) = ran (card_entries E w) \<and> distinct (map card_id (app_cards app)) \<and>
     set (app_tags app) = ran (tag_entries E w) \<and> distinct (map tag_id (app_tags app))"

lemma converged_lists: "converged E w app \<Longrightarrow> lists_current E w app"
  by (simp add: converged_def lists_current_def)

lemma current_card:
  assumes pc: "postcard_ok E" and inv: "storage_inv E K w" and cur: "lists_current E w app"
    and c: "c \<in> set (app_cards app)"
  shows "\<exists>r\<in>set (cards_table w). row_cols r = card_params E c \<and> find_row col_card_id (card_id c) (cards_table w) = Some r"
    "card_typed E c" "card_verify (blake3 E) c" "card_id c \<in> K" "card_id c \<notin> deleted_ids w"
proof -
  obtain r where r: "r \<in> set (cards_table w)" "c = card_of E (row_cols r)"
    using c cur ran_card_entries[OF pc inv] by (auto simp: lists_current_def)
  note dec = storable_card_decodes[OF pc storage_inv_rows(1)[OF inv r(1)]]
  have "keyed col_card_id (cards_table w)" using inv by (simp add: storage_inv_def tables_ok_def cards_ok_def)
  from find_row_keyed[OF this r(1)] show "\<exists>r\<in>set (cards_table w). row_cols r = card_params E c \<and>
      find_row col_card_id (card_id c) (cards_table w) = Some r"
    using r dec(2) card_params_simps(1)[of E c] by (intro bexI[OF _ r(1)]) simp
  show "card_typed E c" "card_verify (blake3 E) c" using dec r by simp_all
  have "card_id c \<in> card_ids w"
    using r(1) dec(2) card_params_simps(1)[of E c] unfolding r(2) by (force simp: card_ids_def ids_of_def)
  then show "card_id c \<in> K" "card_id c \<notin> deleted_ids w" using inv by (auto simp: storage_inv_def kinds_ok_def)
qed

lemma current_tag:
  assumes pc: "postcard_ok E" and inv: "storage_inv E K w" and cur: "lists_current E w app"
    and t: "t \<in> set (app_tags app)"
  shows "\<exists>r\<in>set (tags_table w). row_cols r = tag_params E t \<and> find_row tcol_tag_id (tag_id t) (tags_table w) = Some r"
    "tag_typed E t" "tag_id t \<notin> K" "tag_id t \<notin> deleted_ids w" "sorted_wrt (<) (tag_implies t)"
proof -
  obtain r where r: "r \<in> set (tags_table w)" "t = tag_of E (row_cols r)"
    using t cur ran_tag_entries[OF pc inv] by (auto simp: lists_current_def)
  note dec = storable_tag_decodes[OF pc storage_inv_rows(2)[OF inv r(1)]]
  have "keyed tcol_tag_id (tags_table w)" using inv by (simp add: storage_inv_def tables_ok_def tags_ok_def)
  from find_row_keyed[OF this r(1)] show "\<exists>r\<in>set (tags_table w). row_cols r = tag_params E t \<and>
      find_row tcol_tag_id (tag_id t) (tags_table w) = Some r"
    using r dec(2) tag_params_id[of E t] by (intro bexI[OF _ r(1)]) simp
  show "tag_typed E t" "sorted_wrt (<) (tag_implies t)" using dec r by simp_all
  have "tag_id t \<in> tag_ids w"
    using r(1) dec(2) tag_params_id[of E t] unfolding r(2) by (force simp: tag_ids_def ids_of_def)
  then show "tag_id t \<notin> K" "tag_id t \<notin> deleted_ids w" using inv by (auto simp: storage_inv_def kinds_ok_def)
qed

lemma current_row:
  assumes pc: "postcard_ok E" and inv: "storage_inv E K w" and cur: "lists_current E w app"
  shows "r \<in> set (cards_table w) \<Longrightarrow> \<exists>c\<in>set (app_cards app). card_id c = col_card_id (row_cols r) \<and> card_tags c = row_tags E (row_cols r)"
    "t \<in> set (tags_table w) \<Longrightarrow> \<exists>c\<in>set (app_tags app). tag_id c = tcol_tag_id (row_cols t) \<and> tag_implies c = row_implies E (row_cols t)"
  using cur ran_card_entries[OF pc inv] ran_tag_entries[OF pc inv]
    card_of_fields[OF pc storage_inv_rows(1)[OF inv, of r]] tag_of_fields[OF pc storage_inv_rows(2)[OF inv, of t]]
  by (auto simp: lists_current_def)

lemma current_tag_ids:
  assumes pc: "postcard_ok E" and inv: "storage_inv E K w" and cur: "lists_current E w app"
  shows "tag_ids w = tag_id ` set (app_tags app)"
proof -
  have "tag_id (tag_of E (row_cols r)) = tcol_tag_id (row_cols r)" if "r \<in> set (tags_table w)" for r
    by (rule tag_of_fields[OF pc storage_inv_rows(2)[OF inv that]])
  then show ?thesis
    using cur ran_tag_entries[OF pc inv] by (auto simp: lists_current_def tag_ids_def ids_of_def image_iff)
qed

text \<open>The graph of the local tags is the server's.\<close>

lemma current_graph:
  assumes pc: "postcard_ok E" and inv: "storage_inv E K w" and cur: "lists_current E w app"
  shows "implies_of (graph_from_tags (app_tags app)) = implies_of (live_graph E w)"
proof
  fix u
  let ?ps = "map (\<lambda>t. (tag_id t, tag_implies t)) (app_tags app)"
  have tags: "tags_ok E (tags_table w)" using inv by (simp add: storage_inv_def tables_ok_def)
  have d: "distinct (map fst ?ps)" using cur by (simp add: lists_current_def comp_def)
  have d': "distinct (map fst (implies_pairs E w))" by (rule distinct_implies_pairs[OF tags])
  have "tag_of E (row_cols r) \<in> ran (tag_entries E w)" if "r \<in> set (tags_table w)" for r
    using that ran_tag_entries[OF pc inv] by blast
  then have "set ?ps = set (implies_pairs E w)"
    using cur ran_tag_entries[OF pc inv] tag_of_fields[OF pc storage_inv_rows(2)[OF inv]]
    by (auto simp: lists_current_def implies_pairs_def image_iff)
  then have "map_of ?ps = map_of (implies_pairs E w)"
    by (intro ext option_eqI) (simp add: map_of_eq_Some_iff[OF d] map_of_eq_Some_iff[OF d'])
  then show "implies_of (graph_from_tags (app_tags app)) u = implies_of (live_graph E w) u"
    by (simp add: graph_from_tags_pairs implies_of_from_pairs[OF d] implies_of_live[OF tags] tag_map_def)
qed

section \<open>Next versions are accepted\<close>

text \<open>Room for one more version: the server has stored none beyond the local one.\<close>

definition count_room :: "db \<Rightarrow> app_state \<Rightarrow> bool" where
  "count_room w app \<longleftrightarrow>
     (\<forall>c\<in>set (app_cards app). inner (card_count c) < i64_max \<and>
        (\<forall>v\<in>set (card_versions w). col_card_id (ver_cols v) = card_id c \<longrightarrow> col_count (ver_cols v) \<le> inner (card_count c))) \<and>
     (\<forall>t\<in>set (app_tags app). inner (tag_count t) < i64_max \<and>
        (\<forall>v\<in>set (tag_versions w). tcol_tag_id (ver_cols v) = tag_id t \<longrightarrow> tcol_count (ver_cols v) \<le> inner (tag_count t)))"

definition retag_value :: "('w, 'm, 'n) client_env \<Rightarrow> card \<Rightarrow> uuid list \<Rightarrow> card" where
  "retag_value env c tags = (case retagged env c tags of Ok v \<Rightarrow> v)"

lemma retagged_pushable:
  assumes pc: "postcard_ok E" and inv: "storage_inv E K w" and cur: "lists_current E w app" and room: "count_room w app"
    and env: "ce_hash env = blake3 E" "timestamp_ok E (ce_now env)" and c: "c \<in> set (app_cards app)"
  shows "retagged env c tags = Ok (retag_value env c tags)" "pushable E w (retag_value env c tags)"
    "card_typed E (retag_value env c tags)" "card_id (retag_value env c tags) = card_id c" "card_id c \<in> K"
    "card_tags (retag_value env c tags) = sort tags" "card_verify (blake3 E) (retag_value env c tags)"
proof -
  note cc = current_card[OF pc inv cur c]
  obtain r where r: "r \<in> set (cards_table w)" "row_cols r = card_params E c" "find_row col_card_id (card_id c) (cards_table w) = Some r"
    using cc(1) by blast
  have count: "nn_try_from_u64 (u64_from_nn (card_count c) + 1) = Ok (NonNegativeI64 (inner (card_count c) + 1))"
    using room c cc(2) by (auto simp: nn_successor card_typed_def count_room_def)
  then obtain v where v: "(card_next (blake3 E) c (card_content c) (card_priority c) tags (card_blazed c) (ce_now env)
      (card_due_date c) :: (unit, card) outcome) = Ok v"
    by (simp add: card_next_def Let_def)
  note nx = card_next_Ok[OF v]
  show eq: "retagged env c tags = Ok (retag_value env c tags)" by (simp add: retag_value_def retagged_def env v)
  have val: "retag_value env c tags = v" by (simp add: retag_value_def retagged_def env v)
  have cnt: "i64_from_nn (card_count v) = inner (card_count c) + 1"
  proof -
    have "card_count v = NonNegativeI64 (inner (card_count c) + 1)" using nx(11) count by simp
    then show ?thesis by (simp add: i64_from_nn_def)
  qed
  have ver: "card_verify (blake3 E) v" using nx(3) by (simp add: card_verify_iff card_expected_hash_preimage)
  have "insertable card_key [card_params E v] (card_versions w)"
    using room c cnt nx(1) by (fastforce simp: insertable_def count_room_def card_key_def)
  moreover have "priority_free w (card_priority v) (card_id v)"
  proof -
    have inj: "inj_on (\<lambda>r. col_priority (row_cols r)) (set (cards_table w))"
      using inv by (simp add: storage_inv_def tables_ok_def cards_ok_def distinct_map)
    show ?thesis
      unfolding priority_free_def
    proof (intro ballI impI)
      fix ra assume ra: "ra \<in> set (cards_table w)" "col_priority (row_cols ra) = card_priority v"
      have "ra = r" by (rule inj_onD[OF inj _ ra(1) r(1)]) (use ra(2) r(2) nx(5) in simp)
      then show "col_card_id (row_cols ra) = card_id v" using r(2) nx(1) by simp
    qed
  qed
  moreover have "card_ancestor_hash v = ancestor_in_cards w (card_id v)"
    using r nx(1,2) by (simp add: ancestor_in_cards_def)
  moreover have "\<exists>r\<in>set (cards_table w). col_card_id (row_cols r) = card_id v \<and> col_priority (row_cols r) = card_priority v"
    by (rule bexI[OF _ r(1)]) (simp add: r(2) nx(1,5))
  ultimately show "pushable E w (retag_value env c tags)"
    unfolding val pushable_def using ver cc(5) nx(1) by simp
  show "card_typed E (retag_value env c tags)"
    unfolding val using cc(2) env(2) nx(8-11) nn_successor_ok[of "card_count c" "card_count v"]
    by (simp add: card_typed_def split: option.splits)
  show "card_id (retag_value env c tags) = card_id c" "card_tags (retag_value env c tags) = sort tags"
    "card_verify (blake3 E) (retag_value env c tags)"
    unfolding val using nx ver by simp_all
  show "card_id c \<in> K" by (rule cc(4))
qed

lemma next_tag_pushable:
  assumes pc: "postcard_ok E" and inv: "storage_inv E K w" and cur: "lists_current E w app" and room: "count_room w app"
    and ts: "timestamp_ok E now" and t: "t \<in> set (app_tags app)"
  shows "\<exists>t'. (tag_next_with_implies (blake3 E) t title color implied now :: (unit, tag) outcome) = Ok t' \<and>
    tag_pushable E w t' \<and> tag_typed E t' \<and> tag_id t' = tag_id t \<and> tag_implies t' = normalize_implies implied \<and>
    tag_title t' = title \<and> tag_color t' = color \<and> tag_verify (blake3 E) t'"
proof -
  note ct = current_tag[OF pc inv cur t]
  obtain r where r: "r \<in> set (tags_table w)" "row_cols r = tag_params E t" "find_row tcol_tag_id (tag_id t) (tags_table w) = Some r"
    using ct(1) by blast
  have count: "nn_try_from_u64 (u64_from_nn (tag_count t) + 1) = Ok (NonNegativeI64 (inner (tag_count t) + 1))"
    using room t ct(2) by (auto simp: nn_successor tag_typed_def count_room_def)
  then obtain v where v: "(tag_next_with_implies (blake3 E) t title color implied now :: (unit, tag) outcome) = Ok v"
    by (simp add: tag_next_with_implies_def Let_def)
  note nx = tag_next_Ok[OF v]
  have ver: "tag_verify (blake3 E) v" using nx(3) by (simp add: tag_verify_iff tag_expected_hash_preimage)
  have cnt: "i64_from_nn (tag_count v) = inner (tag_count t) + 1"
  proof -
    have "tag_count v = NonNegativeI64 (inner (tag_count t) + 1)" using nx(9) count by simp
    then show ?thesis by (simp add: i64_from_nn_def)
  qed
  have "insertable tag_key [tag_params E v] (tag_versions w)"
    using room t cnt nx(1) by (fastforce simp: insertable_def count_room_def tag_key_def tag_params_def)
  moreover have "tag_ancestor_hash v = ancestor_in_tags w (tag_id v)"
    using r nx(1,2) by (simp add: ancestor_in_tags_def tag_params_def)
  ultimately have "tag_pushable E w v" using ver ct(4) nx(1) by (simp add: tag_pushable_def)
  moreover have "tag_typed E v"
    using ct(2) ts nx(7-9) nn_successor_ok[of "tag_count t" "tag_count v"] by (simp add: tag_typed_def)
  ultimately show ?thesis using v nx ver by blast
qed

section \<open>The updates a batch carries\<close>

lemma collect_results_map_ok: "map_ok (\<lambda>vs. v # vs) m = bind_outcome m (\<lambda>vs. Ok (v # vs))"
  by (cases m) simp_all

lemma affected_updates_collect:
  assumes "distinct (map card_id cards)" "set cs \<subseteq> set cards"
  shows "affected_updates env cards (map (\<lambda>c. (card_id c, m c)) cs) =
    collect_results (\<lambda>c. retagged env c (push_missing (m c) (card_tags c))) cs"
  using assms(2)
proof (induction cs)
  case (Cons c cs)
  then have "find (\<lambda>d. card_id d = card_id c) cards = Some c"
    using assms(1) by (auto simp: find_Some_iff in_set_conv_nth distinct_conv_nth)
  with Cons show ?case by (simp add: collect_results_map_ok)
qed simp

lemma untagged_updates_collect:
  "untagged_updates env uid cs =
     collect_results (\<lambda>c. retagged env c (filter (\<lambda>t. t \<noteq> uid) (card_tags c))) (filter (\<lambda>c. uid \<in> set (card_tags c)) cs)"
  by (induction cs) (simp_all add: collect_results_map_ok)

section \<open>The lists afterwards\<close>

lemma tag_upserts_fields [simp]:
  "ts_editor (fold tag_upsert vs st) = ts_editor st" "ts_world (fold tag_upsert vs st) = ts_world st"
  "app_tags (ts_app (fold tag_upsert vs st)) = app_tags (ts_app st)"
  "app_error_toast (ts_app (fold tag_upsert vs st)) = app_error_toast (ts_app st)"
  "app_cards (ts_app (fold tag_upsert vs st)) = fold upsert_card vs (app_cards (ts_app st))"
  by (induction vs arbitrary: st) (simp_all add: tag_upsert_def app_upsert_def)

lemma upserts_distinct: "distinct (map card_id cards) \<Longrightarrow> distinct (map card_id (fold upsert_card vs cards))"
proof (induction vs arbitrary: cards)
  case (Cons v vs)
  have "distinct (map card_id (upsert_card v cards))"
    using Cons.prems by (auto simp: upsert_card_def distinct_map_filter)
  then show ?case using Cons.IH by simp
qed simp

lemma upserts_set:
  "distinct (map card_id vs) \<Longrightarrow>
   set (fold upsert_card vs cards) = set vs \<union> {c \<in> set cards. card_id c \<notin> card_id ` set vs}"
proof (induction vs arbitrary: cards)
  case (Cons v vs)
  then show ?case by (auto simp: upsert_card_def)
qed simp

lemma folded_entries:
  "distinct (map card_id cs) \<Longrightarrow> fold (\<lambda>c m. m(card_id c \<mapsto> f c)) cs m k = Some x \<longleftrightarrow>
     (\<exists>c\<in>set cs. card_id c = k \<and> x = f c) \<or> k \<notin> card_id ` set cs \<and> m k = Some x"
proof (induction cs arbitrary: m)
  case (Cons c cs)
  then show ?case by (auto simp: image_iff)
qed simp

text \<open>The cards of the server after a batch that wrote \<open>vs\<close>.\<close>

lemma entries_after_pushes:
  assumes pc: "postcard_ok E" and typed: "\<forall>v\<in>set vs. card_typed E v \<and> card_verify (blake3 E) v"
    and dist: "distinct (map card_id vs)" and inv: "storage_inv E K w"
    and entry: "card_log.entry w' = card_log.entry (after_pushes E vs w)"
  shows "ran (card_entries E w') = set vs \<union> {c \<in> ran (card_entries E w). card_id c \<notin> card_id ` set vs}"
proof -
  have dec: "card_of E (card_params E v) = v" if "v \<in> set vs" for v
    using typed that card_of_params[OF pc] by blast
  have "card_entries E w' k = Some x \<longleftrightarrow>
      (\<exists>v\<in>set vs. card_id v = k \<and> x = v) \<or> k \<notin> card_id ` set vs \<and> card_entries E w k = Some x" for k x
    unfolding card_entries_def entry map_option_eq_Some after_pushes_entry folded_entries[OF dist]
    using dec by metis
  moreover have "card_id c = k" if "card_entries E w k = Some c" for c k
    by (rule card_entries_id[OF pc inv that])
  ultimately show ?thesis unfolding ran_def by blast
qed

lemma replace_tag_map: "distinct (map tag_id tags) \<Longrightarrow> map tag_id (replace_tag t tags) = map tag_id tags"
  by (induction tags) auto

lemma replace_tag_set:
  "distinct (map tag_id tags) \<Longrightarrow> tag_id t \<in> tag_id ` set tags \<Longrightarrow>
   set (replace_tag t tags) = insert t {u \<in> set tags. tag_id u \<noteq> tag_id t}"
proof (induction tags)
  case (Cons u us)
  show ?case
  proof (cases "tag_id u = tag_id t")
    case True
    then have "{v \<in> set us. tag_id v \<noteq> tag_id t} = set us" using Cons.prems(1) by (auto simp: image_iff)
    then show ?thesis using True by auto
  next
    case False
    then show ?thesis using Cons by auto
  qed
qed simp

section \<open>A tag edit is accepted\<close>

lemma tag_edit_accepted:
  assumes pc: "postcard_ok E" and inv: "storage_inv E K w" and imp: "implications_ok E w"
    and cur: "lists_current E w app" and room: "count_room w app" "db_sequence w < i64_max"
    and env: "ce_hash env = blake3 E" "timestamp_ok E (ce_now env)" and t: "t \<in> set (app_tags app)"
    and live: "set implied \<subseteq> tag_id ` set (app_tags app)"
    and cycle: "detect_cycle (next_graph (tag_id t) implied (app_tags app)) = None"
    and norm: "normalize_implies implied = implied"
    and aff: "affected = affected_cards_for_change (next_graph (tag_id t) implied (app_tags app)) (app_cards app)"
  shows "\<exists>t' vs w'. (tag_next_with_implies (blake3 E) t title color implied (ce_now env) :: (unit, tag) outcome) = Ok t' \<and>
    affected_updates env (app_cards app) affected = Ok vs \<and>
    storage_push_batch E now w (card_items vs @ [ItemTags [t']]) = (Ok (), w') \<and> storage_inv E K w' \<and>
    tag_id t' = tag_id t \<and> tag_title t' = title \<and> tag_color t' = color \<and> tag_implies t' = implied \<and>
    distinct (map card_id vs) \<and>
    ran (card_entries E w') = set vs \<union> {c \<in> ran (card_entries E w). card_id c \<notin> card_id ` set vs} \<and>
    tag_entries E w' = (tag_entries E w)(tag_id t \<mapsto> t') \<and>
    (\<forall>item\<in>set (card_items vs @ [ItemTags [t']]). item_ok E K item)"
proof -
  let ?g = "next_graph (tag_id t) implied (app_tags app)"
  define cs where "cs = filter (\<lambda>c :: card. \<not> closed_tags ?g (set (card_tags c))) (app_cards app)"
  define new where "new = (\<lambda>c :: card. push_missing (missing_for_card ?g (card_tags c)) (card_tags c))"
  define vs where "vs = map (\<lambda>c. retag_value env c (new c)) cs"
  have sub: "set cs \<subseteq> set (app_cards app)" by (auto simp: cs_def)
  note rp = retagged_pushable[OF pc inv cur room(1) env subsetD[OF sub]]
  have dist_app: "distinct (map card_id (app_cards app))" using cur by (simp add: lists_current_def)
  have ids: "map card_id vs = map card_id cs" using rp(4) by (simp add: vs_def)
  have dist: "distinct (map card_id vs)" unfolding ids cs_def by (rule distinct_map_filter[OF dist_app])
  have ids_set: "card_id ` set vs = card_id ` set cs" using arg_cong[OF ids, of set] by simp
  have updates: "affected_updates env (app_cards app) affected = Ok vs"
    unfolding aff affected_cards_eq cs_def[symmetric] affected_updates_collect[OF dist_app sub] vs_def new_def[symmetric]
    by (rule collect_results_all_Ok) (use rp(1) in \<open>simp add: new_def\<close>)
  obtain t' where t': "(tag_next_with_implies (blake3 E) t title color implied (ce_now env) :: (unit, tag) outcome) = Ok t'"
    "tag_pushable E w t'" "tag_typed E t'" "tag_id t' = tag_id t" "tag_implies t' = implied" "tag_title t' = title"
    "tag_color t' = color" "tag_verify (blake3 E) t'"
    using next_tag_pushable[OF pc inv cur room(1) env(2) t] norm by metis
  have push: "\<forall>v\<in>set vs. pushable E w v" using rp(2) by (auto simp: vs_def)
  define tx where "tx = after_tag_push E (after_pushes E vs w) [t']"
  define aff' where "aff' = no_affected\<lparr>affected_cards := map card_id vs, affected_tags := [tag_id t']\<rparr>"
  have run: "apply_items E 0 (card_items vs @ [ItemTags [t']]) (w, no_affected) = Ok (tx, aff')"
    unfolding tx_def aff'_def by (rule apply_pushes_tag[OF dist push t'(2)])
  have sorted: "sorted_wrt (<) (tag_implies t')" using norm sorted_normalize_implies[of implied] by (simp add: t'(5))
  have ok: "\<forall>item\<in>set (card_items vs @ [ItemTags [t']]). item_ok E K item"
    using rp(3,4,5) current_tag(3)[OF pc inv cur t] t'(3,4) sorted by (auto simp: vs_def)
  have txn: "txn_inv E K w (tx, aff')"
    by (rule apply_items_txn[OF txn_inv_start ok run]) (use inv in \<open>simp_all add: storage_inv_def\<close>)
  have graph: "implies_of ?g = (implies_of (live_graph E w))(tag_id t' := tag_implies t')"
    unfolding next_graph_def implies_of_upsert current_graph[OF pc inv cur] t'(4,5) ..
  have closed: "\<forall>v\<in>set vs. closed_tags ?g (set (card_tags v))"
    using rp(6) closed_with_missing by (auto simp: vs_def new_def)
  have old: "\<forall>r\<in>set (cards_table w). col_card_id (row_cols r) \<notin> card_id ` set vs \<longrightarrow>
      closed_tags ?g (set (row_tags E (row_cols r)))"
  proof (intro ballI impI)
    fix r assume r: "r \<in> set (cards_table w)" "col_card_id (row_cols r) \<notin> card_id ` set vs"
    obtain c where "c \<in> set (app_cards app)" "card_id c = col_card_id (row_cols r)" "card_tags c = row_tags E (row_cols r)"
      using current_row(1)[OF pc inv cur r(1)] by blast
    moreover have "c \<notin> set cs" using r(2) \<open>card_id c = _\<close> unfolding ids_set by (metis imageI)
    ultimately show "closed_tags ?g (set (row_tags E (row_cols r)))" by (simp add: cs_def)
  qed
  have imp': "implications_ok E tx"
    by (rule tag_batch_implications[OF pc imp dist tx_def _ _ graph])
      (use inv txn live cycle closed old current_tag_ids[OF pc inv cur] in
        \<open>auto simp: storage_inv_def txn_inv_def t'(5) detect_cycle_None_iff\<close>)
  obtain w' where w': "storage_push_batch E now w (card_items vs @ [ItemTags [t']]) = (Ok (), w')"
    "commit_txn E now (tx, aff') = Ok w'"
    using push_batch_Ok[OF pc inv ok run _ imp' room(2)] by blast
  have typed: "\<forall>v\<in>set vs. card_typed E v \<and> card_verify (blake3 E) v" using rp(3,7) by (auto simp: vs_def)
  have entry: "card_log.entry w' = card_log.entry (after_pushes E vs w)"
    by (rule ext) (simp add: commit_entries[OF w'(2)], simp add: tx_def card_log.entry_def after_tag_push_def)
  have tag_entry: "tag_log.entry w' = (tag_log.entry w)(tag_id t' \<mapsto> tag_params E t')"
    by (rule ext) (simp add: commit_entries[OF w'(2)], simp add: tx_def tag_log.entry_def after_tag_push_def find_row_replace)
  have "tag_entries E w' = (tag_entries E w)(tag_id t \<mapsto> t')"
    using tag_of_params[OF pc t'(3,8) sorted] by (auto simp: tag_entries_def tag_entry t'(4))
  then show ?thesis
    using t' updates w'(1) push_batch_inv[OF w'(1) inv ok] dist entries_after_pushes[OF pc typed dist inv entry] ok
    by blast
qed

lemma find_tag_Some: "uid \<in> tag_id ` set tags \<Longrightarrow> \<exists>t\<in>set tags. find_tag uid tags = Some t \<and> tag_id t = uid"
  by (cases "find_tag uid tags") (auto simp: find_tag_def find_None_iff find_Some_iff)

lemma sort_dedup_normal: "normalize_implies (sort_dedup us) = sort_dedup us" "set (sort_dedup us) = set us"
  using normalize_implies_idem[of us] by (simp_all add: sort_dedup_def normalize_implies_def)

lemma run_implies_closed:
  assumes pc: "postcard_ok E" and inv: "storage_inv E K w" and imp: "implications_ok E w" and cur: "lists_current E w app"
    and c: "c \<in> set (app_cards app)"
  shows "closed_tags (graph_from_tags (app_tags app)) (set (card_tags c))"
proof -
  obtain r where r: "r \<in> set (cards_table w)" "row_cols r = card_params E c"
    using current_card(1)[OF pc inv cur c] by blast
  then have "closed_tags (live_graph E w) (set (card_tags c))"
    using imp pc by (force simp: implications_ok_def)
  then show ?thesis using closed_tags_cong[OF current_graph[OF pc inv cur]] by simp
qed

lemma batch_run:
  assumes push: "storage_push_batch E now w items = (Ok (), w')" and ok: "\<forall>item\<in>set items. item_ok E K item"
  shows "run E K w w'"
proof -
  have "handle_request E now w (PushBatch items) = (respond_root w', w')" using push by simp
  moreover have "request_ok E K (PushBatch items)" using ok by (simp add: request_ok_def)
  ultimately show ?thesis by (intro run_request[OF run_refl])
qed

text \<open>The local lists after the answer.\<close>

lemma edited_lists:
  assumes cur: "lists_current E w (ts_app st)" and t: "tag_id t' \<in> tag_id ` set (app_tags (ts_app st))"
    and dist: "distinct (map card_id vs)"
    and cards: "ran (card_entries E w') = set vs \<union> {c \<in> ran (card_entries E w). card_id c \<notin> card_id ` set vs}"
    and tags: "tag_entries E w' = (tag_entries E w)(tag_id t' \<mapsto> t')"
    and ids: "\<And>k u. tag_entries E w k = Some u \<Longrightarrow> tag_id u = k"
  shows "lists_current E w' (ts_app (tag_edit_succeeds t' vs st))"
proof -
  let ?app = "ts_app (tag_edit_succeeds t' vs st)"
  have app: "app_cards ?app = fold upsert_card vs (app_cards (ts_app st))"
    "app_tags ?app = replace_tag t' (app_tags (ts_app st))"
    by (simp_all add: tag_edit_succeeds_def Let_def set_unsaved_def set_editor_def)
  have d: "distinct (map tag_id (app_tags (ts_app st)))" using cur by (simp add: lists_current_def)
  have "ran (tag_entries E w') = insert t' {u \<in> ran (tag_entries E w). tag_id u \<noteq> tag_id t'}"
    unfolding tags ran_def using ids by (auto split: if_splits)
  then show ?thesis
    using cur upserts_distinct upserts_set[OF dist] cards replace_tag_map[OF d] replace_tag_set[OF d t]
    by (simp add: lists_current_def app)
qed

section \<open>A tag deletion\<close>

text \<open>The cards without the tag: pushable, and closed when no tag implies it.\<close>

lemma untagged_values:
  assumes pc: "postcard_ok E" and inv: "storage_inv E K w" and imp: "implications_ok E w"
    and cur: "lists_current E w app" and room: "count_room w app"
    and env: "ce_hash env = blake3 E" "timestamp_ok E (ce_now env)"
  shows "\<exists>vs. untagged_updates env uid (app_cards app) = Ok vs \<and> distinct (map card_id vs) \<and>
    (\<forall>v\<in>set vs. pushable E w v \<and> card_typed E v \<and> card_verify (blake3 E) v \<and> card_id v \<in> K \<and> uid \<notin> set (card_tags v)) \<and>
    (\<forall>r\<in>set (cards_table w). uid \<in> set (row_tags E (row_cols r)) \<longrightarrow> col_card_id (row_cols r) \<in> card_id ` set vs) \<and>
    ((\<forall>t\<in>set (app_tags app). uid \<notin> set (tag_implies t)) \<longrightarrow>
      (\<forall>v\<in>set vs. closed_tags (live_graph E w) (set (card_tags v))))"
proof -
  define cs where "cs = filter (\<lambda>c :: card. uid \<in> set (card_tags c)) (app_cards app)"
  define new where "new = (\<lambda>c :: card. filter (\<lambda>t. t \<noteq> uid) (card_tags c))"
  define vs where "vs = map (\<lambda>c. retag_value env c (new c)) cs"
  have sub: "set cs \<subseteq> set (app_cards app)" by (auto simp: cs_def)
  note rp = retagged_pushable[OF pc inv cur room env subsetD[OF sub]]
  have ids: "map card_id vs = map card_id cs" using rp(4) by (simp add: vs_def)
  have "distinct (map card_id (app_cards app))" using cur by (simp add: lists_current_def)
  then have dist: "distinct (map card_id vs)" unfolding ids cs_def by (rule distinct_map_filter)
  have ids_set: "card_id ` set vs = card_id ` set cs" using arg_cong[OF ids, of set] by simp
  have updates: "untagged_updates env uid (app_cards app) = Ok vs"
    unfolding untagged_updates_collect cs_def[symmetric] vs_def new_def[symmetric]
    by (rule collect_results_all_Ok) (use rp(1) in \<open>simp add: new_def\<close>)
  have facts: "\<forall>v\<in>set vs. pushable E w v \<and> card_typed E v \<and> card_verify (blake3 E) v \<and> card_id v \<in> K \<and> uid \<notin> set (card_tags v)"
    using rp by (auto simp: vs_def new_def)
  have old: "\<forall>r\<in>set (cards_table w). uid \<in> set (row_tags E (row_cols r)) \<longrightarrow> col_card_id (row_cols r) \<in> card_id ` set vs"
  proof (intro ballI impI)
    fix r assume r: "r \<in> set (cards_table w)" "uid \<in> set (row_tags E (row_cols r))"
    obtain c where "c \<in> set (app_cards app)" "card_id c = col_card_id (row_cols r)" "card_tags c = row_tags E (row_cols r)"
      using current_row(1)[OF pc inv cur r(1)] by blast
    then have "c \<in> set cs" using r(2) by (simp add: cs_def)
    then show "col_card_id (row_cols r) \<in> card_id ` set vs"
      unfolding ids_set using \<open>card_id c = _\<close> by (metis imageI)
  qed
  have "closed_tags (live_graph E w) (set (card_tags v))"
    if none: "\<forall>t\<in>set (app_tags app). uid \<notin> set (tag_implies t)" and v: "v \<in> set vs" for v
  proof -
    obtain c where c: "c \<in> set cs" "v = retag_value env c (new c)" using v by (auto simp: vs_def)
    have "closed_tags (live_graph E w) (set (card_tags c))"
      using run_implies_closed[OF pc inv imp cur subsetD[OF sub c(1)]] closed_tags_cong[OF current_graph[OF pc inv cur]] by simp
    moreover have "uid \<notin> set (implies_of (live_graph E w) a)" for a
    proof -
      have tags: "tags_ok E (tags_table w)" using inv by (simp add: storage_inv_def tables_ok_def)
      have "uid \<notin> set (row_implies E (row_cols r))" if "r \<in> set (tags_table w)" for r
        using current_row(2)[OF pc inv cur that] none by metis
      then have "uid \<notin> set us" if "tag_map E w a = Some us" for us
        using that by (auto simp: tag_map_def implies_pairs_def dest!: map_of_SomeD)
      then show ?thesis by (cases "tag_map E w a") (simp_all add: implies_of_live[OF tags])
    qed
    ultimately show ?thesis
      using rp(6)[OF c(1)] unfolding c(2) by (auto simp: closed_tags_def new_def)
  qed
  then show ?thesis using updates dist facts old by blast
qed

lemma implied_tag_row:
  assumes pc: "postcard_ok E" and inv: "storage_inv E K w" and cur: "lists_current E w app"
  shows "(\<exists>t\<in>set (app_tags app). uid \<in> set (tag_implies t)) \<longleftrightarrow> (\<exists>r\<in>set (tags_table w). uid \<in> set (row_implies E (row_cols r)))"
proof
  assume "\<exists>t\<in>set (app_tags app). uid \<in> set (tag_implies t)"
  then obtain t where t: "t \<in> set (app_tags app)" "uid \<in> set (tag_implies t)" by blast
  obtain r where "r \<in> set (tags_table w)" "row_cols r = tag_params E t" using current_tag(1)[OF pc inv cur t(1)] by blast
  then show "\<exists>r\<in>set (tags_table w). uid \<in> set (row_implies E (row_cols r))" using t(2) pc by force
next
  assume "\<exists>r\<in>set (tags_table w). uid \<in> set (row_implies E (row_cols r))"
  then show "\<exists>t\<in>set (app_tags app). uid \<in> set (tag_implies t)" using current_row(2)[OF pc inv cur] by metis
qed

text \<open>What the server answers to the batch of a deletion.\<close>

lemma tag_deletion_answer:
  assumes pc: "postcard_ok E" and inv: "storage_inv E K w" and imp: "implications_ok E w"
    and cur: "lists_current E w app" and room: "count_room w app" "db_sequence w < i64_max"
    and env: "ce_hash env = blake3 E" "timestamp_ok E (ce_now env)" and live: "uid \<in> tag_id ` set (app_tags app)"
  shows "\<exists>vs. untagged_updates env uid (app_cards app) = Ok vs \<and>
    (if \<exists>t\<in>set (app_tags app). uid \<in> set (tag_implies t)
     then \<exists>e. push_batch (online_request E now) (card_items vs @ [ItemDeleteTag uid]) w = (Err (Protocol e), w)
     else \<exists>w'. push_batch (online_request E now) (card_items vs @ [ItemDeleteTag uid]) w = (Ok (current_root w'), w') \<and>
       storage_inv E K w' \<and> run E K w w' \<and> distinct (map card_id vs) \<and>
       ran (card_entries E w') = set vs \<union> {c \<in> ran (card_entries E w). card_id c \<notin> card_id ` set vs} \<and>
       tag_entries E w' = (tag_entries E w)(uid := None))"
proof -
  obtain vs where vs: "untagged_updates env uid (app_cards app) = Ok vs" and dist: "distinct (map card_id vs)"
    and facts: "\<forall>v\<in>set vs. pushable E w v \<and> card_typed E v \<and> card_verify (blake3 E) v \<and> card_id v \<in> K \<and> uid \<notin> set (card_tags v)"
    and old: "\<forall>r\<in>set (cards_table w). uid \<in> set (row_tags E (row_cols r)) \<longrightarrow> col_card_id (row_cols r) \<in> card_id ` set vs"
    and closed: "(\<forall>t\<in>set (app_tags app). uid \<notin> set (tag_implies t)) \<longrightarrow>
      (\<forall>v\<in>set vs. closed_tags (live_graph E w) (set (card_tags v)))"
    using untagged_values[OF pc inv imp cur room(1) env] by metis
  let ?items = "card_items vs @ [ItemDeleteTag uid]"
  have push: "\<forall>v\<in>set vs. pushable E w v" using facts by blast
  have ok: "\<forall>item\<in>set ?items. item_ok E K item" using facts by auto
  show ?thesis
  proof (cases "\<exists>t\<in>set (app_tags app). uid \<in> set (tag_implies t)")
    case True
    have mid: "apply_items E 0 (card_items vs) (w, no_affected) =
        Ok (after_pushes E vs w, no_affected\<lparr>affected_cards := map card_id vs\<rparr>)"
      using apply_pushes[OF dist push, of 0 "[]" no_affected] by simp
    have "\<forall>item\<in>set (card_items vs). item_ok E K item" using ok by simp
    from apply_items_txn[OF txn_inv_start this mid] have tok: "tables_ok E (after_pushes E vs w)"
      using inv by (simp add: storage_inv_def txn_inv_def)
    obtain r where r: "r \<in> set (tags_table w)" "uid \<in> set (row_implies E (row_cols r))"
      using True implied_tag_row[OF pc inv cur] by blast
    have "tcol_tag_id (row_cols r) \<noteq> uid"
    proof
      assume self: "tcol_tag_id (row_cols r) = uid"
      have tags: "tags_ok E (tags_table w)" using inv by (simp add: storage_inv_def tables_ok_def)
      have "tag_map E w uid = Some (row_implies E (row_cols r))"
        using r(1) self distinct_implies_pairs[OF tags] by (auto simp: tag_map_def implies_pairs_def map_of_eq_Some_iff)
      then have "(uid, uid) \<in> implies_rel (live_graph E w)"
        using r(2) by (simp add: implies_rel_def implies_of_live[OF tags])
      then show False using imp by (auto simp: implications_ok_def acyclic_def)
    qed
    then have "implying_tags E (after_pushes E vs w) uid \<noteq> Ok []"
      using tok r by (auto simp: implying_tags_none[OF pc] tables_ok_def)
    then have "\<nexists>x. delete_tag_inner E (after_pushes E vs w) uid = Ok x" by (auto simp: delete_tag_inner_Ok)
    then have "\<nexists>x. apply_items E 0 ?items (w, no_affected) = Ok x"
      unfolding apply_pushes[OF dist push] by (auto simp: apply_item_def outcome_simps)
    then have no: "\<nexists>x. fst (storage_push_batch E now w ?items) = Ok x"
      by (auto simp: storage_push_batch_def transaction_def outcome_simps split: outcome.splits)
    have "fst (storage_push_batch E now w ?items) \<noteq> Panic"
      using no_panic_writes(5)[OF pc inv, of ?items now] ok by (simp add: no_panic_def request_ok_def)
    then obtain e where "storage_push_batch E now w ?items = (Err e, w)"
      using no by (cases "storage_push_batch E now w ?items"; cases "fst (storage_push_batch E now w ?items)")
        (auto simp: storage_push_batch_def transaction_def split: outcome.splits if_splits)
    then have "\<exists>e. push_batch (online_request E now) ?items w = (Err (Protocol e), w)"
      by (simp add: push_batch_def requested_def online_request_def into_root_def extract_variant_def)
    then show ?thesis using True vs by auto
  next
    case False
    then have none: "\<forall>r\<in>set (tags_table w). uid \<notin> set (row_implies E (row_cols r))"
      using implied_tag_row[OF pc inv cur] by blast
    have "uid \<in> tag_ids w" using live current_tag_ids[OF pc inv cur] by simp
    from delete_batch_applies[OF pc inv imp dist push _ _ _ old this none] obtain tx aff where
      tx: "apply_items E 0 ?items (w, no_affected) = Ok (tx, aff)" "implications_ok E tx"
      "card_log.entry tx = card_log.entry (after_pushes E vs w)" "tag_log.entry tx = (tag_log.entry w)(uid := None)"
      using facts closed False by blast
    obtain w' where w': "storage_push_batch E now w ?items = (Ok (), w')" "commit_txn E now (tx, aff) = Ok w'"
      using push_batch_Ok[OF pc inv ok tx(1) _ tx(2) room(2)] by blast
    have inv': "storage_inv E K w'" by (rule push_batch_inv[OF w'(1) inv ok])
    have entry: "card_log.entry w' = card_log.entry (after_pushes E vs w)" "tag_log.entry w' = (tag_log.entry w)(uid := None)"
      using commit_entries(1,2)[OF w'(2)] tx(3,4) by (auto simp: fun_eq_iff)
    have typed: "\<forall>v\<in>set vs. card_typed E v \<and> card_verify (blake3 E) v" using facts by blast
    have "tag_entries E w' = (tag_entries E w)(uid := None)" by (auto simp: tag_entries_def entry(2))
    then show ?thesis
      using False vs dist inv' push_batch_online[OF w'(1) inv'] batch_run[OF w'(1) ok]
        entries_after_pushes[OF pc typed dist inv entry(1)] by auto
  qed
qed

text \<open>The end of a deletion: with no moves pending the selection can be cleared, whatever the user says.\<close>

lemma select_without_moves:
  assumes "ms_pending (ui_moves (ts_ui st)) = None"
  shows "\<exists>b ui. tag_select env target st = Ok (b, st\<lparr>ts_ui := ui\<rparr>)"
proof -
  have "\<exists>x. set_selection (tn_view env) target (ts_ui st) = Ok x"
    using assms by (simp add: set_selection_def guarded_def flush_pending_priority_def flush_burst_def
        flush_sync_take_def cancel_priority_timer_def) blast
  then show ?thesis by (auto simp: tag_select_def)
qed

lemma tag_upserts_pending [simp]:
  "ms_pending (ui_moves (ts_ui (fold tag_upsert vs st))) = ms_pending (ui_moves (ts_ui st))"
  by (induction vs arbitrary: st) (simp_all add: tag_upsert_def)

lemma deletion_selects:
  assumes "ms_pending (ui_moves (ts_ui st)) = None"
  shows "\<exists>st'. tag_deletion_succeeds env uid vs st = Ok st' \<and> ts_world st' = ts_world st \<and> \<not> te_deleting (ts_editor st') \<and>
    app_cards (ts_app st') = fold upsert_card vs (app_cards (ts_app st)) \<and>
    app_tags (ts_app st') = filter (\<lambda>t. tag_id t \<noteq> uid) (app_tags (ts_app st))"
proof -
  let ?u = "fold tag_upsert vs st"
  let ?st = "?u\<lparr>ts_app := (ts_app ?u)\<lparr>app_tags := filter (\<lambda>t. tag_id t \<noteq> uid) (app_tags (ts_app ?u))\<rparr>,
    ts_ui := set_view (\<lambda>v. v\<lparr>v_tag_filter := filter (\<lambda>t. t \<noteq> uid) (v_tag_filter v)\<rparr>) (ts_ui ?u)\<rparr>"
  have "ms_pending (ui_moves (ts_ui ?st)) = None" using assms by (simp add: set_view_def)
  from select_without_moves[OF this, of env None] obtain b ui where
    "tag_select env None ?st = Ok (b, ?st\<lparr>ts_ui := ui\<rparr>)" by blast
  then show ?thesis by (simp add: tag_deletion_succeeds_def Let_def set_editor_def)
qed

lemma delete_selected_tag_unfold:
  assumes "ts_selected st = Some uid" "app_connected (ts_app st)"
    and "untagged_updates (tn_client env) uid (app_cards (ts_app st)) = Ok vs"
    and "push_batch (ce_request (tn_client env)) (card_items vs @ [ItemDeleteTag uid]) (ts_world st) = (answer, w)"
  shows "answer = Ok root \<Longrightarrow> delete_selected_tag env st =
      tag_deletion_succeeds env uid vs (set_editor (\<lambda>ed. ed\<lparr>te_deleting := True\<rparr>) st\<lparr>ts_world := w\<rparr>)"
    "answer = Err (Protocol e) \<Longrightarrow> \<exists>msg. delete_selected_tag env st =
      Ok (deletion_failed msg (set_editor (\<lambda>ed. ed\<lparr>te_deleting := True\<rparr>) st\<lparr>ts_world := w\<rparr>))"
  using assms by (simp_all add: delete_selected_tag_def Let_def set_editor_def) blast

lemma deletion_failed_fields [simp]:
  "ts_world (deletion_failed msg st) = ts_world st" "\<not> te_deleting (ts_editor (deletion_failed msg st))"
  "app_tags (ts_app (deletion_failed msg st)) = app_tags (ts_app st)"
  "app_cards (ts_app (deletion_failed msg st)) = app_cards (ts_app st)"
  by (simp_all add: deletion_failed_def set_editor_def tag_toast_def)

lemma set_editor_fields [simp]:
  "ts_world (set_editor f st) = ts_world st" "ts_app (set_editor f st) = ts_app st" "ts_ui (set_editor f st) = ts_ui st"
  by (simp_all add: set_editor_def)

section \<open>The tags on offer\<close>

lemma acyclic_with_edges:
  assumes acyclic: "acyclic r" and new: "\<And>b. b \<in> B \<Longrightarrow> (b, u) \<notin> r\<^sup>*"
  shows "acyclic (r \<union> {u} \<times> B)"
proof -
  let ?r = "r \<union> {u} \<times> B"
  have to_u: "(x, u) \<in> r\<^sup>*" if "(x, u) \<in> ?r\<^sup>*" for x
    using that by (induction rule: converse_rtrancl_induct) (auto intro: converse_rtrancl_into_rtrancl)
  have edge: "(x, y) \<in> r" if "(x, y) \<in> ?r" "(y, x) \<in> ?r\<^sup>*" for x y
    using that new to_u by blast
  have "(x, y) \<in> r\<^sup>+" if "(x, y) \<in> ?r\<^sup>+" "(y, x) \<in> ?r\<^sup>*" for x y
    using that
  proof (induction rule: trancl_induct)
    case (base y)
    then show ?case using edge by blast
  next
    case (step y z)
    have "(y, x) \<in> ?r\<^sup>*" using step.hyps(2) step.prems by (rule converse_rtrancl_into_rtrancl)
    moreover have "(z, y) \<in> ?r\<^sup>*" using step.prems trancl_into_rtrancl[OF step.hyps(1)] by (rule rtrancl_trans)
    ultimately show ?case using step.IH edge[OF step.hyps(2)] by (blast intro: trancl_into_trancl)
  qed
  then show ?thesis using acyclic unfolding acyclic_def by blast
qed

lemma implies_of_member:
  "distinct (map tag_id tags) \<Longrightarrow> t \<in> set tags \<Longrightarrow> implies_of (graph_from_tags tags) (tag_id t) = tag_implies t"
  by (simp add: graph_from_tags_pairs implies_of_from_pairs comp_def)
    (subst map_of_eq_Some_iff[THEN iffD2], auto simp: comp_def)

end
