(* ===== verification/Tag_Properties.thy ===== *)
theory Tag_Properties
  imports Tag_Editor_Facts Offline_Properties View_Properties
begin

text \<open>
  The properties of the tag panel: an edit and a deletion are accepted by the server when the local lists
  are its lists, and no choice of the tags that the form offers makes a cycle.
\<close>

section \<open>Edits\<close>

text \<open>C29: When the local lists are the server's, the save of a tag's form is accepted: the cards that lack
  a tag the new rules imply are updated in the same batch, the local lists are the server's again, the
  tag is as entered, and every local card has all the tags it should. The form asks for a title, a colour
  it can read, existing tags and no cycle; the server must have room for one more version of each.\<close>

theorem tag_edit_accepted_in_sync:
  assumes "postcard_ok E" "reachable E K (ts_world st)" "lists_current E (ts_world st) (ts_app st)"
    and "count_room (ts_world st) (ts_app st)" "db_sequence (ts_world st) < i64_max"
    and "ce_request (tn_client env) = online_request E now" "ce_hash (tn_client env) = blake3 E"
    and "timestamp_ok E (ce_now (tn_client env))" "app_connected (ts_app st)"
    and "ts_selected st = Some uid" "insert uid (set (ti_implies (te_inputs (ts_editor st)))) \<subseteq> tag_id ` set (app_tags (ts_app st))"
    and "skip_white (ti_title (te_inputs (ts_editor st))) \<noteq> []" "chosen_color (te_inputs (ts_editor st)) = Ok color"
    and "detect_cycle (next_graph uid (sort_dedup (ti_implies (te_inputs (ts_editor st)))) (app_tags (ts_app st))) = None"
  shows "\<exists>st' t'. save_changes env st = Ok st' \<and> \<not> te_editing (ts_editor st') \<and>
    run E K (ts_world st) (ts_world st') \<and> lists_current E (ts_world st') (ts_app st') \<and>
    t' \<in> set (app_tags (ts_app st')) \<and> tag_id t' = uid \<and> tag_title t' = ti_title (te_inputs (ts_editor st)) \<and>
    tag_color t' = color \<and> tag_implies t' = sort_dedup (ti_implies (te_inputs (ts_editor st))) \<and>
    (\<forall>c\<in>set (app_cards (ts_app st')). closed_tags (graph_from_tags (app_tags (ts_app st'))) (set (card_tags c)))"
proof -
  let ?app = "ts_app st" and ?ti = "te_inputs (ts_editor st)" and ?w = "ts_world st"
  let ?imp = "sort_dedup (ti_implies ?ti)"
  let ?aff = "affected_cards_for_change (next_graph uid ?imp (app_tags ?app)) (app_cards ?app)"
  note inv = reachable_inv[OF assms(2)] and imps = reachable_implications[OF assms(1,2)]
  obtain t where t: "t \<in> set (app_tags ?app)" "find_tag uid (app_tags ?app) = Some t" "tag_id t = uid"
    using find_tag_Some[of uid "app_tags ?app"] assms(11) by auto
  have live: "set ?imp \<subseteq> tag_id ` set (app_tags ?app)" using assms(11) by (simp add: sort_dedup_normal)
  obtain t' vs w' where acc:
    "(tag_next_with_implies (blake3 E) t (ti_title ?ti) color ?imp (ce_now (tn_client env)) :: (unit, tag) outcome) = Ok t'"
    "affected_updates (tn_client env) (app_cards ?app) ?aff = Ok vs"
    "storage_push_batch E now ?w (card_items vs @ [ItemTags [t']]) = (Ok (), w')" "storage_inv E K w'"
    "tag_id t' = uid" "tag_title t' = ti_title ?ti" "tag_color t' = color" "tag_implies t' = ?imp"
    "distinct (map card_id vs)"
    "ran (card_entries E w') = set vs \<union> {c \<in> ran (card_entries E ?w). card_id c \<notin> card_id ` set vs}"
    "tag_entries E w' = (tag_entries E ?w)(uid \<mapsto> t')" "\<forall>item\<in>set (card_items vs @ [ItemTags [t']]). item_ok E K item"
    using tag_edit_accepted[OF assms(1) inv imps assms(3-5,7,8) t(1) live assms(14)[folded t(3)] sort_dedup_normal(1) refl,
        of "ti_title ?ti" color now] unfolding t(3) by blast
  let ?st' = "tag_edit_succeeds t' vs (st\<lparr>ts_world := w'\<rparr>)"
  have saved: "save_changes env st = Ok ?st'"
    using assms(6,7,9,10,12,13,14) t(2) acc(1,2) push_batch_online[OF acc(3,4)]
    by (simp add: save_changes_def commit_tag_update_def Let_def)
  have fields: "\<not> te_editing (ts_editor ?st')" "ts_world ?st' = w'"
    by (simp_all add: tag_edit_succeeds_def set_editor_def set_unsaved_def Let_def)
  have cur: "lists_current E w' (ts_app ?st')"
    by (rule edited_lists[where w = ?w])
      (use assms(3,11) acc(5,9,10,11) tag_entries_id[OF assms(1) inv] in simp_all)
  have run: "run E K ?w w'" by (rule batch_run[OF acc(3,12)])
  have "t' \<in> set (app_tags (ts_app ?st'))"
    using cur acc(11) by (auto simp: lists_current_def ran_def)
  moreover have "implications_ok E w'"
    using reachable_implications[OF assms(1) reachable_run[OF assms(2) run]] .
  ultimately show ?thesis
    using saved fields run cur acc(5-8) run_implies_closed[OF assms(1) acc(4) _ cur] by metis
qed

definition demo_tag_env :: "(db, (uuid \<times> card) list, (uuid \<times> tag) list) tag_env" where
  "demo_tag_env = \<lparr>tn_client = demo_env, tn_view = demo_view_env, tn_new_uuid = 9, tn_show_error = (\<lambda>_. [])\<rparr>"

definition demo_tag_state :: "db tag_state" where
  "demo_tag_state =
     \<lparr>ts_editor = (init_inputs demo_tag new_tag_editor)\<lparr>te_editing := True\<rparr>,
      ts_ui = set_view (\<lambda>v. v\<lparr>v_selected_card := Some 2\<rparr>) demo_ui,
      ts_app = demo_app\<lparr>app_cards := [], app_tags := [demo_tag], app_connected := True\<rparr>, ts_world = demo_tag_db\<rparr>"

lemma demo_tag_fields [simp]:
  "ts_world demo_tag_state = demo_tag_db" "app_cards (ts_app demo_tag_state) = []"
  "app_tags (ts_app demo_tag_state) = [demo_tag]" "app_connected (ts_app demo_tag_state)"
  "ts_selected demo_tag_state = Some 2" "ms_pending (ui_moves (ts_ui demo_tag_state)) = None"
  "ti_implies (te_inputs (ts_editor demo_tag_state)) = []" "ti_title (te_inputs (ts_editor demo_tag_state)) = ''errands''"
  "ti_use_color (te_inputs (ts_editor demo_tag_state)) = False"
  "ce_request (tn_client demo_tag_env) = online_request demo_ext 0" "ce_hash (tn_client demo_tag_env) = blake3 demo_ext"
  "ce_now (tn_client demo_tag_env) = 0"
  by (simp_all add: demo_tag_state_def set_view_def demo_ui_def init_inputs_def tag_inputs_of_def demo_tag_env_def
      demo_env_def demo_ext_def demo_tag_def tag_first_def tag_first_with_implies_def Let_def
      normalize_implies_def)

lemma demo_tag_entries: "card_entries demo_ext demo_tag_db = Map.empty" "tag_entries demo_ext demo_tag_db = [2 \<mapsto> demo_tag]"
proof -
  have "card_log.entry demo_tag_db = Map.empty"
    using push_tag_versions_effect(2)[OF demo_tag_pushed] by (simp add: card_log.entry_def[abs_def] empty_db_def find_row_def)
  then show "card_entries demo_ext demo_tag_db = Map.empty" by (auto simp: card_entries_def)
  have "tag_of demo_ext (tag_params demo_ext demo_tag) = demo_tag"
    using demo_tag_push_ok by (intro tag_of_params[OF demo_postcard]) (simp_all add: request_ok_def)
  then show "tag_entries demo_ext demo_tag_db = [2 \<mapsto> demo_tag]" by (auto simp: tag_entries_def demo_tag_entry)
qed

lemma demo_tag_lists:
  "lists_current demo_ext demo_tag_db (ts_app demo_tag_state)" "count_room demo_tag_db (ts_app demo_tag_state)"
  "db_sequence demo_tag_db < i64_max"
proof -
  note eff = push_tag_versions_effect[OF demo_tag_pushed]
  show "lists_current demo_ext demo_tag_db (ts_app demo_tag_state)"
    by (simp add: lists_current_def demo_tag_entries)
  have "map ver_cols (tag_versions demo_tag_db) = [tag_params demo_ext demo_tag]"
    using eff(5) by (simp add: empty_db_def)
  then have "tcol_count (ver_cols v) \<le> 1" if "v \<in> set (tag_versions demo_tag_db)" for v
    using that by (cases "tag_versions demo_tag_db") (auto simp: tag_params_def i64_from_nn_def)
  then show "count_room demo_tag_db (ts_app demo_tag_state)" by (auto simp: count_room_def i64_max_def)
  show "db_sequence demo_tag_db < i64_max" using eff(4) by (simp add: empty_db_def i64_max_def)
qed

lemma demo_tag_acyclic: "detect_cycle (next_graph 2 (sort_dedup []) [demo_tag]) = None"
proof -
  have "implies_of (graph_from_tags [demo_tag]) u = []" for u
    by (simp add: graph_from_tags_pairs implies_of_from_pairs)
  then have "implies_rel (next_graph 2 (sort_dedup []) [demo_tag]) = {}"
    by (auto simp: implies_rel_def next_graph_def sort_dedup_def)
  then show ?thesis by (simp add: detect_cycle_None_iff acyclic_def)
qed

theorem tag_edit_accepted_in_sync_witness:
  "\<exists>st'. save_changes demo_tag_env demo_tag_state = Ok st' \<and> \<not> te_editing (ts_editor st') \<and>
     lists_current demo_ext (ts_world st') (ts_app st')"
proof -
  have "skip_white ''errands'' \<noteq> []" by (simp add: skip_white.simps[of "''errands''"] white_len_def LF_def CR_def)
  moreover have "chosen_color (te_inputs (ts_editor demo_tag_state)) = Ok None" by (simp add: chosen_color_def)
  ultimately show ?thesis
    using tag_edit_accepted_in_sync[of demo_ext "{1}" demo_tag_state demo_tag_env 0 2 None]
      demo_postcard demo_tag_reachable demo_tag_lists demo_tag_acyclic by auto
qed

section \<open>Deletions\<close>

text \<open>C30: When the local lists are the server's, the deletion of a tag succeeds exactly when no tag
  implies it. Then the batch takes the tag off every card that has it, and the local lists are the
  server's again, without the tag. Otherwise nothing changes, here or there, but for the toast.\<close>

theorem tag_deletion_iff_not_implied:
  assumes "postcard_ok E" "reachable E K (ts_world st)" "lists_current E (ts_world st) (ts_app st)"
    and "count_room (ts_world st) (ts_app st)" "db_sequence (ts_world st) < i64_max"
    and "ce_request (tn_client env) = online_request E now" "ce_hash (tn_client env) = blake3 E"
    and "timestamp_ok E (ce_now (tn_client env))" "app_connected (ts_app st)" "ms_pending (ui_moves (ts_ui st)) = None"
    and "ts_selected st = Some uid" "uid \<in> tag_id ` set (app_tags (ts_app st))"
  shows "\<exists>st'. delete_selected_tag env st = Ok st' \<and> \<not> te_deleting (ts_editor st') \<and>
    (if \<exists>t\<in>set (app_tags (ts_app st)). uid \<in> set (tag_implies t)
     then ts_world st' = ts_world st \<and> app_tags (ts_app st') = app_tags (ts_app st) \<and>
       app_cards (ts_app st') = app_cards (ts_app st)
     else run E K (ts_world st) (ts_world st') \<and> lists_current E (ts_world st') (ts_app st') \<and>
       uid \<notin> tag_id ` set (app_tags (ts_app st')))"
proof -
  let ?app = "ts_app st" and ?w = "ts_world st" and ?ce = "tn_client env"
  note inv = reachable_inv[OF assms(2)] and imps = reachable_implications[OF assms(1,2)]
  obtain vs where vs: "untagged_updates ?ce uid (app_cards ?app) = Ok vs"
    and answer: "if \<exists>t\<in>set (app_tags ?app). uid \<in> set (tag_implies t)
     then \<exists>e. push_batch (online_request E now) (card_items vs @ [ItemDeleteTag uid]) ?w = (Err (Protocol e), ?w)
     else \<exists>w'. push_batch (online_request E now) (card_items vs @ [ItemDeleteTag uid]) ?w = (Ok (current_root w'), w') \<and>
       storage_inv E K w' \<and> run E K ?w w' \<and> distinct (map card_id vs) \<and>
       ran (card_entries E w') = set vs \<union> {c \<in> ran (card_entries E ?w). card_id c \<notin> card_id ` set vs} \<and>
       tag_entries E w' = (tag_entries E ?w)(uid := None)"
    using tag_deletion_answer[OF assms(1) inv imps assms(3-5,7,8,12), of now] by (elim exE conjE)
  show ?thesis
  proof (cases "\<exists>t\<in>set (app_tags ?app). uid \<in> set (tag_implies t)")
    case True
    then obtain e where "push_batch (online_request E now) (card_items vs @ [ItemDeleteTag uid]) ?w = (Err (Protocol e), ?w)"
      using answer unfolding if_P[OF True] by blast
    then obtain msg where "delete_selected_tag env st =
        Ok (deletion_failed msg (set_editor (\<lambda>ed. ed\<lparr>te_deleting := True\<rparr>) st\<lparr>ts_world := ?w\<rparr>))"
      using delete_selected_tag_unfold(2)[OF assms(11,9) vs, unfolded assms(6)] by blast
    then show ?thesis using True by simp
  next
    case False
    then obtain w' where w': "push_batch (online_request E now) (card_items vs @ [ItemDeleteTag uid]) ?w = (Ok (current_root w'), w')"
      "run E K ?w w'" "distinct (map card_id vs)"
      "ran (card_entries E w') = set vs \<union> {c \<in> ran (card_entries E ?w). card_id c \<notin> card_id ` set vs}"
      "tag_entries E w' = (tag_entries E ?w)(uid := None)"
      using answer unfolding if_not_P[OF False] by blast
    let ?st = "set_editor (\<lambda>ed. ed\<lparr>te_deleting := True\<rparr>) st\<lparr>ts_world := w'\<rparr>"
    obtain st' where st': "tag_deletion_succeeds env uid vs ?st = Ok st'" "ts_world st' = w'" "\<not> te_deleting (ts_editor st')"
      "app_cards (ts_app st') = fold upsert_card vs (app_cards ?app)"
      "app_tags (ts_app st') = filter (\<lambda>t. tag_id t \<noteq> uid) (app_tags ?app)"
      using deletion_selects[of ?st env uid vs] assms(10) by auto
    have saved: "delete_selected_tag env st = Ok st'"
      unfolding delete_selected_tag_unfold(1)[OF assms(11,9) vs w'(1)[folded assms(6)] refl] by (rule st'(1))
    have "ran (tag_entries E w') = {t \<in> ran (tag_entries E ?w). tag_id t \<noteq> uid}"
      unfolding w'(5) ran_def using tag_entries_id[OF assms(1) inv] by (auto split: if_splits)
    then have "lists_current E w' (ts_app st')"
      using assms(3) upserts_distinct upserts_set[OF w'(3)] w'(4)
      by (simp add: lists_current_def st'(4,5) distinct_map_filter)
    then show ?thesis using False saved st'(2,3,5) w'(2) by auto
  qed
qed

theorem tag_deletion_iff_not_implied_witness:
  "\<exists>st'. delete_selected_tag demo_tag_env demo_tag_state = Ok st' \<and> 2 \<notin> tag_id ` set (app_tags (ts_app st'))"
  using tag_deletion_iff_not_implied[of demo_ext "{1}" demo_tag_state demo_tag_env 0 2]
    demo_postcard demo_tag_reachable demo_tag_lists by auto

section \<open>Choices\<close>

text \<open>Whatever implied tags the user keeps or picks from those on offer, the result has no cycle, if
  the tags have none: a save never meets the toast about cycles unless the tags have changed meanwhile.\<close>

theorem offered_implications_never_cycle:
  assumes "distinct (map tag_id tags)" "detect_cycle (graph_from_tags tags) = None" "t \<in> set tags"
    and "set chosen \<subseteq> set (tag_implies t) \<union> set (implies_candidates (tag_id t) current tags)"
  shows "detect_cycle (next_graph (tag_id t) chosen tags) = None"
proof -
  let ?g = "graph_from_tags tags" and ?u = "tag_id t"
  let ?B = "set (implies_candidates ?u current tags)"
  have "(b, ?u) \<notin> (implies_rel ?g)\<^sup>*" if "b \<in> ?B" for b
    using that by (auto simp: implies_candidates_def Let_def set_closure_of)
  then have "acyclic (implies_rel ?g \<union> {?u} \<times> ?B)"
    using assms(2) by (intro acyclic_with_edges) (simp_all add: detect_cycle_None_iff)
  moreover have "implies_rel (next_graph ?u chosen tags) \<subseteq> implies_rel ?g \<union> {?u} \<times> ?B"
    using assms(4) implies_of_member[OF assms(1,3)] by (auto simp: implies_rel_def next_graph_def split: if_splits)
  ultimately show ?thesis by (simp add: detect_cycle_None_iff acyclic_subset)
qed

theorem offered_implications_never_cycle_witness:
  "implies_candidates 2 [] [demo_tag, tag_first demo_hash 5 ''home'' None 1000] = [5] \<and>
   detect_cycle (next_graph 2 [5] [demo_tag, tag_first demo_hash 5 ''home'' None 1000]) = None"
proof -
  let ?tags = "[demo_tag, tag_first demo_hash 5 ''home'' None 1000]"
  have t: "tag_id (tag_first demo_hash 5 ''home'' None 1000) = 5" "tag_implies (tag_first demo_hash 5 ''home'' None 1000) = []"
    by (simp_all add: tag_first_def normalize_implies_def)
  have no: "implies_of (graph_from_tags ?tags) u = []" for u
    by (simp add: graph_from_tags_pairs implies_of_from_pairs t)
  have rel: "implies_rel (graph_from_tags ?tags) = {}" by (simp add: implies_rel_def no)
  have offered: "implies_candidates 2 [] ?tags = [5]"
    using rel by (simp add: implies_candidates_def Let_def set_closure_of t)
  have "detect_cycle (next_graph (tag_id demo_tag) [5] ?tags) = None"
    by (rule offered_implications_never_cycle[where current = "[]"])
      (use rel offered t in \<open>simp_all add: detect_cycle_None_iff acyclic_def\<close>)
  then show ?thesis using offered by simp
qed

end
