(* ===== verification/Version_History.thy ===== *)
theory Version_History
  imports Card_Editor
begin

text \<open>
  The version lists of cards and tags (clients/wasm/src/components/version_history.rs): the kinds of
  changes between consecutive versions, the list with its filter, the loading from the cache and from
  the server, and what the buttons of a version do. A view is a record of the component's signals;
  the markup of a row is reduced to what is shown in it.
\<close>

section \<open>Kinds of changes\<close>

datatype CardChangeKind =
    CardCreated | CardContent | CardPriority | CardTags | CardBlazed | CardExtinguished | CardDueDate | CardTouched

fun card_kind_label :: "CardChangeKind \<Rightarrow> string" where
  "card_kind_label CardCreated = ''Created''"
| "card_kind_label CardContent = ''Content''"
| "card_kind_label CardPriority = ''Priority''"
| "card_kind_label CardTags = ''Tags''"
| "card_kind_label CardBlazed = ''Blazed''"
| "card_kind_label CardExtinguished = ''Extinguished''"
| "card_kind_label CardDueDate = ''Due''"
| "card_kind_label CardTouched = ''Touched''"

fun card_kind_css_class :: "CardChangeKind \<Rightarrow> string" where
  "card_kind_css_class CardCreated = ''history-kind-created''"
| "card_kind_css_class CardContent = ''history-kind-content''"
| "card_kind_css_class CardPriority = ''history-kind-priority''"
| "card_kind_css_class CardTags = ''history-kind-tags''"
| "card_kind_css_class CardBlazed = ''history-kind-blazed''"
| "card_kind_css_class CardExtinguished = ''history-kind-extinguished''"
| "card_kind_css_class CardDueDate = ''history-kind-due''"
| "card_kind_css_class CardTouched = ''history-kind-touched''"

definition card_kind_all :: "CardChangeKind list" where
  "card_kind_all =
     [CardCreated, CardContent, CardPriority, CardTags, CardBlazed, CardExtinguished, CardDueDate, CardTouched]"

definition card_changes :: "card option \<Rightarrow> card \<Rightarrow> CardChangeKind list" where
  "card_changes prev cur =
     (case prev of
        None \<Rightarrow> [CardCreated]
      | Some prev \<Rightarrow>
          let changes = [];
              changes = (if card_content prev \<noteq> card_content cur then changes @ [CardContent] else changes);
              changes = (if card_priority prev \<noteq> card_priority cur then changes @ [CardPriority] else changes);
              changes = (if card_tags prev \<noteq> card_tags cur then changes @ [CardTags] else changes);
              changes = (if card_blazed prev \<noteq> card_blazed cur
                         then changes @ [if card_blazed cur then CardBlazed else CardExtinguished] else changes);
              changes = (if card_due_date prev \<noteq> card_due_date cur then changes @ [CardDueDate] else changes)
          in if changes = [] then [CardTouched] else changes)"

datatype TagChangeKind = TagCreated | TagTitle | TagColor | TagImplies | TagTouched

fun tag_kind_label :: "TagChangeKind \<Rightarrow> string" where
  "tag_kind_label TagCreated = ''Created''"
| "tag_kind_label TagTitle = ''Title''"
| "tag_kind_label TagColor = ''Color''"
| "tag_kind_label TagImplies = ''Implies''"
| "tag_kind_label TagTouched = ''Touched''"

fun tag_kind_css_class :: "TagChangeKind \<Rightarrow> string" where
  "tag_kind_css_class TagCreated = ''history-kind-created''"
| "tag_kind_css_class TagTitle = ''history-kind-title''"
| "tag_kind_css_class TagColor = ''history-kind-color''"
| "tag_kind_css_class TagImplies = ''history-kind-implies''"
| "tag_kind_css_class TagTouched = ''history-kind-touched''"

definition tag_kind_all :: "TagChangeKind list" where
  "tag_kind_all = [TagCreated, TagTitle, TagColor, TagImplies, TagTouched]"

definition tag_changes :: "tag option \<Rightarrow> tag \<Rightarrow> TagChangeKind list" where
  "tag_changes prev cur =
     (case prev of
        None \<Rightarrow> [TagCreated]
      | Some prev \<Rightarrow>
          let changes = [];
              changes = (if tag_title prev \<noteq> tag_title cur then changes @ [TagTitle] else changes);
              changes = (if tag_color prev \<noteq> tag_color cur then changes @ [TagColor] else changes);
              changes = (if tag_implies prev \<noteq> tag_implies cur then changes @ [TagImplies] else changes)
          in if changes = [] then [TagTouched] else changes)"

section \<open>The signals of a view\<close>

text \<open>\<open>'v\<close> is the type of the versions, \<open>'k\<close> the type of the kinds.\<close>

record ('v, 'k) history_view =
  hv_versions :: "'v list"
  hv_loading :: bool
  hv_error :: "string option"
  hv_expanded :: "int option"
  hv_prev :: "uuid option"
  hv_filter :: "'k option"

definition new_history_view :: "('v, 'k) history_view" where
  "new_history_view =
     \<lparr>hv_versions = [], hv_loading = True, hv_error = None, hv_expanded = None, hv_prev = None, hv_filter = None\<rparr>"

definition toggle_expanded :: "'a \<Rightarrow> 'a option \<Rightarrow> 'a option" where
  "toggle_expanded x current = (if current = Some x then None else Some x)"

definition on_toggle_expand :: "int \<Rightarrow> ('v, 'k) history_view \<Rightarrow> ('v, 'k) history_view" where
  "on_toggle_expand cnt hv = hv\<lparr>hv_expanded := toggle_expanded cnt (hv_expanded hv)\<rparr>"

section \<open>Loading\<close>

text \<open>The part of the effect that runs at once: the signals start over when the selection has changed, and
  what the cache holds is shown as it is.\<close>

definition history_effect ::
  "'v list \<Rightarrow> uuid option \<Rightarrow> ('v, 'k) history_view \<Rightarrow> ('v, 'k) history_view" where
  "history_effect cached selected hv =
     (let hv = (if hv_prev hv \<noteq> selected
                then hv\<lparr>hv_error := None, hv_expanded := None, hv_filter := None, hv_prev := selected\<rparr> else hv)
      in if cached \<noteq> [] then hv\<lparr>hv_versions := cached, hv_loading := False\<rparr> else hv\<lparr>hv_loading := True\<rparr>)"

definition card_history_effect ::
  "history_cache \<Rightarrow> uuid \<Rightarrow> uuid option \<Rightarrow> (card, CardChangeKind) history_view
   \<Rightarrow> (card, CardChangeKind) history_view" where
  "card_history_effect history uid = history_effect (get_cached_card_history history uid)"

definition tag_history_effect ::
  "history_cache \<Rightarrow> uuid \<Rightarrow> uuid option \<Rightarrow> (tag, TagChangeKind) history_view
   \<Rightarrow> (tag, TagChangeKind) history_view" where
  "tag_history_effect history uid = history_effect (get_cached_tag_history history uid)"

text \<open>The part that is spawned; \<open>show\<close> is the text of an error.\<close>

definition history_failed :: "string \<Rightarrow> ('v, 'k) history_view \<Rightarrow> ('v, 'k) history_view" where
  "history_failed msg hv =
     (if hv_versions hv = [] then hv\<lparr>hv_error := Some (''Failed to load history: '' @ msg)\<rparr> else hv)"

definition newest_first :: "('v \<Rightarrow> NonNegativeI64) \<Rightarrow> 'v list \<Rightarrow> 'v list" where
  "newest_first cnt = sort_key (\<lambda>v. - i64_from_nn (cnt v))"

definition fetch_card_history ::
  "('w, 'm, 'n) client_env \<Rightarrow> (history_cache \<Rightarrow> bytes option) \<Rightarrow> (client_error \<Rightarrow> string) \<Rightarrow> uuid
   \<Rightarrow> (card, CardChangeKind) history_view \<times> 'w session
   \<Rightarrow> (unit, (card, CardChangeKind) history_view \<times> 'w session) outcome" where
  "fetch_card_history env encode shown uid st =
     (case st of (hv, app, w) \<Rightarrow>
       if \<not> app_connected app then Ok (hv, app, w)
       else case get_card_history (ce_request env) uid w of
         (Ok history, w) \<Rightarrow>
           let history = newest_first card_count history;
               cache = update_cached_card_history uid history (app_history app)
           in Ok (hv\<lparr>hv_versions := history, hv_loading := False\<rparr>,
                app\<lparr>app_history := cache, app_disk := save_history_cache encode cache (app_disk app)\<rparr>, w)
       | (Err e, w) \<Rightarrow> Ok ((history_failed (shown e) hv)\<lparr>hv_loading := False\<rparr>, app, w)
       | (Panic, w) \<Rightarrow> Panic)"

definition fetch_tag_history ::
  "('w, 'm, 'n) client_env \<Rightarrow> (history_cache \<Rightarrow> bytes option) \<Rightarrow> (client_error \<Rightarrow> string) \<Rightarrow> uuid
   \<Rightarrow> (tag, TagChangeKind) history_view \<times> 'w session
   \<Rightarrow> (unit, (tag, TagChangeKind) history_view \<times> 'w session) outcome" where
  "fetch_tag_history env encode shown uid st =
     (case st of (hv, app, w) \<Rightarrow>
       if \<not> app_connected app then Ok (hv, app, w)
       else case get_tag_history (ce_request env) uid w of
         (Ok history, w) \<Rightarrow>
           let history = newest_first tag_count history;
               cache = update_cached_tag_history uid history (app_history app)
           in Ok (hv\<lparr>hv_versions := history, hv_loading := False\<rparr>,
                app\<lparr>app_history := cache, app_disk := save_history_cache encode cache (app_disk app)\<rparr>, w)
       | (Err e, w) \<Rightarrow> Ok ((history_failed (shown e) hv)\<lparr>hv_loading := False\<rparr>, app, w)
       | (Panic, w) \<Rightarrow> Panic)"

section \<open>What is shown\<close>

text \<open>Each version with the changes against the one after it in the list.\<close>

fun tagged_versions :: "('v option \<Rightarrow> 'v \<Rightarrow> 'k list) \<Rightarrow> 'v list \<Rightarrow> ('v \<times> 'k list) list" where
  "tagged_versions changes [] = []"
| "tagged_versions changes (v # vs) =
     (v, changes (case vs of [] \<Rightarrow> None | p # _ \<Rightarrow> Some p) v) # tagged_versions changes vs"

definition ordered_present :: "'k list \<Rightarrow> ('v \<times> 'k list) list \<Rightarrow> 'k list" where
  "ordered_present all_kinds tagged = filter (\<lambda>k. list_ex (\<lambda>(_, changes). k \<in> set changes) tagged) all_kinds"

text \<open>A filter for a kind that is gone is dropped before the list is shown.\<close>

definition settle_filter :: "'k list \<Rightarrow> 'k option \<Rightarrow> 'k option" where
  "settle_filter present active =
     (case active of Some k \<Rightarrow> if k \<notin> set present then None else active | None \<Rightarrow> None)"

definition shown_versions :: "'k option \<Rightarrow> ('v \<times> 'k list) list \<Rightarrow> ('v \<times> 'k list) list" where
  "shown_versions active =
     filter (\<lambda>(_, changes). case active of None \<Rightarrow> True | Some k \<Rightarrow> k \<in> set changes)"

definition choose_kind :: "'k \<Rightarrow> ('v, 'k) history_view \<Rightarrow> ('v, 'k) history_view" where
  "choose_kind kind hv = hv\<lparr>hv_filter := (if hv_filter hv = Some kind then None else Some kind)\<rparr>"

definition choose_all :: "('v, 'k) history_view \<Rightarrow> ('v, 'k) history_view" where
  "choose_all hv = hv\<lparr>hv_filter := None\<rparr>"

text \<open>The number of a version, padded with zeros to the width of the number of versions.\<close>

definition version_number :: "nat \<Rightarrow> int \<Rightarrow> string" where
  "version_number len cnt =
     (let digits = nat_digits (nat cnt)
      in replicate (length (nat_digits (max len 1)) - length digits) (CHR ''0'') @ digits)"

record ('v, 'k) version_row_view =
  vr_version :: 'v
  vr_number :: string
  vr_badges :: "'k list"
  vr_current :: bool
  vr_expanded :: bool

datatype ('v, 'k) history_page =
    HistoryLoading
  | HistoryError string
  | NoHistory
  | HistoryList "'k list" "('v, 'k) version_row_view list"

text \<open>The page: the chips, of which a single one is not offered, and the rows that pass the filter.\<close>

definition history_page ::
  "('v \<Rightarrow> NonNegativeI64) \<Rightarrow> ('v option \<Rightarrow> 'v \<Rightarrow> 'k list) \<Rightarrow> 'k list \<Rightarrow> ('v, 'k) history_view
   \<Rightarrow> ('v, 'k) history_page \<times> ('v, 'k) history_view" where
  "history_page cnt changes all_kinds hv =
     (if hv_loading hv then (HistoryLoading, hv)
      else case hv_error hv of
        Some err \<Rightarrow> (HistoryError err, hv)
      | None \<Rightarrow>
          let items = hv_versions hv in
          if items = [] then (NoHistory, hv)
          else
            let len = length items;
                max_count = i64_from_nn (cnt (hd items));
                tagged = tagged_versions changes items;
                present = ordered_present all_kinds tagged;
                hv = hv\<lparr>hv_filter := settle_filter present (hv_filter hv)\<rparr>;
                row = (\<lambda>(v, badges). let c = i64_from_nn (cnt v) in
                  \<lparr>vr_version = v, vr_number = version_number len c, vr_badges = badges,
                   vr_current = (max_count = c), vr_expanded = (hv_expanded hv = Some c)\<rparr>)
            in (HistoryList (if length present > 1 then present else [])
                  (map row (shown_versions (hv_filter hv) tagged)), hv))"

definition card_history_page ::
  "(card, CardChangeKind) history_view
   \<Rightarrow> (card, CardChangeKind) history_page \<times> (card, CardChangeKind) history_view" where
  "card_history_page = history_page card_count card_changes card_kind_all"

definition tag_history_page ::
  "(tag, TagChangeKind) history_view
   \<Rightarrow> (tag, TagChangeKind) history_page \<times> (tag, TagChangeKind) history_view" where
  "tag_history_page = history_page tag_count tag_changes tag_kind_all"

text \<open>The buttons inside an expanded row of a card.\<close>

definition offers_restore :: "(card, CardChangeKind) version_row_view \<Rightarrow> bool" where
  "offers_restore row \<longleftrightarrow> vr_expanded row \<and> \<not> vr_current row"

section \<open>Restoring a version\<close>

definition restored_version :: "('w, 'm, 'n) client_env \<Rightarrow> card \<Rightarrow> card \<Rightarrow> (unit, card) outcome" where
  "restored_version env current version =
     card_next (ce_hash env) current (card_content version) (card_priority current) (card_tags version)
       (card_blazed version) (ce_now env) (card_due_date version)"

text \<open>Re-selecting the card makes the detail pane show the new content.\<close>

definition reselect :: "ui \<Rightarrow> ui" where
  "reselect ui =
     (case v_selected_card (ui_view ui) of
        Some sel \<Rightarrow> set_selection_without_flush (Some sel) (set_selection_without_flush None ui)
      | None \<Rightarrow> ui)"

definition on_restore ::
  "('w, 'm, 'n) client_env \<Rightarrow> (priority_burst \<Rightarrow> uuid list) \<Rightarrow> uuid \<Rightarrow> card
   \<Rightarrow> ui \<times> 'w session \<Rightarrow> (unit, ui \<times> 'w session) outcome" where
  "on_restore env keys_of uid version st =
     (case st of (ui, app, w) \<Rightarrow>
       case find (\<lambda>c. card_id c = uid) (app_cards app) of
         None \<Rightarrow> Ok (ui, app, w)
       | Some current \<Rightarrow>
           bind_outcome (restored_version env current version) (\<lambda>restored.
             let app = app_upsert restored app;
                 ui = reselect (ui\<lparr>ui_moves := (ui_moves ui)\<lparr>ms_cards := upsert_card restored (ms_cards (ui_moves ui))\<rparr>\<rparr>)
             in map_ok (\<lambda>(moves, st). (ui\<lparr>ui_moves := moves\<rparr>, st))
                  (run_edit_task env keys_of restored (ui_moves ui, app, w))))"

section \<open>A new card from a version\<close>

definition version_prefill :: "card \<Rightarrow> NewCardPrefill" where
  "version_prefill version =
     \<lparr>prefill_content = card_content version, prefill_tags = card_tags version,
      prefill_due_date = card_due_date version\<rparr>"

text \<open>The second component is the signal of the drop-down menu.\<close>

definition on_fork :: "view_env \<Rightarrow> card \<Rightarrow> NewCardPosition \<Rightarrow> bool \<times> ui \<Rightarrow> (unit, bool \<times> ui) outcome" where
  "on_fork env version position st =
     (case st of (fork_dropdown, ui) \<Rightarrow>
       map_ok (\<lambda>(started, ui). (if started then False else fork_dropdown, ui))
         (start_new_card env position
            (set_view (\<lambda>v. v\<lparr>v_new_card_prefill := Some (version_prefill version)\<rparr>) ui)))"

end
