(* ===== verification/Card_Detail.thy ===== *)
theory Card_Detail
  imports Version_History
begin

text \<open>
  The detail pane of a card (clients/wasm/src/components/card_detail.rs), the swipes on a card of the list
  (card_item.rs) and their undo (toast.rs): which view is shown, the edits, the moves, the deletion,
  the clicks in the content and the list of linked cards. A task that a handler spawns runs to its end
  within the handler; the markup is left out.
\<close>

section \<open>State\<close>

record swipe_toast =
  toast_message :: string
  toast_original :: card

record 'w detail =
  dt_ui :: ui
  dt_app :: app_state
  dt_world :: 'w
  dt_delete_requested :: bool
  dt_confirm_delete :: nat
  dt_move_to :: string
  dt_due_preset :: DueDatePreset
  dt_due_open :: bool
  dt_position_open :: bool
  dt_clipboard :: string
  dt_copy_toast :: "string option"
  dt_swipe_toast :: "swipe_toast option"
  dt_link_cache :: "uuid \<rightharpoonup> hash \<times> uuid list"

text \<open>What the handlers only read: the client and the view, the timer handle of the browser, the texts of errors and the settings.\<close>

record ('w, 'm, 'n) detail_env =
  dn_client :: "('w, 'm, 'n) client_env"
  dn_view :: view_env
  dn_keys_of :: "priority_burst \<Rightarrow> uuid list"
  dn_timer :: int
  dn_render :: "string \<Rightarrow> string"
  dn_show_error :: "client_error \<Rightarrow> string"
  dn_search_tags :: bool
  dn_recursive_links :: bool
  dn_extinguish_on_due_set :: bool
  dn_extinguish_on_due_clear :: bool
  dn_clear_due_on_blaze :: bool

definition detail_toast :: "string \<Rightarrow> 'w detail \<Rightarrow> 'w detail" where
  "detail_toast msg st = st\<lparr>dt_app := (dt_app st)\<lparr>app_error_toast := Some msg\<rparr>\<rparr>"

definition detail_select ::
  "('w, 'm, 'n) detail_env \<Rightarrow> uuid option \<Rightarrow> 'w detail \<Rightarrow> (unit, bool \<times> 'w detail) outcome" where
  "detail_select env target st =
     map_ok (\<lambda>(selected, ui). (selected, st\<lparr>dt_ui := ui\<rparr>)) (set_selection (dn_view env) target (dt_ui st))"

text \<open>\<open>state.cards\<close> is one signal, which the app state and the moves both hold.\<close>

definition set_cards :: "card list \<Rightarrow> 'w detail \<Rightarrow> 'w detail" where
  "set_cards cards st =
     st\<lparr>dt_app := (dt_app st)\<lparr>app_cards := cards\<rparr>,
        dt_ui := (dt_ui st)\<lparr>ui_moves := (ui_moves (dt_ui st))\<lparr>ms_cards := cards\<rparr>\<rparr>\<rparr>"

definition find_card :: "uuid \<Rightarrow> 'w detail \<Rightarrow> card option" where
  "find_card uid st = find (\<lambda>c. card_id c = uid) (app_cards (dt_app st))"

definition detail_filtered :: "('w, 'm, 'n) detail_env \<Rightarrow> 'w detail \<Rightarrow> card list" where
  "detail_filtered env st =
     (let v = ui_view (dt_ui st); ce = dn_client env in
      filtered_cards (ce_to_lower ce) (ce_shuffle ce) (ce_now ce) (v_linked_card_filter v) (v_filter v)
        (v_search_query v) (v_tag_filter v) (v_tag_filter_mode v) (v_no_tags_filter v) (dn_search_tags env)
        (v_due_date_filter v) (v_include_overdue v) (v_sort_order v) (app_tags (dt_app st)) (app_cards (dt_app st)))"

section \<open>What is shown\<close>

datatype detail_view =
    NewCardView
  | NewTagView
  | NothingSelected
  | TagView
  | CardNotFound uuid
  | EditingView card
  | CardView card

definition detail_view :: "'w detail \<Rightarrow> detail_view" where
  "detail_view st =
     (let v = ui_view (dt_ui st) in
      if v_creating_new v then NewCardView
      else if v_creating_new_tag v then NewTagView
      else case v_selected_card v of
        None \<Rightarrow> NothingSelected
      | Some selected \<Rightarrow>
          if list_ex (\<lambda>t. tag_id t = selected) (app_tags (dt_app st)) then TagView
          else case find_card selected st of
            None \<Rightarrow> CardNotFound selected
          | Some c \<Rightarrow> if v_editing v then EditingView c else CardView c)"

text \<open>The request for a deletion by key, and closing the pane.\<close>

definition delete_request_effect :: "'w detail \<Rightarrow> 'w detail" where
  "delete_request_effect st =
     (if dt_delete_requested st then
        (let st = st\<lparr>dt_delete_requested := False\<rparr>; v = ui_view (dt_ui st) in
         if v_selected_card v \<noteq> None \<and> \<not> v_editing v \<and> \<not> v_creating_new v then st\<lparr>dt_confirm_delete := 1\<rparr> else st)
      else st)"

definition close_detail :: "('w, 'm, 'n) detail_env \<Rightarrow> 'w detail \<Rightarrow> (unit, 'w detail) outcome" where
  "close_detail env st =
     map_ok (\<lambda>(closed, st).
         if \<not> closed then st
         else st\<lparr>dt_ui := set_view (\<lambda>v. v\<lparr>v_has_unsaved_changes := False\<rparr>) (dt_ui st), dt_confirm_delete := 0\<rparr>)
       (detail_select env None st)"

section \<open>The position of a new card\<close>

definition initial_ref_id :: "NewCardPosition \<Rightarrow> uuid option" where
  "initial_ref_id pos = (case pos of NewAbove uid \<Rightarrow> Some uid | NewBelow uid \<Rightarrow> Some uid | _ \<Rightarrow> None)"

definition quoted_or_selected ::
  "(string \<Rightarrow> string) \<Rightarrow> card list \<Rightarrow> string \<Rightarrow> uuid \<Rightarrow> string" where
  "quoted_or_selected render cards prefix uid =
     (case Option.bind (find (\<lambda>c. card_id c = uid) cards) (\<lambda>c. card_preview render (card_content c) 40) of
        Some p \<Rightarrow> prefix @ '' '' @ [CHR 0xE2, CHR 0x80, CHR 0x9C] @ p @ [CHR 0xE2, CHR 0x80, CHR 0x9D]
      | None \<Rightarrow> prefix @ '' selected'')"

fun position_label :: "(string \<Rightarrow> string) \<Rightarrow> card list \<Rightarrow> NewCardPosition \<Rightarrow> string" where
  "position_label render cards NewBottom = ''Adding to bottom''"
| "position_label render cards NewTop = ''Adding to top''"
| "position_label render cards (NewAbove uid) = quoted_or_selected render cards ''Adding above'' uid"
| "position_label render cards (NewBelow uid) = quoted_or_selected render cards ''Adding below'' uid"

definition reference_card :: "(string \<Rightarrow> string) \<Rightarrow> card list \<Rightarrow> uuid option \<Rightarrow> (uuid \<times> string) option" where
  "reference_card render cards ref_id =
     Option.bind ref_id (\<lambda>uid. map_option (Pair uid)
       (Option.bind (find (\<lambda>c. card_id c = uid) cards) (\<lambda>c. card_preview render (card_content c) 40)))"

text \<open>The positions the picker offers: above and below only while the card that was pointed at is there.\<close>

definition offered_positions ::
  "(string \<Rightarrow> string) \<Rightarrow> card list \<Rightarrow> uuid option \<Rightarrow> NewCardPosition list" where
  "offered_positions render cards ref_id =
     [NewBottom, NewTop] @
     (case reference_card render cards ref_id of Some (uid, _) \<Rightarrow> [NewAbove uid, NewBelow uid] | None \<Rightarrow> [])"

definition pick_position :: "NewCardPosition \<Rightarrow> 'w detail \<Rightarrow> 'w detail" where
  "pick_position pos st =
     st\<lparr>dt_ui := set_view (\<lambda>v. v\<lparr>v_new_card_position := pos\<rparr>) (dt_ui st), dt_position_open := False\<rparr>"

section \<open>Edits\<close>

text \<open>The new version in the local list, and the task that flushes the pending moves and pushes it.\<close>

definition apply_edit ::
  "('w, 'm, 'n) detail_env \<Rightarrow> card \<Rightarrow> 'w detail \<Rightarrow> (unit, 'w detail) outcome" where
  "apply_edit env v st =
     (let st = set_cards (upsert_card v (app_cards (dt_app st))) st
      in map_ok (\<lambda>(moves, app, w). st\<lparr>dt_ui := (dt_ui st)\<lparr>ui_moves := moves\<rparr>, dt_app := app, dt_world := w\<rparr>)
           (run_edit_task (dn_client env) (dn_keys_of env) v (ui_moves (dt_ui st), dt_app st, dt_world st)))"

text \<open>The next version with the same content, priority and tags.\<close>

definition restated ::
  "('w, 'm, 'n) detail_env \<Rightarrow> card \<Rightarrow> bool \<Rightarrow> datetime option \<Rightarrow> (unit, card) outcome" where
  "restated env c blazed due =
     card_next (ce_hash (dn_client env)) c (card_content c) (card_priority c) (card_tags c) blazed
       (ce_now (dn_client env)) due"

definition blazed_after :: "('w, 'm, 'n) detail_env \<Rightarrow> bool \<Rightarrow> datetime option \<Rightarrow> bool" where
  "blazed_after env = blazed_after_due_change (dn_extinguish_on_due_set env) (dn_extinguish_on_due_clear env)"

definition set_due_date ::
  "('w, 'm, 'n) detail_env \<Rightarrow> uuid \<Rightarrow> datetime option \<Rightarrow> 'w detail \<Rightarrow> (unit, 'w detail) outcome" where
  "set_due_date env uid new_due st =
     (case find_card uid st of
        None \<Rightarrow> Ok st
      | Some cur \<Rightarrow>
          if card_due_date cur = new_due then Ok st
          else bind_outcome (restated env cur (blazed_after env (card_blazed cur) new_due) new_due)
                 (\<lambda>v. apply_edit env v st))"

definition on_blaze :: "('w, 'm, 'n) detail_env \<Rightarrow> uuid \<Rightarrow> 'w detail \<Rightarrow> (unit, 'w detail) outcome" where
  "on_blaze env uid st =
     (case find_card uid st of
        None \<Rightarrow> Ok st
      | Some cur \<Rightarrow>
          let new_blazed = (\<not> card_blazed cur);
              new_due = due_after_blaze_change (dn_clear_due_on_blaze env) (card_due_date cur) (card_blazed cur) new_blazed
          in bind_outcome (restated env cur new_blazed new_due) (\<lambda>v. apply_edit env v st))"

text \<open>The controls of the due date.\<close>

definition smart_preset :: "datetime \<Rightarrow> datetime option \<Rightarrow> DueDatePreset" where
  "smart_preset now due =
     (case due of
        Some d \<Rightarrow> if due_date_status now d = DueIsToday then PresetTomorrow else PresetToday
      | None \<Rightarrow> PresetToday)"

definition quick_due ::
  "('w, 'm, 'n) detail_env \<Rightarrow> uuid \<Rightarrow> 'w detail \<Rightarrow> (unit, 'w detail) outcome" where
  "quick_due env uid st =
     (let now = ce_now (dn_client env);
          smart = smart_preset now (Option.bind (find_card uid st) card_due_date)
      in set_due_date env uid (Some (preset_resolve now smart)) (st\<lparr>dt_due_preset := smart\<rparr>))"

definition pick_preset ::
  "('w, 'm, 'n) detail_env \<Rightarrow> uuid \<Rightarrow> DueDatePreset \<Rightarrow> 'w detail \<Rightarrow> (unit, 'w detail) outcome" where
  "pick_preset env uid p st =
     map_ok (\<lambda>st. st\<lparr>dt_due_open := False\<rparr>)
       (set_due_date env uid (Some (preset_resolve (ce_now (dn_client env)) p)) (st\<lparr>dt_due_preset := p\<rparr>))"

text \<open>The date of the date field, as chrono reads it: a day number, or nothing.\<close>

definition pick_date ::
  "('w, 'm, 'n) detail_env \<Rightarrow> uuid \<Rightarrow> int option \<Rightarrow> 'w detail \<Rightarrow> (unit, 'w detail) outcome" where
  "pick_date env uid date st =
     (case date of Some d \<Rightarrow> set_due_date env uid (Some (midnight_utc d)) st | None \<Rightarrow> Ok st)"


section \<open>Moves\<close>

definition detail_place ::
  "('w, 'm, 'n) detail_env \<Rightarrow> card \<Rightarrow> InsertPosition \<Rightarrow> 'w detail \<Rightarrow> (unit, 'w detail) outcome" where
  "detail_place env cur pos st =
     (let filtered = detail_filtered env st; ce = dn_client env in
      map_ok (\<lambda>moves. set_cards (ms_cards moves) (st\<lparr>dt_ui := (dt_ui st)\<lparr>ui_moves := moves\<rparr>\<rparr>))
        (apply_move_placement (ce_hash ce) (ce_now ce) (dn_keys_of env) (dn_timer env)
           (move_card (ce_random_range ce) filtered (card_id cur) pos) cur filtered (ui_moves (dt_ui st))))"

definition on_move_edge ::
  "('w, 'm, 'n) detail_env \<Rightarrow> InsertPosition \<Rightarrow> uuid \<Rightarrow> 'w detail \<Rightarrow> (unit, 'w detail) outcome" where
  "on_move_edge env pos uid st =
     (case find_card uid st of None \<Rightarrow> Ok st | Some cur \<Rightarrow> detail_place env cur pos st)"

definition on_move_top :: "('w, 'm, 'n) detail_env \<Rightarrow> uuid \<Rightarrow> 'w detail \<Rightarrow> (unit, 'w detail) outcome" where
  "on_move_top env = on_move_edge env Top"

definition on_move_bottom :: "('w, 'm, 'n) detail_env \<Rightarrow> uuid \<Rightarrow> 'w detail \<Rightarrow> (unit, 'w detail) outcome" where
  "on_move_bottom env = on_move_edge env Bottom"

text \<open>A move by the card's index in the filtered list.\<close>

definition on_move_step ::
  "('w, 'm, 'n) detail_env \<Rightarrow> (nat \<Rightarrow> nat \<Rightarrow> nat option) \<Rightarrow> uuid \<Rightarrow> 'w detail \<Rightarrow> (unit, 'w detail) outcome" where
  "on_move_step env step uid st =
     (case find_card uid st of
        None \<Rightarrow> Ok st
      | Some cur \<Rightarrow>
          let filtered = detail_filtered env st in
          case iter_position (\<lambda>c. card_id c = uid) filtered of
            None \<Rightarrow> Ok st
          | Some idx \<Rightarrow>
              (case step (length filtered) idx of
                 None \<Rightarrow> Ok st | Some i \<Rightarrow> detail_place env cur (At i) st))"

definition on_move_up :: "('w, 'm, 'n) detail_env \<Rightarrow> uuid \<Rightarrow> 'w detail \<Rightarrow> (unit, 'w detail) outcome" where
  "on_move_up env = on_move_step env up_step"

definition on_move_down :: "('w, 'm, 'n) detail_env \<Rightarrow> uuid \<Rightarrow> 'w detail \<Rightarrow> (unit, 'w detail) outcome" where
  "on_move_down env = on_move_step env down_step"

text \<open>The position typed into the field, from 1, as a 32-bit \<open>usize\<close>; what does not parse is read as 1.\<close>

fun trim_end :: "string \<Rightarrow> string" where
  "trim_end [] = []"
| "trim_end (c # cs) = (if skip_white (c # cs) = [] then [] else c # trim_end cs)"

definition target_position :: "string \<Rightarrow> nat \<Rightarrow> nat" where
  "target_position input len =
     (let n = (case parse_unsigned (2 ^ 32) (trim_end (skip_white input)) of Some n \<Rightarrow> n | None \<Rightarrow> 1)
      in min (max n 1) len)"

definition to_step :: "string \<Rightarrow> nat \<Rightarrow> nat \<Rightarrow> nat option" where
  "to_step input len idx =
     (if len = 0 then None
      else if target_position input len - 1 = idx then None else Some (target_position input len - 1))"

definition on_move_to :: "('w, 'm, 'n) detail_env \<Rightarrow> uuid \<Rightarrow> 'w detail \<Rightarrow> (unit, 'w detail) outcome" where
  "on_move_to env uid st = on_move_step env (to_step (dt_move_to st)) uid st"

text \<open>Which of the buttons are enabled when the pane is drawn, and what the field then holds.\<close>

record move_controls =
  mc_upwards :: bool
  mc_downwards :: bool
  mc_move_to :: bool
  mc_input :: string
  mc_total :: nat

definition move_controls :: "('w, 'm, 'n) detail_env \<Rightarrow> uuid \<Rightarrow> 'w detail \<Rightarrow> move_controls" where
  "move_controls env uid st =
     (let v = ui_view (dt_ui st);
          reorder_disabled = (v_editing v \<or> \<not> reorder_allowed v);
          filtered = (if v_editing v then [] else detail_filtered env st);
          pos = iter_position (\<lambda>c. card_id c = uid) filtered;
          is_at_top = (pos = Some 0);
          is_at_bottom = (pos = Some (length filtered - 1));
          in_filtered = (pos \<noteq> None \<and> \<not> reorder_disabled)
      in \<lparr>mc_upwards = (in_filtered \<and> \<not> is_at_top), mc_downwards = (in_filtered \<and> \<not> is_at_bottom),
          mc_move_to = in_filtered,
          mc_input = (if in_filtered then nat_digits (case pos of Some i \<Rightarrow> i + 1 | None \<Rightarrow> 0) else []),
          mc_total = length filtered\<rparr>)"

text \<open>The neighbours in the list.\<close>

definition select_neighbour ::
  "('w, 'm, 'n) detail_env \<Rightarrow> (nat \<Rightarrow> nat \<Rightarrow> nat option) \<Rightarrow> uuid \<Rightarrow> 'w detail \<Rightarrow> (unit, 'w detail) outcome" where
  "select_neighbour env step uid st =
     (let filtered = detail_filtered env st in
      case Option.bind (iter_position (\<lambda>c. card_id c = uid) filtered) (step (length filtered)) of
        None \<Rightarrow> Ok st
      | Some i \<Rightarrow> map_ok snd (detail_select env (Some (card_id (filtered ! i))) st))"

definition next_step :: "nat \<Rightarrow> nat \<Rightarrow> nat option" where
  "next_step len i = (if i + 1 < len then Some (i + 1) else None)"

definition on_next :: "('w, 'm, 'n) detail_env \<Rightarrow> uuid \<Rightarrow> 'w detail \<Rightarrow> (unit, 'w detail) outcome" where
  "on_next env = select_neighbour env next_step"

definition on_prev :: "('w, 'm, 'n) detail_env \<Rightarrow> uuid \<Rightarrow> 'w detail \<Rightarrow> (unit, 'w detail) outcome" where
  "on_prev env = select_neighbour env up_step"

section \<open>Deletion\<close>

datatype prompt_button = ConfirmYes | ConfirmPermanently | ConfirmCancel

fun prompt_buttons :: "nat \<Rightarrow> prompt_button list" where
  "prompt_buttons step =
     (if step = 2 then [ConfirmPermanently, ConfirmCancel]
      else if step = 1 then [ConfirmYes, ConfirmCancel] else [])"

definition delete_label :: "(string \<Rightarrow> string) \<Rightarrow> uuid \<Rightarrow> 'w detail \<Rightarrow> string" where
  "delete_label render uid st =
     ''Card: '' @
     (case Option.bind (find_card uid st) (\<lambda>c. card_preview render (card_content c) 120) of
        Some p \<Rightarrow> p | None \<Rightarrow> ''(empty)'')"

definition delete_card_offline_toast :: string where
  "delete_card_offline_toast = ''Can't delete cards while offline''"

definition do_confirm_delete ::
  "('w, 'm, 'n) detail_env \<Rightarrow> uuid \<Rightarrow> 'w detail \<Rightarrow> (unit, 'w detail) outcome" where
  "do_confirm_delete env uid st =
     (let st = st\<lparr>dt_ui := (dt_ui st)\<lparr>ui_moves := discard_for uid (ui_moves (dt_ui st))\<rparr>, dt_confirm_delete := 0\<rparr> in
      if \<not> app_connected (dt_app st) then Ok (detail_toast delete_card_offline_toast st)
      else case delete_card (ce_request (dn_client env)) uid (dt_world st) of
        (Ok _, w) \<Rightarrow>
          map_ok snd (detail_select env None
            (set_cards (filter (\<lambda>c. card_id c \<noteq> uid) (app_cards (dt_app st))) (st\<lparr>dt_world := w\<rparr>)))
      | (Err ConnectionLost, w) \<Rightarrow> Ok (detail_toast delete_card_offline_toast (st\<lparr>dt_world := w\<rparr>))
      | (Err e, w) \<Rightarrow> Ok (detail_toast (''Failed to delete card: '' @ dn_show_error env e) (st\<lparr>dt_world := w\<rparr>))
      | (Panic, _) \<Rightarrow> Panic)"

fun on_prompt ::
  "('w, 'm, 'n) detail_env \<Rightarrow> uuid \<Rightarrow> prompt_button \<Rightarrow> 'w detail \<Rightarrow> (unit, 'w detail) outcome" where
  "on_prompt env uid ConfirmYes st = Ok (st\<lparr>dt_confirm_delete := 2\<rparr>)"
| "on_prompt env uid ConfirmPermanently st = do_confirm_delete env uid st"
| "on_prompt env uid ConfirmCancel st = Ok (st\<lparr>dt_confirm_delete := 0\<rparr>)"

definition on_delete_click :: "'w detail \<Rightarrow> 'w detail" where
  "on_delete_click st = st\<lparr>dt_confirm_delete := 1\<rparr>"

text \<open>
  The content of the detail pane (clients/wasm/src/components/card_detail.rs): the rendered text and what a
  click in it does, the texts that are copied, the tag chips, and the list of linked cards with its
  filters. The element under a click and the Markdown renderer are arguments.
\<close>

section \<open>Rendering\<close>

definition CARD_LINK_PREVIEW_MAX_WIDTH :: nat where "CARD_LINK_PREVIEW_MAX_WIDTH = 80"

text \<open>\<open>html.replace(pat, "")\<close> for a pattern that is not empty.\<close>

function remove_all :: "string \<Rightarrow> string \<Rightarrow> string" where
  "remove_all pat s =
     (if s = [] \<or> pat = [] then s
      else if take (length pat) s = pat then remove_all pat (drop (length pat) s)
      else hd s # remove_all pat (tl s))"
  by pat_completeness auto
termination by (relation "measure (\<lambda>(pat, s). length s)") auto

declare remove_all.simps [simp del]

definition disabled_attr :: string where "disabled_attr = '' disabled=\"\"''"

definition render_card_markdown ::
  "(string \<Rightarrow> string) \<Rightarrow> string \<Rightarrow> uuid set \<Rightarrow> (uuid \<rightharpoonup> string) \<Rightarrow> uuid set \<Rightarrow> string" where
  "render_card_markdown markdown_to_html src_text known_ids card_previews blazed_ids =
     (let html = remove_all disabled_attr (markdown_to_html src_text)
      in wrap_code_blocks_with_copy_button
           (linkify_card_uuids_with_previews html known_ids card_previews blazed_ids))"

definition link_previews :: "(string \<Rightarrow> string) \<Rightarrow> card list \<Rightarrow> (uuid \<rightharpoonup> string)" where
  "link_previews render cards =
     map_of (rev (map (\<lambda>c. (card_id c,
       case card_preview render (card_content c) CARD_LINK_PREVIEW_MAX_WIDTH of
         Some p \<Rightarrow> p | None \<Rightarrow> ''(empty)'')) cards))"

definition content_html :: "(string \<Rightarrow> string) \<Rightarrow> (string \<Rightarrow> string) \<Rightarrow> card \<Rightarrow> 'w detail \<Rightarrow> string" where
  "content_html markdown_to_html render c st =
     (let cards = app_cards (dt_app st)
      in render_card_markdown markdown_to_html (card_content c) (set (map card_id cards)) (link_previews render cards)
           (set (map card_id (filter card_blazed cards))))"

section \<open>Copies\<close>

definition on_copy_content :: "('w, 'm, 'n) detail_env \<Rightarrow> string \<Rightarrow> 'w detail \<Rightarrow> 'w detail" where
  "on_copy_content env src_text st =
     (let msg = (case card_preview (dn_render env) src_text 30 of
            Some p \<Rightarrow> ''Copied content'' @ DASH @ p | None \<Rightarrow> ''Copied content'')
      in st\<lparr>dt_clipboard := src_text, dt_copy_toast := Some msg\<rparr>)"

definition on_copy_id :: "('w, 'm, 'n) detail_env \<Rightarrow> card \<Rightarrow> 'w detail \<Rightarrow> 'w detail" where
  "on_copy_id env c st =
     (let id_str = uuid_to_string (card_id c);
          id_preview = take 8 id_str;
          msg = (case card_preview (dn_render env) (card_content c) 30 of
            Some p \<Rightarrow> ''Copied '' @ id_preview @ ELLIPSIS @ DASH @ p
          | None \<Rightarrow> ''Copied '' @ id_preview @ ELLIPSIS)
      in st\<lparr>dt_clipboard := id_str, dt_copy_toast := Some msg\<rparr>)"

section \<open>Clicks in the content\<close>

text \<open>What the event target is: a link to a card, inside a copy button, a check box (or the item of one) with
  its index among the check boxes of the pane, or something else.\<close>

datatype click_target = OnCardLink uuid | OnCopyButton | OnCheckbox nat | OnText

definition toggle_checkbox ::
  "('w, 'm, 'n) detail_env \<Rightarrow> uuid \<Rightarrow> nat \<Rightarrow> 'w detail \<Rightarrow> (unit, 'w detail) outcome" where
  "toggle_checkbox env uid cb_index st =
     (case find_card uid st of
        None \<Rightarrow> Ok st
      | Some cur \<Rightarrow>
          (case toggle_task_item (card_content cur) cb_index of
             None \<Rightarrow> Ok st
           | Some new_content \<Rightarrow>
               bind_outcome
                 (card_next (ce_hash (dn_client env)) cur new_content (card_priority cur) (card_tags cur)
                    (card_blazed cur) (ce_now (dn_client env)) (card_due_date cur))
                 (\<lambda>v. apply_edit env v st)))"

fun on_content_click ::
  "('w, 'm, 'n) detail_env \<Rightarrow> uuid \<Rightarrow> click_target \<Rightarrow> 'w detail \<Rightarrow> (unit, 'w detail) outcome" where
  "on_content_click env uid (OnCardLink target) st = map_ok snd (detail_select env (Some target) st)"
| "on_content_click env uid OnCopyButton st = Ok st"
| "on_content_click env uid (OnCheckbox cb_index) st = toggle_checkbox env uid cb_index st"
| "on_content_click env uid OnText st = Ok st"

text \<open>A click on a tag chip adds the tag and everything it implies to the filter.\<close>

definition on_tag_click :: "view_env \<Rightarrow> uuid \<Rightarrow> 'w detail \<Rightarrow> 'w detail" where
  "on_tag_click env uid st =
     (let to_add = closure_of (graph_from_tags (app_tags (dt_app st))) [uid]
      in st\<lparr>dt_ui := sync_query_params env
           (set_view (\<lambda>v. v\<lparr>v_tag_filter := push_missing to_add (v_tag_filter v)\<rparr>) (dt_ui st))\<rparr>)"

section \<open>Linked cards\<close>

datatype link_direction = MutualLink | ForwardLink | BackLink | TransitiveLink

definition direction_of :: "uuid list \<Rightarrow> uuid list \<Rightarrow> uuid \<Rightarrow> link_direction" where
  "direction_of forward_ids back_ids uid =
     (if uid \<in> set forward_ids then (if uid \<in> set back_ids then MutualLink else ForwardLink)
      else if uid \<in> set back_ids then BackLink else TransitiveLink)"

fun direction_rank :: "link_direction \<Rightarrow> nat" where
  "direction_rank MutualLink = 0"
| "direction_rank ForwardLink = 1"
| "direction_rank BackLink = 2"
| "direction_rank TransitiveLink = 3"

fun direction_tip :: "link_direction \<Rightarrow> string" where
  "direction_tip MutualLink = ''Mutual link''"
| "direction_tip ForwardLink = ''Forward link''"
| "direction_tip BackLink = ''Back link''"
| "direction_tip TransitiveLink = ''Transitive link''"

text \<open>The expanded set of a card comes from the cache, or is computed and stored there.\<close>

definition cached_expansion ::
  "('w, 'm, 'n) detail_env \<Rightarrow> card \<Rightarrow> 'w detail \<Rightarrow> uuid list \<times> 'w detail" where
  "cached_expansion env c st =
     (case dt_link_cache st (card_id c) of
        Some (_, ids) \<Rightarrow> (ids, st)
      | None \<Rightarrow>
          let ids = expand_linked_cards (card_id c) (app_cards (dt_app st))
          in (ids, st\<lparr>dt_link_cache := (dt_link_cache st)(card_id c \<mapsto>
               (ce_hash (dn_client env) (str_bytes (card_content c)), ids))\<rparr>))"

record linked_section =
  lk_forward :: "uuid list"
  lk_back :: "uuid list"
  lk_all :: "uuid list"
  lk_entries :: "(uuid \<times> string \<times> link_direction \<times> bool) list"
  lk_counts :: link_counts

definition linked_section ::
  "('w, 'm, 'n) detail_env \<Rightarrow> card \<Rightarrow> 'w detail \<Rightarrow> linked_section \<times> 'w detail" where
  "linked_section env c st =
     (let uid = card_id c;
          cards = app_cards (dt_app st);
          forward_ids = extract_card_links (card_content c) uid;
          back_ids = extract_back_links uid cards;
          direct = forward_ids @ filter (\<lambda>u. u \<notin> set forward_ids) back_ids;
          (expanded, st) = (if dn_recursive_links env then cached_expansion env c st else ([], st));
          all_linked_ids = direct @ filter (\<lambda>u. u \<notin> set direct) expanded;
          direction = direction_of forward_ids back_ids;
          sorted_ids = sort_key (\<lambda>u. direction_rank (direction u)) all_linked_ids;
          back_only_count = length (filter (\<lambda>u. u \<notin> set forward_ids) back_ids)
      in (\<lparr>lk_forward = forward_ids, lk_back = back_ids, lk_all = all_linked_ids,
           lk_entries = map (\<lambda>(lid, preview). (lid, preview, direction lid,
               lid \<in> set (map card_id (filter card_blazed cards))))
             (resolve_linked_cards (dn_render env) sorted_ids cards 500),
           lk_counts = \<lparr>forward = length (filter (\<lambda>u. u \<notin> set back_ids) forward_ids),
             backward = back_only_count, mutual = length (filter (\<lambda>u. u \<in> set back_ids) forward_ids),
             transitive = length all_linked_ids - length forward_ids - back_only_count\<rparr>\<rparr>, st))"

text \<open>The buttons of the section: the filters, each with the card itself in front, and the entries.\<close>

datatype linked_filter = FilterLinked | ForwardOnly | BackOnly | DirectOnly

fun linked_filter_ids :: "uuid \<Rightarrow> linked_section \<Rightarrow> linked_filter \<Rightarrow> uuid list" where
  "linked_filter_ids uid ls FilterLinked = uid # lk_all ls"
| "linked_filter_ids uid ls ForwardOnly = uid # lk_forward ls"
| "linked_filter_ids uid ls BackOnly = uid # lk_back ls"
| "linked_filter_ids uid ls DirectOnly = uid # push_missing (lk_back ls) (lk_forward ls)"

definition on_linked_filter ::
  "view_env \<Rightarrow> uuid \<Rightarrow> linked_section \<Rightarrow> linked_filter \<Rightarrow> 'w detail \<Rightarrow> 'w detail" where
  "on_linked_filter env uid ls f st =
     st\<lparr>dt_ui := show_linked_cards env (linked_filter_ids uid ls f) (dt_ui st)\<rparr>"

end
