(* ===== verification/Card_Item.thy ===== *)
theory Card_Item
  imports Complex_Main Card_Detail
begin

text \<open>
  A card of the list (clients/wasm/src/components/card_item.rs) and the toast after a swipe (toast.rs): the
  texts of a row, the swipe as it follows the finger, what it does when the finger is lifted, and the
  undo. Offsets are pixels; a number that the code keeps as a floating-point one is a rational here.
\<close>

section \<open>Zones of a swipe to the left\<close>

definition levels_zone :: "rat \<Rightarrow> rat \<Rightarrow> rat \<Rightarrow> rat \<Rightarrow> rat \<Rightarrow> nat option" where
  "levels_zone offset threshold_l today_w tomorrow_w soon_w =
     (let adx = \<bar>offset\<bar> in
      if adx < threshold_l then None
      else
        let z2 = threshold_l + today_w;
            z3 = z2 + tomorrow_w;
            z4 = z3 + soon_w
        in Some (if adx < z2 then 1 else if adx < z3 then 2 else if adx < z4 then 3 else 4))"

definition levels_zone_class :: "nat \<Rightarrow> string" where
  "levels_zone_class zone =
     (if zone = 1 then ''swipe-bg-due-today'' else if zone = 2 then ''swipe-bg-due-tomorrow''
      else if zone = 3 then ''swipe-bg-due-soon'' else ''swipe-bg-due-clear'')"

definition levels_zone_label :: "nat \<Rightarrow> string" where
  "levels_zone_label zone =
     (if zone = 1 then ''Today'' else if zone = 2 then ''Tomorrow''
      else if zone = 3 then ''In 2 days'' else ''Clear due'')"

text \<open>The settings of the swipe.\<close>

record swipe_settings =
  sw_enabled :: bool
  sw_left_mode :: string
  sw_right_levels :: rat
  sw_right_cycle :: rat
  sw_left_levels :: rat
  sw_left_cycle :: rat
  sw_today_width :: rat
  sw_tomorrow_width :: rat
  sw_soon_width :: rat

definition levels_mode :: "swipe_settings \<Rightarrow> bool" where
  "levels_mode s \<longleftrightarrow> sw_left_mode s = ''levels''"

definition threshold_r :: "swipe_settings \<Rightarrow> rat" where
  "threshold_r s = (if levels_mode s then sw_right_levels s else sw_right_cycle s)"

definition threshold_l :: "swipe_settings \<Rightarrow> rat" where
  "threshold_l s = (if levels_mode s then sw_left_levels s else sw_left_cycle s)"

definition zone_of :: "swipe_settings \<Rightarrow> rat \<Rightarrow> nat option" where
  "zone_of s offset =
     levels_zone offset (threshold_l s) (sw_today_width s) (sw_tomorrow_width s) (sw_soon_width s)"

section \<open>The finger\<close>

record swipe =
  sp_start_x :: rat
  sp_start_y :: rat
  sp_swiping :: bool
  sp_offset :: rat

definition no_swipe :: swipe where
  "no_swipe = \<lparr>sp_start_x = 0, sp_start_y = 0, sp_swiping = False, sp_offset = 0\<rparr>"

definition on_touchstart :: "swipe_settings \<Rightarrow> bool \<Rightarrow> nat \<Rightarrow> rat \<Rightarrow> rat \<Rightarrow> swipe \<Rightarrow> swipe" where
  "on_touchstart s drag_in_flight touches x y sw =
     (if \<not> sw_enabled s then sw
      else if drag_in_flight then sw
      else if touches \<noteq> 1 then sw
      else \<lparr>sp_start_x = x, sp_start_y = y, sp_swiping = False, sp_offset = 0\<rparr>)"

text \<open>Beyond a threshold the card follows more and more slowly, but never further than the brake.\<close>

definition braked :: "rat \<Rightarrow> rat \<Rightarrow> rat" where
  "braked threshold distance =
     (let extra = distance - threshold; brake = threshold * (12 / 10)
      in threshold + brake * extra / (extra + brake))"

definition swipe_offset_of :: "swipe_settings \<Rightarrow> rat \<Rightarrow> rat" where
  "swipe_offset_of s dx =
     (if dx > 0 then (if dx \<le> threshold_r s then dx else braked (threshold_r s) dx)
      else if levels_mode s then dx
      else let adx = \<bar>dx\<bar> in if adx \<le> sw_left_cycle s then dx else - braked (sw_left_cycle s) adx)"

definition on_touchmove :: "swipe_settings \<Rightarrow> bool \<Rightarrow> rat \<Rightarrow> rat \<Rightarrow> swipe \<Rightarrow> swipe" where
  "on_touchmove s drag_in_flight x y sw =
     (if \<not> sw_enabled s \<or> drag_in_flight then sw
      else
        let dx = x - sp_start_x sw; dy = y - sp_start_y sw in
        if \<not> sp_swiping sw \<and> \<not> (\<bar>dx\<bar> > 10 \<and> \<bar>dx\<bar> > \<bar>dy\<bar> * (15 / 10)) then sw
        else sw\<lparr>sp_swiping := True, sp_offset := swipe_offset_of s dx\<rparr>)"

section \<open>Lifting the finger\<close>

text \<open>\<open>read_card\<close>: the memo of the list, or else the list.\<close>

definition read_card :: "(uuid \<rightharpoonup> card) \<Rightarrow> uuid \<Rightarrow> 'w detail \<Rightarrow> card option" where
  "read_card memo uid st = (case memo uid of Some c \<Rightarrow> Some c | None \<Rightarrow> find_card uid st)"

definition show_swipe_toast :: "string \<Rightarrow> card \<Rightarrow> 'w detail \<Rightarrow> 'w detail" where
  "show_swipe_toast message original st =
     st\<lparr>dt_swipe_toast := Some \<lparr>toast_message = message, toast_original = original\<rparr>\<rparr>"

text \<open>The due date a swipe to the left sets and its message; \<open>fmt\<close> formats a day as \<open>%Y-%m-%d\<close>.\<close>

definition zone_due :: "(int \<Rightarrow> string) \<Rightarrow> datetime \<Rightarrow> nat \<Rightarrow> datetime option \<times> string" where
  "zone_due fmt now zone =
     (if zone = 1 then (Some (today_midnight now), ''Due: Today'')
      else if zone = 2 then (Some (tomorrow_midnight now), ''Due: Tomorrow'')
      else if zone = 3 then (Some (in_two_days_midnight now), ''Due: '' @ fmt (date_naive now + 2))
      else (None, ''Due: Cleared''))"

definition cycle_due :: "(int \<Rightarrow> string) \<Rightarrow> datetime \<Rightarrow> datetime option \<Rightarrow> datetime option \<times> string" where
  "cycle_due fmt now due =
     (let current_date = map_option date_naive due; today_date = date_naive now in
      if current_date = Some today_date then zone_due fmt now 2
      else if current_date = Some (today_date + 1) then zone_due fmt now 3
      else if current_date = Some (today_date + 2) then zone_due fmt now 4
      else zone_due fmt now 1)"

definition left_due ::
  "swipe_settings \<Rightarrow> (int \<Rightarrow> string) \<Rightarrow> datetime \<Rightarrow> rat \<Rightarrow> card \<Rightarrow> datetime option \<times> string" where
  "left_due s fmt now offset c =
     (if levels_mode s then zone_due fmt now (case zone_of s offset of Some z \<Rightarrow> z | None \<Rightarrow> 1)
      else cycle_due fmt now (card_due_date c))"

text \<open>\<open>Extinguished\<close> and \<open>Blazed\<close> carry an emoji, in UTF-8.\<close>

definition blaze_message :: "bool \<Rightarrow> string" where
  "blaze_message was_blazed =
     (if was_blazed then ''Extinguished '' @ [CHR 0xF0, CHR 0x9F, CHR 0x9A, CHR 0x80]
      else ''Blazed '' @ [CHR 0xF0, CHR 0x9F, CHR 0x94, CHR 0xA5])"

definition swipe_right :: "('w, 'm, 'n) detail_env \<Rightarrow> card \<Rightarrow> 'w detail \<Rightarrow> (unit, 'w detail) outcome" where
  "swipe_right env c st =
     (let new_blazed = (\<not> card_blazed c);
          new_due = due_after_blaze_change (dn_clear_due_on_blaze env) (card_due_date c) (card_blazed c) new_blazed
      in bind_outcome (restated env c new_blazed new_due) (\<lambda>v.
           map_ok (show_swipe_toast (blaze_message (card_blazed c)) c) (apply_edit env v st)))"

definition swipe_left ::
  "('w, 'm, 'n) detail_env \<Rightarrow> swipe_settings \<Rightarrow> (int \<Rightarrow> string) \<Rightarrow> rat \<Rightarrow> card \<Rightarrow> 'w detail
   \<Rightarrow> (unit, 'w detail) outcome" where
  "swipe_left env s fmt offset c st =
     (case left_due s fmt (ce_now (dn_client env)) offset c of (new_due, msg) \<Rightarrow>
        bind_outcome (restated env c (blazed_after env (card_blazed c) new_due) new_due) (\<lambda>v.
          map_ok (show_swipe_toast msg c) (apply_edit env v st)))"

definition on_touchend ::
  "('w, 'm, 'n) detail_env \<Rightarrow> swipe_settings \<Rightarrow> (int \<Rightarrow> string) \<Rightarrow> bool \<Rightarrow> (uuid \<rightharpoonup> card) \<Rightarrow> uuid
   \<Rightarrow> swipe \<times> 'w detail \<Rightarrow> (unit, swipe \<times> 'w detail) outcome" where
  "on_touchend env s fmt drag_in_flight memo uid st =
     (case st of (sw, st) \<Rightarrow>
       if drag_in_flight then Ok (sw, st)
       else if \<not> sw_enabled s \<or> \<not> sp_swiping sw then Ok (sw\<lparr>sp_offset := 0\<rparr>, st)
       else
         let offset = sp_offset sw; sw = sw\<lparr>sp_offset := 0, sp_swiping := False\<rparr> in
         case read_card memo uid st of
           None \<Rightarrow> Ok (sw, st)
         | Some c \<Rightarrow>
             map_ok (Pair sw)
               (if offset > threshold_r s then swipe_right env c st
                else if offset < - threshold_l s then swipe_left env s fmt offset c st
                else Ok st))"

section \<open>What the swipe announces\<close>

definition swipe_bg_class :: "swipe_settings \<Rightarrow> bool \<Rightarrow> rat \<Rightarrow> string" where
  "swipe_bg_class s is_blazed offset =
     (let right_kind = (if is_blazed then ''swipe-bg-extinguish'' else ''swipe-bg-blaze'') in
      if offset \<ge> threshold_r s then ''swipe-bg '' @ right_kind @ '' swipe-commit''
      else if offset > 40 then ''swipe-bg '' @ right_kind
      else if levels_mode s then
        (case zone_of s offset of
           Some zone \<Rightarrow> ''swipe-bg '' @ levels_zone_class zone @ '' swipe-commit''
         | None \<Rightarrow> if offset < - 55 then ''swipe-bg '' @ levels_zone_class 1 else ''swipe-bg'')
      else if offset \<le> - threshold_l s then ''swipe-bg swipe-bg-due swipe-commit''
      else if offset < - 55 then ''swipe-bg swipe-bg-due''
      else ''swipe-bg'')"

definition swipe_label :: "swipe_settings \<Rightarrow> bool \<Rightarrow> datetime \<Rightarrow> datetime option \<Rightarrow> rat \<Rightarrow> string" where
  "swipe_label s is_blazed now due offset =
     (if offset > 40 then (if is_blazed then ''Extinguish'' else ''Blaze'')
      else if offset < - 55 then
        (if levels_mode s then levels_zone_label (case zone_of s offset of Some z \<Rightarrow> z | None \<Rightarrow> 1)
         else
           let current_date = map_option date_naive due; today_date = date_naive now in
           if current_date = Some today_date then ''Tomorrow''
           else if current_date = Some (today_date + 1) then ''In 2 days''
           else if current_date = Some (today_date + 2) then ''Clear due''
           else ''Today'')
      else [])"

section \<open>Undo\<close>

definition dismiss_toast :: "'w detail \<Rightarrow> 'w detail" where
  "dismiss_toast st = st\<lparr>dt_swipe_toast := None\<rparr>"

definition undo_swipe :: "('w, 'm, 'n) detail_env \<Rightarrow> 'w detail \<Rightarrow> (unit, 'w detail) outcome" where
  "undo_swipe env st =
     (case dt_swipe_toast st of
        None \<Rightarrow> Ok st
      | Some toast \<Rightarrow>
          let orig = toast_original toast in
          bind_outcome (restated env orig (card_blazed orig) (card_due_date orig)) (\<lambda>reverted.
            map_ok dismiss_toast (apply_edit env reverted st)))"

section \<open>The row\<close>

definition row_preview :: "(string \<Rightarrow> string) \<Rightarrow> card option \<Rightarrow> string \<times> string" where
  "row_preview render c =
     (case c of
        None \<Rightarrow> (''(empty)'', ''card-preview empty'')
      | Some c \<Rightarrow>
          (case card_preview render (card_content c) 200 of
             None \<Rightarrow> (''(empty)'', ''card-preview empty'')
           | Some raw \<Rightarrow> if raw = [] then (''(empty)'', ''card-preview empty'') else (raw, ''card-preview'')))"

definition row_number :: "(uuid \<rightharpoonup> nat \<times> nat) \<Rightarrow> uuid \<Rightarrow> string" where
  "row_number card_positions uid =
     (case (case card_positions uid of Some p \<Rightarrow> p | None \<Rightarrow> (0, 0)) of
        (index, len) \<Rightarrow> version_number len (int index))"

definition on_row_click ::
  "('w, 'm, 'n) detail_env \<Rightarrow> uuid \<Rightarrow> 'w detail \<Rightarrow> (unit, 'w detail) outcome" where
  "on_row_click env uid st =
     map_ok snd (detail_select env
       (if v_selected_card (ui_view (dt_ui st)) = Some uid then None else Some uid) st)"

definition row_link_counts ::
  "bool \<Rightarrow> (uuid \<rightharpoonup> link_counts) \<Rightarrow> (uuid \<rightharpoonup> hash \<times> uuid list) \<Rightarrow> uuid \<Rightarrow> link_counts" where
  "row_link_counts show_list_link_counts counts link_cache uid =
     (let lc = counts_at counts uid;
          trans_count = (if show_list_link_counts
            then (case link_cache uid of
                Some (_, v) \<Rightarrow> length v - (forward lc + backward lc + mutual lc) | None \<Rightarrow> 0)
            else 0)
      in lc\<lparr>transitive := trans_count\<rparr>)"

text \<open>The dots of the tags: at most four colours, and how many tags have no dot.\<close>

definition tag_dots :: "tag_display list \<Rightarrow> (RGB8 list \<times> nat option) option" where
  "tag_dots tags =
     (let colored = List.map_filter td_color tags;
          uncolored_count = length (filter (\<lambda>t. td_color t = None) tags)
      in if colored = [] \<and> uncolored_count = 0 then None
         else
           let overflow = (length colored - 4) + uncolored_count
           in Some (take 4 colored, if overflow > 0 then Some overflow else None))"

end
