(* ===== verification/History_Properties.thy ===== *)
theory History_Properties
  imports Version_History Editor_Facts Storage_Total Editor_Properties
begin

text \<open>
  The properties of the version lists: what a list shows after a fetch and from the prefetched cache,
  an error that stays, and what restoring a version and starting a card from one do.
\<close>

section \<open>Changes\<close>

lemma card_changes_exact:
  "set (card_changes (Some prev) cur) =
    (let kinds = {k. (k = CardContent \<and> card_content prev \<noteq> card_content cur) \<or>
        (k = CardPriority \<and> card_priority prev \<noteq> card_priority cur) \<or>
        (k = CardTags \<and> card_tags prev \<noteq> card_tags cur) \<or>
        (k = CardBlazed \<and> \<not> card_blazed prev \<and> card_blazed cur) \<or>
        (k = CardExtinguished \<and> card_blazed prev \<and> \<not> card_blazed cur) \<or>
        (k = CardDueDate \<and> card_due_date prev \<noteq> card_due_date cur)}
     in if kinds = {} then {CardTouched} else kinds)"
  by (auto simp: card_changes_def Let_def)

lemma card_changes_not_empty: "card_changes prev cur \<noteq> []"
  by (simp add: card_changes_def Let_def split: option.split)

lemma tag_changes_not_empty: "tag_changes prev cur \<noteq> []"
  by (simp add: tag_changes_def Let_def split: option.split)

section \<open>The rows\<close>

lemma map_fst_tagged [simp]: "map fst (tagged_versions changes vs) = vs"
  by (induction vs) simp_all

lemma length_tagged [simp]: "length (tagged_versions changes vs) = length vs"
  by (induction vs) simp_all

lemma map_snd_tagged:
  "map snd (tagged_versions changes vs) = map2 changes (map Some (tl vs) @ (if vs = [] then [] else [None])) vs"
proof (induction vs)
  case (Cons v vs)
  then show ?case by (cases vs) simp_all
qed simp

lemma settle_None [simp]: "settle_filter present None = None"
  by (simp add: settle_filter_def)

lemma shown_all [simp]: "shown_versions None tagged = tagged"
  by (simp add: shown_versions_def)

text \<open>A page that is loaded, without an error and a filter.\<close>

lemma history_page_rows:
  assumes "\<not> hv_loading hv" "hv_error hv = None" "hv_filter hv = None" "hv_versions hv = v # vs"
  shows "\<exists>chips rows. fst (history_page cnt changes all_kinds hv) = HistoryList chips rows \<and>
    map vr_version rows = v # vs \<and>
    map vr_badges rows = map2 changes (map Some vs @ [None]) (v # vs) \<and>
    map vr_current rows = map (\<lambda>u. i64_from_nn (cnt u) = i64_from_nn (cnt v)) (v # vs)"
proof -
  let ?tagged = "tagged_versions changes (v # vs)"
  let ?row = "\<lambda>(u, badges). \<lparr>vr_version = u, vr_number = version_number (Suc (length vs)) (i64_from_nn (cnt u)),
      vr_badges = badges, vr_current = (i64_from_nn (cnt v) = i64_from_nn (cnt u)),
      vr_expanded = (hv_expanded hv = Some (i64_from_nn (cnt u)))\<rparr>"
  have fields: "map vr_version (map ?row ts) = map fst ts" "map vr_badges (map ?row ts) = map snd ts"
    "map vr_current (map ?row ts) = map (\<lambda>u. i64_from_nn (cnt u) = i64_from_nn (cnt v)) (map fst ts)" for ts
    by (induction ts) (auto split: prod.split)
  have "\<exists>chips. fst (history_page cnt changes all_kinds hv) = HistoryList chips (map ?row ?tagged)"
    using assms by (simp add: history_page_def Let_def del: tagged_versions.simps)
  then obtain chips where "fst (history_page cnt changes all_kinds hv) = HistoryList chips (map ?row ?tagged)" ..
  moreover have "map snd ?tagged = map2 changes (map Some vs @ [None]) (v # vs)"
    using map_snd_tagged[of changes "v # vs"] by (simp del: tagged_versions.simps)
  ultimately show ?thesis
    using fields[of ?tagged] by (intro exI conjI) (simp_all only: map_fst_tagged)
qed

section \<open>Fetched and prefetched histories\<close>

text \<open>The server does not check the counts of a chain; every version the clients build with
  \<open>Card::next\<close> has the successor of its ancestor's count.\<close>

definition card_chain :: "ext \<Rightarrow> db \<Rightarrow> uuid \<Rightarrow> card list" where
  "card_chain E db uid = map (card_of E) (versions_of col_card_id uid (card_versions db))"

definition counts_ascend :: "ext \<Rightarrow> db \<Rightarrow> uuid \<Rightarrow> bool" where
  "counts_ascend E db uid \<longleftrightarrow> sorted_wrt (<) (map (\<lambda>v. i64_from_nn (card_count v)) (card_chain E db uid))"

lemma ascending_history:
  assumes "postcard_ok E" "reachable E K db" "counts_ascend E db uid"
  shows "storage_get_card_history E db uid None = Ok (card_chain E db uid)"
proof -
  have "versions_ok E db" using reachable_history[OF assms(2)] by blast
  moreover have "sort_key (\<lambda>v. i64_from_nn (card_count v)) (card_chain E db uid) = card_chain E db uid"
    using assms(3) strict_sorted_imp_sorted unfolding counts_ascend_def by (intro sort_key_id_if_sorted) blast
  ultimately show ?thesis
    by (simp add: card_history_result[OF assms(1)] limit_rows_def card_chain_def)
qed

lemma insort_key_last: "\<forall>y\<in>set ys. f y < f x \<Longrightarrow> insort_key f x ys = ys @ [x]"
  by (induction ys) (auto simp: not_le)

lemma newest_first_ascending:
  assumes "sorted_wrt (<) (map (\<lambda>v. i64_from_nn (cnt v)) vs)"
  shows "newest_first cnt vs = rev vs"
  using assms
proof (induction vs)
  case (Cons v vs)
  then have "\<forall>u\<in>set (rev vs). - i64_from_nn (cnt u) < - i64_from_nn (cnt v)" by simp
  from insort_key_last[of "rev vs" "\<lambda>u. - i64_from_nn (cnt u)", OF this] Cons
  show ?case by (simp add: newest_first_def)
qed (simp add: newest_first_def)


text \<open>What a prefetch leaves in the cache.\<close>

lemma merged_tags: "merge_tag_histories answer h = Ok h' \<Longrightarrow> card_histories h' = card_histories h"
  by (auto simp: merge_tag_histories_def split: outcome.splits)

lemma merged_sequence: "merge_sequence_history answer h = Ok h' \<Longrightarrow> card_histories h' = card_histories h"
  by (auto simp: merge_sequence_history_def update_cached_sequence_history_def split: outcome.splits)

lemma prefetched_cards:
  assumes "prefetch_histories env encode wanted (app, w) = Ok (app', w')" "app_connected app"
    and "get_all_card_histories (ce_request env) None (fst wanted) w = (Ok m, w1)"
  shows "card_histories (app_history app') = card_histories (app_history app) ++ m"
proof -
  obtain tags w2 where tags: "get_all_tag_histories (ce_request env) None (snd wanted) w1 = (tags, w2)" by fastforce
  obtain s w3 where s: "get_sequence_history (ce_request env) w2 = (s, w3)" by fastforce
  obtain h1 h2 where "merge_tag_histories tags ((app_history app)\<lparr>card_histories := card_histories (app_history app) ++ m\<rparr>) = Ok h1"
    "merge_sequence_history s h1 = Ok h2" "app_history app' = h2"
    using assms by (auto simp: prefetch_histories_def merge_card_histories_def tags s bind_outcome_Ok)
  then show ?thesis using merged_tags merged_sequence by fastforce
qed

text \<open>The answers of the modelled server.\<close>

lemma get_card_history_online:
  assumes "postcard_ok E" "reachable E K db" "counts_ascend E db uid"
  shows "get_card_history (online_request E now) uid db = (Ok (card_chain E db uid), db)"
  using ascending_history[OF assms]
  by (simp add: get_card_history_def requested_def online_request_def into_card_history_def extract_variant_def)

lemma get_all_card_histories_online:
  assumes "postcard_ok E" "reachable E K db" "counts_ascend E db uid" "card_chain E db uid \<noteq> []"
  shows "\<exists>m. get_all_card_histories (online_request E now) None None db = (Ok m, db) \<and>
    m uid = Some (card_chain E db uid)"
proof -
  have "versions_ok E db" using reachable_history[OF assms(2)] by blast
  from all_card_histories_result[OF assms(1) this, of None None] obtain m where
    m: "storage_get_all_card_histories E db None None = Ok m" and all:
      "\<forall>uid. case m uid of Some vs \<Rightarrow> storage_get_card_history E db uid None = Ok vs
        | None \<Rightarrow> versions_of col_card_id uid (card_versions db) = [] \<or> (\<exists>us. None = Some us \<and> uid \<notin> set us)"
    by (elim exE conjE)
  have "m uid = Some (card_chain E db uid)"
  proof (cases "m uid")
    case None
    then show ?thesis using all[rule_format, of uid] assms(4) by (simp add: card_chain_def)
  next
    case (Some vs)
    then show ?thesis using all[rule_format, of uid] ascending_history[OF assms(1-3)] by simp
  qed
  moreover have "get_all_card_histories (online_request E now) None None db = (Ok m, db)"
    using m by (simp add: get_all_card_histories_def requested_def online_request_def
        into_all_card_histories_def extract_variant_def)
  ultimately show ?thesis by blast
qed

text \<open>The chain of the card a client reads.\<close>

lemma read_card_chain:
  assumes "postcard_ok E" "reachable E K db" "storage_get_card E db uid = Ok (Some current)"
  shows "card_chain E db uid \<noteq> []" "last (card_chain E db uid) = current"
    "card_ancestor_hash (hd (card_chain E db uid)) = ZERO_HASH"
    "windows_linked card_ancestor_hash card_hash (card_chain E db uid)"
proof -
  obtain cols where cols: "card_log.entry db uid = Some cols" "current = card_of E cols"
    using assms(3) by (auto simp: get_card_result[OF assms(1) reachable_inv[OF assms(2)]] split: option.splits)
  note live = live_card_chain(1-4)[OF assms(1,2) cols(1), folded card_chain_def]
  show "card_chain E db uid \<noteq> []" "last (card_chain E db uid) = current"
    "card_ancestor_hash (hd (card_chain E db uid)) = ZERO_HASH"
    "windows_linked card_ancestor_hash card_hash (card_chain E db uid)"
    by (rule live(1), unfold cols(2), rule live(2), rule live(3), rule live(4))
qed

text \<open>Among ascending counts, the version shown first is the only one with its count.\<close>

lemma current_only_first:
  assumes "distinct (map k (v # vs))"
  shows "map (\<lambda>u. k u = k v) (v # vs) = True # replicate (length vs) False"
proof -
  have "map (\<lambda>u. k u = k v) vs = map (\<lambda>_. False) vs"
    using assms by (intro map_cong) (auto simp: image_iff)
  then show ?thesis by (simp add: map_replicate_const)
qed

lemma ascending_distinct:
  assumes "sorted_wrt (<) (map k vs)"
  shows "distinct (map (k :: 'a \<Rightarrow> int) vs)" "distinct (map k (rev vs))"
  using assms strict_sorted_iff[of "map k vs"] by (simp_all add: rev_map[symmetric])

definition chain_rows :: "card list \<Rightarrow> (card, CardChangeKind) version_row_view list \<Rightarrow> bool" where
  "chain_rows vs rows \<longleftrightarrow>
     map vr_version rows = vs \<and> map vr_badges rows = map2 card_changes (map Some (tl vs) @ [None]) vs \<and>
     map vr_current rows = True # replicate (length vs - 1) False"

lemma page_of_chain:
  assumes "\<not> hv_loading hv" "hv_error hv = None" "hv_filter hv = None"
    and "hv_versions hv = vs" "vs \<noteq> []" "distinct (map (\<lambda>v. i64_from_nn (card_count v)) vs)"
  shows "\<exists>chips rows. fst (card_history_page hv) = HistoryList chips rows \<and> chain_rows vs rows"
proof (cases vs)
  case (Cons v us)
  with history_page_rows[of hv v us card_count card_changes card_kind_all] assms
  obtain chips rows where "fst (card_history_page hv) = HistoryList chips rows" "map vr_version rows = vs"
    "map vr_badges rows = map2 card_changes (map Some us @ [None]) (v # us)"
    "map vr_current rows = map (\<lambda>u. i64_from_nn (card_count u) = i64_from_nn (card_count v)) (v # us)"
    by (auto simp: card_history_page_def)
  moreover from this(4) have "map vr_current rows = True # replicate (length vs - 1) False"
    using current_only_first[of "\<lambda>v. i64_from_nn (card_count v)" v us] assms(6) Cons by simp
  ultimately show ?thesis using Cons by (auto simp: chain_rows_def)
qed (use assms in simp)

text \<open>C31: The history of a card, opened by a connected client of any reachable server whose versions of that
  card have ascending counts, is the chain of its versions, newest first: every version is labelled
  with what it changes in its own ancestor (the one it names by hash), only the oldest, which has no
  ancestor, as created, and exactly the first row, the card as the server holds it, as current. The
  same list is what the cache then keeps.\<close>

theorem fetched_history_is_chain:
  assumes "postcard_ok E" "reachable E K db" "counts_ascend E db uid"
    and "storage_get_card E db uid = Ok (Some current)"
    and "ce_request env = online_request E now" "app_connected app"
    and "hv_error hv = None" "hv_filter hv = None"
  shows "\<exists>hv' app' chips rows chain.
    fetch_card_history env encode shown uid (hv, app, db) = Ok (hv', app', db) \<and>
    chain \<noteq> [] \<and> last chain = current \<and> card_ancestor_hash (hd chain) = ZERO_HASH \<and>
    windows_linked card_ancestor_hash card_hash chain \<and>
    fst (card_history_page hv') = HistoryList chips rows \<and> map vr_version rows = rev chain \<and>
    map vr_badges rows = map2 card_changes (map Some (tl (rev chain)) @ [None]) (rev chain) \<and>
    map vr_current rows = True # replicate (length chain - 1) False \<and>
    get_cached_card_history (app_history app') uid = rev chain"
proof -
  let ?chain = "card_chain E db uid"
  note chain = read_card_chain[OF assms(1,2,4)]
  have sorted: "sorted_wrt (<) (map (\<lambda>v. i64_from_nn (card_count v)) ?chain)"
    using assms(3) by (simp add: counts_ascend_def)
  let ?hv = "hv\<lparr>hv_versions := rev ?chain, hv_loading := False\<rparr>"
  obtain app' where "fetch_card_history env encode shown uid (hv, app, db) = Ok (?hv, app', db)"
    and "get_cached_card_history (app_history app') uid = rev ?chain"
    using assms(6) by (simp add: fetch_card_history_def assms(5) get_card_history_online[OF assms(1-3)]
        newest_first_ascending[OF sorted] Let_def get_cached_card_history_def update_cached_card_history_def)
  moreover obtain chips rows where "fst (card_history_page ?hv) = HistoryList chips rows" "chain_rows (rev ?chain) rows"
    using page_of_chain[of ?hv "rev ?chain"] assms(7,8) chain(1) ascending_distinct(2)[OF sorted] by auto
  ultimately show ?thesis
    using chain unfolding chain_rows_def length_rev by (elim conjE) (intro exI conjI, assumption+)
qed

text \<open>Without a connection the history shown is the cache's, and what the background prefetch put there
  is in the server's order: the oldest version comes first and is marked as current, the newest one
  is labelled as created and offers to be restored over itself, and every label compares a version
  with its successor.\<close>

theorem prefetched_history_is_upside_down:
  assumes "postcard_ok E" "reachable E K db" "counts_ascend E db uid"
    and "storage_get_card E db uid = Ok (Some current)" "1 < length (card_chain E db uid)"
    and "ce_request env = online_request E now" "app_connected app"
    and "prefetch_histories env encode (None, None) (app, db) = Ok (app', db')"
    and "hv = card_history_effect (app_history app') uid (Some uid) new_history_view"
  shows "\<exists>chips rows. fst (card_history_page hv) = HistoryList chips rows \<and>
    card_ancestor_hash (vr_version (hd rows)) = ZERO_HASH \<and> vr_current (hd rows) \<and>
    vr_version (last rows) = current \<and> \<not> vr_current (last rows) \<and> vr_badges (last rows) = [CardCreated]"
proof -
  let ?chain = "card_chain E db uid"
  note chain = read_card_chain[OF assms(1,2,4)]
  have sorted: "sorted_wrt (<) (map (\<lambda>v. i64_from_nn (card_count v)) ?chain)"
    using assms(3) by (simp add: counts_ascend_def)
  obtain m where m: "get_all_card_histories (online_request E now) None None db = (Ok m, db)" "m uid = Some ?chain"
    using get_all_card_histories_online[OF assms(1-3) chain(1)] by blast
  have "card_histories (app_history app') uid = Some ?chain"
    using prefetched_cards[OF assms(8), of m db] m by (simp add: assms(6,7))
  then have cached: "hv_versions hv = ?chain" "\<not> hv_loading hv" "hv_error hv = None" "hv_filter hv = None"
    using chain(1) by (simp_all add: assms(9) card_history_effect_def history_effect_def new_history_view_def
        get_cached_card_history_def Let_def)
  obtain chips rows where page: "fst (card_history_page hv) = HistoryList chips rows" and rows: "chain_rows ?chain rows"
    using page_of_chain[OF cached(2-4,1) chain(1) ascending_distinct(1)[OF sorted]] by blast
  have ne: "rows \<noteq> []" using rows chain(1) by (auto simp: chain_rows_def)
  have len: "length rows = length ?chain" using rows by (metis chain_rows_def length_map)
  have "vr_version (hd rows) = hd ?chain" "vr_version (last rows) = last ?chain"
    using rows ne by (metis chain_rows_def hd_map, metis chain_rows_def last_map)
  moreover have "vr_current (hd rows)" using rows ne by (cases rows) (auto simp: chain_rows_def)
  moreover have "\<not> vr_current (last rows)"
  proof -
    have "vr_current (last rows) = last (True # replicate (length ?chain - 1) False)"
      using rows ne by (metis chain_rows_def last_map)
    then show ?thesis using assms(5) by (simp add: last_replicate)
  qed
  moreover have "vr_badges (last rows) = [CardCreated]"
  proof -
    have "vr_badges (last rows) = last (map2 card_changes (map Some (tl ?chain) @ [None]) ?chain)"
      using rows ne by (metis chain_rows_def last_map)
    also have "\<dots> = card_changes None (last ?chain)"
      using chain(1) by (simp add: last_map last_zip)
    finally show ?thesis by (simp add: card_changes_def)
  qed
  ultimately show ?thesis using page chain(2,3) by auto
qed


section \<open>Two versions\<close>

definition two_versions :: db where
  "two_versions = snd (handle_request demo_ext 0 empty_db (PushCardVersions [demo_card, demo_edit]))"

lemma demo_edit_simps [simp]:
  "card_id demo_edit = 1" "card_ancestor_hash demo_edit = card_hash demo_card" "card_tags demo_edit = []"
  "card_priority demo_edit = 5" "card_created_at demo_edit = 1000" "card_modified_at demo_edit = 2000"
  "card_due_date demo_edit = None" "card_count demo_edit = NonNegativeI64 2" "card_verify demo_hash demo_edit"
proof -
  note edit = card_next_Ok[OF demo_edit_next]
  show "card_id demo_edit = 1" "card_ancestor_hash demo_edit = card_hash demo_card" "card_tags demo_edit = []"
    "card_priority demo_edit = 5" "card_created_at demo_edit = 1000" "card_modified_at demo_edit = 2000"
    "card_due_date demo_edit = None"
    using edit(1-10) by simp_all
  show "card_count demo_edit = NonNegativeI64 2"
    using edit(11) nn_successor_Ok[of "NonNegativeI64 1" "card_count demo_edit"] by (simp add: nn_ok_def i64_max_def)
  show "card_verify demo_hash demo_edit"
    using edit(3) by (simp add: card_verify_iff card_expected_hash_def canonical_card_hash_def card_preimage_of_def)
qed

lemma two_versions_ok: "request_ok demo_ext {1} (PushCardVersions [demo_card, demo_edit])"
  by (simp add: request_ok_def card_typed_def nn_ok_def i64_max_def)

lemma two_versions_pushed:
  "storage_push_card_versions demo_ext 0 empty_db [demo_card, demo_edit] = (Ok (), two_versions)"
proof -
  have "card_push_ok demo_ext empty_db [demo_card, demo_edit]"
    by (simp add: card_push_ok_def deleted_ids_def empty_db_def ancestor_in_cards_def find_row_def
        windows_linked_def insertable_def priority_free_def closed_tags_def i64_max_def card_key_def card_params_def
        i64_from_nn_def)
  then obtain db' where "storage_push_card_versions demo_ext 0 empty_db [demo_card, demo_edit] = (Ok (), db')"
    using push_card_versions_Ok [of demo_ext "{1}" empty_db "[demo_card, demo_edit]" 0] two_versions_ok
    by (auto simp: storage_inv_empty implications_ok_empty request_ok_def simp del: item_ok.simps)
  then show ?thesis by (simp add: two_versions_def)
qed

lemma two_versions_reachable: "reachable demo_ext {1} two_versions"
  unfolding two_versions_def
  by (rule reachable_run [OF reachable_init], rule run_request [OF run_refl two_versions_ok])
    (rule prod.collapse [symmetric])

lemma two_versions_chain:
  "card_chain demo_ext two_versions 1 = [demo_card, demo_edit]" "counts_ascend demo_ext two_versions 1"
  "storage_get_card demo_ext two_versions 1 = Ok (Some demo_edit)"
proof -
  note effect = push_card_versions_effect[OF two_versions_pushed]
  have typed: "card_of demo_ext (card_params demo_ext c) = c" if "c \<in> {demo_card, demo_edit}" for c
    using that by (intro card_of_params[OF demo_postcard]) (auto simp: card_typed_def nn_ok_def i64_max_def)
  show chain: "card_chain demo_ext two_versions 1 = [demo_card, demo_edit]"
    using effect(5) typed by (simp add: card_chain_def versions_of_def empty_db_def)
  show "counts_ascend demo_ext two_versions 1" by (simp add: counts_ascend_def chain i64_from_nn_def)
  show "storage_get_card demo_ext two_versions 1 = Ok (Some demo_edit)"
    using effect(1) typed
    by (simp add: get_card_result[OF demo_postcard reachable_inv[OF two_versions_reachable]])
qed

theorem fetched_history_is_chain_witness:
  "\<exists>hv' app' chips rows. fetch_card_history demo_env (\<lambda>_. None) (\<lambda>_. []) 1 (new_history_view, demo_app, two_versions)
      = Ok (hv', app', two_versions) \<and>
    fst (card_history_page hv') = HistoryList chips rows \<and> vr_version (hd rows) = demo_edit \<and> vr_current (hd rows)"
proof -
  have app: "app_connected demo_app" "hv_error (new_history_view :: (card, CardChangeKind) history_view) = None"
    "hv_filter (new_history_view :: (card, CardChangeKind) history_view) = None"
    by (simp_all add: demo_app_def new_history_view_def)
  from fetched_history_is_chain[OF demo_postcard two_versions_reachable two_versions_chain(2,3) demo_env_request app,
      of "\<lambda>_. None" "\<lambda>_. []"]
  obtain hv' app' chips rows chain where
    f: "fetch_card_history demo_env (\<lambda>_. None) (\<lambda>_. []) 1 (new_history_view, demo_app, two_versions) = Ok (hv', app', two_versions)"
      "fst (card_history_page hv') = HistoryList chips rows"
    and r: "chain \<noteq> []" "last chain = demo_edit" "map vr_version rows = rev chain"
      "map vr_current rows = True # replicate (length chain - 1) False"
    by (elim exE conjE)
  have "vr_version (hd rows) = demo_edit" using r(1-3) by (metis hd_map hd_rev list.map_disc_iff rev_is_Nil_conv)
  moreover have "vr_current (hd rows)" using r(4) by (cases rows) auto
  ultimately show ?thesis using f by blast
qed

lemma requested_online_no_panic [simp]:
  "requested (online_request E now) r (extract_variant f) w \<noteq> (Panic, w')"
proof
  assume "requested (online_request E now) r (extract_variant f) w = (Panic, w')"
  moreover have "map_err g m = Panic \<longleftrightarrow> m = Panic" for g :: "'x \<Rightarrow> 'y" and m :: "('x, 'z) outcome"
    by (cases m) simp_all
  ultimately show False
    by (auto simp: requested_def online_request_def split: prod.splits outcome.splits)
qed

lemma demo_prefetch:
  "\<exists>app' db'. prefetch_histories demo_env (\<lambda>_. None) (None, None) (demo_app, two_versions) = Ok (app', db')"
proof -
  obtain cards w1 where one: "get_all_card_histories (ce_request demo_env) None None two_versions = (cards, w1)" by fastforce
  obtain tags w2 where two: "get_all_tag_histories (ce_request demo_env) None None w1 = (tags, w2)" by fastforce
  obtain s w3 where three: "get_sequence_history (ce_request demo_env) w2 = (s, w3)" by fastforce
  have "cards \<noteq> Panic" "tags \<noteq> Panic" "s \<noteq> Panic"
    using one two three
    by (auto simp: demo_env_request get_all_card_histories_def get_all_tag_histories_def get_sequence_history_def
        into_all_card_histories_def into_all_tag_histories_def into_sequence_history_def)
  then show ?thesis
    by (cases cards; cases tags; cases s) (simp_all add: prefetch_histories_def one two three demo_app_def merge_card_histories_def
        merge_tag_histories_def merge_sequence_history_def)
qed

theorem prefetched_history_is_upside_down_witness:
  "\<exists>app' db' chips rows. prefetch_histories demo_env (\<lambda>_. None) (None, None) (demo_app, two_versions) = Ok (app', db') \<and>
    fst (card_history_page (card_history_effect (app_history app') 1 (Some 1) new_history_view)) = HistoryList chips rows \<and>
    vr_current (hd rows) \<and> vr_version (last rows) = demo_edit \<and> vr_badges (last rows) = [CardCreated]"
proof -
  obtain app' db' where pre: "prefetch_histories demo_env (\<lambda>_. None) (None, None) (demo_app, two_versions) = Ok (app', db')"
    using demo_prefetch by blast
  have side: "1 < length (card_chain demo_ext two_versions 1)" "app_connected demo_app"
    by (simp_all add: two_versions_chain demo_app_def)
  from prefetched_history_is_upside_down[OF demo_postcard two_versions_reachable two_versions_chain(2,3) side(1)
      demo_env_request side(2) pre refl] pre
  show ?thesis by (elim exE conjE) (intro exI conjI, assumption+)
qed


section \<open>An error that stays\<close>

text \<open>What can happen to a view while the same card stays selected: the effect runs again, which a change of
  the connection status causes, a fetch ends, a row or a chip is clicked.\<close>

inductive history_step ::
  "('w, 'm, 'n) client_env \<Rightarrow> (history_cache \<Rightarrow> bytes option) \<Rightarrow> (client_error \<Rightarrow> string) \<Rightarrow> uuid
   \<Rightarrow> (card, CardChangeKind) history_view \<Rightarrow> (card, CardChangeKind) history_view \<Rightarrow> bool"
  for env encode shown uid where
  effect_again: "history_step env encode shown uid hv (card_history_effect history uid (hv_prev hv) hv)"
| fetch_ends: "fetch_card_history env encode shown uid (hv, app, w) = Ok (hv', app', w') \<Longrightarrow>
    history_step env encode shown uid hv hv'"
| row_click: "history_step env encode shown uid hv (on_toggle_expand c hv)"
| chip_click: "history_step env encode shown uid hv (choose_kind k hv)"
| all_click: "history_step env encode shown uid hv (choose_all hv)"

lemma fetch_keeps_error:
  "fetch_card_history env encode shown uid (hv, app, w) = Ok (hv', app', w') \<Longrightarrow> hv_error hv \<noteq> None \<Longrightarrow>
     hv_error hv' \<noteq> None"
  by (auto simp: fetch_card_history_def history_failed_def Let_def split: if_splits prod.splits outcome.splits)

lemma history_step_keeps_error:
  "history_step env encode shown uid hv hv' \<Longrightarrow> hv_error hv \<noteq> None \<Longrightarrow> hv_error hv' \<noteq> None"
proof (induction rule: history_step.induct)
  case fetch_ends
  then show ?case by (rule fetch_keeps_error)
qed (simp_all add: card_history_effect_def history_effect_def on_toggle_expand_def choose_kind_def choose_all_def Let_def)

lemma history_steps_keep_error:
  "(history_step env encode shown uid)\<^sup>*\<^sup>* hv hv' \<Longrightarrow> hv_error hv \<noteq> None \<Longrightarrow> hv_error hv' \<noteq> None"
  by (induction rule: rtranclp_induct) (use history_step_keeps_error in blast)+

text \<open>Once the first fetch of a history has failed with nothing to show, no later fetch brings the list:
  whatever succeeds afterwards, as long as the selection stays, the page is the error or the loading
  notice, because a fetched list does not take the error back.\<close>

theorem failed_history_stays_failed:
  assumes "fetch_card_history env encode shown uid (hv, app, w) = Ok (hv1, app1, w1)"
    and "app_connected app" "get_card_history (ce_request env) uid w = (Err e, w1)" "hv_versions hv = []"
    and "(history_step env encode shown uid)\<^sup>*\<^sup>* hv1 hv2"
  shows "fst (card_history_page hv2) = HistoryLoading \<or> (\<exists>msg. fst (card_history_page hv2) = HistoryError msg)"
proof -
  have "hv_error hv1 \<noteq> None"
    using assms(1-4) by (auto simp: fetch_card_history_def history_failed_def)
  from history_steps_keep_error[OF assms(5) this] show ?thesis
    by (auto simp: card_history_page_def history_page_def)
qed

text \<open>A transport that loses the first request, and then reaches the server.\<close>

definition flaky_env :: "(bool \<times> db, (uuid \<times> card) list, (uuid \<times> tag) list) client_env" where
  "flaky_env =
     \<lparr>ce_request = (\<lambda>r (up, db). if up then (case online_request demo_ext 0 r db of (a, db') \<Rightarrow> (a, True, db'))
        else (Err ConnectionLost, True, db)), ce_hash = demo_hash, ce_now = 0, ce_elapsed_ms = 5,
      ce_random_range = (\<lambda>n. 0), ce_shuffle = rev, ce_to_lower = (\<lambda>s. s),
      ce_card_map = assoc_map, ce_tag_map = assoc_map, ce_encode_local = (\<lambda>st. None),
      ce_decode_local = (\<lambda>bs. None), ce_encode_queue = (\<lambda>q. None), ce_wasm_version = ''1'', ce_protocol_version = ''1''\<rparr>"

lemma flaky_request [simp]:
  "ce_request flaky_env r (False, db) = (Err ConnectionLost, True, db)"
  "ce_request flaky_env r (True, db) = (case online_request demo_ext 0 r db of (a, db') \<Rightarrow> (a, True, db'))"
  by (simp_all add: flaky_env_def)

lemma flaky_history:
  "get_card_history (ce_request flaky_env) 1 (False, two_versions) = (Err ConnectionLost, True, two_versions)"
  "get_card_history (ce_request flaky_env) 1 (True, two_versions) = (Ok [demo_card, demo_edit], True, two_versions)"
proof -
  show "get_card_history (ce_request flaky_env) 1 (False, two_versions) = (Err ConnectionLost, True, two_versions)"
    by (simp add: get_card_history_def requested_def)
  from get_card_history_online[OF demo_postcard two_versions_reachable two_versions_chain(2), of 0]
  have "requested (online_request demo_ext 0) (GetCardHistory 1 None) into_card_history two_versions =
      (Ok [demo_card, demo_edit], two_versions)"
    by (simp add: get_card_history_def two_versions_chain(1))
  then show "get_card_history (ce_request flaky_env) 1 (True, two_versions) = (Ok [demo_card, demo_edit], True, two_versions)"
    by (auto simp: get_card_history_def requested_def split: prod.splits)
qed

theorem failed_history_stays_failed_witness:
  "\<exists>hv1 hv2 app2. fetch_card_history flaky_env (\<lambda>_. None) (\<lambda>_. []) 1 (new_history_view, demo_app, False, two_versions)
      = Ok (hv1, demo_app, True, two_versions) \<and>
    fetch_card_history flaky_env (\<lambda>_. None) (\<lambda>_. []) 1 (hv1, demo_app, True, two_versions) = Ok (hv2, app2, True, two_versions) \<and>
    hv_versions hv2 \<noteq> [] \<and> fst (card_history_page hv2) = HistoryError ''Failed to load history: ''"
proof -
  let ?hv1 = "(history_failed [] (new_history_view :: (card, CardChangeKind) history_view))\<lparr>hv_loading := False\<rparr>"
  have app: "app_connected demo_app" by (simp add: demo_app_def)
  have one: "fetch_card_history flaky_env (\<lambda>_. None) (\<lambda>_. []) 1 (new_history_view, demo_app, False, two_versions)
      = Ok (?hv1, demo_app, True, two_versions)"
    using app by (simp add: fetch_card_history_def flaky_history)
  have ne: "newest_first card_count [demo_card, demo_edit] \<noteq> []" by (simp add: newest_first_def sort_key_Nil_iff del: sort_key_simps)
  obtain hv2 app2 where two: "fetch_card_history flaky_env (\<lambda>_. None) (\<lambda>_. []) 1 (?hv1, demo_app, True, two_versions)
      = Ok (hv2, app2, True, two_versions)" "hv_versions hv2 \<noteq> []" "\<not> hv_loading hv2" "hv_error hv2 = hv_error ?hv1"
    using app ne by (simp add: fetch_card_history_def flaky_history Let_def)
  have start: "hv_versions (new_history_view :: (card, CardChangeKind) history_view) = []" by (simp add: new_history_view_def)
  have "(history_step flaky_env (\<lambda>_. None) (\<lambda>_. []) 1)\<^sup>*\<^sup>* ?hv1 hv2" using two(1) by (auto intro: fetch_ends)
  from failed_history_stays_failed[OF one app flaky_history(1) start this]
  have "fst (card_history_page hv2) = HistoryError ''Failed to load history: ''"
    using two(3,4) by (auto simp: card_history_page_def history_page_def history_failed_def start)
  then show ?thesis using one two(1,2) by blast
qed

section \<open>Restoring a version\<close>

text \<open>Restoring a version never goes back: it adds one version after the card's current one, with the
  content, tags, status and due date of the old version and the current priority. The pending moves
  are flushed first, and the restored version is then queued or the server's; the selection stays.\<close>

theorem restore_adds_a_version:
  assumes "on_restore env keys_of uid version (ui, app, w) = Ok (ui', app', w')"
    and "find (\<lambda>c. card_id c = uid) (app_cards app) = Some current"
    and "ce_request env = online_request E now"
  shows "\<exists>r. card_id r = uid \<and> card_ancestor_hash r = card_hash current \<and>
    card_content r = card_content version \<and> card_tags r = sort (card_tags version) \<and>
    card_blazed r = card_blazed version \<and> card_due_date r = card_due_date version \<and>
    card_priority r = card_priority current \<and> ms_pending (ui_moves ui') = None \<and>
    v_selected_card (ui_view ui') = v_selected_card (ui_view ui) \<and>
    ((\<exists>q\<in>set (app_offline_queue app'). same_edit q r) \<or>
     (\<exists>u. same_edit u r \<and> card_log.entry w' uid = Some (card_params E u)))"
proof -
  let ?ui = "\<lambda>r. reselect (ui\<lparr>ui_moves := (ui_moves ui)\<lparr>ms_cards := upsert_card r (ms_cards (ui_moves ui))\<rparr>\<rparr>)"
  obtain r moves st where r: "restored_version env current version = Ok r"
    and run: "run_edit_task env keys_of r (ui_moves (?ui r), app_upsert r app, w) = Ok (moves, st)"
    and ends: "ui' = (?ui r)\<lparr>ui_moves := moves\<rparr>" "st = (app', w')"
    using assms(1,2) by (auto simp: on_restore_def bind_outcome_Ok map_ok_Ok Let_def)
  note next_r = card_next_Ok[OF r[unfolded restored_version_def]]
  have uid: "card_id current = uid" using assms(2) by (auto simp: find_Some_iff)
  obtain st1 where flush: "flush_now env keys_of (ui_moves (?ui r), app_upsert r app, w) = Ok (moves, st1)"
    and push: "push_card_or_queue env r st1 = Ok (app', w')"
    using run ends(2) by (auto simp: run_edit_task_def bind_outcome_Ok map_ok_Ok)
  have "settled_edit E r (app', w')" by (rule push_settles[OF push assms(3)])
  moreover have "ms_pending moves = None" by (rule flush_now_taken[OF flush])
  moreover have "v_selected_card (ui_view (?ui r)) = v_selected_card (ui_view ui)"
    by (simp add: reselect_def set_selection_without_flush_def set_view_def split: option.split)
  ultimately show ?thesis
    using next_r uid ends(1) by (intro exI[of _ r]) (simp add: settled_edit_def)
qed

lemma demo_restore:
  "\<exists>ui' app'. on_restore demo_env (\<lambda>_. []) 1 demo_card (demo_ui, demo_offline\<lparr>app_cards := [demo_edit]\<rparr>, empty_db) =
     Ok (ui', app', empty_db)"
proof -
  let ?app = "demo_offline\<lparr>app_cards := [demo_edit]\<rparr>"
  obtain r where r: "restored_version demo_env demo_edit demo_card = Ok r"
    unfolding restored_version_def card_next_def demo_env_def by (simp add: nn_successor nn_ok_def i64_max_def Let_def)
  have "\<not> app_connected ?app" by (simp add: demo_offline_def)
  moreover have "ms_pending (ui_moves demo_ui) = None" by (simp add: demo_ui_def)
  ultimately show ?thesis
    using r by (simp add: on_restore_def Let_def run_edit_task_def flush_now_def flush_sync_take_def
        cancel_priority_timer_def push_card_or_queue_def app_upsert_def reselect_def set_selection_without_flush_def
        set_view_def split: option.split)
qed

theorem restore_adds_a_version_witness:
  "\<exists>ui' app' r q. on_restore demo_env (\<lambda>_. []) 1 demo_card (demo_ui, demo_offline\<lparr>app_cards := [demo_edit]\<rparr>, empty_db) =
      Ok (ui', app', empty_db) \<and> card_ancestor_hash r = card_hash demo_edit \<and> card_content r = ''buy milk'' \<and>
      q \<in> set (app_offline_queue app') \<and> same_edit q r"
proof -
  obtain ui' app' where run: "on_restore demo_env (\<lambda>_. []) 1 demo_card (demo_ui, demo_offline\<lparr>app_cards := [demo_edit]\<rparr>, empty_db) =
      Ok (ui', app', empty_db)" using demo_restore by blast
  have "find (\<lambda>c. card_id c = 1) (app_cards (demo_offline\<lparr>app_cards := [demo_edit]\<rparr>)) = Some demo_edit" by simp
  from restore_adds_a_version[OF run this demo_env_request] run show ?thesis
    by (auto simp: empty_db_def card_log.entry_def find_row_def)
qed

section \<open>A new card from a version\<close>

text \<open>When the user keeps the unsaved changes, nothing is opened, but the prefill stays behind, and the editor of
  the next new card opens with the version's content.\<close>

theorem refused_fork_leaves_prefill:
  assumes "v_has_unsaved_changes (ui_view ui)" "\<not> ve_confirm env"
  shows "\<exists>ui'. on_fork env version position (open, ui) = Ok (open, ui') \<and>
    ui_page ui' = ui_page ui \<and> ui_moves ui' = ui_moves ui \<and>
    v_creating_new (ui_view ui') = v_creating_new (ui_view ui) \<and>
    ed_content (new_editor None (v_new_card_prefill (ui_view ui'))) = card_content version"
  using assms
  by (simp add: on_fork_def start_new_card_def guarded_def confirm_discard_changes_def set_view_def new_editor_def
      version_prefill_def or_else_def or_default_def Let_def)

end
