(* ===== verification/Detail_Properties.thy ===== *)
theory Detail_Properties
  imports Card_Detail Card_Item History_Properties
begin

text \<open>
  The properties of the detail pane and of the swipes: where an edit ends, what a swipe and its undo do to a
  card, when a swipe commits, and what a deletion drops.
\<close>

section \<open>Edits\<close>

lemma apply_edit_settled:
  assumes "apply_edit env v st = Ok st'" "ce_request (dn_client env) = online_request E now"
  shows "settled_edit E v (dt_app st', dt_world st')" "ms_pending (ui_moves (dt_ui st')) = None"
    "dt_swipe_toast st' = dt_swipe_toast st" "dt_confirm_delete st' = dt_confirm_delete st"
proof -
  let ?st = "set_cards (upsert_card v (app_cards (dt_app st))) st"
  obtain moves app w where run: "run_edit_task (dn_client env) (dn_keys_of env) v (ui_moves (dt_ui ?st), dt_app ?st, dt_world ?st)
      = Ok (moves, app, w)"
    and st': "st' = ?st\<lparr>dt_ui := (dt_ui ?st)\<lparr>ui_moves := moves\<rparr>, dt_app := app, dt_world := w\<rparr>"
    using assms(1) by (auto simp: apply_edit_def Let_def map_ok_Ok)
  obtain st1 where flush: "flush_now (dn_client env) (dn_keys_of env) (ui_moves (dt_ui ?st), dt_app ?st, dt_world ?st) = Ok (moves, st1)"
    and push: "push_card_or_queue (dn_client env) v st1 = Ok (app, w)"
    using run by (auto simp: run_edit_task_def bind_outcome_Ok map_ok_Ok)
  show "settled_edit E v (dt_app st', dt_world st')" using push_settles[OF push assms(2)] st' by simp
  show "ms_pending (ui_moves (dt_ui st')) = None" using flush_now_taken[OF flush] st' by simp
  show "dt_swipe_toast st' = dt_swipe_toast st" "dt_confirm_delete st' = dt_confirm_delete st"
    using st' by (simp_all add: set_cards_def)
qed

lemma restated_fields:
  assumes "restated env c blazed due = Ok v"
  shows "card_id v = card_id c" "card_ancestor_hash v = card_hash c" "card_content v = card_content c"
    "card_priority v = card_priority c" "card_tags v = sort (card_tags c)" "card_blazed v = blazed"
    "card_due_date v = due" "card_created_at v = card_created_at c"
    "nn_try_from_u64 (u64_from_nn (card_count c) + 1) = Ok (card_count v)"
  using card_next_Ok[OF assms[unfolded restated_def]] by simp_all

section \<open>When a swipe commits\<close>

lemma braked_bounds:
  assumes "0 < t" "t < d"
  shows "t < braked t d" "braked t d < t * (22 / 10)"
proof -
  let ?x = "d - t" and ?b = "t * (12 / 10) :: rat"
  have b: "0 < ?b" "0 < ?x" using assms by simp_all
  have "0 < ?b * ?x / (?x + ?b)" using b by (intro divide_pos_pos mult_pos_pos) simp_all
  moreover have "?b * ?x / (?x + ?b) < ?b"
    using b by (simp add: divide_less_eq algebra_simps)
  ultimately show "t < braked t d" "braked t d < t * (22 / 10)"
    by (simp_all add: braked_def Let_def)
qed

text \<open>The card follows the finger so that a swipe commits exactly when the finger has gone further than
  the threshold, in every mode, although the card slows down beyond it; to the right, and to the left
  in the cycle mode, it never goes further than 2.2 times the threshold.\<close>

theorem swipe_commits_iff_far_enough:
  assumes "0 < threshold_r s" "0 < threshold_l s"
  shows "(swipe_offset_of s dx > threshold_r s \<longleftrightarrow> dx > threshold_r s) \<and>
    (swipe_offset_of s dx < - threshold_l s \<longleftrightarrow> dx < - threshold_l s) \<and>
    swipe_offset_of s dx < threshold_r s * (22 / 10) \<and>
    (levels_mode s \<or> - (threshold_l s * (22 / 10)) < swipe_offset_of s dx)"
proof (cases "dx > 0")
  case True
  have neg: "\<not> dx < - threshold_l s" using True assms(2) by simp
  show ?thesis
  proof (cases "dx \<le> threshold_r s")
    case small: True
    have "swipe_offset_of s dx = dx" using True small by (simp add: swipe_offset_of_def)
    moreover have "dx < threshold_r s * (22 / 10)" using small assms(1) by simp
    moreover have "- (threshold_l s * (22 / 10)) < dx" using True assms(2) by simp
    ultimately show ?thesis using neg small by simp
  next
    case False
    then have "swipe_offset_of s dx = braked (threshold_r s) dx" "threshold_r s < dx"
      using True by (simp_all add: swipe_offset_of_def)
    then show ?thesis
      using braked_bounds[OF assms(1), of dx] assms neg by simp
  qed
next
  case False
  have right: "\<not> dx > threshold_r s" using False assms(1) by simp
  have pos: "0 < threshold_r s * (22 / 10)" using assms(1) by simp
  show ?thesis
  proof (cases "levels_mode s")
    case True
    then have "swipe_offset_of s dx = dx" using False by (simp add: swipe_offset_of_def)
    then show ?thesis using True False right pos by simp
  next
    case cycle: False
    have t: "threshold_l s = sw_left_cycle s" using cycle by (simp add: threshold_l_def)
    show ?thesis
    proof (cases "\<bar>dx\<bar> \<le> sw_left_cycle s")
      case True
      then have "swipe_offset_of s dx = dx" using False cycle by (simp add: swipe_offset_of_def)
      then show ?thesis using True False right pos assms(2) t by simp
    next
      case far: False
      then have "swipe_offset_of s dx = - braked (sw_left_cycle s) (- dx)" "sw_left_cycle s < - dx"
        using False cycle by (simp_all add: swipe_offset_of_def Let_def)
      then show ?thesis
        using braked_bounds[of "sw_left_cycle s" "- dx"] assms(2) t right pos False by simp
    qed
  qed
qed

definition demo_swipe_settings :: swipe_settings where
  "demo_swipe_settings =
     \<lparr>sw_enabled = True, sw_left_mode = ''cycle'', sw_right_levels = 120, sw_right_cycle = 120,
      sw_left_levels = 80, sw_left_cycle = 100, sw_today_width = 60, sw_tomorrow_width = 60, sw_soon_width = 60\<rparr>"

theorem swipe_commits_iff_far_enough_witness:
  "swipe_offset_of demo_swipe_settings (- 101) < - 100 \<and> swipe_offset_of demo_swipe_settings 2000 < 264"
proof -
  have s: "threshold_r demo_swipe_settings = 120" "threshold_l demo_swipe_settings = 100"
    by (simp_all add: threshold_r_def threshold_l_def levels_mode_def demo_swipe_settings_def)
  have "0 < threshold_r demo_swipe_settings" "0 < threshold_l demo_swipe_settings" by (simp_all add: s)
  from swipe_commits_iff_far_enough[OF this, of "- 101"] swipe_commits_iff_far_enough[OF this, of 2000]
  show ?thesis by (simp add: s)
qed

text \<open>What the label says is what a swipe to the left does, in both modes.\<close>

definition midnight_in :: "datetime \<Rightarrow> int \<Rightarrow> datetime" where
  "midnight_in now days = (now div 86400000 + days) * 86400000"

definition due_of_label :: "datetime \<Rightarrow> string \<Rightarrow> datetime option" where
  "due_of_label now l =
     (if l = ''Today'' then Some (midnight_in now 0) else if l = ''Tomorrow'' then Some (midnight_in now 1)
      else if l = ''In 2 days'' then Some (midnight_in now 2) else None)"

lemma midnights:
  "today_midnight now = midnight_in now 0" "tomorrow_midnight now = midnight_in now 1" "in_two_days_midnight now = midnight_in now 2"
  by (simp_all add: today_midnight_def tomorrow_midnight_def in_two_days_midnight_def midnight_utc_def date_naive_def midnight_in_def)

lemma label_of_zone:
  "1 \<le> z \<Longrightarrow> z \<le> 4 \<Longrightarrow> due_of_label now (levels_zone_label z) = fst (zone_due fmt now z)"
  by (auto simp: due_of_label_def levels_zone_label_def zone_due_def midnights)

lemma zone_of_range: "zone_of s offset = Some z \<Longrightarrow> 1 \<le> z \<and> z \<le> 4"
  by (auto simp: zone_of_def levels_zone_def Let_def split: if_splits)

lemma zone_due_fst:
  "fst (zone_due fmt now 1) = Some (midnight_in now 0)" "fst (zone_due fmt now 2) = Some (midnight_in now 1)"
  "fst (zone_due fmt now 3) = Some (midnight_in now 2)" "fst (zone_due fmt now 4) = None"
  by (simp_all add: zone_due_def midnights)

theorem swipe_label_true:
  assumes "offset < - 55"
  shows "fst (left_due s fmt now offset c) = due_of_label now (swipe_label s blazed now (card_due_date c) offset)"
proof (cases "levels_mode s")
  case True
  define z where "z = (case zone_of s offset of Some z \<Rightarrow> z | None \<Rightarrow> 1)"
  have "1 \<le> z \<and> z \<le> 4" using zone_of_range[of s offset] by (auto simp: z_def split: option.split)
  then have "due_of_label now (levels_zone_label z) = fst (zone_due fmt now z)" using label_of_zone by blast
  moreover have "swipe_label s blazed now (card_due_date c) offset = levels_zone_label z"
    using True assms by (simp add: swipe_label_def z_def)
  moreover have "left_due s fmt now offset c = zone_due fmt now z" using True by (simp add: left_due_def z_def)
  ultimately show ?thesis by simp
next
  case False
  define current where "current = map_option date_naive (card_due_date c)"
  have "swipe_label s blazed now (card_due_date c) offset =
      (if current = Some (date_naive now) then ''Tomorrow'' else if current = Some (date_naive now + 1) then ''In 2 days''
       else if current = Some (date_naive now + 2) then ''Clear due'' else ''Today'')"
    using False assms by (simp add: swipe_label_def Let_def current_def)
  moreover have "left_due s fmt now offset c =
      (if current = Some (date_naive now) then zone_due fmt now 2 else if current = Some (date_naive now + 1) then zone_due fmt now 3
       else if current = Some (date_naive now + 2) then zone_due fmt now 4 else zone_due fmt now 1)"
    by (simp only: left_due_def cycle_due_def Let_def current_def False if_False)
  ultimately show ?thesis
    by (cases "current = Some (date_naive now)"; cases "current = Some (date_naive now + 1)";
        cases "current = Some (date_naive now + 2)"; simp add: zone_due_fst due_of_label_def del: One_nat_def)
qed

text \<open>At the threshold itself the background announces a commit that does not come.\<close>

theorem threshold_commit_not_done:
  assumes "0 < threshold_l s" "\<not> levels_mode s" "sw_enabled s" "threshold_r s > 0"
  shows "swipe_bg_class s blazed (- threshold_l s) = ''swipe-bg swipe-bg-due swipe-commit'' \<and>
    on_touchend env s fmt False memo uid (sw\<lparr>sp_swiping := True, sp_offset := - threshold_l s\<rparr>, st) =
      Ok (sw\<lparr>sp_offset := 0, sp_swiping := False\<rparr>, st)"
proof -
  have "\<not> - threshold_l s > threshold_r s" "\<not> - threshold_l s \<ge> threshold_r s" "\<not> - threshold_l s > 40"
    using assms(1,4) by simp_all
  then show ?thesis
    using assms(2,3) by (simp add: swipe_bg_class_def on_touchend_def Let_def split: option.split)
qed

section \<open>A swipe and its undo\<close>

text \<open>A next version of a card that differs from it in the blaze state and the due date only.\<close>

definition next_with :: "bool \<Rightarrow> datetime option \<Rightarrow> card \<Rightarrow> card \<Rightarrow> bool" where
  "next_with blazed due c v \<longleftrightarrow>
     card_id v = card_id c \<and> card_ancestor_hash v = card_hash c \<and> card_content v = card_content c \<and>
     card_priority v = card_priority c \<and> card_tags v = sort (card_tags c) \<and> card_blazed v = blazed \<and> card_due_date v = due \<and>
     card_created_at v = card_created_at c \<and> nn_try_from_u64 (u64_from_nn (card_count c) + 1) = Ok (card_count v)"

lemma restated_next_with: "restated env c blazed due = Ok v \<Longrightarrow> next_with blazed due c v"
  using restated_fields[of env c blazed due v] by (simp add: next_with_def)

text \<open>What a toast says: the card was blazed or extinguished; the due date it got.\<close>

definition blaze_announced :: "bool \<Rightarrow> string" where
  "blaze_announced blazed =
     (if blazed then ''Blazed '' @ [CHR 0xF0, CHR 0x9F, CHR 0x94, CHR 0xA5]
      else ''Extinguished '' @ [CHR 0xF0, CHR 0x9F, CHR 0x9A, CHR 0x80])"

definition due_announced :: "(int \<Rightarrow> string) \<Rightarrow> datetime \<Rightarrow> string \<Rightarrow> datetime option \<Rightarrow> bool" where
  "due_announced fmt now msg due \<longleftrightarrow>
     msg = ''Due: Today'' \<and> due = Some (midnight_in now 0) \<or>
     msg = ''Due: Tomorrow'' \<and> due = Some (midnight_in now 1) \<or>
     msg = ''Due: '' @ fmt (now div 86400000 + 2) \<and> due = Some (midnight_in now 2) \<or>
     msg = ''Due: Cleared'' \<and> due = None"

lemma left_due_announced: "due_announced fmt now (snd (left_due s fmt now offset c)) (fst (left_due s fmt now offset c))"
proof -
  have "due_announced fmt now (snd (zone_due fmt now z)) (fst (zone_due fmt now z))" for z
    by (auto simp: zone_due_def due_announced_def midnights date_naive_def)
  then show ?thesis by (simp add: left_due_def cycle_due_def Let_def)
qed

lemma swipe_right_toast:
  assumes "swipe_right env c st = Ok st'" "ce_request (dn_client env) = online_request E now"
  shows "\<exists>v. next_with (\<not> card_blazed c)
      (if \<not> card_blazed c \<and> dn_clear_due_on_blaze env then None else card_due_date c) c v \<and>
    settled_edit E v (dt_app st', dt_world st') \<and>
    dt_swipe_toast st' = Some \<lparr>toast_message = blaze_announced (card_blazed v), toast_original = c\<rparr>"
proof -
  obtain v st1 where v: "restated env c (\<not> card_blazed c)
      (due_after_blaze_change (dn_clear_due_on_blaze env) (card_due_date c) (card_blazed c) (\<not> card_blazed c)) = Ok v"
    and edit: "apply_edit env v st = Ok st1" and st': "st' = show_swipe_toast (blaze_message (card_blazed c)) c st1"
    using assms(1) by (auto simp: swipe_right_def Let_def bind_outcome_Ok map_ok_Ok)
  have "settled_edit E v (dt_app st', dt_world st')"
    using apply_edit_settled(1)[OF edit assms(2)] st' by (simp add: show_swipe_toast_def)
  then show ?thesis
    using restated_next_with[OF v] st'
    by (intro exI[of _ v])
      (auto simp: show_swipe_toast_def due_after_blaze_change_def blaze_message_def blaze_announced_def next_with_def)
qed

lemma swipe_left_toast:
  assumes "swipe_left env s fmt offset c st = Ok st'" "ce_request (dn_client env) = online_request E now"
  shows "\<exists>v due msg. next_with (card_blazed c \<and> \<not> (dn_extinguish_on_due_set env \<and> (due \<noteq> None \<or> dn_extinguish_on_due_clear env))) due c v \<and>
    due_announced fmt (ce_now (dn_client env)) msg due \<and>
    (offset < - 55 \<longrightarrow> due = due_of_label (ce_now (dn_client env))
       (swipe_label s (card_blazed c) (ce_now (dn_client env)) (card_due_date c) offset)) \<and>
    settled_edit E v (dt_app st', dt_world st') \<and>
    dt_swipe_toast st' = Some \<lparr>toast_message = msg, toast_original = c\<rparr>"
proof -
  obtain due msg where due: "left_due s fmt (ce_now (dn_client env)) offset c = (due, msg)" by fastforce
  then obtain v st1 where v: "restated env c (blazed_after env (card_blazed c) due) due = Ok v"
    and edit: "apply_edit env v st = Ok st1" and st': "st' = show_swipe_toast msg c st1"
    using assms(1) by (auto simp: swipe_left_def bind_outcome_Ok map_ok_Ok)
  have "blazed_after env (card_blazed c) due =
      (card_blazed c \<and> \<not> (dn_extinguish_on_due_set env \<and> (due \<noteq> None \<or> dn_extinguish_on_due_clear env)))"
    by (auto simp: blazed_after_def blazed_after_due_change_def)
  then have "next_with (card_blazed c \<and> \<not> (dn_extinguish_on_due_set env \<and> (due \<noteq> None \<or> dn_extinguish_on_due_clear env))) due c v"
    using restated_next_with[OF v] by simp
  moreover have "due_announced fmt (ce_now (dn_client env)) msg due"
    using left_due_announced[of fmt "ce_now (dn_client env)" s offset c] due by simp
  moreover have "offset < - 55 \<longrightarrow> due = due_of_label (ce_now (dn_client env))
      (swipe_label s (card_blazed c) (ce_now (dn_client env)) (card_due_date c) offset)"
    using swipe_label_true[of offset s fmt "ce_now (dn_client env)" c "card_blazed c"] due by simp
  moreover have "settled_edit E v (dt_app st', dt_world st')"
    using apply_edit_settled(1)[OF edit assms(2)] st' by (simp add: show_swipe_toast_def)
  ultimately show ?thesis using st' by (intro exI[of _ v] exI[of _ due] exI[of _ msg]) (simp add: show_swipe_toast_def)
qed

text \<open>C32: A swipe that acts adds a version of the card under the finger that differs from it as announced and in
  nothing else. To the right the blaze state is turned, as the toast says, and a blazed card loses its
  due date if the setting says so. To the left the card gets the due date that the toast announces, which
  is the one the label under the card announced, and is extinguished as the settings say. The undo then
  adds a version with everything the card had before the swipe. Both edits end in the queue or on the
  server, whatever the connection does.\<close>

theorem undo_restores_the_card:
  assumes "on_touchend env s fmt False memo uid (sw, st) = Ok (sw', st1)" "dt_swipe_toast st = None" "dt_swipe_toast st1 = Some toast"
    and "undo_swipe env st1 = Ok st2" "ce_request (dn_client env) = online_request E now"
  shows "\<exists>c v r. read_card memo uid st = Some c \<and> toast_original toast = c \<and>
    (if sp_offset sw > threshold_r s
     then next_with (\<not> card_blazed c) (if \<not> card_blazed c \<and> dn_clear_due_on_blaze env then None else card_due_date c) c v \<and>
       toast_message toast = blaze_announced (card_blazed v)
     else sp_offset sw < - threshold_l s \<and>
       next_with (card_blazed c \<and> \<not> (dn_extinguish_on_due_set env \<and> (card_due_date v \<noteq> None \<or> dn_extinguish_on_due_clear env)))
         (card_due_date v) c v \<and>
       due_announced fmt (ce_now (dn_client env)) (toast_message toast) (card_due_date v) \<and>
       (sp_offset sw < - 55 \<longrightarrow> card_due_date v = due_of_label (ce_now (dn_client env))
          (swipe_label s (card_blazed c) (ce_now (dn_client env)) (card_due_date c) (sp_offset sw)))) \<and>
    settled_edit E v (dt_app st1, dt_world st1) \<and>
    next_with (card_blazed c) (card_due_date c) c r \<and> settled_edit E r (dt_app st2, dt_world st2) \<and> dt_swipe_toast st2 = None"
proof -
  have active: "sw_enabled s" "sp_swiping sw"
    using assms(1-3) by (auto simp: on_touchend_def split: if_splits)
  then obtain c where c: "read_card memo uid st = Some c"
    and act: "(if sp_offset sw > threshold_r s then swipe_right env c st
      else if sp_offset sw < - threshold_l s then swipe_left env s fmt (sp_offset sw) c st else Ok st) = Ok st1"
    using assms(1-3) by (auto simp: on_touchend_def Let_def map_ok_Ok split: option.splits)
  have v: "\<exists>v. toast_original toast = c \<and> settled_edit E v (dt_app st1, dt_world st1) \<and>
    (if sp_offset sw > threshold_r s
     then next_with (\<not> card_blazed c) (if \<not> card_blazed c \<and> dn_clear_due_on_blaze env then None else card_due_date c) c v \<and>
       toast_message toast = blaze_announced (card_blazed v)
     else sp_offset sw < - threshold_l s \<and>
       next_with (card_blazed c \<and> \<not> (dn_extinguish_on_due_set env \<and> (card_due_date v \<noteq> None \<or> dn_extinguish_on_due_clear env)))
         (card_due_date v) c v \<and>
       due_announced fmt (ce_now (dn_client env)) (toast_message toast) (card_due_date v) \<and>
       (sp_offset sw < - 55 \<longrightarrow> card_due_date v = due_of_label (ce_now (dn_client env))
          (swipe_label s (card_blazed c) (ce_now (dn_client env)) (card_due_date c) (sp_offset sw))))"
  proof (cases "sp_offset sw > threshold_r s")
    case True
    then obtain v where "next_with (\<not> card_blazed c)
        (if \<not> card_blazed c \<and> dn_clear_due_on_blaze env then None else card_due_date c) c v"
      "settled_edit E v (dt_app st1, dt_world st1)"
      "dt_swipe_toast st1 = Some \<lparr>toast_message = blaze_announced (card_blazed v), toast_original = c\<rparr>"
      using act swipe_right_toast[OF _ assms(5), of c st st1] by (auto simp del: if_split)
    then show ?thesis using True assms(3) by (intro exI[of _ v]) (simp del: if_split)
  next
    case False
    then have far: "sp_offset sw < - threshold_l s" using act assms(2,3) by (auto split: if_splits)
    then have "swipe_left env s fmt (sp_offset sw) c st = Ok st1" using False act by simp
    from swipe_left_toast[OF this assms(5)] obtain v due msg where v:
      "next_with (card_blazed c \<and> \<not> (dn_extinguish_on_due_set env \<and> (due \<noteq> None \<or> dn_extinguish_on_due_clear env))) due c v"
      "due_announced fmt (ce_now (dn_client env)) msg due" "settled_edit E v (dt_app st1, dt_world st1)"
      "sp_offset sw < - 55 \<longrightarrow> due = due_of_label (ce_now (dn_client env))
        (swipe_label s (card_blazed c) (ce_now (dn_client env)) (card_due_date c) (sp_offset sw))"
      "dt_swipe_toast st1 = Some \<lparr>toast_message = msg, toast_original = c\<rparr>"
      by blast
    have "card_due_date v = due" using v(1) by (simp add: next_with_def)
    then show ?thesis using v False far assms(3) by (intro exI[of _ v]) simp
  qed
  then have "toast_original toast = c" by blast
  then obtain r st' where r: "restated env c (card_blazed c) (card_due_date c) = Ok r"
    and edit: "apply_edit env r st1 = Ok st'" and st2: "st2 = dismiss_toast st'"
    using assms(3,4) by (auto simp: undo_swipe_def Let_def bind_outcome_Ok map_ok_Ok)
  have "settled_edit E r (dt_app st2, dt_world st2)" "dt_swipe_toast st2 = None"
    using apply_edit_settled(1)[OF edit assms(5)] st2 by (simp_all add: dismiss_toast_def)
  then show ?thesis using c v restated_next_with[OF r] by blast
qed

definition demo_detail_env :: "(db, (uuid \<times> card) list, (uuid \<times> tag) list) detail_env" where
  "demo_detail_env =
     \<lparr>dn_client = demo_env, dn_view = demo_view_env, dn_keys_of = (\<lambda>_. []), dn_timer = 1, dn_render = (\<lambda>x. x),
      dn_show_error = (\<lambda>_. ''error''), dn_search_tags = False, dn_recursive_links = True,
      dn_extinguish_on_due_set = True, dn_extinguish_on_due_clear = False, dn_clear_due_on_blaze = True\<rparr>"

definition demo_detail :: "db detail" where
  "demo_detail =
     \<lparr>dt_ui = demo_ui, dt_app = demo_offline, dt_world = empty_db, dt_delete_requested = False,
      dt_confirm_delete = 0, dt_move_to = [], dt_due_preset = PresetToday, dt_due_open = False,
      dt_position_open = False, dt_clipboard = [], dt_copy_toast = None, dt_swipe_toast = None, dt_link_cache = (\<lambda>_. None)\<rparr>"

lemma demo_detail_simps [simp]:
  "dn_client demo_detail_env = demo_env" "ce_hash demo_env = demo_hash" "ce_now demo_env = 0"
  "dt_app demo_detail = demo_offline" "dt_world demo_detail = empty_db" "dt_swipe_toast demo_detail = None"
  "ms_pending (ui_moves (dt_ui demo_detail)) = None" "\<not> app_connected demo_offline" "app_cards demo_offline = [demo_card]"
  by (simp_all add: demo_detail_env_def demo_env_def demo_detail_def demo_ui_def demo_offline_def demo_app_def)

lemma apply_edit_offline:
  assumes "\<not> app_connected (dt_app st)" "ms_pending (ui_moves (dt_ui st)) = None"
  shows "\<exists>st'. apply_edit env v st = Ok st' \<and> \<not> app_connected (dt_app st') \<and> ms_pending (ui_moves (dt_ui st')) = None \<and>
    dt_world st' = dt_world st"
  using assms
  by (simp add: apply_edit_def set_cards_def Let_def run_edit_task_def flush_now_def flush_sync_take_def
      cancel_priority_timer_def push_card_or_queue_def)

lemma restated_runs:
  assumes "nn_ok (card_count c)" "inner (card_count c) < i64_max"
  obtains v where "restated env c blazed due = Ok v"
  using assms by (auto simp: restated_def card_next_def nn_successor Let_def)

lemma demo_swipe_and_undo:
  "\<exists>sw' st1 st2. on_touchend demo_detail_env demo_swipe_settings (\<lambda>_. []) False (\<lambda>_. None) 1
      (\<lparr>sp_start_x = 300, sp_start_y = 40, sp_swiping = True, sp_offset = 150\<rparr>, demo_detail) = Ok (sw', st1) \<and>
    dt_swipe_toast st1 \<noteq> None \<and> dt_world st1 = empty_db \<and> undo_swipe demo_detail_env st1 = Ok st2 \<and> dt_world st2 = empty_db"
proof -
  have c: "nn_ok (card_count demo_card)" "inner (card_count demo_card) < i64_max" by (simp_all add: nn_ok_def i64_max_def)
  obtain v where v: "restated demo_detail_env demo_card True (due_after_blaze_change (dn_clear_due_on_blaze demo_detail_env)
      (card_due_date demo_card) (card_blazed demo_card) True) = Ok v"
    by (rule restated_runs[OF c])
  obtain r where r: "restated demo_detail_env demo_card (card_blazed demo_card) (card_due_date demo_card) = Ok r"
    by (rule restated_runs[OF c])
  obtain s1 where s1: "apply_edit demo_detail_env v demo_detail = Ok s1" "\<not> app_connected (dt_app s1)"
    "ms_pending (ui_moves (dt_ui s1)) = None" "dt_world s1 = empty_db"
    using apply_edit_offline[of demo_detail demo_detail_env v] by auto
  define t1 where "t1 = show_swipe_toast (blaze_message (card_blazed demo_card)) demo_card s1"
  have t1: "\<not> app_connected (dt_app t1)" "ms_pending (ui_moves (dt_ui t1)) = None" "dt_world t1 = empty_db"
    "map_option toast_original (dt_swipe_toast t1) = Some demo_card"
    using s1 by (simp_all add: t1_def show_swipe_toast_def)
  obtain s2 where s2: "apply_edit demo_detail_env r t1 = Ok s2" "dt_world s2 = empty_db"
    using apply_edit_offline[OF t1(1,2)] t1(3) by auto
  have "find_card 1 demo_detail = Some demo_card" by (simp add: find_card_def)
  then have "on_touchend demo_detail_env demo_swipe_settings (\<lambda>_. []) False (\<lambda>_. None) 1
      (\<lparr>sp_start_x = 300, sp_start_y = 40, sp_swiping = True, sp_offset = 150\<rparr>, demo_detail) =
      Ok (\<lparr>sp_start_x = 300, sp_start_y = 40, sp_swiping = False, sp_offset = 0\<rparr>, t1)"
    using v s1(1) by (simp add: on_touchend_def demo_swipe_settings_def threshold_r_def levels_mode_def read_card_def
        swipe_right_def t1_def)
  moreover have "undo_swipe demo_detail_env t1 = Ok (dismiss_toast s2)"
    using r s2(1) by (simp add: undo_swipe_def t1_def show_swipe_toast_def)
  ultimately show ?thesis using t1(3,4) s2(2) by (auto simp: dismiss_toast_def)
qed

theorem undo_restores_the_card_witness:
  "\<exists>sw' st1 st2 r q. on_touchend demo_detail_env demo_swipe_settings (\<lambda>_. []) False (\<lambda>_. None) 1
      (\<lparr>sp_start_x = 300, sp_start_y = 40, sp_swiping = True, sp_offset = 150\<rparr>, demo_detail) = Ok (sw', st1) \<and>
    undo_swipe demo_detail_env st1 = Ok st2 \<and> card_content r = ''buy milk'' \<and> card_priority r = 5 \<and> \<not> card_blazed r \<and>
    q \<in> set (app_offline_queue (dt_app st2)) \<and> same_edit q r"
proof -
  obtain sw' st1 st2 where swipe: "on_touchend demo_detail_env demo_swipe_settings (\<lambda>_. []) False (\<lambda>_. None) 1
      (\<lparr>sp_start_x = 300, sp_start_y = 40, sp_swiping = True, sp_offset = 150\<rparr>, demo_detail) = Ok (sw', st1)"
    and shown: "dt_swipe_toast st1 \<noteq> None" and undo: "undo_swipe demo_detail_env st1 = Ok st2" and w: "dt_world st2 = empty_db"
    using demo_swipe_and_undo by blast
  have req: "ce_request (dn_client demo_detail_env) = online_request demo_ext 0" by (simp add: demo_env_request)
  have card: "read_card (\<lambda>_. None) 1 demo_detail = Some demo_card" by (simp add: read_card_def find_card_def)
  from shown obtain toast where toast: "dt_swipe_toast st1 = Some toast" by blast
  have none: "dt_swipe_toast demo_detail = None" by simp
  from undo_restores_the_card[OF swipe none toast undo req] card
  obtain r where "next_with (card_blazed demo_card) (card_due_date demo_card) demo_card r"
    and settled: "settled_edit demo_ext r (dt_app st2, dt_world st2)"
    by (auto simp del: if_split)
  then have r: "card_content r = card_content demo_card" "card_priority r = card_priority demo_card"
    "card_blazed r = card_blazed demo_card" by (simp_all add: next_with_def)
  from settled obtain q where "q \<in> set (app_offline_queue (dt_app st2))" "same_edit q r"
    using w by (auto simp: settled_edit_def empty_db_def card_log.entry_def find_row_def)
  moreover have "card_content r = ''buy milk''" "card_priority r = 5" "\<not> card_blazed r" using r by simp_all
  ultimately show ?thesis using swipe undo by (intro exI conjI)
qed

section \<open>Deletion\<close>

lemma delete_card_others:
  assumes "delete_card (online_request E now) uid w = (r, w')" "k \<noteq> uid"
  shows "card_log.entry w' k = card_log.entry w k"
proof -
  obtain d db' where del: "storage_delete_card E now w uid = (d, db')" by fastforce
  have w': "w' = db'"
    using assms(1) del by (auto simp: delete_card_def requested_def online_request_def split: prod.splits outcome.splits)
  show "card_log.entry w' k = card_log.entry w k"
    using del
  proof (cases rule: storage_delete_card_cases)
    case kept
    then show ?thesis using w' by simp
  next
    case committed
    then show ?thesis using delete_card_effect(1)[of E now w uid _ w'] del w' assms(2) by simp
  qed
qed

lemma select_none_quiet:
  assumes "detail_select env None st = Ok (b, st')" "ms_pending (ui_moves (dt_ui st)) = None"
  shows "dt_app st' = dt_app st" "dt_world st' = dt_world st" "ms_pending (ui_moves (dt_ui st')) = None"
    "ms_pushed (ui_moves (dt_ui st')) = ms_pushed (ui_moves (dt_ui st))"
proof -
  obtain ui where ui: "set_selection (dn_view env) None (dt_ui st) = Ok (b, ui)" and st': "st' = st\<lparr>dt_ui := ui\<rparr>"
    using assms(1) by (auto simp: detail_select_def map_ok_Ok)
  have moves: "ui_moves (sync_query_params e u) = ui_moves u" "ui_moves (set_view f u) = ui_moves u" for e u f
    by (simp_all add: sync_query_params_def set_view_def Let_def)
  have "ms_pending (ui_moves ui) = None \<and> ms_pushed (ui_moves ui) = ms_pushed (ui_moves (dt_ui st))"
    using ui assms(2)
    by (auto simp: set_selection_def guarded_def flush_pending_priority_def flush_burst_def flush_sync_take_def
        cancel_priority_timer_def bind_outcome_Ok map_ok_Ok moves Let_def split: if_splits)
  then show "dt_app st' = dt_app st" "dt_world st' = dt_world st" "ms_pending (ui_moves (dt_ui st')) = None"
    "ms_pushed (ui_moves (dt_ui st')) = ms_pushed (ui_moves (dt_ui st))"
    using st' by simp_all
qed

lemma discard_for_burst:
  assumes "ms_pending m = Some b" "burst_card_id b = uid"
  shows "ms_pending (discard_for uid m) = None" "ms_pushed (discard_for uid m) = ms_pushed m"
  using assms by (simp_all add: discard_for_def cancel_priority_timer_def)

text \<open>C33: A confirmed deletion of the card that is being moved drops the move before the server has answered. No
  matter how the deletion ends, nothing of the move is queued or sent: the cards the move shifted keep
  their new priorities in the local list only, the server has them as they were; and when the client
  is offline the card stays as well, with a priority that no push will ever carry.\<close>

theorem deletion_drops_the_move:
  assumes "ms_pending (ui_moves (dt_ui st)) = Some b" "burst_card_id b = uid"
    and "do_confirm_delete env uid st = Ok st'" "ce_request (dn_client env) = online_request E now" "k \<noteq> uid"
  shows "ms_pending (ui_moves (dt_ui st')) = None \<and> ms_pushed (ui_moves (dt_ui st')) = ms_pushed (ui_moves (dt_ui st)) \<and>
    app_offline_queue (dt_app st') = app_offline_queue (dt_app st) \<and>
    card_log.entry (dt_world st') k = card_log.entry (dt_world st) k \<and>
    filter (\<lambda>c. card_id c \<noteq> uid) (app_cards (dt_app st')) = filter (\<lambda>c. card_id c \<noteq> uid) (app_cards (dt_app st)) \<and>
    (app_connected (dt_app st) \<or> app_cards (dt_app st') = app_cards (dt_app st))"
proof (cases "app_connected (dt_app st)")
  case False
  then show ?thesis
    using assms(3) discard_for_burst[OF assms(1,2)]
    by (auto simp: do_confirm_delete_def Let_def detail_toast_def)
next
  case True
  define s0 where "s0 = st\<lparr>dt_ui := (dt_ui st)\<lparr>ui_moves := discard_for uid (ui_moves (dt_ui st))\<rparr>, dt_confirm_delete := 0\<rparr>"
  have s0: "ms_pending (ui_moves (dt_ui s0)) = None" "ms_pushed (ui_moves (dt_ui s0)) = ms_pushed (ui_moves (dt_ui st))"
    "dt_app s0 = dt_app st" "dt_world s0 = dt_world st"
    using discard_for_burst[OF assms(1,2)] by (simp_all add: s0_def)
  obtain r w where del: "delete_card (online_request E now) uid (dt_world s0) = (r, w)" by fastforce
  have w: "card_log.entry w k = card_log.entry (dt_world st) k"
    using delete_card_others[OF del assms(5)] s0(4) by simp
  have run: "(case r of
        Ok _ \<Rightarrow> map_ok snd (detail_select env None
            (set_cards (filter (\<lambda>c. card_id c \<noteq> uid) (app_cards (dt_app s0))) (s0\<lparr>dt_world := w\<rparr>)))
      | Err ConnectionLost \<Rightarrow> Ok (detail_toast delete_card_offline_toast (s0\<lparr>dt_world := w\<rparr>))
      | Err e \<Rightarrow> Ok (detail_toast (''Failed to delete card: '' @ dn_show_error env e) (s0\<lparr>dt_world := w\<rparr>))
      | Panic \<Rightarrow> Panic) = Ok st'"
    using assms(3) True del unfolding do_confirm_delete_def Let_def assms(4) s0_def[symmetric]
    by (simp add: s0(3) split: outcome.splits client_error.splits)
  show ?thesis
  proof (cases r)
    case (Ok u)
    define s1 where "s1 = set_cards (filter (\<lambda>c. card_id c \<noteq> uid) (app_cards (dt_app s0))) (s0\<lparr>dt_world := w\<rparr>)"
    have s1: "ms_pending (ui_moves (dt_ui s1)) = None" "ms_pushed (ui_moves (dt_ui s1)) = ms_pushed (ui_moves (dt_ui st))"
      "app_cards (dt_app s1) = filter (\<lambda>c. card_id c \<noteq> uid) (app_cards (dt_app st))" "dt_world s1 = w"
      "app_offline_queue (dt_app s1) = app_offline_queue (dt_app st)"
      by (simp_all add: s1_def set_cards_def s0)
    obtain x where "detail_select env None s1 = Ok (x, st')"
      using run Ok by (auto simp: s1_def[symmetric] map_ok_Ok)
    from select_none_quiet[OF this s1(1)] show ?thesis using s1 w True by (simp add: filter_filter)
  next
    case (Err e)
    then have "\<exists>msg. st' = detail_toast msg (s0\<lparr>dt_world := w\<rparr>)" using run by (cases e) auto
    then show ?thesis using s0 w True by (auto simp: detail_toast_def)
  next
    case Panic
    then show ?thesis using run by simp
  qed
qed

definition demo_moved_burst :: priority_burst where
  "demo_moved_burst = apply_move 70 [(demo_sibling, 3)] (burst_new demo_card 70)"

definition demo_moving :: "db detail" where
  "demo_moving =
     demo_detail\<lparr>dt_ui := demo_ui\<lparr>ui_moves := (ui_moves demo_ui)\<lparr>ms_pending := Some demo_moved_burst\<rparr>\<rparr>\<rparr>"

theorem deletion_drops_the_move_witness:
  "\<exists>st'. do_confirm_delete demo_detail_env 1 demo_moving = Ok st' \<and> ms_pending (ui_moves (dt_ui st')) = None \<and>
    app_offline_queue (dt_app st') = [] \<and> app_cards (dt_app st') = [demo_card]"
proof -
  have b: "ms_pending (ui_moves (dt_ui demo_moving)) = Some demo_moved_burst" "burst_card_id demo_moved_burst = 1"
    by (simp_all add: demo_moving_def demo_moved_burst_def apply_move_def apply_sibling_def burst_new_def Let_def)
  have app: "dt_app demo_moving = demo_offline" by (simp add: demo_moving_def)
  obtain st' where run: "do_confirm_delete demo_detail_env 1 demo_moving = Ok st'"
    using app by (simp add: do_confirm_delete_def Let_def)
  have req: "ce_request (dn_client demo_detail_env) = online_request demo_ext 0" by (simp add: demo_env_request)
  have ne: "(2 :: uuid) \<noteq> 1" by simp
  from deletion_drops_the_move[OF b run req ne] run app show ?thesis by (simp add: demo_offline_def demo_app_def)
qed

end
