(* ===== verification/Storage_Schema.thy ===== *)
theory Storage_Schema
  imports Storage_Ops
begin

text \<open>
  Opening a database file (server/src/storage/sqlite/schema.rs and \<open>open\<close> in mod.rs): the settings of a
  connection, the schema version, the tables, and the upgrade of an older file. A file holds the rows of
  \<open>db\<close> together with what is there of the schema: the columns of each table, the version row, the row
  of the root state and the rows of the buckets. Where a table lacks a column, its value in a row has
  no meaning until the column is added, which sets it to its default.
\<close>

section \<open>The file\<close>

record disk =
  dk_db :: db
  dk_columns :: "string \<rightharpoonup> string list"
  dk_version :: "(int \<times> int \<times> int) option"
  dk_root_row :: bool
  dk_buckets :: "u8 set"

definition new_file :: disk where
  "new_file = \<lparr>dk_db = empty_db, dk_columns = Map.empty, dk_version = None, dk_root_row = False, dk_buckets = {}\<rparr>"

definition no_such_table :: "(storage_error, 'a) outcome" where
  "no_such_table = Err (storage_error.Internal (DisplayText ''no such table''))"

definition no_such_column :: "(storage_error, 'a) outcome" where
  "no_such_column = Err (storage_error.Internal (DisplayText ''no such column''))"

section \<open>The settings of a connection\<close>

definition pragma_char :: "char \<Rightarrow> bool" where
  "pragma_char c \<longleftrightarrow>
     (let n = of_char c :: nat in
      48 \<le> n \<and> n \<le> 57 \<or> 65 \<le> n \<and> n \<le> 90 \<or> 97 \<le> n \<and> n \<le> 122 \<or> c = CHR ''-'' \<or> c = CHR ''_'')"

text \<open>The value of an environment variable or the default; anything else in it is a panic.\<close>

definition env_or :: "(string \<rightharpoonup> string) \<Rightarrow> string \<Rightarrow> string \<Rightarrow> (storage_error, string) outcome" where
  "env_or vars var dflt =
     (let val = (case vars var of Some v \<Rightarrow> v | None \<Rightarrow> dflt)
      in if list_all pragma_char val then Ok val else Panic)"

definition pragma_sources :: "(string \<times> string \<times> string) list" where
  "pragma_sources =
     [(''journal_mode'', ''BLAZELIST_SQLITE_JOURNAL_MODE'', ''WAL''),
      (''synchronous'', ''BLAZELIST_SQLITE_SYNCHRONOUS'', ''NORMAL''),
      (''cache_size'', ''BLAZELIST_SQLITE_CACHE_SIZE'', ''-8388608''),
      (''mmap_size'', ''BLAZELIST_SQLITE_MMAP_SIZE'', ''8589934592''),
      (''temp_store'', ''BLAZELIST_SQLITE_TEMP_STORE'', ''MEMORY''),
      (''busy_timeout'', ''BLAZELIST_SQLITE_BUSY_TIMEOUT'', ''5000'')]"

text \<open>The pragmas that are set, with \<open>foreign_keys\<close> after the first.\<close>

definition apply_pragmas :: "(string \<rightharpoonup> string) \<Rightarrow> (storage_error, (string \<times> string) list) outcome" where
  "apply_pragmas vars =
     map_ok (\<lambda>ps. case ps of [] \<Rightarrow> [] | p # rest \<Rightarrow> p # (''foreign_keys'', ''ON'') # rest)
       (collect_results (\<lambda>(name, var, dflt). map_ok (Pair name) (env_or vars var dflt)) pragma_sources)"

section \<open>The tables\<close>

definition ensure_schema_version_table :: "disk \<Rightarrow> disk" where
  "ensure_schema_version_table d =
     (if dk_columns d ''schema_version'' = None
      then d\<lparr>dk_columns := (dk_columns d)(''schema_version'' \<mapsto> [''id'', ''major'', ''minor'', ''patch''])\<rparr> else d)"

definition schema_tables :: "(string \<times> string list) list" where
  "schema_tables =
     [(''cards'', [''id'', ''content'', ''priority'', ''tags'', ''blazed'', ''created_at'', ''modified_at'', ''due_date'',
        ''count'', ''ancestor_hash'', ''hash'', ''root_sequence_at'', ''bucket'']),
      (''card_versions'', [''card_id'', ''count'', ''content'', ''priority'', ''tags'', ''blazed'', ''created_at'',
        ''modified_at'', ''due_date'', ''ancestor_hash'', ''hash'', ''root_sequence_at'']),
      (''tags'', [''id'', ''title'', ''color'', ''created_at'', ''modified_at'', ''count'', ''ancestor_hash'', ''hash'',
        ''root_sequence_at'', ''bucket'', ''implies'']),
      (''tag_versions'', [''tag_id'', ''count'', ''title'', ''color'', ''created_at'', ''modified_at'', ''ancestor_hash'',
        ''hash'', ''root_sequence_at'', ''implies'']),
      (''deleted_entities'', [''id'', ''hash'', ''root_sequence_at'', ''bucket'']),
      (''root_state'', [''id'', ''hash'', ''sequence'']),
      (''root_history'', [''sequence'', ''hash'', ''created_at'']),
      (''root_buckets'', [''bucket'', ''hash'']),
      (''schema_version'', [''id'', ''major'', ''minor'', ''patch''])]"

definition schema_indexes :: "(string \<times> string list) list" where
  "schema_indexes =
     [(''cards'', [''priority'']), (''cards'', [''bucket'', ''id'']), (''tags'', [''bucket'', ''id'']),
      (''deleted_entities'', [''bucket'', ''id'']), (''card_versions'', [''root_sequence_at'']),
      (''tag_versions'', [''root_sequence_at'']), (''cards'', [''root_sequence_at'']),
      (''tags'', [''root_sequence_at'']), (''deleted_entities'', [''root_sequence_at''])]"

text \<open>\<open>CREATE TABLE IF NOT EXISTS\<close>, and an index, which needs its columns.\<close>

definition create_table :: "string \<times> string list \<Rightarrow> disk \<Rightarrow> disk" where
  "create_table t d =
     (if dk_columns d (fst t) = None then d\<lparr>dk_columns := (dk_columns d)(fst t \<mapsto> snd t)\<rparr> else d)"

definition index_possible :: "disk \<Rightarrow> string \<times> string list \<Rightarrow> bool" where
  "index_possible d ix \<longleftrightarrow>
     (case dk_columns d (fst ix) of None \<Rightarrow> False | Some cols \<Rightarrow> set (snd ix) \<subseteq> set cols)"

text \<open>\<open>INSERT OR IGNORE\<close> of the root row and of the 256 bucket rows.\<close>

definition insert_root_row :: "disk \<Rightarrow> disk" where
  "insert_root_row d =
     (if dk_root_row d then d
      else d\<lparr>dk_root_row := True, dk_db := (dk_db d)\<lparr>db_root_hash := ZERO_HASH, db_sequence := 0\<rparr>\<rparr>)"

definition insert_bucket_rows :: "disk \<Rightarrow> disk" where
  "insert_bucket_rows d =
     d\<lparr>dk_buckets := UNIV,
       dk_db := (dk_db d)\<lparr>root_buckets := (\<lambda>b. if b \<in> dk_buckets d then root_buckets (dk_db d) b else ZERO_HASH)\<rparr>\<rparr>"

definition init_schema :: "disk \<Rightarrow> (storage_error, unit) outcome \<times> disk" where
  "init_schema d =
     (let d = fold create_table schema_tables d in
      if \<not> list_all (index_possible d) schema_indexes then (no_such_column, d)
      else if \<not> distinct (map (\<lambda>r. col_priority (row_cols r)) (cards_table (dk_db d)))
      then (Err (storage_error.Internal (SqlMessage ConstraintViolation)), d)
      else (Ok (), insert_bucket_rows (insert_root_row d)))"

section \<open>Upgrades\<close>

text \<open>\<open>ALTER TABLE ADD COLUMN\<close> unless the column is there; \<open>dflt\<close> sets it in every row.\<close>

definition ensure_column :: "string \<Rightarrow> string \<Rightarrow> (db \<Rightarrow> db) \<Rightarrow> disk \<Rightarrow> (storage_error, disk) outcome" where
  "ensure_column tbl column dflt d =
     (case dk_columns d tbl of
        None \<Rightarrow> no_such_table
      | Some cols \<Rightarrow>
          if column \<in> set cols then Ok d
          else Ok (d\<lparr>dk_columns := (dk_columns d)(tbl \<mapsto> cols @ [column]), dk_db := dflt (dk_db d)\<rparr>))"

abbreviation seq_zero :: "'c entity_row list \<Rightarrow> 'c entity_row list" where
  "seq_zero \<equiv> map (\<lambda>r. r\<lparr>row_seq := 0\<rparr>)"

abbreviation bucket_zero :: "'c entity_row list \<Rightarrow> 'c entity_row list" where
  "bucket_zero \<equiv> map (\<lambda>r. r\<lparr>row_bucket := 0\<rparr>)"

abbreviation ver_seq_zero :: "'c version_row list \<Rightarrow> 'c version_row list" where
  "ver_seq_zero \<equiv> map (\<lambda>r. r\<lparr>ver_seq := 0\<rparr>)"

text \<open>The single byte 0 is the postcard encoding of an empty list.\<close>

definition no_implies_entity :: "tag_cols entity_row \<Rightarrow> tag_cols entity_row" where
  "no_implies_entity r = r\<lparr>row_cols := (row_cols r)\<lparr>tcol_implies := [0]\<rparr>\<rparr>"

definition no_implies_version :: "tag_cols version_row \<Rightarrow> tag_cols version_row" where
  "no_implies_version r = r\<lparr>ver_cols := (ver_cols r)\<lparr>tcol_implies := [0]\<rparr>\<rparr>"

definition migrate_v2_to_v3 :: "disk \<Rightarrow> (storage_error, disk) outcome" where
  "migrate_v2_to_v3 d =
     bind_outcome (ensure_column ''tags'' ''implies'' (\<lambda>db. db\<lparr>tags_table := map no_implies_entity (tags_table db)\<rparr>) d)
       (ensure_column ''tag_versions'' ''implies'' (\<lambda>db. db\<lparr>tag_versions := map no_implies_version (tag_versions db)\<rparr>))"

definition backfill_rows :: "('c \<Rightarrow> uuid) \<Rightarrow> 'c entity_row list \<Rightarrow> 'c entity_row list" where
  "backfill_rows idf = map (\<lambda>r. r\<lparr>row_bucket := bucket_of (idf (row_cols r))\<rparr>)"

definition backfill_buckets :: "db \<Rightarrow> db" where
  "backfill_buckets db =
     db\<lparr>cards_table := backfill_rows col_card_id (cards_table db),
        tags_table := backfill_rows tcol_tag_id (tags_table db),
        deleted_entities := backfill_rows deleted_id (deleted_entities db)\<rparr>"

definition root_tables :: "(string \<times> string list) list" where
  "root_tables =
     [(''root_state'', [''id'', ''hash'', ''sequence'']), (''root_history'', [''sequence'', ''hash'', ''created_at'']),
      (''root_buckets'', [''bucket'', ''hash''])]"

definition v1_columns :: "disk \<Rightarrow> (storage_error, disk) outcome" where
  "v1_columns d =
     bind_outcome (ensure_column ''cards'' ''root_sequence_at'' (\<lambda>db. db\<lparr>cards_table := seq_zero (cards_table db)\<rparr>) d) (\<lambda>d.
     bind_outcome (ensure_column ''cards'' ''bucket'' (\<lambda>db. db\<lparr>cards_table := bucket_zero (cards_table db)\<rparr>) d) (\<lambda>d.
     bind_outcome (ensure_column ''card_versions'' ''root_sequence_at''
       (\<lambda>db. db\<lparr>card_versions := ver_seq_zero (card_versions db)\<rparr>) d) (\<lambda>d.
     bind_outcome (ensure_column ''tags'' ''root_sequence_at'' (\<lambda>db. db\<lparr>tags_table := seq_zero (tags_table db)\<rparr>) d) (\<lambda>d.
     bind_outcome (ensure_column ''tags'' ''bucket'' (\<lambda>db. db\<lparr>tags_table := bucket_zero (tags_table db)\<rparr>) d) (\<lambda>d.
     bind_outcome (ensure_column ''tag_versions'' ''root_sequence_at''
       (\<lambda>db. db\<lparr>tag_versions := ver_seq_zero (tag_versions db)\<rparr>) d) (\<lambda>d.
     bind_outcome (ensure_column ''deleted_entities'' ''root_sequence_at''
       (\<lambda>db. db\<lparr>deleted_entities := seq_zero (deleted_entities db)\<rparr>) d)
       (ensure_column ''deleted_entities'' ''bucket''
          (\<lambda>db. db\<lparr>deleted_entities := bucket_zero (deleted_entities db)\<rparr>))))))))"

definition migrate_v0_to_v1 :: "ext \<Rightarrow> int \<Rightarrow> disk \<Rightarrow> (storage_error, disk) outcome" where
  "migrate_v0_to_v1 E now d =
     bind_outcome (v1_columns (insert_bucket_rows (insert_root_row (fold create_table root_tables d)))) (\<lambda>d.
       let db = backfill_buckets (dk_db d);
           db = db\<lparr>root_buckets := recompute_bucket_hash E db\<rparr>
       in bind_outcome (sql_result (recompute_root_from_buckets E now db)) (\<lambda>(db, _). Ok (d\<lparr>dk_db := db\<rparr>)))"

definition version_of_major :: "nat \<Rightarrow> version" where
  "version_of_major m = \<lparr>major = of_nat m, minor = 0, patch = 0\<rparr>"

definition migrate_one_major_step :: "ext \<Rightarrow> int \<Rightarrow> nat \<Rightarrow> disk \<Rightarrow> (storage_error, disk) outcome" where
  "migrate_one_major_step E now from_major d =
     (if from_major = 0 then migrate_v0_to_v1 E now d
      else if from_major = 1 then Ok d
      else if from_major = 2 then migrate_v2_to_v3 d
      else Err (MigrationNotImplemented (version_of_major from_major) (version_of_major (from_major + 1))))"

definition stored_triple :: "version \<Rightarrow> int \<times> int \<times> int" where
  "stored_triple v = (sint (major v), sint (minor v), sint (patch v))"

text \<open>The steps run in one transaction: an error leaves the file as it was.\<close>

fun migrate_steps :: "ext \<Rightarrow> int \<Rightarrow> nat list \<Rightarrow> disk \<Rightarrow> (storage_error, disk) outcome" where
  "migrate_steps E now [] d = Ok d"
| "migrate_steps E now (m # ms) d = bind_outcome (migrate_one_major_step E now m d) (migrate_steps E now ms)"

definition migrate_schema_major_to_major ::
  "ext \<Rightarrow> int \<Rightarrow> version \<Rightarrow> version \<Rightarrow> disk \<Rightarrow> (storage_error, unit) outcome \<times> disk" where
  "migrate_schema_major_to_major E now stored cur d =
     (case migrate_steps E now [unat (major stored)..<unat (major cur)] d of
        Ok d' \<Rightarrow> (Ok (), d'\<lparr>dk_version := Some (stored_triple cur)\<rparr>)
      | Err e \<Rightarrow> (Err e, d)
      | Panic \<Rightarrow> (Panic, d))"

section \<open>The schema version\<close>

definition version_of_triple :: "int \<times> int \<times> int \<Rightarrow> version" where
  "version_of_triple t = (case t of (a, b, c) \<Rightarrow> \<lparr>major = word_of_int a, minor = word_of_int b, patch = word_of_int c\<rparr>)"

definition check_schema_version ::
  "ext \<Rightarrow> int \<Rightarrow> version \<Rightarrow> bool \<Rightarrow> disk \<Rightarrow> (storage_error, unit) outcome \<times> disk" where
  "check_schema_version E now cur allow_migration d =
     (case dk_version d of
        None \<Rightarrow> (Ok (), d\<lparr>dk_version := Some (stored_triple cur)\<rparr>)
      | Some triple \<Rightarrow>
          let stored = version_of_triple triple in
          if major stored = major cur then (Ok (), d\<lparr>dk_version := Some (stored_triple cur)\<rparr>)
          else if \<not> allow_migration \<or> major stored > major cur then (Err (IncompatibleVersion stored cur), d)
          else migrate_schema_major_to_major E now stored cur d)"

section \<open>Opening\<close>

definition open_storage ::
  "ext \<Rightarrow> int \<Rightarrow> version \<Rightarrow> (string \<rightharpoonup> string) \<Rightarrow> bool \<Rightarrow> disk \<Rightarrow> (storage_error, db) outcome \<times> disk" where
  "open_storage E now cur vars allow_migration d =
     (case apply_pragmas vars of
        Ok _ \<Rightarrow>
          (case check_schema_version E now cur allow_migration (ensure_schema_version_table d) of
             (Ok _, d) \<Rightarrow> (case init_schema d of (r, d) \<Rightarrow> (map_ok (\<lambda>_. dk_db d) r, d))
           | (Err e, d) \<Rightarrow> (Err e, d)
           | (Panic, d) \<Rightarrow> (Panic, d))
      | Err e \<Rightarrow> (Err e, d)
      | Panic \<Rightarrow> (Panic, d))"

end
