(* ===== verification/Schema_Properties.thy ===== *)
theory Schema_Properties
  imports Storage_Schema Server_Properties
begin

text \<open>
  What opening a database file guarantees: a file that this program has opened before is opened as it
  is, an upgrade keeps every row, a refused open changes nothing; and what the upgrade from the first
  schema forgets.
\<close>

section \<open>What a step keeps\<close>

definition has_column :: "disk \<Rightarrow> string \<Rightarrow> string \<Rightarrow> bool" where
  "has_column d tbl column \<longleftrightarrow> (\<exists>cols. dk_columns d tbl = Some cols \<and> column \<in> set cols)"

lemma has_column_updates [simp]:
  "has_column (d\<lparr>dk_db := db\<rparr>) = has_column d" "has_column (d\<lparr>dk_version := v\<rparr>) = has_column d"
  "has_column (d\<lparr>dk_root_row := b\<rparr>) = has_column d" "has_column (d\<lparr>dk_buckets := bs\<rparr>) = has_column d"
  by (simp_all add: has_column_def fun_eq_iff)

definition bare_tag :: "tag_cols entity_row \<Rightarrow> tag_cols" where
  "bare_tag r = (row_cols r)\<lparr>tcol_implies := []\<rparr>"

definition bare_tag_version :: "tag_cols version_row \<Rightarrow> tag_cols" where
  "bare_tag_version r = (ver_cols r)\<lparr>tcol_implies := []\<rparr>"

text \<open>The rows of a file are those of a database, in their order, in every column that the file has; a row is only
  added to the history of the root.\<close>

definition rows_kept :: "disk \<Rightarrow> db \<Rightarrow> bool" where
  "rows_kept d db' \<longleftrightarrow>
     (let db = dk_db d in
      map row_cols (cards_table db') = map row_cols (cards_table db) \<and>
      (has_column d ''cards'' ''root_sequence_at'' \<longrightarrow> map row_seq (cards_table db') = map row_seq (cards_table db)) \<and>
      map ver_cols (card_versions db') = map ver_cols (card_versions db) \<and>
      (has_column d ''card_versions'' ''root_sequence_at'' \<longrightarrow> map ver_seq (card_versions db') = map ver_seq (card_versions db)) \<and>
      map bare_tag (tags_table db') = map bare_tag (tags_table db) \<and>
      (has_column d ''tags'' ''implies'' \<longrightarrow>
         map (tcol_implies \<circ> row_cols) (tags_table db') = map (tcol_implies \<circ> row_cols) (tags_table db)) \<and>
      (has_column d ''tags'' ''root_sequence_at'' \<longrightarrow> map row_seq (tags_table db') = map row_seq (tags_table db)) \<and>
      map bare_tag_version (tag_versions db') = map bare_tag_version (tag_versions db) \<and>
      (has_column d ''tag_versions'' ''implies'' \<longrightarrow>
         map (tcol_implies \<circ> ver_cols) (tag_versions db') = map (tcol_implies \<circ> ver_cols) (tag_versions db)) \<and>
      (has_column d ''tag_versions'' ''root_sequence_at'' \<longrightarrow> map ver_seq (tag_versions db') = map ver_seq (tag_versions db)) \<and>
      map row_cols (deleted_entities db') = map row_cols (deleted_entities db) \<and>
      (has_column d ''deleted_entities'' ''root_sequence_at'' \<longrightarrow>
         map row_seq (deleted_entities db') = map row_seq (deleted_entities db)) \<and>
      take (length (root_history db)) (root_history db') = root_history db)"

text \<open>Beyond that, what an upgrade from version 0 computes anew: the buckets of the rows, the hashes of the buckets, the
  root and its history.\<close>

definition root_kept :: "disk \<Rightarrow> db \<Rightarrow> bool" where
  "root_kept d db' \<longleftrightarrow>
     (let db = dk_db d in
      map row_bucket (cards_table db') = map row_bucket (cards_table db) \<and>
      map row_bucket (tags_table db') = map row_bucket (tags_table db) \<and>
      map row_bucket (deleted_entities db') = map row_bucket (deleted_entities db) \<and>
      root_history db' = root_history db \<and>
      (dk_root_row d \<longrightarrow> db_root_hash db' = db_root_hash db \<and> db_sequence db' = db_sequence db) \<and>
      (\<forall>b\<in>dk_buckets d. root_buckets db' b = root_buckets db b))"

definition file_grows :: "disk \<Rightarrow> disk \<Rightarrow> bool" where
  "file_grows d d' \<longleftrightarrow>
     (\<forall>t c. has_column d t c \<longrightarrow> has_column d' t c) \<and> (dk_root_row d \<longrightarrow> dk_root_row d') \<and> dk_buckets d \<subseteq> dk_buckets d'"

definition step_keeps :: "disk \<Rightarrow> disk \<Rightarrow> bool" where
  "step_keeps d d' \<longleftrightarrow> rows_kept d (dk_db d') \<and> file_grows d d' \<and> dk_version d' = dk_version d"

lemma rows_kept_refl [simp]: "rows_kept d (dk_db d)" by (simp add: rows_kept_def Let_def)

lemma take_history: "take (length a) b = a \<Longrightarrow> take (length b) c = b \<Longrightarrow> take (length a) c = a"
  by (metis min.absorb1 length_take nat_le_linear take_all take_take min.commute)

lemma rows_kept_trans:
  assumes "rows_kept a (dk_db b)" "file_grows a b" "rows_kept b db"
  shows "rows_kept a db"
proof -
  have grow: "has_column a t c \<Longrightarrow> has_column b t c" for t c using assms(2) by (simp add: file_grows_def)
  note h = take_history[of "root_history (dk_db a)" "root_history (dk_db b)" "root_history db"]
  show ?thesis using assms(1,3) grow h unfolding rows_kept_def Let_def by presburger
qed

lemma root_kept_trans:
  assumes "root_kept a (dk_db b)" "file_grows a b" "root_kept b db"
  shows "root_kept a db"
  using assms by (auto simp: root_kept_def file_grows_def Let_def)

lemma step_keeps_refl [simp]: "step_keeps d d" by (simp add: step_keeps_def file_grows_def)

lemma step_keeps_trans: "step_keeps a b \<Longrightarrow> step_keeps b c \<Longrightarrow> step_keeps a c"
  by (auto simp: step_keeps_def file_grows_def intro: rows_kept_trans[unfolded file_grows_def])

text \<open>A column default replaces the values of the column that is new, and nothing else.\<close>

lemma ensure_column_keeps:
  assumes "ensure_column t c dflt d = Ok d'" "\<not> has_column d t c \<Longrightarrow> rows_kept d (dflt (dk_db d))"
  shows "step_keeps d d'"
proof (cases "has_column d t c")
  case True
  then have "d' = d" using assms(1) by (auto simp: ensure_column_def has_column_def)
  then show ?thesis by simp
next
  case False
  then obtain cols where "d' = d\<lparr>dk_columns := (dk_columns d)(t \<mapsto> cols @ [c]), dk_db := dflt (dk_db d)\<rparr>" "dk_columns d t = Some cols"
    using assms(1) by (auto simp: ensure_column_def has_column_def no_such_table_def split: option.splits)
  then show ?thesis using assms(2)[OF False] by (auto simp: step_keeps_def file_grows_def has_column_def)
qed

lemma column_defaults:
  "\<not> has_column d ''cards'' ''root_sequence_at'' \<Longrightarrow> rows_kept d ((dk_db d)\<lparr>cards_table := seq_zero (cards_table (dk_db d))\<rparr>)"
  "rows_kept d ((dk_db d)\<lparr>cards_table := bucket_zero (cards_table (dk_db d))\<rparr>)"
  "\<not> has_column d ''card_versions'' ''root_sequence_at'' \<Longrightarrow>
     rows_kept d ((dk_db d)\<lparr>card_versions := ver_seq_zero (card_versions (dk_db d))\<rparr>)"
  "\<not> has_column d ''tags'' ''root_sequence_at'' \<Longrightarrow> rows_kept d ((dk_db d)\<lparr>tags_table := seq_zero (tags_table (dk_db d))\<rparr>)"
  "rows_kept d ((dk_db d)\<lparr>tags_table := bucket_zero (tags_table (dk_db d))\<rparr>)"
  "\<not> has_column d ''tag_versions'' ''root_sequence_at'' \<Longrightarrow>
     rows_kept d ((dk_db d)\<lparr>tag_versions := ver_seq_zero (tag_versions (dk_db d))\<rparr>)"
  "\<not> has_column d ''deleted_entities'' ''root_sequence_at'' \<Longrightarrow>
     rows_kept d ((dk_db d)\<lparr>deleted_entities := seq_zero (deleted_entities (dk_db d))\<rparr>)"
  "rows_kept d ((dk_db d)\<lparr>deleted_entities := bucket_zero (deleted_entities (dk_db d))\<rparr>)"
  "\<not> has_column d ''tags'' ''implies'' \<Longrightarrow>
     rows_kept d ((dk_db d)\<lparr>tags_table := map no_implies_entity (tags_table (dk_db d))\<rparr>)"
  "\<not> has_column d ''tag_versions'' ''implies'' \<Longrightarrow>
     rows_kept d ((dk_db d)\<lparr>tag_versions := map no_implies_version (tag_versions (dk_db d))\<rparr>)"
  by (simp_all add: rows_kept_def Let_def bare_tag_def bare_tag_version_def no_implies_entity_def no_implies_version_def comp_def)

lemma create_tables_disk [simp]:
  "dk_db (fold create_table ts d) = dk_db d" "dk_version (fold create_table ts d) = dk_version d"
  "dk_root_row (fold create_table ts d) = dk_root_row d" "dk_buckets (fold create_table ts d) = dk_buckets d"
  by (induction ts arbitrary: d) (simp_all add: create_table_def)

lemma create_tables_columns_kept: "has_column d t c \<Longrightarrow> has_column (fold create_table ts d) t c"
proof (induction ts arbitrary: d)
  case (Cons x ts)
  have "has_column (create_table x d) t c" using Cons.prems by (auto simp: create_table_def has_column_def)
  then show ?case using Cons.IH by simp
qed simp

lemma seed_rows_keep [simp]:
  "step_keeps d (fold create_table ts d)" "step_keeps d (insert_root_row d)" "step_keeps d (insert_bucket_rows d)"
  by (simp_all add: step_keeps_def file_grows_def insert_root_row_def insert_bucket_rows_def create_tables_columns_kept
      rows_kept_def Let_def)

lemma seed_rows_root [simp]:
  "root_kept d (dk_db (fold create_table ts d))" "root_kept d (dk_db (insert_root_row d))"
  "root_kept d (dk_db (insert_bucket_rows d))"
  by (simp_all add: insert_root_row_def insert_bucket_rows_def root_kept_def Let_def)

lemma column_keeps:
  "ensure_column ''cards'' ''root_sequence_at'' (\<lambda>db. db\<lparr>cards_table := seq_zero (cards_table db)\<rparr>) d = Ok d' \<Longrightarrow> step_keeps d d'"
  "ensure_column ''cards'' ''bucket'' (\<lambda>db. db\<lparr>cards_table := bucket_zero (cards_table db)\<rparr>) d = Ok d' \<Longrightarrow> step_keeps d d'"
  "ensure_column ''card_versions'' ''root_sequence_at'' (\<lambda>db. db\<lparr>card_versions := ver_seq_zero (card_versions db)\<rparr>) d = Ok d' \<Longrightarrow> step_keeps d d'"
  "ensure_column ''tags'' ''root_sequence_at'' (\<lambda>db. db\<lparr>tags_table := seq_zero (tags_table db)\<rparr>) d = Ok d' \<Longrightarrow> step_keeps d d'"
  "ensure_column ''tags'' ''bucket'' (\<lambda>db. db\<lparr>tags_table := bucket_zero (tags_table db)\<rparr>) d = Ok d' \<Longrightarrow> step_keeps d d'"
  "ensure_column ''tag_versions'' ''root_sequence_at'' (\<lambda>db. db\<lparr>tag_versions := ver_seq_zero (tag_versions db)\<rparr>) d = Ok d' \<Longrightarrow> step_keeps d d'"
  "ensure_column ''deleted_entities'' ''root_sequence_at'' (\<lambda>db. db\<lparr>deleted_entities := seq_zero (deleted_entities db)\<rparr>) d = Ok d' \<Longrightarrow> step_keeps d d'"
  "ensure_column ''deleted_entities'' ''bucket'' (\<lambda>db. db\<lparr>deleted_entities := bucket_zero (deleted_entities db)\<rparr>) d = Ok d' \<Longrightarrow> step_keeps d d'"
  "ensure_column ''tags'' ''implies'' (\<lambda>db. db\<lparr>tags_table := map no_implies_entity (tags_table db)\<rparr>) d = Ok d' \<Longrightarrow> step_keeps d d'"
  "ensure_column ''tag_versions'' ''implies'' (\<lambda>db. db\<lparr>tag_versions := map no_implies_version (tag_versions db)\<rparr>) d = Ok d' \<Longrightarrow> step_keeps d d'"
  by (rule ensure_column_keeps, assumption, simp add: column_defaults)+

lemma v1_columns_Ok:
  assumes "v1_columns d = Ok d'"
  obtains a b c e f g h where
    "ensure_column ''cards'' ''root_sequence_at'' (\<lambda>db. db\<lparr>cards_table := seq_zero (cards_table db)\<rparr>) d = Ok a"
    "ensure_column ''cards'' ''bucket'' (\<lambda>db. db\<lparr>cards_table := bucket_zero (cards_table db)\<rparr>) a = Ok b"
    "ensure_column ''card_versions'' ''root_sequence_at'' (\<lambda>db. db\<lparr>card_versions := ver_seq_zero (card_versions db)\<rparr>) b = Ok c"
    "ensure_column ''tags'' ''root_sequence_at'' (\<lambda>db. db\<lparr>tags_table := seq_zero (tags_table db)\<rparr>) c = Ok e"
    "ensure_column ''tags'' ''bucket'' (\<lambda>db. db\<lparr>tags_table := bucket_zero (tags_table db)\<rparr>) e = Ok f"
    "ensure_column ''tag_versions'' ''root_sequence_at'' (\<lambda>db. db\<lparr>tag_versions := ver_seq_zero (tag_versions db)\<rparr>) f = Ok g"
    "ensure_column ''deleted_entities'' ''root_sequence_at''
      (\<lambda>db. db\<lparr>deleted_entities := seq_zero (deleted_entities db)\<rparr>) g = Ok h"
    "ensure_column ''deleted_entities'' ''bucket'' (\<lambda>db. db\<lparr>deleted_entities := bucket_zero (deleted_entities db)\<rparr>) h = Ok d'"
  using assms by (auto simp: v1_columns_def bind_outcome_Ok)

lemma v1_columns_keeps:
  assumes "v1_columns d = Ok d'"
  shows "step_keeps d d'"
  using assms
proof (cases rule: v1_columns_Ok)
  case (1 a b c e f g h)
  from column_keeps(1)[OF 1(1)] have "step_keeps d a" .
  with column_keeps(2)[OF 1(2)] have "step_keeps d b" by (blast intro: step_keeps_trans)
  with column_keeps(3)[OF 1(3)] have "step_keeps d c" by (blast intro: step_keeps_trans)
  with column_keeps(4)[OF 1(4)] have "step_keeps d e" by (blast intro: step_keeps_trans)
  with column_keeps(5)[OF 1(5)] have "step_keeps d f" by (blast intro: step_keeps_trans)
  with column_keeps(6)[OF 1(6)] have "step_keeps d g" by (blast intro: step_keeps_trans)
  with column_keeps(7)[OF 1(7)] have "step_keeps d h" by (blast intro: step_keeps_trans)
  with column_keeps(8)[OF 1(8)] show ?thesis by (blast intro: step_keeps_trans)
qed

lemma recomputed_rows:
  assumes "sql_result (recompute_root_from_buckets E now x) = Ok (db, seq)"
  shows "cards_table db = cards_table x" "card_versions db = card_versions x" "tags_table db = tags_table x"
    "tag_versions db = tag_versions x" "deleted_entities db = deleted_entities x"
    "take (length (root_history x)) (root_history db) = root_history x"
  using assms by (auto simp: sql_result_def recompute_root_from_buckets_def Let_def split: if_splits)

lemma migrate_v0_keeps:
  assumes "migrate_v0_to_v1 E now d = Ok d'"
  shows "step_keeps d d'"
proof -
  let ?d0 = "insert_bucket_rows (insert_root_row (fold create_table root_tables d))"
  obtain d1 db seq where cols: "v1_columns ?d0 = Ok d1" and d': "d' = d1\<lparr>dk_db := db\<rparr>"
    and root: "sql_result (recompute_root_from_buckets E now (backfill_buckets (dk_db d1)
        \<lparr>root_buckets := recompute_bucket_hash E (backfill_buckets (dk_db d1))\<rparr>)) = Ok (db, seq)"
    using assms by (auto simp: migrate_v0_to_v1_def bind_outcome_Ok Let_def)
  have k0: "step_keeps d ?d0" by (meson seed_rows_keep step_keeps_trans)
  have k1: "step_keeps ?d0 d1" by (rule v1_columns_keeps[OF cols])
  have k2: "step_keeps d1 d'"
  proof -
    let ?b = "backfill_buckets (dk_db d1)"
    have tables: "cards_table db = cards_table ?b" "card_versions db = card_versions ?b" "tags_table db = tags_table ?b"
      "tag_versions db = tag_versions ?b" "deleted_entities db = deleted_entities ?b"
      "take (length (root_history ?b)) (root_history db) = root_history ?b"
      using recomputed_rows[OF root] by simp_all
    have "rows_kept d1 db"
      unfolding rows_kept_def Let_def tables(1-5) using tables(6)
      by (simp add: backfill_buckets_def backfill_rows_def bare_tag_def comp_def)
    then show ?thesis using d' by (simp add: step_keeps_def file_grows_def)
  qed
  show ?thesis by (rule step_keeps_trans[OF step_keeps_trans[OF k0 k1] k2])
qed

lemma migrate_v2_Ok:
  assumes "migrate_v2_to_v3 d = Ok d'"
  obtains a where "ensure_column ''tags'' ''implies'' (\<lambda>db. db\<lparr>tags_table := map no_implies_entity (tags_table db)\<rparr>) d = Ok a"
    "ensure_column ''tag_versions'' ''implies'' (\<lambda>db. db\<lparr>tag_versions := map no_implies_version (tag_versions db)\<rparr>) a = Ok d'"
  using assms by (auto simp: migrate_v2_to_v3_def bind_outcome_Ok)

lemma migrate_v2_keeps:
  assumes "migrate_v2_to_v3 d = Ok d'"
  shows "step_keeps d d'"
proof -
  obtain a where a: "ensure_column ''tags'' ''implies'' (\<lambda>db. db\<lparr>tags_table := map no_implies_entity (tags_table db)\<rparr>) d = Ok a"
    "ensure_column ''tag_versions'' ''implies'' (\<lambda>db. db\<lparr>tag_versions := map no_implies_version (tag_versions db)\<rparr>) a = Ok d'"
    by (rule migrate_v2_Ok[OF assms])
  show ?thesis by (rule step_keeps_trans[OF column_keeps(9)[OF a(1)] column_keeps(10)[OF a(2)]])
qed

lemma migrate_step_keeps:
  assumes "migrate_one_major_step E now m d = Ok d'"
  shows "step_keeps d d'"
  using assms by (auto simp: migrate_one_major_step_def split: if_splits dest: migrate_v0_keeps migrate_v2_keeps)

lemma migrate_steps_keep: "migrate_steps E now ms d = Ok d' \<Longrightarrow> step_keeps d d'"
  by (induction ms arbitrary: d) (auto simp: bind_outcome_Ok intro: step_keeps_trans dest: migrate_step_keeps)

text \<open>Only the step from version 0 touches the root.\<close>

lemma ensure_implies_root:
  assumes "ensure_column t c f d = Ok d'"
    and "f = (\<lambda>db. db\<lparr>tags_table := map no_implies_entity (tags_table db)\<rparr>) \<or>
      f = (\<lambda>db. db\<lparr>tag_versions := map no_implies_version (tag_versions db)\<rparr>)"
  shows "root_kept d (dk_db d') \<and> dk_root_row d' = dk_root_row d \<and> dk_buckets d' = dk_buckets d"
  using assms
  by (auto simp: ensure_column_def no_such_table_def root_kept_def Let_def no_implies_entity_def comp_def split: option.splits if_splits)

lemma migrate_steps_root:
  "migrate_steps E now ms d = Ok d' \<Longrightarrow> 0 \<notin> set ms \<Longrightarrow> root_kept d (dk_db d')"
proof (induction ms arbitrary: d)
  case Nil
  then show ?case by (simp add: root_kept_def Let_def)
next
  case (Cons m ms)
  then obtain a where a: "migrate_one_major_step E now m d = Ok a" and rest: "root_kept a (dk_db d')"
    by (auto simp: bind_outcome_Ok)
  have "root_kept d (dk_db a)"
  proof (cases "m = 2")
    case True
    then have "migrate_v2_to_v3 d = Ok a" using a by (simp add: migrate_one_major_step_def)
    then obtain b where b: "ensure_column ''tags'' ''implies'' (\<lambda>db. db\<lparr>tags_table := map no_implies_entity (tags_table db)\<rparr>) d = Ok b"
      "ensure_column ''tag_versions'' ''implies'' (\<lambda>db. db\<lparr>tag_versions := map no_implies_version (tag_versions db)\<rparr>) b = Ok a"
      by (rule migrate_v2_Ok)
    have "root_kept d (dk_db b)" "root_kept b (dk_db a)" using ensure_implies_root[OF b(1)] ensure_implies_root[OF b(2)] by simp_all
    moreover have "file_grows d b" using column_keeps(9)[OF b(1)] by (simp add: step_keeps_def)
    ultimately show ?thesis using root_kept_trans by blast
  next
    case False
    then have "a = d" using a Cons.prems(2) by (auto simp: migrate_one_major_step_def split: if_splits)
    then show ?thesis by (simp add: root_kept_def Let_def)
  qed
  moreover have "file_grows d a" using migrate_step_keeps[OF a] by (simp add: step_keeps_def)
  ultimately show ?case using rest root_kept_trans by blast
qed

lemma init_schema_Ok:
  assumes "init_schema d = (Ok u, d')"
  shows "d' = insert_bucket_rows (insert_root_row (fold create_table schema_tables d))"
    "list_all (index_possible (fold create_table schema_tables d)) schema_indexes"
    "distinct (map (\<lambda>r. col_priority (row_cols r)) (cards_table (dk_db d)))"
  using assms by (auto simp: init_schema_def Let_def no_such_column_def split: if_splits)

lemma migrate_Ok:
  assumes "migrate_schema_major_to_major E now stored cur d = (Ok u, d')"
  obtains d1 where "migrate_steps E now [unat (major stored)..<unat (major cur)] d = Ok d1"
    "d' = d1\<lparr>dk_version := Some (stored_triple cur)\<rparr>"
  using assms by (auto simp: migrate_schema_major_to_major_def split: outcome.splits)

text \<open>A file whose schema is older than its first numbered version.\<close>

definition version_0 :: "disk \<Rightarrow> bool" where
  "version_0 d \<longleftrightarrow> map_option (major \<circ> version_of_triple) (dk_version d) = Some 0"

lemma check_version_Ok:
  assumes "check_schema_version E now cur allow d = (Ok u, d')"
  shows "rows_kept d (dk_db d')" "dk_version d' = Some (stored_triple cur)" "file_grows d d'"
    "\<not> version_0 d \<Longrightarrow> root_kept d (dk_db d')"
proof -
  have same: "rows_kept d (dk_db (d\<lparr>dk_version := v\<rparr>)) \<and> file_grows d (d\<lparr>dk_version := v\<rparr>) \<and>
      root_kept d (dk_db (d\<lparr>dk_version := v\<rparr>))" for v
    by (simp add: file_grows_def has_column_def root_kept_def Let_def)
  have "rows_kept d (dk_db d') \<and> dk_version d' = Some (stored_triple cur) \<and> file_grows d d' \<and>
    (\<not> version_0 d \<longrightarrow> root_kept d (dk_db d'))"
  proof (cases "dk_version d")
    case None
    then show ?thesis using assms same by (auto simp: check_schema_version_def)
  next
    case (Some t)
    show ?thesis
    proof (cases "major (version_of_triple t) = major cur")
      case True
      then show ?thesis using assms Some same by (auto simp: check_schema_version_def Let_def)
    next
      case False
      then have "migrate_schema_major_to_major E now (version_of_triple t) cur d = (Ok u, d')"
        using assms Some by (auto simp: check_schema_version_def Let_def split: if_splits)
      then obtain d1 where steps: "migrate_steps E now [unat (major (version_of_triple t))..<unat (major cur)] d = Ok d1"
        and d': "d' = d1\<lparr>dk_version := Some (stored_triple cur)\<rparr>" by (rule migrate_Ok)
      have "root_kept d (dk_db d1)" if "\<not> version_0 d"
      proof (rule migrate_steps_root[OF steps])
        have "unat (major (version_of_triple t)) \<noteq> 0" using that Some by (auto simp: version_0_def unat_eq_0)
        then show "0 \<notin> set [unat (major (version_of_triple t))..<unat (major cur)]" by simp
      qed
      then show ?thesis using migrate_steps_keep[OF steps] d' by (simp add: step_keeps_def file_grows_def has_column_def)
    qed
  qed
  then show "rows_kept d (dk_db d')" "dk_version d' = Some (stored_triple cur)" "file_grows d d'"
    "\<not> version_0 d \<Longrightarrow> root_kept d (dk_db d')" by simp_all
qed

lemma open_storage_Ok:
  assumes "open_storage E now cur vars allow d = (Ok db, d')"
  obtains ps d1 where "apply_pragmas vars = Ok ps"
    "check_schema_version E now cur allow (ensure_schema_version_table d) = (Ok (), d1)"
    "init_schema d1 = (Ok (), d')" "db = dk_db d'"
proof -
  obtain r d1 where check: "check_schema_version E now cur allow (ensure_schema_version_table d) = (r, d1)" by fastforce
  obtain q d2 where init: "init_schema d1 = (q, d2)" by fastforce
  obtain ps where ps: "apply_pragmas vars = Ok ps" using assms by (cases "apply_pragmas vars") (simp_all add: open_storage_def)
  have r: "r = Ok ()" using assms check ps by (cases r) (simp_all add: open_storage_def)
  have "map_ok (\<lambda>_. dk_db d2) q = Ok db" "d2 = d'" using assms check ps r init by (auto simp: open_storage_def)
  then show thesis using that[OF ps] check init r by (cases q) simp_all
qed

lemma rows_kept_columns:
  "dk_db d = dk_db d0 \<Longrightarrow> (\<And>t c. has_column d0 t c \<Longrightarrow> has_column d t c) \<Longrightarrow> rows_kept d db \<Longrightarrow> rows_kept d0 db"
  by (auto simp: rows_kept_def Let_def)

lemma upgrade_of_open:
  assumes "open_storage E now cur vars allow d = (Ok db, d')"
  shows "rows_kept d db" "dk_db d' = db" "dk_version d' = Some (stored_triple cur)" "\<not> version_0 d \<Longrightarrow> root_kept d db"
proof -
  let ?d = "ensure_schema_version_table d"
  obtain ps d1 where check: "check_schema_version E now cur allow ?d = (Ok (), d1)"
    and init: "init_schema d1 = (Ok (), d')" and db: "db = dk_db d'"
    by (rule open_storage_Ok[OF assms])
  let ?t = "fold create_table schema_tables d1"
  note d' = init_schema_Ok(1)[OF init]
  have seeded: "step_keeps d1 d'" unfolding d' by (meson seed_rows_keep step_keeps_trans)
  have root: "root_kept d1 (dk_db d')"
  proof -
    have "file_grows d1 ?t" "file_grows ?t (insert_root_row ?t)"
      using seed_rows_keep(1)[of d1 schema_tables] seed_rows_keep(2)[of ?t] by (simp_all add: step_keeps_def)
    then show ?thesis unfolding d' by (meson seed_rows_root root_kept_trans)
  qed
  have same: "dk_db ?d = dk_db d" "has_column d t c \<Longrightarrow> has_column ?d t c" "version_0 ?d = version_0 d"
    "dk_root_row ?d = dk_root_row d" "dk_buckets ?d = dk_buckets d" for t c
    by (auto simp: ensure_schema_version_table_def has_column_def version_0_def)
  note checked = check_version_Ok[OF check]
  have "rows_kept ?d db" using rows_kept_trans[OF checked(1,3)] seeded db by (simp add: step_keeps_def)
  then show "rows_kept d db" using rows_kept_columns[of ?d d db] same(1,2) by blast
  show "dk_db d' = db" by (simp add: db)
  show "dk_version d' = Some (stored_triple cur)" using seeded checked(2) by (simp add: step_keeps_def)
  assume "\<not> version_0 d"
  then have "root_kept ?d db" using root_kept_trans[OF checked(4,3) root] db same(3) by simp
  then show "root_kept d db" by (simp add: root_kept_def Let_def same(1,4,5))
qed

text \<open>C35: When a file opens, whatever schema it had, every row of every table is there, in its order, with the value of
  every column that the file had: implications that were stored stay, sequences that were stored stay, and
  the history of the root starts with the one that was stored. From version 1 on the same holds of the
  buckets of the rows, the hashes of the buckets and the root with its sequence, and the history is the
  one that was stored; a file of version 0 has these computed anew. The file then carries the version of
  the program that opened it.\<close>

theorem upgrade_keeps_every_row:
  assumes "open_storage E now cur vars allow d = (Ok db, d')"
  shows "rows_kept d db \<and> (\<not> version_0 d \<longrightarrow> root_kept d db) \<and> dk_db d' = db \<and> dk_version d' = Some (stored_triple cur)"
  using upgrade_of_open[OF assms] by simp

definition protocol_3_1_1 :: version where
  "protocol_3_1_1 = \<lparr>major = 3, minor = 1, patch = 1\<rparr>"

text \<open>A file of version 2, with the tags of a table that has no column for implications yet.\<close>

definition demo_v2_file :: disk where
  "demo_v2_file =
     \<lparr>dk_db = demo_db,
      dk_columns = (map_of schema_tables)(''tags'' \<mapsto> [''id'', ''title'', ''root_sequence_at'', ''bucket''],
        ''tag_versions'' \<mapsto> [''tag_id'', ''count'', ''root_sequence_at'']),
      dk_version = Some (2, 4, 0), dk_root_row = True, dk_buckets = UNIV\<rparr>"

lemma pragmas_default: "\<exists>ps. apply_pragmas (\<lambda>_. None) = Ok ps"
  by (simp add: apply_pragmas_def pragma_sources_def env_or_def pragma_char_def Let_def)

lemma protocol_3_1_1_simps [simp]: "major protocol_3_1_1 = 3" "stored_triple protocol_3_1_1 = (3, 1, 1)"
  by (simp_all add: protocol_3_1_1_def stored_triple_def)


section \<open>Opening a file again\<close>

lemma create_tables_id:
  "(\<And>t. t \<in> set ts \<Longrightarrow> dk_columns d (fst t) \<noteq> None) \<Longrightarrow> fold create_table ts d = d"
proof (induction ts)
  case (Cons t ts)
  have "dk_columns d (fst t) \<noteq> None" by (rule Cons.prems) simp
  then have "create_table t d = d" by (simp only: create_table_def if_False)
  moreover have "fold create_table ts d = d" by (rule Cons.IH) (simp add: Cons.prems)
  ultimately show ?case by simp
qed simp

lemma create_tables_columns:
  "dk_columns (fold create_table ts d) t \<noteq> None \<longleftrightarrow> dk_columns d t \<noteq> None \<or> t \<in> fst ` set ts"
  by (induction ts arbitrary: d) (auto simp: create_table_def)

lemma version_of_stored [simp]: "version_of_triple (stored_triple v) = v"
  by (cases v) (simp add: version_of_triple_def stored_triple_def)

text \<open>A file that a start of this program left behind, in which its columns are complete.\<close>

definition schema_complete :: "disk \<Rightarrow> bool" where
  "schema_complete d \<longleftrightarrow>
     list_all (\<lambda>t. dk_columns d (fst t) \<noteq> None) schema_tables \<and> list_all (index_possible d) schema_indexes \<and>
     dk_root_row d \<and> dk_buckets d = UNIV"

lemma opened_complete:
  assumes "open_storage E now cur vars allow d = (Ok db, d')"
  shows "schema_complete d'" "dk_version d' = Some (stored_triple cur)"
proof -
  obtain d1 where init: "init_schema d1 = (Ok (), d')" by (rule open_storage_Ok[OF assms])
  let ?t = "fold create_table schema_tables d1"
  have d': "d' = insert_bucket_rows (insert_root_row ?t)" by (rule init_schema_Ok(1)[OF init])
  have cols: "dk_columns d' = dk_columns ?t" by (simp add: d' insert_bucket_rows_def insert_root_row_def)
  have tables: "list_all (\<lambda>t. dk_columns d' (fst t) \<noteq> None) schema_tables"
    unfolding cols create_tables_columns by (simp add: list_all_iff)
  have "index_possible d' ix = index_possible ?t ix" for ix by (simp add: index_possible_def cols)
  then have "list_all (index_possible d') schema_indexes" using init_schema_Ok(2)[OF init] by (simp add: list_all_iff)
  moreover have "dk_root_row d'" "dk_buckets d' = UNIV"
    by (simp_all add: d' insert_bucket_rows_def insert_root_row_def)
  ultimately show "schema_complete d'" using tables by (simp add: schema_complete_def)
  show "dk_version d' = Some (stored_triple cur)" using upgrade_of_open(3)[OF assms] .
qed

lemma init_complete:
  assumes "schema_complete d" "distinct (map (\<lambda>r. col_priority (row_cols r)) (cards_table (dk_db d)))"
  shows "init_schema d = (Ok (), d)"
proof -
  have create: "fold create_table schema_tables d = d"
    using assms(1) by (intro create_tables_id) (auto simp: schema_complete_def list_all_iff)
  have "insert_bucket_rows (insert_root_row d) = d"
    using assms(1) by (cases d) (simp add: schema_complete_def insert_bucket_rows_def insert_root_row_def)
  then show ?thesis using assms by (simp add: init_schema_def create schema_complete_def)
qed

lemma demo_priorities: "distinct (map (\<lambda>r. col_priority (row_cols r)) (cards_table demo_db))"
  using reachable_inv[OF demo_reachable] by (simp add: storage_inv_def tables_ok_def cards_ok_def)

lemma demo_v2_opens:
  "\<exists>db d'. open_storage demo_ext 0 protocol_3_1_1 (\<lambda>_. None) True demo_v2_file = (Ok db, d')"
proof -
  obtain ps where ps: "apply_pragmas (\<lambda>_. None) = Ok ps" using pragmas_default by blast
  define d1 where "d1 = demo_v2_file\<lparr>dk_columns := (map_of schema_tables)(
      ''tags'' \<mapsto> [''id'', ''title'', ''root_sequence_at'', ''bucket'', ''implies''],
      ''tag_versions'' \<mapsto> [''tag_id'', ''count'', ''root_sequence_at'', ''implies'']),
    dk_db := demo_db\<lparr>tags_table := map no_implies_entity (tags_table demo_db),
      tag_versions := map no_implies_version (tag_versions demo_db)\<rparr>, dk_version := Some (3, 1, 1)\<rparr>"
  have "ensure_schema_version_table demo_v2_file = demo_v2_file"
    by (simp add: ensure_schema_version_table_def demo_v2_file_def schema_tables_def)
  moreover have "migrate_v2_to_v3 demo_v2_file = Ok (d1\<lparr>dk_version := Some (2, 4, 0)\<rparr>)"
    by (simp add: migrate_v2_to_v3_def ensure_column_def demo_v2_file_def d1_def fun_upd_twist)
  moreover have "major (version_of_triple (2, 4, 0)) = 2" by (simp add: version_of_triple_def)
  moreover have "[2..<3] = [2 :: nat]" by (simp add: upt_rec)
  ultimately have "check_schema_version demo_ext 0 protocol_3_1_1 True (ensure_schema_version_table demo_v2_file) = (Ok (), d1)"
    by (simp add: check_schema_version_def migrate_schema_major_to_major_def migrate_one_major_step_def demo_v2_file_def
        d1_def)
  moreover have "schema_complete d1"
    by (simp add: schema_complete_def d1_def demo_v2_file_def index_possible_def schema_tables_def schema_indexes_def)
  then have "init_schema d1 = (Ok (), d1)" using demo_priorities by (intro init_complete) (simp_all add: d1_def)
  ultimately show ?thesis using ps by (simp add: open_storage_def)
qed

theorem upgrade_keeps_every_row_witness:
  "\<exists>db d'. open_storage demo_ext 0 protocol_3_1_1 (\<lambda>_. None) True demo_v2_file = (Ok db, d') \<and>
    map row_cols (cards_table db) = map row_cols (cards_table demo_db) \<and> root_history db = root_history demo_db \<and>
    db_sequence db = 1 \<and> dk_version d' = Some (3, 1, 1)"
proof -
  obtain db d' where run: "open_storage demo_ext 0 protocol_3_1_1 (\<lambda>_. None) True demo_v2_file = (Ok db, d')"
    using demo_v2_opens by blast
  have "\<not> version_0 demo_v2_file" by (simp add: version_0_def demo_v2_file_def version_of_triple_def)
  with upgrade_keeps_every_row[OF run] run show ?thesis
    by (auto simp: rows_kept_def root_kept_def Let_def demo_v2_file_def demo_entry)
qed

text \<open>C34: Once a file has been opened, whatever the program then stores in it comes back unchanged at the next
  start, with any program of the same major version, with or without the permission to upgrade; only
  the version in the file is brought up to date.\<close>

theorem reopening_keeps_database:
  assumes "open_storage E now cur vars allow d = (Ok db, d1)"
    and "distinct (map (\<lambda>r. col_priority (row_cols r)) (cards_table db'))"
    and "major cur' = major cur" "apply_pragmas vars' = Ok ps"
  shows "open_storage E now' cur' vars' allow' (d1\<lparr>dk_db := db'\<rparr>) =
    (Ok db', d1\<lparr>dk_db := db', dk_version := Some (stored_triple cur')\<rparr>)"
proof -
  note complete = opened_complete[OF assms(1)]
  let ?d = "d1\<lparr>dk_db := db', dk_version := Some (stored_triple cur')\<rparr>"
  have "dk_columns d1 ''schema_version'' \<noteq> None"
    using complete(1) by (simp add: schema_complete_def schema_tables_def)
  then have "ensure_schema_version_table (d1\<lparr>dk_db := db'\<rparr>) = d1\<lparr>dk_db := db'\<rparr>"
    by (auto simp: ensure_schema_version_table_def)
  then have check: "check_schema_version E now' cur' allow' (ensure_schema_version_table (d1\<lparr>dk_db := db'\<rparr>)) = (Ok (), ?d)"
    using complete(2) assms(3) by (simp add: check_schema_version_def)
  have "schema_complete ?d"
    using complete(1) by (simp add: schema_complete_def index_possible_def list_all_iff)
  then have "init_schema ?d = (Ok (), ?d)" using assms(2) by (intro init_complete) simp_all
  then show ?thesis using check assms(4) by (simp add: open_storage_def)
qed

lemma new_file_opens:
  assumes "apply_pragmas vars = Ok ps"
  shows "\<exists>d. open_storage E now cur vars allow new_file = (Ok empty_db, d)"
proof -
  let ?d1 = "(ensure_schema_version_table new_file)\<lparr>dk_version := Some (stored_triple cur)\<rparr>"
  have db: "dk_db ?d1 = empty_db" "dk_root_row ?d1 = False" "dk_buckets ?d1 = {}"
    by (simp_all add: new_file_def ensure_schema_version_table_def)
  have check: "check_schema_version E now cur allow (ensure_schema_version_table new_file) = (Ok (), ?d1)"
    by (simp add: check_schema_version_def new_file_def ensure_schema_version_table_def)
  have cols: "dk_columns ?d1 = [''schema_version'' \<mapsto> [''id'', ''major'', ''minor'', ''patch'']]"
    by (simp add: new_file_def ensure_schema_version_table_def)
  have "list_all (index_possible (fold create_table schema_tables ?d1)) schema_indexes"
    by (simp add: schema_tables_def schema_indexes_def index_possible_def create_table_def cols)
  then have "init_schema ?d1 = (Ok (), insert_bucket_rows (insert_root_row (fold create_table schema_tables ?d1)))"
    using db by (simp add: init_schema_def empty_db_def)
  moreover have "dk_db (insert_bucket_rows (insert_root_row (fold create_table schema_tables ?d1))) = empty_db"
    using db by (simp add: insert_bucket_rows_def insert_root_row_def empty_db_def)
  ultimately show ?thesis using check assms by (simp add: open_storage_def)
qed

theorem reopening_keeps_database_witness:
  "\<exists>d. open_storage demo_ext 0 protocol_3_1_1 (\<lambda>_. None) False new_file = (Ok empty_db, d) \<and>
    fst (open_storage demo_ext 9 \<lparr>major = 3, minor = 2, patch = 0\<rparr> (\<lambda>_. None) True (d\<lparr>dk_db := demo_db\<rparr>)) = Ok demo_db"
proof -
  obtain ps where ps: "apply_pragmas (\<lambda>_. None) = Ok ps" using pragmas_default by blast
  obtain d where run: "open_storage demo_ext 0 protocol_3_1_1 (\<lambda>_. None) False new_file = (Ok empty_db, d)"
    using new_file_opens[OF ps] by blast
  from reopening_keeps_database[OF run demo_priorities _ ps, where cur' = "\<lparr>major = 3, minor = 2, patch = 0\<rparr>" and now' = 9 and allow' = True] run
  show ?thesis by simp
qed

section \<open>Refusals\<close>

text \<open>Without the permission to upgrade, from a newer file, or when a step of the upgrade fails, the file is left
  as it was, with its version, so that the program that wrote it still opens it.\<close>

theorem refused_open_changes_nothing:
  assumes "dk_version d = Some t" "dk_columns d ''schema_version'' \<noteq> None" "apply_pragmas vars = Ok ps"
    and "major (version_of_triple t) \<noteq> major cur"
    and "\<not> allow \<or> major (version_of_triple t) > major cur \<or>
      migrate_steps E now [unat (major (version_of_triple t))..<unat (major cur)] d = Err e"
  shows "\<exists>e'. open_storage E now cur vars allow d = (Err e', d) \<and>
    (\<not> allow \<or> major (version_of_triple t) > major cur \<longrightarrow> e' = IncompatibleVersion (version_of_triple t) cur)"
proof -
  have "ensure_schema_version_table d = d" using assms(2) by (auto simp: ensure_schema_version_table_def)
  then show ?thesis
    using assms by (auto simp: open_storage_def check_schema_version_def Let_def migrate_schema_major_to_major_def)
qed

text \<open>From version 3 on no step is known, so that a later program has to bring one.\<close>

theorem no_step_from_version_3:
  "m \<ge> 3 \<Longrightarrow> migrate_one_major_step E now m d =
     Err (MigrationNotImplemented (version_of_major m) (version_of_major (m + 1)))"
  by (simp add: migrate_one_major_step_def)

section \<open>What the first upgrade forgets\<close>

text \<open>A file of version 0: no root tables, and no sequence or bucket in any row.\<close>

definition v0_file :: "disk \<Rightarrow> bool" where
  "v0_file d \<longleftrightarrow>
     map_option (major \<circ> version_of_triple) (dk_version d) = Some 0 \<and> \<not> dk_root_row d \<and> root_history (dk_db d) = [] \<and>
     list_all (\<lambda>t. dk_columns d t \<noteq> None \<and>
         ''root_sequence_at'' \<notin> set (the (dk_columns d t)) \<and> ''bucket'' \<notin> set (the (dk_columns d t)))
       [''cards'', ''card_versions'', ''tags'', ''tag_versions'', ''deleted_entities'']"

definition v1_rows :: "db \<Rightarrow> db" where
  "v1_rows db =
     db\<lparr>cards_table := bucket_zero (seq_zero (cards_table db)), card_versions := ver_seq_zero (card_versions db),
        tags_table := bucket_zero (seq_zero (tags_table db)), tag_versions := ver_seq_zero (tag_versions db),
        deleted_entities := bucket_zero (seq_zero (deleted_entities db))\<rparr>"

lemma ensure_missing:
  assumes "dk_columns d t = Some cols" "c \<notin> set cols"
  shows "ensure_column t c f d = Ok (d\<lparr>dk_columns := (dk_columns d)(t \<mapsto> cols @ [c]), dk_db := f (dk_db d)\<rparr>)"
  using assms by (simp add: ensure_column_def)

lemma v1_columns_missing:
  assumes "dk_columns d ''cards'' = Some c1" "dk_columns d ''card_versions'' = Some c2" "dk_columns d ''tags'' = Some c3"
    "dk_columns d ''tag_versions'' = Some c4" "dk_columns d ''deleted_entities'' = Some c5"
    "''root_sequence_at'' \<notin> set c1 \<union> set c2 \<union> set c3 \<union> set c4 \<union> set c5" "''bucket'' \<notin> set c1 \<union> set c3 \<union> set c5"
    "v1_columns d = Ok d'"
  shows "dk_db d' = v1_rows (dk_db d)" "dk_root_row d' = dk_root_row d" "dk_buckets d' = dk_buckets d"
  using assms by (auto simp: v1_columns_def ensure_missing v1_rows_def)

text \<open>What then holds of the rows, whatever follows.\<close>

definition unstamped :: "disk \<Rightarrow> bool" where
  "unstamped d \<longleftrightarrow>
     (\<forall>r\<in>set (cards_table (dk_db d)). row_seq r = 0) \<and> (\<forall>r\<in>set (tags_table (dk_db d)). row_seq r = 0) \<and>
     (\<forall>r\<in>set (deleted_entities (dk_db d)). row_seq r = 0) \<and> db_sequence (dk_db d) = 1 \<and>
     map hist_sequence (root_history (dk_db d)) = [1] \<and> dk_root_row d"

lemma v0_columns:
  assumes "v0_file d"
  obtains c1 c2 c3 c4 c5 where
    "dk_columns d ''cards'' = Some c1" "dk_columns d ''card_versions'' = Some c2" "dk_columns d ''tags'' = Some c3"
    "dk_columns d ''tag_versions'' = Some c4" "dk_columns d ''deleted_entities'' = Some c5"
    "''root_sequence_at'' \<notin> set c1 \<union> set c2 \<union> set c3 \<union> set c4 \<union> set c5" "''bucket'' \<notin> set c1 \<union> set c3 \<union> set c5"
  using assms by (auto simp: v0_file_def)

lemma create_table_other: "t \<notin> fst ` set ts \<Longrightarrow> dk_columns (fold create_table ts d) t = dk_columns d t"
  by (induction ts arbitrary: d) (auto simp: create_table_def)

lemma migrate_v0_unstamped:
  assumes "v0_file d" "migrate_v0_to_v1 E now d = Ok d'"
  shows "unstamped d'"
proof -
  let ?d0 = "insert_bucket_rows (insert_root_row (fold create_table root_tables d))"
  obtain d1 db seq where cols: "v1_columns ?d0 = Ok d1" and d': "d' = d1\<lparr>dk_db := db\<rparr>"
    and root: "sql_result (recompute_root_from_buckets E now (backfill_buckets (dk_db d1)
        \<lparr>root_buckets := recompute_bucket_hash E (backfill_buckets (dk_db d1))\<rparr>)) = Ok (db, seq)"
    using assms(2) by (auto simp: migrate_v0_to_v1_def bind_outcome_Ok Let_def)
  obtain c1 c2 c3 c4 c5 where c: "dk_columns d ''cards'' = Some c1" "dk_columns d ''card_versions'' = Some c2"
      "dk_columns d ''tags'' = Some c3" "dk_columns d ''tag_versions'' = Some c4" "dk_columns d ''deleted_entities'' = Some c5"
    and no: "''root_sequence_at'' \<notin> set c1 \<union> set c2 \<union> set c3 \<union> set c4 \<union> set c5" "''bucket'' \<notin> set c1 \<union> set c3 \<union> set c5"
    by (rule v0_columns[OF assms(1)])
  have same: "dk_columns ?d0 t = dk_columns d t" if "t \<notin> fst ` set root_tables" for t
    using create_table_other[OF that] by (simp add: insert_bucket_rows_def insert_root_row_def)
  have k: "dk_columns ?d0 ''cards'' = Some c1" "dk_columns ?d0 ''card_versions'' = Some c2"
      "dk_columns ?d0 ''tags'' = Some c3" "dk_columns ?d0 ''tag_versions'' = Some c4" "dk_columns ?d0 ''deleted_entities'' = Some c5"
    by (subst same; simp add: root_tables_def c)+
  have d1: "dk_db d1 = v1_rows (dk_db ?d0)" "dk_root_row d1 = dk_root_row ?d0"
    by (rule v1_columns_missing[OF k no cols])+
  have "\<not> dk_root_row d" "root_history (dk_db d) = []" using assms(1) by (simp_all add: v0_file_def)
  then have "db_sequence (dk_db ?d0) = 0" "root_history (dk_db ?d0) = []" "dk_root_row ?d0"
    by (simp_all add: insert_bucket_rows_def insert_root_row_def)
  then show ?thesis
    using root d1 d'
    by (auto simp: unstamped_def sql_result_def recompute_root_from_buckets_def Let_def v1_rows_def backfill_buckets_def
        backfill_rows_def split: if_splits)
qed

lemma ensure_implies_unstamped:
  assumes "ensure_column t c f d = Ok d'" "unstamped d"
    and "f = (\<lambda>db. db\<lparr>tags_table := map no_implies_entity (tags_table db)\<rparr>) \<or>
      f = (\<lambda>db. db\<lparr>tag_versions := map no_implies_version (tag_versions db)\<rparr>)"
  shows "unstamped d'"
  using assms
  by (auto simp: ensure_column_def no_such_table_def unstamped_def no_implies_entity_def split: option.splits if_splits)

lemma migrate_v2_unstamped:
  assumes "migrate_v2_to_v3 d = Ok d'" "unstamped d"
  shows "unstamped d'"
  using assms by (auto simp: migrate_v2_to_v3_def bind_outcome_Ok dest!: ensure_implies_unstamped)

lemma init_schema_unstamped:
  assumes "init_schema d = (Ok u, d')" "unstamped d"
  shows "unstamped d'"
  using assms(2) unfolding init_schema_Ok(1)[OF assms(1)]
  by (simp add: unstamped_def insert_bucket_rows_def insert_root_row_def)

lemma v0_ensure_version: "v0_file d \<Longrightarrow> v0_file (ensure_schema_version_table d)"
  by (simp add: v0_file_def ensure_schema_version_table_def)

text \<open>C36: A file of version 0 is upgraded with the sequence 0 in every row, and the changes since any sequence are
  the rows with a larger one. So after the upgrade the server lists its cards but answers every
  client that synchronises, from the start or from a later root, with no card, no tag and no deletion,
  together with a root whose hash covers them all: the clients stay empty and take themselves for
  synchronised.\<close>

theorem migrated_cards_never_sync:
  assumes "v0_file d" "major cur = 3" "open_storage E now cur vars allow d = (Ok db, d')"
  shows "storage_get_changes_since E db (NonNegativeI64 0) claimed =
      Ok \<lparr>cs_cards = [], cs_tags = [], cs_deleted = [],
          cs_root = \<lparr>root_hash = db_root_hash db, root_sequence = NonNegativeI64 1\<rparr>\<rparr> \<and>
    map row_cols (cards_table db) = map row_cols (cards_table (dk_db d))"
proof -
  obtain ps d1 where check: "check_schema_version E now cur allow (ensure_schema_version_table d) = (Ok (), d1)"
    and init: "init_schema d1 = (Ok (), d')" and db: "db = dk_db d'"
    by (rule open_storage_Ok[OF assms(3)])
  let ?d = "ensure_schema_version_table d"
  obtain t where t: "dk_version ?d = Some t" "major (version_of_triple t) = 0"
    using v0_ensure_version[OF assms(1)] by (auto simp: v0_file_def)
  have "migrate_schema_major_to_major E now (version_of_triple t) cur ?d = (Ok (), d1)"
    using check t assms(2) by (auto simp: check_schema_version_def Let_def split: if_splits)
  then obtain d2 where "migrate_steps E now [unat (major (version_of_triple t))..<unat (major cur)] ?d = Ok d2"
    and d1: "d1 = d2\<lparr>dk_version := Some (stored_triple cur)\<rparr>" by (rule migrate_Ok)
  moreover have "[unat (major (version_of_triple t))..<unat (major cur)] = [0, 1, 2]"
    by (simp add: t(2) assms(2) upt_rec)
  ultimately obtain v1 where v1: "migrate_v0_to_v1 E now ?d = Ok v1" and v3: "migrate_v2_to_v3 v1 = Ok d2"
    by (auto simp: migrate_one_major_step_def bind_outcome_Ok)
  have "unstamped d2" by (rule migrate_v2_unstamped[OF v3 migrate_v0_unstamped[OF v0_ensure_version[OF assms(1)] v1]])
  then have "unstamped d1" by (simp add: d1 unstamped_def)
  then have u: "unstamped d'" by (rule init_schema_unstamped[OF init])
  have none: "stored_root_hash db 0 = None"
    using u by (auto simp: stored_root_hash_def unstamped_def db find_None_iff map_eq_Cons_conv)
  have empty: "filter (\<lambda>r. 0 < row_seq r) (cards_table db) = []" "filter (\<lambda>r. 0 < row_seq r) (tags_table db) = []"
    "filter (\<lambda>r. 0 < row_seq r) (deleted_entities db) = []"
    using u by (auto simp: unstamped_def db filter_empty_conv)
  have root: "read_root_state db = Ok \<lparr>root_hash = db_root_hash db, root_sequence = NonNegativeI64 1\<rparr>"
    using u by (simp add: unstamped_def db read_root_state_def sql_result_def read_count_def nn_try_from_i64_def)
  show ?thesis
    using upgrade_of_open(1)[OF assms(3)]
    by (simp add: storage_get_changes_since_def Let_def none empty root i64_from_nn_def sql_result_def rows_kept_def Let_def)
qed

text \<open>The columns of a file of version 0.\<close>

definition v0_tables :: "(string \<times> string list) list" where
  "v0_tables =
     [(''cards'', [''id'', ''content'', ''priority'', ''tags'', ''blazed'', ''created_at'', ''modified_at'', ''due_date'',
        ''count'', ''ancestor_hash'', ''hash'']),
      (''card_versions'', [''card_id'', ''count'', ''content'', ''priority'', ''tags'', ''blazed'', ''created_at'',
        ''modified_at'', ''due_date'', ''ancestor_hash'', ''hash'']),
      (''tags'', [''id'', ''title'', ''color'', ''created_at'', ''modified_at'', ''count'', ''ancestor_hash'', ''hash'']),
      (''tag_versions'', [''tag_id'', ''count'', ''title'', ''color'', ''created_at'', ''modified_at'', ''ancestor_hash'',
        ''hash'']),
      (''deleted_entities'', [''id'', ''hash'']),
      (''schema_version'', [''id'', ''major'', ''minor'', ''patch''])]"

definition demo_v0_file :: disk where
  "demo_v0_file =
     \<lparr>dk_db = demo_db\<lparr>db_root_hash := 0, db_sequence := 0, root_history := [], root_buckets := (\<lambda>_. 0)\<rparr>,
      dk_columns = map_of v0_tables, dk_version = Some (0, 9, 9), dk_root_row = False, dk_buckets = {}\<rparr>"

lemma demo_v0: "v0_file demo_v0_file"
  by (simp add: v0_file_def demo_v0_file_def v0_tables_def version_of_triple_def)

lemma v1_columns_run:
  assumes "dk_columns d ''cards'' = Some c1" "dk_columns d ''card_versions'' = Some c2" "dk_columns d ''tags'' = Some c3"
    "dk_columns d ''tag_versions'' = Some c4" "dk_columns d ''deleted_entities'' = Some c5"
    "''root_sequence_at'' \<notin> set c1 \<union> set c2 \<union> set c3 \<union> set c4 \<union> set c5" "''bucket'' \<notin> set c1 \<union> set c3 \<union> set c5"
  shows "v1_columns d = Ok (d\<lparr>dk_columns := (dk_columns d)
     (''cards'' \<mapsto> c1 @ [''root_sequence_at'', ''bucket''], ''card_versions'' \<mapsto> c2 @ [''root_sequence_at''],
      ''tags'' \<mapsto> c3 @ [''root_sequence_at'', ''bucket''], ''tag_versions'' \<mapsto> c4 @ [''root_sequence_at''],
      ''deleted_entities'' \<mapsto> c5 @ [''root_sequence_at'', ''bucket'']), dk_db := v1_rows (dk_db d)\<rparr>)"
  using assms by (simp add: v1_columns_def ensure_missing v1_rows_def)

lemma v0_migrates:
  assumes "v0_file d" "\<And>t. dk_columns d t = map_of v0_tables t"
  obtains d2 where "migrate_steps E now [0, 1, 2] d = Ok d2"
    "list_all (index_possible d2) schema_indexes"
proof -
  let ?d0 = "insert_bucket_rows (insert_root_row (fold create_table root_tables d))"
  obtain c1 c2 c3 c4 c5 where c: "dk_columns d ''cards'' = Some c1" "dk_columns d ''card_versions'' = Some c2"
      "dk_columns d ''tags'' = Some c3" "dk_columns d ''tag_versions'' = Some c4" "dk_columns d ''deleted_entities'' = Some c5"
    and no: "''root_sequence_at'' \<notin> set c1 \<union> set c2 \<union> set c3 \<union> set c4 \<union> set c5" "''bucket'' \<notin> set c1 \<union> set c3 \<union> set c5"
    by (rule v0_columns[OF assms(1)])
  have same: "dk_columns ?d0 t = dk_columns d t" if "t \<notin> fst ` set root_tables" for t
    using create_table_other[OF that] by (simp add: insert_bucket_rows_def insert_root_row_def)
  have k: "dk_columns ?d0 ''cards'' = Some c1" "dk_columns ?d0 ''card_versions'' = Some c2"
      "dk_columns ?d0 ''tags'' = Some c3" "dk_columns ?d0 ''tag_versions'' = Some c4" "dk_columns ?d0 ''deleted_entities'' = Some c5"
    by (subst same; simp add: root_tables_def c)+
  define d1 where "d1 = ?d0\<lparr>dk_columns := (dk_columns ?d0)
     (''cards'' \<mapsto> c1 @ [''root_sequence_at'', ''bucket''], ''card_versions'' \<mapsto> c2 @ [''root_sequence_at''],
      ''tags'' \<mapsto> c3 @ [''root_sequence_at'', ''bucket''], ''tag_versions'' \<mapsto> c4 @ [''root_sequence_at''],
      ''deleted_entities'' \<mapsto> c5 @ [''root_sequence_at'', ''bucket'']), dk_db := v1_rows (dk_db ?d0)\<rparr>"
  have v1: "v1_columns ?d0 = Ok d1" unfolding d1_def by (rule v1_columns_run[OF k no])
  have "\<not> dk_root_row d" "root_history (dk_db d) = []" using assms(1) by (simp_all add: v0_file_def)
  then have "db_sequence (dk_db d1) = 0" "root_history (dk_db d1) = []"
    by (simp_all add: d1_def v1_rows_def insert_bucket_rows_def insert_root_row_def)
  then have "\<exists>db. migrate_v0_to_v1 E now d = Ok (d1\<lparr>dk_db := db\<rparr>)"
    by (simp add: migrate_v0_to_v1_def v1 Let_def sql_result_def recompute_root_from_buckets_def backfill_buckets_def i64_max_def)
      (rule exI, rule refl)
  then obtain db where v0: "migrate_v0_to_v1 E now d = Ok (d1\<lparr>dk_db := db\<rparr>)" by blast
  have tags: "dk_columns (d1\<lparr>dk_db := db\<rparr>) ''tags'' = Some (c3 @ [''root_sequence_at'', ''bucket''])"
    "dk_columns (d1\<lparr>dk_db := db\<rparr>) ''tag_versions'' = Some (c4 @ [''root_sequence_at''])"
    by (simp_all add: d1_def)
  have ids: "''priority'' \<in> set c1" "''id'' \<in> set c1" "''id'' \<in> set c3" "''id'' \<in> set c5" "''implies'' \<notin> set c3" "''implies'' \<notin> set c4"
    using c assms(2) by (auto simp: v0_tables_def)
  then obtain d2 where v2: "migrate_v2_to_v3 (d1\<lparr>dk_db := db\<rparr>) = Ok d2"
    and cols2: "dk_columns d2 = (dk_columns d1)(''tags'' \<mapsto> c3 @ [''root_sequence_at'', ''bucket'', ''implies''],
       ''tag_versions'' \<mapsto> c4 @ [''root_sequence_at'', ''implies''])"
    using tags by (simp add: migrate_v2_to_v3_def ensure_column_def)
  have "migrate_steps E now [0, 1, 2] d = Ok d2" using v0 v2 by (simp add: migrate_one_major_step_def)
  moreover have "list_all (index_possible d2) schema_indexes"
    by (simp add: schema_indexes_def index_possible_def cols2 d1_def ids)
  ultimately show thesis by (rule that)
qed

lemma create_table_keeps: "dk_columns d t = Some cs \<Longrightarrow> dk_columns (fold create_table ts d) t = Some cs"
proof (induction ts arbitrary: d)
  case (Cons x ts)
  have "dk_columns (create_table x d) t = Some cs" using Cons.prems by (cases "fst x = t") (auto simp: create_table_def)
  then show ?case using Cons.IH by simp
qed simp

lemma index_possible_kept: "index_possible d ix \<Longrightarrow> index_possible (fold create_table ts d) ix"
  by (auto simp: index_possible_def create_table_keeps split: option.splits)

text \<open>A file of version 0 without implications opens, unless two of its cards have one priority.\<close>

lemma v0_opens:
  assumes "v0_file d" "\<And>t. dk_columns d t = map_of v0_tables t" "apply_pragmas vars = Ok ps" "major cur = 3"
    and "distinct (map (\<lambda>r. col_priority (row_cols r)) (cards_table (dk_db d)))"
  shows "\<exists>db d'. open_storage E now cur vars True d = (Ok db, d')"
proof -
  obtain d2 where steps: "migrate_steps E now [0, 1, 2] d = Ok d2"
    and cols: "list_all (index_possible d2) schema_indexes"
    by (rule v0_migrates[OF assms(1,2), of E now])
  let ?d3 = "d2\<lparr>dk_version := Some (stored_triple cur)\<rparr>"
  have ens: "ensure_schema_version_table d = d" using assms(2) by (simp add: ensure_schema_version_table_def v0_tables_def)
  obtain t where t: "dk_version d = Some t" "major (version_of_triple t) = 0" using assms(1) by (auto simp: v0_file_def)
  have "[unat (major (version_of_triple t))..<unat (major cur)] = [0, 1, 2]" by (simp add: t(2) assms(4) upt_rec)
  then have "migrate_schema_major_to_major E now (version_of_triple t) cur d = (Ok (), ?d3)"
    using steps by (simp add: migrate_schema_major_to_major_def)
  then have check: "check_schema_version E now cur True (ensure_schema_version_table d) = (Ok (), ?d3)"
    using t assms(4) by (simp add: check_schema_version_def ens)
  have "rows_kept d (dk_db ?d3)" using check_version_Ok(1)[OF check] ens by simp
  then have "map col_priority (map row_cols (cards_table (dk_db ?d3))) = map col_priority (map row_cols (cards_table (dk_db d)))"
    by (simp add: rows_kept_def Let_def)
  then have dist: "distinct (map (\<lambda>r. col_priority (row_cols r)) (cards_table (dk_db ?d3)))"
    using assms(5) by (simp add: comp_def)
  have ix: "index_possible ?d3 ix" if "ix \<in> set schema_indexes" for ix
    using that cols by (simp add: list_all_iff index_possible_def)
  have "list_all (index_possible (fold create_table schema_tables ?d3)) schema_indexes"
    using index_possible_kept[OF ix] by (simp add: list_all_iff)
  then have "\<exists>d4. init_schema ?d3 = (Ok (), d4)" using dist by (simp add: init_schema_def)
  then show ?thesis using check assms(3) by (auto simp: open_storage_def)
qed

theorem migrated_cards_never_sync_witness:
  "\<exists>db d'. open_storage demo_ext 0 protocol_3_1_1 (\<lambda>_. None) True demo_v0_file = (Ok db, d') \<and>
    map (map_ok cs_cards) [storage_get_changes_since demo_ext db (NonNegativeI64 0) ZERO_HASH] = [Ok []] \<and>
    map row_cols (cards_table db) = map row_cols (cards_table demo_db)"
proof -
  obtain ps where ps: "apply_pragmas (\<lambda>_. None) = Ok ps" using pragmas_default by blast
  have cols: "dk_columns demo_v0_file t = map_of v0_tables t" for t by (simp add: demo_v0_file_def)
  have dist: "distinct (map (\<lambda>r. col_priority (row_cols r)) (cards_table (dk_db demo_v0_file)))"
    using demo_priorities by (simp add: demo_v0_file_def)
  obtain db d' where run: "open_storage demo_ext 0 protocol_3_1_1 (\<lambda>_. None) True demo_v0_file = (Ok db, d')"
    using v0_opens[OF demo_v0 cols ps protocol_3_1_1_simps(1) dist] by blast
  from migrated_cards_never_sync[OF demo_v0 protocol_3_1_1_simps(1) run, of ZERO_HASH] run show ?thesis
    by (simp add: demo_v0_file_def)
qed

end
