(* ===== verification/Server_Loop.thy ===== *)
theory Server_Loop
  imports Demo
begin

text \<open>
  The two server loops (server/src/quic/server.rs, server/src/webtransport/server.rs) as one system: the
  connections with their handshakes, a task for every stream, the storage and the channel on which the
  tasks broadcast roots (server/src/main.rs). The tasks run in parallel, so that every use of what they share
  is a step and the steps of all tasks interleave in any order. A stream that subscribes has a receiver of its own with the messages it
  has not taken yet; the channel keeps 64, and a receiver that falls behind goes on with the oldest kept.
\<close>

section \<open>State\<close>

datatype via = Quic | WebTransport

datatype conn_phase = Connecting | Handshaking | Serving | ConnectionOver

text \<open>What a task does next: read the request; read the root after a successful mutation; send that root;
  create the receiver, with \<open>Ok\<close> already written; forward what the receiver holds.\<close>

datatype task =
    ReadRequest
  | ReadRoot
  | SendRoot root_state
  | CreateReceiver
  | Forward "root_state list"
  | TaskOver

text \<open>\<open>sm_base\<close> and \<open>sm_lagged\<close> are history, which no step reads: the root when the receiver was created, and
  whether it ever lost a message.\<close>

record stream =
  sm_conn :: nat
  sm_task :: task
  sm_written :: "response list"
  sm_base :: "root_state option"
  sm_lagged :: bool

record server =
  sv_db :: db
  sv_conns :: "nat \<rightharpoonup> via \<times> conn_phase"
  sv_streams :: "nat \<rightharpoonup> stream"

definition BROADCAST_CAPACITY :: nat where "BROADCAST_CAPACITY = 64"

definition HANDSHAKE_TIMEOUT_SECS :: nat where "HANDSHAKE_TIMEOUT_SECS = 5"

definition started :: "db \<Rightarrow> server" where
  "started db = \<lparr>sv_db = db, sv_conns = (\<lambda>_. None), sv_streams = (\<lambda>_. None)\<rparr>"

section \<open>Connections\<close>

definition conn_step ::
  "nat \<Rightarrow> (via \<Rightarrow> conn_phase \<Rightarrow> conn_phase option) \<Rightarrow> server \<Rightarrow> server option" where
  "conn_step cid f s =
     (case sv_conns s cid of
        None \<Rightarrow> None
      | Some (v, p) \<Rightarrow> map_option (\<lambda>p'. s\<lparr>sv_conns := (sv_conns s)(cid \<mapsto> (v, p'))\<rparr>) (f v p))"

definition incoming :: "nat \<Rightarrow> via \<Rightarrow> server \<Rightarrow> server option" where
  "incoming cid v s =
     (if sv_conns s cid = None then Some (s\<lparr>sv_conns := (sv_conns s)(cid \<mapsto> (v, Connecting))\<rparr>) else None)"

definition established :: "nat \<Rightarrow> bool \<Rightarrow> server \<Rightarrow> server option" where
  "established cid succeeded =
     conn_step cid (\<lambda>v p. if p = Connecting then Some (if succeeded then Handshaking else ConnectionOver) else None)"

text \<open>The result is that of \<open>server_handshake\<close> on the first stream, or the failure to accept one. Only the QUIC
  loop bounds it by \<open>HANDSHAKE_TIMEOUT\<close>.\<close>

definition handshake_ends :: "nat \<Rightarrow> (HandshakeError, unit) outcome \<Rightarrow> server \<Rightarrow> server option" where
  "handshake_ends cid r =
     conn_step cid (\<lambda>v p. if p = Handshaking then Some (if r = Ok () then Serving else ConnectionOver) else None)"

definition handshake_timeout :: "nat \<Rightarrow> nat \<Rightarrow> server \<Rightarrow> server option" where
  "handshake_timeout cid secs =
     conn_step cid (\<lambda>v p. if p = Handshaking \<and> v = Quic \<and> secs \<ge> HANDSHAKE_TIMEOUT_SECS then Some ConnectionOver else None)"

text \<open>The loop over the streams of a connection ends with the connection; the tasks it spawned do not.\<close>

definition connection_lost :: "nat \<Rightarrow> server \<Rightarrow> server option" where
  "connection_lost cid = conn_step cid (\<lambda>v p. if p = Serving then Some ConnectionOver else None)"

definition stream_accepted :: "nat \<Rightarrow> nat \<Rightarrow> server \<Rightarrow> server option" where
  "stream_accepted cid sid s =
     (case sv_conns s cid of
        Some (_, Serving) \<Rightarrow>
          if sv_streams s sid = None
          then Some (s\<lparr>sv_streams := (sv_streams s)(sid \<mapsto>
                 \<lparr>sm_conn = cid, sm_task = ReadRequest, sm_written = [], sm_base = None, sm_lagged = False\<rparr>)\<rparr>)
          else None
      | _ \<Rightarrow> None)"

section \<open>Streams\<close>

definition put_stream :: "nat \<Rightarrow> stream \<Rightarrow> server \<Rightarrow> server" where
  "put_stream sid str s = s\<lparr>sv_streams := (sv_streams s)(sid \<mapsto> str)\<rparr>"

definition task_ends :: "stream \<Rightarrow> stream" where
  "task_ends str = str\<lparr>sm_task := TaskOver\<rparr>"

text \<open>A response that is written, or not if the client is gone.\<close>

definition wrote :: "bool \<Rightarrow> response \<Rightarrow> stream \<Rightarrow> stream" where
  "wrote writable r str = (if writable then str\<lparr>sm_written := sm_written str @ [r]\<rparr> else str)"

definition stream_via :: "server \<Rightarrow> stream \<Rightarrow> via" where
  "stream_via s str = (case sv_conns s (sm_conn str) of Some (v, _) \<Rightarrow> v | None \<Rightarrow> Quic)"

text \<open>Reading the request, handling it and writing the response, which goes to a stream of its own and is no step
  of its own.\<close>

definition request_read ::
  "ext \<Rightarrow> int \<Rightarrow> nat \<Rightarrow> (WireError, request) outcome \<Rightarrow> bool \<Rightarrow> server \<Rightarrow> server option" where
  "request_read E now sid received writable s =
     (case sv_streams s sid of
        None \<Rightarrow> None
      | Some str \<Rightarrow>
          if sm_task str \<noteq> ReadRequest then None
          else Some (case received of
              Ok request \<Rightarrow>
                if is_streaming request then
                  put_stream sid (if writable then (wrote True RespOk str)\<lparr>sm_task := CreateReceiver\<rparr> else task_ends str) s
                else (case handle_request E now (sv_db s) request of
                    (Ok response, db') \<Rightarrow>
                      put_stream sid
                        (let str = wrote writable response str in
                         if is_mutation request \<and> \<not> is_error response then str\<lparr>sm_task := ReadRoot\<rparr> else task_ends str)
                        (s\<lparr>sv_db := db'\<rparr>)
                  | (_, db') \<Rightarrow> put_stream sid (task_ends str) (s\<lparr>sv_db := db'\<rparr>))
            | Err Deserialize \<Rightarrow>
                put_stream sid
                  (task_ends (if stream_via s str = Quic then wrote writable (RespError UnsupportedRequest) str else str)) s
            | _ \<Rightarrow> put_stream sid (task_ends str) s))"

definition root_read :: "nat \<Rightarrow> server \<Rightarrow> server option" where
  "root_read sid s =
     (case sv_streams s sid of
        None \<Rightarrow> None
      | Some str \<Rightarrow>
          if sm_task str \<noteq> ReadRoot then None
          else Some (put_stream sid
            (case storage_get_root (sv_db s) of Ok root \<Rightarrow> str\<lparr>sm_task := SendRoot root\<rparr> | _ \<Rightarrow> task_ends str) s))"

text \<open>A message on the channel, for one receiver.\<close>

definition receive :: "root_state \<Rightarrow> stream \<Rightarrow> stream" where
  "receive root str =
     (case sm_task str of
        Forward buf \<Rightarrow>
          let buf = buf @ [root] in
          if length buf > BROADCAST_CAPACITY then str\<lparr>sm_task := Forward (tl buf), sm_lagged := True\<rparr>
          else str\<lparr>sm_task := Forward buf\<rparr>
      | _ \<Rightarrow> str)"

definition root_sent :: "nat \<Rightarrow> server \<Rightarrow> server option" where
  "root_sent sid s =
     (case sv_streams s sid of
        None \<Rightarrow> None
      | Some str \<Rightarrow>
          (case sm_task str of
             SendRoot root \<Rightarrow>
               Some (put_stream sid (task_ends str) (s\<lparr>sv_streams := (\<lambda>i. map_option (receive root) (sv_streams s i))\<rparr>))
           | _ \<Rightarrow> None))"

definition receiver_created :: "nat \<Rightarrow> server \<Rightarrow> server option" where
  "receiver_created sid s =
     (case sv_streams s sid of
        None \<Rightarrow> None
      | Some str \<Rightarrow>
          if sm_task str \<noteq> CreateReceiver then None
          else Some (put_stream sid (str\<lparr>sm_task := Forward [],
            sm_base := (case storage_get_root (sv_db s) of Ok root \<Rightarrow> Some root | _ \<Rightarrow> None)\<rparr>) s))"

definition forwarded :: "nat \<Rightarrow> bool \<Rightarrow> server \<Rightarrow> server option" where
  "forwarded sid writable s =
     (case sv_streams s sid of
        None \<Rightarrow> None
      | Some str \<Rightarrow>
          (case sm_task str of
             Forward (root # buf) \<Rightarrow>
               Some (put_stream sid
                 (if writable then (wrote True (RespNotification root) str)\<lparr>sm_task := Forward buf\<rparr> else task_ends str) s)
           | _ \<Rightarrow> None))"

section \<open>The system\<close>

datatype server_event =
    Incoming nat via
  | Established nat bool
  | HandshakeEnds nat "(HandshakeError, unit) outcome"
  | HandshakeTimeout nat nat
  | ConnectionLostEv nat
  | StreamAccepted nat nat
  | RequestRead nat int "(WireError, request) outcome" bool
  | RootRead nat
  | RootSent nat
  | ReceiverCreated nat
  | Forwarded nat bool

fun server_step :: "ext \<Rightarrow> server_event \<Rightarrow> server \<Rightarrow> server option" where
  "server_step E (Incoming cid v) s = incoming cid v s"
| "server_step E (Established cid succeeded) s = established cid succeeded s"
| "server_step E (HandshakeEnds cid r) s = handshake_ends cid r s"
| "server_step E (HandshakeTimeout cid secs) s = handshake_timeout cid secs s"
| "server_step E (ConnectionLostEv cid) s = connection_lost cid s"
| "server_step E (StreamAccepted cid sid) s = stream_accepted cid sid s"
| "server_step E (RequestRead sid now received writable) s = request_read E now sid received writable s"
| "server_step E (RootRead sid) s = root_read sid s"
| "server_step E (RootSent sid) s = root_sent sid s"
| "server_step E (ReceiverCreated sid) s = receiver_created sid s"
| "server_step E (Forwarded sid writable) s = forwarded sid writable s"

fun server_steps :: "ext \<Rightarrow> server_event list \<Rightarrow> server \<Rightarrow> server option" where
  "server_steps E [] s = Some s"
| "server_steps E (e # es) s = Option.bind (server_step E e s) (server_steps E es)"

fun event_ok :: "ext \<Rightarrow> uuid set \<Rightarrow> server_event \<Rightarrow> bool" where
  "event_ok E K (RequestRead _ _ (Ok req) _) = request_ok E K req"
| "event_ok E K _ = True"

text \<open>The states of a server that was started on a reachable database and whose clients send values that fit
  their types.\<close>

inductive serving :: "ext \<Rightarrow> uuid set \<Rightarrow> server \<Rightarrow> bool" for E K where
  serving_start: "reachable E K db \<Longrightarrow> serving E K (started db)"
| serving_step: "serving E K s \<Longrightarrow> event_ok E K e \<Longrightarrow> server_step E e s = Some s' \<Longrightarrow> serving E K s'"

lemma server_steps_append:
  "server_steps E (xs @ ys) s = Option.bind (server_steps E xs s) (server_steps E ys)"
  by (induction xs arbitrary: s) (auto split: bind_splits)

lemma serving_steps:
  assumes "serving E K s" "list_all (event_ok E K) es" "server_steps E es s = Some s'"
  shows "serving E K s'"
  using assms
  by (induction es arbitrary: s) (auto simp: bind_eq_Some_conv intro: serving_step)

section \<open>What a subscriber has been told\<close>

definition told :: "root_state \<Rightarrow> stream \<Rightarrow> bool" where
  "told root str \<longleftrightarrow>
     RespNotification root \<in> set (sm_written str) \<or> (\<exists>buf. sm_task str = Forward buf \<and> root \<in> set buf)"

text \<open>Some task is about to read the root, or to send the present one.\<close>

definition announced :: "server \<Rightarrow> bool" where
  "announced s \<longleftrightarrow>
     (\<exists>sid str. sv_streams s sid = Some str \<and>
        (sm_task str = ReadRoot \<or> sm_task str = SendRoot (current_root (sv_db s))))"

definition up_to_date :: "root_state \<Rightarrow> stream \<Rightarrow> bool" where
  "up_to_date root str \<longleftrightarrow>
     (\<forall>buf. sm_task str \<noteq> Forward buf) \<or> sm_lagged str \<or> sm_base str = Some root \<or> told root str"

definition informed :: "server \<Rightarrow> bool" where
  "informed s \<longleftrightarrow>
     announced s \<or> (\<forall>sid str. sv_streams s sid = Some str \<longrightarrow> up_to_date (current_root (sv_db s)) str)"

lemma informed_conns: "sv_db s' = sv_db s \<Longrightarrow> sv_streams s' = sv_streams s \<Longrightarrow> informed s' = informed s"
  by (simp add: informed_def announced_def)

lemma conn_step_keeps: "conn_step cid f s = Some s' \<Longrightarrow> sv_db s' = sv_db s \<and> sv_streams s' = sv_streams s"
  by (auto simp: conn_step_def split: option.splits)

lemma informed_put:
  assumes "informed s" "up_to_date (current_root (sv_db s)) str'" "sv_streams s sid = Some str \<or> sv_streams s sid = None"
    and "sv_streams s sid = Some str \<Longrightarrow> sm_task str \<noteq> ReadRoot \<and> sm_task str \<noteq> SendRoot (current_root (sv_db s))"
  shows "informed (put_stream sid str' s)"
proof (cases "announced s")
  case True
  then obtain i st where "sv_streams s i = Some st" "sm_task st = ReadRoot \<or> sm_task st = SendRoot (current_root (sv_db s))"
    by (auto simp: announced_def)
  moreover have "i \<noteq> sid" using calculation assms(3,4) by auto
  ultimately have "announced (put_stream sid str' s)"
    unfolding announced_def put_stream_def by (intro exI[of _ i] exI[of _ st]) simp
  then show ?thesis by (simp add: informed_def)
next
  case False
  then show ?thesis using assms(1,2) by (auto simp: informed_def put_stream_def)
qed

lemma announced_put:
  "sm_task str' = ReadRoot \<or> sm_task str' = SendRoot (current_root (sv_db s)) \<Longrightarrow> informed (put_stream sid str' s)"
  by (auto simp: informed_def announced_def put_stream_def)

lemma not_forward: "(\<And>buf. sm_task str \<noteq> Forward buf) \<Longrightarrow> up_to_date root str"
  by (simp add: up_to_date_def)

lemma task_ends_up_to_date [simp]: "up_to_date root (task_ends str)"
  by (simp add: up_to_date_def task_ends_def)

lemma wrote_simps [simp]:
  "sm_task (wrote w r str) = sm_task str" "sm_base (wrote w r str) = sm_base str" "sm_lagged (wrote w r str) = sm_lagged str"
  by (simp_all add: wrote_def)

lemma receive_told:
  assumes "up_to_date root str"
  shows "up_to_date root (receive r str)"
  using assms
  by (auto simp: up_to_date_def receive_def told_def Let_def split: task.splits)

lemma receive_current: "up_to_date root (receive root str)"
  by (auto simp: up_to_date_def receive_def told_def Let_def BROADCAST_CAPACITY_def split: task.splits)

lemma receive_task: "sm_task (receive r str) = ReadRoot \<longleftrightarrow> sm_task str = ReadRoot"
  "sm_task (receive r str) = SendRoot x \<longleftrightarrow> sm_task str = SendRoot x"
  by (auto simp: receive_def Let_def split: task.splits)

text \<open>A request that changed the database was a mutation that succeeded.\<close>

lemma changed_mutation:
  assumes "storage_inv E K db" "request_ok E K req" "handle_request E now db req = (result, db')" "db' \<noteq> db"
  shows "is_mutation req \<and> (\<exists>resp. result = Ok resp \<and> \<not> is_error resp)"
proof -
  have inv': "storage_inv E K db'" using handle_request_inv[OF assms(1-3)] by simp
  show ?thesis
    using assms(3)
  proof (cases rule: handle_request_cases)
    case kept
    then show ?thesis using assms(4) by simp
  next
    case committed
    then show ?thesis by (auto simp: respond_root_def get_root_result[OF inv'])
  qed
qed

lemma request_read_informed:
  assumes "informed s" "storage_inv E K (sv_db s)" "event_ok E K (RequestRead sid now received writable)"
    and "request_read E now sid received writable s = Some s'"
  shows "informed s'"
proof -
  obtain str where str: "sv_streams s sid = Some str" "sm_task str = ReadRequest"
    using assms(4) by (auto simp: request_read_def split: option.splits if_splits)
  have put: "informed (put_stream sid str' s)" if "\<And>buf. sm_task str' \<noteq> Forward buf" for str'
    using informed_put[OF assms(1) not_forward] that str by auto
  show ?thesis
  proof (cases received)
    case (Ok req)
    show ?thesis
    proof (cases "is_streaming req")
      case True
      then show ?thesis using assms(4) str Ok by (auto simp: request_read_def task_ends_def split: if_splits intro!: put)
    next
      case False
      obtain result db' where run: "handle_request E now (sv_db s) req = (result, db')" by fastforce
      show ?thesis
      proof (cases "db' = sv_db s")
        case True
        then show ?thesis
          using assms(4) str Ok False run
          by (auto simp: request_read_def Let_def task_ends_def split: outcome.splits if_splits intro!: put)
      next
        case False
        then obtain resp where "is_mutation req" "result = Ok resp" "\<not> is_error resp"
          using changed_mutation[OF assms(2) _ run] assms(3) Ok by auto
        then show ?thesis
          using assms(4) str Ok \<open>\<not> is_streaming req\<close> run by (auto simp: request_read_def Let_def intro!: announced_put)
      qed
    qed
  next
    case (Err e)
    then show ?thesis using assms(4) str by (cases e) (auto simp: request_read_def task_ends_def intro!: put)
  next
    case Panic
    then show ?thesis using assms(4) str by (auto simp: request_read_def task_ends_def intro!: put)
  qed
qed

lemma root_sent_informed:
  assumes "informed s" "root_sent sid s = Some s'"
  shows "informed s'"
proof -
  obtain str root where str: "sv_streams s sid = Some str" "sm_task str = SendRoot root"
    using assms(2) by (auto simp: root_sent_def split: option.splits task.splits)
  let ?r = "s\<lparr>sv_streams := (\<lambda>i. map_option (receive root) (sv_streams s i))\<rparr>"
  have s': "s' = put_stream sid (task_ends str) ?r" using assms(2) str by (simp add: root_sent_def)
  show ?thesis
  proof (cases "root = current_root (sv_db s)")
    case True
    have "up_to_date root st'" if "sv_streams s' i = Some st'" for i st'
      using that receive_current by (auto simp: s' put_stream_def split: if_splits)
    then show ?thesis using True by (auto simp: informed_def s' put_stream_def)
  next
    case False
    have "informed ?r"
      using assms(1) receive_told by (fastforce simp: informed_def announced_def receive_task)
    moreover have "sv_streams ?r sid = Some (receive root str)" "sm_task (receive root str) = SendRoot root"
      using str by (simp_all add: receive_task)
    ultimately show ?thesis unfolding s' using False by (intro informed_put[of ?r _ sid "receive root str"]) simp_all
  qed
qed

lemma forwarded_informed:
  assumes "informed s" "forwarded sid writable s = Some s'"
  shows "informed s'"
proof -
  obtain str root buf where str: "sv_streams s sid = Some str" "sm_task str = Forward (root # buf)"
    using assms(2) by (auto simp: forwarded_def split: option.splits task.splits list.splits)
  let ?new = "if writable then (wrote True (RespNotification root) str)\<lparr>sm_task := Forward buf\<rparr> else task_ends str"
  have s': "s' = put_stream sid ?new s" using assms(2) str by (simp add: forwarded_def)
  show ?thesis
  proof (cases "announced s")
    case True
    then obtain i st where "sv_streams s i = Some st" "sm_task st = ReadRoot \<or> sm_task st = SendRoot (current_root (sv_db s))"
      by (auto simp: announced_def)
    moreover have "i \<noteq> sid" using calculation str by auto
    ultimately have "announced s'" unfolding announced_def s' put_stream_def by (intro exI[of _ i] exI[of _ st]) simp
    then show ?thesis by (simp add: informed_def)
  next
    case False
    then have "up_to_date (current_root (sv_db s)) str" using assms(1) str(1) by (simp add: informed_def)
    then have "up_to_date (current_root (sv_db s)) ?new"
      using str(2) by (auto simp: up_to_date_def told_def wrote_def task_ends_def)
    then show ?thesis unfolding s' using str assms(1) by (intro informed_put[of s _ sid str]) simp_all
  qed
qed

lemma step_informed:
  assumes "informed s" "storage_inv E K (sv_db s)" "event_ok E K e" "server_step E e s = Some s'"
  shows "informed s' \<and> storage_inv E K (sv_db s')"
proof (cases e)
  case (RequestRead sid now received writable)
  have "storage_inv E K (sv_db s')"
    using assms(2-4) RequestRead handle_request_inv[OF assms(2)]
    by (auto simp: request_read_def put_stream_def Let_def split: option.splits if_splits outcome.splits prod.splits
        WireError.splits)
  then show ?thesis using request_read_informed[OF assms(1,2)] assms(3,4) RequestRead by simp
next
  case (RootSent sid)
  then show ?thesis
    using assms root_sent_informed[OF assms(1)]
    by (auto simp: root_sent_def put_stream_def split: option.splits task.splits)
next
  case (Forwarded sid writable)
  then show ?thesis
    using assms forwarded_informed[OF assms(1)]
    by (auto simp: forwarded_def put_stream_def split: option.splits task.splits list.splits)
next
  case (RootRead sid)
  then show ?thesis
    using assms get_root_result[OF assms(2)]
    by (auto simp: root_read_def split: option.splits if_splits intro!: announced_put) (auto simp: put_stream_def)
next
  case (ReceiverCreated sid)
  then obtain str where str: "sv_streams s sid = Some str" "sm_task str = CreateReceiver"
    and s': "s' = put_stream sid (str\<lparr>sm_task := Forward [], sm_base := Some (current_root (sv_db s))\<rparr>) s"
    using assms(4) get_root_result[OF assms(2)]
    by (auto simp: receiver_created_def split: option.splits if_splits)
  have "informed s'" unfolding s' using str by (intro informed_put[of s _ sid str] assms(1)) (simp_all add: up_to_date_def)
  then show ?thesis using assms(2) by (simp add: s' put_stream_def)
next
  case (StreamAccepted cid sid)
  then obtain str where none: "sv_streams s sid = None" and s': "s' = put_stream sid str s" and "sm_task str = ReadRequest"
    using assms(4) by (auto simp: stream_accepted_def put_stream_def split: option.splits prod.splits conn_phase.splits if_splits)
  then have "informed s'" unfolding s' by (intro informed_put[of s _ sid str] assms(1)) (simp_all add: up_to_date_def)
  then show ?thesis using assms(2) by (simp add: s' put_stream_def)
next
  case (Incoming cid v)
  then show ?thesis using assms informed_conns[of s' s] by (auto simp: incoming_def split: if_splits)
next
  case (Established cid b)
  then show ?thesis using assms informed_conns[of s' s] conn_step_keeps[of cid _ s s'] by (simp add: established_def)
next
  case (HandshakeEnds cid r)
  then show ?thesis using assms informed_conns[of s' s] conn_step_keeps[of cid _ s s'] by (simp add: handshake_ends_def)
next
  case (HandshakeTimeout cid secs)
  then show ?thesis using assms informed_conns[of s' s] conn_step_keeps[of cid _ s s'] by (simp add: handshake_timeout_def)
next
  case (ConnectionLostEv cid)
  then show ?thesis using assms informed_conns[of s' s] conn_step_keeps[of cid _ s s'] by (simp add: connection_lost_def)
qed

lemma serving_informed:
  assumes "serving E K s"
  shows "informed s \<and> storage_inv E K (sv_db s)"
  using assms
proof (induction rule: serving.induct)
  case (serving_start db)
  then show ?case by (simp add: started_def informed_def reachable_inv)
next
  case (serving_step s e s')
  then show ?case using step_informed by blast
qed

text \<open>C17: Whatever the interleaving of connections, requests and broadcasts: once every task has sent the root of its
  mutation, a subscriber that has forwarded all it received and never lost a message has told its client
  the present root, unless the root is still the one from when its receiver was created.\<close>

theorem drained_subscriber_knows_root:
  assumes "serving E K s" "sv_streams s sid = Some str" "sm_task str = Forward []" "\<not> sm_lagged str"
    and "\<And>i t. sv_streams s i = Some t \<Longrightarrow> sm_task t \<noteq> ReadRoot \<and> (\<forall>r. sm_task t \<noteq> SendRoot r)"
  shows "RespNotification (current_root (sv_db s)) \<in> set (sm_written str) \<or> sm_base str = Some (current_root (sv_db s))"
proof -
  have "\<not> announced s" using assms(5) by (auto simp: announced_def)
  then have "up_to_date (current_root (sv_db s)) str"
    using serving_informed[OF assms(1)] assms(2) by (simp add: informed_def)
  then show ?thesis using assms(3,4) by (auto simp: up_to_date_def told_def)
qed

definition demo_setup :: "server_event list" where
  "demo_setup =
     [Incoming 0 Quic, Established 0 True, HandshakeEnds 0 (Ok ()), StreamAccepted 0 1, RequestRead 1 0 (Ok Subscribe) True,
      StreamAccepted 0 2]"

definition demo_change :: "server_event list" where
  "demo_change = [RequestRead 2 0 (Ok (PushCardVersions [demo_card])) True, RootRead 2, RootSent 2]"

lemma demo_handled:
  "handle_request demo_ext 0 empty_db (PushCardVersions [demo_card]) = (Ok (RespRoot (current_root demo_db)), demo_db)"
  using demo_pushed by (simp add: respond_root_def get_root_result[OF reachable_inv[OF demo_reachable]])

lemma demo_roots: "storage_get_root demo_db = Ok (current_root demo_db)" "storage_get_root empty_db = Ok (current_root empty_db)"
  "current_root demo_db \<noteq> current_root empty_db"
  using get_root_result[OF reachable_inv[OF demo_reachable]] get_root_result[OF storage_inv_empty]
  by (auto simp: current_root_def demo_entry empty_db_def)

lemma demo_events_ok: "list_all (event_ok demo_ext {1}) demo_setup" "list_all (event_ok demo_ext {1}) demo_change"
  using demo_push_ok by (simp_all add: demo_setup_def demo_change_def request_ok_def)

definition demo_stream :: "task \<Rightarrow> response list \<Rightarrow> root_state option \<Rightarrow> stream" where
  "demo_stream t w b = \<lparr>sm_conn = 0, sm_task = t, sm_written = w, sm_base = b, sm_lagged = False\<rparr>"

definition demo_server :: "db \<Rightarrow> stream \<Rightarrow> stream \<Rightarrow> server" where
  "demo_server db a b = \<lparr>sv_db = db, sv_conns = [0 \<mapsto> (Quic, Serving)], sv_streams = [1 \<mapsto> a, 2 \<mapsto> b]\<rparr>"

lemmas demo_step_defs = incoming_def established_def handshake_ends_def conn_step_def stream_accepted_def request_read_def
  root_read_def root_sent_def receiver_created_def forwarded_def put_stream_def wrote_def task_ends_def receive_def
  stream_via_def Let_def demo_stream_def demo_server_def

lemma demo_setup_run:
  "server_steps demo_ext demo_setup (started empty_db) =
     Some (demo_server empty_db (demo_stream CreateReceiver [RespOk] None) (demo_stream ReadRequest [] None))"
  by (simp add: demo_setup_def started_def demo_step_defs fun_upd_def) (auto simp: fun_eq_iff)

lemma demo_serving: "serving demo_ext {1} (demo_server empty_db (demo_stream CreateReceiver [RespOk] None) (demo_stream ReadRequest [] None))"
  by (rule serving_steps[OF serving_start[OF reachable_init] demo_events_ok(1) demo_setup_run])

lemma demo_told_run:
  "server_steps demo_ext ([ReceiverCreated 1] @ demo_change @ [Forwarded 1 True])
     (demo_server empty_db (demo_stream CreateReceiver [RespOk] None) (demo_stream ReadRequest [] None)) =
   Some (demo_server demo_db
     (demo_stream (Forward []) [RespOk, RespNotification (current_root demo_db)] (Some (current_root empty_db)))
     (demo_stream TaskOver [RespRoot (current_root demo_db)] None))"
  by (simp add: demo_change_def demo_step_defs demo_handled demo_roots BROADCAST_CAPACITY_def fun_upd_def
      del: handle_request.simps) (auto simp: fun_eq_iff)

theorem drained_subscriber_knows_root_witness:
  "\<exists>s str. server_steps demo_ext (demo_setup @ [ReceiverCreated 1] @ demo_change @ [Forwarded 1 True]) (started empty_db) = Some s \<and>
    sv_db s = demo_db \<and> sv_streams s 1 = Some str \<and> RespNotification (current_root demo_db) \<in> set (sm_written str)"
proof -
  let ?s = "demo_server demo_db
     (demo_stream (Forward []) [RespOk, RespNotification (current_root demo_db)] (Some (current_root empty_db)))
     (demo_stream TaskOver [RespRoot (current_root demo_db)] None)"
  let ?str = "demo_stream (Forward []) [RespOk, RespNotification (current_root demo_db)] (Some (current_root empty_db))"
  have ok: "list_all (event_ok demo_ext {1}) ([ReceiverCreated 1] @ demo_change @ [Forwarded 1 True])"
    using demo_events_ok(2) by simp
  have serving: "serving demo_ext {1} ?s" by (rule serving_steps[OF demo_serving ok demo_told_run])
  have run: "server_steps demo_ext (demo_setup @ [ReceiverCreated 1] @ demo_change @ [Forwarded 1 True]) (started empty_db) = Some ?s"
    using demo_setup_run demo_told_run by (simp add: server_steps_append)
  have str: "sv_streams ?s 1 = Some ?str" "sm_task ?str = Forward []" "\<not> sm_lagged ?str"
    by (simp_all add: demo_server_def demo_stream_def)
  have quiet: "sm_task t \<noteq> ReadRoot \<and> (\<forall>r. sm_task t \<noteq> SendRoot r)" if "sv_streams ?s i = Some t" for i t
    using that by (auto simp: demo_server_def demo_stream_def split: if_splits)
  have "RespNotification (current_root (sv_db ?s)) \<in> set (sm_written ?str) \<or> sm_base ?str = Some (current_root (sv_db ?s))"
    by (rule drained_subscriber_knows_root[OF serving str quiet])
  then have "RespNotification (current_root demo_db) \<in> set (sm_written ?str)"
    using demo_roots(3) by (simp add: demo_server_def demo_stream_def)
  then show ?thesis using run str(1) by (intro exI[of _ ?s] exI[of _ ?str]) (simp add: demo_server_def)
qed

section \<open>One stream at a time\<close>

text \<open>When nothing comes between the steps of a stream, it writes the replies and broadcasts the root that the
  model of a single stream gives for its transport, and leaves the same database.\<close>

theorem stream_steps_are_the_stream:
  assumes "serving E K s" "sv_streams s sid = Some str" "sm_task str = ReadRequest" "sm_written str = []"
    and "event_ok E K (RequestRead sid now received True)"
    and "res = (if stream_via s str = Quic then quic_stream else webtransport_stream) E now (sv_db s) received"
  shows "\<exists>s' str'. server_steps E (RequestRead sid now received True # (if broadcast res = [] then [] else [RootRead sid, RootSent sid])) s
      = Some s' \<and> sv_db s' = after res \<and> sv_streams s' sid = Some str' \<and> sm_written str' = reply res \<and>
    sm_task str' = (if subscribed res then CreateReceiver else TaskOver) \<and>
    (\<forall>i. i = sid \<or> sv_streams s' i = map_option (fold receive (broadcast res)) (sv_streams s i))"
proof (cases received)
  case (Ok req)
  then have res: "res = serve_request E now (sv_db s) req" using assms(6) by (simp add: quic_stream_def webtransport_stream_def)
  show ?thesis
  proof (cases "is_streaming req")
    case True
    then show ?thesis
      using assms(2-4) Ok res
      by (simp add: serve_request_def request_read_def put_stream_def wrote_def option.map_id)
  next
    case ns: False
    obtain result db' where run: "handle_request E now (sv_db s) req = (result, db')" by fastforce
    have inv: "storage_inv E K db'"
      using handle_request_inv[OF conjunct2[OF serving_informed[OF assms(1)]] _ run] assms(5) Ok by simp
    show ?thesis
    proof (cases "\<exists>resp. result = Ok resp \<and> is_mutation req \<and> \<not> is_error resp")
      case True
      then obtain resp where r: "result = Ok resp" "is_mutation req" "\<not> is_error resp" by blast
      have "res = \<lparr>reply = [resp], broadcast = [current_root db'], subscribed = False, after = db'\<rparr>"
        using res ns run r by (simp add: serve_request_def get_root_result[OF inv])
      then show ?thesis
        using assms(2-4) Ok ns run r
        by (simp add: request_read_def root_read_def root_sent_def put_stream_def wrote_def task_ends_def Let_def
            get_root_result[OF inv])
    next
      case False
      then show ?thesis
        using assms(2-4) Ok ns run res
        by (cases result) (auto simp: serve_request_def stream_nothing_def request_read_def put_stream_def wrote_def
            task_ends_def Let_def option.map_id)
    qed
  qed
next
  case (Err e)
  then show ?thesis
    using assms(2-4,6)
    by (cases e) (auto simp: quic_stream_def webtransport_stream_def stream_nothing_def request_read_def put_stream_def wrote_def
        task_ends_def option.map_id)
next
  case Panic
  then show ?thesis
    using assms(2-4,6)
    by (auto simp: quic_stream_def webtransport_stream_def stream_nothing_def request_read_def put_stream_def
        task_ends_def option.map_id)
qed

section \<open>The gap before the receiver\<close>

fun mutating :: "server_event \<Rightarrow> bool" where
  "mutating (RequestRead _ _ (Ok request) _) \<longleftrightarrow> is_mutation request"
| "mutating _ \<longleftrightarrow> False"

text \<open>No task is between a mutation and its broadcast.\<close>

definition no_broadcast_due :: "server \<Rightarrow> bool" where
  "no_broadcast_due s \<longleftrightarrow>
     (\<forall>i t. sv_streams s i = Some t \<longrightarrow> sm_task t \<noteq> ReadRoot \<and> (\<forall>root. sm_task t \<noteq> SendRoot root))"

text \<open>A subscriber with nothing to forward.\<close>

definition has_nothing :: "response list \<Rightarrow> nat \<Rightarrow> server \<Rightarrow> bool" where
  "has_nothing written a s \<longleftrightarrow>
     (\<exists>sa. sv_streams s a = Some sa \<and> (sm_task sa = CreateReceiver \<or> sm_task sa = Forward []) \<and> sm_written sa = written)"

lemma quiet_put:
  assumes "no_broadcast_due s" "has_nothing written a s" "a \<noteq> sid \<or> (sm_task str = CreateReceiver \<or> sm_task str = Forward []) \<and> sm_written str = written"
    and "sm_task str \<noteq> ReadRoot" "\<And>root. sm_task str \<noteq> SendRoot root"
  shows "no_broadcast_due (put_stream sid str s) \<and> has_nothing written a (put_stream sid str s)"
  using assms by (auto simp: no_broadcast_due_def has_nothing_def put_stream_def)

lemma quiet_same:
  "sv_db s' = sv_db s \<Longrightarrow> sv_streams s' = sv_streams s \<Longrightarrow> no_broadcast_due s \<Longrightarrow> has_nothing written a s \<Longrightarrow>
     sv_db s' = sv_db s \<and> no_broadcast_due s' \<and> has_nothing written a s'"
  by (simp add: no_broadcast_due_def has_nothing_def)

lemma put_stream_db [simp]: "sv_db (put_stream sid str s) = sv_db s"
  by (simp add: put_stream_def)

lemma quiet_request:
  assumes "request_read E now sid received writable s = Some s'" "\<not> mutating (RequestRead sid now received writable)"
    and "no_broadcast_due s" "has_nothing written a s"
  shows "sv_db s' = sv_db s \<and> no_broadcast_due s' \<and> has_nothing written a s'"
proof -
  obtain str where str: "sv_streams s sid = Some str" "sm_task str = ReadRequest"
    using assms(1) by (auto simp: request_read_def split: option.splits if_splits)
  have as: "a \<noteq> sid" using assms(4) str by (auto simp: has_nothing_def)
  have put: "sv_db (put_stream sid str' s) = sv_db s \<and> no_broadcast_due (put_stream sid str' s) \<and> has_nothing written a (put_stream sid str' s)"
    if "sm_task str' = CreateReceiver \<or> sm_task str' = TaskOver" for str'
    using quiet_put[OF assms(3,4), of sid str'] as that by auto
  show ?thesis
  proof (cases received)
    case (Ok request)
    have reading: "\<not> is_mutation request" using assms(2) Ok by simp
    show ?thesis
    proof (cases "is_streaming request")
      case True
      then show ?thesis
        using assms(1) str Ok put[of "if writable then (wrote True RespOk str)\<lparr>sm_task := CreateReceiver\<rparr> else task_ends str"]
        by (auto simp: request_read_def task_ends_def)
    next
      case False
      obtain r db' where handled: "handle_request E now (sv_db s) request = (r, db')" by fastforce
      then have "db' = sv_db s" using reading by (cases rule: handle_request_cases) auto
      then have "s' = put_stream sid (task_ends (case r of Ok response \<Rightarrow> wrote writable response str | _ \<Rightarrow> str)) s"
        using assms(1) str Ok False reading handled by (cases r) (simp_all add: request_read_def Let_def)
      then show ?thesis using put by (simp add: task_ends_def)
    qed
  next
    case (Err e)
    then show ?thesis
      using assms(1) str put by (cases e) (auto simp: request_read_def task_ends_def)
  next
    case Panic
    then show ?thesis using assms(1) str put by (auto simp: request_read_def task_ends_def)
  qed
qed

lemma quiet_step:
  assumes "server_step E e s = Some s'" "\<not> mutating e" "no_broadcast_due s" "has_nothing written a s"
  shows "sv_db s' = sv_db s \<and> no_broadcast_due s' \<and> has_nothing written a s'"
proof (cases e)
  case (RequestRead sid now received writable)
  then show ?thesis using quiet_request assms by simp
next
  case (StreamAccepted cid sid)
  then obtain str where str: "s' = put_stream sid str s" "sm_task str = ReadRequest" "sv_streams s sid = None"
    using assms(1) by (auto simp: stream_accepted_def put_stream_def split: option.splits conn_phase.splits prod.splits if_splits)
  have "a \<noteq> sid" using assms(4) str(3) by (auto simp: has_nothing_def)
  then show ?thesis using quiet_put[OF assms(3,4), of sid str] str(1,2) by simp
next
  case (ReceiverCreated sid)
  then obtain str base where str: "sv_streams s sid = Some str" "sm_task str = CreateReceiver"
    and s': "s' = put_stream sid (str\<lparr>sm_task := Forward [], sm_base := base\<rparr>) s"
    using assms(1) by (auto simp: receiver_created_def split: option.splits if_splits)
  have "a \<noteq> sid \<or> sm_written str = written" using assms(4) str by (auto simp: has_nothing_def)
  then show ?thesis using quiet_put[OF assms(3,4), of sid "str\<lparr>sm_task := Forward [], sm_base := base\<rparr>"] s' by auto
next
  case (Forwarded sid writable)
  then obtain str root buf where str: "sv_streams s sid = Some str" "sm_task str = Forward (root # buf)"
    and s': "s' = put_stream sid (if writable then (wrote True (RespNotification root) str)\<lparr>sm_task := Forward buf\<rparr> else task_ends str) s"
    using assms(1) by (auto simp: forwarded_def split: option.splits task.splits list.splits)
  have "a \<noteq> sid" using assms(4) str by (auto simp: has_nothing_def)
  then show ?thesis using quiet_put[OF assms(3,4)] s' by (auto simp: task_ends_def)
next
  case (RootRead sid)
  then show ?thesis using assms(1,3) by (auto simp: root_read_def no_broadcast_due_def split: option.splits if_splits)
next
  case (RootSent sid)
  then show ?thesis using assms(1,3) by (auto simp: root_sent_def no_broadcast_due_def split: option.splits task.splits)
next
  case (Incoming cid v)
  then show ?thesis using assms(1,3,4) quiet_same[of s' s] by (auto simp: incoming_def split: if_splits)
next
  case (Established cid b)
  then show ?thesis using assms(1,3,4) quiet_same[of s' s] conn_step_keeps[of cid _ s s'] by (simp add: established_def)
next
  case (HandshakeEnds cid r)
  then show ?thesis using assms(1,3,4) quiet_same[of s' s] conn_step_keeps[of cid _ s s'] by (simp add: handshake_ends_def)
next
  case (HandshakeTimeout cid secs)
  then show ?thesis using assms(1,3,4) quiet_same[of s' s] conn_step_keeps[of cid _ s s'] by (simp add: handshake_timeout_def)
next
  case (ConnectionLostEv cid)
  then show ?thesis using assms(1,3,4) quiet_same[of s' s] conn_step_keeps[of cid _ s s'] by (simp add: connection_lost_def)
qed

lemma quiet_steps:
  assumes "server_steps E es s = Some s'" "list_all (\<lambda>e. \<not> mutating e) es" "no_broadcast_due s" "has_nothing written a s"
  shows "sv_db s' = sv_db s \<and> no_broadcast_due s' \<and> has_nothing written a s'"
  using assms
proof (induction es arbitrary: s)
  case (Cons e es)
  then obtain s1 where one: "server_step E e s = Some s1" and rest: "server_steps E es s1 = Some s'"
    by (auto simp: bind_eq_Some_conv)
  have "sv_db s1 = sv_db s \<and> no_broadcast_due s1 \<and> has_nothing written a s1"
    using quiet_step[OF one _ Cons.prems(3,4)] Cons.prems(2) by simp
  with Cons.IH[OF rest] Cons.prems(2) show ?case by simp
qed simp

text \<open>C18: A subscription is answered before its receiver exists. A change that another client makes and whose root is
  broadcast in between is never notified to this one: the answer may have said \<open>Ok\<close> and the receiver may
  be created right after, yet in every continuation, of whatever length, in which nobody sends another
  mutation (and none was under way), the database keeps the change and nothing more is written to the
  subscriber.\<close>

theorem change_before_receiver_is_missed:
  assumes "serving E K s" "sv_streams s a = Some sa" "sm_task sa = CreateReceiver"
    and "sv_streams s b = Some sb" "sm_task sb = ReadRequest" "no_broadcast_due s"
    and "request_ok E K req" "handle_request E now (sv_db s) req = (Ok resp, db')" "is_mutation req" "\<not> is_error resp"
  shows "\<exists>s1. server_steps E [RequestRead b now (Ok req) True, RootRead b, RootSent b] s = Some s1 \<and>
    (\<exists>s2 sa2. server_step E (ReceiverCreated a) s1 = Some s2 \<and> sv_streams s2 a = Some sa2 \<and> sm_task sa2 = Forward []) \<and>
    (\<forall>es s'. list_all (\<lambda>e. \<not> mutating e) es \<and> server_steps E es s1 = Some s' \<longrightarrow>
       sv_db s' = db' \<and> (\<exists>sa'. sv_streams s' a = Some sa' \<and> sm_written sa' = sm_written sa))"
proof -
  have inv: "storage_inv E K db'"
    using handle_request_inv[OF conjunct2[OF serving_informed[OF assms(1)]] assms(7,8)] by simp
  have ab: "a \<noteq> b" using assms(2-5) by auto
  have ns: "\<not> is_streaming req" using assms(9) by (cases req) auto
  have still: "receive r sa = sa" for r using assms(3) by (simp add: receive_def)
  have tasks: "sm_task (receive r t) = sm_task t \<or> (\<exists>buf. sm_task (receive r t) = Forward buf)" for r t
    by (simp add: receive_def Let_def split: task.split)
  let ?s1 = "put_stream b (task_ends (sb\<lparr>sm_written := sm_written sb @ [resp], sm_task := SendRoot (current_root db')\<rparr>))
    (s\<lparr>sv_db := db', sv_streams := (\<lambda>i. map_option (receive (current_root db'))
       (((sv_streams s)(b \<mapsto> sb\<lparr>sm_written := sm_written sb @ [resp], sm_task := SendRoot (current_root db')\<rparr>)) i))\<rparr>)"
  have run: "server_steps E [RequestRead b now (Ok req) True, RootRead b, RootSent b] s = Some ?s1"
    using assms(4,5,8-10) ns
    by (simp add: request_read_def root_read_def root_sent_def put_stream_def wrote_def Let_def get_root_result[OF inv])
  have db: "sv_db ?s1 = db'" by simp
  have sa: "sv_streams ?s1 a = Some sa" using ab assms(2) still by (simp add: put_stream_def)
  have quiet: "no_broadcast_due ?s1"
    unfolding no_broadcast_due_def
  proof (intro allI impI)
    fix i t assume "sv_streams ?s1 i = Some t"
    then consider "sm_task t = TaskOver" | t0 where "sv_streams s i = Some t0" "t = receive (current_root db') t0"
      by (auto simp: put_stream_def task_ends_def split: if_splits)
    then show "sm_task t \<noteq> ReadRoot \<and> (\<forall>root. sm_task t \<noteq> SendRoot root)"
    proof cases
      case 2
      then have "sm_task t0 \<noteq> ReadRoot \<and> (\<forall>root. sm_task t0 \<noteq> SendRoot root)" using assms(6) by (simp add: no_broadcast_due_def)
      then show ?thesis using tasks[of "current_root db'" t0] 2(2) by (elim disjE) auto
    qed simp
  qed
  have empty: "has_nothing (sm_written sa) a ?s1" using sa assms(3) by (simp add: has_nothing_def)
  have later: "sv_db s' = db' \<and> (\<exists>sa'. sv_streams s' a = Some sa' \<and> sm_written sa' = sm_written sa)"
    if "list_all (\<lambda>e. \<not> mutating e) es" "server_steps E es ?s1 = Some s'" for es s'
  proof -
    have "sv_db s' = db'" "has_nothing (sm_written sa) a s'"
      using quiet_steps[OF that(2) that(1) quiet empty] by (simp_all only: db)
    then show ?thesis by (auto simp: has_nothing_def)
  qed
  have "\<exists>s2 sa2. server_step E (ReceiverCreated a) ?s1 = Some s2 \<and> sv_streams s2 a = Some sa2 \<and> sm_task sa2 = Forward []"
    using sa assms(3) by (simp add: receiver_created_def put_stream_def[of a])
  with run later show ?thesis by blast
qed

theorem change_before_receiver_is_missed_witness:
  "\<exists>s str. server_steps demo_ext (demo_setup @ demo_change @ [ReceiverCreated 1]) (started empty_db) = Some s \<and>
    sv_db s = demo_db \<and> sv_streams s 1 = Some str \<and> sm_written str = [RespOk]"
proof -
  let ?a = "demo_stream CreateReceiver [RespOk] None" and ?b = "demo_stream ReadRequest [] None"
  have streams: "sv_streams (demo_server empty_db ?a ?b) 1 = Some ?a" "sm_task ?a = CreateReceiver"
    "sv_streams (demo_server empty_db ?a ?b) 2 = Some ?b" "sm_task ?b = ReadRequest"
    by (simp_all add: demo_server_def demo_stream_def)
  have due: "no_broadcast_due (demo_server empty_db ?a ?b)"
    by (simp add: no_broadcast_due_def demo_server_def demo_stream_def)
  have handled: "handle_request demo_ext 0 (sv_db (demo_server empty_db ?a ?b)) (PushCardVersions [demo_card]) =
      (Ok (RespRoot (current_root demo_db)), demo_db)"
    using demo_handled by (simp add: demo_server_def)
  have kind: "is_mutation (PushCardVersions [demo_card])" "\<not> is_error (RespRoot (current_root demo_db))" by simp_all
  from change_before_receiver_is_missed[OF demo_serving streams due demo_push_ok handled kind]
  obtain s1 s2 where s1: "server_steps demo_ext demo_change (demo_server empty_db ?a ?b) = Some s1"
    and s2: "server_step demo_ext (ReceiverCreated 1) s1 = Some s2"
    and later: "\<And>es s'. list_all (\<lambda>e. \<not> mutating e) es \<Longrightarrow> server_steps demo_ext es s1 = Some s' \<Longrightarrow>
      sv_db s' = demo_db \<and> (\<exists>sa'. sv_streams s' 1 = Some sa' \<and> sm_written sa' = sm_written ?a)"
    unfolding demo_change_def by blast
  have "server_steps demo_ext [ReceiverCreated 1] s1 = Some s2" using s2 by simp
  from later[OF _ this] obtain str where "sv_db s2 = demo_db" "sv_streams s2 1 = Some str" "sm_written str = [RespOk]"
    by (auto simp: demo_stream_def)
  moreover have "server_steps demo_ext (demo_setup @ demo_change @ [ReceiverCreated 1]) (started empty_db) = Some s2"
    using demo_setup_run s1 s2 by (simp add: server_steps_append del: server_step.simps)
  ultimately show ?thesis by blast
qed

theorem stream_steps_are_the_stream_witness:
  "\<exists>s str. server_steps demo_ext (demo_setup @ demo_change) (started empty_db) = Some s \<and>
    sv_db s = demo_db \<and> sv_streams s 2 = Some str \<and> sm_written str = [RespRoot (current_root demo_db)] \<and> sm_task str = TaskOver"
proof -
  let ?a = "demo_stream CreateReceiver [RespOk] None" and ?b = "demo_stream ReadRequest [] None"
  let ?s = "demo_server empty_db ?a ?b"
  have b: "sv_streams ?s 2 = Some ?b" "sm_task ?b = ReadRequest" "sm_written ?b = []"
    by (simp_all add: demo_server_def demo_stream_def)
  have ok: "event_ok demo_ext {1} (RequestRead 2 0 (Ok (PushCardVersions [demo_card])) True)"
    using demo_events_ok(2) by (simp add: demo_change_def)
  have quic: "stream_via ?s ?b = Quic" by (simp add: stream_via_def demo_server_def demo_stream_def)
  have res: "quic_stream demo_ext 0 (sv_db ?s) (Ok (PushCardVersions [demo_card])) =
      \<lparr>reply = [RespRoot (current_root demo_db)], broadcast = [current_root demo_db], subscribed = False, after = demo_db\<rparr>"
    using demo_handled demo_roots(1) by (simp add: quic_stream_def serve_request_def demo_server_def del: handle_request.simps)
  from stream_steps_are_the_stream[OF demo_serving b ok refl] quic res
  obtain s' str where "server_steps demo_ext demo_change ?s = Some s'" "sv_db s' = demo_db" "sv_streams s' 2 = Some str"
    "sm_written str = [RespRoot (current_root demo_db)]" "sm_task str = TaskOver"
    by (auto simp: demo_change_def simp del: server_steps.simps)
  then show ?thesis
    using demo_setup_run by (intro exI[of _ s'] exI[of _ str]) (simp add: server_steps_append del: server_steps.simps)
qed

end
