(* ===== verification/Drag_Drop.thy ===== *)
theory Drag_Drop
  imports Complex_Main Detail_Properties Client_Properties
begin

text \<open>
  Dragging a card to another place (clients/wasm/src/components/drag_drop.rs and the handlers of a row in
  card_item.rs): the session of a drag from the press to the release, with the hit test, the frames of
  the animation and the scrolling at the edges. Where the browser has put the rows for a scroll position
  and which row it finds under a point is an argument, as a function of the scroll position. Pixels are
  rationals.
\<close>

section \<open>What is under the pointer\<close>

record drag_row =
  dr_id :: uuid
  dr_top :: rat
  dr_height :: rat

record layout =
  ly_rows :: "drag_row list"
  ly_under :: "rat \<Rightarrow> rat \<Rightarrow> nat option"

definition unless_source :: "uuid \<Rightarrow> uuid \<Rightarrow> DropEdge \<Rightarrow> (uuid \<times> DropEdge) option" where
  "unless_source source uid edge = (if uid = source then None else Some (uid, edge))"

definition clamp_to_list_end :: "drag_row list \<Rightarrow> rat \<Rightarrow> uuid \<Rightarrow> (uuid \<times> DropEdge) option" where
  "clamp_to_list_end rows y source =
     (if rows = [] then None
      else if y \<le> dr_top (hd rows) then unless_source source (dr_id (hd rows)) Above
      else if y \<ge> dr_top (last rows) + dr_height (last rows) then unless_source source (dr_id (last rows)) Below
      else None)"

definition hit_test_drop_target :: "layout \<Rightarrow> rat \<Rightarrow> rat \<Rightarrow> uuid \<Rightarrow> (uuid \<times> DropEdge) option" where
  "hit_test_drop_target ly x y source =
     (case ly_under ly x y of
        None \<Rightarrow> clamp_to_list_end (ly_rows ly) y source
      | Some i \<Rightarrow>
          let row = ly_rows ly ! i in
          if y < dr_top row + dr_height row / 2 then unless_source source (dr_id row) Above
          else case drop (i + 1) (ly_rows ly) of
            following # _ \<Rightarrow> unless_source source (dr_id following) Above
          | [] \<Rightarrow> unless_source source (dr_id row) Below)"

section \<open>State\<close>

definition DRAG_ACTIVATION_PX :: rat where "DRAG_ACTIVATION_PX = 5"
definition AUTO_SCROLL_EDGE_PX :: rat where "AUTO_SCROLL_EDGE_PX = 60"
definition AUTO_SCROLL_MAX_PX_PER_FRAME :: rat where "AUTO_SCROLL_MAX_PX_PER_FRAME = 14"

record drag_session =
  ds_source :: uuid
  ds_pointer :: int
  ds_start :: "rat \<times> rat"
  ds_active :: bool
  ds_pending :: "(rat \<times> rat) option"
  ds_last :: "(rat \<times> rat) option"
  ds_frame :: bool

text \<open>The slot for the one session, the two signals of the app state, the class of the body, the settings, the
  scroll position and how many clicks are to be swallowed.\<close>

record drag =
  dg_session :: "drag_session option"
  dg_active_card :: "uuid option"
  dg_drop_target :: "(uuid \<times> DropEdge) option"
  dg_body_dragging :: bool
  dg_enabled :: bool
  dg_mode :: string
  dg_scroll :: rat
  dg_swallow :: nat

text \<open>The scrolled pane: its top and bottom in the window, the height of the window and how far it scrolls. Of
  the document itself top and bottom depend on the scroll position.\<close>

record pane =
  pn_top :: rat
  pn_bottom :: rat
  pn_window :: rat
  pn_max :: rat

record ('w, 'm, 'n) drag_env =
  de_detail :: "('w, 'm, 'n) detail_env"
  de_layout :: "rat \<Rightarrow> layout"
  de_pane :: "rat \<Rightarrow> pane option"

definition new_drag :: "bool \<Rightarrow> string \<Rightarrow> drag" where
  "new_drag enabled mode =
     \<lparr>dg_session = None, dg_active_card = None, dg_drop_target = None, dg_body_dragging = False,
      dg_enabled = enabled, dg_mode = mode, dg_scroll = 0, dg_swallow = 0\<rparr>"

definition is_drag_in_flight :: "drag \<Rightarrow> bool" where
  "is_drag_in_flight d \<longleftrightarrow> dg_session d \<noteq> None"

section \<open>Scrolling at the edges\<close>

definition auto_scroll_delta :: "pane \<Rightarrow> rat \<Rightarrow> rat" where
  "auto_scroll_delta p y =
     (let top = max (pn_top p) 0;
          bottom = min (pn_bottom p) (pn_window p);
          over = AUTO_SCROLL_EDGE_PX - (y - top);
          under = AUTO_SCROLL_EDGE_PX - (bottom - y)
      in if over > 0 then - (over / AUTO_SCROLL_EDGE_PX) * AUTO_SCROLL_MAX_PX_PER_FRAME
         else if under > 0 then under / AUTO_SCROLL_EDGE_PX * AUTO_SCROLL_MAX_PX_PER_FRAME
         else 0)"

text \<open>The browser keeps a scroll position between 0 and its maximum.\<close>

definition auto_scroll_step :: "pane option \<Rightarrow> rat \<Rightarrow> drag \<Rightarrow> bool \<times> drag" where
  "auto_scroll_step pane y d =
     (case pane of
        None \<Rightarrow> (False, d)
      | Some p \<Rightarrow>
          let delta = auto_scroll_delta p y in
          if \<bar>delta\<bar> < 1 / 2 then (False, d)
          else
            let before = dg_scroll d; after = max 0 (min (pn_max p) (before + delta))
            in (\<bar>after - before\<bar> > 1 / 2, d\<lparr>dg_scroll := after\<rparr>))"

section \<open>The session\<close>

definition activate :: "drag_session \<Rightarrow> drag \<Rightarrow> drag" where
  "activate ses d =
     (if ds_active ses then d
      else d\<lparr>dg_session := Some (ses\<lparr>ds_active := True\<rparr>), dg_active_card := Some (ds_source ses), dg_body_dragging := True\<rparr>)"

text \<open>\<open>finish\<close> and the release of the slot.\<close>

definition finish_session :: "drag \<Rightarrow> drag" where
  "finish_session d =
     (case dg_session d of
        None \<Rightarrow> d
      | Some ses \<Rightarrow>
          if ds_active ses
          then d\<lparr>dg_session := None, dg_active_card := None, dg_drop_target := None, dg_body_dragging := False\<rparr>
          else d\<lparr>dg_session := None\<rparr>)"

definition cancel_active_drag :: "drag \<Rightarrow> drag" where
  "cancel_active_drag d = finish_session d"

definition install_click_swallower :: "drag \<Rightarrow> drag" where
  "install_click_swallower d = d\<lparr>dg_swallow := dg_swallow d + 1\<rparr>"

definition build_session :: "uuid \<Rightarrow> int \<Rightarrow> rat \<Rightarrow> rat \<Rightarrow> drag \<Rightarrow> drag" where
  "build_session uid pointer x y d =
     (if is_drag_in_flight d then d
      else d\<lparr>dg_session := Some \<lparr>ds_source = uid, ds_pointer = pointer, ds_start = (x, y), ds_active = False,
        ds_pending = None, ds_last = None, ds_frame = False\<rparr>\<rparr>)"

definition drag_allowed :: "view \<Rightarrow> drag \<Rightarrow> bool" where
  "drag_allowed v d \<longleftrightarrow> dg_enabled d \<and> reorder_allowed v \<and> \<not> v_editing v \<and> \<not> v_creating_new v"

definition start_pointer_drag ::
  "view \<Rightarrow> uuid \<Rightarrow> string \<Rightarrow> nat \<Rightarrow> int \<Rightarrow> rat \<Rightarrow> rat \<Rightarrow> drag \<Rightarrow> drag" where
  "start_pointer_drag v uid pointer_type button pointer x y d =
     (if \<not> drag_allowed v d then d
      else if pointer_type \<noteq> ''mouse'' \<and> pointer_type \<noteq> ''pen'' then d
      else if button \<noteq> 0 then d
      else build_session uid pointer x y d)"

type_synonym touch = "int \<times> rat \<times> rat"

definition find_touch :: "touch list \<Rightarrow> int \<Rightarrow> touch option" where
  "find_touch touches ident = find (\<lambda>t. fst t = ident) touches"

definition start_touch_drag :: "view \<Rightarrow> uuid \<Rightarrow> touch list \<Rightarrow> drag \<Rightarrow> drag" where
  "start_touch_drag v uid touches d =
     (if \<not> drag_allowed v d then d
      else case touches of [(ident, x, y)] \<Rightarrow> build_session uid ident x y d | _ \<Rightarrow> d)"

text \<open>The handlers of a row, for the mode that is set.\<close>

definition active_drag_mode :: "drag \<Rightarrow> DragMode option" where
  "active_drag_mode d = (if dg_enabled d then Some (drag_mode_from_str_or_default (dg_mode d)) else None)"

definition on_wrapper_pointerdown ::
  "view \<Rightarrow> uuid \<Rightarrow> string \<Rightarrow> nat \<Rightarrow> int \<Rightarrow> rat \<Rightarrow> rat \<Rightarrow> drag \<Rightarrow> drag" where
  "on_wrapper_pointerdown v uid pointer_type button pointer x y d =
     (if active_drag_mode d \<noteq> Some Anywhere then d
      else start_pointer_drag v uid pointer_type button pointer x y d)"

definition on_handle_touchstart :: "view \<Rightarrow> uuid \<Rightarrow> touch list \<Rightarrow> drag \<Rightarrow> drag" where
  "on_handle_touchstart v uid touches d =
     (if active_drag_mode d \<noteq> Some Handle then d else start_touch_drag v uid touches d)"

definition on_handle_pointerdown ::
  "view \<Rightarrow> uuid \<Rightarrow> string \<Rightarrow> nat \<Rightarrow> int \<Rightarrow> rat \<Rightarrow> rat \<Rightarrow> drag \<Rightarrow> drag" where
  "on_handle_pointerdown v uid pointer_type button pointer x y d =
     (if active_drag_mode d \<noteq> Some Handle then d
      else start_pointer_drag v uid pointer_type button pointer x y d)"

section \<open>Moving\<close>

definition drag_moved :: "rat \<Rightarrow> rat \<Rightarrow> drag_session \<Rightarrow> drag \<Rightarrow> drag" where
  "drag_moved x y ses d =
     (let dx = x - fst (ds_start ses); dy = y - snd (ds_start ses) in
      if \<not> ds_active ses \<and> dx * dx + dy * dy < DRAG_ACTIVATION_PX * DRAG_ACTIVATION_PX then d
      else (activate ses d)\<lparr>dg_session := Some (ses\<lparr>ds_active := True, ds_pending := Some (x, y), ds_last := Some (x, y),
        ds_frame := True\<rparr>)\<rparr>)"

definition on_pointer_move :: "int \<Rightarrow> rat \<Rightarrow> rat \<Rightarrow> drag \<Rightarrow> drag" where
  "on_pointer_move pointer x y d =
     (case dg_session d of
        None \<Rightarrow> d
      | Some ses \<Rightarrow> if ds_pointer ses \<noteq> pointer then d else drag_moved x y ses d)"

definition on_touch_move :: "touch list \<Rightarrow> drag \<Rightarrow> drag" where
  "on_touch_move touches d =
     (case dg_session d of
        None \<Rightarrow> d
      | Some ses \<Rightarrow>
          (case find_touch touches (ds_pointer ses) of None \<Rightarrow> d | Some (_, x, y) \<Rightarrow> drag_moved x y ses d))"

text \<open>One frame of the animation: a hit test for what is pending, then a step of scrolling, after which the
  same point is tested again and another frame asked for.\<close>

definition hit_test_at :: "(rat \<Rightarrow> layout) \<Rightarrow> rat \<times> rat \<Rightarrow> uuid \<Rightarrow> drag \<Rightarrow> drag" where
  "hit_test_at lay p source d =
     d\<lparr>dg_drop_target := hit_test_drop_target (lay (dg_scroll d)) (fst p) (snd p) source\<rparr>"

definition animation_frame :: "('w, 'm, 'n) drag_env \<Rightarrow> drag \<Rightarrow> drag" where
  "animation_frame env d =
     (case dg_session d of
        None \<Rightarrow> d
      | Some ses \<Rightarrow>
          if \<not> ds_frame ses then d
          else if \<not> dg_enabled d then finish_session d
          else
            let d = (case ds_pending ses of None \<Rightarrow> d | Some p \<Rightarrow> hit_test_at (de_layout env) p (ds_source ses) d);
                (scrolled, d) = (case ds_last ses of
                    Some p \<Rightarrow> if ds_active ses then auto_scroll_step (de_pane env (dg_scroll d)) (snd p) d else (False, d)
                  | None \<Rightarrow> (False, d));
                d = (if scrolled then
                       (case ds_last ses of Some p \<Rightarrow> hit_test_at (de_layout env) p (ds_source ses) d | None \<Rightarrow> d)
                     else d)
            in d\<lparr>dg_session := Some (ses\<lparr>ds_pending := None, ds_frame := scrolled\<rparr>)\<rparr>)"

section \<open>The release\<close>

definition commit_drop_if_eligible ::
  "('w, 'm, 'n) drag_env \<Rightarrow> drag_session \<Rightarrow> drag \<times> 'w detail \<Rightarrow> (unit, 'w detail) outcome" where
  "commit_drop_if_eligible env ses st =
     (case st of (d, st) \<Rightarrow>
       if \<not> dg_enabled d \<or> \<not> reorder_allowed (ui_view (dt_ui st)) then Ok st
       else case dg_drop_target d of
         None \<Rightarrow> Ok st
       | Some (target, edge) \<Rightarrow>
           let filtered = detail_filtered (de_detail env) st in
           case find (\<lambda>c. card_id c = ds_source ses) filtered of
             None \<Rightarrow> Ok st
           | Some cur \<Rightarrow>
               (case drop_position filtered (ds_source ses) target edge of
                  None \<Rightarrow> Ok st
                | Some pos \<Rightarrow> detail_place (de_detail env) cur pos st))"

definition session_released ::
  "('w, 'm, 'n) drag_env \<Rightarrow> drag_session \<Rightarrow> drag \<times> 'w detail \<Rightarrow> (unit, drag \<times> 'w detail) outcome" where
  "session_released env ses st =
     (case st of (d, st) \<Rightarrow>
       map_ok (\<lambda>st. (if ds_active ses then install_click_swallower (finish_session d) else finish_session d, st))
         (if ds_active ses then commit_drop_if_eligible env ses (d, st) else Ok st))"

definition on_pointer_up ::
  "('w, 'm, 'n) drag_env \<Rightarrow> int \<Rightarrow> drag \<times> 'w detail \<Rightarrow> (unit, drag \<times> 'w detail) outcome" where
  "on_pointer_up env pointer st =
     (case dg_session (fst st) of
        None \<Rightarrow> Ok st
      | Some ses \<Rightarrow> if ds_pointer ses \<noteq> pointer then Ok st else session_released env ses st)"

definition on_touch_end ::
  "('w, 'm, 'n) drag_env \<Rightarrow> touch list \<Rightarrow> drag \<times> 'w detail \<Rightarrow> (unit, drag \<times> 'w detail) outcome" where
  "on_touch_end env changed st =
     (case dg_session (fst st) of
        None \<Rightarrow> Ok st
      | Some ses \<Rightarrow> if find_touch changed (ds_pointer ses) = None then Ok st else session_released env ses st)"

definition on_pointer_cancel :: "int \<Rightarrow> drag \<Rightarrow> drag" where
  "on_pointer_cancel pointer d =
     (case dg_session d of
        None \<Rightarrow> d
      | Some ses \<Rightarrow> if ds_pointer ses \<noteq> pointer then d else finish_session d)"

definition on_touch_cancel :: "touch list \<Rightarrow> drag \<Rightarrow> drag" where
  "on_touch_cancel changed d =
     (case dg_session d of
        None \<Rightarrow> d
      | Some ses \<Rightarrow> if find_touch changed (ds_pointer ses) = None then d else finish_session d)"

text \<open>Switching the feature off in the settings cancels a drag.\<close>

definition on_toggle_drag_and_drop :: "drag \<Rightarrow> drag" where
  "on_toggle_drag_and_drop d =
     (let v = \<not> dg_enabled d; d = d\<lparr>dg_enabled := v\<rparr> in if v then d else cancel_active_drag d)"

section \<open>A gesture\<close>

datatype drag_event =
    PointerDown uuid string nat int rat rat
  | HandlePointerDown uuid string nat int rat rat
  | HandleTouchStart uuid "touch list"
  | PointerMove int rat rat
  | TouchMove "touch list"
  | Frame
  | PointerUp int
  | TouchEnd "touch list"
  | PointerCancel int
  | TouchCancel "touch list"
  | SettingToggled

fun drag_step ::
  "('w, 'm, 'n) drag_env \<Rightarrow> drag_event \<Rightarrow> drag \<times> 'w detail \<Rightarrow> (unit, drag \<times> 'w detail) outcome" where
  "drag_step env (PointerDown uid t b p x y) (d, st) = Ok (on_wrapper_pointerdown (ui_view (dt_ui st)) uid t b p x y d, st)"
| "drag_step env (HandlePointerDown uid t b p x y) (d, st) = Ok (on_handle_pointerdown (ui_view (dt_ui st)) uid t b p x y d, st)"
| "drag_step env (HandleTouchStart uid ts) (d, st) = Ok (on_handle_touchstart (ui_view (dt_ui st)) uid ts d, st)"
| "drag_step env (PointerMove p x y) (d, st) = Ok (on_pointer_move p x y d, st)"
| "drag_step env (TouchMove ts) (d, st) = Ok (on_touch_move ts d, st)"
| "drag_step env Frame (d, st) = Ok (animation_frame env d, st)"
| "drag_step env (PointerUp p) st = on_pointer_up env p st"
| "drag_step env (TouchEnd ts) st = on_touch_end env ts st"
| "drag_step env (PointerCancel p) (d, st) = Ok (on_pointer_cancel p d, st)"
| "drag_step env (TouchCancel ts) (d, st) = Ok (on_touch_cancel ts d, st)"
| "drag_step env SettingToggled (d, st) = Ok (on_toggle_drag_and_drop d, st)"

fun gesture ::
  "('w, 'm, 'n) drag_env \<Rightarrow> drag_event list \<Rightarrow> drag \<times> 'w detail \<Rightarrow> (unit, drag \<times> 'w detail) outcome" where
  "gesture env [] st = Ok st"
| "gesture env (e # es) st = bind_outcome (drag_step env e st) (gesture env es)"

section \<open>No trace of a drag that is over\<close>

text \<open>What the indicator shows for an active session. When every movement has had its frame, it is the hit test of the
  last position, in the layout as it is if another frame is due (the list is scrolling), or else in the
  layout at most half a pixel of scrolling away. A movement that waits for its frame has asked for one.\<close>

definition indicator_ok :: "('w, 'm, 'n) drag_env \<Rightarrow> drag_session \<Rightarrow> drag \<Rightarrow> bool" where
  "indicator_ok env ses d \<longleftrightarrow>
     (case ds_last ses of
        None \<Rightarrow> False
      | Some (x, y) \<Rightarrow>
          if ds_pending ses = None
          then \<exists>scroll. \<bar>scroll - dg_scroll d\<bar> \<le> 1 / 2 \<and> (ds_frame ses \<longrightarrow> scroll = dg_scroll d) \<and>
            dg_drop_target d = hit_test_drop_target (de_layout env scroll) x y (ds_source ses)
          else ds_pending ses = Some (x, y) \<and> ds_frame ses)"

definition drag_signals_ok :: "('w, 'm, 'n) drag_env \<Rightarrow> drag \<Rightarrow> bool" where
  "drag_signals_ok env d \<longleftrightarrow>
     (case dg_session d of
        Some ses \<Rightarrow>
          if ds_active ses then dg_active_card d = Some (ds_source ses) \<and> dg_body_dragging d \<and> indicator_ok env ses d
          else dg_active_card d = None \<and> dg_drop_target d = None \<and> \<not> dg_body_dragging d \<and> \<not> ds_frame ses
      | None \<Rightarrow> dg_active_card d = None \<and> dg_drop_target d = None \<and> \<not> dg_body_dragging d)"

lemma signals_finish [simp]: "drag_signals_ok env d \<Longrightarrow> drag_signals_ok env (finish_session d)"
  by (auto simp: drag_signals_ok_def finish_session_def split: option.splits if_splits)

lemma signals_swallow [simp]: "drag_signals_ok env (install_click_swallower d) = drag_signals_ok env d"
  by (simp add: drag_signals_ok_def indicator_ok_def install_click_swallower_def split: option.split)

lemma signals_setting [simp]: "drag_signals_ok env (d\<lparr>dg_enabled := b\<rparr>) = drag_signals_ok env d"
  by (simp add: drag_signals_ok_def indicator_ok_def split: option.split)

lemma signals_build [simp]: "drag_signals_ok env d \<Longrightarrow> drag_signals_ok env (build_session uid p x y d)"
  by (auto simp: drag_signals_ok_def build_session_def is_drag_in_flight_def split: option.splits)

lemma signals_start [simp]:
  "drag_signals_ok env d \<Longrightarrow> drag_signals_ok env (start_pointer_drag v uid t b p x y d)"
  "drag_signals_ok env d \<Longrightarrow> drag_signals_ok env (start_touch_drag v uid touches d)"
  by (auto simp: start_pointer_drag_def start_touch_drag_def split: list.splits)

lemma signals_moved:
  "drag_signals_ok env d \<Longrightarrow> dg_session d = Some ses \<Longrightarrow> drag_signals_ok env (drag_moved x y ses d)"
  by (auto simp: drag_signals_ok_def indicator_ok_def drag_moved_def activate_def Let_def split: if_splits)

text \<open>A step of scrolling changes the scroll position only, and by at most half a pixel if it reports nothing.\<close>

lemma auto_scroll_step_scrolls:
  assumes "dg_scroll d = dg_scroll d0"
  shows "auto_scroll_step pane y d =
    (fst (auto_scroll_step pane y d0), d\<lparr>dg_scroll := dg_scroll (snd (auto_scroll_step pane y d0))\<rparr>)"
  using assms by (auto simp: auto_scroll_step_def Let_def split: option.split)

lemma auto_scroll_step_small:
  "\<not> fst (auto_scroll_step pane y d) \<Longrightarrow> \<bar>dg_scroll d - dg_scroll (snd (auto_scroll_step pane y d))\<bar> \<le> 1 / 2"
  by (auto simp: auto_scroll_step_def Let_def abs_minus_commute split: option.splits)

text \<open>The frame of an active session whose feature is on.\<close>

lemma animation_frame_active:
  fixes env :: "('w, 'm, 'n) drag_env"
  assumes "dg_session d = Some ses" "ds_active ses" "ds_frame ses" "dg_enabled d" "ds_last ses = Some (x, y)"
    and "ds_pending ses = None \<or> ds_pending ses = Some (x, y)"
  defines "step \<equiv> auto_scroll_step (de_pane env (dg_scroll d)) y d"
  shows "animation_frame env d =
    d\<lparr>dg_scroll := dg_scroll (snd step),
      dg_drop_target :=
        (if fst step then hit_test_drop_target (de_layout env (dg_scroll (snd step))) x y (ds_source ses)
         else if ds_pending ses = None then dg_drop_target d
         else hit_test_drop_target (de_layout env (dg_scroll d)) x y (ds_source ses)),
      dg_session := Some (ses\<lparr>ds_pending := None, ds_frame := fst step\<rparr>)\<rparr>"
proof -
  obtain b d2 where here0: "auto_scroll_step (de_pane env (dg_scroll d)) y d = (b, d2)" by fastforce
  define v where "v = dg_scroll d2"
  have here: "auto_scroll_step (de_pane env (dg_scroll d)) y d = (b, d\<lparr>dg_scroll := v\<rparr>)"
    using auto_scroll_step_scrolls[of d d "de_pane env (dg_scroll d)" y] here0 by (simp add: v_def)
  have scrolled: "auto_scroll_step (de_pane env (dg_scroll d)) y (d\<lparr>dg_drop_target := t\<rparr>) =
      (b, d\<lparr>dg_drop_target := t, dg_scroll := v\<rparr>)" for t
    using auto_scroll_step_scrolls[of "d\<lparr>dg_drop_target := t\<rparr>" d] here by simp
  show ?thesis
  proof (cases "ds_pending ses")
    case None
    then show ?thesis
      unfolding step_def here using assms(1-5) here
      by (simp add: animation_frame_def hit_test_at_def Let_def)
  next
    case (Some q)
    then show ?thesis
      unfolding step_def here using assms(1-6)
      by (simp add: animation_frame_def hit_test_at_def Let_def scrolled)
  qed
qed

lemma signals_frame:
  assumes "drag_signals_ok env d"
  shows "drag_signals_ok env (animation_frame env d)"
proof (cases "\<exists>ses. dg_session d = Some ses \<and> ds_frame ses \<and> dg_enabled d")
  case True
  then obtain ses where ses: "dg_session d = Some ses" "ds_frame ses" "dg_enabled d" by blast
  have on: "ds_active ses" "dg_active_card d = Some (ds_source ses)" "dg_body_dragging d" "indicator_ok env ses d"
    using assms ses by (auto simp: drag_signals_ok_def split: if_splits)
  then obtain x y where xy: "ds_last ses = Some (x, y)" by (auto simp: indicator_ok_def split: option.splits)
  have last: "ds_last ses = Some (x, y)" "ds_pending ses = None \<or> ds_pending ses = Some (x, y)"
    using on(4) xy by (simp_all add: indicator_ok_def split: if_splits)
  let ?step = "auto_scroll_step (de_pane env (dg_scroll d)) y d"
  have "dg_drop_target d = hit_test_drop_target (de_layout env (dg_scroll d)) x y (ds_source ses)" if "ds_pending ses = None"
    using on(4) last that ses(2) by (auto simp: indicator_ok_def)
  then have "indicator_ok env (ses\<lparr>ds_pending := None, ds_frame := fst ?step\<rparr>) (animation_frame env d)"
    unfolding animation_frame_active[OF ses(1) on(1) ses(2,3) last] using last auto_scroll_step_small[of "de_pane env (dg_scroll d)" y d]
    by (cases "fst ?step") (auto simp: indicator_ok_def intro: exI[of _ "dg_scroll d"])
  then show ?thesis
    unfolding drag_signals_ok_def animation_frame_active[OF ses(1) on(1) ses(2,3) last] using on by (simp add: indicator_ok_def)
next
  case False
  then have "animation_frame env d = d \<or> animation_frame env d = finish_session d"
    by (auto simp: animation_frame_def split: option.splits)
  then show ?thesis using assms by auto
qed

lemma signals_step:
  assumes "drag_step env e (d, st) = Ok (d', st')" "drag_signals_ok env d"
  shows "drag_signals_ok env d'"
  using assms
  by (cases e)
    (auto simp: on_wrapper_pointerdown_def on_handle_pointerdown_def on_handle_touchstart_def on_pointer_move_def
      on_touch_move_def on_pointer_up_def on_touch_end_def session_released_def on_pointer_cancel_def on_touch_cancel_def
      on_toggle_drag_and_drop_def cancel_active_drag_def map_ok_Ok Let_def signals_moved signals_frame
      split: option.splits if_splits prod.splits)

text \<open>C38: Whatever pointers, fingers, frames and settings do: while a session is active, and only then, its card is
  marked as dragged and the page is frozen, and once every movement has had its frame the indicator
  shows what the hit test finds at the last position of the pointer, in the layout to within half a
  pixel of scrolling; a movement that has not is waiting for a frame. With no active session nothing
  of a drag is left.\<close>

theorem drag_leaves_no_trace:
  assumes "gesture env es (new_drag enabled mode, st) = Ok (d, st')"
  shows "drag_signals_ok env d"
proof -
  have "drag_signals_ok env d'" if "gesture env es (d0, st) = Ok (d', st')" "drag_signals_ok env d0" for d0 d' st st'
    using that
    by (induction es arbitrary: d0 st) (auto simp: bind_outcome_Ok split_paired_all dest: signals_step)
  moreover have "drag_signals_ok env (new_drag enabled mode)" by (simp add: drag_signals_ok_def new_drag_def)
  ultimately show ?thesis using assms by blast
qed

section \<open>Where a drop lands\<close>

text \<open>The gap between the rows that the pointer is in.\<close>

definition pointer_gap :: "layout \<Rightarrow> nat \<Rightarrow> rat \<Rightarrow> nat" where
  "pointer_gap ly i y = (if y < dr_top (ly_rows ly ! i) + dr_height (ly_rows ly ! i) / 2 then i else i + 1)"

lemma iter_position_nth:
  assumes "distinct (map card_id cards)" "j < length cards"
  shows "iter_position (\<lambda>c. card_id c = card_id (cards ! j)) cards = Some j"
  using assms
proof (cases "iter_position (\<lambda>c. card_id c = card_id (cards ! j)) cards")
  case None
  then show ?thesis using nth_mem[OF assms(2)] by (auto simp: iter_position_None)
next
  case (Some k)
  note k = iter_position_Some[OF Some]
  then have "k = j" using assms nth_eq_iff_index_eq[OF assms(1), of k j] by simp
  then show ?thesis using Some by simp
qed

lemma drop_at_gap:
  assumes "distinct (map card_id cards)" "map dr_id (ly_rows ly) = map card_id cards" "src < length cards"
    and "ly_under ly x y = Some i" "i < length cards"
  shows "(case hit_test_drop_target ly x y (card_id (cards ! src)) of None \<Rightarrow> None
      | Some (target, edge) \<Rightarrow> drop_position cards (card_id (cards ! src)) target edge) =
    (let gap = pointer_gap ly i y in
     if gap = src \<or> gap = src + 1 then None else Some (At (if gap > src then gap - 1 else gap)))"
proof -
  have len: "length (ly_rows ly) = length cards" using arg_cong[OF assms(2), of length] by simp
  have ident: "dr_id (ly_rows ly ! j) = card_id (cards ! j)" if "j < length cards" for j
    using arg_cong[OF assms(2), of "\<lambda>xs. xs ! j"] that len by simp
  have eq: "card_id (cards ! j) = card_id (cards ! src) \<longleftrightarrow> j = src" if "j < length cards" for j
    using nth_eq_iff_index_eq[OF assms(1), of j src] that assms(3) by simp
  have pos: "drop_position cards (card_id (cards ! src)) (card_id (cards ! j)) edge =
      (let base = (if j > src then j - 1 else j); p = (case edge of Above \<Rightarrow> base | Below \<Rightarrow> base + 1)
       in if p = src then None else Some (At p))" if "j < length cards" "j \<noteq> src" for j edge
    using that eq[OF that(1)] iter_position_nth[OF assms(1) assms(3)] iter_position_nth[OF assms(1) that(1)]
    by (simp add: drop_position_def Let_def)
  show ?thesis
  proof (cases "y < dr_top (ly_rows ly ! i) + dr_height (ly_rows ly ! i) / 2")
    case True
    then show ?thesis
      using assms(4,5) ident[OF assms(5)] eq[OF assms(5)] pos[OF assms(5)]
      by (auto simp: hit_test_drop_target_def unless_source_def pointer_gap_def Let_def)
  next
    case lower: False
    show ?thesis
    proof (cases "i + 1 < length cards")
      case True
      then have "drop (i + 1) (ly_rows ly) = ly_rows ly ! (i + 1) # drop (i + 2) (ly_rows ly)"
        using len by (simp add: Cons_nth_drop_Suc)
      then show ?thesis
        using lower assms(4) ident[OF True] eq[OF True] pos[OF True]
        by (auto simp: hit_test_drop_target_def unless_source_def pointer_gap_def Let_def)
    next
      case False
      then have "drop (i + 1) (ly_rows ly) = []" "i + 1 = length cards" using len assms(5) by simp_all
      then show ?thesis
        using lower assms(3-5) ident[OF assms(5)] eq[OF assms(5)] pos[OF assms(5)]
        by (auto simp: hit_test_drop_target_def unless_source_def pointer_gap_def Let_def)
    qed
  qed
qed

text \<open>C37: A card that is pressed, carried over a row at least five pixels away and released after a frame goes to
  the gap between rows that the pointer is in: above the row in its upper half, below it in its lower
  half. At the card's own gaps nothing is moved. Either way the session is over. The rows are those the
  browser shows for the scroll position, after the scrolling of that frame if the pointer was at an edge of
  the pane.\<close>

theorem drop_lands_in_the_gap:
  assumes "dg_session d = None" "dg_mode d = ''anywhere''" "drag_allowed (ui_view (dt_ui st)) d"
    and "auto_scroll_step (de_pane env (dg_scroll d)) y d = (scrolled, d1)"
    and "distinct (map card_id cards)" "cards = detail_filtered (de_detail env) st" "src < length cards"
    and "map dr_id (ly_rows ly) = map card_id cards" "ly = de_layout env (if scrolled then dg_scroll d1 else dg_scroll d)"
    and "ly_under ly x y = Some i" "i < length cards" "(x - x0) * (x - x0) + (y - y0) * (y - y0) \<ge> 25"
    and "gesture env [PointerDown (card_id (cards ! src)) ''mouse'' 0 p x0 y0, PointerMove p x y, Frame, PointerUp p] (d, st) =
      Ok (d', st')"
  shows "dg_session d' = None \<and>
    (let gap = pointer_gap ly i y in
     if gap = src \<or> gap = src + 1 then st' = st
     else detail_place (de_detail env) (cards ! src) (At (if gap > src then gap - 1 else gap)) st = Ok st')"
proof -
  let ?uid = "card_id (cards ! src)"
  let ?moved = "\<lparr>ds_source = ?uid, ds_pointer = p, ds_start = (x0, y0), ds_active = True, ds_pending = Some (x, y),
    ds_last = Some (x, y), ds_frame = True\<rparr>"
  let ?ses = "?moved\<lparr>ds_pending := None, ds_frame := scrolled\<rparr>"
  let ?carried = "d\<lparr>dg_active_card := Some ?uid, dg_body_dragging := True, dg_session := Some ?moved\<rparr>"
  let ?d = "?carried\<lparr>dg_scroll := dg_scroll d1, dg_drop_target := hit_test_drop_target ly x y ?uid, dg_session := Some ?ses\<rparr>"
  have on: "dg_enabled d" "reorder_allowed (ui_view (dt_ui st))" using assms(3) by (simp_all add: drag_allowed_def)
  have far: "\<not> (x - x0) * (x - x0) + (y - y0) * (y - y0) < DRAG_ACTIVATION_PX * DRAG_ACTIVATION_PX"
    using assms(12) by (simp add: DRAG_ACTIVATION_PX_def)
  have moves: "drag_step env (PointerMove p x y) (on_wrapper_pointerdown (ui_view (dt_ui st)) ?uid ''mouse'' 0 p x0 y0 d, st) =
      Ok (?carried, st)"
    using assms(1-3) on far
    by (simp add: on_wrapper_pointerdown_def active_drag_mode_def drag_mode_from_str_or_default_def start_pointer_drag_def
        build_session_def is_drag_in_flight_def on_pointer_move_def drag_moved_def activate_def)
  have "auto_scroll_step (de_pane env (dg_scroll ?carried)) y ?carried = (scrolled, ?carried\<lparr>dg_scroll := dg_scroll d1\<rparr>)"
    using auto_scroll_step_scrolls[of ?carried d] assms(4) by simp
  then have frame: "animation_frame env ?carried = ?d"
    by (subst animation_frame_active[of _ ?moved x y]) (simp_all add: on assms(9))
  have "session_released env ?ses (?d, st) = Ok (d', st')"
    using assms(13) moves frame by (simp add: on_pointer_up_def bind_outcome_Ok)
  then have commit: "commit_drop_if_eligible env ?ses (?d, st) = Ok st'"
    and d': "d' = install_click_swallower (finish_session ?d)"
    by (auto simp: session_released_def map_ok_Ok)
  have "find (\<lambda>c. card_id c = ?uid) cards = Some (cards ! src)"
    unfolding find_Some_iff
  proof (intro exI[of _ src] conjI allI impI)
    fix j assume j: "j < src"
    then show "card_id (cards ! j) \<noteq> ?uid"
      using nth_eq_iff_index_eq[OF assms(5), of j src] assms(7) by simp
  qed (use assms(7) in simp_all)
  then have "(case (case hit_test_drop_target ly x y ?uid of None \<Rightarrow> None
      | Some (target, edge) \<Rightarrow> drop_position cards ?uid target edge) of
        None \<Rightarrow> Ok st | Some pos \<Rightarrow> detail_place (de_detail env) (cards ! src) pos st) = Ok st'"
    using commit on assms(6) by (auto simp: commit_drop_if_eligible_def Let_def split: option.splits)
  then have "let gap = pointer_gap ly i y in
     if gap = src \<or> gap = src + 1 then st' = st
     else detail_place (de_detail env) (cards ! src) (At (if gap > src then gap - 1 else gap)) st = Ok st'"
    unfolding drop_at_gap[OF assms(5,8,7,10,11)] Let_def by (auto split: if_splits)
  moreover have "dg_session d' = None" by (simp add: d' install_click_swallower_def finish_session_def)
  ultimately show ?thesis by simp
qed

section \<open>A release before the frame\<close>

text \<open>The hit test runs once per frame and the release does not catch up with it: whatever the pointer
  crosses between the last frame and the release makes no difference to where the card goes. A
  flick from press to release within one frame moves nothing.\<close>

theorem release_uses_last_frame:
  assumes "dg_session d = Some ses" "ds_active ses" "ds_pointer ses = p" "dg_enabled d"
  shows "map_ok snd (gesture env [PointerMove p x y, PointerUp p] (d, st)) = map_ok snd (gesture env [PointerUp p] (d, st))"
proof -
  have "commit_drop_if_eligible env (ses\<lparr>ds_active := True, ds_pending := Some (x, y), ds_last := Some (x, y), ds_frame := True\<rparr>)
      (d\<lparr>dg_session := Some (ses\<lparr>ds_active := True, ds_pending := Some (x, y), ds_last := Some (x, y), ds_frame := True\<rparr>)\<rparr>, st) =
    commit_drop_if_eligible env ses (d, st)"
    by (simp add: commit_drop_if_eligible_def Let_def split: option.split)
  then show ?thesis
    using assms
    by (cases "commit_drop_if_eligible env ses (d, st)")
      (simp_all add: on_pointer_move_def drag_moved_def activate_def on_pointer_up_def session_released_def)
qed

text \<open>Two rows, forty pixels high.\<close>

definition demo_rows :: "rat \<Rightarrow> layout" where
  "demo_rows scroll =
     \<lparr>ly_rows = [\<lparr>dr_id = 4, dr_top = 100, dr_height = 40\<rparr>, \<lparr>dr_id = 3, dr_top = 140, dr_height = 40\<rparr>],
      ly_under = (\<lambda>x y. if 100 \<le> y \<and> y < 140 then Some 0 else if 140 \<le> y \<and> y < 180 then Some 1 else None)\<rparr>"

lemma demo_hits:
  "hit_test_drop_target (demo_rows 0) 10 130 4 = Some (3, Above)" "hit_test_drop_target (demo_rows 0) 10 170 4 = Some (3, Below)"
  "hit_test_drop_target (demo_rows 0) 10 110 3 = Some (4, Above)" "hit_test_drop_target (demo_rows 0) 10 20 3 = Some (4, Above)"
  "hit_test_drop_target (demo_rows 0) 10 500 3 = None"
  by (simp_all add: hit_test_drop_target_def demo_rows_def unless_source_def clamp_to_list_end_def Let_def)

definition demo_drag_env :: "(db, (uuid \<times> card) list, (uuid \<times> tag) list) drag_env" where
  "demo_drag_env = \<lparr>de_detail = demo_detail_env, de_layout = demo_rows, de_pane = (\<lambda>_. Some \<lparr>pn_top = 0, pn_bottom = 600, pn_window = 600, pn_max = 1000\<rparr>)\<rparr>"

definition demo_drag_detail :: "db detail" where
  "demo_drag_detail =
     demo_detail\<lparr>dt_ui := demo_ui\<lparr>ui_view := (ui_view demo_ui)\<lparr>v_due_date_filter := DueAll, v_sort_order := SortPriority,
        v_tag_filter := [], v_linked_card_filter := [], v_editing := False\<rparr>\<rparr>,
      dt_app := demo_offline\<lparr>app_cards := [listed_card 4 100, listed_card 3 49]\<rparr>\<rparr>"

lemma demo_filtered: "detail_filtered demo_detail_env demo_drag_detail = [listed_card 4 100, listed_card 3 49]"
  by (simp add: detail_filtered_def demo_drag_detail_def demo_detail_env_def demo_ui_def filtered_cards_def apply_all_filters_def
      apply_linked_card_filter_def apply_search_filter_def apply_tag_filter_def apply_due_date_filter_def
      apply_due_date_filter_with_today_def sort_by_le_def sort_cards_def demo_env_def Let_def)

lemma demo_drag_simps:
  "dn_keys_of demo_detail_env = (\<lambda>_. [])" "dn_timer demo_detail_env = 1"
  "ms_pending (ui_moves (dt_ui demo_drag_detail)) = None" "ms_debounce_enabled (ui_moves (dt_ui demo_drag_detail))"
  by (simp_all add: demo_detail_env_def demo_drag_detail_def demo_ui_def)

lemma demo_place:
  "\<exists>st'. detail_place demo_detail_env (listed_card 3 49) (At 0) demo_drag_detail = Ok st'"
proof -
  have ok: "nn_ok (card_count (listed_card u p)) \<and> inner (card_count (listed_card u p)) < i64_max" for u p
    by (simp add: listed_card_def nn_ok_def i64_max_def)
  obtain v where v: "reprioritised demo_hash 0 (listed_card 3 49) 28772 = Ok v" using ok reprioritised_runs by blast
  have place: "move_card (ce_random_range demo_env) [listed_card 4 100, listed_card 3 49] 3 (At 0) = Simple 28772"
    by (simp add: move_card_def bounds_for_position_def cap_edge_bounds_def try_place_def compute_priority_def Let_def
        MAX_EDGE_GAP_def JITTER_DIVISOR_def clamp_def demo_env_def i64_max_def i64_min_def)
  show ?thesis
    using v place
    by (simp add: detail_place_def demo_filtered demo_drag_simps enqueue_move_def merge_move_def
        apply_move_def burst_new_def build_versions_def arm_timer_def cancel_priority_timer_def Let_def)
qed

lemma demo_still:
  "auto_scroll_step (Some \<lparr>pn_top = 0, pn_bottom = 600, pn_window = 600, pn_max = 1000\<rparr>) 110 d = (False, d)"
  by (simp add: auto_scroll_step_def auto_scroll_delta_def AUTO_SCROLL_EDGE_PX_def)

theorem drop_lands_in_the_gap_witness:
  "\<exists>d' st'. gesture demo_drag_env [PointerDown 3 ''mouse'' 0 7 10 150, PointerMove 7 10 110, Frame, PointerUp 7]
      (new_drag True ''anywhere'', demo_drag_detail) = Ok (d', st') \<and> dg_session d' = None \<and>
    detail_place demo_detail_env (listed_card 3 49) (At 0) demo_drag_detail = Ok st'"
proof -
  let ?cards = "[listed_card 4 100, listed_card 3 49]"
  have env: "de_pane demo_drag_env = (\<lambda>_. Some \<lparr>pn_top = 0, pn_bottom = 600, pn_window = 600, pn_max = 1000\<rparr>)" "de_layout demo_drag_env = demo_rows" "de_detail demo_drag_env = demo_detail_env"
    by (simp_all add: demo_drag_env_def)
  have still: "auto_scroll_step (de_pane demo_drag_env (dg_scroll (new_drag True ''anywhere''))) 110 (new_drag True ''anywhere'') =
      (False, new_drag True ''anywhere'')"
    by (simp add: env demo_still)
  have start: "dg_session (new_drag True ''anywhere'') = None" "dg_mode (new_drag True ''anywhere'') = ''anywhere''"
    "dg_scroll (new_drag True ''anywhere'') = 0"
    by (simp_all add: new_drag_def)
  have allowed: "drag_allowed (ui_view (dt_ui demo_drag_detail)) (new_drag True ''anywhere'')"
    by (simp add: drag_allowed_def new_drag_def reorder_allowed_def sort_is_default_def sort_default_def demo_drag_detail_def
        demo_ui_def)
  have cards: "distinct (map card_id ?cards)" "?cards = detail_filtered (de_detail demo_drag_env) demo_drag_detail"
    "1 < length ?cards" "map dr_id (ly_rows (demo_rows 0)) = map card_id ?cards" "0 < length ?cards"
    "ly_under (demo_rows 0) 10 110 = Some 0" "demo_rows 0 = de_layout demo_drag_env (if False then dg_scroll (new_drag True ''anywhere'') else dg_scroll (new_drag True ''anywhere''))"
    by (simp_all add: env demo_filtered demo_rows_def start)
  have far: "((10 :: rat) - 10) * (10 - 10) + (110 - 150) * (110 - 150) \<ge> 25" by simp
  obtain st' where "detail_place demo_detail_env (listed_card 3 49) (At 0) demo_drag_detail = Ok st'" using demo_place by blast
  then obtain d' where run: "gesture demo_drag_env [PointerDown (card_id (?cards ! 1)) ''mouse'' 0 7 10 150, PointerMove 7 10 110, Frame, PointerUp 7]
      (new_drag True ''anywhere'', demo_drag_detail) = Ok (d', st')"
    using allowed demo_filtered
    by (simp add: on_wrapper_pointerdown_def active_drag_mode_def drag_mode_from_str_or_default_def start_pointer_drag_def
        build_session_def is_drag_in_flight_def on_pointer_move_def drag_moved_def activate_def animation_frame_def
        hit_test_at_def on_pointer_up_def session_released_def commit_drop_if_eligible_def
        new_drag_def env demo_still demo_hits drop_position_def DRAG_ACTIVATION_PX_def drag_allowed_def)
  from drop_lands_in_the_gap[OF start(1,2) allowed still cards(1,2,3,4,7,6,5) far run] run show ?thesis
    by (intro exI[of _ d'] exI[of _ st']) (simp add: env pointer_gap_def demo_rows_def)
qed

theorem drag_leaves_no_trace_witness:
  "drag_signals_ok demo_drag_env (new_drag True ''anywhere'') \<and>
   (\<exists>d st'. gesture demo_drag_env [PointerDown 3 ''mouse'' 0 7 10 150, PointerMove 7 10 110, Frame, SettingToggled]
      (new_drag True ''anywhere'', demo_drag_detail) = Ok (d, st') \<and> drag_signals_ok demo_drag_env d)"
proof -
  obtain d st' where run: "gesture demo_drag_env [PointerDown 3 ''mouse'' 0 7 10 150, PointerMove 7 10 110, Frame, SettingToggled]
      (new_drag True ''anywhere'', demo_drag_detail) = Ok (d, st')"
    by simp
  have start: "gesture demo_drag_env [] (new_drag True ''anywhere'', demo_drag_detail) = Ok (new_drag True ''anywhere'', demo_drag_detail)"
    by simp
  from drag_leaves_no_trace[OF run] drag_leaves_no_trace[OF start] run show ?thesis by blast
qed

end
