(* ===== verification/Spec2Isabelle.thy ===== *)
theory Spec2Isabelle
  imports Sync_Properties Server_Properties Client_Properties Filter_Properties Offline_Properties View_Properties Settings_Properties Wire_Properties Display_Properties Keyboard_Properties Editor_Properties Connection_Properties Tag_Properties Detail_Properties Schema_Properties Server_Loop Drag_Drop
begin

text \<open>
  BlazeList is a priority list of cards with tags, kept by a server (src/server) over SQLite and
  shown by offline-first clients (src/clients/lib, src/clients/wasm) that talk to it in the messages
  of src/protocol. This library models the three crates and proves what makes them correct.

  The parts and their theories, in the order the code layers them:

  \<^item> Protocol. \<open>Hashing\<close> (non_negative_i64, and hash/hash.rs: the byte layouts that are
    hashed), \<open>Entities\<close> (the Entity trait as the locale \<open>entity\<close>, deletions, root state), \<open>Cards\<close>
    and \<open>Tags\<close> (card.rs, tag.rs: first and next versions), \<open>Tag_Graph\<close> (tag/graph.rs: closure and
    cycle loops with their termination measures), \<open>Protocol_Types\<close> (types/: requests, responses,
    errors), \<open>Wire\<close> (framing and the version handshake).

  \<^item> Server. \<open>Storage_Db\<close> (tables as lists of rows, row codecs; helpers.rs, schema.rs, error.rs),
    \<open>Storage_Root\<close> (root.rs), \<open>Storage_Write\<close> (write.rs and implications.rs), \<open>Storage_Ops\<close> (every
    operation of the Storage trait, sqlite/mod.rs), \<open>Storage_Schema\<close> (schema.rs: opening a file, its tables and
    upgrades), \<open>Handler\<close> (handler.rs and one request stream of
    the QUIC and WebTransport loops), \<open>Server_Loop\<close> (both loops with all their connections, streams and
    subscribers, a step at a time in any order). The state is the record \<open>db\<close>; an operation takes the state and
    returns an \<open>outcome\<close> (a value, an error, or a panic) with the new state.

  \<^item> Server lemmas. \<open>Storage_Tables\<close>, \<open>Storage_Inner\<close>, \<open>Storage_Invariant\<close>,
    \<open>Storage_Steps\<close> carry the invariant \<open>storage_inv\<close> through every write to every reachable state;
    \<open>Storage_Implications\<close> does it for the tag rules; \<open>Storage_Reads\<close> has the contract of a change log
    (locale \<open>change_log\<close>), \<open>Storage_Accept\<close>, \<open>Storage_History\<close> and \<open>Storage_Total\<close>
    say what reads return, when pushes succeed and what they do, that histories are chains, and that
    no request panics. \<open>Server_Https\<close> is the plain HTTP side (https.rs: the configuration document, static
    files, the certificate hash) over the texts of \<open>Rust_Text\<close>.

  \<^item> Client library. \<open>Client_Sync\<close> (sync.rs), \<open>Client_Priority\<close> (priority.rs: midpoints, placement and
    the rebalance), \<open>Client_Placement\<close> (the order it keeps), \<open>Client_Filter\<close> (filter.rs and the
    filtered view of state/store.rs), \<open>Due_Date\<close> (due_date.rs), \<open>Client_Api\<close> (client.rs, error.rs),
    \<open>Display_Links\<close>, \<open>Display_Text\<close> (display.rs, tag_display.rs) with the lemmas of
    \<open>Task_Facts\<close>.

  \<^item> Web client. \<open>Client_Moves\<close> (state/drag.rs, state/pending_priority.rs), \<open>Client_View\<close> (the filters,
    panes and editors of state/store.rs, and state/query_params.rs) with the lemmas of \<open>View_Facts\<close>,
    \<open>Client_Storage\<close> (storage.rs), \<open>Client_Burst\<close> (the pushes of state/pending_priority.rs),
    \<open>Client_Offline\<close> (state/sync.rs) with the lemmas of \<open>Offline_Facts\<close> (the fate of a
    queued card), \<open>Offline_Sync\<close> (the client against the modelled server) and \<open>Offline_Queue\<close> (the
    queue as a state machine), \<open>Settings\<close> (state/settings.rs), \<open>Settings_Panel\<close> (the panel and the server's
    configuration in app.rs) with the lemmas of \<open>Settings_Facts\<close> and \<open>Settings_Config\<close>, \<open>Client_Wire\<close>
    (transport/wire.rs, transport/client.rs: the buffered reader, requests, subscriptions), \<open>Keyboard\<close>
    (components/keyboard.rs: the key handler and its sub-menus) with the lemmas of \<open>Keyboard_Facts\<close>,
    \<open>Card_Editor\<close> (components/card_editor.rs: the editor and its save) with those of \<open>Editor_Facts\<close>,
    \<open>Tag_Editor\<close> (components/tag_detail.rs and the form for a new tag) with \<open>Batch_Accept\<close> (when the server
    takes a batch) and \<open>Tag_Editor_Facts\<close> (the panel against the server),
    \<open>Version_History\<close> (components/version_history.rs: the histories of cards and tags),
    \<open>Card_Detail\<close> (components/card_detail.rs: the pane of a card), \<open>Card_Item\<close>
    (components/card_item.rs, toast.rs: the row of a card, swipes and their undo), \<open>Drag_Drop\<close>
    (components/drag_drop.rs: a drag from the press to the drop, with its properties),
    \<open>Connection\<close> (app.rs: the caches at the start, the connection loop and the tasks beside it).

  \<^item> Properties. \<open>Server_Properties\<close>, \<open>Sync_Properties\<close>, \<open>Client_Properties\<close>, \<open>Filter_Properties\<close>,
    \<open>Offline_Properties\<close>, \<open>View_Properties\<close>, \<open>Settings_Properties\<close>, \<open>Wire_Properties\<close>,
    \<open>Display_Properties\<close>, \<open>Keyboard_Properties\<close>,
    \<open>Editor_Properties\<close>, \<open>Connection_Properties\<close>, \<open>Tag_Properties\<close>, \<open>History_Properties\<close>,
    \<open>Detail_Properties\<close>, \<open>Schema_Properties\<close>; \<open>Demo\<close> has the concrete states and library instances of the witnesses.

  How the parts meet: \<open>handle_request\<close> is the only way into the storage, \<open>reachable\<close> and \<open>run\<close> are its
  closures, and \<open>online_request\<close> makes it a transport of the client, so that \<open>incremental_sync\<close>,
  \<open>push_card_or_queue\<close> and \<open>flush_offline_queue\<close> are proved against the server's own model; \<open>unreliable\<close> is a
  transport to the same server that may lose any request or its answer.

  Where a function is its own best description the properties restate it in other terms: the contents of
  the database as maps and lists on which an item of a request acts (\<open>contents\<close>, \<open>item_effect\<close>), a view as
  sets of tags, windows of milliseconds and sorted keys (\<open>tags_wanted\<close>, \<open>due_window\<close>, \<open>in_order\<close>), a run of
  the connection as the list of its events (\<open>event\<close>, \<open>happens\<close>), an upgrade as what becomes of each column
  of each row (\<open>rows_kept\<close>).

  What the code takes from elsewhere is a parameter: BLAKE3, the postcard codec of the tag columns and
  the range of timestamps (record \<open>ext\<close>, law \<open>postcard_ok\<close>), message codecs (law \<open>codec_ok\<close>), the index
  map of the crate indexmap (law \<open>index_map_ok\<close>), the browser's JSON parser (law \<open>json_ok\<close>), how a stream is cut into chunks (law
  \<open>chunking\<close>), the Markdown renderer, the iteration order of hash maps, random draws, clocks, Unicode lower-casing, strftime,
  and the order an unstable sort leaves equal elements in. No collision-freeness of the hash is
  assumed. A \<open>request_ok\<close> request is one whose values lie in the ranges of their Rust types and whose
  card and tag ids are told apart by a fixed set, as random UUIDs are.

  Integers are \<open>int\<close> with the i64 range written out where it is checked or saturated, ids and hashes
  are words. No definition takes fuel: loops are structural or have a measure.

  Not modelled: SQLite itself (what the pragmas do, the file format, the two connections; each SQL statement is an
  operation on the rows), endpoints, clocks and TLS; the user interface and its browser bindings; the development seeder;
  Display texts of errors and floating-point percentages. The tasks that keep the connection
  interleave at their awaits in \<open>Connection\<close>; elsewhere the functions of the web client run to their end.
\<close>

end
